(* ===== verification/Prelude.thy ===== *)
theory Prelude
  imports Main "HOL-Library.Word" "HOL-Library.Monad_Syntax"
begin

unbundle bit_operations_syntax

section \<open>Shared types, operations and lemmas\<close>

text \<open>
  The vocabulary every component theory uses.

  \<^item> Machine integers are words: the 4-byte \<open>page_id_t\<close>, \<open>lsn_t\<close> and the unsigned
    \<open>uint32_t\<close> are \<^typ>\<open>32 word\<close>, a \<open>char\<close> of a page is \<^typ>\<open>8 word\<close>.
  \<^item> A computation that can hit an assertion failure, a null dereference or an access
    outside an array returns an \<open>option\<close>; \<^term>\<open>None\<close> is that crash. \<^verbatim>\<open>v[i]\<close> on a vector or
    array is \<open>vec_get\<close> and \<open>vec_set\<close>.
  \<^item> \<^verbatim>\<open>common/config.h\<close> is not part of the repository. The constants the code takes from it
    are the fields of \<open>config\<close>, an argument of the definitions that use them.
\<close>

subsection \<open>Types\<close>

type_synonym byte = "8 word"
type_synonym bytes = "byte list"
type_synonym uint32 = "32 word"
type_synonym page_id_t = "32 word"
type_synonym lsn_t = "32 word"
type_synonym frame_id_t = nat

record config =
  PAGE_SIZE :: nat
  INVALID_PAGE_ID :: page_id_t
  INVALID_LSN :: lsn_t

subsection \<open>Collections of rewrite rules\<close>

named_theorems crash_simps \<open>splitting of computations that may crash\<close>
named_theorems page_simps \<open>reads over writes of page memory\<close>
named_theorems inv_intros \<open>preservation of component invariants\<close>

lemmas [crash_simps] = bind_eq_Some_conv

subsection \<open>Vectors with bounds\<close>

definition vec_get :: "'a list \<Rightarrow> nat \<Rightarrow> 'a option" where
  "vec_get xs i = (if i < length xs then Some (xs ! i) else None)"

definition vec_set :: "'a list \<Rightarrow> nat \<Rightarrow> 'a \<Rightarrow> 'a list option" where
  "vec_set xs i x = (if i < length xs then Some (xs[i := x]) else None)"

definition assert_that :: "bool \<Rightarrow> unit option" where
  "assert_that b = (if b then Some () else None)"

lemma vec_get_Some [crash_simps]: "vec_get xs i = Some x \<longleftrightarrow> i < length xs \<and> x = xs ! i"
  by (auto simp: vec_get_def)

lemma vec_set_Some [crash_simps]: "vec_set xs i x = Some ys \<longleftrightarrow> i < length xs \<and> ys = xs[i := x]"
  by (auto simp: vec_set_def)

lemma assert_that_Some [crash_simps]: "assert_that b = Some u \<longleftrightarrow> b"
  by (auto simp: assert_that_def)

lemma vec_get_in [simp]: "i < length xs \<Longrightarrow> vec_get xs i = Some (xs ! i)"
  by (simp add: vec_get_def)

lemma vec_set_in [simp]: "i < length xs \<Longrightarrow> vec_set xs i x = Some (xs[i := x])"
  by (simp add: vec_set_def)

lemma assert_that_True [simp]: "b \<Longrightarrow> assert_that b = Some ()"
  by (simp add: assert_that_def)

subsection \<open>Lists\<close>

lemma distinct_remove1_set: "distinct xs \<Longrightarrow> set (remove1 x xs) = set xs - {x}"
  by (induction xs) auto

lemma remove1_filter: "distinct xs \<Longrightarrow> remove1 x xs = filter (\<lambda>y. y \<noteq> x) xs"
  by (rule distinct_remove1_removeAll [THEN trans]) (auto simp: removeAll_filter_not_eq intro: filter_cong)

lemma butlast_last_cases: "xs = [] \<or> xs = butlast xs @ [last xs]"
  by (cases "xs = []") auto

lemma map_leD: "m \<subseteq>\<^sub>m m' \<Longrightarrow> m a = Some x \<Longrightarrow> m' a = Some x"
  by (metis map_le_def domI)

subsection \<open>Words\<close>

lemma sint_of_nat_small:
  assumes "n < 2 ^ (LENGTH('a) - Suc 0)"
  shows "sint (of_nat n :: 'a::len word) = int n"
proof -
  have "int n < 2 ^ (LENGTH('a) - Suc 0)"
    using assms by (metis of_nat_less_iff of_nat_numeral of_nat_power)
  moreover have "- (2 ^ (LENGTH('a) - Suc 0)) \<le> int n"
    by (rule order_trans [of _ 0]) simp_all
  ultimately have "signed_take_bit (LENGTH('a) - Suc 0) (int n) = int n"
    by (intro signed_take_bit_int_eq_self)
  then show ?thesis by (simp add: signed_of_nat)
qed

lemma sint_eq_unat:
  assumes "unat w < 2 ^ (LENGTH('a) - Suc 0)"
  shows "sint (w :: 'a::len word) = int (unat w)"
  using sint_of_nat_small [OF assms] by simp

lemma unat_of_nat_small: "n < 2 ^ LENGTH('a) \<Longrightarrow> unat (of_nat n :: 'a::len word) = n"
  by (simp add: unat_of_nat)

lemma unat_scast_up:
  fixes w :: "'a::len word"
  assumes "unat w < 2 ^ (LENGTH('a) - Suc 0)" and "LENGTH('a) \<le> LENGTH('b)"
  shows "unat (scast w :: 'b::len word) = unat w"
proof -
  have "unat w < 2 ^ LENGTH('b)"
    using assms power_increasing [of "LENGTH('a) - Suc 0" "LENGTH('b)" "2::nat"] by linarith
  moreover have "(scast w :: 'b word) = of_nat (unat w)"
    using sint_eq_unat [OF assms(1)] by (simp add: scast_eq)
  ultimately show ?thesis by (simp only: unat_of_nat_small)
qed

lemma unat_ucast_up:
  fixes w :: "'a::len word"
  assumes "LENGTH('a) \<le> LENGTH('b)"
  shows "unat (ucast w :: 'b::len word) = unat w"
proof -
  have "unat w < 2 ^ LENGTH('b)"
    using unsigned_less [of w] power_increasing [OF assms, of "2::nat"] by (meson less_le_trans one_le_numeral)
  then show ?thesis by (simp add: unsigned_ucast_eq take_bit_nat_eq_self)
qed

lemma unat_and_pow_minus_1: "unat ((w :: 'a::len word) AND (2 ^ g - 1)) = unat w mod 2 ^ g"
proof -
  have "unat (w AND (2 ^ g - 1)) = unat (take_bit g w)"
    by (simp add: take_bit_eq_mask mask_eq_exp_minus_1)
  also have "\<dots> = take_bit g (unat w)" by (simp only: unsigned_take_bit_eq)
  finally show ?thesis by (simp only: take_bit_eq_mod)
qed

end
