(* ===== verification/Strings.thy ===== *)
theory Strings
  imports Prelude
begin

section \<open>Text and bytes of the standard library\<close>

text \<open>
  What the type system uses of the C++ library: \<open>std::to_string\<close> and \<open>strtol\<close> (below \<open>stoi\<close> and
  \<open>stoll\<close>) on decimal numbers, \<open>tolower\<close>, \<open>memcmp\<close>, and the little-endian bytes of an integer.
  The lemmas show that reading what was printed or stored gives the number back.
\<close>

subsection \<open>Decimal numbers\<close>

definition digit_char :: "nat \<Rightarrow> char" where
  "digit_char d = char_of (48 + d)"

fun nat_to_string :: "nat \<Rightarrow> string" where
  "nat_to_string n = (if n < 10 then [digit_char n] else nat_to_string (n div 10) @ [digit_char (n mod 10)])"

declare nat_to_string.simps [simp del]

definition int_to_string :: "int \<Rightarrow> string" where
  "int_to_string i = (if i < 0 then CHR 0x2D # nat_to_string (nat (- i)) else nat_to_string (nat i))"

definition isdigit :: "char \<Rightarrow> bool" where
  "isdigit c \<longleftrightarrow> 48 \<le> (of_char c :: nat) \<and> (of_char c :: nat) \<le> 57"

definition isspace :: "char \<Rightarrow> bool" where
  "isspace c \<longleftrightarrow> (of_char c :: nat) = 32 \<or> (9 \<le> (of_char c :: nat) \<and> (of_char c :: nat) \<le> 13)"

definition digit_value :: "char \<Rightarrow> nat" where
  "digit_value c = of_char c - 48"

fun digits_value :: "nat \<Rightarrow> string \<Rightarrow> nat" where
  "digits_value acc [] = acc"
| "digits_value acc (c # cs) = digits_value (10 * acc + digit_value c) cs"

text \<open>\<open>strtol\<close> in base 10: leading space, one sign, then the longest run of digits; \<^term>\<open>None\<close> when
  there is no digit.\<close>

definition parse_digits :: "string \<Rightarrow> nat option" where
  "parse_digits s = (let ds = takeWhile isdigit s in if ds = [] then None else Some (digits_value 0 ds))"

definition parse_int :: "string \<Rightarrow> int option" where
  "parse_int s = (case dropWhile isspace s of
     [] \<Rightarrow> None
   | c # cs \<Rightarrow>
       if c = CHR 0x2D then map_option (\<lambda>n. - int n) (parse_digits cs)
       else if c = CHR 0x2B then map_option int (parse_digits cs)
       else map_option int (parse_digits (c # cs)))"

lemma of_char_digit: "d < 10 \<Longrightarrow> (of_char (digit_char d) :: nat) = 48 + d"
  by (simp add: digit_char_def of_char_of)

lemma digit_char_props [simp]:
  assumes "d < 10"
  shows "isdigit (digit_char d)" "digit_value (digit_char d) = d"
    "\<not> isspace (digit_char d)" "digit_char d \<noteq> CHR 0x2D" "digit_char d \<noteq> CHR 0x2B"
proof -
  note * = of_char_digit [OF assms]
  show "isdigit (digit_char d)" "digit_value (digit_char d) = d" "\<not> isspace (digit_char d)"
    using assms by (simp_all add: isdigit_def digit_value_def isspace_def *)
  have "(of_char (CHR 0x2D) :: nat) = 45" "(of_char (CHR 0x2B) :: nat) = 43"
    by (simp_all add: of_char_def)
  with * show "digit_char d \<noteq> CHR 0x2D" "digit_char d \<noteq> CHR 0x2B" by auto
qed

lemma digits_value_append: "digits_value acc (xs @ ys) = digits_value (digits_value acc xs) ys"
  by (induction xs arbitrary: acc) auto

lemma nat_to_string_digits:
  "nat_to_string n \<noteq> [] \<and> (\<forall>c\<in>set (nat_to_string n). isdigit c) \<and> digits_value 0 (nat_to_string n) = n"
proof (induction n rule: nat_to_string.induct)
  case (1 n)
  show ?case
  proof (cases "n < 10")
    case True
    then show ?thesis by (subst (1 2 3) nat_to_string.simps) simp
  next
    case False
    with 1 have IH: "\<forall>c\<in>set (nat_to_string (n div 10)). isdigit c"
      "digits_value 0 (nat_to_string (n div 10)) = n div 10" by auto
    have "nat_to_string n = nat_to_string (n div 10) @ [digit_char (n mod 10)]"
      using False by (subst nat_to_string.simps) simp
    with IH show ?thesis by (auto simp: digits_value_append)
  qed
qed

lemma parse_digits_to_string: "parse_digits (nat_to_string n) = Some n"
  using nat_to_string_digits [of n] by (simp add: parse_digits_def Let_def takeWhile_eq_all_conv [THEN iffD2])

lemma isdigit_not_sign: "isdigit c \<Longrightarrow> \<not> isspace c \<and> c \<noteq> CHR 0x2D \<and> c \<noteq> CHR 0x2B"
  by (auto simp: isdigit_def isspace_def of_char_def)

theorem parse_int_to_string: "parse_int (int_to_string i) = Some i"
proof (cases "i < 0")
  case True
  moreover have "\<not> isspace (CHR 0x2D)" by (simp add: isspace_def of_char_def)
  ultimately show ?thesis by (simp add: int_to_string_def parse_int_def parse_digits_to_string)
next
  case False
  obtain c cs where c: "nat_to_string (nat i) = c # cs" and "isdigit c"
    using nat_to_string_digits [of "nat i"] by (cases "nat_to_string (nat i)") auto
  with isdigit_not_sign [of c] False parse_digits_to_string [of "nat i"] show ?thesis
    by (simp add: int_to_string_def parse_int_def)
qed

lemma nat_to_string_length: "n < 10 ^ k \<Longrightarrow> 0 < k \<Longrightarrow> length (nat_to_string n) \<le> k"
proof (induction k arbitrary: n)
  case (Suc k)
  show ?case
  proof (cases "n < 10")
    case False
    with Suc.prems have "n div 10 < 10 ^ k" "0 < k"
      by (auto simp: less_mult_imp_div_less mult.commute intro!: Nat.gr0I)
    from Suc.IH [OF this] False show ?thesis by (subst nat_to_string.simps) simp
  qed (simp add: nat_to_string.simps)
qed simp

subsection \<open>Characters\<close>

definition tolower :: "char \<Rightarrow> char" where
  "tolower c = (let n = of_char c :: nat in if 65 \<le> n \<and> n \<le> 90 then char_of (n + 32) else c)"

definition toupper :: "char \<Rightarrow> char" where
  "toupper c = (let n = of_char c :: nat in if 97 \<le> n \<and> n \<le> 122 then char_of (n - 32) else c)"

text \<open>\<open>memcmp\<close>: the difference of the first two bytes that differ.\<close>

fun memcmp :: "string \<Rightarrow> string \<Rightarrow> int" where
  "memcmp (a # as) (b # bs) = (if a = b then memcmp as bs else int (of_char a) - int (of_char b))"
| "memcmp _ _ = 0"

subsection \<open>Little-endian bytes\<close>

fun le_bytes :: "nat \<Rightarrow> 64 word \<Rightarrow> bytes" where
  "le_bytes 0 w = []"
| "le_bytes (Suc n) w = ucast w # le_bytes n (drop_bit 8 w)"

fun le_word :: "bytes \<Rightarrow> 64 word" where
  "le_word [] = 0"
| "le_word (b # bs) = ucast b OR push_bit 8 (le_word bs)"

lemma length_le_bytes [simp]: "length (le_bytes n w) = n"
  by (induction n arbitrary: w) auto

lemma le_word_le_bytes: "le_word (le_bytes n w) = take_bit (8 * n) w"
proof (induction n arbitrary: w)
  case (Suc n)
  show ?case
    by (rule bit_word_eqI) (auto simp: Suc bit_simps)
qed simp

lemma ucast_head: "ucast (take_bit 32 (ucast (len :: uint32)) :: 64 word) = len"
  by (rule bit_word_eqI) (auto simp: bit_simps)

end
