(* ===== verification/Values.thy ===== *)
theory Values
  imports Strings "HOL-Library.Signed_Division"
begin

section \<open>Values of the SQL types\<close>

text \<open>
  \<^verbatim>\<open>type/value.{h,cpp}\<close>, \<^verbatim>\<open>type/limits.h\<close>, \<^verbatim>\<open>type/type.{h,cpp}\<close> and \<^verbatim>\<open>common/exception.h\<close>: the type
  ids, the tagged value, its constructors and the base class whose methods all throw.

  \<^item> A call that throws returns \<^term>\<open>Inl\<close> of an error: an \<open>Exception\<close> of the program with its
    type and message, a \<open>std::invalid_argument\<close> or \<open>std::out_of_range\<close> of the string
    conversions, the \<open>std::logic_error\<close> of \<open>UNREACHABLE\<close>, or \<open>Crash\<close> for a failed assertion, a null pointer or memory outside a buffer.
  \<^item> \<open>val_raw\<close> is the union \<open>value_\<close> of the numeric members, 8 bytes of a little-endian machine: member
    \<open>int8_t\<close> is the low byte and so on, and a double is its 64-bit pattern. Writing a narrow
    member leaves the other bytes, which nothing reads, at zero.
  \<^item> \<open>val_varlen\<close> is the memory the pointer member points to. Who frees it is not modelled.
  \<^item> \<open>int\<close> arithmetic on these machine integers wraps at the width of the promoted operands.
  \<^item> The floating-point unit is the record \<open>double_ops\<close>, an argument of what uses doubles.
\<close>

subsection \<open>Errors and results\<close>

datatype ExceptionType = E_INVALID | E_OUT_OF_RANGE | E_CONVERSION | E_UNKNOWN_TYPE | E_DECIMAL
  | E_MISMATCH_TYPE | E_DIVIDE_BY_ZERO | E_INCOMPATIBLE_TYPE | E_OUT_OF_MEMORY | E_NOT_IMPLEMENTED

fun ExceptionTypeToString :: "ExceptionType \<Rightarrow> string" where
  "ExceptionTypeToString E_INVALID = ''Invalid''"
| "ExceptionTypeToString E_OUT_OF_RANGE = ''Out of Range''"
| "ExceptionTypeToString E_CONVERSION = ''Conversion''"
| "ExceptionTypeToString E_UNKNOWN_TYPE = ''Unknown Type''"
| "ExceptionTypeToString E_DECIMAL = ''Decimal''"
| "ExceptionTypeToString E_MISMATCH_TYPE = ''Mismatch Type''"
| "ExceptionTypeToString E_DIVIDE_BY_ZERO = ''Divide by Zero''"
| "ExceptionTypeToString E_INCOMPATIBLE_TYPE = ''Incompatible type''"
| "ExceptionTypeToString E_OUT_OF_MEMORY = ''Out of Memory''"
| "ExceptionTypeToString E_NOT_IMPLEMENTED = ''Not implemented''"

datatype error = Exception ExceptionType string | StdInvalidArgument | StdOutOfRange | StdLogicError | Crash

type_synonym 'a result = "error + 'a"

definition throw :: "ExceptionType \<Rightarrow> string \<Rightarrow> 'a result" where
  "throw e msg = Inl (Exception e msg)"

text \<open>The one-argument constructor of \<open>Exception\<close> has type \<open>INVALID\<close>.\<close>

definition throw_msg :: "string \<Rightarrow> 'a result" where
  "throw_msg msg = throw E_INVALID msg"

definition throw_range :: "'a result" where
  "throw_range = throw E_OUT_OF_RANGE ''Numeric value out of range.''"

definition andThen :: "'a result \<Rightarrow> ('a \<Rightarrow> 'b result) \<Rightarrow> 'b result" where
  "andThen m f = (case m of Inl e \<Rightarrow> Inl e | Inr x \<Rightarrow> f x)"

definition ensure :: "bool \<Rightarrow> 'a result \<Rightarrow> 'a result" where
  "ensure b m = (if b then m else Inl Crash)"

lemma andThen_simps [simp]: "andThen (Inl e) f = Inl e" "andThen (Inr x) f = f x" "andThen m Inr = m"
  by (simp_all add: andThen_def split: sum.split)

lemma andThen_assoc: "andThen (andThen m f) g = andThen m (\<lambda>x. andThen (f x) g)"
  by (cases m) simp_all

lemma ensure_True [simp]: "b \<Longrightarrow> ensure b m = m"
  by (simp add: ensure_def)

lemma andThen_Inr: "andThen m f = Inr y \<longleftrightarrow> (\<exists>x. m = Inr x \<and> f x = Inr y)"
  by (cases m) auto

subsection \<open>Machine integers and doubles\<close>

datatype int_t = int8_t | int16_t | int32_t | int64_t

fun bits :: "int_t \<Rightarrow> nat" where
  "bits int8_t = 8"
| "bits int16_t = 16"
| "bits int32_t = 32"
| "bits int64_t = 64"

text \<open>Conversion to a signed type of \<open>n\<close> bits, and the width an operation on two integers is
  computed in after the integral promotions.\<close>

definition wrap :: "nat \<Rightarrow> int \<Rightarrow> int" where
  "wrap n i = signed_take_bit (n - 1) i"

definition promoted :: "int_t \<Rightarrow> int_t \<Rightarrow> nat" where
  "promoted T1 T2 = max 32 (max (bits T1) (bits T2))"

type_synonym double = "64 word"

record double_ops =
  d_add :: "double \<Rightarrow> double \<Rightarrow> double"
  d_sub :: "double \<Rightarrow> double \<Rightarrow> double"
  d_mul :: "double \<Rightarrow> double \<Rightarrow> double"
  d_div :: "double \<Rightarrow> double \<Rightarrow> double"
  d_eq :: "double \<Rightarrow> double \<Rightarrow> bool"
  d_lt :: "double \<Rightarrow> double \<Rightarrow> bool"
  d_le :: "double \<Rightarrow> double \<Rightarrow> bool"
  d_sqrt :: "double \<Rightarrow> double"
  d_trunc :: "double \<Rightarrow> double"
  d_of_int :: "int \<Rightarrow> double"
  d_to_int :: "double \<Rightarrow> int"
  d_to_string :: "double \<Rightarrow> string"
  d_stod :: "string \<Rightarrow> double result"
  DBL_LOWEST :: double
  DBL_MAX :: double
  FLT_LOWEST :: double

subsection \<open>Type ids, limits and the value\<close>

datatype TypeId = INVALID | BOOLEAN | TINYINT | SMALLINT | INTEGER | BIGINT | DECIMAL | VARCHAR | TIMESTAMP

datatype CmpBool = CmpFalse | CmpTrue | CmpNull

definition BUSTUB_INT8_MIN :: int where "BUSTUB_INT8_MIN = - 127"
definition BUSTUB_INT16_MIN :: int where "BUSTUB_INT16_MIN = - 32767"
definition BUSTUB_INT32_MIN :: int where "BUSTUB_INT32_MIN = - 2147483647"
definition BUSTUB_INT64_MIN :: int where "BUSTUB_INT64_MIN = - 9223372036854775807"
definition BUSTUB_INT8_MAX :: int where "BUSTUB_INT8_MAX = 127"
definition BUSTUB_INT16_MAX :: int where "BUSTUB_INT16_MAX = 32767"
definition BUSTUB_INT32_MAX :: int where "BUSTUB_INT32_MAX = 2147483647"
definition BUSTUB_INT64_MAX :: int where "BUSTUB_INT64_MAX = 9223372036854775807"
definition BUSTUB_TIMESTAMP_MAX :: int where "BUSTUB_TIMESTAMP_MAX = 11231999986399999999"
definition BUSTUB_INT8_NULL :: int where "BUSTUB_INT8_NULL = - 128"
definition BUSTUB_INT16_NULL :: int where "BUSTUB_INT16_NULL = - 32768"
definition BUSTUB_INT32_NULL :: int where "BUSTUB_INT32_NULL = - 2147483648"
definition BUSTUB_INT64_NULL :: int where "BUSTUB_INT64_NULL = - 9223372036854775808"
definition BUSTUB_BOOLEAN_NULL :: int where "BUSTUB_BOOLEAN_NULL = - 128"
definition BUSTUB_TIMESTAMP_NULL :: int where "BUSTUB_TIMESTAMP_NULL = 18446744073709551615"
definition BUSTUB_VALUE_NULL :: uint32 where "BUSTUB_VALUE_NULL = - 1"
definition BUSTUB_VARCHAR_MAX_LEN :: uint32 where "BUSTUB_VARCHAR_MAX_LEN = - 1"

lemmas limit_defs = BUSTUB_INT8_MIN_def BUSTUB_INT16_MIN_def BUSTUB_INT32_MIN_def BUSTUB_INT64_MIN_def
  BUSTUB_INT8_MAX_def BUSTUB_INT16_MAX_def BUSTUB_INT32_MAX_def BUSTUB_INT64_MAX_def
  BUSTUB_INT8_NULL_def BUSTUB_INT16_NULL_def BUSTUB_INT32_NULL_def BUSTUB_INT64_NULL_def
  BUSTUB_BOOLEAN_NULL_def BUSTUB_TIMESTAMP_NULL_def BUSTUB_TIMESTAMP_MAX_def
  BUSTUB_VALUE_NULL_def BUSTUB_VARCHAR_MAX_LEN_def

record Value =
  val_raw :: "64 word"
  val_varlen :: "string option"
  val_len :: uint32
  val_type :: TypeId

definition GetTypeId :: "Value \<Rightarrow> TypeId" where
  "GetTypeId v = val_type v"

definition IsNull :: "Value \<Rightarrow> bool" where
  "IsNull v \<longleftrightarrow> val_len v = BUSTUB_VALUE_NULL"

fun GetAs :: "int_t \<Rightarrow> Value \<Rightarrow> int" where
  "GetAs int8_t v = sint (ucast (val_raw v) :: 8 word)"
| "GetAs int16_t v = sint (ucast (val_raw v) :: 16 word)"
| "GetAs int32_t v = sint (ucast (val_raw v) :: 32 word)"
| "GetAs int64_t v = sint (val_raw v)"

definition GetAs_uint64 :: "Value \<Rightarrow> int" where
  "GetAs_uint64 v = uint (val_raw v)"

definition GetAs_double :: "Value \<Rightarrow> double" where
  "GetAs_double v = val_raw v"

definition GetCmpBool :: "bool \<Rightarrow> CmpBool" where
  "GetCmpBool b = (if b then CmpTrue else CmpFalse)"

subsection \<open>Constructors\<close>

definition new_Value :: "TypeId \<Rightarrow> Value" where
  "new_Value type = \<lparr>val_raw = 0, val_varlen = None, val_len = BUSTUB_VALUE_NULL, val_type = type\<rparr>"

fun store_member :: "int_t \<Rightarrow> int \<Rightarrow> 64 word" where
  "store_member int8_t i = ucast (word_of_int i :: 8 word)"
| "store_member int16_t i = ucast (word_of_int i :: 16 word)"
| "store_member int32_t i = ucast (word_of_int i :: 32 word)"
| "store_member int64_t i = word_of_int i"

definition member_value :: "TypeId \<Rightarrow> int_t \<Rightarrow> int \<Rightarrow> int \<Rightarrow> Value" where
  "member_value type T null i =
     (let v = (new_Value type)\<lparr>val_raw := store_member T i\<rparr>
      in v\<lparr>val_len := (if GetAs T v = null then BUSTUB_VALUE_NULL else 0)\<rparr>)"

definition timestamp_value :: "TypeId \<Rightarrow> int \<Rightarrow> Value" where
  "timestamp_value type i =
     (let v = (new_Value type)\<lparr>val_raw := word_of_int i\<rparr>
      in v\<lparr>val_len := (if GetAs_uint64 v = BUSTUB_TIMESTAMP_NULL then BUSTUB_VALUE_NULL else 0)\<rparr>)"

definition Value_int8 :: "TypeId \<Rightarrow> int \<Rightarrow> Value result" where
  "Value_int8 type i = (case type of
     BOOLEAN \<Rightarrow> Inr (member_value BOOLEAN int8_t BUSTUB_BOOLEAN_NULL i)
   | TINYINT \<Rightarrow> Inr (member_value TINYINT int8_t BUSTUB_INT8_NULL i)
   | SMALLINT \<Rightarrow> Inr (member_value SMALLINT int16_t BUSTUB_INT16_NULL i)
   | INTEGER \<Rightarrow> Inr (member_value INTEGER int32_t BUSTUB_INT32_NULL i)
   | BIGINT \<Rightarrow> Inr (member_value BIGINT int64_t BUSTUB_INT64_NULL i)
   | _ \<Rightarrow> throw E_INCOMPATIBLE_TYPE ''Invalid Type for one-byte Value constructor'')"

definition Value_int16 :: "TypeId \<Rightarrow> int \<Rightarrow> Value result" where
  "Value_int16 type i = (case type of
     BOOLEAN \<Rightarrow> Inr (member_value BOOLEAN int8_t BUSTUB_BOOLEAN_NULL i)
   | TINYINT \<Rightarrow> Inr (member_value TINYINT int8_t BUSTUB_INT8_NULL i)
   | SMALLINT \<Rightarrow> Inr (member_value SMALLINT int16_t BUSTUB_INT16_NULL i)
   | INTEGER \<Rightarrow> Inr (member_value INTEGER int32_t BUSTUB_INT32_NULL i)
   | BIGINT \<Rightarrow> Inr (member_value BIGINT int64_t BUSTUB_INT64_NULL i)
   | TIMESTAMP \<Rightarrow> Inr (timestamp_value TIMESTAMP i)
   | _ \<Rightarrow> throw E_INCOMPATIBLE_TYPE ''Invalid Type for two-byte Value constructor'')"

definition Value_int32 :: "TypeId \<Rightarrow> int \<Rightarrow> Value result" where
  "Value_int32 type i = (case type of
     BOOLEAN \<Rightarrow> Inr (member_value BOOLEAN int8_t BUSTUB_BOOLEAN_NULL i)
   | TINYINT \<Rightarrow> Inr (member_value TINYINT int8_t BUSTUB_INT8_NULL i)
   | SMALLINT \<Rightarrow> Inr (member_value SMALLINT int16_t BUSTUB_INT16_NULL i)
   | INTEGER \<Rightarrow> Inr (member_value INTEGER int32_t BUSTUB_INT32_NULL i)
   | BIGINT \<Rightarrow> Inr (member_value BIGINT int64_t BUSTUB_INT64_NULL i)
   | TIMESTAMP \<Rightarrow> Inr (timestamp_value TIMESTAMP i)
   | _ \<Rightarrow> throw E_INCOMPATIBLE_TYPE ''Invalid Type for integer_ Value constructor'')"

definition Value_int64 :: "TypeId \<Rightarrow> int \<Rightarrow> Value result" where
  "Value_int64 type i = (case type of
     BOOLEAN \<Rightarrow> Inr (member_value BOOLEAN int8_t BUSTUB_BOOLEAN_NULL i)
   | TINYINT \<Rightarrow> Inr (member_value TINYINT int8_t BUSTUB_INT8_NULL i)
   | SMALLINT \<Rightarrow> Inr (member_value SMALLINT int16_t BUSTUB_INT16_NULL i)
   | INTEGER \<Rightarrow> Inr (member_value INTEGER int32_t BUSTUB_INT32_NULL i)
   | BIGINT \<Rightarrow> Inr (member_value BIGINT int64_t BUSTUB_INT64_NULL i)
   | TIMESTAMP \<Rightarrow> Inr (timestamp_value TIMESTAMP i)
   | _ \<Rightarrow> throw E_INCOMPATIBLE_TYPE ''Invalid Type for eight-byte Value constructor'')"

definition Value_uint64 :: "TypeId \<Rightarrow> int \<Rightarrow> Value result" where
  "Value_uint64 type i = (case type of
     BIGINT \<Rightarrow> Inr (member_value BIGINT int64_t BUSTUB_INT64_NULL i)
   | TIMESTAMP \<Rightarrow> Inr (timestamp_value TIMESTAMP i)
   | _ \<Rightarrow> throw E_INCOMPATIBLE_TYPE ''Invalid Type for timestamp_ Value constructor'')"

definition Value_double :: "double_ops \<Rightarrow> TypeId \<Rightarrow> double \<Rightarrow> Value result" where
  "Value_double F type d = (case type of
     DECIMAL \<Rightarrow> Inr ((new_Value DECIMAL)\<lparr>val_raw := d,
       val_len := (if d_eq F d (DBL_LOWEST F) then BUSTUB_VALUE_NULL else 0)\<rparr>)
   | _ \<Rightarrow> throw E_INCOMPATIBLE_TYPE ''Invalid Type for double Value constructor'')"

text \<open>\<open>data\<close> is the memory from the pointer on, \<^term>\<open>None\<close> the null pointer.\<close>

definition Value_varlen :: "TypeId \<Rightarrow> string option \<Rightarrow> uint32 \<Rightarrow> bool \<Rightarrow> Value result" where
  "Value_varlen type data len manage_data = (case type of
     VARCHAR \<Rightarrow> (case data of
         None \<Rightarrow> Inr (new_Value VARCHAR)
       | Some s \<Rightarrow> ensure ((manage_data \<longrightarrow> len < BUSTUB_VARCHAR_MAX_LEN) \<and> unat len \<le> length s)
           (Inr ((new_Value VARCHAR)\<lparr>val_varlen := Some (take (unat len) s), val_len := len\<rparr>)))
   | _ \<Rightarrow> throw E_INCOMPATIBLE_TYPE ''Invalid Type  for variable-length Value constructor'')"

definition Value_string :: "TypeId \<Rightarrow> string \<Rightarrow> Value result" where
  "Value_string type data = (case type of
     VARCHAR \<Rightarrow> (let len = of_nat (length data) + 1 in
       ensure (unat len \<le> length data + 1)
         (Inr ((new_Value VARCHAR)\<lparr>val_varlen := Some (take (unat len) (data @ [CHR 0x00])), val_len := len\<rparr>)))
   | _ \<Rightarrow> throw E_INCOMPATIBLE_TYPE ''Invalid Type  for variable-length Value constructor'')"

text \<open>The copy constructor; the data of a null string is the null pointer.\<close>

definition Value_copy :: "Value \<Rightarrow> Value" where
  "Value_copy other = (if val_type other = VARCHAR \<and> val_len other = BUSTUB_VALUE_NULL
     then other\<lparr>val_varlen := None\<rparr> else other)"

definition CheckInteger :: "Value \<Rightarrow> bool" where
  "CheckInteger v = (case val_type v of
     TINYINT \<Rightarrow> True | SMALLINT \<Rightarrow> True | INTEGER \<Rightarrow> True | BIGINT \<Rightarrow> True | _ \<Rightarrow> False)"

definition numeric_or_varchar :: "TypeId \<Rightarrow> bool" where
  "numeric_or_varchar t = (case t of
     TINYINT \<Rightarrow> True | SMALLINT \<Rightarrow> True | INTEGER \<Rightarrow> True | BIGINT \<Rightarrow> True | DECIMAL \<Rightarrow> True
   | VARCHAR \<Rightarrow> True | _ \<Rightarrow> False)"

definition CheckComparable :: "Value \<Rightarrow> Value \<Rightarrow> bool" where
  "CheckComparable v w = (case val_type v of
     BOOLEAN \<Rightarrow> val_type w = BOOLEAN \<or> val_type w = VARCHAR
   | TINYINT \<Rightarrow> numeric_or_varchar (val_type w)
   | SMALLINT \<Rightarrow> numeric_or_varchar (val_type w)
   | INTEGER \<Rightarrow> numeric_or_varchar (val_type w)
   | BIGINT \<Rightarrow> numeric_or_varchar (val_type w)
   | DECIMAL \<Rightarrow> numeric_or_varchar (val_type w)
   | VARCHAR \<Rightarrow> True
   | _ \<Rightarrow> False)"

subsection \<open>The base class\<close>

definition GetTypeSize :: "TypeId \<Rightarrow> nat result" where
  "GetTypeSize type_id = (case type_id of
     BOOLEAN \<Rightarrow> Inr 1 | TINYINT \<Rightarrow> Inr 1 | SMALLINT \<Rightarrow> Inr 2 | INTEGER \<Rightarrow> Inr 4
   | BIGINT \<Rightarrow> Inr 8 | DECIMAL \<Rightarrow> Inr 8 | TIMESTAMP \<Rightarrow> Inr 8 | VARCHAR \<Rightarrow> Inr 0
   | _ \<Rightarrow> throw E_UNKNOWN_TYPE ''Unknown type.'')"

definition IsCoercableFrom :: "TypeId \<Rightarrow> TypeId \<Rightarrow> bool" where
  "IsCoercableFrom self type_id = (case self of
     INVALID \<Rightarrow> False
   | BOOLEAN \<Rightarrow> True
   | TINYINT \<Rightarrow> numeric_or_varchar type_id
   | SMALLINT \<Rightarrow> numeric_or_varchar type_id
   | INTEGER \<Rightarrow> numeric_or_varchar type_id
   | BIGINT \<Rightarrow> numeric_or_varchar type_id
   | DECIMAL \<Rightarrow> numeric_or_varchar type_id
   | TIMESTAMP \<Rightarrow> type_id = VARCHAR \<or> type_id = TIMESTAMP
   | VARCHAR \<Rightarrow> type_id \<noteq> INVALID)"

fun TypeIdToString :: "TypeId \<Rightarrow> string" where
  "TypeIdToString INVALID = ''INVALID''"
| "TypeIdToString BOOLEAN = ''BOOLEAN''"
| "TypeIdToString TINYINT = ''TINYINT''"
| "TypeIdToString SMALLINT = ''SMALLINT''"
| "TypeIdToString INTEGER = ''INTEGER''"
| "TypeIdToString BIGINT = ''BIGINT''"
| "TypeIdToString DECIMAL = ''DECIMAL''"
| "TypeIdToString TIMESTAMP = ''TIMESTAMP''"
| "TypeIdToString VARCHAR = ''VARCHAR''"

definition GetMinValue :: "double_ops \<Rightarrow> TypeId \<Rightarrow> Value result" where
  "GetMinValue F type_id = (case type_id of
     BOOLEAN \<Rightarrow> Value_int32 type_id 0
   | TINYINT \<Rightarrow> Value_int8 type_id BUSTUB_INT8_MIN
   | SMALLINT \<Rightarrow> Value_int16 type_id BUSTUB_INT16_MIN
   | INTEGER \<Rightarrow> Value_int32 type_id BUSTUB_INT32_MIN
   | BIGINT \<Rightarrow> Value_int64 type_id BUSTUB_INT64_MIN
   | DECIMAL \<Rightarrow> Value_double F type_id (FLT_LOWEST F)
   | TIMESTAMP \<Rightarrow> Value_int32 type_id 0
   | VARCHAR \<Rightarrow> Value_string type_id []
   | _ \<Rightarrow> throw E_MISMATCH_TYPE ''Cannot get minimal value.'')"

definition GetMaxValue :: "double_ops \<Rightarrow> TypeId \<Rightarrow> Value result" where
  "GetMaxValue F type_id = (case type_id of
     BOOLEAN \<Rightarrow> Value_int32 type_id 1
   | TINYINT \<Rightarrow> Value_int8 type_id BUSTUB_INT8_MAX
   | SMALLINT \<Rightarrow> Value_int16 type_id BUSTUB_INT16_MAX
   | INTEGER \<Rightarrow> Value_int32 type_id BUSTUB_INT32_MAX
   | BIGINT \<Rightarrow> Value_int64 type_id BUSTUB_INT64_MAX
   | DECIMAL \<Rightarrow> Value_double F type_id (DBL_MAX F)
   | TIMESTAMP \<Rightarrow> Value_uint64 type_id BUSTUB_TIMESTAMP_MAX
   | VARCHAR \<Rightarrow> Value_varlen type_id None 0 False
   | _ \<Rightarrow> throw E_MISMATCH_TYPE ''Cannot get max value.'')"

text \<open>\<open>std::stoi\<close> and \<open>std::stoll\<close>.\<close>

definition sto :: "nat \<Rightarrow> string \<Rightarrow> int result" where
  "sto n s = (case parse_int s of
     None \<Rightarrow> Inl StdInvalidArgument
   | Some i \<Rightarrow> if - (2 ^ (n - 1)) \<le> i \<and> i < 2 ^ (n - 1) then Inr i else Inl StdOutOfRange)"

definition stoi :: "string \<Rightarrow> int result" where
  "stoi s = sto 32 s"

definition stoll :: "string \<Rightarrow> int result" where
  "stoll s = sto 64 s"

text \<open>The methods of the base class, which a type class overrides or inherits.\<close>

definition Type_CompareEquals :: "Value \<Rightarrow> Value \<Rightarrow> CmpBool result" where
  "Type_CompareEquals left right = throw E_NOT_IMPLEMENTED ''CompareEquals not implemented''"

definition Type_CompareNotEquals :: "Value \<Rightarrow> Value \<Rightarrow> CmpBool result" where
  "Type_CompareNotEquals left right = throw E_NOT_IMPLEMENTED ''CompareNotEquals not implemented''"

definition Type_CompareLessThan :: "Value \<Rightarrow> Value \<Rightarrow> CmpBool result" where
  "Type_CompareLessThan left right = throw E_NOT_IMPLEMENTED ''CompareLessThan not implemented''"

definition Type_CompareLessThanEquals :: "Value \<Rightarrow> Value \<Rightarrow> CmpBool result" where
  "Type_CompareLessThanEquals left right = throw E_NOT_IMPLEMENTED ''CompareLessThanEqual not implemented''"

definition Type_CompareGreaterThan :: "Value \<Rightarrow> Value \<Rightarrow> CmpBool result" where
  "Type_CompareGreaterThan left right = throw E_NOT_IMPLEMENTED ''CompareGreaterThan not implemented''"

definition Type_CompareGreaterThanEquals :: "Value \<Rightarrow> Value \<Rightarrow> CmpBool result" where
  "Type_CompareGreaterThanEquals left right = throw E_NOT_IMPLEMENTED ''CompareGreaterThanEqual not implemented''"

definition Type_Add :: "Value \<Rightarrow> Value \<Rightarrow> Value result" where
  "Type_Add left right = throw E_NOT_IMPLEMENTED ''Add not implemented''"

definition Type_Subtract :: "Value \<Rightarrow> Value \<Rightarrow> Value result" where
  "Type_Subtract left right = throw E_NOT_IMPLEMENTED ''Subtract not implemented''"

definition Type_Multiply :: "Value \<Rightarrow> Value \<Rightarrow> Value result" where
  "Type_Multiply left right = throw E_NOT_IMPLEMENTED ''Multiply not implemented''"

definition Type_Divide :: "Value \<Rightarrow> Value \<Rightarrow> Value result" where
  "Type_Divide left right = throw E_NOT_IMPLEMENTED ''Divide not implemented''"

definition Type_Modulo :: "Value \<Rightarrow> Value \<Rightarrow> Value result" where
  "Type_Modulo left right = throw E_NOT_IMPLEMENTED ''Modulo not implemented''"

definition Type_Min :: "Value \<Rightarrow> Value \<Rightarrow> Value result" where
  "Type_Min left right = throw E_NOT_IMPLEMENTED ''Min not implemented''"

definition Type_Max :: "Value \<Rightarrow> Value \<Rightarrow> Value result" where
  "Type_Max left right = throw E_NOT_IMPLEMENTED ''Max not implemented''"

definition Type_Sqrt :: "Value \<Rightarrow> Value result" where
  "Type_Sqrt val = throw E_NOT_IMPLEMENTED ''Sqrt not implemented''"

definition Type_OperateNull :: "Value \<Rightarrow> Value \<Rightarrow> Value result" where
  "Type_OperateNull left right = throw E_NOT_IMPLEMENTED ''OperateNull not implemented''"

definition Type_IsZero :: "Value \<Rightarrow> bool result" where
  "Type_IsZero val = throw E_NOT_IMPLEMENTED ''isZero not implemented''"

definition Type_IsInlined :: "Value \<Rightarrow> bool result" where
  "Type_IsInlined val = throw E_NOT_IMPLEMENTED ''IsLined not implemented''"

definition Type_ToString :: "Value \<Rightarrow> string result" where
  "Type_ToString val = throw E_NOT_IMPLEMENTED ''ToString not implemented''"

definition Type_SerializeTo :: "Value \<Rightarrow> bytes result" where
  "Type_SerializeTo val = throw E_NOT_IMPLEMENTED ''SerializeTo not implemented''"

definition Type_DeserializeFrom :: "bytes \<Rightarrow> Value result" where
  "Type_DeserializeFrom storage = throw E_NOT_IMPLEMENTED ''DeserializeFrom not implemented''"

definition Type_Copy :: "Value \<Rightarrow> Value result" where
  "Type_Copy val = throw E_NOT_IMPLEMENTED ''Copy not implemented''"

definition Type_CastAs :: "Value \<Rightarrow> TypeId \<Rightarrow> Value result" where
  "Type_CastAs val type_id = throw E_NOT_IMPLEMENTED ''CastAs not implemented''"

definition Type_GetLength :: "Value \<Rightarrow> uint32 result" where
  "Type_GetLength val = throw E_NOT_IMPLEMENTED ''GetLength not implemented''"

definition Type_GetData :: "Value \<Rightarrow> string option result" where
  "Type_GetData val = throw E_NOT_IMPLEMENTED ''GetData from value not implemented''"


subsection \<open>Integer values\<close>

text \<open>The integer type of a SQL type id, the id of an integer type, its null value, and the value
  every constructor builds for it.\<close>

fun member_of :: "TypeId \<Rightarrow> int_t option" where
  "member_of TINYINT = Some int8_t"
| "member_of SMALLINT = Some int16_t"
| "member_of INTEGER = Some int32_t"
| "member_of BIGINT = Some int64_t"
| "member_of _ = None"

fun type_of :: "int_t \<Rightarrow> TypeId" where
  "type_of int8_t = TINYINT"
| "type_of int16_t = SMALLINT"
| "type_of int32_t = INTEGER"
| "type_of int64_t = BIGINT"

definition null_of :: "int_t \<Rightarrow> int" where
  "null_of T = - (2 ^ (bits T - 1))"

definition int_value :: "int_t \<Rightarrow> int \<Rightarrow> Value" where
  "int_value T i = member_value (type_of T) T (null_of T) i"

text \<open>The constructor that overload resolution picks for an argument of type \<open>T\<close>.\<close>

fun Value_of :: "int_t \<Rightarrow> TypeId \<Rightarrow> int \<Rightarrow> Value result" where
  "Value_of int8_t type i = Value_int8 type i"
| "Value_of int16_t type i = Value_int16 type i"
| "Value_of int32_t type i = Value_int32 type i"
| "Value_of int64_t type i = Value_int64 type i"

text \<open>An integer value as the constructors leave it: null exactly when the number is the null value.\<close>

definition int_ok :: "int_t \<Rightarrow> Value \<Rightarrow> bool" where
  "int_ok T v \<longleftrightarrow> v = int_value T (GetAs T v)"

definition in_range :: "int_t \<Rightarrow> int \<Rightarrow> bool" where
  "in_range T i \<longleftrightarrow> - (2 ^ (bits T - 1)) \<le> i \<and> i < 2 ^ (bits T - 1)"

lemmas ctor_defs = Value_int8_def Value_int16_def Value_int32_def Value_int64_def Value_uint64_def

lemma bits_pos [simp]: "0 < bits T"
  by (cases T) auto

lemma bits_mono: "bits T1 \<le> bits T2 \<Longrightarrow> (2::int) ^ (bits T1 - 1) \<le> 2 ^ (bits T2 - 1)"
  by (intro power_increasing) auto

lemma wrap_in_range: "in_range T i \<Longrightarrow> wrap (bits T) i = i"
  by (cases T) (simp_all add: in_range_def wrap_def signed_take_bit_int_eq_self)

lemma wrap_range: "in_range T (wrap (bits T) i)"
  unfolding in_range_def wrap_def
  by (simp only: signed_take_bit_int_greater_eq_minus_exp signed_take_bit_int_less_exp)

lemma wrap_wrap_le: "m \<le> n \<Longrightarrow> wrap m (wrap n i) = wrap m i"
  by (simp add: wrap_def signed_take_bit_signed_take_bit min_def)

lemma GetAs_wrap: "GetAs T v = wrap (bits T) (uint (val_raw v))"
  by (cases T) (simp_all add: wrap_def sint_uint unsigned_ucast_eq signed_take_bit_take_bit)

lemma GetAs_range: "in_range T (GetAs T v)"
  unfolding GetAs_wrap by (rule wrap_range)

lemma GetAs_store [simp]: "GetAs T (v\<lparr>val_raw := store_member T i\<rparr>) = wrap (bits T) i"
  unfolding GetAs_wrap
  by (cases T) (simp_all add: wrap_def uint_word_of_int_eq unsigned_ucast_eq signed_take_bit_take_bit)

lemma GetAs_len [simp]: "GetAs T (v\<lparr>val_len := n\<rparr>) = GetAs T v"
  by (cases T) simp_all

declare GetAs.simps [simp del]

lemma GetAs_int_value [simp]: "GetAs T (int_value T i) = wrap (bits T) i"
  by (simp add: int_value_def member_value_def Let_def)

lemma val_type_int_value [simp]: "val_type (int_value T i) = type_of T"
  by (simp add: int_value_def member_value_def Let_def new_Value_def)

lemma IsNull_int_value [simp]: "IsNull (int_value T i) \<longleftrightarrow> wrap (bits T) i = null_of T"
  by (simp add: int_value_def member_value_def Let_def IsNull_def BUSTUB_VALUE_NULL_def)

lemma store_member_wrap: "store_member T (wrap (bits T) i) = store_member T i"
proof -
  have "word_of_int (signed_take_bit 7 i) = (word_of_int i :: 8 word)"
    "word_of_int (signed_take_bit 15 i) = (word_of_int i :: 16 word)"
    "word_of_int (signed_take_bit 31 i) = (word_of_int i :: 32 word)"
    "word_of_int (signed_take_bit 63 i) = (word_of_int i :: 64 word)"
    by (simp_all add: word_of_int_eq_iff take_bit_signed_take_bit)
  then show ?thesis by (cases T) (simp_all add: wrap_def)
qed

lemma int_value_wrap [simp]: "int_value T (wrap (bits T) i) = int_value T i"
  by (simp add: int_value_def member_value_def store_member_wrap)

lemma int_ok_int_value [simp]: "int_ok T (int_value T i)"
  by (simp add: int_ok_def)

lemma int_okD: "int_ok T v \<Longrightarrow> val_type v = type_of T \<and> (IsNull v \<longleftrightarrow> GetAs T v = null_of T)"
  by (metis int_ok_def GetAs_int_value IsNull_int_value val_type_int_value)

lemma Value_of_int [simp]: "Value_of T (type_of T') i = Inr (int_value T' i)"
  by (cases T; cases T') (simp_all add: ctor_defs int_value_def null_of_def limit_defs)

lemma member_of_type_of [simp]: "member_of (type_of T) = Some T"
  by (cases T) auto

lemma CheckInteger_iff: "CheckInteger v \<longleftrightarrow> member_of (val_type v) \<noteq> None"
  by (cases "val_type v") (simp_all add: CheckInteger_def)

lemmas Value_of_ints =
  Value_of_int [of int8_t int8_t, simplified] Value_of_int [of int8_t int16_t, simplified]
  Value_of_int [of int8_t int32_t, simplified] Value_of_int [of int8_t int64_t, simplified]
  Value_of_int [of int16_t int8_t, simplified] Value_of_int [of int16_t int16_t, simplified]
  Value_of_int [of int16_t int32_t, simplified] Value_of_int [of int16_t int64_t, simplified]
  Value_of_int [of int32_t int8_t, simplified] Value_of_int [of int32_t int16_t, simplified]
  Value_of_int [of int32_t int32_t, simplified] Value_of_int [of int32_t int64_t, simplified]
  Value_of_int [of int64_t int8_t, simplified] Value_of_int [of int64_t int16_t, simplified]
  Value_of_int [of int64_t int32_t, simplified] Value_of_int [of int64_t int64_t, simplified]
lemmas int_value_wraps =
  int_value_wrap [of int8_t, simplified]
  int_value_wrap [of int16_t, simplified]
  int_value_wrap [of int32_t, simplified]
  int_value_wrap [of int64_t, simplified]

declare Value_of_ints [simp] int_value_wraps [simp]

lemma int_ok_bounds:
  assumes "int_ok T v" "\<not> IsNull v"
  shows "\<bar>GetAs T v\<bar> < 2 ^ (bits T - 1)"
  using assms int_okD [OF assms(1)] GetAs_range [of T v] by (auto simp: null_of_def in_range_def)

text \<open>A stand-in for the floating-point unit that computes with integers, for concrete examples.\<close>

definition integer_doubles :: double_ops where
  "integer_doubles = \<lparr>d_add = (+), d_sub = (-), d_mul = (*),
     d_div = (\<lambda>a b. word_of_int (sint a sdiv sint b)), d_eq = (=), d_lt = (\<lambda>a b. sint a < sint b),
     d_le = (\<lambda>a b. sint a \<le> sint b), d_sqrt = (\<lambda>a. a), d_trunc = (\<lambda>a. a), d_of_int = word_of_int,
     d_to_int = sint, d_to_string = (\<lambda>a. int_to_string (sint a)),
     d_stod = (\<lambda>s. case parse_int s of None \<Rightarrow> Inl StdInvalidArgument | Some i \<Rightarrow> Inr (word_of_int i)),
     DBL_LOWEST = word_of_int (- 9223372036854775808), DBL_MAX = word_of_int 9223372036854775807,
     FLT_LOWEST = word_of_int (- 9223372036854775807)\<rparr>"

end
