(* ===== verification/Casts.thy ===== *)
theory Casts
  imports Values
begin

section \<open>Text, storage and casts of values\<close>

text \<open>
  For each type class of \<^verbatim>\<open>type/*_type.cpp\<close>: \<open>ToString\<close>, \<open>SerializeTo\<close>, \<open>DeserializeFrom\<close>, \<open>Copy\<close> and
  \<open>CastAs\<close>, then the calls of \<open>Value\<close> that select the class by the type id. \<open>SerializeTo\<close> returns the
  bytes it writes at the start of the storage; \<open>DeserializeFrom\<close> reads the bytes from a pointer on.

  \<open>k_types\<close> has no entry for \<open>TIMESTAMP\<close>, so a call on such a value goes through a null pointer.
\<close>

subsection \<open>Integers in memory\<close>

definition bytes_of :: "int_t \<Rightarrow> nat" where
  "bytes_of T = bits T div 8"

definition write_int :: "int_t \<Rightarrow> Value \<Rightarrow> bytes" where
  "write_int T val = le_bytes (bytes_of T) (val_raw val)"

definition read_int :: "int_t \<Rightarrow> bytes \<Rightarrow> int" where
  "read_int T storage = wrap (bits T) (uint (le_word (take (bytes_of T) storage)))"

definition string_bytes :: "string \<Rightarrow> bytes" where
  "string_bytes s = map (\<lambda>c. of_nat (of_char c)) s"

definition bytes_string :: "bytes \<Rightarrow> string" where
  "bytes_string bs = map (\<lambda>b. char_of (unat b)) bs"

subsection \<open>Printing, storing and copying\<close>

definition Tinyint_ToString :: "Value \<Rightarrow> string result" where
  "Tinyint_ToString val = ensure (CheckInteger val)
     (Inr (if IsNull val then ''tinyint_null'' else int_to_string (GetAs int8_t val)))"

definition Tinyint_SerializeTo :: "Value \<Rightarrow> bytes result" where
  "Tinyint_SerializeTo val = Inr (write_int int8_t val)"

definition Tinyint_DeserializeFrom :: "bytes \<Rightarrow> Value result" where
  "Tinyint_DeserializeFrom storage = ensure (bytes_of int8_t \<le> length storage) (Value_int8 TINYINT (read_int int8_t storage))"

definition Tinyint_Copy :: "Value \<Rightarrow> Value result" where
  "Tinyint_Copy val = ensure (CheckInteger val) (Value_int8 TINYINT (GetAs int8_t val))"

definition Smallint_ToString :: "Value \<Rightarrow> string result" where
  "Smallint_ToString val = ensure (CheckInteger val) (case val_type val of
     TINYINT \<Rightarrow> Inr (if IsNull val then ''tinyint_null'' else int_to_string (GetAs int8_t val))
   | SMALLINT \<Rightarrow> Inr (if IsNull val then ''smallint_null'' else int_to_string (GetAs int16_t val))
   | INTEGER \<Rightarrow> Inr (if IsNull val then ''integer_null'' else int_to_string (GetAs int32_t val))
   | BIGINT \<Rightarrow> Inr (if IsNull val then ''bigint_null'' else int_to_string (GetAs int64_t val))
   | _ \<Rightarrow> throw_msg ''type error'')"

definition Smallint_SerializeTo :: "Value \<Rightarrow> bytes result" where
  "Smallint_SerializeTo val = Inr (write_int int16_t val)"

definition Smallint_DeserializeFrom :: "bytes \<Rightarrow> Value result" where
  "Smallint_DeserializeFrom storage = ensure (bytes_of int16_t \<le> length storage) (Value_int16 SMALLINT (read_int int16_t storage))"

definition Smallint_Copy :: "Value \<Rightarrow> Value result" where
  "Smallint_Copy val = ensure (CheckInteger val) (Value_int16 SMALLINT (GetAs int16_t val))"

definition Integer_ToString :: "Value \<Rightarrow> string result" where
  "Integer_ToString val = ensure (CheckInteger val)
     (Inr (if IsNull val then ''integer_null'' else int_to_string (GetAs int32_t val)))"

definition Integer_SerializeTo :: "Value \<Rightarrow> bytes result" where
  "Integer_SerializeTo val = Inr (write_int int32_t val)"

definition Integer_DeserializeFrom :: "bytes \<Rightarrow> Value result" where
  "Integer_DeserializeFrom storage = ensure (bytes_of int32_t \<le> length storage) (Value_int32 INTEGER (read_int int32_t storage))"

definition Integer_Copy :: "Value \<Rightarrow> Value result" where
  "Integer_Copy val = ensure (CheckInteger val) (Value_int32 (val_type val) (GetAs int32_t val))"

definition Bigint_ToString :: "Value \<Rightarrow> string result" where
  "Bigint_ToString val = ensure (CheckInteger val)
     (Inr (if IsNull val then ''bigint_null'' else int_to_string (GetAs int64_t val)))"

definition Bigint_SerializeTo :: "Value \<Rightarrow> bytes result" where
  "Bigint_SerializeTo val = Inr (write_int int64_t val)"

definition Bigint_DeserializeFrom :: "bytes \<Rightarrow> Value result" where
  "Bigint_DeserializeFrom storage = ensure (bytes_of int64_t \<le> length storage) (Value_int64 BIGINT (read_int int64_t storage))"

definition Bigint_Copy :: "Value \<Rightarrow> Value result" where
  "Bigint_Copy val = Value_int64 BIGINT (GetAs int64_t val)"

definition Boolean_ToString :: "Value \<Rightarrow> string result" where
  "Boolean_ToString val = Inr (if GetAs int8_t val = 1 then ''true''
     else if GetAs int8_t val = 0 then ''false'' else ''boolean_null'')"

definition Boolean_SerializeTo :: "Value \<Rightarrow> bytes result" where
  "Boolean_SerializeTo val = Inr (write_int int8_t val)"

definition Boolean_DeserializeFrom :: "bytes \<Rightarrow> Value result" where
  "Boolean_DeserializeFrom storage = ensure (1 \<le> length storage) (Value_int8 BOOLEAN (read_int int8_t storage))"

definition Boolean_Copy :: "Value \<Rightarrow> Value result" where
  "Boolean_Copy val = Value_int8 BOOLEAN (GetAs int8_t val)"

definition Decimal_ToString :: "double_ops \<Rightarrow> Value \<Rightarrow> string result" where
  "Decimal_ToString F val = Inr (if IsNull val then ''decimal_null'' else d_to_string F (GetAs_double val))"

definition Decimal_SerializeTo :: "Value \<Rightarrow> bytes result" where
  "Decimal_SerializeTo val = Inr (le_bytes 8 (GetAs_double val))"

definition Decimal_DeserializeFrom :: "double_ops \<Rightarrow> bytes \<Rightarrow> Value result" where
  "Decimal_DeserializeFrom F storage =
     ensure (8 \<le> length storage) (Value_double F DECIMAL (le_word (take 8 storage)))"

definition Decimal_Copy :: "double_ops \<Rightarrow> Value \<Rightarrow> Value result" where
  "Decimal_Copy F val = Value_double F DECIMAL (GetAs_double val)"

definition Varlen_GetData :: "Value \<Rightarrow> string option result" where
  "Varlen_GetData val = Inr (val_varlen val)"

definition Varlen_GetLength :: "Value \<Rightarrow> uint32 result" where
  "Varlen_GetLength val = Inr (val_len val)"

text \<open>\<open>memory val n\<close> is the first \<open>n\<close> characters at the data pointer.\<close>

definition memory :: "Value \<Rightarrow> nat \<Rightarrow> string result" where
  "memory val n = (case val_varlen val of
     None \<Rightarrow> Inl Crash
   | Some s \<Rightarrow> ensure (n \<le> length s) (Inr (take n s)))"

definition Varlen_ToString :: "Value \<Rightarrow> string result" where
  "Varlen_ToString val = (let len = val_len val in
     if IsNull val then Inr ''varlen_null''
     else if len = BUSTUB_VARCHAR_MAX_LEN then Inr ''varlen_max''
     else if len = 0 then Inr []
     else memory val (unat (len - 1)))"

definition Varlen_SerializeTo :: "Value \<Rightarrow> bytes result" where
  "Varlen_SerializeTo val = (let len = val_len val; head = le_bytes 4 (ucast len) in
     if len = BUSTUB_VALUE_NULL then Inr head
     else andThen (memory val (unat len)) (\<lambda>s. Inr (head @ string_bytes s)))"

definition Varlen_DeserializeFrom :: "bytes \<Rightarrow> Value result" where
  "Varlen_DeserializeFrom storage = ensure (4 \<le> length storage)
     (let len = (ucast (le_word (take 4 storage)) :: uint32) in
      if len = BUSTUB_VALUE_NULL then Value_varlen VARCHAR None len False
      else Value_varlen VARCHAR (Some (bytes_string (drop 4 storage))) len True)"

definition Varlen_Copy :: "Value \<Rightarrow> Value result" where
  "Varlen_Copy val = Inr (Value_copy val)"

subsection \<open>Selection of the class\<close>

definition Value_ToString :: "double_ops \<Rightarrow> Value \<Rightarrow> string result" where
  "Value_ToString F val = (case val_type val of
     INVALID \<Rightarrow> Type_ToString val
   | BOOLEAN \<Rightarrow> Boolean_ToString val
   | TINYINT \<Rightarrow> Tinyint_ToString val
   | SMALLINT \<Rightarrow> Smallint_ToString val
   | INTEGER \<Rightarrow> Integer_ToString val
   | BIGINT \<Rightarrow> Bigint_ToString val
   | DECIMAL \<Rightarrow> Decimal_ToString F val
   | VARCHAR \<Rightarrow> Varlen_ToString val
   | TIMESTAMP \<Rightarrow> Inl Crash)"

definition Value_SerializeTo :: "Value \<Rightarrow> bytes result" where
  "Value_SerializeTo val = (case val_type val of
     INVALID \<Rightarrow> Type_SerializeTo val
   | BOOLEAN \<Rightarrow> Boolean_SerializeTo val
   | TINYINT \<Rightarrow> Tinyint_SerializeTo val
   | SMALLINT \<Rightarrow> Smallint_SerializeTo val
   | INTEGER \<Rightarrow> Integer_SerializeTo val
   | BIGINT \<Rightarrow> Bigint_SerializeTo val
   | DECIMAL \<Rightarrow> Decimal_SerializeTo val
   | VARCHAR \<Rightarrow> Varlen_SerializeTo val
   | TIMESTAMP \<Rightarrow> Inl Crash)"

definition Value_DeserializeFrom :: "double_ops \<Rightarrow> bytes \<Rightarrow> TypeId \<Rightarrow> Value result" where
  "Value_DeserializeFrom F storage type_id = (case type_id of
     INVALID \<Rightarrow> Type_DeserializeFrom storage
   | BOOLEAN \<Rightarrow> Boolean_DeserializeFrom storage
   | TINYINT \<Rightarrow> Tinyint_DeserializeFrom storage
   | SMALLINT \<Rightarrow> Smallint_DeserializeFrom storage
   | INTEGER \<Rightarrow> Integer_DeserializeFrom storage
   | BIGINT \<Rightarrow> Bigint_DeserializeFrom storage
   | DECIMAL \<Rightarrow> Decimal_DeserializeFrom F storage
   | VARCHAR \<Rightarrow> Varlen_DeserializeFrom storage
   | TIMESTAMP \<Rightarrow> Inl Crash)"

definition Value_Copy :: "double_ops \<Rightarrow> Value \<Rightarrow> Value result" where
  "Value_Copy F val = (case val_type val of
     INVALID \<Rightarrow> Type_Copy val
   | BOOLEAN \<Rightarrow> Boolean_Copy val
   | TINYINT \<Rightarrow> Tinyint_Copy val
   | SMALLINT \<Rightarrow> Smallint_Copy val
   | INTEGER \<Rightarrow> Integer_Copy val
   | BIGINT \<Rightarrow> Bigint_Copy val
   | DECIMAL \<Rightarrow> Decimal_Copy F val
   | VARCHAR \<Rightarrow> Varlen_Copy val
   | TIMESTAMP \<Rightarrow> Inl Crash)"

definition Value_GetLength :: "Value \<Rightarrow> uint32 result" where
  "Value_GetLength val = (case val_type val of
     VARCHAR \<Rightarrow> Varlen_GetLength val | TIMESTAMP \<Rightarrow> Inl Crash | _ \<Rightarrow> Type_GetLength val)"

definition Value_GetData :: "Value \<Rightarrow> string option result" where
  "Value_GetData val = (case val_type val of
     VARCHAR \<Rightarrow> Varlen_GetData val | TIMESTAMP \<Rightarrow> Inl Crash | _ \<Rightarrow> Type_GetData val)"

subsection \<open>Casts\<close>

text \<open>The guard of a narrowing cast and the text a number is cast to.\<close>

definition narrow :: "int \<Rightarrow> int \<Rightarrow> int \<Rightarrow> Value result \<Rightarrow> Value result" where
  "narrow lo hi i m = (if i > hi \<or> i < lo then throw_range else m)"

definition narrow_double :: "double_ops \<Rightarrow> int \<Rightarrow> int \<Rightarrow> double \<Rightarrow> Value result \<Rightarrow> Value result" where
  "narrow_double F lo hi d m = (if d_lt F (d_of_int F hi) d \<or> d_lt F d (d_of_int F lo) then throw_range else m)"

definition Tinyint_CastAs :: "double_ops \<Rightarrow> Value \<Rightarrow> TypeId \<Rightarrow> Value result" where
  "Tinyint_CastAs F val type_id = (case type_id of
     TINYINT \<Rightarrow> if IsNull val then Value_int8 type_id BUSTUB_INT8_NULL
       else Tinyint_Copy val
   | SMALLINT \<Rightarrow> if IsNull val then Value_int16 type_id BUSTUB_INT16_NULL
       else Value_int16 type_id (wrap 16 (GetAs int8_t val))
   | INTEGER \<Rightarrow> if IsNull val then Value_int32 type_id BUSTUB_INT32_NULL
       else Value_int32 type_id (wrap 32 (GetAs int8_t val))
   | BIGINT \<Rightarrow> if IsNull val then Value_int64 type_id BUSTUB_INT64_NULL
       else Value_int64 type_id (wrap 64 (GetAs int8_t val))
   | DECIMAL \<Rightarrow> if IsNull val then Value_double F type_id (DBL_LOWEST F)
       else Value_double F type_id (d_of_int F (GetAs int8_t val))
   | VARCHAR \<Rightarrow> if IsNull val then Value_varlen VARCHAR None 0 False
       else andThen (Value_ToString F val) (Value_string VARCHAR)
   | _ \<Rightarrow> throw_msg (''tinyint is not coercable to '' @ TypeIdToString type_id))"

definition Smallint_CastAs :: "double_ops \<Rightarrow> Value \<Rightarrow> TypeId \<Rightarrow> Value result" where
  "Smallint_CastAs F val type_id = (case type_id of
     TINYINT \<Rightarrow> if IsNull val then Value_int8 type_id BUSTUB_INT8_NULL
       else narrow BUSTUB_INT8_MIN BUSTUB_INT8_MAX (GetAs int16_t val)
         (Value_int8 type_id (wrap 8 (GetAs int16_t val)))
   | SMALLINT \<Rightarrow> if IsNull val then Value_int16 type_id BUSTUB_INT16_NULL
       else Smallint_Copy val
   | INTEGER \<Rightarrow> if IsNull val then Value_int32 type_id BUSTUB_INT32_NULL
       else Value_int32 type_id (wrap 32 (GetAs int16_t val))
   | BIGINT \<Rightarrow> if IsNull val then Value_int64 type_id BUSTUB_INT64_NULL
       else Value_int64 type_id (wrap 64 (GetAs int16_t val))
   | DECIMAL \<Rightarrow> if IsNull val then Value_double F type_id (DBL_LOWEST F)
       else Value_double F type_id (d_of_int F (GetAs int16_t val))
   | VARCHAR \<Rightarrow> if IsNull val then Value_varlen VARCHAR None 0 False
       else andThen (Value_ToString F val) (Value_string VARCHAR)
   | _ \<Rightarrow> throw_msg (''smallint is not coercable to '' @ TypeIdToString type_id))"

definition Integer_CastAs :: "double_ops \<Rightarrow> Value \<Rightarrow> TypeId \<Rightarrow> Value result" where
  "Integer_CastAs F val type_id = (case type_id of
     TINYINT \<Rightarrow> if IsNull val then Value_int8 type_id BUSTUB_INT8_NULL
       else narrow BUSTUB_INT8_MIN BUSTUB_INT8_MAX (GetAs int32_t val)
         (Value_int8 type_id (wrap 8 (GetAs int32_t val)))
   | SMALLINT \<Rightarrow> if IsNull val then Value_int16 type_id BUSTUB_INT16_NULL
       else narrow BUSTUB_INT16_MIN BUSTUB_INT16_MAX (GetAs int32_t val)
         (Value_int16 type_id (wrap 16 (GetAs int32_t val)))
   | INTEGER \<Rightarrow> if IsNull val then Value_int32 type_id BUSTUB_INT32_NULL
       else Value_int32 type_id (wrap 32 (GetAs int32_t val))
   | BIGINT \<Rightarrow> if IsNull val then Value_int64 type_id BUSTUB_INT64_NULL
       else Value_int64 type_id (wrap 64 (GetAs int32_t val))
   | DECIMAL \<Rightarrow> if IsNull val then Value_double F type_id (DBL_LOWEST F)
       else Value_double F type_id (d_of_int F (GetAs int32_t val))
   | VARCHAR \<Rightarrow> if IsNull val then Value_varlen VARCHAR None 0 False
       else andThen (Value_ToString F val) (Value_string VARCHAR)
   | _ \<Rightarrow> throw_msg (''Integer is not coercable to '' @ TypeIdToString type_id))"

definition Bigint_CastAs :: "double_ops \<Rightarrow> Value \<Rightarrow> TypeId \<Rightarrow> Value result" where
  "Bigint_CastAs F val type_id = (case type_id of
     TINYINT \<Rightarrow> if IsNull val then Value_int8 type_id BUSTUB_INT8_NULL
       else narrow BUSTUB_INT8_MIN BUSTUB_INT8_MAX (GetAs int64_t val)
         (Value_int8 type_id (wrap 8 (GetAs int64_t val)))
   | SMALLINT \<Rightarrow> if IsNull val then Value_int16 type_id BUSTUB_INT16_NULL
       else narrow BUSTUB_INT16_MIN BUSTUB_INT16_MAX (GetAs int64_t val)
         (Value_int16 type_id (wrap 16 (GetAs int64_t val)))
   | INTEGER \<Rightarrow> if IsNull val then Value_int32 type_id BUSTUB_INT32_NULL
       else narrow BUSTUB_INT32_MIN BUSTUB_INT32_MAX (GetAs int64_t val)
         (Value_int32 type_id (wrap 32 (GetAs int64_t val)))
   | BIGINT \<Rightarrow> if IsNull val then Value_int64 type_id BUSTUB_INT64_NULL
       else Bigint_Copy val
   | DECIMAL \<Rightarrow> if IsNull val then Value_double F type_id (DBL_LOWEST F)
       else Value_double F type_id (d_of_int F (GetAs int64_t val))
   | VARCHAR \<Rightarrow> if IsNull val then Value_varlen VARCHAR None 0 False
       else andThen (Value_ToString F val) (Value_string VARCHAR)
   | _ \<Rightarrow> throw_msg (''bigint is not coercable to '' @ TypeIdToString type_id))"

definition Boolean_CastAs :: "double_ops \<Rightarrow> Value \<Rightarrow> TypeId \<Rightarrow> Value result" where
  "Boolean_CastAs F val type_id = (case type_id of
     BOOLEAN \<Rightarrow> Boolean_Copy val
   | VARCHAR \<Rightarrow> if IsNull val then Value_varlen VARCHAR None 0 False
       else andThen (Value_ToString F val) (Value_string VARCHAR)
   | _ \<Rightarrow> throw_msg (''BOOLEAN is not coercable to '' @ TypeIdToString type_id))"

definition Decimal_CastAs :: "double_ops \<Rightarrow> Value \<Rightarrow> TypeId \<Rightarrow> Value result" where
  "Decimal_CastAs F val type_id = (case type_id of
     TINYINT \<Rightarrow> if IsNull val then Value_int8 type_id BUSTUB_INT8_NULL
       else narrow_double F BUSTUB_INT8_MIN BUSTUB_INT8_MAX (GetAs_double val)
         (Value_int8 type_id (wrap 8 (d_to_int F (GetAs_double val))))
   | SMALLINT \<Rightarrow> if IsNull val then Value_int16 type_id BUSTUB_INT16_NULL
       else narrow_double F BUSTUB_INT16_MIN BUSTUB_INT16_MAX (GetAs_double val)
         (Value_int16 type_id (wrap 16 (d_to_int F (GetAs_double val))))
   | INTEGER \<Rightarrow> if IsNull val then Value_int32 type_id BUSTUB_INT32_NULL
       else narrow_double F BUSTUB_INT32_MIN BUSTUB_INT32_MAX (GetAs_double val)
         (Value_int32 type_id (wrap 32 (d_to_int F (GetAs_double val))))
   | BIGINT \<Rightarrow> if IsNull val then Value_int64 type_id BUSTUB_INT64_NULL
       else narrow_double F BUSTUB_INT64_MIN BUSTUB_INT64_MAX (GetAs_double val)
         (Value_int64 type_id (wrap 64 (d_to_int F (GetAs_double val))))
   | DECIMAL \<Rightarrow> Value_Copy F val
   | VARCHAR \<Rightarrow> if IsNull val then Value_varlen VARCHAR None 0 False
       else andThen (Value_ToString F val) (Value_string VARCHAR)
   | _ \<Rightarrow> throw_msg (''DECIMAL is not coercable to '' @ TypeIdToString type_id))"

text \<open>A \<open>std::out_of_range\<close> of a conversion is caught and thrown again as an \<open>Exception\<close>; a
  \<open>std::invalid_argument\<close> is not caught.\<close>

definition catch_range :: "'a result \<Rightarrow> 'a result" where
  "catch_range m = (if m = Inl StdOutOfRange then throw_range else m)"

definition Varlen_CastAs :: "double_ops \<Rightarrow> Value \<Rightarrow> TypeId \<Rightarrow> Value result" where
  "Varlen_CastAs F value type_id = (case type_id of
     BOOLEAN \<Rightarrow> andThen (Value_ToString F value) (\<lambda>str. let str = map tolower str in
         if str = ''true'' \<or> str = ''1'' \<or> str = ''t'' then Value_int32 type_id 1
         else if str = ''false'' \<or> str = ''0'' \<or> str = ''f'' then Value_int32 type_id 0
         else throw_msg ''Boolean value format error.'')
   | TINYINT \<Rightarrow> andThen (Value_ToString F value) (\<lambda>str.
         andThen (catch_range (stoi str)) (\<lambda>i. let tinyint = wrap 8 i in
           if tinyint < BUSTUB_INT8_MIN then throw_range else Value_int8 type_id tinyint))
   | SMALLINT \<Rightarrow> andThen (Value_ToString F value) (\<lambda>str.
         andThen (catch_range (stoi str)) (\<lambda>i. let smallint = wrap 16 i in
           if smallint < BUSTUB_INT16_MIN then throw_range else Value_int16 type_id smallint))
   | INTEGER \<Rightarrow> andThen (Value_ToString F value) (\<lambda>str.
         andThen (catch_range (stoi str)) (\<lambda>integer. Value_int32 type_id integer))
   | BIGINT \<Rightarrow> andThen (Value_ToString F value) (\<lambda>str.
         andThen (catch_range (stoll str)) (\<lambda>bigint.
           if bigint > BUSTUB_INT64_MAX \<or> bigint < BUSTUB_INT64_MIN then throw_range
           else Value_int64 type_id bigint))
   | DECIMAL \<Rightarrow> andThen (Value_ToString F value) (\<lambda>str.
         andThen (catch_range (d_stod F str)) (\<lambda>res.
           if d_lt F (DBL_MAX F) res \<or> d_lt F res (FLT_LOWEST F) then throw_range
           else Value_double F type_id res))
   | VARCHAR \<Rightarrow> Value_Copy F value
   | _ \<Rightarrow> throw_msg (''VARCHAR is not coercable to '' @ TypeIdToString type_id))"

definition Value_CastAs :: "double_ops \<Rightarrow> Value \<Rightarrow> TypeId \<Rightarrow> Value result" where
  "Value_CastAs F val type_id = (case val_type val of
     INVALID \<Rightarrow> Type_CastAs val type_id
   | BOOLEAN \<Rightarrow> Boolean_CastAs F val type_id
   | TINYINT \<Rightarrow> Tinyint_CastAs F val type_id
   | SMALLINT \<Rightarrow> Smallint_CastAs F val type_id
   | INTEGER \<Rightarrow> Integer_CastAs F val type_id
   | BIGINT \<Rightarrow> Bigint_CastAs F val type_id
   | DECIMAL \<Rightarrow> Decimal_CastAs F val type_id
   | VARCHAR \<Rightarrow> Varlen_CastAs F val type_id
   | TIMESTAMP \<Rightarrow> Inl Crash)"

subsection \<open>Well-formed values\<close>

text \<open>What the constructors build: the null mark agrees with the number, and the length of a string
  with its data.\<close>

definition Value_ok :: "double_ops \<Rightarrow> Value \<Rightarrow> bool" where
  "Value_ok F v = (case val_type v of
     BOOLEAN \<Rightarrow> v = member_value BOOLEAN int8_t BUSTUB_BOOLEAN_NULL (GetAs int8_t v)
   | TINYINT \<Rightarrow> int_ok int8_t v
   | SMALLINT \<Rightarrow> int_ok int16_t v
   | INTEGER \<Rightarrow> int_ok int32_t v
   | BIGINT \<Rightarrow> int_ok int64_t v
   | DECIMAL \<Rightarrow> Value_double F DECIMAL (GetAs_double v) = Inr v
   | VARCHAR \<Rightarrow> val_raw v = 0 \<and>
       (if IsNull v then val_varlen v = None
        else (\<exists>s. val_varlen v = Some s \<and> length s = unat (val_len v)))
   | _ \<Rightarrow> False)"

lemma int_ok_Value_ok: "int_ok T v \<Longrightarrow> Value_ok F v"
  using int_okD [of T v] by (cases T) (simp_all add: Value_ok_def)

subsection \<open>Storage round trip\<close>

lemma GetAs_take_bit: "bits T \<le> n \<Longrightarrow> wrap (bits T) (uint (take_bit n (w :: 64 word))) = wrap (bits T) (uint w)"
  by (cases T) (simp_all add: wrap_def unsigned_take_bit_eq signed_take_bit_take_bit)

lemma read_write_int: "read_int T (write_int T v @ rest) = GetAs T v"
proof -
  have "8 * bytes_of T = bits T" by (cases T) (simp_all add: bytes_of_def)
  then show ?thesis
    by (simp add: read_int_def write_int_def le_word_le_bytes GetAs_take_bit GetAs_wrap)
qed

lemma length_write_int [simp]: "length (write_int T v) = bytes_of T"
  by (simp add: write_int_def)

lemma bytes_string_bytes [simp]: "bytes_string (string_bytes s) = s"
proof -
  have "char_of (unat (of_nat (of_char c) :: 8 word)) = c" for c
  proof -
    have "(of_char c :: nat) < 256" by (rule nat_of_char_less_256)
    then show ?thesis by (simp add: unat_of_nat_small)
  qed
  then show ?thesis by (simp add: bytes_string_def string_bytes_def comp_def)
qed

lemma bytes_string_append [simp]: "bytes_string (as @ bs) = bytes_string as @ bytes_string bs"
  by (simp add: bytes_string_def)

lemma length_string_bytes [simp]: "length (string_bytes s) = length s"
  by (simp add: string_bytes_def)

lemma take_bit_64 [simp]: "take_bit 64 (w :: 64 word) = w"
  by (rule bit_word_eqI) (simp add: bit_simps)

lemma Varlen_serialize:
  assumes "Value_ok F v" "val_type v = VARCHAR"
  shows "\<exists>bs. Varlen_SerializeTo v = Inr bs \<and> (\<forall>rest. Varlen_DeserializeFrom (bs @ rest) = Inr v)"
proof (cases "IsNull v")
  case True
  with assms have "v = new_Value VARCHAR"
    by (cases v) (simp add: Value_ok_def new_Value_def IsNull_def)
  then show ?thesis
    by (simp add: Varlen_SerializeTo_def Varlen_DeserializeFrom_def new_Value_def Let_def le_word_le_bytes
        ucast_head Value_varlen_def)
next
  case False
  with assms obtain s where s: "val_varlen v = Some s" "length s = unat (val_len v)" "val_raw v = 0"
    by (auto simp: Value_ok_def)
  have v: "v = (new_Value VARCHAR)\<lparr>val_varlen := Some s, val_len := val_len v\<rparr>"
    using s assms(2) by (cases v) (simp add: new_Value_def)
  have "val_len v < BUSTUB_VARCHAR_MAX_LEN"
    using False by (simp add: IsNull_def BUSTUB_VALUE_NULL_def BUSTUB_VARCHAR_MAX_LEN_def less_le)
  with False s v show ?thesis
    by (simp add: Varlen_SerializeTo_def Varlen_DeserializeFrom_def Let_def le_word_le_bytes memory_def
        IsNull_def Value_varlen_def ucast_head)
qed

lemmas serialize_defs = Tinyint_SerializeTo_def Smallint_SerializeTo_def Integer_SerializeTo_def
  Bigint_SerializeTo_def Boolean_SerializeTo_def Decimal_SerializeTo_def
lemmas deserialize_defs = Tinyint_DeserializeFrom_def Smallint_DeserializeFrom_def
  Integer_DeserializeFrom_def Bigint_DeserializeFrom_def Boolean_DeserializeFrom_def
  Decimal_DeserializeFrom_def

lemma int_ok_value: "int_ok T v \<Longrightarrow> int_value T (GetAs T v) = v"
  by (simp add: int_ok_def)

lemma Value_of_read:
  assumes "int_ok T v"
  shows "Value_of T (type_of T) (read_int T (write_int T v @ rest)) = Inr v"
  using assms by (simp add: read_write_int int_ok_value)

lemma serialize_int:
  assumes "int_ok T v"
  shows "\<exists>bs. Value_SerializeTo v = Inr bs \<and> (\<forall>rest. Value_DeserializeFrom F (bs @ rest) (val_type v) = Inr v)"
  using assms int_okD [OF assms] Value_of_read [OF assms]
  by (cases T) (simp_all add: Value_SerializeTo_def Value_DeserializeFrom_def serialize_defs deserialize_defs)

lemma Value_stored:
  assumes "Value_ok F v"
  shows "\<exists>bs. Value_SerializeTo v = Inr bs \<and> (\<forall>rest. Value_DeserializeFrom F (bs @ rest) (val_type v) = Inr v)"
proof (cases "member_of (val_type v)")
  case (Some T)
  with assms have "int_ok T v" by (cases "val_type v") (simp_all add: Value_ok_def)
  then show ?thesis by (rule serialize_int)
next
  case None
  with assms consider "val_type v = BOOLEAN" | "val_type v = DECIMAL" | "val_type v = VARCHAR"
    by (cases "val_type v") (simp_all add: Value_ok_def)
  then show ?thesis
  proof cases
    case 1
    with assms show ?thesis
      by (simp add: Value_SerializeTo_def Value_DeserializeFrom_def serialize_defs deserialize_defs
          read_write_int Value_ok_def Value_int8_def bytes_of_def)
  next
    case 2
    with assms show ?thesis
      by (simp add: Value_SerializeTo_def Value_DeserializeFrom_def serialize_defs deserialize_defs
          le_word_le_bytes Value_ok_def)
  next
    case 3
    with Varlen_serialize [OF assms 3] show ?thesis
      by (simp add: Value_SerializeTo_def Value_DeserializeFrom_def)
  qed
qed

text \<open>The number of bytes.\<close>

definition stored_size :: "Value \<Rightarrow> nat" where
  "stored_size v = (case val_type v of
     BOOLEAN \<Rightarrow> 1 | TINYINT \<Rightarrow> 1 | SMALLINT \<Rightarrow> 2 | INTEGER \<Rightarrow> 4 | BIGINT \<Rightarrow> 8 | DECIMAL \<Rightarrow> 8
   | VARCHAR \<Rightarrow> (if IsNull v then 4 else 4 + unat (val_len v)) | _ \<Rightarrow> 0)"

lemma length_SerializeTo: "Value_SerializeTo v = Inr bs \<Longrightarrow> length bs = stored_size v"
  by (cases "val_type v")
    (auto simp: Value_SerializeTo_def serialize_defs stored_size_def Type_SerializeTo_def throw_def bytes_of_def
      Varlen_SerializeTo_def Let_def andThen_Inr memory_def ensure_def IsNull_def split: if_splits option.splits)

text \<open>C36. Storage round trip: for a well-formed value of every type that has a class, reading back
  the bytes that \<open>SerializeTo\<close> wrote, with any bytes after them, returns the value.\<close>

theorem SerializeTo_DeserializeFrom:
  assumes "Value_ok F v"
  shows "\<exists>bs. Value_SerializeTo v = Inr bs \<and> (\<forall>rest. Value_DeserializeFrom F (bs @ rest) (val_type v) = Inr v)"
  using assms by (rule Value_stored)

theorem SerializeTo_DeserializeFrom_witness:
  "\<exists>bs. Value_SerializeTo (int_value int32_t (- 42)) = Inr bs \<and>
     (\<forall>rest. Value_DeserializeFrom integer_doubles (bs @ rest) INTEGER = Inr (int_value int32_t (- 42)))"
  using SerializeTo_DeserializeFrom [OF int_ok_Value_ok [OF int_ok_int_value [of int32_t "- 42"]], of integer_doubles]
  by simp

subsection \<open>Casts between integers\<close>

lemmas cast_defs = Tinyint_CastAs_def Smallint_CastAs_def Integer_CastAs_def Bigint_CastAs_def
lemmas copy_defs = Tinyint_Copy_def Smallint_Copy_def Integer_Copy_def Bigint_Copy_def

text \<open>Casts between the integer types: null becomes the null of the new type, a number whose
  magnitude fits the new type is kept, and any other number is reported as out of range.\<close>

theorem CastAs_integer:
  assumes "int_ok T v"
  shows "Value_CastAs F v (type_of T') =
    (if IsNull v then Inr (int_value T' (null_of T'))
     else if \<bar>GetAs T v\<bar> < 2 ^ (bits T' - 1) then Inr (int_value T' (GetAs T v))
     else throw_range)"
proof -
  have ty: "val_type v = type_of T" using int_okD [OF assms] by simp
  have ci: "CheckInteger v" by (simp add: CheckInteger_iff ty)
  show ?thesis
  proof (cases "IsNull v")
    case True
    then show ?thesis
      by (cases T; cases T')
        (simp_all add: Value_CastAs_def ty cast_defs limit_defs null_of_def)
  next
    case False
    with int_ok_bounds [OF assms False] show ?thesis
      by (cases T; cases T')
        (auto simp: Value_CastAs_def ty cast_defs copy_defs limit_defs narrow_def ci abs_less_iff)
  qed
qed

theorem CastAs_integer_witness:
  "Value_CastAs integer_doubles (int_value int16_t 300) TINYINT = throw_range"
  using CastAs_integer [OF int_ok_int_value [of int16_t 300], of integer_doubles int8_t]
  by (simp add: wrap_def null_of_def)

subsection \<open>Casts to and from text\<close>

definition str_value :: "string \<Rightarrow> Value" where
  "str_value s = (new_Value VARCHAR)\<lparr>val_varlen := Some (s @ [CHR 0x00]), val_len := of_nat (length s) + 1\<rparr>"

lemma unat_len:
  assumes "length s < 2 ^ 32 - 2"
  shows "unat (of_nat (length s) + 1 :: uint32) = Suc (length s)"
    and "unat (of_nat (length s) :: uint32) = length s" and "of_nat (length s) + 1 \<noteq> (- 1 :: uint32)" and "of_nat (length s) + 1 \<noteq> (0 :: uint32)"
proof -
  have "unat (of_nat (Suc (length s)) :: uint32) = Suc (length s)"
    using assms by (intro unat_of_nat_small) simp
  then show *: "unat (of_nat (length s) + 1 :: uint32) = Suc (length s)" by (simp add: add.commute)
  show "unat (of_nat (length s) :: uint32) = length s"
    using assms by (intro unat_of_nat_small) simp
  show "of_nat (length s) + 1 \<noteq> (0 :: uint32)" using * by (metis nat.distinct(1) unat_0)
  have "unat (- 1 :: uint32) = 2 ^ 32 - 1" by (simp add: unsigned_minus_1_eq_mask mask_eq_exp_minus_1)
  with * assms have "unat (of_nat (length s) + 1 :: uint32) \<noteq> unat (- 1 :: uint32)" by linarith
  then show "of_nat (length s) + 1 \<noteq> (- 1 :: uint32)" by metis
qed

lemma Value_string_eq: "length s < 2 ^ 32 - 2 \<Longrightarrow> Value_string VARCHAR s = Inr (str_value s)"
  by (simp add: Value_string_def str_value_def Let_def unat_len)

lemma ToString_str_value:
  assumes "length s < 2 ^ 32 - 2"
  shows "Value_ToString F (str_value s) = Inr s" and "\<not> IsNull (str_value s)" and "val_type (str_value s) = VARCHAR"
  using unat_len [OF assms]
  by (simp_all add: Value_ToString_def Varlen_ToString_def str_value_def new_Value_def IsNull_def
      limit_defs memory_def Let_def)

lemma length_int_to_string: "\<bar>i\<bar> < 2 ^ 63 \<Longrightarrow> length (int_to_string i) < 2 ^ 32 - 2"
proof -
  assume i: "\<bar>i\<bar> < 2 ^ 63"
  have "nat \<bar>i\<bar> < 10 ^ 19" using i by (simp add: nat_less_iff)
  from nat_to_string_length [OF this] have "length (nat_to_string (nat \<bar>i\<bar>)) \<le> 19" by simp
  then show ?thesis by (cases "i < 0") (auto simp: int_to_string_def)
qed

lemmas to_string_defs = Tinyint_ToString_def Smallint_ToString_def Integer_ToString_def Bigint_ToString_def

lemma ToString_integer:
  assumes "int_ok T v" "\<not> IsNull v"
  shows "Value_ToString F v = Inr (int_to_string (GetAs T v))"
  using assms(2) int_okD [OF assms(1)]
  by (cases T) (simp_all add: Value_ToString_def to_string_defs CheckInteger_iff)

lemma sto_to_string: "\<bar>i\<bar> < 2 ^ (n - 1) \<Longrightarrow> sto n (int_to_string i) = Inr i"
  by (auto simp: sto_def parse_int_to_string)

text \<open>Text round trip: a number of any integer type that is cast to \<open>VARCHAR\<close> and back is the
  same value.\<close>

theorem CastAs_VARCHAR_roundtrip:
  assumes "int_ok T v" "\<not> IsNull v"
  shows "\<exists>s. Value_CastAs F v VARCHAR = Inr s \<and> Value_CastAs F s (type_of T) = Inr v"
proof -
  let ?x = "GetAs T v"
  have ty: "val_type v = type_of T" using int_okD [OF assms(1)] by simp
  note b = int_ok_bounds [OF assms]
  have "\<bar>?x\<bar> < 2 ^ 63" using b by (cases T) auto
  note len = length_int_to_string [OF this]
  have "Value_CastAs F v VARCHAR = Inr (str_value (int_to_string ?x))"
    using assms(2) Value_string_eq [OF len] ToString_integer [OF assms, of F]
    by (cases T) (simp_all add: Value_CastAs_def ty cast_defs)
  moreover have "Value_CastAs F (str_value (int_to_string ?x)) (type_of T) = Inr (int_value T ?x)"
    using b ToString_str_value [OF len] by (cases T)
      (auto simp: Value_CastAs_def Varlen_CastAs_def stoi_def stoll_def
        sto_to_string catch_range_def limit_defs wrap_def Let_def signed_take_bit_int_eq_self abs_less_iff)
  ultimately show ?thesis using int_ok_value [OF assms(1)] by auto
qed

theorem CastAs_VARCHAR_roundtrip_witness:
  "\<exists>s. Value_CastAs integer_doubles (int_value int16_t (- 1234)) VARCHAR = Inr s \<and>
     Value_CastAs integer_doubles s SMALLINT = Inr (int_value int16_t (- 1234))"
  using CastAs_VARCHAR_roundtrip [OF int_ok_int_value [of int16_t "- 1234"], of integer_doubles]
  by (simp add: wrap_def null_of_def)

text \<open>A cast of text to \<open>TINYINT\<close> or \<open>SMALLINT\<close> truncates the number before the range check:
  the texts 300 and 70000 are accepted as 44 and 4464. A null text is not cast to null; its conversion
  ends in an uncaught \<open>std::invalid_argument\<close>.\<close>

theorem CastAs_text_truncates:
  "Value_CastAs F (str_value ''300'') TINYINT = Inr (int_value int8_t 44) \<and>
   Value_CastAs F (str_value ''70000'') SMALLINT = Inr (int_value int16_t 4464) \<and>
   Value_CastAs F (new_Value VARCHAR) INTEGER = Inl StdInvalidArgument"
proof -
  have "''300'' = int_to_string 300" "''70000'' = int_to_string 70000"
    by (simp_all add: int_to_string_def nat_to_string.simps digit_char_def char_of_def bit_0)
  then have "stoi ''300'' = Inr 300" "stoi ''70000'' = Inr 70000"
    by (simp_all add: stoi_def sto_to_string)
  moreover have "stoi ''varlen_null'' = Inl StdInvalidArgument" by code_simp
  moreover have "Value_ToString F (str_value ''300'') = Inr ''300''" "Value_ToString F (str_value ''70000'') = Inr ''70000''"
    by (rule ToString_str_value; simp)+
  moreover have "Value_ToString F (new_Value VARCHAR) = Inr ''varlen_null''"
    by (simp add: Value_ToString_def Varlen_ToString_def new_Value_def IsNull_def)
  ultimately show ?thesis
    by (simp add: Value_CastAs_def Varlen_CastAs_def catch_range_def wrap_def limit_defs Let_def
        str_value_def new_Value_def)
qed

end
