(* ===== verification/Schemas.thy ===== *)
theory Schemas
  imports Casts
begin

section \<open>Columns and schemas\<close>

text \<open>
  \<^verbatim>\<open>catalog/column.{h,cpp}\<close> and \<^verbatim>\<open>catalog/schema.{h,cpp}\<close>, with the expression trees of
  \<^verbatim>\<open>execution/expressions\<close> a column may refer to. The index of a column is a natural number: a schema has
  fewer than 2 ^ 32 columns. The lemmas say where the columns of a schema lie in a tuple.
\<close>

subsection \<open>Expressions\<close>

datatype ComparisonType = Equal | NotEqual | LessThan | LessThanOrEqual | GreaterThan | GreaterThanOrEqual

datatype Expression =
    ColumnValueExpression nat nat TypeId
  | ConstantValueExpression Value
  | ComparisonExpression Expression Expression ComparisonType
  | AggregateValueExpression bool nat TypeId

fun GetReturnType :: "Expression \<Rightarrow> TypeId" where
  "GetReturnType (ColumnValueExpression tuple_idx col_idx ret_type) = ret_type"
| "GetReturnType (ConstantValueExpression val) = GetTypeId val"
| "GetReturnType (ComparisonExpression left right comp_type) = BOOLEAN"
| "GetReturnType (AggregateValueExpression is_group_by_term term_idx ret_type) = ret_type"

subsection \<open>Columns\<close>

record Column =
  column_name :: string
  column_type :: TypeId
  fixed_length :: uint32
  variable_length :: uint32
  column_offset :: uint32
  column_expr :: "Expression option"

definition TypeSize :: "TypeId \<Rightarrow> 8 word" where
  "TypeSize type = (case type of
     BOOLEAN \<Rightarrow> 1 | TINYINT \<Rightarrow> 1 | SMALLINT \<Rightarrow> 2 | INTEGER \<Rightarrow> 4
   | BIGINT \<Rightarrow> 8 | DECIMAL \<Rightarrow> 8 | TIMESTAMP \<Rightarrow> 8 | VARCHAR \<Rightarrow> 12 | _ \<Rightarrow> 0)"

definition Column_fixed :: "string \<Rightarrow> TypeId \<Rightarrow> Expression option \<Rightarrow> Column result" where
  "Column_fixed name type expr = ensure (type \<noteq> VARCHAR)
     (Inr \<lparr>column_name = name, column_type = type, fixed_length = ucast (TypeSize type),
           variable_length = 0, column_offset = 0, column_expr = expr\<rparr>)"

definition Column_varlen :: "string \<Rightarrow> TypeId \<Rightarrow> uint32 \<Rightarrow> Expression option \<Rightarrow> Column result" where
  "Column_varlen name type len expr = ensure (type = VARCHAR)
     (Inr \<lparr>column_name = name, column_type = type, fixed_length = ucast (TypeSize type),
           variable_length = 0, column_offset = 0, column_expr = expr\<rparr>)"

definition Column_IsInlined :: "Column \<Rightarrow> bool" where
  "Column_IsInlined c \<longleftrightarrow> column_type c \<noteq> VARCHAR"

definition Column_GetLength :: "Column \<Rightarrow> uint32" where
  "Column_GetLength c = (if Column_IsInlined c then fixed_length c else variable_length c)"

definition Column_GetTypeSize :: "Column \<Rightarrow> 8 word" where
  "Column_GetTypeSize c = TypeSize (column_type c)"

definition Column_ToString :: "Column \<Rightarrow> string" where
  "Column_ToString c =
     ''Column['' @ column_name c @ '', '' @ TypeIdToString (column_type c) @ '', '' @
     ''Offset:'' @ nat_to_string (unat (column_offset c)) @ '', '' @
     (if Column_IsInlined c then ''FixedLength:'' @ nat_to_string (unat (fixed_length c))
      else ''VarLength:'' @ nat_to_string (unat (variable_length c))) @
     '']''"

subsection \<open>Schemas\<close>

record Schema =
  schema_length :: uint32
  columns :: "Column list"
  tuple_is_inlined :: bool
  uninlined_columns :: "nat list"

text \<open>\<open>schema_loop cs index curr_offset\<close> places the columns from \<open>index\<close> on: the columns with their offsets,
  the indices of the uninlined ones and the final offset.\<close>

fun schema_loop :: "Column list \<Rightarrow> nat \<Rightarrow> uint32 \<Rightarrow> Column list \<times> nat list \<times> uint32" where
  "schema_loop [] index curr_offset = ([], [], curr_offset)"
| "schema_loop (column # cs) index curr_offset =
     (let (cols, uninlined, len) = schema_loop cs (Suc index) (curr_offset + fixed_length column) in
      (column\<lparr>column_offset := curr_offset\<rparr> # cols,
       (if Column_IsInlined column then uninlined else index # uninlined),
       len))"

definition Schema_new :: "Column list \<Rightarrow> Schema" where
  "Schema_new cs = (let (cols, uninlined, len) = schema_loop cs 0 0 in
     \<lparr>schema_length = len, columns = cols, tuple_is_inlined = (\<forall>c\<in>set cs. Column_IsInlined c),
      uninlined_columns = uninlined\<rparr>)"

definition GetColumnCount :: "Schema \<Rightarrow> nat" where
  "GetColumnCount s = length (columns s)"

definition GetUnlinedColumnCount :: "Schema \<Rightarrow> nat" where
  "GetUnlinedColumnCount s = length (uninlined_columns s)"

definition at :: "'a list \<Rightarrow> nat \<Rightarrow> 'a result" where
  "at xs i = (if i < length xs then Inr (xs ! i) else Inl Crash)"

definition GetColumn :: "Schema \<Rightarrow> nat \<Rightarrow> Column result" where
  "GetColumn s col_idx = at (columns s) col_idx"

definition traverse :: "('a \<Rightarrow> 'b result) \<Rightarrow> 'a list \<Rightarrow> 'b list result" where
  "traverse f xs = foldr (\<lambda>x r. andThen (f x) (\<lambda>y. andThen r (\<lambda>ys. Inr (y # ys)))) xs (Inr [])"

definition CopySchema :: "Schema \<Rightarrow> nat list \<Rightarrow> Schema result" where
  "CopySchema from attrs = andThen (traverse (GetColumn from) attrs) (\<lambda>cols. Inr (Schema_new cols))"

fun find_column :: "string \<Rightarrow> nat \<Rightarrow> Column list \<Rightarrow> nat result" where
  "find_column col_name i [] = Inl StdLogicError"
| "find_column col_name i (c # cs) =
     (if column_name c = col_name then Inr i else find_column col_name (Suc i) cs)"

definition GetColIdx :: "Schema \<Rightarrow> string \<Rightarrow> nat result" where
  "GetColIdx s col_name = find_column col_name 0 (columns s)"

fun join_columns :: "bool \<Rightarrow> Column list \<Rightarrow> string" where
  "join_columns first [] = []"
| "join_columns first (c # cs) = (if first then [] else '', '') @ Column_ToString c @ join_columns False cs"

definition Schema_ToString :: "Schema \<Rightarrow> string" where
  "Schema_ToString s =
     ''Schema['' @ ''NumColumns:'' @ nat_to_string (GetColumnCount s) @ '', '' @
     ''IsInlined:'' @ (if tuple_is_inlined s then ''1'' else ''0'') @ '', '' @
     ''Length:'' @ nat_to_string (unat (schema_length s)) @ '']'' @
     '' :: ('' @ join_columns True (columns s) @ '')''"

subsection \<open>Lemmas\<close>

lemma traverse_simps [simp]:
  "traverse f [] = Inr []"
  "traverse f (x # xs) = andThen (f x) (\<lambda>y. andThen (traverse f xs) (\<lambda>ys. Inr (y # ys)))"
  by (simp_all add: traverse_def)

lemma traverse_Inr: "traverse f xs = Inr ys \<longleftrightarrow> list_all2 (\<lambda>x y. f x = Inr y) xs ys"
proof (induction xs arbitrary: ys)
  case (Cons x xs)
  then show ?case by (cases ys) (auto simp: andThen_Inr)
qed auto

lemma at_Inr: "at xs i = Inr x \<longleftrightarrow> i < length xs \<and> xs ! i = x"
  by (auto simp: at_def)

lemma at_in [simp]: "i < length xs \<Longrightarrow> at xs i = Inr (xs ! i)"
  by (simp add: at_def)

text \<open>The columns of a schema lie side by side: \<open>placed off cs\<close> from offset \<open>off\<close> on.\<close>

fun placed :: "nat \<Rightarrow> Column list \<Rightarrow> bool" where
  "placed off [] = True"
| "placed off (c # cs) \<longleftrightarrow> unat (column_offset c) = off \<and> placed (off + unat (fixed_length c)) cs"

definition fixed_size :: "Column list \<Rightarrow> nat" where
  "fixed_size cs = sum_list (map (\<lambda>c. unat (fixed_length c)) cs)"

lemma fixed_size_simps [simp]:
  "fixed_size [] = 0" "fixed_size (c # cs) = unat (fixed_length c) + fixed_size cs"
  by (simp_all add: fixed_size_def)

definition uninlined_from :: "nat \<Rightarrow> Column list \<Rightarrow> nat list" where
  "uninlined_from k cs = map (\<lambda>i. k + i) (filter (\<lambda>i. \<not> Column_IsInlined (cs ! i)) [0..<length cs])"

lemma uninlined_from_Cons:
  "uninlined_from k (c # cs) = (if Column_IsInlined c then [] else [k]) @ uninlined_from (Suc k) cs"
proof -
  have "[0..<Suc (length cs)] = 0 # map Suc [0..<length cs]"
    by (simp add: upt_conv_Cons map_Suc_upt del: upt_Suc)
  then show ?thesis
    by (simp add: uninlined_from_def filter_map comp_def del: upt_Suc)
qed

lemma schema_loop_spec:
  assumes "unat off + fixed_size cs < 2 ^ 32" "schema_loop cs k off = (cols, un, len)"
  shows "placed (unat off) cols \<and> unat len = unat off + fixed_size cs \<and> un = uninlined_from k cs \<and>
    list_all2 (\<lambda>c c'. c' = c\<lparr>column_offset := column_offset c'\<rparr>) cs cols"
  using assms
proof (induction cs arbitrary: k off cols un len)
  case Nil
  then show ?case by (auto simp: uninlined_from_def)
next
  case (Cons c cs)
  obtain cols' un' len' where l: "schema_loop cs (Suc k) (off + fixed_length c) = (cols', un', len')"
    by (metis prod_cases3)
  have off: "unat (off + fixed_length c) = unat off + unat (fixed_length c)"
    using Cons.prems(1) by (simp add: unat_word_ariths)
  have "unat (off + fixed_length c) + fixed_size cs < 2 ^ 32" using Cons.prems(1) off by simp
  note IH = Cons.IH [OF this l]
  show ?case using Cons.prems(2) IH l off by (auto simp: uninlined_from_Cons)
qed

lemma Schema_new_spec:
  assumes "fixed_size cs < 2 ^ 32"
  shows "placed 0 (columns (Schema_new cs))" "unat (schema_length (Schema_new cs)) = fixed_size cs"
    "uninlined_columns (Schema_new cs) = uninlined_from 0 cs"
    "list_all2 (\<lambda>c c'. c' = c\<lparr>column_offset := column_offset c'\<rparr>) cs (columns (Schema_new cs))"
proof -
  obtain cols un len where l: "schema_loop cs 0 0 = (cols, un, len)" by (metis prod_cases3)
  with schema_loop_spec [OF _ l] assms show
    "placed 0 (columns (Schema_new cs))" "unat (schema_length (Schema_new cs)) = fixed_size cs"
    "uninlined_columns (Schema_new cs) = uninlined_from 0 cs"
    "list_all2 (\<lambda>c c'. c' = c\<lparr>column_offset := column_offset c'\<rparr>) cs (columns (Schema_new cs))"
    by (simp_all add: Schema_new_def)
qed

text \<open>The first column of the name.\<close>

lemma find_column_Inr:
  "find_column name k cs = Inr i \<longleftrightarrow>
    (\<exists>j<length cs. i = k + j \<and> column_name (cs ! j) = name \<and> (\<forall>l<j. column_name (cs ! l) \<noteq> name))"
proof (induction cs arbitrary: k)
  case (Cons c cs)
  show ?case
  proof (cases "column_name c = name")
    case True
    then show ?thesis by (auto intro: exI [of _ 0]) (metis nth_Cons_0 gr0I)+
  next
    case False
    then show ?thesis
      by (auto simp: Cons less_Suc_eq_0_disj nth_Cons split: nat.splits) (metis gr0_implies_Suc)
  qed
qed simp

end
