(* ===== verification/TablePage.thy ===== *)
theory TablePage
  imports Strings
begin

section \<open>Slotted table pages\<close>

text \<open>
  \<^verbatim>\<open>storage/page/table_page.{h,cpp}\<close> on the bytes of a page: a header, an array of slots that grows
  upwards and the tuples that grow downwards. \<^term>\<open>None\<close> is an access outside the page or a failed
  assertion. The log is off: \<open>enable_logging\<close> is false from its definition in \<^verbatim>\<open>common/config.cpp\<close>, and
  nothing in the program sets it, so the locking and logging it guards is left out.
\<close>

subsection \<open>Reading and writing memory\<close>

definition sub :: "bytes \<Rightarrow> nat \<Rightarrow> nat \<Rightarrow> bytes" where
  "sub d off n = take n (drop off d)"

definition read_bytes :: "bytes \<Rightarrow> nat \<Rightarrow> nat \<Rightarrow> bytes option" where
  "read_bytes d off n = (if off + n \<le> length d then Some (sub d off n) else None)"

definition write_bytes :: "bytes \<Rightarrow> nat \<Rightarrow> bytes \<Rightarrow> bytes option" where
  "write_bytes d off bs = (if off + length bs \<le> length d
     then Some (take off d @ bs @ drop (off + length bs) d) else None)"

definition word_at :: "bytes \<Rightarrow> nat \<Rightarrow> uint32" where
  "word_at d off = ucast (le_word (sub d off 4))"

definition read32 :: "bytes \<Rightarrow> nat \<Rightarrow> uint32 option" where
  "read32 d off = (if off + 4 \<le> length d then Some (word_at d off) else None)"

definition write32 :: "bytes \<Rightarrow> nat \<Rightarrow> uint32 \<Rightarrow> bytes option" where
  "write32 d off w = write_bytes d off (le_bytes 4 (ucast w))"

definition memmove :: "bytes \<Rightarrow> nat \<Rightarrow> nat \<Rightarrow> nat \<Rightarrow> bytes option" where
  "memmove d dst source n = do { bs \<leftarrow> read_bytes d source n; write_bytes d dst bs }"

subsection \<open>Record identifiers and tuples\<close>

record rid =
  page_id_of :: page_id_t
  slot_num_of :: uint32

record tuple =
  size_of :: uint32
  data_of :: bytes
  rid_of :: rid

text \<open>A default-constructed identifier and tuple.\<close>

definition RID_default :: "config \<Rightarrow> rid" where
  "RID_default cfg = \<lparr>page_id_of = INVALID_PAGE_ID cfg, slot_num_of = 0\<rparr>"

definition Tuple_default :: "config \<Rightarrow> tuple" where
  "Tuple_default cfg = \<lparr>size_of = 0, data_of = [], rid_of = RID_default cfg\<rparr>"

subsection \<open>The header and the slots\<close>

definition SIZE_TABLE_PAGE_HEADER :: nat where "SIZE_TABLE_PAGE_HEADER = 24"
definition SIZE_TUPLE :: nat where "SIZE_TUPLE = 8"
definition OFFSET_PREV_PAGE_ID :: nat where "OFFSET_PREV_PAGE_ID = 8"
definition OFFSET_NEXT_PAGE_ID :: nat where "OFFSET_NEXT_PAGE_ID = 12"
definition OFFSET_FREE_SPACE :: nat where "OFFSET_FREE_SPACE = 16"
definition OFFSET_TUPLE_COUNT :: nat where "OFFSET_TUPLE_COUNT = 20"
definition OFFSET_TUPLE_OFFSET :: nat where "OFFSET_TUPLE_OFFSET = 24"
definition OFFSET_TUPLE_SIZE :: nat where "OFFSET_TUPLE_SIZE = 28"
definition DELETE_MASK :: uint32 where "DELETE_MASK = push_bit 31 1"

lemmas offset_defs [simp] = SIZE_TABLE_PAGE_HEADER_def SIZE_TUPLE_def OFFSET_PREV_PAGE_ID_def
  OFFSET_NEXT_PAGE_ID_def OFFSET_FREE_SPACE_def OFFSET_TUPLE_COUNT_def OFFSET_TUPLE_OFFSET_def
  OFFSET_TUPLE_SIZE_def

definition GetTablePageId :: "bytes \<Rightarrow> page_id_t option" where
  "GetTablePageId d = read32 d 0"

definition GetPrevPageId :: "bytes \<Rightarrow> page_id_t option" where
  "GetPrevPageId d = read32 d OFFSET_PREV_PAGE_ID"

definition GetNextPageId :: "bytes \<Rightarrow> page_id_t option" where
  "GetNextPageId d = read32 d OFFSET_NEXT_PAGE_ID"

definition SetPrevPageId :: "bytes \<Rightarrow> page_id_t \<Rightarrow> bytes option" where
  "SetPrevPageId d prev_page_id = write32 d OFFSET_PREV_PAGE_ID prev_page_id"

definition SetNextPageId :: "bytes \<Rightarrow> page_id_t \<Rightarrow> bytes option" where
  "SetNextPageId d next_page_id = write32 d OFFSET_NEXT_PAGE_ID next_page_id"

definition GetFreeSpacePointer :: "bytes \<Rightarrow> uint32 option" where
  "GetFreeSpacePointer d = read32 d OFFSET_FREE_SPACE"

definition SetFreeSpacePointer :: "bytes \<Rightarrow> uint32 \<Rightarrow> bytes option" where
  "SetFreeSpacePointer d free_space_pointer = write32 d OFFSET_FREE_SPACE free_space_pointer"

definition GetTupleCount :: "bytes \<Rightarrow> uint32 option" where
  "GetTupleCount d = read32 d OFFSET_TUPLE_COUNT"

definition SetTupleCount :: "bytes \<Rightarrow> uint32 \<Rightarrow> bytes option" where
  "SetTupleCount d tuple_count = write32 d OFFSET_TUPLE_COUNT tuple_count"

text \<open>Computed in 64 bits and truncated to 32, which is the arithmetic of 32 bits.\<close>

definition GetFreeSpaceRemaining :: "bytes \<Rightarrow> uint32 option" where
  "GetFreeSpaceRemaining d = do {
     p \<leftarrow> GetFreeSpacePointer d;
     n \<leftarrow> GetTupleCount d;
     Some (p - of_nat SIZE_TABLE_PAGE_HEADER - of_nat SIZE_TUPLE * n)
   }"

definition GetTupleOffsetAtSlot :: "bytes \<Rightarrow> nat \<Rightarrow> uint32 option" where
  "GetTupleOffsetAtSlot d slot_num = read32 d (OFFSET_TUPLE_OFFSET + SIZE_TUPLE * slot_num)"

definition SetTupleOffsetAtSlot :: "bytes \<Rightarrow> nat \<Rightarrow> uint32 \<Rightarrow> bytes option" where
  "SetTupleOffsetAtSlot d slot_num offset = write32 d (OFFSET_TUPLE_OFFSET + SIZE_TUPLE * slot_num) offset"

definition GetTupleSize :: "bytes \<Rightarrow> nat \<Rightarrow> uint32 option" where
  "GetTupleSize d slot_num = read32 d (OFFSET_TUPLE_SIZE + SIZE_TUPLE * slot_num)"

definition SetTupleSize :: "bytes \<Rightarrow> nat \<Rightarrow> uint32 \<Rightarrow> bytes option" where
  "SetTupleSize d slot_num tuple_size = write32 d (OFFSET_TUPLE_SIZE + SIZE_TUPLE * slot_num) tuple_size"

definition IsDeleted :: "uint32 \<Rightarrow> bool" where
  "IsDeleted tuple_size \<longleftrightarrow> tuple_size AND DELETE_MASK \<noteq> 0 \<or> tuple_size = 0"

definition SetDeletedFlag :: "uint32 \<Rightarrow> uint32" where
  "SetDeletedFlag tuple_size = tuple_size OR DELETE_MASK"

definition UnsetDeletedFlag :: "uint32 \<Rightarrow> uint32" where
  "UnsetDeletedFlag tuple_size = tuple_size AND NOT DELETE_MASK"

subsection \<open>Operations\<close>

definition TablePage_Init :: "config \<Rightarrow> bytes \<Rightarrow> page_id_t \<Rightarrow> uint32 \<Rightarrow> page_id_t \<Rightarrow> bytes option" where
  "TablePage_Init cfg d page_id page_size prev_page_id = do {
     d \<leftarrow> write32 d 0 page_id;
     d \<leftarrow> SetPrevPageId d prev_page_id;
     d \<leftarrow> SetNextPageId d (INVALID_PAGE_ID cfg);
     d \<leftarrow> SetFreeSpacePointer d page_size;
     SetTupleCount d 0
   }"

text \<open>\<open>find_empty d i k\<close> is the loop over the slots from \<open>i\<close> with \<open>k\<close> slots left.\<close>

fun find_empty :: "bytes \<Rightarrow> nat \<Rightarrow> nat \<Rightarrow> nat option" where
  "find_empty d i 0 = Some i"
| "find_empty d i (Suc k) = do {
     tuple_size \<leftarrow> GetTupleSize d i;
     if tuple_size = 0 then Some i else find_empty d (Suc i) k
   }"

text \<open>The result is the new identifier, \<^term>\<open>None\<close> when the page is full.\<close>

definition TablePage_InsertTuple :: "bytes \<Rightarrow> tuple \<Rightarrow> (rid option \<times> bytes) option" where
  "TablePage_InsertTuple d tuple = do {
     assert_that (size_of tuple > 0);
     free \<leftarrow> GetFreeSpaceRemaining d;
     if unat free < unat (size_of tuple) + SIZE_TUPLE then Some (None, d)
     else do {
       count \<leftarrow> GetTupleCount d;
       i \<leftarrow> find_empty d 0 (unat count);
       if i = unat count \<and> unat free < unat (size_of tuple) + SIZE_TUPLE then Some (None, d)
       else do {
         p \<leftarrow> GetFreeSpacePointer d;
         d \<leftarrow> SetFreeSpacePointer d (p - size_of tuple);
         p \<leftarrow> GetFreeSpacePointer d;
         bs \<leftarrow> read_bytes (data_of tuple) 0 (unat (size_of tuple));
         d \<leftarrow> write_bytes d (unat p) bs;
         p \<leftarrow> GetFreeSpacePointer d;
         d \<leftarrow> SetTupleOffsetAtSlot d i p;
         d \<leftarrow> SetTupleSize d i (size_of tuple);
         page_id \<leftarrow> GetTablePageId d;
         count \<leftarrow> GetTupleCount d;
         d \<leftarrow> (if i = unat count then SetTupleCount d (count + 1) else Some d);
         Some (Some \<lparr>page_id_of = page_id, slot_num_of = of_nat i\<rparr>, d)
       }
     }
   }"

definition TablePage_MarkDelete :: "bytes \<Rightarrow> rid \<Rightarrow> (bool \<times> bytes) option" where
  "TablePage_MarkDelete d rid = do {
     let slot_num = slot_num_of rid;
     count \<leftarrow> GetTupleCount d;
     if slot_num \<ge> count then Some (False, d)
     else do {
       tuple_size \<leftarrow> GetTupleSize d (unat slot_num);
       if IsDeleted tuple_size then Some (False, d)
       else do {
         d \<leftarrow> (if tuple_size > 0 then SetTupleSize d (unat slot_num) (SetDeletedFlag tuple_size) else Some d);
         Some (True, d)
       }
     }
   }"

text \<open>The loops at the end of \<open>UpdateTuple\<close> and \<open>ApplyDelete\<close>: the offsets below \<open>limit\<close> of the slots in
  use move by \<open>delta\<close>.\<close>

fun shift_offsets :: "uint32 \<Rightarrow> uint32 \<Rightarrow> nat list \<Rightarrow> bytes \<Rightarrow> bytes option" where
  "shift_offsets limit delta [] d = Some d"
| "shift_offsets limit delta (i # is) d = do {
     tuple_offset_i \<leftarrow> GetTupleOffsetAtSlot d i;
     tuple_size \<leftarrow> GetTupleSize d i;
     d \<leftarrow> (if tuple_size \<noteq> 0 \<and> tuple_offset_i < limit then SetTupleOffsetAtSlot d i (tuple_offset_i + delta) else Some d);
     shift_offsets limit delta is d
   }"

text \<open>The result is the old tuple, \<^term>\<open>None\<close> when the update is refused.\<close>

definition TablePage_UpdateTuple :: "bytes \<Rightarrow> tuple \<Rightarrow> rid \<Rightarrow> (tuple option \<times> bytes) option" where
  "TablePage_UpdateTuple d new_tuple rid = do {
     assert_that (size_of new_tuple > 0);
     let slot_num = slot_num_of rid;
     count \<leftarrow> GetTupleCount d;
     if slot_num \<ge> count then Some (None, d)
     else do {
       tuple_size \<leftarrow> GetTupleSize d (unat slot_num);
       if IsDeleted tuple_size then Some (None, d)
       else do {
         free \<leftarrow> GetFreeSpaceRemaining d;
         if free + tuple_size < size_of new_tuple then Some (None, d)
         else do {
           tuple_offset \<leftarrow> GetTupleOffsetAtSlot d (unat slot_num);
           old \<leftarrow> read_bytes d (unat tuple_offset) (unat tuple_size);
           let old_tuple = \<lparr>size_of = tuple_size, data_of = old, rid_of = rid\<rparr>;
           free_space_pointer \<leftarrow> GetFreeSpacePointer d;
           assert_that (tuple_offset \<ge> free_space_pointer);
           assert_that (unat (size_of new_tuple) \<le> unat free_space_pointer + unat tuple_size);
           d \<leftarrow> memmove d (unat free_space_pointer + unat tuple_size - unat (size_of new_tuple))
             (unat free_space_pointer) (unat (tuple_offset - free_space_pointer));
           d \<leftarrow> SetFreeSpacePointer d (free_space_pointer + tuple_size - size_of new_tuple);
           bs \<leftarrow> read_bytes (data_of new_tuple) 0 (unat (size_of new_tuple));
           d \<leftarrow> write_bytes d (unat tuple_offset + unat tuple_size - unat (size_of new_tuple)) bs;
           d \<leftarrow> SetTupleSize d (unat slot_num) (size_of new_tuple);
           count \<leftarrow> GetTupleCount d;
           d \<leftarrow> shift_offsets (tuple_offset + tuple_size) (tuple_size - size_of new_tuple) [0..<unat count] d;
           Some (Some old_tuple, d)
         }
       }
     }
   }"

definition TablePage_ApplyDelete :: "bytes \<Rightarrow> rid \<Rightarrow> bytes option" where
  "TablePage_ApplyDelete d rid = do {
     let slot_num = slot_num_of rid;
     count \<leftarrow> GetTupleCount d;
     assert_that (slot_num < count);
     tuple_offset \<leftarrow> GetTupleOffsetAtSlot d (unat slot_num);
     tuple_size \<leftarrow> GetTupleSize d (unat slot_num);
     let tuple_size = (if IsDeleted tuple_size then UnsetDeletedFlag tuple_size else tuple_size);
     delete_tuple \<leftarrow> read_bytes d (unat tuple_offset) (unat tuple_size);
     free_space_pointer \<leftarrow> GetFreeSpacePointer d;
     assert_that (tuple_offset \<ge> free_space_pointer);
     d \<leftarrow> memmove d (unat free_space_pointer + unat tuple_size) (unat free_space_pointer)
       (unat (tuple_offset - free_space_pointer));
     d \<leftarrow> SetFreeSpacePointer d (free_space_pointer + tuple_size);
     d \<leftarrow> SetTupleSize d (unat slot_num) 0;
     d \<leftarrow> SetTupleOffsetAtSlot d (unat slot_num) 0;
     count \<leftarrow> GetTupleCount d;
     shift_offsets tuple_offset tuple_size [0..<unat count] d
   }"

definition TablePage_RollbackDelete :: "bytes \<Rightarrow> rid \<Rightarrow> bytes option" where
  "TablePage_RollbackDelete d rid = do {
     let slot_num = slot_num_of rid;
     count \<leftarrow> GetTupleCount d;
     assert_that (slot_num < count);
     tuple_size \<leftarrow> GetTupleSize d (unat slot_num);
     if IsDeleted tuple_size then SetTupleSize d (unat slot_num) (UnsetDeletedFlag tuple_size) else Some d
   }"

definition TablePage_GetTuple :: "bytes \<Rightarrow> rid \<Rightarrow> tuple option option" where
  "TablePage_GetTuple d rid = do {
     let slot_num = slot_num_of rid;
     count \<leftarrow> GetTupleCount d;
     if slot_num \<ge> count then Some None
     else do {
       tuple_size \<leftarrow> GetTupleSize d (unat slot_num);
       if IsDeleted tuple_size then Some None
       else do {
         tuple_offset \<leftarrow> GetTupleOffsetAtSlot d (unat slot_num);
         bs \<leftarrow> read_bytes d (unat tuple_offset) (unat tuple_size);
         Some (Some \<lparr>size_of = tuple_size, data_of = bs, rid_of = rid\<rparr>)
       }
     }
   }"

text \<open>\<open>find_valid d i k\<close> is the search for a tuple that is not deleted from slot \<open>i\<close> on, \<open>k\<close> slots left.\<close>

fun find_valid :: "bytes \<Rightarrow> nat \<Rightarrow> nat \<Rightarrow> nat option option" where
  "find_valid d i 0 = Some None"
| "find_valid d i (Suc k) = do {
     tuple_size \<leftarrow> GetTupleSize d i;
     if \<not> IsDeleted tuple_size then Some (Some i) else find_valid d (Suc i) k
   }"

definition GetFirstTupleRid :: "config \<Rightarrow> bytes \<Rightarrow> (bool \<times> rid) option" where
  "GetFirstTupleRid cfg d = do {
     count \<leftarrow> GetTupleCount d;
     page_id \<leftarrow> GetTablePageId d;
     i \<leftarrow> find_valid d 0 (unat count);
     Some (case i of
       Some i \<Rightarrow> (True, \<lparr>page_id_of = page_id, slot_num_of = of_nat i\<rparr>)
     | None \<Rightarrow> (False, \<lparr>page_id_of = INVALID_PAGE_ID cfg, slot_num_of = 0\<rparr>))
   }"

definition GetNextTupleRid :: "config \<Rightarrow> bytes \<Rightarrow> rid \<Rightarrow> (bool \<times> rid) option" where
  "GetNextTupleRid cfg d cur_rid = do {
     page_id \<leftarrow> GetTablePageId d;
     assert_that (page_id_of cur_rid = page_id);
     count \<leftarrow> GetTupleCount d;
     let i = unat (slot_num_of cur_rid + 1);
     i \<leftarrow> find_valid d i (unat count - i);
     Some (case i of
       Some i \<Rightarrow> (True, \<lparr>page_id_of = page_id, slot_num_of = of_nat i\<rparr>)
     | None \<Rightarrow> (False, \<lparr>page_id_of = INVALID_PAGE_ID cfg, slot_num_of = 0\<rparr>))
   }"

subsection \<open>Memory\<close>

definition put :: "bytes \<Rightarrow> nat \<Rightarrow> bytes \<Rightarrow> bytes" where
  "put d off bs = take off d @ bs @ drop (off + length bs) d"

lemma write_bytes_put: "off + length bs \<le> length d \<Longrightarrow> write_bytes d off bs = Some (put d off bs)"
  by (simp add: write_bytes_def put_def)

lemma length_put [simp]: "off + length bs \<le> length d \<Longrightarrow> length (put d off bs) = length d"
  by (simp add: put_def)

lemma nth_put:
  assumes "off + length bs \<le> length d" "k < length d"
  shows "put d off bs ! k = (if off \<le> k \<and> k < off + length bs then bs ! (k - off) else d ! k)"
  using assms by (auto simp: put_def nth_append min_def)

lemma length_sub [simp]: "off + n \<le> length d \<Longrightarrow> length (sub d off n) = n"
  by (simp add: sub_def)

lemma nth_sub: "off + n \<le> length d \<Longrightarrow> k < n \<Longrightarrow> sub d off n ! k = d ! (off + k)"
  by (simp add: sub_def)

lemma sub_put_same: "off + length bs \<le> length d \<Longrightarrow> sub (put d off bs) off (length bs) = bs"
  by (simp add: sub_def put_def)

lemma sub_put_other:
  assumes "off + length bs \<le> length d" "a + n \<le> length d" "a + n \<le> off \<or> off + length bs \<le> a"
  shows "sub (put d off bs) a n = sub d a n"
  by (rule nth_equalityI) (use assms in \<open>auto simp: nth_sub nth_put\<close>)

text \<open>A part of the bytes just written.\<close>

lemma sub_put_inside:
  assumes "off + length bs \<le> length d" "off \<le> a" "a + n \<le> off + length bs"
  shows "sub (put d off bs) a n = sub bs (a - off) n"
  by (rule nth_equalityI) (use assms in \<open>auto simp: nth_sub nth_put\<close>)

lemma sub_sub: "a + n \<le> m \<Longrightarrow> off + m \<le> length d \<Longrightarrow> sub (sub d off m) a n = sub d (off + a) n"
  by (rule nth_equalityI) (auto simp: nth_sub add.assoc)

lemma memmove_put:
  "source + n \<le> length d \<Longrightarrow> dst + n \<le> length d \<Longrightarrow> memmove d dst source n = Some (put d dst (sub d source n))"
  by (simp add: memmove_def read_bytes_def write_bytes_put)

abbreviation put32 :: "bytes \<Rightarrow> nat \<Rightarrow> uint32 \<Rightarrow> bytes" where
  "put32 d off w \<equiv> put d off (le_bytes 4 (ucast w))"

lemma write32_put: "off + 4 \<le> length d \<Longrightarrow> write32 d off w = Some (put32 d off w)"
  by (simp add: write32_def write_bytes_put)

lemma word_at_put_same: "off + 4 \<le> length d \<Longrightarrow> word_at (put32 d off w) off = w"
  using sub_put_same [of off "le_bytes 4 (ucast w)" d] by (simp add: word_at_def le_word_le_bytes ucast_head)

lemma word_at_put_other:
  "off + length bs \<le> length d \<Longrightarrow> a + 4 \<le> length d \<Longrightarrow> a + 4 \<le> off \<or> off + length bs \<le> a \<Longrightarrow>
    word_at (put d off bs) a = word_at d a"
  by (simp add: word_at_def sub_put_other)

subsection \<open>The fields of a page\<close>

definition fsp :: "bytes \<Rightarrow> uint32" where "fsp d = word_at d 16"
definition cnt :: "bytes \<Rightarrow> uint32" where "cnt d = word_at d 20"
definition off_at :: "bytes \<Rightarrow> nat \<Rightarrow> uint32" where "off_at d i = word_at d (24 + 8 * i)"
definition size_at :: "bytes \<Rightarrow> nat \<Rightarrow> uint32" where "size_at d i = word_at d (28 + 8 * i)"

lemmas field_defs = fsp_def cnt_def off_at_def size_at_def

lemma get_fields:
  "24 \<le> length d \<Longrightarrow> GetFreeSpacePointer d = Some (fsp d)"
  "24 \<le> length d \<Longrightarrow> GetTupleCount d = Some (cnt d)"
  "32 + 8 * i \<le> length d \<Longrightarrow> GetTupleOffsetAtSlot d i = Some (off_at d i)"
  "32 + 8 * i \<le> length d \<Longrightarrow> GetTupleSize d i = Some (size_at d i)"
  by (simp_all add: GetFreeSpacePointer_def GetTupleCount_def GetTupleOffsetAtSlot_def GetTupleSize_def
      read32_def field_defs)

lemma set_fields:
  "24 \<le> length d \<Longrightarrow> SetFreeSpacePointer d w = Some (put32 d 16 w)"
  "24 \<le> length d \<Longrightarrow> SetTupleCount d w = Some (put32 d 20 w)"
  "32 + 8 * i \<le> length d \<Longrightarrow> SetTupleOffsetAtSlot d i w = Some (put32 d (24 + 8 * i) w)"
  "32 + 8 * i \<le> length d \<Longrightarrow> SetTupleSize d i w = Some (put32 d (28 + 8 * i) w)"
  by (simp_all add: SetFreeSpacePointer_def SetTupleCount_def SetTupleOffsetAtSlot_def SetTupleSize_def
      write32_put)

text \<open>What each write leaves in the fields.\<close>

lemma put_fsp:
  assumes "24 \<le> length d"
  shows "fsp (put32 d 16 w) = w" "cnt (put32 d 16 w) = cnt d"
    "32 + 8 * i \<le> length d \<Longrightarrow> off_at (put32 d 16 w) i = off_at d i"
    "32 + 8 * i \<le> length d \<Longrightarrow> size_at (put32 d 16 w) i = size_at d i"
    "24 \<le> a \<Longrightarrow> a + n \<le> length d \<Longrightarrow> sub (put32 d 16 w) a n = sub d a n"
  using assms by (simp_all add: field_defs word_at_put_same word_at_put_other sub_put_other)

lemma put_cnt:
  assumes "24 \<le> length d"
  shows "cnt (put32 d 20 w) = w" "fsp (put32 d 20 w) = fsp d"
    "32 + 8 * i \<le> length d \<Longrightarrow> off_at (put32 d 20 w) i = off_at d i"
    "32 + 8 * i \<le> length d \<Longrightarrow> size_at (put32 d 20 w) i = size_at d i"
    "24 \<le> a \<Longrightarrow> a + n \<le> length d \<Longrightarrow> sub (put32 d 20 w) a n = sub d a n"
  using assms by (simp_all add: field_defs word_at_put_same word_at_put_other sub_put_other)

lemma put_off:
  assumes "32 + 8 * k \<le> length d"
  shows "fsp (put32 d (24 + 8 * k) w) = fsp d" "cnt (put32 d (24 + 8 * k) w) = cnt d"
    "32 + 8 * i \<le> length d \<Longrightarrow> off_at (put32 d (24 + 8 * k) w) i = (if i = k then w else off_at d i)"
    "32 + 8 * i \<le> length d \<Longrightarrow> size_at (put32 d (24 + 8 * k) w) i = size_at d i"
    "32 + 8 * k \<le> a \<Longrightarrow> a + n \<le> length d \<Longrightarrow> sub (put32 d (24 + 8 * k) w) a n = sub d a n"
  using assms by (auto simp: field_defs word_at_put_same sub_put_other intro!: word_at_put_other)

lemma put_size:
  assumes "32 + 8 * k \<le> length d"
  shows "fsp (put32 d (28 + 8 * k) w) = fsp d" "cnt (put32 d (28 + 8 * k) w) = cnt d"
    "32 + 8 * i \<le> length d \<Longrightarrow> off_at (put32 d (28 + 8 * k) w) i = off_at d i"
    "32 + 8 * i \<le> length d \<Longrightarrow> size_at (put32 d (28 + 8 * k) w) i = (if i = k then w else size_at d i)"
    "32 + 8 * k \<le> a \<Longrightarrow> a + n \<le> length d \<Longrightarrow> sub (put32 d (28 + 8 * k) w) a n = sub d a n"
  using assms by (auto simp: field_defs word_at_put_same sub_put_other intro!: word_at_put_other)

lemma put_data:
  assumes "24 + 8 * n \<le> a" "a + length bs \<le> length d"
  shows "fsp (put d a bs) = fsp d" "cnt (put d a bs) = cnt d"
    "i < n \<Longrightarrow> off_at (put d a bs) i = off_at d i"
    "i < n \<Longrightarrow> size_at (put d a bs) i = size_at d i"
  using assms by (auto simp: field_defs intro!: word_at_put_other)

lemmas put_fields = put_fsp put_cnt put_off put_size

subsection \<open>The deletion flag\<close>

definition real_size :: "uint32 \<Rightarrow> nat" where
  "real_size w = unat (UnsetDeletedFlag w)"

definition flagged :: "uint32 \<Rightarrow> bool" where
  "flagged w \<longleftrightarrow> bit w 31"

lemma bit_DELETE_MASK: "bit DELETE_MASK n \<longleftrightarrow> n = 31"
proof -
  have m: "DELETE_MASK = 2 ^ 31" by (simp add: DELETE_MASK_def)
  show ?thesis unfolding m bit_exp_iff by auto
qed

lemma flag_bits:
  "bit (SetDeletedFlag w) n \<longleftrightarrow> bit w n \<or> n = 31"
  "bit (UnsetDeletedFlag w) n \<longleftrightarrow> bit w n \<and> n \<noteq> 31"
  by (auto simp: SetDeletedFlag_def UnsetDeletedFlag_def bit_or_iff bit_and_iff bit_not_iff bit_DELETE_MASK
      dest: bit_imp_le_length)

lemma IsDeleted_iff: "IsDeleted w \<longleftrightarrow> flagged w \<or> w = 0"
proof -
  have "w AND DELETE_MASK = 0 \<longleftrightarrow> \<not> bit w 31"
  proof
    assume "w AND DELETE_MASK = 0"
    then have "\<not> bit (w AND DELETE_MASK) 31" by simp
    then show "\<not> bit w 31" by (simp add: bit_and_iff bit_DELETE_MASK)
  next
    assume "\<not> bit w 31"
    then show "w AND DELETE_MASK = 0"
      by (intro bit_word_eqI) (auto simp: bit_and_iff bit_DELETE_MASK)
  qed
  then show ?thesis by (simp add: IsDeleted_def flagged_def)
qed

lemma flag_simps [simp]:
  "flagged (SetDeletedFlag w)" "\<not> flagged (UnsetDeletedFlag w)"
  "UnsetDeletedFlag (SetDeletedFlag w) = UnsetDeletedFlag w"
  "UnsetDeletedFlag (UnsetDeletedFlag w) = UnsetDeletedFlag w"
  "SetDeletedFlag w \<noteq> 0"
  by (auto simp: flagged_def flag_bits intro!: bit_word_eqI) (metis bit_0_eq bot_apply bot_bool_def flag_bits(1))

lemma unflagged: "\<not> flagged w \<Longrightarrow> UnsetDeletedFlag w = w"
  by (rule bit_word_eqI) (auto simp: flag_bits flagged_def)

lemma flagged_small: "unat w < 2 ^ 31 \<Longrightarrow> \<not> flagged w"
proof -
  assume "unat w < 2 ^ 31"
  then have "\<not> bit (unat w) 31" by (simp add: bit_iff_odd)
  then show ?thesis by (simp add: flagged_def bit_unsigned_iff)
qed

end
