(* ===== verification/Tuples.thy ===== *)
theory Tuples
  imports Schemas TablePage
begin

section \<open>Tuples\<close>

text \<open>
  \<^verbatim>\<open>storage/table/tuple.{h,cpp}\<close>: a tuple is built from values, one for each column of a schema. The
  fixed part holds the inlined values and, for a string, the offset of its length and characters in the
  part behind it. The round trip says that every value of a tuple reads back as it was given, for strings
  that are not null; a null string is written past the end of the allocated bytes.
\<close>

subsection \<open>Construction\<close>

definition or_crash :: "'a option \<Rightarrow> 'a result" where
  "or_crash m = (case m of None \<Rightarrow> Inl Crash | Some x \<Rightarrow> Inr x)"

fun tuple_size_loop :: "Value list \<Rightarrow> nat list \<Rightarrow> uint32 \<Rightarrow> uint32 result" where
  "tuple_size_loop values [] tuple_size = Inr tuple_size"
| "tuple_size_loop values (i # is) tuple_size =
     andThen (at values i) (\<lambda>v.
     andThen (Value_GetLength v) (\<lambda>len.
     tuple_size_loop values is (tuple_size + (len + 4))))"

fun serialize_loop :: "Column list \<Rightarrow> Value list \<Rightarrow> bytes \<Rightarrow> uint32 \<Rightarrow> bytes result" where
  "serialize_loop (col # cols) (v # vs) d offset =
     (if \<not> Column_IsInlined col then
        andThen (or_crash (write32 d (unat (column_offset col)) offset)) (\<lambda>d.
        andThen (Value_SerializeTo v) (\<lambda>bs.
        andThen (or_crash (write_bytes d (unat offset) bs)) (\<lambda>d.
        andThen (Value_GetLength v) (\<lambda>len.
        serialize_loop cols vs d (offset + (len + 4))))))
      else
        andThen (Value_SerializeTo v) (\<lambda>bs.
        andThen (or_crash (write_bytes d (unat (column_offset col)) bs)) (\<lambda>d.
        serialize_loop cols vs d offset)))"
| "serialize_loop _ _ d offset = Inr d"

definition Tuple_new :: "config \<Rightarrow> Value list \<Rightarrow> Schema \<Rightarrow> tuple result" where
  "Tuple_new cfg values schema = ensure (length values = GetColumnCount schema)
     (andThen (tuple_size_loop values (uninlined_columns schema) (schema_length schema)) (\<lambda>tuple_size.
      andThen (serialize_loop (columns schema) values (replicate (unat tuple_size) 0) (schema_length schema)) (\<lambda>d.
      Inr ((Tuple_default cfg)\<lparr>size_of := tuple_size, data_of := d\<rparr>))))"

subsection \<open>Access\<close>

text \<open>The memory from the address of the column on; an address before the tuple is outside its memory.\<close>

definition GetDataPtr :: "tuple \<Rightarrow> Schema \<Rightarrow> nat \<Rightarrow> bytes result" where
  "GetDataPtr t schema column_idx =
     andThen (GetColumn schema column_idx) (\<lambda>col.
     if Column_IsInlined col then Inr (drop (unat (column_offset col)) (data_of t))
     else
       andThen (or_crash (read32 (data_of t) (unat (column_offset col)))) (\<lambda>w.
       let offset = sint w in
       ensure (0 \<le> offset) (Inr (drop (nat offset) (data_of t)))))"

definition Tuple_GetValue :: "double_ops \<Rightarrow> tuple \<Rightarrow> Schema \<Rightarrow> nat \<Rightarrow> Value result" where
  "Tuple_GetValue F t schema column_idx =
     andThen (GetColumn schema column_idx) (\<lambda>col.
     andThen (GetDataPtr t schema column_idx) (\<lambda>data_ptr.
     Value_DeserializeFrom F data_ptr (column_type col)))"

definition Tuple_IsNull :: "double_ops \<Rightarrow> tuple \<Rightarrow> Schema \<Rightarrow> nat \<Rightarrow> bool result" where
  "Tuple_IsNull F t schema column_idx = andThen (Tuple_GetValue F t schema column_idx) (\<lambda>v. Inr (IsNull v))"

definition KeyFromTuple :: "config \<Rightarrow> double_ops \<Rightarrow> tuple \<Rightarrow> Schema \<Rightarrow> Schema \<Rightarrow> nat list \<Rightarrow> tuple result" where
  "KeyFromTuple cfg F t schema key_schema key_attrs =
     andThen (traverse (Tuple_GetValue F t schema) key_attrs) (\<lambda>values. Tuple_new cfg values key_schema)"

text \<open>\<open>value_texts\<close> is the loop over the columns of \<open>ToString\<close>.\<close>

fun value_texts :: "double_ops \<Rightarrow> tuple \<Rightarrow> Schema \<Rightarrow> bool \<Rightarrow> nat list \<Rightarrow> string result" where
  "value_texts F t schema first [] = Inr []"
| "value_texts F t schema first (i # is) =
     andThen (Tuple_IsNull F t schema i) (\<lambda>null.
     andThen (if null then Inr ''<NULL>''
              else andThen (Tuple_GetValue F t schema i) (\<lambda>val. Value_ToString F val)) (\<lambda>text.
     andThen (value_texts F t schema False is) (\<lambda>rest.
     Inr ((if first then [] else '', '') @ text @ rest))))"

definition Tuple_ToString :: "double_ops \<Rightarrow> tuple \<Rightarrow> Schema \<Rightarrow> string result" where
  "Tuple_ToString F t schema =
     andThen (value_texts F t schema True [0..<GetColumnCount schema]) (\<lambda>text.
     Inr (''('' @ text @ '')'' @ '' Tuple size is '' @ nat_to_string (unat (size_of t))))"

subsection \<open>Storage\<close>

text \<open>\<open>SerializeTo\<close> writes at \<open>storage\<close>, an offset of a memory \<open>d\<close>; \<open>DeserializeFrom\<close> reads from there
  and keeps the identifier of the tuple it fills.\<close>

definition Tuple_SerializeTo :: "tuple \<Rightarrow> bytes \<Rightarrow> nat \<Rightarrow> bytes result" where
  "Tuple_SerializeTo t d storage =
     andThen (or_crash (write32 d storage (size_of t))) (\<lambda>d.
     andThen (or_crash (read_bytes (data_of t) 0 (unat (size_of t)))) (\<lambda>bs.
     or_crash (write_bytes d (storage + 4) bs)))"

definition Tuple_DeserializeFrom :: "tuple \<Rightarrow> bytes \<Rightarrow> nat \<Rightarrow> tuple result" where
  "Tuple_DeserializeFrom t d storage =
     andThen (or_crash (read32 d storage)) (\<lambda>size.
     andThen (or_crash (read_bytes d (storage + 4) (unat size))) (\<lambda>bs.
     Inr (t\<lparr>size_of := size, data_of := bs\<rparr>)))"

subsection \<open>What is written can be read\<close>

lemma or_crash_simps [simp]: "or_crash (Some x) = Inr x" "or_crash None = Inl Crash"
  by (simp_all add: or_crash_def)

text \<open>The value in a column, given the bytes of the tuple.\<close>

definition column_value :: "double_ops \<Rightarrow> bytes \<Rightarrow> Column \<Rightarrow> Value result" where
  "column_value F d col = andThen
     (if Column_IsInlined col then Inr (drop (unat (column_offset col)) d)
      else andThen (or_crash (read32 d (unat (column_offset col)))) (\<lambda>w.
        ensure (0 \<le> sint w) (Inr (drop (nat (sint w)) d))))
     (\<lambda>data_ptr. Value_DeserializeFrom F data_ptr (column_type col))"

lemma Tuple_GetValue_column:
  "i < length (columns schema) \<Longrightarrow> Tuple_GetValue F t schema i = column_value F (data_of t) (columns schema ! i)"
  by (simp add: Tuple_GetValue_def GetColumn_def GetDataPtr_def column_value_def Let_def)

text \<open>A value a column can hold: of its type, well-formed, and not a null string.\<close>

definition fits :: "double_ops \<Rightarrow> Column \<Rightarrow> Value \<Rightarrow> bool" where
  "fits F c v \<longleftrightarrow> val_type v = column_type c \<and> Value_ok F v \<and> (val_type v = VARCHAR \<longrightarrow> \<not> IsNull v) \<and>
     fixed_length c = ucast (TypeSize (column_type c))"

definition var_size :: "Value \<Rightarrow> nat" where
  "var_size v = (if val_type v = VARCHAR then stored_size v else 0)"

lemma fits_stored:
  assumes "fits F c v"
  obtains bs where "Value_SerializeTo v = Inr bs" "length bs = stored_size v"
    "\<And>rest. Value_DeserializeFrom F (bs @ rest) (column_type c) = Inr v"
  using assms Value_stored [of F v] length_SerializeTo [of v] by (auto simp: fits_def)

lemma fits_inlined_size: "fits F c v \<Longrightarrow> Column_IsInlined c \<Longrightarrow> stored_size v = unat (fixed_length c)"
  by (cases "column_type c") (auto simp: fits_def Column_IsInlined_def stored_size_def TypeSize_def Value_ok_def)

lemma fits_varlen:
  assumes "fits F c v" "\<not> Column_IsInlined c"
  shows "unat (fixed_length c) = 12" "stored_size v = 4 + unat (val_len v)" "var_size v = stored_size v"
    "Value_GetLength v = Inr (val_len v)"
  using assms by (simp_all add: fits_def Column_IsInlined_def stored_size_def TypeSize_def var_size_def
      Value_GetLength_def Varlen_GetLength_def)

lemma drop_written:
  assumes "\<And>k. k < length bs \<Longrightarrow> d ! (off + k) = bs ! k" "off + length bs \<le> length d"
  shows "drop off d = bs @ drop (off + length bs) d"
  by (rule nth_equalityI) (use assms in \<open>auto simp: nth_append algebra_simps\<close>)

text \<open>\<open>same_on P d d'\<close>: the memories agree at the addresses \<open>P\<close>.\<close>

definition same_on :: "(nat \<Rightarrow> bool) \<Rightarrow> bytes \<Rightarrow> bytes \<Rightarrow> bool" where
  "same_on P d d' \<longleftrightarrow> length d' = length d \<and> (\<forall>k<length d. P k \<longrightarrow> d' ! k = d ! k)"

lemma same_on_put:
  assumes "same_on P (put d off bs) d'" "off + length bs \<le> length d" "\<And>k. Q k \<Longrightarrow> P k \<and> (k < off \<or> off + length bs \<le> k)"
  shows "same_on Q d d'"
  using assms by (auto simp: same_on_def nth_put) (metis leD)

lemma same_on_written:
  assumes "same_on P (put d off bs) d'" "off + length bs \<le> length d" "\<And>k. off \<le> k \<Longrightarrow> k < off + length bs \<Longrightarrow> P k"
  shows "drop off d' = bs @ drop (off + length bs) d'"
proof (rule drop_written)
  fix k assume "k < length bs"
  then have "off + k < length d" "P (off + k)" using assms(2,3) by auto
  then show "d' ! (off + k) = bs ! k"
    using assms(1,2) \<open>k < length bs\<close> by (simp add: same_on_def nth_put)
qed (use assms in \<open>auto simp: same_on_def\<close>)

lemma serialize_loop_spec:
  assumes "list_all2 (fits F) cols vs" "placed off cols" "off + fixed_size cols \<le> L" "L \<le> unat voff"
    "unat voff + sum_list (map var_size vs) \<le> length d" "length d < 2 ^ 31"
  shows "\<exists>d'. serialize_loop cols vs d voff = Inr d' \<and> same_on (\<lambda>k. k < off \<or> L \<le> k \<and> k < unat voff) d d' \<and>
    list_all2 (\<lambda>c v. column_value F d' c = Inr v) cols vs"
  using assms
proof (induction cols vs arbitrary: d off voff rule: list_all2_induct)
  case Nil
  then show ?case by (simp add: same_on_def)
next
  case (Cons c cols v vs)
  from fits_stored [OF Cons.hyps(1)] obtain bs where bs: "Value_SerializeTo v = Inr bs" "length bs = stored_size v"
    "\<And>rest. Value_DeserializeFrom F (bs @ rest) (column_type c) = Inr v" by blast
  let ?n = "unat (fixed_length c)"
  have off: "unat (column_offset c) = off" and pl: "placed (off + ?n) cols" using Cons.prems(1) by simp_all
  show ?case
  proof (cases "Column_IsInlined c")
    case True
    let ?d = "put d off bs"
    have n: "length bs = ?n" using bs(2) fits_inlined_size [OF Cons.hyps(1) True] by simp
    have fit: "off + length bs \<le> length d" using Cons.prems n by simp
    obtain d' where d': "serialize_loop cols vs ?d voff = Inr d'"
      "same_on (\<lambda>k. k < off + ?n \<or> L \<le> k \<and> k < unat voff) ?d d'"
      "list_all2 (\<lambda>c v. column_value F d' c = Inr v) cols vs"
      using Cons.IH [OF pl, of voff ?d] Cons.prems fit by auto
    have "drop off d' = bs @ drop (off + length bs) d'"
      by (rule same_on_written [OF d'(2) fit]) (simp add: n)
    then have "column_value F d' c = Inr v"
      using bs(3) by (simp add: column_value_def True off)
    moreover have "same_on (\<lambda>k. k < off \<or> L \<le> k \<and> k < unat voff) d d'"
      by (rule same_on_put [OF d'(2) fit]) (use n Cons.prems(2) in auto)
    ultimately show ?thesis using d' bs(1) fit True by (simp add: off write_bytes_put)
  next
    case False
    note var = fits_varlen [OF Cons.hyps(1) False]
    let ?d1 = "put32 d off voff" and ?voff = "voff + (val_len v + 4)"
    let ?d = "put ?d1 (unat voff) bs"
    have n: "length bs = 4 + unat (val_len v)" using bs(2) var by simp
    have sz: "unat voff + (4 + unat (val_len v)) + sum_list (map var_size vs) \<le> length d"
      using Cons.prems(4) var by simp
    then have lt: "unat voff + (4 + unat (val_len v)) < 2 ^ 31" using Cons.prems(5) by linarith
    then have vo: "unat ?voff = unat voff + length bs"
      by (simp add: n unat_word_ariths)
    have f1: "off + 4 \<le> length d" using Cons.prems var by simp
    have fit: "unat voff + length bs \<le> length ?d1" using sz f1 n by simp
    obtain d' where d': "serialize_loop cols vs ?d ?voff = Inr d'"
      "same_on (\<lambda>k. k < off + ?n \<or> L \<le> k \<and> k < unat ?voff) ?d d'"
      "list_all2 (\<lambda>c v. column_value F d' c = Inr v) cols vs"
      using Cons.IH [OF pl, of ?voff ?d] Cons.prems fit f1 sz vo n by auto
    have w: "drop (unat voff) d' = bs @ drop (unat voff + length bs) d'"
      by (rule same_on_written [OF d'(2) fit]) (use vo Cons.prems in auto)
    have s1: "same_on (\<lambda>k. k < off + ?n \<or> L \<le> k \<and> k < unat voff) ?d1 d'"
      by (rule same_on_put [OF d'(2) fit]) (use vo Cons.prems in auto)
    have s0: "same_on (\<lambda>k. k < off \<or> L \<le> k \<and> k < unat voff) d d'"
      by (rule same_on_put [OF s1]) (use f1 var Cons.prems in auto)
    have "drop off d' = le_bytes 4 (ucast voff) @ drop (off + length (le_bytes 4 (ucast voff))) d'"
      by (rule same_on_written [OF s1]) (use f1 var in auto)
    then have "word_at d' off = voff" by (simp add: word_at_def sub_def le_word_le_bytes ucast_head)
    then have r: "read32 d' off = Some voff" using f1 s0 by (simp add: read32_def same_on_def)
    have "sint voff = int (unat voff)" by (rule sint_eq_unat) (use lt in simp)
    then have "column_value F d' c = Inr v"
      using bs(3) w r by (simp add: column_value_def False off)
    then show ?thesis using d' s0 bs(1) f1 fit False var by (simp add: off write32_put write_bytes_put)
  qed
qed

lemma tuple_size_loop_spec:
  assumes "list_all2 (fits F) cols vs" "\<And>i. i < length vs \<Longrightarrow> k + i < length values \<and> values ! (k + i) = vs ! i"
    "unat n + sum_list (map var_size vs) < 2 ^ 32"
  shows "\<exists>m. tuple_size_loop values (uninlined_from k cols) n = Inr m \<and> unat m = unat n + sum_list (map var_size vs)"
  using assms
proof (induction cols vs arbitrary: k n rule: list_all2_induct)
  case Nil
  then show ?case by (simp add: uninlined_from_def)
next
  case (Cons c cols v vs)
  have v: "at values k = Inr v" using Cons.prems(1) [of 0] by simp
  have vs: "\<And>i. i < length vs \<Longrightarrow> Suc k + i < length values \<and> values ! (Suc k + i) = vs ! i"
    using Cons.prems(1) [of "Suc _"] by simp
  show ?case
  proof (cases "Column_IsInlined c")
    case True
    then have "var_size v = 0" using Cons.hyps(1) by (simp add: var_size_def fits_def Column_IsInlined_def)
    then show ?thesis using Cons.IH [OF vs, of n] Cons.prems(2) True by (simp add: uninlined_from_Cons)
  next
    case False
    note var = fits_varlen [OF Cons.hyps(1) False]
    have "unat (n + (val_len v + 4)) = unat n + var_size v"
      using Cons.prems(2) var by (simp add: unat_word_ariths)
    then show ?thesis
      using Cons.IH [OF vs, of "n + (val_len v + 4)"] Cons.prems(2) False v var
      by (simp add: uninlined_from_Cons add.assoc)
  qed
qed

lemma fits_offset [simp]: "fits F (c\<lparr>column_offset := w\<rparr>) v = fits F c v"
  by (simp add: fits_def)

lemma fits_schema:
  assumes "list_all2 (fits F) cs vs" "fixed_size cs < 2 ^ 32"
  shows "list_all2 (fits F) (columns (Schema_new cs)) vs"
  using Schema_new_spec(4) [OF assms(2)] assms(1) unfolding list_all2_conv_all_nth by (metis fits_offset)

lemma fixed_size_schema: "fixed_size cs < 2 ^ 32 \<Longrightarrow> fixed_size (columns (Schema_new cs)) = fixed_size cs"
proof -
  assume "fixed_size cs < 2 ^ 32"
  from Schema_new_spec(4) [OF this] have "map fixed_length (columns (Schema_new cs)) = map fixed_length cs"
    by (intro nth_equalityI) (auto simp: list_all2_conv_all_nth, metis Column.select_convs(3) Column.surjective Column.update_convs(5))
  then have "map unat (map fixed_length (columns (Schema_new cs))) = map unat (map fixed_length cs)" by (rule arg_cong)
  then show ?thesis by (simp add: fixed_size_def comp_def)
qed

lemma Tuple_new_spec:
  assumes "list_all2 (fits F) cs values" "fixed_size cs + sum_list (map var_size values) < 2 ^ 31"
  shows "\<exists>t. Tuple_new cfg values (Schema_new cs) = Inr t \<and> length (data_of t) = unat (size_of t) \<and>
    unat (size_of t) = fixed_size cs + sum_list (map var_size values) \<and>
    (\<forall>i<length values. Tuple_GetValue F t (Schema_new cs) i = Inr (values ! i))"
proof -
  let ?s = "Schema_new cs"
  have sz: "fixed_size cs < 2 ^ 32" using assms(2) by simp
  note s = Schema_new_spec [OF sz] and f = fits_schema [OF assms(1) sz]
  have len: "length values = length (columns ?s)" "length cs = length values"
    using f assms(1) by (auto dest: list_all2_lengthD)
  obtain m where m: "tuple_size_loop values (uninlined_columns ?s) (schema_length ?s) = Inr m"
    "unat m = fixed_size cs + sum_list (map var_size values)"
    using tuple_size_loop_spec [OF assms(1), of 0 "values" "schema_length ?s"] assms(2) s(2,3) by auto
  obtain d where d: "serialize_loop (columns ?s) values (replicate (unat m) 0) (schema_length ?s) = Inr d"
    "same_on (\<lambda>k. k < 0 \<or> fixed_size cs \<le> k \<and> k < unat (schema_length ?s)) (replicate (unat m) 0) d"
    "list_all2 (\<lambda>c v. column_value F d c = Inr v) (columns ?s) values"
    using serialize_loop_spec [OF f s(1), of "fixed_size cs" "schema_length ?s" "replicate (unat m) 0"]
      fixed_size_schema [OF sz] s(2) m(2) assms(2) by auto
  show ?thesis
    using m d len by (auto simp: Tuple_new_def GetColumnCount_def same_on_def Tuple_GetValue_column
        list_all2_conv_all_nth)
qed

text \<open>C27. A tuple built from well-formed values of the types of its columns, the strings among them not
  null, has exactly the bytes it needs, and \<open>GetValue\<close> returns every value as it was given.\<close>

theorem Tuple_GetValue_roundtrip:
  assumes "list_all2 (fits F) cs values" "fixed_size cs + sum_list (map var_size values) < 2 ^ 31"
  shows "\<exists>t. Tuple_new cfg values (Schema_new cs) = Inr t \<and> length (data_of t) = unat (size_of t) \<and>
    unat (size_of t) = fixed_size cs + sum_list (map var_size values) \<and>
    (\<forall>i<length values. Tuple_GetValue F t (Schema_new cs) i = Inr (values ! i))"
  using assms by (rule Tuple_new_spec)

definition example_cfg :: config where
  "example_cfg = \<lparr>PAGE_SIZE = 64, INVALID_PAGE_ID = - 1, INVALID_LSN = - 1\<rparr>"

text \<open>Two columns, a string in front of a number.\<close>

definition example_columns :: "Column list" where
  "example_columns =
     [\<lparr>column_name = ''name'', column_type = VARCHAR, fixed_length = 12, variable_length = 0, column_offset = 0,
       column_expr = None\<rparr>,
      \<lparr>column_name = ''id'', column_type = INTEGER, fixed_length = 4, variable_length = 0, column_offset = 0,
       column_expr = None\<rparr>]"

definition example_values :: "Value list" where
  "example_values = [(new_Value VARCHAR)\<lparr>val_varlen := Some ''ab'', val_len := 2\<rparr>, int_value int32_t (- 7)]"

lemma example_fits: "list_all2 (fits F) example_columns example_values"
  "fixed_size example_columns + sum_list (map var_size example_values) = 22"
proof -
  have "fits F (hd example_columns) (hd example_values)"
    by (simp add: example_columns_def example_values_def fits_def TypeSize_def Value_ok_def new_Value_def
        IsNull_def BUSTUB_VALUE_NULL_def)
  moreover have "fits F (example_columns ! 1) (example_values ! 1)"
    by (simp add: example_columns_def example_values_def fits_def TypeSize_def
        int_ok_Value_ok [OF int_ok_int_value])
  ultimately show "list_all2 (fits F) example_columns example_values"
    by (simp add: example_columns_def example_values_def)
  show "fixed_size example_columns + sum_list (map var_size example_values) = 22"
    by (simp add: example_columns_def example_values_def var_size_def stored_size_def new_Value_def IsNull_def
        BUSTUB_VALUE_NULL_def)
qed

theorem Tuple_GetValue_roundtrip_witness:
  "\<exists>t. Tuple_new example_cfg example_values (Schema_new example_columns) = Inr t \<and> unat (size_of t) = 22 \<and>
     Tuple_GetValue integer_doubles t (Schema_new example_columns) 1 = Inr (int_value int32_t (- 7))"
proof -
  obtain t where t: "Tuple_new example_cfg example_values (Schema_new example_columns) = Inr t"
    "unat (size_of t) = 22"
    "\<forall>i<length example_values. Tuple_GetValue integer_doubles t (Schema_new example_columns) i = Inr (example_values ! i)"
    using Tuple_GetValue_roundtrip [OF example_fits(1) [of integer_doubles], of example_cfg] example_fits(2) by auto
  have "Tuple_GetValue integer_doubles t (Schema_new example_columns) 1 = Inr (int_value int32_t (- 7))"
    using t(3) [rule_format, of 1] by (simp add: example_values_def)
  with t show ?thesis by blast
qed

subsection \<open>Null strings\<close>

lemma uninlined_from_append:
  "uninlined_from k (as @ bs) = uninlined_from k as @ uninlined_from (k + length as) bs"
proof (induction as arbitrary: k)
  case Nil
  then show ?case by (simp add: uninlined_from_def)
next
  case (Cons a as)
  then show ?case by (simp add: uninlined_from_Cons)
qed

lemma uninlined_from_inlined: "\<forall>c\<in>set cs. Column_IsInlined c \<Longrightarrow> uninlined_from k cs = []"
  by (induction cs arbitrary: k) (simp add: uninlined_from_def, simp add: uninlined_from_Cons)

lemma tuple_size_loop_append:
  "tuple_size_loop values (as @ bs) n = andThen (tuple_size_loop values as n) (tuple_size_loop values bs)"
proof (induction as arbitrary: n)
  case (Cons a as)
  then show ?case by (cases "at values a") (auto split: sum.split simp: andThen_def)
qed simp

lemma serialize_loop_append:
  assumes "list_all2 (fits F) cols vs"
  shows "serialize_loop (cols @ cols') (vs @ vs') d voff =
    andThen (serialize_loop cols vs d voff)
      (\<lambda>d. serialize_loop cols' vs' d (voff + of_nat (sum_list (map var_size vs))))"
  using assms
proof (induction cols vs arbitrary: d voff rule: list_all2_induct)
  case (Cons c cols v vs)
  show ?case
  proof (cases "Column_IsInlined c")
    case True
    then have "var_size v = 0" using Cons.hyps(1) by (simp add: var_size_def fits_def Column_IsInlined_def)
    then show ?thesis using True Cons.IH by (simp add: andThen_def split: sum.split)
  next
    case False
    note var = fits_varlen [OF Cons.hyps(1) False]
    have "voff + (val_len v + 4) + of_nat (sum_list (map var_size vs)) =
      voff + of_nat (sum_list (map var_size (v # vs)))"
      by (simp add: var algebra_simps)
    then show ?thesis using False Cons.IH var by (simp add: andThen_def algebra_simps split: sum.split)
  qed
qed simp

lemma placed_append: "placed off (as @ bs) \<longleftrightarrow> placed off as \<and> placed (off + fixed_size as) bs"
  by (induction as arbitrary: off) (auto simp: add.assoc)

lemma null_varchar: "Value_GetLength (new_Value VARCHAR) = Inr (- 1)"
  "Value_SerializeTo (new_Value VARCHAR) = Inr (le_bytes 4 (ucast (- 1 :: uint32)))"
  by (simp_all add: Value_GetLength_def Varlen_GetLength_def new_Value_def BUSTUB_VALUE_NULL_def
      Value_SerializeTo_def Varlen_SerializeTo_def)

text \<open>A null string does not fit: its length of all ones and the four bytes of the length field add up
  to three, so the tuple is allocated one byte too small and the constructor writes past it, for every
  tuple whose last string is null and whatever the other columns hold.\<close>

theorem Tuple_null_varchar_overflow:
  assumes "list_all2 (fits F) (cs @ cs') (values @ values')" "length cs = length values"
    "column_type c = VARCHAR" "fixed_length c = 12" "\<forall>c\<in>set cs'. Column_IsInlined c"
    "fixed_size (cs @ c # cs') + sum_list (map var_size values) + 3 < 2 ^ 31"
  shows "Tuple_new cfg (values @ new_Value VARCHAR # values') (Schema_new (cs @ c # cs')) = Inl Crash"
proof -
  let ?cs = "cs @ c # cs'" and ?vals = "values @ new_Value VARCHAR # values'"
  let ?s = "Schema_new ?cs" and ?n = "sum_list (map var_size values)"
  have sz: "fixed_size ?cs < 2 ^ 32" using assms(6) by simp
  note s = Schema_new_spec [OF sz]
  have l2: "list_all2 (fits F) cs values" using assms(1,2) by (simp add: list_all2_append)
  obtain cols1 c1 cols2 where cols: "columns ?s = cols1 @ c1 # cols2" "length cols2 = length cs'"
    "c1 = c\<lparr>column_offset := column_offset c1\<rparr>"
    "list_all2 (\<lambda>c c'. c' = c\<lparr>column_offset := column_offset c'\<rparr>) cs cols1"
    using s(4) by (auto simp: list_all2_append1 list_all2_Cons1 dest: list_all2_lengthD)
  have l1: "list_all2 (fits F) cols1 values"
    using cols(4) l2 unfolding list_all2_conv_all_nth by (metis fits_offset)
  have c1: "\<not> Column_IsInlined c1" "fixed_length c1 = 12"
    using assms(3,4) by (subst cols(3), simp add: Column_IsInlined_def)+
  have fs: "fixed_size cols1 + 12 + fixed_size cols2 = fixed_size ?cs"
    using fixed_size_schema [OF sz] cols(1) c1 by (simp add: fixed_size_def)
  have pl: "placed 0 cols1" "unat (column_offset c1) = fixed_size cols1"
    using s(1) cols(1) by (simp_all add: placed_append)
  have un: "uninlined_columns ?s = uninlined_from 0 cs @ [length cs]"
    using s(3) assms(3,5) by (simp add: uninlined_from_append uninlined_from_Cons Column_IsInlined_def
        uninlined_from_inlined)
  obtain m where m: "tuple_size_loop ?vals (uninlined_from 0 cs) (schema_length ?s) = Inr m"
    "unat m = fixed_size ?cs + ?n"
    using tuple_size_loop_spec [OF l2, of 0 ?vals "schema_length ?s"] assms(6) s(2) by (auto simp: nth_append)
  have size: "tuple_size_loop ?vals (uninlined_columns ?s) (schema_length ?s) = Inr (m + 3)"
    using m(1) assms(2) by (simp add: un tuple_size_loop_append null_varchar nth_append at_def)
  have m3: "unat (m + 3) = fixed_size ?cs + ?n + 3" using m(2) assms(6) by (simp add: unat_word_ariths)
  have off: "schema_length ?s + of_nat ?n = m"
    by (rule word_unat_eq_iff [THEN iffD2]) (use m(2) s(2) assms(6) in \<open>simp add: unat_word_ariths unat_of_nat\<close>)
  obtain d where d: "serialize_loop cols1 values (replicate (unat (m + 3)) 0) (schema_length ?s) = Inr d"
    "length d = unat (m + 3)"
    using serialize_loop_spec [OF l1 pl(1), of "fixed_size ?cs" "schema_length ?s" "replicate (unat (m + 3)) 0"]
      fs s(2) m3 assms(6) by (auto simp: same_on_def)
  have len: "length ?vals = GetColumnCount ?s"
    using cols assms(1,2) by (auto simp: GetColumnCount_def dest!: list_all2_lengthD)
  have "fixed_size cols1 + 4 \<le> length d" using d(2) m3 fs by simp
  then have "serialize_loop (c1 # cols2) (new_Value VARCHAR # values') d m = Inl Crash"
    using c1 pl(2) d(2) m(2) m3
    by (simp add: write32_put null_varchar write_bytes_def del: le_bytes.simps)
  then show ?thesis
    using d(1) size off len by (simp add: Tuple_new_def cols(1) serialize_loop_append [OF l1])
qed

theorem Tuple_null_varchar_overflow_witness:
  "Tuple_new example_cfg [int_value int32_t 1, new_Value VARCHAR]
     (Schema_new [example_columns ! 1, example_columns ! 0]) = Inl Crash"
proof -
  have "fits integer_doubles (example_columns ! 1) (int_value int32_t 1)"
    by (simp add: example_columns_def fits_def TypeSize_def int_ok_Value_ok [OF int_ok_int_value])
  then show ?thesis
    using Tuple_null_varchar_overflow [of integer_doubles "[example_columns ! 1]" "[]" "[int_value int32_t 1]" "[]"
        "example_columns ! 0" example_cfg]
    by (simp add: example_columns_def var_size_def)
qed

subsection \<open>Storage of whole tuples\<close>

theorem Tuple_stored_roundtrip:
  assumes "length (data_of t) = unat (size_of t)" "storage + 4 + unat (size_of t) \<le> length d"
  shows "\<exists>d'. Tuple_SerializeTo t d storage = Inr d' \<and>
    Tuple_DeserializeFrom t' d' storage = Inr (t'\<lparr>size_of := size_of t, data_of := data_of t\<rparr>)"
proof -
  let ?d = "put32 d storage (size_of t)"
  let ?d' = "put ?d (storage + 4) (data_of t)"
  have fit: "storage + 4 + length (data_of t) \<le> length ?d" using assms by simp
  have "word_at ?d' storage = size_of t"
    using assms fit by (simp add: word_at_put_other word_at_put_same)
  moreover have "sub ?d' (storage + 4) (unat (size_of t)) = data_of t"
    using sub_put_same [OF fit] assms(1) by simp
  ultimately show ?thesis
    using assms fit by (simp add: Tuple_SerializeTo_def Tuple_DeserializeFrom_def write32_put write_bytes_put
        read_bytes_def read32_def sub_def)
qed

end
