(* ===== verification/Arithmetic.thy ===== *)
theory Arithmetic
  imports Casts
begin

section \<open>Arithmetic on values\<close>

text \<open>
  \<^verbatim>\<open>type/integer_parent_type.h\<close> and the arithmetic of the numeric type classes: addition, subtraction,
  multiplication, division, remainder, square root, the null result and the test for zero. A macro
  that a class uses for a family of methods is a definition over the method it is given. Signed overflow of the promoted
  type is undefined in the source; the definitions wrap around there, and no property rests on it.
\<close>

subsection \<open>The templates of the integer types\<close>

definition AddValue :: "int_t \<Rightarrow> int_t \<Rightarrow> Value \<Rightarrow> Value \<Rightarrow> Value result" where
  "AddValue T1 T2 left right =
     (let x = GetAs T1 left; y = GetAs T2 right; r = wrap (promoted T1 T2) (x + y);
          sum1 = wrap (bits T1) r; sum2 = wrap (bits T2) r in
      if r \<noteq> sum1 \<and> r \<noteq> sum2 then throw_range
      else if bits T1 \<ge> bits T2 then
        (if (x > 0 \<and> y > 0 \<and> sum1 < 0) \<or> (x < 0 \<and> y < 0 \<and> sum1 > 0) then throw_range
         else Value_of T1 (GetTypeId left) sum1)
      else if (x > 0 \<and> y > 0 \<and> sum2 < 0) \<or> (x < 0 \<and> y < 0 \<and> sum2 > 0) then throw_range
      else Value_of T2 (GetTypeId right) sum2)"

definition SubtractValue :: "int_t \<Rightarrow> int_t \<Rightarrow> Value \<Rightarrow> Value \<Rightarrow> Value result" where
  "SubtractValue T1 T2 left right =
     (let x = GetAs T1 left; y = GetAs T2 right; r = wrap (promoted T1 T2) (x - y);
          diff1 = wrap (bits T1) r; diff2 = wrap (bits T2) r in
      if r \<noteq> diff1 \<and> r \<noteq> diff2 then throw_range
      else if bits T1 \<ge> bits T2 then
        (if (x > 0 \<and> y < 0 \<and> diff1 < 0) \<or> (x < 0 \<and> y > 0 \<and> diff1 > 0) then throw_range
         else Value_of T1 (GetTypeId left) diff1)
      else if (x > 0 \<and> y < 0 \<and> diff2 < 0) \<or> (x < 0 \<and> y > 0 \<and> diff2 > 0) then throw_range
      else Value_of T2 (GetTypeId right) diff2)"

definition MultiplyValue :: "int_t \<Rightarrow> int_t \<Rightarrow> Value \<Rightarrow> Value \<Rightarrow> Value result" where
  "MultiplyValue T1 T2 left right =
     (let x = GetAs T1 left; y = GetAs T2 right; r = wrap (promoted T1 T2) (x * y);
          prod1 = wrap (bits T1) r; prod2 = wrap (bits T2) r in
      if r \<noteq> prod1 \<and> r \<noteq> prod2 then throw_range
      else if bits T1 \<ge> bits T2 then
        (if y \<noteq> 0 \<and> prod1 sdiv y \<noteq> x then throw_range
         else Value_of T1 (GetTypeId left) prod1)
      else if y \<noteq> 0 \<and> prod2 sdiv y \<noteq> x then throw_range
      else Value_of T2 (GetTypeId right) prod2)"

definition DivideValue :: "int_t \<Rightarrow> int_t \<Rightarrow> Value \<Rightarrow> Value \<Rightarrow> Value result" where
  "DivideValue T1 T2 left right =
     (let x = GetAs T1 left; y = GetAs T2 right in
      if y = 0 then throw E_DIVIDE_BY_ZERO ''Division by zero.''
      else
        (let r = wrap (promoted T1 T2) (x sdiv y);
             quot1 = wrap (bits T1) r; quot2 = wrap (bits T2) r in
         if bits T1 \<ge> bits T2 then Value_of T1 (GetTypeId left) quot1
         else Value_of T2 (GetTypeId right) quot2))"

definition ModuloValue :: "int_t \<Rightarrow> int_t \<Rightarrow> Value \<Rightarrow> Value \<Rightarrow> Value result" where
  "ModuloValue T1 T2 left right =
     (let x = GetAs T1 left; y = GetAs T2 right in
      if y = 0 then throw E_DIVIDE_BY_ZERO ''Division by zero.''
      else
        (let r = wrap (promoted T1 T2) (x smod y);
             quot1 = wrap (bits T1) r; quot2 = wrap (bits T2) r in
         if bits T1 \<ge> bits T2 then Value_of T1 (GetTypeId left) quot1
         else Value_of T2 (GetTypeId right) quot2))"

definition ValMod :: "double_ops \<Rightarrow> double \<Rightarrow> double \<Rightarrow> double" where
  "ValMod F x y = d_sub F x (d_mul F (d_trunc F (d_div F x y)) y)"

subsection \<open>Null results and the test for zero\<close>

definition Tinyint_OperateNull :: "double_ops \<Rightarrow> Value \<Rightarrow> Value \<Rightarrow> Value result" where
  "Tinyint_OperateNull F left right = (case val_type right of
     TINYINT \<Rightarrow> Value_int8 TINYINT BUSTUB_INT8_NULL
   | SMALLINT \<Rightarrow> Value_int16 SMALLINT BUSTUB_INT16_NULL
   | INTEGER \<Rightarrow> Value_int32 INTEGER BUSTUB_INT32_NULL
   | BIGINT \<Rightarrow> Value_int64 BIGINT BUSTUB_INT64_NULL
   | DECIMAL \<Rightarrow> Value_double F DECIMAL (DBL_LOWEST F)
   | _ \<Rightarrow> throw_msg ''type error'')"

definition Tinyint_IsZero :: "Value \<Rightarrow> bool result" where
  "Tinyint_IsZero val = Inr (GetAs int8_t val = 0)"

definition Smallint_OperateNull :: "double_ops \<Rightarrow> Value \<Rightarrow> Value \<Rightarrow> Value result" where
  "Smallint_OperateNull F left right = (case val_type right of
     TINYINT \<Rightarrow> Value_int16 SMALLINT BUSTUB_INT16_NULL
   | SMALLINT \<Rightarrow> Value_int16 SMALLINT BUSTUB_INT16_NULL
   | INTEGER \<Rightarrow> Value_int32 INTEGER BUSTUB_INT32_NULL
   | BIGINT \<Rightarrow> Value_int64 BIGINT BUSTUB_INT64_NULL
   | DECIMAL \<Rightarrow> Value_double F DECIMAL (DBL_LOWEST F)
   | _ \<Rightarrow> throw_msg ''type error'')"

definition Smallint_IsZero :: "Value \<Rightarrow> bool result" where
  "Smallint_IsZero val = Inr (GetAs int16_t val = 0)"

definition Integer_OperateNull :: "double_ops \<Rightarrow> Value \<Rightarrow> Value \<Rightarrow> Value result" where
  "Integer_OperateNull F left right = (case val_type right of
     TINYINT \<Rightarrow> Value_int32 INTEGER BUSTUB_INT32_NULL
   | SMALLINT \<Rightarrow> Value_int32 INTEGER BUSTUB_INT32_NULL
   | INTEGER \<Rightarrow> Value_int32 INTEGER BUSTUB_INT32_NULL
   | BIGINT \<Rightarrow> Value_int64 BIGINT BUSTUB_INT64_NULL
   | DECIMAL \<Rightarrow> Value_double F DECIMAL (DBL_LOWEST F)
   | _ \<Rightarrow> throw_msg ''type error'')"

definition Integer_IsZero :: "Value \<Rightarrow> bool result" where
  "Integer_IsZero val = Inr (GetAs int32_t val = 0)"

definition Bigint_OperateNull :: "double_ops \<Rightarrow> Value \<Rightarrow> Value \<Rightarrow> Value result" where
  "Bigint_OperateNull F left right = (case val_type right of
     TINYINT \<Rightarrow> Value_int64 BIGINT BUSTUB_INT64_NULL
   | SMALLINT \<Rightarrow> Value_int64 BIGINT BUSTUB_INT64_NULL
   | INTEGER \<Rightarrow> Value_int64 BIGINT BUSTUB_INT64_NULL
   | BIGINT \<Rightarrow> Value_int64 BIGINT BUSTUB_INT64_NULL
   | DECIMAL \<Rightarrow> Value_double F DECIMAL (DBL_LOWEST F)
   | _ \<Rightarrow> throw_msg ''type error'')"

definition Bigint_IsZero :: "Value \<Rightarrow> bool result" where
  "Bigint_IsZero val = Inr (GetAs int64_t val = 0)"

definition Decimal_OperateNull :: "double_ops \<Rightarrow> Value \<Rightarrow> Value \<Rightarrow> Value result" where
  "Decimal_OperateNull F left right = Value_double F DECIMAL (DBL_LOWEST F)"

definition Decimal_IsZero :: "double_ops \<Rightarrow> Value \<Rightarrow> bool result" where
  "Decimal_IsZero F val = Inr (d_eq F (GetAs_double val) (d_of_int F 0))"

definition Value_OperateNull :: "double_ops \<Rightarrow> Value \<Rightarrow> Value \<Rightarrow> Value result" where
  "Value_OperateNull F left right = (case val_type left of
     TINYINT \<Rightarrow> Tinyint_OperateNull F left right
   | SMALLINT \<Rightarrow> Smallint_OperateNull F left right
   | INTEGER \<Rightarrow> Integer_OperateNull F left right
   | BIGINT \<Rightarrow> Bigint_OperateNull F left right
   | DECIMAL \<Rightarrow> Decimal_OperateNull F left right
   | TIMESTAMP \<Rightarrow> Inl Crash
   | _ \<Rightarrow> Type_OperateNull left right)"

definition Value_IsZero :: "double_ops \<Rightarrow> Value \<Rightarrow> bool result" where
  "Value_IsZero F val = (case val_type val of
     TINYINT \<Rightarrow> Tinyint_IsZero val
   | SMALLINT \<Rightarrow> Smallint_IsZero val
   | INTEGER \<Rightarrow> Integer_IsZero val
   | BIGINT \<Rightarrow> Bigint_IsZero val
   | DECIMAL \<Rightarrow> Decimal_IsZero F val
   | TIMESTAMP \<Rightarrow> Inl Crash
   | _ \<Rightarrow> Type_IsZero val)"

subsection \<open>Arithmetic of the integer classes\<close>

definition throw_zero :: "'a result" where
  "throw_zero = throw E_DIVIDE_BY_ZERO ''Division by zero on right-hand side''"

definition TINYINT_MODIFY_FUNC :: "double_ops \<Rightarrow> (int_t \<Rightarrow> int_t \<Rightarrow> Value \<Rightarrow> Value \<Rightarrow> Value result) \<Rightarrow> (double \<Rightarrow> double \<Rightarrow> double) \<Rightarrow>
    Value \<Rightarrow> Value \<Rightarrow> Value result" where
  "TINYINT_MODIFY_FUNC F METHOD OP left right = (case val_type right of
     TINYINT \<Rightarrow> METHOD int8_t int8_t left right
   | SMALLINT \<Rightarrow> METHOD int8_t int16_t left right
   | INTEGER \<Rightarrow> METHOD int8_t int32_t left right
   | BIGINT \<Rightarrow> METHOD int8_t int64_t left right
   | DECIMAL \<Rightarrow> Value_double F DECIMAL (OP (d_of_int F (GetAs int8_t left)) (GetAs_double right))
   | VARCHAR \<Rightarrow> andThen (Value_CastAs F right TINYINT) (\<lambda>r_value. METHOD int8_t int8_t left r_value)
   | _ \<Rightarrow> throw_msg ''type error'')"

definition Tinyint_Add :: "double_ops \<Rightarrow> Value \<Rightarrow> Value \<Rightarrow> Value result" where
  "Tinyint_Add F left right = ensure (CheckInteger left \<and> CheckComparable left right)
     (if IsNull left \<or> IsNull right then Value_OperateNull F left right
      else TINYINT_MODIFY_FUNC F AddValue (d_add F) left right)"

definition Tinyint_Subtract :: "double_ops \<Rightarrow> Value \<Rightarrow> Value \<Rightarrow> Value result" where
  "Tinyint_Subtract F left right = ensure (CheckInteger left \<and> CheckComparable left right)
     (if IsNull left \<or> IsNull right then Value_OperateNull F left right
      else TINYINT_MODIFY_FUNC F SubtractValue (d_sub F) left right)"

definition Tinyint_Multiply :: "double_ops \<Rightarrow> Value \<Rightarrow> Value \<Rightarrow> Value result" where
  "Tinyint_Multiply F left right = ensure (CheckInteger left \<and> CheckComparable left right)
     (if IsNull left \<or> IsNull right then Value_OperateNull F left right
      else TINYINT_MODIFY_FUNC F MultiplyValue (d_mul F) left right)"

definition Tinyint_Divide :: "double_ops \<Rightarrow> Value \<Rightarrow> Value \<Rightarrow> Value result" where
  "Tinyint_Divide F left right = ensure (CheckInteger left \<and> CheckComparable left right)
     (if IsNull left \<or> IsNull right then Value_OperateNull F left right
      else andThen (Value_IsZero F right) (\<lambda>z. if z then throw_zero else TINYINT_MODIFY_FUNC F DivideValue (d_div F) left right))"

definition Tinyint_Modulo :: "double_ops \<Rightarrow> Value \<Rightarrow> Value \<Rightarrow> Value result" where
  "Tinyint_Modulo F left right = ensure (CheckInteger left \<and> CheckComparable left right)
     (if IsNull left \<or> IsNull right then Value_OperateNull F left right
      else andThen (Value_IsZero F right) (\<lambda>z. if z then throw_zero else
       (case val_type right of
          TINYINT \<Rightarrow> ModuloValue int8_t int8_t left right
        | SMALLINT \<Rightarrow> ModuloValue int8_t int16_t left right
        | INTEGER \<Rightarrow> ModuloValue int8_t int32_t left right
        | BIGINT \<Rightarrow> ModuloValue int8_t int64_t left right
        | DECIMAL \<Rightarrow> Value_double F DECIMAL (ValMod F (d_of_int F (GetAs int8_t left)) (GetAs_double right))
        | VARCHAR \<Rightarrow> andThen (Value_CastAs F right TINYINT) (\<lambda>r_value. ModuloValue int8_t int8_t left r_value)
        | _ \<Rightarrow> throw_msg ''type error'')))"

definition Tinyint_Sqrt :: "double_ops \<Rightarrow> Value \<Rightarrow> Value result" where
  "Tinyint_Sqrt F val = ensure (CheckInteger val)
     (if IsNull val then Value_double F DECIMAL (DBL_LOWEST F)
      else if GetAs int8_t val < 0 then throw E_DECIMAL ''Cannot take square root of a negative number.''
      else Value_double F DECIMAL (d_sqrt F (d_of_int F (GetAs int8_t val))))"

definition SMALLINT_MODIFY_FUNC :: "double_ops \<Rightarrow> (int_t \<Rightarrow> int_t \<Rightarrow> Value \<Rightarrow> Value \<Rightarrow> Value result) \<Rightarrow> (double \<Rightarrow> double \<Rightarrow> double) \<Rightarrow>
    Value \<Rightarrow> Value \<Rightarrow> Value result" where
  "SMALLINT_MODIFY_FUNC F METHOD OP left right = (case val_type right of
     TINYINT \<Rightarrow> METHOD int16_t int8_t left right
   | SMALLINT \<Rightarrow> METHOD int16_t int16_t left right
   | INTEGER \<Rightarrow> METHOD int16_t int32_t left right
   | BIGINT \<Rightarrow> METHOD int16_t int64_t left right
   | DECIMAL \<Rightarrow> Value_double F DECIMAL (OP (d_of_int F (GetAs int16_t left)) (GetAs_double right))
   | VARCHAR \<Rightarrow> andThen (Value_CastAs F right SMALLINT) (\<lambda>r_value. METHOD int16_t int16_t left r_value)
   | _ \<Rightarrow> throw_msg ''type error'')"

definition Smallint_Add :: "double_ops \<Rightarrow> Value \<Rightarrow> Value \<Rightarrow> Value result" where
  "Smallint_Add F left right = ensure (CheckInteger left \<and> CheckComparable left right)
     (if IsNull left \<or> IsNull right then Value_OperateNull F left right
      else SMALLINT_MODIFY_FUNC F AddValue (d_add F) left right)"

definition Smallint_Subtract :: "double_ops \<Rightarrow> Value \<Rightarrow> Value \<Rightarrow> Value result" where
  "Smallint_Subtract F left right = ensure (CheckInteger left \<and> CheckComparable left right)
     (if IsNull left \<or> IsNull right then Value_OperateNull F left right
      else SMALLINT_MODIFY_FUNC F SubtractValue (d_sub F) left right)"

definition Smallint_Multiply :: "double_ops \<Rightarrow> Value \<Rightarrow> Value \<Rightarrow> Value result" where
  "Smallint_Multiply F left right = ensure (CheckInteger left \<and> CheckComparable left right)
     (if IsNull left \<or> IsNull right then Value_OperateNull F left right
      else SMALLINT_MODIFY_FUNC F MultiplyValue (d_mul F) left right)"

definition Smallint_Divide :: "double_ops \<Rightarrow> Value \<Rightarrow> Value \<Rightarrow> Value result" where
  "Smallint_Divide F left right = ensure (CheckInteger left \<and> CheckComparable left right)
     (if IsNull left \<or> IsNull right then Value_OperateNull F left right
      else andThen (Value_IsZero F right) (\<lambda>z. if z then throw_zero else SMALLINT_MODIFY_FUNC F DivideValue (d_div F) left right))"

definition Smallint_Modulo :: "double_ops \<Rightarrow> Value \<Rightarrow> Value \<Rightarrow> Value result" where
  "Smallint_Modulo F left right = ensure (CheckInteger left \<and> CheckComparable left right)
     (if IsNull left \<or> IsNull right then Value_OperateNull F left right
      else andThen (Value_IsZero F right) (\<lambda>z. if z then throw_zero else
       (case val_type right of
          TINYINT \<Rightarrow> ModuloValue int16_t int8_t left right
        | SMALLINT \<Rightarrow> ModuloValue int16_t int16_t left right
        | INTEGER \<Rightarrow> ModuloValue int16_t int32_t left right
        | BIGINT \<Rightarrow> ModuloValue int16_t int64_t left right
        | DECIMAL \<Rightarrow> Value_double F DECIMAL (ValMod F (d_of_int F (GetAs int16_t left)) (GetAs_double right))
        | VARCHAR \<Rightarrow> andThen (Value_CastAs F right SMALLINT) (\<lambda>r_value. ModuloValue int16_t int16_t left r_value)
        | _ \<Rightarrow> throw_msg ''type error'')))"

definition Smallint_Sqrt :: "double_ops \<Rightarrow> Value \<Rightarrow> Value result" where
  "Smallint_Sqrt F val = ensure (CheckInteger val)
     (if IsNull val then Value_double F DECIMAL (DBL_LOWEST F)
      else if GetAs int16_t val < 0 then throw E_DECIMAL ''Cannot take square root of a negative number.''
      else Value_double F DECIMAL (d_sqrt F (d_of_int F (GetAs int16_t val))))"

definition INT_MODIFY_FUNC :: "double_ops \<Rightarrow> (int_t \<Rightarrow> int_t \<Rightarrow> Value \<Rightarrow> Value \<Rightarrow> Value result) \<Rightarrow> (double \<Rightarrow> double \<Rightarrow> double) \<Rightarrow>
    Value \<Rightarrow> Value \<Rightarrow> Value result" where
  "INT_MODIFY_FUNC F METHOD OP left right = (case val_type right of
     TINYINT \<Rightarrow> METHOD int32_t int8_t left right
   | SMALLINT \<Rightarrow> METHOD int32_t int16_t left right
   | INTEGER \<Rightarrow> METHOD int32_t int32_t left right
   | BIGINT \<Rightarrow> METHOD int32_t int64_t left right
   | DECIMAL \<Rightarrow> Value_double F DECIMAL (OP (d_of_int F (GetAs int32_t left)) (GetAs_double right))
   | VARCHAR \<Rightarrow> andThen (Value_CastAs F right INTEGER) (\<lambda>r_value. METHOD int32_t int32_t left r_value)
   | _ \<Rightarrow> throw_msg ''type error'')"

definition Integer_Add :: "double_ops \<Rightarrow> Value \<Rightarrow> Value \<Rightarrow> Value result" where
  "Integer_Add F left right = ensure (CheckInteger left \<and> CheckComparable left right)
     (if IsNull left \<or> IsNull right then Value_OperateNull F left right
      else INT_MODIFY_FUNC F AddValue (d_add F) left right)"

definition Integer_Subtract :: "double_ops \<Rightarrow> Value \<Rightarrow> Value \<Rightarrow> Value result" where
  "Integer_Subtract F left right = ensure (CheckInteger left \<and> CheckComparable left right)
     (if IsNull left \<or> IsNull right then Value_OperateNull F left right
      else INT_MODIFY_FUNC F SubtractValue (d_sub F) left right)"

definition Integer_Multiply :: "double_ops \<Rightarrow> Value \<Rightarrow> Value \<Rightarrow> Value result" where
  "Integer_Multiply F left right = ensure (CheckInteger left \<and> CheckComparable left right)
     (if IsNull left \<or> IsNull right then Value_OperateNull F left right
      else INT_MODIFY_FUNC F MultiplyValue (d_mul F) left right)"

definition Integer_Divide :: "double_ops \<Rightarrow> Value \<Rightarrow> Value \<Rightarrow> Value result" where
  "Integer_Divide F left right = ensure (CheckInteger left \<and> CheckComparable left right)
     (if IsNull left \<or> IsNull right then Value_OperateNull F left right
      else andThen (Value_IsZero F right) (\<lambda>z. if z then throw_zero else INT_MODIFY_FUNC F DivideValue (d_div F) left right))"

definition Integer_Modulo :: "double_ops \<Rightarrow> Value \<Rightarrow> Value \<Rightarrow> Value result" where
  "Integer_Modulo F left right = ensure (CheckInteger left \<and> CheckComparable left right)
     (if IsNull left \<or> IsNull right then Value_OperateNull F left right
      else andThen (Value_IsZero F right) (\<lambda>z. if z then throw_zero else
       (case val_type right of
          TINYINT \<Rightarrow> ModuloValue int32_t int8_t left right
        | SMALLINT \<Rightarrow> ModuloValue int32_t int16_t left right
        | INTEGER \<Rightarrow> ModuloValue int32_t int32_t left right
        | BIGINT \<Rightarrow> ModuloValue int32_t int64_t left right
        | DECIMAL \<Rightarrow> Value_double F DECIMAL (ValMod F (d_of_int F (GetAs int32_t left)) (GetAs_double right))
        | VARCHAR \<Rightarrow> andThen (Value_CastAs F right INTEGER) (\<lambda>r_value. ModuloValue int32_t int32_t left r_value)
        | _ \<Rightarrow> throw_msg ''type error'')))"

definition Integer_Sqrt :: "double_ops \<Rightarrow> Value \<Rightarrow> Value result" where
  "Integer_Sqrt F val = ensure (CheckInteger val)
     (if IsNull val then Integer_OperateNull F val val
      else if GetAs int32_t val < 0 then throw E_DECIMAL ''Cannot take square root of a negative number.''
      else Value_double F DECIMAL (d_sqrt F (d_of_int F (GetAs int32_t val))))"

definition BIGINT_MODIFY_FUNC :: "double_ops \<Rightarrow> (int_t \<Rightarrow> int_t \<Rightarrow> Value \<Rightarrow> Value \<Rightarrow> Value result) \<Rightarrow> (double \<Rightarrow> double \<Rightarrow> double) \<Rightarrow>
    Value \<Rightarrow> Value \<Rightarrow> Value result" where
  "BIGINT_MODIFY_FUNC F METHOD OP left right = (case val_type right of
     TINYINT \<Rightarrow> METHOD int64_t int8_t left right
   | SMALLINT \<Rightarrow> METHOD int64_t int16_t left right
   | INTEGER \<Rightarrow> METHOD int64_t int32_t left right
   | BIGINT \<Rightarrow> METHOD int64_t int64_t left right
   | DECIMAL \<Rightarrow> Value_double F DECIMAL (OP (d_of_int F (GetAs int64_t left)) (GetAs_double right))
   | VARCHAR \<Rightarrow> andThen (Value_CastAs F right BIGINT) (\<lambda>r_value. METHOD int64_t int64_t left r_value)
   | _ \<Rightarrow> throw_msg ''type error'')"

definition Bigint_Add :: "double_ops \<Rightarrow> Value \<Rightarrow> Value \<Rightarrow> Value result" where
  "Bigint_Add F left right = ensure (CheckInteger left \<and> CheckComparable left right)
     (if IsNull left \<or> IsNull right then Value_OperateNull F left right
      else BIGINT_MODIFY_FUNC F AddValue (d_add F) left right)"

definition Bigint_Subtract :: "double_ops \<Rightarrow> Value \<Rightarrow> Value \<Rightarrow> Value result" where
  "Bigint_Subtract F left right = ensure (CheckInteger left \<and> CheckComparable left right)
     (if IsNull left \<or> IsNull right then Value_OperateNull F left right
      else BIGINT_MODIFY_FUNC F SubtractValue (d_sub F) left right)"

definition Bigint_Multiply :: "double_ops \<Rightarrow> Value \<Rightarrow> Value \<Rightarrow> Value result" where
  "Bigint_Multiply F left right = ensure (CheckInteger left \<and> CheckComparable left right)
     (if IsNull left \<or> IsNull right then Value_OperateNull F left right
      else BIGINT_MODIFY_FUNC F MultiplyValue (d_mul F) left right)"

definition Bigint_Divide :: "double_ops \<Rightarrow> Value \<Rightarrow> Value \<Rightarrow> Value result" where
  "Bigint_Divide F left right = ensure (CheckInteger left \<and> CheckComparable left right)
     (if IsNull left \<or> IsNull right then Value_OperateNull F left right
      else andThen (Value_IsZero F right) (\<lambda>z. if z then throw_zero else BIGINT_MODIFY_FUNC F DivideValue (d_div F) left right))"

definition Bigint_Modulo :: "double_ops \<Rightarrow> Value \<Rightarrow> Value \<Rightarrow> Value result" where
  "Bigint_Modulo F left right = ensure (CheckInteger left \<and> CheckComparable left right)
     (if IsNull left \<or> IsNull right then Value_OperateNull F left right
      else andThen (Value_IsZero F right) (\<lambda>z. if z then throw_zero else
       (case val_type right of
          TINYINT \<Rightarrow> ModuloValue int64_t int8_t left right
        | SMALLINT \<Rightarrow> ModuloValue int64_t int16_t left right
        | INTEGER \<Rightarrow> ModuloValue int64_t int32_t left right
        | BIGINT \<Rightarrow> ModuloValue int64_t int64_t left right
        | DECIMAL \<Rightarrow> Value_double F DECIMAL (ValMod F (d_of_int F (GetAs int64_t left)) (GetAs_double right))
        | VARCHAR \<Rightarrow> andThen (Value_CastAs F right BIGINT) (\<lambda>r_value. ModuloValue int64_t int64_t left r_value)
        | _ \<Rightarrow> throw_msg ''type error'')))"

definition Bigint_Sqrt :: "double_ops \<Rightarrow> Value \<Rightarrow> Value result" where
  "Bigint_Sqrt F val = ensure (CheckInteger val)
     (if IsNull val then Value_double F DECIMAL (DBL_LOWEST F)
      else if GetAs int64_t val < 0 then throw E_DECIMAL ''Cannot take square root of a negative number.''
      else Value_double F DECIMAL (d_sqrt F (d_of_int F (GetAs int64_t val))))"

subsection \<open>Arithmetic of decimals\<close>

definition DECIMAL_MODIFY_FUNC :: "double_ops \<Rightarrow> (double \<Rightarrow> double \<Rightarrow> double) \<Rightarrow> Value \<Rightarrow> Value \<Rightarrow> Value result" where
  "DECIMAL_MODIFY_FUNC F OP left right = (case val_type right of
     TINYINT \<Rightarrow> Value_double F DECIMAL (OP (GetAs_double left) (d_of_int F (GetAs int8_t right)))
   | SMALLINT \<Rightarrow> Value_double F DECIMAL (OP (GetAs_double left) (d_of_int F (GetAs int16_t right)))
   | INTEGER \<Rightarrow> Value_double F DECIMAL (OP (GetAs_double left) (d_of_int F (GetAs int32_t right)))
   | BIGINT \<Rightarrow> Value_double F DECIMAL (OP (GetAs_double left) (d_of_int F (GetAs int64_t right)))
   | DECIMAL \<Rightarrow> Value_double F DECIMAL (OP (GetAs_double left) (GetAs_double right))
   | VARCHAR \<Rightarrow> andThen (Value_CastAs F right DECIMAL)
       (\<lambda>r_value. Value_double F DECIMAL (OP (GetAs_double left) (GetAs_double r_value)))
   | _ \<Rightarrow> throw_msg ''type error'')"

definition Decimal_Add :: "double_ops \<Rightarrow> Value \<Rightarrow> Value \<Rightarrow> Value result" where
  "Decimal_Add F left right = ensure (CheckComparable left right)
     (if IsNull left \<or> IsNull right then Value_OperateNull F left right
      else DECIMAL_MODIFY_FUNC F (d_add F) left right)"

definition Decimal_Subtract :: "double_ops \<Rightarrow> Value \<Rightarrow> Value \<Rightarrow> Value result" where
  "Decimal_Subtract F left right = ensure (CheckComparable left right)
     (if IsNull left \<or> IsNull right then Value_OperateNull F left right
      else DECIMAL_MODIFY_FUNC F (d_sub F) left right)"

definition Decimal_Multiply :: "double_ops \<Rightarrow> Value \<Rightarrow> Value \<Rightarrow> Value result" where
  "Decimal_Multiply F left right = ensure (CheckComparable left right)
     (if IsNull left \<or> IsNull right then Value_OperateNull F left right
      else DECIMAL_MODIFY_FUNC F (d_mul F) left right)"

definition Decimal_Divide :: "double_ops \<Rightarrow> Value \<Rightarrow> Value \<Rightarrow> Value result" where
  "Decimal_Divide F left right = ensure (CheckComparable left right)
     (if IsNull left \<or> IsNull right then Value_OperateNull F left right
      else andThen (Value_IsZero F right) (\<lambda>z. if z then throw_zero else DECIMAL_MODIFY_FUNC F (d_div F) left right))"

definition Decimal_Modulo :: "double_ops \<Rightarrow> Value \<Rightarrow> Value \<Rightarrow> Value result" where
  "Decimal_Modulo F left right = ensure (CheckComparable left right)
     (if IsNull left \<or> IsNull right then Decimal_OperateNull F left right
      else andThen (Value_IsZero F right) (\<lambda>z. if z then throw_zero else
       (case val_type right of
          TINYINT \<Rightarrow> Value_double F DECIMAL (ValMod F (GetAs_double left) (d_of_int F (GetAs int8_t right)))
        | SMALLINT \<Rightarrow> Value_double F DECIMAL (ValMod F (GetAs_double left) (d_of_int F (GetAs int16_t right)))
        | INTEGER \<Rightarrow> Value_double F DECIMAL (ValMod F (GetAs_double left) (d_of_int F (GetAs int32_t right)))
        | BIGINT \<Rightarrow> Value_double F DECIMAL (ValMod F (GetAs_double left) (d_of_int F (GetAs int64_t right)))
        | DECIMAL \<Rightarrow> Value_double F DECIMAL (ValMod F (GetAs_double left) (GetAs_double right))
        | VARCHAR \<Rightarrow> andThen (Value_CastAs F right DECIMAL)
            (\<lambda>r_value. Value_double F DECIMAL (ValMod F (GetAs_double left) (GetAs_double r_value)))
        | _ \<Rightarrow> throw_msg ''type error'')))"

definition Decimal_Sqrt :: "double_ops \<Rightarrow> Value \<Rightarrow> Value result" where
  "Decimal_Sqrt F val = (if IsNull val then Value_double F DECIMAL (DBL_LOWEST F)
     else if d_lt F (GetAs_double val) (d_of_int F 0)
     then throw E_DECIMAL ''Cannot take square root of a negative number.''
     else Value_double F DECIMAL (d_sqrt F (GetAs_double val)))"

subsection \<open>Selection of the class\<close>

definition Value_Add :: "double_ops \<Rightarrow> Value \<Rightarrow> Value \<Rightarrow> Value result" where
  "Value_Add F left right = (case val_type left of
     TINYINT \<Rightarrow> Tinyint_Add F left right
   | SMALLINT \<Rightarrow> Smallint_Add F left right
   | INTEGER \<Rightarrow> Integer_Add F left right
   | BIGINT \<Rightarrow> Bigint_Add F left right
   | DECIMAL \<Rightarrow> Decimal_Add F left right
   | TIMESTAMP \<Rightarrow> Inl Crash
   | _ \<Rightarrow> Type_Add left right)"

definition Value_Subtract :: "double_ops \<Rightarrow> Value \<Rightarrow> Value \<Rightarrow> Value result" where
  "Value_Subtract F left right = (case val_type left of
     TINYINT \<Rightarrow> Tinyint_Subtract F left right
   | SMALLINT \<Rightarrow> Smallint_Subtract F left right
   | INTEGER \<Rightarrow> Integer_Subtract F left right
   | BIGINT \<Rightarrow> Bigint_Subtract F left right
   | DECIMAL \<Rightarrow> Decimal_Subtract F left right
   | TIMESTAMP \<Rightarrow> Inl Crash
   | _ \<Rightarrow> Type_Subtract left right)"

definition Value_Multiply :: "double_ops \<Rightarrow> Value \<Rightarrow> Value \<Rightarrow> Value result" where
  "Value_Multiply F left right = (case val_type left of
     TINYINT \<Rightarrow> Tinyint_Multiply F left right
   | SMALLINT \<Rightarrow> Smallint_Multiply F left right
   | INTEGER \<Rightarrow> Integer_Multiply F left right
   | BIGINT \<Rightarrow> Bigint_Multiply F left right
   | DECIMAL \<Rightarrow> Decimal_Multiply F left right
   | TIMESTAMP \<Rightarrow> Inl Crash
   | _ \<Rightarrow> Type_Multiply left right)"

definition Value_Divide :: "double_ops \<Rightarrow> Value \<Rightarrow> Value \<Rightarrow> Value result" where
  "Value_Divide F left right = (case val_type left of
     TINYINT \<Rightarrow> Tinyint_Divide F left right
   | SMALLINT \<Rightarrow> Smallint_Divide F left right
   | INTEGER \<Rightarrow> Integer_Divide F left right
   | BIGINT \<Rightarrow> Bigint_Divide F left right
   | DECIMAL \<Rightarrow> Decimal_Divide F left right
   | TIMESTAMP \<Rightarrow> Inl Crash
   | _ \<Rightarrow> Type_Divide left right)"

definition Value_Modulo :: "double_ops \<Rightarrow> Value \<Rightarrow> Value \<Rightarrow> Value result" where
  "Value_Modulo F left right = (case val_type left of
     TINYINT \<Rightarrow> Tinyint_Modulo F left right
   | SMALLINT \<Rightarrow> Smallint_Modulo F left right
   | INTEGER \<Rightarrow> Integer_Modulo F left right
   | BIGINT \<Rightarrow> Bigint_Modulo F left right
   | DECIMAL \<Rightarrow> Decimal_Modulo F left right
   | TIMESTAMP \<Rightarrow> Inl Crash
   | _ \<Rightarrow> Type_Modulo left right)"

definition Value_Sqrt :: "double_ops \<Rightarrow> Value \<Rightarrow> Value result" where
  "Value_Sqrt F val = (case val_type val of
     TINYINT \<Rightarrow> Tinyint_Sqrt F val
   | SMALLINT \<Rightarrow> Smallint_Sqrt F val
   | INTEGER \<Rightarrow> Integer_Sqrt F val
   | BIGINT \<Rightarrow> Bigint_Sqrt F val
   | DECIMAL \<Rightarrow> Decimal_Sqrt F val
   | TIMESTAMP \<Rightarrow> Inl Crash
   | _ \<Rightarrow> Type_Sqrt val)"

subsection \<open>Wrap-around and range\<close>

text \<open>The type of the result of an operation on two integers.\<close>

definition wider :: "int_t \<Rightarrow> int_t \<Rightarrow> int_t" where
  "wider T1 T2 = (if bits T1 \<ge> bits T2 then T1 else T2)"

lemma wrap_eq_iff: "wrap (bits T) i = i \<longleftrightarrow> in_range T i"
  using wrap_in_range wrap_range by metis

lemma wrap_mod: "0 < n \<Longrightarrow> wrap n i = (i + 2 ^ (n - 1)) mod 2 ^ n - 2 ^ (n - 1)"
  by (simp add: wrap_def signed_take_bit_eq_take_bit_shift take_bit_eq_mod)

lemma wrap_above:
  assumes "0 < n" "2 ^ (n - 1) \<le> i" "i < 3 * 2 ^ (n - 1)"
  shows "wrap n i = i - 2 ^ n"
proof -
  have p: "(2::int) ^ n = 2 * 2 ^ (n - 1)" using assms(1) by (cases n) auto
  have "(i + 2 ^ (n - 1)) mod 2 ^ n = (i + 2 ^ (n - 1) - 2 ^ n) mod 2 ^ n" by simp
  also have "\<dots> = i + 2 ^ (n - 1) - 2 ^ n"
    using assms p by (intro mod_pos_pos_trivial) linarith+
  finally show ?thesis using assms(1) by (simp add: wrap_mod)
qed

lemma wrap_below:
  assumes "0 < n" "i < - (2 ^ (n - 1))" "- 3 * 2 ^ (n - 1) \<le> i"
  shows "wrap n i = i + 2 ^ n"
proof -
  have p: "(2::int) ^ n = 2 * 2 ^ (n - 1)" using assms(1) by (cases n) auto
  have "(i + 2 ^ (n - 1)) mod 2 ^ n = (i + 2 ^ (n - 1) + 2 ^ n) mod 2 ^ n" by simp
  also have "\<dots> = i + 2 ^ (n - 1) + 2 ^ n"
    using assms p by (intro mod_pos_pos_trivial) linarith+
  finally show ?thesis using assms(1) by (simp add: wrap_mod)
qed

lemma wider_bits: "bits (wider T1 T2) = max (bits T1) (bits T2)"
  by (auto simp: wider_def)

lemma in_range_mono: "bits T1 \<le> bits T2 \<Longrightarrow> in_range T1 i \<Longrightarrow> in_range T2 i"
  using bits_mono [of T1 T2] unfolding in_range_def by linarith

text \<open>The first check of the templates, that neither conversion keeps the promoted result.\<close>

lemma both_lossy: "r \<noteq> wrap (bits T1) r \<and> r \<noteq> wrap (bits T2) r \<longleftrightarrow> \<not> in_range (wider T1 T2) r"
  using wrap_eq_iff [of T1 r] wrap_eq_iff [of T2 r] in_range_mono [of T1 T2 r] in_range_mono [of T2 T1 r]
  by (auto simp: wider_def)

lemma promoted_cases:
  obtains (wide) "promoted T1 T2 = bits (wider T1 T2)" | (narrow) "promoted T1 T2 = 32" "bits (wider T1 T2) \<le> 16"
  by (cases T1; cases T2) (auto simp: promoted_def wider_def)

lemma narrow_exact: "bits T \<le> 16 \<Longrightarrow> \<bar>i\<bar> < 2 ^ 31 \<Longrightarrow> wrap 32 i = i"
  by (simp add: wrap_def signed_take_bit_int_eq_self)

lemma operand_bound:
  fixes x :: int
  assumes "\<bar>x\<bar> < 2 ^ (bits T1 - 1)" "bits T1 \<le> bits T2"
  shows "\<bar>x\<bar> < 2 ^ (bits T2 - 1)"
  using assms bits_mono [of T1 T2] by linarith

subsection \<open>Checked results\<close>

text \<open>A result is delivered as is or reported as out of range; \<open>check r\<close> is the second test of a
  template. This is the common end of the three templates.\<close>

definition checked :: "int_t \<Rightarrow> int_t \<Rightarrow> int \<Rightarrow> (int \<Rightarrow> bool) \<Rightarrow> Value result" where
  "checked T1 T2 i check = (let r = wrap (promoted T1 T2) i in
     if \<not> in_range (wider T1 T2) r \<or> check r then throw_range else Inr (int_value (wider T1 T2) r))"

lemma templates_checked:
  assumes "val_type l = type_of T1" "val_type r = type_of T2"
  defines "x \<equiv> GetAs T1 l" and "y \<equiv> GetAs T2 r"
  shows "AddValue T1 T2 l r = checked T1 T2 (x + y)
      (\<lambda>s. (x > 0 \<and> y > 0 \<and> s < 0) \<or> (x < 0 \<and> y < 0 \<and> s > 0))"
    and "SubtractValue T1 T2 l r = checked T1 T2 (x - y)
      (\<lambda>s. (x > 0 \<and> y < 0 \<and> s < 0) \<or> (x < 0 \<and> y > 0 \<and> s > 0))"
    and "MultiplyValue T1 T2 l r = checked T1 T2 (x * y) (\<lambda>s. y \<noteq> 0 \<and> s sdiv y \<noteq> x)"
proof -
  have w: "in_range (wider T1 T2) s \<Longrightarrow> bits T2 \<le> bits T1 \<Longrightarrow> wrap (bits T1) s = s"
    "in_range (wider T1 T2) s \<Longrightarrow> \<not> bits T2 \<le> bits T1 \<Longrightarrow> wrap (bits T2) s = s" for s
    by (simp_all add: wider_def wrap_in_range)
  show "AddValue T1 T2 l r = checked T1 T2 (x + y)
      (\<lambda>s. (x > 0 \<and> y > 0 \<and> s < 0) \<or> (x < 0 \<and> y < 0 \<and> s > 0))"
    unfolding AddValue_def checked_def both_lossy Let_def x_def [symmetric] y_def [symmetric]
    using assms(1,2) w by (auto simp: GetTypeId_def wider_def)
  show "SubtractValue T1 T2 l r = checked T1 T2 (x - y)
      (\<lambda>s. (x > 0 \<and> y < 0 \<and> s < 0) \<or> (x < 0 \<and> y > 0 \<and> s > 0))"
    unfolding SubtractValue_def checked_def both_lossy Let_def x_def [symmetric] y_def [symmetric]
    using assms(1,2) w by (auto simp: GetTypeId_def wider_def)
  show "MultiplyValue T1 T2 l r = checked T1 T2 (x * y) (\<lambda>s. y \<noteq> 0 \<and> s sdiv y \<noteq> x)"
    unfolding MultiplyValue_def checked_def both_lossy Let_def x_def [symmetric] y_def [symmetric]
    using assms(1,2) w by (auto simp: GetTypeId_def wider_def)
qed

definition exact_or_range :: "int_t \<Rightarrow> int \<Rightarrow> Value result" where
  "exact_or_range T i = (if in_range T i then Inr (int_value T i) else throw_range)"

text \<open>A check is complete when it passes every result in range and fails every wrapped one.\<close>

lemma checked_complete:
  assumes narrow: "bits (wider T1 T2) \<le> 16 \<Longrightarrow> \<bar>i\<bar> < 2 ^ 31"
    and pass: "in_range (wider T1 T2) i \<Longrightarrow> \<not> check i"
    and fail: "\<not> in_range (wider T1 T2) i \<Longrightarrow> check (wrap (bits (wider T1 T2)) i)"
  shows "checked T1 T2 i check = exact_or_range (wider T1 T2) i"
proof (rule promoted_cases [of T1 T2])
  assume p: "promoted T1 T2 = bits (wider T1 T2)"
  show ?thesis
    using pass fail wrap_in_range [of "wider T1 T2" i] wrap_range [of "wider T1 T2" i]
    by (auto simp: checked_def exact_or_range_def Let_def p)
next
  assume "promoted T1 T2 = 32" and b: "bits (wider T1 T2) \<le> 16"
  then have "wrap (promoted T1 T2) i = i" using narrow narrow_exact [OF b] by simp
  then show ?thesis using pass by (simp add: checked_def exact_or_range_def Let_def)
qed

lemma operands_bound:
  fixes x y :: int
  assumes "\<bar>x\<bar> < 2 ^ (bits T1 - 1)" "\<bar>y\<bar> < 2 ^ (bits T2 - 1)"
  shows "\<bar>x\<bar> < 2 ^ (bits (wider T1 T2) - 1)" "\<bar>y\<bar> < 2 ^ (bits (wider T1 T2) - 1)"
  using operand_bound [OF assms(1), of "wider T1 T2"] operand_bound [OF assms(2), of "wider T1 T2"]
  by (simp_all add: wider_bits)

lemma small_bound:
  fixes x :: int
  assumes "\<bar>x\<bar> < 2 ^ (bits T - 1)" "bits T \<le> 16"
  shows "\<bar>x\<bar> < 2 ^ 15"
  using assms by (cases T) auto

lemma bits_double: "(2::int) ^ bits T = 2 * 2 ^ (bits T - 1)"
  by (cases T) simp_all

lemma add_check:
  fixes x y :: int
  assumes x: "\<bar>x\<bar> < 2 ^ (bits T - 1)" and y: "\<bar>y\<bar> < 2 ^ (bits T - 1)" and out: "\<not> in_range T (x + y)"
  shows "(x > 0 \<and> y > 0 \<and> wrap (bits T) (x + y) < 0) \<or> (x < 0 \<and> y < 0 \<and> wrap (bits T) (x + y) > 0)"
proof (cases "x + y \<ge> 2 ^ (bits T - 1)")
  case True
  then have "wrap (bits T) (x + y) = x + y - 2 ^ bits T"
    using x y by (intro wrap_above) auto
  with True x y bits_double [of T] show ?thesis by linarith
next
  case False
  with out have "x + y < - (2 ^ (bits T - 1))" by (simp add: in_range_def)
  moreover from this have "wrap (bits T) (x + y) = x + y + 2 ^ bits T"
    using x y by (intro wrap_below) auto
  ultimately show ?thesis using x y bits_double [of T] by linarith
qed

lemma mult_check:
  fixes x y :: int
  assumes y: "\<bar>y\<bar> < 2 ^ (bits T - 1)" and out: "\<not> in_range T (x * y)"
  shows "y \<noteq> 0 \<and> wrap (bits T) (x * y) sdiv y \<noteq> x"
proof -
  define w where "w = wrap (bits T) (x * y)"
  have y0: "y \<noteq> 0" using out by (auto simp: in_range_def)
  have "w \<noteq> x * y" using out wrap_eq_iff [of T "x * y"] by (simp add: w_def)
  moreover have "2 ^ bits T dvd w - x * y"
    by (simp add: w_def wrap_mod mod_eq_dvd_iff [symmetric] algebra_simps mod_simps)
  ultimately have "2 ^ bits T \<le> \<bar>w - x * y\<bar>"
    by (metis dvd_abs_iff dvd_imp_le_int abs_abs eq_iff_diff_eq_0 abs_of_nonneg zero_le_power zero_le_numeral)
  moreover have "\<bar>w - (w sdiv y) * y\<bar> < \<bar>y\<bar>"
    using smod_int_range [OF y0, of w] by (auto simp: minus_sdiv_mult_eq_smod)
  ultimately have "w sdiv y \<noteq> x" using y bits_double [of T] by auto
  with y0 show ?thesis by (simp add: w_def)
qed

lemma mult_sdiv: "y \<noteq> 0 \<Longrightarrow> (x * y) sdiv y = (x :: int)"
  using sdiv_mult_smod_eq [of "x * y" y] by (simp add: signed_modulo_int_def abs_mult)

lemma templates_exact:
  assumes "int_ok T1 l" "int_ok T2 r" "\<not> IsNull l" "\<not> IsNull r"
  defines "x \<equiv> GetAs T1 l" and "y \<equiv> GetAs T2 r"
  shows "AddValue T1 T2 l r = exact_or_range (wider T1 T2) (x + y)"
    and "SubtractValue T1 T2 l r = exact_or_range (wider T1 T2) (x - y)"
    and "MultiplyValue T1 T2 l r = exact_or_range (wider T1 T2) (x * y)"
proof -
  note ty = int_okD [OF assms(1), THEN conjunct1] int_okD [OF assms(2), THEN conjunct1]
  note t = templates_checked [OF ty, folded x_def y_def]
  have b: "\<bar>x\<bar> < 2 ^ (bits (wider T1 T2) - 1)" "\<bar>y\<bar> < 2 ^ (bits (wider T1 T2) - 1)"
    using operands_bound [OF int_ok_bounds [OF assms(1,3)] int_ok_bounds [OF assms(2,4)]]
    by (simp_all add: x_def y_def)
  note small = small_bound [OF b(1)] small_bound [OF b(2)]
  show "AddValue T1 T2 l r = exact_or_range (wider T1 T2) (x + y)"
    unfolding t(1)
  proof (rule checked_complete)
    show "\<bar>x + y\<bar> < 2 ^ 31" if "bits (wider T1 T2) \<le> 16" using small that by simp
  qed (use add_check [OF b] in auto)
  show "SubtractValue T1 T2 l r = exact_or_range (wider T1 T2) (x - y)"
    unfolding t(2)
  proof (rule checked_complete)
    show "\<bar>x - y\<bar> < 2 ^ 31" if "bits (wider T1 T2) \<le> 16" using small that by simp
  qed (use add_check [of x _ "- y"] b in auto)
  show "MultiplyValue T1 T2 l r = exact_or_range (wider T1 T2) (x * y)"
    unfolding t(3)
  proof (rule checked_complete)
    show "\<bar>x * y\<bar> < 2 ^ 31" if "bits (wider T1 T2) \<le> 16"
    proof -
      have "\<bar>x\<bar> * \<bar>y\<bar> \<le> 2 ^ 15 * 2 ^ 15" using small that by (intro mult_mono) auto
      then show ?thesis by (simp add: abs_mult)
    qed
    show "\<not> (y \<noteq> 0 \<and> x * y sdiv y \<noteq> x)" using mult_sdiv by blast
  qed (rule mult_check [OF b(2)])
qed

lemma division_exact:
  assumes "int_ok T1 l" "int_ok T2 r" "\<not> IsNull l" "\<not> IsNull r" "GetAs T2 r \<noteq> 0"
  defines "x \<equiv> GetAs T1 l" and "y \<equiv> GetAs T2 r"
  shows "DivideValue T1 T2 l r = Inr (int_value (wider T1 T2) (x sdiv y))"
    and "ModuloValue T1 T2 l r = Inr (int_value (wider T1 T2) (x smod y))"
proof -
  note ty = int_okD [OF assms(1), THEN conjunct1] int_okD [OF assms(2), THEN conjunct1]
  have b: "\<bar>x\<bar> < 2 ^ (bits T1 - 1)" using int_ok_bounds [OF assms(1,3)] by (simp add: x_def)
  have exact: "wrap (promoted T1 T2) i = i" if "\<bar>i\<bar> \<le> \<bar>x\<bar>" for i
  proof -
    have "(2::int) ^ (bits T1 - 1) \<le> 2 ^ (promoted T1 T2 - 1)"
      by (intro power_increasing) (auto simp: promoted_def)
    with that b show ?thesis unfolding wrap_def by (intro signed_take_bit_int_eq_self) linarith+
  qed
  have "\<bar>x sdiv y\<bar> \<le> \<bar>x\<bar>" using sdiv_int_range [of x y] by auto
  moreover have "y \<noteq> 0" using assms(5) by (simp add: y_def)
  then have "\<bar>x smod y\<bar> \<le> \<bar>x\<bar>"
    by (cases "x = 0") (simp_all add: signed_modulo_int_def abs_mult zmod_le_nonneg_dividend abs_of_nonneg [OF pos_mod_sign])
  ultimately show "DivideValue T1 T2 l r = Inr (int_value (wider T1 T2) (x sdiv y))"
    "ModuloValue T1 T2 l r = Inr (int_value (wider T1 T2) (x smod y))"
    using assms(5) exact ty
    by (simp_all add: DivideValue_def ModuloValue_def Let_def GetTypeId_def wider_def flip: x_def y_def)
qed

subsection \<open>The operations of values\<close>

lemmas modify_defs = TINYINT_MODIFY_FUNC_def SMALLINT_MODIFY_FUNC_def INT_MODIFY_FUNC_def BIGINT_MODIFY_FUNC_def
lemmas int_add_defs = Tinyint_Add_def Smallint_Add_def Integer_Add_def Bigint_Add_def
lemmas int_sub_defs = Tinyint_Subtract_def Smallint_Subtract_def Integer_Subtract_def Bigint_Subtract_def
lemmas int_mul_defs = Tinyint_Multiply_def Smallint_Multiply_def Integer_Multiply_def Bigint_Multiply_def
lemmas int_div_defs = Tinyint_Divide_def Smallint_Divide_def Integer_Divide_def Bigint_Divide_def
lemmas int_mod_defs = Tinyint_Modulo_def Smallint_Modulo_def Integer_Modulo_def Bigint_Modulo_def
lemmas int_zero_defs = Tinyint_IsZero_def Smallint_IsZero_def Integer_IsZero_def Bigint_IsZero_def
lemmas int_null_defs = Tinyint_OperateNull_def Smallint_OperateNull_def Integer_OperateNull_def Bigint_OperateNull_def

lemma comparable_ints:
  assumes "val_type l = type_of T1" "val_type r = type_of T2"
  shows "CheckInteger l" "CheckComparable l r"
proof -
  show "CheckInteger l" using assms by (simp add: CheckInteger_iff)
  show "CheckComparable l r"
    using assms by (cases T1; cases T2) (simp_all add: CheckComparable_def numeric_or_varchar_def)
qed

lemma Value_IsZero_int:
  assumes "val_type r = type_of T"
  shows "Value_IsZero F r = Inr (GetAs T r = 0)"
  using assms by (cases T) (simp_all add: Value_IsZero_def int_zero_defs)

lemma dispatch_ints:
  assumes "val_type l = type_of T1" "val_type r = type_of T2" "\<not> IsNull l" "\<not> IsNull r"
  shows "Value_Add F l r = AddValue T1 T2 l r"
    and "Value_Subtract F l r = SubtractValue T1 T2 l r"
    and "Value_Multiply F l r = MultiplyValue T1 T2 l r"
    and "Value_Divide F l r = (if GetAs T2 r = 0 then throw_zero else DivideValue T1 T2 l r)"
    and "Value_Modulo F l r = (if GetAs T2 r = 0 then throw_zero else ModuloValue T1 T2 l r)"
proof -
  note c = comparable_ints [OF assms(1,2)] and z = Value_IsZero_int [OF assms(2)]
  show "Value_Add F l r = AddValue T1 T2 l r"
    using assms c by (cases T1; cases T2) (simp_all add: Value_Add_def int_add_defs modify_defs)
  show "Value_Subtract F l r = SubtractValue T1 T2 l r"
    using assms c by (cases T1; cases T2) (simp_all add: Value_Subtract_def int_sub_defs modify_defs)
  show "Value_Multiply F l r = MultiplyValue T1 T2 l r"
    using assms c by (cases T1; cases T2) (simp_all add: Value_Multiply_def int_mul_defs modify_defs)
  show "Value_Divide F l r = (if GetAs T2 r = 0 then throw_zero else DivideValue T1 T2 l r)"
    using assms c z by (cases T1; cases T2) (simp_all add: Value_Divide_def int_div_defs modify_defs)
  show "Value_Modulo F l r = (if GetAs T2 r = 0 then throw_zero else ModuloValue T1 T2 l r)"
    using assms c z by (cases T1; cases T2) (simp_all add: Value_Modulo_def int_mod_defs)
qed

text \<open>What the sum, difference or product \<open>i\<close> of two non-null integers becomes in the wider type \<open>T\<close>. The smallest bit pattern is
  the mark of a null. Nothing is said of results outside the 32 and 64 bit types: their overflow is undefined in the source.\<close>

definition arith_result :: "int_t \<Rightarrow> int \<Rightarrow> Value result \<Rightarrow> bool" where
  "arith_result T i res \<longleftrightarrow>
     (in_range T i \<and> i \<noteq> null_of T \<longrightarrow> res = Inr (int_value T i) \<and> \<not> IsNull (int_value T i)) \<and>
     (i = null_of T \<longrightarrow> res = Inr (int_value T i) \<and> IsNull (int_value T i)) \<and>
     (\<not> in_range T i \<and> bits T < 32 \<longrightarrow> res = throw_range)"

lemma arith_result_exact: "arith_result T i (exact_or_range T i)"
proof -
  have "in_range T (null_of T)" by (simp add: in_range_def null_of_def)
  then show ?thesis by (auto simp: arith_result_def exact_or_range_def wrap_in_range)
qed

text \<open>C35. Addition, subtraction and multiplication of two non-null integers of any of the four types
  give the exact result in the wider of the two types whenever it is a non-null number of that type; a result equal to the bit
  pattern of null, such as -127 + -1 in \<open>TINYINT\<close>, comes out as null; every other result of \<open>TINYINT\<close> and \<open>SMALLINT\<close> arithmetic
  is reported as out of range. For \<open>INTEGER\<close> and \<open>BIGINT\<close> overflow is undefined in the source and nothing is claimed.\<close>

theorem integer_arithmetic_exact:
  assumes "int_ok T1 l" "int_ok T2 r" "\<not> IsNull l" "\<not> IsNull r"
  shows "arith_result (wider T1 T2) (GetAs T1 l + GetAs T2 r) (Value_Add F l r) \<and>
    arith_result (wider T1 T2) (GetAs T1 l - GetAs T2 r) (Value_Subtract F l r) \<and>
    arith_result (wider T1 T2) (GetAs T1 l * GetAs T2 r) (Value_Multiply F l r)"
  using dispatch_ints [OF int_okD [OF assms(1), THEN conjunct1] int_okD [OF assms(2), THEN conjunct1] assms(3,4)]
    templates_exact [OF assms] arith_result_exact
  by simp

theorem integer_arithmetic_exact_witness:
  "Value_Add integer_doubles (int_value int8_t 100) (int_value int8_t 28) = throw_range \<and>
   Value_Subtract integer_doubles (int_value int8_t 100) (int_value int8_t 28) = Inr (int_value int8_t 72)"
  using integer_arithmetic_exact [OF int_ok_int_value [of int8_t 100] int_ok_int_value [of int8_t 28],
      of integer_doubles]
  by (simp add: wrap_def null_of_def arith_result_def in_range_def wider_def)

text \<open>Division and remainder of two non-null integers truncate towards zero, are exact in the wider
  type, and report a zero divisor.\<close>

theorem integer_division_exact:
  assumes "int_ok T1 l" "int_ok T2 r" "\<not> IsNull l" "\<not> IsNull r"
  shows "Value_Divide F l r = (if GetAs T2 r = 0 then throw_zero
      else Inr (int_value (wider T1 T2) (GetAs T1 l sdiv GetAs T2 r))) \<and>
    Value_Modulo F l r = (if GetAs T2 r = 0 then throw_zero
      else Inr (int_value (wider T1 T2) (GetAs T1 l smod GetAs T2 r)))"
  using dispatch_ints [OF int_okD [OF assms(1), THEN conjunct1] int_okD [OF assms(2), THEN conjunct1] assms(3,4)]
    division_exact [OF assms]
  by simp

theorem integer_division_exact_witness:
  "Value_Divide integer_doubles (int_value int64_t (- 7)) (int_value int16_t 2) = Inr (int_value int64_t (- 3)) \<and>
   Value_Modulo integer_doubles (int_value int64_t (- 7)) (int_value int16_t 2) = Inr (int_value int64_t (- 1))"
  using integer_division_exact [OF int_ok_int_value [of int64_t "- 7"] int_ok_int_value [of int16_t 2],
      of integer_doubles]
  by (simp add: wrap_def null_of_def wider_def)

text \<open>The range check of the templates accepts the smallest number of the type, which is the mark of
  a null: the sum of two non-null integers can be a null value. An example is -127 + -1 in \<open>TINYINT\<close>.\<close>

theorem sum_can_be_null:
  assumes "int_ok T l" "int_ok T r" "\<not> IsNull l" "\<not> IsNull r" "GetAs T l + GetAs T r = null_of T"
  shows "\<exists>v. Value_Add F l r = Inr v \<and> IsNull v"
proof -
  have "in_range T (null_of T)" by (simp add: in_range_def null_of_def)
  moreover have "Value_Add F l r = exact_or_range (wider T T) (GetAs T l + GetAs T r)"
    using dispatch_ints(1) [OF int_okD [OF assms(1), THEN conjunct1] int_okD [OF assms(2), THEN conjunct1] assms(3,4)]
      templates_exact(1) [OF assms(1-4)] by simp
  ultimately show ?thesis
    using assms(5) by (simp add: exact_or_range_def wider_def wrap_in_range)
qed

theorem sum_can_be_null_witness:
  "\<exists>v. Value_Add integer_doubles (int_value int8_t (- 127)) (int_value int8_t (- 1)) = Inr v \<and> IsNull v"
  using sum_can_be_null [OF int_ok_int_value [of int8_t "- 127"] int_ok_int_value [of int8_t "- 1"], of integer_doubles]
  by (simp add: wrap_def null_of_def)

end
