(* ===== verification/Comparison.thy ===== *)
theory Comparison
  imports Arithmetic
begin

section \<open>Comparison of values\<close>

text \<open>
  The six comparisons of each type class, \<open>Min\<close> and \<open>Max\<close>, and \<open>TypeUtil::CompareStrings\<close>. The macros
  take the operator \<open>OP\<close> as an element of \<open>cmp_op\<close>, which stands for the C++ operator on integers and,
  in \<open>double_op\<close>, on doubles.
\<close>

subsection \<open>Operators\<close>

datatype cmp_op = Eq | Ne | Lt | Le | Gt | Ge

fun int_op :: "cmp_op \<Rightarrow> int \<Rightarrow> int \<Rightarrow> bool" where
  "int_op Eq x y = (x = y)"
| "int_op Ne x y = (x \<noteq> y)"
| "int_op Lt x y = (x < y)"
| "int_op Le x y = (x \<le> y)"
| "int_op Gt x y = (x > y)"
| "int_op Ge x y = (x \<ge> y)"

fun double_op :: "double_ops \<Rightarrow> cmp_op \<Rightarrow> double \<Rightarrow> double \<Rightarrow> bool" where
  "double_op F Eq x y = d_eq F x y"
| "double_op F Ne x y = (\<not> d_eq F x y)"
| "double_op F Lt x y = d_lt F x y"
| "double_op F Le x y = d_le F x y"
| "double_op F Gt x y = d_lt F y x"
| "double_op F Ge x y = d_le F y x"

subsection \<open>Integer classes\<close>

definition TINYINT_COMPARE_FUNC :: "double_ops \<Rightarrow> cmp_op \<Rightarrow> Value \<Rightarrow> Value \<Rightarrow> CmpBool result" where
  "TINYINT_COMPARE_FUNC F OP left right = (case val_type right of
     TINYINT \<Rightarrow> Inr (GetCmpBool (int_op OP (GetAs int8_t left) (GetAs int8_t right)))
   | SMALLINT \<Rightarrow> Inr (GetCmpBool (int_op OP (GetAs int8_t left) (GetAs int16_t right)))
   | INTEGER \<Rightarrow> Inr (GetCmpBool (int_op OP (GetAs int8_t left) (GetAs int32_t right)))
   | BIGINT \<Rightarrow> Inr (GetCmpBool (int_op OP (GetAs int8_t left) (GetAs int64_t right)))
   | DECIMAL \<Rightarrow> Inr (GetCmpBool (double_op F OP (d_of_int F (GetAs int8_t left)) (GetAs_double right)))
   | VARCHAR \<Rightarrow> andThen (Value_CastAs F right TINYINT)
       (\<lambda>r_value. Inr (GetCmpBool (int_op OP (GetAs int8_t left) (GetAs int8_t r_value))))
   | _ \<Rightarrow> throw_msg ''type error'')"

definition Tinyint_CompareEquals :: "double_ops \<Rightarrow> Value \<Rightarrow> Value \<Rightarrow> CmpBool result" where
  "Tinyint_CompareEquals F left right = ensure (CheckInteger left \<and> CheckComparable left right)
     (if IsNull left \<or> IsNull right then Inr CmpNull else TINYINT_COMPARE_FUNC F Eq left right)"

definition Tinyint_CompareNotEquals :: "double_ops \<Rightarrow> Value \<Rightarrow> Value \<Rightarrow> CmpBool result" where
  "Tinyint_CompareNotEquals F left right = ensure (CheckInteger left \<and> CheckComparable left right)
     (if IsNull left \<or> IsNull right then Inr CmpNull else TINYINT_COMPARE_FUNC F Ne left right)"

definition Tinyint_CompareLessThan :: "double_ops \<Rightarrow> Value \<Rightarrow> Value \<Rightarrow> CmpBool result" where
  "Tinyint_CompareLessThan F left right = ensure (CheckInteger left \<and> CheckComparable left right)
     (if IsNull left \<or> IsNull right then Inr CmpNull else TINYINT_COMPARE_FUNC F Lt left right)"

definition Tinyint_CompareLessThanEquals :: "double_ops \<Rightarrow> Value \<Rightarrow> Value \<Rightarrow> CmpBool result" where
  "Tinyint_CompareLessThanEquals F left right = ensure (CheckInteger left \<and> CheckComparable left right)
     (if IsNull left \<or> IsNull right then Inr CmpNull else TINYINT_COMPARE_FUNC F Le left right)"

definition Tinyint_CompareGreaterThan :: "double_ops \<Rightarrow> Value \<Rightarrow> Value \<Rightarrow> CmpBool result" where
  "Tinyint_CompareGreaterThan F left right = ensure (CheckInteger left \<and> CheckComparable left right)
     (if IsNull left \<or> IsNull right then Inr CmpNull else TINYINT_COMPARE_FUNC F Gt left right)"

definition Tinyint_CompareGreaterThanEquals :: "double_ops \<Rightarrow> Value \<Rightarrow> Value \<Rightarrow> CmpBool result" where
  "Tinyint_CompareGreaterThanEquals F left right = ensure (CheckInteger left \<and> CheckComparable left right)
     (if IsNull left \<or> IsNull right then Inr CmpNull else TINYINT_COMPARE_FUNC F Ge left right)"

definition SMALLINT_COMPARE_FUNC :: "double_ops \<Rightarrow> cmp_op \<Rightarrow> Value \<Rightarrow> Value \<Rightarrow> CmpBool result" where
  "SMALLINT_COMPARE_FUNC F OP left right = (case val_type right of
     TINYINT \<Rightarrow> Inr (GetCmpBool (int_op OP (GetAs int16_t left) (GetAs int8_t right)))
   | SMALLINT \<Rightarrow> Inr (GetCmpBool (int_op OP (GetAs int16_t left) (GetAs int16_t right)))
   | INTEGER \<Rightarrow> Inr (GetCmpBool (int_op OP (GetAs int16_t left) (GetAs int32_t right)))
   | BIGINT \<Rightarrow> Inr (GetCmpBool (int_op OP (GetAs int16_t left) (GetAs int64_t right)))
   | DECIMAL \<Rightarrow> Inr (GetCmpBool (double_op F OP (d_of_int F (GetAs int16_t left)) (GetAs_double right)))
   | VARCHAR \<Rightarrow> andThen (Value_CastAs F right SMALLINT)
       (\<lambda>r_value. Inr (GetCmpBool (int_op OP (GetAs int16_t left) (GetAs int16_t r_value))))
   | _ \<Rightarrow> throw_msg ''type error'')"

definition Smallint_CompareEquals :: "double_ops \<Rightarrow> Value \<Rightarrow> Value \<Rightarrow> CmpBool result" where
  "Smallint_CompareEquals F left right = ensure (CheckInteger left \<and> CheckComparable left right)
     (if IsNull left \<or> IsNull right then Inr CmpNull else SMALLINT_COMPARE_FUNC F Eq left right)"

definition Smallint_CompareNotEquals :: "double_ops \<Rightarrow> Value \<Rightarrow> Value \<Rightarrow> CmpBool result" where
  "Smallint_CompareNotEquals F left right = ensure (CheckInteger left \<and> CheckComparable left right)
     (if IsNull left \<or> IsNull right then Inr CmpNull else SMALLINT_COMPARE_FUNC F Ne left right)"

definition Smallint_CompareLessThan :: "double_ops \<Rightarrow> Value \<Rightarrow> Value \<Rightarrow> CmpBool result" where
  "Smallint_CompareLessThan F left right = ensure (CheckInteger left \<and> CheckComparable left right)
     (if IsNull left \<or> IsNull right then Inr CmpNull else SMALLINT_COMPARE_FUNC F Lt left right)"

definition Smallint_CompareLessThanEquals :: "double_ops \<Rightarrow> Value \<Rightarrow> Value \<Rightarrow> CmpBool result" where
  "Smallint_CompareLessThanEquals F left right = ensure (CheckInteger left \<and> CheckComparable left right)
     (if IsNull left \<or> IsNull right then Inr CmpNull else SMALLINT_COMPARE_FUNC F Le left right)"

definition Smallint_CompareGreaterThan :: "double_ops \<Rightarrow> Value \<Rightarrow> Value \<Rightarrow> CmpBool result" where
  "Smallint_CompareGreaterThan F left right = ensure (CheckInteger left \<and> CheckComparable left right)
     (if IsNull left \<or> IsNull right then Inr CmpNull else SMALLINT_COMPARE_FUNC F Gt left right)"

definition Smallint_CompareGreaterThanEquals :: "double_ops \<Rightarrow> Value \<Rightarrow> Value \<Rightarrow> CmpBool result" where
  "Smallint_CompareGreaterThanEquals F left right = ensure (CheckInteger left \<and> CheckComparable left right)
     (if IsNull left \<or> IsNull right then Inr CmpNull else SMALLINT_COMPARE_FUNC F Ge left right)"

definition INT_COMPARE_FUNC :: "double_ops \<Rightarrow> cmp_op \<Rightarrow> Value \<Rightarrow> Value \<Rightarrow> CmpBool result" where
  "INT_COMPARE_FUNC F OP left right = (case val_type right of
     TINYINT \<Rightarrow> Inr (GetCmpBool (int_op OP (GetAs int32_t left) (GetAs int8_t right)))
   | SMALLINT \<Rightarrow> Inr (GetCmpBool (int_op OP (GetAs int32_t left) (GetAs int16_t right)))
   | INTEGER \<Rightarrow> Inr (GetCmpBool (int_op OP (GetAs int32_t left) (GetAs int32_t right)))
   | BIGINT \<Rightarrow> Inr (GetCmpBool (int_op OP (GetAs int32_t left) (GetAs int64_t right)))
   | DECIMAL \<Rightarrow> Inr (GetCmpBool (double_op F OP (d_of_int F (GetAs int32_t left)) (GetAs_double right)))
   | VARCHAR \<Rightarrow> andThen (Value_CastAs F right INTEGER)
       (\<lambda>r_value. Inr (GetCmpBool (int_op OP (GetAs int32_t left) (GetAs int32_t r_value))))
   | _ \<Rightarrow> throw_msg ''type error'')"

definition Integer_CompareEquals :: "double_ops \<Rightarrow> Value \<Rightarrow> Value \<Rightarrow> CmpBool result" where
  "Integer_CompareEquals F left right = ensure (CheckInteger left \<and> CheckComparable left right)
     (if IsNull left \<or> IsNull right then Inr CmpNull else INT_COMPARE_FUNC F Eq left right)"

definition Integer_CompareNotEquals :: "double_ops \<Rightarrow> Value \<Rightarrow> Value \<Rightarrow> CmpBool result" where
  "Integer_CompareNotEquals F left right = ensure (CheckInteger left \<and> CheckComparable left right)
     (if IsNull left \<or> IsNull right then Inr CmpNull else INT_COMPARE_FUNC F Ne left right)"

definition Integer_CompareLessThan :: "double_ops \<Rightarrow> Value \<Rightarrow> Value \<Rightarrow> CmpBool result" where
  "Integer_CompareLessThan F left right = ensure (CheckInteger left \<and> CheckComparable left right)
     (if IsNull left \<or> IsNull right then Inr CmpNull else INT_COMPARE_FUNC F Lt left right)"

definition Integer_CompareLessThanEquals :: "double_ops \<Rightarrow> Value \<Rightarrow> Value \<Rightarrow> CmpBool result" where
  "Integer_CompareLessThanEquals F left right = ensure (CheckInteger left \<and> CheckComparable left right)
     (if IsNull left \<or> IsNull right then Inr CmpNull else INT_COMPARE_FUNC F Le left right)"

definition Integer_CompareGreaterThan :: "double_ops \<Rightarrow> Value \<Rightarrow> Value \<Rightarrow> CmpBool result" where
  "Integer_CompareGreaterThan F left right = ensure (CheckInteger left \<and> CheckComparable left right)
     (if IsNull left \<or> IsNull right then Inr CmpNull else INT_COMPARE_FUNC F Gt left right)"

definition Integer_CompareGreaterThanEquals :: "double_ops \<Rightarrow> Value \<Rightarrow> Value \<Rightarrow> CmpBool result" where
  "Integer_CompareGreaterThanEquals F left right = ensure (CheckInteger left \<and> CheckComparable left right)
     (if IsNull left \<or> IsNull right then Inr CmpNull else INT_COMPARE_FUNC F Ge left right)"

definition BIGINT_COMPARE_FUNC :: "double_ops \<Rightarrow> cmp_op \<Rightarrow> Value \<Rightarrow> Value \<Rightarrow> CmpBool result" where
  "BIGINT_COMPARE_FUNC F OP left right = (case val_type right of
     TINYINT \<Rightarrow> Inr (GetCmpBool (int_op OP (GetAs int64_t left) (GetAs int8_t right)))
   | SMALLINT \<Rightarrow> Inr (GetCmpBool (int_op OP (GetAs int64_t left) (GetAs int16_t right)))
   | INTEGER \<Rightarrow> Inr (GetCmpBool (int_op OP (GetAs int64_t left) (GetAs int32_t right)))
   | BIGINT \<Rightarrow> Inr (GetCmpBool (int_op OP (GetAs int64_t left) (GetAs int64_t right)))
   | DECIMAL \<Rightarrow> Inr (GetCmpBool (double_op F OP (d_of_int F (GetAs int64_t left)) (GetAs_double right)))
   | VARCHAR \<Rightarrow> andThen (Value_CastAs F right BIGINT)
       (\<lambda>r_value. Inr (GetCmpBool (int_op OP (GetAs int64_t left) (GetAs int64_t r_value))))
   | _ \<Rightarrow> throw_msg ''type error'')"

definition Bigint_CompareEquals :: "double_ops \<Rightarrow> Value \<Rightarrow> Value \<Rightarrow> CmpBool result" where
  "Bigint_CompareEquals F left right = ensure (CheckInteger left \<and> CheckComparable left right)
     (if IsNull left \<or> IsNull right then Inr CmpNull else BIGINT_COMPARE_FUNC F Eq left right)"

definition Bigint_CompareNotEquals :: "double_ops \<Rightarrow> Value \<Rightarrow> Value \<Rightarrow> CmpBool result" where
  "Bigint_CompareNotEquals F left right = ensure (CheckInteger left \<and> CheckComparable left right)
     (if IsNull left \<or> IsNull right then Inr CmpNull else BIGINT_COMPARE_FUNC F Ne left right)"

definition Bigint_CompareLessThan :: "double_ops \<Rightarrow> Value \<Rightarrow> Value \<Rightarrow> CmpBool result" where
  "Bigint_CompareLessThan F left right = ensure (CheckInteger left \<and> CheckComparable left right)
     (if IsNull left \<or> IsNull right then Inr CmpNull else BIGINT_COMPARE_FUNC F Lt left right)"

definition Bigint_CompareLessThanEquals :: "double_ops \<Rightarrow> Value \<Rightarrow> Value \<Rightarrow> CmpBool result" where
  "Bigint_CompareLessThanEquals F left right = ensure (CheckInteger left \<and> CheckComparable left right)
     (if IsNull left \<or> IsNull right then Inr CmpNull else BIGINT_COMPARE_FUNC F Le left right)"

definition Bigint_CompareGreaterThan :: "double_ops \<Rightarrow> Value \<Rightarrow> Value \<Rightarrow> CmpBool result" where
  "Bigint_CompareGreaterThan F left right = ensure (CheckInteger left \<and> CheckComparable left right)
     (if IsNull left \<or> IsNull right then Inr CmpNull else BIGINT_COMPARE_FUNC F Gt left right)"

definition Bigint_CompareGreaterThanEquals :: "double_ops \<Rightarrow> Value \<Rightarrow> Value \<Rightarrow> CmpBool result" where
  "Bigint_CompareGreaterThanEquals F left right = ensure (CheckInteger left \<and> CheckComparable left right)
     (if IsNull left \<or> IsNull right then Inr CmpNull else BIGINT_COMPARE_FUNC F Ge left right)"

subsection \<open>Decimals, booleans and strings\<close>

definition DECIMAL_COMPARE_FUNC :: "double_ops \<Rightarrow> cmp_op \<Rightarrow> Value \<Rightarrow> Value \<Rightarrow> CmpBool result" where
  "DECIMAL_COMPARE_FUNC F OP left right = (case val_type right of
     TINYINT \<Rightarrow> Inr (GetCmpBool (double_op F OP (GetAs_double left) (d_of_int F (GetAs int8_t right))))
   | SMALLINT \<Rightarrow> Inr (GetCmpBool (double_op F OP (GetAs_double left) (d_of_int F (GetAs int16_t right))))
   | INTEGER \<Rightarrow> Inr (GetCmpBool (double_op F OP (GetAs_double left) (d_of_int F (GetAs int32_t right))))
   | BIGINT \<Rightarrow> Inr (GetCmpBool (double_op F OP (GetAs_double left) (d_of_int F (GetAs int64_t right))))
   | DECIMAL \<Rightarrow> Inr (GetCmpBool (double_op F OP (GetAs_double left) (GetAs_double right)))
   | VARCHAR \<Rightarrow> andThen (Value_CastAs F right DECIMAL)
       (\<lambda>r_value. Inr (GetCmpBool (double_op F OP (GetAs_double left) (GetAs_double r_value))))
   | _ \<Rightarrow> throw_msg ''type error'')"

definition Decimal_CompareEquals :: "double_ops \<Rightarrow> Value \<Rightarrow> Value \<Rightarrow> CmpBool result" where
  "Decimal_CompareEquals F left right = ensure (CheckComparable left right)
     (if IsNull left \<or> IsNull right then Inr CmpNull else DECIMAL_COMPARE_FUNC F Eq left right)"

definition Decimal_CompareNotEquals :: "double_ops \<Rightarrow> Value \<Rightarrow> Value \<Rightarrow> CmpBool result" where
  "Decimal_CompareNotEquals F left right = ensure (CheckComparable left right)
     (if IsNull left \<or> IsNull right then Inr CmpNull else DECIMAL_COMPARE_FUNC F Ne left right)"

definition Decimal_CompareLessThan :: "double_ops \<Rightarrow> Value \<Rightarrow> Value \<Rightarrow> CmpBool result" where
  "Decimal_CompareLessThan F left right = ensure (CheckComparable left right)
     (if IsNull left \<or> IsNull right then Inr CmpNull else DECIMAL_COMPARE_FUNC F Lt left right)"

definition Decimal_CompareLessThanEquals :: "double_ops \<Rightarrow> Value \<Rightarrow> Value \<Rightarrow> CmpBool result" where
  "Decimal_CompareLessThanEquals F left right = ensure (CheckComparable left right)
     (if IsNull left \<or> IsNull right then Inr CmpNull else DECIMAL_COMPARE_FUNC F Le left right)"

definition Decimal_CompareGreaterThan :: "double_ops \<Rightarrow> Value \<Rightarrow> Value \<Rightarrow> CmpBool result" where
  "Decimal_CompareGreaterThan F left right = ensure (CheckComparable left right)
     (if IsNull left \<or> IsNull right then Inr CmpNull else DECIMAL_COMPARE_FUNC F Gt left right)"

definition Decimal_CompareGreaterThanEquals :: "double_ops \<Rightarrow> Value \<Rightarrow> Value \<Rightarrow> CmpBool result" where
  "Decimal_CompareGreaterThanEquals F left right = ensure (CheckComparable left right)
     (if IsNull left \<or> IsNull right then Inr CmpNull else DECIMAL_COMPARE_FUNC F Ge left right)"

definition BOOLEAN_COMPARE_FUNC :: "double_ops \<Rightarrow> cmp_op \<Rightarrow> Value \<Rightarrow> Value \<Rightarrow> CmpBool result" where
  "BOOLEAN_COMPARE_FUNC F OP left right = andThen (Value_CastAs F right BOOLEAN)
     (\<lambda>r_value. Inr (GetCmpBool (int_op OP (GetAs int8_t left) (GetAs int8_t r_value))))"

definition Boolean_CompareEquals :: "double_ops \<Rightarrow> Value \<Rightarrow> Value \<Rightarrow> CmpBool result" where
  "Boolean_CompareEquals F left right = ensure (CheckComparable left right)
     (if IsNull left \<or> IsNull right then Inr CmpNull else BOOLEAN_COMPARE_FUNC F Eq left right)"

definition Boolean_CompareNotEquals :: "double_ops \<Rightarrow> Value \<Rightarrow> Value \<Rightarrow> CmpBool result" where
  "Boolean_CompareNotEquals F left right = ensure (CheckComparable left right)
     (if IsNull left \<or> IsNull right then Inr CmpNull else BOOLEAN_COMPARE_FUNC F Ne left right)"

definition Boolean_CompareLessThan :: "double_ops \<Rightarrow> Value \<Rightarrow> Value \<Rightarrow> CmpBool result" where
  "Boolean_CompareLessThan F left right = ensure (CheckComparable left right)
     (if IsNull left \<or> IsNull right then Inr CmpNull else BOOLEAN_COMPARE_FUNC F Lt left right)"

definition Boolean_CompareLessThanEquals :: "double_ops \<Rightarrow> Value \<Rightarrow> Value \<Rightarrow> CmpBool result" where
  "Boolean_CompareLessThanEquals F left right = ensure (CheckComparable left right)
     (if IsNull left \<or> IsNull right then Inr CmpNull else BOOLEAN_COMPARE_FUNC F Le left right)"

definition Boolean_CompareGreaterThan :: "double_ops \<Rightarrow> Value \<Rightarrow> Value \<Rightarrow> CmpBool result" where
  "Boolean_CompareGreaterThan F left right = ensure (CheckComparable left right)
     (if IsNull left \<or> IsNull right then Inr CmpNull else BOOLEAN_COMPARE_FUNC F Gt left right)"

definition Boolean_CompareGreaterThanEquals :: "double_ops \<Rightarrow> Value \<Rightarrow> Value \<Rightarrow> CmpBool result" where
  "Boolean_CompareGreaterThanEquals F left right = ensure (CheckComparable left right)
     (if IsNull left \<or> IsNull right then Inr CmpNull else BOOLEAN_COMPARE_FUNC F Ge left right)"

text \<open>The pointers of \<open>CompareStrings\<close> are the memory they point to, its lengths are the \<open>int\<close> values
  of the unsigned lengths minus one; it stops at an assertion on a null pointer or a negative length.\<close>

definition CompareStrings :: "string option \<Rightarrow> int \<Rightarrow> string option \<Rightarrow> int \<Rightarrow> int result" where
  "CompareStrings str1 len1 str2 len2 = (case (str1, str2) of
     (Some s1, Some s2) \<Rightarrow> ensure (len1 \<ge> 0 \<and> len2 \<ge> 0 \<and>
         nat (min len1 len2) \<le> length s1 \<and> nat (min len1 len2) \<le> length s2)
       (let n = nat (min len1 len2); ret = memcmp (take n s1) (take n s2) in
        Inr (if ret = 0 \<and> len1 \<noteq> len2 then len1 - len2 else ret))
   | _ \<Rightarrow> Inl Crash)"

definition VARLEN_COMPARE_FUNC :: "double_ops \<Rightarrow> cmp_op \<Rightarrow> Value \<Rightarrow> Value \<Rightarrow> CmpBool result" where
  "VARLEN_COMPARE_FUNC F OP left right =
     (let str1 = val_varlen left; len1 = sint (val_len left - 1) in
      andThen (if val_type right = VARCHAR then Inr right else Value_CastAs F right VARCHAR) (\<lambda>r_value.
        andThen (CompareStrings str1 len1 (val_varlen r_value) (sint (val_len r_value - 1))) (\<lambda>c.
          Inr (GetCmpBool (int_op OP c 0)))))"

definition Varlen_CompareEquals :: "double_ops \<Rightarrow> Value \<Rightarrow> Value \<Rightarrow> CmpBool result" where
  "Varlen_CompareEquals F left right = ensure (CheckComparable left right)
     (if IsNull left \<or> IsNull right then Inr CmpNull
      else if val_len left = BUSTUB_VARCHAR_MAX_LEN \<or> val_len right = BUSTUB_VARCHAR_MAX_LEN
      then Inr (GetCmpBool (int_op Eq (uint (val_len left)) (uint (val_len right))))
      else VARLEN_COMPARE_FUNC F Eq left right)"

definition Varlen_CompareNotEquals :: "double_ops \<Rightarrow> Value \<Rightarrow> Value \<Rightarrow> CmpBool result" where
  "Varlen_CompareNotEquals F left right = ensure (CheckComparable left right)
     (if IsNull left \<or> IsNull right then Inr CmpNull
      else if val_len left = BUSTUB_VARCHAR_MAX_LEN \<or> val_len right = BUSTUB_VARCHAR_MAX_LEN
      then Inr (GetCmpBool (int_op Ne (uint (val_len left)) (uint (val_len right))))
      else VARLEN_COMPARE_FUNC F Ne left right)"

definition Varlen_CompareLessThan :: "double_ops \<Rightarrow> Value \<Rightarrow> Value \<Rightarrow> CmpBool result" where
  "Varlen_CompareLessThan F left right = ensure (CheckComparable left right)
     (if IsNull left \<or> IsNull right then Inr CmpNull
      else if val_len left = BUSTUB_VARCHAR_MAX_LEN \<or> val_len right = BUSTUB_VARCHAR_MAX_LEN
      then Inr (GetCmpBool (int_op Lt (uint (val_len left)) (uint (val_len right))))
      else VARLEN_COMPARE_FUNC F Lt left right)"

definition Varlen_CompareLessThanEquals :: "double_ops \<Rightarrow> Value \<Rightarrow> Value \<Rightarrow> CmpBool result" where
  "Varlen_CompareLessThanEquals F left right = ensure (CheckComparable left right)
     (if IsNull left \<or> IsNull right then Inr CmpNull
      else if val_len left = BUSTUB_VARCHAR_MAX_LEN \<or> val_len right = BUSTUB_VARCHAR_MAX_LEN
      then Inr (GetCmpBool (int_op Le (uint (val_len left)) (uint (val_len right))))
      else VARLEN_COMPARE_FUNC F Le left right)"

definition Varlen_CompareGreaterThan :: "double_ops \<Rightarrow> Value \<Rightarrow> Value \<Rightarrow> CmpBool result" where
  "Varlen_CompareGreaterThan F left right = ensure (CheckComparable left right)
     (if IsNull left \<or> IsNull right then Inr CmpNull
      else if val_len left = BUSTUB_VARCHAR_MAX_LEN \<or> val_len right = BUSTUB_VARCHAR_MAX_LEN
      then Inr (GetCmpBool (int_op Gt (uint (val_len left)) (uint (val_len right))))
      else VARLEN_COMPARE_FUNC F Gt left right)"

definition Varlen_CompareGreaterThanEquals :: "double_ops \<Rightarrow> Value \<Rightarrow> Value \<Rightarrow> CmpBool result" where
  "Varlen_CompareGreaterThanEquals F left right = ensure (CheckComparable left right)
     (if IsNull left \<or> IsNull right then Inr CmpNull
      else if val_len left = BUSTUB_VARCHAR_MAX_LEN \<or> val_len right = BUSTUB_VARCHAR_MAX_LEN
      then Inr (GetCmpBool (int_op Ge (uint (val_len left)) (uint (val_len right))))
      else VARLEN_COMPARE_FUNC F Ge left right)"

subsection \<open>Selection of the class\<close>

definition Value_CompareEquals :: "double_ops \<Rightarrow> Value \<Rightarrow> Value \<Rightarrow> CmpBool result" where
  "Value_CompareEquals F left right = (case val_type left of
     INVALID \<Rightarrow> Type_CompareEquals left right
   | BOOLEAN \<Rightarrow> Boolean_CompareEquals F left right
   | TINYINT \<Rightarrow> Tinyint_CompareEquals F left right
   | SMALLINT \<Rightarrow> Smallint_CompareEquals F left right
   | INTEGER \<Rightarrow> Integer_CompareEquals F left right
   | BIGINT \<Rightarrow> Bigint_CompareEquals F left right
   | DECIMAL \<Rightarrow> Decimal_CompareEquals F left right
   | VARCHAR \<Rightarrow> Varlen_CompareEquals F left right
   | TIMESTAMP \<Rightarrow> Inl Crash)"

definition Value_CompareNotEquals :: "double_ops \<Rightarrow> Value \<Rightarrow> Value \<Rightarrow> CmpBool result" where
  "Value_CompareNotEquals F left right = (case val_type left of
     INVALID \<Rightarrow> Type_CompareNotEquals left right
   | BOOLEAN \<Rightarrow> Boolean_CompareNotEquals F left right
   | TINYINT \<Rightarrow> Tinyint_CompareNotEquals F left right
   | SMALLINT \<Rightarrow> Smallint_CompareNotEquals F left right
   | INTEGER \<Rightarrow> Integer_CompareNotEquals F left right
   | BIGINT \<Rightarrow> Bigint_CompareNotEquals F left right
   | DECIMAL \<Rightarrow> Decimal_CompareNotEquals F left right
   | VARCHAR \<Rightarrow> Varlen_CompareNotEquals F left right
   | TIMESTAMP \<Rightarrow> Inl Crash)"

definition Value_CompareLessThan :: "double_ops \<Rightarrow> Value \<Rightarrow> Value \<Rightarrow> CmpBool result" where
  "Value_CompareLessThan F left right = (case val_type left of
     INVALID \<Rightarrow> Type_CompareLessThan left right
   | BOOLEAN \<Rightarrow> Boolean_CompareLessThan F left right
   | TINYINT \<Rightarrow> Tinyint_CompareLessThan F left right
   | SMALLINT \<Rightarrow> Smallint_CompareLessThan F left right
   | INTEGER \<Rightarrow> Integer_CompareLessThan F left right
   | BIGINT \<Rightarrow> Bigint_CompareLessThan F left right
   | DECIMAL \<Rightarrow> Decimal_CompareLessThan F left right
   | VARCHAR \<Rightarrow> Varlen_CompareLessThan F left right
   | TIMESTAMP \<Rightarrow> Inl Crash)"

definition Value_CompareLessThanEquals :: "double_ops \<Rightarrow> Value \<Rightarrow> Value \<Rightarrow> CmpBool result" where
  "Value_CompareLessThanEquals F left right = (case val_type left of
     INVALID \<Rightarrow> Type_CompareLessThanEquals left right
   | BOOLEAN \<Rightarrow> Boolean_CompareLessThanEquals F left right
   | TINYINT \<Rightarrow> Tinyint_CompareLessThanEquals F left right
   | SMALLINT \<Rightarrow> Smallint_CompareLessThanEquals F left right
   | INTEGER \<Rightarrow> Integer_CompareLessThanEquals F left right
   | BIGINT \<Rightarrow> Bigint_CompareLessThanEquals F left right
   | DECIMAL \<Rightarrow> Decimal_CompareLessThanEquals F left right
   | VARCHAR \<Rightarrow> Varlen_CompareLessThanEquals F left right
   | TIMESTAMP \<Rightarrow> Inl Crash)"

definition Value_CompareGreaterThan :: "double_ops \<Rightarrow> Value \<Rightarrow> Value \<Rightarrow> CmpBool result" where
  "Value_CompareGreaterThan F left right = (case val_type left of
     INVALID \<Rightarrow> Type_CompareGreaterThan left right
   | BOOLEAN \<Rightarrow> Boolean_CompareGreaterThan F left right
   | TINYINT \<Rightarrow> Tinyint_CompareGreaterThan F left right
   | SMALLINT \<Rightarrow> Smallint_CompareGreaterThan F left right
   | INTEGER \<Rightarrow> Integer_CompareGreaterThan F left right
   | BIGINT \<Rightarrow> Bigint_CompareGreaterThan F left right
   | DECIMAL \<Rightarrow> Decimal_CompareGreaterThan F left right
   | VARCHAR \<Rightarrow> Varlen_CompareGreaterThan F left right
   | TIMESTAMP \<Rightarrow> Inl Crash)"

definition Value_CompareGreaterThanEquals :: "double_ops \<Rightarrow> Value \<Rightarrow> Value \<Rightarrow> CmpBool result" where
  "Value_CompareGreaterThanEquals F left right = (case val_type left of
     INVALID \<Rightarrow> Type_CompareGreaterThanEquals left right
   | BOOLEAN \<Rightarrow> Boolean_CompareGreaterThanEquals F left right
   | TINYINT \<Rightarrow> Tinyint_CompareGreaterThanEquals F left right
   | SMALLINT \<Rightarrow> Smallint_CompareGreaterThanEquals F left right
   | INTEGER \<Rightarrow> Integer_CompareGreaterThanEquals F left right
   | BIGINT \<Rightarrow> Bigint_CompareGreaterThanEquals F left right
   | DECIMAL \<Rightarrow> Decimal_CompareGreaterThanEquals F left right
   | VARCHAR \<Rightarrow> Varlen_CompareGreaterThanEquals F left right
   | TIMESTAMP \<Rightarrow> Inl Crash)"

subsection \<open>Minimum and maximum\<close>

definition IntegerParent_Min :: "double_ops \<Rightarrow> Value \<Rightarrow> Value \<Rightarrow> Value result" where
  "IntegerParent_Min F left right = ensure (CheckInteger left \<and> CheckComparable left right)
     (if IsNull left \<or> IsNull right then Value_OperateNull F left right
      else andThen (Value_CompareLessThan F left right) (\<lambda>c.
        if c = CmpTrue then Value_Copy F left else Value_Copy F right))"

definition IntegerParent_Max :: "double_ops \<Rightarrow> Value \<Rightarrow> Value \<Rightarrow> Value result" where
  "IntegerParent_Max F left right = ensure (CheckInteger left \<and> CheckComparable left right)
     (if IsNull left \<or> IsNull right then Value_OperateNull F left right
      else andThen (Value_CompareGreaterThanEquals F left right) (\<lambda>c.
        if c = CmpTrue then Value_Copy F left else Value_Copy F right))"

definition Decimal_Min :: "double_ops \<Rightarrow> Value \<Rightarrow> Value \<Rightarrow> Value result" where
  "Decimal_Min F left right = ensure (CheckComparable left right)
     (if IsNull left \<or> IsNull right then Value_OperateNull F left right
      else andThen (Value_CompareLessThanEquals F left right) (\<lambda>c.
        if c = CmpTrue then Value_Copy F left else Value_Copy F right))"

definition Decimal_Max :: "double_ops \<Rightarrow> Value \<Rightarrow> Value \<Rightarrow> Value result" where
  "Decimal_Max F left right = ensure (CheckComparable left right)
     (if IsNull left \<or> IsNull right then Value_OperateNull F left right
      else andThen (Value_CompareGreaterThanEquals F left right) (\<lambda>c.
        if c = CmpTrue then Value_Copy F left else Value_Copy F right))"

definition Varlen_Min :: "double_ops \<Rightarrow> Value \<Rightarrow> Value \<Rightarrow> Value result" where
  "Varlen_Min F left right = ensure (CheckComparable left right)
     (if IsNull left \<or> IsNull right then Value_OperateNull F left right
      else andThen (Value_CompareLessThan F left right) (\<lambda>c.
        if c = CmpTrue then Value_Copy F left else Value_Copy F right))"

definition Varlen_Max :: "double_ops \<Rightarrow> Value \<Rightarrow> Value \<Rightarrow> Value result" where
  "Varlen_Max F left right = ensure (CheckComparable left right)
     (if IsNull left \<or> IsNull right then Value_OperateNull F left right
      else andThen (Value_CompareGreaterThan F left right) (\<lambda>c.
        if c = CmpTrue then Value_Copy F left else Value_Copy F right))"

definition Value_Min :: "double_ops \<Rightarrow> Value \<Rightarrow> Value \<Rightarrow> Value result" where
  "Value_Min F left right = (case val_type left of
     TINYINT \<Rightarrow> IntegerParent_Min F left right
   | SMALLINT \<Rightarrow> IntegerParent_Min F left right
   | INTEGER \<Rightarrow> IntegerParent_Min F left right
   | BIGINT \<Rightarrow> IntegerParent_Min F left right
   | DECIMAL \<Rightarrow> Decimal_Min F left right
   | VARCHAR \<Rightarrow> Varlen_Min F left right
   | TIMESTAMP \<Rightarrow> Inl Crash
   | _ \<Rightarrow> Type_Min left right)"

definition Value_Max :: "double_ops \<Rightarrow> Value \<Rightarrow> Value \<Rightarrow> Value result" where
  "Value_Max F left right = (case val_type left of
     TINYINT \<Rightarrow> IntegerParent_Max F left right
   | SMALLINT \<Rightarrow> IntegerParent_Max F left right
   | INTEGER \<Rightarrow> IntegerParent_Max F left right
   | BIGINT \<Rightarrow> IntegerParent_Max F left right
   | DECIMAL \<Rightarrow> Decimal_Max F left right
   | VARCHAR \<Rightarrow> Varlen_Max F left right
   | TIMESTAMP \<Rightarrow> Inl Crash
   | _ \<Rightarrow> Type_Max left right)"

subsection \<open>All six comparisons\<close>

fun Value_Compare :: "cmp_op \<Rightarrow> double_ops \<Rightarrow> Value \<Rightarrow> Value \<Rightarrow> CmpBool result" where
  "Value_Compare Eq = Value_CompareEquals"
| "Value_Compare Ne = Value_CompareNotEquals"
| "Value_Compare Lt = Value_CompareLessThan"
| "Value_Compare Le = Value_CompareLessThanEquals"
| "Value_Compare Gt = Value_CompareGreaterThan"
| "Value_Compare Ge = Value_CompareGreaterThanEquals"

lemmas Value_Compare_defs = Value_CompareEquals_def Value_CompareNotEquals_def Value_CompareLessThan_def
  Value_CompareLessThanEquals_def Value_CompareGreaterThan_def Value_CompareGreaterThanEquals_def

lemmas Boolean_Compare_defs = Boolean_CompareEquals_def Boolean_CompareNotEquals_def Boolean_CompareLessThan_def
  Boolean_CompareLessThanEquals_def Boolean_CompareGreaterThan_def Boolean_CompareGreaterThanEquals_def
lemmas Tinyint_Compare_defs = Tinyint_CompareEquals_def Tinyint_CompareNotEquals_def Tinyint_CompareLessThan_def
  Tinyint_CompareLessThanEquals_def Tinyint_CompareGreaterThan_def Tinyint_CompareGreaterThanEquals_def
lemmas Smallint_Compare_defs = Smallint_CompareEquals_def Smallint_CompareNotEquals_def Smallint_CompareLessThan_def
  Smallint_CompareLessThanEquals_def Smallint_CompareGreaterThan_def Smallint_CompareGreaterThanEquals_def
lemmas Integer_Compare_defs = Integer_CompareEquals_def Integer_CompareNotEquals_def Integer_CompareLessThan_def
  Integer_CompareLessThanEquals_def Integer_CompareGreaterThan_def Integer_CompareGreaterThanEquals_def
lemmas Bigint_Compare_defs = Bigint_CompareEquals_def Bigint_CompareNotEquals_def Bigint_CompareLessThan_def
  Bigint_CompareLessThanEquals_def Bigint_CompareGreaterThan_def Bigint_CompareGreaterThanEquals_def
lemmas Decimal_Compare_defs = Decimal_CompareEquals_def Decimal_CompareNotEquals_def Decimal_CompareLessThan_def
  Decimal_CompareLessThanEquals_def Decimal_CompareGreaterThan_def Decimal_CompareGreaterThanEquals_def
lemmas Varlen_Compare_defs = Varlen_CompareEquals_def Varlen_CompareNotEquals_def Varlen_CompareLessThan_def
  Varlen_CompareLessThanEquals_def Varlen_CompareGreaterThan_def Varlen_CompareGreaterThanEquals_def

text \<open>What the six comparisons of a class have in common, per class of the left operand.\<close>

lemma Value_Compare_int:
  assumes "val_type l = type_of T1" "CheckComparable l r"
  shows "Value_Compare op F l r = (if IsNull l \<or> IsNull r then Inr CmpNull
    else (case T1 of int8_t \<Rightarrow> TINYINT_COMPARE_FUNC F op l r | int16_t \<Rightarrow> SMALLINT_COMPARE_FUNC F op l r
      | int32_t \<Rightarrow> INT_COMPARE_FUNC F op l r | int64_t \<Rightarrow> BIGINT_COMPARE_FUNC F op l r))"
proof -
  have "CheckInteger l" using assms(1) by (simp add: CheckInteger_iff)
  with assms show ?thesis
    by (cases op; cases T1) (simp_all add: Value_Compare_defs Tinyint_Compare_defs Smallint_Compare_defs
        Integer_Compare_defs Bigint_Compare_defs)
qed

lemma Value_Compare_other:
  assumes "CheckComparable l r"
  shows "val_type l = BOOLEAN \<Longrightarrow> Value_Compare op F l r =
      (if IsNull l \<or> IsNull r then Inr CmpNull else BOOLEAN_COMPARE_FUNC F op l r)"
    and "val_type l = DECIMAL \<Longrightarrow> Value_Compare op F l r =
      (if IsNull l \<or> IsNull r then Inr CmpNull else DECIMAL_COMPARE_FUNC F op l r)"
    and "val_type l = VARCHAR \<Longrightarrow> Value_Compare op F l r =
      (if IsNull l \<or> IsNull r then Inr CmpNull
       else if val_len l = BUSTUB_VARCHAR_MAX_LEN \<or> val_len r = BUSTUB_VARCHAR_MAX_LEN
       then Inr (GetCmpBool (int_op op (uint (val_len l)) (uint (val_len r))))
       else VARLEN_COMPARE_FUNC F op l r)"
  using assms by (cases op; simp add: Value_Compare_defs Boolean_Compare_defs Decimal_Compare_defs Varlen_Compare_defs)+

lemmas compare_func_defs = TINYINT_COMPARE_FUNC_def SMALLINT_COMPARE_FUNC_def INT_COMPARE_FUNC_def
  BIGINT_COMPARE_FUNC_def

lemma compare_ints:
  assumes "int_ok T1 l" "int_ok T2 r" "\<not> IsNull l" "\<not> IsNull r"
  shows "Value_Compare op F l r = Inr (GetCmpBool (int_op op (GetAs T1 l) (GetAs T2 r)))"
proof -
  note ty = int_okD [OF assms(1), THEN conjunct1] int_okD [OF assms(2), THEN conjunct1]
  show ?thesis unfolding Value_Compare_int [OF ty(1) comparable_ints(2) [OF ty]]
    using assms(3,4) ty by (cases T1; cases T2) (simp_all add: compare_func_defs)
qed

text \<open>The six comparisons of two non-null integers, of any two of the four types, return what the
  comparison of the two numbers returns.\<close>

theorem compare_integers:
  assumes "int_ok T1 l" "int_ok T2 r" "\<not> IsNull l" "\<not> IsNull r"
  shows "Value_Compare op F l r = Inr (GetCmpBool (int_op op (GetAs T1 l) (GetAs T2 r)))"
  by (rule compare_ints [OF assms])

theorem compare_integers_witness:
  "Value_Compare Lt integer_doubles (int_value int64_t 300) (int_value int8_t (- 5)) = Inr CmpFalse"
  using compare_integers [OF int_ok_int_value [of int64_t 300] int_ok_int_value [of int8_t "- 5"], of Lt integer_doubles]
  by (simp add: wrap_def null_of_def GetCmpBool_def)

text \<open>Null propagates: comparing comparable values of which one is null gives \<open>CmpNull\<close> for every
  operator, whatever the other value is, and never fails.\<close>

theorem compare_null:
  assumes "CheckComparable l r" "IsNull l \<or> IsNull r"
  shows "Value_Compare op F l r = Inr CmpNull"
proof (cases "member_of (val_type l)")
  case (Some T)
  then have "val_type l = type_of T" by (cases "val_type l") auto
  with assms show ?thesis by (simp add: Value_Compare_int)
next
  case None
  with assms(1) consider "val_type l = BOOLEAN" | "val_type l = DECIMAL" | "val_type l = VARCHAR"
    by (cases "val_type l") (simp_all add: CheckComparable_def)
  then show ?thesis using assms by cases (simp_all add: Value_Compare_other)
qed

theorem compare_null_witness:
  "Value_Compare Eq integer_doubles (int_value int8_t (- 128)) (str_value ''abc'') = Inr CmpNull"
proof -
  have "CheckComparable (int_value int8_t (- 128)) (str_value ''abc'')"
    by (simp add: CheckComparable_def numeric_or_varchar_def str_value_def new_Value_def)
  moreover have "IsNull (int_value int8_t (- 128))" by (simp add: wrap_def null_of_def)
  ultimately show ?thesis using compare_null by blast
qed

subsection \<open>Strings\<close>

definition char_less :: "(char \<times> char) set" where
  "char_less = {(a, b). (of_char a :: nat) < of_char b}"

text \<open>The order of strings that the comparison computes, as a number whose sign matters.\<close>

definition string_order :: "string \<Rightarrow> string \<Rightarrow> int" where
  "string_order s t = (let n = min (length s) (length t); ret = memcmp (take n s) (take n t) in
     if ret = 0 \<and> length s \<noteq> length t then int (length s) - int (length t) else ret)"

lemma memcmp_same [simp]: "memcmp s s = 0"
  by (induction s) auto

lemma of_char_eq: "(of_char a :: nat) = of_char b \<longleftrightarrow> a = b"
  by (metis char_of_char)

lemma string_order_Cons [simp]:
  "string_order (a # s) (b # t) = (if a = b then string_order s t else int (of_char a) - int (of_char b))"
  by (auto simp: string_order_def Let_def of_char_eq)

lemma string_order_Nil [simp]:
  "string_order [] t = - int (length t)" "string_order s [] = int (length s)"
  by (auto simp: string_order_def)

lemma string_order_lexord:
  "(string_order s t < 0 \<longleftrightarrow> (s, t) \<in> lexord char_less) \<and> (string_order s t = 0 \<longleftrightarrow> s = t)"
proof (induction s arbitrary: t)
  case Nil
  then show ?case by (cases t) auto
next
  case (Cons a s)
  then show ?case by (cases t) (auto simp: char_less_def of_char_eq)
qed

lemma string_order_antisym: "string_order t s = - string_order s t"
proof (induction s arbitrary: t)
  case (Cons a s)
  then show ?case by (cases t) auto
qed simp

lemma sint_len:
  assumes "length s < 2 ^ 31"
  shows "sint (of_nat (length s) + 1 - 1 :: uint32) = int (length s)"
  using assms by (simp add: sint_of_nat_small)

lemma CompareStrings_order:
  "CompareStrings (Some (s @ [c])) (int (length s)) (Some (t @ [d])) (int (length t)) = Inr (string_order s t)"
proof -
  have "min (int (length s)) (int (length t)) = int (min (length s) (length t))" by simp
  moreover have "min (length s) (length t) \<le> Suc (length s)" "min (length s) (length t) \<le> Suc (length t)"
    by simp_all
  ultimately show ?thesis by (simp add: CompareStrings_def string_order_def Let_def del: of_nat_min)
qed

lemma compare_str_values:
  assumes "length s < 2 ^ 31" "length t < 2 ^ 31"
  shows "Value_Compare op F (str_value s) (str_value t) = Inr (GetCmpBool (int_op op (string_order s t) 0))"
proof -
  have len: "length s < 2 ^ 32 - 2" "length t < 2 ^ 32 - 2" using assms by simp_all
  note u = unat_len(3) [OF len(1)] unat_len(3) [OF len(2)]
  note n = ToString_str_value(2,3) [OF len(1)] ToString_str_value(2,3) [OF len(2)]
  have c: "CheckComparable (str_value s) (str_value t)" using n by (simp add: CheckComparable_def)
  have v: "val_varlen (str_value s) = Some (s @ [CHR 0x00])" "val_len (str_value s) = of_nat (length s) + 1" for s
    by (simp_all add: str_value_def new_Value_def)
  show ?thesis
    unfolding Value_Compare_other(3) [OF c n(2)] VARLEN_COMPARE_FUNC_def Let_def v
    using n u sint_len [OF assms(1)] sint_len [OF assms(2)]
    by (simp add: CompareStrings_order BUSTUB_VARCHAR_MAX_LEN_def v)
qed

text \<open>Strings are ordered lexicographically by the values of their bytes: less-than is that strict
  order, equality is equality of the strings, and less-or-equal and greater follow.\<close>

theorem compare_strings:
  assumes "length s < 2 ^ 31" "length t < 2 ^ 31"
  shows "Value_CompareLessThan F (str_value s) (str_value t) = Inr (GetCmpBool ((s, t) \<in> lexord char_less)) \<and>
    Value_CompareEquals F (str_value s) (str_value t) = Inr (GetCmpBool (s = t)) \<and>
    Value_CompareLessThanEquals F (str_value s) (str_value t) =
      Inr (GetCmpBool (s = t \<or> (s, t) \<in> lexord char_less)) \<and>
    Value_CompareGreaterThan F (str_value s) (str_value t) = Inr (GetCmpBool ((t, s) \<in> lexord char_less))"
  using compare_str_values [OF assms, of Lt F] compare_str_values [OF assms, of Eq F]
    compare_str_values [OF assms, of Le F] compare_str_values [OF assms, of Gt F]
    string_order_lexord [of s t] string_order_lexord [of t s] string_order_antisym [of s t]
  by (auto simp: GetCmpBool_def)

theorem compare_strings_witness:
  "Value_CompareLessThan integer_doubles (str_value ''ab'') (str_value ''b'') = Inr CmpTrue"
proof -
  have "(''ab'', ''b'') \<in> lexord char_less" by (simp add: char_less_def of_char_def)
  with compare_strings [of "''ab''" "''b''" integer_doubles] show ?thesis by (simp add: GetCmpBool_def)
qed

subsection \<open>Minimum and maximum of integers\<close>

lemma Value_Copy_int: "int_ok T v \<Longrightarrow> Value_Copy F v = Inr v"
proof -
  assume v: "int_ok T v"
  then have ty: "val_type v = type_of T" using int_okD by blast
  then have "CheckInteger v" by (simp add: CheckInteger_iff)
  with ty int_ok_value [OF v] show ?thesis
    by (cases T) (simp_all add: Value_Copy_def copy_defs)
qed

text \<open>The minimum and the maximum of two non-null integers is one of the two values, unchanged and
  of its own type, and is the smaller and the larger of the two numbers.\<close>

theorem Min_Max_integers:
  assumes "int_ok T1 l" "int_ok T2 r" "\<not> IsNull l" "\<not> IsNull r"
  shows "Value_Min F l r = Inr (if GetAs T1 l < GetAs T2 r then l else r) \<and>
    Value_Max F l r = Inr (if GetAs T1 l \<ge> GetAs T2 r then l else r)"
proof -
  note ty = int_okD [OF assms(1), THEN conjunct1] int_okD [OF assms(2), THEN conjunct1]
  have sel: "Value_Min F l r = IntegerParent_Min F l r" "Value_Max F l r = IntegerParent_Max F l r"
    using ty by (cases T1; simp add: Value_Min_def Value_Max_def)+
  show ?thesis
    using assms(3,4) comparable_ints [OF ty] compare_ints [OF assms, of Lt F] compare_ints [OF assms, of Ge F]
    by (simp add: sel IntegerParent_Min_def IntegerParent_Max_def GetCmpBool_def
        Value_Copy_int [OF assms(1)] Value_Copy_int [OF assms(2)])
qed

theorem Min_Max_integers_witness:
  "Value_Min integer_doubles (int_value int64_t 9) (int_value int8_t 4) = Inr (int_value int8_t 4)"
  using Min_Max_integers [OF int_ok_int_value [of int64_t 9] int_ok_int_value [of int8_t 4], of integer_doubles]
  by (simp add: wrap_def null_of_def)

end
