(* ===== verification/ValueFactory.thy ===== *)
theory ValueFactory
  imports Comparison
begin

section \<open>Timestamps and the value factory\<close>

text \<open>
  \<^verbatim>\<open>type/timestamp_type.cpp\<close> and \<^verbatim>\<open>type/value_factory.h\<close>. A timestamp packs month, day, time zone, year,
  second of the day and microsecond into 64 bits. \<open>parse_timestamp\<close> is the part of \<open>CastAsTimestamp\<close> that
  reads a text; its \<open>sscanf\<close> runs only on a text whose digit positions were checked, where each field
  is exactly its digits. \<open>k_types\<close> has no instance for \<open>TIMESTAMP\<close>: \<open>GetInstance\<close> returns \<^term>\<open>None\<close> there.
\<close>

subsection \<open>The timestamp class\<close>

definition GetInstance :: "TypeId \<Rightarrow> TypeId option" where
  "GetInstance type_id = (if type_id = TIMESTAMP then None else Some type_id)"

definition Timestamp_CompareEquals :: "Value \<Rightarrow> Value \<Rightarrow> CmpBool result" where
  "Timestamp_CompareEquals left right = ensure (CheckComparable left right)
     (if IsNull left \<or> IsNull right then Inr CmpNull
      else Inr (GetCmpBool (int_op Eq (GetAs_uint64 left) (GetAs_uint64 right))))"

definition Timestamp_CompareNotEquals :: "Value \<Rightarrow> Value \<Rightarrow> CmpBool result" where
  "Timestamp_CompareNotEquals left right = ensure (CheckComparable left right)
     (if IsNull right then Inr CmpNull
      else Inr (GetCmpBool (int_op Ne (GetAs_uint64 left) (GetAs_uint64 right))))"

definition Timestamp_CompareLessThan :: "Value \<Rightarrow> Value \<Rightarrow> CmpBool result" where
  "Timestamp_CompareLessThan left right = ensure (CheckComparable left right)
     (if IsNull left \<or> IsNull right then Inr CmpNull
      else Inr (GetCmpBool (int_op Lt (GetAs_uint64 left) (GetAs_uint64 right))))"

definition Timestamp_CompareLessThanEquals :: "Value \<Rightarrow> Value \<Rightarrow> CmpBool result" where
  "Timestamp_CompareLessThanEquals left right = ensure (CheckComparable left right)
     (if IsNull left \<or> IsNull right then Inr CmpNull
      else Inr (GetCmpBool (int_op Le (GetAs_uint64 left) (GetAs_uint64 right))))"

definition Timestamp_CompareGreaterThan :: "Value \<Rightarrow> Value \<Rightarrow> CmpBool result" where
  "Timestamp_CompareGreaterThan left right = ensure (CheckComparable left right)
     (if IsNull left \<or> IsNull right then Inr CmpNull
      else Inr (GetCmpBool (int_op Gt (GetAs int64_t left) (GetAs int64_t right))))"

definition Timestamp_CompareGreaterThanEquals :: "Value \<Rightarrow> Value \<Rightarrow> CmpBool result" where
  "Timestamp_CompareGreaterThanEquals left right = ensure (CheckComparable left right)
     (if IsNull left \<or> IsNull right then Inr CmpNull
      else Inr (GetCmpBool (int_op Ge (GetAs_uint64 left) (GetAs_uint64 right))))"

definition Timestamp_Min :: "double_ops \<Rightarrow> Value \<Rightarrow> Value \<Rightarrow> Value result" where
  "Timestamp_Min F left right = ensure (CheckComparable left right)
     (if IsNull left \<or> IsNull right then Value_OperateNull F left right
      else andThen (Value_CompareLessThan F left right) (\<lambda>c.
        if c = CmpTrue then Value_Copy F left else Value_Copy F right))"

definition Timestamp_Max :: "double_ops \<Rightarrow> Value \<Rightarrow> Value \<Rightarrow> Value result" where
  "Timestamp_Max F left right = ensure (CheckComparable left right)
     (if IsNull left \<or> IsNull right then Value_OperateNull F left right
      else andThen (Value_CompareGreaterThanEquals F left right) (\<lambda>c.
        if c = CmpTrue then Value_Copy F left else Value_Copy F right))"

text \<open>\<open>sprintf\<close> with a zero-padded width.\<close>

definition padded :: "nat \<Rightarrow> nat \<Rightarrow> string" where
  "padded w n = (let s = nat_to_string n in replicate (w - length s) (CHR 0x30) @ s)"

definition format_timestamp :: "nat \<Rightarrow> nat \<Rightarrow> nat \<Rightarrow> nat \<Rightarrow> nat \<Rightarrow> nat \<Rightarrow> nat \<Rightarrow> int \<Rightarrow> string" where
  "format_timestamp year month day hour minute sec micro tz =
     padded 4 year @ ''-'' @ padded 2 month @ ''-'' @ padded 2 day @ '' '' @ padded 2 hour @ '':'' @
     padded 2 minute @ '':'' @ padded 2 sec @ ''.'' @ padded 6 micro @
     (if tz \<ge> 0 then ''+'' else ''-'') @ padded 2 (nat \<bar>tz\<bar>)"

definition Timestamp_ToString :: "Value \<Rightarrow> string result" where
  "Timestamp_ToString val = (if IsNull val then Inr ''timestamp_null''
     else (let tm = unat (val_raw val);
          micro = tm mod 1000000; tm = tm div 1000000;
          second = tm mod 100000;
          sec = second mod 60; second = second div 60;
          minute = second mod 60; second = second div 60;
          hour = second mod 24;
          tm = tm div 100000;
          year = tm mod 10000; tm = tm div 10000;
          tz = int (tm mod 27) - 12; tm = tm div 27;
          day = tm mod 32; tm = tm div 32;
          month = tm
        in Inr (format_timestamp year month day hour minute sec micro tz)))"

definition Timestamp_SerializeTo :: "Value \<Rightarrow> bytes result" where
  "Timestamp_SerializeTo val = Inr (le_bytes 8 (val_raw val))"

definition Timestamp_DeserializeFrom :: "bytes \<Rightarrow> Value result" where
  "Timestamp_DeserializeFrom storage =
     ensure (8 \<le> length storage) (Value_uint64 TIMESTAMP (uint (le_word (take 8 storage))))"

definition Timestamp_Copy :: "Value \<Rightarrow> Value result" where
  "Timestamp_Copy val = Inr (Value_copy val)"

subsection \<open>The factory\<close>

definition GetTinyIntValue :: "int \<Rightarrow> Value result" where
  "GetTinyIntValue value = Value_int8 TINYINT value"

definition GetSmallIntValue :: "int \<Rightarrow> Value result" where
  "GetSmallIntValue value = Value_int16 SMALLINT value"

definition GetIntegerValue :: "int \<Rightarrow> Value result" where
  "GetIntegerValue value = Value_int32 INTEGER value"

definition GetBigIntValue :: "int \<Rightarrow> Value result" where
  "GetBigIntValue value = Value_int64 BIGINT value"

definition GetTimestampValue :: "int \<Rightarrow> Value result" where
  "GetTimestampValue value = Value_int64 TIMESTAMP value"

definition GetDecimalValue :: "double_ops \<Rightarrow> double \<Rightarrow> Value result" where
  "GetDecimalValue F value = Value_double F DECIMAL value"

definition GetBooleanValue_Cmp :: "CmpBool \<Rightarrow> Value result" where
  "GetBooleanValue_Cmp value = Value_int8 BOOLEAN
     (case value of CmpNull \<Rightarrow> BUSTUB_BOOLEAN_NULL | CmpTrue \<Rightarrow> 1 | CmpFalse \<Rightarrow> 0)"

definition GetBooleanValue :: "int \<Rightarrow> Value result" where
  "GetBooleanValue value = Value_int8 BOOLEAN value"

text \<open>\<open>strlen\<close> of the memory at the pointer; without a terminator it reads past the end.\<close>

definition GetVarcharValue_ptr :: "string option \<Rightarrow> bool \<Rightarrow> Value result" where
  "GetVarcharValue_ptr value manage_data = (case value of
     None \<Rightarrow> Value_varlen VARCHAR None 0 manage_data
   | Some s \<Rightarrow> ensure (CHR 0x00 \<in> set s)
       (Value_varlen VARCHAR (Some s) (of_nat (length (takeWhile (\<lambda>c. c \<noteq> CHR 0x00) s) + 1)) manage_data))"

definition GetVarcharValue :: "string \<Rightarrow> Value result" where
  "GetVarcharValue value = Value_string VARCHAR value"

text \<open>\<open>ToString\<close> of the instance for a type id, on a value that may have another type.\<close>

definition instance_ToString :: "double_ops \<Rightarrow> TypeId \<Rightarrow> Value \<Rightarrow> string result" where
  "instance_ToString F type_id val = (case type_id of
     INVALID \<Rightarrow> Type_ToString val
   | BOOLEAN \<Rightarrow> Boolean_ToString val
   | TINYINT \<Rightarrow> Tinyint_ToString val
   | SMALLINT \<Rightarrow> Smallint_ToString val
   | INTEGER \<Rightarrow> Integer_ToString val
   | BIGINT \<Rightarrow> Bigint_ToString val
   | DECIMAL \<Rightarrow> Decimal_ToString F val
   | VARCHAR \<Rightarrow> Varlen_ToString val
   | TIMESTAMP \<Rightarrow> Inl Crash)"

definition Timestamp_CastAs :: "double_ops \<Rightarrow> Value \<Rightarrow> TypeId \<Rightarrow> Value result" where
  "Timestamp_CastAs F val type_id = (case type_id of
     TIMESTAMP \<Rightarrow> Timestamp_Copy val
   | VARCHAR \<Rightarrow> if IsNull val then GetVarcharValue_ptr None False
       else andThen (Value_ToString F val) GetVarcharValue
   | _ \<Rightarrow> andThen (instance_ToString F type_id val) (\<lambda>s. throw_msg (''TIMESTAMP is not coercable to '' @ s)))"

definition GetNullValueByType :: "double_ops \<Rightarrow> TypeId \<Rightarrow> Value result" where
  "GetNullValueByType F type_id = (case type_id of
     BOOLEAN \<Rightarrow> GetBooleanValue BUSTUB_BOOLEAN_NULL
   | TINYINT \<Rightarrow> GetTinyIntValue BUSTUB_INT8_NULL
   | SMALLINT \<Rightarrow> GetSmallIntValue BUSTUB_INT16_NULL
   | INTEGER \<Rightarrow> GetIntegerValue BUSTUB_INT32_NULL
   | BIGINT \<Rightarrow> GetBigIntValue BUSTUB_INT64_NULL
   | DECIMAL \<Rightarrow> GetDecimalValue F (DBL_LOWEST F)
   | VARCHAR \<Rightarrow> GetVarcharValue_ptr None False
   | _ \<Rightarrow> throw E_UNKNOWN_TYPE ''Attempting to create invalid null type'')"

definition GetZeroValueByType :: "double_ops \<Rightarrow> TypeId \<Rightarrow> Value result" where
  "GetZeroValueByType F type_id = (case type_id of
     BOOLEAN \<Rightarrow> GetBooleanValue 0
   | TINYINT \<Rightarrow> GetTinyIntValue 0
   | SMALLINT \<Rightarrow> GetSmallIntValue 0
   | INTEGER \<Rightarrow> GetIntegerValue 0
   | BIGINT \<Rightarrow> GetBigIntValue 0
   | DECIMAL \<Rightarrow> GetDecimalValue F (d_of_int F 0)
   | VARCHAR \<Rightarrow> GetVarcharValue ''0''
   | _ \<Rightarrow> throw E_UNKNOWN_TYPE ''Unknown type for GetZeroValueType'')"

subsection \<open>Casts of the factory\<close>

text \<open>The exception of a value that cannot be cast, and the rethrown exceptions of the conversions.\<close>

definition not_coercable :: "double_ops \<Rightarrow> Value \<Rightarrow> string \<Rightarrow> Value result" where
  "not_coercable F value target = andThen (Value_ToString F value) (\<lambda>s. throw_msg (s @ '' is not coercable to '' @ target @ ''.''))"

definition catch_conversion :: "string \<Rightarrow> string \<Rightarrow> 'a result \<Rightarrow> 'a result" where
  "catch_conversion what str m = (case m of
     Inl StdOutOfRange \<Rightarrow> throw_range
   | Inl StdInvalidArgument \<Rightarrow> throw_msg (''Invalid input syntax for '' @ what @ '': '' @ [CHR 0x27] @ str @ [CHR 0x27])
   | _ \<Rightarrow> m)"

definition CastAsBigInt :: "double_ops \<Rightarrow> Value \<Rightarrow> Value result" where
  "CastAsBigInt F value = (if IsCoercableFrom BIGINT (val_type value) then
       if IsNull value then GetBigIntValue BUSTUB_INT64_NULL
       else (case val_type value of
          TINYINT \<Rightarrow> GetBigIntValue (GetAs int8_t value)
        | SMALLINT \<Rightarrow> GetBigIntValue (GetAs int16_t value)
        | INTEGER \<Rightarrow> GetBigIntValue (GetAs int32_t value)
        | BIGINT \<Rightarrow> GetBigIntValue (GetAs int64_t value)
        | DECIMAL \<Rightarrow> narrow_double F BUSTUB_INT64_MIN BUSTUB_INT64_MAX (GetAs_double value)
          (GetBigIntValue (wrap 64 (d_to_int F (GetAs_double value))))
        | VARCHAR \<Rightarrow> andThen (Value_ToString F value) (\<lambda>str.
          andThen (catch_conversion ''bigint'' str (stoll str)) (\<lambda>i. if i > BUSTUB_INT64_MAX \<or> i < BUSTUB_INT64_MIN then throw_range else GetBigIntValue i))
        | _ \<Rightarrow> not_coercable F value ''BIGINT'')
     else not_coercable F value ''BIGINT'')"

definition CastAsInteger :: "double_ops \<Rightarrow> Value \<Rightarrow> Value result" where
  "CastAsInteger F value = (if IsCoercableFrom INTEGER (val_type value) then
       if IsNull value then GetIntegerValue BUSTUB_INT32_NULL
       else (case val_type value of
          TINYINT \<Rightarrow> GetIntegerValue (GetAs int8_t value)
        | SMALLINT \<Rightarrow> GetIntegerValue (GetAs int16_t value)
        | INTEGER \<Rightarrow> GetIntegerValue (GetAs int32_t value)
        | BIGINT \<Rightarrow> narrow BUSTUB_INT32_MIN BUSTUB_INT32_MAX (GetAs int64_t value) (GetIntegerValue (wrap 32 (GetAs int64_t value)))
        | DECIMAL \<Rightarrow> narrow_double F BUSTUB_INT32_MIN BUSTUB_INT32_MAX (GetAs_double value)
          (GetIntegerValue (wrap 32 (d_to_int F (GetAs_double value))))
        | VARCHAR \<Rightarrow> andThen (Value_ToString F value) (\<lambda>str.
          andThen (catch_conversion ''integer'' str (stoi str)) (\<lambda>i. GetIntegerValue i))
        | _ \<Rightarrow> not_coercable F value ''INTEGER'')
     else not_coercable F value ''INTEGER'')"

definition CastAsSmallInt :: "double_ops \<Rightarrow> Value \<Rightarrow> Value result" where
  "CastAsSmallInt F value = (if IsCoercableFrom SMALLINT (val_type value) then
       if IsNull value then GetSmallIntValue BUSTUB_INT16_NULL
       else (case val_type value of
          TINYINT \<Rightarrow> GetSmallIntValue (GetAs int8_t value)
        | SMALLINT \<Rightarrow> GetSmallIntValue (GetAs int16_t value)
        | INTEGER \<Rightarrow> narrow BUSTUB_INT16_MIN BUSTUB_INT16_MAX (GetAs int32_t value) (GetSmallIntValue (wrap 16 (GetAs int32_t value)))
        | BIGINT \<Rightarrow> narrow BUSTUB_INT16_MIN BUSTUB_INT16_MAX (GetAs int64_t value) (GetSmallIntValue (wrap 16 (GetAs int64_t value)))
        | DECIMAL \<Rightarrow> narrow_double F BUSTUB_INT16_MIN BUSTUB_INT16_MAX (GetAs_double value)
          (GetSmallIntValue (wrap 16 (d_to_int F (GetAs_double value))))
        | VARCHAR \<Rightarrow> andThen (Value_ToString F value) (\<lambda>str.
          andThen (catch_conversion ''smallint'' str (stoi str)) (\<lambda>i. let smallint = wrap 16 i in
            if smallint < BUSTUB_INT16_MIN then throw_range else GetSmallIntValue smallint))
        | _ \<Rightarrow> not_coercable F value ''SMALLINT'')
     else not_coercable F value ''SMALLINT'')"

definition CastAsTinyInt :: "double_ops \<Rightarrow> Value \<Rightarrow> Value result" where
  "CastAsTinyInt F value = (if IsCoercableFrom TINYINT (val_type value) then
       if IsNull value then GetTinyIntValue BUSTUB_INT8_NULL
       else (case val_type value of
          TINYINT \<Rightarrow> GetTinyIntValue (GetAs int8_t value)
        | SMALLINT \<Rightarrow> narrow BUSTUB_INT8_MIN BUSTUB_INT8_MAX (GetAs int16_t value) (GetTinyIntValue (wrap 8 (GetAs int16_t value)))
        | INTEGER \<Rightarrow> narrow BUSTUB_INT8_MIN BUSTUB_INT8_MAX (GetAs int32_t value) (GetTinyIntValue (wrap 8 (GetAs int32_t value)))
        | BIGINT \<Rightarrow> narrow BUSTUB_INT8_MIN BUSTUB_INT8_MAX (GetAs int64_t value) (GetTinyIntValue (wrap 8 (GetAs int64_t value)))
        | DECIMAL \<Rightarrow> narrow_double F BUSTUB_INT8_MIN BUSTUB_INT8_MAX (GetAs_double value)
          (GetTinyIntValue (wrap 8 (d_to_int F (GetAs_double value))))
        | VARCHAR \<Rightarrow> andThen (Value_ToString F value) (\<lambda>str.
          andThen (catch_conversion ''tinyint'' str (stoi str)) (\<lambda>i. let tinyint = wrap 8 i in
            if tinyint < BUSTUB_INT8_MIN then throw_range else GetTinyIntValue tinyint))
        | _ \<Rightarrow> not_coercable F value ''TINYINT'')
     else not_coercable F value ''TINYINT'')"

definition CastAsDecimal :: "double_ops \<Rightarrow> Value \<Rightarrow> Value result" where
  "CastAsDecimal F value = (if IsCoercableFrom DECIMAL (val_type value) then
       if IsNull value then GetDecimalValue F (DBL_LOWEST F)
       else (case val_type value of
          TINYINT \<Rightarrow> GetDecimalValue F (d_of_int F (GetAs int8_t value))
        | SMALLINT \<Rightarrow> GetDecimalValue F (d_of_int F (GetAs int16_t value))
        | INTEGER \<Rightarrow> GetDecimalValue F (d_of_int F (GetAs int32_t value))
        | BIGINT \<Rightarrow> GetDecimalValue F (d_of_int F (GetAs int64_t value))
        | DECIMAL \<Rightarrow> GetDecimalValue F (GetAs_double value)
        | VARCHAR \<Rightarrow> andThen (Value_ToString F value) (\<lambda>str.
          andThen (catch_conversion ''decimal'' str (d_stod F str)) (\<lambda>res.
            if d_lt F (DBL_MAX F) res \<or> d_lt F res (FLT_LOWEST F) then throw_range else GetDecimalValue F res))
        | _ \<Rightarrow> not_coercable F value ''DECIMAL'')
     else not_coercable F value ''DECIMAL'')"

definition CastAsVarchar :: "double_ops \<Rightarrow> Value \<Rightarrow> Value result" where
  "CastAsVarchar F value = (if IsCoercableFrom VARCHAR (val_type value) then
       if IsNull value then GetVarcharValue_ptr None False
       else if val_type value = TIMESTAMP then not_coercable F value ''VARCHAR''
       else andThen (Value_ToString F value) GetVarcharValue
     else not_coercable F value ''VARCHAR'')"

definition CastAsBoolean :: "double_ops \<Rightarrow> Value \<Rightarrow> Value result" where
  "CastAsBoolean F value = (if IsCoercableFrom BOOLEAN (val_type value) then
       if IsNull value then GetBooleanValue BUSTUB_BOOLEAN_NULL
       else (case val_type value of
          BOOLEAN \<Rightarrow> GetBooleanValue (GetAs int8_t value)
        | VARCHAR \<Rightarrow> andThen (Value_ToString F value) (\<lambda>str. let str = map tolower str in
            if str = ''true'' \<or> str = ''1'' \<or> str = ''t'' then GetBooleanValue 1
            else if str = ''false'' \<or> str = ''0'' \<or> str = ''f'' then GetBooleanValue 0
            else throw_msg ''Boolean value format error.'')
        | _ \<Rightarrow> not_coercable F value ''BOOLEAN'')
     else not_coercable F value ''BOOLEAN'')"

subsection \<open>Timestamps from text\<close>

definition is_digit :: "bool list" where
  "is_digit = [True, True, True, True, False, True, True, False, True, True, False, True, True, False,
     True, True, False, True, True, False, True, True, True, True, True, True, False, True, True]"

definition well_formatted :: "string \<Rightarrow> bool" where
  "well_formatted str \<longleftrightarrow> length str = 29 \<and>
     str ! 10 = CHR 0x20 \<and> str ! 4 = CHR 0x2D \<and> str ! 7 = CHR 0x2D \<and> str ! 13 = CHR 0x3A \<and>
     str ! 16 = CHR 0x3A \<and> str ! 19 = CHR 0x2E \<and> (str ! 26 = CHR 0x2B \<or> str ! 26 = CHR 0x2D) \<and>
     list_all (\<lambda>(b, c). b \<longrightarrow> isdigit c) (zip is_digit str)"

definition field :: "string \<Rightarrow> nat \<Rightarrow> nat \<Rightarrow> nat" where
  "field str pos n = digits_value 0 (take n (drop pos str))"

definition max_day :: "nat list" where
  "max_day = [0, 31, 28, 31, 30, 31, 30, 31, 31, 30, 31, 30, 31]"

definition max_day_lunar :: "nat list" where
  "max_day_lunar = [0, 31, 29, 31, 30, 31, 30, 31, 31, 30, 31, 30, 31]"

definition pack_timestamp :: "nat \<Rightarrow> nat \<Rightarrow> nat \<Rightarrow> nat \<Rightarrow> nat \<Rightarrow> nat \<Rightarrow> nat \<Rightarrow> uint32 \<Rightarrow> 64 word" where
  "pack_timestamp year month day hour minute sec micro timezone =
     ((((of_nat month * 32 + of_nat day) * 27 + ucast timezone) * 10000 + of_nat year) * 100000 +
       of_nat (hour * 3600 + minute * 60 + sec)) * 1000000 + of_nat micro"

definition parse_timestamp :: "string \<Rightarrow> Value result" where
  "parse_timestamp str =
     (let str = (if length str = 22 then take 19 str @ ''.000000'' @ take 3 (drop 19 str) else str) in
      if \<not> well_formatted str then throw_msg ''Timestamp format error.''
      else
        (let year = field str 0 4; month = field str 5 2; day = field str 8 2; hour = field str 11 2;
             minute = field str 14 2; sec = field str 17 2; micro = field str 20 6;
             tz = (if str ! 26 = CHR 0x2D then - int (field str 27 2) else int (field str 27 2)) in
         if year > 9999 \<or> month > 12 \<or> day > 31 \<or> hour > 23 \<or> minute > 59 \<or> sec > 59 \<or> micro > 999999 \<or>
           day = 0 \<or> month = 0 then throw E_OUT_OF_RANGE ''Timestamp value out of range.''
         else if (if (year mod 4 = 0 \<and> year mod 100 \<noteq> 0) \<or> year mod 400 = 0
             then day > max_day_lunar ! month else day > max_day ! month)
           then throw E_OUT_OF_RANGE ''Timestamp value out of range.''
         else if tz > 26 then throw_msg ''Timestamp format error.''
         else GetTimestampValue (sint (pack_timestamp year month day hour minute sec micro (word_of_int (tz + 12))))))"

definition CastAsTimestamp :: "double_ops \<Rightarrow> Value \<Rightarrow> Value result" where
  "CastAsTimestamp F value = (case GetInstance TIMESTAMP of
     None \<Rightarrow> Inl Crash
   | Some self \<Rightarrow>
      if IsCoercableFrom self (val_type value) then
        if IsNull value then GetTimestampValue (- 1)
        else (case val_type value of
           TIMESTAMP \<Rightarrow> GetTimestampValue (GetAs int64_t value)
         | VARCHAR \<Rightarrow> andThen (Value_ToString F value) parse_timestamp
         | _ \<Rightarrow> not_coercable F value ''TIMESTAMP'')
      else not_coercable F value ''TIMESTAMP'')"

subsection \<open>Text round trip of timestamps\<close>

lemma digit_zero: "isdigit (CHR 0x30)" "digit_value (CHR 0x30) = 0"
  by (simp_all add: isdigit_def digit_value_def of_char_def)

lemma digits_value_zeros: "digits_value 0 (replicate n (CHR 0x30) @ s) = digits_value 0 s"
  by (induction n) (simp_all add: digit_zero)

lemma padded_digits:
  assumes "n < 10 ^ w" "0 < w"
  shows "length (padded w n) = w" "\<forall>c\<in>set (padded w n). isdigit c" "digits_value 0 (padded w n) = n"
  using nat_to_string_digits [of n] nat_to_string_length [OF assms]
  by (auto simp: padded_def Let_def digits_value_zeros digit_zero)

lemma padded_2:
  assumes "n < 100"
  obtains a b where "padded 2 n = [a, b]" "isdigit a" "isdigit b" "digits_value 0 [a, b] = n"
proof -
  have *: "length (padded 2 n) = 2" "\<forall>c\<in>set (padded 2 n). isdigit c" "digits_value 0 (padded 2 n) = n"
    using padded_digits [of n 2] assms by simp_all
  then obtain a b where "padded 2 n = [a, b]" by (auto simp: length_Suc_conv numeral_eq_Suc)
  with * that show ?thesis by auto
qed

lemma padded_4:
  assumes "n < 10000"
  obtains a b c d where "padded 4 n = [a, b, c, d]" "isdigit a" "isdigit b" "isdigit c" "isdigit d"
    "digits_value 0 [a, b, c, d] = n"
proof -
  have *: "length (padded 4 n) = 4" "\<forall>c\<in>set (padded 4 n). isdigit c" "digits_value 0 (padded 4 n) = n"
    using padded_digits [of n 4] assms by simp_all
  then obtain a b c d where "padded 4 n = [a, b, c, d]" by (auto simp: length_Suc_conv numeral_eq_Suc)
  with * that show ?thesis by auto
qed

lemma padded_6:
  assumes "n < 1000000"
  obtains a b c d e f where "padded 6 n = [a, b, c, d, e, f]" "isdigit a" "isdigit b" "isdigit c"
    "isdigit d" "isdigit e" "isdigit f" "digits_value 0 [a, b, c, d, e, f] = n"
proof -
  have *: "length (padded 6 n) = 6" "\<forall>c\<in>set (padded 6 n). isdigit c" "digits_value 0 (padded 6 n) = n"
    using padded_digits [of n 6] assms by simp_all
  then obtain a b c d e f where "padded 6 n = [a, b, c, d, e, f]"
    by (auto simp: length_Suc_conv numeral_eq_Suc)
  with * that show ?thesis by auto
qed

text \<open>A formatted timestamp passes the format check, and the fields read from it are the numbers.\<close>

lemma format_fields:
  assumes "year < 10000" "month < 100" "day < 100" "hour < 100" "minute < 100" "sec < 100"
    "micro < 1000000" "\<bar>tz\<bar> < 100"
  defines "str \<equiv> format_timestamp year month day hour minute sec micro tz"
  shows "well_formatted str" "field str 0 4 = year" "field str 5 2 = month" "field str 8 2 = day"
    "field str 11 2 = hour" "field str 14 2 = minute" "field str 17 2 = sec" "field str 20 6 = micro"
    "field str 27 2 = nat \<bar>tz\<bar>" "str ! 26 = (if tz \<ge> 0 then CHR 0x2B else CHR 0x2D)"
proof -
  obtain y1 y2 y3 y4 where y: "padded 4 year = [y1, y2, y3, y4]" "isdigit y1" "isdigit y2" "isdigit y3" "isdigit y4"
    "digits_value 0 [y1, y2, y3, y4] = year" using assms(1) by (rule padded_4)
  obtain m1 m2 where m: "padded 2 month = [m1, m2]" "isdigit m1" "isdigit m2" "digits_value 0 [m1, m2] = month"
    using assms(2) by (rule padded_2)
  obtain d1 d2 where d: "padded 2 day = [d1, d2]" "isdigit d1" "isdigit d2" "digits_value 0 [d1, d2] = day"
    using assms(3) by (rule padded_2)
  obtain h1 h2 where h: "padded 2 hour = [h1, h2]" "isdigit h1" "isdigit h2" "digits_value 0 [h1, h2] = hour"
    using assms(4) by (rule padded_2)
  obtain i1 i2 where i: "padded 2 minute = [i1, i2]" "isdigit i1" "isdigit i2" "digits_value 0 [i1, i2] = minute"
    using assms(5) by (rule padded_2)
  obtain s1 s2 where s: "padded 2 sec = [s1, s2]" "isdigit s1" "isdigit s2" "digits_value 0 [s1, s2] = sec"
    using assms(6) by (rule padded_2)
  obtain u1 u2 u3 u4 u5 u6 where u: "padded 6 micro = [u1, u2, u3, u4, u5, u6]" "isdigit u1" "isdigit u2"
    "isdigit u3" "isdigit u4" "isdigit u5" "isdigit u6" "digits_value 0 [u1, u2, u3, u4, u5, u6] = micro"
    using assms(7) by (rule padded_6)
  have "nat \<bar>tz\<bar> < 100" using assms(8) by simp
  then obtain z1 z2 where z: "padded 2 (nat \<bar>tz\<bar>) = [z1, z2]" "isdigit z1" "isdigit z2"
    "digits_value 0 [z1, z2] = nat \<bar>tz\<bar>" by (rule padded_2)
  have str: "str = [y1, y2, y3, y4, CHR 0x2D, m1, m2, CHR 0x2D, d1, d2, CHR 0x20, h1, h2, CHR 0x3A, i1, i2,
      CHR 0x3A, s1, s2, CHR 0x2E, u1, u2, u3, u4, u5, u6, if tz \<ge> 0 then CHR 0x2B else CHR 0x2D, z1, z2]"
    by (simp add: str_def format_timestamp_def y(1) m(1) d(1) h(1) i(1) s(1) u(1) z(1))
  show "well_formatted str"
    using y m d h i s u z by (simp add: str well_formatted_def is_digit_def)
  show "field str 0 4 = year" "field str 5 2 = month" "field str 8 2 = day" "field str 11 2 = hour"
    "field str 14 2 = minute" "field str 17 2 = sec" "field str 20 6 = micro" "field str 27 2 = nat \<bar>tz\<bar>"
    using y(6) m(4) d(4) h(4) i(4) s(4) u(8) z(4) by (simp_all add: str field_def)
  show "str ! 26 = (if tz \<ge> 0 then CHR 0x2B else CHR 0x2D)" by (simp add: str)
qed

definition valid_timestamp :: "nat \<Rightarrow> nat \<Rightarrow> nat \<Rightarrow> nat \<Rightarrow> nat \<Rightarrow> nat \<Rightarrow> nat \<Rightarrow> int \<Rightarrow> bool" where
  "valid_timestamp year month day hour minute sec micro tz \<longleftrightarrow>
     year \<le> 9999 \<and> 1 \<le> month \<and> month \<le> 12 \<and> 1 \<le> day \<and>
     day \<le> (if (year mod 4 = 0 \<and> year mod 100 \<noteq> 0) \<or> year mod 400 = 0
       then max_day_lunar ! month else max_day ! month) \<and>
     hour \<le> 23 \<and> minute \<le> 59 \<and> sec \<le> 59 \<and> micro \<le> 999999 \<and> - 12 \<le> tz \<and> tz \<le> 14"

lemma valid_day: "valid_timestamp y m d h i s u tz \<Longrightarrow> d \<le> 31"
proof -
  assume v: "valid_timestamp y m d h i s u tz"
  have "list_all (\<lambda>k. k \<le> 31) max_day" "list_all (\<lambda>k. k \<le> 31) max_day_lunar"
    by (simp_all add: max_day_def max_day_lunar_def)
  moreover have "m < length max_day" "m < length max_day_lunar"
    using v by (auto simp: valid_timestamp_def max_day_def max_day_lunar_def)
  ultimately have "max_day ! m \<le> 31" "max_day_lunar ! m \<le> 31" by (auto simp: list_all_length)
  with v show ?thesis by (auto simp: valid_timestamp_def split: if_splits)
qed

lemma horner: "b < k \<Longrightarrow> (a * k + b) div k = (a :: nat)" "b < k \<Longrightarrow> (a * k + b) mod k = (b :: nat)"
  by simp_all

definition packed :: "nat \<Rightarrow> nat \<Rightarrow> nat \<Rightarrow> nat \<Rightarrow> nat \<Rightarrow> nat \<Rightarrow> nat" where
  "packed month day z year second micro =
     ((((month * 32 + day) * 27 + z) * 10000 + year) * 100000 + second) * 1000000 + micro"

lemma packed_bound:
  assumes "month \<le> 12" "day \<le> 31" "z \<le> 26" "year \<le> 9999" "second \<le> 86399" "micro \<le> 999999"
  shows "packed month day z year second micro < 2 ^ 64 - 1"
proof -
  have "packed month day z year second micro \<le> packed 12 31 26 9999 86399 999999"
    unfolding packed_def using assms by (intro add_mono mult_mono) auto
  then show ?thesis by (simp add: packed_def)
qed

lemma second_fields:
  fixes hour minute sec :: nat
  assumes "minute \<le> 59" "sec \<le> 59"
  shows "(hour * 3600 + minute * 60 + sec) mod 60 = sec"
    "(hour * 3600 + minute * 60 + sec) div 60 mod 60 = minute"
    "(hour * 3600 + minute * 60 + sec) div 60 div 60 = hour"
proof -
  have e: "hour * 3600 + minute * 60 + sec = (hour * 60 + minute) * 60 + sec" by simp
  show "(hour * 3600 + minute * 60 + sec) mod 60 = sec"
    unfolding e using assms by (intro horner) simp
  have "(hour * 3600 + minute * 60 + sec) div 60 = hour * 60 + minute"
    unfolding e using assms by (intro horner) simp
  then show "(hour * 3600 + minute * 60 + sec) div 60 mod 60 = minute"
    "(hour * 3600 + minute * 60 + sec) div 60 div 60 = hour"
    using assms horner [of minute 60 hour] by simp_all
qed

lemma ToString_packed:
  assumes v: "valid_timestamp year month day hour minute sec micro tz"
    and N: "unat (val_raw val) = packed month day (nat (tz + 12)) year (hour * 3600 + minute * 60 + sec) micro"
    and nn: "\<not> IsNull val"
  shows "Timestamp_ToString val = Inr (format_timestamp year month day hour minute sec micro tz)"
proof -
  define second where "second = hour * 3600 + minute * 60 + sec"
  define n1 where "n1 = month * 32 + day"
  define n2 where "n2 = n1 * 27 + nat (tz + 12)"
  define n3 where "n3 = n2 * 10000 + year"
  define n4 where "n4 = n3 * 100000 + second"
  have b: "day < 32" "nat (tz + 12) < 27" "year < 10000" "second < 100000" "micro < 1000000"
    using v valid_day [OF v] by (auto simp: valid_timestamp_def second_def)
  have n: "unat (val_raw val) = n4 * 1000000 + micro"
    by (simp add: N packed_def n1_def n2_def n3_def n4_def second_def)
  have h4: "(n4 * 1000000 + micro) div 1000000 = n4" "(n4 * 1000000 + micro) mod 1000000 = micro"
    using horner [OF b(5), of n4] by simp_all
  have h3: "n4 div 100000 = n3" "n4 mod 100000 = second"
    using horner [OF b(4), of n3] by (simp_all add: n4_def)
  have h2: "n3 div 10000 = n2" "n3 mod 10000 = year"
    using horner [OF b(3), of n2] by (simp_all add: n3_def)
  have h1: "n2 div 27 = n1" "n2 mod 27 = nat (tz + 12)"
    using horner [OF b(2), of n1] by (simp_all add: n2_def)
  have h0: "n1 div 32 = month" "n1 mod 32 = day"
    using horner [OF b(1), of month] by (simp_all add: n1_def)
  have s: "second mod 60 = sec" "second div 60 mod 60 = minute" "second div 60 div 60 mod 24 = hour"
    using v second_fields [of minute sec hour] by (simp_all add: second_def valid_timestamp_def)
  have z: "int (nat (tz + 12)) - 12 = tz" using v by (simp add: valid_timestamp_def)
  show ?thesis
    using nn by (simp only: Timestamp_ToString_def Let_def n h4 h3 h2 h1 h0 s z if_False)
qed

lemma pack_unat:
  assumes v: "valid_timestamp year month day hour minute sec micro tz"
  defines "w \<equiv> pack_timestamp year month day hour minute sec micro (word_of_int (tz + 12))"
    and "N \<equiv> packed month day (nat (tz + 12)) year (hour * 3600 + minute * 60 + sec) micro"
  shows "unat w = N" "N < 2 ^ 64 - 1"
proof -
  have z: "nat (tz + 12) \<le> 26" "0 \<le> tz + 12" using v by (auto simp: valid_timestamp_def)
  show b: "N < 2 ^ 64 - 1" unfolding N_def
    using v valid_day [OF v] z by (intro packed_bound) (auto simp: valid_timestamp_def)
  obtain k where k: "tz + 12 = int k" "k \<le> 26" using z by (metis nat_0_le)
  then have "unat (ucast (of_nat k :: uint32) :: 64 word) = unat (of_nat k :: 64 word)"
    by (simp add: unat_ucast_up unat_of_nat_small)
  then have "ucast (word_of_int (tz + 12) :: uint32) = (of_nat (nat (tz + 12)) :: 64 word)"
    by (simp add: k(1) word_unat_eq_iff)
  then have "w = of_nat N" by (simp add: w_def N_def pack_timestamp_def packed_def)
  then show "unat w = N" using b by (simp add: unat_of_nat_small)
qed

text \<open>Text round trip of timestamps: the text of every valid date and time, with a time zone from
  -12 to +14, is accepted, and printing the packed value gives the same text back.\<close>

theorem timestamp_text_roundtrip:
  assumes v: "valid_timestamp year month day hour minute sec micro tz"
  shows "\<exists>val. parse_timestamp (format_timestamp year month day hour minute sec micro tz) = Inr val \<and>
    Timestamp_ToString val = Inr (format_timestamp year month day hour minute sec micro tz)"
proof -
  let ?str = "format_timestamp year month day hour minute sec micro tz"
  let ?w = "pack_timestamp year month day hour minute sec micro (word_of_int (tz + 12))"
  have b: "year < 10000" "month < 100" "day < 100" "hour < 100" "minute < 100" "sec < 100"
    "micro < 1000000" "\<bar>tz\<bar> < 100"
    using v valid_day [OF v] by (auto simp: valid_timestamp_def)
  note f = format_fields [OF b]
  have len: "length ?str = 29" using f(1) by (simp add: well_formatted_def)
  have tz: "(if ?str ! 26 = CHR 0x2D then - int (field ?str 27 2) else int (field ?str 27 2)) = tz"
    by (simp add: f)
  have p: "parse_timestamp ?str = Inr (timestamp_value TIMESTAMP (sint ?w))"
    using v valid_day [OF v]
    by (auto simp: parse_timestamp_def len f tz Let_def valid_timestamp_def GetTimestampValue_def Value_int64_def
        add.commute [of 12])
  note u = pack_unat [OF v]
  have raw: "val_raw (timestamp_value TIMESTAMP (sint ?w)) = ?w"
    by (simp add: timestamp_value_def Let_def)
  have "uint ?w \<noteq> 18446744073709551615" using u by (simp add: uint_nat)
  then have "\<not> IsNull (timestamp_value TIMESTAMP (sint ?w))"
    by (simp add: timestamp_value_def Let_def IsNull_def limit_defs GetAs_uint64_def)
  with ToString_packed [OF v] p u raw show ?thesis by simp
qed

theorem timestamp_text_roundtrip_witness:
  "\<exists>val. parse_timestamp (format_timestamp 2020 2 29 23 59 58 1234 (- 5)) = Inr val \<and>
    Timestamp_ToString val = Inr (format_timestamp 2020 2 29 23 59 58 1234 (- 5))"
proof (rule timestamp_text_roundtrip)
  show "valid_timestamp 2020 2 29 23 59 58 1234 (- 5)"
    by (simp add: valid_timestamp_def max_day_lunar_def)
qed

text \<open>No operation reaches a timestamp through \<open>Value\<close>: there is no instance for the type id, so
  comparing, printing, storing, copying and casting a \<open>TIMESTAMP\<close> value, and making one from a text with
  \<open>CastAsTimestamp\<close>, all end in a null pointer. The comparisons of the class itself fail their first
  assertion.\<close>

theorem timestamp_values_crash:
  assumes "val_type v = TIMESTAMP"
  shows "Value_Compare op F v w = Inl Crash \<and> Value_ToString F v = Inl Crash \<and> Value_SerializeTo v = Inl Crash \<and>
    Value_Copy F v = Inl Crash \<and> Value_CastAs F v t = Inl Crash \<and> CastAsTimestamp F w = Inl Crash \<and>
    Timestamp_CompareEquals v w = Inl Crash \<and> Timestamp_CompareLessThan v w = Inl Crash"
  using assms by (cases op)
    (simp_all add: Value_Compare_defs Value_ToString_def Value_SerializeTo_def Value_Copy_def Value_CastAs_def
      CastAsTimestamp_def GetInstance_def Timestamp_CompareEquals_def Timestamp_CompareLessThan_def
      CheckComparable_def ensure_def)

theorem timestamp_values_crash_witness:
  "Value_ToString integer_doubles (new_Value TIMESTAMP) = Inl Crash"
  using timestamp_values_crash [of "new_Value TIMESTAMP" Eq integer_doubles "new_Value TIMESTAMP" VARCHAR]
  by (simp add: new_Value_def)

end
