(* ===== verification/Expressions.thy ===== *)
theory Expressions
  imports Tuples ValueFactory
begin

section \<open>Evaluation of expressions\<close>

text \<open>
  \<^verbatim>\<open>execution/expressions/*.h\<close>: the value of an expression on one tuple, on the two tuples of a join and on
  the groups and aggregates of an aggregation, and \<^verbatim>\<open>common/util/hash_util.h\<close>, the hash values of the
  in-memory hash tables of the executors. \<open>UNREACHABLE\<close> throws a \<open>std::logic_error\<close>.
\<close>

subsection \<open>Operations\<close>

definition PerformComparison :: "double_ops \<Rightarrow> ComparisonType \<Rightarrow> Value \<Rightarrow> Value \<Rightarrow> CmpBool result" where
  "PerformComparison F comp_type lhs rhs = (case comp_type of
     Equal \<Rightarrow> Value_CompareEquals F lhs rhs
   | NotEqual \<Rightarrow> Value_CompareNotEquals F lhs rhs
   | LessThan \<Rightarrow> Value_CompareLessThan F lhs rhs
   | LessThanOrEqual \<Rightarrow> Value_CompareLessThanEquals F lhs rhs
   | GreaterThan \<Rightarrow> Value_CompareGreaterThan F lhs rhs
   | GreaterThanOrEqual \<Rightarrow> Value_CompareGreaterThanEquals F lhs rhs)"

fun Evaluate :: "double_ops \<Rightarrow> Expression \<Rightarrow> tuple \<Rightarrow> Schema \<Rightarrow> Value result" where
  "Evaluate F (ColumnValueExpression tuple_idx col_idx ret_type) tuple schema = Tuple_GetValue F tuple schema col_idx"
| "Evaluate F (ConstantValueExpression val) tuple schema = Inr val"
| "Evaluate F (ComparisonExpression left right comp_type) tuple schema =
     andThen (Evaluate F left tuple schema) (\<lambda>lhs.
     andThen (Evaluate F right tuple schema) (\<lambda>rhs.
     andThen (PerformComparison F comp_type lhs rhs) GetBooleanValue_Cmp))"
| "Evaluate F (AggregateValueExpression is_group_by_term term_idx ret_type) tuple schema = Inl StdLogicError"

fun EvaluateJoin :: "double_ops \<Rightarrow> Expression \<Rightarrow> tuple \<Rightarrow> Schema \<Rightarrow> tuple \<Rightarrow> Schema \<Rightarrow> Value result" where
  "EvaluateJoin F (ColumnValueExpression tuple_idx col_idx ret_type) left_tuple left_schema right_tuple right_schema =
     (if tuple_idx = 0 then Tuple_GetValue F left_tuple left_schema col_idx
      else Tuple_GetValue F right_tuple right_schema col_idx)"
| "EvaluateJoin F (ConstantValueExpression val) left_tuple left_schema right_tuple right_schema = Inr val"
| "EvaluateJoin F (ComparisonExpression left right comp_type) left_tuple left_schema right_tuple right_schema =
     andThen (EvaluateJoin F left left_tuple left_schema right_tuple right_schema) (\<lambda>lhs.
     andThen (EvaluateJoin F right left_tuple left_schema right_tuple right_schema) (\<lambda>rhs.
     andThen (PerformComparison F comp_type lhs rhs) GetBooleanValue_Cmp))"
| "EvaluateJoin F (AggregateValueExpression is_group_by_term term_idx ret_type)
     left_tuple left_schema right_tuple right_schema = Inl StdLogicError"

fun EvaluateAggregate :: "double_ops \<Rightarrow> Expression \<Rightarrow> Value list \<Rightarrow> Value list \<Rightarrow> Value result" where
  "EvaluateAggregate F (ColumnValueExpression tuple_idx col_idx ret_type) group_bys aggregates = Inl Crash"
| "EvaluateAggregate F (ConstantValueExpression val) group_bys aggregates = Inr val"
| "EvaluateAggregate F (ComparisonExpression left right comp_type) group_bys aggregates =
     andThen (EvaluateAggregate F left group_bys aggregates) (\<lambda>lhs.
     andThen (EvaluateAggregate F right group_bys aggregates) (\<lambda>rhs.
     andThen (PerformComparison F comp_type lhs rhs) GetBooleanValue_Cmp))"
| "EvaluateAggregate F (AggregateValueExpression is_group_by_term term_idx ret_type) group_bys aggregates =
     (if is_group_by_term then at group_bys term_idx else at aggregates term_idx)"

text \<open>\<open>GetAs<bool>\<close> reads the low byte of the value; the machine takes every byte but zero for true.\<close>

definition GetAs_bool :: "Value \<Rightarrow> bool" where
  "GetAs_bool v \<longleftrightarrow> (ucast (val_raw v) :: 8 word) \<noteq> 0"

subsection \<open>Hash values\<close>

text \<open>\<open>bytes[i]\<close> is a signed \<open>char\<close>, extended to the 64 bits of \<open>hash_t\<close>.\<close>

definition HashBytes :: "bytes \<Rightarrow> 64 word" where
  "HashBytes bs = foldl (\<lambda>hash b. ((push_bit 5 hash) XOR (drop_bit 27 hash)) XOR scast b) (of_nat (length bs)) bs"

definition CombineHashes :: "64 word \<Rightarrow> 64 word \<Rightarrow> 64 word" where
  "CombineHashes l r = HashBytes (le_bytes 8 l @ le_bytes 8 r)"

definition PRIME_FACTOR :: "64 word" where
  "PRIME_FACTOR = 10000019"

definition SumHashes :: "64 word \<Rightarrow> 64 word \<Rightarrow> 64 word" where
  "SumHashes l r = (l mod PRIME_FACTOR + r mod PRIME_FACTOR) mod PRIME_FACTOR"

definition HashValue :: "Value \<Rightarrow> 64 word result" where
  "HashValue val = (case val_type val of
     TINYINT \<Rightarrow> Inr (HashBytes (le_bytes 8 (word_of_int (GetAs int8_t val))))
   | SMALLINT \<Rightarrow> Inr (HashBytes (le_bytes 8 (word_of_int (GetAs int16_t val))))
   | INTEGER \<Rightarrow> Inr (HashBytes (le_bytes 8 (word_of_int (GetAs int32_t val))))
   | BIGINT \<Rightarrow> Inr (HashBytes (le_bytes 8 (word_of_int (GetAs int64_t val))))
   | BOOLEAN \<Rightarrow> Inr (HashBytes [if GetAs_bool val then 1 else 0])
   | DECIMAL \<Rightarrow> Inr (HashBytes (le_bytes 8 (GetAs_double val)))
   | VARCHAR \<Rightarrow> andThen (Value_GetLength val) (\<lambda>len. andThen (memory val (unat len)) (\<lambda>s. Inr (HashBytes (string_bytes s))))
   | TIMESTAMP \<Rightarrow> Inr (HashBytes (le_bytes 8 (word_of_int (GetAs_uint64 val))))
   | INVALID \<Rightarrow> Inl Crash)"

text \<open>\<open>std::hash\<close> of the keys of an aggregation and of a removal of duplicates.\<close>

fun hash_key :: "64 word \<Rightarrow> Value list \<Rightarrow> 64 word result" where
  "hash_key curr_hash [] = Inr curr_hash"
| "hash_key curr_hash (key # keys) =
     (if \<not> IsNull key then andThen (HashValue key) (\<lambda>h. hash_key (CombineHashes curr_hash h) keys)
      else hash_key curr_hash keys)"

text \<open>\<open>operator==\<close> of these keys; the loop runs over the second key.\<close>

fun key_eq :: "double_ops \<Rightarrow> Value list \<Rightarrow> Value list \<Rightarrow> bool result" where
  "key_eq F group_bys [] = Inr True"
| "key_eq F [] (o1 # os) = Inl Crash"
| "key_eq F (g # gs) (o1 # os) = andThen (Value_CompareEquals F g o1) (\<lambda>c. if c \<noteq> CmpTrue then Inr False else key_eq F gs os)"

end
