(* ===== verification/Executors.thy ===== *)
theory Executors
  imports Expressions
begin

section \<open>Query executors\<close>

text \<open>
  \<^verbatim>\<open>execution/*_executor.{h,cpp}\<close> for the operators that only read their children: limit, distinct, the two
  joins and the aggregation. An executor is a pair of operations \<open>Init\<close> and \<open>Next\<close> on its own state and the
  state \<open>'w\<close> of the storage below; an operator takes the operations of its children as arguments. \<open>Next\<close> gets the
  tuple and the identifier its two pointers refer to and returns them changed, together with the flag that
  a tuple was produced: some operators read the tuple before they write it. A loop takes fuel, because a
  child could go on for ever; running out of it is the error \<open>Crash\<close>.
\<close>

subsection \<open>The interface\<close>

type_synonym row = "tuple \<times> rid"

record ('e, 'w) executor =
  Init :: "'e \<Rightarrow> 'w \<Rightarrow> ('e \<times> 'w) result"
  Next :: "'e \<Rightarrow> 'w \<Rightarrow> row \<Rightarrow> (bool \<times> row \<times> 'e \<times> 'w) result"

definition fresh_row :: "config \<Rightarrow> row" where
  "fresh_row cfg = (Tuple_default cfg, RID_default cfg)"

text \<open>The loop of \<open>ExecutionEngine::Execute\<close> on the root executor; its tuple is one variable for all calls.\<close>

fun execute_loop :: "nat \<Rightarrow> ('e, 'w) executor \<Rightarrow> 'e \<Rightarrow> 'w \<Rightarrow> row \<Rightarrow> (tuple list \<times> 'w) result" where
  "execute_loop 0 C e w row = Inl Crash"
| "execute_loop (Suc fuel) C e w row =
     andThen (Next C e w row) (\<lambda>(found, row, e, w).
     if found then andThen (execute_loop fuel C e w row) (\<lambda>(ts, w). Inr (fst row # ts, w))
     else Inr ([], w))"

definition Execute :: "nat \<Rightarrow> config \<Rightarrow> ('e, 'w) executor \<Rightarrow> 'e \<Rightarrow> 'w \<Rightarrow> (tuple list \<times> 'w) result" where
  "Execute fuel cfg C e w =
     andThen (Init C e w) (\<lambda>(e, w). execute_loop fuel C e w (fresh_row cfg))"

subsection \<open>Hash tables in memory\<close>

text \<open>\<open>std::unordered_map\<close>: the entries with their hash values. A search compares the hash values first and
  then the keys. The position of the entry is returned.\<close>

type_synonym ('k, 'v) unordered_map = "(64 word \<times> 'k \<times> 'v) list"

fun um_find :: "('k \<Rightarrow> 'k \<Rightarrow> bool result) \<Rightarrow> 64 word \<Rightarrow> 'k \<Rightarrow> ('k, 'v) unordered_map \<Rightarrow> nat option result" where
  "um_find eq h k [] = Inr None"
| "um_find eq h k ((h', k', v) # m) =
     andThen (if h = h' then eq k k' else Inr False) (\<lambda>same.
     if same then Inr (Some 0) else andThen (um_find eq h k m) (\<lambda>p. Inr (map_option Suc p)))"

subsection \<open>Limit\<close>

datatype 'e LimitExecutor = LimitExecutor (num_tuples: nat) (limit_child: 'e)

definition Limit_Init :: "('e, 'w) executor \<Rightarrow> 'e LimitExecutor \<Rightarrow> 'w \<Rightarrow> ('e LimitExecutor \<times> 'w) result" where
  "Limit_Init C st w = andThen (Init C (limit_child st) w) (\<lambda>(c, w). Inr (LimitExecutor 0 c, w))"

definition Limit_Next ::
    "('e, 'w) executor \<Rightarrow> nat \<Rightarrow> 'e LimitExecutor \<Rightarrow> 'w \<Rightarrow> row \<Rightarrow> (bool \<times> row \<times> 'e LimitExecutor \<times> 'w) result" where
  "Limit_Next C limit st w row =
     (if num_tuples st < limit
      then andThen (Next C (limit_child st) w row) (\<lambda>(found, row, c, w).
        Inr (found, row, LimitExecutor (Suc (num_tuples st)) c, w))
      else Inr (False, row, LimitExecutor (Suc (num_tuples st)) (limit_child st), w))"

definition Limit :: "('e, 'w) executor \<Rightarrow> nat \<Rightarrow> ('e LimitExecutor, 'w) executor" where
  "Limit C limit = \<lparr>Init = Limit_Init C, Next = Limit_Next C limit\<rparr>"

subsection \<open>Distinct\<close>

datatype 'e DistinctExecutor =
  DistinctExecutor (distinct_table: "(Value list, unit) unordered_map") (distinct_child: 'e)

definition Distinct_Init :: "('e, 'w) executor \<Rightarrow> 'e DistinctExecutor \<Rightarrow> 'w \<Rightarrow> ('e DistinctExecutor \<times> 'w) result" where
  "Distinct_Init C st w = andThen (Init C (distinct_child st) w) (\<lambda>(c, w). Inr (DistinctExecutor [] c, w))"

fun Distinct_Next ::
    "nat \<Rightarrow> double_ops \<Rightarrow> ('e, 'w) executor \<Rightarrow> Schema \<Rightarrow> 'e DistinctExecutor \<Rightarrow> 'w \<Rightarrow> row \<Rightarrow>
      (bool \<times> row \<times> 'e DistinctExecutor \<times> 'w) result" where
  "Distinct_Next 0 F C schema st w row = Inl Crash"
| "Distinct_Next (Suc fuel) F C schema st w row =
     andThen (Next C (distinct_child st) w row) (\<lambda>(found, row, c, w).
     if \<not> found then Inr (False, row, DistinctExecutor (distinct_table st) c, w)
     else
       andThen (traverse (Tuple_GetValue F (fst row) schema) [0..<GetColumnCount schema]) (\<lambda>key.
       andThen (hash_key 0 key) (\<lambda>h.
       andThen (um_find (key_eq F) h key (distinct_table st)) (\<lambda>p.
       if p = None then Inr (True, row, DistinctExecutor (distinct_table st @ [(h, key, ())]) c, w)
       else Distinct_Next fuel F C schema (DistinctExecutor (distinct_table st) c) w row))))"

definition Distinct ::
    "nat \<Rightarrow> double_ops \<Rightarrow> ('e, 'w) executor \<Rightarrow> Schema \<Rightarrow> ('e DistinctExecutor, 'w) executor" where
  "Distinct fuel F C schema = \<lparr>Init = Distinct_Init C, Next = Distinct_Next fuel F C schema\<rparr>"

subsection \<open>Nested loop join\<close>

record join_plan =
  left_schema :: Schema
  right_schema :: Schema
  out_schema :: Schema

text \<open>The loop over the output columns, whose expressions are cast to column references. \<open>lv\<close> and \<open>rv\<close> give the
  value of a column of the left and of the right side.\<close>

definition join_value :: "(nat \<Rightarrow> Value result) \<Rightarrow> (nat \<Rightarrow> Value result) \<Rightarrow> Column \<Rightarrow> Value result" where
  "join_value lv rv column = (case column_expr column of
     Some (ColumnValueExpression tuple_idx col_idx ret_type) \<Rightarrow> if tuple_idx = 0 then lv col_idx else rv col_idx
   | _ \<Rightarrow> Inl Crash)"

definition join_tuple :: "config \<Rightarrow> join_plan \<Rightarrow> (nat \<Rightarrow> Value result) \<Rightarrow> (nat \<Rightarrow> Value result) \<Rightarrow> tuple result" where
  "join_tuple cfg plan lv rv =
     andThen (traverse (join_value lv rv) (columns (out_schema plan))) (\<lambda>values.
     Tuple_new cfg values (out_schema plan))"

text \<open>The predicate of a plan without one is the constant true.\<close>

definition predicate_of :: "Expression option \<Rightarrow> Expression result" where
  "predicate_of p = (case p of
     Some e \<Rightarrow> Inr e
   | None \<Rightarrow> andThen (GetBooleanValue 1) (\<lambda>v. Inr (ConstantValueExpression v)))"

datatype ('l, 'r) NestedLoopJoinExecutor =
  NestedLoopJoinExecutor (nlj_left: 'l) (nlj_right: 'r) (left_row: row) (is_left_selected: bool)

definition NestedLoopJoin_Init ::
    "('l, 'w) executor \<Rightarrow> ('r, 'w) executor \<Rightarrow> ('l, 'r) NestedLoopJoinExecutor \<Rightarrow> 'w \<Rightarrow>
      (('l, 'r) NestedLoopJoinExecutor \<times> 'w) result" where
  "NestedLoopJoin_Init L R st w =
     andThen (Init L (nlj_left st) w) (\<lambda>(l, w).
     andThen (Init R (nlj_right st) w) (\<lambda>(r, w).
     andThen (Next L l w (left_row st)) (\<lambda>(selected, lrow, l, w).
     Inr (NestedLoopJoinExecutor l r lrow selected, w))))"

fun nlj_loop ::
    "nat \<Rightarrow> config \<Rightarrow> double_ops \<Rightarrow> ('l, 'w) executor \<Rightarrow> ('r, 'w) executor \<Rightarrow> join_plan \<Rightarrow> Expression \<Rightarrow>
      'l \<Rightarrow> 'r \<Rightarrow> row \<Rightarrow> row \<Rightarrow> 'w \<Rightarrow> row \<Rightarrow> (bool \<times> row \<times> ('l, 'r) NestedLoopJoinExecutor \<times> 'w) result" where
  "nlj_loop 0 cfg F L R plan predicate l r lrow right_row w row = Inl Crash"
| "nlj_loop (Suc fuel) cfg F L R plan predicate l r lrow right_row w row =
     andThen (Next R r w right_row) (\<lambda>(found, right_row, r, w).
     if \<not> found then
       andThen (Next L l w lrow) (\<lambda>(selected, lrow, l, w).
       if \<not> selected then Inr (False, row, NestedLoopJoinExecutor l r lrow True, w)
       else andThen (Init R r w) (\<lambda>(r, w). nlj_loop fuel cfg F L R plan predicate l r lrow right_row w row))
     else
       andThen (EvaluateJoin F predicate (fst lrow) (left_schema plan) (fst right_row) (right_schema plan)) (\<lambda>val.
       if GetAs_bool val then
         andThen (join_tuple cfg plan (Tuple_GetValue F (fst lrow) (left_schema plan))
           (Tuple_GetValue F (fst right_row) (right_schema plan))) (\<lambda>t.
         Inr (True, (t, rid_of (fst lrow)), NestedLoopJoinExecutor l r lrow True, w))
       else nlj_loop fuel cfg F L R plan predicate l r lrow right_row w row))"

definition NestedLoopJoin_Next ::
    "nat \<Rightarrow> config \<Rightarrow> double_ops \<Rightarrow> ('l, 'w) executor \<Rightarrow> ('r, 'w) executor \<Rightarrow> join_plan \<Rightarrow> Expression \<Rightarrow>
      ('l, 'r) NestedLoopJoinExecutor \<Rightarrow> 'w \<Rightarrow> row \<Rightarrow> (bool \<times> row \<times> ('l, 'r) NestedLoopJoinExecutor \<times> 'w) result" where
  "NestedLoopJoin_Next fuel cfg F L R plan predicate st w row =
     (if \<not> is_left_selected st then Inr (False, row, st, w)
      else nlj_loop fuel cfg F L R plan predicate (nlj_left st) (nlj_right st) (left_row st) (fresh_row cfg) w row)"

definition NestedLoopJoin ::
    "nat \<Rightarrow> config \<Rightarrow> double_ops \<Rightarrow> ('l, 'w) executor \<Rightarrow> ('r, 'w) executor \<Rightarrow> join_plan \<Rightarrow> Expression \<Rightarrow>
      (('l, 'r) NestedLoopJoinExecutor, 'w) executor" where
  "NestedLoopJoin fuel cfg F L R plan predicate =
     \<lparr>Init = NestedLoopJoin_Init L R, Next = NestedLoopJoin_Next fuel cfg F L R plan predicate\<rparr>"

subsection \<open>Hash join\<close>

datatype ('l, 'r) HashJoinExecutor = HashJoinExecutor (hj_left: 'l) (hj_right: 'r) (next_pos: nat)
  (join_table: "(Value, Value list list) unordered_map") (outer_table_buffer: "Value list list")

definition hash_join_eq :: "double_ops \<Rightarrow> Value \<Rightarrow> Value \<Rightarrow> bool result" where
  "hash_join_eq F key other = andThen (Value_CompareEquals F key other) (\<lambda>c. Inr (c = CmpTrue))"

text \<open>The loop of the constructor over the left side.\<close>

fun build_loop ::
    "nat \<Rightarrow> double_ops \<Rightarrow> ('l, 'w) executor \<Rightarrow> join_plan \<Rightarrow> Expression \<Rightarrow> 'l \<Rightarrow> 'w \<Rightarrow> row \<Rightarrow>
      (Value, Value list list) unordered_map \<Rightarrow> ('l \<times> (Value, Value list list) unordered_map \<times> 'w) result" where
  "build_loop 0 F L plan left_key l w row ht = Inl Crash"
| "build_loop (Suc fuel) F L plan left_key l w row ht =
     andThen (Next L l w row) (\<lambda>(found, row, l, w).
     if \<not> found then Inr (l, ht, w)
     else
       andThen (Evaluate F left_key (fst row) (left_schema plan)) (\<lambda>key.
       andThen (traverse (Tuple_GetValue F (fst row) (left_schema plan)) [0..<GetColumnCount (left_schema plan)]) (\<lambda>values.
       andThen (HashValue key) (\<lambda>h.
       andThen (um_find (hash_join_eq F) h key ht) (\<lambda>p.
       build_loop fuel F L plan left_key l w row
         (case p of
            Some i \<Rightarrow> ht[i := (case ht ! i of (h', k', vs) \<Rightarrow> (h', k', vs @ [values]))]
          | None \<Rightarrow> ht @ [(h, key, [values])]))))))"

definition HashJoin_new ::
    "nat \<Rightarrow> config \<Rightarrow> double_ops \<Rightarrow> ('l, 'w) executor \<Rightarrow> ('r, 'w) executor \<Rightarrow> join_plan \<Rightarrow> Expression \<Rightarrow> 'l \<Rightarrow> 'r \<Rightarrow> 'w \<Rightarrow>
      (('l, 'r) HashJoinExecutor \<times> 'w) result" where
  "HashJoin_new fuel cfg F L R plan left_key l r w =
     andThen (Init L l w) (\<lambda>(l, w).
     andThen (Init R r w) (\<lambda>(r, w).
     andThen (build_loop fuel F L plan left_key l w (fresh_row cfg) []) (\<lambda>(l, ht, w).
     Inr (HashJoinExecutor l r 0 ht [], w))))"

definition HashJoin_Init ::
    "('l, 'w) executor \<Rightarrow> ('r, 'w) executor \<Rightarrow> ('l, 'r) HashJoinExecutor \<Rightarrow> 'w \<Rightarrow>
      (('l, 'r) HashJoinExecutor \<times> 'w) result" where
  "HashJoin_Init L R st w =
     andThen (Init L (hj_left st) w) (\<lambda>(l, w).
     andThen (Init R (hj_right st) w) (\<lambda>(r, w).
     Inr (HashJoinExecutor l r 0 (join_table st) [], w)))"

text \<open>The search for the next right tuple with a match, which it returns with its left tuples.\<close>

fun probe_loop ::
    "nat \<Rightarrow> double_ops \<Rightarrow> ('r, 'w) executor \<Rightarrow> join_plan \<Rightarrow> Expression \<Rightarrow> (Value, Value list list) unordered_map \<Rightarrow>
      'r \<Rightarrow> 'w \<Rightarrow> row \<Rightarrow> (Value list list option \<times> row \<times> 'r \<times> 'w) result" where
  "probe_loop 0 F R plan right_key ht r w row = Inl Crash"
| "probe_loop (Suc fuel) F R plan right_key ht r w row =
     andThen (Next R r w row) (\<lambda>(found, row, r, w).
     if \<not> found then Inr (None, row, r, w)
     else
       andThen (Evaluate F right_key (fst row) (right_schema plan)) (\<lambda>key.
       andThen (HashValue key) (\<lambda>h.
       andThen (um_find (hash_join_eq F) h key ht) (\<lambda>p.
       case p of
         Some i \<Rightarrow> Inr (Some (snd (snd (ht ! i))), row, r, w)
       | None \<Rightarrow> probe_loop fuel F R plan right_key ht r w row))))"

definition HashJoin_Next ::
    "nat \<Rightarrow> config \<Rightarrow> double_ops \<Rightarrow> ('r, 'w) executor \<Rightarrow> join_plan \<Rightarrow> Expression \<Rightarrow> ('l, 'r) HashJoinExecutor \<Rightarrow> 'w \<Rightarrow> row \<Rightarrow>
      (bool \<times> row \<times> ('l, 'r) HashJoinExecutor \<times> 'w) result" where
  "HashJoin_Next fuel cfg F R plan right_key st w row =
     andThen
       (if next_pos st \<ge> length (outer_table_buffer st)
        then andThen (probe_loop fuel F R plan right_key (join_table st) (hj_right st) w row) (\<lambda>(buffer, row, r, w).
          Inr (case buffer of
            None \<Rightarrow> (False, row, HashJoinExecutor (hj_left st) r (next_pos st) (join_table st) (outer_table_buffer st), w)
          | Some b \<Rightarrow> (True, row, HashJoinExecutor (hj_left st) r 0 (join_table st) b, w)))
        else Inr (True, row, st, w)) (\<lambda>(is_find, row, st, w).
     if \<not> is_find then Inr (False, row, st, w)
     else
       andThen (join_tuple cfg plan
         (\<lambda>col. andThen (at (outer_table_buffer st) (next_pos st)) (\<lambda>values. at values col))
         (Tuple_GetValue F (fst row) (right_schema plan))) (\<lambda>t.
       Inr (True, (t, snd row),
         HashJoinExecutor (hj_left st) (hj_right st) (Suc (next_pos st)) (join_table st) (outer_table_buffer st), w)))"

definition HashJoin ::
    "nat \<Rightarrow> config \<Rightarrow> double_ops \<Rightarrow> ('l, 'w) executor \<Rightarrow> ('r, 'w) executor \<Rightarrow> join_plan \<Rightarrow> Expression \<Rightarrow>
      (('l, 'r) HashJoinExecutor, 'w) executor" where
  "HashJoin fuel cfg F L R plan right_key =
     \<lparr>Init = HashJoin_Init L R, Next = HashJoin_Next fuel cfg F R plan right_key\<rparr>"

subsection \<open>Aggregation\<close>

datatype AggregationType = CountAggregate | SumAggregate | MinAggregate | MaxAggregate

record aggregation_plan =
  having :: "Expression option"
  group_bys :: "Expression list"
  agg_exprs :: "Expression list"
  agg_types :: "AggregationType list"
  agg_out_schema :: Schema

fun initial_value :: "AggregationType \<Rightarrow> Value result" where
  "initial_value CountAggregate = GetIntegerValue 0"
| "initial_value SumAggregate = GetIntegerValue 0"
| "initial_value MinAggregate = GetIntegerValue BUSTUB_INT32_MAX"
| "initial_value MaxAggregate = GetIntegerValue BUSTUB_INT32_MIN"

definition GenerateInitialAggregateValue :: "AggregationType list \<Rightarrow> Value list result" where
  "GenerateInitialAggregateValue types = traverse initial_value types"

fun combine_value :: "double_ops \<Rightarrow> AggregationType \<Rightarrow> Value \<Rightarrow> Value \<Rightarrow> Value result" where
  "combine_value F CountAggregate acc input = andThen (GetIntegerValue 1) (\<lambda>one. Value_Add F acc one)"
| "combine_value F SumAggregate acc input = Value_Add F acc input"
| "combine_value F MinAggregate acc input = Value_Min F acc input"
| "combine_value F MaxAggregate acc input = Value_Max F acc input"

text \<open>The loop over the aggregates from \<open>i\<close> with \<open>k\<close> left.\<close>

fun combine_loop ::
    "double_ops \<Rightarrow> AggregationType list \<Rightarrow> nat \<Rightarrow> nat \<Rightarrow> Value list \<Rightarrow> Value list \<Rightarrow> Value list result" where
  "combine_loop F types i 0 result input = Inr result"
| "combine_loop F types i (Suc k) result input =
     andThen (at types i) (\<lambda>type.
     andThen (at result i) (\<lambda>acc.
     andThen (if type = CountAggregate then Inr acc else at input i) (\<lambda>v.
     andThen (combine_value F type acc v) (\<lambda>x.
     combine_loop F types (Suc i) k (result[i := x]) input))))"

definition CombineAggregateValues :: "double_ops \<Rightarrow> aggregation_plan \<Rightarrow> Value list \<Rightarrow> Value list \<Rightarrow> Value list result" where
  "CombineAggregateValues F plan result input = combine_loop F (agg_types plan) 0 (length (agg_exprs plan)) result input"

text \<open>\<open>ht_[agg_key]\<close> searches again and adds an empty entry when it finds none.\<close>

type_synonym agg_table = "(Value list, Value list) unordered_map"

definition InsertCombine :: "double_ops \<Rightarrow> aggregation_plan \<Rightarrow> agg_table \<Rightarrow> Value list \<Rightarrow> Value list \<Rightarrow> agg_table result" where
  "InsertCombine F plan ht agg_key agg_val =
     andThen (hash_key 0 agg_key) (\<lambda>h.
     andThen (um_find (key_eq F) h agg_key ht) (\<lambda>p.
     andThen (if p = None then andThen (GenerateInitialAggregateValue (agg_types plan)) (\<lambda>v. Inr (ht @ [(h, agg_key, v)]))
              else Inr ht) (\<lambda>ht.
     andThen (um_find (key_eq F) h agg_key ht) (\<lambda>p.
     let (i, ht) = (case p of Some i \<Rightarrow> (i, ht) | None \<Rightarrow> (length ht, ht @ [(h, agg_key, [])])) in
     andThen (CombineAggregateValues F plan (snd (snd (ht ! i))) agg_val) (\<lambda>v.
     Inr (ht[i := (fst (ht ! i), fst (snd (ht ! i)), v)]))))))"

datatype 'e AggregationExecutor =
  AggregationExecutor (agg_child: 'e) (aht: agg_table) (aht_iterator: "(Value list \<times> Value list) list")

text \<open>The loop of the constructor. \<open>in_schema\<close> is the output schema of the child.\<close>

fun aggregate_loop ::
    "nat \<Rightarrow> double_ops \<Rightarrow> ('e, 'w) executor \<Rightarrow> aggregation_plan \<Rightarrow> Schema \<Rightarrow> Value list \<Rightarrow> 'e \<Rightarrow> 'w \<Rightarrow> row \<Rightarrow> agg_table \<Rightarrow>
      ('e \<times> agg_table \<times> 'w) result" where
  "aggregate_loop 0 F C plan in_schema key e w row ht = Inl Crash"
| "aggregate_loop (Suc fuel) F C plan in_schema key e w row ht =
     andThen (Next C e w row) (\<lambda>(found, row, e, w).
     if \<not> found then Inr (e, ht, w)
     else
       andThen (if group_bys plan \<noteq> [] then traverse (\<lambda>g. Evaluate F g (fst row) in_schema) (group_bys plan)
                else Inr key) (\<lambda>key.
       andThen (traverse (\<lambda>a. Evaluate F a (fst row) in_schema) (agg_exprs plan)) (\<lambda>val.
       andThen (InsertCombine F plan ht key val) (\<lambda>ht.
       aggregate_loop fuel F C plan in_schema key e w row ht))))"

definition Aggregation_new ::
    "nat \<Rightarrow> config \<Rightarrow> double_ops \<Rightarrow> ('e, 'w) executor \<Rightarrow> aggregation_plan \<Rightarrow> Schema \<Rightarrow> 'e \<Rightarrow> 'w \<Rightarrow>
      ('e AggregationExecutor \<times> 'w) result" where
  "Aggregation_new fuel cfg F C plan in_schema e w =
     andThen (GenerateInitialAggregateValue (agg_types plan)) (\<lambda>key.
     andThen (Init C e w) (\<lambda>(e, w).
     andThen (aggregate_loop fuel F C plan in_schema key e w (fresh_row cfg) []) (\<lambda>(e, ht, w).
     Inr (AggregationExecutor e ht [], w))))"

text \<open>\<open>order\<close> is the order in which the hash table is traversed, which the library does not fix.\<close>

definition Aggregation_Init ::
    "(agg_table \<Rightarrow> agg_table) \<Rightarrow> ('e, 'w) executor \<Rightarrow> 'e AggregationExecutor \<Rightarrow> 'w \<Rightarrow>
      ('e AggregationExecutor \<times> 'w) result" where
  "Aggregation_Init order C st w =
     andThen (Init C (agg_child st) w) (\<lambda>(e, w).
     Inr (AggregationExecutor e (aht st) (map snd (order (aht st))), w))"

fun aggregation_loop ::
    "config \<Rightarrow> double_ops \<Rightarrow> aggregation_plan \<Rightarrow> (Value list \<times> Value list) list \<Rightarrow>
      (tuple option \<times> (Value list \<times> Value list) list) result" where
  "aggregation_loop cfg F plan [] = Inr (None, [])"
| "aggregation_loop cfg F plan ((key, val) # rest) =
     andThen (case having plan of
         None \<Rightarrow> Inr True
       | Some e \<Rightarrow> andThen (EvaluateAggregate F e key val) (\<lambda>v. Inr (GetAs_bool v))) (\<lambda>keep.
     if \<not> keep then aggregation_loop cfg F plan rest
     else
       andThen (traverse (\<lambda>column. case column_expr column of
           None \<Rightarrow> Inl Crash
         | Some e \<Rightarrow> EvaluateAggregate F e key val) (columns (agg_out_schema plan))) (\<lambda>vs.
       andThen (Tuple_new cfg vs (agg_out_schema plan)) (\<lambda>t. Inr (Some t, rest))))"

definition Aggregation_Next ::
    "config \<Rightarrow> double_ops \<Rightarrow> aggregation_plan \<Rightarrow> 'e AggregationExecutor \<Rightarrow> 'w \<Rightarrow> row \<Rightarrow>
      (bool \<times> row \<times> 'e AggregationExecutor \<times> 'w) result" where
  "Aggregation_Next cfg F plan st w row =
     andThen (aggregation_loop cfg F plan (aht_iterator st)) (\<lambda>(t, rest).
     Inr (t \<noteq> None, (case t of None \<Rightarrow> fst row | Some t \<Rightarrow> t, snd row), AggregationExecutor (agg_child st) (aht st) rest, w))"

definition Aggregation ::
    "(agg_table \<Rightarrow> agg_table) \<Rightarrow> config \<Rightarrow> double_ops \<Rightarrow> ('e, 'w) executor \<Rightarrow> aggregation_plan \<Rightarrow>
      ('e AggregationExecutor, 'w) executor" where
  "Aggregation order cfg F C plan = \<lparr>Init = Aggregation_Init order C, Next = Aggregation_Next cfg F plan\<rparr>"

end
