(* ===== verification/Replacer.thy ===== *)
theory Replacer
  imports Prelude
begin

section \<open>Replacement policies\<close>

text \<open>
  \<^verbatim>\<open>src/buffer/lru_replacer.cpp\<close> and \<^verbatim>\<open>src/buffer/clock_replacer.cpp\<close>. A replacer is a linked
  list \<open>wait_list_\<close> of evictable frames (front: most recently unpinned) and a vector
  \<open>page2iter_\<close> with, for each frame, the list iterator of its node or a default-constructed
  iterator. A node is found through its frame only, so the vector is modelled by whether the
  iterator is set. Each operation runs under the replacer's mutex, as one step.

  The locale \<open>replacer\<close> is the contract of the abstract class of \<^verbatim>\<open>buffer/replacer.h\<close>, stated over
  the list of evictable frames; both classes are interpretations of it.
\<close>

subsection \<open>LRUReplacer\<close>

record lru_replacer =
  wait_list :: "frame_id_t list"
  page2iter :: "bool list"

definition LRUReplacer_init :: "nat \<Rightarrow> lru_replacer" where
  "LRUReplacer_init num_pages = \<lparr>wait_list = [], page2iter = replicate num_pages False\<rparr>"

definition LRUReplacer_IsInReplacer :: "lru_replacer \<Rightarrow> frame_id_t \<Rightarrow> bool option" where
  "LRUReplacer_IsInReplacer r frame_id = vec_get (page2iter r) frame_id"

text \<open>\<^verbatim>\<open>Victim\<close> returns the frame it stores through its out parameter, or \<^term>\<open>None\<close> where it returns
  \<^verbatim>\<open>false\<close>.\<close>

definition LRUReplacer_Victim :: "lru_replacer \<Rightarrow> (frame_id_t option \<times> lru_replacer) option" where
  "LRUReplacer_Victim r =
     (if wait_list r = [] then Some (None, r)
      else do {
        let frame_id = last (wait_list r);
        iters \<leftarrow> vec_set (page2iter r) frame_id False;
        Some (Some frame_id, \<lparr>wait_list = butlast (wait_list r), page2iter = iters\<rparr>)
      })"

definition LRUReplacer_Pin :: "lru_replacer \<Rightarrow> frame_id_t \<Rightarrow> lru_replacer option" where
  "LRUReplacer_Pin r frame_id = do {
     b \<leftarrow> LRUReplacer_IsInReplacer r frame_id;
     if \<not> b then Some r
     else do {
       iters \<leftarrow> vec_set (page2iter r) frame_id False;
       Some \<lparr>wait_list = remove1 frame_id (wait_list r), page2iter = iters\<rparr>
     }
   }"

definition LRUReplacer_Unpin :: "lru_replacer \<Rightarrow> frame_id_t \<Rightarrow> lru_replacer option" where
  "LRUReplacer_Unpin r frame_id = do {
     b \<leftarrow> LRUReplacer_IsInReplacer r frame_id;
     if b then Some r
     else do {
       iters \<leftarrow> vec_set (page2iter r) frame_id True;
       Some \<lparr>wait_list = frame_id # wait_list r, page2iter = iters\<rparr>
     }
   }"

definition LRUReplacer_Size :: "lru_replacer \<Rightarrow> nat" where
  "LRUReplacer_Size r = length (wait_list r)"

subsection \<open>ClockReplacer\<close>

record clock_replacer =
  clock_wait_list :: "frame_id_t list"
  clock_page2iter :: "bool list"

definition ClockReplacer_init :: "nat \<Rightarrow> clock_replacer" where
  "ClockReplacer_init num_pages =
     \<lparr>clock_wait_list = [], clock_page2iter = replicate num_pages False\<rparr>"

definition ClockReplacer_IsInReplacer :: "clock_replacer \<Rightarrow> frame_id_t \<Rightarrow> bool option" where
  "ClockReplacer_IsInReplacer r frame_id = vec_get (clock_page2iter r) frame_id"

definition ClockReplacer_Victim ::
    "clock_replacer \<Rightarrow> (frame_id_t option \<times> clock_replacer) option" where
  "ClockReplacer_Victim r =
     (if clock_wait_list r = [] then Some (None, r)
      else do {
        let frame_id = last (clock_wait_list r);
        iters \<leftarrow> vec_set (clock_page2iter r) frame_id False;
        Some (Some frame_id,
          \<lparr>clock_wait_list = butlast (clock_wait_list r), clock_page2iter = iters\<rparr>)
      })"

definition ClockReplacer_Pin :: "clock_replacer \<Rightarrow> frame_id_t \<Rightarrow> clock_replacer option" where
  "ClockReplacer_Pin r frame_id = do {
     b \<leftarrow> ClockReplacer_IsInReplacer r frame_id;
     if \<not> b then Some r
     else do {
       iters \<leftarrow> vec_set (clock_page2iter r) frame_id False;
       Some \<lparr>clock_wait_list = remove1 frame_id (clock_wait_list r), clock_page2iter = iters\<rparr>
     }
   }"

definition ClockReplacer_Unpin :: "clock_replacer \<Rightarrow> frame_id_t \<Rightarrow> clock_replacer option" where
  "ClockReplacer_Unpin r frame_id = do {
     b \<leftarrow> ClockReplacer_IsInReplacer r frame_id;
     if b then Some r
     else do {
       iters \<leftarrow> vec_set (clock_page2iter r) frame_id True;
       Some \<lparr>clock_wait_list = frame_id # clock_wait_list r, clock_page2iter = iters\<rparr>
     }
   }"

definition ClockReplacer_Size :: "clock_replacer \<Rightarrow> nat" where
  "ClockReplacer_Size r = length (clock_wait_list r)"

subsection \<open>Invariants\<close>

text \<open>The list has no repetition, and exactly its frames have an iterator.\<close>

definition iters_agree :: "frame_id_t list \<Rightarrow> bool list \<Rightarrow> bool" where
  "iters_agree ws its \<longleftrightarrow>
     distinct ws \<and> set ws \<subseteq> {..<length its} \<and> (\<forall>f < length its. its ! f \<longleftrightarrow> f \<in> set ws)"

definition lru_inv :: "nat \<Rightarrow> lru_replacer \<Rightarrow> bool" where
  "lru_inv n r \<longleftrightarrow> length (page2iter r) = n \<and> iters_agree (wait_list r) (page2iter r)"

definition clock_inv :: "nat \<Rightarrow> clock_replacer \<Rightarrow> bool" where
  "clock_inv n r \<longleftrightarrow>
     length (clock_page2iter r) = n \<and> iters_agree (clock_wait_list r) (clock_page2iter r)"

lemma iters_agree_init: "iters_agree [] (replicate n False)"
  by (simp add: iters_agree_def)

lemma iters_agree_nth: "iters_agree ws its \<Longrightarrow> f < length its \<Longrightarrow> its ! f \<longleftrightarrow> f \<in> set ws"
  by (simp add: iters_agree_def)

lemma iters_agree_snoc:
  assumes "iters_agree (fs @ [f]) its"
  shows iters_agree_butlast: "iters_agree fs (its[f := False])"
    and iters_agree_last: "f < length its"
  using assms by (auto simp: iters_agree_def nth_list_update)

lemma iters_agree_pin:
  "iters_agree ws its \<Longrightarrow> f < length its \<Longrightarrow> iters_agree (remove1 f ws) (its[f := False])"
  by (auto simp: iters_agree_def distinct_remove1_set nth_list_update)

lemma iters_agree_unpin:
  "iters_agree ws its \<Longrightarrow> f < length its \<Longrightarrow> f \<notin> set ws \<Longrightarrow>
   iters_agree (f # ws) (its[f := True])"
  by (auto simp: iters_agree_def nth_list_update)

lemma iters_agree_absent: "iters_agree ws its \<Longrightarrow> f \<notin> set ws \<Longrightarrow> remove1 f ws = ws"
  by (rule remove1_idem)

lemmas iters_agree_facts =
  iters_agree_init iters_agree_nth iters_agree_last iters_agree_butlast iters_agree_pin
  iters_agree_unpin iters_agree_absent

lemma iters_agree_distinct: "iters_agree ws its \<Longrightarrow> distinct ws"
  by (simp add: iters_agree_def)

lemma iters_agree_bound: "iters_agree ws its \<Longrightarrow> f \<in> set ws \<Longrightarrow> f < length its"
  by (auto simp: iters_agree_def)

subsection \<open>Runs of operations\<close>

datatype replacer_op = OpVictim | OpPin frame_id_t | OpUnpin frame_id_t | OpSize

datatype replacer_out = OutVictim "frame_id_t option" | OutDone | OutSize nat

text \<open>One call on a replacer given by its four operations.\<close>

fun replacer_step ::
    "('r \<Rightarrow> (frame_id_t option \<times> 'r) option) \<Rightarrow> ('r \<Rightarrow> frame_id_t \<Rightarrow> 'r option) \<Rightarrow>
     ('r \<Rightarrow> frame_id_t \<Rightarrow> 'r option) \<Rightarrow> ('r \<Rightarrow> nat) \<Rightarrow>
     'r \<Rightarrow> replacer_op \<Rightarrow> (replacer_out \<times> 'r) option" where
  "replacer_step vi pi un sz r OpVictim = map_option (map_prod OutVictim id) (vi r)"
| "replacer_step vi pi un sz r (OpPin f) = map_option (Pair OutDone) (pi r f)"
| "replacer_step vi pi un sz r (OpUnpin f) = map_option (Pair OutDone) (un r f)"
| "replacer_step vi pi un sz r OpSize = Some (OutSize (sz r), r)"

text \<open>The policy both classes promise: frames wait in the order in which they were unpinned, a pin
  takes a frame out, and the victim is the frame that has waited longest.\<close>

fun lru_spec_step :: "frame_id_t list \<Rightarrow> replacer_op \<Rightarrow> replacer_out \<times> frame_id_t list" where
  "lru_spec_step ws OpVictim =
     (if ws = [] then (OutVictim None, ws) else (OutVictim (Some (last ws)), butlast ws))"
| "lru_spec_step ws (OpPin f) = (OutDone, filter (\<lambda>g. g \<noteq> f) ws)"
| "lru_spec_step ws (OpUnpin f) = (OutDone, if f \<in> set ws then ws else f # ws)"
| "lru_spec_step ws OpSize = (OutSize (length ws), ws)"

fun run_ops :: "('r \<Rightarrow> 'op \<Rightarrow> ('out \<times> 'r) option) \<Rightarrow> 'r \<Rightarrow> 'op list \<Rightarrow> ('out list \<times> 'r) option" where
  "run_ops step r [] = Some ([], r)"
| "run_ops step r (op # ops) = do {
     (out, r') \<leftarrow> step r op;
     (outs, r'') \<leftarrow> run_ops step r' ops;
     Some (out # outs, r'')
   }"

fun op_in_range :: "nat \<Rightarrow> replacer_op \<Rightarrow> bool" where
  "op_in_range n (OpPin f) \<longleftrightarrow> f < n"
| "op_in_range n (OpUnpin f) \<longleftrightarrow> f < n"
| "op_in_range n _ \<longleftrightarrow> True"

subsection \<open>The contract of a replacer\<close>

locale replacer =
  fixes init :: "nat \<Rightarrow> 'r"
    and victim :: "'r \<Rightarrow> (frame_id_t option \<times> 'r) option"
    and pin :: "'r \<Rightarrow> frame_id_t \<Rightarrow> 'r option"
    and unpin :: "'r \<Rightarrow> frame_id_t \<Rightarrow> 'r option"
    and size_of :: "'r \<Rightarrow> nat"
    and inv :: "nat \<Rightarrow> 'r \<Rightarrow> bool"
    and evictable :: "'r \<Rightarrow> frame_id_t list"
  assumes init_inv: "inv n (init n)"
    and init_evictable: "evictable (init n) = []"
    and inv_distinct: "inv n r \<Longrightarrow> distinct (evictable r)"
    and inv_bound: "inv n r \<Longrightarrow> f \<in> set (evictable r) \<Longrightarrow> f < n"
    and victim_none: "inv n r \<Longrightarrow> evictable r = [] \<Longrightarrow> victim r = Some (None, r)"
    and victim_some: "inv n r \<Longrightarrow> evictable r = fs @ [f] \<Longrightarrow>
          \<exists>r'. victim r = Some (Some f, r') \<and> inv n r' \<and> evictable r' = fs"
    and pin_spec: "inv n r \<Longrightarrow> f < n \<Longrightarrow>
          \<exists>r'. pin r f = Some r' \<and> inv n r' \<and> evictable r' = remove1 f (evictable r)"
    and unpin_spec: "inv n r \<Longrightarrow> f < n \<Longrightarrow>
          \<exists>r'. unpin r f = Some r' \<and> inv n r' \<and>
               evictable r' = (if f \<in> set (evictable r) then evictable r else f # evictable r)"
    and size_spec: "size_of r = length (evictable r)"
begin

lemma victim_cases:
  assumes "inv n r"
  obtains (none) "evictable r = []" "victim r = Some (None, r)"
    | (some) f r' where "victim r = Some (Some f, r')" "inv n r'"
        "evictable r = evictable r' @ [f]" "f < n" "f \<notin> set (evictable r')"
proof (cases "evictable r" rule: rev_cases)
  case Nil
  then show ?thesis using that(1) victim_none [OF assms] by blast
next
  case (snoc fs f)
  then obtain r' where "victim r = Some (Some f, r')" "inv n r'" "evictable r' = fs"
    using victim_some [OF assms] by blast
  moreover have "f < n" "f \<notin> set fs"
    using inv_bound [OF assms] inv_distinct [OF assms] snoc by auto
  ultimately show ?thesis using that(2) snoc by simp
qed

lemma pin_cases:
  assumes "inv n r" and "f < n"
  obtains r' where "pin r f = Some r'" "inv n r'" "evictable r' = remove1 f (evictable r)"
    "set (evictable r') = set (evictable r) - {f}"
  using pin_spec [OF assms] inv_distinct [OF assms(1)] distinct_remove1_set that by fastforce

lemma unpin_cases:
  assumes "inv n r" and "f < n"
  obtains r' where "unpin r f = Some r'" "inv n r'"
    "evictable r' = (if f \<in> set (evictable r) then evictable r else f # evictable r)"
    "set (evictable r') = insert f (set (evictable r))"
  using unpin_spec [OF assms] that by (fastforce simp: insert_absorb)

lemma size_le: "inv n r \<Longrightarrow> size_of r \<le> n"
proof -
  assume i: "inv n r"
  have "card (set (evictable r)) \<le> card {..<n}"
    by (rule card_mono) (use inv_bound [OF i] in auto)
  then show ?thesis using inv_distinct [OF i] by (simp add: size_spec distinct_card)
qed

lemma step_refines:
  assumes i: "inv n r" and op: "op_in_range n op"
  shows "\<exists>r'. replacer_step victim pin unpin size_of r op
               = Some (fst (lru_spec_step (evictable r) op), r') \<and>
             inv n r' \<and> evictable r' = snd (lru_spec_step (evictable r) op)"
proof (cases op)
  case OpVictim
  show ?thesis using i by (cases rule: victim_cases) (use i OpVictim in auto)
next
  case (OpPin f)
  then show ?thesis
    using pin_spec [OF i, of f] op remove1_filter [OF inv_distinct [OF i], of f] by auto
next
  case (OpUnpin f)
  then show ?thesis using unpin_spec [OF i, of f] op by auto
next
  case OpSize
  then show ?thesis using i by (simp add: size_spec)
qed

lemma run_refines:
  assumes "inv n r" and "list_all (op_in_range n) ops"
  shows "\<exists>outs r' ws. run_ops (replacer_step victim pin unpin size_of) r ops = Some (outs, r') \<and>
           run_ops (\<lambda>ws op. Some (lru_spec_step ws op)) (evictable r) ops = Some (outs, ws) \<and>
           inv n r' \<and> evictable r' = ws"
  using assms
proof (induction ops arbitrary: r)
  case Nil
  then show ?case by simp
next
  case (Cons op ops)
  then obtain r1 where step: "replacer_step victim pin unpin size_of r op
      = Some (fst (lru_spec_step (evictable r) op), r1)"
    and "inv n r1" and ev: "evictable r1 = snd (lru_spec_step (evictable r) op)"
    using step_refines [of n r op] by auto
  with Cons.IH [of r1] Cons.prems(2) show ?case
    by (auto simp: split_beta)
qed

end

lemmas lru_defs =
  LRUReplacer_init_def LRUReplacer_Victim_def LRUReplacer_Pin_def LRUReplacer_Unpin_def
  LRUReplacer_Size_def LRUReplacer_IsInReplacer_def lru_inv_def

lemmas clock_defs =
  ClockReplacer_init_def ClockReplacer_Victim_def ClockReplacer_Pin_def ClockReplacer_Unpin_def
  ClockReplacer_Size_def ClockReplacer_IsInReplacer_def clock_inv_def

interpretation lru: replacer LRUReplacer_init LRUReplacer_Victim LRUReplacer_Pin
  LRUReplacer_Unpin LRUReplacer_Size lru_inv wait_list
  by unfold_locales (auto simp: lru_defs iters_agree_facts iters_agree_distinct iters_agree_bound)

interpretation clock: replacer ClockReplacer_init ClockReplacer_Victim ClockReplacer_Pin
  ClockReplacer_Unpin ClockReplacer_Size clock_inv clock_wait_list
  by unfold_locales (auto simp: clock_defs iters_agree_facts iters_agree_distinct iters_agree_bound)

subsection \<open>Properties\<close>

text \<open>C33. Any sequence of calls on a fresh \<^verbatim>\<open>LRUReplacer\<close> of \<open>n\<close> frames, with frame numbers below
  \<open>n\<close>, runs without an out-of-range access and returns exactly the results of the
  least-recently-used policy.\<close>

theorem LRUReplacer_refines_lru:
  assumes "list_all (op_in_range n) ops"
  shows "\<exists>outs r ws.
    run_ops (replacer_step LRUReplacer_Victim LRUReplacer_Pin LRUReplacer_Unpin LRUReplacer_Size)
      (LRUReplacer_init n) ops = Some (outs, r) \<and>
    run_ops (\<lambda>ws op. Some (lru_spec_step ws op)) [] ops = Some (outs, ws) \<and> wait_list r = ws"
  using lru.run_refines [OF lru.init_inv assms] by (auto simp: lru.init_evictable)

theorem LRUReplacer_refines_lru_witness:
  "\<exists>outs r ws.
    run_ops (replacer_step LRUReplacer_Victim LRUReplacer_Pin LRUReplacer_Unpin LRUReplacer_Size)
      (LRUReplacer_init 3) [OpUnpin 0, OpUnpin 2, OpPin 0, OpUnpin 0, OpVictim, OpSize]
        = Some (outs, r) \<and>
    run_ops (\<lambda>ws op. Some (lru_spec_step ws op)) []
      [OpUnpin 0, OpUnpin 2, OpPin 0, OpUnpin 0, OpVictim, OpSize] = Some (outs, ws) \<and>
    wait_list r = ws"
  by (rule LRUReplacer_refines_lru) simp

text \<open>\<^verbatim>\<open>ClockReplacer\<close> is observationally the same replacer: every sequence of calls returns
  the results \<^verbatim>\<open>LRUReplacer\<close> returns, so its victim is the least recently unpinned frame and
  there is no second-chance sweep.\<close>

theorem ClockReplacer_same_as_LRUReplacer:
  assumes "list_all (op_in_range n) ops"
  shows "map_option fst
      (run_ops (replacer_step ClockReplacer_Victim ClockReplacer_Pin ClockReplacer_Unpin
        ClockReplacer_Size) (ClockReplacer_init n) ops)
    = map_option fst
      (run_ops (replacer_step LRUReplacer_Victim LRUReplacer_Pin LRUReplacer_Unpin
        LRUReplacer_Size) (LRUReplacer_init n) ops)"
  using lru.run_refines [OF lru.init_inv assms] clock.run_refines [OF clock.init_inv assms]
  by (auto simp: lru.init_evictable clock.init_evictable)

theorem ClockReplacer_same_as_LRUReplacer_witness:
  "map_option fst
      (run_ops (replacer_step ClockReplacer_Victim ClockReplacer_Pin ClockReplacer_Unpin
        ClockReplacer_Size) (ClockReplacer_init 2) [OpUnpin 1, OpUnpin 0, OpVictim])
    = map_option fst
      (run_ops (replacer_step LRUReplacer_Victim LRUReplacer_Pin LRUReplacer_Unpin
        LRUReplacer_Size) (LRUReplacer_init 2) [OpUnpin 1, OpUnpin 0, OpVictim])"
  by (rule ClockReplacer_same_as_LRUReplacer) simp

end
