(* ===== verification/DiskManager.thy ===== *)
theory DiskManager
  imports Prelude
begin

section \<open>The disk manager\<close>

text \<open>
  \<^verbatim>\<open>src/storage/disk/disk_manager.cpp\<close>. The database file and the log file are byte lists.
  Writing past the end of the file fills the gap with zero bytes, as a sparse file reads. A read
  that starts past the end leaves the caller's buffer as it is; a read that ends past the end, or
  whose seek fails, pads with zeros. Offsets keep their width: \<^verbatim>\<open>WritePage\<close> computes in
  \<open>size_t\<close>, \<^verbatim>\<open>ReadPage\<close> in \<open>int\<close>. Device failures (\<^verbatim>\<open>bad()\<close>) are not modelled, and the
  file latch makes each call one step.

  The locale \<open>page_disk\<close> is what the buffer pool relies on.
\<close>

subsection \<open>State and operations\<close>

record disk_manager =
  db_io :: bytes
  log_io :: bytes
  num_flushes :: nat
  num_writes :: nat
  flush_log :: bool
  flush_log_f :: "bool option" \<comment> \<open>the future, if set: whether it is ready within ten seconds\<close>
  buffer_used :: "nat option" \<comment> \<open>address of the log buffer written last\<close>

definition write_at :: "bytes \<Rightarrow> nat \<Rightarrow> bytes \<Rightarrow> bytes" where
  "write_at fl off data =
     (let f = fl @ replicate (off - length fl) 0
      in take off f @ data @ drop (off + length data) f)"

definition read_at :: "bytes \<Rightarrow> nat \<Rightarrow> nat \<Rightarrow> bytes" where
  "read_at fl off n = take n (drop off fl)"

definition GetFileSize :: "bytes \<Rightarrow> int" where
  "GetFileSize fl = sint (of_nat (length fl) :: 32 word)"

definition WritePage :: "config \<Rightarrow> disk_manager \<Rightarrow> page_id_t \<Rightarrow> bytes \<Rightarrow> disk_manager" where
  "WritePage cfg d page_id page_data =
     (let offset = (scast page_id :: 64 word) * of_nat (PAGE_SIZE cfg)
      in d\<lparr>num_writes := num_writes d + 1,
           db_io := write_at (db_io d) (unat offset) (take (PAGE_SIZE cfg) page_data)\<rparr>)"

definition ReadPage :: "config \<Rightarrow> disk_manager \<Rightarrow> page_id_t \<Rightarrow> bytes \<Rightarrow> bytes" where
  "ReadPage cfg d page_id page_data =
     (let offset = sint (page_id * of_nat (PAGE_SIZE cfg))
      in if offset > GetFileSize (db_io d) then page_data
         else
           let got = (if offset < 0 then [] else read_at (db_io d) (nat offset) (PAGE_SIZE cfg));
               read_count = length got
           in got @ replicate (PAGE_SIZE cfg - read_count) 0 @ drop (PAGE_SIZE cfg) page_data)"

definition WriteLog :: "disk_manager \<Rightarrow> nat \<Rightarrow> bytes \<Rightarrow> nat \<Rightarrow> disk_manager option" where
  "WriteLog d log_addr log_data n = do {
     assert_that (buffer_used d \<noteq> Some log_addr);
     let d = d\<lparr>buffer_used := Some log_addr\<rparr>;
     if n = 0 then Some d
     else do {
       let d = d\<lparr>flush_log := True\<rparr>;
       assert_that (flush_log_f d \<noteq> Some False);
       Some (d\<lparr>num_flushes := num_flushes d + 1,
               log_io := log_io d @ take n log_data,
               flush_log := False\<rparr>)
     }
   }"

definition ReadLog :: "disk_manager \<Rightarrow> bytes \<Rightarrow> nat \<Rightarrow> nat \<Rightarrow> bool \<times> bytes" where
  "ReadLog d log_data n offset =
     (if int offset \<ge> GetFileSize (log_io d) then (False, log_data)
      else let got = read_at (log_io d) offset n
           in (True, got @ replicate (n - length got) 0 @ drop n log_data))"

subsection \<open>What the buffer pool relies on\<close>

text \<open>A page is addressable if it ends below 2 GiB, where the two offset computations agree; it is
  stored if the file reaches its end.\<close>

definition addressable :: "config \<Rightarrow> page_id_t \<Rightarrow> bool" where
  "addressable cfg p \<longleftrightarrow> (unat p + 1) * PAGE_SIZE cfg < 2 ^ 31 \<and> 0 < PAGE_SIZE cfg"

definition stored :: "config \<Rightarrow> disk_manager \<Rightarrow> page_id_t \<Rightarrow> bool" where
  "stored cfg d p \<longleftrightarrow> (unat p + 1) * PAGE_SIZE cfg \<le> length (db_io d)"

definition disk_inv :: "disk_manager \<Rightarrow> bool" where
  "disk_inv d \<longleftrightarrow> length (db_io d) < 2 ^ 31"

lemma length_write_at: "length (write_at fl off data) = max (length fl) (off + length data)"
  by (auto simp: write_at_def Let_def max_def)

lemma read_write_same: "read_at (write_at fl off data) off (length data) = data"
  by (auto simp: write_at_def read_at_def Let_def)

lemma nth_write_at:
  "i < length fl \<Longrightarrow> i < off \<or> off + length data \<le> i \<Longrightarrow> write_at fl off data ! i = fl ! i"
  by (auto simp: write_at_def Let_def nth_append min_def)

lemma read_write_other:
  assumes "off + n \<le> length fl" and "off + n \<le> off' \<or> off' + length data \<le> off"
  shows "read_at (write_at fl off' data) off n = read_at fl off n"
proof (rule nth_equalityI)
  show "length (read_at (write_at fl off' data) off n) = length (read_at fl off n)"
    using assms(1) by (simp add: read_at_def length_write_at)
  fix i assume "i < length (read_at (write_at fl off' data) off n)"
  then have "i < n" by (simp add: read_at_def)
  then show "read_at (write_at fl off' data) off n ! i = read_at fl off n ! i"
    using assms nth_write_at [of "off + i" fl off' data]
    by (auto simp: read_at_def length_write_at)
qed

lemma addressable_lt: "addressable cfg p \<Longrightarrow> unat p * PAGE_SIZE cfg < 2 ^ 31"
  by (simp add: addressable_def)

lemma addressable_page_id: "addressable cfg p \<Longrightarrow> unat p < 2 ^ 31"
  by (rule le_less_trans [OF _ addressable_lt]) (auto simp: addressable_def)

lemma read_offset:
  assumes "addressable cfg p"
  shows "sint (p * of_nat (PAGE_SIZE cfg)) = int (unat p * PAGE_SIZE cfg)"
proof -
  have "sint (of_nat (unat p * PAGE_SIZE cfg) :: 32 word) = int (unat p * PAGE_SIZE cfg)"
    by (rule sint_of_nat_small) (use addressable_lt [OF assms] in simp)
  then show ?thesis by simp
qed

lemma write_offset:
  assumes "addressable cfg p"
  shows "unat ((scast p :: 64 word) * of_nat (PAGE_SIZE cfg)) = unat p * PAGE_SIZE cfg"
proof -
  have "unat (scast p :: 64 word) = unat p"
    by (rule unat_scast_up) (use addressable_page_id [OF assms] in simp_all)
  moreover have "unat (of_nat (PAGE_SIZE cfg) :: 64 word) = PAGE_SIZE cfg"
    by (rule unat_of_nat_small) (use assms in \<open>auto simp: addressable_def\<close>)
  moreover have "unat p * PAGE_SIZE cfg < 2 ^ LENGTH(64)" using addressable_lt [OF assms] by simp
  ultimately show ?thesis by (metis unat_mult_lem)
qed

lemma WritePage_simps [page_simps]:
  assumes "addressable cfg p"
  shows "db_io (WritePage cfg d p data) =
    write_at (db_io d) (unat p * PAGE_SIZE cfg) (take (PAGE_SIZE cfg) data)"
  by (simp add: WritePage_def Let_def write_offset [OF assms])

lemma ReadPage_stored:
  assumes "addressable cfg p" and "stored cfg d p" and "disk_inv d" and "length buf = PAGE_SIZE cfg"
  shows "ReadPage cfg d p buf = read_at (db_io d) (unat p * PAGE_SIZE cfg) (PAGE_SIZE cfg)"
proof -
  have "GetFileSize (db_io d) = int (length (db_io d))"
    unfolding GetFileSize_def
    by (rule sint_of_nat_small) (use assms(3) in \<open>simp add: disk_inv_def\<close>)
  moreover obtain n where n: "unat p * PAGE_SIZE cfg = n" by blast
  moreover have "n + PAGE_SIZE cfg \<le> length (db_io d)"
    using assms(2) by (simp add: stored_def flip: n)
  ultimately show ?thesis
    using assms(4) read_offset [OF assms(1), unfolded n]
    by (simp add: ReadPage_def Let_def read_at_def)
qed

lemma WritePage_stored:
  assumes "addressable cfg p" and "length data = PAGE_SIZE cfg"
  shows "stored cfg (WritePage cfg d p data) p"
    and "stored cfg d q \<Longrightarrow> stored cfg (WritePage cfg d p data) q"
  using assms by (simp_all add: stored_def page_simps length_write_at le_max_iff_disj)

lemma WritePage_disk_inv:
  "addressable cfg p \<Longrightarrow> disk_inv d \<Longrightarrow> length data = PAGE_SIZE cfg \<Longrightarrow>
   disk_inv (WritePage cfg d p data)"
  by (simp add: disk_inv_def page_simps length_write_at addressable_def algebra_simps)

lemma page_ranges_disjoint:
  assumes "p \<noteq> (q :: 32 word)"
  shows "unat q * n + n \<le> unat p * n \<or> unat p * n + n \<le> unat q * n"
proof -
  have "unat q < unat p \<or> unat p < unat q" using assms by (metis nat_neq_iff word_unat_eq_iff)
  then show ?thesis
    using mult_le_mono1 [of "Suc (unat q)" "unat p" n] mult_le_mono1 [of "Suc (unat p)" "unat q" n]
    by auto
qed

locale page_disk =
  fixes read :: "'k \<Rightarrow> page_id_t \<Rightarrow> 'd \<Rightarrow> 'd"
    and wr :: "'k \<Rightarrow> page_id_t \<Rightarrow> 'd \<Rightarrow> 'k"
    and reach :: "page_id_t \<Rightarrow> bool"
    and present :: "'k \<Rightarrow> page_id_t \<Rightarrow> bool"
    and frame_ok :: "'d \<Rightarrow> bool"
    and inv :: "'k \<Rightarrow> bool"
  assumes write_inv: "inv k \<Longrightarrow> reach p \<Longrightarrow> frame_ok x \<Longrightarrow> inv (wr k p x)"
    and write_present: "reach p \<Longrightarrow> frame_ok x \<Longrightarrow> present (wr k p x) p"
    and write_keeps_present: "reach p \<Longrightarrow> frame_ok x \<Longrightarrow> present k q \<Longrightarrow> present (wr k p x) q"
    and read_frame: "inv k \<Longrightarrow> reach p \<Longrightarrow> frame_ok b \<Longrightarrow> frame_ok (read k p b)"
    and read_same: "inv k \<Longrightarrow> reach p \<Longrightarrow> frame_ok x \<Longrightarrow> frame_ok b \<Longrightarrow> read (wr k p x) p b = x"
    and read_other: "inv k \<Longrightarrow> reach p \<Longrightarrow> reach q \<Longrightarrow> frame_ok x \<Longrightarrow> frame_ok b \<Longrightarrow>
          present k q \<Longrightarrow> p \<noteq> q \<Longrightarrow> read (wr k p x) q b = read k q b"
    and read_buffer: "inv k \<Longrightarrow> reach p \<Longrightarrow> present k p \<Longrightarrow> frame_ok b \<Longrightarrow> frame_ok b' \<Longrightarrow>
          read k p b = read k p b'"
begin

text \<open>Writing a page back with the content a read gives changes what no page reads.\<close>

lemma write_back:
  assumes "inv k" "reach p" "reach q" "present k p" "present k q" "frame_ok b" "frame_ok b'"
  shows "read (wr k p (read k p b)) q b' = read k q b'"
proof (cases "p = q")
  case True
  with assms show ?thesis by (metis read_same read_buffer read_frame)
next
  case False
  with assms show ?thesis by (simp add: read_other read_frame)
qed

end

lemma ReadPage_length:
  assumes "length buf = PAGE_SIZE cfg"
  shows "length (ReadPage cfg d p buf) = PAGE_SIZE cfg"
  using assms by (auto simp: ReadPage_def Let_def read_at_def)

interpretation dm: page_disk "ReadPage cfg" "WritePage cfg" "addressable cfg" "stored cfg"
  "\<lambda>x. length x = PAGE_SIZE cfg" disk_inv for cfg
proof (unfold_locales, goal_cases)
  case (5 k p x b)
  then have "ReadPage cfg (WritePage cfg k p x) p b =
      read_at (db_io (WritePage cfg k p x)) (unat p * PAGE_SIZE cfg) (length x)"
    by (simp add: ReadPage_stored WritePage_stored WritePage_disk_inv)
  with 5 show ?case
    using read_write_same [of "db_io k" "unat p * PAGE_SIZE cfg" x] by (simp add: page_simps)
next
  case (6 k p q x b)
  then have "ReadPage cfg (WritePage cfg k p x) q b =
      read_at (db_io (WritePage cfg k p x)) (unat q * PAGE_SIZE cfg) (PAGE_SIZE cfg)"
    by (simp add: ReadPage_stored WritePage_stored WritePage_disk_inv)
  also have "\<dots> = read_at (db_io k) (unat q * PAGE_SIZE cfg) (PAGE_SIZE cfg)"
    unfolding WritePage_simps [OF \<open>addressable cfg p\<close>]
    by (rule read_write_other)
      (use 6 page_ranges_disjoint [of p q "PAGE_SIZE cfg"] in \<open>auto simp: stored_def add.commute\<close>)
  finally show ?case using 6 by (simp add: ReadPage_stored)
qed (auto simp: WritePage_disk_inv WritePage_stored ReadPage_length ReadPage_stored)

subsection \<open>Properties\<close>

text \<open>Round trip through the file: below 2 GiB, reading a page returns what was last written to
  it, whatever the buffer held, and writing one page changes the content of no other stored
  page.\<close>

theorem WritePage_ReadPage:
  assumes "disk_inv d" and "addressable cfg p"
    and "length data = PAGE_SIZE cfg" and "length buf = PAGE_SIZE cfg"
  shows "ReadPage cfg (WritePage cfg d p data) p buf = data \<and>
         (\<forall>q. q \<noteq> p \<and> addressable cfg q \<and> stored cfg d q \<longrightarrow>
              ReadPage cfg (WritePage cfg d p data) q buf = ReadPage cfg d q buf) \<and>
         disk_inv (WritePage cfg d p data)"
  using assms dm.read_same dm.read_other dm.write_inv by metis

definition small_cfg :: config where
  "small_cfg = \<lparr>PAGE_SIZE = 4, INVALID_PAGE_ID = -1, INVALID_LSN = -1\<rparr>"

definition empty_disk :: disk_manager where
  "empty_disk = \<lparr>db_io = [], log_io = [], num_flushes = 0, num_writes = 0, flush_log = False,
     flush_log_f = None, buffer_used = None\<rparr>"

definition one_page_disk :: disk_manager where
  "one_page_disk = empty_disk\<lparr>db_io := [5, 6, 7, 8]\<rparr>"

theorem WritePage_ReadPage_witness:
  "ReadPage small_cfg (WritePage small_cfg one_page_disk 2 [1, 2, 3, 4]) 2 [9, 9, 9, 9] = [1, 2, 3, 4]
   \<and> ReadPage small_cfg (WritePage small_cfg one_page_disk 2 [1, 2, 3, 4]) 0 [9, 9, 9, 9]
       = ReadPage small_cfg one_page_disk 0 [9, 9, 9, 9]
   \<and> disk_inv (WritePage small_cfg one_page_disk 2 [1, 2, 3, 4])"
proof -
  have "disk_inv one_page_disk" "addressable small_cfg 2" "addressable small_cfg 0"
    "stored small_cfg one_page_disk 0"
    by (simp_all add: disk_inv_def one_page_disk_def addressable_def small_cfg_def stored_def)
  then show ?thesis
    using WritePage_ReadPage [of one_page_disk small_cfg 2 "[1, 2, 3, 4]" "[9, 9, 9, 9]"]
    by (simp add: small_cfg_def)
qed

text \<open>\<^verbatim>\<open>ReadPage\<close> computes its offset in a 32-bit \<open>int\<close>. With pages of 4096 bytes the
  offset of page 524288, which starts at 2 GiB, wraps to a negative number: the seek fails and the
  page reads as zeros, whatever \<^verbatim>\<open>WritePage\<close> stored there.\<close>

theorem ReadPage_offset_overflow:
  assumes "PAGE_SIZE cfg = 4096" and "length data = 4096" and "length buf = 4096"
    and "db_io d = []"
  shows "ReadPage cfg (WritePage cfg d 524288 data) 524288 buf = replicate 4096 0 \<and>
         read_at (db_io (WritePage cfg d 524288 data)) (524288 * 4096) 4096 = data"
proof -
  have len: "length (db_io (WritePage cfg d 524288 data)) = 2147487744"
    using assms by (simp add: WritePage_def Let_def length_write_at)
  have "GetFileSize (db_io (WritePage cfg d 524288 data)) = -2147479552"
    unfolding GetFileSize_def len by simp
  then show ?thesis
    using assms read_write_same [of "[]" "524288 * 4096" data]
    by (simp add: ReadPage_def WritePage_def Let_def)
qed

theorem ReadPage_offset_overflow_witness:
  "ReadPage (small_cfg\<lparr>PAGE_SIZE := 4096\<rparr>)
     (WritePage (small_cfg\<lparr>PAGE_SIZE := 4096\<rparr>) empty_disk 524288 (replicate 4096 1)) 524288
     (replicate 4096 2) = replicate 4096 0 \<and>
   read_at (db_io (WritePage (small_cfg\<lparr>PAGE_SIZE := 4096\<rparr>) empty_disk 524288 (replicate 4096 1)))
     (524288 * 4096) 4096 = replicate 4096 1"
  by (rule ReadPage_offset_overflow) (simp_all only: length_replicate, simp_all add: empty_disk_def)

end
