(* ===== verification/BufferPool.thy ===== *)
theory BufferPool
  imports Replacer DiskManager
begin

section \<open>A buffer pool instance\<close>

text \<open>
  \<^verbatim>\<open>src/buffer/buffer_pool_manager_instance.cpp\<close>. The state holds the array of frames, the page
  table, the free list, the replacer and the disk. Every public operation takes the pool's latch,
  so it is one step of the model. A result of \<^term>\<open>None\<close> is a crash: a failed \<^verbatim>\<open>assert\<close>, or an
  access to \<open>pages_[-1]\<close>. Inside, \<^verbatim>\<open>nullptr\<close> and the frame number \<open>-1\<close> are \<^term>\<open>None\<close> and
  a page pointer is the number of its frame.
\<close>

subsection \<open>State\<close>

record page =
  pg_data :: bytes
  pg_id :: page_id_t
  pin_count :: nat
  is_dirty :: bool

record bpm =
  pool_size :: nat
  num_instances :: uint32
  instance_index :: uint32
  next_page_id :: page_id_t
  pages :: "page list"
  disk :: disk_manager
  page_table :: "page_id_t \<rightharpoonup> frame_id_t"
  lru :: lru_replacer
  free_list :: "frame_id_t list"

subsection \<open>Operations\<close>

definition upd_frame :: "bpm \<Rightarrow> frame_id_t \<Rightarrow> (page \<Rightarrow> page) \<Rightarrow> bpm" where
  "upd_frame s f g = s\<lparr>pages := (pages s)[f := g (pages s ! f)]\<rparr>"

definition BufferPoolManagerInstance ::
    "config \<Rightarrow> nat \<Rightarrow> uint32 \<Rightarrow> uint32 \<Rightarrow> disk_manager \<Rightarrow> bpm option" where
  "BufferPoolManagerInstance cfg psize n idx d = do {
     assert_that (n > 0);
     assert_that (idx < n);
     Some \<lparr>pool_size = psize, num_instances = n, instance_index = idx, next_page_id = idx,
       pages = replicate psize
         \<lparr>pg_data = replicate (PAGE_SIZE cfg) 0, pg_id = INVALID_PAGE_ID cfg, pin_count = 0,
          is_dirty = False\<rparr>,
       disk = d, page_table = Map.empty, lru = LRUReplacer_init psize, free_list = [0..<psize]\<rparr>
   }"

definition FindPage :: "bpm \<Rightarrow> page_id_t \<Rightarrow> frame_id_t option" where
  "FindPage s page_id = page_table s page_id"

definition FlushPg :: "config \<Rightarrow> bpm \<Rightarrow> page_id_t \<Rightarrow> bpm option" where
  "FlushPg cfg s page_id = do {
     frame_id \<leftarrow> FindPage s page_id;
     pg \<leftarrow> vec_get (pages s) frame_id;
     Some (if is_dirty pg then s\<lparr>disk := WritePage cfg (disk s) page_id (pg_data pg)\<rparr> else s)
   }"

definition FindFreshPage :: "config \<Rightarrow> bpm \<Rightarrow> (frame_id_t option \<times> bpm) option" where
  "FindFreshPage cfg s =
     (case free_list s of
        frame_id # rest \<Rightarrow> Some (Some frame_id, s\<lparr>free_list := rest\<rparr>)
      | [] \<Rightarrow> do {
          (v, r) \<leftarrow> LRUReplacer_Victim (lru s);
          let s = s\<lparr>lru := r\<rparr>;
          case v of
            None \<Rightarrow> Some (None, s)
          | Some frame_id \<Rightarrow> do {
              pg \<leftarrow> vec_get (pages s) frame_id;
              let page_id = pg_id pg;
              s \<leftarrow> FlushPg cfg s page_id;
              let s = s\<lparr>page_table := (page_table s)(page_id := None)\<rparr>;
              Some (Some frame_id, upd_frame s frame_id (\<lambda>p. p\<lparr>is_dirty := False\<rparr>))
            }
        })"

definition ValidatePageId :: "bpm \<Rightarrow> page_id_t \<Rightarrow> unit option" where
  "ValidatePageId s page_id = assert_that (page_id mod num_instances s = instance_index s)"

definition AllocatePage :: "bpm \<Rightarrow> (page_id_t \<times> bpm) option" where
  "AllocatePage s = do {
     let next = next_page_id s;
     let s = s\<lparr>next_page_id := next + num_instances s\<rparr>;
     ValidatePageId s next;
     Some (next, s)
   }"

definition NewPgImp :: "config \<Rightarrow> bpm \<Rightarrow> ((page_id_t \<times> frame_id_t) option \<times> bpm) option" where
  "NewPgImp cfg s = do {
     (fr, s) \<leftarrow> FindFreshPage cfg s;
     case fr of
       None \<Rightarrow> Some (None, s)
     | Some frame_id \<Rightarrow> do {
         let s = upd_frame s frame_id (\<lambda>p. p\<lparr>pin_count := pin_count p + 1\<rparr>);
         (page_id, s) \<leftarrow> AllocatePage s;
         let s = upd_frame s frame_id (\<lambda>p. p\<lparr>pg_id := page_id\<rparr>);
         let s = s\<lparr>page_table := (page_table s)(page_id \<mapsto> frame_id)\<rparr>;
         let s = upd_frame s frame_id (\<lambda>p. p\<lparr>pg_data := replicate (PAGE_SIZE cfg) 0\<rparr>);
         Some (Some (page_id, frame_id), s)
       }
   }"

definition FetchPgImp :: "config \<Rightarrow> bpm \<Rightarrow> page_id_t \<Rightarrow> (frame_id_t option \<times> bpm) option" where
  "FetchPgImp cfg s page_id =
     (case FindPage s page_id of
        Some frame_id \<Rightarrow> do {
          r \<leftarrow> LRUReplacer_Pin (lru s) frame_id;
          let s = s\<lparr>lru := r\<rparr>;
          Some (Some frame_id,
            upd_frame s frame_id (\<lambda>p. p\<lparr>pin_count := pin_count p + 1, is_dirty := True\<rparr>))
        }
      | None \<Rightarrow> do {
          (fr, s) \<leftarrow> FindFreshPage cfg s;
          case fr of
            None \<Rightarrow> Some (None, s)
          | Some frame_id \<Rightarrow> do {
              let s = s\<lparr>page_table := (page_table s)(page_id \<mapsto> frame_id)\<rparr>;
              r \<leftarrow> LRUReplacer_Pin (lru s) frame_id;
              let s = s\<lparr>lru := r\<rparr>;
              let s = upd_frame s frame_id
                (\<lambda>p. p\<lparr>pg_id := page_id, pin_count := pin_count p + 1, is_dirty := False\<rparr>);
              Some (Some frame_id, upd_frame s frame_id
                (\<lambda>p. p\<lparr>pg_data := ReadPage cfg (disk s) page_id (pg_data p)\<rparr>))
            }
        })"

definition DeletePgImp :: "config \<Rightarrow> bpm \<Rightarrow> page_id_t \<Rightarrow> (bool \<times> bpm) option" where
  "DeletePgImp cfg s page_id =
     (case FindPage s page_id of
        None \<Rightarrow> Some (True, s)
      | Some frame_id \<Rightarrow> do {
          pg \<leftarrow> vec_get (pages s) frame_id;
          if pin_count pg \<noteq> 0 then Some (False, s)
          else do {
            let s = s\<lparr>page_table := (page_table s)(page_id := None)\<rparr>;
            let s = upd_frame s frame_id
              (\<lambda>p. p\<lparr>pg_id := INVALID_PAGE_ID cfg, is_dirty := False,
                     pg_data := replicate (PAGE_SIZE cfg) 0\<rparr>);
            Some (True, s\<lparr>free_list := free_list s @ [frame_id]\<rparr>)
          }
        })"

definition UnpinPgImp :: "config \<Rightarrow> bpm \<Rightarrow> page_id_t \<Rightarrow> bool \<Rightarrow> (bool \<times> bpm) option" where
  "UnpinPgImp cfg s page_id dirty =
     (case FindPage s page_id of
        None \<Rightarrow> Some (False, s)
      | Some frame_id \<Rightarrow> do {
          pg \<leftarrow> vec_get (pages s) frame_id;
          if pin_count pg = 0 then Some (False, s)
          else do {
            let s = upd_frame s frame_id
              (\<lambda>p. p\<lparr>is_dirty := dirty, pin_count := pin_count p - 1\<rparr>);
            if pin_count pg - 1 = 0 then do {
              r \<leftarrow> LRUReplacer_Unpin (lru s) frame_id;
              s \<leftarrow> FlushPg cfg (s\<lparr>lru := r\<rparr>) page_id;
              Some (True, s)
            } else Some (True, s)
          }
        })"

definition FlushPgImp :: "config \<Rightarrow> bpm \<Rightarrow> page_id_t \<Rightarrow> (bool \<times> bpm) option" where
  "FlushPgImp cfg s page_id =
     (case page_table s page_id of
        None \<Rightarrow> Some (False, s)
      | Some frame_id \<Rightarrow> do {
          s \<leftarrow> FlushPg cfg s page_id;
          Some (True, upd_frame s frame_id (\<lambda>p. p\<lparr>is_dirty := False\<rparr>))
        })"

text \<open>\<^verbatim>\<open>FlushAllPgsImp\<close> walks the hash map \<open>page_table_\<close> in an order the library chooses: \<open>order\<close>
  lists the keys of the page table.\<close>

fun FlushAllPgsImp :: "config \<Rightarrow> bpm \<Rightarrow> page_id_t list \<Rightarrow> bpm option" where
  "FlushAllPgsImp cfg s [] = Some s"
| "FlushAllPgsImp cfg s (page_id # order) = do {
     (_, s) \<leftarrow> FlushPgImp cfg s page_id;
     FlushAllPgsImp cfg s order
   }"

text \<open>A client writes the memory of a page it has pinned through the pointer the pool gave it.\<close>

definition write_frame :: "bpm \<Rightarrow> frame_id_t \<Rightarrow> bytes \<Rightarrow> bpm" where
  "write_frame s frame_id x = upd_frame s frame_id (\<lambda>p. p\<lparr>pg_data := x\<rparr>)"

subsection \<open>Invariant\<close>

text \<open>\<open>pool_inv cfg H s\<close>: the structure of the pool while the frames of \<open>H\<close> are in the hands of an
  operation. A frame is in the free list, in \<open>H\<close>, or holds a page; the page table is exactly the
  map from the pages held to their frames; and the replacer holds exactly the frames whose page
  nobody has pinned.\<close>

definition used :: "frame_id_t set \<Rightarrow> bpm \<Rightarrow> frame_id_t set" where
  "used H s = {f. f < pool_size s \<and> f \<notin> set (free_list s) \<and> f \<notin> H}"

definition pool_inv :: "config \<Rightarrow> frame_id_t set \<Rightarrow> bpm \<Rightarrow> bool" where
  "pool_inv cfg H s \<longleftrightarrow>
     length (pages s) = pool_size s \<and> lru_inv (pool_size s) (lru s) \<and>
     distinct (free_list s) \<and> set (free_list s) \<subseteq> {..<pool_size s} \<and>
     H \<subseteq> {..<pool_size s} - set (free_list s) \<and>
     (\<forall>p f. page_table s p = Some f \<longleftrightarrow> f \<in> used H s \<and> pg_id (pages s ! f) = p) \<and>
     (\<forall>f. f \<in> set (wait_list (lru s)) \<longleftrightarrow> f \<in> used H s \<and> pin_count (pages s ! f) = 0) \<and>
     (\<forall>f \<in> set (free_list s) \<union> H. pin_count (pages s ! f) = 0) \<and>
     (\<forall>f < pool_size s. length (pg_data (pages s ! f)) = PAGE_SIZE cfg) \<and>
     (\<forall>p f. page_table s p = Some f \<longrightarrow> unat p < unat (next_page_id s))"

abbreviation bpm_inv :: "config \<Rightarrow> bpm \<Rightarrow> bool" where
  "bpm_inv cfg s \<equiv> pool_inv cfg {} s"

text \<open>The content a client sees for a page: the frame that holds it, or else the disk, if the file
  reaches that far.\<close>

definition on_disk :: "config \<Rightarrow> bpm \<Rightarrow> page_id_t \<Rightarrow> bytes" where
  "on_disk cfg s p = ReadPage cfg (disk s) p (replicate (PAGE_SIZE cfg) 0)"

definition view :: "config \<Rightarrow> bpm \<Rightarrow> page_id_t \<Rightarrow> bytes option" where
  "view cfg s p =
     (case page_table s p of
        Some f \<Rightarrow> Some (pg_data (pages s ! f))
      | None \<Rightarrow> if stored cfg (disk s) p then Some (on_disk cfg s p) else None)"

definition pins :: "bpm \<Rightarrow> page_id_t \<Rightarrow> nat" where
  "pins s p = (case page_table s p of None \<Rightarrow> 0 | Some f \<Rightarrow> pin_count (pages s ! f))"

text \<open>\<open>saved cfg s p\<close>: the frame of \<open>p\<close> may be reused, because the disk has its content.
  \<open>synced\<close>: that is so for every page that may be evicted.\<close>

definition saved :: "config \<Rightarrow> bpm \<Rightarrow> page_id_t \<Rightarrow> bool" where
  "saved cfg s p \<longleftrightarrow> stored cfg (disk s) p \<and> view cfg s p = Some (on_disk cfg s p)"

definition disk_ok :: "config \<Rightarrow> bpm \<Rightarrow> bool" where
  "disk_ok cfg s \<longleftrightarrow> disk_inv (disk s) \<and> 0 < PAGE_SIZE cfg \<and>
     unat (next_page_id s) * PAGE_SIZE cfg < 2 ^ 31"

definition synced :: "config \<Rightarrow> bpm \<Rightarrow> bool" where
  "synced cfg s \<longleftrightarrow>
     disk_ok cfg s \<and> (\<forall>p. page_table s p \<noteq> None \<and> pins s p = 0 \<longrightarrow> saved cfg s p)"

lemma pool_invD:
  assumes "pool_inv cfg H s"
  shows pool_inv_length: "length (pages s) = pool_size s"
    and pool_inv_lru: "lru_inv (pool_size s) (lru s)"
    and pool_inv_free: "distinct (free_list s)" "set (free_list s) \<subseteq> {..<pool_size s}"
    and pool_inv_hand: "H \<subseteq> {..<pool_size s} - set (free_list s)"
    and pool_inv_table: "\<And>p f. page_table s p = Some f \<longleftrightarrow> f \<in> used H s \<and> pg_id (pages s ! f) = p"
    and pool_inv_wait: "\<And>f. f \<in> set (wait_list (lru s)) \<longleftrightarrow>
          f \<in> used H s \<and> pin_count (pages s ! f) = 0"
    and pool_inv_idle: "\<And>f. f \<in> set (free_list s) \<union> H \<Longrightarrow> pin_count (pages s ! f) = 0"
    and pool_inv_data: "\<And>f. f < pool_size s \<Longrightarrow> length (pg_data (pages s ! f)) = PAGE_SIZE cfg"
    and pool_inv_alloc: "\<And>p f. page_table s p = Some f \<Longrightarrow> unat p < unat (next_page_id s)"
  using assms unfolding pool_inv_def by blast+

lemma pool_invI:
  assumes "length (pages s) = pool_size s" "lru_inv (pool_size s) (lru s)"
    and "distinct (free_list s)" "set (free_list s) \<subseteq> {..<pool_size s}"
    and "H \<subseteq> {..<pool_size s} - set (free_list s)"
    and "\<And>p f. page_table s p = Some f \<longleftrightarrow> f \<in> used H s \<and> pg_id (pages s ! f) = p"
    and "\<And>f. f \<in> set (wait_list (lru s)) \<longleftrightarrow> f \<in> used H s \<and> pin_count (pages s ! f) = 0"
    and "\<And>f. f \<in> set (free_list s) \<union> H \<Longrightarrow> pin_count (pages s ! f) = 0"
    and "\<And>f. f < pool_size s \<Longrightarrow> length (pg_data (pages s ! f)) = PAGE_SIZE cfg"
    and "\<And>p f. page_table s p = Some f \<Longrightarrow> unat p < unat (next_page_id s)"
  shows "pool_inv cfg H s"
  using assms unfolding pool_inv_def by blast

lemma used_lt: "f \<in> used H s \<Longrightarrow> f < pool_size s"
  by (simp add: used_def)

lemma pool_inv_frame: "pool_inv cfg H s \<Longrightarrow> page_table s p = Some f \<Longrightarrow> f < length (pages s)"
  by (simp add: pool_inv_def used_def)

lemma pool_inv_inj:
  assumes "pool_inv cfg H s" and "f \<in> used H s" and "g \<in> used H s"
    and "pg_id (pages s ! f) = pg_id (pages s ! g)"
  shows "f = g"
  using assms pool_inv_table [OF assms(1)] by (metis option.inject)

lemma upd_frame_simps [simp]:
  "pool_size (upd_frame s f g) = pool_size s"
  "num_instances (upd_frame s f g) = num_instances s"
  "instance_index (upd_frame s f g) = instance_index s"
  "next_page_id (upd_frame s f g) = next_page_id s"
  "disk (upd_frame s f g) = disk s"
  "page_table (upd_frame s f g) = page_table s"
  "lru (upd_frame s f g) = lru s"
  "free_list (upd_frame s f g) = free_list s"
  "length (pages (upd_frame s f g)) = length (pages s)"
  "pages (upd_frame s f g) = (pages s)[f := g (pages s ! f)]"
  by (simp_all add: upd_frame_def)

lemma FlushPg_spec:
  assumes "pool_inv cfg H s" and "page_table s p = Some f"
  shows "FlushPg cfg s p =
    Some (if is_dirty (pages s ! f)
          then s\<lparr>disk := WritePage cfg (disk s) p (pg_data (pages s ! f))\<rparr> else s)"
  using assms pool_inv_frame [OF assms] by (simp add: FlushPg_def FindPage_def)

lemma pool_inv_disk: "pool_inv cfg H (s\<lparr>disk := d\<rparr>) \<longleftrightarrow> pool_inv cfg H s"
  by (simp add: pool_inv_def used_def)

text \<open>Changing the dirty flag or the bytes of a frame keeps the structure.\<close>

lemma pool_inv_upd_frame:
  assumes "pool_inv cfg H s"
    and "\<And>p. pg_id (g p) = pg_id p" and "\<And>p. pin_count (g p) = pin_count p"
    and "\<And>p. length (pg_data p) = PAGE_SIZE cfg \<Longrightarrow> length (pg_data (g p)) = PAGE_SIZE cfg"
  shows "pool_inv cfg H (upd_frame s f g)"
proof (cases "f < length (pages s)")
  case True
  have "\<And>i. pg_id ((pages s)[f := g (pages s ! f)] ! i) = pg_id (pages s ! i)"
    and "\<And>i. pin_count ((pages s)[f := g (pages s ! f)] ! i) = pin_count (pages s ! i)"
    using assms(2,3) True by (metis nth_list_update)+
  moreover have "\<forall>i < pool_size s.
      length (pg_data ((pages s)[f := g (pages s ! f)] ! i)) = PAGE_SIZE cfg"
    using assms(4) pool_inv_data [OF assms(1)] True pool_inv_length [OF assms(1)]
    by (auto simp: nth_list_update)
  ultimately show ?thesis
    using assms(1) unfolding pool_inv_def used_def by simp
next
  case False
  then show ?thesis using assms(1) by (simp add: upd_frame_def list_update_beyond)
qed

subsection \<open>Taking a frame\<close>

text \<open>What \<^verbatim>\<open>FindFreshPage\<close> does, on its three ways out.\<close>

definition evict :: "config \<Rightarrow> bpm \<Rightarrow> lru_replacer \<Rightarrow> frame_id_t \<Rightarrow> bpm" where
  "evict cfg s r f = (let p = pages s ! f in
     s\<lparr>lru := r, page_table := (page_table s)(pg_id p := None),
       disk := (if is_dirty p then WritePage cfg (disk s) (pg_id p) (pg_data p) else disk s),
       pages := (pages s)[f := p\<lparr>is_dirty := False\<rparr>]\<rparr>)"

lemma evict_simps [simp]:
  "pool_size (evict cfg s r f) = pool_size s"
  "free_list (evict cfg s r f) = free_list s"
  "next_page_id (evict cfg s r f) = next_page_id s"
  "num_instances (evict cfg s r f) = num_instances s"
  "instance_index (evict cfg s r f) = instance_index s"
  "lru (evict cfg s r f) = r"
  "length (pages (evict cfg s r f)) = length (pages s)"
  by (simp_all add: evict_def Let_def)

lemma pool_inv_lru_hand:
  assumes "pool_inv cfg {} s" and "f \<in> used {} s" and "pin_count (pages s ! f) = 0"
    and "lru_inv (pool_size s) r" and "set (wait_list r) = set (wait_list (lru s)) - {f}"
  shows "pool_inv cfg {f} (evict cfg s r f)"
proof -
  have f: "f < length (pages s)" using assms(1,2) by (simp add: pool_inv_def used_def)
  have u: "used {f} (evict cfg s r f) = used {} s - {f}"
    by (auto simp: used_def evict_def Let_def)
  have "\<And>p g. page_table (evict cfg s r f) p = Some g \<longleftrightarrow>
      g \<in> used {} s - {f} \<and> pg_id (pages (evict cfg s r f) ! g) = p"
    using pool_inv_table [OF assms(1)] pool_inv_inj [OF assms(1,2)] assms(2) f
    by (auto simp: evict_def Let_def nth_list_update)
  moreover have "\<And>g. g \<in> set (wait_list r) \<longleftrightarrow>
      g \<in> used {} s - {f} \<and> pin_count (pages (evict cfg s r f) ! g) = 0"
    using pool_inv_wait [OF assms(1)] assms(5) f
    by (auto simp: evict_def Let_def nth_list_update)
  moreover have "\<And>p g. page_table (evict cfg s r f) p = Some g \<Longrightarrow> page_table s p = Some g"
    by (auto simp: evict_def Let_def split: if_splits)
  moreover have "\<And>g. g \<in> set (free_list s) \<union> {f} \<Longrightarrow> pin_count (pages (evict cfg s r f) ! g) = 0"
    using pool_inv_idle [OF assms(1)] assms(3) f by (auto simp: evict_def Let_def nth_list_update)
  moreover have "\<And>g. g < pool_size s \<Longrightarrow>
      length (pg_data (pages (evict cfg s r f) ! g)) = PAGE_SIZE cfg"
    using pool_inv_data [OF assms(1)] f by (auto simp: evict_def Let_def nth_list_update)
  moreover have "f < pool_size s \<and> f \<notin> set (free_list s)" using assms(2) by (simp add: used_def)
  ultimately show ?thesis
    using pool_invD(1-5) [OF assms(1)] assms(4) pool_inv_alloc [OF assms(1)] unfolding u [symmetric]
    by - (rule pool_invI, simp_all)
qed

lemma FindFreshPage_cases:
  assumes inv: "bpm_inv cfg s"
  obtains
    (full) "FindFreshPage cfg s = Some (None, s)" "free_list s = []"
      "\<And>f. f < pool_size s \<Longrightarrow> 0 < pin_count (pages s ! f)"
  | (free) f rest where "free_list s = f # rest"
      "FindFreshPage cfg s = Some (Some f, s\<lparr>free_list := rest\<rparr>)"
      "pool_inv cfg {f} (s\<lparr>free_list := rest\<rparr>)"
  | (victim) f r where "free_list s = []" "f \<in> used {} s" "pin_count (pages s ! f) = 0"
      "page_table s (pg_id (pages s ! f)) = Some f"
      "FindFreshPage cfg s = Some (Some f, evict cfg s r f)"
      "pool_inv cfg {f} (evict cfg s r f)"
proof (cases "free_list s")
  case (Cons f rest)
  have "used {f} (s\<lparr>free_list := rest\<rparr>) = used {} s" using Cons by (auto simp: used_def)
  moreover have "f < pool_size s \<and> f \<notin> set rest" using inv Cons by (auto simp: pool_inv_def)
  ultimately have "pool_inv cfg {f} (s\<lparr>free_list := rest\<rparr>)"
    using inv Cons by (auto simp: pool_inv_def)
  then show ?thesis using free Cons by (simp add: FindFreshPage_def)
next
  case Nil
  from pool_inv_lru [OF inv] show ?thesis
  proof (cases rule: lru.victim_cases)
    case none
    then have "\<And>f. f < pool_size s \<Longrightarrow> 0 < pin_count (pages s ! f)"
      using Nil pool_inv_wait [OF inv] by (fastforce simp: used_def)
    moreover have "FindFreshPage cfg s = Some (None, s)"
      using none Nil by (simp add: FindFreshPage_def)
    ultimately show ?thesis using full Nil by blast
  next
    case (some f r)
    then have u: "f \<in> used {} s" and pc: "pin_count (pages s ! f) = 0"
      using pool_inv_wait [OF inv, of f] by auto
    have fl: "f < length (pages s)" using u pool_inv_length [OF inv] by (simp add: used_def)
    have pt: "page_table s (pg_id (pages s ! f)) = Some f"
      using pool_inv_table [OF inv] u by blast
    have "pool_inv cfg {f} (evict cfg s r f)"
      using pool_inv_lru_hand [OF inv u pc] some by auto
    moreover have "FindFreshPage cfg s = Some (Some f, evict cfg s r f)"
      using some Nil fl pt
      by (simp add: FindFreshPage_def FlushPg_def FindPage_def evict_def Let_def upd_frame_def)
    ultimately show ?thesis using victim Nil u pc pt by blast
  qed
qed

subsection \<open>Putting a page into a frame\<close>

definition install :: "bpm \<Rightarrow> frame_id_t \<Rightarrow> page \<Rightarrow> lru_replacer \<Rightarrow> page_id_t \<Rightarrow> bpm" where
  "install s f pg r next =
     s\<lparr>page_table := (page_table s)(pg_id pg \<mapsto> f), pages := (pages s)[f := pg], lru := r,
       next_page_id := next\<rparr>"

lemma pool_inv_install:
  assumes inv: "pool_inv cfg {f} s" and new: "page_table s (pg_id pg) = None"
    and pc: "pin_count pg \<noteq> 0" and len: "length (pg_data pg) = PAGE_SIZE cfg"
    and r: "lru_inv (pool_size s) r" "set (wait_list r) = set (wait_list (lru s))"
    and nx: "unat (pg_id pg) < unat n" "unat (next_page_id s) \<le> unat n"
  shows "bpm_inv cfg (install s f pg r n)"
proof (rule pool_invI)
  let ?s = "install s f pg r n"
  have f: "f < pool_size s" "f \<notin> set (free_list s)" using pool_inv_hand [OF inv] by auto
  then have fl: "f < length (pages s)" using pool_inv_length [OF inv] by simp
  have u: "used {} ?s = insert f (used {f} s)"
    using f by (auto simp: used_def install_def)
  have fu: "f \<notin> used {f} s" by (simp add: used_def)
  show "page_table ?s p = Some g \<longleftrightarrow> g \<in> used {} ?s \<and> pg_id (pages ?s ! g) = p" for p g
    using pool_inv_table [OF inv, of p g] new fu fl unfolding u
    by (auto simp: install_def nth_list_update)
  show "g \<in> set (wait_list (lru ?s)) \<longleftrightarrow> g \<in> used {} ?s \<and> pin_count (pages ?s ! g) = 0" for g
    using pool_inv_wait [OF inv, of g] r(2) pc fu fl unfolding u
    by (auto simp: install_def nth_list_update)
  show "length (pg_data (pages ?s ! g)) = PAGE_SIZE cfg" if "g < pool_size ?s" for g
    using pool_inv_data [OF inv] that len fl by (auto simp: install_def nth_list_update)
  show "unat p < unat (next_page_id ?s)" if "page_table ?s p = Some g" for p g
    using pool_inv_alloc [OF inv, of p g] that nx by (auto simp: install_def split: if_splits)
  show "pin_count (pages ?s ! g) = 0" if "g \<in> set (free_list ?s) \<union> {}" for g
    using pool_inv_idle [OF inv, of g] that f fl by (auto simp: install_def nth_list_update)
qed (use pool_invD(1-5) [OF inv] r(1) in \<open>auto simp: install_def\<close>)

text \<open>The allocator's own condition: identifiers step by the number of instances, and the counter
  does not wrap.\<close>

definition aligned :: "bpm \<Rightarrow> bool" where
  "aligned s \<longleftrightarrow> 0 < num_instances s \<and> next_page_id s mod num_instances s = instance_index s"

definition no_wrap :: "bpm \<Rightarrow> bool" where
  "no_wrap s \<longleftrightarrow> unat (next_page_id s) + unat (num_instances s) < 2 ^ 32"

definition room :: "bpm \<Rightarrow> bool" where
  "room s \<longleftrightarrow> aligned s \<and> no_wrap s"

lemmas room_defs = room_def aligned_def no_wrap_def

definition allocated :: "bpm \<Rightarrow> page_id_t \<Rightarrow> bool" where
  "allocated s p \<longleftrightarrow> unat p < unat (next_page_id s)"

lemma next_page_id_grows:
  assumes "room s"
  shows "unat (next_page_id s + num_instances s) = unat (next_page_id s) + unat (num_instances s)"
    and "unat (next_page_id s) < unat (next_page_id s + num_instances s)"
proof -
  show *: "unat (next_page_id s + num_instances s) = unat (next_page_id s) + unat (num_instances s)"
    using assms by (simp add: room_defs unat_word_ariths)
  have "0 < unat (num_instances s)" using assms by (simp add: room_defs unat_gt_0 word_neq_0_conv)
  then show "unat (next_page_id s) < unat (next_page_id s + num_instances s)" by (simp add: *)
qed

lemma aligned_step:
  assumes "room s"
  shows "(next_page_id s + num_instances s) mod num_instances s = instance_index s"
proof -
  have "unat ((next_page_id s + num_instances s) mod num_instances s)
      = unat (next_page_id s mod num_instances s)"
    by (simp add: unat_mod_distrib next_page_id_grows(1) [OF assms])
  then show ?thesis using assms by (simp add: word_unat_eq_iff room_defs)
qed

lemma not_allocated_absent: "pool_inv cfg H s \<Longrightarrow> \<not> allocated s p \<Longrightarrow> page_table s p = None"
  using pool_inv_alloc by (fastforce simp: allocated_def)

text \<open>\<open>fresh cfg s f s'\<close>: the pool had a frame to give, and gave \<open>f\<close>.\<close>

definition fresh :: "config \<Rightarrow> bpm \<Rightarrow> frame_id_t \<Rightarrow> bpm \<Rightarrow> bool" where
  "fresh cfg s f s' \<longleftrightarrow>
     FindFreshPage cfg s = Some (Some f, s') \<and> pool_inv cfg {f} s' \<and>
     ((\<exists>rest. free_list s = f # rest \<and> s' = s\<lparr>free_list := rest\<rparr>) \<or>
      (\<exists>r. free_list s = [] \<and> f \<in> used {} s \<and> pin_count (pages s ! f) = 0 \<and>
           page_table s (pg_id (pages s ! f)) = Some f \<and> s' = evict cfg s r f))"

lemma fresh_cases:
  assumes "bpm_inv cfg s"
  obtains (full) "FindFreshPage cfg s = Some (None, s)"
      "\<And>f. f < pool_size s \<Longrightarrow> 0 < pin_count (pages s ! f)"
    | (fresh) f s' where "fresh cfg s f s'"
  using assms
  by (cases rule: FindFreshPage_cases) (auto simp: fresh_def intro: that)

lemma fresh_simps:
  assumes "fresh cfg s f s'"
  shows "pool_size s' = pool_size s" "next_page_id s' = next_page_id s"
    "num_instances s' = num_instances s" "instance_index s' = instance_index s"
    "page_table s' p = Some g \<Longrightarrow> page_table s p = Some g"
    "page_table s p = None \<Longrightarrow> page_table s' p = None"
    "length (pages s') = length (pages s)"
    "g \<noteq> f \<Longrightarrow> pages s' ! g = pages s ! g"
  using assms by (auto simp: fresh_def evict_def Let_def split: if_splits)

lemma fresh_inv: "fresh cfg s f s' \<Longrightarrow> pool_inv cfg {f} s'"
  by (simp add: fresh_def)

lemma fresh_lru: "fresh cfg s f s' \<Longrightarrow> lru_inv (pool_size s') (lru s')"
  by (rule pool_inv_lru [OF fresh_inv])

lemma fresh_frame:
  assumes "fresh cfg s f s'"
  shows "f < pool_size s" "f < length (pages s')" "pin_count (pages s' ! f) = 0"
    "length (pg_data (pages s' ! f)) = PAGE_SIZE cfg"
proof -
  have inv: "pool_inv cfg {f} s'" using assms by (simp add: fresh_def)
  show "f < pool_size s" using pool_inv_hand [OF inv] fresh_simps(1) [OF assms] by auto
  then show "f < length (pages s')" "length (pg_data (pages s' ! f)) = PAGE_SIZE cfg"
    using pool_inv_length [OF inv] pool_inv_data [OF inv] fresh_simps(1) [OF assms] by auto
  show "pin_count (pages s' ! f) = 0" using pool_inv_idle [OF inv] by simp
qed

lemma fresh_not_waiting: "fresh cfg s f s' \<Longrightarrow> f \<notin> set (wait_list (lru s'))"
  using pool_inv_wait [of cfg "{f}" s' f] by (simp add: fresh_def used_def)

definition new_frame :: "config \<Rightarrow> bpm \<Rightarrow> frame_id_t \<Rightarrow> page" where
  "new_frame cfg s f = (pages s ! f)\<lparr>pin_count := 1, pg_id := next_page_id s,
     pg_data := replicate (PAGE_SIZE cfg) 0\<rparr>"

lemma NewPgImp_cases:
  assumes inv: "bpm_inv cfg s" and room: "room s"
  obtains (full) "NewPgImp cfg s = Some (None, s)"
      "\<And>f. f < pool_size s \<Longrightarrow> 0 < pin_count (pages s ! f)"
    | (new) f s1 where "fresh cfg s f s1"
      "NewPgImp cfg s = Some (Some (next_page_id s, f),
         install s1 f (new_frame cfg s1 f) (lru s1) (next_page_id s + num_instances s))"
      "bpm_inv cfg (install s1 f (new_frame cfg s1 f) (lru s1) (next_page_id s + num_instances s))"
  using inv
proof (cases rule: fresh_cases)
  case full
  then show ?thesis using that(1) by (simp add: NewPgImp_def)
next
  case (fresh f s1)
  note ff = fresh_frame [OF fresh] and fs = fresh_simps [OF fresh]
  have "NewPgImp cfg s = Some (Some (next_page_id s, f),
      install s1 f (new_frame cfg s1 f) (lru s1) (next_page_id s + num_instances s))"
    using fresh room ff fs
    by (simp add: NewPgImp_def fresh_def AllocatePage_def ValidatePageId_def room_defs Let_def
        install_def new_frame_def upd_frame_def)
  moreover have "bpm_inv cfg
      (install s1 f (new_frame cfg s1 f) (lru s1) (next_page_id s + num_instances s))"
  proof (rule pool_inv_install)
    show "pool_inv cfg {f} s1" by (rule fresh_inv [OF fresh])
    then show "page_table s1 (pg_id (new_frame cfg s1 f)) = None"
      by (rule not_allocated_absent) (simp add: allocated_def new_frame_def)
  qed (use fresh_lru [OF fresh] next_page_id_grows [OF room] fs in \<open>simp_all add: new_frame_def\<close>)
  ultimately show ?thesis using that(2) fresh by blast
qed

subsection \<open>Fetching\<close>

definition fetched_frame :: "config \<Rightarrow> bpm \<Rightarrow> frame_id_t \<Rightarrow> page_id_t \<Rightarrow> page" where
  "fetched_frame cfg s f p = (pages s ! f)\<lparr>pg_id := p, pin_count := 1, is_dirty := False,
     pg_data := ReadPage cfg (disk s) p (pg_data (pages s ! f))\<rparr>"

text \<open>Moving a held page's pin count between zero and non-zero goes with the replacer.\<close>

lemma pool_inv_repin:
  assumes inv: "bpm_inv cfg s" and pt: "page_table s p = Some f"
    and g: "pg_id (g (pages s ! f)) = p" "length (pg_data (g (pages s ! f))) = PAGE_SIZE cfg"
    and r: "lru_inv (pool_size s) r"
      "set (wait_list r) = (if pin_count (g (pages s ! f)) = 0 then insert f else (\<lambda>X. X - {f}))
         (set (wait_list (lru s)))"
  shows "bpm_inv cfg (upd_frame (s\<lparr>lru := r\<rparr>) f g)"
proof (rule pool_invI)
  let ?s = "upd_frame (s\<lparr>lru := r\<rparr>) f g"
  have fl: "f < length (pages s)" and fu: "f \<in> used {} s"
    using pool_inv_frame [OF inv pt] pool_inv_table [OF inv, of p f] pt by auto
  have u: "used {} ?s = used {} s" by (simp add: used_def)
  show "page_table ?s q = Some h \<longleftrightarrow> h \<in> used {} ?s \<and> pg_id (pages ?s ! h) = q" for q h
    using pool_inv_table [OF inv, of q h] pool_inv_table [OF inv, of p f] g(1) pt fl unfolding u
    by (auto simp: nth_list_update)
  show "h \<in> set (wait_list (lru ?s)) \<longleftrightarrow> h \<in> used {} ?s \<and> pin_count (pages ?s ! h) = 0" for h
    using pool_inv_wait [OF inv, of h] r(2) fl fu unfolding u
    by (auto simp: nth_list_update)
  show "length (pg_data (pages ?s ! h)) = PAGE_SIZE cfg" if "h < pool_size ?s" for h
    using pool_inv_data [OF inv] that g(2) fl by (auto simp: nth_list_update)
  show "unat q < unat (next_page_id ?s)" if "page_table ?s q = Some h" for q h
    using pool_inv_alloc [OF inv] that by simp
  show "pin_count (pages ?s ! h) = 0" if "h \<in> set (free_list ?s) \<union> {}" for h
    using pool_inv_idle [OF inv, of h] that fu fl by (auto simp: used_def nth_list_update)
qed (use pool_invD(1-5) [OF inv] r(1) in auto)

lemma FetchPgImp_cases:
  assumes inv: "bpm_inv cfg s" and al: "allocated s p"
  obtains (hit) f r where "page_table s p = Some f"
      "FetchPgImp cfg s p = Some (Some f,
         upd_frame (s\<lparr>lru := r\<rparr>) f (\<lambda>p. p\<lparr>pin_count := pin_count p + 1, is_dirty := True\<rparr>))"
      "bpm_inv cfg
         (upd_frame (s\<lparr>lru := r\<rparr>) f (\<lambda>p. p\<lparr>pin_count := pin_count p + 1, is_dirty := True\<rparr>))"
    | (full) "page_table s p = None" "FetchPgImp cfg s p = Some (None, s)"
      "\<And>f. f < pool_size s \<Longrightarrow> 0 < pin_count (pages s ! f)"
    | (miss) f s1 r where "page_table s p = None" "fresh cfg s f s1"
      "FetchPgImp cfg s p = Some (Some f, install s1 f (fetched_frame cfg s1 f p) r (next_page_id s))"
      "bpm_inv cfg (install s1 f (fetched_frame cfg s1 f p) r (next_page_id s))"
proof (cases "page_table s p")
  case (Some f)
  have f: "f < pool_size s" using pool_inv_frame [OF inv Some] pool_inv_length [OF inv] by simp
  with pool_inv_lru [OF inv] obtain r where r: "LRUReplacer_Pin (lru s) f = Some r"
      "lru_inv (pool_size s) r" "set (wait_list r) = set (wait_list (lru s)) - {f}"
    using lru.pin_cases by metis
  have "bpm_inv cfg
      (upd_frame (s\<lparr>lru := r\<rparr>) f (\<lambda>p. p\<lparr>pin_count := pin_count p + 1, is_dirty := True\<rparr>))"
    by (rule pool_inv_repin [OF inv Some])
      (use r f pool_inv_data [OF inv] pool_inv_table [OF inv, of p f] Some in auto)
  then show ?thesis using hit Some r by (simp add: FetchPgImp_def FindPage_def)
next
  case None
  from inv show ?thesis
  proof (cases rule: fresh_cases)
    case full': full
    then show ?thesis using full None by (simp add: FetchPgImp_def FindPage_def)
  next
    case (fresh f s1)
    note ff = fresh_frame [OF fresh] and fs = fresh_simps [OF fresh]
    have f1: "f < pool_size s1" using ff fs by simp
    with fresh_lru [OF fresh] obtain r where r: "LRUReplacer_Pin (lru s1) f = Some r"
        "lru_inv (pool_size s1) r" "set (wait_list r) = set (wait_list (lru s1)) - {f}"
      using lru.pin_cases by metis
    have "FetchPgImp cfg s p =
        Some (Some f, install s1 f (fetched_frame cfg s1 f p) r (next_page_id s))"
      using None fresh r ff fs
      by (simp add: FetchPgImp_def FindPage_def fresh_def Let_def install_def fetched_frame_def
          upd_frame_def)
    moreover have "bpm_inv cfg (install s1 f (fetched_frame cfg s1 f p) r (next_page_id s))"
      by (rule pool_inv_install [OF fresh_inv [OF fresh]])
        (use r fs ff None al fresh_not_waiting [OF fresh] in
          \<open>simp_all add: fetched_frame_def ReadPage_length allocated_def\<close>)
    ultimately show ?thesis using miss None fresh by blast
  qed
qed

subsection \<open>Unpinning, flushing, writing\<close>

definition flushed :: "config \<Rightarrow> bpm \<Rightarrow> page_id_t \<Rightarrow> frame_id_t \<Rightarrow> bpm" where
  "flushed cfg s p f =
     (if is_dirty (pages s ! f) then s\<lparr>disk := WritePage cfg (disk s) p (pg_data (pages s ! f))\<rparr>
      else s)"

lemma pool_inv_flushed: "pool_inv cfg H (flushed cfg s p f) \<longleftrightarrow> pool_inv cfg H s"
  by (simp add: flushed_def pool_inv_disk)

lemma UnpinPgImp_cases:
  assumes inv: "bpm_inv cfg s"
  obtains (refused) "pins s p = 0" "UnpinPgImp cfg s p d = Some (False, s)"
    | (held) f where "page_table s p = Some f" "1 < pins s p"
      "UnpinPgImp cfg s p d =
         Some (True, upd_frame s f (\<lambda>p. p\<lparr>is_dirty := d, pin_count := pin_count p - 1\<rparr>))"
      "bpm_inv cfg (upd_frame s f (\<lambda>p. p\<lparr>is_dirty := d, pin_count := pin_count p - 1\<rparr>))"
    | (last) f r s1 where "page_table s p = Some f" "pins s p = 1"
      "s1 = upd_frame (s\<lparr>lru := r\<rparr>) f (\<lambda>p. p\<lparr>is_dirty := d, pin_count := 0\<rparr>)"
      "UnpinPgImp cfg s p d = Some (True, flushed cfg s1 p f)"
      "bpm_inv cfg s1"
proof (cases "page_table s p")
  case None
  then show ?thesis using refused by (simp add: UnpinPgImp_def FindPage_def pins_def)
next
  case (Some f)
  note fl = pool_inv_frame [OF inv Some]
  have f: "f < pool_size s" using fl pool_inv_length [OF inv] by simp
  have id: "pg_id (pages s ! f) = p" using pool_inv_table [OF inv, of p f] Some by simp
  have fu: "f \<in> used {} s" using pool_inv_table [OF inv, of p f] Some by simp
  consider "pin_count (pages s ! f) = 0" | "1 < pin_count (pages s ! f)"
    | "pin_count (pages s ! f) = 1" by linarith
  then show ?thesis
  proof cases
    case 1
    then show ?thesis using refused Some fl by (simp add: UnpinPgImp_def FindPage_def pins_def)
  next
    case 2
    let ?g = "\<lambda>p. p\<lparr>is_dirty := d, pin_count := pin_count p - 1\<rparr>"
    have "bpm_inv cfg (upd_frame (s\<lparr>lru := lru s\<rparr>) f ?g)"
      by (rule pool_inv_repin [OF inv Some])
        (use id f 2 pool_inv_data [OF inv] pool_inv_lru [OF inv] pool_inv_wait [OF inv, of f] in auto)
    then show ?thesis
      using held Some 2 fl by (simp add: UnpinPgImp_def FindPage_def pins_def)
  next
    case 3
    let ?g = "\<lambda>p. p\<lparr>is_dirty := d, pin_count := 0\<rparr>"
    from pool_inv_lru [OF inv] f obtain r where r: "LRUReplacer_Unpin (lru s) f = Some r"
        "lru_inv (pool_size s) r" "set (wait_list r) = insert f (set (wait_list (lru s)))"
      using lru.unpin_cases by metis
    have inv1: "bpm_inv cfg (upd_frame (s\<lparr>lru := r\<rparr>) f ?g)"
      by (rule pool_inv_repin [OF inv Some]) (use id f 3 r pool_inv_data [OF inv] in auto)
    have "UnpinPgImp cfg s p d = Some (True, flushed cfg (upd_frame (s\<lparr>lru := r\<rparr>) f ?g) p f)"
      using Some 3 fl r
      by (simp add: UnpinPgImp_def FindPage_def FlushPg_def flushed_def upd_frame_def)
    then show ?thesis using last Some 3 inv1 by (simp add: pins_def)
  qed
qed

lemma FlushPgImp_cases:
  assumes inv: "bpm_inv cfg s"
  obtains (absent) "page_table s p = None" "FlushPgImp cfg s p = Some (False, s)"
    | (ok) f where "page_table s p = Some f"
      "FlushPgImp cfg s p =
         Some (True, upd_frame (flushed cfg s p f) f (\<lambda>p. p\<lparr>is_dirty := False\<rparr>))"
      "bpm_inv cfg (upd_frame (flushed cfg s p f) f (\<lambda>p. p\<lparr>is_dirty := False\<rparr>))"
proof (cases "page_table s p")
  case None
  then show ?thesis using absent by (simp add: FlushPgImp_def)
next
  case (Some f)
  have "bpm_inv cfg (upd_frame (flushed cfg s p f) f (\<lambda>p. p\<lparr>is_dirty := False\<rparr>))"
    by (rule pool_inv_upd_frame) (simp_all add: pool_inv_flushed inv)
  then show ?thesis
    using ok Some FlushPg_spec [OF inv Some] by (simp add: FlushPgImp_def flushed_def)
qed

lemma write_frame_inv:
  "bpm_inv cfg s \<Longrightarrow> length x = PAGE_SIZE cfg \<Longrightarrow> bpm_inv cfg (write_frame s f x)"
  unfolding write_frame_def by (rule pool_inv_upd_frame) simp_all

lemma DeletePgImp_refused:
  assumes "bpm_inv cfg s" and "page_table s p = None \<or> 0 < pins s p"
  shows "DeletePgImp cfg s p = Some (page_table s p = None, s)"
  using assms pool_inv_frame [OF assms(1)]
  by (auto simp: DeletePgImp_def FindPage_def pins_def split: option.splits)

lemma constructor_inv:
  assumes "BufferPoolManagerInstance cfg psize n idx d = Some s"
  shows "bpm_inv cfg s" and "num_instances s = n" and "instance_index s = idx"
    and "next_page_id s = idx" and "0 < n" and "idx < n" and "pool_size s = psize"
proof -
  have s: "s = \<lparr>pool_size = psize, num_instances = n, instance_index = idx, next_page_id = idx,
       pages = replicate psize
         \<lparr>pg_data = replicate (PAGE_SIZE cfg) 0, pg_id = INVALID_PAGE_ID cfg, pin_count = 0,
          is_dirty = False\<rparr>,
       disk = d, page_table = Map.empty, lru = LRUReplacer_init psize, free_list = [0..<psize]\<rparr>"
    and "0 < n" "idx < n"
    using assms by (auto simp: BufferPoolManagerInstance_def crash_simps)
  then show "0 < n" "idx < n" "num_instances s = n" "instance_index s = idx" "next_page_id s = idx"
    "pool_size s = psize" by auto
  show "bpm_inv cfg s"
    by (rule pool_invI)
      (auto simp: s used_def lru.init_inv lru.init_evictable)
qed

subsection \<open>Reachable states\<close>

text \<open>The states clients can bring a pool into: they fetch pages that were allocated, write whole
  pages through the pointer of a page they hold pinned, and delete no page that is resident and
  unpinned (that case is the subject of \<open>DeletePgImp_frame_in_two_lists\<close>).\<close>

inductive bpm_reachable :: "config \<Rightarrow> bpm \<Rightarrow> bool" for cfg where
  start: "BufferPoolManagerInstance cfg psize n idx d = Some s \<Longrightarrow> bpm_reachable cfg s"
| new_page: "bpm_reachable cfg s \<Longrightarrow> no_wrap s \<Longrightarrow> NewPgImp cfg s = Some (r, s') \<Longrightarrow>
    bpm_reachable cfg s'"
| fetch: "bpm_reachable cfg s \<Longrightarrow> allocated s p \<Longrightarrow> FetchPgImp cfg s p = Some (f, s') \<Longrightarrow>
    bpm_reachable cfg s'"
| unpin: "bpm_reachable cfg s \<Longrightarrow> UnpinPgImp cfg s p d = Some (b, s') \<Longrightarrow> bpm_reachable cfg s'"
| flush: "bpm_reachable cfg s \<Longrightarrow> FlushPgImp cfg s p = Some (b, s') \<Longrightarrow> bpm_reachable cfg s'"
| flush_all: "bpm_reachable cfg s \<Longrightarrow> FlushAllPgsImp cfg s order = Some s' \<Longrightarrow>
    bpm_reachable cfg s'"
| delete: "bpm_reachable cfg s \<Longrightarrow> page_table s p = None \<or> 0 < pins s p \<Longrightarrow>
    DeletePgImp cfg s p = Some (b, s') \<Longrightarrow> bpm_reachable cfg s'"
| client_write: "bpm_reachable cfg s \<Longrightarrow> page_table s p = Some f \<Longrightarrow> 0 < pins s p \<Longrightarrow>
    length x = PAGE_SIZE cfg \<Longrightarrow> bpm_reachable cfg (write_frame s f x)"

text \<open>Every operation leaves the counter and the instance numbers as they are, but for
  \<^verbatim>\<open>AllocatePage\<close>.\<close>

lemma aligned_cong:
  "next_page_id s' = next_page_id s \<Longrightarrow> num_instances s' = num_instances s \<Longrightarrow>
   instance_index s' = instance_index s \<Longrightarrow> aligned s' = aligned s"
  by (simp add: aligned_def)

lemma NewPgImp_inv:
  assumes "bpm_inv cfg s" "room s" "NewPgImp cfg s = Some (r, s')"
  shows "bpm_inv cfg s'" "aligned s'"
proof -
  have "bpm_inv cfg s' \<and> aligned s'"
    using assms(1,2)
  proof (cases rule: NewPgImp_cases)
    case full
    then show ?thesis using assms by (simp add: room_def)
  next
    case (new f s1)
    then show ?thesis
      using assms(3) aligned_step [OF assms(2)] fresh_simps [OF new(1)] assms(2)
      by (auto simp: aligned_def install_def room_def)
  qed
  then show "bpm_inv cfg s'" "aligned s'" by blast+
qed

lemma FetchPgImp_inv:
  assumes "bpm_inv cfg s" "allocated s p" "aligned s" "FetchPgImp cfg s p = Some (f, s')"
  shows "bpm_inv cfg s'" "aligned s'"
proof -
  have "bpm_inv cfg s' \<and> aligned s'"
    using assms(1,2)
  proof (cases rule: FetchPgImp_cases)
    case (miss f s1 r)
    then show ?thesis
      using assms(3,4) fresh_simps [OF miss(2)] by (auto simp: aligned_def install_def)
  qed (use assms in \<open>auto simp: aligned_def\<close>)
  then show "bpm_inv cfg s'" "aligned s'" by blast+
qed

lemma flushed_simps [simp]:
  "pages (flushed cfg s p f) = pages s" "page_table (flushed cfg s p f) = page_table s"
  "next_page_id (flushed cfg s p f) = next_page_id s"
  "num_instances (flushed cfg s p f) = num_instances s"
  "instance_index (flushed cfg s p f) = instance_index s"
  "pool_size (flushed cfg s p f) = pool_size s"
  by (simp_all add: flushed_def)

lemma UnpinPgImp_inv:
  "bpm_inv cfg s \<Longrightarrow> aligned s \<Longrightarrow> UnpinPgImp cfg s p d = Some (b, s') \<Longrightarrow> bpm_inv cfg s' \<and> aligned s'"
  by (rule UnpinPgImp_cases [of cfg s p d]) (auto simp: pool_inv_flushed aligned_def)

lemma FlushPgImp_inv:
  "bpm_inv cfg s \<Longrightarrow> aligned s \<Longrightarrow> FlushPgImp cfg s p = Some (b, s') \<Longrightarrow> bpm_inv cfg s' \<and> aligned s'"
  by (rule FlushPgImp_cases [of cfg s p]) (auto simp: aligned_def)

lemma FlushAllPgsImp_inv:
  assumes "bpm_inv cfg s" "aligned s"
  shows "\<exists>s'. FlushAllPgsImp cfg s order = Some s' \<and> bpm_inv cfg s' \<and> aligned s'"
  using assms
proof (induction order arbitrary: s)
  case (Cons p order)
  from Cons.prems(1) obtain b s1 where "FlushPgImp cfg s p = Some (b, s1)"
    by (cases rule: FlushPgImp_cases [where p = p]) auto
  with Cons.IH [of s1] FlushPgImp_inv [OF Cons.prems, of p b s1] show ?case by simp
qed simp

lemma reachable_inv: "bpm_reachable cfg s \<Longrightarrow> bpm_inv cfg s \<and> aligned s"
proof (induction rule: bpm_reachable.induct)
  case (start psize n idx d s)
  then show ?case using constructor_inv [OF start]
    by (simp add: aligned_def word_unat_eq_iff unat_mod_distrib word_less_nat_alt)
next
  case (new_page s r s')
  then show ?case using NewPgImp_inv [of cfg s r s'] by (simp add: room_def)
next
  case (fetch s p f s')
  then show ?case using FetchPgImp_inv [of cfg s p f s'] by simp
next
  case (flush_all s order s')
  then show ?case using FlushAllPgsImp_inv [of cfg s order] by auto
next
  case (delete s p b s')
  then show ?case using DeletePgImp_refused by fastforce
next
  case (client_write s p f x)
  then show ?case by (simp add: write_frame_inv) (simp add: aligned_def write_frame_def)
qed (blast dest: UnpinPgImp_inv FlushPgImp_inv)+

end
