(* ===== verification/BufferPoolSpec.thy ===== *)
theory BufferPoolSpec
  imports BufferPool
begin

section \<open>What a buffer pool promises\<close>

text \<open>
  A pool of few frames behaves like a store that holds every page: \<^term>\<open>view\<close> is the content of
  the pages, \<^term>\<open>pins\<close> the number of holders. The locale \<open>buffer_pool\<close> is that contract; it is
  what the index and the table heap rely on. It is interpreted by the instance of
  \<^verbatim>\<open>BufferPoolManagerInstance\<close>. The file grows when a page is written, and a page number the file
  did not reach before then has content, so the contract says that the content of the pages is
  kept (\<open>\<subseteq>\<^sub>m\<close>) where a page may come into being.
\<close>

subsection \<open>Writing a page back\<close>

lemma stored_addressable:
  "disk_inv d \<Longrightarrow> 0 < PAGE_SIZE cfg \<Longrightarrow> stored cfg d p \<Longrightarrow> addressable cfg p"
  by (simp add: stored_def disk_inv_def addressable_def)

lemma allocated_addressable:
  assumes "disk_ok cfg s" and "allocated s p"
  shows "addressable cfg p"
proof -
  have "(unat p + 1) * PAGE_SIZE cfg \<le> unat (next_page_id s) * PAGE_SIZE cfg"
    by (rule mult_le_mono1) (use assms(2) in \<open>simp add: allocated_def\<close>)
  then show ?thesis using assms(1) unfolding disk_ok_def addressable_def by linarith
qed

lemma resident_addressable:
  "pool_inv cfg H s \<Longrightarrow> disk_ok cfg s \<Longrightarrow> page_table s p = Some f \<Longrightarrow> addressable cfg p"
  using allocated_addressable pool_inv_alloc by (fastforce simp: allocated_def)

lemma view_length:
  "pool_inv cfg H s \<Longrightarrow> view cfg s p = Some x \<Longrightarrow> length x = PAGE_SIZE cfg"
  using pool_inv_frame [of cfg H s p] pool_inv_data [of cfg H s] pool_inv_length [of cfg H s]
  by (auto simp: view_def on_disk_def ReadPage_length split: option.splits if_splits)

lemma write_resident:
  assumes inv: "pool_inv cfg H s" and ok: "disk_ok cfg s" and pt: "page_table s p = Some f"
  defines "s' \<equiv> s\<lparr>disk := WritePage cfg (disk s) p (pg_data (pages s ! f))\<rparr>"
  shows write_resident_view: "view cfg s \<subseteq>\<^sub>m view cfg s'"
    and write_resident_ok: "disk_ok cfg s'"
    and write_resident_saved: "saved cfg s q \<Longrightarrow> saved cfg s' q" "saved cfg s' p"
proof -
  let ?x = "pg_data (pages s ! f)" and ?z = "replicate (PAGE_SIZE cfg) (0::byte)"
  have di: "disk_inv (disk s)" and ps: "0 < PAGE_SIZE cfg" using ok by (simp_all add: disk_ok_def)
  have ad: "addressable cfg p" by (rule resident_addressable [OF inv ok pt])
  have len: "length ?x = PAGE_SIZE cfg"
    using pool_inv_frame [OF inv pt] pool_inv_data [OF inv] pool_inv_length [OF inv] by simp
  have same: "on_disk cfg s' p = ?x"
    using dm.read_same [OF di ad len, of ?z] by (simp add: on_disk_def s'_def)
  have other: "stored cfg (disk s') q \<and> on_disk cfg s' q = on_disk cfg s q"
    if "stored cfg (disk s) q" "q \<noteq> p" for q
    using dm.read_other [OF di ad stored_addressable [OF di ps that(1)] len, of ?z] that
      dm.write_keeps_present [where cfg = cfg] ad len by (simp add: on_disk_def s'_def)
  have st: "stored cfg (disk s') p" using dm.write_present ad len by (simp add: s'_def)
  have pt': "page_table s' = page_table s" "pages s' = pages s" by (simp_all add: s'_def)
  show le: "view cfg s \<subseteq>\<^sub>m view cfg s'"
  proof (unfold map_le_def, intro ballI)
    fix q assume "q \<in> dom (view cfg s)"
    then show "view cfg s q = view cfg s' q"
      using other [of q] pt by (cases "q = p") (auto simp: view_def pt' split: option.splits if_splits)
  qed
  show "disk_ok cfg s'" using ok dm.write_inv [OF di ad len] by (simp add: disk_ok_def s'_def)
  show p: "saved cfg s' p" using st same pt by (simp add: saved_def view_def pt')
  show "saved cfg s' q" if "saved cfg s q"
  proof (cases "q = p")
    case False
    with that other [of q] show ?thesis
      by (auto simp: saved_def view_def pt' split: option.splits)
  qed (use p in simp)
qed

lemma flushed_view:
  assumes "pool_inv cfg H s" and "disk_ok cfg s" and "page_table s p = Some f"
  shows "view cfg s \<subseteq>\<^sub>m view cfg (flushed cfg s p f)" "disk_ok cfg (flushed cfg s p f)"
    "saved cfg s q \<Longrightarrow> saved cfg (flushed cfg s p f) q"
    "is_dirty (pages s ! f) \<Longrightarrow> saved cfg (flushed cfg s p f) p"
  using write_resident [OF assms] assms(2) by (auto simp: flushed_def map_le_def)

lemma flushed_pins [simp]: "pins (flushed cfg s p f) = pins s"
  by (rule ext) (simp add: pins_def split: option.split)

lemma flushed_synced:
  assumes "pool_inv cfg H s" and "page_table s p = Some f" and "synced cfg s"
  shows "synced cfg (flushed cfg s p f)"
  using assms(3) flushed_view [OF assms(1) _ assms(2)] by (simp add: synced_def)

subsection \<open>Changing a frame and its page\<close>

lemma resident_inj:
  "pool_inv cfg H s \<Longrightarrow> page_table s p = Some f \<Longrightarrow> q \<noteq> p \<Longrightarrow> page_table s q \<noteq> Some f"
  by (metis pool_inv_table)

lemma view_upd_frame:
  assumes inv: "bpm_inv cfg s" and pt: "page_table s p = Some f"
  shows "view cfg (upd_frame s f g) = (view cfg s)(p \<mapsto> pg_data (g (pages s ! f)))"
    and "pins (upd_frame s f g) = (pins s)(p := pin_count (g (pages s ! f)))"
proof -
  note inj = resident_inj [OF inv pt] and f = pool_inv_frame [OF inv pt]
  show "view cfg (upd_frame s f g) = (view cfg s)(p \<mapsto> pg_data (g (pages s ! f)))"
  proof
    fix q
    show "view cfg (upd_frame s f g) q = ((view cfg s)(p \<mapsto> pg_data (g (pages s ! f)))) q"
      using inj [of q] pt f
      by (cases "q = p") (auto simp: view_def on_disk_def nth_list_update split: option.splits)
  qed
  show "pins (upd_frame s f g) = (pins s)(p := pin_count (g (pages s ! f)))"
  proof
    fix q
    show "pins (upd_frame s f g) q = ((pins s)(p := pin_count (g (pages s ! f)))) q"
      using inj [of q] pt f by (cases "q = p") (auto simp: pins_def nth_list_update split: option.splits)
  qed
qed

lemma view_lru [simp]: "view cfg (s\<lparr>lru := r\<rparr>) = view cfg s" "pins (s\<lparr>lru := r\<rparr>) = pins s"
  "disk_ok cfg (s\<lparr>lru := r\<rparr>) = disk_ok cfg s" "saved cfg (s\<lparr>lru := r\<rparr>) = saved cfg s"
  "synced cfg (s\<lparr>lru := r\<rparr>) = synced cfg s"
  by (auto simp: fun_eq_iff view_def on_disk_def pins_def disk_ok_def saved_def synced_def
      split: option.splits)

lemma view_free_list [simp]:
  "view cfg (s\<lparr>free_list := r\<rparr>) = view cfg s" "pins (s\<lparr>free_list := r\<rparr>) = pins s"
  "disk_ok cfg (s\<lparr>free_list := r\<rparr>) = disk_ok cfg s" "saved cfg (s\<lparr>free_list := r\<rparr>) = saved cfg s"
  "synced cfg (s\<lparr>free_list := r\<rparr>) = synced cfg s"
  by (auto simp: fun_eq_iff view_def on_disk_def pins_def disk_ok_def saved_def synced_def
      split: option.splits)

lemma upd_frame_lru: "upd_frame (s\<lparr>lru := r\<rparr>) f g = (upd_frame s f g)\<lparr>lru := r\<rparr>"
  by (simp add: upd_frame_def)

lemma synced_upd_frame:
  assumes inv: "bpm_inv cfg s" and pt: "page_table s p = Some f" and sy: "synced cfg s"
    and keep: "pin_count (g (pages s ! f)) = 0 \<Longrightarrow>
      pg_data (g (pages s ! f)) = pg_data (pages s ! f) \<and> saved cfg s p"
  shows "synced cfg (upd_frame s f g)"
proof -
  have "saved cfg (upd_frame s f g) q"
    if "page_table s q \<noteq> None" "pins (upd_frame s f g) q = 0" for q
  proof (cases "q = p")
    case True
    with that view_upd_frame [OF inv pt, of g] keep pt show ?thesis
      by (auto simp: saved_def view_def on_disk_def)
  next
    case False
    with that sy view_upd_frame [OF inv pt, of g] have "saved cfg s q"
      by (simp add: synced_def)
    with False show ?thesis
      using view_upd_frame(1) [OF inv pt, of g] by (auto simp: saved_def on_disk_def)
  qed
  then show ?thesis using sy by (simp add: synced_def disk_ok_def)
qed

subsection \<open>Taking a frame\<close>

definition drop_page :: "bpm \<Rightarrow> lru_replacer \<Rightarrow> frame_id_t \<Rightarrow> page_id_t \<Rightarrow> bpm" where
  "drop_page s r f p = s\<lparr>lru := r, page_table := (page_table s)(p := None),
     pages := (pages s)[f := (pages s ! f)\<lparr>is_dirty := False\<rparr>]\<rparr>"

lemma evict_drop_page:
  "evict cfg s r f = drop_page (flushed cfg s (pg_id (pages s ! f)) f) r f (pg_id (pages s ! f))"
  by (simp add: evict_def drop_page_def flushed_def Let_def)

lemma drop_page_view:
  assumes inv: "bpm_inv cfg s" and pt: "page_table s p = Some f" and "saved cfg s p"
  shows "view cfg (drop_page s r f p) = view cfg s" "pins (drop_page s r f p) = (pins s)(p := 0)"
    "synced cfg s \<Longrightarrow> synced cfg (drop_page s r f p)"
    "saved cfg (drop_page s r f p) = saved cfg s"
proof -
  let ?s = "drop_page s r f p"
  note inj = resident_inj [OF inv pt]
  show v: "view cfg ?s = view cfg s"
  proof
    fix q
    show "view cfg ?s q = view cfg s q"
      using inj [of q] assms(3) pt
      by (cases "q = p")
        (auto simp: view_def on_disk_def drop_page_def nth_list_update saved_def split: option.splits)
  qed
  show p: "pins ?s = (pins s)(p := 0)"
  proof
    fix q
    show "pins ?s q = ((pins s)(p := 0)) q"
      using inj [of q] pt
      by (cases "q = p") (auto simp: pins_def drop_page_def nth_list_update split: option.splits)
  qed
  have d: "disk ?s = disk s" "next_page_id ?s = next_page_id s"
    "page_table ?s = (page_table s)(p := None)" by (simp_all add: drop_page_def)
  show "synced cfg ?s" if "synced cfg s"
    using that p unfolding synced_def disk_ok_def saved_def v on_disk_def d by auto
  show "saved cfg ?s = saved cfg s"
    by (rule ext) (simp add: saved_def v on_disk_def d)
qed

lemma fresh_view:
  assumes fr: "fresh cfg s f s'" and inv: "bpm_inv cfg s" and sy: "synced cfg s"
  shows "view cfg s \<subseteq>\<^sub>m view cfg s'" "synced cfg s'" "pins s' = pins s"
    "0 < pins s q \<Longrightarrow> page_table s' q = page_table s q" "saved cfg s q \<Longrightarrow> saved cfg s' q"
proof -
  let ?p = "pg_id (pages s ! f)"
  have "view cfg s \<subseteq>\<^sub>m view cfg s' \<and> synced cfg s' \<and> pins s' = pins s \<and>
        (\<forall>q. saved cfg s q \<longrightarrow> saved cfg s' q) \<and>
        (\<forall>q. 0 < pins s q \<longrightarrow> page_table s' q = page_table s q)"
    using fr unfolding fresh_def
  proof (elim conjE disjE exE)
    fix rest assume "s' = s\<lparr>free_list := rest\<rparr>"
    then show ?thesis using sy by simp
  next
    fix r assume pt: "page_table s ?p = Some f" and pc: "pin_count (pages s ! f) = 0"
      and s': "s' = evict cfg s r f"
    let ?t = "flushed cfg s ?p f"
    have ok: "disk_ok cfg s" and "saved cfg s ?p" using sy pt pc by (auto simp: synced_def pins_def)
    then have sv: "saved cfg ?t ?p" using flushed_view(3) [OF inv _ pt] by blast
    note dp = drop_page_view [of cfg ?t ?p f r, unfolded pool_inv_flushed flushed_simps, OF inv pt sv]
    have "pins s ?p = 0" using pt pc by (simp add: pins_def)
    then have "pins s' = pins s" using dp(2) by (auto simp: s' evict_drop_page)
    moreover have "\<forall>q. 0 < pins s q \<longrightarrow> page_table s' q = page_table s q"
      using \<open>pins s ?p = 0\<close> by (auto simp: s' evict_drop_page drop_page_def)
    ultimately show ?thesis
      using dp(1,3,4) flushed_synced [OF inv pt sy] flushed_view(1,3) [OF inv ok pt]
      by (simp add: s' evict_drop_page)
  qed
  then show "view cfg s \<subseteq>\<^sub>m view cfg s'" "synced cfg s'" "pins s' = pins s"
    "0 < pins s q \<Longrightarrow> page_table s' q = page_table s q" "saved cfg s q \<Longrightarrow> saved cfg s' q"
    by blast+
qed

subsection \<open>Putting a page into a frame\<close>

lemma install_view:
  assumes inv: "pool_inv cfg {f} s" and new: "page_table s (pg_id pg) = None"
  shows "view cfg (install s f pg r n) = (view cfg s)(pg_id pg \<mapsto> pg_data pg)"
    "pins (install s f pg r n) = (pins s)(pg_id pg := pin_count pg)"
    "q \<noteq> pg_id pg \<Longrightarrow> page_table (install s f pg r n) q = page_table s q"
    "q \<noteq> pg_id pg \<Longrightarrow> saved cfg (install s f pg r n) q = saved cfg s q"
proof -
  have f: "f < length (pages s)" using pool_inv_hand [OF inv] pool_inv_length [OF inv] by auto
  have nf: "page_table s q \<noteq> Some f" for q using pool_inv_table [OF inv, of q f] by (simp add: used_def)
  show v: "view cfg (install s f pg r n) = (view cfg s)(pg_id pg \<mapsto> pg_data pg)"
    using nf f
    by (auto simp: view_def on_disk_def install_def fun_eq_iff nth_list_update split: option.splits)
  show "pins (install s f pg r n) = (pins s)(pg_id pg := pin_count pg)"
    using nf f by (auto simp: pins_def install_def fun_eq_iff nth_list_update split: option.splits)
  show "saved cfg (install s f pg r n) q = saved cfg s q" if "q \<noteq> pg_id pg"
    using that by (simp add: saved_def v) (simp add: install_def on_disk_def)
qed (simp add: install_def)

lemma install_synced:
  assumes inv: "pool_inv cfg {f} s" and new: "page_table s (pg_id pg) = None"
    and sy: "synced cfg s" and pc: "pin_count pg \<noteq> 0" and n: "unat n * PAGE_SIZE cfg < 2 ^ 31"
  shows "synced cfg (install s f pg r n)"
proof -
  have d: "disk (install s f pg r n) = disk s" "next_page_id (install s f pg r n) = n"
    by (simp_all add: install_def)
  have "saved cfg (install s f pg r n) q"
    if "page_table (install s f pg r n) q \<noteq> None" "pins (install s f pg r n) q = 0" for q
  proof -
    have "q \<noteq> pg_id pg" using that(2) pc by (auto simp: install_view(2) [OF inv new])
    then have "saved cfg s q"
      using that sy by (simp add: install_view [OF inv new] synced_def)
    with \<open>q \<noteq> pg_id pg\<close> show ?thesis
      by (simp add: saved_def install_view [OF inv new] on_disk_def d)
  qed
  then show ?thesis using sy n by (simp add: synced_def disk_ok_def d)
qed

subsection \<open>The contract\<close>

text \<open>\<open>at s p\<close> is the pointer of a page that is in memory, \<open>clean s p\<close> says that its content is
  safe on disk. The last holder of a page has to unpin it as dirty unless the page is clean.\<close>

datatype client_op = ReadBytes page_id_t | WriteBytes page_id_t bytes | FlushBytes page_id_t

datatype client_out = Null | Bytes bytes | Done

text \<open>How clients use a pool: fetch, access, unpin, with the dirty flag set for a write.\<close>

fun client_step ::
    "('s \<Rightarrow> page_id_t \<Rightarrow> ('p option \<times> 's) option) \<Rightarrow> ('s \<Rightarrow> page_id_t \<Rightarrow> bool \<Rightarrow> (bool \<times> 's) option) \<Rightarrow>
     ('s \<Rightarrow> page_id_t \<Rightarrow> (bool \<times> 's) option) \<Rightarrow> ('s \<Rightarrow> 'p \<Rightarrow> bytes) \<Rightarrow> ('s \<Rightarrow> 'p \<Rightarrow> bytes \<Rightarrow> 's) \<Rightarrow>
     's \<Rightarrow> client_op \<Rightarrow> (client_out \<times> 's) option" where
  "client_step fetch unpin flush get put s (ReadBytes p) = do {
     (f, s) \<leftarrow> fetch s p;
     case f of
       None \<Rightarrow> Some (Null, s)
     | Some f \<Rightarrow> do { (_, s') \<leftarrow> unpin s p False; Some (Bytes (get s f), s') }
   }"
| "client_step fetch unpin flush get put s (WriteBytes p x) = do {
     (f, s) \<leftarrow> fetch s p;
     case f of
       None \<Rightarrow> Some (Null, s)
     | Some f \<Rightarrow> do { (_, s) \<leftarrow> unpin (put s f x) p True; Some (Done, s) }
   }"
| "client_step fetch unpin flush get put s (FlushBytes p) = do {
     (_, s) \<leftarrow> flush s p;
     Some (Done, s)
   }"

text \<open>The store the pool stands for: a finite map from page numbers to bytes.\<close>

fun mem_step :: "(page_id_t \<rightharpoonup> bytes) \<Rightarrow> client_op \<Rightarrow> client_out \<times> (page_id_t \<rightharpoonup> bytes)" where
  "mem_step m (ReadBytes p) = (Bytes (the (m p)), m)"
| "mem_step m (WriteBytes p x) = (Done, m(p \<mapsto> x))"
| "mem_step m (FlushBytes p) = (Done, m)"

fun client_page :: "client_op \<Rightarrow> page_id_t" where
  "client_page (ReadBytes p) = p"
| "client_page (WriteBytes p x) = p"
| "client_page (FlushBytes p) = p"

fun op_sized :: "nat \<Rightarrow> client_op \<Rightarrow> bool" where
  "op_sized n (WriteBytes p x) \<longleftrightarrow> length x = n"
| "op_sized n _ \<longleftrightarrow> True"

locale buffer_pool =
  fixes new_page :: "'s \<Rightarrow> ((page_id_t \<times> 'p) option \<times> 's) option"
    and fetch :: "'s \<Rightarrow> page_id_t \<Rightarrow> ('p option \<times> 's) option"
    and unpin :: "'s \<Rightarrow> page_id_t \<Rightarrow> bool \<Rightarrow> (bool \<times> 's) option"
    and flush :: "'s \<Rightarrow> page_id_t \<Rightarrow> (bool \<times> 's) option"
    and get :: "'s \<Rightarrow> 'p \<Rightarrow> bytes"
    and put :: "'s \<Rightarrow> 'p \<Rightarrow> bytes \<Rightarrow> 's"
    and psize :: nat
    and ok :: "'s \<Rightarrow> bool"
    and can_new :: "'s \<Rightarrow> bool"
    and alloc :: "'s \<Rightarrow> page_id_t \<Rightarrow> bool"
    and content :: "'s \<Rightarrow> page_id_t \<rightharpoonup> bytes"
    and held :: "'s \<Rightarrow> page_id_t \<Rightarrow> nat"
    and at :: "'s \<Rightarrow> page_id_t \<Rightarrow> 'p option"
    and clean :: "'s \<Rightarrow> page_id_t \<Rightarrow> bool"
    and cap :: "'s \<Rightarrow> nat"
  assumes new_page_spec: "ok s \<Longrightarrow> can_new s \<Longrightarrow>
      (\<exists>s'. new_page s = Some (None, s')) \<and> cap s \<le> card {q. 0 < held s q} \<or>
      (\<exists>p f s'. new_page s = Some (Some (p, f), s') \<and> ok s' \<and> cap s' = cap s \<and> \<not> alloc s p \<and> alloc s' p \<and>
         at s' p = Some f \<and> get s' f = replicate psize 0 \<and>
         (content s)(p \<mapsto> replicate psize 0) \<subseteq>\<^sub>m content s' \<and> held s' = (held s)(p := 1) \<and>
         (\<forall>q. (alloc s q \<longrightarrow> alloc s' q) \<and> (0 < held s q \<longrightarrow> at s' q = at s q) \<and>
              (q \<noteq> p \<and> clean s q \<longrightarrow> clean s' q)))"
    and fetch_spec: "ok s \<Longrightarrow> alloc s p \<Longrightarrow> content s p = Some x \<Longrightarrow>
      fetch s p = Some (None, s) \<and> cap s \<le> card {q. 0 < held s q} \<or>
      (\<exists>f s'. fetch s p = Some (Some f, s') \<and> ok s' \<and> cap s' = cap s \<and> at s' p = Some f \<and> get s' f = x \<and>
         content s \<subseteq>\<^sub>m content s' \<and> held s' = (held s)(p := held s p + 1) \<and>
         (held s p = 0 \<longrightarrow> clean s' p) \<and>
         (\<forall>q. (alloc s q \<longrightarrow> alloc s' q) \<and> (0 < held s q \<longrightarrow> at s' q = at s q) \<and>
              (clean s q \<longrightarrow> clean s' q)))"
    and put_spec: "ok s \<Longrightarrow> at s p = Some f \<Longrightarrow> 0 < held s p \<Longrightarrow> length x = psize \<Longrightarrow>
      ok (put s f x) \<and> cap (put s f x) = cap s \<and> content (put s f x) = (content s)(p \<mapsto> x) \<and> held (put s f x) = held s \<and>
      at (put s f x) = at s \<and> alloc (put s f x) = alloc s \<and>
      (\<forall>q. (q \<noteq> p \<or> content s p = Some x) \<and> clean s q \<longrightarrow> clean (put s f x) q)"
    and unpin_spec: "ok s \<Longrightarrow> 0 < held s p \<Longrightarrow> (held s p = 1 \<Longrightarrow> d \<or> clean s p) \<Longrightarrow>
      \<exists>s'. unpin s p d = Some (True, s') \<and> ok s' \<and> cap s' = cap s \<and> content s \<subseteq>\<^sub>m content s' \<and>
         held s' = (held s)(p := held s p - 1) \<and> at s' = at s \<and> alloc s' = alloc s \<and>
         (\<forall>q. clean s q \<longrightarrow> clean s' q)"
    and flush_spec: "ok s \<Longrightarrow>
      \<exists>b s'. flush s p = Some (b, s') \<and> ok s' \<and> cap s' = cap s \<and> content s \<subseteq>\<^sub>m content s' \<and> held s' = held s \<and>
         at s' = at s \<and> alloc s' = alloc s \<and> (\<forall>q. clean s q \<longrightarrow> clean s' q)"
    and content_length: "ok s \<Longrightarrow> content s p = Some x \<Longrightarrow> length x = psize"
    and at_content: "ok s \<Longrightarrow> at s p = Some f \<Longrightarrow> content s p = Some (get s f)"
    and held_at: "ok s \<Longrightarrow> 0 < held s p \<Longrightarrow> at s p \<noteq> None"
    and cap_pos: "ok s \<Longrightarrow> 0 < cap s"
begin

text \<open>A page in use by nobody else can be had, read and given back; nobody holds it then.\<close>

lemma fetch_unheld:
  assumes "ok s" "alloc s p" "content s p = Some x" "held s = (\<lambda>_. 0)"
  obtains f s' where "fetch s p = Some (Some f, s')" "ok s'" "at s' p = Some f" "get s' f = x"
    "content s \<subseteq>\<^sub>m content s'" "held s' = (\<lambda>_. 0)(p := 1)" "clean s' p"
    "\<And>q. alloc s q \<Longrightarrow> alloc s' q"
  using fetch_spec [OF assms(1-3)] assms(4) that cap_pos [OF assms(1)] by auto

lemma step_refines:
  assumes ok: "ok s" and al: "alloc s (client_page op)"
    and m: "m \<subseteq>\<^sub>m content s" "client_page op \<in> dom m"
    and sz: "op_sized psize op" and h: "held s = (\<lambda>_. 0)"
  shows "\<exists>s'. client_step fetch unpin flush get put s op = Some (fst (mem_step m op), s') \<and>
    ok s' \<and> snd (mem_step m op) \<subseteq>\<^sub>m content s' \<and> held s' = (\<lambda>_. 0) \<and>
    (\<forall>q. alloc s q \<longrightarrow> alloc s' q)"
proof -
  obtain x where x: "m (client_page op) = Some x" "content s (client_page op) = Some x"
    using m by (metis domD map_le_def)
  from ok al x(2) h obtain f s1 where s1: "fetch s (client_page op) = Some (Some f, s1)" "ok s1"
    "at s1 (client_page op) = Some f" "get s1 f = x" "content s \<subseteq>\<^sub>m content s1"
    "held s1 = (\<lambda>_. 0)(client_page op := 1)" "clean s1 (client_page op)"
    "\<And>q. alloc s q \<Longrightarrow> alloc s1 q" by (rule fetch_unheld) blast
  have le: "m \<subseteq>\<^sub>m content s1" using m(1) s1(5) by (rule map_le_trans)
  show ?thesis
  proof (cases op)
    case (ReadBytes p)
    obtain s2 where "unpin s1 p False = Some (True, s2)" "ok s2" "content s1 \<subseteq>\<^sub>m content s2"
      "held s2 = (\<lambda>_. 0)" "alloc s2 = alloc s1"
      using unpin_spec [OF s1(2), of p False] s1(6,7) ReadBytes by (auto simp: fun_upd_idem)
    then show ?thesis using ReadBytes s1 x le by (auto intro: map_le_trans)
  next
    case (WriteBytes p y)
    have "length y = psize" using sz WriteBytes by simp
    then have pt: "ok (put s1 f y)" "content (put s1 f y) = (content s1)(p \<mapsto> y)"
      "held (put s1 f y) = held s1" "alloc (put s1 f y) = alloc s1"
      using put_spec [OF s1(2), of p f y] s1 WriteBytes by auto
    obtain s2 where "unpin (put s1 f y) p True = Some (True, s2)" "ok s2"
      "(content s1)(p \<mapsto> y) \<subseteq>\<^sub>m content s2" "held s2 = (\<lambda>_. 0)" "alloc s2 = alloc s1"
      using unpin_spec [OF pt(1), of p True] pt s1(6) WriteBytes by (auto simp: fun_upd_idem)
    moreover have "m(p \<mapsto> y) \<subseteq>\<^sub>m (content s1)(p \<mapsto> y)" using le by (rule map_le_upd)
    ultimately show ?thesis using WriteBytes s1 by (auto intro: map_le_trans)
  next
    case (FlushBytes p)
    then show ?thesis using flush_spec [OF ok, of p] m(1) h by (auto intro: map_le_trans)
  qed
qed

lemma run_refines:
  assumes "ok s" and "\<forall>op \<in> set ops. alloc s (client_page op) \<and> client_page op \<in> dom m \<and> op_sized psize op"
    and "m \<subseteq>\<^sub>m content s" and "held s = (\<lambda>_. 0)"
  shows "\<exists>outs s' m'. run_ops (client_step fetch unpin flush get put) s ops = Some (outs, s') \<and>
    run_ops (\<lambda>m op. Some (mem_step m op)) m ops = Some (outs, m') \<and>
    ok s' \<and> m' \<subseteq>\<^sub>m content s' \<and> held s' = (\<lambda>_. 0)"
  using assms
proof (induction ops arbitrary: s m)
  case Nil
  then show ?case by simp
next
  case (Cons op ops)
  then obtain s1 where s1: "client_step fetch unpin flush get put s op = Some (fst (mem_step m op), s1)"
      "ok s1" "snd (mem_step m op) \<subseteq>\<^sub>m content s1" "held s1 = (\<lambda>_. 0)" "\<forall>q. alloc s q \<longrightarrow> alloc s1 q"
    using step_refines [of s op m] by auto
  have "dom m \<subseteq> dom (snd (mem_step m op))" by (cases op) auto
  with Cons.prems(2) s1(5)
  have "\<forall>op' \<in> set ops. alloc s1 (client_page op') \<and> client_page op' \<in> dom (snd (mem_step m op)) \<and>
      op_sized psize op'" by (meson list.set_intros(2) subsetD)
  with Cons.IH [OF s1(2) _ s1(3,4)] s1(1) show ?case by (auto simp: split_beta)
qed

end

subsection \<open>The instance keeps the contract\<close>

definition pool_ok :: "config \<Rightarrow> bpm \<Rightarrow> bool" where
  "pool_ok cfg s \<longleftrightarrow> bpm_inv cfg s \<and> synced cfg s \<and> aligned s \<and> 0 < pool_size s"

definition can_new :: "config \<Rightarrow> bpm \<Rightarrow> bool" where
  "can_new cfg s \<longleftrightarrow> (unat (next_page_id s) + unat (num_instances s)) * PAGE_SIZE cfg < 2 ^ 31"

definition read_frame :: "bpm \<Rightarrow> frame_id_t \<Rightarrow> bytes" where
  "read_frame s f = pg_data (pages s ! f)"

lemma can_new_room:
  assumes "aligned s" and "can_new cfg s" and "0 < PAGE_SIZE cfg"
  shows "room s"
proof -
  have "unat (next_page_id s) + unat (num_instances s)
      \<le> (unat (next_page_id s) + unat (num_instances s)) * PAGE_SIZE cfg" using assms(3) by simp
  then have "unat (next_page_id s) + unat (num_instances s) < 2 ^ 32"
    using assms(2) unfolding can_new_def
    by (elim le_less_trans less_trans) simp
  then show ?thesis using assms(1) by (simp add: room_def no_wrap_def)
qed

lemma full_pinned:
  assumes "bpm_inv cfg s" and "\<And>f. f < pool_size s \<Longrightarrow> 0 < pin_count (pages s ! f)"
  shows "pool_size s \<le> card {q. 0 < pins s q}"
proof -
  let ?id = "\<lambda>f. pg_id (pages s ! f)"
  have u: "f \<in> used {} s" if "f < pool_size s" for f
    using that assms(2) [OF that] pool_inv_idle [OF assms(1), of f] by (auto simp: used_def)
  have "inj_on ?id {..<pool_size s}"
    using u pool_inv_inj [OF assms(1)] by (meson inj_onI lessThan_iff)
  moreover have "?id ` {..<pool_size s} \<subseteq> {q. 0 < pins s q}"
  proof
    fix q assume "q \<in> ?id ` {..<pool_size s}"
    then obtain f where "f < pool_size s" "page_table s q = Some f"
      using u pool_inv_table [OF assms(1)] by blast
    then show "q \<in> {q. 0 < pins s q}" using assms(2) by (simp add: pins_def)
  qed
  ultimately show ?thesis using card_inj_on_le [of ?id "{..<pool_size s}"] by simp
qed

lemma allocated_simps [simp]:
  "allocated (upd_frame s f g) = allocated s" "allocated (flushed cfg s p f) = allocated s"
  "allocated (s\<lparr>lru := r\<rparr>) = allocated s"
  by (simp_all add: allocated_def fun_eq_iff)

lemma pool_okD:
  assumes "pool_ok cfg s"
  shows "bpm_inv cfg s" "synced cfg s" "disk_ok cfg s" "aligned s" "0 < pool_size s"
    "0 < PAGE_SIZE cfg" "disk_inv (disk s)"
  using assms by (auto simp: pool_ok_def synced_def disk_ok_def)

lemma NewPgImp_spec:
  assumes ok: "pool_ok cfg s" and cn: "can_new cfg s"
  shows "NewPgImp cfg s = Some (None, s) \<and> pool_size s \<le> card {q. 0 < pins s q} \<or>
    (\<exists>p f s'. NewPgImp cfg s = Some (Some (p, f), s') \<and> pool_ok cfg s' \<and> pool_size s' = pool_size s \<and>
       \<not> allocated s p \<and> allocated s' p \<and> page_table s' p = Some f \<and>
       read_frame s' f = replicate (PAGE_SIZE cfg) 0 \<and>
       (view cfg s)(p \<mapsto> replicate (PAGE_SIZE cfg) 0) \<subseteq>\<^sub>m view cfg s' \<and>
       pins s' = (pins s)(p := 1) \<and>
       (\<forall>q. (allocated s q \<longrightarrow> allocated s' q) \<and> (0 < pins s q \<longrightarrow> page_table s' q = page_table s q) \<and>
            (q \<noteq> p \<and> saved cfg s q \<longrightarrow> saved cfg s' q)))"
proof -
  note o = pool_okD [OF ok]
  have room: "room s" by (rule can_new_room [OF o(4) cn o(6)])
  from o(1) room show ?thesis
  proof (cases rule: NewPgImp_cases)
    case full
    then show ?thesis using full_pinned [OF o(1)] by blast
  next
    case (new f s1)
    let ?pg = "new_frame cfg s1 f" and ?n = "next_page_id s + num_instances s"
    let ?s = "install s1 f ?pg (lru s1) ?n"
    note fs = fresh_simps [OF new(1)] and fv = fresh_view [OF new(1) o(1,2)]
      and g = next_page_id_grows [OF room]
    have id: "pg_id ?pg = next_page_id s" "pin_count ?pg = 1"
      "pg_data ?pg = replicate (PAGE_SIZE cfg) 0" using fs by (simp_all add: new_frame_def)
    have ab: "page_table s1 (pg_id ?pg) = None"
      by (rule not_allocated_absent [OF fresh_inv [OF new(1)]]) (simp add: allocated_def id fs)
    note iv = install_view [OF fresh_inv [OF new(1)] ab, unfolded id]
    have sy: "synced cfg ?s"
      by (rule install_synced [OF fresh_inv [OF new(1)] ab fv(2)])
        (use cn in \<open>simp_all add: id g can_new_def\<close>)
    have len: "f < length (pages s1)" by (rule fresh_frame [OF new(1)])
    have "pool_ok cfg ?s"
      using new(3) sy o aligned_step [OF room] fs
      by (simp add: pool_ok_def aligned_def) (simp add: install_def)
    moreover have "pool_size ?s = pool_size s" using fs by (simp add: install_def)
    moreover have "page_table ?s (next_page_id s) = Some f" "read_frame ?s f = replicate (PAGE_SIZE cfg) 0"
      "next_page_id ?s = ?n"
      using len id by (simp_all add: install_def read_frame_def)
    moreover have "0 < pins s q \<longrightarrow> page_table ?s q = page_table s q" for q
    proof (cases "q = next_page_id s")
      case True
      then have "pins s q = 0"
        using not_allocated_absent [OF o(1), of q] by (simp add: pins_def allocated_def)
      then show ?thesis by simp
    qed (use iv(3) fv(4) in simp)
    moreover have "(view cfg s)(next_page_id s \<mapsto> replicate (PAGE_SIZE cfg) 0) \<subseteq>\<^sub>m view cfg ?s"
      using fv(1) iv(1) by (simp add: map_le_upd)
    ultimately show ?thesis
      using new(2) iv(2,4) fv(3,5) g by (auto simp: allocated_def)
  qed
qed

lemma FetchPgImp_spec:
  assumes ok: "pool_ok cfg s" and al: "allocated s p" and x: "view cfg s p = Some x"
  shows "FetchPgImp cfg s p = Some (None, s) \<and> pool_size s \<le> card {q. 0 < pins s q} \<or>
    (\<exists>f s'. FetchPgImp cfg s p = Some (Some f, s') \<and> pool_ok cfg s' \<and> pool_size s' = pool_size s \<and>
       page_table s' p = Some f \<and>
       read_frame s' f = x \<and> view cfg s \<subseteq>\<^sub>m view cfg s' \<and> pins s' = (pins s)(p := pins s p + 1) \<and>
       (pins s p = 0 \<longrightarrow> saved cfg s' p) \<and>
       (\<forall>q. (allocated s q \<longrightarrow> allocated s' q) \<and> (0 < pins s q \<longrightarrow> page_table s' q = page_table s q) \<and>
            (saved cfg s q \<longrightarrow> saved cfg s' q)))"
proof -
  note o = pool_okD [OF ok]
  from o(1) al show ?thesis
  proof (cases rule: FetchPgImp_cases)
    case (hit f r)
    let ?g = "\<lambda>p. p\<lparr>pin_count := pin_count p + 1, is_dirty := True\<rparr>"
    let ?s = "upd_frame (s\<lparr>lru := r\<rparr>) f ?g"
    note vu = view_upd_frame [OF o(1) hit(1), of ?g]
    have xx: "pg_data (pages s ! f) = x" "f < length (pages s)"
      using x hit(1) pool_inv_frame [OF o(1) hit(1)] by (simp_all add: view_def)
    have v: "view cfg ?s = view cfg s" using vu(1) xx x by (auto simp: upd_frame_lru)
    have sv: "saved cfg ?s = saved cfg s"
      by (rule ext) (unfold saved_def v, simp add: on_disk_def)
    have "synced cfg ?s"
      using synced_upd_frame [OF o(1) hit(1) o(2), of ?g] by (simp add: upd_frame_lru)
    then have "pool_ok cfg ?s" using hit(3) o by (simp add: pool_ok_def aligned_def)
    moreover have "pins s p = 0 \<longrightarrow> saved cfg s p" using o(2) hit(1) by (simp add: synced_def)
    ultimately show ?thesis
      using hit(1,2) vu(2) xx v sv
      by (auto simp: read_frame_def upd_frame_lru pins_def allocated_def)
  next
    case full
    then show ?thesis using full_pinned [OF o(1)] by blast
  next
    case (miss f s1 r)
    let ?pg = "fetched_frame cfg s1 f p"
    let ?s = "install s1 f ?pg r (next_page_id s)"
    note fs = fresh_simps [OF miss(2)] and fv = fresh_view [OF miss(2) o(1,2)]
      and ff = fresh_frame [OF miss(2)]
    have ab: "page_table s1 p = None" using fs(6) miss(1) .
    have ok1: "disk_inv (disk s1)" "0 < PAGE_SIZE cfg"
      using fv(2) by (simp_all add: synced_def disk_ok_def)
    have x1: "view cfg s1 p = Some x" using fv(1) x by (metis map_le_def domI)
    then have st: "stored cfg (disk s1) p" "on_disk cfg s1 p = x"
      using ab by (auto simp: view_def split: if_splits)
    have ad: "addressable cfg p" by (rule stored_addressable [OF ok1 st(1)])
    have id: "pg_id ?pg = p" "pin_count ?pg = 1" by (simp_all add: fetched_frame_def)
    have dat: "pg_data ?pg = x"
      using dm.read_buffer [OF ok1(1) ad st(1) ff(4), of "replicate (PAGE_SIZE cfg) 0"] st(2)
      by (simp add: fetched_frame_def on_disk_def)
    note iv = install_view [OF fresh_inv [OF miss(2)], of ?pg, unfolded id dat, OF ab]
    have v: "view cfg ?s = view cfg s1" using iv(1) x1 by auto
    have "synced cfg ?s"
      by (rule install_synced [OF fresh_inv [OF miss(2)] _ fv(2)])
        (use ab o(3) in \<open>simp_all add: id disk_ok_def\<close>)
    then have "pool_ok cfg ?s"
      using miss(4) o fs by (simp add: pool_ok_def aligned_def) (simp add: install_def)
    moreover have "pool_size ?s = pool_size s" using fs by (simp add: install_def)
    moreover have "page_table ?s p = Some f" "read_frame ?s f = x" "disk ?s = disk s1"
      "next_page_id ?s = next_page_id s"
      using id dat ff(2) by (simp_all add: install_def read_frame_def)
    moreover have "saved cfg ?s p" using st v x1 \<open>disk ?s = disk s1\<close> by (simp add: saved_def on_disk_def)
    moreover have "pins s p = 0" using miss(1) by (simp add: pins_def)
    moreover have "0 < pins s q \<longrightarrow> page_table ?s q = page_table s q" for q
      using iv(3) [of q] fv(4) [of q] \<open>pins s p = 0\<close> by (cases "q = p") auto
    moreover have "saved cfg s q \<longrightarrow> saved cfg ?s q" for q
      using iv(4) [of q] fv(5) [of q] \<open>saved cfg ?s p\<close> by (cases "q = p") auto
    ultimately show ?thesis
      using miss(3) iv(2) fv(1,3) v by (auto simp: allocated_def)
  qed
qed

lemma write_frame_spec:
  assumes ok: "pool_ok cfg s" and pt: "page_table s p = Some f" and pin: "0 < pins s p"
    and len: "length x = PAGE_SIZE cfg"
  shows "pool_ok cfg (write_frame s f x) \<and> pool_size (write_frame s f x) = pool_size s \<and>
    view cfg (write_frame s f x) = (view cfg s)(p \<mapsto> x) \<and>
    pins (write_frame s f x) = pins s \<and> page_table (write_frame s f x) = page_table s \<and>
    allocated (write_frame s f x) = allocated s \<and>
    (\<forall>q. (q \<noteq> p \<or> view cfg s p = Some x) \<and> saved cfg s q \<longrightarrow> saved cfg (write_frame s f x) q)"
proof -
  note o = pool_okD [OF ok]
  let ?g = "\<lambda>p. p\<lparr>pg_data := x\<rparr>"
  note vu = view_upd_frame [OF o(1) pt, of ?g]
  have pc: "pin_count (pages s ! f) = pins s p" using pt by (simp add: pins_def)
  have "synced cfg (upd_frame s f ?g)"
    by (rule synced_upd_frame [OF o(1) pt o(2)]) (use pc pin in simp)
  then have "pool_ok cfg (upd_frame s f ?g)"
    using write_frame_inv [OF o(1) len, of f] o
    by (simp add: write_frame_def pool_ok_def aligned_def)
  moreover have "saved cfg (upd_frame s f ?g) q" if "q \<noteq> p \<or> view cfg s p = Some x" "saved cfg s q" for q
    using that unfolding saved_def vu(1) by (auto simp: on_disk_def)
  ultimately show ?thesis
    using vu pc by (simp add: write_frame_def fun_upd_idem)
qed

lemma UnpinPgImp_spec:
  assumes ok: "pool_ok cfg s" and pin: "0 < pins s p" and d: "pins s p = 1 \<Longrightarrow> d \<or> saved cfg s p"
  shows "\<exists>s'. UnpinPgImp cfg s p d = Some (True, s') \<and> pool_ok cfg s' \<and>
    pool_size s' = pool_size s \<and> view cfg s \<subseteq>\<^sub>m view cfg s' \<and>
    pins s' = (pins s)(p := pins s p - 1) \<and> page_table s' = page_table s \<and>
    allocated s' = allocated s \<and> (\<forall>q. saved cfg s q \<longrightarrow> saved cfg s' q)"
proof -
  note o = pool_okD [OF ok]
  from o(1) show ?thesis
  proof (cases rule: UnpinPgImp_cases [where p = p and d = d])
    case refused
    then show ?thesis using pin by simp
  next
    case (held f)
    let ?g = "\<lambda>p. p\<lparr>is_dirty := d, pin_count := pin_count p - 1\<rparr>"
    let ?s = "upd_frame s f ?g"
    note vu = view_upd_frame [OF o(1) held(1), of ?g]
    have pc: "pin_count (pages s ! f) = pins s p" using held(1) by (simp add: pins_def)
    have v: "view cfg ?s = view cfg s" using vu(1) held(1) by (auto simp: view_def)
    have sv: "saved cfg ?s = saved cfg s" by (rule ext) (unfold saved_def v, simp add: on_disk_def)
    have "synced cfg ?s"
      by (rule synced_upd_frame [OF o(1) held(1) o(2)]) (use pc held(2) in simp)
    then have "pool_ok cfg ?s" using held(4) o by (simp add: pool_ok_def aligned_def)
    then show ?thesis
      using held(3) v sv vu(2) pc by (simp add: map_le_def)
  next
    case (last f r s1)
    let ?g = "\<lambda>p. p\<lparr>is_dirty := d, pin_count := 0\<rparr>"
    let ?u = "upd_frame s f ?g"
    have s1: "s1 = ?u\<lparr>lru := r\<rparr>" by (simp add: last(3) upd_frame_lru)
    note vu = view_upd_frame [OF o(1) last(1), of ?g]
    have v: "view cfg s1 = view cfg s" using vu(1) last(1) by (auto simp: s1 view_def)
    have sv: "saved cfg s1 q = saved cfg s q" for q
      using v unfolding s1 saved_def by (simp add: on_disk_def)
    have pt1: "page_table s1 p = Some f" "page_table s1 = page_table s"
      using last(1) by (simp_all add: s1)
    have dk: "disk_ok cfg s1" using o(3) by (simp add: s1 disk_ok_def)
    note fv = flushed_view [OF last(5) dk pt1(1)]
    have fl: "f < length (pages s)" by (rule pool_inv_frame [OF o(1) last(1)])
    have p: "saved cfg (flushed cfg s1 p f) p"
      using fv(3,4) d [OF last(2)] sv fl by (auto simp: s1)
    have pins1: "pins s1 = (pins s)(p := 0)" using vu(2) by (simp add: s1)
    have "saved cfg (flushed cfg s1 p f) q" if "page_table s q \<noteq> None" "pins s1 q = 0" for q
    proof (cases "q = p")
      case False
      with that o(2) have "saved cfg s q" by (simp add: pins1 synced_def)
      then show ?thesis using fv(3) sv by blast
    qed (use p in simp)
    then have "synced cfg (flushed cfg s1 p f)"
      using fv(2) pt1 by (simp add: synced_def)
    then have "pool_ok cfg (flushed cfg s1 p f)"
      using last(5) o by (simp add: pool_ok_def pool_inv_flushed aligned_def) (simp add: s1)
    moreover have "view cfg s \<subseteq>\<^sub>m view cfg (flushed cfg s1 p f)" using fv(1) by (simp add: v)
    moreover have "allocated s1 = allocated s" "pool_size s1 = pool_size s" by (simp_all add: s1)
    ultimately show ?thesis
      using last(2,4) fv(3) sv pins1 pt1 by simp
  qed
qed

lemma FlushPgImp_spec:
  assumes ok: "pool_ok cfg s"
  shows "\<exists>b s'. FlushPgImp cfg s p = Some (b, s') \<and> pool_ok cfg s' \<and>
    pool_size s' = pool_size s \<and> view cfg s \<subseteq>\<^sub>m view cfg s' \<and>
    pins s' = pins s \<and> page_table s' = page_table s \<and> allocated s' = allocated s \<and>
    (\<forall>q. saved cfg s q \<longrightarrow> saved cfg s' q)"
proof -
  note o = pool_okD [OF ok]
  from o(1) show ?thesis
  proof (cases rule: FlushPgImp_cases [where p = p])
    case absent
    then show ?thesis using ok by (auto simp: map_le_def)
  next
    case (ok f)
    let ?t = "flushed cfg s p f" and ?g = "\<lambda>p. p\<lparr>is_dirty := False\<rparr>"
    let ?s = "upd_frame ?t f ?g"
    note fv = flushed_view [OF o(1,3) ok(1)]
    have it: "bpm_inv cfg ?t" "page_table ?t p = Some f" "synced cfg ?t"
      using o(1) ok(1) flushed_synced [OF o(1) ok(1) o(2)] by (simp_all add: pool_inv_flushed)
    note vu = view_upd_frame [OF it(1,2), of ?g]
    have v: "view cfg ?s = view cfg ?t" using vu(1) it(2) by (auto simp: view_def)
    have sv: "saved cfg ?s = saved cfg ?t" by (rule ext) (unfold saved_def v, simp add: on_disk_def)
    have pn: "pins ?s = pins s" using vu(2) it(2) by (auto simp: pins_def fun_eq_iff)
    have "synced cfg ?s"
      using it(3) by (simp add: synced_def pn sv) (simp add: disk_ok_def)
    then have "pool_ok cfg ?s" using ok(3) o by (simp add: pool_ok_def aligned_def)
    then show ?thesis
      using ok(2) v sv pn fv(1,3) by auto
  qed
qed

interpretation bpmi: buffer_pool "NewPgImp cfg" "FetchPgImp cfg" "UnpinPgImp cfg" "FlushPgImp cfg"
  read_frame write_frame "PAGE_SIZE cfg" "pool_ok cfg" "can_new cfg" allocated "view cfg" pins
  page_table "saved cfg" pool_size for cfg
proof (unfold_locales, goal_cases)
  case (1 s)
  then show ?case using NewPgImp_spec [of cfg s] by blast
next
  case (2 s p x)
  then show ?case by (rule FetchPgImp_spec)
next
  case (3 s p f x)
  then show ?case by (rule write_frame_spec)
next
  case (4 s p d)
  then show ?case by (rule UnpinPgImp_spec)
next
  case (5 s p)
  then show ?case by (rule FlushPgImp_spec)
next
  case (6 s p x)
  then show ?case using view_length pool_okD(1) by blast
next
  case (7 s p f)
  then show ?case by (simp add: view_def read_frame_def)
next
  case (8 s p)
  then show ?case by (auto simp: pins_def split: option.splits)
next
  case (9 s)
  then show ?case by (rule pool_okD)
qed

subsection \<open>Properties\<close>

text \<open>C15. No state crashes a pool that clients reach who fetch allocated pages only, write through pointers
  to pages they hold pinned, and delete no resident page that nobody has pinned: the structural invariant holds (page table, free list and replacer agree, and the replacer holds
  exactly the unpinned resident frames), and each operation completes, without a failed assertion or an
  access outside the frames: a new page while page numbers are left, a fetch of an allocated page. (The
  deletion that is excluded is the one that breaks the invariant, \<open>DeletePgImp_frame_in_two_lists\<close>.)\<close>

theorem reachable_safe:
  assumes "bpm_reachable cfg s"
  shows "bpm_inv cfg s \<and> (no_wrap s \<longrightarrow> NewPgImp cfg s \<noteq> None) \<and>
    (allocated s p \<longrightarrow> FetchPgImp cfg s p \<noteq> None) \<and> UnpinPgImp cfg s p d \<noteq> None \<and>
    FlushPgImp cfg s p \<noteq> None \<and> FlushAllPgsImp cfg s order \<noteq> None \<and> DeletePgImp cfg s p \<noteq> None"
proof -
  have inv: "bpm_inv cfg s" "aligned s" using reachable_inv [OF assms] by blast+
  have "NewPgImp cfg s \<noteq> None" if "no_wrap s"
    using that inv by (auto intro: NewPgImp_cases [of cfg s] simp: room_def)
  moreover have "FetchPgImp cfg s p \<noteq> None" if "allocated s p"
    using that inv by (auto intro: FetchPgImp_cases [of cfg s p])
  moreover have "UnpinPgImp cfg s p d \<noteq> None"
    using inv by (auto intro: UnpinPgImp_cases [of cfg s p d])
  moreover have "FlushPgImp cfg s p \<noteq> None"
    using inv by (auto intro: FlushPgImp_cases [of cfg s p])
  moreover have "FlushAllPgsImp cfg s order \<noteq> None"
    using FlushAllPgsImp_inv [OF inv, of order] by auto
  moreover have "DeletePgImp cfg s p \<noteq> None"
    using pool_inv_frame [OF inv(1)] by (auto simp: DeletePgImp_def FindPage_def split: option.splits)
  ultimately show ?thesis using inv by blast
qed

definition small_pool :: "nat \<Rightarrow> bpm" where
  "small_pool n = the (BufferPoolManagerInstance small_cfg n 1 0 empty_disk)"

lemma small_pool_Some: "BufferPoolManagerInstance small_cfg n 1 0 empty_disk = Some (small_pool n)"
  by (simp add: small_pool_def BufferPoolManagerInstance_def)

lemma fresh_pinned:
  assumes "bpm_inv cfg s" and "fresh cfg s f s1" and "page_table s q = Some g" and "0 < pins s q"
  shows "f \<noteq> g" "page_table s1 q = Some g" "pages s1 ! g = pages s ! g"
proof -
  have pc: "0 < pin_count (pages s ! g)" using assms(3,4) by (simp add: pins_def)
  have gu: "g \<in> used {} s" using pool_inv_table [OF assms(1)] assms(3) by blast
  show fg: "f \<noteq> g" using assms(2) pc gu by (auto simp: fresh_def used_def)
  then show "page_table s1 q = Some g" using assms(2,3)
    by (auto simp: fresh_def evict_def Let_def)
  show "pages s1 ! g = pages s ! g" using fresh_simps(8) [OF assms(2)] fg by simp
qed

text \<open>C32. In a pool whose clients delete no resident page that nobody has pinned, a page somebody has pinned
  stays where it is: neither a new page nor a fetch of an allocated page moves it to another frame, changes
  its bytes or drops its pins. (After such a deletion a pinned page can lose its frame,
  \<open>deleted_frame_given_twice\<close>.)\<close>

theorem pinned_page_stays:
  assumes "bpm_reachable cfg s" and "page_table s q = Some g" and "0 < pins s q"
    and "no_wrap s \<and> NewPgImp cfg s = Some (r, s') \<or> allocated s p \<and> FetchPgImp cfg s p = Some (f, s')"
  shows "page_table s' q = Some g \<and> read_frame s' g = read_frame s g \<and> pins s q \<le> pins s' q"
proof -
  have inv: "bpm_inv cfg s" "aligned s" using reachable_inv [OF assms(1)] by blast+
  note fp = fresh_pinned [OF inv(1) _ assms(2,3)]
  note gl = pool_inv_frame [OF inv(1) assms(2)]
  have inst: "page_table (install s1 h pg rr n) q = Some g \<and>
      read_frame (install s1 h pg rr n) g = read_frame s g \<and> pins s q \<le> pins (install s1 h pg rr n) q"
    if "fresh cfg s h s1" "pg_id pg \<noteq> q" for h s1 pg rr n
    using fp [OF that(1)] that(2) assms(2) by (simp add: install_def read_frame_def pins_def)
  from assms(4) show ?thesis
  proof (elim disjE conjE)
    assume nw: "no_wrap s" and n: "NewPgImp cfg s = Some (r, s')"
    from inv nw have "room s" by (simp add: room_def)
    with inv(1) show ?thesis
    proof (cases rule: NewPgImp_cases)
      case (new h s1)
      have "pg_id (new_frame cfg s1 h) \<noteq> q"
        using pool_inv_alloc [OF inv(1) assms(2)] fresh_simps(2) [OF new(1)]
        by (auto simp: new_frame_def)
      with inst [OF new(1)] new(2) n show ?thesis by simp
    qed (use assms(2) n in simp)
  next
    assume al: "allocated s p" and n: "FetchPgImp cfg s p = Some (f, s')"
    from inv(1) al show ?thesis
    proof (cases rule: FetchPgImp_cases)
      case (hit h rr)
      then show ?thesis
        using n assms(2) gl by (cases "h = g") (auto simp: read_frame_def pins_def)
    next
      case (miss h s1 rr)
      have "pg_id (fetched_frame cfg s1 h p) \<noteq> q"
        using miss(1) assms(2) by (auto simp: fetched_frame_def)
      with inst [OF miss(2)] miss(3) n show ?thesis by simp
    qed (use assms(2) n in simp)
  qed
qed

lemma no_wrap_small: "num_instances s = 1 \<Longrightarrow> next_page_id s < 16 \<Longrightarrow> no_wrap s"
  by (simp add: no_wrap_def word_less_nat_alt)

definition one_page :: bpm where
  "one_page = snd (the (NewPgImp small_cfg (small_pool 2)))"

lemma one_page_Some: "NewPgImp small_cfg (small_pool 2) = Some (Some (0, 0), one_page)"
proof -
  have "map_option fst (NewPgImp small_cfg (small_pool 2)) = Some (Some (0, 0))" by code_simp
  then show ?thesis by (auto simp: one_page_def)
qed

lemma one_page_no_wrap: "no_wrap one_page"
  by (rule no_wrap_small) code_simp+

lemma one_page_reachable: "bpm_reachable small_cfg one_page"
proof (rule bpm_reachable.new_page [OF _ _ one_page_Some])
  show "bpm_reachable small_cfg (small_pool 2)" by (rule bpm_reachable.start [OF small_pool_Some])
  show "no_wrap (small_pool 2)" by (rule no_wrap_small) code_simp+
qed

theorem reachable_safe_witness:
  "bpm_inv small_cfg one_page \<and> NewPgImp small_cfg one_page \<noteq> None \<and>
   FetchPgImp small_cfg one_page 0 \<noteq> None \<and> UnpinPgImp small_cfg one_page 0 True \<noteq> None \<and>
   FlushPgImp small_cfg one_page 0 \<noteq> None \<and> FlushAllPgsImp small_cfg one_page [0] \<noteq> None \<and>
   DeletePgImp small_cfg one_page 0 \<noteq> None"
proof -
  have "allocated one_page 0" by code_simp
  then show ?thesis
    using reachable_safe [OF one_page_reachable, of 0 True "[0]"] one_page_no_wrap by blast
qed

theorem pinned_page_stays_witness:
  "page_table (snd (the (NewPgImp small_cfg one_page))) 0 = Some 0 \<and>
   read_frame (snd (the (NewPgImp small_cfg one_page))) 0 = read_frame one_page 0 \<and>
   pins one_page 0 \<le> pins (snd (the (NewPgImp small_cfg one_page))) 0"
proof (rule pinned_page_stays [OF one_page_reachable])
  show "page_table one_page 0 = Some 0" "0 < pins one_page 0" by code_simp+
  have "NewPgImp small_cfg one_page \<noteq> None" by code_simp
  then show "no_wrap one_page \<and> NewPgImp small_cfg one_page =
      Some (fst (the (NewPgImp small_cfg one_page)), snd (the (NewPgImp small_cfg one_page))) \<or>
    allocated one_page 0 \<and> FetchPgImp small_cfg one_page 0 =
      Some (Some 0, snd (the (NewPgImp small_cfg one_page)))"
    using one_page_no_wrap by auto
qed

text \<open>What a new page is: its number is congruent to the index of the instance modulo the
  number of instances, was never given before and is not resident; the page is zeroed, pinned once
  and mapped. There is none exactly when every frame is pinned, and then nothing changes.\<close>

theorem NewPgImp_result:
  assumes "bpm_reachable cfg s" and "no_wrap s"
  shows "if \<forall>f < pool_size s. 0 < pin_count (pages s ! f) then NewPgImp cfg s = Some (None, s)
    else \<exists>p f s'. NewPgImp cfg s = Some (Some (p, f), s') \<and>
      p mod num_instances s = instance_index s \<and> \<not> allocated s p \<and> allocated s' p \<and>
      page_table s p = None \<and> page_table s' p = Some f \<and> pins s' p = 1 \<and>
      read_frame s' f = replicate (PAGE_SIZE cfg) 0"
proof -
  have inv: "bpm_inv cfg s" and al: "aligned s" using reachable_inv [OF assms(1)] by blast+
  have room: "room s" using al assms(2) by (simp add: room_def)
  from inv room show ?thesis
  proof (cases rule: NewPgImp_cases)
    case full
    then show ?thesis by simp
  next
    case (new f s1)
    have fr: "f < pool_size s" "pin_count (pages s ! f) = 0"
      using fresh_frame [OF new(1)] new(1) pool_inv_idle [OF inv, of f]
      by (auto simp: fresh_def)
    have "page_table s (next_page_id s) = None"
      by (rule not_allocated_absent [OF inv]) (simp add: allocated_def)
    then show ?thesis
      using new(2) fr al next_page_id_grows [OF room] fresh_frame [OF new(1)] fresh_simps [OF new(1)]
      by (auto simp: allocated_def aligned_def install_def new_frame_def pins_def read_frame_def)
  qed
qed

theorem NewPgImp_result_witness:
  "\<exists>p f s'. NewPgImp small_cfg one_page = Some (Some (p, f), s') \<and>
      p mod num_instances one_page = instance_index one_page \<and> \<not> allocated one_page p \<and>
      allocated s' p \<and> page_table one_page p = None \<and> page_table s' p = Some f \<and> pins s' p = 1 \<and>
      read_frame s' f = replicate (PAGE_SIZE small_cfg) 0"
proof -
  have "1 < pool_size one_page" "pin_count (pages one_page ! 1) = 0" by code_simp+
  then have "\<not> (\<forall>f < pool_size one_page. 0 < pin_count (pages one_page ! f))"
    by (metis less_numeral_extra(3))
  then show ?thesis
    using NewPgImp_result [OF one_page_reachable one_page_no_wrap] by (simp only: if_False)
qed

text \<open>C2. Transparency: while clients fetch a page, access it and unpin it (dirty after a write),
  a pool of however few frames returns what a plain map from page numbers to bytes returns, through
  every eviction and write back; no call fails for want of a frame, and every page keeps its
  content.\<close>

theorem buffer_pool_transparent:
  assumes "pool_ok cfg s" and "pins s = (\<lambda>_. 0)"
    and "\<forall>op \<in> set ops. allocated s (client_page op) \<and> client_page op \<in> dom (view cfg s) \<and>
           op_sized (PAGE_SIZE cfg) op"
  shows "\<exists>outs s' m.
    run_ops (client_step (FetchPgImp cfg) (UnpinPgImp cfg) (FlushPgImp cfg) read_frame write_frame) s ops
      = Some (outs, s') \<and>
    run_ops (\<lambda>m op. Some (mem_step m op)) (view cfg s) ops = Some (outs, m) \<and>
    pool_ok cfg s' \<and> m \<subseteq>\<^sub>m view cfg s' \<and> pins s' = (\<lambda>_. 0)"
  using bpmi.run_refines [OF assms(1) _ _ assms(2), of ops "view cfg s"] assms(3)
  by (simp add: map_le_def)

text \<open>A new pool over an empty file keeps the contract, and clients can fill it with pages.\<close>

lemma constructor_pool_ok:
  assumes "BufferPoolManagerInstance cfg psize n idx d = Some s" and "disk_inv d"
    and "0 < psize" and "0 < PAGE_SIZE cfg" and "unat idx * PAGE_SIZE cfg < 2 ^ 31"
  shows "pool_ok cfg s" "pins s = (\<lambda>_. 0)"
proof -
  note c = constructor_inv [OF assms(1)]
  have s: "page_table s = Map.empty" "disk s = d"
    using assms(1) by (auto simp: BufferPoolManagerInstance_def crash_simps)
  have "aligned s" using reachable_inv [OF bpm_reachable.start [OF assms(1)]] by blast
  then show "pool_ok cfg s"
    using c s assms by (simp add: pool_ok_def synced_def disk_ok_def)
  show "pins s = (\<lambda>_. 0)" by (rule ext) (simp add: pins_def s)
qed

definition create_page :: "config \<Rightarrow> bpm \<Rightarrow> (page_id_t \<times> bpm) option" where
  "create_page cfg s = do {
     (r, s) \<leftarrow> NewPgImp cfg s;
     (p, f) \<leftarrow> r;
     (b, s) \<leftarrow> UnpinPgImp cfg s p True;
     Some (p, s)
   }"

lemma create_page_spec:
  assumes "pool_ok cfg s" and "can_new cfg s" and "pins s = (\<lambda>_. 0)" and "create_page cfg s = Some (p, s')"
  shows "pool_ok cfg s'" "pins s' = (\<lambda>_. 0)" "allocated s' p" "view cfg s' p = Some (replicate (PAGE_SIZE cfg) 0)"
    "q \<noteq> p \<Longrightarrow> view cfg s q = Some x \<Longrightarrow> view cfg s' q = Some x" "allocated s q \<Longrightarrow> allocated s' q"
proof -
  from NewPgImp_spec [OF assms(1,2)] assms(3) pool_okD(5) [OF assms(1)] obtain p0 f s1
    where n: "NewPgImp cfg s = Some (Some (p0, f), s1)" "pool_ok cfg s1" "allocated s1 p0"
      "(view cfg s)(p0 \<mapsto> replicate (PAGE_SIZE cfg) 0) \<subseteq>\<^sub>m view cfg s1" "pins s1 = (\<lambda>_. 0)(p0 := 1)"
      "\<forall>q. allocated s q \<longrightarrow> allocated s1 q" by auto
  from UnpinPgImp_spec [OF n(2), of p0 True] n(5) obtain s2
    where u: "UnpinPgImp cfg s1 p0 True = Some (True, s2)" "pool_ok cfg s2"
      "view cfg s1 \<subseteq>\<^sub>m view cfg s2" "pins s2 = (\<lambda>_. 0)" "allocated s2 = allocated s1"
    by (auto simp: fun_upd_idem)
  have ps: "p = p0" "s' = s2" using assms(4) n(1) u(1) by (simp_all add: create_page_def)
  have le: "(view cfg s)(p0 \<mapsto> replicate (PAGE_SIZE cfg) 0) \<subseteq>\<^sub>m view cfg s2"
    using n(4) u(3) by (rule map_le_trans)
  show "pool_ok cfg s'" "pins s' = (\<lambda>_. 0)" "allocated s' p" using u n(3) ps by auto
  show "view cfg s' p = Some (replicate (PAGE_SIZE cfg) 0)"
    using map_leD [OF le, of p0] ps by simp
  show "view cfg s' q = Some x" if "q \<noteq> p" "view cfg s q = Some x"
  proof -
    have "((view cfg s)(p0 \<mapsto> replicate (PAGE_SIZE cfg) 0)) q = Some x" using that ps by simp
    then show ?thesis using map_leD [OF le] ps by simp
  qed
  show "allocated s q \<Longrightarrow> allocated s' q" using n(6) u(5) ps by simp
qed

definition two_pages :: bpm where
  "two_pages = snd (the (create_page small_cfg (snd (the (create_page small_cfg (small_pool 1))))))"

lemma two_pages_ok:
  "pool_ok small_cfg two_pages \<and> pins two_pages = (\<lambda>_. 0) \<and> allocated two_pages 0 \<and>
   allocated two_pages 1 \<and> 0 \<in> dom (view small_cfg two_pages) \<and> 1 \<in> dom (view small_cfg two_pages)"
proof -
  define s1 where "s1 = snd (the (create_page small_cfg (small_pool 1)))"
  have c0: "pool_ok small_cfg (small_pool 1)" "pins (small_pool 1) = (\<lambda>_. 0)"
    using constructor_pool_ok [OF small_pool_Some [of 1]]
    by (simp_all add: small_cfg_def empty_disk_def disk_inv_def)
  have "map_option fst (create_page small_cfg (small_pool 1)) = Some 0" by code_simp
  then have e1: "create_page small_cfg (small_pool 1) = Some (0, s1)" by (auto simp: s1_def)
  have n: "next_page_id (small_pool 1) = 0" "num_instances (small_pool 1) = 1" by code_simp+
  have "can_new small_cfg (small_pool 1)" unfolding can_new_def n by (simp add: small_cfg_def)
  note c1 = create_page_spec [OF c0(1) this c0(2) e1]
  have "map_option fst (create_page small_cfg s1) = Some 1" unfolding s1_def by code_simp
  then have e2: "create_page small_cfg s1 = Some (1, two_pages)" by (auto simp: two_pages_def s1_def)
  have n: "next_page_id s1 = 1" "num_instances s1 = 1" unfolding s1_def by code_simp+
  have "can_new small_cfg s1" unfolding can_new_def n by (simp add: small_cfg_def)
  note c2 = create_page_spec [OF c1(1) this c1(2) e2]
  have "view small_cfg two_pages 0 = Some (replicate (PAGE_SIZE small_cfg) 0)"
    by (rule c2(5) [OF _ c1(4)]) simp
  then show ?thesis using c2(1-4) c2(6) [OF c1(3)] by (simp add: dom_def)
qed

theorem buffer_pool_transparent_witness:
  "\<exists>outs s' m.
    run_ops (client_step (FetchPgImp small_cfg) (UnpinPgImp small_cfg) (FlushPgImp small_cfg)
      read_frame write_frame) two_pages
      [WriteBytes 0 [1, 2, 3, 4], WriteBytes 1 [5, 6, 7, 8], ReadBytes 0] = Some (outs, s') \<and>
    run_ops (\<lambda>m op. Some (mem_step m op)) (view small_cfg two_pages)
      [WriteBytes 0 [1, 2, 3, 4], WriteBytes 1 [5, 6, 7, 8], ReadBytes 0] = Some (outs, m) \<and>
    pool_ok small_cfg s' \<and> m \<subseteq>\<^sub>m view small_cfg s' \<and> pins s' = (\<lambda>_. 0)"
  by (rule buffer_pool_transparent) (use two_pages_ok in \<open>auto simp: small_cfg_def\<close>)

text \<open>\<^verbatim>\<open>DeletePgImp\<close> puts the frame of an unpinned page into the free list and leaves it in the
  replacer: the frame is then offered twice.\<close>

theorem DeletePgImp_frame_in_two_lists:
  assumes "bpm_reachable cfg s" and "page_table s p = Some f" and "pins s p = 0"
  shows "\<exists>s'. DeletePgImp cfg s p = Some (True, s') \<and> page_table s' p = None \<and>
    f \<in> set (free_list s') \<and> f \<in> set (wait_list (lru s'))"
proof -
  have inv: "bpm_inv cfg s" using reachable_inv [OF assms(1)] by blast
  have "f \<in> set (wait_list (lru s))"
    using pool_inv_wait [OF inv, of f] pool_inv_table [OF inv, of p f] assms(2,3)
    by (simp add: pins_def)
  then show ?thesis
    using pool_inv_frame [OF inv assms(2)] assms(2,3)
    by (simp add: DeletePgImp_def FindPage_def pins_def Let_def)
qed

definition unpinned_page :: bpm where
  "unpinned_page = snd (the (UnpinPgImp small_cfg one_page 0 True))"

lemma unpinned_page_reachable: "bpm_reachable small_cfg unpinned_page"
proof (rule bpm_reachable.unpin [OF one_page_reachable])
  have "map_option fst (UnpinPgImp small_cfg one_page 0 True) = Some True" by code_simp
  then show "UnpinPgImp small_cfg one_page 0 True = Some (True, unpinned_page)"
    by (auto simp: unpinned_page_def)
qed

theorem DeletePgImp_frame_in_two_lists_witness:
  "\<exists>s'. DeletePgImp small_cfg unpinned_page 0 = Some (True, s') \<and> page_table s' 0 = None \<and>
    0 \<in> set (free_list s') \<and> 0 \<in> set (wait_list (lru s'))"
  by (rule DeletePgImp_frame_in_two_lists [OF unpinned_page_reachable]) code_simp+

text \<open>What follows from it: in a pool of one frame, after a page was created, unpinned and
  deleted, two new pages get the same frame although the first is still pinned.\<close>

theorem deleted_frame_given_twice:
  "(do {
     (r0, s) \<leftarrow> NewPgImp small_cfg (small_pool 1);
     (b, s) \<leftarrow> UnpinPgImp small_cfg s 0 True;
     (b, s) \<leftarrow> DeletePgImp small_cfg s 0;
     (r1, s1) \<leftarrow> NewPgImp small_cfg s;
     (r2, s2) \<leftarrow> NewPgImp small_cfg s1;
     Some (r1, pins s1 1, r2, page_table s2 1)
   }) = Some (Some (1, 0), 1, Some (2, 0), None)"
  by code_simp

text \<open>\<^verbatim>\<open>UnpinPgImp\<close> overwrites the dirty flag: one client writes a page and unpins it as dirty,
  another, who only read it, unpins it as clean; the write is gone once the page has left the
  pool.\<close>

theorem UnpinPgImp_loses_update:
  "(do {
     (r, s) \<leftarrow> NewPgImp small_cfg (small_pool 1);
     (reader, s) \<leftarrow> FetchPgImp small_cfg s 0;
     let s = write_frame s 0 [1, 2, 3, 4];
     (b1, s) \<leftarrow> UnpinPgImp small_cfg s 0 True;
     (b2, s) \<leftarrow> UnpinPgImp small_cfg s 0 False;
     (r, s) \<leftarrow> NewPgImp small_cfg s;
     (b3, s) \<leftarrow> UnpinPgImp small_cfg s 1 True;
     (f, s) \<leftarrow> FetchPgImp small_cfg s 0;
     Some (b1, b2, b3, map_option (read_frame s) f)
   }) = Some (True, True, True, Some [0, 0, 0, 0])"
  by code_simp

end
