(* ===== verification/DirectoryPage.thy ===== *)
theory DirectoryPage
  imports Prelude
begin

section \<open>The directory page of the extendible hash index\<close>

text \<open>
  \<^verbatim>\<open>src/storage/page/hash_table_directory_page.cpp\<close>: the global depth, and for each of the 512
  slots a local depth (a byte) and the number of a bucket page. Indices and depths keep their
  widths. \<^term>\<open>None\<close> is an access outside the arrays, a shift by 32 or more, or a power that does not
  fit into 32 bits, for all of which the C++ program has no defined behaviour, or a failed
  assertion.
\<close>

subsection \<open>State and operations\<close>

definition DIRECTORY_ARRAY_SIZE :: nat where
  "DIRECTORY_ARRAY_SIZE = 512"

record dir_page =
  dir_page_id :: page_id_t
  dir_lsn :: lsn_t
  global_depth :: uint32
  local_depths :: "8 word list"
  bucket_page_ids :: "page_id_t list"

definition Pow32 :: "uint32 \<Rightarrow> uint32 \<Rightarrow> uint32 option" where
  "Pow32 base k =
     (if uint base ^ unat k < 4294967296 then Some (of_int (uint base ^ unat k)) else None)"

definition shift_left :: "uint32 \<Rightarrow> uint32 \<Rightarrow> uint32 option" where
  "shift_left w k = (if k < 32 then Some (push_bit (unat k) w) else None)"

definition shift_right :: "uint32 \<Rightarrow> uint32 \<Rightarrow> uint32 option" where
  "shift_right w k = (if k < 32 then Some (drop_bit (unat k) w) else None)"

definition SetPageId :: "dir_page \<Rightarrow> page_id_t \<Rightarrow> dir_page" where
  "SetPageId d page_id = d\<lparr>dir_page_id := page_id\<rparr>"

definition SetLSN :: "dir_page \<Rightarrow> lsn_t \<Rightarrow> dir_page" where
  "SetLSN d lsn = d\<lparr>dir_lsn := lsn\<rparr>"

definition GetGlobalDepth :: "dir_page \<Rightarrow> uint32" where
  "GetGlobalDepth d = global_depth d"

definition GetGlobalDepthMask :: "dir_page \<Rightarrow> uint32 option" where
  "GetGlobalDepthMask d = do { p \<leftarrow> Pow32 2 (global_depth d); Some (p - 1) }"

definition IncrGlobalDepth :: "dir_page \<Rightarrow> dir_page" where
  "IncrGlobalDepth d = d\<lparr>global_depth := global_depth d + 1\<rparr>"

definition DecrGlobalDepth :: "dir_page \<Rightarrow> dir_page" where
  "DecrGlobalDepth d = d\<lparr>global_depth := global_depth d - 1\<rparr>"

definition GetBucketPageId :: "dir_page \<Rightarrow> uint32 \<Rightarrow> page_id_t option" where
  "GetBucketPageId d bucket_idx = vec_get (bucket_page_ids d) (unat bucket_idx)"

definition SetBucketPageId :: "dir_page \<Rightarrow> uint32 \<Rightarrow> page_id_t \<Rightarrow> dir_page option" where
  "SetBucketPageId d bucket_idx bucket_page_id = do {
     ids \<leftarrow> vec_set (bucket_page_ids d) (unat bucket_idx) bucket_page_id;
     Some (d\<lparr>bucket_page_ids := ids\<rparr>)
   }"

definition Size :: "dir_page \<Rightarrow> uint32 option" where
  "Size d = Pow32 2 (global_depth d)"

definition GetLocalDepth :: "dir_page \<Rightarrow> uint32 \<Rightarrow> uint32 option" where
  "GetLocalDepth d bucket_idx = map_option ucast (vec_get (local_depths d) (unat bucket_idx))"

definition SetLocalDepth :: "dir_page \<Rightarrow> uint32 \<Rightarrow> 8 word \<Rightarrow> dir_page option" where
  "SetLocalDepth d bucket_idx local_depth = do {
     ds \<leftarrow> vec_set (local_depths d) (unat bucket_idx) local_depth;
     Some (d\<lparr>local_depths := ds\<rparr>)
   }"

definition GetLocalDepthMask :: "dir_page \<Rightarrow> uint32 \<Rightarrow> uint32 option" where
  "GetLocalDepthMask d bucket_idx = do {
     local_depth \<leftarrow> GetLocalDepth d bucket_idx;
     p \<leftarrow> Pow32 2 local_depth;
     Some (p - 1)
   }"

definition IncrLocalDepth :: "dir_page \<Rightarrow> uint32 \<Rightarrow> dir_page option" where
  "IncrLocalDepth d bucket_idx = do {
     x \<leftarrow> vec_get (local_depths d) (unat bucket_idx);
     Some (d\<lparr>local_depths := (local_depths d)[unat bucket_idx := x + 1]\<rparr>)
   }"

definition DecrLocalDepth :: "dir_page \<Rightarrow> uint32 \<Rightarrow> dir_page option" where
  "DecrLocalDepth d bucket_idx = do {
     x \<leftarrow> vec_get (local_depths d) (unat bucket_idx);
     Some (d\<lparr>local_depths := (local_depths d)[unat bucket_idx := x - 1]\<rparr>)
   }"

definition GetLocalHighBit :: "dir_page \<Rightarrow> uint32 \<Rightarrow> uint32 option" where
  "GetLocalHighBit d bucket_idx = do {
     local_depth \<leftarrow> GetLocalDepth d bucket_idx;
     x \<leftarrow> shift_right bucket_idx (local_depth - 1);
     shift_left (x + 1) (local_depth - 1)
   }"

definition GetSplitImageIndex :: "dir_page \<Rightarrow> uint32 \<Rightarrow> uint32 option" where
  "GetSplitImageIndex d bucket_idx = do {
     high_bits \<leftarrow> GetLocalHighBit d bucket_idx;
     local_depth \<leftarrow> GetLocalDepth d bucket_idx;
     p \<leftarrow> Pow32 2 (local_depth - 1);
     let split_image_index = high_bits OR (bucket_idx AND (p - 1));
     m \<leftarrow> GetLocalDepthMask d bucket_idx;
     Some (split_image_index AND m)
   }"

text \<open>The loop of \<^verbatim>\<open>CanShrink\<close> visits the indices below \<^verbatim>\<open>Size()\<close> in order and stops at the
  first slot whose local depth is the global one.\<close>

fun CanShrink_loop :: "dir_page \<Rightarrow> nat list \<Rightarrow> bool option" where
  "CanShrink_loop d [] = Some True"
| "CanShrink_loop d (i # is) = do {
     x \<leftarrow> vec_get (local_depths d) i;
     if ucast x = global_depth d then Some False else CanShrink_loop d is
   }"

definition CanShrink :: "dir_page \<Rightarrow> bool option" where
  "CanShrink d = do { n \<leftarrow> Size d; CanShrink_loop d [0..<unat n] }"

text \<open>\<^verbatim>\<open>VerifyIntegrity\<close>. The two hash maps are finite maps; a count that is not there yet is zero.\<close>

fun VerifyIntegrity_scan ::
    "dir_page \<Rightarrow> nat list \<Rightarrow> (page_id_t \<Rightarrow> uint32) \<Rightarrow> (page_id_t \<rightharpoonup> uint32) \<Rightarrow>
     ((page_id_t \<Rightarrow> uint32) \<times> (page_id_t \<rightharpoonup> uint32)) option" where
  "VerifyIntegrity_scan d [] page_id_to_count page_id_to_ld = Some (page_id_to_count, page_id_to_ld)"
| "VerifyIntegrity_scan d (curr_idx # is) page_id_to_count page_id_to_ld = do {
     curr_page_id \<leftarrow> vec_get (bucket_page_ids d) curr_idx;
     x \<leftarrow> vec_get (local_depths d) curr_idx;
     let curr_ld = ucast x;
     assert_that (curr_ld \<le> global_depth d);
     let page_id_to_count = page_id_to_count(curr_page_id := page_id_to_count curr_page_id + 1);
     case page_id_to_ld curr_page_id of
       Some old_ld \<Rightarrow> do {
         assert_that (curr_ld = old_ld);
         VerifyIntegrity_scan d is page_id_to_count (page_id_to_ld(curr_page_id \<mapsto> curr_ld))
       }
     | None \<Rightarrow> VerifyIntegrity_scan d is page_id_to_count (page_id_to_ld(curr_page_id \<mapsto> curr_ld))
   }"

fun VerifyIntegrity_counts ::
    "dir_page \<Rightarrow> page_id_t list \<Rightarrow> (page_id_t \<Rightarrow> uint32) \<Rightarrow> (page_id_t \<rightharpoonup> uint32) \<Rightarrow> unit option" where
  "VerifyIntegrity_counts d [] page_id_to_count page_id_to_ld = Some ()"
| "VerifyIntegrity_counts d (curr_page_id # ps) page_id_to_count page_id_to_ld = do {
     curr_ld \<leftarrow> page_id_to_ld curr_page_id;
     required_count \<leftarrow> shift_left 1 (global_depth d - curr_ld);
     assert_that (page_id_to_count curr_page_id = required_count);
     VerifyIntegrity_counts d ps page_id_to_count page_id_to_ld
   }"

definition VerifyIntegrity :: "dir_page \<Rightarrow> unit option" where
  "VerifyIntegrity d = do {
     n \<leftarrow> Size d;
     (page_id_to_count, page_id_to_ld) \<leftarrow>
       VerifyIntegrity_scan d [0..<unat n] (\<lambda>_. 0) Map.empty;
     VerifyIntegrity_counts d (remdups (take (unat n) (bucket_page_ids d)))
       page_id_to_count page_id_to_ld
   }"

subsection \<open>Indices and depths as numbers\<close>

text \<open>\<open>gd\<close>, \<open>ld\<close> and \<open>bucket_at\<close> read the directory; \<open>dir_wf\<close> says that its arrays have their size
  and that the slots in use fit.\<close>

definition gd :: "dir_page \<Rightarrow> nat" where
  "gd d = unat (global_depth d)"

definition ld :: "dir_page \<Rightarrow> nat \<Rightarrow> nat" where
  "ld d i = unat (local_depths d ! i)"

definition bucket_at :: "dir_page \<Rightarrow> nat \<Rightarrow> page_id_t" where
  "bucket_at d i = bucket_page_ids d ! i"

definition dir_wf :: "dir_page \<Rightarrow> bool" where
  "dir_wf d \<longleftrightarrow> length (local_depths d) = DIRECTORY_ARRAY_SIZE \<and>
     length (bucket_page_ids d) = DIRECTORY_ARRAY_SIZE \<and> gd d \<le> 9"

text \<open>The shape of an extendible hashing directory: two slots share a bucket exactly when they
  agree in the low bits that the bucket's local depth counts.\<close>

definition dir_ok :: "dir_page \<Rightarrow> bool" where
  "dir_ok d \<longleftrightarrow> dir_wf d \<and> (\<forall>i < 2 ^ gd d. 1 \<le> ld d i \<and> ld d i \<le> gd d) \<and>
     (\<forall>i < 2 ^ gd d. \<forall>j < 2 ^ gd d. bucket_at d i = bucket_at d j \<longleftrightarrow> i mod 2 ^ ld d i = j mod 2 ^ ld d i) \<and>
     (\<forall>i < 2 ^ gd d. \<forall>j < 2 ^ gd d. bucket_at d i = bucket_at d j \<longrightarrow> ld d i = ld d j)"

lemma Pow32_2 [simp]: "unat k < 32 \<Longrightarrow> Pow32 2 k = Some (2 ^ unat k)"
proof -
  assume "unat k < 32"
  then have "(2::int) ^ unat k < 2 ^ 32" by (rule power_strict_increasing) simp
  then show ?thesis by (simp add: Pow32_def)
qed

lemma unat_2_power: "k < 32 \<Longrightarrow> unat (2 ^ k :: uint32) = 2 ^ k"
  using power_strict_increasing [of k 32 "2::nat"] unat_of_nat_small [of "2 ^ k", where 'a = 32] by simp

lemma Size_gd: "gd d < 32 \<Longrightarrow> Size d = Some (2 ^ gd d)"
  by (simp add: Size_def gd_def)

lemma GetGlobalDepthMask_gd: "gd d < 32 \<Longrightarrow> GetGlobalDepthMask d = Some (mask (gd d))"
  by (simp add: GetGlobalDepthMask_def gd_def mask_eq_exp_minus_1)

text \<open>The split image adds half the span of the bucket and wraps within it.\<close>

lemma split_image_word:
  fixes i :: uint32
  shows "(push_bit k (drop_bit k i + 1) OR (i AND mask k)) = i + push_bit k 1"
proof -
  have "push_bit k (drop_bit k i + 1) OR (i AND mask k) = push_bit k (drop_bit k i + 1) + take_bit k i"
    unfolding take_bit_eq_mask
    by (rule disjunctive_add_eq_or [symmetric]) (auto simp: bit_eq_iff bit_simps)
  also have "\<dots> = i + push_bit k 1"
    using bits_ident [of k i] by (simp add: push_bit_add algebra_simps)
  finally show ?thesis .
qed

lemma take_bit_add_exp:
  fixes i :: uint32
  assumes "k < 32"
  shows "unat (take_bit (Suc k) (i + push_bit k 1)) = (unat i + 2 ^ k) mod 2 ^ Suc k"
proof -
  have "unat (i + push_bit k 1) = (unat i + 2 ^ k) mod 2 ^ 32"
    using unat_2_power [OF assms] by (simp add: unat_word_ariths push_bit_eq_mult)
  then have "unat (take_bit (Suc k) (i + push_bit k 1)) = take_bit (Suc k) (take_bit 32 (unat i + 2 ^ k))"
    by (simp only: unsigned_take_bit_eq) (simp only: take_bit_eq_mod)
  also have "\<dots> = take_bit (Suc k) (unat i + 2 ^ k)" using assms by (simp add: min_def)
  finally show ?thesis by (simp only: take_bit_eq_mod)
qed

lemma unat_ucast_8 [simp]: "unat (ucast (x :: 8 word) :: uint32) = unat x"
  by (rule unat_ucast_up) simp

lemma GetLocalDepth_ld:
  assumes "unat i < length (local_depths d)"
  obtains w where "GetLocalDepth d i = Some w" "unat w = ld d (unat i)"
  using assms by (simp add: GetLocalDepth_def ld_def)

lemma GetSplitImageIndex_ld:
  assumes "unat i < length (local_depths d)" and "1 \<le> ld d (unat i)" and "ld d (unat i) < 32"
  obtains w where "GetSplitImageIndex d i = Some w"
    "unat w = (unat i + 2 ^ (ld d (unat i) - 1)) mod 2 ^ ld d (unat i)"
proof -
  obtain l where l: "GetLocalDepth d i = Some l" "unat l = ld d (unat i)"
    using GetLocalDepth_ld [OF assms(1)] .
  obtain k where k: "ld d (unat i) = Suc k" using assms(2) by (cases "ld d (unat i)") auto
  have l1: "unat (l - 1) = k"
    using l(2) k unat_minus_one [of l] by (cases "l = 0") auto
  have lt: "l - 1 < 32" using l1 k assms(3) by (simp add: word_less_nat_alt)
  have "GetSplitImageIndex d i = Some (take_bit (Suc k) (i + push_bit k 1))"
    using l l1 lt k assms(3) split_image_word [of k i]
    by (simp add: GetSplitImageIndex_def GetLocalHighBit_def GetLocalDepthMask_def shift_left_def
        shift_right_def Let_def take_bit_eq_mask flip: mask_eq_exp_minus_1)
      (simp add: mask_eq_exp_minus_1)
  moreover have "unat (take_bit (Suc k) (i + push_bit k 1)) = (unat i + 2 ^ k) mod 2 ^ Suc k"
    by (rule take_bit_add_exp) (use k assms(3) in simp)
  ultimately show ?thesis using that k by simp
qed

subsection \<open>What \<open>VerifyIntegrity\<close> checks\<close>

abbreviation slot_count :: "dir_page \<Rightarrow> nat list \<Rightarrow> page_id_t \<Rightarrow> nat" where
  "slot_count d is p \<equiv> length (filter (\<lambda>i. bucket_at d i = p) is)"

lemma VerifyIntegrity_scan_step:
  "VerifyIntegrity_scan d (k # is) c l = Some r \<longleftrightarrow>
     k < length (bucket_page_ids d) \<and> k < length (local_depths d) \<and> ld d k \<le> gd d \<and>
     (\<forall>x. l (bucket_at d k) = Some x \<longrightarrow> x = ucast (local_depths d ! k)) \<and>
     VerifyIntegrity_scan d is (c(bucket_at d k := c (bucket_at d k) + 1))
       (l(bucket_at d k \<mapsto> ucast (local_depths d ! k))) = Some r"
  by (cases "l (bucket_at d k)")
    (auto simp: crash_simps bucket_at_def ld_def gd_def word_le_nat_alt Let_def)

lemma VerifyIntegrity_scan_Some:
  assumes "VerifyIntegrity_scan d is c l = Some (c', l')"
  shows "(\<forall>p. c' p = c p + of_nat (slot_count d is p)) \<and>
    (\<forall>i \<in> set is. ld d i \<le> gd d \<and> l' (bucket_at d i) = Some (ucast (local_depths d ! i))) \<and>
    (\<forall>p x. l p = Some x \<longrightarrow> l' p = Some x)"
  using assms
proof (induction "is" arbitrary: c l)
  case (Cons k "is")
  let ?c = "c(bucket_at d k := c (bucket_at d k) + 1)" and ?l = "l(bucket_at d k \<mapsto> ucast (local_depths d ! k))"
  from Cons.prems have le: "ld d k \<le> gd d"
    and l: "\<forall>x. l (bucket_at d k) = Some x \<longrightarrow> x = ucast (local_depths d ! k)"
    and r: "VerifyIntegrity_scan d is ?c ?l = Some (c', l')"
    unfolding VerifyIntegrity_scan_step by blast+
  note ih = Cons.IH [OF r]
  have "c' p = c p + of_nat (slot_count d (k # is) p)" for p using ih by simp
  moreover have k: "l' (bucket_at d k) = Some (ucast (local_depths d ! k))" using ih by simp
  moreover have "l' p = Some x" if "l p = Some x" for p x
    using ih l k that by (cases "p = bucket_at d k") auto
  ultimately show ?case using ih le by simp
qed auto

lemma VerifyIntegrity_scan_total:
  assumes "\<forall>i \<in> set is. i < length (local_depths d) \<and> i < length (bucket_page_ids d) \<and>
      ld d i \<le> gd d \<and> (\<forall>x. l (bucket_at d i) = Some x \<longrightarrow> x = ucast (local_depths d ! i))"
    and "\<forall>i \<in> set is. \<forall>j \<in> set is. bucket_at d i = bucket_at d j \<longrightarrow> ld d i = ld d j"
  shows "\<exists>r. VerifyIntegrity_scan d is c l = Some r"
  using assms
proof (induction "is" arbitrary: c l)
  case (Cons k "is")
  let ?c = "c(bucket_at d k := c (bucket_at d k) + 1)" and ?l = "l(bucket_at d k \<mapsto> ucast (local_depths d ! k))"
  have l: "\<forall>x. ?l (bucket_at d i) = Some x \<longrightarrow> x = ucast (local_depths d ! i)" if "i \<in> set is" for i
  proof (cases "bucket_at d i = bucket_at d k")
    case True
    then have "ld d i = ld d k" using Cons.prems(2) that by (meson list.set_intros)
    then have "local_depths d ! k = local_depths d ! i" by (simp add: ld_def word_unat_eq_iff)
    with True show ?thesis by simp
  next
    case False
    then show ?thesis using Cons.prems(1) that by (simp del: split_paired_All)
  qed
  have "\<exists>r. VerifyIntegrity_scan d is ?c ?l = Some r"
  proof (rule Cons.IH)
    show "\<forall>i \<in> set is. i < length (local_depths d) \<and> i < length (bucket_page_ids d) \<and>
      ld d i \<le> gd d \<and> (\<forall>x. ?l (bucket_at d i) = Some x \<longrightarrow> x = ucast (local_depths d ! i))"
      using Cons.prems(1) l by (metis list.set_intros(2))
    show "\<forall>i \<in> set is. \<forall>j \<in> set is. bucket_at d i = bucket_at d j \<longrightarrow> ld d i = ld d j"
      by (intro ballI, rule bspec [OF bspec [OF Cons.prems(2)]]) simp_all
  qed
  then show ?case unfolding VerifyIntegrity_scan_step using Cons.prems(1) by simp
next
  case Nil
  show ?case by simp
qed

lemma VerifyIntegrity_counts_Some:
  "VerifyIntegrity_counts d ps c l = Some () \<longleftrightarrow>
     (\<forall>p \<in> set ps. \<exists>x. l p = Some x \<and> shift_left 1 (global_depth d - x) = Some (c p))"
  by (induction ps) (auto simp: crash_simps)

lemma shift_left_depths:
  assumes "ld d i \<le> gd d" and "gd d \<le> 9"
  shows "shift_left 1 (global_depth d - ucast (local_depths d ! i)) = Some (2 ^ (gd d - ld d i))"
proof -
  have "unat (global_depth d - ucast (local_depths d ! i)) = gd d - ld d i"
    using assms(1) by (subst unat_sub) (simp_all add: word_le_nat_alt gd_def ld_def)
  then show ?thesis using assms(2) by (simp add: shift_left_def word_less_nat_alt push_bit_eq_mult)
qed

lemma slot_count_card: "slot_count d [0..<n] p = card {j. j < n \<and> bucket_at d j = p}"
proof -
  have "slot_count d [0..<n] p = card (set (filter (\<lambda>i. bucket_at d i = p) [0..<n]))"
    by (rule distinct_card [symmetric]) simp
  also have "set (filter (\<lambda>i. bucket_at d i = p) [0..<n]) = {j. j < n \<and> bucket_at d j = p}" by auto
  finally show ?thesis .
qed

lemma VerifyIntegrity_check:
  assumes "dir_wf d"
  shows "VerifyIntegrity d = Some () \<longleftrightarrow>
    (\<forall>i < 2 ^ gd d. ld d i \<le> gd d \<and> (\<forall>j < 2 ^ gd d. bucket_at d i = bucket_at d j \<longrightarrow> ld d i = ld d j) \<and>
       card {j. j < 2 ^ gd d \<and> bucket_at d j = bucket_at d i} = 2 ^ (gd d - ld d i))"
  (is "_ \<longleftrightarrow> ?R")
proof -
  let ?n = "2 ^ gd d :: nat"
  have g: "gd d \<le> 9" and len: "length (local_depths d) = 512" "length (bucket_page_ids d) = 512"
    using assms by (auto simp: dir_wf_def DIRECTORY_ARRAY_SIZE_def)
  have n: "?n \<le> 512" using power_increasing [OF g, of "2::nat"] by simp
  have sz: "Size d = Some (2 ^ gd d)" "unat (2 ^ gd d :: uint32) = ?n"
    using g by (simp_all add: Size_gd unat_2_power)
  have ps: "set (remdups (take ?n (bucket_page_ids d))) = bucket_at d ` {..<?n}"
  proof -
    have "take ?n (bucket_page_ids d) = map (bucket_at d) [0..<?n]"
      by (rule nth_equalityI) (use n len in \<open>simp_all add: bucket_at_def\<close>)
    then show ?thesis by (simp add: atLeast0LessThan)
  qed
  have cnt: "of_nat (card {j. j < ?n \<and> bucket_at d j = bucket_at d i}) = (2 ^ (gd d - ld d i) :: uint32) \<longleftrightarrow>
      card {j. j < ?n \<and> bucket_at d j = bucket_at d i} = 2 ^ (gd d - ld d i)" for i
  proof -
    have "card {j. j < ?n \<and> bucket_at d j = bucket_at d i} \<le> card {..<?n}" by (rule card_mono) auto
    then have "card {j. j < ?n \<and> bucket_at d j = bucket_at d i} < 2 ^ LENGTH(32)" using n by simp
    then show ?thesis
      using g by (simp add: word_unat_eq_iff unat_of_nat_small unat_2_power)
  qed
  have run: "VerifyIntegrity d = Some () \<longleftrightarrow>
      (\<exists>c l. VerifyIntegrity_scan d [0..<?n] (\<lambda>_. 0) Map.empty = Some (c, l) \<and>
        (\<forall>i < ?n. \<exists>x. l (bucket_at d i) = Some x \<and> shift_left 1 (global_depth d - x) = Some (c (bucket_at d i))))"
    unfolding VerifyIntegrity_def sz(1) bind.bind_lunit sz(2)
    by (simp add: crash_simps VerifyIntegrity_counts_Some ps lessThan_def
        del: set_remdups)
  show ?thesis
  proof
    assume "VerifyIntegrity d = Some ()"
    then obtain c l where sc: "VerifyIntegrity_scan d [0..<?n] (\<lambda>_. 0) Map.empty = Some (c, l)"
      and ct: "\<forall>i < ?n. \<exists>x. l (bucket_at d i) = Some x \<and> shift_left 1 (global_depth d - x) = Some (c (bucket_at d i))"
      unfolding run by blast
    note f = VerifyIntegrity_scan_Some [OF sc]
    have "ld d i \<le> gd d" "l (bucket_at d i) = Some (ucast (local_depths d ! i))" if "i < ?n" for i
      using f that by auto
    moreover from this have "ld d i = ld d j" if "i < ?n" "j < ?n" "bucket_at d i = bucket_at d j" for i j
      using that by (metis ld_def option.inject unat_ucast_8)
    moreover have "card {j. j < ?n \<and> bucket_at d j = bucket_at d i} = 2 ^ (gd d - ld d i)" if "i < ?n" for i
      using ct f that calculation(1,2) [OF that] g
      by (auto simp: shift_left_depths slot_count_card simp flip: cnt)
    ultimately show ?R by blast
  next
    assume r: ?R
    obtain c l where sc: "VerifyIntegrity_scan d [0..<?n] (\<lambda>_. 0) Map.empty = Some (c, l)"
    proof -
      have "\<exists>r. VerifyIntegrity_scan d [0..<?n] (\<lambda>_. 0) Map.empty = Some r"
      proof (rule VerifyIntegrity_scan_total)
        show "\<forall>i \<in> set [0..<?n]. i < length (local_depths d) \<and> i < length (bucket_page_ids d) \<and>
          ld d i \<le> gd d \<and> (\<forall>x. Map.empty (bucket_at d i) = Some x \<longrightarrow> x = ucast (local_depths d ! i))"
        proof
          fix i assume "i \<in> set [0..<?n]"
          then have "i < ?n" by simp
          moreover from this have "ld d i \<le> gd d" using r by blast
          ultimately show "i < length (local_depths d) \<and> i < length (bucket_page_ids d) \<and>
            ld d i \<le> gd d \<and> (\<forall>x. Map.empty (bucket_at d i) = Some x \<longrightarrow> x = ucast (local_depths d ! i))"
            using n len by simp
        qed
        have "set [0..<?n] = {..<?n}" by (simp add: atLeast0LessThan)
        then show "\<forall>i \<in> set [0..<?n]. \<forall>j \<in> set [0..<?n]. bucket_at d i = bucket_at d j \<longrightarrow> ld d i = ld d j"
          using r by blast
      qed
      then show thesis using that by auto
    qed
    note f = VerifyIntegrity_scan_Some [OF sc]
    have "\<exists>x. l (bucket_at d i) = Some x \<and> shift_left 1 (global_depth d - x) = Some (c (bucket_at d i))"
      if "i < ?n" for i
    proof -
      have "ld d i \<le> gd d" "card {j. j < ?n \<and> bucket_at d j = bucket_at d i} = 2 ^ (gd d - ld d i)"
        using r that by blast+
      moreover have "c (bucket_at d i) = of_nat (card {j. j < ?n \<and> bucket_at d j = bucket_at d i})"
        using f by (simp add: slot_count_card)
      moreover have "l (bucket_at d i) = Some (ucast (local_depths d ! i))" using f that by simp
      ultimately show ?thesis using shift_left_depths [of d i] g by simp
    qed
    then show "VerifyIntegrity d = Some ()" unfolding run using sc by blast
  qed
qed

text \<open>What \<^verbatim>\<open>VerifyIntegrity\<close> accepts: exactly the directories in which no local depth exceeds
  the global one, slots of one bucket have one local depth, and a bucket of local depth \<open>l\<close> has
  \<open>2 ^ (g - l)\<close> slots.\<close>

theorem VerifyIntegrity_iff:
  assumes "dir_wf d"
  shows "VerifyIntegrity d = Some () \<longleftrightarrow>
    (\<forall>i < 2 ^ gd d. ld d i \<le> gd d \<and> (\<forall>j < 2 ^ gd d. bucket_at d i = bucket_at d j \<longrightarrow> ld d i = ld d j) \<and>
       card {j. j < 2 ^ gd d \<and> bucket_at d j = bucket_at d i} = 2 ^ (gd d - ld d i))"
  by (rule VerifyIntegrity_check [OF assms])

definition small_dir :: dir_page where
  "small_dir = \<lparr>dir_page_id = 0, dir_lsn = 0, global_depth = 2,
     local_depths = [1, 2, 1, 2] @ replicate 508 0,
     bucket_page_ids = [7, 8, 7, 9] @ replicate 508 0\<rparr>"

lemma small_dir_simps:
  "gd small_dir = 2" "dir_wf small_dir"
  "ld small_dir 0 = 1" "ld small_dir 1 = 2" "ld small_dir 2 = 1" "ld small_dir 3 = 2"
  "bucket_at small_dir 0 = 7" "bucket_at small_dir 1 = 8" "bucket_at small_dir 2 = 7" "bucket_at small_dir 3 = 9"
  by (simp_all add: gd_def ld_def bucket_at_def dir_wf_def small_dir_def DIRECTORY_ARRAY_SIZE_def)

lemma less_4_cases: "i < (2::nat) ^ 2 \<longleftrightarrow> i = 0 \<or> i = 1 \<or> i = 2 \<or> i = 3"
  by auto

lemma small_dir_ok: "dir_ok small_dir"
  unfolding dir_ok_def small_dir_simps(1) less_4_cases by (auto simp: small_dir_simps simp del: One_nat_def)

subsection \<open>The shape of the directory\<close>

lemma card_residues:
  assumes "l \<le> g" and "r < (2::nat) ^ l"
  shows "card {j. j < 2 ^ g \<and> j mod 2 ^ l = r} = 2 ^ (g - l)"
proof -
  have g: "(2::nat) ^ g = 2 ^ (g - l) * 2 ^ l" using assms(1) by (simp flip: power_add)
  have "bij_betw (\<lambda>q. q * 2 ^ l + r) {..<2 ^ (g - l)} {j. j < 2 ^ g \<and> j mod 2 ^ l = r}"
  proof (rule bij_betw_imageI)
    show "inj_on (\<lambda>q. q * 2 ^ l + r) {..<2 ^ (g - l)}" by (auto simp: inj_on_def)
    have "q * 2 ^ l + r < 2 ^ g" if "q < 2 ^ (g - l)" for q
    proof -
      have "q * 2 ^ l + r < (q + 1) * 2 ^ l" using assms(2) by simp
      also have "\<dots> \<le> 2 ^ (g - l) * 2 ^ l" using that by (intro mult_le_mono1) simp
      finally show ?thesis by (simp add: g)
    qed
    moreover have "j div 2 ^ l < 2 ^ (g - l)" if "j < 2 ^ g" for j :: nat
      using that by (simp add: g less_mult_imp_div_less)
    ultimately show "(\<lambda>q. q * 2 ^ l + r) ` {..<2 ^ (g - l)} = {j. j < 2 ^ g \<and> j mod 2 ^ l = r}"
      using assms(2) by (auto simp: image_iff intro!: bexI [of _ "_ div 2 ^ l"])
        (rule div_mult_mod_eq [symmetric])
  qed
  then show ?thesis using bij_betw_same_card by fastforce
qed

lemma dir_okD:
  assumes "dir_ok d" and "i < 2 ^ gd d"
  shows "1 \<le> ld d i" "ld d i \<le> gd d" "i < 512" "gd d \<le> 9"
    "length (local_depths d) = 512" "length (bucket_page_ids d) = 512"
    "j < 2 ^ gd d \<Longrightarrow> bucket_at d i = bucket_at d j \<longleftrightarrow> i mod 2 ^ ld d i = j mod 2 ^ ld d i"
    "j < 2 ^ gd d \<Longrightarrow> bucket_at d i = bucket_at d j \<Longrightarrow> ld d i = ld d j"
proof -
  show g: "gd d \<le> 9" using assms(1) unfolding dir_ok_def dir_wf_def by blast
  show "i < 512" using power_increasing [OF g, of "2::nat"] assms(2) by simp
qed (use assms in \<open>unfold dir_ok_def dir_wf_def DIRECTORY_ARRAY_SIZE_def, blast+\<close>)

lemma dir_ok_card:
  assumes "dir_ok d" and "i < 2 ^ gd d"
  shows "card {j. j < 2 ^ gd d \<and> bucket_at d j = bucket_at d i} = 2 ^ (gd d - ld d i)"
proof -
  have "{j. j < 2 ^ gd d \<and> bucket_at d j = bucket_at d i} = {j. j < 2 ^ gd d \<and> j mod 2 ^ ld d i = i mod 2 ^ ld d i}"
    using dir_okD(7) [OF assms] by (metis (no_types, lifting))
  then show ?thesis using card_residues [OF dir_okD(2) [OF assms]] by simp
qed

text \<open>The proper shape passes the check; the check is weaker, as it counts the slots of a bucket
  and does not look at where they are.\<close>

lemma dir_ok_VerifyIntegrity:
  assumes "dir_ok d"
  shows "\<forall>i < 2 ^ gd d. ld d i \<le> gd d \<and> (\<forall>j < 2 ^ gd d. bucket_at d i = bucket_at d j \<longrightarrow> ld d i = ld d j) \<and>
       card {j. j < 2 ^ gd d \<and> bucket_at d j = bucket_at d i} = 2 ^ (gd d - ld d i)"
proof (intro allI impI conjI)
  fix i :: nat assume "i < 2 ^ gd d"
  with assms show "ld d i \<le> gd d" "card {j. j < 2 ^ gd d \<and> bucket_at d j = bucket_at d i} = 2 ^ (gd d - ld d i)"
    by (rule dir_okD(2), rule dir_ok_card)
  fix j :: nat assume "j < 2 ^ gd d" "bucket_at d i = bucket_at d j"
  with assms \<open>i < 2 ^ gd d\<close> show "ld d i = ld d j" by (rule dir_okD(8))
qed

theorem VerifyIntegrity_iff_witness:
  "VerifyIntegrity small_dir = Some ()"
  using VerifyIntegrity_iff [OF small_dir_simps(2)] dir_ok_VerifyIntegrity [OF small_dir_ok] by blast

lemma add_half_mod:
  fixes i :: nat
  assumes "l = Suc k"
  shows "(i + 2 ^ k) mod 2 ^ l mod 2 ^ k = i mod 2 ^ k" "(i + 2 ^ k) mod 2 ^ l \<noteq> i mod 2 ^ l"
proof -
  show "(i + 2 ^ k) mod 2 ^ l mod 2 ^ k = i mod 2 ^ k"
    by (simp add: assms mod_mod_cancel)
  show "(i + 2 ^ k) mod 2 ^ l \<noteq> i mod 2 ^ l"
  proof
    assume "(i + 2 ^ k) mod 2 ^ l = i mod 2 ^ l"
    then have "2 ^ l dvd (2::nat) ^ k" by (metis add_diff_cancel_left' le_add1 mod_eq_dvd_iff_nat)
    then show False by (simp add: assms power_dvd_imp_le)
  qed
qed

text \<open>The split image of a slot is the slot that differs from it in the highest of its local
  bits: within the span of the local depth it is another slot, and it agrees with it in all lower
  bits.\<close>

theorem GetSplitImageIndex_spec:
  assumes "unat i < length (local_depths d)" and "1 \<le> ld d (unat i)" and "ld d (unat i) < 32"
  shows "\<exists>w. GetSplitImageIndex d i = Some w \<and> unat w < 2 ^ ld d (unat i) \<and>
    unat w mod 2 ^ (ld d (unat i) - 1) = unat i mod 2 ^ (ld d (unat i) - 1) \<and>
    unat w \<noteq> unat i mod 2 ^ ld d (unat i)"
proof -
  obtain w where w: "GetSplitImageIndex d i = Some w"
    "unat w = (unat i + 2 ^ (ld d (unat i) - 1)) mod 2 ^ ld d (unat i)"
    using GetSplitImageIndex_ld [OF assms] .
  moreover have "ld d (unat i) = Suc (ld d (unat i) - 1)" using assms(2) by simp
  note add_half_mod [OF this, of "unat i"]
  ultimately show ?thesis by simp
qed

theorem GetSplitImageIndex_spec_witness:
  "\<exists>w. GetSplitImageIndex small_dir 3 = Some w \<and> unat w < 2 ^ ld small_dir (unat (3 :: uint32)) \<and>
    unat w mod 2 ^ (ld small_dir (unat (3 :: uint32)) - 1)
      = unat (3 :: uint32) mod 2 ^ (ld small_dir (unat (3 :: uint32)) - 1) \<and>
    unat w \<noteq> unat (3 :: uint32) mod 2 ^ ld small_dir (unat (3 :: uint32))"
  by (rule GetSplitImageIndex_spec) (simp_all add: small_dir_simps, simp add: small_dir_def)

end
