(* ===== verification/BucketPage.thy ===== *)
theory BucketPage
  imports Prelude "HOL-Library.Multiset"
begin

section \<open>The bucket page of the extendible hash index\<close>

text \<open>
  \<^verbatim>\<open>src/storage/page/hash_table_bucket_page.cpp\<close>: two bitmaps and an array of key and value pairs.
  A slot is occupied once it was ever used, readable while it holds a pair. The comparator \<open>cmp\<close> is
  an argument, as in the template; \<open>n\<close> is \<^verbatim>\<open>BUCKET_ARRAY_SIZE\<close>, which depends on the page size and
  the size of a pair. \<^term>\<open>None\<close> is an access outside an array.
\<close>

subsection \<open>State and operations\<close>

definition BUCKET_ARRAY_SIZE :: "config \<Rightarrow> nat \<Rightarrow> nat" where
  "BUCKET_ARRAY_SIZE cfg mapping_size = 4 * PAGE_SIZE cfg div (4 * mapping_size + 1)"

record ('k, 'v) bucket =
  occupied :: bytes
  readable :: bytes
  array :: "('k \<times> 'v) list"

definition GetNumofChars :: "nat \<Rightarrow> nat" where
  "GetNumofChars n = (n - 1) div 8 + 1"

definition GetLocation :: "nat \<Rightarrow> nat \<times> nat" where
  "GetLocation bucket_idx = (bucket_idx div 8, bucket_idx mod 8)"

definition GetMask :: "nat \<Rightarrow> int \<Rightarrow> byte" where
  "GetMask which b =
     (if b = 0 then ucast (NOT (push_bit which (1 :: 32 word))) else ucast (push_bit which (1 :: 32 word)))"

definition IsOccupied :: "('k, 'v) bucket \<Rightarrow> nat \<Rightarrow> bool option" where
  "IsOccupied b bucket_idx = do {
     let location = GetLocation bucket_idx;
     c \<leftarrow> vec_get (occupied b) (fst location);
     Some ((scast c AND push_bit (snd location) (1 :: 32 word)) \<noteq> 0)
   }"

definition SetOccupied :: "('k, 'v) bucket \<Rightarrow> nat \<Rightarrow> int \<Rightarrow> ('k, 'v) bucket option" where
  "SetOccupied b bucket_idx x = do {
     let location = GetLocation bucket_idx;
     let m = GetMask (snd location) x;
     c \<leftarrow> vec_get (occupied b) (fst location);
     Some (b\<lparr>occupied := (occupied b)[fst location := (if x = 0 then c AND m else c OR m)]\<rparr>)
   }"

definition IsReadable :: "('k, 'v) bucket \<Rightarrow> nat \<Rightarrow> bool option" where
  "IsReadable b bucket_idx = do {
     let location = GetLocation bucket_idx;
     c \<leftarrow> vec_get (readable b) (fst location);
     Some ((scast c AND push_bit (snd location) (1 :: 32 word)) \<noteq> 0)
   }"

definition SetReadable :: "('k, 'v) bucket \<Rightarrow> nat \<Rightarrow> int \<Rightarrow> ('k, 'v) bucket option" where
  "SetReadable b bucket_idx x = do {
     let location = GetLocation bucket_idx;
     let m = GetMask (snd location) x;
     c \<leftarrow> vec_get (readable b) (fst location);
     Some (b\<lparr>readable := (readable b)[fst location := (if x = 0 then c AND m else c OR m)]\<rparr>)
   }"

definition KeyAt :: "('k, 'v) bucket \<Rightarrow> nat \<Rightarrow> 'k option" where
  "KeyAt b bucket_idx = map_option fst (vec_get (array b) bucket_idx)"

definition ValueAt :: "('k, 'v) bucket \<Rightarrow> nat \<Rightarrow> 'v option" where
  "ValueAt b bucket_idx = map_option snd (vec_get (array b) bucket_idx)"

definition RemoveAt :: "('k, 'v) bucket \<Rightarrow> nat \<Rightarrow> ('k, 'v) bucket option" where
  "RemoveAt b bucket_idx = do {
     b \<leftarrow> SetOccupied b bucket_idx 1;
     SetReadable b bucket_idx 0
   }"

text \<open>The inner loop of \<^verbatim>\<open>NumReadable\<close> clears the lowest set bit until none is left.\<close>

lemma and_pred_less: "(w :: byte) \<noteq> 0 \<Longrightarrow> unat (w AND (w - 1)) < unat w"
proof -
  assume "w \<noteq> 0"
  have "unat (w AND (w - 1)) \<le> unat (w - 1)"
    by (metis AND_upper2 uint_and uint_ge_0 unat_eq_nat_uint nat_mono)
  moreover have "0 < unat w" using \<open>w \<noteq> 0\<close> by (simp add: unat_gt_0)
  ultimately show ?thesis using unat_minus_one [OF \<open>w \<noteq> 0\<close>] by linarith
qed

function count_bits :: "byte \<Rightarrow> uint32 \<Rightarrow> uint32" where
  "count_bits r num_readable =
     (if r \<noteq> 0 then count_bits (r AND (r - 1)) (num_readable + 1) else num_readable)"
  by auto
termination
  by (relation "measure (\<lambda>(r, _). unat r)") (auto simp: and_pred_less)

declare count_bits.simps [simp del]

fun NumReadable_loop :: "byte list \<Rightarrow> uint32 \<Rightarrow> uint32" where
  "NumReadable_loop [] num_readable = num_readable"
| "NumReadable_loop (r # rs) num_readable = NumReadable_loop rs (count_bits r num_readable)"

definition NumReadable :: "nat \<Rightarrow> ('k, 'v) bucket \<Rightarrow> uint32" where
  "NumReadable n b = NumReadable_loop (take (GetNumofChars n) (readable b)) 0"

definition IsFull :: "nat \<Rightarrow> ('k, 'v) bucket \<Rightarrow> bool" where
  "IsFull n b \<longleftrightarrow> NumReadable n b = of_nat n"

definition IsEmpty :: "nat \<Rightarrow> ('k, 'v) bucket \<Rightarrow> bool" where
  "IsEmpty n b \<longleftrightarrow> NumReadable n b = 0"

fun GetValue_loop ::
    "('k, 'v) bucket \<Rightarrow> 'k \<Rightarrow> ('k \<Rightarrow> 'k \<Rightarrow> int) \<Rightarrow> nat list \<Rightarrow> 'v list \<Rightarrow> 'v list option" where
  "GetValue_loop b key cmp [] result = Some result"
| "GetValue_loop b key cmp (i # is) result = do {
     r \<leftarrow> IsReadable b i;
     if \<not> r then do {
       oc \<leftarrow> IsOccupied b i;
       if \<not> oc then Some result else GetValue_loop b key cmp is result
     } else do {
       k \<leftarrow> KeyAt b i;
       if cmp key k = 0 then do {
         v \<leftarrow> ValueAt b i;
         GetValue_loop b key cmp is (result @ [v])
       } else GetValue_loop b key cmp is result
     }
   }"

definition Bucket_GetValue ::
    "nat \<Rightarrow> ('k, 'v) bucket \<Rightarrow> 'k \<Rightarrow> ('k \<Rightarrow> 'k \<Rightarrow> int) \<Rightarrow> 'v list \<Rightarrow> (bool \<times> 'v list) option" where
  "Bucket_GetValue n b key cmp result = do {
     result \<leftarrow> GetValue_loop b key cmp [0..<n] result;
     Some (result \<noteq> [], result)
   }"

fun Insert_loop :: "('k, 'v) bucket \<Rightarrow> 'k \<Rightarrow> 'v \<Rightarrow> nat list \<Rightarrow> ('k, 'v) bucket option" where
  "Insert_loop b key val [] = Some b"
| "Insert_loop b key val (i # is) = do {
     r \<leftarrow> IsReadable b i;
     if \<not> r then do {
       a \<leftarrow> vec_set (array b) i (key, val);
       b \<leftarrow> SetReadable (b\<lparr>array := a\<rparr>) i 1;
       SetOccupied b i 1
     } else Insert_loop b key val is
   }"

definition Bucket_Insert ::
    "nat \<Rightarrow> ('k, 'v) bucket \<Rightarrow> 'k \<Rightarrow> 'v \<Rightarrow> ('k \<Rightarrow> 'k \<Rightarrow> int) \<Rightarrow> (bool \<times> ('k, 'v) bucket) option" where
  "Bucket_Insert n b key val cmp =
     (if IsFull n b then Some (False, b)
      else do {
        (_, result) \<leftarrow> Bucket_GetValue n b key cmp [];
        if val \<in> set result then Some (False, b)
        else do {
          b \<leftarrow> Insert_loop b key val [0..<n];
          Some (True, b)
        }
      })"

fun Remove_loop ::
    "('k, 'v) bucket \<Rightarrow> 'k \<Rightarrow> 'v \<Rightarrow> ('k \<Rightarrow> 'k \<Rightarrow> int) \<Rightarrow> nat list \<Rightarrow> (bool \<times> ('k, 'v) bucket) option" where
  "Remove_loop b key val cmp [] = Some (False, b)"
| "Remove_loop b key val cmp (i # is) = do {
     r \<leftarrow> IsReadable b i;
     if \<not> r then Remove_loop b key val cmp is
     else do {
       k \<leftarrow> KeyAt b i;
       v \<leftarrow> ValueAt b i;
       if cmp key k = 0 \<and> v = val then do {
         b \<leftarrow> SetReadable b i 0;
         Some (True, b)
       } else Remove_loop b key val cmp is
     }
   }"

definition Bucket_Remove ::
    "nat \<Rightarrow> ('k, 'v) bucket \<Rightarrow> 'k \<Rightarrow> 'v \<Rightarrow> ('k \<Rightarrow> 'k \<Rightarrow> int) \<Rightarrow> (bool \<times> ('k, 'v) bucket) option" where
  "Bucket_Remove n b key val cmp = Remove_loop b key val cmp [0..<n]"

subsection \<open>The bitmaps\<close>

definition bit_at :: "bytes \<Rightarrow> nat \<Rightarrow> bool" where
  "bit_at bs i = bit (bs ! (i div 8)) (i mod 8)"

abbreviation rd :: "('k, 'v) bucket \<Rightarrow> nat \<Rightarrow> bool" where
  "rd b i \<equiv> bit_at (readable b) i"

abbreviation oc :: "('k, 'v) bucket \<Rightarrow> nat \<Rightarrow> bool" where
  "oc b i \<equiv> bit_at (occupied b) i"

lemma and_exp_byte: "k < 8 \<Longrightarrow> scast (c :: byte) AND (2 ^ k :: 32 word) = 0 \<longleftrightarrow> \<not> bit c k"
proof -
  assume "k < 8"
  then have "min 7 k = k" by simp
  with \<open>k < 8\<close> show ?thesis by (simp add: and_exp_eq_0_iff_not_bit bit_simps)
qed

lemma bit_and_mask: "k < 8 \<Longrightarrow> j < 8 \<Longrightarrow> bit (c AND GetMask k 0) j \<longleftrightarrow> bit c j \<and> j \<noteq> k"
  by (auto simp: GetMask_def bit_simps)

lemma bit_or_mask: "k < 8 \<Longrightarrow> j < 8 \<Longrightarrow> bit (c OR GetMask k 1) j \<longleftrightarrow> bit c j \<or> j = k"
  by (auto simp: GetMask_def bit_simps)

lemma IsReadable_rd: "i div 8 < length (readable b) \<Longrightarrow> IsReadable b i = Some (rd b i)"
  by (simp add: IsReadable_def GetLocation_def bit_at_def and_exp_byte)

lemma IsOccupied_oc: "i div 8 < length (occupied b) \<Longrightarrow> IsOccupied b i = Some (oc b i)"
  by (simp add: IsOccupied_def GetLocation_def bit_at_def and_exp_byte)

definition set_bit_at :: "bytes \<Rightarrow> nat \<Rightarrow> bool \<Rightarrow> bytes" where
  "set_bit_at bs i x = bs[i div 8 := (if x then bs ! (i div 8) OR GetMask (i mod 8) 1
     else bs ! (i div 8) AND GetMask (i mod 8) 0)]"

lemma length_set_bit_at [simp]: "length (set_bit_at bs i x) = length bs"
  by (simp add: set_bit_at_def)

lemma bit_at_set_bit_at:
  assumes "i div 8 < length bs"
  shows "bit_at (set_bit_at bs i x) j = (if j = i then x else bit_at bs j)"
proof (cases "j div 8 = i div 8")
  case True
  then have "j = i \<longleftrightarrow> j mod 8 = i mod 8" by (metis div_mult_mod_eq)
  then show ?thesis
    using True assms by (auto simp: bit_at_def set_bit_at_def bit_and_mask bit_or_mask)
next
  case False
  then show ?thesis by (auto simp: bit_at_def set_bit_at_def)
qed

lemma SetReadable_eq:
  assumes "i div 8 < length (readable b)"
  shows "SetReadable b i 0 = Some (b\<lparr>readable := set_bit_at (readable b) i False\<rparr>)"
    and "SetReadable b i 1 = Some (b\<lparr>readable := set_bit_at (readable b) i True\<rparr>)"
  using assms by (simp_all add: SetReadable_def GetLocation_def set_bit_at_def)

lemma SetOccupied_eq:
  assumes "i div 8 < length (occupied b)"
  shows "SetOccupied b i 1 = Some (b\<lparr>occupied := set_bit_at (occupied b) i True\<rparr>)"
  using assms by (simp add: SetOccupied_def GetLocation_def set_bit_at_def)

subsection \<open>Counting\<close>

definition popcount :: "byte \<Rightarrow> nat" where
  "popcount w = length (filter (bit w) [0..<8])"

text \<open>Clearing the lowest set bit.\<close>

lemma and_pred_unset:
  fixes w :: byte
  assumes "bit w k" and "\<And>j. j < k \<Longrightarrow> \<not> bit w j"
  shows "w AND (w - 1) = unset_bit k w"
proof -
  have k: "k < 8" using bit_imp_le_length [OF assms(1)] by simp
  have "unset_bit k w + 2 ^ k = unset_bit k w OR 2 ^ k"
    by (rule disjunctive_add) (auto simp: bit_simps)
  also have "\<dots> = w" by (rule bit_word_eqI) (use assms(1) k in \<open>auto simp: bit_simps\<close>)
  finally have w: "w = unset_bit k w + 2 ^ k" by simp
  have "unset_bit k w + mask k = unset_bit k w OR mask k"
    by (rule disjunctive_add) (use assms(2) in \<open>auto simp: bit_simps\<close>)
  then have "w - 1 = unset_bit k w OR mask k"
    using w by (metis add_diff_eq mask_eq_exp_minus_1)
  then show ?thesis using assms(2) by (auto simp: bit_eq_iff bit_simps)
qed

lemma popcount_card: "popcount w = card {j. j < 8 \<and> bit w j}"
proof -
  have "popcount w = card (set (filter (bit w) [0..<8]))"
    unfolding popcount_def by (rule distinct_card [symmetric]) simp
  also have "set (filter (bit w) [0..<8]) = {j. j < 8 \<and> bit w j}" by auto
  finally show ?thesis .
qed

lemma popcount_and_pred:
  assumes "(w :: byte) \<noteq> 0"
  shows "popcount w = Suc (popcount (w AND (w - 1)))"
proof -
  obtain m where "bit w m" using assms by (auto simp: bit_eq_iff)
  then obtain k where k: "bit w k" "\<And>j. j < k \<Longrightarrow> \<not> bit w j"
    by (metis exists_least_iff)
  have "k < 8" using bit_imp_le_length [OF k(1)] by simp
  have "{j. j < 8 \<and> bit (unset_bit k w) j} = {j. j < 8 \<and> bit w j} - {k}"
    by (auto simp: bit_simps)
  then show ?thesis
    using k(1) \<open>k < 8\<close> card_Suc_Diff1 [of "{j. j < 8 \<and> bit w j}" k]
    by (simp add: popcount_card and_pred_unset [OF k])
qed

lemma count_bits_popcount: "count_bits w m = m + of_nat (popcount w)"
proof (induction w m rule: count_bits.induct)
  case (1 w m)
  show ?case
  proof (cases "w = 0")
    case True
    then show ?thesis by (simp add: count_bits.simps popcount_def)
  next
    case False
    then show ?thesis
      using 1 [OF False] popcount_and_pred [OF False] by (simp add: count_bits.simps [of w m])
  qed
qed

lemma NumReadable_loop_sum:
  "NumReadable_loop rs m = m + of_nat (sum_list (map popcount rs))"
  by (induction rs arbitrary: m) (simp_all add: count_bits_popcount)

lemma upt_8: "[0..<8 * Suc m] = [0..<8 * m] @ map (\<lambda>j. 8 * m + j) [0..<8]"
  by (rule nth_equalityI) (auto simp: nth_append)

lemma popcount_bits:
  "m \<le> length bs \<Longrightarrow> sum_list (map popcount (take m bs)) = length (filter (bit_at bs) [0..<8 * m])"
proof (induction m)
  case (Suc m)
  have "length (filter (bit_at bs) (map (\<lambda>j. 8 * m + j) [0..<8])) = popcount (bs ! m)"
  proof -
    have "filter (bit_at bs \<circ> (\<lambda>j. 8 * m + j)) [0..<8] = filter (bit (bs ! m)) [0..<8]"
      by (rule filter_cong) (auto simp: bit_at_def)
    then show ?thesis by (simp add: popcount_def filter_map)
  qed
  then show ?case using Suc by (simp add: upt_8 take_Suc_conv_app_nth del: mult_Suc_right upt_Suc)
qed simp

subsection \<open>Invariant and abstraction\<close>

text \<open>Readable slots are occupied and inside the array, and the occupied slots are a prefix of it:
  that is why \<^verbatim>\<open>GetValue\<close> may stop at the first slot that was never used.\<close>

definition bucket_inv :: "nat \<Rightarrow> ('k, 'v) bucket \<Rightarrow> bool" where
  "bucket_inv n b \<longleftrightarrow> 0 < n \<and> n < 2 ^ 32 \<and> length (array b) = n \<and>
     length (occupied b) = GetNumofChars n \<and> length (readable b) = GetNumofChars n \<and>
     (\<forall>i < 8 * GetNumofChars n. rd b i \<longrightarrow> i < n \<and> oc b i) \<and>
     (\<forall>i < n. \<forall>j < i. oc b i \<longrightarrow> oc b j)"

definition entries :: "nat \<Rightarrow> ('k, 'v) bucket \<Rightarrow> ('k \<times> 'v) list" where
  "entries n b = map (\<lambda>i. array b ! i) (filter (rd b) [0..<n])"

lemma chars_bound: "i < n \<Longrightarrow> i div 8 < GetNumofChars n" "n \<le> 8 * GetNumofChars n"
  by (auto simp: GetNumofChars_def)

lemma bucket_invD:
  assumes "bucket_inv n b"
  shows "0 < n" "n < 2 ^ 32" "length (array b) = n" "length (occupied b) = GetNumofChars n"
    "length (readable b) = GetNumofChars n"
    "i < 8 * GetNumofChars n \<Longrightarrow> rd b i \<Longrightarrow> i < n" "i < n \<Longrightarrow> rd b i \<Longrightarrow> oc b i"
    "i < n \<Longrightarrow> j < i \<Longrightarrow> oc b i \<Longrightarrow> oc b j"
    "i < n \<Longrightarrow> IsReadable b i = Some (rd b i)" "i < n \<Longrightarrow> IsOccupied b i = Some (oc b i)"
    "i < n \<Longrightarrow> i div 8 < length (readable b)" "i < n \<Longrightarrow> i div 8 < length (occupied b)"
  using assms chars_bound(1) [of i n] chars_bound(2) [of n]
  by (auto simp: bucket_inv_def IsReadable_rd IsOccupied_oc)

lemma length_entries: "length (entries n b) = length (filter (rd b) [0..<n])"
  by (simp add: entries_def)

lemma length_entries_le: "length (entries n b) \<le> n"
  using length_filter_le [of "rd b" "[0..<n]"] by (simp add: length_entries)

lemma NumReadable_entries:
  assumes "bucket_inv n b"
  shows "NumReadable n b = of_nat (length (entries n b))"
proof -
  note B = bucket_invD [OF assms]
  let ?m = "8 * GetNumofChars n"
  have "[0..<?m] = [0..<n] @ [n..<?m]"
    using chars_bound(2) [of n] by (metis le_add_diff_inverse upt_add_eq_append zero_le)
  moreover have "filter (rd b) [n..<?m] = []" using B(6) by (fastforce simp: filter_empty_conv)
  ultimately have "length (filter (rd b) [0..<?m]) = length (entries n b)" by (simp add: length_entries)
  then show ?thesis
    using popcount_bits [of "GetNumofChars n" "readable b"] B(5)
    by (simp add: NumReadable_def NumReadable_loop_sum)
qed

lemma IsFull_entries: "bucket_inv n b \<Longrightarrow> IsFull n b \<longleftrightarrow> length (entries n b) = n"
  using length_entries_le [of n b] bucket_invD(2) [of n b]
  by (simp add: IsFull_def NumReadable_entries word_unat_eq_iff unat_of_nat_small)

lemma IsEmpty_entries: "bucket_inv n b \<Longrightarrow> IsEmpty n b \<longleftrightarrow> entries n b = []"
  using length_entries_le [of n b] bucket_invD(2) [of n b]
  by (simp add: IsEmpty_def NumReadable_entries word_unat_eq_iff unat_of_nat_small)

lemma length_filter_all: "length (filter P xs) = length xs \<longleftrightarrow> (\<forall>x \<in> set xs. P x)"
  by (metis filter_True length_filter_less nat_neq_iff)

lemma not_full_slot:
  assumes "bucket_inv n b" and "\<not> IsFull n b"
  obtains i where "i < n" "\<not> rd b i" "\<And>j. j < i \<Longrightarrow> rd b j"
proof -
  have "\<not> (\<forall>i < n. rd b i)"
    using assms IsFull_entries [OF assms(1)] length_filter_all [of "rd b" "[0..<n]"]
    by (auto simp: length_entries)
  then obtain i where "i < n" "\<not> rd b i" "\<forall>j < i. \<not> (j < n \<and> \<not> rd b j)"
    using exists_least_iff [of "\<lambda>i. i < n \<and> \<not> rd b i"] by blast
  then show ?thesis using that by auto
qed

lemma not_full_none:
  assumes "bucket_inv n b" and "IsFull n b"
  shows "\<forall>i < n. rd b i"
  using assms IsFull_entries [OF assms(1)] length_filter_all [of "rd b" "[0..<n]"]
  by (auto simp: length_entries)

subsection \<open>Searching\<close>

definition matching :: "('k \<Rightarrow> 'k \<Rightarrow> int) \<Rightarrow> 'k \<Rightarrow> ('k \<times> 'v) list \<Rightarrow> 'v list" where
  "matching cmp key es = map snd (filter (\<lambda>(k, _). cmp key k = 0) es)"

lemma GetValue_loop_matching:
  assumes inv: "bucket_inv n b" and "i \<le> n"
  shows "GetValue_loop b key cmp [i..<n] result =
    Some (result @ matching cmp key (map (\<lambda>i. array b ! i) (filter (rd b) [i..<n])))"
  using assms(2)
proof (induction "n - i" arbitrary: i result)
  case 0
  then show ?case by (simp add: matching_def)
next
  case (Suc m)
  then have i: "i < n" by simp
  note B = bucket_invD [OF inv]
  have up: "[i..<n] = i # [Suc i..<n]" using i by (rule upt_conv_Cons)
  have ih: "GetValue_loop b key cmp [Suc i..<n] result' =
      Some (result' @ matching cmp key (map (\<lambda>i. array b ! i) (filter (rd b) [Suc i..<n])))" for result'
    using Suc by (intro Suc.hyps(1)) auto
  show ?case
  proof (cases "rd b i \<or> oc b i")
    case True
    then show ?thesis
      using ih i B(3,9,10) by (auto simp: up KeyAt_def ValueAt_def matching_def split_beta)
  next
    case False
    have "\<not> rd b j" if "i \<le> j" "j < n" for j
      using False B(7,8) that by (metis le_neq_implies_less)
    then have "filter (rd b) [i..<n] = []" by (auto simp: filter_empty_conv)
    then show ?thesis using False i B(9,10) by (simp add: up matching_def)
  qed
qed

lemma Bucket_GetValue_matching:
  "bucket_inv n b \<Longrightarrow> Bucket_GetValue n b key cmp result =
    (let r = result @ matching cmp key (entries n b) in Some (r \<noteq> [], r))"
  by (simp add: Bucket_GetValue_def GetValue_loop_matching entries_def Let_def)

subsection \<open>Updating\<close>

lemma entries_mset: "mset (entries n b) = image_mset (\<lambda>i. array b ! i) (mset_set {i. i < n \<and> rd b i})"
proof -
  have "mset (filter (rd b) [0..<n]) = mset_set (set (filter (rd b) [0..<n]))"
    by (rule mset_set_set [symmetric]) simp
  also have "set (filter (rd b) [0..<n]) = {i. i < n \<and> rd b i}" by auto
  finally show ?thesis by (simp add: entries_def)
qed

definition fill_slot :: "('k, 'v) bucket \<Rightarrow> nat \<Rightarrow> 'k \<times> 'v \<Rightarrow> ('k, 'v) bucket" where
  "fill_slot b i kv = b\<lparr>array := (array b)[i := kv], readable := set_bit_at (readable b) i True,
     occupied := set_bit_at (occupied b) i True\<rparr>"

definition clear_slot :: "('k, 'v) bucket \<Rightarrow> nat \<Rightarrow> ('k, 'v) bucket" where
  "clear_slot b i = b\<lparr>readable := set_bit_at (readable b) i False\<rparr>"

lemma fill_slot_inv:
  assumes "bucket_inv n b" and "i < n" and "\<And>j. j < i \<Longrightarrow> rd b j"
  shows "bucket_inv n (fill_slot b i kv)"
proof -
  note B = bucket_invD [OF assms(1)]
  have bits: "rd (fill_slot b i kv) j \<longleftrightarrow> j = i \<or> rd b j" "oc (fill_slot b i kv) j \<longleftrightarrow> j = i \<or> oc b j" for j
    using B(11,12) [OF assms(2)] by (auto simp: fill_slot_def bit_at_set_bit_at)
  have "oc b j" if "j < i" for j using assms(2,3) B(7) that by (meson less_trans)
  then show ?thesis
    using B assms(2) by (auto simp: bucket_inv_def bits) (auto simp: fill_slot_def)
qed

lemma fill_slot_entries:
  assumes "bucket_inv n b" and "i < n" and "\<not> rd b i"
  shows "mset (entries n (fill_slot b i kv)) = add_mset kv (mset (entries n b))"
proof -
  note B = bucket_invD [OF assms(1)]
  have "rd (fill_slot b i kv) j \<longleftrightarrow> j = i \<or> rd b j" for j
    using B(11) [OF assms(2)] by (auto simp: fill_slot_def bit_at_set_bit_at)
  then have "{j. j < n \<and> rd (fill_slot b i kv) j} = insert i {j. j < n \<and> rd b j}"
    using assms(2) by auto
  moreover have "image_mset (\<lambda>j. (array b)[i := kv] ! j) (mset_set {j. j < n \<and> rd b j}) =
      image_mset (\<lambda>j. array b ! j) (mset_set {j. j < n \<and> rd b j})"
    by (rule image_mset_cong, rule nth_list_update_neq) (use assms(3) in auto)
  ultimately show ?thesis
    using assms(2,3) B(3) by (simp add: entries_mset) (simp add: fill_slot_def)
qed

lemma clear_slot_inv:
  assumes "bucket_inv n b" and "i < n"
  shows "bucket_inv n (clear_slot b i)"
proof -
  note B = bucket_invD [OF assms(1)]
  have bits: "rd (clear_slot b i) j \<longleftrightarrow> j \<noteq> i \<and> rd b j" "oc (clear_slot b i) j \<longleftrightarrow> oc b j" for j
    using B(11) [OF assms(2)] by (auto simp: clear_slot_def bit_at_set_bit_at)
  show ?thesis using B by (auto simp: bucket_inv_def bits) (auto simp: clear_slot_def)
qed

lemma clear_slot_entries:
  assumes "bucket_inv n b" and "i < n" and "rd b i"
  shows "mset (entries n b) = add_mset (array b ! i) (mset (entries n (clear_slot b i)))"
proof -
  note B = bucket_invD [OF assms(1)]
  have "rd (clear_slot b i) j \<longleftrightarrow> j \<noteq> i \<and> rd b j" for j
    using B(11) [OF assms(2)] by (auto simp: clear_slot_def bit_at_set_bit_at)
  then have "{j. j < n \<and> rd b j} = insert i {j. j < n \<and> rd (clear_slot b i) j}"
    and "\<not> rd (clear_slot b i) i"
    using assms(2,3) by auto
  then show ?thesis by (simp add: entries_mset) (simp add: clear_slot_def)
qed

lemma Insert_loop_fill:
  assumes inv: "bucket_inv n b" and i: "i < n" "\<not> rd b i" "\<And>j. j < i \<Longrightarrow> rd b j"
  shows "Insert_loop b key val [0..<n] = Some (fill_slot b i (key, val))"
proof -
  note B = bucket_invD [OF inv]
  have "Insert_loop b key val [k..<n] = Some (fill_slot b i (key, val))" if "k \<le> i" for k
    using that
  proof (induction "i - k" arbitrary: k)
    case 0
    then have "k = i" by simp
    then show ?case
      using i B(3) B(9,11,12) [of i] upt_conv_Cons [of i n]
      by (simp add: SetReadable_eq SetOccupied_eq fill_slot_def)
  next
    case (Suc m)
    then have "k < i" "k < n" using i by auto
    moreover have "Insert_loop b key val [Suc k..<n] = Some (fill_slot b i (key, val))"
      using Suc by (intro Suc.hyps(1)) auto
    ultimately show ?case using upt_conv_Cons [of k n] B(9) [of k] i(3) [of k] by simp
  qed
  then show ?thesis by simp
qed

text \<open>\<open>Remove_loop\<close> stops at the first readable slot with the pair.\<close>

lemma Remove_loop_cases:
  assumes inv: "bucket_inv n b"
  obtains (found) i where "i < n" "rd b i" "cmp key (fst (array b ! i)) = 0" "snd (array b ! i) = val"
      "Remove_loop b key val cmp [0..<n] = Some (True, clear_slot b i)"
    | (absent) "\<And>i. i < n \<Longrightarrow> rd b i \<Longrightarrow> \<not> (cmp key (fst (array b ! i)) = 0 \<and> snd (array b ! i) = val)"
      "Remove_loop b key val cmp [0..<n] = Some (False, b)"
proof -
  note B = bucket_invD [OF inv]
  define P where "P i \<longleftrightarrow> rd b i \<and> cmp key (fst (array b ! i)) = 0 \<and> snd (array b ! i) = val" for i
  have "(\<exists>i. k \<le> i \<and> i < n \<and> P i \<and> Remove_loop b key val cmp [k..<n] = Some (True, clear_slot b i)) \<or>
      (\<forall>i. k \<le> i \<and> i < n \<longrightarrow> \<not> P i) \<and> Remove_loop b key val cmp [k..<n] = Some (False, b)" for k
  proof (induction "n - k" arbitrary: k)
    case (Suc m)
    then have k: "k < n" and m: "m = n - Suc k" by simp_all
    note up = upt_conv_Cons [OF k]
    show ?case
    proof (cases "P k")
      case True
      then have "Remove_loop b key val cmp [k..<n] = Some (True, clear_slot b k)"
        using k up B(3) B(9,11) [of k]
        by (auto simp: KeyAt_def ValueAt_def SetReadable_eq clear_slot_def P_def)
      with True k show ?thesis by blast
    next
      case False
      then have "Remove_loop b key val cmp [k..<n] = Remove_loop b key val cmp [Suc k..<n]"
        using k up B(3) B(9) [of k] by (auto simp: KeyAt_def ValueAt_def P_def)
      with Suc.hyps(1) [OF m] False show ?thesis by (metis Suc_le_eq le_neq_implies_less Suc_leD)
    qed
  qed auto
  from this [of 0] show ?thesis using found absent unfolding P_def by auto
qed

lemma matching_iff: "v \<in> set (matching cmp key es) \<longleftrightarrow> (\<exists>k. (k, v) \<in> set es \<and> cmp key k = 0)"
  by (force simp: matching_def)

lemma set_entries: "set (entries n b) = {array b ! i | i. i < n \<and> rd b i}"
  by (auto simp: entries_def)

subsection \<open>Properties\<close>

definition empty_bucket :: "nat \<Rightarrow> 'k \<Rightarrow> 'v \<Rightarrow> ('k, 'v) bucket" where
  "empty_bucket n k v = \<lparr>occupied = replicate (GetNumofChars n) 0,
     readable = replicate (GetNumofChars n) 0, array = replicate n (k, v)\<rparr>"

lemma empty_bucket_inv:
  assumes "0 < n" and "n < 2 ^ 32"
  shows "bucket_inv n (empty_bucket n k v)" "entries n (empty_bucket n k v) = []"
proof -
  have "\<not> bit_at (replicate (GetNumofChars n) 0) i" if "i < 8 * GetNumofChars n" for i
    using that by (auto simp: bit_at_def)
  moreover have "i < 8 * GetNumofChars n" if "i < n" for i using that chars_bound(2) [of n] by simp
  ultimately show "bucket_inv n (empty_bucket n k v)" "entries n (empty_bucket n k v) = []"
    using assms by (auto simp: bucket_inv_def empty_bucket_def entries_def filter_empty_conv)
qed

text \<open>The bit tricks count: \<^verbatim>\<open>NumReadable\<close>, which clears lowest set bits byte by byte, is the
  number of pairs in the bucket, \<^verbatim>\<open>IsFull\<close> and \<^verbatim>\<open>IsEmpty\<close> say that all, respectively no, slots
  hold a pair.\<close>

theorem NumReadable_correct:
  assumes "bucket_inv n b"
  shows "unat (NumReadable n b) = length (entries n b) \<and>
    (IsFull n b \<longleftrightarrow> length (entries n b) = n) \<and> (IsEmpty n b \<longleftrightarrow> entries n b = [])"
  using assms length_entries_le [of n b] bucket_invD(2) [OF assms]
  by (simp add: IsFull_entries IsEmpty_entries) (simp add: NumReadable_entries unat_of_nat_small)

definition one_bucket :: "(int, int) bucket" where
  "one_bucket = fill_slot (empty_bucket 9 0 0) 0 (5, 50)"

lemma one_bucket_inv: "bucket_inv 9 one_bucket"
  unfolding one_bucket_def by (rule fill_slot_inv) (simp_all add: empty_bucket_inv)

lemma one_bucket_entries: "entries 9 one_bucket = [(5, 50)]"
proof -
  have "\<not> rd (empty_bucket 9 (0::int) (0::int)) 0" by (simp add: empty_bucket_def bit_at_def GetNumofChars_def)
  then have "mset (entries 9 one_bucket) = {#(5, 50)#}"
    unfolding one_bucket_def by (subst fill_slot_entries) (simp_all add: empty_bucket_inv)
  then show ?thesis by simp
qed

theorem NumReadable_correct_witness:
  "unat (NumReadable 9 one_bucket) = length (entries 9 one_bucket) \<and>
    (IsFull 9 one_bucket \<longleftrightarrow> length (entries 9 one_bucket) = 9) \<and>
    (IsEmpty 9 one_bucket \<longleftrightarrow> entries 9 one_bucket = [])"
  by (rule NumReadable_correct [OF one_bucket_inv])

text \<open>\<^verbatim>\<open>GetValue\<close> appends exactly the values of the pairs whose key compares equal, in slot
  order, tombstones skipped and with the early stop at a slot that was never used.\<close>

theorem Bucket_GetValue_correct:
  assumes "bucket_inv n b"
  shows "Bucket_GetValue n b key cmp result =
    Some (result @ map snd (filter (\<lambda>(k, v). cmp key k = 0) (entries n b)) \<noteq> [],
          result @ map snd (filter (\<lambda>(k, v). cmp key k = 0) (entries n b)))"
  using Bucket_GetValue_matching [OF assms] by (simp add: matching_def Let_def)

theorem Bucket_GetValue_correct_witness:
  "Bucket_GetValue 9 one_bucket 5 (\<lambda>a b. a - b) [] = Some (True, [50])"
  using Bucket_GetValue_correct [OF one_bucket_inv, of 5 "\<lambda>a b. a - b" "[]"]
  by (simp add: one_bucket_entries)

lemma Bucket_Insert_cases:
  assumes "bucket_inv n b"
  shows "if length (entries n b) = n \<or> val \<in> set (matching cmp key (entries n b))
    then Bucket_Insert n b key val cmp = Some (False, b)
    else \<exists>b'. Bucket_Insert n b key val cmp = Some (True, b') \<and> bucket_inv n b' \<and>
      mset (entries n b') = add_mset (key, val) (mset (entries n b))"
proof (cases "IsFull n b \<or> val \<in> set (matching cmp key (entries n b))")
  case True
  then show ?thesis
    using assms by (auto simp: Bucket_Insert_def Bucket_GetValue_matching IsFull_entries Let_def)
next
  case False
  from assms False obtain i where i: "i < n" "\<not> rd b i" "\<And>j. j < i \<Longrightarrow> rd b j"
    using not_full_slot by blast
  then show ?thesis
    using False assms Insert_loop_fill [OF assms i] fill_slot_inv [OF assms i(1,3)]
      fill_slot_entries [OF assms i(1,2)]
    by (auto simp: Bucket_Insert_def Bucket_GetValue_matching IsFull_entries Let_def)
qed

text \<open>\<^verbatim>\<open>Insert\<close> adds the pair, keeps the bucket well formed and returns true, unless the bucket
  is full or holds the value under a key that compares equal; then it returns false and changes
  nothing.\<close>

theorem Bucket_Insert_correct:
  assumes "bucket_inv n b"
  shows "if length (entries n b) = n \<or> val \<in> set (matching cmp key (entries n b))
    then Bucket_Insert n b key val cmp = Some (False, b)
    else \<exists>b'. Bucket_Insert n b key val cmp = Some (True, b') \<and> bucket_inv n b' \<and>
      mset (entries n b') = add_mset (key, val) (mset (entries n b))"
  by (rule Bucket_Insert_cases [OF assms])

theorem Bucket_Insert_correct_witness:
  "\<exists>b'. Bucket_Insert 9 one_bucket 5 51 (\<lambda>a b. a - b) = Some (True, b') \<and> bucket_inv 9 b' \<and>
      mset (entries 9 b') = {#(5, 51), (5, 50)#}"
  using Bucket_Insert_correct [OF one_bucket_inv, of 51 "\<lambda>a b. a - b" 5]
  by (simp add: one_bucket_entries matching_def)

lemma Bucket_Remove_cases:
  assumes "bucket_inv n b"
  shows "if val \<in> set (matching cmp key (entries n b))
    then \<exists>b' k. Bucket_Remove n b key val cmp = Some (True, b') \<and> bucket_inv n b' \<and>
      cmp key k = 0 \<and> mset (entries n b) = add_mset (k, val) (mset (entries n b'))
    else Bucket_Remove n b key val cmp = Some (False, b)"
proof -
  have match: "val \<in> set (matching cmp key (entries n b)) \<longleftrightarrow>
      (\<exists>i < n. rd b i \<and> cmp key (fst (array b ! i)) = 0 \<and> snd (array b ! i) = val)"
    unfolding matching_iff set_entries by (auto, metis fst_conv snd_conv, metis prod.collapse)
  from assms show ?thesis
  proof (cases rule: Remove_loop_cases [where key = key and val = val and cmp = cmp])
    case (found i)
    have "array b ! i = (fst (array b ! i), val)" using found(4) by (metis prod.collapse)
    then show ?thesis
      using found clear_slot_inv [OF assms found(1)] clear_slot_entries [OF assms found(1,2)] match
      by (auto simp: Bucket_Remove_def)
  next
    case absent
    then show ?thesis using match by (auto simp: Bucket_Remove_def)
  qed
qed

text \<open>\<^verbatim>\<open>Remove\<close> removes one pair with an equal key and that value and returns true, or
  returns false and changes nothing if there is none; the bucket stays well formed.\<close>

theorem Bucket_Remove_correct:
  assumes "bucket_inv n b"
  shows "if val \<in> set (matching cmp key (entries n b))
    then \<exists>b' k. Bucket_Remove n b key val cmp = Some (True, b') \<and> bucket_inv n b' \<and>
      cmp key k = 0 \<and> mset (entries n b) = add_mset (k, val) (mset (entries n b'))
    else Bucket_Remove n b key val cmp = Some (False, b)"
  by (rule Bucket_Remove_cases [OF assms])

theorem Bucket_Remove_correct_witness:
  "\<exists>b' k. Bucket_Remove 9 one_bucket 5 50 (\<lambda>a b. a - b) = Some (True, b') \<and> bucket_inv 9 b' \<and>
      5 - k = 0 \<and> mset (entries 9 one_bucket) = add_mset (k, 50) (mset (entries 9 b'))"
  using Bucket_Remove_correct [OF one_bucket_inv, of 50 "\<lambda>a b. a - b" 5]
  by (simp add: one_bucket_entries matching_def)

end
