(* ===== verification/HashTable.thy ===== *)
theory HashTable
  imports BufferPoolSpec DirectoryPage BucketPage
begin

section \<open>The extendible hash table\<close>

text \<open>
  \<^verbatim>\<open>src/container/hash/extendible_hash_table.cpp\<close>. The table lives in pages of a buffer pool. The pool is
  abstract in the code (\<^verbatim>\<open>BufferPoolManager *\<close>), so its operations are the fields of \<open>pool_ops\<close>;
  \<open>page_layout\<close> stands for the \<^verbatim>\<open>reinterpret_cast\<close> between the bytes of a page and the two page
  classes, whose layout the compiler chooses. A null page that is dereferenced is \<^term>\<open>None\<close>.
  \<^verbatim>\<open>table_latch_\<close> and the page latches order concurrent calls and have no part in the result
  of one; \<^verbatim>\<open>Insert\<close> and \<^verbatim>\<open>Remove\<close> release the table before they call \<^verbatim>\<open>SplitInsert\<close> and
  \<^verbatim>\<open>Merge\<close>, which fetch everything again.
\<close>

subsection \<open>State\<close>

record ('s, 'p) pool_ops =
  NewPage :: "'s \<Rightarrow> ((page_id_t \<times> 'p) option \<times> 's) option"
  FetchPage :: "'s \<Rightarrow> page_id_t \<Rightarrow> ('p option \<times> 's) option"
  UnpinPage :: "'s \<Rightarrow> page_id_t \<Rightarrow> bool \<Rightarrow> (bool \<times> 's) option"
  GetData :: "'s \<Rightarrow> 'p \<Rightarrow> bytes"
  SetData :: "'s \<Rightarrow> 'p \<Rightarrow> bytes \<Rightarrow> 's"

record ('k, 'v) page_layout =
  dir_of :: "bytes \<Rightarrow> dir_page"
  dir_to :: "dir_page \<Rightarrow> bytes \<Rightarrow> bytes"
  bucket_of :: "bytes \<Rightarrow> ('k, 'v) bucket"
  bucket_to :: "('k, 'v) bucket \<Rightarrow> bytes \<Rightarrow> bytes"
  bucket_size :: nat

record 'k hash_table =
  directory_page_id :: page_id_t
  comparator :: "'k \<Rightarrow> 'k \<Rightarrow> int"
  hash_fn :: "'k \<Rightarrow> 64 word"

subsection \<open>Helpers\<close>

definition Hash :: "'k hash_table \<Rightarrow> 'k \<Rightarrow> uint32" where
  "Hash t key = ucast (hash_fn t key)"

definition KeyToDirectoryIndex :: "'k hash_table \<Rightarrow> 'k \<Rightarrow> dir_page \<Rightarrow> uint32 option" where
  "KeyToDirectoryIndex t key d = do { m \<leftarrow> GetGlobalDepthMask d; Some (Hash t key AND m) }"

definition KeyToPageId :: "'k hash_table \<Rightarrow> 'k \<Rightarrow> dir_page \<Rightarrow> page_id_t option" where
  "KeyToPageId t key d = do { i \<leftarrow> KeyToDirectoryIndex t key d; GetBucketPageId d i }"

definition FetchDirectoryPage ::
    "('s, 'p) pool_ops \<Rightarrow> 'k hash_table \<Rightarrow> 's \<Rightarrow> ('p \<times> 's) option" where
  "FetchDirectoryPage bp t s = do {
     (f, s) \<leftarrow> FetchPage bp s (directory_page_id t);
     f \<leftarrow> f;
     Some (f, s)
   }"

definition FetchBucketPage ::
    "('s, 'p) pool_ops \<Rightarrow> 's \<Rightarrow> page_id_t \<Rightarrow> ('p \<times> 's) option" where
  "FetchBucketPage bp s bucket_page_id = do {
     (f, s) \<leftarrow> FetchPage bp s bucket_page_id;
     f \<leftarrow> f;
     Some (f, s)
   }"

definition put_dir ::
    "('s, 'p) pool_ops \<Rightarrow> ('k, 'v) page_layout \<Rightarrow> 's \<Rightarrow> 'p \<Rightarrow> dir_page \<Rightarrow> 's" where
  "put_dir bp lay s f d = SetData bp s f (dir_to lay d (GetData bp s f))"

definition put_bucket ::
    "('s, 'p) pool_ops \<Rightarrow> ('k, 'v) page_layout \<Rightarrow> 's \<Rightarrow> 'p \<Rightarrow> ('k, 'v) bucket \<Rightarrow> 's" where
  "put_bucket bp lay s f b = SetData bp s f (bucket_to lay b (GetData bp s f))"

subsection \<open>Construction\<close>

definition ExtendibleHashTable ::
    "('s, 'p) pool_ops \<Rightarrow> ('k, 'v) page_layout \<Rightarrow> ('k \<Rightarrow> 'k \<Rightarrow> int) \<Rightarrow> ('k \<Rightarrow> 64 word) \<Rightarrow> 's \<Rightarrow>
     ('k hash_table \<times> 's) option" where
  "ExtendibleHashTable bp lay cmp hash s = do {
     (dir_page, s) \<leftarrow> NewPage bp s;
     (dir_id, dir_page) \<leftarrow> dir_page;
     (b0, s) \<leftarrow> NewPage bp s;
     (b1, s) \<leftarrow> NewPage bp s;
     \<comment> \<open>the page numbers are uninitialised variables unless both calls returned a page\<close>
     (bucket_0_page_id, _) \<leftarrow> b0;
     (bucket_1_page_id, _) \<leftarrow> b1;
     d \<leftarrow> SetBucketPageId (dir_of lay (GetData bp s dir_page)) 0 bucket_0_page_id;
     d \<leftarrow> SetLocalDepth d 0 1;
     d \<leftarrow> SetBucketPageId d 1 bucket_1_page_id;
     d \<leftarrow> SetLocalDepth d 1 1;
     let d = IncrGlobalDepth d;
     let d = SetPageId d dir_id;
     let s = put_dir bp lay s dir_page d;
     (_, s) \<leftarrow> UnpinPage bp s dir_id True;
     (_, s) \<leftarrow> UnpinPage bp s bucket_0_page_id False;
     (_, s) \<leftarrow> UnpinPage bp s bucket_1_page_id False;
     Some (\<lparr>directory_page_id = dir_id, comparator = cmp, hash_fn = hash\<rparr>, s)
   }"

subsection \<open>Search\<close>

definition HashTable_GetValue ::
    "('s, 'p) pool_ops \<Rightarrow> ('k, 'v) page_layout \<Rightarrow> 'k hash_table \<Rightarrow> 's \<Rightarrow> 'k \<Rightarrow> 'v list \<Rightarrow>
     ((bool \<times> 'v list) \<times> 's) option" where
  "HashTable_GetValue bp lay t s key result = do {
     (dir_page, s) \<leftarrow> FetchDirectoryPage bp t s;
     bucket_page_id \<leftarrow> KeyToPageId t key (dir_of lay (GetData bp s dir_page));
     (bucket_page, s) \<leftarrow> FetchBucketPage bp s bucket_page_id;
     out \<leftarrow> Bucket_GetValue (bucket_size lay) (bucket_of lay (GetData bp s bucket_page)) key
       (comparator t) result;
     (_, s) \<leftarrow> UnpinPage bp s bucket_page_id False;
     (_, s) \<leftarrow> UnpinPage bp s (directory_page_id t) False;
     Some (out, s)
   }"

subsection \<open>Insertion\<close>

text \<open>The three parts of one round of \<^verbatim>\<open>SplitInsert\<close> on a full bucket: the directory up to the
  split image, the redistribution of the pairs, the rest of the directory.\<close>

definition split_directory :: "dir_page \<Rightarrow> uint32 \<Rightarrow> (dir_page \<times> uint32 \<times> bool) option" where
  "split_directory d bucket_idx = do {
     l \<leftarrow> GetLocalDepth d bucket_idx;
     let grow = (l = GetGlobalDepth d);
     let d = (if grow then IncrGlobalDepth d else d);
     d \<leftarrow> IncrLocalDepth d bucket_idx;
     split_bucket_idx \<leftarrow> GetSplitImageIndex d bucket_idx;
     Some (d, split_bucket_idx, grow)
   }"

definition set_split_image :: "dir_page \<Rightarrow> uint32 \<Rightarrow> uint32 \<Rightarrow> page_id_t \<Rightarrow> dir_page option" where
  "set_split_image d bucket_idx split_bucket_idx split_page_id = do {
     d \<leftarrow> SetBucketPageId d split_bucket_idx split_page_id;
     l \<leftarrow> GetLocalDepth d bucket_idx;
     SetLocalDepth d split_bucket_idx (ucast l)
   }"

text \<open>The loop \<open>while (num_read != num_readable)\<close> spins on a slot that is not readable; \<open>fuel\<close>
  bounds it. The bucket is full when it starts, so every slot is readable when it is reached.\<close>

fun rehash ::
    "nat \<Rightarrow> 'k hash_table \<Rightarrow> nat \<Rightarrow> uint32 \<Rightarrow> uint32 \<Rightarrow> uint32 \<Rightarrow> uint32 \<Rightarrow>
     ('k, 'v) bucket \<Rightarrow> ('k, 'v) bucket \<Rightarrow> (('k, 'v) bucket \<times> ('k, 'v) bucket) option" where
  "rehash 0 t n local_depth split_bucket_idx num_readable num_read b split = None"
| "rehash (Suc fuel) t n local_depth split_bucket_idx num_readable num_read b split =
     (if num_read = num_readable then Some (b, split)
      else do {
        r \<leftarrow> IsReadable b (unat num_read);
        if r then do {
          key \<leftarrow> KeyAt b (unat num_read);
          p \<leftarrow> Pow32 2 local_depth;
          let which_bucket = Hash t key AND (p - 1);
          (b, split) \<leftarrow>
            (if which_bucket XOR split_bucket_idx = 0 then do {
               val \<leftarrow> ValueAt b (unat num_read);
               (_, split) \<leftarrow> Bucket_Insert n split key val (comparator t);
               b \<leftarrow> RemoveAt b (unat num_read);
               Some (b, split)
             } else Some (b, split));
          rehash fuel t n local_depth split_bucket_idx num_readable (num_read + 1) b split
        } else rehash fuel t n local_depth split_bucket_idx num_readable num_read b split
      })"

fun redirect :: "uint32 \<Rightarrow> uint32 \<Rightarrow> nat list \<Rightarrow> dir_page \<Rightarrow> dir_page option" where
  "redirect old_size split_bucket_idx [] d = Some d"
| "redirect old_size split_bucket_idx (i # is) d =
     (if i = unat split_bucket_idx then redirect old_size split_bucket_idx is d
      else do {
        let redirect_bucket_idx = of_nat i AND (old_size - 1);
        p \<leftarrow> GetBucketPageId d redirect_bucket_idx;
        d \<leftarrow> SetBucketPageId d (of_nat i) p;
        l \<leftarrow> GetLocalDepth d redirect_bucket_idx;
        d \<leftarrow> SetLocalDepth d (of_nat i) (ucast l);
        redirect old_size split_bucket_idx is d
      })"

definition redirect_rest :: "uint32 \<Rightarrow> uint32 \<Rightarrow> dir_page \<Rightarrow> dir_page option" where
  "redirect_rest old_global_depth split_bucket_idx d = do {
     old_size \<leftarrow> Pow32 2 old_global_depth;
     new_size \<leftarrow> Size d;
     redirect old_size split_bucket_idx [unat old_size..<unat new_size] d
   }"

text \<open>\<open>SplitInsert_loop\<close> is the outer loop; it gives \<^term>\<open>None\<close> if \<open>fuel\<close> runs out. Every round
  on a full bucket adds one to a local depth.\<close>

fun SplitInsert_loop ::
    "nat \<Rightarrow> ('s, 'p) pool_ops \<Rightarrow> ('k, 'v) page_layout \<Rightarrow> 'k hash_table \<Rightarrow> 'p \<Rightarrow> 'k \<Rightarrow> 'v \<Rightarrow>
     bool \<Rightarrow> 's \<Rightarrow> (bool \<times> bool \<times> 's) option" where
  "SplitInsert_loop 0 bp lay t dir_page key val is_growing s = None"
| "SplitInsert_loop (Suc fuel) bp lay t dir_page key val is_growing s = do {
     let d = dir_of lay (GetData bp s dir_page);
     let old_global_depth = GetGlobalDepth d;
     bucket_idx \<leftarrow> KeyToDirectoryIndex t key d;
     bucket_page_id \<leftarrow> KeyToPageId t key d;
     (bucket_page, s) \<leftarrow> FetchBucketPage bp s bucket_page_id;
     if IsFull (bucket_size lay) (bucket_of lay (GetData bp s bucket_page)) then do {
       (d, split_bucket_idx, grow) \<leftarrow> split_directory d bucket_idx;
       let s = put_dir bp lay s dir_page d;
       (r, s) \<leftarrow> NewPage bp s;
       (split_page_id, split_page) \<leftarrow> r;
       d \<leftarrow> set_split_image (dir_of lay (GetData bp s dir_page)) bucket_idx split_bucket_idx split_page_id;
       local_depth \<leftarrow> GetLocalDepth d bucket_idx;
       let s = put_dir bp lay s dir_page d;
       let b = bucket_of lay (GetData bp s bucket_page);
       (b, split) \<leftarrow> rehash (bucket_size lay + 1) t (bucket_size lay) local_depth split_bucket_idx
         (NumReadable (bucket_size lay) b) 0 b (bucket_of lay (GetData bp s split_page));
       let s = put_bucket bp lay (put_bucket bp lay s bucket_page b) split_page split;
       (_, s) \<leftarrow> UnpinPage bp s split_page_id True;
       d \<leftarrow> redirect_rest old_global_depth split_bucket_idx (dir_of lay (GetData bp s dir_page));
       let s = put_dir bp lay s dir_page d;
       (_, s) \<leftarrow> UnpinPage bp s bucket_page_id True;
       SplitInsert_loop fuel bp lay t dir_page key val (is_growing \<or> grow) s
     } else do {
       (success, b) \<leftarrow> Bucket_Insert (bucket_size lay) (bucket_of lay (GetData bp s bucket_page)) key val
         (comparator t);
       let s = put_bucket bp lay s bucket_page b;
       (_, s) \<leftarrow> UnpinPage bp s bucket_page_id True;
       Some (success, is_growing, s)
     }
   }"

definition SplitInsert ::
    "nat \<Rightarrow> ('s, 'p) pool_ops \<Rightarrow> ('k, 'v) page_layout \<Rightarrow> 'k hash_table \<Rightarrow> 's \<Rightarrow> 'k \<Rightarrow> 'v \<Rightarrow>
     (bool \<times> 's) option" where
  "SplitInsert fuel bp lay t s key val = do {
     (dir_page, s) \<leftarrow> FetchDirectoryPage bp t s;
     (success, is_growing, s) \<leftarrow> SplitInsert_loop fuel bp lay t dir_page key val False s;
     (_, s) \<leftarrow> UnpinPage bp s (directory_page_id t) is_growing;
     Some (success, s)
   }"

definition HashTable_Insert ::
    "nat \<Rightarrow> ('s, 'p) pool_ops \<Rightarrow> ('k, 'v) page_layout \<Rightarrow> 'k hash_table \<Rightarrow> 's \<Rightarrow> 'k \<Rightarrow> 'v \<Rightarrow>
     (bool \<times> 's) option" where
  "HashTable_Insert fuel bp lay t s key val = do {
     (dir_page, s) \<leftarrow> FetchDirectoryPage bp t s;
     bucket_page_id \<leftarrow> KeyToPageId t key (dir_of lay (GetData bp s dir_page));
     (bucket_page, s) \<leftarrow> FetchBucketPage bp s bucket_page_id;
     if IsFull (bucket_size lay) (bucket_of lay (GetData bp s bucket_page)) then do {
       (_, s) \<leftarrow> UnpinPage bp s bucket_page_id False;
       (_, s) \<leftarrow> UnpinPage bp s (directory_page_id t) False;
       SplitInsert fuel bp lay t s key val
     } else do {
       (success, b) \<leftarrow> Bucket_Insert (bucket_size lay) (bucket_of lay (GetData bp s bucket_page)) key val
         (comparator t);
       let s = put_bucket bp lay s bucket_page b;
       (_, s) \<leftarrow> UnpinPage bp s bucket_page_id success;
       (_, s) \<leftarrow> UnpinPage bp s (directory_page_id t) False;
       Some (success, s)
     }
   }"

subsection \<open>Removal\<close>

fun merge_slots :: "uint32 \<Rightarrow> uint32 \<Rightarrow> page_id_t \<Rightarrow> page_id_t \<Rightarrow> nat list \<Rightarrow> dir_page \<Rightarrow> dir_page option" where
  "merge_slots i split_bucket_idx bucket_page_id new_bucket_page_id [] d = Some d"
| "merge_slots i split_bucket_idx bucket_page_id new_bucket_page_id (j # js) d =
     (if j = unat i \<or> j = unat split_bucket_idx
      then merge_slots i split_bucket_idx bucket_page_id new_bucket_page_id js d
      else do {
        cur_bucket_page_id \<leftarrow> GetBucketPageId d (of_nat j);
        d \<leftarrow> (if cur_bucket_page_id = bucket_page_id \<or> cur_bucket_page_id = new_bucket_page_id then do {
                l \<leftarrow> GetLocalDepth d i;
                d \<leftarrow> SetLocalDepth d (of_nat j) (ucast l);
                SetBucketPageId d (of_nat j) new_bucket_page_id
              } else Some d);
        merge_slots i split_bucket_idx bucket_page_id new_bucket_page_id js d
      })"

definition merge_bucket :: "dir_page \<Rightarrow> uint32 \<Rightarrow> uint32 \<Rightarrow> page_id_t \<Rightarrow> dir_page option" where
  "merge_bucket d i old_local_depth bucket_page_id = do {
     split_bucket_idx \<leftarrow> GetSplitImageIndex d i;
     l \<leftarrow> GetLocalDepth d split_bucket_idx;
     d \<leftarrow> (if l = old_local_depth then do {
             d \<leftarrow> DecrLocalDepth d i;
             d \<leftarrow> DecrLocalDepth d split_bucket_idx;
             p \<leftarrow> GetBucketPageId d split_bucket_idx;
             d \<leftarrow> SetBucketPageId d i p;
             new_bucket_page_id \<leftarrow> GetBucketPageId d i;
             n \<leftarrow> Size d;
             merge_slots i split_bucket_idx bucket_page_id new_bucket_page_id [0..<unat n] d
           } else Some d);
     c \<leftarrow> CanShrink d;
     Some (if c then DecrGlobalDepth d else d)
   }"

text \<open>The loop of \<^verbatim>\<open>Merge\<close>: the directory may shrink on the way, so its size is read in each
  round. It ends after at most 513 rounds, as the index grows and the size is at most 512.\<close>

fun Merge_loop ::
    "nat \<Rightarrow> ('s, 'p) pool_ops \<Rightarrow> ('k, 'v) page_layout \<Rightarrow> 'p \<Rightarrow> uint32 \<Rightarrow> 's \<Rightarrow> 's option" where
  "Merge_loop 0 bp lay dir_page i s = None"
| "Merge_loop (Suc fuel) bp lay dir_page i s = do {
     let d = dir_of lay (GetData bp s dir_page);
     n \<leftarrow> Size d;
     if i \<ge> n then Some s
     else do {
       old_local_depth \<leftarrow> GetLocalDepth d i;
       bucket_page_id \<leftarrow> GetBucketPageId d i;
       (bucket_page, s) \<leftarrow> FetchBucketPage bp s bucket_page_id;
       s \<leftarrow> (if old_local_depth > 1 \<and>
                IsEmpty (bucket_size lay) (bucket_of lay (GetData bp s bucket_page)) then do {
              d \<leftarrow> merge_bucket (dir_of lay (GetData bp s dir_page)) i old_local_depth bucket_page_id;
              Some (put_dir bp lay s dir_page d)
            } else Some s);
       (_, s) \<leftarrow> UnpinPage bp s bucket_page_id False;
       Merge_loop fuel bp lay dir_page (i + 1) s
     }
   }"

definition Merge ::
    "('s, 'p) pool_ops \<Rightarrow> ('k, 'v) page_layout \<Rightarrow> 'k hash_table \<Rightarrow> 's \<Rightarrow> 's option" where
  "Merge bp lay t s = do {
     (dir_page, s) \<leftarrow> FetchDirectoryPage bp t s;
     s \<leftarrow> Merge_loop (DIRECTORY_ARRAY_SIZE + 1) bp lay dir_page 0 s;
     (_, s) \<leftarrow> UnpinPage bp s (directory_page_id t) True;
     Some s
   }"

definition HashTable_Remove ::
    "('s, 'p) pool_ops \<Rightarrow> ('k, 'v) page_layout \<Rightarrow> 'k hash_table \<Rightarrow> 's \<Rightarrow> 'k \<Rightarrow> 'v \<Rightarrow> (bool \<times> 's) option" where
  "HashTable_Remove bp lay t s key val = do {
     (dir_page, s) \<leftarrow> FetchDirectoryPage bp t s;
     bucket_page_id \<leftarrow> KeyToPageId t key (dir_of lay (GetData bp s dir_page));
     (bucket_page, s) \<leftarrow> FetchBucketPage bp s bucket_page_id;
     (success, b) \<leftarrow> Bucket_Remove (bucket_size lay) (bucket_of lay (GetData bp s bucket_page)) key val
       (comparator t);
     let s = put_bucket bp lay s bucket_page b;
     (_, s) \<leftarrow> UnpinPage bp s bucket_page_id success;
     (_, s) \<leftarrow> UnpinPage bp s (directory_page_id t) False;
     if success \<and> IsEmpty (bucket_size lay) b then do {
       s \<leftarrow> Merge bp lay t s;
       Some (success, s)
     } else Some (success, s)
   }"

definition HashTable_GetGlobalDepth ::
    "('s, 'p) pool_ops \<Rightarrow> ('k, 'v) page_layout \<Rightarrow> 'k hash_table \<Rightarrow> 's \<Rightarrow> (uint32 \<times> 's) option" where
  "HashTable_GetGlobalDepth bp lay t s = do {
     (dir_page, s) \<leftarrow> FetchDirectoryPage bp t s;
     let g = GetGlobalDepth (dir_of lay (GetData bp s dir_page));
     (b, s) \<leftarrow> UnpinPage bp s (directory_page_id t) False;
     assert_that b;
     Some (g, s)
   }"

definition HashTable_VerifyIntegrity ::
    "('s, 'p) pool_ops \<Rightarrow> ('k, 'v) page_layout \<Rightarrow> 'k hash_table \<Rightarrow> 's \<Rightarrow> 's option" where
  "HashTable_VerifyIntegrity bp lay t s = do {
     (dir_page, s) \<leftarrow> FetchDirectoryPage bp t s;
     VerifyIntegrity (dir_of lay (GetData bp s dir_page));
     (b, s) \<leftarrow> UnpinPage bp s (directory_page_id t) False;
     assert_that b;
     Some s
   }"

end
