(* ===== verification/TablePageSpec.thy ===== *)
theory TablePageSpec
  imports TablePage
begin

section \<open>What a table page promises\<close>

text \<open>
  A table page is a partial map from slot numbers to tuples, each with a deletion flag: \<open>tuples\<close>. The
  invariant \<open>table_inv\<close> says that the slots end before the free space, that the tuples lie behind the
  free-space pointer, and that no two of them overlap. Each operation keeps the invariant and is
  the obvious update of the map; no other tuple changes, although updates and deletions move tuples in
  the page.
\<close>

subsection \<open>The header\<close>

text \<open>The page numbers in front of the free-space pointer.\<close>

definition head :: "bytes \<Rightarrow> bytes" where
  "head d = sub d 0 16"

lemma head_put: "off + length bs \<le> length d \<Longrightarrow> 16 \<le> off \<Longrightarrow> head (put d off bs) = head d"
  by (simp add: head_def sub_put_other)

lemma head_word: "head d' = head d \<Longrightarrow> length d' = length d \<Longrightarrow> 16 \<le> length d \<Longrightarrow> a + 4 \<le> 16 \<Longrightarrow> word_at d' a = word_at d a"
  using sub_sub [of a 4 16 0 d] sub_sub [of a 4 16 0 d'] by (simp add: head_def word_at_def)

subsection \<open>Invariant and content\<close>

definition rsize :: "bytes \<Rightarrow> nat \<Rightarrow> nat" where
  "rsize d i = real_size (size_at d i)"

definition used :: "bytes \<Rightarrow> nat \<Rightarrow> bool" where
  "used d i \<longleftrightarrow> i < unat (cnt d) \<and> size_at d i \<noteq> 0"

definition in_page :: "bytes \<Rightarrow> nat \<Rightarrow> bool" where
  "in_page d i \<longleftrightarrow> 0 < rsize d i \<and> unat (fsp d) \<le> unat (off_at d i) \<and> unat (off_at d i) + rsize d i \<le> length d"

definition apart :: "bytes \<Rightarrow> nat \<Rightarrow> nat \<Rightarrow> bool" where
  "apart d i j \<longleftrightarrow> unat (off_at d i) + rsize d i \<le> unat (off_at d j) \<or> unat (off_at d j) + rsize d j \<le> unat (off_at d i)"

definition table_inv :: "bytes \<Rightarrow> bool" where
  "table_inv d \<longleftrightarrow> length d < 2 ^ 31 \<and> 24 + 8 * unat (cnt d) \<le> unat (fsp d) \<and> unat (fsp d) \<le> length d \<and>
     (\<forall>i. used d i \<longrightarrow> in_page d i) \<and> (\<forall>i j. used d i \<longrightarrow> used d j \<longrightarrow> i \<noteq> j \<longrightarrow> apart d i j)"

definition tuples :: "bytes \<Rightarrow> nat \<Rightarrow> (bool \<times> bytes) option" where
  "tuples d i = (if used d i then Some (flagged (size_at d i), sub d (unat (off_at d i)) (rsize d i)) else None)"

lemma table_invD:
  assumes "table_inv d"
  shows "length d < 2 ^ 31" "24 + 8 * unat (cnt d) \<le> unat (fsp d)" "unat (fsp d) \<le> length d" "24 \<le> length d"
    "i < unat (cnt d) \<Longrightarrow> 32 + 8 * i \<le> unat (fsp d)"
    "i < unat (cnt d) \<Longrightarrow> 32 + 8 * i \<le> length d"
    "used d i \<Longrightarrow> in_page d i" "used d i \<Longrightarrow> used d j \<Longrightarrow> i \<noteq> j \<Longrightarrow> apart d i j"
proof -
  show "length d < 2 ^ 31" "24 + 8 * unat (cnt d) \<le> unat (fsp d)" "unat (fsp d) \<le> length d"
    "used d i \<Longrightarrow> in_page d i" "used d i \<Longrightarrow> used d j \<Longrightarrow> i \<noteq> j \<Longrightarrow> apart d i j"
    using assms unfolding table_inv_def by blast+
  then show "24 \<le> length d" "i < unat (cnt d) \<Longrightarrow> 32 + 8 * i \<le> unat (fsp d)"
    "i < unat (cnt d) \<Longrightarrow> 32 + 8 * i \<le> length d" by linarith+
qed

lemma table_get:
  assumes "table_inv d"
  shows "GetFreeSpacePointer d = Some (fsp d)" "GetTupleCount d = Some (cnt d)"
    "i < unat (cnt d) \<Longrightarrow> GetTupleOffsetAtSlot d i = Some (off_at d i)"
    "i < unat (cnt d) \<Longrightarrow> GetTupleSize d i = Some (size_at d i)"
  using table_invD [OF assms] by (simp_all add: get_fields)

text \<open>A page whose slots \<open>i\<close> of \<open>d'\<close> hold what the slots of \<open>d\<close> hold, except for slot \<open>k\<close>.\<close>

lemma tuples_update:
  assumes "\<And>i. i \<noteq> k \<Longrightarrow> used d' i \<longleftrightarrow> used d i"
    and "\<And>i. i \<noteq> k \<Longrightarrow> used d i \<Longrightarrow> size_at d' i = size_at d i \<and>
      sub d' (unat (off_at d' i)) (rsize d i) = sub d (unat (off_at d i)) (rsize d i)"
  shows "tuples d' = (tuples d)(k := tuples d' k)"
  by (rule ext) (use assms in \<open>auto simp: tuples_def rsize_def\<close>)

subsection \<open>Reading\<close>

lemma unflagged_size: "\<not> flagged w \<Longrightarrow> real_size w = unat w"
  by (simp add: real_size_def unflagged)

lemma in_page_read:
  assumes "table_inv d" "used d i"
  shows "read_bytes d (unat (off_at d i)) (rsize d i) = Some (sub d (unat (off_at d i)) (rsize d i))"
  using table_invD(7) [OF assms] by (simp add: in_page_def read_bytes_def)

text \<open>\<open>GetTuple\<close> returns the tuple of a slot unless it is empty or marked deleted.\<close>

lemma GetTuple_view:
  assumes "table_inv d"
  shows "TablePage_GetTuple d rid = Some (case tuples d (unat (slot_num_of rid)) of
      Some (False, bs) \<Rightarrow> Some \<lparr>size_of = of_nat (length bs), data_of = bs, rid_of = rid\<rparr> | _ \<Rightarrow> None)"
proof -
  let ?i = "unat (slot_num_of rid)"
  have c: "slot_num_of rid \<ge> cnt d \<longleftrightarrow> \<not> ?i < unat (cnt d)" by (simp add: word_le_nat_alt not_less)
  show ?thesis
  proof (cases "used d ?i \<and> \<not> flagged (size_at d ?i)")
    case True
    then have u: "used d ?i" and nf: "\<not> flagged (size_at d ?i)" by auto
    then have rs: "rsize d ?i = unat (size_at d ?i)" by (simp add: rsize_def unflagged_size)
    have "length (sub d (unat (off_at d ?i)) (rsize d ?i)) = unat (size_at d ?i)"
      using table_invD(7) [OF assms u] by (simp add: in_page_def rs)
    with True u c in_page_read [OF assms u] show ?thesis
      by (simp add: TablePage_GetTuple_def Let_def table_get [OF assms] tuples_def IsDeleted_iff used_def rs)
  next
    case False
    then show ?thesis using c
      by (auto simp: TablePage_GetTuple_def Let_def table_get [OF assms] tuples_def IsDeleted_iff used_def)
  qed
qed

subsection \<open>Marking and rolling back\<close>

lemma flag_update:
  assumes inv: "table_inv d" and u: "used d k" and w: "w \<noteq> 0" "real_size w = rsize d k"
  defines "d' \<equiv> put32 d (28 + 8 * k) w"
  shows "table_inv d'" "tuples d' = (tuples d)(k \<mapsto> (flagged w, sub d (unat (off_at d k)) (rsize d k)))"
    "length d' = length d" "cnt d' = cnt d" "head d' = head d"
proof -
  note D = table_invD [OF inv]
  have k: "32 + 8 * k \<le> length d" "k < unat (cnt d)" using u D(6) by (auto simp: used_def)
  have len: "length d' = length d" using k by (simp add: d'_def)
  have f: "fsp d' = fsp d" "cnt d' = cnt d" using put_size(1,2) [OF k(1)] by (simp_all add: d'_def)
  have o: "off_at d' i = off_at d i" and z: "size_at d' i = (if i = k then w else size_at d i)"
    if "i < unat (cnt d)" for i
    using put_size(3,4) [OF k(1), of i] D(6) [OF that] by (simp_all add: d'_def)
  have us: "used d' i \<longleftrightarrow> used d i" for i using z w u by (auto simp: used_def f split: if_splits)
  have r: "rsize d' i = rsize d i" if "used d i" for i
    using z that w by (auto simp: rsize_def used_def)
  have sb: "sub d' a n = sub d a n" if "unat (fsp d) \<le> a" "a + n \<le> length d" for a n
    using put_size(5) [OF k(1), of a n] D(5) [OF k(2)] that by (simp add: d'_def)
  have oo: "off_at d' i = off_at d i" if "used d i" for i using o that by (simp add: used_def)
  show "table_inv d'"
    using D(1-3,7,8) by (auto simp: table_inv_def len f us in_page_def apart_def r oo)
  have "tuples d' = (tuples d)(k := tuples d' k)"
  proof (rule tuples_update)
    show "size_at d' i = size_at d i \<and> sub d' (unat (off_at d' i)) (rsize d i) = sub d (unat (off_at d i)) (rsize d i)"
      if "i \<noteq> k" "used d i" for i
      using z [of i] oo [OF that(2)] D(7) [OF that(2)] that by (simp add: used_def in_page_def sb)
  qed (rule us)
  moreover have "tuples d' k = Some (flagged w, sub d (unat (off_at d k)) (rsize d k))"
    using u us z k(2) oo r sb D(7) by (simp add: tuples_def in_page_def)
  ultimately show "tuples d' = (tuples d)(k \<mapsto> (flagged w, sub d (unat (off_at d k)) (rsize d k)))" by simp
  show "length d' = length d" "cnt d' = cnt d" using len f by simp_all
  show "head d' = head d" using k by (simp add: d'_def head_put)
qed

text \<open>\<open>MarkDelete\<close> sets the flag of a live tuple and refuses anything else.\<close>

lemma MarkDelete_view:
  assumes inv: "table_inv d"
  shows "case tuples d (unat (slot_num_of rid)) of
      Some (False, bs) \<Rightarrow> \<exists>d'. TablePage_MarkDelete d rid = Some (True, d') \<and> table_inv d' \<and>
        tuples d' = (tuples d)(unat (slot_num_of rid) \<mapsto> (True, bs)) \<and> length d' = length d \<and> head d' = head d
    | _ \<Rightarrow> TablePage_MarkDelete d rid = Some (False, d)"
proof -
  let ?i = "unat (slot_num_of rid)"
  have c: "slot_num_of rid \<ge> cnt d \<longleftrightarrow> \<not> ?i < unat (cnt d)" by (simp add: word_le_nat_alt not_less)
  show ?thesis
  proof (cases "used d ?i \<and> \<not> flagged (size_at d ?i)")
    case True
    then have u: "used d ?i" and nf: "\<not> flagged (size_at d ?i)" by auto
    have w: "SetDeletedFlag (size_at d ?i) \<noteq> 0" "real_size (SetDeletedFlag (size_at d ?i)) = rsize d ?i"
      by (simp_all add: real_size_def rsize_def)
    have "32 + 8 * ?i \<le> length d" using u table_invD(6) [OF inv] by (simp add: used_def)
    with flag_update [OF inv u w] u nf c show ?thesis
      by (simp add: TablePage_MarkDelete_def Let_def table_get [OF inv] tuples_def IsDeleted_iff used_def
          set_fields word_neq_0_conv)
  next
    case False
    then show ?thesis using c
      by (auto simp: TablePage_MarkDelete_def Let_def table_get [OF inv] tuples_def IsDeleted_iff used_def split: option.split)
  qed
qed

text \<open>\<open>RollbackDelete\<close> clears the flag.\<close>

lemma RollbackDelete_view:
  assumes inv: "table_inv d" and t: "tuples d (unat (slot_num_of rid)) = Some (b, bs)"
  shows "\<exists>d'. TablePage_RollbackDelete d rid = Some d' \<and> table_inv d' \<and>
    tuples d' = (tuples d)(unat (slot_num_of rid) \<mapsto> (False, bs)) \<and> length d' = length d \<and> head d' = head d"
proof -
  let ?i = "unat (slot_num_of rid)"
  have u: "used d ?i" and bs: "bs = sub d (unat (off_at d ?i)) (rsize d ?i)" and b: "b = flagged (size_at d ?i)"
    using t by (auto simp: tuples_def split: if_splits)
  have c: "slot_num_of rid < cnt d" using u by (simp add: used_def word_less_nat_alt)
  have w: "UnsetDeletedFlag (size_at d ?i) \<noteq> 0" "real_size (UnsetDeletedFlag (size_at d ?i)) = rsize d ?i"
    using table_invD(7) [OF inv u] by (auto simp: real_size_def rsize_def in_page_def)
  have k: "32 + 8 * ?i \<le> length d" using u table_invD(6) [OF inv] by (simp add: used_def)
  show ?thesis
  proof (cases b)
    case True
    then have "IsDeleted (size_at d ?i)" by (simp add: IsDeleted_iff b)
    with flag_update [OF inv u w] u k c show ?thesis
      by (simp add: TablePage_RollbackDelete_def Let_def table_get [OF inv] used_def set_fields bs)
  next
    case False
    then have "\<not> IsDeleted (size_at d ?i)" using u by (simp add: IsDeleted_iff b used_def)
    with u c t False inv show ?thesis
      by (auto simp: TablePage_RollbackDelete_def Let_def table_get [OF inv] used_def)
  qed
qed

subsection \<open>Insertion\<close>

lemma find_empty_spec:
  assumes "\<And>j. i \<le> j \<Longrightarrow> j < i + k \<Longrightarrow> GetTupleSize d j = Some (size_at d j)"
  shows "\<exists>e. find_empty d i k = Some e \<and> i \<le> e \<and> e \<le> i + k \<and> (e < i + k \<longrightarrow> size_at d e = 0) \<and>
    (\<forall>j. i \<le> j \<longrightarrow> j < e \<longrightarrow> size_at d j \<noteq> 0)"
  using assms
proof (induction k arbitrary: i)
  case (Suc k)
  have g: "GetTupleSize d i = Some (size_at d i)" using Suc.prems [of i] by simp
  show ?case
  proof (cases "size_at d i = 0")
    case True
    with g show ?thesis by auto
  next
    case False
    obtain e where e: "find_empty d (Suc i) k = Some e" "Suc i \<le> e" "e \<le> Suc i + k"
      "e < Suc i + k \<longrightarrow> size_at d e = 0" "\<forall>j. Suc i \<le> j \<longrightarrow> j < e \<longrightarrow> size_at d j \<noteq> 0"
      using Suc.IH [of "Suc i"] Suc.prems by fastforce
    have "size_at d j \<noteq> 0" if "i \<le> j" "j < e" for j
      using e(5) False that by (cases "j = i") auto
    with e g False show ?thesis by (intro exI [of _ e]) simp
  qed
qed auto

definition free_space :: "bytes \<Rightarrow> nat" where
  "free_space d = unat (fsp d) - 24 - 8 * unat (cnt d)"

lemma unat_mult8: "24 + 8 * unat n < 2 ^ 31 \<Longrightarrow> unat (8 * n :: uint32) = 8 * unat n"
proof -
  assume a: "24 + 8 * unat n < 2 ^ 31"
  have "unat (8 * n) = (unat (8::uint32) * unat n) mod 2 ^ 32" by (simp add: unat_word_ariths)
  with a show ?thesis by simp
qed

lemma GetFreeSpaceRemaining_view:
  assumes "table_inv d"
  shows "\<exists>f. GetFreeSpaceRemaining d = Some f \<and> unat f = free_space d"
proof -
  note D = table_invD [OF assms]
  have a: "24 + 8 * unat (cnt d) < 2 ^ 31" using D(1-3) by linarith
  have "unat (24 :: uint32) = 24" by simp
  moreover have "unat (fsp d - 24) = unat (fsp d) - unat (24 :: uint32)"
    using D(2) by (intro unat_sub) (simp add: word_le_nat_alt)
  moreover have "unat (fsp d - 24 - 8 * cnt d) = unat (fsp d - 24) - unat (8 * cnt d)"
    using D(2) calculation unat_mult8 [OF a] by (intro unat_sub) (simp add: word_le_nat_alt)
  ultimately show ?thesis
    by (simp add: GetFreeSpaceRemaining_def table_get [OF assms] free_space_def unat_mult8 [OF a])
qed

text \<open>The page after the writes of \<open>InsertTuple\<close>.\<close>

definition inserted :: "bytes \<Rightarrow> nat \<Rightarrow> uint32 \<Rightarrow> bytes \<Rightarrow> bytes" where
  "inserted d k sz bs =
     put32 (put32 (put (put32 d 16 (fsp d - sz)) (unat (fsp d - sz)) bs) (24 + 8 * k) (fsp d - sz)) (28 + 8 * k) sz"

definition counted :: "bytes \<Rightarrow> nat \<Rightarrow> bytes" where
  "counted d k = (if k = unat (cnt d) then put32 d 20 (cnt d + 1) else d)"

lemma inserted_fields:
  assumes inv: "table_inv d" and k: "k \<le> unat (cnt d)" and sz: "unat sz + 8 \<le> free_space d"
    and bs: "length bs = unat sz" "0 < unat sz"
  defines "d' \<equiv> inserted d k sz bs"
  shows "length d' = length d" "unat (fsp d') = unat (fsp d) - unat sz" "cnt d' = cnt d" "fsp d' = fsp d - sz"
    "i \<le> unat (cnt d) \<Longrightarrow> off_at d' i = (if i = k then fsp d - sz else off_at d i)"
    "i \<le> unat (cnt d) \<Longrightarrow> size_at d' i = (if i = k then sz else size_at d i)"
    "unat (fsp d) \<le> a \<Longrightarrow> a + n \<le> length d \<Longrightarrow> sub d' a n = sub d a n"
    "sub d' (unat (fsp d - sz)) (unat sz) = bs"
    "32 + 8 * unat (cnt d) \<le> unat (fsp d - sz)" "head d' = head d"
proof -
  note D = table_invD [OF inv]
  define p where "p = fsp d - sz"
  define d1 where "d1 = put32 d 16 p"
  define d2 where "d2 = put d1 (unat p) bs"
  define d3 where "d3 = put32 d2 (24 + 8 * k) p"
  have d': "d' = put32 d3 (28 + 8 * k) sz" by (simp add: d'_def inserted_def d1_def d2_def d3_def p_def)
  have p: "unat p = unat (fsp d) - unat sz"
    unfolding p_def using sz D(2) by (intro unat_sub) (simp add: word_le_nat_alt free_space_def)
  have pl: "32 + 8 * unat (cnt d) \<le> unat p" "unat p + unat sz = unat (fsp d)" "unat p + unat sz \<le> length d"
    using sz D(2,3) p bs by (auto simp: free_space_def)
  have kl: "32 + 8 * k \<le> length d" and kp: "32 + 8 * k \<le> unat p" using k pl by linarith+
  have l1: "length d1 = length d" using D(4) by (simp add: d1_def)
  have l2: "length d2 = length d" using l1 pl bs by (simp add: d2_def)
  have l3: "length d3 = length d" using l2 kl by (simp add: d3_def)
  show "length d' = length d" using l3 kl by (simp add: d')
  have f1: "fsp d1 = p" "cnt d1 = cnt d" using put_fsp [OF D(4)] by (simp_all add: d1_def)
  have f2: "fsp d2 = p" "cnt d2 = cnt d"
    using put_data(1,2) [of "unat (cnt d) + 1" "unat p" bs d1] pl bs l1 f1 by (simp_all add: d2_def)
  have f3: "fsp d3 = p" "cnt d3 = cnt d" using put_off(1,2) [of k d2 p] kl l2 f2 by (simp_all add: d3_def)
  have "fsp d' = p" "cnt d' = cnt d" using put_size(1,2) [of k d3 sz] kl l3 f3 by (simp_all add: d')
  then show "cnt d' = cnt d" "fsp d' = fsp d - sz" "unat (fsp d') = unat (fsp d) - unat sz" using p by (simp_all add: p_def)
  have il: "32 + 8 * i \<le> length d" if "i \<le> unat (cnt d)" for i using that pl by linarith
  have o2: "off_at d2 i = off_at d i" "size_at d2 i = size_at d i" if "i \<le> unat (cnt d)" for i
    using put_data(3,4) [of "unat (cnt d) + 1" "unat p" bs d1 i] put_fsp(3,4) [OF D(4), of i p] il [OF that] that pl bs l1
    by (simp_all add: d2_def d1_def)
  have o3: "off_at d3 i = (if i = k then p else off_at d i)" "size_at d3 i = size_at d i" if "i \<le> unat (cnt d)" for i
    using put_off(3,4) [of k d2 i p] kl il [OF that] l2 o2 [OF that] by (auto simp: d3_def)
  show "off_at d' i = (if i = k then fsp d - sz else off_at d i)" "size_at d' i = (if i = k then sz else size_at d i)"
    if "i \<le> unat (cnt d)"
    using put_size(3,4) [of k d3 i sz] kl il [OF that] l3 o3 [OF that] by (auto simp: d' p_def)
  have s: "sub d' a n = sub d2 a n" if "32 + 8 * unat (cnt d) \<le> a" "a + n \<le> length d" for a n
    using put_size(5) [of k d3 a n sz] put_off(5) [of k d2 a n p] kl k that l2 l3 by (simp add: d' d3_def)
  have s2: "sub d2 a n = sub d a n" if "unat (fsp d) \<le> a" "a + n \<le> length d" for a n
    using sub_put_other [of "unat p" bs d1 a n] put_fsp(5) [OF D(4), of a n p] that pl bs l1 by (simp add: d2_def d1_def)
  show "sub d' a n = sub d a n" if "unat (fsp d) \<le> a" "a + n \<le> length d"
    using s [of a n] s2 [of a n] that pl bs by simp
  show "sub d' (unat (fsp d - sz)) (unat sz) = bs"
    using s [of "unat p" "unat sz"] sub_put_same [of "unat p" bs d1] pl bs l1 by (simp add: d2_def p_def)
  show "32 + 8 * unat (cnt d) \<le> unat (fsp d - sz)" using pl by (simp add: p_def)
  show "head d' = head d"
    using kl D(4) l1 l2 l3 pl bs by (simp add: d' d3_def d2_def d1_def word_at_put_other head_put)
qed

lemma inserted_counted:
  assumes inv: "table_inv d" and k: "k \<le> unat (cnt d)" "\<not> used d k" and sz: "unat sz + 8 \<le> free_space d"
    and bs: "length bs = unat sz" "0 < unat sz"
  defines "d' \<equiv> counted (inserted d k sz bs) k"
  shows "table_inv d'" "tuples d' = (tuples d)(k \<mapsto> (False, bs))" "length d' = length d" "head d' = head d"
proof -
  define e where "e = inserted d k sz bs"
  note D = table_invD [OF inv] and I = inserted_fields [OF inv k(1) sz bs, folded e_def]
  define p where "p = fsp d - sz"
  have d': "d' = (if k = unat (cnt d) then put32 e 20 (cnt d + 1) else e)"
    unfolding d'_def counted_def e_def [symmetric] I(3) by (rule refl)
  have le: "length e = length d" "24 \<le> length e" using I(1) D(4) by (simp_all)
  have c1: "unat (cnt d + 1) = unat (cnt d) + 1"
    using D(1-3) by (simp add: unat_word_ariths)
  have len: "length d' = length d" using le by (simp add: d')
  have cnt': "unat (cnt d') = max (unat (cnt d)) (k + 1)"
    using k put_cnt(1) [OF le(2)] c1 I(3) by (auto simp: d')
  have fsp': "fsp d' = p" using put_cnt(2) [OF le(2)] I(4) by (simp add: d' p_def)
  have pl: "32 + 8 * unat (cnt d) \<le> unat p" "unat p = unat (fsp d) - unat sz" "unat p + unat sz = unat (fsp d)"
    using I(2,4,9) sz by (auto simp: p_def free_space_def)
  have il: "32 + 8 * i \<le> length e" if "i \<le> unat (cnt d)" for i using that pl D(3) le(1) by linarith
  have off': "off_at d' i = (if i = k then p else off_at d i)" and size': "size_at d' i = (if i = k then sz else size_at d i)"
    if "i \<le> unat (cnt d)" for i
  proof -
    have "off_at d' i = off_at e i" "size_at d' i = size_at e i"
      using put_cnt(3,4) [OF le(2) il [OF that]] by (simp_all add: d')
    then show "off_at d' i = (if i = k then p else off_at d i)" "size_at d' i = (if i = k then sz else size_at d i)"
      using I(5,6) [OF that] by (simp_all only: p_def)
  qed
  have sub': "sub d' a n = sub e a n" if "24 \<le> a" "a + n \<le> length d" for a n
    using put_cnt(5) [OF le(2) that(1)] that le(1) by (simp add: d')
  have nf: "\<not> flagged sz" "real_size sz = unat sz"
  proof -
    show "\<not> flagged sz" using sz D(1,3) by (intro flagged_small) (simp add: free_space_def)
    then show "real_size sz = unat sz" by (rule unflagged_size)
  qed
  have us: "used d' i \<longleftrightarrow> used d i \<or> i = k" for i
  proof (cases "i \<le> unat (cnt d)")
    case True
    with size' [of i] bs(2) k cnt' show ?thesis by (auto simp: used_def max_def)
  next
    case False
    with k cnt' show ?thesis by (auto simp: used_def max_def)
  qed
  have uk: "i \<noteq> k \<and> i \<le> unat (cnt d)" if "used d i" for i using that k(2) by (auto simp: used_def)
  have r: "rsize d' i = (if i = k then unat sz else rsize d i)" if "i \<le> unat (cnt d)" for i
    using size' [OF that] nf by (simp add: rsize_def)
  show "table_inv d'"
    unfolding table_inv_def
  proof (intro conjI allI impI)
    show "length d' < 2 ^ 31" "unat (fsp d') \<le> length d'" using D(1,3) pl by (simp_all add: len fsp')
    show "24 + 8 * unat (cnt d') \<le> unat (fsp d')" using pl k(1) by (simp add: fsp' cnt' max_def)
    show ip: "in_page d' i" if "used d' i" for i
    proof (cases "i = k")
      case True
      then show ?thesis using bs(2) pl D(3) k(1) by (simp add: in_page_def r off' fsp' len)
    next
      case False
      with that us uk have "used d i" "i \<le> unat (cnt d)" by auto
      with D(7) [of i] False pl(3) show ?thesis by (simp add: in_page_def r off' fsp' len)
    qed
    show "apart d' i j" if "used d' i" "used d' j" "i \<noteq> j" for i j
    proof (cases "i = k \<or> j = k")
      case True
      with that us uk D(7) [of i] D(7) [of j] pl k(1) show ?thesis
        by (auto simp: apart_def r off' in_page_def)
    next
      case False
      with that us uk D(8) [of i j] show ?thesis by (auto simp: apart_def r off')
    qed
  qed
  have "tuples d' = (tuples d)(k := tuples d' k)"
  proof (rule tuples_update)
    show "used d' i \<longleftrightarrow> used d i" if "i \<noteq> k" for i using us that by simp
    show "size_at d' i = size_at d i \<and> sub d' (unat (off_at d' i)) (rsize d i) = sub d (unat (off_at d i)) (rsize d i)"
      if "i \<noteq> k" "used d i" for i
      using uk [OF that(2)] D(7) [OF that(2)] D(2) that I(7) [of "unat (off_at d i)" "rsize d i"]
        sub' [of "unat (off_at d i)" "rsize d i"]
      by (simp add: off' size' in_page_def)
  qed
  moreover have "tuples d' k = Some (False, bs)"
    using us [of k] k(1) nf I(8) sub' [of "unat p" "unat sz"] pl D(3)
    by (simp add: tuples_def size' off' r p_def)
  ultimately show "tuples d' = (tuples d)(k \<mapsto> (False, bs))" by simp
  show "length d' = length d" by (rule len)
  show "head d' = head d"
    using I(10) le by (simp add: d' word_at_put_other head_put)
qed

text \<open>\<open>InsertTuple\<close> refuses when the tuple and a slot do not fit, and otherwise stores the tuple in an
  unused slot.\<close>

lemma InsertTuple_view:
  assumes inv: "table_inv d" and sz: "0 < size_of t" "unat (size_of t) \<le> length (data_of t)"
  shows "if unat (size_of t) + 8 \<le> free_space d
    then \<exists>k d'. TablePage_InsertTuple d t = Some (Some \<lparr>page_id_of = word_at d 0, slot_num_of = of_nat k\<rparr>, d') \<and>
      k \<le> unat (cnt d) \<and> tuples d k = None \<and> table_inv d' \<and> length d' = length d \<and> head d' = head d \<and>
      tuples d' = (tuples d)(k \<mapsto> (False, take (unat (size_of t)) (data_of t)))
    else TablePage_InsertTuple d t = Some (None, d)"
proof -
  note D = table_invD [OF inv]
  let ?s = "size_of t" and ?bs = "take (unat (size_of t)) (data_of t)"
  obtain f where f: "GetFreeSpaceRemaining d = Some f" "unat f = free_space d"
    using GetFreeSpaceRemaining_view [OF inv] by blast
  show ?thesis
  proof (cases "unat ?s + 8 \<le> free_space d")
    case False
    with f sz show ?thesis by (simp add: TablePage_InsertTuple_def)
  next
    case True
    obtain k where k: "find_empty d 0 (unat (cnt d)) = Some k" "k \<le> unat (cnt d)"
      "k < unat (cnt d) \<longrightarrow> size_at d k = 0"
      using find_empty_spec [of 0 "unat (cnt d)" d] table_get(4) [OF inv] by auto
    then have nu: "\<not> used d k" by (auto simp: used_def)
    have s0: "0 < unat ?s" using sz(1) by (simp add: word_less_nat_alt)
    have bs: "length ?bs = unat ?s" using sz(2) by simp
    note I = inserted_fields [OF inv k(2) True bs s0] and C = inserted_counted [OF inv k(2) nu True bs s0]
    define p where "p = fsp d - ?s"
    define d1 where "d1 = put32 d 16 p"
    define d2 where "d2 = put d1 (unat p) ?bs"
    define d3 where "d3 = put32 d2 (24 + 8 * k) p"
    define d4 where "d4 = put32 d3 (28 + 8 * k) ?s"
    have e: "inserted d k ?s ?bs = d4" by (simp add: inserted_def d4_def d3_def d2_def d1_def p_def)
    have pl: "32 + 8 * unat (cnt d) \<le> unat p" "unat p + unat ?s = unat (fsp d)"
      using I(2,4,9) True by (auto simp: p_def free_space_def)
    have kl: "32 + 8 * k \<le> length d" using k(2) pl D(3) by linarith
    have l: "length d1 = length d" "length d2 = length d" "length d3 = length d" "length d4 = length d"
      using D(3,4) pl bs kl by (simp_all add: d1_def d2_def d3_def d4_def)
    have fs: "fsp d1 = p" "fsp d2 = p" "cnt d4 = cnt d" "word_at d4 0 = word_at d 0"
      using put_fsp(1) [OF D(4)] put_data(1) [of "unat (cnt d) + 1" "unat p" ?bs d1] pl bs l D(3) I(3) D(4) head_word [OF I(10) [unfolded e]]
      by (simp_all add: d1_def d2_def e)
    have w: "SetFreeSpacePointer d p = Some d1" "GetFreeSpacePointer d1 = Some p" "write_bytes d1 (unat p) ?bs = Some d2"
      "GetFreeSpacePointer d2 = Some p" "SetTupleOffsetAtSlot d2 k p = Some d3" "SetTupleSize d3 k ?s = Some d4"
      "GetTablePageId d4 = Some (word_at d 0)" "GetTupleCount d4 = Some (cnt d)"
      "read_bytes (data_of t) 0 (unat ?s) = Some ?bs"
      using D(3,4) pl bs kl l fs sz(2)
      by (simp_all add: get_fields set_fields write_bytes_put d1_def [symmetric] d2_def [symmetric]
          d3_def [symmetric] d4_def [symmetric] GetTablePageId_def read32_def read_bytes_def sub_def)
    have "(if k = unat (cnt d) then SetTupleCount d4 (cnt d + 1) else Some d4) = Some (counted d4 k)"
      using D(4) l fs by (simp add: counted_def set_fields)
    then have "TablePage_InsertTuple d t =
        Some (Some \<lparr>page_id_of = word_at d 0, slot_num_of = of_nat k\<rparr>, counted d4 k)"
      using True k(1) f sz w by (simp add: TablePage_InsertTuple_def table_get [OF inv] p_def [symmetric])
    moreover have "tuples d k = None" using nu by (simp add: tuples_def)
    ultimately show ?thesis using True C k(2) unfolding e by auto
  qed
qed

subsection \<open>Moving tuples\<close>

definition shifted :: "uint32 \<Rightarrow> uint32 \<Rightarrow> nat set \<Rightarrow> bytes \<Rightarrow> bytes \<Rightarrow> bool" where
  "shifted limit delta A d d' \<longleftrightarrow> length d' = length d \<and> fsp d' = fsp d \<and> cnt d' = cnt d \<and> head d' = head d \<and>
     (\<forall>i. 32 + 8 * i \<le> length d \<longrightarrow> size_at d' i = size_at d i \<and>
        off_at d' i = (if i \<in> A \<and> size_at d i \<noteq> 0 \<and> off_at d i < limit then off_at d i + delta else off_at d i)) \<and>
     (\<forall>a n. (\<forall>i\<in>A. 32 + 8 * i \<le> a) \<longrightarrow> a + n \<le> length d \<longrightarrow> sub d' a n = sub d a n)"

lemma shift_offsets_spec:
  assumes "distinct is" "\<forall>i\<in>set is. 32 + 8 * i \<le> length d"
  shows "\<exists>d'. shift_offsets limit delta is d = Some d' \<and> shifted limit delta (set is) d d'"
  using assms
proof (induction "is" arbitrary: d)
  case Nil
  then show ?case by (simp add: shifted_def)
next
  case (Cons k ks)
  define d1 where "d1 = (if size_at d k \<noteq> 0 \<and> off_at d k < limit then put32 d (24 + 8 * k) (off_at d k + delta) else d)"
  have k: "32 + 8 * k \<le> length d" using Cons.prems by simp
  have l: "length d1 = length d" using k by (simp add: d1_def)
  have o1: "off_at d1 i = (if i = k \<and> size_at d k \<noteq> 0 \<and> off_at d k < limit then off_at d k + delta else off_at d i)"
    "size_at d1 i = size_at d i" if "32 + 8 * i \<le> length d" for i
    using put_off(3,4) [OF k that] by (auto simp: d1_def)
  have h1: "fsp d1 = fsp d" "cnt d1 = cnt d" "head d1 = head d"
    using put_off(1,2) [OF k] k by (simp_all add: d1_def word_at_put_other head_put)
  have s1: "sub d1 a n = sub d a n" if "32 + 8 * k \<le> a" "a + n \<le> length d" for a n
    using put_off(5) [OF k that] by (simp add: d1_def)
  obtain d' where d': "shift_offsets limit delta ks d1 = Some d'" "shifted limit delta (set ks) d1 d'"
    using Cons.IH [of d1] Cons.prems l by auto
  have "shifted limit delta (set (k # ks)) d d'"
    using d'(2) Cons.prems(1) o1 unfolding shifted_def l h1 by (auto simp: s1)
  moreover have "shift_offsets limit delta (k # ks) d = shift_offsets limit delta ks d1"
    using k by (simp add: get_fields set_fields d1_def)
  ultimately show ?case using d'(1) by auto
qed

lemma unat_shift:
  fixes x y z :: uint32
  assumes "unat x + unat y < 2 ^ 32" "unat z \<le> unat x + unat y"
  shows "unat (x + y - z) = unat x + unat y - unat z" "x + (y - z) = x + y - z" "unat (x + y) = unat x + unat y"
proof -
  show *: "unat (x + y) = unat x + unat y" using assms(1) by (simp add: unat_word_ariths)
  then have "z \<le> x + y" using assms(2) by (simp add: word_le_nat_alt)
  then show "unat (x + y - z) = unat x + unat y - unat z" using * by (simp add: unat_sub)
  show "x + (y - z) = x + y - z" by simp
qed

text \<open>A page \<open>d'\<close> in which the tuple of slot \<open>k\<close> (size \<open>t\<close>) was replaced by \<open>bs\<close> of size \<open>n\<close>: what
  lay below it moved up by \<open>t - n\<close>.\<close>

definition replaced :: "bytes \<Rightarrow> nat \<Rightarrow> nat \<Rightarrow> bytes \<Rightarrow> bool" where
  "replaced d k n d' \<longleftrightarrow>
     (let ok = unat (off_at d k); t = rsize d k in
      length d' = length d \<and> cnt d' = cnt d \<and> unat (fsp d') = unat (fsp d) + t - n \<and>
      (\<forall>i. used d i \<longrightarrow> i \<noteq> k \<longrightarrow> size_at d' i = size_at d i \<and>
         unat (off_at d' i) = (if unat (off_at d i) < ok then unat (off_at d i) + t - n else unat (off_at d i)) \<and>
         sub d' (unat (off_at d' i)) (rsize d i) = sub d (unat (off_at d i)) (rsize d i)) \<and>
      (\<forall>i. i < unat (cnt d) \<longrightarrow> i \<noteq> k \<longrightarrow> (size_at d' i = 0 \<longleftrightarrow> size_at d i = 0)))"

lemma replaced_inv:
  assumes inv: "table_inv d" and u: "used d k" and n: "n \<le> free_space d + rsize d k"
    and r: "replaced d k n d'"
    and new: "if n = 0 then size_at d' k = 0
      else rsize d' k = n \<and> size_at d' k \<noteq> 0 \<and> unat (off_at d' k) = unat (off_at d k) + rsize d k - n"
  shows "table_inv d'" "tuples d' = (tuples d)(k := tuples d' k)" "tuples d' k =
    (if n = 0 then None else Some (flagged (size_at d' k), sub d' (unat (off_at d k) + rsize d k - n) n))"
proof -
  note D = table_invD [OF inv]
  define f where "f = unat (fsp d)"
  define t where "t = rsize d k"
  define ok where "ok = unat (off_at d k)"
  have k: "k < unat (cnt d)" using u by (simp add: used_def)
  have kp: "0 < t" "f \<le> ok" "ok + t \<le> length d" using D(7) [OF u] by (simp_all add: in_page_def t_def ok_def f_def)
  have R: "length d' = length d" "cnt d' = cnt d" "unat (fsp d') = f + t - n"
    "\<And>i. used d i \<Longrightarrow> i \<noteq> k \<Longrightarrow> size_at d' i = size_at d i"
    "\<And>i. used d i \<Longrightarrow> i \<noteq> k \<Longrightarrow>
      unat (off_at d' i) = (if unat (off_at d i) < ok then unat (off_at d i) + t - n else unat (off_at d i))"
    "\<And>i. used d i \<Longrightarrow> i \<noteq> k \<Longrightarrow> sub d' (unat (off_at d' i)) (rsize d i) = sub d (unat (off_at d i)) (rsize d i)"
    "\<And>i. i < unat (cnt d) \<Longrightarrow> i \<noteq> k \<Longrightarrow> size_at d' i = 0 \<longleftrightarrow> size_at d i = 0"
    using r unfolding replaced_def Let_def ok_def t_def f_def by blast+
  have us: "used d' i \<longleftrightarrow> used d i" if "i \<noteq> k" for i using R(2,7) that by (auto simp: used_def)
  have uk: "used d' k \<longleftrightarrow> n \<noteq> 0" using new k by (cases "n = 0") (auto simp: used_def R(2))
  have rs: "rsize d' i = rsize d i" if "used d i" "i \<noteq> k" for i using R(4) [OF that] by (simp add: rsize_def)
  have low: "unat (off_at d i) + rsize d i \<le> ok" if "used d i" "i \<noteq> k" "unat (off_at d i) < ok" for i
    using D(8) [OF that(1) u that(2)] that(3) D(7) [OF that(1)] kp
    by (auto simp: apart_def ok_def t_def in_page_def)
  have high: "ok + t \<le> unat (off_at d i)" if "used d i" "i \<noteq> k" "\<not> unat (off_at d i) < ok" for i
    using D(8) [OF that(1) u that(2)] that(3) D(7) [OF that(1)] kp
    by (auto simp: apart_def ok_def t_def in_page_def)
  have nf: "24 + 8 * unat (cnt d) + n \<le> f + t" using n D(2) by (simp add: free_space_def f_def t_def)
  have newk: "unat (off_at d' k) = ok + t - n" "rsize d' k = n" if "n \<noteq> 0"
    using new that by (simp_all add: ok_def t_def)
  have ipd: "0 < rsize d i" "f \<le> unat (off_at d i)" "unat (off_at d i) + rsize d i \<le> length d" if "used d i" for i
    using D(7) [OF that] by (simp_all add: in_page_def f_def)
  show "table_inv d'"
    unfolding table_inv_def
  proof (intro conjI allI impI)
    show "length d' < 2 ^ 31" using D(1) R(1) by simp
    show "24 + 8 * unat (cnt d') \<le> unat (fsp d')" using nf by (simp add: R)
    show "unat (fsp d') \<le> length d'" using kp by (simp add: R)
    show "in_page d' i" if "used d' i" for i
    proof (cases "i = k")
      case True
      with that uk have "n \<noteq> 0" by simp
      with True newk kp nf show ?thesis by (simp add: in_page_def R(1,3))
    next
      case False
      with that us have "used d i" by simp
      with ipd [of i] low [of i] high [of i] False kp nf show ?thesis
        by (auto simp: in_page_def R(1,3,5) rs)
    qed
    show "apart d' i j" if ij: "used d' i" "used d' j" "i \<noteq> j" for i j
    proof (cases "i = k \<or> j = k")
      case True
      with that uk have n0: "n \<noteq> 0" by auto
      show ?thesis
      proof (cases "i = k")
        case True
        with ij us have j: "used d j" "j \<noteq> k" by auto
        with ipd [of j] low [of j] high [of j] newk [OF n0] True nf kp show ?thesis
          by (auto simp: apart_def R(5) rs)
      next
        case False
        with \<open>i = k \<or> j = k\<close> have jk: "j = k" by simp
        with ij us False have i: "used d i" by auto
        with ipd [of i] low [of i] high [of i] newk [OF n0] False nf kp jk show ?thesis
          by (auto simp: apart_def R(5) rs)
      qed
    next
      case False
      with ij us have i: "used d i" "used d j" "i \<noteq> k" "j \<noteq> k" by auto
      with D(8) [OF i(1,2) ij(3)] low [OF i(1,3)] low [OF i(2,4)] high [OF i(1,3)] high [OF i(2,4)]
        ipd [OF i(1)] ipd [OF i(2)] nf
      show ?thesis by (auto simp: apart_def R(5) rs)
    qed
  qed
  show "tuples d' = (tuples d)(k := tuples d' k)"
    by (rule tuples_update) (use us R(4,6) in blast)+
  show "tuples d' k =
      (if n = 0 then None else Some (flagged (size_at d' k), sub d' (unat (off_at d k) + rsize d k - n) n))"
    using uk newk by (simp add: tuples_def ok_def t_def)
qed

definition moved :: "bytes \<Rightarrow> nat \<Rightarrow> nat \<Rightarrow> bytes" where
  "moved d k n = put d (unat (fsp d) + rsize d k - n) (sub d (unat (fsp d)) (unat (off_at d k) - unat (fsp d)))"

lemma moved_fields:
  assumes inv: "table_inv d" and u: "used d k" and n: "n \<le> free_space d + rsize d k"
  defines "d' \<equiv> moved d k n"
  shows "memmove d (unat (fsp d) + rsize d k - n) (unat (fsp d)) (unat (off_at d k) - unat (fsp d)) = Some d'"
    "length d' = length d" "fsp d' = fsp d" "cnt d' = cnt d" "head d' = head d"
    "i < unat (cnt d) \<Longrightarrow> off_at d' i = off_at d i" "i < unat (cnt d) \<Longrightarrow> size_at d' i = size_at d i"
    "unat (fsp d) \<le> a \<Longrightarrow> a + m \<le> unat (off_at d k) \<Longrightarrow> sub d' (a + rsize d k - n) m = sub d a m"
    "unat (off_at d k) + rsize d k \<le> a \<Longrightarrow> a + m \<le> length d \<Longrightarrow> sub d' a m = sub d a m"
    "24 + 8 * unat (cnt d) + n \<le> unat (fsp d) + rsize d k"
    "unat (fsp d) \<le> unat (off_at d k)" "unat (off_at d k) + rsize d k \<le> length d" "0 < rsize d k"
proof -
  note D = table_invD [OF inv]
  define f where "f = unat (fsp d)"
  define t where "t = rsize d k"
  define ok where "ok = unat (off_at d k)"
  have kp: "0 < t" "f \<le> ok" "ok + t \<le> length d" using D(7) [OF u] by (simp_all add: in_page_def t_def ok_def f_def)
  have nf: "24 + 8 * unat (cnt d) + n \<le> f + t" using n D(2) by (simp add: free_space_def f_def t_def)
  have d': "d' = put d (f + t - n) (sub d f (ok - f))" by (simp add: d'_def moved_def f_def t_def ok_def)
  have len: "length (sub d f (ok - f)) = ok - f" using kp by simp
  have fit: "f + t - n + length (sub d f (ok - f)) \<le> length d" using kp by simp
  show "memmove d (unat (fsp d) + rsize d k - n) (unat (fsp d)) (unat (off_at d k) - unat (fsp d)) = Some d'"
    unfolding d' f_def [symmetric] t_def [symmetric] ok_def [symmetric] using kp by (intro memmove_put) auto
  show "length d' = length d" using fit by (simp add: d')
  have a: "24 + 8 * unat (cnt d) \<le> f + t - n" using nf by simp
  show "fsp d' = fsp d" "cnt d' = cnt d"
    "i < unat (cnt d) \<Longrightarrow> off_at d' i = off_at d i" "i < unat (cnt d) \<Longrightarrow> size_at d' i = size_at d i"
    unfolding d' using put_data [OF a fit] by blast+
  show "head d' = head d" unfolding d' using a fit D(4) by (intro head_put) auto
  show "sub d' (a + rsize d k - n) m = sub d a m" if "unat (fsp d) \<le> a" "a + m \<le> unat (off_at d k)"
  proof -
    have am: "f \<le> a" "a + m \<le> ok" using that by (simp_all add: f_def ok_def)
    have "sub d' (a + t - n) m = sub (sub d f (ok - f)) (a + t - n - (f + t - n)) m"
      unfolding d' using fit am kp len nf by (intro sub_put_inside) auto
    also have "a + t - n - (f + t - n) = a - f" using am nf by simp
    also have "sub (sub d f (ok - f)) (a - f) m = sub d (f + (a - f)) m"
      using am kp by (intro sub_sub) auto
    finally show ?thesis using am by (simp add: t_def)
  qed
  show "sub d' a m = sub d a m" if "unat (off_at d k) + rsize d k \<le> a" "a + m \<le> length d"
    unfolding d' using that fit len kp nf by (intro sub_put_other) (auto simp: t_def ok_def)
  show "24 + 8 * unat (cnt d) + n \<le> unat (fsp d) + rsize d k"
    "unat (fsp d) \<le> unat (off_at d k)" "unat (off_at d k) + rsize d k \<le> length d" "0 < rsize d k"
    using nf kp by (simp_all add: f_def t_def ok_def)
qed

text \<open>\<open>ApplyDelete\<close> empties a slot.\<close>

lemma ApplyDelete_view:
  assumes inv: "table_inv d" and u: "used d (unat (slot_num_of rid))"
  shows "\<exists>d'. TablePage_ApplyDelete d rid = Some d' \<and> table_inv d' \<and> length d' = length d \<and>
    head d' = head d \<and> tuples d' = (tuples d)(unat (slot_num_of rid) := None)"
proof -
  note D = table_invD [OF inv]
  define k where "k = unat (slot_num_of rid)"
  define tw where "tw = UnsetDeletedFlag (size_at d k)"
  note u' = u [folded k_def]
  note M = moved_fields [OF inv u', of 0, simplified]
  define d1 where "d1 = moved d k 0"
  define d2 where "d2 = put32 d1 16 (fsp d + tw)"
  define z where "z = (0 :: uint32)"
  define d3 where "d3 = put32 d2 (28 + 8 * k) z"
  define d4 where "d4 = put32 d3 (24 + 8 * k) z"
  have t: "unat tw = rsize d k" by (simp add: tw_def rsize_def real_size_def)
  have k: "k < unat (cnt d)" "32 + 8 * k \<le> length d" using u' D(6) by (auto simp: used_def)
  have small: "unat (fsp d) + unat tw < 2 ^ 32" "unat (off_at d i) + unat tw < 2 ^ 32" if "used d i" for i
    using D(1,3) D(7) [OF that] M(12) t by (auto simp: in_page_def)
  have l: "length d1 = length d" "length d2 = length d" "length d3 = length d" "length d4 = length d"
    using M(2) D(4) k by (simp_all add: d1_def d2_def d3_def d4_def)
  have il: "32 + 8 * i \<le> length d" if "i < unat (cnt d)" for i using D(6) that .
  have f4: "fsp d4 = fsp d + tw" "cnt d4 = cnt d" "head d4 = head d"
    using l M(3-5) D(4) k put_fsp(1,2) [of d1] put_size(1,2) [of k d2] put_off(1,2) [of k d3]
    by (simp_all add: d4_def d3_def d2_def d1_def [symmetric] word_at_put_other head_put)
  have s4: "off_at d4 i = (if i = k then z else off_at d i)" "size_at d4 i = (if i = k then z else size_at d i)"
    if "i < unat (cnt d)" for i
    using l M(6,7) [OF that] il [OF that] k D(4) put_fsp(3,4) [of d1 i] put_size(3,4) [of k d2 i] put_off(3,4) [of k d3 i]
    by (auto simp: d4_def d3_def d2_def d1_def [symmetric])
  have b4: "sub d4 a m = sub d1 a m" if "24 + 8 * unat (cnt d) \<le> a" "a + m \<le> length d" for a m
    using l k D(4) that put_fsp(5) [of d1 a m] put_size(5) [of k d2 a m] put_off(5) [of k d3 a m]
    by (simp add: d4_def d3_def d2_def)
  obtain d' where sh: "shift_offsets (off_at d k) tw [0..<unat (cnt d)] d4 = Some d'"
    and sd: "shifted (off_at d k) tw {0..<unat (cnt d)} d4 d'"
    using shift_offsets_spec [of "[0..<unat (cnt d)]" d4 "off_at d k" tw] il l by auto
  have S: "length d' = length d" "fsp d' = fsp d + tw" "cnt d' = cnt d" "head d' = head d"
    "\<And>i. i < unat (cnt d) \<Longrightarrow> size_at d' i = size_at d4 i"
    "\<And>i. i < unat (cnt d) \<Longrightarrow> off_at d' i =
      (if size_at d4 i \<noteq> 0 \<and> off_at d4 i < off_at d k then off_at d4 i + tw else off_at d4 i)"
    "\<And>a m. 24 + 8 * unat (cnt d) \<le> a \<Longrightarrow> a + m \<le> length d \<Longrightarrow> sub d' a m = sub d4 a m"
    using sd l f4 il by (auto simp: shifted_def)
  have rep: "replaced d k 0 d'"
  proof -
    have "size_at d' i = size_at d i"
      "unat (off_at d' i) = (if unat (off_at d i) < unat (off_at d k) then unat (off_at d i) + rsize d k else unat (off_at d i))"
      "sub d' (unat (off_at d' i)) (rsize d i) = sub d (unat (off_at d i)) (rsize d i)"
      if i: "used d i" "i \<noteq> k" for i
    proof -
      have ic: "i < unat (cnt d)" "size_at d i \<noteq> 0" using i by (auto simp: used_def)
      have ip: "unat (fsp d) \<le> unat (off_at d i)" "unat (off_at d i) + rsize d i \<le> length d" "0 < rsize d i"
        using D(7) [OF i(1)] by (simp_all add: in_page_def)
      have ap: "unat (off_at d i) < unat (off_at d k) \<Longrightarrow> unat (off_at d i) + rsize d i \<le> unat (off_at d k)"
        "\<not> unat (off_at d i) < unat (off_at d k) \<Longrightarrow> unat (off_at d k) + rsize d k \<le> unat (off_at d i)"
        using D(8) [OF i(1) u' i(2)] ip M(13) by (auto simp: apart_def)
      show "size_at d' i = size_at d i" using S(5) s4 ic i by simp
      have "unat (off_at d i + tw) = unat (off_at d i) + rsize d k"
        using unat_shift(3) [of "off_at d i" tw 0] small(2) [OF i(1)] t by simp
      then show off: "unat (off_at d' i) =
          (if unat (off_at d i) < unat (off_at d k) then unat (off_at d i) + rsize d k else unat (off_at d i))"
        using S(6) s4 ic i by (simp add: word_less_nat_alt)
      show "sub d' (unat (off_at d' i)) (rsize d i) = sub d (unat (off_at d i)) (rsize d i)"
        using off ap ip M(8,9,12) D(2) S(7) b4 by (auto simp: d1_def)
    qed
    then show ?thesis
      using S(1-3,5) s4 small(1) [OF u'] t unat_shift(3) [of "fsp d" tw 0]
      by (auto simp: replaced_def Let_def z_def)
  qed
  have new: "size_at d' k = 0" using S(5) s4 k by (simp add: z_def)
  note R = replaced_inv [OF inv u' _ rep, simplified, OF new]
  have del: "(if IsDeleted (size_at d k) then UnsetDeletedFlag (size_at d k) else size_at d k) = tw"
    using unflagged [of "size_at d k"] by (auto simp: tw_def IsDeleted_iff)
  have sl: "slot_num_of rid < cnt d" using k by (simp add: k_def word_less_nat_alt)
  have le: "fsp d \<le> off_at d k" using M(11) by (simp add: word_le_nat_alt)
  then have diff: "unat (off_at d k - fsp d) = unat (off_at d k) - unat (fsp d)" by (simp add: unat_sub)
  have w: "SetFreeSpacePointer d1 (fsp d + tw) = Some d2" "SetTupleSize d2 k 0 = Some d3"
    "SetTupleOffsetAtSlot d3 k 0 = Some d4" "GetTupleCount d4 = Some (cnt d)"
    "memmove d (unat (fsp d) + unat tw) (unat (fsp d)) (unat (off_at d k - fsp d)) = Some d1"
    "read_bytes d (unat (off_at d k)) (unat tw) = Some (sub d (unat (off_at d k)) (unat tw))"
    using l D(4) k f4 M(1,12) t diff
    by (simp_all add: set_fields get_fields d2_def d3_def d4_def d1_def read_bytes_def z_def)
  have "TablePage_ApplyDelete d rid = Some d'"
    unfolding TablePage_ApplyDelete_def Let_def k_def [symmetric]
    using sl k le w sh by (simp add: table_get [OF inv] del)
  moreover have "tuples d' = (tuples d)(k := None)" using R(2,3) by simp
  ultimately show ?thesis using R(1) S(1,4) by (auto simp: k_def)
qed

text \<open>\<open>UpdateTuple\<close> returns the old tuple and puts the new one in its place when it fits.\<close>

lemma UpdateTuple_fits:
  assumes inv: "table_inv d" and t: "tuples d (unat (slot_num_of rid)) = Some (False, old)"
    and sz: "0 < size_of nt" "unat (size_of nt) \<le> length (data_of nt)"
    and fit: "unat (size_of nt) \<le> free_space d + length old"
  shows "\<exists>d'. TablePage_UpdateTuple d nt rid =
      Some (Some \<lparr>size_of = of_nat (length old), data_of = old, rid_of = rid\<rparr>, d') \<and> table_inv d' \<and>
    length d' = length d \<and> head d' = head d \<and>
    tuples d' = (tuples d)(unat (slot_num_of rid) \<mapsto> (False, take (unat (size_of nt)) (data_of nt)))"
proof -
  note D = table_invD [OF inv]
  define k where "k = unat (slot_num_of rid)"
  define nw where "nw = size_of nt"
  define n where "n = unat nw"
  define bs where "bs = take n (data_of nt)"
  have u: "used d k" and nfl: "\<not> flagged (size_at d k)" and old: "old = sub d (unat (off_at d k)) (rsize d k)"
    using t by (auto simp: tuples_def k_def split: if_splits)
  define tw where "tw = size_at d k"
  have tw: "unat tw = rsize d k" using nfl by (simp add: tw_def rsize_def unflagged_size)
  have n: "n \<le> free_space d + rsize d k" "0 < n" "length bs = n"
  proof -
    have "length old = rsize d k" using D(7) [OF u] by (simp add: old in_page_def)
    with fit show "n \<le> free_space d + rsize d k" by (simp add: n_def nw_def)
    show "0 < n" using sz(1) by (simp add: n_def nw_def word_less_nat_alt)
    show "length bs = n" using sz(2) by (simp add: bs_def n_def nw_def)
  qed
  note M = moved_fields [OF inv u n(1)]
  define d1 where "d1 = moved d k n"
  define d2 where "d2 = put32 d1 16 (fsp d + tw - nw)"
  define d3 where "d3 = put d2 (unat (off_at d k) + rsize d k - n) bs"
  define d4 where "d4 = put32 d3 (28 + 8 * k) nw"
  have k: "k < unat (cnt d)" "32 + 8 * k \<le> length d" using u D(6) by (auto simp: used_def)
  have pos: "n \<le> unat (off_at d k) + rsize d k" "24 + 8 * unat (cnt d) \<le> unat (off_at d k) + rsize d k - n"
    "unat (off_at d k) + rsize d k - n + length bs = unat (off_at d k) + rsize d k"
    using M(10,11) n by linarith+
  have small: "unat (off_at d i) + unat tw < 2 ^ 32" "n \<le> unat (off_at d i) + unat tw" if "used d i" for i
    using D(1,3) D(7) [OF that] M(10,12) tw by (auto simp: in_page_def)
  have fs: "unat (fsp d) + unat tw < 2 ^ 32" "n \<le> unat (fsp d) + unat tw" using D(1,3) M(10,12) tw by auto
  have l: "length d1 = length d" "length d2 = length d" "length d3 = length d" "length d4 = length d"
    using M(2,12) D(4) k pos by (simp_all add: d1_def d2_def d3_def d4_def)
  have il: "32 + 8 * i \<le> length d" if "i < unat (cnt d)" for i using D(6) that .
  have pd: "unat (off_at d k) + rsize d k - n + length bs \<le> length d2" using pos(3) M(12) l by simp
  have f2: "fsp d2 = fsp d + tw - nw" "cnt d2 = cnt d" "head d2 = head d"
    using l M(4,5) D(4) put_fsp(1,2) [of d1] by (simp_all add: d2_def d1_def [symmetric] word_at_put_other head_put)
  have f4: "fsp d4 = fsp d + tw - nw" "cnt d4 = cnt d" "head d4 = head d"
    using l f2 D(4) k put_data(1,2) [OF pos(2) pd] put_size(1,2) [of k d3 nw] pos(2) pd
    by (simp_all add: d4_def d3_def word_at_put_other head_put)
  have s4: "off_at d4 i = off_at d i" "size_at d4 i = (if i = k then nw else size_at d i)" if "i < unat (cnt d)" for i
    using l M(6,7) [OF that] il [OF that] k D(4) put_fsp(3,4) [of d1 i] put_data(3,4) [OF pos(2) pd that] put_size(3,4) [of k d3 i]
    by (auto simp: d4_def d3_def d2_def d1_def [symmetric])
  have b4: "sub d4 a m = sub d3 a m" if "24 + 8 * unat (cnt d) \<le> a" "a + m \<le> length d" for a m
    using l k that put_size(5) [of k d3 a m nw] by (simp add: d4_def)
  have b3: "sub d3 a m = sub d1 a m"
    if "24 \<le> a" "a + m \<le> length d" "a + m \<le> unat (off_at d k) + rsize d k - n \<or> unat (off_at d k) + rsize d k \<le> a" for a m
    using l D(4) that sub_put_other [OF pd, of a m] pos(3) put_fsp(5) [of d1 a m] by (simp add: d3_def d2_def)
  obtain d' where sh: "shift_offsets (off_at d k + tw) (tw - nw) [0..<unat (cnt d)] d4 = Some d'"
    and sd: "shifted (off_at d k + tw) (tw - nw) {0..<unat (cnt d)} d4 d'"
    using shift_offsets_spec [of "[0..<unat (cnt d)]" d4 "off_at d k + tw" "tw - nw"] il l by auto
  have S: "length d' = length d" "fsp d' = fsp d + tw - nw" "cnt d' = cnt d" "head d' = head d"
    "\<And>i. i < unat (cnt d) \<Longrightarrow> size_at d' i = size_at d4 i"
    "\<And>i. i < unat (cnt d) \<Longrightarrow> off_at d' i =
      (if size_at d4 i \<noteq> 0 \<and> off_at d4 i < off_at d k + tw then off_at d4 i + (tw - nw) else off_at d4 i)"
    "\<And>a m. 24 + 8 * unat (cnt d) \<le> a \<Longrightarrow> a + m \<le> length d \<Longrightarrow> sub d' a m = sub d4 a m"
    using sd l f4 il by (auto simp: shifted_def)
  have sh_off: "unat (off_at d i + (tw - nw)) = unat (off_at d i) + rsize d k - n" if "used d i" for i
    using unat_shift(1) [OF small(1) [OF that], of nw] small(2) [OF that] tw by (simp add: n_def add_diff_eq)
  have lim: "unat (off_at d k + tw) = unat (off_at d k) + rsize d k"
    using unat_shift(3) [OF small(1) [OF u], of 0] tw by simp
  have rep: "replaced d k n d'"
  proof -
    have "size_at d' i = size_at d i"
      "unat (off_at d' i) = (if unat (off_at d i) < unat (off_at d k) then unat (off_at d i) + rsize d k - n else unat (off_at d i))"
      "sub d' (unat (off_at d' i)) (rsize d i) = sub d (unat (off_at d i)) (rsize d i)"
      if i: "used d i" "i \<noteq> k" for i
    proof -
      have ic: "i < unat (cnt d)" "size_at d i \<noteq> 0" using i by (auto simp: used_def)
      have ip: "unat (fsp d) \<le> unat (off_at d i)" "unat (off_at d i) + rsize d i \<le> length d" "0 < rsize d i"
        using D(7) [OF i(1)] by (simp_all add: in_page_def)
      have ap: "unat (off_at d i) < unat (off_at d k) \<Longrightarrow> unat (off_at d i) + rsize d i \<le> unat (off_at d k)"
        "\<not> unat (off_at d i) < unat (off_at d k) \<Longrightarrow> unat (off_at d k) + rsize d k \<le> unat (off_at d i)"
        using D(8) [OF i(1) u i(2)] ip M(13) by (auto simp: apart_def)
      show "size_at d' i = size_at d i" using S(5) s4 ic i by simp
      have lt: "off_at d i < off_at d k + tw \<longleftrightarrow> unat (off_at d i) < unat (off_at d k)"
        unfolding word_less_nat_alt lim using ap(2) M(13) by linarith
      show off: "unat (off_at d' i) =
          (if unat (off_at d i) < unat (off_at d k) then unat (off_at d i) + rsize d k - n else unat (off_at d i))"
        using S(6) s4 ic i sh_off [OF i(1)] lt by simp
      show "sub d' (unat (off_at d' i)) (rsize d i) = sub d (unat (off_at d i)) (rsize d i)"
      proof (cases "unat (off_at d i) < unat (off_at d k)")
        case True
        let ?a = "unat (off_at d i) + rsize d k - n"
        have a: "24 + 8 * unat (cnt d) \<le> ?a" "?a + rsize d i \<le> unat (off_at d k) + rsize d k - n"
          using True ap(1) ip M(10) by linarith+
        moreover have "?a + rsize d i \<le> length d" using a(2) M(12) by linarith
        ultimately show ?thesis
          using True off S(7) b4 b3 M(8) [OF ip(1) ap(1) [OF True]] by (simp add: d1_def)
      next
        case False
        with off ap(2) ip M(9) S(7) b4 b3 D(2) show ?thesis by (simp add: d1_def)
      qed
    qed
    moreover have "unat (fsp d') = unat (fsp d) + rsize d k - n"
      using unat_shift(1) [OF fs(1), of nw] fs(2) tw by (simp add: S(2) n_def)
    ultimately show ?thesis using S(1,3,5) s4 by (auto simp: replaced_def Let_def)
  qed
  have nf: "\<not> flagged nw" using n(1) D(1,3,2) M(11,12) by (intro flagged_small) (simp add: n_def [symmetric] free_space_def)
  have nwz: "nw \<noteq> 0" using n(2) by (auto simp: n_def)
  have new: "rsize d' k = n" "size_at d' k = nw" "unat (off_at d' k) = unat (off_at d k) + rsize d k - n"
  proof -
    show "size_at d' k = nw" using S(5) s4 k by simp
    then show "rsize d' k = n" using nf by (simp add: rsize_def unflagged_size n_def)
    have "off_at d k < off_at d k + tw" using lim M(13) by (simp add: word_less_nat_alt)
    then show "unat (off_at d' k) = unat (off_at d k) + rsize d k - n"
      using S(6) s4 k nwz sh_off [OF u] by simp
  qed
  have R: "table_inv d'" "tuples d' = (tuples d)(k := tuples d' k)"
    "tuples d' k = Some (flagged (size_at d' k), sub d' (unat (off_at d k) + rsize d k - n) n)"
    using replaced_inv [OF inv u n(1) rep] new nwz n(2) by simp_all
  have data: "sub d' (unat (off_at d k) + rsize d k - n) n = bs"
    using S(7) b4 pos M(12) n(3) sub_put_same [OF pd] by (simp add: d3_def)
  obtain f where f: "GetFreeSpaceRemaining d = Some f" "unat f = free_space d"
    using GetFreeSpaceRemaining_view [OF inv] by blast
  have fr: "\<not> f + tw < nw"
  proof -
    have "unat f + unat tw < 2 ^ 32" using f(2) D(1,3) M(12) tw by (simp add: free_space_def)
    then have "unat (f + tw) = unat f + unat tw" by (simp add: unat_word_ariths)
    then show ?thesis using n(1) f(2) tw by (simp add: word_less_nat_alt n_def)
  qed
  have sl: "\<not> slot_num_of rid \<ge> cnt d" using k by (simp add: k_def word_le_nat_alt not_le)
  have le: "fsp d \<le> off_at d k" using M(11) by (simp add: word_le_nat_alt)
  then have diff: "unat (off_at d k - fsp d) = unat (off_at d k) - unat (fsp d)" by (simp add: unat_sub)
  have w: "SetFreeSpacePointer d1 (fsp d + tw - nw) = Some d2"
    "write_bytes d2 (unat (off_at d k) + unat tw - unat nw) bs = Some d3"
    "SetTupleSize d3 k nw = Some d4" "GetTupleCount d4 = Some (cnt d)"
    "memmove d (unat (fsp d) + unat tw - unat nw) (unat (fsp d)) (unat (off_at d k - fsp d)) = Some d1"
    "read_bytes d (unat (off_at d k)) (unat tw) = Some old"
    "read_bytes (data_of nt) 0 (unat nw) = Some bs"
    using l D(4) k f4 M(1,12) tw diff pd sz(2)
    by (simp_all add: set_fields get_fields d2_def d3_def d4_def d1_def read_bytes_def write_bytes_put old
        n_def [symmetric] bs_def sub_def nw_def [symmetric])
  have "length old = unat tw" using D(7) [OF u] tw by (simp add: old in_page_def)
  then have olen: "of_nat (length old) = tw" by simp
  have "TablePage_UpdateTuple d nt rid = Some (Some \<lparr>size_of = tw, data_of = old, rid_of = rid\<rparr>, d')"
    unfolding TablePage_UpdateTuple_def Let_def k_def [symmetric] nw_def [symmetric]
    using sl k le w sh sz(1) fs(2) f(1) fr nfl u
    by (simp add: table_get [OF inv] IsDeleted_iff used_def tw_def [symmetric] nw_def [symmetric] n_def)
  moreover have "tuples d' = (tuples d)(k \<mapsto> (False, bs))" using R(2,3) data nf new(2) by simp
  ultimately show ?thesis using R(1) S(1,4) olen by (auto simp: k_def bs_def n_def nw_def)
qed

text \<open>\<open>UpdateTuple\<close> changes nothing when the slot holds no live tuple or the new tuple does not fit.\<close>

lemma UpdateTuple_refused:
  assumes inv: "table_inv d" and sz: "0 < size_of nt"
    and no: "case tuples d (unat (slot_num_of rid)) of
      Some (False, old) \<Rightarrow> free_space d + length old < unat (size_of nt) | _ \<Rightarrow> True"
  shows "TablePage_UpdateTuple d nt rid = Some (None, d)"
proof -
  let ?k = "unat (slot_num_of rid)"
  note D = table_invD [OF inv]
  have c: "slot_num_of rid \<ge> cnt d \<longleftrightarrow> \<not> ?k < unat (cnt d)" by (simp add: word_le_nat_alt not_less)
  show ?thesis
  proof (cases "used d ?k \<and> \<not> flagged (size_at d ?k)")
    case True
    then have u: "used d ?k" and nf: "\<not> flagged (size_at d ?k)" by auto
    obtain f where f: "GetFreeSpaceRemaining d = Some f" "unat f = free_space d"
      using GetFreeSpaceRemaining_view [OF inv] by blast
    have rs: "rsize d ?k = unat (size_at d ?k)" using nf by (simp add: rsize_def unflagged_size)
    have ip: "unat (off_at d ?k) + unat (size_at d ?k) \<le> length d" "unat (fsp d) \<le> unat (off_at d ?k)"
      using D(7) [OF u] rs by (simp_all add: in_page_def)
    have "free_space d + unat (size_at d ?k) < unat (size_of nt)"
      using no u nf ip by (simp add: tuples_def rs)
    moreover have "unat (f + size_at d ?k) = unat f + unat (size_at d ?k)"
    proof -
      have "unat f + unat (size_at d ?k) < 2 ^ 32" using ip D(1,3) f(2) by (simp add: free_space_def)
      then show ?thesis by (simp add: unat_word_ariths)
    qed
    ultimately have "f + size_at d ?k < size_of nt" using f(2) by (simp add: word_less_nat_alt)
    with True c sz f(1) show ?thesis
      by (simp add: TablePage_UpdateTuple_def Let_def table_get [OF inv] IsDeleted_iff used_def)
  next
    case False
    then show ?thesis using c sz
      by (auto simp: TablePage_UpdateTuple_def Let_def table_get [OF inv] IsDeleted_iff used_def)
  qed
qed

subsection \<open>The header\<close>

text \<open>Writing a field before the free-space pointer changes no tuple.\<close>

lemma header_put:
  assumes "24 \<le> length d" and "off + 4 \<le> 16"
  shows "fsp (put32 d off w) = fsp d" "cnt (put32 d off w) = cnt d"
    "32 + 8 * i \<le> length d \<Longrightarrow> off_at (put32 d off w) i = off_at d i"
    "32 + 8 * i \<le> length d \<Longrightarrow> size_at (put32 d off w) i = size_at d i"
    "24 \<le> a \<Longrightarrow> a + n \<le> length d \<Longrightarrow> sub (put32 d off w) a n = sub d a n"
  using assms by (simp_all add: field_defs word_at_put_other sub_put_other)

lemma header_put_view:
  assumes inv: "table_inv d" and off: "off + 4 \<le> 16"
  shows "table_inv (put32 d off w)" "tuples (put32 d off w) = tuples d" "free_space (put32 d off w) = free_space d"
proof -
  let ?d = "put32 d off w"
  note D = table_invD [OF inv] and H = header_put [OF table_invD(4) [OF inv] off]
  have len: "length ?d = length d" using D(4) off by simp
  have u: "used ?d i \<longleftrightarrow> used d i" for i using D(6) [of i] by (auto simp: used_def H)
  have f: "size_at ?d i = size_at d i" "off_at ?d i = off_at d i" if "used d i" for i
    using D(6) [of i] that by (auto simp: used_def H)
  then have r: "rsize ?d i = rsize d i" if "used d i" for i using that by (simp add: rsize_def)
  have sb: "sub ?d (unat (off_at d i)) (rsize d i) = sub d (unat (off_at d i)) (rsize d i)" if "used d i" for i
    using D(2) D(7) [OF that] by (intro H(5)) (auto simp: in_page_def)
  show "table_inv ?d"
    using inv unfolding table_inv_def by (simp add: u f r len H(1,2) in_page_def apart_def)
  show "tuples ?d = tuples d" by (rule ext) (auto simp: tuples_def u f r sb)
  show "free_space ?d = free_space d" by (simp add: free_space_def H)
qed

text \<open>\<open>Init\<close> makes an empty page.\<close>

lemma Init_view:
  assumes "24 \<le> length d" and "length d < 2 ^ 31"
  shows "\<exists>d'. TablePage_Init cfg d page_id (of_nat (length d)) prev = Some d' \<and> table_inv d' \<and> length d' = length d \<and>
    tuples d' = Map.empty \<and> free_space d' = length d - 24 \<and> word_at d' 0 = page_id \<and> word_at d' 8 = prev \<and>
    word_at d' 12 = INVALID_PAGE_ID cfg"
proof -
  define z where "z = (0 :: uint32)"
  define l where "l = (of_nat (length d) :: uint32)"
  have l: "unat l = length d" using assms(2) by (simp add: l_def unat_of_nat_small)
  let ?e = "put32 (put32 (put32 (put32 (put32 d 0 page_id) 8 prev) 12 (INVALID_PAGE_ID cfg)) 16 l) 20 z"
  have i: "TablePage_Init cfg d page_id l prev = Some ?e"
    using assms(1) by (simp add: TablePage_Init_def SetPrevPageId_def SetNextPageId_def SetFreeSpacePointer_def
        SetTupleCount_def write32_put z_def [symmetric])
  have c: "cnt ?e = z" "fsp ?e = l" using assms(1) by (simp_all add: put_cnt put_fsp)
  have "table_inv ?e" using assms l by (simp add: table_inv_def used_def c z_def [symmetric]) (simp add: z_def)
  moreover have "tuples ?e = Map.empty" by (rule ext) (simp add: tuples_def used_def c, simp add: z_def)
  moreover have "free_space ?e = length d - 24" using l unfolding free_space_def c by (simp add: z_def)
  moreover have "word_at ?e 0 = page_id" "word_at ?e 8 = prev" "word_at ?e 12 = INVALID_PAGE_ID cfg"
    "length ?e = length d"
    using assms(1) by (simp_all add: word_at_put_same word_at_put_other)
  ultimately show ?thesis using i unfolding l_def by blast
qed

subsection \<open>Iteration\<close>

definition live :: "bytes \<Rightarrow> nat \<Rightarrow> bool" where
  "live d i \<longleftrightarrow> i < unat (cnt d) \<and> \<not> IsDeleted (size_at d i)"

lemma live_iff: "live d i \<longleftrightarrow> (\<exists>bs. tuples d i = Some (False, bs))"
  by (auto simp: live_def tuples_def used_def IsDeleted_iff)

definition live_slots :: "bytes \<Rightarrow> nat \<Rightarrow> nat list" where
  "live_slots d i = filter (live d) [i..<unat (cnt d)]"

definition rid_at :: "bytes \<Rightarrow> nat \<Rightarrow> rid" where
  "rid_at d i = \<lparr>page_id_of = word_at d 0, slot_num_of = of_nat i\<rparr>"

text \<open>What \<open>GetFirstTupleRid\<close> and \<open>GetNextTupleRid\<close> make of the list of live slots.\<close>

definition first_of :: "config \<Rightarrow> bytes \<Rightarrow> nat list \<Rightarrow> bool \<times> rid" where
  "first_of cfg d is = (case is of [] \<Rightarrow> (False, \<lparr>page_id_of = INVALID_PAGE_ID cfg, slot_num_of = 0\<rparr>)
     | i # _ \<Rightarrow> (True, rid_at d i))"

lemma find_valid_live:
  assumes "table_inv d" and "i + k = unat (cnt d)"
  shows "find_valid d i k = Some (case live_slots d i of [] \<Rightarrow> None | j # _ \<Rightarrow> Some j)"
  using assms(2)
proof (induction k arbitrary: i)
  case 0
  then show ?case by (simp add: live_slots_def)
next
  case (Suc k)
  have "live_slots d i = (if live d i then i # live_slots d (Suc i) else live_slots d (Suc i))"
    using Suc.prems by (simp add: live_slots_def upt_conv_Cons)
  then show ?case
    using Suc.prems Suc.IH [of "Suc i"] by (simp add: table_get [OF assms(1)] live_def)
qed

lemma rid_defaults [simp]: "GetTablePageId d = (if 4 \<le> length d then Some (word_at d 0) else None)"
  by (simp add: GetTablePageId_def read32_def)

lemma GetFirstTupleRid_view:
  assumes "table_inv d"
  shows "GetFirstTupleRid cfg d = Some (first_of cfg d (live_slots d 0))"
  using find_valid_live [OF assms, of 0] table_invD(4) [OF assms]
  by (simp add: GetFirstTupleRid_def table_get [OF assms] first_of_def rid_at_def split: list.split)

lemma GetNextTupleRid_view:
  assumes "table_inv d" and "i < unat (cnt d)"
  shows "GetNextTupleRid cfg d (rid_at d i) = Some (first_of cfg d (live_slots d (Suc i)))"
proof -
  have b: "unat (cnt d) < 2 ^ 31" using table_invD(1-3) [OF assms(1)] by linarith
  then have n: "unat (of_nat i + 1 :: uint32) = Suc i"
  proof -
    have "(of_nat i + 1 :: uint32) = of_nat (Suc i)" by simp
    moreover have "Suc i < 2 ^ LENGTH(32)" using b assms(2) by simp
    ultimately show ?thesis by (simp only: unat_of_nat_small)
  qed
  show ?thesis
    using find_valid_live [OF assms(1), of "Suc i" "unat (cnt d) - Suc i"] table_invD(4) [OF assms(1)] assms(2)
    by (simp add: GetNextTupleRid_def table_get [OF assms(1)] first_of_def rid_at_def n Let_def split: list.split)
qed

subsection \<open>Histories of a page\<close>

text \<open>The pages a heap can make: initialised, then changed by the operations on slots in use.\<close>

inductive page_reachable :: "config \<Rightarrow> bytes \<Rightarrow> bool" for cfg :: config where
  reach_init: "TablePage_Init cfg d page_id (of_nat (length d)) prev = Some d' \<Longrightarrow> 24 \<le> length d \<Longrightarrow>
    length d < 2 ^ 31 \<Longrightarrow> page_reachable cfg d'"
| reach_insert: "page_reachable cfg d \<Longrightarrow> unat (size_of t) \<le> length (data_of t) \<Longrightarrow>
    TablePage_InsertTuple d t = Some (r, d') \<Longrightarrow> page_reachable cfg d'"
| reach_update: "page_reachable cfg d \<Longrightarrow> unat (size_of t) \<le> length (data_of t) \<Longrightarrow>
    TablePage_UpdateTuple d t rid = Some (r, d') \<Longrightarrow> page_reachable cfg d'"
| reach_mark: "page_reachable cfg d \<Longrightarrow> TablePage_MarkDelete d rid = Some (b, d') \<Longrightarrow> page_reachable cfg d'"
| reach_apply: "page_reachable cfg d \<Longrightarrow> tuples d (unat (slot_num_of rid)) \<noteq> None \<Longrightarrow>
    TablePage_ApplyDelete d rid = Some d' \<Longrightarrow> page_reachable cfg d'"
| reach_rollback: "page_reachable cfg d \<Longrightarrow> tuples d (unat (slot_num_of rid)) \<noteq> None \<Longrightarrow>
    TablePage_RollbackDelete d rid = Some d' \<Longrightarrow> page_reachable cfg d'"
| reach_next: "page_reachable cfg d \<Longrightarrow> SetNextPageId d p = Some d' \<Longrightarrow> page_reachable cfg d'"

lemma tuples_None_used: "tuples d i \<noteq> None \<longleftrightarrow> used d i"
  by (simp add: tuples_def)

lemma InsertTuple_inv:
  assumes "table_inv d" "unat (size_of t) \<le> length (data_of t)" "TablePage_InsertTuple d t = Some (r, d')"
  shows "table_inv d'"
proof (cases "0 < size_of t")
  case True
  with assms InsertTuple_view [OF assms(1) True assms(2)] show ?thesis by (auto split: if_splits)
next
  case False
  then show ?thesis using assms(3) by (simp add: TablePage_InsertTuple_def assert_that_def)
qed

lemma UpdateTuple_inv:
  assumes "table_inv d" "unat (size_of t) \<le> length (data_of t)" "TablePage_UpdateTuple d t rid = Some (r, d')"
  shows "table_inv d'"
proof (cases "0 < size_of t")
  case True
  show ?thesis
  proof (cases "\<exists>old. tuples d (unat (slot_num_of rid)) = Some (False, old) \<and>
      unat (size_of t) \<le> free_space d + length old")
    case True
    with \<open>0 < size_of t\<close> assms UpdateTuple_fits [OF assms(1) _ \<open>0 < size_of t\<close> assms(2)] show ?thesis by fastforce
  next
    case False
    then have "case tuples d (unat (slot_num_of rid)) of
      Some (False, old) \<Rightarrow> free_space d + length old < unat (size_of t) | _ \<Rightarrow> True"
      by (auto split: option.splits bool.splits)
    from UpdateTuple_refused [OF assms(1) True this] show ?thesis using assms by simp
  qed
next
  case False
  then show ?thesis using assms(3) by (simp add: TablePage_UpdateTuple_def assert_that_def)
qed

lemma MarkDelete_inv:
  assumes "table_inv d" "TablePage_MarkDelete d rid = Some (b, d')"
  shows "table_inv d'"
  using MarkDelete_view [OF assms(1), of rid] assms by (auto split: option.splits bool.splits)

lemma SetNextPageId_view:
  assumes "table_inv d"
  shows "\<exists>d'. SetNextPageId d p = Some d' \<and> table_inv d' \<and> tuples d' = tuples d \<and> length d' = length d \<and>
    free_space d' = free_space d \<and> word_at d' 0 = word_at d 0 \<and> word_at d' 12 = p"
proof -
  have l: "24 \<le> length d" by (rule table_invD(4) [OF assms])
  then have "SetNextPageId d p = Some (put32 d 12 p)" by (simp add: SetNextPageId_def write32_put)
  moreover have "word_at (put32 d 12 p) 0 = word_at d 0" "word_at (put32 d 12 p) 12 = p"
    using l by (simp_all add: word_at_put_same word_at_put_other)
  ultimately show ?thesis using header_put_view [OF assms, of 12 p] l by simp
qed

lemma page_reachable_inv:
  assumes "page_reachable cfg d"
  shows "table_inv d"
  using assms
proof (induction rule: page_reachable.induct)
  case (reach_init d page_id prev d')
  then show ?case using Init_view [of d cfg page_id prev] by simp
next
  case (reach_apply d rid d')
  then show ?case using ApplyDelete_view [of d rid] tuples_None_used by force
next
  case (reach_rollback d rid d')
  then show ?case using RollbackDelete_view [of d rid] by fastforce
next
  case (reach_next d p d')
  then show ?case using SetNextPageId_view [of d p] by auto
qed (auto intro: InsertTuple_inv UpdateTuple_inv MarkDelete_inv)

subsection \<open>Properties\<close>

text \<open>C26. A non-empty tuple that fits with its slot is inserted in a slot that holds no tuple, neither a live one nor one that
  is marked as deleted, and \<^verbatim>\<open>GetTuple\<close> of the identifier returned gives it back; the other slots keep their tuples and their marks,
  and \<^verbatim>\<open>GetTuple\<close> returns for them what it returned before. A tuple that does not fit is refused and the page is unchanged.\<close>

theorem TablePage_insert_get:
  assumes "page_reachable cfg d" and "0 < size_of t" and "unat (size_of t) = length (data_of t)"
  shows "if unat (size_of t) + 8 \<le> free_space d
    then \<exists>rid d'. TablePage_InsertTuple d t = Some (Some rid, d') \<and> page_reachable cfg d' \<and>
      tuples d (unat (slot_num_of rid)) = None \<and>
      tuples d' = (tuples d)(unat (slot_num_of rid) \<mapsto> (False, data_of t)) \<and>
      TablePage_GetTuple d' rid = Some (Some (t\<lparr>rid_of := rid\<rparr>)) \<and>
      (\<forall>r. slot_num_of r \<noteq> slot_num_of rid \<longrightarrow> TablePage_GetTuple d' r = TablePage_GetTuple d r)
    else TablePage_InsertTuple d t = Some (None, d)"
proof -
  have inv: "table_inv d" by (rule page_reachable_inv [OF assms(1)])
  have le: "unat (size_of t) \<le> length (data_of t)" using assms(3) by simp
  show ?thesis
  proof (cases "unat (size_of t) + 8 \<le> free_space d")
    case True
    then obtain k d' where i: "TablePage_InsertTuple d t = Some (Some \<lparr>page_id_of = word_at d 0, slot_num_of = of_nat k\<rparr>, d')"
      "k \<le> unat (cnt d)" "tuples d k = None" "table_inv d'" "tuples d' = (tuples d)(k \<mapsto> (False, data_of t))"
      using InsertTuple_view [OF inv assms(2) le] assms(3) by auto
    have k: "unat (of_nat k :: uint32) = k"
      using i(2) table_invD(1-3) [OF inv] by (intro unat_of_nat_small) simp
    define rid where "rid = \<lparr>page_id_of = word_at d 0, slot_num_of = of_nat k\<rparr>"
    have "of_nat (length (data_of t)) = size_of t" by (simp flip: assms(3))
    then have "TablePage_GetTuple d' rid = Some (Some (t\<lparr>rid_of := rid\<rparr>))" "tuples d (unat (slot_num_of rid)) = None"
      "tuples d' = (tuples d)(unat (slot_num_of rid) \<mapsto> (False, data_of t))"
      using GetTuple_view [OF i(4)] i(3,5) k by (simp_all add: rid_def)
    moreover have "TablePage_GetTuple d' r = TablePage_GetTuple d r" if "slot_num_of r \<noteq> slot_num_of rid" for r
    proof -
      have "unat (slot_num_of r) \<noteq> k" using that k by (auto simp: rid_def)
      then show ?thesis using GetTuple_view [OF i(4)] GetTuple_view [OF inv] i(5) by simp
    qed
    ultimately show ?thesis using True i(1) reach_insert [OF assms(1) le i(1)] unfolding rid_def by auto
  next
    case False
    then show ?thesis using InsertTuple_view [OF inv assms(2) le] by simp
  qed
qed

text \<open>A page of 64 bytes.\<close>

definition page_cfg :: config where
  "page_cfg = \<lparr>PAGE_SIZE = 64, INVALID_PAGE_ID = - 1, INVALID_LSN = - 1\<rparr>"

definition small_tuple :: tuple where
  "small_tuple = \<lparr>size_of = 3, data_of = [7, 8, 9], rid_of = \<lparr>page_id_of = 0, slot_num_of = 0\<rparr>\<rparr>"

lemma small_page:
  obtains d where "TablePage_Init cfg (replicate 64 0) 5 64 p = Some d" "page_reachable cfg d" "free_space d = 40"
    "tuples d = Map.empty" "word_at d 0 = 5"
  using Init_view [of "replicate 64 0" cfg 5 p] reach_init [of cfg "replicate 64 0" 5 p] by fastforce

theorem TablePage_insert_get_witness:
  "\<exists>d rid d'. TablePage_Init page_cfg (replicate 64 0) 5 64 (- 1) = Some d \<and>
    TablePage_InsertTuple d small_tuple = Some (Some rid, d') \<and>
    TablePage_GetTuple d' rid = Some (Some (small_tuple\<lparr>rid_of := rid\<rparr>)) \<and> page_reachable page_cfg d'"
proof -
  obtain d where d: "TablePage_Init page_cfg (replicate 64 0) 5 64 (- 1) = Some d" "page_reachable page_cfg d"
    "free_space d = 40" by (rule small_page)
  have t: "0 < size_of small_tuple" "unat (size_of small_tuple) = length (data_of small_tuple)"
    by (simp_all add: small_tuple_def)
  have f: "unat (size_of small_tuple) + 8 \<le> free_space d" by (simp add: small_tuple_def d(3))
  from TablePage_insert_get [OF d(2) t] f d(1) show ?thesis by auto
qed

text \<open>C18. On a slot that holds a tuple each change of the page is the change of the abstract map from slots to
  tuples: marking sets the deletion flag of a live tuple, rolling back clears it, applying the deletion
  empties the slot, and an update that fits replaces the bytes and returns the old ones, although the
  last two move the other tuples of the page. An update that does not fit and one of a
  tuple marked as deleted change nothing.\<close>

theorem table_page_refines_slots:
  assumes "page_reachable cfg d" and "0 < size_of t" and "unat (size_of t) \<le> length (data_of t)"
    and "tuples d (unat (slot_num_of rid)) = Some (del, bs)"
  shows "(\<exists>d'. TablePage_MarkDelete d rid = Some (\<not> del, d') \<and>
      tuples d' = (tuples d)(unat (slot_num_of rid) \<mapsto> (True, bs))) \<and>
    (\<exists>d'. TablePage_RollbackDelete d rid = Some d' \<and>
      tuples d' = (tuples d)(unat (slot_num_of rid) \<mapsto> (False, bs))) \<and>
    (\<exists>d'. TablePage_ApplyDelete d rid = Some d' \<and> tuples d' = (tuples d)(unat (slot_num_of rid) := None)) \<and>
    (if \<not> del \<and> unat (size_of t) \<le> free_space d + length bs
     then \<exists>d'. TablePage_UpdateTuple d t rid =
         Some (Some \<lparr>size_of = of_nat (length bs), data_of = bs, rid_of = rid\<rparr>, d') \<and>
       tuples d' = (tuples d)(unat (slot_num_of rid) \<mapsto> (False, take (unat (size_of t)) (data_of t)))
     else TablePage_UpdateTuple d t rid = Some (None, d))"
proof (intro conjI)
  let ?k = "unat (slot_num_of rid)"
  have inv: "table_inv d" by (rule page_reachable_inv [OF assms(1)])
  show "\<exists>d'. TablePage_MarkDelete d rid = Some (\<not> del, d') \<and> tuples d' = (tuples d)(?k \<mapsto> (True, bs))"
  proof (cases del)
    case True
    then have "(tuples d)(?k \<mapsto> (True, bs)) = tuples d" using assms(4) by (simp add: fun_upd_idem)
    then show ?thesis using True MarkDelete_view [OF inv, of rid] assms(4) by simp
  next
    case False
    then show ?thesis using MarkDelete_view [OF inv, of rid] assms(4) by auto
  qed
  show "\<exists>d'. TablePage_RollbackDelete d rid = Some d' \<and> tuples d' = (tuples d)(?k \<mapsto> (False, bs))"
    using RollbackDelete_view [OF inv assms(4)] by blast
  have "used d ?k" using assms(4) by (simp add: tuples_None_used [symmetric])
  then show "\<exists>d'. TablePage_ApplyDelete d rid = Some d' \<and> tuples d' = (tuples d)(?k := None)"
    using ApplyDelete_view [OF inv, of rid] by blast
  show "if \<not> del \<and> unat (size_of t) \<le> free_space d + length bs
     then \<exists>d'. TablePage_UpdateTuple d t rid =
         Some (Some \<lparr>size_of = of_nat (length bs), data_of = bs, rid_of = rid\<rparr>, d') \<and>
       tuples d' = (tuples d)(?k \<mapsto> (False, take (unat (size_of t)) (data_of t)))
     else TablePage_UpdateTuple d t rid = Some (None, d)"
  proof (cases "\<not> del \<and> unat (size_of t) \<le> free_space d + length bs")
    case True
    then show ?thesis using UpdateTuple_fits [OF inv _ assms(2,3)] assms(4) by fastforce
  next
    case False
    then have "TablePage_UpdateTuple d t rid = Some (None, d)"
      using UpdateTuple_refused [OF inv assms(2), of rid] assms(4) by (cases del) auto
    with False show ?thesis by (simp only: if_False)
  qed
qed

theorem table_page_refines_slots_witness:
  "\<exists>d rid d' e. TablePage_InsertTuple d small_tuple = Some (Some rid, d') \<and>
    tuples d' = Map.empty(unat (slot_num_of rid) \<mapsto> (False, [7, 8, 9])) \<and>
    TablePage_ApplyDelete d' rid = Some e \<and> tuples e = Map.empty"
proof -
  obtain d where d: "page_reachable page_cfg d" "free_space d = 40" "tuples d = Map.empty"
    by (rule small_page [of page_cfg "- 1"])
  have t: "0 < size_of small_tuple" "unat (size_of small_tuple) \<le> length (data_of small_tuple)"
    by (simp_all add: small_tuple_def)
  have f: "unat (size_of small_tuple) + 8 \<le> free_space d" by (simp add: small_tuple_def d)
  have inv: "table_inv d" by (rule page_reachable_inv [OF d(1)])
  obtain k d' where i: "TablePage_InsertTuple d small_tuple = Some (Some \<lparr>page_id_of = word_at d 0, slot_num_of = of_nat k\<rparr>, d')"
    "k \<le> unat (cnt d)" "tuples d' = Map.empty(k \<mapsto> (False, [7, 8, 9]))"
    using InsertTuple_view [OF inv t] f d(3) by (auto simp: small_tuple_def)
  have k: "unat (of_nat k :: uint32) = k"
    using i(2) table_invD(1-3) [OF inv] by (intro unat_of_nat_small) simp
  let ?rid = "\<lparr>page_id_of = word_at d 0, slot_num_of = of_nat k\<rparr>"
  have "tuples d' (unat (slot_num_of ?rid)) = Some (False, [7, 8, 9])" using i(3) k by simp
  from table_page_refines_slots [OF reach_insert [OF d(1) t(2) i(1)] t this] obtain e where
    "TablePage_ApplyDelete d' ?rid = Some e" "tuples e = Map.empty" using i(3) k by auto
  with i(1,3) k show ?thesis by (metis rid.select_convs(2))
qed

end
