(* ===== verification/Transactions.thy ===== *)
theory Transactions
  imports TablePage
begin

section \<open>Transactions\<close>

text \<open>
  \<^verbatim>\<open>src/include/concurrency/transaction.h\<close>: the state of a transaction, what it has written and locked, and the
  exception that says why it was aborted. \<^verbatim>\<open>txn_id_t\<close> is a signed integer of \<^verbatim>\<open>common/config.h\<close>, which is not
  part of the repository: numbers are mathematical integers here. Pointers to tables, catalogs and frames are
  numbers. The thread of a transaction has no part in any result and is left out.
\<close>

type_synonym txn_id_t = int
type_synonym table_oid_t = uint32
type_synonym index_oid_t = uint32

datatype TransactionState = GROWING | SHRINKING | COMMITTED | ABORTED

datatype IsolationLevel = READ_UNCOMMITTED | REPEATABLE_READ | READ_COMMITTED

datatype WType = INSERT | DELETE | UPDATE

record TableWriteRecord =
  wr_rid :: rid
  wr_type :: WType
  wr_tuple :: tuple
  wr_table :: nat

record IndexWriteRecord =
  iw_rid :: rid
  iw_table_oid :: table_oid_t
  iw_type :: WType
  iw_tuple :: tuple
  iw_old_tuple :: tuple
  iw_index_oid :: index_oid_t
  iw_catalog :: nat

datatype AbortReason = LOCK_ON_SHRINKING | UNLOCK_ON_SHRINKING | UPGRADE_CONFLICT | DEADLOCK
  | LOCKSHARED_ON_READ_UNCOMMITTED

record TransactionAbortException =
  exn_txn_id :: txn_id_t
  abort_reason :: AbortReason

definition GetInfo :: "TransactionAbortException \<Rightarrow> string" where
  "GetInfo e = ''Transaction '' @ int_to_string (exn_txn_id e) @ (case abort_reason e of
      LOCK_ON_SHRINKING \<Rightarrow> '' aborted because it can not take locks in the shrinking state'' @ [CHR 0x0A]
    | UNLOCK_ON_SHRINKING \<Rightarrow> '' aborted because it can not excute unlock in the shrinking state'' @ [CHR 0x0A]
    | UPGRADE_CONFLICT \<Rightarrow> '' aborted because another transaction is already waiting to upgrade its lock'' @ [CHR 0x0A]
    | DEADLOCK \<Rightarrow> '' aborted on deadlock'' @ [CHR 0x0A]
    | LOCKSHARED_ON_READ_UNCOMMITTED \<Rightarrow> '' aborted on lockshared on READ_UNCOMMITTED'' @ [CHR 0x0A])"

record transaction =
  txn_state :: TransactionState
  isolation_level :: IsolationLevel
  txn_id :: txn_id_t
  table_write_set :: "TableWriteRecord list"
  index_write_set :: "IndexWriteRecord list"
  prev_lsn :: lsn_t
  page_set :: "frame_id_t list"
  deleted_page_set :: "page_id_t set"
  shared_lock_set :: "rid set"
  exclusive_lock_set :: "rid set"

definition Transaction :: "config \<Rightarrow> txn_id_t \<Rightarrow> IsolationLevel \<Rightarrow> transaction" where
  "Transaction cfg n isolation = \<lparr>txn_state = GROWING, isolation_level = isolation, txn_id = n, table_write_set = [],
     index_write_set = [], prev_lsn = INVALID_LSN cfg, page_set = [], deleted_page_set = {}, shared_lock_set = {},
     exclusive_lock_set = {}\<rparr>"

definition SetState :: "TransactionState \<Rightarrow> transaction \<Rightarrow> transaction" where
  "SetState st t = t\<lparr>txn_state := st\<rparr>"

definition SetPrevLSN :: "lsn_t \<Rightarrow> transaction \<Rightarrow> transaction" where
  "SetPrevLSN l t = t\<lparr>prev_lsn := l\<rparr>"

definition AppendTableWriteRecord :: "TableWriteRecord \<Rightarrow> transaction \<Rightarrow> transaction" where
  "AppendTableWriteRecord r t = t\<lparr>table_write_set := table_write_set t @ [r]\<rparr>"

definition AppendIndexWriteRecord :: "IndexWriteRecord \<Rightarrow> transaction \<Rightarrow> transaction" where
  "AppendIndexWriteRecord r t = t\<lparr>index_write_set := index_write_set t @ [r]\<rparr>"

definition AddIntoPageSet :: "frame_id_t \<Rightarrow> transaction \<Rightarrow> transaction" where
  "AddIntoPageSet f t = t\<lparr>page_set := page_set t @ [f]\<rparr>"

definition AddIntoDeletedPageSet :: "page_id_t \<Rightarrow> transaction \<Rightarrow> transaction" where
  "AddIntoDeletedPageSet p t = t\<lparr>deleted_page_set := insert p (deleted_page_set t)\<rparr>"

definition IsSharedLocked :: "transaction \<Rightarrow> rid \<Rightarrow> bool" where
  "IsSharedLocked t r \<longleftrightarrow> r \<in> shared_lock_set t"

definition IsExclusiveLocked :: "transaction \<Rightarrow> rid \<Rightarrow> bool" where
  "IsExclusiveLocked t r \<longleftrightarrow> r \<in> exclusive_lock_set t"

lemma SetState_simps [simp]:
  "txn_state (SetState st t) = st" "isolation_level (SetState st t) = isolation_level t"
  "txn_id (SetState st t) = txn_id t" "shared_lock_set (SetState st t) = shared_lock_set t"
  "exclusive_lock_set (SetState st t) = exclusive_lock_set t" "table_write_set (SetState st t) = table_write_set t"
  "index_write_set (SetState st t) = index_write_set t"
  by (simp_all add: SetState_def)

end
