(* ===== verification/TableHeap.thy ===== *)
theory TableHeap
  imports HashTable TablePageSpec Transactions
begin

section \<open>Table heaps\<close>

text \<open>
  \<^verbatim>\<open>src/storage/table/table_heap.cpp\<close> and \<^verbatim>\<open>table_iterator.cpp\<close>: a table is a list of table pages in a buffer
  pool, linked by their page numbers. A call gets the state of the pool and the transaction and returns both
  changed; \<^term>\<open>None\<close> is a null dereference or a failed assertion. The page latches order concurrent calls and are
  not part of the state. A loop over the pages of a table takes fuel, as the links could form a cycle.
\<close>

subsection \<open>Record identifiers\<close>

definition RID_Get :: "rid \<Rightarrow> 64 word" where
  "RID_Get r = push_bit 32 (scast (page_id_of r)) OR ucast (slot_num_of r)"

definition RID_of :: "64 word \<Rightarrow> rid" where
  "RID_of x = \<lparr>page_id_of = ucast (drop_bit 32 x), slot_num_of = ucast x\<rparr>"

definition RID_ToString :: "rid \<Rightarrow> string" where
  "RID_ToString r = ''page_id: '' @ int_to_string (sint (page_id_of r)) @ '' slot_num: '' @
     int_to_string (uint (slot_num_of r)) @ [CHR 0x0A]"

subsection \<open>State\<close>

text \<open>\<open>this_heap\<close> is the address of the heap, which write records refer to.\<close>

record table_heap =
  first_page_id :: page_id_t
  this_heap :: nat

type_synonym ('s, 'a) heap_result = "('a \<times> transaction \<times> 's) option"

definition write_page :: "('s, 'p) pool_ops \<Rightarrow> 's \<Rightarrow> 'p \<Rightarrow> bytes \<Rightarrow> bool \<Rightarrow> 's option" where
  "write_page bp s f d dirty = do {
     let s = SetData bp s f d;
     page_id \<leftarrow> GetTablePageId (GetData bp s f);
     (_, s) \<leftarrow> UnpinPage bp s page_id dirty;
     Some s
   }"

subsection \<open>Construction\<close>

definition TableHeap_create :: "('s, 'p) pool_ops \<Rightarrow> config \<Rightarrow> nat \<Rightarrow> 's \<Rightarrow> (table_heap \<times> 's) option" where
  "TableHeap_create bp cfg this s = do {
     (first_page, s) \<leftarrow> NewPage bp s;
     (page_id, f) \<leftarrow> first_page;
     d \<leftarrow> TablePage_Init cfg (GetData bp s f) page_id (of_nat (PAGE_SIZE cfg)) (INVALID_LSN cfg);
     let s = SetData bp s f d;
     (_, s) \<leftarrow> UnpinPage bp s page_id True;
     Some (\<lparr>first_page_id = page_id, this_heap = this\<rparr>, s)
   }"

subsection \<open>Insertion\<close>

text \<open>The loop of \<open>InsertTuple\<close> with the page in frame \<open>f\<close> in hand. The result is the identifier and the
  frame of the page the loop ends with, or \<^term>\<open>None\<close> when no page could be had.\<close>

fun insert_loop :: "nat \<Rightarrow> ('s, 'p) pool_ops \<Rightarrow> config \<Rightarrow> tuple \<Rightarrow> 's \<Rightarrow> 'p \<Rightarrow> ((rid \<times> 'p) option \<times> 's) option" where
  "insert_loop 0 bp cfg tuple s f = None"
| "insert_loop (Suc fuel) bp cfg tuple s f = do {
     (r, d) \<leftarrow> TablePage_InsertTuple (GetData bp s f) tuple;
     let s = SetData bp s f d;
     case r of
       Some rid \<Rightarrow> Some (Some (rid, f), s)
     | None \<Rightarrow> do {
         next_page_id \<leftarrow> GetNextPageId (GetData bp s f);
         if next_page_id \<noteq> INVALID_PAGE_ID cfg
         then do {
           page_id \<leftarrow> GetTablePageId (GetData bp s f);
           (_, s) \<leftarrow> UnpinPage bp s page_id False;
           (g, s) \<leftarrow> FetchPage bp s next_page_id;
           g \<leftarrow> g;
           insert_loop fuel bp cfg tuple s g
         }
         else do {
           (new_page, s) \<leftarrow> NewPage bp s;
           case new_page of
             None \<Rightarrow> do {
               page_id \<leftarrow> GetTablePageId (GetData bp s f);
               (_, s) \<leftarrow> UnpinPage bp s page_id False;
               Some (None, s)
             }
           | Some (next_page_id, g) \<Rightarrow> do {
               d \<leftarrow> SetNextPageId (GetData bp s f) next_page_id;
               let s = SetData bp s f d;
               page_id \<leftarrow> GetTablePageId (GetData bp s f);
               e \<leftarrow> TablePage_Init cfg (GetData bp s g) next_page_id (of_nat (PAGE_SIZE cfg)) page_id;
               let s = SetData bp s g e;
               page_id \<leftarrow> GetTablePageId (GetData bp s f);
               (_, s) \<leftarrow> UnpinPage bp s page_id True;
               insert_loop fuel bp cfg tuple s g
             }
         }
       }
   }"

definition TableHeap_InsertTuple ::
    "nat \<Rightarrow> ('s, 'p) pool_ops \<Rightarrow> config \<Rightarrow> table_heap \<Rightarrow> 's \<Rightarrow> transaction \<Rightarrow> tuple \<Rightarrow> ('s, rid option) heap_result" where
  "TableHeap_InsertTuple fuel bp cfg th s txn tuple =
     (if size_of tuple + 32 > of_nat (PAGE_SIZE cfg) then Some (None, SetState ABORTED txn, s)
      else do {
        (f, s) \<leftarrow> FetchPage bp s (first_page_id th);
        case f of
          None \<Rightarrow> Some (None, SetState ABORTED txn, s)
        | Some f \<Rightarrow> do {
            (r, s) \<leftarrow> insert_loop fuel bp cfg tuple s f;
            case r of
              None \<Rightarrow> Some (None, SetState ABORTED txn, s)
            | Some (rid, f) \<Rightarrow> do {
                page_id \<leftarrow> GetTablePageId (GetData bp s f);
                (_, s) \<leftarrow> UnpinPage bp s page_id True;
                Some (Some rid, AppendTableWriteRecord
                  \<lparr>wr_rid = rid, wr_type = INSERT, wr_tuple = Tuple_default cfg, wr_table = this_heap th\<rparr> txn, s)
              }
          }
      })"

subsection \<open>Changes of one tuple\<close>

definition TableHeap_MarkDelete ::
    "('s, 'p) pool_ops \<Rightarrow> config \<Rightarrow> table_heap \<Rightarrow> 's \<Rightarrow> transaction \<Rightarrow> rid \<Rightarrow> ('s, bool) heap_result" where
  "TableHeap_MarkDelete bp cfg th s txn rid = do {
     (f, s) \<leftarrow> FetchPage bp s (page_id_of rid);
     case f of
       None \<Rightarrow> Some (False, SetState ABORTED txn, s)
     | Some f \<Rightarrow> do {
         (_, d) \<leftarrow> TablePage_MarkDelete (GetData bp s f) rid;
         s \<leftarrow> write_page bp s f d True;
         Some (True, AppendTableWriteRecord
           \<lparr>wr_rid = rid, wr_type = DELETE, wr_tuple = Tuple_default cfg, wr_table = this_heap th\<rparr> txn, s)
       }
   }"

definition TableHeap_UpdateTuple ::
    "('s, 'p) pool_ops \<Rightarrow> table_heap \<Rightarrow> 's \<Rightarrow> transaction \<Rightarrow> tuple \<Rightarrow> rid \<Rightarrow> ('s, bool) heap_result" where
  "TableHeap_UpdateTuple bp th s txn tuple rid = do {
     (f, s) \<leftarrow> FetchPage bp s (page_id_of rid);
     case f of
       None \<Rightarrow> Some (False, SetState ABORTED txn, s)
     | Some f \<Rightarrow> do {
         (old_tuple, d) \<leftarrow> TablePage_UpdateTuple (GetData bp s f) tuple rid;
         s \<leftarrow> write_page bp s f d (old_tuple \<noteq> None);
         Some (case old_tuple of
           None \<Rightarrow> (False, txn, s)
         | Some old \<Rightarrow> (True, if txn_state txn \<noteq> ABORTED then AppendTableWriteRecord
             \<lparr>wr_rid = rid, wr_type = UPDATE, wr_tuple = old, wr_table = this_heap th\<rparr> txn else txn, s))
       }
   }"

definition TableHeap_ApplyDelete :: "('s, 'p) pool_ops \<Rightarrow> 's \<Rightarrow> rid \<Rightarrow> 's option" where
  "TableHeap_ApplyDelete bp s rid = do {
     (f, s) \<leftarrow> FetchPage bp s (page_id_of rid);
     f \<leftarrow> f;
     d \<leftarrow> TablePage_ApplyDelete (GetData bp s f) rid;
     write_page bp s f d True
   }"

definition TableHeap_RollbackDelete :: "('s, 'p) pool_ops \<Rightarrow> 's \<Rightarrow> rid \<Rightarrow> 's option" where
  "TableHeap_RollbackDelete bp s rid = do {
     (f, s) \<leftarrow> FetchPage bp s (page_id_of rid);
     f \<leftarrow> f;
     d \<leftarrow> TablePage_RollbackDelete (GetData bp s f) rid;
     write_page bp s f d True
   }"

definition TableHeap_GetTuple ::
    "('s, 'p) pool_ops \<Rightarrow> 's \<Rightarrow> transaction \<Rightarrow> rid \<Rightarrow> ('s, tuple option) heap_result" where
  "TableHeap_GetTuple bp s txn rid = do {
     (f, s) \<leftarrow> FetchPage bp s (page_id_of rid);
     case f of
       None \<Rightarrow> Some (None, SetState ABORTED txn, s)
     | Some f \<Rightarrow> do {
         res \<leftarrow> TablePage_GetTuple (GetData bp s f) rid;
         (_, s) \<leftarrow> UnpinPage bp s (page_id_of rid) False;
         Some (res, txn, s)
       }
   }"

subsection \<open>Iterators\<close>

text \<open>An iterator is its tuple, whose identifier is the position. The constructor reads the tuple unless it
  stands at the end; a tuple that cannot be read is left as it is.\<close>

definition TableIterator ::
    "('s, 'p) pool_ops \<Rightarrow> config \<Rightarrow> 's \<Rightarrow> transaction \<Rightarrow> rid \<Rightarrow> ('s, tuple) heap_result" where
  "TableIterator bp cfg s txn rid =
     (let tuple = (Tuple_default cfg)\<lparr>rid_of := rid\<rparr> in
      if page_id_of rid \<noteq> INVALID_PAGE_ID cfg
      then do {
        (res, txn, s) \<leftarrow> TableHeap_GetTuple bp s txn rid;
        Some (case res of None \<Rightarrow> tuple | Some t \<Rightarrow> t, txn, s)
      }
      else Some (tuple, txn, s))"

text \<open>The next page number is read from the frame after the page was given back.\<close>

fun begin_loop :: "nat \<Rightarrow> ('s, 'p) pool_ops \<Rightarrow> config \<Rightarrow> 's \<Rightarrow> page_id_t \<Rightarrow> rid \<Rightarrow> (rid \<times> 's) option" where
  "begin_loop 0 bp cfg s page_id rid = None"
| "begin_loop (Suc fuel) bp cfg s page_id rid =
     (if page_id = INVALID_PAGE_ID cfg then Some (rid, s)
      else do {
        (f, s) \<leftarrow> FetchPage bp s page_id;
        f \<leftarrow> f;
        (found_tuple, rid) \<leftarrow> GetFirstTupleRid cfg (GetData bp s f);
        (_, s) \<leftarrow> UnpinPage bp s page_id False;
        if found_tuple then Some (rid, s)
        else do {
          next_page_id \<leftarrow> GetNextPageId (GetData bp s f);
          begin_loop fuel bp cfg s next_page_id rid
        }
      })"

definition TableHeap_Begin ::
    "nat \<Rightarrow> ('s, 'p) pool_ops \<Rightarrow> config \<Rightarrow> table_heap \<Rightarrow> 's \<Rightarrow> transaction \<Rightarrow> ('s, tuple) heap_result" where
  "TableHeap_Begin fuel bp cfg th s txn = do {
     (rid, s) \<leftarrow> begin_loop fuel bp cfg s (first_page_id th) (RID_default cfg);
     TableIterator bp cfg s txn rid
   }"

definition TableHeap_End :: "config \<Rightarrow> tuple" where
  "TableHeap_End cfg = (Tuple_default cfg)\<lparr>rid_of := \<lparr>page_id_of = INVALID_PAGE_ID cfg, slot_num_of = 0\<rparr>\<rparr>"

definition iter_eq :: "tuple \<Rightarrow> tuple \<Rightarrow> bool" where
  "iter_eq a b \<longleftrightarrow> RID_Get (rid_of a) = RID_Get (rid_of b)"

text \<open>The loop of \<open>operator++\<close> behind the last tuple of the page in frame \<open>f\<close>.\<close>

fun next_loop :: "nat \<Rightarrow> ('s, 'p) pool_ops \<Rightarrow> config \<Rightarrow> 's \<Rightarrow> 'p \<Rightarrow> rid \<Rightarrow> (rid \<times> 'p \<times> 's) option" where
  "next_loop 0 bp cfg s f next_rid = None"
| "next_loop (Suc fuel) bp cfg s f next_rid = do {
     next_page_id \<leftarrow> GetNextPageId (GetData bp s f);
     if next_page_id = INVALID_PAGE_ID cfg then Some (next_rid, f, s)
     else do {
       (g, s) \<leftarrow> FetchPage bp s next_page_id;
       page_id \<leftarrow> GetTablePageId (GetData bp s f);
       (_, s) \<leftarrow> UnpinPage bp s page_id False;
       g \<leftarrow> g;
       (found, next_rid) \<leftarrow> GetFirstTupleRid cfg (GetData bp s g);
       if found then Some (next_rid, g, s) else next_loop fuel bp cfg s g next_rid
     }
   }"

definition TableIterator_next ::
    "nat \<Rightarrow> ('s, 'p) pool_ops \<Rightarrow> config \<Rightarrow> 's \<Rightarrow> transaction \<Rightarrow> tuple \<Rightarrow> ('s, tuple) heap_result" where
  "TableIterator_next fuel bp cfg s txn tuple = do {
     (f, s) \<leftarrow> FetchPage bp s (page_id_of (rid_of tuple));
     f \<leftarrow> f;
     (found, next_rid) \<leftarrow> GetNextTupleRid cfg (GetData bp s f) (rid_of tuple);
     (next_rid, f, s) \<leftarrow> (if found then Some (next_rid, f, s) else next_loop fuel bp cfg s f next_rid);
     let tuple = tuple\<lparr>rid_of := next_rid\<rparr>;
     (tuple, txn, s) \<leftarrow> (if \<not> iter_eq tuple (TableHeap_End cfg)
       then do {
         (res, txn, s) \<leftarrow> TableHeap_GetTuple bp s txn next_rid;
         Some (case res of None \<Rightarrow> tuple | Some t \<Rightarrow> t, txn, s)
       }
       else Some (tuple, txn, s));
     page_id \<leftarrow> GetTablePageId (GetData bp s f);
     (_, s) \<leftarrow> UnpinPage bp s page_id False;
     Some (tuple, txn, s)
   }"

definition TableIterator_deref :: "config \<Rightarrow> tuple \<Rightarrow> tuple option" where
  "TableIterator_deref cfg t = do { assert_that (\<not> iter_eq t (TableHeap_End cfg)); Some t }"

end
