(* ===== verification/Indexes.thy ===== *)
theory Indexes
  imports Tuples ValueFactory TableHeap
begin

section \<open>Indexes\<close>

text \<open>
  \<^verbatim>\<open>storage/index/index.h\<close>, \<^verbatim>\<open>generic_key.h\<close> and \<^verbatim>\<open>extendible_hash_table_index.cpp\<close>: the metadata of an index,
  keys of a fixed number of bytes with their comparison, and the index that keeps its entries in an extendible
  hash table. The virtual operations of \<open>Index\<close> are the fields of a record; \<open>'w\<close> is the state they change.
\<close>

subsection \<open>Metadata\<close>

record IndexMetadata =
  meta_name :: string
  meta_table :: string
  meta_key_attrs :: "nat list"
  meta_key_schema :: Schema

definition IndexMetadata_new :: "string \<Rightarrow> string \<Rightarrow> Schema \<Rightarrow> nat list \<Rightarrow> IndexMetadata result" where
  "IndexMetadata_new name table_name tuple_schema attrs =
     andThen (CopySchema tuple_schema attrs) (\<lambda>schema.
     Inr \<lparr>meta_name = name, meta_table = table_name, meta_key_attrs = attrs, meta_key_schema = schema\<rparr>)"

definition GetIndexColumnCount :: "IndexMetadata \<Rightarrow> uint32" where
  "GetIndexColumnCount m = of_nat (length (meta_key_attrs m))"

definition IndexMetadata_ToString :: "IndexMetadata \<Rightarrow> string" where
  "IndexMetadata_ToString m = ''IndexMetadata['' @ ''Name = '' @ meta_name m @ '', '' @ ''Type = B+Tree, '' @
     ''Table name = '' @ meta_table m @ ''] :: '' @ Schema_ToString (meta_key_schema m)"

record 'w index =
  metadata :: IndexMetadata
  InsertEntry :: "tuple \<Rightarrow> rid \<Rightarrow> 'w \<Rightarrow> 'w result"
  DeleteEntry :: "tuple \<Rightarrow> rid \<Rightarrow> 'w \<Rightarrow> 'w result"
  ScanKey :: "tuple \<Rightarrow> rid list \<Rightarrow> 'w \<Rightarrow> (rid list \<times> 'w) result"

definition GetKeyAttrs :: "'w index \<Rightarrow> nat list" where
  "GetKeyAttrs i = meta_key_attrs (metadata i)"

definition GetKeySchema :: "'w index \<Rightarrow> Schema" where
  "GetKeySchema i = meta_key_schema (metadata i)"

definition Index_ToString :: "'w index \<Rightarrow> string" where
  "Index_ToString i = ''INDEX: ('' @ meta_name (metadata i) @ '')'' @ IndexMetadata_ToString (metadata i)"

subsection \<open>Keys\<close>

text \<open>A key is the array \<open>data_\<close> of \<open>KeySize\<close> bytes. \<open>SetFromKey\<close> copies all bytes of the tuple; a tuple that
  is longer than the array is written past its end.\<close>

definition SetFromKey :: "nat \<Rightarrow> tuple \<Rightarrow> bytes result" where
  "SetFromKey KeySize t =
     andThen (or_crash (read_bytes (data_of t) 0 (unat (size_of t)))) (\<lambda>bs.
     or_crash (write_bytes (replicate KeySize 0) 0 bs))"

definition SetFromInteger :: "nat \<Rightarrow> 64 word \<Rightarrow> bytes result" where
  "SetFromInteger KeySize key = or_crash (write_bytes (replicate KeySize 0) 0 (le_bytes 8 key))"

definition ToValue :: "double_ops \<Rightarrow> bytes \<Rightarrow> Schema \<Rightarrow> nat \<Rightarrow> Value result" where
  "ToValue F key schema column_idx =
     andThen (GetColumn schema column_idx) (\<lambda>col.
     andThen (if Column_IsInlined col then Inr (drop (unat (column_offset col)) key)
       else andThen (or_crash (read32 key (unat (column_offset col)))) (\<lambda>w.
         ensure (0 \<le> sint w) (Inr (drop (nat (sint w)) key)))) (\<lambda>data_ptr.
     Value_DeserializeFrom F data_ptr (column_type col)))"

definition GenericKey_ToString :: "bytes \<Rightarrow> int result" where
  "GenericKey_ToString key = andThen (or_crash (read_bytes key 0 8)) (\<lambda>bs. Inr (sint (le_word bs :: 64 word)))"

fun compare_columns :: "double_ops \<Rightarrow> Schema \<Rightarrow> bytes \<Rightarrow> bytes \<Rightarrow> nat list \<Rightarrow> int result" where
  "compare_columns F schema lhs rhs [] = Inr 0"
| "compare_columns F schema lhs rhs (i # is) =
     andThen (ToValue F lhs schema i) (\<lambda>lhs_value.
     andThen (ToValue F rhs schema i) (\<lambda>rhs_value.
     andThen (Value_CompareLessThan F lhs_value rhs_value) (\<lambda>less.
     if less = CmpTrue then Inr (- 1)
     else
       andThen (Value_CompareGreaterThan F lhs_value rhs_value) (\<lambda>greater.
       if greater = CmpTrue then Inr 1 else compare_columns F schema lhs rhs is))))"

definition GenericComparator :: "double_ops \<Rightarrow> Schema \<Rightarrow> bytes \<Rightarrow> bytes \<Rightarrow> int result" where
  "GenericComparator F schema lhs rhs = compare_columns F schema lhs rhs [0..<GetColumnCount schema]"

definition IntComparator :: "int \<Rightarrow> int \<Rightarrow> int" where
  "IntComparator lhs rhs = (if lhs < rhs then - 1 else if rhs < lhs then 1 else 0)"

definition HashComparator :: "64 word \<Rightarrow> 64 word \<Rightarrow> int" where
  "HashComparator lhs rhs = (if lhs < rhs then - 1 else if lhs > rhs then 1 else 0)"

subsection \<open>The hash index\<close>

text \<open>The state is that of the pool with the transaction, which the hash table ignores. The hash table calls the
  comparator on pairs of keys; \<open>key_compare\<close> is its value where it has one.\<close>

type_synonym 's world = "'s \<times> transaction"

definition key_compare :: "double_ops \<Rightarrow> Schema \<Rightarrow> bytes \<Rightarrow> bytes \<Rightarrow> int" where
  "key_compare F schema lhs rhs = (case GenericComparator F schema lhs rhs of Inr c \<Rightarrow> c | Inl _ \<Rightarrow> 1)"

definition HashIndex_InsertEntry ::
    "nat \<Rightarrow> ('s, 'p) pool_ops \<Rightarrow> (bytes, rid) page_layout \<Rightarrow> nat \<Rightarrow> bytes hash_table \<Rightarrow>
      tuple \<Rightarrow> rid \<Rightarrow> 's world \<Rightarrow> 's world result" where
  "HashIndex_InsertEntry fuel bp lay KeySize container key rid w =
     andThen (SetFromKey KeySize key) (\<lambda>index_key.
     andThen (or_crash (HashTable_Insert fuel bp lay container (fst w) index_key rid)) (\<lambda>(_, s).
     Inr (s, snd w)))"

definition HashIndex_DeleteEntry ::
    "('s, 'p) pool_ops \<Rightarrow> (bytes, rid) page_layout \<Rightarrow> nat \<Rightarrow> bytes hash_table \<Rightarrow>
      tuple \<Rightarrow> rid \<Rightarrow> 's world \<Rightarrow> 's world result" where
  "HashIndex_DeleteEntry bp lay KeySize container key rid w =
     andThen (SetFromKey KeySize key) (\<lambda>index_key.
     andThen (or_crash (HashTable_Remove bp lay container (fst w) index_key rid)) (\<lambda>(_, s).
     Inr (s, snd w)))"

definition HashIndex_ScanKey ::
    "('s, 'p) pool_ops \<Rightarrow> (bytes, rid) page_layout \<Rightarrow> nat \<Rightarrow> bytes hash_table \<Rightarrow>
      tuple \<Rightarrow> rid list \<Rightarrow> 's world \<Rightarrow> (rid list \<times> 's world) result" where
  "HashIndex_ScanKey bp lay KeySize container key result w =
     andThen (SetFromKey KeySize key) (\<lambda>index_key.
     andThen (or_crash (HashTable_GetValue bp lay container (fst w) index_key result)) (\<lambda>((_, result), s).
     Inr (result, (s, snd w))))"

definition ExtendibleHashTableIndex ::
    "nat \<Rightarrow> ('s, 'p) pool_ops \<Rightarrow> (bytes, rid) page_layout \<Rightarrow> double_ops \<Rightarrow> nat \<Rightarrow> IndexMetadata \<Rightarrow>
      (bytes \<Rightarrow> 64 word) \<Rightarrow> 's \<Rightarrow> ('s world index \<times> 's) result" where
  "ExtendibleHashTableIndex fuel bp lay F KeySize meta hash s =
     andThen (or_crash (ExtendibleHashTable bp lay (key_compare F (meta_key_schema meta)) hash s)) (\<lambda>(container, s).
     Inr (\<lparr>metadata = meta, InsertEntry = HashIndex_InsertEntry fuel bp lay KeySize container,
       DeleteEntry = HashIndex_DeleteEntry bp lay KeySize container,
       ScanKey = HashIndex_ScanKey bp lay KeySize container\<rparr>, s))"

end
