(* ===== verification/Catalog.thy ===== *)
theory Catalog
  imports Indexes
begin

section \<open>The catalog\<close>

text \<open>
  \<^verbatim>\<open>catalog/catalog.h\<close>: tables and indexes by number and by name. The maps are \<open>std::unordered_map\<close>s; the one
  that is iterated, from the index names of a table to numbers, is a list of pairs, and the order of the iteration
  is an argument \<open>order\<close>. A null pointer is \<^term>\<open>None\<close>; a broken invariant is a failed assertion, \<open>Crash\<close>.
\<close>

subsection \<open>State\<close>

record TableInfo =
  schema_of :: Schema
  table_name_of :: string
  table_of :: table_heap
  oid_of :: table_oid_t

record 'w IndexInfo =
  index_key_schema :: Schema
  index_name_of :: string
  index_of :: "'w index"
  index_oid_of :: index_oid_t
  indexed_table :: string
  key_size :: nat

type_synonym index_names = "(string \<times> index_oid_t) list"

record 'w catalog =
  tables_by_oid :: "table_oid_t \<rightharpoonup> TableInfo"
  table_names :: "string \<rightharpoonup> table_oid_t"
  next_table_oid :: table_oid_t
  indexes_by_oid :: "index_oid_t \<rightharpoonup> 'w IndexInfo"
  index_names :: "string \<rightharpoonup> index_names"
  next_index_oid :: index_oid_t

definition Catalog :: "'w catalog" where
  "Catalog = \<lparr>tables_by_oid = Map.empty, table_names = Map.empty, next_table_oid = 0,
     indexes_by_oid = Map.empty, index_names = Map.empty, next_index_oid = 0\<rparr>"

text \<open>\<open>emplace\<close> keeps an entry that is there.\<close>

definition emplace :: "'k \<Rightarrow> 'v \<Rightarrow> ('k \<rightharpoonup> 'v) \<Rightarrow> ('k \<rightharpoonup> 'v)" where
  "emplace k v m = (case m k of None \<Rightarrow> m(k \<mapsto> v) | Some _ \<Rightarrow> m)"

subsection \<open>Tables\<close>

text \<open>\<open>this\<close> is the address of the new table heap.\<close>

definition CreateTable ::
    "('s, 'p) pool_ops \<Rightarrow> config \<Rightarrow> nat \<Rightarrow> string \<Rightarrow> Schema \<Rightarrow> 'w catalog \<Rightarrow> 's \<Rightarrow>
      (TableInfo option \<times> 'w catalog \<times> 's) result" where
  "CreateTable bp cfg this table_name schema c s =
     (if table_names c table_name \<noteq> None then Inr (None, c, s)
      else
        andThen (or_crash (TableHeap_create bp cfg this s)) (\<lambda>(table, s).
        let table_oid = next_table_oid c;
            meta = \<lparr>schema_of = schema, table_name_of = table_name, table_of = table, oid_of = table_oid\<rparr> in
        Inr (Some meta, c\<lparr>next_table_oid := table_oid + 1,
          tables_by_oid := emplace table_oid meta (tables_by_oid c),
          table_names := emplace table_name table_oid (table_names c),
          index_names := emplace table_name [] (index_names c)\<rparr>, s)))"

definition GetTable_name :: "'w catalog \<Rightarrow> string \<Rightarrow> TableInfo option result" where
  "GetTable_name c table_name = (case table_names c table_name of
     None \<Rightarrow> Inr None
   | Some table_oid \<Rightarrow> andThen (or_crash (tables_by_oid c table_oid)) (\<lambda>meta. Inr (Some meta)))"

definition GetTable :: "'w catalog \<Rightarrow> table_oid_t \<Rightarrow> TableInfo option" where
  "GetTable c table_oid = tables_by_oid c table_oid"

subsection \<open>Indexes\<close>

text \<open>The loop over the tuples of the table that fills a new index.\<close>

fun populate_loop ::
    "nat \<Rightarrow> ('s, 'p) pool_ops \<Rightarrow> config \<Rightarrow> double_ops \<Rightarrow> Schema \<Rightarrow> Schema \<Rightarrow> nat list \<Rightarrow> 's world index \<Rightarrow>
      tuple \<Rightarrow> 's world \<Rightarrow> 's world result" where
  "populate_loop 0 bp cfg F schema key_schema key_attrs index tuple w = Inl Crash"
| "populate_loop (Suc fuel) bp cfg F schema key_schema key_attrs index tuple w =
     (if iter_eq tuple (TableHeap_End cfg) then Inr w
      else
        andThen (or_crash (TableIterator_deref cfg tuple)) (\<lambda>t.
        andThen (KeyFromTuple cfg F t schema key_schema key_attrs) (\<lambda>key.
        andThen (InsertEntry index key (rid_of t) w) (\<lambda>(s, txn).
        andThen (or_crash (TableIterator_next fuel bp cfg s txn tuple)) (\<lambda>(tuple, txn, s).
        populate_loop fuel bp cfg F schema key_schema key_attrs index tuple (s, txn))))))"

definition CreateIndex ::
    "nat \<Rightarrow> ('s, 'p) pool_ops \<Rightarrow> (bytes, rid) page_layout \<Rightarrow> config \<Rightarrow> double_ops \<Rightarrow> nat \<Rightarrow>
      string \<Rightarrow> string \<Rightarrow> Schema \<Rightarrow> Schema \<Rightarrow> nat list \<Rightarrow> nat \<Rightarrow> (bytes \<Rightarrow> 64 word) \<Rightarrow>
      's world catalog \<Rightarrow> 's world \<Rightarrow> ('s world IndexInfo option \<times> 's world catalog \<times> 's world) result" where
  "CreateIndex fuel bp lay cfg F KeySize index_name table_name schema key_schema key_attrs keysize hash_function c w =
     (if table_names c table_name = None then Inr (None, c, w)
      else
        andThen (or_crash (index_names c table_name)) (\<lambda>table_indexes.
        if map_of table_indexes index_name \<noteq> None then Inr (None, c, w)
        else
          andThen (IndexMetadata_new index_name table_name schema key_attrs) (\<lambda>meta.
          andThen (ExtendibleHashTableIndex fuel bp lay F KeySize meta hash_function (fst w)) (\<lambda>(index, s).
          andThen (GetTable_name c table_name) (\<lambda>table_meta.
          andThen (or_crash table_meta) (\<lambda>table_meta.
          andThen (or_crash (TableHeap_Begin fuel bp cfg (table_of table_meta) s (snd w))) (\<lambda>(tuple, txn, s).
          andThen (populate_loop fuel bp cfg F schema key_schema key_attrs index tuple (s, txn)) (\<lambda>w.
          let index_oid = next_index_oid c;
              index_info = \<lparr>index_key_schema = key_schema, index_name_of = index_name, index_of = index,
                index_oid_of = index_oid, indexed_table = table_name, key_size = keysize\<rparr> in
          Inr (Some index_info, c\<lparr>next_index_oid := index_oid + 1,
            indexes_by_oid := emplace index_oid index_info (indexes_by_oid c),
            index_names := (index_names c)(table_name \<mapsto> table_indexes @ [(index_name, index_oid)])\<rparr>, w)))))))))"

definition GetIndex_name :: "'w catalog \<Rightarrow> string \<Rightarrow> string \<Rightarrow> 'w IndexInfo option result" where
  "GetIndex_name c index_name table_name = (case index_names c table_name of
     None \<Rightarrow> ensure (table_names c table_name = None) (Inr None)
   | Some table_indexes \<Rightarrow> (case map_of table_indexes index_name of
       None \<Rightarrow> Inr None
     | Some index_oid \<Rightarrow> andThen (or_crash (indexes_by_oid c index_oid)) (\<lambda>index. Inr (Some index))))"

definition GetIndex_table :: "'w catalog \<Rightarrow> string \<Rightarrow> table_oid_t \<Rightarrow> 'w IndexInfo option result" where
  "GetIndex_table c index_name table_oid = (case tables_by_oid c table_oid of
     None \<Rightarrow> Inr None
   | Some table_meta \<Rightarrow> GetIndex_name c index_name (table_name_of table_meta))"

definition GetIndex :: "'w catalog \<Rightarrow> index_oid_t \<Rightarrow> 'w IndexInfo option" where
  "GetIndex c index_oid = indexes_by_oid c index_oid"

definition GetTableIndexes ::
    "(index_names \<Rightarrow> index_names) \<Rightarrow> 'w catalog \<Rightarrow> string \<Rightarrow> 'w IndexInfo list result" where
  "GetTableIndexes order c table_name =
     (if table_names c table_name = None then Inr []
      else
        andThen (or_crash (index_names c table_name)) (\<lambda>table_indexes.
        traverse (\<lambda>(_, index_oid). or_crash (indexes_by_oid c index_oid)) (order table_indexes)))"

end
