(* ===== verification/TableExecutors.thy ===== *)
theory TableExecutors
  imports Executors Catalog
begin

section \<open>Executors on tables\<close>

text \<open>
  \<^verbatim>\<open>execution/{seq_scan,insert,update,delete}_executor.cpp\<close>: the executors that read and change tables. They work
  on the pool and the transaction, their storage \<open>'s world\<close>, and find their table in the catalog when they are
  built. A null table is dereferenced in the constructor or in the first call and is an error at construction here.
\<close>

definition heap_call :: "('a \<times> transaction \<times> 's) option \<Rightarrow> ('a \<times> 's world) result" where
  "heap_call r = andThen (or_crash r) (\<lambda>(x, txn, s). Inr (x, (s, txn)))"

subsection \<open>Sequential scan\<close>

record seq_scan_plan =
  scan_schema :: Schema
  scan_predicate :: "Expression option"
  scan_table :: table_oid_t

text \<open>The members that the constructor sets; the position \<open>cur_\<close> is the state of the executor.\<close>

record seq_scan =
  scan_plan :: seq_scan_plan
  scan_info :: TableInfo
  out_schema_idx :: "nat list"
  scan_filter :: Expression

text \<open>The loop in the \<open>try\<close> block pushes an index for each column until a name is not found; the handler then
  pushes the numbers of all columns behind them.\<close>

fun out_schema_loop :: "Schema \<Rightarrow> Column list \<Rightarrow> nat list \<Rightarrow> nat list \<times> error option" where
  "out_schema_loop schema [] idx = (idx, None)"
| "out_schema_loop schema (c # cs) idx = (case GetColIdx schema (column_name c) of
     Inr i \<Rightarrow> out_schema_loop schema cs (idx @ [i])
   | Inl e \<Rightarrow> (idx, Some e))"

definition out_schema_indexes :: "Schema \<Rightarrow> Schema \<Rightarrow> nat list result" where
  "out_schema_indexes schema out =
     (case out_schema_loop schema (columns out) [] of
        (idx, None) \<Rightarrow> Inr idx
      | (idx, Some StdLogicError) \<Rightarrow> Inr (idx @ [0..<GetColumnCount out])
      | (idx, Some e) \<Rightarrow> Inl e)"

definition SeqScan_new :: "'w catalog \<Rightarrow> seq_scan_plan \<Rightarrow> seq_scan result" where
  "SeqScan_new c plan =
     andThen (or_crash (GetTable c (scan_table plan))) (\<lambda>info.
     andThen (out_schema_indexes (schema_of info) (scan_schema plan)) (\<lambda>idx.
     andThen (predicate_of (scan_predicate plan)) (\<lambda>p.
     Inr \<lparr>scan_plan = plan, scan_info = info, out_schema_idx = idx, scan_filter = p\<rparr>)))"

definition SeqScan_start :: "config \<Rightarrow> tuple" where
  "SeqScan_start cfg = Tuple_default cfg"

definition SeqScan_Init ::
    "nat \<Rightarrow> ('s, 'p) pool_ops \<Rightarrow> config \<Rightarrow> seq_scan \<Rightarrow> tuple \<Rightarrow> 's world \<Rightarrow> (tuple \<times> 's world) result" where
  "SeqScan_Init fuel bp cfg sc cur w = heap_call (TableHeap_Begin fuel bp cfg (table_of (scan_info sc)) (fst w) (snd w))"

text \<open>The loop of \<open>Next\<close>: \<open>n\<close> is its fuel, \<open>fuel\<close> that of the search for the next page with a tuple.\<close>

fun SeqScan_loop ::
    "nat \<Rightarrow> nat \<Rightarrow> ('s, 'p) pool_ops \<Rightarrow> config \<Rightarrow> double_ops \<Rightarrow> seq_scan \<Rightarrow> tuple \<Rightarrow> 's world \<Rightarrow> row \<Rightarrow>
      (bool \<times> row \<times> tuple \<times> 's world) result" where
  "SeqScan_loop 0 fuel bp cfg F sc cur w row = Inl Crash"
| "SeqScan_loop (Suc n) fuel bp cfg F sc cur w row =
     (if iter_eq cur (TableHeap_End cfg) then Inr (False, row, cur, w)
      else
        andThen (heap_call (TableIterator_next fuel bp cfg (fst w) (snd w) cur)) (\<lambda>(next, w).
        andThen (or_crash (TableIterator_deref cfg cur)) (\<lambda>temp.
        andThen (Evaluate F (scan_filter sc) temp (schema_of (scan_info sc))) (\<lambda>value.
        if GetAs_bool value then
          andThen (traverse (Tuple_GetValue F temp (schema_of (scan_info sc))) (out_schema_idx sc)) (\<lambda>values.
          andThen (Tuple_new cfg values (scan_schema (scan_plan sc))) (\<lambda>t.
          Inr (True, (t, rid_of temp), next, w)))
        else SeqScan_loop n fuel bp cfg F sc next w row))))"

definition SeqScan ::
    "nat \<Rightarrow> ('s, 'p) pool_ops \<Rightarrow> config \<Rightarrow> double_ops \<Rightarrow> seq_scan \<Rightarrow> (tuple, 's world) executor" where
  "SeqScan fuel bp cfg F sc =
     \<lparr>Init = SeqScan_Init fuel bp cfg sc, Next = SeqScan_loop fuel fuel bp cfg F sc\<rparr>"

subsection \<open>Insertion\<close>

text \<open>\<open>raw_values\<close> is \<^term>\<open>None\<close> for a plan whose tuples come from a child.\<close>

record insert_plan =
  insert_table :: table_oid_t
  raw_values :: "Value list list option"

record 'w modify =
  modify_info :: TableInfo
  index_info_array :: "'w IndexInfo list"

definition Modify_new :: "(index_names \<Rightarrow> index_names) \<Rightarrow> 'w catalog \<Rightarrow> table_oid_t \<Rightarrow> 'w modify result" where
  "Modify_new order c table_oid =
     andThen (or_crash (GetTable c table_oid)) (\<lambda>info.
     andThen (GetTableIndexes order c (table_name_of info)) (\<lambda>indexes.
     Inr \<lparr>modify_info = info, index_info_array = indexes\<rparr>))"

definition index_key :: "config \<Rightarrow> double_ops \<Rightarrow> 'w modify \<Rightarrow> 'w IndexInfo \<Rightarrow> tuple \<Rightarrow> tuple result" where
  "index_key cfg F m info t =
     KeyFromTuple cfg F t (schema_of (modify_info m)) (index_key_schema info) (GetKeyAttrs (index_of info))"

fun insert_entries ::
    "config \<Rightarrow> double_ops \<Rightarrow> 'w modify \<Rightarrow> tuple \<Rightarrow> rid \<Rightarrow> 'w IndexInfo list \<Rightarrow> 'w \<Rightarrow> 'w result" where
  "insert_entries cfg F m t rid [] w = Inr w"
| "insert_entries cfg F m t rid (info # infos) w =
     andThen (index_key cfg F m info t) (\<lambda>key.
     andThen (InsertEntry (index_of info) key rid w) (\<lambda>w.
     insert_entries cfg F m t rid infos w))"

datatype 'e InsertExecutor = InsertExecutor (next_insert_pos: nat) (insert_child: 'e)

definition Insert_Init ::
    "('e, 'w) executor \<Rightarrow> insert_plan \<Rightarrow> 'e InsertExecutor \<Rightarrow> 'w \<Rightarrow> ('e InsertExecutor \<times> 'w) result" where
  "Insert_Init C plan st w =
     (if raw_values plan = None
      then andThen (Init C (insert_child st) w) (\<lambda>(c, w). Inr (InsertExecutor 0 c, w))
      else Inr (InsertExecutor 0 (insert_child st), w))"

text \<open>A tuple stored by \<open>InsertTuple\<close>: its identifier is written only when there is one.\<close>

definition store_tuple ::
    "nat \<Rightarrow> ('s, 'p) pool_ops \<Rightarrow> config \<Rightarrow> 'w modify \<Rightarrow> 's world \<Rightarrow> row \<Rightarrow> (bool \<times> row \<times> 's world) result" where
  "store_tuple fuel bp cfg m w row =
     andThen (heap_call (TableHeap_InsertTuple fuel bp cfg (table_of (modify_info m)) (fst w) (snd w) (fst row))) (\<lambda>(rid, w).
     Inr (case rid of None \<Rightarrow> (False, row, w) | Some rid \<Rightarrow> (True, (fst row, rid), w)))"

definition Insert_Next ::
    "nat \<Rightarrow> ('s, 'p) pool_ops \<Rightarrow> config \<Rightarrow> double_ops \<Rightarrow> 's world modify \<Rightarrow> insert_plan \<Rightarrow> ('e, 's world) executor \<Rightarrow>
      'e InsertExecutor \<Rightarrow> 's world \<Rightarrow> row \<Rightarrow> (bool \<times> row \<times> 'e InsertExecutor \<times> 's world) result" where
  "Insert_Next fuel bp cfg F m plan C st w row =
     andThen (case raw_values plan of
         Some values \<Rightarrow>
           if next_insert_pos st = length values then Inr (False, row, st, w)
           else
             andThen (at values (next_insert_pos st)) (\<lambda>vs.
             andThen (Tuple_new cfg vs (schema_of (modify_info m))) (\<lambda>t.
             andThen (store_tuple fuel bp cfg m w (t, snd row)) (\<lambda>(is_inserted, row, w).
             Inr (is_inserted, row, InsertExecutor (Suc (next_insert_pos st)) (insert_child st), w))))
       | None \<Rightarrow>
           andThen (Next C (insert_child st) w row) (\<lambda>(found, row, c, w).
           if \<not> found then Inr (False, row, InsertExecutor (next_insert_pos st) c, w)
           else
             andThen (store_tuple fuel bp cfg m w row) (\<lambda>(is_inserted, row, w).
             Inr (is_inserted, row, InsertExecutor (next_insert_pos st) c, w)))) (\<lambda>(is_inserted, row, st, w).
     if is_inserted
     then andThen (insert_entries cfg F m (fst row) (snd row) (index_info_array m) w) (\<lambda>w. Inr (True, row, st, w))
     else Inr (False, row, st, w))"

definition Insert ::
    "nat \<Rightarrow> ('s, 'p) pool_ops \<Rightarrow> config \<Rightarrow> double_ops \<Rightarrow> 's world modify \<Rightarrow> insert_plan \<Rightarrow> ('e, 's world) executor \<Rightarrow>
      ('e InsertExecutor, 's world) executor" where
  "Insert fuel bp cfg F m plan C = \<lparr>Init = Insert_Init C plan, Next = Insert_Next fuel bp cfg F m plan C\<rparr>"

subsection \<open>Update\<close>

datatype UpdateType = UpdateAdd | UpdateSet

record UpdateInfo =
  update_type :: UpdateType
  update_val :: int

text \<open>One value of the updated tuple. \<open>GetIntegerValue\<close> gets the \<open>int\<close> of the plan.\<close>

definition updated_value :: "double_ops \<Rightarrow> (nat \<rightharpoonup> UpdateInfo) \<Rightarrow> Schema \<Rightarrow> tuple \<Rightarrow> nat \<Rightarrow> Value result" where
  "updated_value F update_attrs schema t idx =
     andThen (Tuple_GetValue F t schema idx) (\<lambda>val.
     case update_attrs idx of
       None \<Rightarrow> Inr val
     | Some info \<Rightarrow> andThen (GetIntegerValue (update_val info)) (\<lambda>x.
         case update_type info of UpdateAdd \<Rightarrow> Value_Add F val x | UpdateSet \<Rightarrow> Inr x))"

definition GenerateUpdatedTuple ::
    "config \<Rightarrow> double_ops \<Rightarrow> (nat \<rightharpoonup> UpdateInfo) \<Rightarrow> Schema \<Rightarrow> tuple \<Rightarrow> tuple result" where
  "GenerateUpdatedTuple cfg F update_attrs schema t =
     andThen (traverse (updated_value F update_attrs schema t) [0..<GetColumnCount schema]) (\<lambda>values.
     Tuple_new cfg values schema)"

fun update_entries ::
    "config \<Rightarrow> double_ops \<Rightarrow> 'w modify \<Rightarrow> tuple \<Rightarrow> tuple \<Rightarrow> rid \<Rightarrow> 'w IndexInfo list \<Rightarrow> 'w \<Rightarrow> 'w result" where
  "update_entries cfg F m old new rid [] w = Inr w"
| "update_entries cfg F m old new rid (info # infos) w =
     andThen (index_key cfg F m info new) (\<lambda>new_key.
     andThen (index_key cfg F m info old) (\<lambda>old_key.
     andThen (DeleteEntry (index_of info) old_key rid w) (\<lambda>w.
     andThen (InsertEntry (index_of info) new_key rid w) (\<lambda>w.
     update_entries cfg F m old new rid infos w))))"

definition Update_Next ::
    "('s, 'p) pool_ops \<Rightarrow> config \<Rightarrow> double_ops \<Rightarrow> 's world modify \<Rightarrow> (nat \<rightharpoonup> UpdateInfo) \<Rightarrow> ('e, 's world) executor \<Rightarrow>
      'e \<Rightarrow> 's world \<Rightarrow> row \<Rightarrow> (bool \<times> row \<times> 'e \<times> 's world) result" where
  "Update_Next bp cfg F m update_attrs C c w row =
     andThen (Next C c w row) (\<lambda>(found, row, c, w).
     if \<not> found then Inr (False, row, c, w)
     else
       andThen (GenerateUpdatedTuple cfg F update_attrs (schema_of (modify_info m)) (fst row)) (\<lambda>new_tuple.
       andThen (heap_call (TableHeap_UpdateTuple bp (table_of (modify_info m)) (fst w) (snd w) new_tuple (snd row))) (\<lambda>(is_updated, w).
       if is_updated
       then andThen (update_entries cfg F m (fst row) new_tuple (snd row) (index_info_array m) w) (\<lambda>w. Inr (True, row, c, w))
       else Inr (False, row, c, w))))"

definition Update ::
    "('s, 'p) pool_ops \<Rightarrow> config \<Rightarrow> double_ops \<Rightarrow> 's world modify \<Rightarrow> (nat \<rightharpoonup> UpdateInfo) \<Rightarrow> ('e, 's world) executor \<Rightarrow>
      ('e, 's world) executor" where
  "Update bp cfg F m update_attrs C = \<lparr>Init = Init C, Next = Update_Next bp cfg F m update_attrs C\<rparr>"

subsection \<open>Deletion\<close>

fun delete_entries ::
    "config \<Rightarrow> double_ops \<Rightarrow> 'w modify \<Rightarrow> tuple \<Rightarrow> rid \<Rightarrow> 'w IndexInfo list \<Rightarrow> 'w \<Rightarrow> 'w result" where
  "delete_entries cfg F m t rid [] w = Inr w"
| "delete_entries cfg F m t rid (info # infos) w =
     andThen (index_key cfg F m info t) (\<lambda>key.
     andThen (DeleteEntry (index_of info) key rid w) (\<lambda>w.
     delete_entries cfg F m t rid infos w))"

text \<open>The constructor calls \<open>Init\<close> of the child, and \<open>Init\<close> does nothing.\<close>

definition Delete_new ::
    "(index_names \<Rightarrow> index_names) \<Rightarrow> ('e, 'w) executor \<Rightarrow> 'w catalog \<Rightarrow> table_oid_t \<Rightarrow> 'e \<Rightarrow> 'w \<Rightarrow>
      ('w modify \<times> 'e \<times> 'w) result" where
  "Delete_new order C cat table_oid c w =
     andThen (Modify_new order cat table_oid) (\<lambda>m.
     andThen (Init C c w) (\<lambda>(c, w). Inr (m, c, w)))"

definition Delete_Init :: "'e \<Rightarrow> 'w \<Rightarrow> ('e \<times> 'w) result" where
  "Delete_Init c w = Inr (c, w)"

definition Delete_Next ::
    "('s, 'p) pool_ops \<Rightarrow> config \<Rightarrow> double_ops \<Rightarrow> 's world modify \<Rightarrow> ('e, 's world) executor \<Rightarrow>
      'e \<Rightarrow> 's world \<Rightarrow> row \<Rightarrow> (bool \<times> row \<times> 'e \<times> 's world) result" where
  "Delete_Next bp cfg F m C c w row =
     andThen (Next C c w row) (\<lambda>(found, row, c, w).
     if \<not> found then Inr (False, row, c, w)
     else
       andThen (heap_call (TableHeap_MarkDelete bp cfg (table_of (modify_info m)) (fst w) (snd w) (snd row))) (\<lambda>(is_deleted, w).
       if is_deleted
       then andThen (delete_entries cfg F m (fst row) (snd row) (index_info_array m) w) (\<lambda>w. Inr (True, row, c, w))
       else Inr (False, row, c, w)))"

definition Delete ::
    "('s, 'p) pool_ops \<Rightarrow> config \<Rightarrow> double_ops \<Rightarrow> 's world modify \<Rightarrow> ('e, 's world) executor \<Rightarrow> ('e, 's world) executor" where
  "Delete bp cfg F m C = \<lparr>Init = Delete_Init, Next = Delete_Next bp cfg F m C\<rparr>"

end
