(* ===== verification/HashTableSpec.thy ===== *)
theory HashTableSpec
  imports HashTable
begin

section \<open>Correctness of the extendible hash table\<close>

text \<open>
  The directory part of a split, the redistribution of the pairs and what a lookup sees afterwards;
  then searching, inserting and removing through a buffer pool that keeps the contract
  \<open>buffer_pool\<close>.
\<close>

subsection \<open>The slots after a split\<close>

text \<open>\<open>split_spec d i p d'\<close>: slot \<open>i\<close>, whose local depth is one less than the new global depth,
  shares its bucket with its split image only; the image gets the page \<open>p\<close>, and a slot of a grown
  directory gets the bucket of the slot it agrees with in the old bits.\<close>

definition split_spec :: "dir_page \<Rightarrow> nat \<Rightarrow> page_id_t \<Rightarrow> dir_page \<Rightarrow> bool" where
  "split_spec d i p d' \<longleftrightarrow>
     (let l = ld d i; split = (i + 2 ^ l) mod 2 ^ Suc l in
      dir_wf d' \<and> gd d' = Suc l \<and>
      (\<forall>j < 2 ^ gd d'. bucket_at d' j = (if j = split then p else bucket_at d (j mod 2 ^ gd d)) \<and>
         ld d' j = (if j = i \<or> j = split then Suc l else ld d (j mod 2 ^ gd d))))"

lemma two_residues:
  fixes i k :: nat
  assumes "i < 2 ^ Suc l" and "k < 2 ^ Suc l"
  shows "k mod 2 ^ l = i mod 2 ^ l \<longleftrightarrow> k = i \<or> k = (i + 2 ^ l) mod 2 ^ Suc l"
proof -
  have small: "x < 2 ^ l \<and> x mod 2 ^ l = x \<or> 2 ^ l \<le> x \<and> x mod 2 ^ l = x - 2 ^ l"
    if "x < 2 ^ Suc l" for x :: nat
    using that by (auto simp: mod_if)
  have "(i + 2 ^ l) mod 2 ^ Suc l = (if i < 2 ^ l then i + 2 ^ l else i - 2 ^ l)"
    using assms(1) by (auto simp: mod_if)
  then show ?thesis using small [OF assms(1)] small [OF assms(2)] assms by auto
qed

text \<open>The old bucket of \<open>i\<close> is seen from \<open>i\<close> and its image only.\<close>

lemma old_bucket_slots:
  assumes ok: "dir_ok d" and i: "i < 2 ^ gd d" and g: "gd d \<le> Suc (ld d i)" and k: "k < 2 ^ Suc (ld d i)"
  shows "bucket_at d (k mod 2 ^ gd d) = bucket_at d i \<longleftrightarrow>
    k = i \<or> k = (i + 2 ^ ld d i) mod 2 ^ Suc (ld d i)"
proof -
  note D = dir_okD [OF ok i]
  have i': "i < 2 ^ Suc (ld d i)" using i power_increasing [OF g, of "2::nat"] by simp
  have "k mod 2 ^ gd d mod 2 ^ ld d i = k mod 2 ^ ld d i"
    using D(2) by (simp add: mod_mod_cancel le_imp_power_dvd)
  then show ?thesis
    using D(7) [of "k mod 2 ^ gd d"] two_residues [OF i' k] by (metis mod_less_divisor zero_less_numeral zero_less_power)
qed

lemma split_spec_dir_ok:
  assumes ok: "dir_ok d" and i: "i < 2 ^ gd d" and sp: "split_spec d i p d'"
    and fresh: "\<And>j. j < 2 ^ gd d \<Longrightarrow> bucket_at d j \<noteq> p" and g: "gd d \<le> Suc (ld d i)"
  shows "dir_ok d'"
proof -
  define l where "l = ld d i"
  define split where "split = (i + 2 ^ l) mod 2 ^ Suc l"
  note D = dir_okD [OF ok]
  have wf: "dir_wf d'" and g': "gd d' = Suc l"
    and b: "\<And>j. j < 2 ^ Suc l \<Longrightarrow> bucket_at d' j = (if j = split then p else bucket_at d (j mod 2 ^ gd d))"
    and lj: "\<And>j. j < 2 ^ Suc l \<Longrightarrow> ld d' j = (if j = i \<or> j = split then Suc l else ld d (j mod 2 ^ gd d))"
    using sp unfolding split_spec_def l_def split_def Let_def by auto
  have lg: "l \<le> gd d" "gd d \<le> Suc l" using D(2) [OF i] g by (simp_all add: l_def)
  have i': "i < 2 ^ Suc l"
    using i power_increasing [OF lg(2), of "2::nat"] by simp
  have split_lt: "split < 2 ^ Suc l" by (simp add: split_def)
  have ne: "split \<noteq> i" using add_half_mod(2) [of "Suc l" l i] i' by (simp add: split_def)
  have lt: "j mod 2 ^ gd d < 2 ^ gd d" for j :: nat by simp
  have mm: "j mod 2 ^ gd d mod 2 ^ m = j mod 2 ^ m" if "m \<le> gd d" for j m :: nat
    using that by (simp add: mod_mod_cancel le_imp_power_dvd)
  have two: "bucket_at d (k mod 2 ^ gd d) = bucket_at d i \<longleftrightarrow> k = i \<or> k = split"
    if "k < 2 ^ Suc l" for k
    using old_bucket_slots [OF ok i g, of k] that unfolding split_def l_def by simp
  have depth: "1 \<le> ld d' j \<and> ld d' j \<le> gd d'" if "j < 2 ^ Suc l" for j
    using that lj [OF that] D(1,2) [OF lt, of j] lg g' by auto
  have same: "bucket_at d' j = bucket_at d' k \<longleftrightarrow> j mod 2 ^ ld d' j = k mod 2 ^ ld d' j"
    and sameld: "bucket_at d' j = bucket_at d' k \<Longrightarrow> ld d' j = ld d' k"
    if jk: "j < 2 ^ Suc l" "k < 2 ^ Suc l" for j k
  proof -
    let ?j = "j mod 2 ^ gd d" and ?k = "k mod 2 ^ gd d"
    have "(bucket_at d' j = bucket_at d' k \<longleftrightarrow> j mod 2 ^ ld d' j = k mod 2 ^ ld d' j) \<and>
        (bucket_at d' j = bucket_at d' k \<longrightarrow> ld d' j = ld d' k)"
    proof (cases "j = i \<or> j = split")
      case True
      then have "ld d' j = Suc l" using lj [OF jk(1)] by simp
      moreover have "bucket_at d' j = bucket_at d' k \<longleftrightarrow> j = k"
        using True b [OF jk(1)] b [OF jk(2)] two [OF jk(1)] two [OF jk(2)] fresh [OF lt] ne by metis
      ultimately show ?thesis using jk by auto
    next
      case False
      then have lj': "ld d' j = ld d ?j" "ld d ?j \<le> gd d" and bj: "bucket_at d' j = bucket_at d ?j"
        using lj [OF jk(1)] b [OF jk(1)] D(2) [OF lt, of j] by auto
      have old: "bucket_at d ?j = bucket_at d ?k \<longleftrightarrow> j mod 2 ^ ld d ?j = k mod 2 ^ ld d ?j"
        using D(7) [OF lt lt, of j k] mm [OF lj'(2), of j] mm [OF lj'(2), of k] by simp
      show ?thesis
      proof (cases "k = i \<or> k = split")
        case True
        have ni: "bucket_at d ?j \<noteq> bucket_at d i" using two [OF jk(1)] False by simp
        moreover have "bucket_at d ?k = bucket_at d i" using two [OF jk(2)] True by simp
        moreover have "bucket_at d' k = (if k = split then p else bucket_at d i)"
          using b [OF jk(2)] \<open>bucket_at d ?k = bucket_at d i\<close> by simp
        ultimately have "bucket_at d' j \<noteq> bucket_at d' k" "bucket_at d ?j \<noteq> bucket_at d ?k"
          using bj fresh [OF lt, of j] by metis+
        with old show ?thesis unfolding lj'(1) by blast
      next
        case False
        then have "bucket_at d' k = bucket_at d ?k" "ld d' k = ld d ?k"
          using b [OF jk(2)] lj [OF jk(2)] by auto
        with bj old D(8) [OF lt lt, of j k] show ?thesis unfolding lj'(1) by metis
      qed
    qed
    then show "bucket_at d' j = bucket_at d' k \<longleftrightarrow> j mod 2 ^ ld d' j = k mod 2 ^ ld d' j"
      "bucket_at d' j = bucket_at d' k \<Longrightarrow> ld d' j = ld d' k" by blast+
  qed
  show ?thesis
  proof (unfold dir_ok_def g', intro conjI allI impI)
    show "dir_wf d'" by (rule wf)
    fix j :: nat assume j: "j < 2 ^ Suc l"
    show "1 \<le> ld d' j" "ld d' j \<le> Suc l" using depth [OF j] g' by simp_all
    fix k :: nat assume k: "k < 2 ^ Suc l"
    show "bucket_at d' j = bucket_at d' k \<longleftrightarrow> j mod 2 ^ ld d' j = k mod 2 ^ ld d' j"
      by (rule same [OF j k])
    show "ld d' j = ld d' k" if "bucket_at d' j = bucket_at d' k"
      using that by (rule sameld [OF j k])
  qed
qed

subsection \<open>The code computes these slots\<close>

abbreviation dir_len :: "dir_page \<Rightarrow> bool" where
  "dir_len d \<equiv> length (local_depths d) = 512 \<and> length (bucket_page_ids d) = 512"

lemma unat_of_nat_512: "j < 512 \<Longrightarrow> unat (of_nat j :: uint32) = j"
  by (rule unat_of_nat_small) simp

lemma and_pow_minus_1:
  assumes "g \<le> 9" and "j < 512"
  shows "unat ((of_nat j :: uint32) AND (2 ^ g - 1)) = j mod 2 ^ g"
  using assms unat_of_nat_512 by (simp only: unat_and_pow_minus_1)

lemma ucast_depth [simp]: "(ucast (ucast (x :: 8 word) :: uint32) :: 8 word) = x"
  by (rule ucast_up_ucast_id) (simp add: is_up)

lemma redirect_spec:
  assumes "dir_len d" and "g \<le> 9" and "\<forall>j \<in> set is. 2 ^ g \<le> j \<and> j < 512"
  shows "\<exists>d'. redirect (2 ^ g) sp is d = Some d' \<and> dir_len d' \<and> global_depth d' = global_depth d \<and>
    (\<forall>j. bucket_at d' j = (if j \<in> set is \<and> j \<noteq> unat sp then bucket_at d (j mod 2 ^ g) else bucket_at d j) \<and>
         ld d' j = (if j \<in> set is \<and> j \<noteq> unat sp then ld d (j mod 2 ^ g) else ld d j))"
  using assms(1,3)
proof (induction "is" arbitrary: d)
  case (Cons k "is")
  show ?case
  proof (cases "k = unat sp")
    case True
    then show ?thesis using Cons.IH [OF Cons.prems(1)] Cons.prems(2) by auto
  next
    case False
    let ?r = "k mod 2 ^ g"
    have k: "2 ^ g \<le> k" "k < 512" using Cons.prems(2) by auto
    have r: "?r < 2 ^ g" by simp
    then have r5: "?r < 512" "?r \<noteq> k" using k by linarith+
    define d1 where "d1 = d\<lparr>bucket_page_ids := (bucket_page_ids d)[k := bucket_at d ?r],
      local_depths := (local_depths d)[k := local_depths d ! ?r]\<rparr>"
    have step: "redirect (2 ^ g) sp (k # is) d = redirect (2 ^ g) sp is d1"
      using False k r5 Cons.prems(1) and_pow_minus_1 [OF assms(2) k(2)] unat_of_nat_512 [OF k(2)]
      by (simp add: GetBucketPageId_def SetBucketPageId_def GetLocalDepth_def SetLocalDepth_def
          d1_def bucket_at_def)
    have len1: "dir_len d1" using Cons.prems(1) by (simp add: d1_def)
    have b1: "bucket_at d1 j = (if j = k then bucket_at d ?r else bucket_at d j)"
      and l1: "ld d1 j = (if j = k then ld d ?r else ld d j)" for j
      using Cons.prems(1) k by (auto simp: d1_def bucket_at_def ld_def)
    have ne: "j mod 2 ^ g \<noteq> k" for j
    proof -
      have "j mod 2 ^ g < 2 ^ g" by simp
      with k(1) show ?thesis by linarith
    qed
    obtain d' where d': "redirect (2 ^ g) sp is d1 = Some d'" "dir_len d'" "global_depth d' = global_depth d1"
      "\<forall>j. bucket_at d' j = (if j \<in> set is \<and> j \<noteq> unat sp then bucket_at d1 (j mod 2 ^ g) else bucket_at d1 j) \<and>
         ld d' j = (if j \<in> set is \<and> j \<noteq> unat sp then ld d1 (j mod 2 ^ g) else ld d1 j)"
      using Cons.IH [OF len1] Cons.prems(2) by auto
    have "global_depth d1 = global_depth d" by (simp add: d1_def)
    with d' step b1 l1 ne False show ?thesis by simp
  qed
qed simp

text \<open>One round of \<^verbatim>\<open>SplitInsert\<close>, seen from the directory.\<close>

definition split_round :: "dir_page \<Rightarrow> uint32 \<Rightarrow> page_id_t \<Rightarrow> (dir_page \<times> uint32) option" where
  "split_round d bucket_idx split_page_id = do {
     (d1, split_bucket_idx, grow) \<leftarrow> split_directory d bucket_idx;
     d2 \<leftarrow> set_split_image d1 bucket_idx split_bucket_idx split_page_id;
     d3 \<leftarrow> redirect_rest (GetGlobalDepth d) split_bucket_idx d2;
     Some (d3, split_bucket_idx)
   }"

lemma split_directory_spec:
  assumes ok: "dir_ok d" and i: "unat idx < 2 ^ gd d" and g: "ld d (unat idx) < 9"
  obtains sp where
    "split_directory d idx = Some (d\<lparr>global_depth := global_depth d + (if ld d (unat idx) = gd d then 1 else 0),
       local_depths := (local_depths d)[unat idx := local_depths d ! unat idx + 1]\<rparr>, sp,
       ld d (unat idx) = gd d)"
    "unat sp = (unat idx + 2 ^ ld d (unat idx)) mod 2 ^ Suc (ld d (unat idx))"
    "unat (local_depths d ! unat idx + 1) = Suc (ld d (unat idx))"
proof -
  note D = dir_okD [OF ok i]
  let ?i = "unat idx"
  let ?d = "d\<lparr>global_depth := global_depth d + (if ld d ?i = gd d then 1 else 0),
       local_depths := (local_depths d)[?i := local_depths d ! ?i + 1]\<rparr>"
  have len: "?i < length (local_depths d)" using D(3,5) by simp
  obtain l where l: "GetLocalDepth d idx = Some l" "unat l = ld d ?i"
    using GetLocalDepth_ld [OF len] .
  have gl: "l = GetGlobalDepth d \<longleftrightarrow> ld d ?i = gd d"
    using l(2) by (simp add: word_unat_eq_iff GetGlobalDepth_def gd_def)
  have suc: "unat (local_depths d ! ?i + 1) = Suc (ld d ?i)"
    using g by (simp add: ld_def unat_word_ariths)
  have ld': "ld ?d ?i = Suc (ld d ?i)" using suc len by (simp add: ld_def)
  obtain sp where sp: "GetSplitImageIndex ?d idx = Some sp"
    "unat sp = (?i + 2 ^ (ld ?d ?i - 1)) mod 2 ^ ld ?d ?i"
    by (rule GetSplitImageIndex_ld [of idx ?d]) (use len ld' g in simp_all)
  have "split_directory d idx = Some (?d, sp, ld d ?i = gd d)"
    using l gl sp len
    by (auto simp: split_directory_def IncrGlobalDepth_def IncrLocalDepth_def Let_def)
  then show ?thesis using that sp(2) ld' suc by simp
qed

lemma split_round_spec:
  assumes ok: "dir_ok d" and i: "unat idx < 2 ^ gd d" and g: "ld d (unat idx) < 9"
    and near: "gd d \<le> Suc (ld d (unat idx))"
  shows "\<exists>d' sp. split_round d idx p = Some (d', sp) \<and> split_spec d (unat idx) p d' \<and>
    unat sp = (unat idx + 2 ^ ld d (unat idx)) mod 2 ^ Suc (ld d (unat idx))"
proof -
  note D = dir_okD [OF ok i]
  let ?i = "unat idx" and ?l = "ld d (unat idx)"
  let ?grow = "?l = gd d"
  define d1 where "d1 = d\<lparr>global_depth := global_depth d + (if ?grow then 1 else 0),
       local_depths := (local_depths d)[?i := local_depths d ! ?i + 1]\<rparr>"
  obtain sp where s: "split_directory d idx = Some (d1, sp, ?grow)"
    "unat sp = (?i + 2 ^ ?l) mod 2 ^ Suc ?l" "unat (local_depths d ! ?i + 1) = Suc ?l"
    using split_directory_spec [OF ok i g] unfolding d1_def .
  have l10: "2 ^ Suc ?l \<le> (512::nat)" using power_increasing [of "Suc ?l" 9 "2::nat"] g by simp
  have sp5: "unat sp < 512"
    unfolding s(2) by (rule less_le_trans [OF mod_less_divisor l10]) simp
  have i5: "?i < 512" by (rule D(3))
  define d2 where "d2 = d1\<lparr>bucket_page_ids := (bucket_page_ids d)[unat sp := p],
    local_depths := (local_depths d)[?i := local_depths d ! ?i + 1, unat sp := local_depths d ! ?i + 1]\<rparr>"
  have "set_split_image d1 idx sp p = Some d2"
    using D(5,6) i5 sp5
    by (simp add: set_split_image_def SetBucketPageId_def SetLocalDepth_def GetLocalDepth_def d1_def d2_def)
  have g1: "gd d2 = Suc ?l"
  proof (cases ?grow)
    case True
    then have "unat (global_depth d + 1) = Suc (gd d)" using g by (simp add: gd_def unat_word_ariths)
    with True show ?thesis by (simp add: gd_def d2_def d1_def)
  next
    case False
    then show ?thesis using near D(2) by (simp add: gd_def d2_def d1_def)
  qed
  have len2: "dir_len d2" using D(5,6) by (simp add: d2_def d1_def)
  have gd9: "gd d \<le> 9" by (rule D(4))
  obtain d3 where d3: "redirect (2 ^ gd d) sp [2 ^ gd d..<2 ^ Suc ?l] d2 = Some d3" "dir_len d3"
    "global_depth d3 = global_depth d2"
    "\<forall>j. bucket_at d3 j = (if j \<in> {2 ^ gd d..<2 ^ Suc ?l} \<and> j \<noteq> unat sp then bucket_at d2 (j mod 2 ^ gd d) else bucket_at d2 j) \<and>
       ld d3 j = (if j \<in> {2 ^ gd d..<2 ^ Suc ?l} \<and> j \<noteq> unat sp then ld d2 (j mod 2 ^ gd d) else ld d2 j)"
    using redirect_spec [OF len2 gd9, of "[2 ^ gd d..<2 ^ Suc ?l]" sp] l10 by auto
  have "redirect_rest (GetGlobalDepth d) sp d2 = Some d3"
  proof -
    have "Pow32 2 (global_depth d) = Some (2 ^ gd d)" "unat (2 ^ gd d :: uint32) = 2 ^ gd d"
      "Size d2 = Some (2 ^ Suc ?l)" "unat (2 ^ Suc ?l :: uint32) = 2 ^ Suc ?l"
      using gd9 g g1 Size_gd [of d2] unat_2_power [of "gd d"] unat_2_power [of "Suc ?l"]
      by (simp_all only: gd_def) (simp_all add: gd_def)
    then show ?thesis using d3(1) by (simp only: redirect_rest_def GetGlobalDepth_def bind.bind_lunit)
  qed
  with s(1) \<open>set_split_image d1 idx sp p = Some d2\<close>
  have run: "split_round d idx p = Some (d3, sp)" by (simp add: split_round_def)
  have b2: "bucket_at d2 j = (if j = unat sp then p else bucket_at d j)"
    and l2: "ld d2 j = (if j = ?i \<or> j = unat sp then Suc ?l else ld d j)" for j
    using D(5,6) i5 sp5 s(3) by (auto simp: d2_def d1_def bucket_at_def ld_def nth_list_update)
  have "gd d3 = Suc ?l" using g1 d3(3) by (simp add: gd_def)
  moreover have "dir_wf d3"
    using d3(2) g calculation by (simp add: dir_wf_def DIRECTORY_ARRAY_SIZE_def)
  moreover have "bucket_at d3 j = (if j = unat sp then p else bucket_at d (j mod 2 ^ gd d)) \<and>
      ld d3 j = (if j = ?i \<or> j = unat sp then Suc ?l else ld d (j mod 2 ^ gd d))"
    if j: "j < 2 ^ Suc ?l" for j
  proof (cases ?grow)
    case True
    have spi: "unat sp = ?i + 2 ^ gd d" using s(2) i True by simp
    show ?thesis
    proof (cases "j < 2 ^ gd d")
      case True
      then show ?thesis using d3(4) b2 l2 spi by auto
    next
      case False
      then have "j mod 2 ^ gd d = j - 2 ^ gd d" "j - 2 ^ gd d < 2 ^ gd d"
        using j \<open>?grow\<close> by (simp_all add: mod_if)
      then show ?thesis using d3(4) b2 l2 spi False j i by auto
    qed
  next
    case False
    then have "gd d = Suc ?l" using near D(2) by simp
    then show ?thesis using d3(4) b2 l2 j by simp
  qed
  ultimately have "split_spec d ?i p d3"
    unfolding split_spec_def Let_def s(2) [symmetric] by (simp only: simp_thms) blast
  then show ?thesis using run s(2) by blast
qed



definition deep_dir :: dir_page where
  "deep_dir = \<lparr>dir_page_id = 0, dir_lsn = 0, global_depth = 3,
     local_depths = [1, 2, 1, 3, 1, 2, 1, 3] @ replicate 504 0,
     bucket_page_ids = [7, 8, 7, 9, 7, 8, 7, 10] @ replicate 504 0\<rparr>"

text \<open>With a gap of two or more the split is wrong: in a directory of global depth 3 that passes
  \<^verbatim>\<open>VerifyIntegrity\<close>, splitting the bucket of local depth 1 at slot 0 redirects slot 2 only. Slot
  6, whose keys are moved to the new page with those of slot 2, still points to the old bucket, and
  \<^verbatim>\<open>VerifyIntegrity\<close> fails.\<close>

theorem split_misses_slots:
  "VerifyIntegrity deep_dir = Some () \<and>
   map_option (\<lambda>(d, sp). (unat sp, bucket_at d 2, bucket_at d 6, VerifyIntegrity d)) (split_round deep_dir 0 11)
     = Some (2, 11, 7, None)"
  by code_simp

end
