(* ===== verification/Rehash.thy ===== *)
theory Rehash
  imports HashTableSpec
begin

section \<open>Redistributing a full bucket\<close>

text \<open>The loop of \<^verbatim>\<open>SplitInsert\<close> that moves pairs to the split image, and what a lookup sees after
  a split: for every key the same values as before.\<close>

lemma set_bit_at_same:
  assumes "bit_at bs i"
  shows "set_bit_at bs i True = bs"
proof (cases "i div 8 < length bs")
  case True
  have "bs ! (i div 8) OR GetMask (i mod 8) 1 = bs ! (i div 8)"
    by (rule bit_word_eqI) (use assms in \<open>auto simp: bit_or_mask bit_at_def\<close>)
  then show ?thesis by (simp add: set_bit_at_def)
qed (simp add: set_bit_at_def list_update_beyond)

lemma RemoveAt_clear:
  assumes "bucket_inv n b" and "i < n" and "rd b i"
  shows "RemoveAt b i = Some (clear_slot b i)"
proof -
  note B = bucket_invD [OF assms(1)]
  have "SetOccupied b i 1 = Some b"
    using B(12) [OF assms(2)] set_bit_at_same [OF B(7) [OF assms(2,3)]] by (simp add: SetOccupied_eq)
  then show ?thesis using B(11) [OF assms(2)] by (simp add: RemoveAt_def SetReadable_eq clear_slot_def)
qed

text \<open>\<open>moves t l sp\<close>: the pair's hash ends in the split image's bits.\<close>

definition moves :: "'k hash_table \<Rightarrow> nat \<Rightarrow> nat \<Rightarrow> 'k \<times> 'v \<Rightarrow> bool" where
  "moves t l sp kv \<longleftrightarrow> unat (Hash t (fst kv)) mod 2 ^ l = sp"

lemma xor_word_eq_0: "(a :: uint32) XOR b = 0 \<longleftrightarrow> a = b"
  by (auto simp: bit_eq_iff bit_xor_iff)

lemma moves_test:
  assumes "unat l < 32"
  shows "(Hash t key AND (2 ^ unat l - 1)) XOR sp = 0 \<longleftrightarrow> moves t (unat l) (unat sp) (key, val)"
proof -
  have "unat (Hash t key AND (2 ^ unat l - 1)) = unat (Hash t key) mod 2 ^ unat l"
    by (rule unat_and_pow_minus_1)
  then show ?thesis unfolding xor_word_eq_0 by (simp add: moves_def word_unat_eq_iff)
qed

text \<open>The comparator tells keys apart; the pairs of a bucket are distinct.\<close>

definition keys_apart :: "'k hash_table \<Rightarrow> bool" where
  "keys_apart t \<longleftrightarrow> (\<forall>a b. comparator t a b = 0 \<longleftrightarrow> a = b)"

lemma split_insert:
  assumes "bucket_inv n split" and "keys_apart t" and "(key, val) \<notin> set (entries n split)"
    and "length (entries n split) < n"
  obtains split' where "Bucket_Insert n split key val (comparator t) = Some (True, split')"
    "bucket_inv n split'" "mset (entries n split') = add_mset (key, val) (mset (entries n split))"
proof -
  have "val \<notin> set (matching (comparator t) key (entries n split))"
    using assms(2,3) by (auto simp: matching_iff keys_apart_def)
  then show ?thesis using Bucket_Insert_cases [OF assms(1), of val "comparator t" key] assms(4) that by auto
qed

abbreviation slots :: "('k, 'v) bucket \<Rightarrow> nat \<Rightarrow> nat \<Rightarrow> ('k \<times> 'v) multiset" where
  "slots b j n \<equiv> mset (map (\<lambda>m. array b ! m) [j..<n])"

lemma rehash_spec:
  assumes "keys_apart t" and "unat l < 32"
    and "bucket_inv n b" "bucket_inv n split" "j \<le> n"
    and "\<And>m. j \<le> m \<Longrightarrow> m < n \<Longrightarrow> rd b m"
    and "distinct (map (\<lambda>m. array b ! m) [j..<n])"
    and "\<And>m. j \<le> m \<Longrightarrow> m < n \<Longrightarrow> array b ! m \<notin> set (entries n split)"
    and "length (entries n split) \<le> j" and "n - j < fuel"
  shows "\<exists>b' split'. rehash fuel t n l sp (of_nat n) (of_nat j) b split = Some (b', split') \<and>
    bucket_inv n b' \<and> bucket_inv n split' \<and>
    mset (entries n split') = mset (entries n split) + filter_mset (moves t (unat l) (unat sp)) (slots b j n) \<and>
    mset (entries n b) = mset (entries n b') + filter_mset (moves t (unat l) (unat sp)) (slots b j n)"
  using assms(3-)
proof (induction "n - j" arbitrary: j b split fuel)
  case 0
  then show ?case by (cases fuel) auto
next
  case (Suc k)
  then have j: "j < n" and kk: "k = n - Suc j" by simp_all
  obtain fuel' where fuel: "fuel = Suc fuel'" using Suc.prems(8) by (cases fuel) auto
  have ff: "n - Suc j < fuel'" using Suc.prems(8) j fuel by simp
  note B = bucket_invD [OF Suc.prems(1)]
  have n32: "n < 2 ^ LENGTH(32)" using B(2) by simp
  have uj: "unat (of_nat j :: uint32) = j" by (rule unat_of_nat_small) (use j n32 in simp)
  have ne: "(of_nat j :: uint32) \<noteq> of_nat n"
    using uj unat_of_nat_small [OF n32] j by (metis nat_neq_iff)
  have rdj: "rd b j" by (rule Suc.prems(4)) (use j in simp_all)
  obtain key val where kv: "array b ! j = (key, val)" by (cases "array b ! j")
  have up: "[j..<n] = j # [Suc j..<n]" using j by (rule upt_conv_Cons)
  have bits: "IsReadable b j = Some True" "KeyAt b j = Some key" "ValueAt b j = Some val"
    using B(9) [OF j] B(3) j rdj kv by (simp_all add: KeyAt_def ValueAt_def)
  have next_j: "(of_nat j :: uint32) + 1 = of_nat (Suc j)" by simp
  let ?P = "moves t (unat l) (unat sp)"
  show ?case
  proof (cases "?P (key, val)")
    case True
    have "(key, val) \<notin> set (entries n split)" using Suc.prems(6) [of j] j kv by simp
    moreover have "length (entries n split) < n" using Suc.prems(7) j by simp
    ultimately obtain split1 where s1: "Bucket_Insert n split key val (comparator t) = Some (True, split1)"
      "bucket_inv n split1" "mset (entries n split1) = add_mset (key, val) (mset (entries n split))"
      using split_insert [OF Suc.prems(2) assms(1)] by metis
    let ?b = "clear_slot b j"
    note cl = clear_slot_inv [OF Suc.prems(1) j] clear_slot_entries [OF Suc.prems(1) j rdj]
    have arr: "array ?b = array b" by (simp add: clear_slot_def)
    have rd': "rd ?b m" if "Suc j \<le> m" "m < n" for m
      using Suc.prems(4) [of m] that B(11) [OF j] by (simp add: clear_slot_def bit_at_set_bit_at)
    have set1: "set (entries n split1) = insert (key, val) (set (entries n split))"
      using s1(3) by (metis set_mset_add_mset_insert set_mset_mset)
    have notin: "array ?b ! m \<notin> set (entries n split1)" if "Suc j \<le> m" "m < n" for m
    proof -
      have "array b ! m \<noteq> array b ! j" using Suc.prems(5) that unfolding up by (auto simp: image_iff) (metis atLeastLessThan_iff)
      then show ?thesis using Suc.prems(6) [of m] that kv by (simp add: set1 arr)
    qed
    have len: "length (entries n split1) \<le> Suc j" using s1(3) Suc.prems(7)
      by (metis Suc_le_mono size_add_mset size_mset)
    obtain b' split' where ih: "rehash fuel' t n l sp (of_nat n) (of_nat (Suc j)) ?b split1 = Some (b', split')"
      "bucket_inv n b'" "bucket_inv n split'"
      "mset (entries n split') = mset (entries n split1) + filter_mset ?P (slots ?b (Suc j) n)"
      "mset (entries n ?b) = mset (entries n b') + filter_mset ?P (slots ?b (Suc j) n)"
      using Suc.hyps(1) [OF kk, of ?b split1 fuel'] ff Suc.prems(3,5) j cl(1) s1(2) rd' notin len
      unfolding arr up by auto
    have "rehash fuel t n l sp (of_nat n) (of_nat j) b split
        = rehash fuel' t n l sp (of_nat n) (of_nat (Suc j)) ?b split1"
      using ne uj bits True s1(1) moves_test [OF assms(2), of t key sp val] assms(2)
        RemoveAt_clear [OF Suc.prems(1) j rdj]
      by (simp add: fuel Let_def add.commute)
    then show ?thesis
      using ih s1(3) cl(2) kv True by (simp add: arr up)
  next
    case False
    obtain b' split' where ih: "rehash fuel' t n l sp (of_nat n) (of_nat (Suc j)) b split = Some (b', split')"
      "bucket_inv n b'" "bucket_inv n split'"
      "mset (entries n split') = mset (entries n split) + filter_mset ?P (slots b (Suc j) n)"
      "mset (entries n b) = mset (entries n b') + filter_mset ?P (slots b (Suc j) n)"
      using Suc.hyps(1) [OF kk, of b split fuel'] ff Suc.prems j
      unfolding up by auto
    have "rehash fuel t n l sp (of_nat n) (of_nat j) b split
        = rehash fuel' t n l sp (of_nat n) (of_nat (Suc j)) b split"
      using ne uj bits False moves_test [OF assms(2), of t key sp val] assms(2)
      by (simp add: fuel Let_def add.commute)
    then show ?thesis using ih kv False by (simp add: up)
  qed
qed

subsection \<open>Lookups\<close>

definition lookup ::
    "'k hash_table \<Rightarrow> nat \<Rightarrow> dir_page \<Rightarrow> (page_id_t \<Rightarrow> ('k, 'v) bucket) \<Rightarrow> 'k \<Rightarrow> 'v list" where
  "lookup t n d bs key =
     matching (comparator t) key (entries n (bs (bucket_at d (unat (Hash t key) mod 2 ^ gd d))))"

lemma mset_matching:
  "mset (matching cmp key es) = image_mset snd (filter_mset (\<lambda>(k, _). cmp key k = 0) (mset es))"
  by (simp add: matching_def mset_filter)

lemma matching_filter:
  assumes "keys_apart t" and "mset es = filter_mset P M" and "M = mset es'" and "\<And>v. P (key, v)"
  shows "mset (matching (comparator t) key es) = mset (matching (comparator t) key es')"
proof -
  have "filter_mset (\<lambda>(k, _). comparator t key k = 0) (filter_mset P M)
      = filter_mset (\<lambda>(k, _). comparator t key k = 0) M"
    unfolding filter_filter_mset
    by (rule filter_mset_cong) (use assms(1,4) in \<open>auto simp: keys_apart_def\<close>)
  then show ?thesis using assms(2,3) by (simp add: mset_matching)
qed

lemma full_bucket:
  assumes "bucket_inv n b" and "IsFull n b"
  shows "\<And>m. m < n \<Longrightarrow> rd b m" "entries n b = map (\<lambda>m. array b ! m) [0..<n]" "NumReadable n b = of_nat n"
proof -
  show rd: "\<And>m. m < n \<Longrightarrow> rd b m"
    using not_full_none [OF assms] by blast
  then have "filter (rd b) [0..<n] = [0..<n]" by simp
  then show "entries n b = map (\<lambda>m. array b ! m) [0..<n]" by (simp add: entries_def)
  show "NumReadable n b = of_nat n" using assms(2) by (simp add: IsFull_def)
qed

text \<open>C31. A round of \<^verbatim>\<open>SplitInsert\<close> on the directory and the two buckets (\<open>split_round\<close> and \<open>rehash\<close>) loses
  nothing when the local depth of the full bucket is below 9 and equal to the global depth or one less, the new page
  is not in use and empty, no pair is stored twice in the bucket and the comparator tells keys apart: every key finds
  the values it found before, in the two buckets of the pair and in all others. (With a larger gap between the depths
  keys are lost, \<open>split_misses_slots\<close>.)\<close>

theorem split_keeps_lookups:
  assumes "dir_ok d" and "unat idx < 2 ^ gd d" and "ld d (unat idx) < 9"
    and "gd d \<le> Suc (ld d (unat idx))" and "\<forall>j < 2 ^ gd d. bucket_at d j \<noteq> p"
    and "keys_apart t" and "bucket_inv n (bs (bucket_at d (unat idx)))"
    and "IsFull n (bs (bucket_at d (unat idx)))" and "distinct (entries n (bs (bucket_at d (unat idx))))"
    and "bucket_inv n split" and "entries n split = []"
  shows "\<exists>d' sp b' split'. split_round d idx p = Some (d', sp) \<and>
    rehash (n + 1) t n (of_nat (Suc (ld d (unat idx)))) sp (NumReadable n (bs (bucket_at d (unat idx)))) 0
      (bs (bucket_at d (unat idx))) split = Some (b', split') \<and>
    bucket_inv n b' \<and> bucket_inv n split' \<and>
    (\<forall>key. mset (lookup t n d' (bs(bucket_at d (unat idx) := b', p := split')) key) = mset (lookup t n d bs key))"
proof -
  let ?i = "unat idx" and ?l = "ld d (unat idx)" and ?B = "bucket_at d (unat idx)"
  let ?b = "bs (bucket_at d (unat idx))"
  obtain d' sp where r: "split_round d idx p = Some (d', sp)" "split_spec d ?i p d'"
    "unat sp = (?i + 2 ^ ?l) mod 2 ^ Suc ?l"
    using split_round_spec [OF assms(1-4)] by blast
  have ul: "unat (of_nat (Suc ?l) :: uint32) = Suc ?l"
    by (rule unat_of_nat_small) (use assms(3) in simp)
  note full = full_bucket [OF assms(7,8)]
  obtain b' split' where h: "rehash (n + 1) t n (of_nat (Suc ?l)) sp (of_nat n) (of_nat 0) ?b split = Some (b', split')"
    "bucket_inv n b'" "bucket_inv n split'"
    "mset (entries n split') = filter_mset (moves t (Suc ?l) (unat sp)) (mset (entries n ?b))"
    "mset (entries n ?b) = mset (entries n b') + filter_mset (moves t (Suc ?l) (unat sp)) (mset (entries n ?b))"
    using rehash_spec [OF assms(6) _ assms(7,10), of "of_nat (Suc ?l)" 0 "n + 1" sp] assms(3,9,11) ul full
    by (auto simp del: of_nat_Suc)
  have b': "mset (entries n b') = filter_mset (\<lambda>kv. \<not> moves t (Suc ?l) (unat sp) kv) (mset (entries n ?b))"
    using h(5) multiset_partition [of "mset (entries n ?b)" "moves t (Suc ?l) (unat sp)"]
    by (metis add.commute add_left_cancel)
  have "mset (lookup t n d' (bs(?B := b', p := split')) key) = mset (lookup t n d bs key)" for key
  proof -
    let ?h = "unat (Hash t key)"
    let ?k = "?h mod 2 ^ Suc ?l"
    have kl: "?k < 2 ^ Suc ?l" by simp
    have km: "?k mod 2 ^ gd d = ?h mod 2 ^ gd d" by (rule mod_mod_cancel) (rule le_imp_power_dvd [OF assms(4)])
    have pB: "?B \<noteq> p" and pk: "bucket_at d (?h mod 2 ^ gd d) \<noteq> p" using assms(2,5) by simp_all
    have at: "gd d' = Suc ?l" "bucket_at d' ?k = (if ?k = unat sp then p else bucket_at d (?h mod 2 ^ gd d))"
      using r(2) kl unfolding split_spec_def Let_def r(3) [symmetric] km [symmetric] by (metis)+
    note two = old_bucket_slots [OF assms(1,2,4) kl, folded r(3), unfolded km]
    consider "?k = unat sp" | "?k \<noteq> unat sp" "?k = ?i" | "?k \<noteq> unat sp" "?k \<noteq> ?i" by blast
    then show ?thesis
    proof cases
      case 1
      then have "bucket_at d (?h mod 2 ^ gd d) = ?B" using two by simp
      moreover have "mset (matching (comparator t) key (entries n split'))
          = mset (matching (comparator t) key (entries n ?b))"
        by (rule matching_filter [OF assms(6) h(4) refl]) (use 1 in \<open>simp only: moves_def fst_conv\<close>)
      ultimately show ?thesis using 1 at by (simp add: lookup_def)
    next
      case 2
      then have "bucket_at d (?h mod 2 ^ gd d) = ?B" using two by simp
      moreover have "mset (matching (comparator t) key (entries n b'))
          = mset (matching (comparator t) key (entries n ?b))"
        by (rule matching_filter [OF assms(6) b' refl]) (use 2(1) in \<open>simp only: moves_def fst_conv not_False_eq_True\<close>)
      ultimately show ?thesis using 2 at pB by (simp add: lookup_def)
    next
      case 3
      then have "bucket_at d (?h mod 2 ^ gd d) \<noteq> ?B" using two by simp
      then show ?thesis using 3 at pk by (simp add: lookup_def)
    qed
  qed
  then have "\<forall>key. mset (lookup t n d' (bs(?B := b', p := split')) key) = mset (lookup t n d bs key)"
    by blast
  moreover have "rehash (n + 1) t n (of_nat (Suc ?l)) sp (NumReadable n ?b) 0 ?b split = Some (b', split')"
    using h(1) full(3) by (simp del: of_nat_Suc rehash.simps)
  ultimately show ?thesis using r(1) h(2,3) by blast
qed

definition int_table :: "int hash_table" where
  "int_table = \<lparr>directory_page_id = 0, comparator = (\<lambda>a b. a - b), hash_fn = of_int\<rparr>"

definition two_pairs :: "(int, int) bucket" where
  "two_pairs = fill_slot (fill_slot (empty_bucket 2 0 0) 0 (4, 40)) 1 (6, 60)"

lemma two_pairs_inv: "bucket_inv 2 two_pairs" "entries 2 two_pairs = [(4, 40), (6, 60)]"
proof -
  let ?e = "empty_bucket 2 (0::int) (0::int)" and ?f = "fill_slot (empty_bucket 2 0 0) 0 (4::int, 40::int)"
  have e: "bucket_inv 2 ?e" by (simp add: empty_bucket_inv)
  have f: "bucket_inv 2 ?f" by (rule fill_slot_inv [OF e]) simp_all
  have "rd ?f 0" by code_simp
  then show "bucket_inv 2 two_pairs"
    unfolding two_pairs_def by (intro fill_slot_inv [OF f]) (simp_all add: less_Suc_eq)
  show "entries 2 two_pairs = [(4, 40), (6, 60)]" by code_simp
qed

theorem split_keeps_lookups_witness:
  "\<exists>d' sp b' split'. split_round small_dir 0 100 = Some (d', sp) \<and>
    rehash (2 + 1) int_table 2 (of_nat (Suc (ld small_dir (unat (0 :: uint32))))) sp
      (NumReadable 2 two_pairs) 0 two_pairs (empty_bucket 2 0 0) = Some (b', split') \<and>
    bucket_inv 2 b' \<and> bucket_inv 2 split' \<and>
    (\<forall>key. mset (lookup int_table 2 d'
        ((\<lambda>_. two_pairs)(bucket_at small_dir (unat (0 :: uint32)) := b', 100 := split')) key)
      = mset (lookup int_table 2 small_dir (\<lambda>_. two_pairs) key))"
proof (rule split_keeps_lookups [OF small_dir_ok])
  show "\<forall>j < 2 ^ gd small_dir. bucket_at small_dir j \<noteq> 100"
    unfolding small_dir_simps(1) less_4_cases by (auto simp: small_dir_simps simp del: One_nat_def)
  show "IsFull 2 two_pairs" using IsFull_entries [OF two_pairs_inv(1)] two_pairs_inv(2) by simp
qed (simp_all add: small_dir_simps keys_apart_def int_table_def two_pairs_inv empty_bucket_inv)

end
