(* ===== verification/HashTablePool.thy ===== *)
theory HashTablePool
  imports Rehash
begin

section \<open>The hash table in a buffer pool\<close>

text \<open>Searching, inserting into a bucket that has room and removing from a bucket that keeps a pair,
  through any pool that keeps the contract \<open>buffer_pool\<close>, and so through an instance of
  \<^verbatim>\<open>BufferPoolManagerInstance\<close>.\<close>

text \<open>\<open>bucket_layout\<close>: a bucket page can be written and read back, and writing what was read changes
  no byte.\<close>

definition bucket_layout :: "nat \<Rightarrow> ('k, 'v) page_layout \<Rightarrow> bool" where
  "bucket_layout psize lay \<longleftrightarrow>
     (\<forall>b x. bucket_inv (bucket_size lay) b \<and> length x = psize \<longrightarrow>
        bucket_of lay (bucket_to lay b x) = b \<and> length (bucket_to lay b x) = psize) \<and>
     (\<forall>x. length x = psize \<longrightarrow> bucket_to lay (bucket_of lay x) x = x)"

text \<open>\<open>slot_page t d key\<close>: the page of the bucket for a key.\<close>

definition slot_page :: "'k hash_table \<Rightarrow> dir_page \<Rightarrow> 'k \<Rightarrow> page_id_t" where
  "slot_page t d key = bucket_at d (unat (Hash t key) mod 2 ^ gd d)"

lemma KeyToPageId_slot:
  assumes "dir_wf d"
  shows "KeyToPageId t key d = Some (slot_page t d key)"
proof -
  have g: "gd d \<le> 9" "length (bucket_page_ids d) = 512"
    using assms by (simp_all add: dir_wf_def DIRECTORY_ARRAY_SIZE_def)
  have u: "unat (Hash t key AND mask (gd d)) = unat (Hash t key) mod 2 ^ gd d"
    by (simp only: mask_eq_exp_minus_1 unat_and_pow_minus_1)
  have "2 ^ gd d \<le> (512::nat)" using power_increasing [OF g(1), of "2::nat"] by simp
  then have "unat (Hash t key) mod 2 ^ gd d < 512"
    by (rule less_le_trans [rotated]) simp
  then show ?thesis
    using g u by (simp add: KeyToPageId_def KeyToDirectoryIndex_def GetGlobalDepthMask_gd
        GetBucketPageId_def slot_page_def bucket_at_def)
qed

definition ops_of ::
    "('s \<Rightarrow> ((page_id_t \<times> 'p) option \<times> 's) option) \<Rightarrow> ('s \<Rightarrow> page_id_t \<Rightarrow> ('p option \<times> 's) option) \<Rightarrow>
     ('s \<Rightarrow> page_id_t \<Rightarrow> bool \<Rightarrow> (bool \<times> 's) option) \<Rightarrow> ('s \<Rightarrow> 'p \<Rightarrow> bytes) \<Rightarrow> ('s \<Rightarrow> 'p \<Rightarrow> bytes \<Rightarrow> 's) \<Rightarrow>
     ('s, 'p) pool_ops" where
  "ops_of new_page fetch unpin get put =
     \<lparr>NewPage = new_page, FetchPage = fetch, UnpinPage = unpin, GetData = get, SetData = put\<rparr>"

text \<open>The index at rest: nobody holds a page, the directory and the bucket of the key are there.\<close>

definition bucket_for :: "('k, 'v) page_layout \<Rightarrow> 'k hash_table \<Rightarrow> (page_id_t \<rightharpoonup> bytes) \<Rightarrow> 'k \<Rightarrow> ('k, 'v) bucket" where
  "bucket_for lay t m key =
     bucket_of lay (the (m (slot_page t (dir_of lay (the (m (directory_page_id t)))) key)))"

definition index_ready ::
    "('k, 'v) page_layout \<Rightarrow> 'k hash_table \<Rightarrow> (page_id_t \<rightharpoonup> bytes) \<Rightarrow> (page_id_t \<Rightarrow> bool) \<Rightarrow> 'k \<Rightarrow> bool" where
  "index_ready lay t m alloc key \<longleftrightarrow>
     (let p = directory_page_id t; d = dir_of lay (the (m p)); q = slot_page t d key in
      p \<in> dom m \<and> alloc p \<and> dir_wf d \<and> q \<in> dom m \<and> alloc q \<and> p \<noteq> q \<and>
      bucket_inv (bucket_size lay) (bucket_for lay t m key))"

context buffer_pool
begin

text \<open>Two pages in hand: the first fetched is still where it was.\<close>

lemma fetch_two:
  assumes ok: "ok s" and h: "held s = (\<lambda>_. 0)" and cap: "2 \<le> cap s"
    and p: "alloc s p" "content s p = Some x" and q: "alloc s q" "content s q = Some y" and ne: "p \<noteq> q"
  obtains f s1 g s2 where "fetch s p = Some (Some f, s1)" "get s1 f = x"
    "fetch s1 q = Some (Some g, s2)" "get s2 g = y" "ok s2" "cap s2 = cap s"
    "at s2 p = Some f" "at s2 q = Some g" "content s \<subseteq>\<^sub>m content s2"
    "held s2 = (\<lambda>_. 0)(p := 1, q := 1)" "clean s2 p" "clean s2 q" "\<And>r. alloc s r \<Longrightarrow> alloc s2 r"
proof -
  obtain f s1 where 1: "fetch s p = Some (Some f, s1)" "ok s1" "cap s1 = cap s" "at s1 p = Some f" "get s1 f = x"
    "content s \<subseteq>\<^sub>m content s1" "held s1 = (\<lambda>_. 0)(p := 1)" "clean s1 p" "\<And>r. alloc s r \<Longrightarrow> alloc s1 r"
    using fetch_spec [OF ok p] h cap by auto
  have "card {r. 0 < held s1 r} < cap s1"
  proof -
    have "{r. 0 < held s1 r} = {p}" using 1(7) by auto
    then show ?thesis using 1(3) cap by simp
  qed
  moreover have "content s1 q = Some y" by (rule map_leD [OF 1(6) q(2)])
  ultimately obtain g s2 where 2: "fetch s1 q = Some (Some g, s2)" "ok s2" "cap s2 = cap s1" "at s2 q = Some g"
    "get s2 g = y" "content s1 \<subseteq>\<^sub>m content s2" "held s2 = (held s1)(q := held s1 q + 1)" "clean s2 q"
    "\<forall>r. (alloc s1 r \<longrightarrow> alloc s2 r) \<and> (0 < held s1 r \<longrightarrow> at s2 r = at s1 r) \<and> (clean s1 r \<longrightarrow> clean s2 r)"
    using fetch_spec [OF 1(2) 1(9) [OF q(1)]] 1(7) ne by fastforce
  show ?thesis
  proof (rule that [OF 1(1,5) 2(1,5,2)])
    show "at s2 p = Some f" using 2(9) 1(4,7) by simp
    show "content s \<subseteq>\<^sub>m content s2" using 1(6) 2(6) by (rule map_le_trans)
    show "held s2 = (\<lambda>_. 0)(p := 1, q := 1)" using 1(7) 2(7) ne by (auto simp: fun_eq_iff)
  qed (use 1 2 in auto)
qed

text \<open>Giving back the second page and then the first, unchanged.\<close>

lemma unpin_two:
  assumes "ok s" and "held s = (\<lambda>_. 0)(p := 1, q := 1)" and "p \<noteq> q" and "clean s p" and "b \<or> clean s q"
  obtains s1 s2 where "unpin s q b = Some (True, s1)" "unpin s1 p False = Some (True, s2)" "ok s2"
    "content s \<subseteq>\<^sub>m content s2" "held s2 = (\<lambda>_. 0)" "alloc s2 = alloc s" "cap s2 = cap s"
proof -
  obtain s1 where 1: "unpin s q b = Some (True, s1)" "ok s1" "cap s1 = cap s" "content s \<subseteq>\<^sub>m content s1"
    "held s1 = (\<lambda>_. 0)(p := 1)" "alloc s1 = alloc s" "clean s1 p"
    using unpin_spec [OF assms(1), of q b] assms(2-5) by (fastforce simp: fun_eq_iff)
  obtain s2 where 2: "unpin s1 p False = Some (True, s2)" "ok s2" "cap s2 = cap s1" "content s1 \<subseteq>\<^sub>m content s2"
    "held s2 = (\<lambda>_. 0)" "alloc s2 = alloc s1"
    using unpin_spec [OF 1(2), of p False] 1(5,7) by (auto simp: fun_upd_idem)
  show ?thesis using that [OF 1(1) 2(1,2) map_le_trans [OF 1(4) 2(4)] 2(5)] 1 2 by simp
qed

text \<open>What all three operations share: both pages fetched, the bucket perhaps written.\<close>

lemma with_bucket:
  assumes ok: "ok s" and h: "held s = (\<lambda>_. 0)" and cap: "2 \<le> cap s"
    and ready: "index_ready lay t (content s) (alloc s) key"
  defines "ops \<equiv> ops_of new_page fetch unpin get put"
  defines "q \<equiv> slot_page t (dir_of lay (the (content s (directory_page_id t)))) key"
  obtains f s1 g s2 where "FetchDirectoryPage ops t s = Some (f, s1)"
    "KeyToPageId t key (dir_of lay (GetData ops s1 f)) = Some q"
    "FetchBucketPage ops s1 q = Some (g, s2)" "bucket_of lay (GetData ops s2 g) = bucket_for lay t (content s) key"
    "ok s2" "cap s2 = cap s" "at s2 q = Some g" "content s \<subseteq>\<^sub>m content s2" "directory_page_id t \<noteq> q"
    "held s2 = (\<lambda>_. 0)(directory_page_id t := 1, q := 1)" "clean s2 (directory_page_id t)" "clean s2 q"
    "\<And>r. alloc s r \<Longrightarrow> alloc s2 r" "content s2 q = Some (GetData ops s2 g)" "length (GetData ops s2 g) = psize"
    "bucket_inv (bucket_size lay) (bucket_for lay t (content s) key)"
proof -
  let ?p = "directory_page_id t"
  obtain x where x: "content s ?p = Some x" using ready by (auto simp: index_ready_def Let_def)
  have q: "q = slot_page t (dir_of lay x) key" by (simp add: q_def x)
  obtain y where y: "content s q = Some y" using ready x by (auto simp: index_ready_def Let_def q)
  have r: "alloc s ?p" "alloc s q" "?p \<noteq> q" "dir_wf (dir_of lay x)"
    "bucket_inv (bucket_size lay) (bucket_for lay t (content s) key)"
    using ready x by (auto simp: index_ready_def Let_def q)
  have b: "bucket_for lay t (content s) key = bucket_of lay y" using x y q by (simp add: bucket_for_def)
  from fetch_two [OF ok h cap r(1) x r(2) y r(3)] obtain f s1 g s2 where
    s: "fetch s ?p = Some (Some f, s1)" "get s1 f = x" "fetch s1 q = Some (Some g, s2)" "get s2 g = y" "ok s2"
    "cap s2 = cap s" "at s2 ?p = Some f" "at s2 q = Some g" "content s \<subseteq>\<^sub>m content s2"
    "held s2 = (\<lambda>_. 0)(?p := 1, q := 1)" "clean s2 ?p" "clean s2 q" "\<And>r. alloc s r \<Longrightarrow> alloc s2 r" by blast
  have cy: "content s2 q = Some y" by (rule map_leD [OF s(9) y])
  show ?thesis
  proof (rule that)
    show "FetchDirectoryPage ops t s = Some (f, s1)" "FetchBucketPage ops s1 q = Some (g, s2)"
      using s by (simp_all add: FetchDirectoryPage_def FetchBucketPage_def ops_def ops_of_def)
    show "KeyToPageId t key (dir_of lay (GetData ops s1 f)) = Some q"
      using KeyToPageId_slot [OF r(4)] s(2) by (simp add: ops_def ops_of_def q)
    show "bucket_of lay (GetData ops s2 g) = bucket_for lay t (content s) key"
      "content s2 q = Some (GetData ops s2 g)"
      using s(4) b cy by (simp_all add: ops_def ops_of_def)
    show "length (GetData ops s2 g) = psize"
      using content_length [OF s(5) cy] s(4) by (simp add: ops_def ops_of_def)
  qed (use s r in auto)
qed

lemma GetValue_pool:
  assumes "ok s" and "held s = (\<lambda>_. 0)" and "2 \<le> cap s"
    and "index_ready lay t (content s) (alloc s) key"
  shows "\<exists>s'. HashTable_GetValue (ops_of new_page fetch unpin get put) lay t s key result =
      Some ((result @ matching (comparator t) key (entries (bucket_size lay) (bucket_for lay t (content s) key)) \<noteq> [],
        result @ matching (comparator t) key (entries (bucket_size lay) (bucket_for lay t (content s) key))), s') \<and>
    ok s' \<and> content s \<subseteq>\<^sub>m content s' \<and> held s' = (\<lambda>_. 0)"
proof -
  let ?ops = "ops_of new_page fetch unpin get put"
  from with_bucket [OF assms] obtain f s1 g s2 q where b: "FetchDirectoryPage ?ops t s = Some (f, s1)"
    "KeyToPageId t key (dir_of lay (GetData ?ops s1 f)) = Some q"
    "FetchBucketPage ?ops s1 q = Some (g, s2)" "bucket_of lay (GetData ?ops s2 g) = bucket_for lay t (content s) key"
    "ok s2" "content s \<subseteq>\<^sub>m content s2" "directory_page_id t \<noteq> q"
    "held s2 = (\<lambda>_. 0)(directory_page_id t := 1, q := 1)" "clean s2 (directory_page_id t)" "clean s2 q"
    "bucket_inv (bucket_size lay) (bucket_for lay t (content s) key)" by metis
  from unpin_two [OF b(5,8,7,9), of False] b(10) obtain s3 s4 where u: "unpin s2 q False = Some (True, s3)"
    "unpin s3 (directory_page_id t) False = Some (True, s4)" "ok s4" "content s2 \<subseteq>\<^sub>m content s4"
    "held s4 = (\<lambda>_. 0)" by metis
  have "content s \<subseteq>\<^sub>m content s4" using b(6) u(4) by (rule map_le_trans)
  then show ?thesis
    using b(1-4) u Bucket_GetValue_matching [OF b(11)]
    by (simp add: HashTable_GetValue_def Let_def) (simp add: ops_of_def)
qed

text \<open>Writing the bucket back and giving both pages back. The directory and all other pages keep
  their content; the bucket of the key is the one written.\<close>

lemma bucket_for_upd:
  assumes "index_ready lay t m al key" and "m(slot_page t (dir_of lay (the (m (directory_page_id t)))) key \<mapsto> y) \<subseteq>\<^sub>m m'"
  shows "bucket_for lay t m' key = bucket_of lay y" "m' (directory_page_id t) = m (directory_page_id t)"
proof -
  let ?q = "slot_page t (dir_of lay (the (m (directory_page_id t)))) key"
  have p: "directory_page_id t \<in> dom m" "directory_page_id t \<noteq> ?q"
    using assms(1) by (auto simp: index_ready_def Let_def)
  then obtain x where x: "m (directory_page_id t) = Some x" by blast
  have "m' (directory_page_id t) = Some x" using map_leD [OF assms(2)] p x by simp
  moreover have "m' ?q = Some y" using map_leD [OF assms(2)] by simp
  ultimately show "bucket_for lay t m' key = bucket_of lay y" "m' (directory_page_id t) = m (directory_page_id t)"
    using x by (simp_all add: bucket_for_def)
qed

lemma write_bucket:
  assumes ok: "ok s" and h: "held s = (\<lambda>_. 0)(p := 1, q := 1)" and ne: "p \<noteq> q" and at: "at s q = Some g"
    and cl: "clean s p" "clean s q" and c: "content s q = Some x" "get s g = x" "length x = psize"
    and lay: "bucket_layout psize lay" and b: "bucket_inv (bucket_size lay) b"
    and d: "d \<or> b = bucket_of lay x"
  defines "ops \<equiv> ops_of new_page fetch unpin get put"
  obtains s1 s2 where "unpin (put_bucket ops lay s g b) q d = Some (True, s1)" "unpin s1 p False = Some (True, s2)"
    "ok s2" "(content s)(q \<mapsto> bucket_to lay b x) \<subseteq>\<^sub>m content s2" "held s2 = (\<lambda>_. 0)"
    "bucket_of lay (bucket_to lay b x) = b"
proof -
  let ?y = "bucket_to lay b x"
  have y: "bucket_of lay ?y = b" "length ?y = psize" "b = bucket_of lay x \<Longrightarrow> ?y = x"
    using lay b c(3) by (auto simp: bucket_layout_def)
  have "0 < held s q" using h by simp
  note pt = put_spec [OF ok at this y(2)]
  have put: "put_bucket ops lay s g b = put s g ?y"
    using c(2) by (simp add: put_bucket_def ops_def ops_of_def)
  have cl': "clean (put s g ?y) p" "d \<or> clean (put s g ?y) q"
    using pt ne cl c(1) d y(3) by auto
  from unpin_two [of "put s g ?y" p q d] pt h ne cl' obtain s1 s2 where
    "unpin (put s g ?y) q d = Some (True, s1)" "unpin s1 p False = Some (True, s2)" "ok s2"
    "content (put s g ?y) \<subseteq>\<^sub>m content s2" "held s2 = (\<lambda>_. 0)" by metis
  then show ?thesis using that put pt y(1) by simp
qed

lemma Insert_pool:
  assumes ok: "ok s" and h: "held s = (\<lambda>_. 0)" and cap: "2 \<le> cap s"
    and ready: "index_ready lay t (content s) (alloc s) key" and lay: "bucket_layout psize lay"
    and room: "\<not> IsFull (bucket_size lay) (bucket_for lay t (content s) key)"
  defines "n \<equiv> bucket_size lay" and "b \<equiv> bucket_for lay t (content s) key"
    and "q \<equiv> slot_page t (dir_of lay (the (content s (directory_page_id t)))) key"
  shows "\<exists>success s' y. HashTable_Insert fuel (ops_of new_page fetch unpin get put) lay t s key val = Some (success, s') \<and>
    (success \<longleftrightarrow> val \<notin> set (matching (comparator t) key (entries n b))) \<and>
    ok s' \<and> held s' = (\<lambda>_. 0) \<and> (content s)(q \<mapsto> y) \<subseteq>\<^sub>m content s' \<and>
    bucket_inv n (bucket_for lay t (content s') key) \<and>
    mset (entries n (bucket_for lay t (content s') key)) =
      (if success then add_mset (key, val) (mset (entries n b)) else mset (entries n b))"
proof -
  let ?ops = "ops_of new_page fetch unpin get put" and ?p = "directory_page_id t"
  from with_bucket [OF ok h cap ready, folded q_def b_def n_def] obtain f s1 g s2 where w:
    "FetchDirectoryPage ?ops t s = Some (f, s1)"
    "KeyToPageId t key (dir_of lay (GetData ?ops s1 f)) = Some q"
    "FetchBucketPage ?ops s1 q = Some (g, s2)" "bucket_of lay (GetData ?ops s2 g) = b"
    "ok s2" "at s2 q = Some g" "content s \<subseteq>\<^sub>m content s2" "?p \<noteq> q"
    "held s2 = (\<lambda>_. 0)(?p := 1, q := 1)" "clean s2 ?p" "clean s2 q"
    "content s2 q = Some (GetData ?ops s2 g)" "length (GetData ?ops s2 g) = psize" "bucket_inv n b" by metis
  have get: "GetData ?ops s2 g = get s2 g" by (simp add: ops_of_def)
  define success where "success \<longleftrightarrow> val \<notin> set (matching (comparator t) key (entries n b))"
  obtain b' where b': "Bucket_Insert n b key val (comparator t) = Some (success, b')" "bucket_inv n b'"
    "mset (entries n b') = (if success then add_mset (key, val) (mset (entries n b)) else mset (entries n b))"
    "success \<or> b' = b"
  proof -
    have "length (entries n b) \<noteq> n" using room IsFull_entries [OF w(14)] by (simp add: n_def b_def)
    then show thesis
      using Bucket_Insert_cases [OF w(14), of val "comparator t" key] that w(14)
      by (auto simp: success_def split: if_splits)
  qed
  obtain s3 s4 where u: "unpin (put_bucket ?ops lay s2 g b') q success = Some (True, s3)"
    "unpin s3 ?p False = Some (True, s4)" "ok s4" "(content s2)(q \<mapsto> bucket_to lay b' (get s2 g)) \<subseteq>\<^sub>m content s4"
    "held s4 = (\<lambda>_. 0)" "bucket_of lay (bucket_to lay b' (get s2 g)) = b'"
    by (rule write_bucket [OF w(5,9,8,6,10,11) w(12) [unfolded get] refl w(13) [unfolded get] lay, of b' success])
      (use b'(2,4) w(4) get in \<open>auto simp: n_def\<close>)
  have "(content s)(q \<mapsto> bucket_to lay b' (get s2 g)) \<subseteq>\<^sub>m (content s2)(q \<mapsto> bucket_to lay b' (get s2 g))"
    using w(7) by (rule map_le_upd)
  then have le: "(content s)(q \<mapsto> bucket_to lay b' (get s2 g)) \<subseteq>\<^sub>m content s4"
    using u(4) by (rule map_le_trans)
  have bf: "bucket_for lay t (content s4) key = b'"
    using bucket_for_upd(1) [OF ready le [unfolded q_def]] u(6) by simp
  have "HashTable_Insert fuel ?ops lay t s key val = Some (success, s4)"
    using w(1-4) b'(1) u(1,2) room
    by (simp add: HashTable_Insert_def n_def b_def Let_def) (simp add: ops_of_def)
  with u(3,5) le bf b'(2,3) show ?thesis unfolding success_def by metis
qed

lemma Remove_pool:
  assumes ok: "ok s" and h: "held s = (\<lambda>_. 0)" and cap: "2 \<le> cap s"
    and ready: "index_ready lay t (content s) (alloc s) key" and lay: "bucket_layout psize lay"
    and more: "1 < length (entries (bucket_size lay) (bucket_for lay t (content s) key))"
  defines "n \<equiv> bucket_size lay" and "b \<equiv> bucket_for lay t (content s) key"
    and "q \<equiv> slot_page t (dir_of lay (the (content s (directory_page_id t)))) key"
  shows "\<exists>success s' y. HashTable_Remove (ops_of new_page fetch unpin get put) lay t s key val = Some (success, s') \<and>
    (success \<longleftrightarrow> val \<in> set (matching (comparator t) key (entries n b))) \<and>
    ok s' \<and> held s' = (\<lambda>_. 0) \<and> (content s)(q \<mapsto> y) \<subseteq>\<^sub>m content s' \<and>
    bucket_inv n (bucket_for lay t (content s') key) \<and>
    (if success
     then \<exists>k. comparator t key k = 0 \<and>
       mset (entries n b) = add_mset (k, val) (mset (entries n (bucket_for lay t (content s') key)))
     else entries n (bucket_for lay t (content s') key) = entries n b)"
proof -
  let ?ops = "ops_of new_page fetch unpin get put" and ?p = "directory_page_id t"
  from with_bucket [OF ok h cap ready, folded q_def b_def n_def] obtain f s1 g s2 where w:
    "FetchDirectoryPage ?ops t s = Some (f, s1)"
    "KeyToPageId t key (dir_of lay (GetData ?ops s1 f)) = Some q"
    "FetchBucketPage ?ops s1 q = Some (g, s2)" "bucket_of lay (GetData ?ops s2 g) = b"
    "ok s2" "at s2 q = Some g" "content s \<subseteq>\<^sub>m content s2" "?p \<noteq> q"
    "held s2 = (\<lambda>_. 0)(?p := 1, q := 1)" "clean s2 ?p" "clean s2 q"
    "content s2 q = Some (GetData ?ops s2 g)" "length (GetData ?ops s2 g) = psize" "bucket_inv n b" by metis
  have get: "GetData ?ops s2 g = get s2 g" by (simp add: ops_of_def)
  define success where "success \<longleftrightarrow> val \<in> set (matching (comparator t) key (entries n b))"
  obtain b' where b': "Bucket_Remove n b key val (comparator t) = Some (success, b')" "bucket_inv n b'"
    "if success then \<exists>k. comparator t key k = 0 \<and> mset (entries n b) = add_mset (k, val) (mset (entries n b'))
     else b' = b"
  proof (cases success)
    case True
    then obtain b' k where "Bucket_Remove n b key val (comparator t) = Some (True, b')" "bucket_inv n b'"
      "comparator t key k = 0" "mset (entries n b) = add_mset (k, val) (mset (entries n b'))"
      using Bucket_Remove_cases [OF w(14), of val "comparator t" key] by (auto simp: success_def)
    with True show thesis by (intro that [of b']) auto
  next
    case False
    then have "Bucket_Remove n b key val (comparator t) = Some (False, b)"
      using Bucket_Remove_cases [OF w(14), of val "comparator t" key] by (auto simp: success_def)
    with False w(14) show thesis by (intro that [of b]) auto
  qed
  have left: "\<not> IsEmpty n b'"
  proof -
    have "length (entries n b) \<le> Suc (length (entries n b'))"
    proof (cases success)
      case True
      with b'(3) obtain k where "mset (entries n b) = add_mset (k, val) (mset (entries n b'))" by auto
      then have "size (mset (entries n b)) = Suc (size (mset (entries n b')))" by (simp only: size_add_mset)
      then show ?thesis by simp
    qed (use b'(3) in simp)
    then show ?thesis using more IsEmpty_entries [OF b'(2)] by (auto simp: n_def b_def)
  qed
  obtain s3 s4 where u: "unpin (put_bucket ?ops lay s2 g b') q success = Some (True, s3)"
    "unpin s3 ?p False = Some (True, s4)" "ok s4" "(content s2)(q \<mapsto> bucket_to lay b' (get s2 g)) \<subseteq>\<^sub>m content s4"
    "held s4 = (\<lambda>_. 0)" "bucket_of lay (bucket_to lay b' (get s2 g)) = b'"
    by (rule write_bucket [OF w(5,9,8,6,10,11) w(12) [unfolded get] refl w(13) [unfolded get] lay, of b' success])
      (use b'(2,3) w(4) get in \<open>auto simp: n_def split: if_splits\<close>)
  have "(content s)(q \<mapsto> bucket_to lay b' (get s2 g)) \<subseteq>\<^sub>m (content s2)(q \<mapsto> bucket_to lay b' (get s2 g))"
    using w(7) by (rule map_le_upd)
  then have le: "(content s)(q \<mapsto> bucket_to lay b' (get s2 g)) \<subseteq>\<^sub>m content s4"
    using u(4) by (rule map_le_trans)
  have bf: "bucket_for lay t (content s4) key = b'"
    using bucket_for_upd(1) [OF ready le [unfolded q_def]] u(6) by simp
  have "HashTable_Remove ?ops lay t s key val = Some (success, s4)"
    using w(1-4) b'(1) u(1,2) left
    by (simp add: HashTable_Remove_def n_def b_def Let_def) (simp add: ops_of_def)
  with u(3,5) le bf b'(2,3) show ?thesis unfolding success_def by metis
qed

end

subsection \<open>Properties\<close>

abbreviation bpm_ops :: "config \<Rightarrow> (bpm, frame_id_t) pool_ops" where
  "bpm_ops cfg \<equiv> ops_of (NewPgImp cfg) (FetchPgImp cfg) (UnpinPgImp cfg) read_frame write_frame"

text \<open>C19. A search in a table that lives in a buffer pool of two frames or more returns the values of
  the key's bucket that compare equal, whatever pages have to be evicted for it, and neither changes
  a page nor keeps one pinned.\<close>

theorem HashTable_GetValue_correct:
  assumes "pool_ok cfg s" and "pins s = (\<lambda>_. 0)" and "2 \<le> pool_size s"
    and "index_ready lay t (view cfg s) (allocated s) key"
  shows "\<exists>s'. HashTable_GetValue (bpm_ops cfg) lay t s key result =
      Some ((result @ matching (comparator t) key (entries (bucket_size lay) (bucket_for lay t (view cfg s) key)) \<noteq> [],
        result @ matching (comparator t) key (entries (bucket_size lay) (bucket_for lay t (view cfg s) key))), s') \<and>
    pool_ok cfg s' \<and> view cfg s \<subseteq>\<^sub>m view cfg s' \<and> pins s' = (\<lambda>_. 0)"
  by (rule bpmi.GetValue_pool [OF assms])

text \<open>C20. Inserting into a bucket with room adds the pair unless the key already has the value, says
  which of the two it was, and changes no page but the bucket's; afterwards nothing is pinned.\<close>

theorem HashTable_Insert_correct:
  assumes "pool_ok cfg s" and "pins s = (\<lambda>_. 0)" and "2 \<le> pool_size s"
    and "index_ready lay t (view cfg s) (allocated s) key" and "bucket_layout (PAGE_SIZE cfg) lay"
    and "\<not> IsFull (bucket_size lay) (bucket_for lay t (view cfg s) key)"
  shows "\<exists>success s' y. HashTable_Insert fuel (bpm_ops cfg) lay t s key val = Some (success, s') \<and>
    (success \<longleftrightarrow> val \<notin> set (matching (comparator t) key
       (entries (bucket_size lay) (bucket_for lay t (view cfg s) key)))) \<and>
    pool_ok cfg s' \<and> pins s' = (\<lambda>_. 0) \<and>
    (view cfg s)(slot_page t (dir_of lay (the (view cfg s (directory_page_id t)))) key \<mapsto> y) \<subseteq>\<^sub>m view cfg s' \<and>
    bucket_inv (bucket_size lay) (bucket_for lay t (view cfg s') key) \<and>
    mset (entries (bucket_size lay) (bucket_for lay t (view cfg s') key)) =
      (if success then add_mset (key, val) (mset (entries (bucket_size lay) (bucket_for lay t (view cfg s) key)))
       else mset (entries (bucket_size lay) (bucket_for lay t (view cfg s) key)))"
  by (rule bpmi.Insert_pool [OF assms])

text \<open>C21. Removing from a bucket of two or more pairs takes out one pair with that key and value, or
  none and says so, and changes no page but the bucket's; afterwards nothing is pinned.\<close>

theorem HashTable_Remove_correct:
  assumes "pool_ok cfg s" and "pins s = (\<lambda>_. 0)" and "2 \<le> pool_size s"
    and "index_ready lay t (view cfg s) (allocated s) key" and "bucket_layout (PAGE_SIZE cfg) lay"
    and "1 < length (entries (bucket_size lay) (bucket_for lay t (view cfg s) key))"
  shows "\<exists>success s' y. HashTable_Remove (bpm_ops cfg) lay t s key val = Some (success, s') \<and>
    (success \<longleftrightarrow> val \<in> set (matching (comparator t) key
       (entries (bucket_size lay) (bucket_for lay t (view cfg s) key)))) \<and>
    pool_ok cfg s' \<and> pins s' = (\<lambda>_. 0) \<and>
    (view cfg s)(slot_page t (dir_of lay (the (view cfg s (directory_page_id t)))) key \<mapsto> y) \<subseteq>\<^sub>m view cfg s' \<and>
    bucket_inv (bucket_size lay) (bucket_for lay t (view cfg s') key) \<and>
    (if success
     then \<exists>k. comparator t key k = 0 \<and> mset (entries (bucket_size lay) (bucket_for lay t (view cfg s) key)) =
       add_mset (k, val) (mset (entries (bucket_size lay) (bucket_for lay t (view cfg s') key)))
     else entries (bucket_size lay) (bucket_for lay t (view cfg s') key)
       = entries (bucket_size lay) (bucket_for lay t (view cfg s) key))"
  by (rule bpmi.Remove_pool [OF assms])

subsection \<open>A concrete table\<close>

text \<open>Pages of six bytes: a directory page holds the numbers of two buckets, a bucket page its two
  bitmap bytes and two pairs of a one-byte key and a one-byte value.\<close>

definition tiny_cfg :: config where
  "tiny_cfg = small_cfg\<lparr>PAGE_SIZE := 6\<rparr>"

definition tiny_layout :: "(byte, byte) page_layout" where
  "tiny_layout = \<lparr>
     dir_of = (\<lambda>x. \<lparr>dir_page_id = 0, dir_lsn = 0, global_depth = 1,
       local_depths = [1, 1] @ replicate 510 0,
       bucket_page_ids = [ucast (x ! 0), ucast (x ! 1)] @ replicate 510 0\<rparr>),
     dir_to = (\<lambda>d x. [ucast (bucket_page_ids d ! 0), ucast (bucket_page_ids d ! 1)] @ drop 2 x),
     bucket_of = (\<lambda>x. \<lparr>occupied = [x ! 0], readable = [x ! 1], array = [(x ! 2, x ! 3), (x ! 4, x ! 5)]\<rparr>),
     bucket_to = (\<lambda>b x. [occupied b ! 0, readable b ! 0, fst (array b ! 0), snd (array b ! 0),
       fst (array b ! 1), snd (array b ! 1)]),
     bucket_size = 2\<rparr>"

definition tiny_table :: "byte hash_table" where
  "tiny_table = \<lparr>directory_page_id = 0, comparator = (\<lambda>a b. sint a - sint b), hash_fn = ucast\<rparr>"

definition tiny_pool :: bpm where
  "tiny_pool = the (BufferPoolManagerInstance tiny_cfg 2 1 0 empty_disk)"

definition tiny_ops :: "client_op list" where
  "tiny_ops = [WriteBytes 0 [1, 2, 0, 0, 0, 0], WriteBytes 1 [3, 3, 8, 80, 10, 100],
     WriteBytes 2 [1, 1, 7, 70, 0, 0]]"

definition make_page :: "bpm \<Rightarrow> bpm" where
  "make_page s = snd (the (create_page tiny_cfg s))"

definition tiny_state :: bpm where
  "tiny_state = snd (the (run_ops (client_step (FetchPgImp tiny_cfg) (UnpinPgImp tiny_cfg) (FlushPgImp tiny_cfg)
     read_frame write_frame) (make_page (make_page (make_page tiny_pool))) tiny_ops))"

definition tiny_ok :: "page_id_t set \<Rightarrow> bpm \<Rightarrow> bool" where
  "tiny_ok P s \<longleftrightarrow> pool_ok tiny_cfg s \<and> pins s = (\<lambda>_. 0) \<and>
     (\<forall>p \<in> P. allocated s p \<and> p \<in> dom (view tiny_cfg s))"

lemma make_page_ok:
  assumes "tiny_ok P s" and "map_option fst (create_page tiny_cfg s) = Some p"
    and "next_page_id s < 16" and "num_instances s = 1"
  shows "tiny_ok (insert p P) (make_page s)"
proof -
  have e: "create_page tiny_cfg s = Some (p, make_page s)"
    using assms(2) by (cases "create_page tiny_cfg s") (auto simp: make_page_def)
  have "unat (next_page_id s) < 16" using assms(3) by (simp add: word_less_nat_alt)
  then have cn: "can_new tiny_cfg s"
    unfolding can_new_def assms(4) by (simp add: tiny_cfg_def small_cfg_def)
  have t: "pool_ok tiny_cfg s" "pins s = (\<lambda>_. 0)" using assms(1) by (simp_all add: tiny_ok_def)
  note c = create_page_spec [OF t(1) cn t(2) e]
  have "q \<in> dom (view tiny_cfg (make_page s))" if "q \<in> P" for q
    using assms(1) that c(4) c(5) [of q] by (cases "q = p") (auto simp: tiny_ok_def)
  then show ?thesis using assms(1) c by (auto simp: tiny_ok_def)
qed

lemma tiny_pool_ok: "tiny_ok {} tiny_pool"
proof -
  have "BufferPoolManagerInstance tiny_cfg 2 1 0 empty_disk = Some tiny_pool"
    by (simp add: tiny_pool_def BufferPoolManagerInstance_def)
  from constructor_pool_ok [OF this] show ?thesis
    by (simp add: tiny_ok_def tiny_cfg_def small_cfg_def empty_disk_def disk_inv_def)
qed

lemma tiny_pages: "tiny_ok {2, 1, 0} (make_page (make_page (make_page tiny_pool)))"
proof -
  have 1: "tiny_ok {0} (make_page tiny_pool)"
    by (rule make_page_ok [OF tiny_pool_ok]) code_simp+
  have 2: "tiny_ok {1, 0} (make_page (make_page tiny_pool))"
    by (rule make_page_ok [OF 1]) code_simp+
  show ?thesis by (rule make_page_ok [OF 2]) code_simp+
qed

lemma tiny_state_view:
  "pool_ok tiny_cfg tiny_state" "pins tiny_state = (\<lambda>_. 0)"
  "view tiny_cfg tiny_state 0 = Some [1, 2, 0, 0, 0, 0]"
  "view tiny_cfg tiny_state 1 = Some [3, 3, 8, 80, 10, 100]"
  "view tiny_cfg tiny_state 2 = Some [1, 1, 7, 70, 0, 0]"
proof -
  let ?s = "make_page (make_page (make_page tiny_pool))"
  let ?run = "run_ops (client_step (FetchPgImp tiny_cfg) (UnpinPgImp tiny_cfg) (FlushPgImp tiny_cfg)
     read_frame write_frame) ?s tiny_ops"
  note t = tiny_pages [unfolded tiny_ok_def]
  obtain outs m where r: "?run = Some (outs, tiny_state)"
    "run_ops (\<lambda>m op. Some (mem_step m op)) (view tiny_cfg ?s) tiny_ops = Some (outs, m)"
    "pool_ok tiny_cfg tiny_state" "m \<subseteq>\<^sub>m view tiny_cfg tiny_state" "pins tiny_state = (\<lambda>_. 0)"
    using bpmi.run_refines [of tiny_cfg ?s tiny_ops "view tiny_cfg ?s"] t
    by (auto simp: tiny_state_def tiny_ops_def tiny_cfg_def)
  have m: "m = (view tiny_cfg ?s)(0 \<mapsto> [1, 2, 0, 0, 0, 0], 1 \<mapsto> [3, 3, 8, 80, 10, 100], 2 \<mapsto> [1, 1, 7, 70, 0, 0])"
    using r(2) by (simp add: tiny_ops_def)
  show "pool_ok tiny_cfg tiny_state" "pins tiny_state = (\<lambda>_. 0)" by (rule r)+
  show "view tiny_cfg tiny_state 0 = Some [1, 2, 0, 0, 0, 0]"
    "view tiny_cfg tiny_state 1 = Some [3, 3, 8, 80, 10, 100]"
    "view tiny_cfg tiny_state 2 = Some [1, 1, 7, 70, 0, 0]"
    by (rule map_leD [OF r(4)], simp add: m)+
qed

lemma tiny_layout_ok: "bucket_layout (PAGE_SIZE tiny_cfg) tiny_layout"
proof -
  have two: "xs = [xs ! 0, xs ! 1]" if "length xs = 2" for xs :: "(byte \<times> byte) list"
    using that by (auto simp: length_Suc_conv numeral_2_eq_2)
  have one: "xs = [xs ! 0]" if "length xs = 1" for xs :: bytes
    using that by (auto simp: length_Suc_conv)
  have six: "[x ! 0, x ! 1, x ! 2, x ! 3, x ! 4, x ! 5] = x" if "length x = 6" for x :: bytes
    using that by (auto simp: length_Suc_conv numeral_eq_Suc)
  show ?thesis
    using two one six
    by (auto simp: bucket_layout_def tiny_layout_def tiny_cfg_def bucket_inv_def GetNumofChars_def
        simp del: One_nat_def) 
qed

lemma tiny_bucket:
  "bucket_inv 2 (bucket_of tiny_layout [3, 3, 8, 80, 10, 100])"
  "entries 2 (bucket_of tiny_layout [3, 3, 8, 80, 10, 100]) = [(8, 80), (10, 100)]"
  "bucket_inv 2 (bucket_of tiny_layout [1, 1, 7, 70, 0, 0])"
  "entries 2 (bucket_of tiny_layout [1, 1, 7, 70, 0, 0]) = [(7, 70)]"
proof -
  show "entries 2 (bucket_of tiny_layout [3, 3, 8, 80, 10, 100]) = [(8, 80), (10, 100)]"
    "entries 2 (bucket_of tiny_layout [1, 1, 7, 70, 0, 0]) = [(7, 70)]" by code_simp+
  have bits: "list_all (\<lambda>i. bit_at [3] i \<longrightarrow> i < 2) [0..<8]" "list_all (\<lambda>i. bit_at [1] i \<longrightarrow> i < 1) [0..<8]"
    "bit_at [3] 0" "bit_at [3] 1" "bit_at [1] 0"
    by code_simp+
  then have "bit_at [3] i \<Longrightarrow> i < 2" "bit_at [1] i \<Longrightarrow> i = 0" if "i < 8" for i
    using that by (auto simp: list_all_iff)
  with bits show "bucket_inv 2 (bucket_of tiny_layout [3, 3, 8, 80, 10, 100])"
    "bucket_inv 2 (bucket_of tiny_layout [1, 1, 7, 70, 0, 0])"
    by (auto simp: bucket_inv_def tiny_layout_def GetNumofChars_def less_2_cases_iff)
qed

lemma tiny_ready:
  "index_ready tiny_layout tiny_table (view tiny_cfg tiny_state) (allocated tiny_state) 8"
  "index_ready tiny_layout tiny_table (view tiny_cfg tiny_state) (allocated tiny_state) 9"
  "bucket_for tiny_layout tiny_table (view tiny_cfg tiny_state) 8 = bucket_of tiny_layout [3, 3, 8, 80, 10, 100]"
  "bucket_for tiny_layout tiny_table (view tiny_cfg tiny_state) 9 = bucket_of tiny_layout [1, 1, 7, 70, 0, 0]"
proof -
  let ?d = "dir_of tiny_layout [1, 2, 0, 0, 0, 0]"
  have p: "slot_page tiny_table ?d 8 = 1" "slot_page tiny_table ?d 9 = 2" "directory_page_id tiny_table = 0"
    by code_simp+
  have al: "allocated tiny_state 0" "allocated tiny_state 1" "allocated tiny_state 2" by code_simp+
  have wf: "dir_wf ?d" by (simp add: dir_wf_def tiny_layout_def gd_def DIRECTORY_ARRAY_SIZE_def)
  show b: "bucket_for tiny_layout tiny_table (view tiny_cfg tiny_state) 8 = bucket_of tiny_layout [3, 3, 8, 80, 10, 100]"
    "bucket_for tiny_layout tiny_table (view tiny_cfg tiny_state) 9 = bucket_of tiny_layout [1, 1, 7, 70, 0, 0]"
    by (simp_all add: bucket_for_def p tiny_state_view)
  have n: "bucket_size tiny_layout = 2" by (simp add: tiny_layout_def)
  show "index_ready tiny_layout tiny_table (view tiny_cfg tiny_state) (allocated tiny_state) 8"
    "index_ready tiny_layout tiny_table (view tiny_cfg tiny_state) (allocated tiny_state) 9"
    using al wf tiny_bucket b
    by (simp_all add: index_ready_def Let_def p tiny_state_view dom_def n)
qed

lemma tiny_size: "2 \<le> pool_size tiny_state" "bucket_size tiny_layout = 2"
  by code_simp+

lemma tiny_matching:
  "matching (comparator tiny_table) 8 [(8, 80), (10, 100)] = [80 :: byte]"
  "matching (comparator tiny_table) 9 [(7, 70)] = ([] :: byte list)"
  by code_simp+

theorem HashTable_GetValue_correct_witness:
  "\<exists>s'. HashTable_GetValue (bpm_ops tiny_cfg) tiny_layout tiny_table tiny_state 8 [] = Some ((True, [80]), s') \<and>
    pool_ok tiny_cfg s' \<and> view tiny_cfg tiny_state \<subseteq>\<^sub>m view tiny_cfg s' \<and> pins s' = (\<lambda>_. 0)"
  using HashTable_GetValue_correct [OF tiny_state_view(1,2) tiny_size(1) tiny_ready(1), of "[]"]
  by (simp add: tiny_ready tiny_bucket tiny_size tiny_matching)

theorem HashTable_Insert_correct_witness:
  "\<exists>s' y. HashTable_Insert 0 (bpm_ops tiny_cfg) tiny_layout tiny_table tiny_state 9 90 = Some (True, s') \<and>
    pool_ok tiny_cfg s' \<and> pins s' = (\<lambda>_. 0) \<and>
    (view tiny_cfg tiny_state)(slot_page tiny_table (dir_of tiny_layout
      (the (view tiny_cfg tiny_state (directory_page_id tiny_table)))) 9 \<mapsto> y) \<subseteq>\<^sub>m view tiny_cfg s' \<and>
    mset (entries 2 (bucket_for tiny_layout tiny_table (view tiny_cfg s') 9)) = {#(9, 90), (7, 70)#}"
proof -
  have "\<not> IsFull (bucket_size tiny_layout) (bucket_for tiny_layout tiny_table (view tiny_cfg tiny_state) 9)"
    using IsFull_entries [OF tiny_bucket(3)] by (simp add: tiny_ready tiny_bucket tiny_size)
  from HashTable_Insert_correct [OF tiny_state_view(1,2) tiny_size(1) tiny_ready(2) tiny_layout_ok this, of 0 90]
  show ?thesis by (auto simp: tiny_ready tiny_bucket tiny_size tiny_matching)
qed

theorem HashTable_Remove_correct_witness:
  "\<exists>s' y. HashTable_Remove (bpm_ops tiny_cfg) tiny_layout tiny_table tiny_state 8 80 = Some (True, s') \<and>
    pool_ok tiny_cfg s' \<and> pins s' = (\<lambda>_. 0) \<and>
    (view tiny_cfg tiny_state)(slot_page tiny_table (dir_of tiny_layout
      (the (view tiny_cfg tiny_state (directory_page_id tiny_table)))) 8 \<mapsto> y) \<subseteq>\<^sub>m view tiny_cfg s' \<and>
    bucket_inv 2 (bucket_for tiny_layout tiny_table (view tiny_cfg s') 8)"
proof -
  have "1 < length (entries (bucket_size tiny_layout) (bucket_for tiny_layout tiny_table (view tiny_cfg tiny_state) 8))"
    by (simp add: tiny_ready tiny_bucket tiny_size)
  from HashTable_Remove_correct [OF tiny_state_view(1,2) tiny_size(1) tiny_ready(1) tiny_layout_ok this, of 80]
  show ?thesis by (auto simp: tiny_ready tiny_bucket tiny_size tiny_matching)
qed

end
