(* ===== verification/TableHeapSpec.thy ===== *)
theory TableHeapSpec
  imports TableHeap HashTablePool
begin

section \<open>What a table heap promises\<close>

text \<open>
  A table in a buffer pool is a partial map from record identifiers to tuples with a deletion flag:
  \<open>heap_tuples\<close>. The pages of the table form a chain (\<open>heap_ok\<close>). The locale \<open>page_pool\<close> adds to \<open>buffer_pool\<close> what the
  heap relies on besides: a new page never has the invalid number, and having room for new pages does not
  depend on which pages are in memory. The operations are proved for every pool of that kind and used for
  \<^verbatim>\<open>BufferPoolManagerInstance\<close>.
\<close>

subsection \<open>The pages of a table\<close>

definition page_ok :: "(page_id_t \<rightharpoonup> bytes) \<Rightarrow> page_id_t \<Rightarrow> page_id_t \<Rightarrow> bool" where
  "page_ok m p nxt \<longleftrightarrow> (case m p of None \<Rightarrow> False
     | Some d \<Rightarrow> table_inv d \<and> word_at d 0 = p \<and> word_at d 12 = nxt)"

fun chain :: "config \<Rightarrow> (page_id_t \<rightharpoonup> bytes) \<Rightarrow> page_id_t list \<Rightarrow> bool" where
  "chain cfg m [] \<longleftrightarrow> False"
| "chain cfg m [p] \<longleftrightarrow> page_ok m p (INVALID_PAGE_ID cfg)"
| "chain cfg m (p # q # ps) \<longleftrightarrow> page_ok m p q \<and> chain cfg m (q # ps)"

definition heap_ok :: "config \<Rightarrow> (page_id_t \<rightharpoonup> bytes) \<Rightarrow> (page_id_t \<Rightarrow> bool) \<Rightarrow> table_heap \<Rightarrow> page_id_t list \<Rightarrow> bool" where
  "heap_ok cfg m al th ps \<longleftrightarrow> chain cfg m ps \<and> hd ps = first_page_id th \<and> distinct ps \<and>
     list_all (\<lambda>p. al p \<and> p \<noteq> INVALID_PAGE_ID cfg) ps"

definition heap_tuples :: "(page_id_t \<rightharpoonup> bytes) \<Rightarrow> page_id_t list \<Rightarrow> rid \<Rightarrow> (bool \<times> bytes) option" where
  "heap_tuples m ps r = (if page_id_of r \<in> set ps then tuples (the (m (page_id_of r))) (unat (slot_num_of r)) else None)"

lemma page_ok_mono: "m \<subseteq>\<^sub>m m' \<Longrightarrow> page_ok m p q \<Longrightarrow> page_ok m' p q"
  by (auto simp: page_ok_def split: option.splits dest: map_leD)

lemma chain_mono: "m \<subseteq>\<^sub>m m' \<Longrightarrow> chain cfg m ps \<Longrightarrow> chain cfg m' ps"
  by (induction cfg m ps rule: chain.induct) (auto intro: page_ok_mono)

lemma chain_page:
  assumes "chain cfg m ps" and "p \<in> set ps"
  obtains d nxt where "m p = Some d" "table_inv d" "word_at d 0 = p" "word_at d 12 = nxt"
  using assms by (induction cfg m ps rule: chain.induct) (auto simp: page_ok_def split: option.splits)

lemma chain_edit:
  assumes "chain cfg m ps" and "m p = Some d" and "table_inv d'" "head d' = head d" "length d' = length d"
  shows "chain cfg (m(p \<mapsto> d')) ps"
proof -
  have "page_ok (m(p \<mapsto> d')) q nxt" if "page_ok m q nxt" for q nxt
  proof (cases "q = p")
    case True
    then have "table_inv d" "16 \<le> length d" using that assms(2) table_invD(4) [of d] by (auto simp: page_ok_def)
    then show ?thesis using True that assms head_word [OF assms(4,5)] by (simp add: page_ok_def)
  qed (use that in \<open>simp add: page_ok_def\<close>)
  with assms(1) show ?thesis by (induction ps rule: induct_list012) auto
qed

lemma heap_okD:
  assumes "heap_ok cfg m al th ps"
  shows "chain cfg m ps" "hd ps = first_page_id th" "distinct ps" "p \<in> set ps \<Longrightarrow> al p"
    "p \<in> set ps \<Longrightarrow> p \<noteq> INVALID_PAGE_ID cfg" "ps \<noteq> []" "first_page_id th \<in> set ps"
proof -
  show *: "ps \<noteq> []" using assms by (auto simp: heap_ok_def)
  show "hd ps = first_page_id th" using assms by (simp add: heap_ok_def)
  with * show "first_page_id th \<in> set ps" using hd_in_set [of ps] by simp
qed (use assms in \<open>auto simp: heap_ok_def list_all_iff\<close>)

lemma heap_ok_mono:
  "heap_ok cfg m al th ps \<Longrightarrow> m \<subseteq>\<^sub>m m' \<Longrightarrow> (\<And>q. al q \<Longrightarrow> al' q) \<Longrightarrow> heap_ok cfg m' al' th ps"
  by (auto simp: heap_ok_def list_all_iff intro: chain_mono)

lemma heap_tuples_mono:
  assumes "chain cfg m ps" "m \<subseteq>\<^sub>m m'"
  shows "heap_tuples m' ps = heap_tuples m ps"
proof
  fix r
  show "heap_tuples m' ps r = heap_tuples m ps r"
  proof (cases "page_id_of r \<in> set ps")
    case True
    from assms(1) this obtain d where "m (page_id_of r) = Some d" by (rule chain_page)
    then show ?thesis using map_leD [OF assms(2)] by (simp add: heap_tuples_def)
  qed (simp add: heap_tuples_def)
qed

text \<open>Changing one page of a table changes the tuples of that page.\<close>

lemma heap_edit:
  assumes ok: "heap_ok cfg m al th ps" and p: "p \<in> set ps" "m p = Some d"
    and d': "table_inv d'" "head d' = head d" "length d' = length d"
    and m': "m(p \<mapsto> d') \<subseteq>\<^sub>m m'" and al: "\<And>q. al q \<Longrightarrow> al' q"
  shows "heap_ok cfg m' al' th ps"
    "tuples d' = (tuples d)(unat i := x) \<Longrightarrow> heap_tuples m' ps = (heap_tuples m ps)(\<lparr>page_id_of = p, slot_num_of = i\<rparr> := x)"
proof -
  have c: "chain cfg (m(p \<mapsto> d')) ps" by (rule chain_edit [OF heap_okD(1) [OF ok] p(2) d'])
  have "heap_ok cfg (m(p \<mapsto> d')) al th ps" using ok c by (simp add: heap_ok_def)
  then show "heap_ok cfg m' al' th ps" using m' al by (rule heap_ok_mono)
  assume t: "tuples d' = (tuples d)(unat i := x)"
  have inj: "unat a = unat b \<longleftrightarrow> a = b" for a b :: uint32 by (simp add: word_unat_eq_iff)
  have "heap_tuples (m(p \<mapsto> d')) ps r = ((heap_tuples m ps)(\<lparr>page_id_of = p, slot_num_of = i\<rparr> := x)) r" for r
    using p t by (cases r) (auto simp: heap_tuples_def inj)
  then show "heap_tuples m' ps = (heap_tuples m ps)(\<lparr>page_id_of = p, slot_num_of = i\<rparr> := x)"
    using heap_tuples_mono [OF c m'] by auto
qed

subsection \<open>A pool that tables can live in\<close>

locale page_pool = buffer_pool +
  fixes invalid :: page_id_t
  assumes new_valid: "ok s \<Longrightarrow> can_new s \<Longrightarrow> new_page s = Some (Some (p, f), s') \<Longrightarrow> p \<noteq> invalid"
    and fetch_can_new: "ok s \<Longrightarrow> alloc s p \<Longrightarrow> can_new s \<Longrightarrow> fetch s p = Some (r, s') \<Longrightarrow> can_new s'"
    and unpin_can_new: "ok s \<Longrightarrow> can_new s \<Longrightarrow> unpin s p d = Some (b, s') \<Longrightarrow> can_new s'"
    and put_can_new: "can_new s \<Longrightarrow> can_new (put s f x)"
begin

text \<open>A page is fetched, read, perhaps changed, and given back.\<close>

lemma fetch_one:
  assumes ok: "ok s" and h: "held s = (\<lambda>_. 0)" and p: "alloc s p" "content s p = Some d"
  obtains f s1 where "fetch s p = Some (Some f, s1)" "ok s1" "at s1 p = Some f" "get s1 f = d" "cap s1 = cap s"
    "content s \<subseteq>\<^sub>m content s1" "held s1 = (\<lambda>_. 0)(p := 1)" "clean s1 p" "\<And>q. alloc s q \<Longrightarrow> alloc s1 q"
    "can_new s \<Longrightarrow> can_new s1" "content s1 p = Some d" "length d = psize"
proof -
  obtain f s1 where f: "fetch s p = Some (Some f, s1)" "ok s1" "at s1 p = Some f" "get s1 f = d" "cap s1 = cap s"
    "content s \<subseteq>\<^sub>m content s1" "held s1 = (\<lambda>_. 0)(p := 1)" "clean s1 p" "\<And>q. alloc s q \<Longrightarrow> alloc s1 q"
    using fetch_spec [OF ok p] h cap_pos [OF ok] by auto
  show ?thesis
    by (rule that [OF f]) (use fetch_can_new [OF ok p(1) _ f(1)] map_leD [OF f(6) p(2)] content_length [OF ok p(2)] in auto)
qed

lemma give_back:
  assumes ok: "ok s" and a: "at s p = Some f" and h: "held s = (\<lambda>_. 0)(p := 1)" and cl: "clean s p"
    and c: "content s p = Some d" and d': "length d' = psize" "word_at d' 0 = p" "4 \<le> psize" and b: "b \<or> d' = d"
  defines "ops \<equiv> ops_of new_page fetch unpin get put"
  obtains s' where "write_page ops s f d' b = Some s'" "ok s'" "(content s)(p \<mapsto> d') \<subseteq>\<^sub>m content s'"
    "held s' = (\<lambda>_. 0)" "cap s' = cap s" "alloc s' = alloc s" "can_new s \<Longrightarrow> can_new s'"
proof -
  let ?s = "put s f d'"
  have hp: "0 < held s p" using h by simp
  note P = put_spec [OF ok a hp d'(1)]
  have "at ?s p = Some f" "content ?s p = Some d'" using P a by auto
  then have g: "get ?s f = d'" using at_content [of ?s p f] P by simp
  have cl': "b \<or> clean ?s p" using P cl c b by auto
  obtain s' where s': "unpin ?s p b = Some (True, s')" "ok s'" "cap s' = cap s" "(content s)(p \<mapsto> d') \<subseteq>\<^sub>m content s'"
    "held s' = (\<lambda>_. 0)" "alloc s' = alloc s"
    using unpin_spec [of ?s p b] P h cl' by (auto simp: fun_upd_idem)
  have "can_new s \<Longrightarrow> can_new s'" using unpin_can_new [OF _ put_can_new s'(1)] P by blast
  moreover have "write_page ops s f d' b = Some s'"
    using g d' s'(1) by (simp add: write_page_def ops_def ops_of_def)
  ultimately show ?thesis using that s' by blast
qed

text \<open>What all changes of one tuple share.\<close>

lemma edit_heap:
  assumes ok: "ok s" and h: "held s = (\<lambda>_. 0)" and hp: "heap_ok cfg (content s) (alloc s) th ps"
    and p: "page_id_of rid \<in> set ps" "content s (page_id_of rid) = Some d" and d': "table_inv d'" "head d' = head d" "length d' = length d"
    and t: "tuples d' = (tuples d)(unat (slot_num_of rid) := x)" and b: "b \<or> d' = d"
  defines "ops \<equiv> ops_of new_page fetch unpin get put"
  obtains f s1 s' where "FetchPage ops s (page_id_of rid) = Some (Some f, s1)" "GetData ops s1 f = d" "write_page ops s1 f d' b = Some s'"
    "ok s'" "held s' = (\<lambda>_. 0)" "cap s' = cap s" "can_new s \<longrightarrow> can_new s'"
    "heap_ok cfg (content s') (alloc s') th ps"
    "heap_tuples (content s') ps = (heap_tuples (content s) ps)(rid := x)"
proof -
  define p where "p = page_id_of rid"
  note p = p [folded p_def]
  note H = heap_okD [OF hp]
  from fetch_one [OF ok h H(4) [OF p(1)] p(2)] obtain f s1 where 1: "fetch s p = Some (Some f, s1)" "ok s1"
    "at s1 p = Some f" "get s1 f = d" "cap s1 = cap s" "content s \<subseteq>\<^sub>m content s1" "held s1 = (\<lambda>_. 0)(p := 1)"
    "clean s1 p" "\<And>q. alloc s q \<Longrightarrow> alloc s1 q" "can_new s \<Longrightarrow> can_new s1" "content s1 p = Some d" "length d = psize" by blast
  have w0: "word_at d' 0 = p" "4 \<le> psize"
  proof -
    from H(1) p(1) obtain e where e: "content s p = Some e" "table_inv e" "word_at e 0 = p" by (rule chain_page)
    then have "24 \<le> length d" using p(2) table_invD(4) [of d] by simp
    then show "word_at d' 0 = p" "4 \<le> psize" using e p(2) head_word [OF d'(2,3)] 1(12) by auto
  qed
  from give_back [OF 1(2,3,7,8,11) _ w0 b, folded ops_def] d'(3) 1(12) obtain s' where 2: "write_page ops s1 f d' b = Some s'"
    "ok s'" "(content s1)(p \<mapsto> d') \<subseteq>\<^sub>m content s'" "held s' = (\<lambda>_. 0)" "cap s' = cap s1" "alloc s' = alloc s1"
    "can_new s1 \<Longrightarrow> can_new s'" by metis
  have le: "(content s)(p \<mapsto> d') \<subseteq>\<^sub>m content s'" using map_le_upd [OF 1(6)] 2(3) by (rule map_le_trans)
  have al: "alloc s' q" if "alloc s q" for q using 1(9) that 2(6) by simp
  have E1: "heap_ok cfg (content s') (alloc s') th ps" by (rule heap_edit(1) [OF hp p d' le]) (erule al)
  have "heap_tuples (content s') ps = (heap_tuples (content s) ps)(\<lparr>page_id_of = p, slot_num_of = slot_num_of rid\<rparr> := x)"
    by (rule heap_edit(2) [OF hp p d' le _ t, of "alloc s'"]) (erule al)
  moreover have "\<lparr>page_id_of = p, slot_num_of = slot_num_of rid\<rparr> = rid" by (simp add: p_def)
  ultimately have E2: "heap_tuples (content s') ps = (heap_tuples (content s) ps)(rid := x)" by simp
  show ?thesis
    by (rule that [OF _ _ 2(1,2,4) _ _ E1 E2]) (use 1 2 in \<open>auto simp: ops_def ops_of_def p_def\<close>)
qed

lemma heap_page:
  assumes "heap_ok cfg m al th ps" "heap_tuples m ps r = Some x"
  obtains d where "page_id_of r \<in> set ps" "m (page_id_of r) = Some d" "table_inv d" "tuples d (unat (slot_num_of r)) = Some x"
proof -
  have p: "page_id_of r \<in> set ps" using assms(2) by (auto simp: heap_tuples_def split: if_splits)
  from heap_okD(1) [OF assms(1)] p obtain d where "m (page_id_of r) = Some d" "table_inv d" by (rule chain_page)
  then show ?thesis using that p assms(2) by (simp add: heap_tuples_def)
qed

lemma MarkDelete_heap:
  assumes ok: "ok s" and h: "held s = (\<lambda>_. 0)" and hp: "heap_ok cfg (content s) (alloc s) th ps"
    and t: "heap_tuples (content s) ps rid = Some (del, bs)"
  defines "ops \<equiv> ops_of new_page fetch unpin get put"
  shows "\<exists>s'. TableHeap_MarkDelete ops cfg th s txn rid = Some (True, AppendTableWriteRecord
        \<lparr>wr_rid = rid, wr_type = DELETE, wr_tuple = Tuple_default cfg, wr_table = this_heap th\<rparr> txn, s') \<and>
    ok s' \<and> held s' = (\<lambda>_. 0) \<and> cap s' = cap s \<and> (can_new s \<longrightarrow> can_new s') \<and>
    heap_ok cfg (content s') (alloc s') th ps \<and>
    heap_tuples (content s') ps = (heap_tuples (content s) ps)(rid \<mapsto> (True, bs))"
proof -
  from hp t obtain d where d: "page_id_of rid \<in> set ps" "content s (page_id_of rid) = Some d" "table_inv d"
    "tuples d (unat (slot_num_of rid)) = Some (del, bs)" by (rule heap_page)
  obtain r d' where m: "TablePage_MarkDelete d rid = Some (r, d')" "table_inv d'" "head d' = head d" "length d' = length d"
    "tuples d' = (tuples d)(unat (slot_num_of rid) := Some (True, bs))"
    using MarkDelete_view [OF d(3), of rid] d(3,4) by (cases del) (auto simp: fun_upd_idem)
  obtain f s1 s' where "FetchPage ops s (page_id_of rid) = Some (Some f, s1)" "GetData ops s1 f = d"
    "write_page ops s1 f d' True = Some s'" "ok s'" "held s' = (\<lambda>_. 0)" "cap s' = cap s" "can_new s \<longrightarrow> can_new s'"
    "heap_ok cfg (content s') (alloc s') th ps"
    "heap_tuples (content s') ps = (heap_tuples (content s) ps)(rid := Some (True, bs))"
    using edit_heap [OF ok h hp d(1,2) m(2-5) disjI1 [OF TrueI], folded ops_def] by blast
  then show ?thesis using m(1) by (simp add: TableHeap_MarkDelete_def)
qed

lemma RollbackDelete_heap:
  assumes ok: "ok s" and h: "held s = (\<lambda>_. 0)" and hp: "heap_ok cfg (content s) (alloc s) th ps"
    and t: "heap_tuples (content s) ps rid = Some (del, bs)"
  defines "ops \<equiv> ops_of new_page fetch unpin get put"
  shows "\<exists>s'. TableHeap_RollbackDelete ops s rid = Some s' \<and>
    ok s' \<and> held s' = (\<lambda>_. 0) \<and> cap s' = cap s \<and> (can_new s \<longrightarrow> can_new s') \<and>
    heap_ok cfg (content s') (alloc s') th ps \<and>
    heap_tuples (content s') ps = (heap_tuples (content s) ps)(rid \<mapsto> (False, bs))"
proof -
  from hp t obtain d where d: "page_id_of rid \<in> set ps" "content s (page_id_of rid) = Some d" "table_inv d"
    "tuples d (unat (slot_num_of rid)) = Some (del, bs)" by (rule heap_page)
  obtain d' where m: "TablePage_RollbackDelete d rid = Some d'" "table_inv d'" "head d' = head d" "length d' = length d"
    "tuples d' = (tuples d)(unat (slot_num_of rid) := Some (False, bs))"
    using RollbackDelete_view [OF d(3,4)] by auto
  obtain f s1 s' where "FetchPage ops s (page_id_of rid) = Some (Some f, s1)" "GetData ops s1 f = d"
    "write_page ops s1 f d' True = Some s'" "ok s'" "held s' = (\<lambda>_. 0)" "cap s' = cap s" "can_new s \<longrightarrow> can_new s'"
    "heap_ok cfg (content s') (alloc s') th ps"
    "heap_tuples (content s') ps = (heap_tuples (content s) ps)(rid := Some (False, bs))"
    using edit_heap [OF ok h hp d(1,2) m(2-5) disjI1 [OF TrueI], folded ops_def] by blast
  then show ?thesis using m(1) by (simp add: TableHeap_RollbackDelete_def)
qed

lemma ApplyDelete_heap:
  assumes ok: "ok s" and h: "held s = (\<lambda>_. 0)" and hp: "heap_ok cfg (content s) (alloc s) th ps"
    and t: "heap_tuples (content s) ps rid = Some (del, bs)"
  defines "ops \<equiv> ops_of new_page fetch unpin get put"
  shows "\<exists>s'. TableHeap_ApplyDelete ops s rid = Some s' \<and>
    ok s' \<and> held s' = (\<lambda>_. 0) \<and> cap s' = cap s \<and> (can_new s \<longrightarrow> can_new s') \<and>
    heap_ok cfg (content s') (alloc s') th ps \<and>
    heap_tuples (content s') ps = (heap_tuples (content s) ps)(rid := None)"
proof -
  from hp t obtain d where d: "page_id_of rid \<in> set ps" "content s (page_id_of rid) = Some d" "table_inv d"
    "tuples d (unat (slot_num_of rid)) = Some (del, bs)" by (rule heap_page)
  have "TablePageSpec.used d (unat (slot_num_of rid))" using d(4) tuples_None_used [of d] by auto
  then obtain d' where m: "TablePage_ApplyDelete d rid = Some d'" "table_inv d'" "head d' = head d" "length d' = length d"
    "tuples d' = (tuples d)(unat (slot_num_of rid) := None)"
    using ApplyDelete_view [OF d(3)] by auto
  obtain f s1 s' where "FetchPage ops s (page_id_of rid) = Some (Some f, s1)" "GetData ops s1 f = d"
    "write_page ops s1 f d' True = Some s'" "ok s'" "held s' = (\<lambda>_. 0)" "cap s' = cap s" "can_new s \<longrightarrow> can_new s'"
    "heap_ok cfg (content s') (alloc s') th ps"
    "heap_tuples (content s') ps = (heap_tuples (content s) ps)(rid := None)"
    using edit_heap [OF ok h hp d(1,2) m(2-5) disjI1 [OF TrueI], folded ops_def] by blast
  then show ?thesis using m(1) by (simp add: TableHeap_ApplyDelete_def)
qed

lemma UpdateTuple_heap:
  assumes ok: "ok s" and h: "held s = (\<lambda>_. 0)" and hp: "heap_ok cfg (content s) (alloc s) th ps"
    and t: "heap_tuples (content s) ps rid = Some (False, bs)"
    and sz: "0 < size_of nt" "unat (size_of nt) = length (data_of nt)"
  defines "ops \<equiv> ops_of new_page fetch unpin get put"
  shows "\<exists>s'. (if length (data_of nt) \<le> free_space (the (content s (page_id_of rid))) + length bs
     then TableHeap_UpdateTuple ops th s txn nt rid = Some (True, if txn_state txn \<noteq> ABORTED
        then AppendTableWriteRecord \<lparr>wr_rid = rid, wr_type = UPDATE,
          wr_tuple = \<lparr>size_of = of_nat (length bs), data_of = bs, rid_of = rid\<rparr>, wr_table = this_heap th\<rparr> txn
        else txn, s') \<and> heap_tuples (content s') ps = (heap_tuples (content s) ps)(rid \<mapsto> (False, data_of nt))
     else TableHeap_UpdateTuple ops th s txn nt rid = Some (False, txn, s') \<and>
       heap_tuples (content s') ps = heap_tuples (content s) ps) \<and>
    ok s' \<and> held s' = (\<lambda>_. 0) \<and> cap s' = cap s \<and> (can_new s \<longrightarrow> can_new s') \<and> heap_ok cfg (content s') (alloc s') th ps"
proof -
  from hp t obtain d where d: "page_id_of rid \<in> set ps" "content s (page_id_of rid) = Some d" "table_inv d"
    "tuples d (unat (slot_num_of rid)) = Some (False, bs)" by (rule heap_page)
  let ?fits = "length (data_of nt) \<le> free_space d + length bs"
  obtain d' where m: "TablePage_UpdateTuple d nt rid =
      Some (if ?fits then Some \<lparr>size_of = of_nat (length bs), data_of = bs, rid_of = rid\<rparr> else None, d')"
    "table_inv d'" "head d' = head d" "length d' = length d"
    "tuples d' = (tuples d)(unat (slot_num_of rid) := Some (False, if ?fits then data_of nt else bs))" "?fits \<or> d' = d"
  proof (cases ?fits)
    case True
    then show thesis using that UpdateTuple_fits [OF d(3,4) sz(1)] sz(2) by auto
  next
    case False
    then show thesis
      using that [of d] UpdateTuple_refused [OF d(3) sz(1), of rid] d(3,4) sz(2) by (simp add: fun_upd_idem)
  qed
  obtain f s1 s' where "FetchPage ops s (page_id_of rid) = Some (Some f, s1)" "GetData ops s1 f = d"
    "write_page ops s1 f d' ?fits = Some s'" "ok s'" "held s' = (\<lambda>_. 0)" "cap s' = cap s" "can_new s \<longrightarrow> can_new s'"
    "heap_ok cfg (content s') (alloc s') th ps"
    "heap_tuples (content s') ps = (heap_tuples (content s) ps)(rid := Some (False, if ?fits then data_of nt else bs))"
    using edit_heap [OF ok h hp d(1,2) m(2-6), folded ops_def] by blast
  then show ?thesis using m(1) t d(2) by (auto simp: TableHeap_UpdateTuple_def fun_upd_idem)
qed

lemma GetTuple_heap:
  assumes ok: "ok s" and h: "held s = (\<lambda>_. 0)" and hp: "heap_ok cfg (content s) (alloc s) th ps"
    and r: "page_id_of rid \<in> set ps"
  defines "ops \<equiv> ops_of new_page fetch unpin get put"
  shows "\<exists>s'. TableHeap_GetTuple ops s txn rid = Some (case heap_tuples (content s) ps rid of
      Some (False, bs) \<Rightarrow> Some \<lparr>size_of = of_nat (length bs), data_of = bs, rid_of = rid\<rparr> | _ \<Rightarrow> None, txn, s') \<and>
    ok s' \<and> held s' = (\<lambda>_. 0) \<and> cap s' = cap s \<and> (can_new s \<longrightarrow> can_new s') \<and>
    heap_ok cfg (content s') (alloc s') th ps \<and> heap_tuples (content s') ps = heap_tuples (content s) ps"
proof -
  note H = heap_okD [OF hp]
  from H(1) r obtain d where d: "content s (page_id_of rid) = Some d" "table_inv d" by (rule chain_page)
  from fetch_one [OF ok h H(4) [OF r] d(1)] obtain f s1 where 1: "fetch s (page_id_of rid) = Some (Some f, s1)" "ok s1"
    "at s1 (page_id_of rid) = Some f" "get s1 f = d" "cap s1 = cap s" "content s \<subseteq>\<^sub>m content s1"
    "held s1 = (\<lambda>_. 0)(page_id_of rid := 1)" "clean s1 (page_id_of rid)" "\<And>q. alloc s q \<Longrightarrow> alloc s1 q"
    "can_new s \<Longrightarrow> can_new s1" by blast
  obtain s2 where 2: "unpin s1 (page_id_of rid) False = Some (True, s2)" "ok s2" "cap s2 = cap s1" "content s1 \<subseteq>\<^sub>m content s2"
    "held s2 = (\<lambda>_. 0)" "alloc s2 = alloc s1"
    using unpin_spec [OF 1(2), of "page_id_of rid" False] 1(7,8) by (auto simp: fun_upd_idem)
  have le: "content s \<subseteq>\<^sub>m content s2" using 1(6) 2(4) by (rule map_le_trans)
  have cn: "can_new s \<longrightarrow> can_new s2" using 1(10) unpin_can_new [OF 1(2) _ 2(1)] by blast
  have "heap_ok cfg (content s2) (alloc s2) th ps" by (rule heap_ok_mono [OF hp le]) (simp add: 1(9) 2(6))
  moreover have "heap_tuples (content s2) ps = heap_tuples (content s) ps" by (rule heap_tuples_mono [OF H(1) le])
  moreover have "heap_tuples (content s) ps rid = tuples d (unat (slot_num_of rid))" using r d(1) by (simp add: heap_tuples_def)
  ultimately show ?thesis
    using 1(1,4,5) 2 cn GetTuple_view [OF d(2), of rid] by (simp add: TableHeap_GetTuple_def ops_def ops_of_def)
qed

subsubsection \<open>Insertion\<close>

text \<open>One page in hand.\<close>

definition hand :: "'a \<Rightarrow> page_id_t \<Rightarrow> 'b \<Rightarrow> bytes \<Rightarrow> bool" where
  "hand s p f d \<longleftrightarrow> ok s \<and> at s p = Some f \<and> held s = (\<lambda>_. 0)(p := 1) \<and> content s p = Some d \<and> get s f = d \<and>
     length d = psize \<and> table_inv d \<and> word_at d 0 = p"

lemma hand_put:
  assumes "hand s p f d" "table_inv d'" "length d' = length d" "word_at d' 0 = p"
  shows "hand (put s f d') p f d'" "content (put s f d') = (content s)(p \<mapsto> d')" "cap (put s f d') = cap s"
    "alloc (put s f d') = alloc s" "clean s q \<Longrightarrow> q \<noteq> p \<or> d' = d \<Longrightarrow> clean (put s f d') q"
proof -
  have "0 < held s p" using assms(1) by (simp add: hand_def)
  with assms have P: "ok (put s f d') \<and> cap (put s f d') = cap s \<and> content (put s f d') = (content s)(p \<mapsto> d') \<and>
      held (put s f d') = held s \<and> at (put s f d') = at s \<and> alloc (put s f d') = alloc s \<and>
      (\<forall>q. (q \<noteq> p \<or> content s p = Some d') \<and> clean s q \<longrightarrow> clean (put s f d') q)"
    by (intro put_spec) (auto simp: hand_def)
  moreover from this have "get (put s f d') f = d'" using at_content [of "put s f d'" p f] assms(1) by (auto simp: hand_def)
  ultimately show "hand (put s f d') p f d'" "content (put s f d') = (content s)(p \<mapsto> d')" "cap (put s f d') = cap s"
    "alloc (put s f d') = alloc s" "clean s q \<Longrightarrow> q \<noteq> p \<or> d' = d \<Longrightarrow> clean (put s f d') q"
    using assms by (auto simp: hand_def)
qed

lemma insert_here:
  assumes hd: "hand s p f d" and sz: "0 < size_of t" "unat (size_of t) = length (data_of t)"
    and fit: "length (data_of t) + 8 \<le> free_space d"
  defines "ops \<equiv> ops_of new_page fetch unpin get put"
  shows "\<exists>i d'. insert_loop (Suc n) ops cfg t s f = Some (Some (\<lparr>page_id_of = p, slot_num_of = i\<rparr>, f), put s f d') \<and>
    hand (put s f d') p f d' \<and> content (put s f d') = (content s)(p \<mapsto> d') \<and> head d' = head d \<and> length d' = length d \<and>
    table_inv d' \<and> tuples d (unat i) = None \<and> tuples d' = (tuples d)(unat i \<mapsto> (False, data_of t))"
proof -
  have d: "table_inv d" "word_at d 0 = p" "get s f = d" using hd by (simp_all add: hand_def)
  obtain k d' where k: "TablePage_InsertTuple d t = Some (Some \<lparr>page_id_of = word_at d 0, slot_num_of = of_nat k\<rparr>, d')"
    "k \<le> unat (cnt d)" "tuples d k = None" "table_inv d'" "length d' = length d" "head d' = head d"
    "tuples d' = (tuples d)(k \<mapsto> (False, data_of t))"
    using InsertTuple_view [OF d(1) sz(1)] sz(2) fit by auto
  have u: "unat (of_nat k :: uint32) = k"
    using k(2) table_invD(1-3) [OF d(1)] by (intro unat_of_nat_small) simp
  have "word_at d' 0 = p" using head_word [OF k(6,5)] table_invD(4) [OF d(1)] d(2) by simp
  note P = hand_put [OF hd k(4,5) this]
  have "insert_loop (Suc n) ops cfg t s f = Some (Some (\<lparr>page_id_of = p, slot_num_of = of_nat k\<rparr>, f), put s f d')"
    using k(1) d(2,3) by (simp add: ops_def ops_of_def)
  then show ?thesis using P(1,2) k u by (intro exI [of _ "of_nat k"] exI [of _ d']) simp
qed

text \<open>A page that has no room: nothing changed.\<close>

lemma no_room:
  assumes hd: "hand s p f d" and cl: "clean s p" and sz: "0 < size_of t" "unat (size_of t) = length (data_of t)"
    and fit: "\<not> length (data_of t) + 8 \<le> free_space d"
  shows "TablePage_InsertTuple d t = Some (None, d)" "hand (put s f d) p f d" "content (put s f d) = content s"
    "cap (put s f d) = cap s" "alloc (put s f d) = alloc s" "clean (put s f d) p"
proof -
  have d: "table_inv d" "word_at d 0 = p" "content s p = Some d" using hd by (simp_all add: hand_def)
  show "TablePage_InsertTuple d t = Some (None, d)" using InsertTuple_view [OF d(1) sz(1)] sz(2) fit by auto
  show "hand (put s f d) p f d" "content (put s f d) = content s" "cap (put s f d) = cap s" "alloc (put s f d) = alloc s"
    "clean (put s f d) p"
    using hand_put [OF hd d(1) refl d(2)] cl d(3) by (auto simp: fun_upd_idem)
qed

text \<open>Going on to the next page of the table.\<close>

lemma step_on:
  assumes hd: "hand s p f d" and cl: "clean s p" and q: "alloc s q" "content s q = Some e" "table_inv e" "word_at e 0 = q"
  obtains s1 g s2 where "unpin s p False = Some (True, s1)" "fetch s1 q = Some (Some g, s2)" "hand s2 q g e" "clean s2 q"
    "content s \<subseteq>\<^sub>m content s2" "cap s2 = cap s" "\<And>r. alloc s r \<Longrightarrow> alloc s2 r" "can_new s \<Longrightarrow> can_new s2"
proof -
  have ok: "ok s" and h: "held s = (\<lambda>_. 0)(p := 1)" using hd by (simp_all add: hand_def)
  obtain s1 where 1: "unpin s p False = Some (True, s1)" "ok s1" "cap s1 = cap s" "content s \<subseteq>\<^sub>m content s1"
    "held s1 = (\<lambda>_. 0)" "alloc s1 = alloc s"
    using unpin_spec [OF ok, of p False] h cl by (auto simp: fun_upd_idem)
  have cn: "can_new s \<Longrightarrow> can_new s1" using unpin_can_new [OF ok _ 1(1)] by blast
  have aq: "alloc s1 q" "content s1 q = Some e" using q 1(6) map_leD [OF 1(4)] by simp_all
  from fetch_one [OF 1(2,5) aq] obtain g s2 where
    2: "fetch s1 q = Some (Some g, s2)" "ok s2" "at s2 q = Some g" "get s2 g = e" "cap s2 = cap s1"
    "content s1 \<subseteq>\<^sub>m content s2" "held s2 = (\<lambda>_. 0)(q := 1)" "clean s2 q" "\<And>r. alloc s1 r \<Longrightarrow> alloc s2 r"
    "can_new s1 \<Longrightarrow> can_new s2" "content s2 q = Some e" "length e = psize" by blast
  show ?thesis
  proof (rule that [OF 1(1) 2(1) _ 2(8) map_le_trans [OF 1(4) 2(6)]])
    show "hand s2 q g e" using 2 q by (simp add: hand_def)
  qed (use 1 2 cn in auto)
qed

text \<open>Appending a page: it is linked behind the page in hand, which is given back.\<close>

lemma append_page:
  assumes hd: "hand s p f d" and cap: "2 \<le> cap s" and cn: "can_new s" and al: "alloc s p"
    and cfg: "psize = PAGE_SIZE cfg" "psize < 2 ^ 31" "24 \<le> psize"
  obtains q g s1 d2 s2 e s3 s4 where "new_page s = Some (Some (q, g), s1)" "get s1 f = d"
    "SetNextPageId d q = Some d2" "s2 = put s1 f d2" "get s2 f = d2"
    "TablePage_Init cfg (get s2 g) q (of_nat (PAGE_SIZE cfg)) p = Some e" "s3 = put s2 g e" "get s3 f = d2"
    "unpin s3 p True = Some (True, s4)" "hand s4 q g e" "q \<noteq> invalid" "\<not> alloc s q" "q \<noteq> p"
    "(content s)(p \<mapsto> d2, q \<mapsto> e) \<subseteq>\<^sub>m content s4" "cap s4 = cap s" "\<And>r. alloc s r \<Longrightarrow> alloc s4 r" "alloc s4 q"
    "table_inv d2" "word_at d2 0 = p" "word_at d2 12 = q" "tuples d2 = tuples d" "length d2 = length d"
    "tuples e = Map.empty" "free_space e = psize - 24" "word_at e 12 = INVALID_PAGE_ID cfg"
proof -
  have H: "ok s" "at s p = Some f" "held s = (\<lambda>_. 0)(p := 1)" "content s p = Some d" "get s f = d" "length d = psize"
    "table_inv d" "word_at d 0 = p" using hd by (simp_all add: hand_def)
  have "{q. 0 < held s q} = {p}" using H(3) by auto
  then have "\<not> cap s \<le> card {q. 0 < held s q}" using cap by simp
  with new_page_spec [OF H(1) cn] obtain q g s1 where 1: "new_page s = Some (Some (q, g), s1)" "ok s1" "cap s1 = cap s"
    "\<not> alloc s q" "alloc s1 q" "at s1 q = Some g" "get s1 g = replicate psize 0"
    "(content s)(q \<mapsto> replicate psize 0) \<subseteq>\<^sub>m content s1" "held s1 = (held s)(q := 1)"
    "\<And>r. alloc s r \<Longrightarrow> alloc s1 r" "at s1 p = at s p" using H(3) by auto
  have qp: "q \<noteq> p" using 1(4) al by auto
  have c1: "content s1 p = Some d" "content s1 q = Some (replicate psize 0)"
    using map_leD [OF 1(8)] H(4) qp by auto
  have g1: "get s1 f = d" using at_content [OF 1(2), of p f] 1(11) H(2) c1 by simp
  obtain d2 where d2: "SetNextPageId d q = Some d2" "table_inv d2" "tuples d2 = tuples d" "length d2 = length d"
    "word_at d2 0 = p" "word_at d2 12 = q" using SetNextPageId_view [OF H(7), of q] H(8) by auto
  define s2 where "s2 = put s1 f d2"
  have P2: "ok s2" "cap s2 = cap s1" "content s2 = (content s1)(p \<mapsto> d2)" "held s2 = held s1" "at s2 = at s1" "alloc s2 = alloc s1"
    using put_spec [OF 1(2), of p f d2] 1(9,11) H(2,3,6) d2(4) qp by (simp_all add: s2_def)
  have g2: "get s2 f = d2" "get s2 g = replicate psize 0"
    using at_content [OF P2(1), of p f] at_content [OF P2(1), of q g] P2(3,5) 1(6,11) H(2) c1 qp by auto
  obtain e where e: "TablePage_Init cfg (replicate psize 0) q (of_nat psize) p = Some e" "table_inv e" "length e = psize"
    "tuples e = Map.empty" "free_space e = psize - 24" "word_at e 0 = q" "word_at e 12 = INVALID_PAGE_ID cfg"
    using Init_view [of "replicate psize 0" cfg q p] cfg by auto
  define s3 where "s3 = put s2 g e"
  have P3: "ok s3" "cap s3 = cap s" "content s3 = (content s2)(q \<mapsto> e)" "held s3 = held s1" "at s3 = at s1" "alloc s3 = alloc s1"
    using put_spec [OF P2(1), of q g e] P2 1(3,6,9) e(3) by (simp_all add: s3_def)
  have g3: "get s3 f = d2" using at_content [OF P3(1), of p f] P3(3,5) P2(3) 1(11) H(2) qp by auto
  have h3: "held s3 = (\<lambda>_. 0)(p := 1, q := 1)" using P3(4) 1(9) H(3) by simp
  obtain s4 where 4: "unpin s3 p True = Some (True, s4)" "ok s4" "cap s4 = cap s" "content s3 \<subseteq>\<^sub>m content s4"
    "held s4 = (\<lambda>_. 0)(q := 1)" "at s4 = at s1" "alloc s4 = alloc s1"
    using unpin_spec [OF P3(1), of p True] h3 qp P3 by (auto simp: fun_upd_twist fun_upd_idem)
  have le: "(content s)(p \<mapsto> d2, q \<mapsto> e) \<subseteq>\<^sub>m content s4"
  proof (rule map_le_trans [OF _ 4(4)])
    have "content s1 r = Some y" if "content s r = Some y" "r \<noteq> q" for r y using map_leD [OF 1(8), of r y] that by simp
    then show "(content s)(p \<mapsto> d2, q \<mapsto> e) \<subseteq>\<^sub>m content s3" by (auto simp: map_le_def P3(3) P2(3) dom_def)
  qed
  have c4: "content s4 q = Some e" using map_leD [OF 4(4)] P3(3) by simp
  then have "get s4 g = e" using at_content [OF 4(2), of q g] 4(6) 1(6) by simp
  then have hand: "hand s4 q g e" using 4 c4 e 1(6) by (simp add: hand_def)
  show ?thesis
    by (rule that [OF 1(1) g1 d2(1) s2_def g2(1) _ s3_def g3 4(1) hand new_valid [OF H(1) cn 1(1)] 1(4) qp le 4(3)])
      (use 1 d2 e 4 cfg g2 in auto)
qed

text \<open>The result of the loop from a page on: a page in hand, which holds the new tuple, in a chain that has at most
  one more page, and the other pages untouched.\<close>

definition inserted_in :: "config \<Rightarrow> tuple \<Rightarrow> 'a \<Rightarrow> page_id_t list \<Rightarrow> rid \<Rightarrow> 'b \<Rightarrow> 'a \<Rightarrow> page_id_t list \<Rightarrow> bool" where
  "inserted_in cfg t s ps rid g s' ps' \<longleftrightarrow> (\<exists>d. hand s' (page_id_of rid) g d) \<and> page_id_of rid \<in> set ps' \<and> cap s' = cap s \<and>
     (\<forall>r. alloc s r \<longrightarrow> alloc s' r) \<and> chain cfg (content s') ps' \<and>
     (ps' = ps \<or> (\<exists>q. ps' = ps @ [q] \<and> \<not> alloc s q \<and> alloc s' q \<and> q \<noteq> invalid)) \<and>
     heap_tuples (content s) ps rid = None \<and>
     heap_tuples (content s') ps' = (heap_tuples (content s) ps)(rid \<mapsto> (False, data_of t)) \<and>
     (\<forall>r x. r \<notin> set ps \<longrightarrow> alloc s r \<longrightarrow> content s r = Some x \<longrightarrow> content s' r = Some x)"

lemma heap_tuples_Cons:
  "heap_tuples m (p # ps) r = (if page_id_of r = p then tuples (the (m p)) (unat (slot_num_of r)) else heap_tuples m ps r)"
  by (simp add: heap_tuples_def)

lemma heap_tuples_cong:
  "(\<And>q. q \<in> set ps \<Longrightarrow> m' q = m q) \<Longrightarrow> heap_tuples m' ps = heap_tuples m ps"
  by (auto simp: heap_tuples_def)

lemma insert_here_in:
  assumes hd: "hand s p f d" and sz: "0 < size_of t" "unat (size_of t) = length (data_of t)"
    and fit: "length (data_of t) + 8 \<le> free_space d" and ch: "chain cfg (content s) (p # qs)" "p \<notin> set qs"
  shows "\<exists>rid s'. insert_loop (Suc n) (ops_of new_page fetch unpin get put) cfg t s f = Some (Some (rid, f), s') \<and>
    inserted_in cfg t s (p # qs) rid f s' (p # qs)"
proof -
  have c: "content s p = Some d" using hd by (simp add: hand_def)
  obtain i d' where i: "insert_loop (Suc n) (ops_of new_page fetch unpin get put) cfg t s f =
      Some (Some (\<lparr>page_id_of = p, slot_num_of = i\<rparr>, f), put s f d')"
    "hand (put s f d') p f d'" "content (put s f d') = (content s)(p \<mapsto> d')" "head d' = head d" "length d' = length d"
    "table_inv d'" "tuples d (unat i) = None" "tuples d' = (tuples d)(unat i \<mapsto> (False, data_of t))"
    using insert_here [OF hd sz fit, of n cfg] by blast
  have ch': "chain cfg (content (put s f d')) (p # qs)" unfolding i(3) by (rule chain_edit [OF ch(1) c i(6,4,5)])
  have inj: "unat a = unat b \<longleftrightarrow> a = b" for a b :: uint32 by (simp add: word_unat_eq_iff)
  have "heap_tuples (content (put s f d')) (p # qs) r =
      ((heap_tuples (content s) (p # qs))(\<lparr>page_id_of = p, slot_num_of = i\<rparr> \<mapsto> (False, data_of t))) r" for r
    using ch(2) c by (cases r) (auto simp: i(3,8) heap_tuples_def inj)
  then have ht: "heap_tuples (content (put s f d')) (p # qs) =
      (heap_tuples (content s) (p # qs))(\<lparr>page_id_of = p, slot_num_of = i\<rparr> \<mapsto> (False, data_of t))" by blast
  have "word_at d' 0 = p" using i(2) by (simp add: hand_def)
  from hand_put(3,4) [OF hd i(6,5) this] have "cap (put s f d') = cap s" "alloc (put s f d') = alloc s" by simp_all
  then show ?thesis
    using i(1,2,3,7) ch' ht c by (intro exI [of _ "\<lparr>page_id_of = p, slot_num_of = i\<rparr>"] exI [of _ "put s f d'"])
      (auto simp: inserted_in_def heap_tuples_Cons)
qed

text \<open>A page in front of the chain and a state before.\<close>

lemma inserted_in_front:
  assumes i: "inserted_in cfg t s2 (q # qs) rid g s' ps'" and le: "content s \<subseteq>\<^sub>m content s2" and cap: "cap s2 = cap s"
    and al: "\<And>r. alloc s r \<Longrightarrow> alloc s2 r" and ch: "chain cfg (content s) (p # q # qs)" and p: "p \<notin> set (q # qs)" "alloc s p"
  shows "inserted_in cfg t s (p # q # qs) rid g s' (p # ps')"
proof -
  obtain d where d: "content s p = Some d" "page_ok (content s) p q" "chain cfg (content s) (q # qs)"
    using ch by (auto simp: page_ok_def split: option.splits)
  have i': "page_id_of rid \<in> set ps'" "cap s' = cap s2" "\<And>r. alloc s2 r \<Longrightarrow> alloc s' r" "chain cfg (content s') ps'"
    "ps' = q # qs \<or> (\<exists>x. ps' = (q # qs) @ [x] \<and> \<not> alloc s2 x \<and> alloc s' x \<and> x \<noteq> invalid)"
    "heap_tuples (content s2) (q # qs) rid = None"
    "heap_tuples (content s') ps' = (heap_tuples (content s2) (q # qs))(rid \<mapsto> (False, data_of t))"
    "\<And>r x. r \<notin> set (q # qs) \<Longrightarrow> alloc s2 r \<Longrightarrow> content s2 r = Some x \<Longrightarrow> content s' r = Some x"
    using i by (simp_all add: inserted_in_def)
  have cp: "content s' p = Some d" using i'(8) [OF p(1) al [OF p(2)]] map_leD [OF le d(1)] by simp
  have ps': "hd ps' = q" "ps' \<noteq> []" "p \<notin> set ps'" using i'(5) p al by auto
  have "page_ok (content s') p q" using d(1,2) cp by (simp add: page_ok_def)
  then have ch': "chain cfg (content s') (p # ps')" using i'(4) ps' by (cases ps') auto
  have ht: "heap_tuples (content s2) (q # qs) = heap_tuples (content s) (q # qs)" by (rule heap_tuples_mono [OF d(3) le])
  have "page_id_of rid \<noteq> p" using i'(1) ps' by auto
  then have "heap_tuples (content s') (p # ps') = (heap_tuples (content s) (p # q # qs))(rid \<mapsto> (False, data_of t))"
    "heap_tuples (content s) (p # q # qs) rid = None"
    using i'(6,7) ht cp d(1) by (auto simp: heap_tuples_Cons fun_eq_iff)
  then show ?thesis
    using i i' ch' cap al map_leD [OF le] by (auto simp: inserted_in_def)
qed

text \<open>The last page has no room: a page is appended and takes the tuple.\<close>

lemma insert_appended:
  assumes hd: "hand s p f d" and cl: "clean s p" and cap: "2 \<le> cap s" and cn: "can_new s" and al: "alloc s p"
    and cfg: "psize = PAGE_SIZE cfg" "psize < 2 ^ 31" "invalid = INVALID_PAGE_ID cfg" and ch: "chain cfg (content s) [p]"
    and sz: "0 < size_of t" "unat (size_of t) = length (data_of t)" "length (data_of t) + 32 \<le> psize"
    and fit: "\<not> length (data_of t) + 8 \<le> free_space d"
  shows "\<exists>rid g s' ps'. insert_loop (Suc (Suc n)) (ops_of new_page fetch unpin get put) cfg t s f = Some (Some (rid, g), s') \<and>
    inserted_in cfg t s [p] rid g s' ps'"
proof -
  define ops where "ops = ops_of new_page fetch unpin get put"
  note N = no_room [OF hd cl sz(1,2) fit]
  define s0 where "s0 = put s f d"
  note N' = N [folded s0_def]
  have d: "get s f = d" "get s0 f = d" "word_at d 12 = invalid" "content s p = Some d" "length d = psize"
    using hd N'(2) ch cfg(3) by (auto simp: hand_def page_ok_def)
  have c24: "24 \<le> psize" using sz(3) by simp
  from append_page [OF N'(2) _ put_can_new [OF cn, of f d, folded s0_def] _ cfg(1,2) c24] cap al N'(4,5)
  obtain q g s1 d2 s2 e s3 s4 where A: "new_page s0 = Some (Some (q, g), s1)" "get s1 f = d"
    "SetNextPageId d q = Some d2" "s2 = put s1 f d2" "get s2 f = d2"
    "TablePage_Init cfg (get s2 g) q (of_nat (PAGE_SIZE cfg)) p = Some e" "s3 = put s2 g e" "get s3 f = d2"
    "unpin s3 p True = Some (True, s4)" "hand s4 q g e" "q \<noteq> invalid" "\<not> alloc s0 q" "q \<noteq> p"
    "(content s0)(p \<mapsto> d2, q \<mapsto> e) \<subseteq>\<^sub>m content s4" "cap s4 = cap s0" "\<And>r. alloc s0 r \<Longrightarrow> alloc s4 r" "alloc s4 q"
    "table_inv d2" "word_at d2 0 = p" "word_at d2 12 = q" "tuples d2 = tuples d" "length d2 = length d"
    "tuples e = Map.empty" "free_space e = psize - 24" "word_at e 12 = INVALID_PAGE_ID cfg"
    by (metis (no_types, lifting))
  have c4: "content s4 p = Some d2" "content s4 q = Some e" "table_inv e" "word_at e 0 = q"
    using map_leD [OF A(14)] A(10,13) by (auto simp: hand_def)
  have ch4: "chain cfg (content s4) [q]" using c4 A(25) by (simp add: page_ok_def)
  have fit4: "length (data_of t) + 8 \<le> free_space e" using A(24) sz(3) by simp
  from insert_here_in [OF A(10) sz(1,2) fit4 ch4, of n] obtain rid s' where
    I: "insert_loop (Suc n) ops cfg t s4 g = Some (Some (rid, g), s')" "inserted_in cfg t s4 [q] rid g s' [q]"
    unfolding ops_def by auto
  have I': "page_id_of rid = q" "cap s' = cap s4" "\<And>r. alloc s4 r \<Longrightarrow> alloc s' r" "chain cfg (content s') [q]"
    "heap_tuples (content s') [q] = (heap_tuples (content s4) [q])(rid \<mapsto> (False, data_of t))"
    "\<And>r x. r \<noteq> q \<Longrightarrow> alloc s4 r \<Longrightarrow> content s4 r = Some x \<Longrightarrow> content s' r = Some x" "\<exists>d. hand s' (page_id_of rid) g d"
    using I(2) by (auto simp: inserted_in_def)
  have cp: "content s' p = Some d2" using I'(6) [of p] A(13,16) al N'(5) c4 by simp
  have "insert_loop (Suc (Suc n)) ops cfg t s f = insert_loop (Suc n) ops cfg t s4 g"
    using A d N(1) cfg(3) table_invD(4) [OF A(18)] sz(3)
    by (simp add: ops_def ops_of_def GetNextPageId_def read32_def s0_def [symmetric] Let_def del: insert_loop.simps(1))
  moreover have "inserted_in cfg t s [p] rid g s' [p, q]"
  proof -
    have "heap_tuples (content s4) [q] = Map.empty" using c4 A(23) by (auto simp: heap_tuples_def fun_eq_iff)
    with I'(5) have e: "heap_tuples (content s') [q] = [rid \<mapsto> (False, data_of t)]" by simp
    have "heap_tuples (content s') [p, q] r = ((heap_tuples (content s) [p])(rid \<mapsto> (False, data_of t))) r" for r
      using I'(1) cp d(4) A(13,21) e heap_tuples_Cons [of "content s'" p "[q]" r] by (auto simp: heap_tuples_def)
    then have "heap_tuples (content s') [p, q] = (heap_tuples (content s) [p])(rid \<mapsto> (False, data_of t))" by blast
    moreover have "chain cfg (content s') [p, q]" using I'(4) cp A(18-20) by (simp add: page_ok_def)
    moreover have "content s' r = Some x" if "r \<notin> set [p]" "alloc s r" "content s r = Some x" for r x
      using I'(6) [of r x] A(12,16) map_leD [OF A(14), of r x] that N'(3,5) by (cases "r = q") auto
    moreover have "heap_tuples (content s) [p] rid = None" using I'(1) A(13) by (simp add: heap_tuples_def)
    ultimately show ?thesis using I' A(11,12,15,16,17) N'(4,5) by (auto simp: inserted_in_def)
  qed
  ultimately show ?thesis using I(1) unfolding ops_def by metis
qed

lemma insert_loop_spec:
  assumes "hand s p f d" "clean s p" "2 \<le> cap s" "can_new s" "chain cfg (content s) (p # qs)" "distinct (p # qs)"
    and "\<And>q. q \<in> set (p # qs) \<Longrightarrow> alloc s q \<and> q \<noteq> invalid"
    and cfg: "psize = PAGE_SIZE cfg" "psize < 2 ^ 31" "invalid = INVALID_PAGE_ID cfg"
    and sz: "0 < size_of t" "unat (size_of t) = length (data_of t)" "length (data_of t) + 32 \<le> psize"
  shows "\<exists>rid g s' ps'. insert_loop (Suc (Suc (length qs + n))) (ops_of new_page fetch unpin get put) cfg t s f =
      Some (Some (rid, g), s') \<and> inserted_in cfg t s (p # qs) rid g s' ps'"
  using assms(1-7)
proof (induction qs arbitrary: s p f d)
  case Nil
  show ?case
  proof (cases "length (data_of t) + 8 \<le> free_space d")
    case True
    then show ?thesis using insert_here_in [OF Nil(1) sz(1,2) True Nil(5)] by fastforce
  next
    case False
    then show ?thesis using insert_appended [OF Nil(1-4) _ cfg Nil(5) sz False, of n] Nil(7) by simp
  qed
next
  case (Cons q qs)
  show ?case
  proof (cases "length (data_of t) + 8 \<le> free_space d")
    case True
    then show ?thesis using insert_here_in [OF Cons.prems(1) sz(1,2) True Cons.prems(5)] Cons.prems(6) by fastforce
  next
    case False
    note N = no_room [OF Cons.prems(1,2) sz(1,2) False]
    define s0 where "s0 = put s f d"
    note N' = N [folded s0_def]
    have d: "get s f = d" "get s0 f = d" "word_at d 12 = q" "word_at d 0 = p" "length d = psize"
      using Cons.prems(1,5) N'(2) by (auto simp: hand_def page_ok_def)
    obtain e where e: "content s0 q = Some e" "table_inv e" "word_at e 0 = q"
      using Cons.prems(5) N'(3) by (cases qs) (auto simp: page_ok_def split: option.splits)
    have aq: "alloc s0 q" using Cons.prems(7) N'(5) by simp
    obtain s1 g s2 where S: "unpin s0 p False = Some (True, s1)" "fetch s1 q = Some (Some g, s2)" "hand s2 q g e" "clean s2 q"
      "content s0 \<subseteq>\<^sub>m content s2" "cap s2 = cap s0" "\<And>r. alloc s0 r \<Longrightarrow> alloc s2 r" "can_new s0 \<Longrightarrow> can_new s2"
      using step_on [OF N'(2,6) aq e] by blast
    have "chain cfg (content s2) (q # qs)" using Cons.prems(5) chain_mono [OF S(5)] N'(3) by simp
    moreover have "can_new s2" using S(8) put_can_new [OF Cons.prems(4)] by (simp add: s0_def)
    moreover have "alloc s2 x \<and> x \<noteq> invalid" if "x \<in> set (q # qs)" for x using Cons.prems(7) [of x] that S(7) N'(5) by simp
    ultimately obtain rid h s' ps' where I: "insert_loop (Suc (Suc (length qs + n))) (ops_of new_page fetch unpin get put) cfg t s2 g =
        Some (Some (rid, h), s')" "inserted_in cfg t s2 (q # qs) rid h s' ps'"
      using Cons.IH [OF S(3,4)] Cons.prems(3,6) S(6) N'(4) by auto
    have "insert_loop (Suc (Suc (length (q # qs) + n))) (ops_of new_page fetch unpin get put) cfg t s f = Some (Some (rid, h), s')"
      using I(1) S(1,2) d N(1) cfg(3) Cons.prems(7) sz(3)
      by (simp add: ops_of_def GetNextPageId_def read32_def s0_def [symmetric] Let_def)
    moreover have "inserted_in cfg t s (p # q # qs) rid h s' (p # ps')"
      by (rule inserted_in_front [OF I(2)]) (use S(5-7) N'(3-5) Cons.prems(5-7) in auto)
    ultimately show ?thesis by blast
  qed
qed

lemma InsertTuple_heap:
  assumes ok: "ok s" and h: "held s = (\<lambda>_. 0)" and hp: "heap_ok cfg (content s) (alloc s) th ps"
    and cap: "2 \<le> cap s" and cn: "can_new s" and fuel: "length ps < fuel"
    and cfg: "psize = PAGE_SIZE cfg" "psize < 2 ^ 31" "invalid = INVALID_PAGE_ID cfg"
    and sz: "0 < size_of t" "unat (size_of t) = length (data_of t)" "length (data_of t) + 32 \<le> psize"
  defines "ops \<equiv> ops_of new_page fetch unpin get put"
  shows "\<exists>rid s' ps'. TableHeap_InsertTuple fuel ops cfg th s txn t = Some (Some rid, AppendTableWriteRecord
        \<lparr>wr_rid = rid, wr_type = INSERT, wr_tuple = Tuple_default cfg, wr_table = this_heap th\<rparr> txn, s') \<and>
    ok s' \<and> held s' = (\<lambda>_. 0) \<and> cap s' = cap s \<and> heap_ok cfg (content s') (alloc s') th ps' \<and>
    (ps' = ps \<or> (\<exists>q. ps' = ps @ [q])) \<and> heap_tuples (content s) ps rid = None \<and>
    heap_tuples (content s') ps' = (heap_tuples (content s) ps)(rid \<mapsto> (False, data_of t))"
proof -
  note H = heap_okD [OF hp]
  obtain p qs where ps: "ps = p # qs" "first_page_id th = p" using H(2,6) by (cases ps) auto
  have "p \<in> set ps" using ps by simp
  with H(1) obtain d where d: "content s p = Some d" "table_inv d" "word_at d 0 = p" by (rule chain_page)
  have ap: "alloc s p" using H(4) ps by simp
  obtain f s1 where 1: "fetch s p = Some (Some f, s1)" "ok s1" "at s1 p = Some f" "get s1 f = d" "cap s1 = cap s"
    "content s \<subseteq>\<^sub>m content s1" "held s1 = (\<lambda>_. 0)(p := 1)" "clean s1 p" "\<And>q. alloc s q \<Longrightarrow> alloc s1 q"
    "can_new s \<Longrightarrow> can_new s1" "content s1 p = Some d" "length d = psize" using fetch_one [OF ok h ap d(1)] by blast
  have hd: "hand s1 p f d" using 1 d by (simp add: hand_def)
  have ch: "chain cfg (content s1) (p # qs)" using chain_mono [OF 1(6)] H(1) ps by simp
  obtain n where n: "fuel = Suc (Suc (length qs + n))" using fuel ps by (auto dest: less_imp_Suc_add)
  obtain rid g s2 ps' where L: "insert_loop fuel ops cfg t s1 f = Some (Some (rid, g), s2)"
    "inserted_in cfg t s1 (p # qs) rid g s2 ps'"
    unfolding ops_def n using insert_loop_spec [OF hd 1(8) _ 1(10) [OF cn] ch _ _ cfg sz, of n] 1(5,9) cap H(3-5) ps cfg(3)
    by fastforce
  have I: "page_id_of rid \<in> set ps'" "cap s2 = cap s1" "\<And>r. alloc s1 r \<Longrightarrow> alloc s2 r" "chain cfg (content s2) ps'"
    "ps' = p # qs \<or> (\<exists>x. ps' = (p # qs) @ [x] \<and> \<not> alloc s1 x \<and> alloc s2 x \<and> x \<noteq> invalid)"
    "heap_tuples (content s1) (p # qs) rid = None"
    "heap_tuples (content s2) ps' = (heap_tuples (content s1) (p # qs))(rid \<mapsto> (False, data_of t))"
    using L(2) by (simp_all add: inserted_in_def)
  obtain e where e: "hand s2 (page_id_of rid) g e" using L(2) by (auto simp: inserted_in_def)
  then have E: "ok s2" "held s2 = (\<lambda>_. 0)(page_id_of rid := 1)" "get s2 g = e" "word_at e 0 = page_id_of rid" "length e = psize"
    by (simp_all add: hand_def)
  obtain s3 where 3: "unpin s2 (page_id_of rid) True = Some (True, s3)" "ok s3" "cap s3 = cap s2" "content s2 \<subseteq>\<^sub>m content s3"
    "held s3 = (\<lambda>_. 0)" "alloc s3 = alloc s2"
    using unpin_spec [OF E(1), of "page_id_of rid" True] E(2) by (auto simp: fun_upd_idem)
  have ht: "heap_tuples (content s1) ps = heap_tuples (content s) ps" "heap_tuples (content s3) ps' = heap_tuples (content s2) ps'"
    using heap_tuples_mono [OF H(1) 1(6)] heap_tuples_mono [OF I(4) 3(4)] by simp_all
  have al: "alloc s3 q \<and> q \<noteq> INVALID_PAGE_ID cfg" if "q \<in> set ps'" for q
    using that I(3,5) 1(9) 3(6) H(4,5) [of q] ps cfg(3) by auto
  have "hd ps' = first_page_id th" "distinct ps'" using I(5) ps H(2,3) H(4) 1(9) by auto
  then have hp': "heap_ok cfg (content s3) (alloc s3) th ps'"
    using chain_mono [OF 3(4) I(4)] al by (simp add: heap_ok_def list_all_iff)
  have "\<not> size_of t + 32 > of_nat (PAGE_SIZE cfg)"
  proof -
    have "unat (size_of t + 32) = length (data_of t) + 32" using sz cfg by (simp add: unat_word_ariths)
    moreover have "unat (of_nat (PAGE_SIZE cfg) :: uint32) = PAGE_SIZE cfg" using cfg by (intro unat_of_nat_small) simp
    ultimately show ?thesis using sz(3) cfg(1) by (simp add: word_less_nat_alt)
  qed
  then have "TableHeap_InsertTuple fuel ops cfg th s txn t = Some (Some rid, AppendTableWriteRecord
        \<lparr>wr_rid = rid, wr_type = INSERT, wr_tuple = Tuple_default cfg, wr_table = this_heap th\<rparr> txn, s3)"
    using 1(1) L(1) E(3-5) 3(1) ps(2) sz(3) by (simp add: TableHeap_InsertTuple_def ops_def ops_of_def)
  then show ?thesis using 3 hp' I ht 1(5) ps(1) by auto
qed

text \<open>A new table.\<close>

lemma create_heap:
  assumes ok: "ok s" and h: "held s = (\<lambda>_. 0)" and cn: "can_new s"
    and cfg: "psize = PAGE_SIZE cfg" "psize < 2 ^ 31" "24 \<le> psize" "invalid = INVALID_PAGE_ID cfg"
  defines "ops \<equiv> ops_of new_page fetch unpin get put"
  shows "\<exists>p s'. TableHeap_create ops cfg this s = Some (\<lparr>first_page_id = p, this_heap = this\<rparr>, s') \<and>
    ok s' \<and> held s' = (\<lambda>_. 0) \<and> cap s' = cap s \<and>
    heap_ok cfg (content s') (alloc s') \<lparr>first_page_id = p, this_heap = this\<rparr> [p] \<and>
    heap_tuples (content s') [p] = Map.empty"
proof -
  from new_page_spec [OF ok cn] h cap_pos [OF ok] obtain p f s1 where 1: "new_page s = Some (Some (p, f), s1)" "ok s1"
    "cap s1 = cap s" "alloc s1 p" "at s1 p = Some f" "get s1 f = replicate psize 0" "held s1 = (\<lambda>_. 0)(p := 1)" by auto
  obtain e where e: "TablePage_Init cfg (replicate psize 0) p (of_nat psize) (INVALID_LSN cfg) = Some e" "table_inv e"
    "length e = psize" "tuples e = Map.empty" "word_at e 0 = p" "word_at e 12 = INVALID_PAGE_ID cfg"
    using Init_view [of "replicate psize 0" cfg p "INVALID_LSN cfg"] cfg by auto
  define s2 where "s2 = put s1 f e"
  have 2: "ok s2" "cap s2 = cap s" "content s2 = (content s1)(p \<mapsto> e)" "held s2 = (\<lambda>_. 0)(p := 1)" "alloc s2 = alloc s1"
    using put_spec [OF 1(2,5), of e] 1 e(3) by (simp_all add: s2_def)
  obtain s3 where 3: "unpin s2 p True = Some (True, s3)" "ok s3" "cap s3 = cap s" "content s2 \<subseteq>\<^sub>m content s3"
    "held s3 = (\<lambda>_. 0)" "alloc s3 = alloc s1"
    using unpin_spec [OF 2(1), of p True] 2 by (auto simp: fun_upd_idem)
  have c: "content s3 p = Some e" using map_leD [OF 3(4)] 2(3) by simp
  have "p \<noteq> INVALID_PAGE_ID cfg" using new_valid [OF ok cn 1(1)] cfg(4) by simp
  then have "heap_ok cfg (content s3) (alloc s3) \<lparr>first_page_id = p, this_heap = this\<rparr> [p]"
    using c e 3(6) 1(4) by (simp add: heap_ok_def page_ok_def)
  moreover have "heap_tuples (content s3) [p] = Map.empty" using c e(4) by (auto simp: heap_tuples_def fun_eq_iff)
  moreover have "TableHeap_create ops cfg this s = Some (\<lparr>first_page_id = p, this_heap = this\<rparr>, s3)"
    using 1(1,6) e(1) 3(1) cfg(1) by (simp add: TableHeap_create_def ops_def ops_of_def s2_def [symmetric])
  ultimately show ?thesis using 3 by blast
qed

end

subsection \<open>The pool instance\<close>

definition heap_room :: "config \<Rightarrow> bpm \<Rightarrow> bool" where
  "heap_room cfg s \<longleftrightarrow> can_new cfg s \<and> 2 ^ 31 \<le> unat (INVALID_PAGE_ID cfg)"

lemma heap_room_keep:
  "next_page_id s' = next_page_id s \<Longrightarrow> num_instances s' = num_instances s \<Longrightarrow> heap_room cfg s' = heap_room cfg s"
  by (simp add: heap_room_def can_new_def)

lemma new_page_valid:
  assumes "pool_ok cfg s" "heap_room cfg s" "NewPgImp cfg s = Some (Some (p, f), s')"
  shows "p \<noteq> INVALID_PAGE_ID cfg"
proof -
  have inv: "bpm_inv cfg s" "aligned s" "disk_ok cfg s" using assms(1) by (auto simp: pool_ok_def synced_def)
  have ps: "0 < PAGE_SIZE cfg" using inv(3) by (simp add: disk_ok_def)
  have "room s" using can_new_room [OF inv(2) _ ps] assms(2) by (simp add: heap_room_def)
  with inv(1) have p: "p = next_page_id s" using assms(3) by (cases rule: NewPgImp_cases) auto
  have "unat (next_page_id s) \<le> (unat (next_page_id s) + unat (num_instances s)) * PAGE_SIZE cfg"
    using ps by (cases "PAGE_SIZE cfg") auto
  then have "unat p < 2 ^ 31" using assms(2) p by (simp add: heap_room_def can_new_def)
  then show ?thesis using assms(2) by (auto simp: heap_room_def)
qed

interpretation bph: page_pool "NewPgImp cfg" "FetchPgImp cfg" "UnpinPgImp cfg" "FlushPgImp cfg"
  read_frame write_frame "PAGE_SIZE cfg" "pool_ok cfg" "heap_room cfg" allocated "view cfg" pins
  page_table "saved cfg" pool_size "INVALID_PAGE_ID cfg" for cfg
proof (unfold_locales, goal_cases)
  case (1 s)
  then show ?case using bpmi.new_page_spec [of cfg s] by (simp add: heap_room_def)
next
  case (2 s p x)
  then show ?case by (rule bpmi.fetch_spec)
next
  case (3 s p f x)
  then show ?case by (rule bpmi.put_spec)
next
  case (4 s p d)
  then show ?case by (rule bpmi.unpin_spec)
next
  case (5 s p)
  then show ?case by (rule bpmi.flush_spec)
next
  case (6 s p x)
  then show ?case by (rule bpmi.content_length)
next
  case (7 s p f)
  then show ?case by (rule bpmi.at_content)
next
  case (8 s p)
  then show ?case by (rule bpmi.held_at)
next
  case (9 s)
  then show ?case by (rule bpmi.cap_pos)
next
  case (10 s p f s')
  then show ?case by (rule new_page_valid)
next
  case (11 s p r s')
  have inv: "bpm_inv cfg s" using 11 by (simp add: pool_ok_def)
  from inv 11(2) have "next_page_id s' = next_page_id s \<and> num_instances s' = num_instances s"
    using 11(4) by (cases rule: FetchPgImp_cases) (auto simp: install_def fresh_simps)
  then show ?case using 11(3) heap_room_keep by blast
next
  case (12 s p d b s')
  have inv: "bpm_inv cfg s" using 12 by (simp add: pool_ok_def)
  from inv have "next_page_id s' = next_page_id s \<and> num_instances s' = num_instances s"
    using 12(3) by (cases rule: UnpinPgImp_cases [of cfg s p d]) auto
  then show ?case using 12(2) heap_room_keep by blast
next
  case (13 s f x)
  then show ?case using heap_room_keep [of "write_frame s f x" s] by (simp add: write_frame_def)
qed

subsection \<open>Properties\<close>

text \<open>C14. Inserting a tuple that fits in a page ends: the search visits each page of the table at most once and at
  most one page is appended. The tuple is then under a new identifier, no other tuple changes, the insertion is in
  the write set of the transaction, and no page stays pinned.\<close>

theorem TableHeap_InsertTuple_ends:
  assumes "pool_ok cfg s" "pins s = (\<lambda>_. 0)" "2 \<le> pool_size s" "heap_room cfg s"
    and "heap_ok cfg (view cfg s) (allocated s) th ps" "length ps < fuel" "PAGE_SIZE cfg < 2 ^ 31"
    and "0 < size_of t" "unat (size_of t) = length (data_of t)" "length (data_of t) + 32 \<le> PAGE_SIZE cfg"
  shows "\<exists>rid s' ps'. TableHeap_InsertTuple fuel (bpm_ops cfg) cfg th s txn t = Some (Some rid, AppendTableWriteRecord
        \<lparr>wr_rid = rid, wr_type = INSERT, wr_tuple = Tuple_default cfg, wr_table = this_heap th\<rparr> txn, s') \<and>
    pool_ok cfg s' \<and> pins s' = (\<lambda>_. 0) \<and> heap_ok cfg (view cfg s') (allocated s') th ps' \<and>
    (ps' = ps \<or> (\<exists>q. ps' = ps @ [q])) \<and> heap_tuples (view cfg s) ps rid = None \<and>
    heap_tuples (view cfg s') ps' = (heap_tuples (view cfg s) ps)(rid \<mapsto> (False, data_of t))"
  using bph.InsertTuple_heap [OF assms(1,2,5,3,4,6) refl assms(7) refl assms(8-10), of txn] by blast

text \<open>C3. On a record that holds a tuple every other operation of a table is an update of the map from
  identifiers to tuples, whatever pages it evicts: marking, rolling back, applying a deletion, updating
  (refused when the page has no room, and then nothing changes), and reading.\<close>

theorem TableHeap_refines_map:
  assumes "pool_ok cfg s" "pins s = (\<lambda>_. 0)" "heap_ok cfg (view cfg s) (allocated s) th ps"
    and "heap_tuples (view cfg s) ps rid = Some (del, bs)"
    and "0 < size_of t" "unat (size_of t) = length (data_of t)"
  defines "step \<equiv> \<lambda>s' x. pool_ok cfg s' \<and> pins s' = (\<lambda>_. 0) \<and> heap_ok cfg (view cfg s') (allocated s') th ps \<and>
    heap_tuples (view cfg s') ps = (heap_tuples (view cfg s) ps)(rid := x)"
  shows "(\<exists>txn' s'. TableHeap_MarkDelete (bpm_ops cfg) cfg th s txn rid = Some (True, txn', s') \<and> step s' (Some (True, bs))) \<and>
    (\<exists>s'. TableHeap_RollbackDelete (bpm_ops cfg) s rid = Some s' \<and> step s' (Some (False, bs))) \<and>
    (\<exists>s'. TableHeap_ApplyDelete (bpm_ops cfg) s rid = Some s' \<and> step s' None) \<and>
    (\<not> del \<longrightarrow> (\<exists>txn' s'. TableHeap_UpdateTuple (bpm_ops cfg) th s txn t rid =
        Some (length (data_of t) \<le> free_space (the (view cfg s (page_id_of rid))) + length bs, txn', s') \<and>
      step s' (Some (False, if length (data_of t) \<le> free_space (the (view cfg s (page_id_of rid))) + length bs
        then data_of t else bs)))) \<and>
    (\<exists>s'. TableHeap_GetTuple (bpm_ops cfg) s txn rid = Some (if del then None
        else Some \<lparr>size_of = of_nat (length bs), data_of = bs, rid_of = rid\<rparr>, txn, s') \<and> step s' (Some (del, bs)))"
proof (intro conjI impI)
  show "\<exists>txn' s'. TableHeap_MarkDelete (bpm_ops cfg) cfg th s txn rid = Some (True, txn', s') \<and> step s' (Some (True, bs))"
    using bph.MarkDelete_heap [OF assms(1-4), of txn] unfolding step_def by blast
  show "\<exists>s'. TableHeap_RollbackDelete (bpm_ops cfg) s rid = Some s' \<and> step s' (Some (False, bs))"
    using bph.RollbackDelete_heap [OF assms(1-4)] unfolding step_def by blast
  show "\<exists>s'. TableHeap_ApplyDelete (bpm_ops cfg) s rid = Some s' \<and> step s' None"
    using bph.ApplyDelete_heap [OF assms(1-4)] unfolding step_def by blast
  have idem: "(heap_tuples (view cfg s) ps)(rid \<mapsto> (del, bs)) = heap_tuples (view cfg s) ps"
    using assms(4) by (simp add: fun_upd_idem)
  have "page_id_of rid \<in> set ps" using assms(4) by (auto simp: heap_tuples_def split: if_splits)
  from bph.GetTuple_heap [OF assms(1-3) this, of txn] idem
  show "\<exists>s'. TableHeap_GetTuple (bpm_ops cfg) s txn rid = Some (if del then None
        else Some \<lparr>size_of = of_nat (length bs), data_of = bs, rid_of = rid\<rparr>, txn, s') \<and> step s' (Some (del, bs))"
    using assms(4) unfolding step_def by (cases del) auto
  assume "\<not> del"
  then have "heap_tuples (view cfg s) ps rid = Some (False, bs)" using assms(4) by simp
  from bph.UpdateTuple_heap [OF assms(1-3) this assms(5,6), of txn] idem \<open>\<not> del\<close>
  show "\<exists>txn' s'. TableHeap_UpdateTuple (bpm_ops cfg) th s txn t rid =
        Some (length (data_of t) \<le> free_space (the (view cfg s (page_id_of rid))) + length bs, txn', s') \<and>
      step s' (Some (False, if length (data_of t) \<le> free_space (the (view cfg s (page_id_of rid))) + length bs
        then data_of t else bs))"
    unfolding step_def by (auto split: if_splits)
qed

subsection \<open>A concrete table\<close>

definition heap_pool :: bpm where
  "heap_pool = the (BufferPoolManagerInstance page_cfg 2 1 0 empty_disk)"

lemma page_room: "next_page_id s < 16 \<Longrightarrow> num_instances s = 1 \<Longrightarrow> heap_room page_cfg s"
proof -
  assume a: "next_page_id s < 16" "num_instances s = 1"
  have "unat (next_page_id s) < 16" using a(1) by (simp add: word_less_nat_alt)
  moreover have "unat (- 1 :: page_id_t) = 2 ^ 32 - 1" by (simp add: unsigned_minus_1_eq_mask mask_eq_exp_minus_1)
  ultimately show ?thesis unfolding heap_room_def can_new_def a(2) page_cfg_def by simp
qed

lemma heap_pool_ok: "pool_ok page_cfg heap_pool" "pins heap_pool = (\<lambda>_. 0)" "heap_room page_cfg heap_pool"
proof -
  have e: "BufferPoolManagerInstance page_cfg 2 1 0 empty_disk = Some heap_pool"
    by (simp add: heap_pool_def BufferPoolManagerInstance_def)
  from constructor_pool_ok [OF this] show "pool_ok page_cfg heap_pool" "pins heap_pool = (\<lambda>_. 0)"
    by (simp_all add: page_cfg_def empty_disk_def disk_inv_def)
  have "next_page_id heap_pool = 0" "num_instances heap_pool = 1" by code_simp+
  then show "heap_room page_cfg heap_pool" by (simp add: page_room)
qed

lemma new_table:
  obtains p s where "TableHeap_create (bpm_ops page_cfg) page_cfg 7 heap_pool = Some (\<lparr>first_page_id = p, this_heap = 7\<rparr>, s)"
    "pool_ok page_cfg s" "pins s = (\<lambda>_. 0)" "2 \<le> pool_size s" "heap_room page_cfg s"
    "heap_ok page_cfg (view page_cfg s) (allocated s) \<lparr>first_page_id = p, this_heap = 7\<rparr> [p]"
    "heap_tuples (view page_cfg s) [p] = Map.empty"
proof -
  have "PAGE_SIZE page_cfg < 2 ^ 31" "24 \<le> PAGE_SIZE page_cfg" by (simp_all add: page_cfg_def)
  from bph.create_heap [OF heap_pool_ok refl this refl, of 7] obtain p s where
    s: "TableHeap_create (bpm_ops page_cfg) page_cfg 7 heap_pool = Some (\<lparr>first_page_id = p, this_heap = 7\<rparr>, s)"
    "pool_ok page_cfg s" "pins s = (\<lambda>_. 0)" "pool_size s = pool_size heap_pool"
    "heap_ok page_cfg (view page_cfg s) (allocated s) \<lparr>first_page_id = p, this_heap = 7\<rparr> [p]"
    "heap_tuples (view page_cfg s) [p] = Map.empty" by blast
  have "map_option (\<lambda>(th, s). next_page_id s < 16 \<and> num_instances s = 1)
      (TableHeap_create (bpm_ops page_cfg) page_cfg 7 heap_pool) = Some True" by code_simp
  then have "heap_room page_cfg s" using s(1) page_room by simp
  moreover have "pool_size heap_pool = 2" by code_simp
  ultimately show ?thesis using that s by simp
qed

theorem TableHeap_InsertTuple_ends_witness:
  "\<exists>th s rid s' ps. TableHeap_create (bpm_ops page_cfg) page_cfg 7 heap_pool = Some (th, s) \<and>
    TableHeap_InsertTuple 2 (bpm_ops page_cfg) page_cfg th s (Transaction page_cfg 0 REPEATABLE_READ) small_tuple =
      Some (Some rid, (Transaction page_cfg 0 REPEATABLE_READ)\<lparr>table_write_set :=
        [\<lparr>wr_rid = rid, wr_type = INSERT, wr_tuple = Tuple_default page_cfg, wr_table = 7\<rparr>]\<rparr>, s') \<and>
    heap_tuples (view page_cfg s') ps = [rid \<mapsto> (False, [7, 8, 9])]"
proof -
  obtain p s where s: "TableHeap_create (bpm_ops page_cfg) page_cfg 7 heap_pool = Some (\<lparr>first_page_id = p, this_heap = 7\<rparr>, s)"
    "pool_ok page_cfg s" "pins s = (\<lambda>_. 0)" "2 \<le> pool_size s" "heap_room page_cfg s"
    "heap_ok page_cfg (view page_cfg s) (allocated s) \<lparr>first_page_id = p, this_heap = 7\<rparr> [p]"
    "heap_tuples (view page_cfg s) [p] = Map.empty" by (rule new_table)
  have c: "length [p] < 2" "PAGE_SIZE page_cfg < 2 ^ 31" "0 < size_of small_tuple"
    "unat (size_of small_tuple) = length (data_of small_tuple)" "length (data_of small_tuple) + 32 \<le> PAGE_SIZE page_cfg"
    by (simp_all add: page_cfg_def small_tuple_def)
  from TableHeap_InsertTuple_ends [OF s(2-6) c, of "Transaction page_cfg 0 REPEATABLE_READ"] s(1,7) show ?thesis
    by (fastforce simp: AppendTableWriteRecord_def Transaction_def small_tuple_def)
qed

theorem TableHeap_refines_map_witness:
  "\<exists>th s rid ps s'. pool_ok page_cfg s \<and> heap_tuples (view page_cfg s) ps = [rid \<mapsto> (False, [7, 8, 9])] \<and>
    TableHeap_ApplyDelete (bpm_ops page_cfg) s rid = Some s' \<and> heap_tuples (view page_cfg s') ps = Map.empty"
proof -
  obtain p s where s: "TableHeap_create (bpm_ops page_cfg) page_cfg 7 heap_pool = Some (\<lparr>first_page_id = p, this_heap = 7\<rparr>, s)"
    "pool_ok page_cfg s" "pins s = (\<lambda>_. 0)" "2 \<le> pool_size s" "heap_room page_cfg s"
    "heap_ok page_cfg (view page_cfg s) (allocated s) \<lparr>first_page_id = p, this_heap = 7\<rparr> [p]"
    "heap_tuples (view page_cfg s) [p] = Map.empty" by (rule new_table)
  have c: "length [p] < 2" "PAGE_SIZE page_cfg < 2 ^ 31" "0 < size_of small_tuple"
    "unat (size_of small_tuple) = length (data_of small_tuple)" "length (data_of small_tuple) + 32 \<le> PAGE_SIZE page_cfg"
    by (simp_all add: page_cfg_def small_tuple_def)
  from bph.InsertTuple_heap [OF s(2,3,6,4,5) c(1) refl c(2) refl c(3-5), of "Transaction page_cfg 0 REPEATABLE_READ"] s(7)
  obtain rid s1 ps where 1: "pool_ok page_cfg s1" "pins s1 = (\<lambda>_. 0)"
    "heap_ok page_cfg (view page_cfg s1) (allocated s1) \<lparr>first_page_id = p, this_heap = 7\<rparr> ps"
    "heap_tuples (view page_cfg s1) ps = [rid \<mapsto> (False, [7, 8, 9])]" by (auto simp: small_tuple_def)
  have h: "heap_tuples (view page_cfg s1) ps rid = Some (False, [7, 8, 9])" using 1(4) by simp
  from TableHeap_refines_map [OF 1(1-3) h c(3,4)] 1 show ?thesis by fastforce
qed

end
