(* ===== verification/TableScan.thy ===== *)
theory TableScan
  imports TableHeapSpec
begin

section \<open>Scans of a table\<close>

text \<open>
  \<open>TableHeap::Begin\<close> and \<open>TableIterator::operator++\<close> enumerate the tuples of a table that are not marked as
  deleted, page by page and slot by slot: \<open>live_rids\<close>. This holds in every pool of the kind of \<open>page_pool\<close> with
  room for two pages, whatever is evicted meanwhile.
\<close>

subsection \<open>The tuples of a table in order\<close>

definition page_rids :: "(page_id_t \<rightharpoonup> bytes) \<Rightarrow> page_id_t \<Rightarrow> rid list" where
  "page_rids m p = map (rid_at (the (m p))) (live_slots (the (m p)) 0)"

definition live_rids :: "(page_id_t \<rightharpoonup> bytes) \<Rightarrow> page_id_t list \<Rightarrow> rid list" where
  "live_rids m ps = concat (map (page_rids m) ps)"

definition stored_tuple :: "(page_id_t \<rightharpoonup> bytes) \<Rightarrow> rid \<Rightarrow> tuple" where
  "stored_tuple m r = (let bs = snd (the (tuples (the (m (page_id_of r))) (unat (slot_num_of r)))) in
     \<lparr>size_of = of_nat (length bs), data_of = bs, rid_of = r\<rparr>)"

lemma live_rids_simps [simp]: "live_rids m [] = []" "live_rids m (p # ps) = page_rids m p @ live_rids m ps"
  by (simp_all add: live_rids_def)

lemma live_slots_split:
  assumes "live d i"
  shows "live_slots d 0 = filter (live d) [0..<i] @ i # live_slots d (Suc i)"
proof -
  have "[0..<unat (cnt d)] = [0..<i] @ i # [Suc i..<unat (cnt d)]"
  proof -
    have i: "i < unat (cnt d)" using assms by (simp add: live_def)
    then have "[0..<unat (cnt d)] = [0..<i] @ [i..<unat (cnt d)]" using upt_add_eq_append [of 0 i "unat (cnt d) - i"] by simp
    then show ?thesis using i by (simp add: upt_conv_Cons)
  qed
  then show ?thesis using assms by (simp add: live_slots_def)
qed

lemma unat_slot:
  assumes "table_inv d" "i < unat (cnt d)"
  shows "unat (of_nat i :: uint32) = i"
  using table_invD(1-3) [OF assms(1)] assms(2) by (intro unat_of_nat_small) simp

lemma rid_at_inj: "table_inv d \<Longrightarrow> inj_on (rid_at d) {i. i < unat (cnt d)}"
  by (rule inj_onI) (metis mem_Collect_eq rid.ext_inject rid_at_def unat_slot)

lemma page_rids_in: "r \<in> set (page_rids m p) \<Longrightarrow> page_id_of r = word_at (the (m p)) 0"
  by (auto simp: page_rids_def rid_at_def)

lemma live_rids_distinct:
  assumes "distinct ps" "\<And>p. p \<in> set ps \<Longrightarrow> table_inv (the (m p)) \<and> word_at (the (m p)) 0 = p"
  shows "distinct (live_rids m ps)"
  using assms
proof (induction ps)
  case (Cons p ps)
  have p: "table_inv (the (m p))" "word_at (the (m p)) 0 = p" using Cons.prems(2) [of p] by auto
  have "distinct (page_rids m p)"
    using inj_on_subset [OF rid_at_inj [OF p(1)], of "{i. i < unat (cnt (the (m p))) \<and> live (the (m p)) i}"]
    by (auto simp: page_rids_def distinct_map live_slots_def)
  moreover have "page_id_of r \<in> set ps" if "r \<in> set (live_rids m ps)" for r
    using that Cons.prems(2) page_rids_in by (auto simp: live_rids_def)
  then have "set (page_rids m p) \<inter> set (live_rids m ps) = {}"
    using Cons.prems(1) page_rids_in [of _ m p] p(2) by fastforce
  ultimately show ?case using Cons by simp
qed simp

text \<open>They are the tuples of the heap that are not deleted.\<close>

lemma live_rids_heap:
  assumes "\<And>p. p \<in> set ps \<Longrightarrow> table_inv (the (m p)) \<and> word_at (the (m p)) 0 = p"
  shows "r \<in> set (live_rids m ps) \<longleftrightarrow> (\<exists>bs. heap_tuples m ps r = Some (False, bs))"
proof
  assume "r \<in> set (live_rids m ps)"
  then obtain p i where p: "p \<in> set ps" "r = rid_at (the (m p)) i" "live (the (m p)) i"
    by (auto simp: live_rids_def page_rids_def live_slots_def)
  have i: "i < unat (cnt (the (m p)))" using p(3) by (simp add: live_def)
  then have "unat (slot_num_of r) = i" "page_id_of r = p" using unat_slot assms [OF p(1)] p(2) by (auto simp: rid_at_def)
  then show "\<exists>bs. heap_tuples m ps r = Some (False, bs)" using p(1,3) by (simp add: heap_tuples_def live_iff)
next
  assume "\<exists>bs. heap_tuples m ps r = Some (False, bs)"
  then have p: "page_id_of r \<in> set ps" "live (the (m (page_id_of r))) (unat (slot_num_of r))"
    by (auto simp: heap_tuples_def live_iff split: if_splits)
  moreover have "r = rid_at (the (m (page_id_of r))) (unat (slot_num_of r))"
    using assms [OF p(1)] by (cases r) (simp add: rid_at_def)
  moreover have "unat (slot_num_of r) \<in> set (live_slots (the (m (page_id_of r))) 0)"
    using p(2) by (simp add: live_slots_def live_def)
  ultimately show "r \<in> set (live_rids m ps)" by (auto simp: live_rids_def page_rids_def)
qed

lemma live_rids_mono:
  assumes "chain cfg m ps" "m \<subseteq>\<^sub>m m'"
  shows "live_rids m' ps = live_rids m ps" "r \<in> set (live_rids m ps) \<Longrightarrow> stored_tuple m' r = stored_tuple m r"
proof -
  have same: "m' p = m p" if "p \<in> set ps" for p
    using chain_page [OF assms(1) that] map_leD [OF assms(2)] by metis
  then show "live_rids m' ps = live_rids m ps"
    by (auto simp: live_rids_def page_rids_def intro!: arg_cong [where f = concat])
  assume "r \<in> set (live_rids m ps)"
  then obtain p where "p \<in> set ps" "r \<in> set (page_rids m p)" by (auto simp: live_rids_def)
  moreover from this have "page_id_of r = p"
    using page_rids_in chain_page [OF assms(1)] by (metis option.sel)
  ultimately show "stored_tuple m' r = stored_tuple m r" using same by (simp add: stored_tuple_def)
qed

lemma chain_suffix: "chain cfg m (as @ p # qs) \<Longrightarrow> chain cfg m (p # qs)"
proof (induction "as")
  case (Cons a "as")
  then show ?case by (cases "as") auto
qed simp

text \<open>The rows behind a given one: those of its page, then those of the pages behind.\<close>

lemma live_rids_behind:
  assumes "live_rids m ps = xs @ r # ys" "distinct ps"
    "\<And>p. p \<in> set ps \<Longrightarrow> table_inv (the (m p)) \<and> word_at (the (m p)) 0 = p"
  obtains "as" p qs i where "ps = as @ p # qs" "r = rid_at (the (m p)) i" "live (the (m p)) i"
    "ys = map (rid_at (the (m p))) (live_slots (the (m p)) (Suc i)) @ live_rids m qs"
proof -
  have "r \<in> set (live_rids m ps)" using assms(1) by simp
  then obtain p i where p: "p \<in> set ps" "r = rid_at (the (m p)) i" "live (the (m p)) i"
    by (auto simp: live_rids_def page_rids_def live_slots_def)
  obtain "as" qs where ps: "ps = as @ p # qs" using split_list [OF p(1)] by blast
  let ?d = "the (m p)"
  have "live_rids m ps = (live_rids m as @ map (rid_at ?d) (filter (live ?d) [0..<i])) @
      r # (map (rid_at ?d) (live_slots ?d (Suc i)) @ live_rids m qs)"
    using live_slots_split [OF p(3)] p(2) by (simp add: ps live_rids_def page_rids_def)
  moreover have "distinct (live_rids m ps)" by (rule live_rids_distinct [OF assms(2,3)])
  ultimately have "ys = map (rid_at ?d) (live_slots ?d (Suc i)) @ live_rids m qs"
    using assms(1) by (metis append_Cons_eq_iff distinct.simps(2) distinct_append not_distinct_conv_prefix)
  then show ?thesis using that ps p by blast
qed

text \<open>Two positions are equal exactly when their identifiers are.\<close>

theorem RID_of_RID_Get: "RID_of (RID_Get r) = r"
proof -
  have "ucast (drop_bit 32 (RID_Get r)) = page_id_of r" "ucast (RID_Get r) = slot_num_of r"
    by (rule bit_word_eqI; auto simp: RID_Get_def bit_simps dest: bit_imp_le_length)+
  then show ?thesis by (simp add: RID_of_def)
qed

lemma iter_eq_rid: "iter_eq a b \<longleftrightarrow> rid_of a = rid_of b"
  unfolding iter_eq_def by (metis RID_of_RID_Get)

subsection \<open>Steps of an iterator\<close>

context page_pool
begin

text \<open>What a reader leaves: everything the pool held before.\<close>

definition kept :: "'a \<Rightarrow> 'a \<Rightarrow> bool" where
  "kept s s' \<longleftrightarrow> ok s' \<and> cap s' = cap s \<and> content s \<subseteq>\<^sub>m content s' \<and> (\<forall>q. alloc s q \<longrightarrow> alloc s' q) \<and> (can_new s \<longrightarrow> can_new s')"

lemma kept_trans: "kept s s1 \<Longrightarrow> kept s1 s2 \<Longrightarrow> kept s s2"
  by (auto simp: kept_def intro: map_le_trans)

lemma kept_content: "kept s s' \<Longrightarrow> content s p = Some d \<Longrightarrow> content s' p = Some d"
  using map_leD [of "content s" "content s'" p d] by (simp add: kept_def)

lemma kept_heap:
  assumes "kept s s'" "heap_ok cfg (content s) (alloc s) th ps"
  shows "heap_ok cfg (content s') (alloc s') th ps"
  by (rule heap_ok_mono [OF assms(2)]) (use assms(1) in \<open>auto simp: kept_def\<close>)

lemma peek_page:
  assumes "ok s" "held s = (\<lambda>_. 0)" "alloc s p" "content s p = Some d"
  obtains f s1 s2 where "fetch s p = Some (Some f, s1)" "get s1 f = d" "unpin s1 p False = Some (True, s2)"
    "get s2 f = d" "held s2 = (\<lambda>_. 0)" "kept s s2"
proof -
  from fetch_one [OF assms] obtain f s1 where 1: "fetch s p = Some (Some f, s1)" "ok s1" "at s1 p = Some f" "get s1 f = d"
    "cap s1 = cap s" "content s \<subseteq>\<^sub>m content s1" "held s1 = (\<lambda>_. 0)(p := 1)" "clean s1 p" "\<And>q. alloc s q \<Longrightarrow> alloc s1 q"
    "can_new s \<Longrightarrow> can_new s1" "content s1 p = Some d" by blast
  obtain s2 where 2: "unpin s1 p False = Some (True, s2)" "ok s2" "cap s2 = cap s1" "content s1 \<subseteq>\<^sub>m content s2"
    "held s2 = (\<lambda>_. 0)" "at s2 = at s1" "alloc s2 = alloc s1"
    using unpin_spec [OF 1(2), of p False] 1(7,8) by (auto simp: fun_upd_idem)
  have "content s2 p = Some d" using map_leD [OF 2(4) 1(11)] .
  then have "get s2 f = d" using at_content [OF 2(2), of p f] 2(6) 1(3) by simp
  moreover have "kept s s2"
    using 1 2 map_le_trans [OF 1(6) 2(4)] unpin_can_new [OF 1(2) _ 2(1)] by (auto simp: kept_def)
  ultimately show ?thesis using that 1(1,4) 2(1,5) by blast
qed

lemma begin_loop_first:
  assumes "ok s" "held s = (\<lambda>_. 0)" "chain cfg (content s) ps" "\<And>p. p \<in> set ps \<Longrightarrow> alloc s p \<and> p \<noteq> INVALID_PAGE_ID cfg"
    and "length ps < fuel"
  defines "ops \<equiv> ops_of new_page fetch unpin get put"
  shows "\<exists>s'. begin_loop fuel ops cfg s (hd ps) rid =
      Some (case live_rids (content s) ps of [] \<Rightarrow> RID_default cfg | r # _ \<Rightarrow> r, s') \<and> kept s s' \<and> held s' = (\<lambda>_. 0)"
  using assms(1-5)
proof (induction ps arbitrary: s rid fuel)
  case (Cons p qs)
  obtain n where n: "fuel = Suc n" "length qs < n" using Cons.prems(5) by (cases fuel) auto
  obtain d where d: "content s p = Some d" "table_inv d" "word_at d 0 = p"
    "word_at d 12 = (case qs of [] \<Rightarrow> INVALID_PAGE_ID cfg | q # _ \<Rightarrow> q)" "qs \<noteq> [] \<Longrightarrow> chain cfg (content s) qs"
    using Cons.prems(3) by (cases qs) (auto simp: page_ok_def split: option.splits)
  have p: "alloc s p" "p \<noteq> INVALID_PAGE_ID cfg" using Cons.prems(4) by auto
  from peek_page [OF Cons.prems(1,2) p(1) d(1)] obtain f s1 s2 where 1: "fetch s p = Some (Some f, s1)" "get s1 f = d"
    "unpin s1 p False = Some (True, s2)" "get s2 f = d" "held s2 = (\<lambda>_. 0)" "kept s s2" by blast
  have len: "24 \<le> length d" using table_invD(4) [OF d(2)] .
  have step: "begin_loop fuel ops cfg s (hd (p # qs)) rid = (case live_slots d 0 of
      [] \<Rightarrow> begin_loop n ops cfg s2 (case qs of [] \<Rightarrow> INVALID_PAGE_ID cfg | q # _ \<Rightarrow> q) (RID_default cfg)
    | i # _ \<Rightarrow> Some (rid_at d i, s2))"
    using 1 p(2) d(4) len by (simp add: n(1) ops_def ops_of_def GetFirstTupleRid_view [OF d(2)] first_of_def
        GetNextPageId_def read32_def RID_default_def split: list.split)
  show ?case
  proof (cases "live_slots d 0")
    case (Cons i js)
    then show ?thesis using step 1(5,6) d(1) by (simp add: page_rids_def)
  next
    case Nil
    show ?thesis
    proof (cases qs)
      case Nil
      obtain m where "n = Suc m" using n(2) by (cases n) auto
      then show ?thesis using step \<open>live_slots d 0 = []\<close> Nil 1(5,6) d(1) by (simp add: page_rids_def)
    next
      case (Cons q rs)
      have le: "content s \<subseteq>\<^sub>m content s2" and ok2: "ok s2" and al: "\<And>q. alloc s q \<Longrightarrow> alloc s2 q"
        using 1(6) by (auto simp: kept_def)
      have ch: "chain cfg (content s) qs" using d(5) Cons by simp
      have "\<And>p. p \<in> set qs \<Longrightarrow> alloc s2 p \<and> p \<noteq> INVALID_PAGE_ID cfg" using Cons.prems(4) al by auto
      from Cons.IH [OF ok2 1(5) chain_mono [OF le ch] this n(2), of "RID_default cfg"] obtain s' where
        "begin_loop n ops cfg s2 (hd qs) (RID_default cfg) =
          Some (case live_rids (content s2) qs of [] \<Rightarrow> RID_default cfg | r # _ \<Rightarrow> r, s')" "kept s2 s'" "held s' = (\<lambda>_. 0)"
        by blast
      then show ?thesis
        using step \<open>live_slots d 0 = []\<close> Cons 1(6) d(1) kept_trans live_rids_mono(1) [OF ch le]
        by (auto simp: page_rids_def)
    qed
  qed
qed simp

text \<open>One page in hand for reading.\<close>

definition reading :: "'a \<Rightarrow> page_id_t \<Rightarrow> 'b \<Rightarrow> bytes \<Rightarrow> bool" where
  "reading s p f d \<longleftrightarrow> hand s p f d \<and> clean s p \<and> 2 \<le> cap s"

lemma readingD:
  assumes "reading s p f d"
  shows "ok s" "at s p = Some f" "held s = (\<lambda>_. 0)(p := 1)" "content s p = Some d" "get s f = d" "table_inv d"
    "word_at d 0 = p" "clean s p" "2 \<le> cap s" "24 \<le> length d" "length d = psize"
  using assms table_invD(4) [of d] by (auto simp: reading_def hand_def)

lemma start_reading:
  assumes "ok s" "held s = (\<lambda>_. 0)" "alloc s p" "content s p = Some d" "table_inv d" "word_at d 0 = p" "2 \<le> cap s"
  obtains f s1 where "fetch s p = Some (Some f, s1)" "reading s1 p f d" "kept s s1"
proof -
  from fetch_one [OF assms(1-4)] obtain f s1 where 1: "fetch s p = Some (Some f, s1)" "ok s1" "at s1 p = Some f" "get s1 f = d"
    "cap s1 = cap s" "content s \<subseteq>\<^sub>m content s1" "held s1 = (\<lambda>_. 0)(p := 1)" "clean s1 p" "\<And>q. alloc s q \<Longrightarrow> alloc s1 q"
    "can_new s \<Longrightarrow> can_new s1" "content s1 p = Some d" "length d = psize" by blast
  show ?thesis by (rule that [OF 1(1)]) (use 1 assms in \<open>auto simp: reading_def hand_def kept_def\<close>)
qed

lemma stop_reading:
  assumes "reading s p f d"
  obtains s' where "unpin s p False = Some (True, s')" "held s' = (\<lambda>_. 0)" "kept s s'"
proof -
  note R = readingD [OF assms]
  obtain s' where 1: "unpin s p False = Some (True, s')" "ok s'" "cap s' = cap s" "content s \<subseteq>\<^sub>m content s'"
    "held s' = (\<lambda>_. 0)" "alloc s' = alloc s"
    using unpin_spec [OF R(1), of p False] R(3,8) by (auto simp: fun_upd_idem)
  show ?thesis by (rule that [OF 1(1,5)]) (use 1 unpin_can_new [OF R(1) _ 1(1)] in \<open>auto simp: kept_def\<close>)
qed

lemma fetch_more:
  assumes "reading s p f d" "alloc s q" "content s q = Some e"
  obtains g s1 where "fetch s q = Some (Some g, s1)" "ok s1" "at s1 q = Some g" "get s1 g = e" "kept s s1"
    "held s1 = (held s)(q := held s q + 1)" "held s q = 0 \<Longrightarrow> clean s1 q" "clean s1 p" "at s1 p = Some f"
proof -
  note R = readingD [OF assms(1)]
  have "{x. 0 < held s x} = {p}" using R(3) by auto
  then have "\<not> cap s \<le> card {x. 0 < held s x}" using R(9) by simp
  with fetch_spec [OF R(1) assms(2,3)] obtain g s1 where 1: "fetch s q = Some (Some g, s1)" "ok s1" "cap s1 = cap s"
    "at s1 q = Some g" "get s1 g = e" "content s \<subseteq>\<^sub>m content s1" "held s1 = (held s)(q := held s q + 1)"
    "held s q = 0 \<longrightarrow> clean s1 q"
    "\<forall>x. (alloc s x \<longrightarrow> alloc s1 x) \<and> (0 < held s x \<longrightarrow> at s1 x = at s x) \<and> (clean s x \<longrightarrow> clean s1 x)"
    by (elim disjE exE conjE) blast+
  show ?thesis
    by (rule that [OF 1(1,2,4,5) _ 1(7)])
      (use 1 R fetch_can_new [OF R(1) assms(2) _ 1(1)] in \<open>auto simp: kept_def\<close>)
qed

text \<open>Reading a tuple of the page in hand.\<close>

lemma read_tuple:
  assumes "reading s p f d" "alloc s p" "live d i"
  defines "ops \<equiv> ops_of new_page fetch unpin get put"
  obtains s' where "TableHeap_GetTuple ops s txn (rid_at d i) = Some (Some (stored_tuple (content s) (rid_at d i)), txn, s')"
    "reading s' p f d" "kept s s'"
proof -
  note R = readingD [OF assms(1)]
  obtain g s1 where 1: "fetch s p = Some (Some g, s1)" "ok s1" "at s1 p = Some g" "get s1 g = d" "kept s s1"
    "held s1 = (held s)(p := held s p + 1)" "clean s1 p" "at s1 p = Some f"
    using fetch_more [OF assms(1,2) R(4)] by blast
  obtain s2 where 2: "unpin s1 p False = Some (True, s2)" "ok s2" "cap s2 = cap s1" "content s1 \<subseteq>\<^sub>m content s2"
    "held s2 = (\<lambda>_. 0)(p := 1)" "at s2 = at s1" "alloc s2 = alloc s1" "clean s2 p"
    using unpin_spec [OF 1(2), of p False] 1(6,7) R(3) by auto
  have k2: "kept s1 s2" using 2 unpin_can_new [OF 1(2) _ 2(1)] by (auto simp: kept_def)
  have k: "kept s s2" by (rule kept_trans [OF 1(5) k2])
  then have c2: "content s2 p = Some d" using R(4) by (rule kept_content)
  then have "get s2 f = d" using at_content [OF 2(2), of p f] 2(6) 1(8) by simp
  then have r: "reading s2 p f d" using 2 1 c2 R k by (auto simp: reading_def hand_def kept_def)
  have i: "unat (of_nat i :: uint32) = i" using unat_slot [OF R(6)] assms(3) by (simp add: live_def)
  obtain bs where bs: "tuples d i = Some (False, bs)" using assms(3) by (auto simp: live_iff)
  have "TablePage_GetTuple d (rid_at d i) = Some (Some (stored_tuple (content s) (rid_at d i)))"
    using GetTuple_view [OF R(6), of "rid_at d i"] bs R(4,7) i by (simp add: rid_at_def stored_tuple_def)
  then have "TableHeap_GetTuple ops s txn (rid_at d i) = Some (Some (stored_tuple (content s) (rid_at d i)), txn, s2)"
    using 1(1,4) 2(1) R(7) by (simp add: TableHeap_GetTuple_def ops_def ops_of_def rid_at_def)
  then show ?thesis using that r k by blast
qed

text \<open>Going from one page to the next with both in memory.\<close>

lemma change_page:
  assumes "reading s p f d" "alloc s q" "content s q = Some e" "table_inv e" "word_at e 0 = q" "q \<noteq> p"
  obtains g s1 s2 where "fetch s q = Some (Some g, s1)" "get s1 f = d" "unpin s1 p False = Some (True, s2)"
    "reading s2 q g e" "kept s s2"
proof -
  note R = readingD [OF assms(1)]
  obtain g s1 where 1: "fetch s q = Some (Some g, s1)" "ok s1" "at s1 q = Some g" "get s1 g = e" "kept s s1"
    "held s1 = (\<lambda>_. 0)(p := 1, q := 1)" "clean s1 q" "clean s1 p" "at s1 p = Some f"
    using fetch_more [OF assms(1-3)] R(3) assms(6) by auto
  have c1: "content s1 p = Some d" using 1(5) R(4) by (rule kept_content)
  have g1: "get s1 f = d" using at_content [OF 1(2,9)] c1 by simp
  obtain s2 where 2: "unpin s1 p False = Some (True, s2)" "ok s2" "cap s2 = cap s1" "content s1 \<subseteq>\<^sub>m content s2"
    "held s2 = (\<lambda>_. 0)(q := 1)" "at s2 = at s1" "alloc s2 = alloc s1" "clean s2 q"
    using unpin_spec [OF 1(2), of p False] 1(6,7,8) assms(6) by (auto simp: fun_upd_twist fun_upd_idem)
  have k: "kept s s2" using 2 unpin_can_new [OF 1(2) _ 2(1)] by (intro kept_trans [OF 1(5)]) (auto simp: kept_def)
  then have c2: "content s2 q = Some e" using assms(3) by (rule kept_content)
  then have "get s2 g = e" using at_content [OF 2(2), of q g] 2(6) 1(3) by simp
  then have "reading s2 q g e"
    using 2 1 c2 assms R(9) k content_length [OF 2(2) c2] by (auto simp: reading_def hand_def kept_def)
  then show ?thesis using that 1(1) g1 2(1) k by blast
qed

text \<open>The search for the next page with a tuple.\<close>

lemma next_loop_first:
  assumes "reading s p f d" "chain cfg (content s) (p # qs)" "distinct (p # qs)"
    "\<And>q. q \<in> set (p # qs) \<Longrightarrow> alloc s q \<and> q \<noteq> INVALID_PAGE_ID cfg" "length qs < fuel"
  defines "ops \<equiv> ops_of new_page fetch unpin get put"
  shows "\<exists>q g e s'. next_loop fuel ops cfg s f (RID_default cfg) =
      Some (case live_rids (content s) qs of [] \<Rightarrow> RID_default cfg | r # _ \<Rightarrow> r, g, s') \<and> kept s s' \<and> reading s' q g e \<and>
      q \<in> set (p # qs) \<and>
      (case live_rids (content s) qs of [] \<Rightarrow> True | r # _ \<Rightarrow> \<exists>i. live e i \<and> r = rid_at e i \<and> content s q = Some e)"
  using assms(1-5)
proof (induction qs arbitrary: s p f d fuel)
  case Nil
  note R = readingD [OF Nil(1)]
  obtain n where "fuel = Suc n" using Nil(5) by (cases fuel) auto
  moreover have "word_at d 12 = INVALID_PAGE_ID cfg" using Nil(2) R(4) by (simp add: page_ok_def)
  ultimately show ?case
    using Nil(1) R by (fastforce simp: ops_def ops_of_def GetNextPageId_def read32_def kept_def)
next
  case (Cons q rs)
  note R = readingD [OF Cons.prems(1)]
  obtain n where n: "fuel = Suc n" "length rs < n" using Cons.prems(5) by (cases fuel) auto
  have w: "word_at d 12 = q" and ch: "chain cfg (content s) (q # rs)" using Cons.prems(2) R(4) by (auto simp: page_ok_def)
  obtain e where e: "content s q = Some e" "table_inv e" "word_at e 0 = q"
    using chain_page [OF ch, of q] by auto
  have q: "alloc s q" "q \<noteq> INVALID_PAGE_ID cfg" "q \<noteq> p" using Cons.prems(3,4) by auto
  obtain g s1 s2 where 1: "fetch s q = Some (Some g, s1)" "get s1 f = d" "unpin s1 p False = Some (True, s2)"
    "reading s2 q g e" "kept s s2" using change_page [OF Cons.prems(1) q(1) e q(3)] by blast
  have le: "content s \<subseteq>\<^sub>m content s2" and al: "\<And>x. alloc s x \<Longrightarrow> alloc s2 x" using 1(5) by (auto simp: kept_def)
  have step: "next_loop fuel ops cfg s f (RID_default cfg) = (case live_slots e 0 of
      [] \<Rightarrow> next_loop n ops cfg s2 g (RID_default cfg) | i # _ \<Rightarrow> Some (rid_at e i, g, s2))"
    using 1 R w q(2) readingD(5) [OF 1(4)] by (simp add: n(1) ops_def ops_of_def GetNextPageId_def read32_def
        GetFirstTupleRid_view [OF e(2)] first_of_def RID_default_def split: list.split)
  show ?case
  proof (cases "live_slots e 0")
    case (Cons i js)
    then have "live e i" by (metis filter_eq_ConsD live_slots_def)
    then show ?thesis using step 1(4,5) e Cons by (fastforce simp: page_rids_def)
  next
    case Nil
    have "\<exists>q' g' e' s'. next_loop n ops cfg s2 g (RID_default cfg) =
      Some (case live_rids (content s2) rs of [] \<Rightarrow> RID_default cfg | r # _ \<Rightarrow> r, g', s') \<and> kept s2 s' \<and> reading s' q' g' e' \<and>
      q' \<in> set (q # rs) \<and>
      (case live_rids (content s2) rs of [] \<Rightarrow> True | r # _ \<Rightarrow> \<exists>i. live e' i \<and> r = rid_at e' i \<and> content s2 q' = Some e')"
      by (rule Cons.IH [OF 1(4) chain_mono [OF le ch] _ _ n(2)]) (use Cons.prems(3,4) al in auto)
    then obtain q' g' e' s' where 2: "next_loop n ops cfg s2 g (RID_default cfg) =
      Some (case live_rids (content s2) rs of [] \<Rightarrow> RID_default cfg | r # _ \<Rightarrow> r, g', s')" "kept s2 s'" "reading s' q' g' e'"
      "q' \<in> set (q # rs)"
      "case live_rids (content s2) rs of [] \<Rightarrow> True | r # _ \<Rightarrow> \<exists>i. live e' i \<and> r = rid_at e' i \<and> content s2 q' = Some e'"
      by blast
    have same: "live_rids (content s2) (q # rs) = live_rids (content s) (q # rs)" by (rule live_rids_mono(1) [OF ch le])
    have none: "page_rids (content s) q = []" "page_rids (content s2) q = []"
      using Nil e(1) map_leD [OF le e(1)] by (simp_all add: page_rids_def)
    have "content s2 q' = content s q'"
      using chain_page [OF ch 2(4)] map_leD [OF le] by metis
    then show ?thesis using step Nil 2 same none kept_trans [OF 1(5)] by (fastforce split: list.splits)
  qed
qed

lemma get_tuple_unheld:
  assumes "ok s" "held s = (\<lambda>_. 0)" "alloc s p" "content s p = Some d" "table_inv d" "word_at d 0 = p" "live d i"
  defines "ops \<equiv> ops_of new_page fetch unpin get put"
  shows "\<exists>s'. TableHeap_GetTuple ops s txn (rid_at d i) = Some (Some (stored_tuple (content s) (rid_at d i)), txn, s') \<and>
    held s' = (\<lambda>_. 0) \<and> kept s s'"
proof -
  obtain f s1 s2 where 1: "fetch s p = Some (Some f, s1)" "get s1 f = d" "unpin s1 p False = Some (True, s2)"
    "held s2 = (\<lambda>_. 0)" "kept s s2" using peek_page [OF assms(1-4)] by blast
  have i: "unat (of_nat i :: uint32) = i" using unat_slot [OF assms(5)] assms(7) by (simp add: live_def)
  obtain bs where bs: "tuples d i = Some (False, bs)" using assms(7) by (auto simp: live_iff)
  have "TablePage_GetTuple d (rid_at d i) = Some (Some (stored_tuple (content s) (rid_at d i)))"
    using GetTuple_view [OF assms(5), of "rid_at d i"] bs assms(4,6) i by (simp add: rid_at_def stored_tuple_def)
  then show ?thesis using 1 assms(6) by (simp add: TableHeap_GetTuple_def ops_def ops_of_def rid_at_def)
qed

text \<open>The tuple of an iterator at the head of a list of identifiers.\<close>

definition iter_at :: "config \<Rightarrow> (page_id_t \<rightharpoonup> bytes) \<Rightarrow> rid list \<Rightarrow> tuple \<Rightarrow> bool" where
  "iter_at cfg m rs t \<longleftrightarrow> (case rs of [] \<Rightarrow> rid_of t = RID_default cfg | r # _ \<Rightarrow> t = stored_tuple m r)"

lemma heap_pages:
  assumes "heap_ok cfg (content s) (alloc s) th ps" "p \<in> set ps"
  shows "table_inv (the (content s p)) \<and> word_at (the (content s p)) 0 = p" "content s p = Some (the (content s p))"
    "alloc s p" "p \<noteq> INVALID_PAGE_ID cfg"
  using chain_page [OF heap_okD(1) [OF assms(1)] assms(2)] heap_okD(4,5) [OF assms(1)] assms(2) by (metis option.sel)+

lemma heap_rid:
  assumes "heap_ok cfg (content s) (alloc s) th ps" "r \<in> set (live_rids (content s) ps)"
  obtains p i where "p \<in> set ps" "r = rid_at (the (content s p)) i" "live (the (content s p)) i" "page_id_of r = p"
  using assms heap_pages(1) [OF assms(1)] by (fastforce simp: live_rids_def page_rids_def live_slots_def rid_at_def)

lemma Begin_first:
  assumes "ok s" "held s = (\<lambda>_. 0)" "heap_ok cfg (content s) (alloc s) th ps" "length ps < fuel"
  defines "ops \<equiv> ops_of new_page fetch unpin get put"
  shows "\<exists>t s'. TableHeap_Begin fuel ops cfg th s txn = Some (t, txn, s') \<and>
    iter_at cfg (content s) (live_rids (content s) ps) t \<and> kept s s' \<and> held s' = (\<lambda>_. 0)"
proof -
  note H = heap_okD [OF assms(3)]
  let ?rs = "live_rids (content s) ps"
  obtain s1 where 1: "begin_loop fuel ops cfg s (first_page_id th) (RID_default cfg) =
      Some (case ?rs of [] \<Rightarrow> RID_default cfg | r # _ \<Rightarrow> r, s1)" "kept s s1" "held s1 = (\<lambda>_. 0)"
    using begin_loop_first [OF assms(1,2) H(1) _ assms(4), of "RID_default cfg"] H(2,4,5) by (auto simp: ops_def)
  show ?thesis
  proof (cases ?rs)
    case Nil
    then show ?thesis using 1
      by (auto simp: TableHeap_Begin_def TableIterator_def iter_at_def RID_default_def Tuple_default_def)
  next
    case (Cons r rs)
    then obtain p i where p: "p \<in> set ps" "r = rid_at (the (content s p)) i" "live (the (content s p)) i" "page_id_of r = p"
      using heap_rid [OF assms(3), of r] by auto
    note P = heap_pages [OF assms(3) p(1)]
    have k: "ok s1" "alloc s1 p" "content s1 p = Some (the (content s p))"
      using 1(2) P(3) kept_content [OF 1(2) P(2)] by (auto simp: kept_def)
    obtain s2 where 2: "TableHeap_GetTuple ops s1 txn r = Some (Some (stored_tuple (content s1) r), txn, s2)"
      "held s2 = (\<lambda>_. 0)" "kept s1 s2"
      using get_tuple_unheld [OF k(1) 1(3) k(2,3) _ _ p(3), of txn] P(1) p(2) by (auto simp: ops_def)
    have "stored_tuple (content s1) r = stored_tuple (content s) r"
      by (rule live_rids_mono(2) [OF H(1)]) (use 1(2) Cons in \<open>simp_all add: kept_def\<close>)
    then show ?thesis
      using 1 2 Cons P(4) p(4) kept_trans [OF 1(2) 2(3)] by (auto simp: TableHeap_Begin_def TableIterator_def iter_at_def)
  qed
qed

lemma next_step:
  assumes "ok s" "held s = (\<lambda>_. 0)" "heap_ok cfg (content s) (alloc s) th ps" "length ps < fuel" "2 \<le> cap s"
    "live_rids (content s) ps = xs @ r # ys" "rid_of t = r"
  defines "ops \<equiv> ops_of new_page fetch unpin get put"
  shows "\<exists>t' s'. TableIterator_next fuel ops cfg s txn t = Some (t', txn, s') \<and> iter_at cfg (content s) ys t' \<and>
    kept s s' \<and> held s' = (\<lambda>_. 0)"
proof -
  note H = heap_okD [OF assms(3)]
  obtain "as" p qs i where p: "ps = as @ p # qs" "r = rid_at (the (content s p)) i" "live (the (content s p)) i"
    "ys = map (rid_at (the (content s p))) (live_slots (the (content s p)) (Suc i)) @ live_rids (content s) qs"
    using live_rids_behind [OF assms(6) H(3) heap_pages(1) [OF assms(3)]] by blast
  have pin: "p \<in> set ps" using p(1) by simp
  define d where "d = the (content s p)"
  note P = heap_pages [OF assms(3) pin, folded d_def]
  note p = p [folded d_def]
  obtain f s1 where 1: "fetch s p = Some (Some f, s1)" "reading s1 p f d" "kept s s1"
    using start_reading [OF assms(1,2) P(3,2)] P(1) assms(5) by blast
  have i: "i < unat (cnt d)" using p(3) by (simp add: live_def)
  have le: "content s \<subseteq>\<^sub>m content s1" and al: "\<And>x. alloc s x \<Longrightarrow> alloc s1 x" using 1(3) by (auto simp: kept_def)
  have nxt: "\<exists>q g e s2. (case live_slots d (Suc i) of j # _ \<Rightarrow> Some (rid_at d j, f, s1)
      | [] \<Rightarrow> next_loop fuel ops cfg s1 f (RID_default cfg)) = Some (case ys of [] \<Rightarrow> RID_default cfg | r # _ \<Rightarrow> r, g, s2) \<and>
    kept s s2 \<and> reading s2 q g e \<and> q \<in> set ps \<and>
    (case ys of [] \<Rightarrow> True | r # _ \<Rightarrow> \<exists>i. live e i \<and> r = rid_at e i \<and> content s q = Some e)"
  proof (cases "live_slots d (Suc i)")
    case (Cons j js)
    then have "live d j" by (metis filter_eq_ConsD live_slots_def)
    then show ?thesis using Cons 1(2,3) p(4) P(2) pin by fastforce
  next
    case Nil
    have ch: "chain cfg (content s) (p # qs)" using chain_suffix H(1) p(1) by simp
    have same: "live_rids (content s1) qs = live_rids (content s) qs"
      using live_rids_mono(1) [OF ch le] map_leD [OF le P(2)] P(2) by (simp add: page_rids_def)
    have "\<exists>q g e s'. next_loop fuel ops cfg s1 f (RID_default cfg) =
      Some (case live_rids (content s1) qs of [] \<Rightarrow> RID_default cfg | r # _ \<Rightarrow> r, g, s') \<and> kept s1 s' \<and> reading s' q g e \<and>
      q \<in> set (p # qs) \<and>
      (case live_rids (content s1) qs of [] \<Rightarrow> True | r # _ \<Rightarrow> \<exists>i. live e i \<and> r = rid_at e i \<and> content s1 q = Some e)"
      unfolding ops_def
      by (rule next_loop_first [OF 1(2) chain_mono [OF le ch]]) (use H(3-5) al p(1) assms(4) in auto)
    then obtain q g e s2 where 2: "next_loop fuel ops cfg s1 f (RID_default cfg) =
      Some (case ys of [] \<Rightarrow> RID_default cfg | r # _ \<Rightarrow> r, g, s2)" "kept s1 s2" "reading s2 q g e" "q \<in> set (p # qs)"
      "case ys of [] \<Rightarrow> True | r # _ \<Rightarrow> \<exists>i. live e i \<and> r = rid_at e i \<and> content s1 q = Some e"
      using same Nil p(4) by auto
    have qin: "q \<in> set ps" using 2(4) p(1) by auto
    have "content s1 q = content s q" using heap_pages(2) [OF assms(3) qin] map_leD [OF le] by metis
    then show ?thesis using 2 Nil kept_trans [OF 1(3) 2(2)] qin by (auto split: list.splits)
  qed
  then obtain q g e s2 where 2: "(case live_slots d (Suc i) of j # _ \<Rightarrow> Some (rid_at d j, f, s1)
      | [] \<Rightarrow> next_loop fuel ops cfg s1 f (RID_default cfg)) = Some (case ys of [] \<Rightarrow> RID_default cfg | r # _ \<Rightarrow> r, g, s2)"
    "kept s s2" "reading s2 q g e" "q \<in> set ps"
    "case ys of [] \<Rightarrow> True | r # _ \<Rightarrow> \<exists>i. live e i \<and> r = rid_at e i \<and> content s q = Some e" by blast
  let ?r = "case ys of [] \<Rightarrow> RID_default cfg | r # _ \<Rightarrow> r"
  obtain found nr where search: "GetNextTupleRid cfg d r = Some (found, nr)"
    "(if found then Some (nr, f, s1) else next_loop fuel ops cfg s1 f nr) = Some (?r, g, s2)"
    using 2(1) GetNextTupleRid_view [OF readingD(6) [OF 1(2)] i] p(2)
    by (auto simp: first_of_def RID_default_def split: list.splits)
  have read: "\<exists>t' s3. (if \<not> iter_eq (t\<lparr>rid_of := ?r\<rparr>) (TableHeap_End cfg)
       then do {
         (res, txn, s) \<leftarrow> TableHeap_GetTuple ops s2 txn ?r;
         Some (case res of None \<Rightarrow> t\<lparr>rid_of := ?r\<rparr> | Some t \<Rightarrow> t, txn, s)
       }
       else Some (t\<lparr>rid_of := ?r\<rparr>, txn, s2)) = Some (t', txn, s3) \<and> iter_at cfg (content s) ys t' \<and> reading s3 q g e \<and> kept s2 s3"
  proof (cases ys)
    case Nil
    then show ?thesis using 2(2,3) by (simp add: iter_eq_rid TableHeap_End_def RID_default_def iter_at_def kept_def readingD(1))
  next
    case (Cons r' rs)
    then obtain j where j: "live e j" "r' = rid_at e j" "content s q = Some e" using 2(5) by auto
    obtain s3 where 3: "TableHeap_GetTuple ops s2 txn r' = Some (Some (stored_tuple (content s2) r'), txn, s3)" "reading s3 q g e"
      "kept s2 s3"
      using read_tuple [OF 2(3) _ j(1), of txn] j(2) heap_pages(3) [OF assms(3) 2(4)] 2(2) by (auto simp: ops_def kept_def)
    have same: "stored_tuple (content s2) r' = stored_tuple (content s) r'"
      by (rule live_rids_mono(2) [OF H(1)]) (use 2(2) assms(6) Cons in \<open>simp_all add: kept_def\<close>)
    have "word_at e 0 = q" "q \<noteq> INVALID_PAGE_ID cfg" using readingD(7) [OF 2(3)] heap_pages(4) [OF assms(3) 2(4)] by auto
    then have "\<not> iter_eq (t\<lparr>rid_of := r'\<rparr>) (TableHeap_End cfg)"
      using j(2) by (auto simp: iter_eq_rid TableHeap_End_def rid_at_def)
    then show ?thesis using Cons 3 same by (simp add: iter_at_def)
  qed
  then obtain t' s3 where 3: "(if \<not> iter_eq (t\<lparr>rid_of := ?r\<rparr>) (TableHeap_End cfg)
       then do {
         (res, txn, s) \<leftarrow> TableHeap_GetTuple ops s2 txn ?r;
         Some (case res of None \<Rightarrow> t\<lparr>rid_of := ?r\<rparr> | Some t \<Rightarrow> t, txn, s)
       }
       else Some (t\<lparr>rid_of := ?r\<rparr>, txn, s2)) = Some (t', txn, s3)" "iter_at cfg (content s) ys t'" "reading s3 q g e" "kept s2 s3"
    by blast
  note R3 = readingD [OF 3(3)]
  obtain s4 where 4: "unpin s3 q False = Some (True, s4)" "held s4 = (\<lambda>_. 0)" "kept s3 s4" using stop_reading [OF 3(3)] by blast
  have calls: "FetchPage ops s (page_id_of (rid_of t)) = Some (Some f, s1)" "GetData ops s1 f = d"
    "GetTablePageId (GetData ops s3 g) = Some q" "UnpinPage ops s3 q False = Some (True, s4)"
    using 1(1) readingD(5) [OF 1(2)] R3 4(1) assms(7) p(2) P(1) by (simp_all add: ops_def ops_of_def rid_at_def)
  have "TableIterator_next fuel ops cfg s txn t = Some (t', txn, s4)"
    unfolding TableIterator_next_def assms(7)
    by (simp only: calls [unfolded assms(7)] search 3(1) bind.bind_lunit case_prod_conv Let_def)
  moreover have "kept s s4" using kept_trans [OF 2(2) kept_trans [OF 3(4) 4(3)]] .
  ultimately show ?thesis using 3(2) 4(2) by blast
qed

end

end
