(* ===== verification/ExecutorsSpec.thy ===== *)
theory ExecutorsSpec
  imports Executors "HOL-Library.Sublist" "HOL-Library.Multiset"
begin

section \<open>What the executors produce\<close>

text \<open>
  The contract of an executor is the locale \<open>producer\<close>: from a valid state \<open>Next\<close> delivers the rows that remain,
  one after the other, then reports the end for ever, and \<open>Init\<close> starts over with all rows. The storage may
  change underneath (pages are fetched and evicted) as long as \<open>I\<close> holds. Each operator over children that keep
  the contract keeps it too; its rows are given by a definition on lists.
\<close>

subsection \<open>The contract\<close>

text \<open>One call of \<open>Next\<close> with result \<open>b\<close> and row \<open>r\<close>, between the rows to come before and after it.\<close>

definition delivers :: "bool \<Rightarrow> row \<Rightarrow> row list \<Rightarrow> row list \<Rightarrow> bool" where
  "delivers b r before after \<longleftrightarrow> (if b then before = r # after else before = [] \<and> after = [])"

lemma delivers_simps [simp]:
  "delivers b r [] after \<longleftrightarrow> \<not> b \<and> after = []"
  "delivers b r (x # xs) after \<longleftrightarrow> b \<and> r = x \<and> after = xs"
  by (auto simp: delivers_def)

locale producer =
  fixes C :: "('e, 'w) executor"
    and I :: "'w \<Rightarrow> bool"
    and V :: "'e \<Rightarrow> bool"
    and remaining :: "'e \<Rightarrow> row list"
    and rows :: "row list"
  assumes Init_all: "V e \<Longrightarrow> I w \<Longrightarrow> \<exists>e' w'. Init C e w = Inr (e', w') \<and> V e' \<and> I w' \<and> remaining e' = rows"
    and Next_delivers: "V e \<Longrightarrow> I w \<Longrightarrow>
      \<exists>b r' e' w'. Next C e w r = Inr (b, r', e', w') \<and> V e' \<and> I w' \<and> delivers b r' (remaining e) (remaining e')"
begin

lemma Next_row:
  assumes "V e" "I w" "remaining e = x # xs"
  shows "\<exists>e' w'. Next C e w r = Inr (True, x, e', w') \<and> V e' \<and> I w' \<and> remaining e' = xs"
  using Next_delivers [OF assms(1,2), of r] assms(3) by auto

lemma Next_end:
  assumes "V e" "I w" "remaining e = []"
  shows "\<exists>r' e' w'. Next C e w r = Inr (False, r', e', w') \<and> V e' \<and> I w' \<and> remaining e' = []"
  using Next_delivers [OF assms(1,2), of r] assms(3) by auto

lemma execute_loop_rows:
  "V e \<Longrightarrow> I w \<Longrightarrow> length (remaining e) < fuel \<Longrightarrow>
    \<exists>w'. execute_loop fuel C e w r = Inr (map fst (remaining e), w') \<and> I w'"
proof (induction fuel arbitrary: e w r)
  case (Suc fuel)
  show ?case
  proof (cases "remaining e")
    case Nil
    with Next_end [OF Suc.prems(1,2) Nil, of r] show ?thesis by auto
  next
    case (Cons x xs)
    from Next_row [OF Suc.prems(1,2) Cons, of r] obtain e' w' where n: "Next C e w r = Inr (True, x, e', w')"
      "V e'" "I w'" "remaining e' = xs" by blast
    from Suc.IH [OF n(2,3), of x] Suc.prems(3) Cons n show ?thesis by auto
  qed
qed simp

lemma Execute_rows:
  assumes "V e" "I w" "length rows < fuel"
  shows "\<exists>w'. Execute fuel cfg C e w = Inr (map fst rows, w') \<and> I w'"
proof -
  from Init_all [OF assms(1,2)] obtain e' w' where i: "Init C e w = Inr (e', w')" "V e'" "I w'" "remaining e' = rows"
    by blast
  from execute_loop_rows [OF i(2,3), of fuel "fresh_row cfg"] i assms(3) show ?thesis by (auto simp: Execute_def)
qed

end

subsection \<open>Limit\<close>

locale limited = producer +
  fixes lim :: nat
begin

lemma Limit_Init_all:
  assumes "V (limit_child st)" "I w"
  shows "\<exists>st' w'. Limit_Init C st w = Inr (st', w') \<and> V (limit_child st') \<and> I w' \<and>
    take (lim - num_tuples st') (remaining (limit_child st')) = take lim rows"
  using Init_all [OF assms] by (auto simp: Limit_Init_def)

lemma Limit_Next_delivers:
  assumes "V (limit_child st)" "I w"
  shows "\<exists>b r' st' w'. Limit_Next C lim st w r = Inr (b, r', st', w') \<and> V (limit_child st') \<and> I w' \<and>
    delivers b r' (take (lim - num_tuples st) (remaining (limit_child st)))
      (take (lim - num_tuples st') (remaining (limit_child st')))"
proof (cases "num_tuples st < lim")
  case True
  then have n: "lim - num_tuples st = Suc (lim - Suc (num_tuples st))" by simp
  from Next_delivers [OF assms, of r] True show ?thesis
    by (cases "remaining (limit_child st)") (auto simp: Limit_Next_def n)
next
  case False
  with assms show ?thesis by (auto simp: Limit_Next_def)
qed

end

sublocale limited \<subseteq> limit: producer "Limit C lim" I "\<lambda>st. V (limit_child st)"
  "\<lambda>st. take (lim - num_tuples st) (remaining (limit_child st))" "take lim rows"
  by unfold_locales
    (unfold Limit_def executor.select_convs, (rule Limit_Init_all Limit_Next_delivers; assumption)+)

subsection \<open>Nested loop join\<close>

text \<open>The join of two lists of rows: the pairs that satisfy the predicate, in the order of the left list.\<close>

definition join_match :: "double_ops \<Rightarrow> join_plan \<Rightarrow> Expression \<Rightarrow> row \<Rightarrow> row \<Rightarrow> bool" where
  "join_match F plan predicate l r =
     (case EvaluateJoin F predicate (fst l) (left_schema plan) (fst r) (right_schema plan) of
        Inr v \<Rightarrow> GetAs_bool v | Inl _ \<Rightarrow> False)"

definition join_out :: "config \<Rightarrow> double_ops \<Rightarrow> join_plan \<Rightarrow> row \<Rightarrow> row \<Rightarrow> tuple result" where
  "join_out cfg F plan l r =
     join_tuple cfg plan (Tuple_GetValue F (fst l) (left_schema plan)) (Tuple_GetValue F (fst r) (right_schema plan))"

definition join_row :: "config \<Rightarrow> double_ops \<Rightarrow> join_plan \<Rightarrow> row \<Rightarrow> row \<Rightarrow> row" where
  "join_row cfg F plan l r =
     (case join_out cfg F plan l r of Inr t \<Rightarrow> (t, rid_of (fst l)) | Inl _ \<Rightarrow> fresh_row cfg)"

definition join_rows :: "config \<Rightarrow> double_ops \<Rightarrow> join_plan \<Rightarrow> Expression \<Rightarrow> row list \<Rightarrow> row list \<Rightarrow> row list" where
  "join_rows cfg F plan predicate ls rs =
     concat (map (\<lambda>l. map (join_row cfg F plan l) (filter (join_match F plan predicate l) rs)) ls)"

lemma join_rows_simps [simp]:
  "join_rows cfg F plan predicate [] rs = []"
  "join_rows cfg F plan predicate (l # ls) rs =
    map (join_row cfg F plan l) (filter (join_match F plan predicate l) rs) @ join_rows cfg F plan predicate ls rs"
  by (simp_all add: join_rows_def)

lemma join_rows_one_Nil [simp]: "join_rows cfg F plan predicate ls [] = []"
  by (induction ls) simp_all

text \<open>Every predicate and every output tuple can be computed.\<close>

definition join_computes :: "config \<Rightarrow> double_ops \<Rightarrow> join_plan \<Rightarrow> Expression \<Rightarrow> row list \<Rightarrow> row list \<Rightarrow> bool" where
  "join_computes cfg F plan predicate ls rs \<longleftrightarrow> (\<forall>l\<in>set ls. \<forall>r\<in>set rs.
     (\<exists>v. EvaluateJoin F predicate (fst l) (left_schema plan) (fst r) (right_schema plan) = Inr v) \<and>
     (join_match F plan predicate l r \<longrightarrow> (\<exists>t. join_out cfg F plan l r = Inr t)))"

locale nested_loop = L: producer L I VL remL rowsL + R: producer R I VR remR rowsR
  for L :: "('l, 'w) executor" and I VL remL rowsL and R :: "('r, 'w) executor" and VR remR rowsR +
  fixes cfg :: config and F :: double_ops and plan :: join_plan and predicate :: Expression and fuel :: nat
  assumes computes: "join_computes cfg F plan predicate rowsL rowsR"
    and enough: "Suc (length rowsL) * Suc (length rowsR) \<le> fuel"
begin

text \<open>The rows to come, from the loop and from the state between two calls.\<close>

definition rest :: "'l \<Rightarrow> 'r \<Rightarrow> row \<Rightarrow> row list" where
  "rest l r lrow = join_rows cfg F plan predicate [lrow] (remR r) @ join_rows cfg F plan predicate (remL l) rowsR"

definition good :: "'l \<Rightarrow> 'r \<Rightarrow> row \<Rightarrow> bool" where
  "good l r lrow \<longleftrightarrow> VL l \<and> VR r \<and> suffix (remL l) rowsL \<and> suffix (remR r) rowsR \<and>
     (remR r \<noteq> [] \<longrightarrow> lrow \<in> set rowsL)"

lemma nlj_loop_step:
  assumes "good l r lrow" "I w" "length (remL l) * Suc (length rowsR) + Suc (length (remR r)) \<le> n"
  shows "\<exists>b row' l' r' lrow' w'. nlj_loop n cfg F L R plan predicate l r lrow rrow w row =
      Inr (b, row', NestedLoopJoinExecutor l' r' lrow' True, w') \<and> good l' r' lrow' \<and> I w' \<and>
      delivers b row' (rest l r lrow) (rest l' r' lrow')"
  using assms
proof (induction n arbitrary: l r lrow rrow w)
  case (Suc n)
  note g = Suc.prems(1) [unfolded good_def]
  show ?case
  proof (cases "remR r")
    case Nil
    obtain rrow' r' w' where R: "Next R r w rrow = Inr (False, rrow', r', w')" "VR r'" "I w'" "remR r' = []"
      using R.Next_end [of r w rrow] g Suc.prems(2) Nil by blast
    show ?thesis
    proof (cases "remL l")
      case Nil
      obtain lrow' l' w'' where "Next L l w' lrow = Inr (False, lrow', l', w'')" "VL l'" "I w''" "remL l' = []"
        using L.Next_end [of l w' lrow] g R Nil by blast
      with R Nil \<open>remR r = []\<close> show ?thesis by (auto simp: good_def rest_def)
    next
      case (Cons x xs)
      obtain l' w'' where L: "Next L l w' lrow = Inr (True, x, l', w'')" "VL l'" "I w''" "remL l' = xs"
        using L.Next_row [of l w' x xs lrow] g R Cons by blast
      obtain r'' w3 where I: "Init R r' w'' = Inr (r'', w3)" "VR r''" "I w3" "remR r'' = rowsR"
        using R.Init_all [of r' w''] R L by blast
      have "good l' r'' x" using g L I Cons by (auto simp: good_def suffix_def dest: suffix_ConsD)
      moreover have "rest l r lrow = rest l' r'' x" using Nil Cons L I by (simp add: rest_def)
      moreover have "length (remL l') * Suc (length rowsR) + Suc (length (remR r'')) \<le> n"
        using Suc.prems(3) L I Cons by simp
      ultimately show ?thesis using Suc.IH [of l' r'' x w3 rrow'] R L I by simp
    qed
  next
    case (Cons x xs)
    obtain r' w' where R: "Next R r w rrow = Inr (True, x, r', w')" "VR r'" "I w'" "remR r' = xs"
      using R.Next_row [of r w x xs rrow] g Suc.prems(2) Cons by blast
    have x: "x \<in> set rowsR" "lrow \<in> set rowsL" using g Cons by (auto simp: suffix_def)
    obtain v where v: "EvaluateJoin F predicate (fst lrow) (left_schema plan) (fst x) (right_schema plan) = Inr v"
      using computes x by (auto simp: join_computes_def)
    have good: "good l r' lrow" using g R Cons by (auto simp: good_def dest: suffix_ConsD)
    show ?thesis
    proof (cases "join_match F plan predicate lrow x")
      case True
      then obtain t where t: "join_out cfg F plan lrow x = Inr t"
        using computes x by (auto simp: join_computes_def)
      have "rest l r lrow = (t, rid_of (fst lrow)) # rest l r' lrow"
        using True Cons R t by (simp add: rest_def join_row_def)
      then show ?thesis using True R v good t by (auto simp: join_match_def join_out_def)
    next
      case False
      then have "rest l r lrow = rest l r' lrow" using Cons R by (simp add: rest_def)
      moreover have "length (remL l) * Suc (length rowsR) + Suc (length (remR r')) \<le> n"
        using Suc.prems(3) R Cons by simp
      ultimately show ?thesis using Suc.IH [of l r' lrow w' x] good R v False by (simp add: join_match_def)
    qed
  qed
qed simp

definition nlj_remaining :: "('l, 'r) NestedLoopJoinExecutor \<Rightarrow> row list" where
  "nlj_remaining st = (if is_left_selected st then rest (nlj_left st) (nlj_right st) (left_row st) else [])"

definition nlj_valid :: "('l, 'r) NestedLoopJoinExecutor \<Rightarrow> bool" where
  "nlj_valid st \<longleftrightarrow> (if is_left_selected st then good (nlj_left st) (nlj_right st) (left_row st)
     else VL (nlj_left st) \<and> VR (nlj_right st))"

lemma nlj_state [simp]:
  "nlj_valid (NestedLoopJoinExecutor l r lrow True) = good l r lrow"
  "nlj_valid (NestedLoopJoinExecutor l r lrow False) \<longleftrightarrow> VL l \<and> VR r"
  "nlj_remaining (NestedLoopJoinExecutor l r lrow True) = rest l r lrow"
  "nlj_remaining (NestedLoopJoinExecutor l r lrow False) = []"
  by (simp_all add: nlj_valid_def nlj_remaining_def)

lemma good_fuel: "good l r lrow \<Longrightarrow> length (remL l) * Suc (length rowsR) + Suc (length (remR r)) \<le> fuel"
proof -
  assume "good l r lrow"
  then have "length (remL l) \<le> length rowsL" "length (remR r) \<le> length rowsR"
    by (auto simp: good_def suffix_length_le)
  then have "length (remL l) * Suc (length rowsR) + Suc (length (remR r)) \<le>
    length rowsL * Suc (length rowsR) + Suc (length rowsR)"
    by (intro add_mono mult_le_mono) auto
  with enough show ?thesis by simp
qed

lemma nlj_Init_all:
  assumes "nlj_valid st" "I w"
  shows "\<exists>st' w'. NestedLoopJoin_Init L R st w = Inr (st', w') \<and> nlj_valid st' \<and> I w' \<and>
    nlj_remaining st' = join_rows cfg F plan predicate rowsL rowsR"
proof -
  have v: "VL (nlj_left st)" "VR (nlj_right st)" using assms(1) by (auto simp: nlj_valid_def good_def split: if_splits)
  obtain l w1 where l: "Init L (nlj_left st) w = Inr (l, w1)" "VL l" "I w1" "remL l = rowsL"
    using L.Init_all [OF v(1) assms(2)] by blast
  obtain r w2 where r: "Init R (nlj_right st) w1 = Inr (r, w2)" "VR r" "I w2" "remR r = rowsR"
    using R.Init_all [OF v(2) l(3)] by blast
  show ?thesis
  proof (cases rowsL)
    case Nil
    obtain r' l' w' where n: "Next L l w2 (left_row st) = Inr (False, r', l', w')" "VL l'" "I w'"
      using L.Next_end [of l w2 "left_row st"] l r Nil by auto
    have "NestedLoopJoin_Init L R st w = Inr (NestedLoopJoinExecutor l' r r' False, w')"
      using l(1) r(1) n(1) by (simp add: NestedLoopJoin_Init_def)
    moreover have "nlj_valid (NestedLoopJoinExecutor l' r r' False)" using n(2) r(2) by simp
    moreover have "nlj_remaining (NestedLoopJoinExecutor l' r r' False) = join_rows cfg F plan predicate rowsL rowsR"
      by (simp add: Nil)
    ultimately show ?thesis using n(3) by blast
  next
    case (Cons x xs)
    obtain l' w' where n: "Next L l w2 (left_row st) = Inr (True, x, l', w')" "VL l'" "I w'" "remL l' = xs"
      using L.Next_row [of l w2 x xs "left_row st"] l r Cons by auto
    have "good l' r x" unfolding good_def using n r Cons by (simp add: suffix_ConsI)
    moreover have "rest l' r x = join_rows cfg F plan predicate rowsL rowsR" using n r Cons by (simp add: rest_def)
    moreover have "NestedLoopJoin_Init L R st w = Inr (NestedLoopJoinExecutor l' r x True, w')"
      using l(1) r(1) n(1) by (simp add: NestedLoopJoin_Init_def)
    ultimately show ?thesis using n(3) nlj_state by metis
  qed
qed

lemma nlj_Next_delivers:
  assumes "nlj_valid st" "I w"
  shows "\<exists>b row' st' w'. NestedLoopJoin_Next fuel cfg F L R plan predicate st w row = Inr (b, row', st', w') \<and>
    nlj_valid st' \<and> I w' \<and> delivers b row' (nlj_remaining st) (nlj_remaining st')"
proof (cases "is_left_selected st")
  case True
  then have g: "good (nlj_left st) (nlj_right st) (left_row st)" using assms by (simp add: nlj_valid_def)
  from nlj_loop_step [OF g assms(2) good_fuel [OF g], of "fresh_row cfg" row] True
  obtain b row' l' r' lrow' w' where "NestedLoopJoin_Next fuel cfg F L R plan predicate st w row =
      Inr (b, row', NestedLoopJoinExecutor l' r' lrow' True, w')" "good l' r' lrow'" "I w'"
    "delivers b row' (nlj_remaining st) (rest l' r' lrow')"
    by (auto simp: NestedLoopJoin_Next_def nlj_remaining_def)
  then show ?thesis using nlj_state by metis
next
  case False
  with assms show ?thesis by (auto simp: NestedLoopJoin_Next_def nlj_remaining_def)
qed

end

sublocale nested_loop \<subseteq> join: producer "NestedLoopJoin fuel cfg F L R plan predicate" I nlj_valid nlj_remaining
  "join_rows cfg F plan predicate rowsL rowsR"
  by unfold_locales
    (unfold NestedLoopJoin_def executor.select_convs, (rule nlj_Init_all nlj_Next_delivers; assumption)+)

subsection \<open>Hash tables in memory\<close>

text \<open>A search in a table whose entries carry the hash values of their keys, with a comparison that decides
  equality on its keys.\<close>

definition um_ok :: "('k \<Rightarrow> 64 word result) \<Rightarrow> ('k \<Rightarrow> 'k \<Rightarrow> bool result) \<Rightarrow> 'k set \<Rightarrow> ('k, 'v) unordered_map \<Rightarrow> bool" where
  "um_ok hash eq K m \<longleftrightarrow> (\<forall>(h, k, v)\<in>set m. k \<in> K \<and> hash k = Inr h) \<and> (\<forall>k\<in>K. \<forall>k'\<in>K. eq k k' = Inr (k = k'))"

definition um_keys :: "('k, 'v) unordered_map \<Rightarrow> 'k list" where
  "um_keys m = map (\<lambda>(h, k, v). k) m"

lemma um_keys_simps [simp]: "um_keys [] = []" "um_keys ((h, k, v) # m) = k # um_keys m"
  "um_keys (m @ m') = um_keys m @ um_keys m'" "length (um_keys m) = length m"
  by (simp_all add: um_keys_def)

lemma um_find_spec:
  assumes "um_ok hash eq K m" "k \<in> K" "hash k = Inr h"
  shows "\<exists>p. um_find eq h k m = Inr p \<and> (case p of
    None \<Rightarrow> k \<notin> set (um_keys m)
  | Some i \<Rightarrow> i < length m \<and> um_keys m ! i = k \<and> (\<forall>j<i. um_keys m ! j \<noteq> k))"
  using assms(1)
proof (induction m)
  case (Cons e m)
  obtain h' k' v where e: "e = (h', k', v)" by (cases e)
  have "um_ok hash eq K m" using Cons.prems by (simp add: um_ok_def)
  from Cons.IH [OF this] obtain p where p: "um_find eq h k m = Inr p" "case p of
    None \<Rightarrow> k \<notin> set (um_keys m)
  | Some i \<Rightarrow> i < length m \<and> um_keys m ! i = k \<and> (\<forall>j<i. um_keys m ! j \<noteq> k)" by blast
  have "k' \<in> K" "hash k' = Inr h'" "eq k k' = Inr (k = k')" using Cons.prems assms(2) e by (auto simp: um_ok_def)
  then show ?case using assms(3) p e
    by (cases p) (auto simp: nth_Cons split: nat.split)
qed simp

lemma um_find_None:
  assumes "um_ok hash eq K m" "k \<in> K" "hash k = Inr h" "k \<notin> set (um_keys m)"
  shows "um_find eq h k m = Inr None"
proof -
  obtain p where p: "um_find eq h k m = Inr p" "case p of
    None \<Rightarrow> k \<notin> set (um_keys m)
  | Some i \<Rightarrow> i < length m \<and> um_keys m ! i = k \<and> (\<forall>j<i. um_keys m ! j \<noteq> k)"
    using um_find_spec [OF assms(1-3)] by blast
  show ?thesis using p assms(4) nth_mem [of _ "um_keys m"] by (cases p) auto
qed

lemma um_ok_append:
  "um_ok hash eq K m \<Longrightarrow> k \<in> K \<Longrightarrow> hash k = Inr h \<Longrightarrow> um_ok hash eq K (m @ [(h, k, v)])"
  by (auto simp: um_ok_def)

subsection \<open>Distinct\<close>

text \<open>The first row of each key.\<close>

fun firsts :: "('a \<Rightarrow> 'k) \<Rightarrow> 'k list \<Rightarrow> 'a list \<Rightarrow> 'a list" where
  "firsts key seen [] = []"
| "firsts key seen (x # xs) =
     (if key x \<in> set seen then firsts key seen xs else x # firsts key (seen @ [key x]) xs)"

lemma firsts_keys: "set (map key (firsts key seen xs)) = key ` set xs - set seen"
  by (induction key seen xs rule: firsts.induct) auto

lemma firsts_distinct: "distinct (map key (firsts key seen xs))"
proof (induction key seen xs rule: firsts.induct)
  case (2 key seen x xs)
  then show ?case using firsts_keys [of key "seen @ [key x]" xs] by auto
qed simp

lemma firsts_subseq: "subseq (firsts key seen xs) xs"
  by (induction key seen xs rule: firsts.induct) auto

definition row_values :: "double_ops \<Rightarrow> Schema \<Rightarrow> row \<Rightarrow> Value list result" where
  "row_values F schema x = traverse (Tuple_GetValue F (fst x) schema) [0..<GetColumnCount schema]"

definition row_key :: "double_ops \<Rightarrow> Schema \<Rightarrow> row \<Rightarrow> Value list" where
  "row_key F schema x = (case row_values F schema x of Inr vs \<Rightarrow> vs | Inl _ \<Rightarrow> [])"

text \<open>All values can be read and hashed, and the comparison decides equality on them.\<close>

definition keys_ok :: "double_ops \<Rightarrow> Schema \<Rightarrow> row list \<Rightarrow> bool" where
  "keys_ok F schema xs \<longleftrightarrow> (\<forall>x\<in>set xs. row_values F schema x = Inr (row_key F schema x) \<and>
     (\<exists>h. hash_key 0 (row_key F schema x) = Inr h) \<and>
     (\<forall>y\<in>set xs. key_eq F (row_key F schema x) (row_key F schema y) = Inr (row_key F schema x = row_key F schema y)))"

locale distinct_rows = producer +
  fixes F :: double_ops and schema :: Schema and fuel :: nat
  assumes keys: "keys_ok F schema rows"
    and enough: "length rows < fuel"
begin

abbreviation key :: "row \<Rightarrow> Value list" where
  "key \<equiv> row_key F schema"

definition table_ok :: "(Value list, unit) unordered_map \<Rightarrow> bool" where
  "table_ok = um_ok (hash_key 0) (key_eq F) (key ` set rows)"

definition distinct_valid :: "'a DistinctExecutor \<Rightarrow> bool" where
  "distinct_valid st \<longleftrightarrow> V (distinct_child st) \<and> suffix (remaining (distinct_child st)) rows \<and> table_ok (distinct_table st)"

definition distinct_remaining :: "'a DistinctExecutor \<Rightarrow> row list" where
  "distinct_remaining st = firsts key (um_keys (distinct_table st)) (remaining (distinct_child st))"

lemma Distinct_Init_all:
  assumes "distinct_valid st" "I w"
  shows "\<exists>st' w'. Distinct_Init C st w = Inr (st', w') \<and> distinct_valid st' \<and> I w' \<and>
    distinct_remaining st' = firsts key [] rows"
proof -
  obtain c w' where i: "Init C (distinct_child st) w = Inr (c, w')" "V c" "I w'" "remaining c = rows"
    using Init_all [of "distinct_child st" w] assms by (auto simp: distinct_valid_def)
  have "table_ok []" using keys by (auto simp: table_ok_def um_ok_def keys_ok_def)
  then have "distinct_valid (DistinctExecutor [] c)" "distinct_remaining (DistinctExecutor [] c) = firsts key [] rows"
    using i by (simp_all add: distinct_valid_def distinct_remaining_def)
  then show ?thesis using i by (auto simp: Distinct_Init_def)
qed

lemma Distinct_loop_delivers:
  assumes "distinct_valid st" "I w" "length (remaining (distinct_child st)) < n"
  shows "\<exists>b r' st' w'. Distinct_Next n F C schema st w r = Inr (b, r', st', w') \<and> distinct_valid st' \<and> I w' \<and>
    delivers b r' (distinct_remaining st) (distinct_remaining st')"
  using assms
proof (induction n arbitrary: st w r)
  case (Suc n)
  let ?t = "distinct_table st" and ?c = "distinct_child st"
  have v: "V ?c" "suffix (remaining ?c) rows" "table_ok ?t" using Suc.prems(1) by (auto simp: distinct_valid_def)
  show ?case
  proof (cases "remaining ?c")
    case Nil
    from Next_end [OF v(1) Suc.prems(2) Nil, of r] v(3) Nil show ?thesis
      by (fastforce simp: distinct_valid_def distinct_remaining_def)
  next
    case (Cons x xs)
    obtain c w' where n: "Next C ?c w r = Inr (True, x, c, w')" "V c" "I w'" "remaining c = xs"
      using Next_row [OF v(1) Suc.prems(2) Cons, of r] by blast
    have x: "x \<in> set rows" and sx: "suffix xs rows"
      using v(2) Cons by (auto simp: suffix_def dest: suffix_ConsD)
    obtain h where k: "row_values F schema x = Inr (key x)" "hash_key 0 (key x) = Inr h"
      using keys x by (auto simp: keys_ok_def)
    from um_find_spec [OF v(3) [unfolded table_ok_def] _ k(2)] x obtain p where
      p: "um_find (key_eq F) h (key x) ?t = Inr p" "p = None \<longleftrightarrow> key x \<notin> set (um_keys ?t)"
      by (fastforce simp: in_set_conv_nth split: option.splits)
    show ?thesis
    proof (cases "p = None")
      case True
      let ?st = "DistinctExecutor (?t @ [(h, key x, ())]) c"
      have "distinct_valid ?st"
        using n sx v(3) k(2) x by (simp add: distinct_valid_def table_ok_def um_ok_append)
      moreover have "delivers True x (distinct_remaining st) (distinct_remaining ?st)"
        using True p(2) Cons n(4) by (simp add: distinct_remaining_def)
      ultimately show ?thesis using n(1,3) k p(1) True by (auto simp: row_values_def)
    next
      case False
      let ?st = "DistinctExecutor ?t c"
      have "distinct_valid ?st" using n sx v(3) by (simp add: distinct_valid_def)
      moreover have "distinct_remaining ?st = distinct_remaining st"
        using False p(2) Cons n(4) by (simp add: distinct_remaining_def)
      moreover have "length (remaining (distinct_child ?st)) < n" using n(4) Cons Suc.prems(3) by simp
      moreover have "Distinct_Next (Suc n) F C schema st w r = Distinct_Next n F C schema ?st w' x"
        using n(1) k p(1) False by (auto simp: row_values_def)
      ultimately show ?thesis using Suc.IH [of ?st w' x] n(3) by simp
    qed
  qed
qed simp

lemma Distinct_Next_delivers:
  assumes "distinct_valid st" "I w"
  shows "\<exists>b r' st' w'. Distinct_Next fuel F C schema st w r = Inr (b, r', st', w') \<and> distinct_valid st' \<and> I w' \<and>
    delivers b r' (distinct_remaining st) (distinct_remaining st')"
proof (rule Distinct_loop_delivers [OF assms])
  show "length (remaining (distinct_child st)) < fuel"
    using assms(1) enough suffix_length_le by (fastforce simp: distinct_valid_def)
qed

end

sublocale distinct_rows \<subseteq> dist: producer "Distinct fuel F C schema" I distinct_valid distinct_remaining
  "firsts key [] rows"
  by unfold_locales
    (unfold Distinct_def executor.select_convs, (rule Distinct_Init_all Distinct_Next_delivers; assumption)+)

subsection \<open>Hash join\<close>

definition key_of :: "double_ops \<Rightarrow> Expression \<Rightarrow> Schema \<Rightarrow> row \<Rightarrow> Value" where
  "key_of F e schema x = (case Evaluate F e (fst x) schema of Inr v \<Rightarrow> v | Inl _ \<Rightarrow> new_Value INVALID)"

definition hashable :: "double_ops \<Rightarrow> Expression \<Rightarrow> Schema \<Rightarrow> row list \<Rightarrow> bool" where
  "hashable F e schema xs \<longleftrightarrow> (\<forall>x\<in>set xs. Evaluate F e (fst x) schema = Inr (key_of F e schema x) \<and>
     (\<exists>h. HashValue (key_of F e schema x) = Inr h))"

text \<open>The pairs with equal keys, in the order of the right list.\<close>

definition hash_join_rows ::
    "config \<Rightarrow> double_ops \<Rightarrow> join_plan \<Rightarrow> Expression \<Rightarrow> Expression \<Rightarrow> row list \<Rightarrow> row list \<Rightarrow> row list" where
  "hash_join_rows cfg F plan left_key right_key ls rs =
     concat (map (\<lambda>r. map (\<lambda>l. (fst (join_row cfg F plan l r), snd r))
       (filter (\<lambda>l. key_of F left_key (left_schema plan) l = key_of F right_key (right_schema plan) r) ls)) rs)"

lemma hash_join_rows_simps [simp]:
  "hash_join_rows cfg F plan left_key right_key ls [] = []"
  "hash_join_rows cfg F plan left_key right_key ls (r # rs) =
    map (\<lambda>l. (fst (join_row cfg F plan l r), snd r))
      (filter (\<lambda>l. key_of F left_key (left_schema plan) l = key_of F right_key (right_schema plan) r) ls) @
    hash_join_rows cfg F plan left_key right_key ls rs"
  by (simp_all add: hash_join_rows_def)

text \<open>All keys can be computed, hashed and compared, no two left rows have the same key, and the output
  tuples can be built.\<close>

definition hash_join_ok ::
    "config \<Rightarrow> double_ops \<Rightarrow> join_plan \<Rightarrow> Expression \<Rightarrow> Expression \<Rightarrow> row list \<Rightarrow> row list \<Rightarrow> bool" where
  "hash_join_ok cfg F plan left_key right_key ls rs \<longleftrightarrow>
     hashable F left_key (left_schema plan) ls \<and> hashable F right_key (right_schema plan) rs \<and>
     (\<forall>l\<in>set ls. \<exists>vs. row_values F (left_schema plan) l = Inr vs) \<and>
     (let K = key_of F left_key (left_schema plan) ` set ls \<union> key_of F right_key (right_schema plan) ` set rs in
      \<forall>k\<in>K. \<forall>k'\<in>K. hash_join_eq F k k' = Inr (k = k')) \<and>
     distinct (map (key_of F left_key (left_schema plan)) ls) \<and>
     (\<forall>l\<in>set ls. \<forall>r\<in>set rs. key_of F left_key (left_schema plan) l = key_of F right_key (right_schema plan) r \<longrightarrow>
        (\<exists>t. join_out cfg F plan l r = Inr t))"

text \<open>A column of a row read from its values or from its tuple.\<close>

lemma row_values_at:
  assumes "row_values F schema x = Inr vs"
  shows "at vs col = Tuple_GetValue F (fst x) schema col"
proof (cases "col < length (columns schema)")
  case True
  then show ?thesis
    using assms by (auto simp: row_values_def traverse_Inr list_all2_conv_all_nth GetColumnCount_def)
next
  case False
  then show ?thesis
    using assms by (auto simp: row_values_def traverse_Inr list_all2_conv_all_nth GetColumnCount_def at_def
        Tuple_GetValue_def GetColumn_def)
qed

locale hash_join = L: producer L I VL remL rowsL + R: producer R I VR remR rowsR
  for L :: "('l, 'w) executor" and I VL remL rowsL and R :: "('r, 'w) executor" and VR remR rowsR +
  fixes cfg :: config and F :: double_ops and plan :: join_plan and left_key right_key :: Expression and fuel :: nat
  assumes ok: "hash_join_ok cfg F plan left_key right_key rowsL rowsR"
    and enough: "length rowsL < fuel" "length rowsR < fuel"
begin

abbreviation lk :: "row \<Rightarrow> Value" where "lk \<equiv> key_of F left_key (left_schema plan)"
abbreviation rk :: "row \<Rightarrow> Value" where "rk \<equiv> key_of F right_key (right_schema plan)"

definition entry :: "row \<Rightarrow> 64 word \<times> Value \<times> Value list list" where
  "entry l = (projr (HashValue (lk l)), lk l, [projr (row_values F (left_schema plan) l)])"

lemma left_ok:
  assumes "l \<in> set rowsL"
  shows "Evaluate F left_key (fst l) (left_schema plan) = Inr (lk l)"
    "HashValue (lk l) = Inr (projr (HashValue (lk l)))"
    "row_values F (left_schema plan) l = Inr (projr (row_values F (left_schema plan) l))"
  using ok assms by (fastforce simp: hash_join_ok_def hashable_def)+

lemma right_ok:
  assumes "r \<in> set rowsR"
  shows "Evaluate F right_key (fst r) (right_schema plan) = Inr (rk r)" "\<exists>h. HashValue (rk r) = Inr h"
  using ok assms by (auto simp: hash_join_ok_def hashable_def)

lemma table_ok: "set ls \<subseteq> set rowsL \<Longrightarrow> um_ok HashValue (hash_join_eq F) (lk ` set rowsL \<union> rk ` set rowsR) (map entry ls)"
  using ok left_ok(2) by (auto simp: um_ok_def entry_def hash_join_ok_def Let_def)

lemma um_keys_entry [simp]: "um_keys (map entry ls) = map lk ls"
  by (induction ls) (simp_all add: entry_def)

lemma build_loop_table:
  assumes "VL l" "I w" "rowsL = done @ remL l" "length (remL l) < n"
  shows "\<exists>l' w'. build_loop n F L plan left_key l w row (map entry done) = Inr (l', map entry rowsL, w') \<and> VL l' \<and> I w'"
  using assms
proof (induction n arbitrary: l w row "done")
  case (Suc n)
  show ?case
  proof (cases "remL l")
    case Nil
    from L.Next_end [OF Suc.prems(1,2) Nil, of row] Suc.prems(3) Nil show ?thesis by auto
  next
    case (Cons x xs)
    obtain l' w' where nx: "Next L l w row = Inr (True, x, l', w')" "VL l'" "I w'" "remL l' = xs"
      using L.Next_row [OF Suc.prems(1,2) Cons, of row] by blast
    have x: "x \<in> set rowsL" and d: "set done \<subseteq> set rowsL" using Suc.prems(3) Cons by auto
    have "lk x \<notin> set (um_keys (map entry done))" using ok Suc.prems(3) Cons by (auto simp: hash_join_ok_def)
    from um_find_None [OF table_ok [OF d] _ left_ok(2) [OF x] this] x
    have f: "um_find (hash_join_eq F) (projr (HashValue (lk x))) (lk x) (map entry done) = Inr None" by blast
    obtain h vs where hv: "HashValue (lk x) = Inr h" "row_values F (left_schema plan) x = Inr vs"
      using left_ok [OF x] by blast
    have "build_loop (Suc n) F L plan left_key l w row (map entry done) =
      build_loop n F L plan left_key l' w' x (map entry (done @ [x]))"
      using nx(1) left_ok(1) [OF x] f hv by (simp add: entry_def row_values_def)
    then show ?thesis using Suc.IH [of l' w' "done @ [x]" x] nx Suc.prems(3,4) Cons by simp
  qed
qed simp

lemma HashJoin_new_table:
  assumes "VL l" "VR r" "I w"
  shows "\<exists>l' r' w'. HashJoin_new fuel cfg F L R plan left_key l r w = Inr (HashJoinExecutor l' r' 0 (map entry rowsL) [], w') \<and>
    VL l' \<and> VR r' \<and> I w' \<and> remR r' = rowsR"
proof -
  obtain l1 w1 where l: "Init L l w = Inr (l1, w1)" "VL l1" "I w1" "remL l1 = rowsL"
    using L.Init_all [OF assms(1,3)] by blast
  obtain r1 w2 where r: "Init R r w1 = Inr (r1, w2)" "VR r1" "I w2" "remR r1 = rowsR"
    using R.Init_all [OF assms(2) l(3)] by blast
  from build_loop_table [of l1 w2 "[]" fuel "fresh_row cfg"] l r enough(1)
  show ?thesis by (auto simp: HashJoin_new_def)
qed

abbreviation matches :: "row \<Rightarrow> row list" where
  "matches r \<equiv> filter (\<lambda>l. lk l = rk r) rowsL"

lemma find_match:
  assumes "r \<in> set rowsR" "HashValue (rk r) = Inr h"
  shows "\<exists>p. um_find (hash_join_eq F) h (rk r) (map entry rowsL) = Inr p \<and>
    (case p of None \<Rightarrow> matches r = [] | Some i \<Rightarrow> i < length rowsL \<and> matches r = [rowsL ! i])"
proof -
  from um_find_spec [OF table_ok [OF subset_refl] _ assms(2)] assms(1) obtain p where
    p: "um_find (hash_join_eq F) h (rk r) (map entry rowsL) = Inr p"
    "case p of None \<Rightarrow> rk r \<notin> set (map lk rowsL) | Some i \<Rightarrow> i < length rowsL \<and> lk (rowsL ! i) = rk r"
    by (fastforce split: option.splits)
  have dist: "distinct (map lk rowsL)" using ok by (simp add: hash_join_ok_def)
  show ?thesis
  proof (cases p)
    case None
    then have "matches r = []" using p(2) by (auto simp: filter_empty_conv image_iff)
    then show ?thesis using p(1) None by auto
  next
    case (Some i)
    then have i: "i < length rowsL" "lk (rowsL ! i) = rk r" using p(2) by auto
    have "rowsL = take i rowsL @ rowsL ! i # drop (Suc i) rowsL" using i(1) by (simp add: id_take_nth_drop)
    then obtain as bs where s: "rowsL = as @ rowsL ! i # bs" by blast
    have "\<forall>l\<in>set as \<union> set bs. lk l \<noteq> rk r" using dist i(2) by (subst (asm) s) (force simp: image_iff)
    then have "filter (\<lambda>l. lk l = rk r) as = []" "filter (\<lambda>l. lk l = rk r) bs = []"
      by (simp_all add: filter_empty_conv)
    then have "filter (\<lambda>l. lk l = rk r) (as @ rowsL ! i # bs) = [rowsL ! i]" using i(2) by simp
    then show ?thesis using s p(1) i(1) Some by auto
  qed
qed

text \<open>The rows to come from the right rows \<open>rs\<close>.\<close>

abbreviation hj_rows :: "row list \<Rightarrow> row list" where
  "hj_rows rs \<equiv> hash_join_rows cfg F plan left_key right_key rowsL rs"

lemma probe_loop_finds:
  assumes "VR r" "I w" "suffix (remR r) rowsR" "length (remR r) < n"
  shows "\<exists>found row' r' w'. probe_loop n F R plan right_key (map entry rowsL) r w row = Inr (found, row', r', w') \<and>
    VR r' \<and> I w' \<and> suffix (remR r') rowsR \<and>
    (case found of
       None \<Rightarrow> hj_rows (remR r) = [] \<and> remR r' = []
     | Some b \<Rightarrow> row' \<in> set rowsR \<and> hj_rows (remR r) = hj_rows (row' # remR r') \<and>
         (\<exists>l\<in>set rowsL. matches row' = [l] \<and> b = [projr (row_values F (left_schema plan) l)]))"
  using assms
proof (induction n arbitrary: r w row)
  case (Suc n)
  show ?case
  proof (cases "remR r")
    case Nil
    from R.Next_end [OF Suc.prems(1,2) Nil, of row] Nil show ?thesis by fastforce
  next
    case (Cons x xs)
    obtain r' w' where nx: "Next R r w row = Inr (True, x, r', w')" "VR r'" "I w'" "remR r' = xs"
      using R.Next_row [OF Suc.prems(1,2) Cons, of row] by blast
    have x: "x \<in> set rowsR" and sx: "suffix xs rowsR"
      using Suc.prems(3) Cons by (auto simp: suffix_def dest: suffix_ConsD)
    obtain h where h: "HashValue (rk x) = Inr h" using right_ok(2) [OF x] by blast
    obtain p where p: "um_find (hash_join_eq F) h (rk x) (map entry rowsL) = Inr p"
      "case p of None \<Rightarrow> matches x = [] | Some i \<Rightarrow> i < length rowsL \<and> matches x = [rowsL ! i]"
      using find_match [OF x h] by blast
    show ?thesis
    proof (cases p)
      case None
      have step: "probe_loop (Suc n) F R plan right_key (map entry rowsL) r w row =
        probe_loop n F R plan right_key (map entry rowsL) r' w' x"
        using nx(1) right_ok(1) [OF x] h p(1) None by simp
      have same: "hj_rows (remR r) = hj_rows (remR r')" using p(2) None Cons nx(4) by simp
      show ?thesis unfolding step same by (rule Suc.IH) (use nx sx Suc.prems(4) Cons in auto)
    next
      case (Some i)
      then have i: "i < length rowsL" "matches x = [rowsL ! i]" using p(2) by auto
      then have "probe_loop (Suc n) F R plan right_key (map entry rowsL) r w row =
        Inr (Some [projr (row_values F (left_schema plan) (rowsL ! i))], x, r', w')"
        using nx(1) right_ok(1) [OF x] h p(1) Some by (simp add: entry_def)
      then show ?thesis using nx sx x i Cons by (fastforce simp del: hash_join_rows_simps)
    qed
  qed
qed simp

definition hj_valid :: "('l, 'r) HashJoinExecutor \<Rightarrow> bool" where
  "hj_valid st \<longleftrightarrow> VL (hj_left st) \<and> VR (hj_right st) \<and> suffix (remR (hj_right st)) rowsR \<and>
     join_table st = map entry rowsL \<and> length (outer_table_buffer st) \<le> next_pos st"

definition hj_remaining :: "('l, 'r) HashJoinExecutor \<Rightarrow> row list" where
  "hj_remaining st = hj_rows (remR (hj_right st))"

lemma hj_Init_all:
  assumes "hj_valid st" "I w"
  shows "\<exists>st' w'. HashJoin_Init L R st w = Inr (st', w') \<and> hj_valid st' \<and> I w' \<and> hj_remaining st' = hj_rows rowsR"
proof -
  have v: "VL (hj_left st)" "VR (hj_right st)" using assms(1) by (auto simp: hj_valid_def)
  obtain l1 w1 where l: "Init L (hj_left st) w = Inr (l1, w1)" "VL l1" "I w1"
    using L.Init_all [OF v(1) assms(2)] by blast
  obtain r1 w2 where r: "Init R (hj_right st) w1 = Inr (r1, w2)" "VR r1" "I w2" "remR r1 = rowsR"
    using R.Init_all [OF v(2) l(3)] by blast
  have "HashJoin_Init L R st w = Inr (HashJoinExecutor l1 r1 0 (join_table st) [], w2)"
    using l(1) r(1) by (simp add: HashJoin_Init_def)
  then show ?thesis using l r assms(1) by (auto simp: hj_valid_def hj_remaining_def)
qed

lemma hj_Next_delivers:
  assumes "hj_valid st" "I w"
  shows "\<exists>b row' st' w'. HashJoin_Next fuel cfg F R plan right_key st w row = Inr (b, row', st', w') \<and>
    hj_valid st' \<and> I w' \<and> delivers b row' (hj_remaining st) (hj_remaining st')"
proof -
  have v: "VR (hj_right st)" "suffix (remR (hj_right st)) rowsR" "join_table st = map entry rowsL"
    "length (outer_table_buffer st) \<le> next_pos st" using assms(1) by (auto simp: hj_valid_def)
  have "length (remR (hj_right st)) < fuel" using v(2) enough(2) suffix_length_le by fastforce
  from probe_loop_finds [OF v(1) assms(2) v(2) this, of row] obtain found row' r' w' where
    p: "probe_loop fuel F R plan right_key (join_table st) (hj_right st) w row = Inr (found, row', r', w')"
    "VR r'" "I w'" "suffix (remR r') rowsR"
    "case found of
       None \<Rightarrow> hj_rows (remR (hj_right st)) = [] \<and> remR r' = []
     | Some b \<Rightarrow> row' \<in> set rowsR \<and> hj_rows (remR (hj_right st)) = hj_rows (row' # remR r') \<and>
         (\<exists>l\<in>set rowsL. matches row' = [l] \<and> b = [projr (row_values F (left_schema plan) l)])"
    unfolding v(3) by blast
  show ?thesis
  proof (cases found)
    case None
    let ?st = "HashJoinExecutor (hj_left st) r' (next_pos st) (join_table st) (outer_table_buffer st)"
    have "HashJoin_Next fuel cfg F R plan right_key st w row = Inr (False, row', ?st, w')"
      using p(1) v(4) None by (simp add: HashJoin_Next_def)
    moreover have "hj_valid ?st" using assms(1) p by (simp add: hj_valid_def)
    moreover have "delivers False row' (hj_remaining st) (hj_remaining ?st)" using p(5) None by (simp add: hj_remaining_def)
    ultimately show ?thesis using p(3) by blast
  next
    case (Some b)
    then obtain l where l: "row' \<in> set rowsR" "hj_rows (remR (hj_right st)) = hj_rows (row' # remR r')" "l \<in> set rowsL"
      "matches row' = [l]" "b = [projr (row_values F (left_schema plan) l)]" using p(5) by auto
    then have "lk l = rk row'" by (metis (mono_tags, lifting) filter_eq_ConsD)
    moreover have "\<forall>l\<in>set rowsL. \<forall>r\<in>set rowsR. lk l = rk r \<longrightarrow> (\<exists>t. join_out cfg F plan l r = Inr t)"
      using ok by (simp add: hash_join_ok_def)
    ultimately obtain t where t: "join_out cfg F plan l row' = Inr t" using l(1,3) by blast
    let ?st = "HashJoinExecutor (hj_left st) r' (Suc 0) (join_table st) b"
    have "HashJoin_Next fuel cfg F R plan right_key st w row = Inr (True, (t, snd row'), ?st, w')"
      using p(1) v(4) Some t l(5) row_values_at [OF left_ok(3) [OF l(3)]]
      by (simp add: HashJoin_Next_def join_out_def)
    moreover have "hj_valid ?st" using assms(1) p l(5) by (simp add: hj_valid_def)
    moreover have "delivers True (t, snd row') (hj_remaining st) (hj_remaining ?st)"
      using l(2,4) t by (simp add: hj_remaining_def join_row_def)
    ultimately show ?thesis using p(3) by blast
  qed
qed

end

sublocale hash_join \<subseteq> hj: producer "HashJoin fuel cfg F L R plan right_key" I hj_valid hj_remaining
  "hash_join_rows cfg F plan left_key right_key rowsL rowsR"
  by unfold_locales
    (unfold HashJoin_def executor.select_convs, (rule hj_Init_all hj_Next_delivers; assumption)+)

subsection \<open>Aggregation\<close>

text \<open>The running aggregates of one group, over the inputs of its rows.\<close>

fun fold_aggregates :: "double_ops \<Rightarrow> aggregation_plan \<Rightarrow> Value list \<Rightarrow> Value list list \<Rightarrow> Value list result" where
  "fold_aggregates F plan acc [] = Inr acc"
| "fold_aggregates F plan acc (v # vs) = andThen (CombineAggregateValues F plan acc v) (\<lambda>acc. fold_aggregates F plan acc vs)"

lemma fold_aggregates_append:
  "fold_aggregates F plan acc (vs @ [v]) =
    andThen (fold_aggregates F plan acc vs) (\<lambda>acc. CombineAggregateValues F plan acc v)"
proof (induction vs arbitrary: acc)
  case (Cons u vs)
  then show ?case by (cases "CombineAggregateValues F plan acc u") auto
qed simp

text \<open>The key and the inputs of a row; without a group-by clause the key is the list of initial values.\<close>

definition agg_key :: "double_ops \<Rightarrow> aggregation_plan \<Rightarrow> Schema \<Rightarrow> Value list \<Rightarrow> row \<Rightarrow> Value list result" where
  "agg_key F plan schema initial x =
     (if group_bys plan \<noteq> [] then traverse (\<lambda>g. Evaluate F g (fst x) schema) (group_bys plan) else Inr initial)"

definition agg_input :: "double_ops \<Rightarrow> aggregation_plan \<Rightarrow> Schema \<Rightarrow> row \<Rightarrow> Value list result" where
  "agg_input F plan schema x = traverse (\<lambda>a. Evaluate F a (fst x) schema) (agg_exprs plan)"

text \<open>The groups of a list of rows in the order of their first rows, with their aggregates.\<close>

definition group_aggregate ::
    "double_ops \<Rightarrow> aggregation_plan \<Rightarrow> Schema \<Rightarrow> Value list \<Rightarrow> row list \<Rightarrow> Value list \<Rightarrow> Value list result" where
  "group_aggregate F plan schema initial xs k =
     fold_aggregates F plan initial
       (map (\<lambda>x. projr (agg_input F plan schema x)) (filter (\<lambda>x. projr (agg_key F plan schema initial x) = k) xs))"

definition groups_of :: "double_ops \<Rightarrow> aggregation_plan \<Rightarrow> Schema \<Rightarrow> Value list \<Rightarrow> row list \<Rightarrow> agg_table" where
  "groups_of F plan schema initial xs =
     map (\<lambda>k. (projr (hash_key 0 k), k, projr (group_aggregate F plan schema initial xs k)))
       (map (\<lambda>x. projr (agg_key F plan schema initial x)) (firsts (\<lambda>x. projr (agg_key F plan schema initial x)) [] xs))"

text \<open>All keys and inputs can be computed, the keys hashed and compared, and no aggregate fails.\<close>

definition groups_ok :: "double_ops \<Rightarrow> aggregation_plan \<Rightarrow> Schema \<Rightarrow> Value list \<Rightarrow> row list \<Rightarrow> bool" where
  "groups_ok F plan schema initial xs \<longleftrightarrow>
     (let key = (\<lambda>x. projr (agg_key F plan schema initial x)) in
      (\<forall>x\<in>set xs. agg_key F plan schema initial x = Inr (key x) \<and> (\<exists>v. agg_input F plan schema x = Inr v) \<and>
        (\<exists>h. hash_key 0 (key x) = Inr h) \<and> (\<exists>v. group_aggregate F plan schema initial xs (key x) = Inr v) \<and>
        (\<forall>y\<in>set xs. key_eq F (key x) (key y) = Inr (key x = key y))))"

lemma firsts_append:
  "firsts key seen (xs @ [x]) = firsts key seen xs @ (if key x \<in> set seen \<union> key ` set xs then [] else [x])"
  by (induction key seen xs rule: firsts.induct) auto

lemma list_update_map:
  assumes "i < length ks" "distinct ks"
  shows "(map f ks)[i := y] = map (\<lambda>k. if k = ks ! i then y else f k) ks"
  using assms by (intro nth_equalityI) (auto simp: nth_list_update nth_eq_iff_index_eq)

lemma firsts_subset: "x \<in> set (firsts key seen xs) \<Longrightarrow> x \<in> set xs"
  by (induction key seen xs rule: firsts.induct) (auto split: if_splits)

locale aggregation_rows = producer +
  fixes cfg :: config and F :: double_ops and plan :: aggregation_plan and schema :: Schema and initial :: "Value list"
    and fuel :: nat
  assumes init: "GenerateInitialAggregateValue (agg_types plan) = Inr initial"
    and ok: "groups_ok F plan schema initial rows"
    and enough: "length rows < fuel"
begin

abbreviation key :: "row \<Rightarrow> Value list" where
  "key x \<equiv> projr (agg_key F plan schema initial x)"

abbreviation groups :: "row list \<Rightarrow> agg_table" where
  "groups xs \<equiv> groups_of F plan schema initial xs"

lemma row_ok:
  assumes "x \<in> set rows"
  shows "agg_key F plan schema initial x = Inr (key x)"
    "agg_input F plan schema x = Inr (projr (agg_input F plan schema x))"
    "hash_key 0 (key x) = Inr (projr (hash_key 0 (key x)))"
    "\<exists>v. group_aggregate F plan schema initial rows (key x) = Inr v"
  using ok assms by (fastforce simp: groups_ok_def Let_def)+

lemma group_aggregate_prefix:
  assumes "rows = ps @ xs" "x \<in> set rows"
  shows "\<exists>v. group_aggregate F plan schema initial ps (key x) = Inr v"
proof -
  have "\<exists>v. fold_aggregates F plan acc as = Inr v" if "fold_aggregates F plan acc (as @ bs) = Inr v" for acc as bs v
    using that
  proof (induction as arbitrary: acc)
    case (Cons a as)
    then show ?case by (cases "CombineAggregateValues F plan acc a") auto
  qed simp
  then show ?thesis using row_ok(4) [OF assms(2)] by (auto simp: group_aggregate_def assms(1))
qed

lemma um_keys_groups: "um_keys (groups xs) = map key (firsts key [] xs)"
  by (simp add: groups_of_def um_keys_def)

lemma length_groups: "length (groups xs) = length (firsts key [] xs)"
  by (simp add: groups_of_def)

lemma groups_um_ok:
  assumes "set ps \<subseteq> set rows"
  shows "um_ok (hash_key 0) (key_eq F) (key ` set rows) (groups ps)"
proof -
  have "key x \<in> key ` set rows \<and> hash_key 0 (key x) = Inr (projr (hash_key 0 (key x)))"
    if "x \<in> set (firsts key [] ps)" for x
    using that assms row_ok(3) firsts_subset by fastforce
  moreover have "\<forall>k\<in>key ` set rows. \<forall>k'\<in>key ` set rows. key_eq F k k' = Inr (k = k')"
    using ok by (auto simp: groups_ok_def Let_def)
  ultimately show ?thesis by (auto simp: um_ok_def groups_of_def)
qed

lemma group_aggregate_snoc:
  "group_aggregate F plan schema initial (ps @ [x]) k =
    (if key x = k then andThen (group_aggregate F plan schema initial ps k)
       (\<lambda>acc. CombineAggregateValues F plan acc (projr (agg_input F plan schema x)))
     else group_aggregate F plan schema initial ps k)"
  by (simp add: group_aggregate_def fold_aggregates_append)

lemma InsertCombine_old:
  assumes "rows = ps @ x # xs" "key x \<in> key ` set ps"
  shows "InsertCombine F plan (groups ps) (key x) (projr (agg_input F plan schema x)) = Inr (groups (ps @ [x]))"
proof -
  let ?k = "key x" and ?ks = "map key (firsts key [] ps)"
  have x: "x \<in> set rows" and sub: "set ps \<subseteq> set rows" using assms(1) by auto
  have in_ks: "?k \<in> set ?ks" using assms(2) firsts_keys [of key "[]" ps] by auto
  obtain i where i: "um_find (key_eq F) (projr (hash_key 0 ?k)) ?k (groups ps) = Inr (Some i)" "i < length ?ks" "?ks ! i = ?k"
    using um_find_spec [OF groups_um_ok [OF sub] _ row_ok(3) [OF x]] x in_ks
    by (auto simp: um_keys_groups length_groups split: option.splits)
  obtain a where a: "group_aggregate F plan schema initial ps ?k = Inr a"
    using group_aggregate_prefix [OF assms(1) x] by blast
  obtain v where v: "CombineAggregateValues F plan a (projr (agg_input F plan schema x)) = Inr v"
    using group_aggregate_prefix [of "ps @ [x]" xs x] assms(1) x a by (auto simp: group_aggregate_snoc)
  have e: "groups ps ! i = (projr (hash_key 0 ?k), ?k, a)" using i(2,3) a by (simp add: groups_of_def)
  have "groups (ps @ [x]) = (groups ps)[i := (projr (hash_key 0 ?k), ?k, v)]"
    unfolding groups_of_def
    by (subst list_update_map [OF i(2) firsts_distinct])
      (use assms(2) i(3) a v in \<open>auto simp: firsts_append group_aggregate_snoc\<close>)
  moreover obtain h where "hash_key 0 ?k = Inr h" using row_ok(3) [OF x] by blast
  ultimately show ?thesis using i(1) e v by (simp add: InsertCombine_def)
qed

lemma InsertCombine_new:
  assumes "rows = ps @ x # xs" "key x \<notin> key ` set ps"
  shows "InsertCombine F plan (groups ps) (key x) (projr (agg_input F plan schema x)) = Inr (groups (ps @ [x]))"
proof -
  let ?k = "key x" and ?h = "projr (hash_key 0 (key x))" and ?ks = "map key (firsts key [] ps)"
  have x: "x \<in> set rows" and sub: "set ps \<subseteq> set rows" using assms(1) by auto
  have new: "?k \<notin> set ?ks" using assms(2) firsts_subset by fastforce
  let ?t = "groups ps @ [(?h, ?k, initial)]"
  note ok = groups_um_ok [OF sub]
  have f1: "um_find (key_eq F) ?h ?k (groups ps) = Inr None"
    by (rule um_find_None [OF ok _ row_ok(3) [OF x]]) (use x new in \<open>auto simp: um_keys_groups\<close>)
  obtain i where i: "um_find (key_eq F) ?h ?k ?t = Inr (Some i)" "i < Suc (length ?ks)" "(?ks @ [?k]) ! i = ?k"
    using um_find_spec [OF um_ok_append [OF ok _ row_ok(3) [OF x]] _ row_ok(3) [OF x], of initial] x
    by (auto simp: um_keys_groups length_groups split: option.splits)
  have "i < length ?ks \<Longrightarrow> ?ks ! i \<noteq> ?k" using new nth_mem [of i ?ks] by metis
  then have "i = length ?ks" using i(2,3) by (cases "i < length ?ks") (simp_all add: nth_append)
  then have len: "i = length (groups ps)" by (simp add: groups_of_def)
  have empty: "group_aggregate F plan schema initial ps ?k = Inr initial"
  proof -
    have "filter (\<lambda>y. key y = ?k) ps = []" using assms(2) by (auto simp: filter_empty_conv image_iff)
    then show ?thesis by (simp add: group_aggregate_def)
  qed
  obtain v where v: "CombineAggregateValues F plan initial (projr (agg_input F plan schema x)) = Inr v"
    using group_aggregate_prefix [of "ps @ [x]" xs x] assms(1) x empty by (auto simp: group_aggregate_snoc)
  have "groups (ps @ [x]) = groups ps @ [(?h, ?k, v)]"
    unfolding groups_of_def using assms(2) empty v firsts_subset by (fastforce simp: firsts_append group_aggregate_snoc)
  moreover obtain h where "hash_key 0 ?k = Inr h" using row_ok(3) [OF x] by blast
  ultimately show ?thesis using f1 i(1) len v init by (simp add: InsertCombine_def)
qed

lemma aggregate_loop_groups:
  assumes "V e" "I w" "rows = ps @ remaining e" "length (remaining e) < n"
    "\<And>x. group_bys plan = [] \<Longrightarrow> x \<in> set rows \<Longrightarrow> k = key x"
  shows "\<exists>e' w'. aggregate_loop n F C plan schema k e w row (groups ps) = Inr (e', groups rows, w') \<and> V e' \<and> I w'"
  using assms
proof (induction n arbitrary: e w row ps k)
  case (Suc n)
  show ?case
  proof (cases "remaining e")
    case Nil
    from Next_end [OF Suc.prems(1,2) Nil, of row] Suc.prems(3) Nil show ?thesis by auto
  next
    case (Cons x xs)
    obtain e' w' where nx: "Next C e w row = Inr (True, x, e', w')" "V e'" "I w'" "remaining e' = xs"
      using Next_row [OF Suc.prems(1,2) Cons, of row] by blast
    have split: "rows = ps @ x # xs" and x: "x \<in> set rows" using Suc.prems(3) Cons by auto
    have k: "(if group_bys plan \<noteq> [] then traverse (\<lambda>g. Evaluate F g (fst x) schema) (group_bys plan) else Inr k) = Inr (key x)"
      using row_ok(1) [OF x] Suc.prems(5) [OF _ x] by (auto simp: agg_key_def)
    obtain v where v: "agg_input F plan schema x = Inr v" using row_ok(2) [OF x] by blast
    have "InsertCombine F plan (groups ps) (key x) v = Inr (groups (ps @ [x]))"
      using InsertCombine_old [OF split] InsertCombine_new [OF split] v by fastforce
    then have "aggregate_loop (Suc n) F C plan schema k e w row (groups ps) =
      aggregate_loop n F C plan schema (key x) e' w' x (groups (ps @ [x]))"
      using nx(1) k v by (simp only: aggregate_loop.simps agg_input_def andThen_simps case_prod_conv if_True not_True_eq_False if_False)
    then show ?thesis
      using Suc.IH [of e' w' "ps @ [x]" "key x" x] nx split Suc.prems(4,5) Cons by (simp add: agg_key_def)
  qed
qed simp

lemma Aggregation_new_groups:
  assumes "V e" "I w"
  shows "\<exists>e' w'. Aggregation_new fuel cfg F C plan schema e w = Inr (AggregationExecutor e' (groups rows) [], w') \<and> V e' \<and> I w'"
proof -
  obtain e1 w1 where e: "Init C e w = Inr (e1, w1)" "V e1" "I w1" "remaining e1 = rows"
    using Init_all [OF assms] by blast
  have "groups [] = []" by (simp add: groups_of_def)
  then show ?thesis
    using aggregate_loop_groups [OF e(2,3), of "[]" fuel initial "fresh_row cfg"] e enough init
    by (auto simp: Aggregation_new_def agg_key_def)
qed

end

text \<open>The output of an aggregation over the entries of its table.\<close>

definition agg_keep :: "double_ops \<Rightarrow> aggregation_plan \<Rightarrow> Value list \<times> Value list \<Rightarrow> bool result" where
  "agg_keep F plan g = (case having plan of
     None \<Rightarrow> Inr True
   | Some e \<Rightarrow> andThen (EvaluateAggregate F e (fst g) (snd g)) (\<lambda>v. Inr (GetAs_bool v)))"

definition agg_out :: "config \<Rightarrow> double_ops \<Rightarrow> aggregation_plan \<Rightarrow> Value list \<times> Value list \<Rightarrow> tuple result" where
  "agg_out cfg F plan g =
     andThen (traverse (\<lambda>column. case column_expr column of
         None \<Rightarrow> Inl Crash
       | Some e \<Rightarrow> EvaluateAggregate F e (fst g) (snd g)) (columns (agg_out_schema plan))) (\<lambda>vs.
     Tuple_new cfg vs (agg_out_schema plan))"

definition agg_computes :: "config \<Rightarrow> double_ops \<Rightarrow> aggregation_plan \<Rightarrow> (Value list \<times> Value list) list \<Rightarrow> bool" where
  "agg_computes cfg F plan gs \<longleftrightarrow> (\<forall>g\<in>set gs. \<exists>b. agg_keep F plan g = Inr b \<and> (b \<longrightarrow> (\<exists>t. agg_out cfg F plan g = Inr t)))"

definition agg_tuples :: "config \<Rightarrow> double_ops \<Rightarrow> aggregation_plan \<Rightarrow> (Value list \<times> Value list) list \<Rightarrow> tuple list" where
  "agg_tuples cfg F plan gs = map (\<lambda>g. projr (agg_out cfg F plan g)) (filter (\<lambda>g. agg_keep F plan g = Inr True) gs)"

lemma aggregation_loop_Cons:
  "aggregation_loop cfg F plan (g # gs) = andThen (agg_keep F plan g) (\<lambda>keep.
    if \<not> keep then aggregation_loop cfg F plan gs else andThen (agg_out cfg F plan g) (\<lambda>t. Inr (Some t, gs)))"
proof -
  obtain k v where g: "g = (k, v)" by (cases g)
  show ?thesis
    unfolding g aggregation_loop.simps agg_keep_def agg_out_def fst_conv snd_conv andThen_assoc by (rule refl)
qed

lemma aggregation_loop_tuples:
  assumes "agg_computes cfg F plan gs"
  shows "\<exists>t rest. aggregation_loop cfg F plan gs = Inr (t, rest) \<and> suffix rest gs \<and> agg_tuples cfg F plan gs =
    (case t of None \<Rightarrow> [] | Some t \<Rightarrow> t # agg_tuples cfg F plan rest) \<and> (t = None \<longrightarrow> rest = []) \<and> (t \<noteq> None \<longrightarrow> length rest < length gs)"
  using assms
proof (induction gs)
  case (Cons g gs)
  from Cons.prems obtain b where b: "agg_keep F plan g = Inr b" "b \<Longrightarrow> \<exists>t. agg_out cfg F plan g = Inr t"
    by (auto simp: agg_computes_def)
  show ?case
  proof (cases b)
    case True
    then obtain t where t: "agg_out cfg F plan g = Inr t" using b(2) by blast
    have "aggregation_loop cfg F plan (g # gs) = Inr (Some t, gs)"
      using b(1) t True by (simp add: aggregation_loop_Cons del: aggregation_loop.simps)
    then show ?thesis using b(1) t True by (simp add: agg_tuples_def suffix_ConsI)
  next
    case False
    have "aggregation_loop cfg F plan (g # gs) = aggregation_loop cfg F plan gs"
      using b(1) False by (simp add: aggregation_loop_Cons del: aggregation_loop.simps)
    moreover have "agg_tuples cfg F plan (g # gs) = agg_tuples cfg F plan gs" using b(1) False by (simp add: agg_tuples_def)
    moreover have "agg_computes cfg F plan gs" using Cons.prems by (simp add: agg_computes_def)
    ultimately show ?thesis using Cons.IH by (metis suffix_ConsI length_Cons less_SucI)
  qed
qed (simp add: agg_tuples_def)

lemma aggregation_execute_loop:
  assumes "agg_computes cfg F plan gs" "length gs < n"
  shows "execute_loop n (Aggregation order cfg F C plan) (AggregationExecutor e ht gs) w row =
    Inr (agg_tuples cfg F plan gs, w)"
  using assms
proof (induction n arbitrary: gs row)
  case (Suc n)
  obtain t rest where t: "aggregation_loop cfg F plan gs = Inr (t, rest)" "suffix rest gs"
    "agg_tuples cfg F plan gs = (case t of None \<Rightarrow> [] | Some t \<Rightarrow> t # agg_tuples cfg F plan rest)"
    "t = None \<longrightarrow> rest = []" "t \<noteq> None \<longrightarrow> length rest < length gs"
    using aggregation_loop_tuples [OF Suc.prems(1)] by blast
  have "agg_computes cfg F plan rest" using Suc.prems(1) t(2) by (auto simp: agg_computes_def suffix_def)
  then show ?case using Suc.IH [of rest] Suc.prems(2) t
    by (cases t) (auto simp: Aggregation_def Aggregation_Next_def)
qed simp

context aggregation_rows
begin

lemma Aggregation_Execute:
  assumes "V e" "I w" "mset (order (groups rows)) = mset (groups rows)"
    "agg_computes cfg F plan (map snd (groups rows))"
  shows "\<exists>st w1 w2. Aggregation_new fuel cfg F C plan schema e w = Inr (st, w1) \<and> I w1 \<and>
    Execute fuel cfg (Aggregation order cfg F C plan) st w1 =
      Inr (agg_tuples cfg F plan (map snd (order (groups rows))), w2) \<and> I w2"
proof -
  obtain e1 w1 where n: "Aggregation_new fuel cfg F C plan schema e w = Inr (AggregationExecutor e1 (groups rows) [], w1)"
    "V e1" "I w1" using Aggregation_new_groups [OF assms(1,2)] by blast
  obtain e2 w2 where i: "Init C e1 w1 = Inr (e2, w2)" "I w2" using Init_all [OF n(2,3)] by blast
  have c: "agg_computes cfg F plan (map snd (order (groups rows)))"
    using assms(4) mset_eq_setD [OF assms(3)] by (simp add: agg_computes_def)
  have "length (groups rows) \<le> length rows" using list_emb_length [OF firsts_subseq] by (simp add: length_groups)
  then have l: "length (map snd (order (groups rows))) < fuel"
    using enough mset_eq_length [OF assms(3)] by simp
  have "Init (Aggregation order cfg F C plan) (AggregationExecutor e1 (groups rows) []) w1 =
    Inr (AggregationExecutor e2 (groups rows) (map snd (order (groups rows))), w2)"
    using i(1) by (simp add: Aggregation_def Aggregation_Init_def)
  then show ?thesis
    using n i(2) aggregation_execute_loop [OF c l, of order C e2 "groups rows" w2 "fresh_row cfg"]
    by (auto simp: Execute_def)
qed

end

subsection \<open>Whole queries\<close>

text \<open>The operators from the state after their construction, run to the end.\<close>

context distinct_rows
begin

lemma Distinct_Execute:
  assumes "V c" "I w" "suffix (remaining c) rows" "length rows < n"
  shows "\<exists>w'. Execute n cfg (Distinct fuel F C schema) (DistinctExecutor [] c) w = Inr (map fst (firsts key [] rows), w') \<and> I w'"
proof (rule dist.Execute_rows [OF _ assms(2)])
  have "table_ok []" using keys by (auto simp: table_ok_def um_ok_def keys_ok_def)
  then show "distinct_valid (DistinctExecutor [] c)" using assms by (simp add: distinct_valid_def)
  show "length (firsts key [] rows) < n" using list_emb_length [OF firsts_subseq [of key "[]" rows]] assms(4) by simp
qed

end

context nested_loop
begin

lemma length_join_rows: "length (join_rows cfg F plan predicate ls rs) \<le> length ls * length rs"
proof (induction ls)
  case (Cons l ls)
  have "length (filter (join_match F plan predicate l) rs) \<le> length rs" by simp
  from add_mono [OF this Cons] show ?case by simp
qed simp

lemma NestedLoopJoin_Execute:
  assumes "VL l" "VR r" "I w"
  shows "\<exists>w'. Execute fuel cfg (NestedLoopJoin fuel cfg F L R plan predicate) (NestedLoopJoinExecutor l r lrow False) w =
    Inr (map fst (join_rows cfg F plan predicate rowsL rowsR), w') \<and> I w'"
proof (rule join.Execute_rows [OF _ assms(3)])
  show "nlj_valid (NestedLoopJoinExecutor l r lrow False)" using assms by simp
  show "length (join_rows cfg F plan predicate rowsL rowsR) < fuel"
    using length_join_rows [of rowsL rowsR] enough by simp
qed

end

context hash_join
begin

lemma length_hash_join_rows: "length (hj_rows rs) \<le> length rowsL * length rs"
proof (induction rs)
  case (Cons r rs)
  have "length (filter (\<lambda>l. lk l = rk r) rowsL) \<le> length rowsL" by simp
  from add_mono [OF this Cons] show ?case by simp
qed simp

lemma HashJoin_Execute:
  assumes "VL l" "VR r" "I w" "length rowsL * length rowsR < n"
  shows "\<exists>st w1 w2. HashJoin_new fuel cfg F L R plan left_key l r w = Inr (st, w1) \<and>
    Execute n cfg (HashJoin fuel cfg F L R plan right_key) st w1 = Inr (map fst (hj_rows rowsR), w2) \<and> I w2"
proof -
  obtain l' r' w1 where 1: "HashJoin_new fuel cfg F L R plan left_key l r w = Inr (HashJoinExecutor l' r' 0 (map entry rowsL) [], w1)"
    "VL l'" "VR r'" "I w1" "remR r' = rowsR" using HashJoin_new_table [OF assms(1-3)] by blast
  have "hj_valid (HashJoinExecutor l' r' 0 (map entry rowsL) [])" using 1 by (simp add: hj_valid_def)
  moreover have "length (hj_rows rowsR) < n" using length_hash_join_rows [of rowsR] assms(4) by simp
  ultimately show ?thesis using hj.Execute_rows [OF _ 1(4), of _ n cfg] 1(1) by blast
qed

end

end
