(* ===== verification/TableExecutorsSpec.thy ===== *)
theory TableExecutorsSpec
  imports TableExecutors TableScan ExecutorsSpec
begin

section \<open>What the executors on tables do\<close>

text \<open>
  A sequential scan keeps the contract \<open>producer\<close> in every pool of the kind of \<open>page_pool\<close> with room for two
  pages: its rows are the tuples that are not marked as deleted, in the order of the pages and slots, selected by
  the predicate and projected to the output columns. The operators above it are then composed from the contracts.
\<close>

subsection \<open>Sequential scan\<close>

definition scan_match :: "double_ops \<Rightarrow> seq_scan \<Rightarrow> tuple \<Rightarrow> bool" where
  "scan_match F sc t = (case Evaluate F (scan_filter sc) t (schema_of (scan_info sc)) of
     Inr v \<Rightarrow> GetAs_bool v | Inl _ \<Rightarrow> False)"

definition scan_out :: "config \<Rightarrow> double_ops \<Rightarrow> seq_scan \<Rightarrow> tuple \<Rightarrow> tuple result" where
  "scan_out cfg F sc t =
     andThen (traverse (Tuple_GetValue F t (schema_of (scan_info sc))) (out_schema_idx sc)) (\<lambda>vs.
     Tuple_new cfg vs (scan_schema (scan_plan sc)))"

definition scan_row :: "config \<Rightarrow> double_ops \<Rightarrow> seq_scan \<Rightarrow> tuple \<Rightarrow> row" where
  "scan_row cfg F sc t = (case scan_out cfg F sc t of Inr t' \<Rightarrow> (t', rid_of t) | Inl _ \<Rightarrow> fresh_row cfg)"

definition scan_rows :: "config \<Rightarrow> double_ops \<Rightarrow> seq_scan \<Rightarrow> tuple list \<Rightarrow> row list" where
  "scan_rows cfg F sc ts = map (scan_row cfg F sc) (filter (scan_match F sc) ts)"

text \<open>The predicate has a value on every tuple, and the output of every tuple it selects can be built.\<close>

definition scan_computes :: "config \<Rightarrow> double_ops \<Rightarrow> seq_scan \<Rightarrow> tuple list \<Rightarrow> bool" where
  "scan_computes cfg F sc ts \<longleftrightarrow> (\<forall>t\<in>set ts.
     (\<exists>v. Evaluate F (scan_filter sc) t (schema_of (scan_info sc)) = Inr v) \<and>
     (scan_match F sc t \<longrightarrow> (\<exists>t'. scan_out cfg F sc t = Inr t')))"

lemma scan_rows_simps [simp]:
  "scan_rows cfg F sc [] = []"
  "scan_rows cfg F sc (t # ts) = (if scan_match F sc t then [scan_row cfg F sc t] else []) @ scan_rows cfg F sc ts"
  by (simp_all add: scan_rows_def)

text \<open>What a call of \<open>Next\<close> finds in the tuples \<open>xs\<close> before it, of which \<open>ys\<close> remain.\<close>

definition scan_found ::
    "config \<Rightarrow> double_ops \<Rightarrow> seq_scan \<Rightarrow> bool \<Rightarrow> row \<Rightarrow> tuple list \<Rightarrow> tuple list \<Rightarrow> bool" where
  "scan_found cfg F sc b row xs ys \<longleftrightarrow>
     (if b then \<exists>pre t. xs = pre @ t # ys \<and> (\<forall>x\<in>set pre. \<not> scan_match F sc x) \<and> scan_match F sc t \<and> row = scan_row cfg F sc t
      else (\<forall>x\<in>set xs. \<not> scan_match F sc x) \<and> ys = [])"

lemma scan_found_delivers:
  assumes "scan_found cfg F sc b row xs ys"
  shows "delivers b row (scan_rows cfg F sc xs) (scan_rows cfg F sc ys)"
proof -
  have none: "scan_rows cfg F sc zs = []" if "\<forall>x\<in>set zs. \<not> scan_match F sc x" for zs
    using that by (induction zs) auto
  have "scan_rows cfg F sc (pre @ zs) = scan_rows cfg F sc zs" if "\<forall>x\<in>set pre. \<not> scan_match F sc x" for pre zs
    using that by (induction pre) auto
  then show ?thesis using assms none by (auto simp: scan_found_def delivers_def split: if_splits)
qed

lemma scan_found_skip: "\<not> scan_match F sc x \<Longrightarrow> scan_found cfg F sc b row xs ys \<Longrightarrow> scan_found cfg F sc b row (x # xs) ys"
  by (auto simp: scan_found_def split: if_splits)

text \<open>The tuples from the position of an iterator on.\<close>

definition tuples_from :: "tuple list \<Rightarrow> tuple \<Rightarrow> tuple list" where
  "tuples_from ts cur = dropWhile (\<lambda>t. rid_of t \<noteq> rid_of cur) ts"

lemma tuples_from_end: "rid_of cur \<notin> rid_of ` set ts \<Longrightarrow> tuples_from ts cur = []"
  unfolding tuples_from_def dropWhile_eq_Nil_conv by (metis imageI)

lemma tuples_from_split:
  assumes "ts = xs @ t # ys" "distinct (map rid_of ts)"
  shows "tuples_from ts t = t # ys"
proof -
  have "rid_of x \<noteq> rid_of t" if "x \<in> set xs" for x 
  proof -
    have "rid_of x \<in> rid_of ` set xs" "rid_of t \<notin> rid_of ` set xs" using assms that by auto
    then show ?thesis by metis
  qed
  then show ?thesis by (simp add: assms(1) tuples_from_def dropWhile_append2)
qed

lemma stored_tuple_rid [simp]: "rid_of (stored_tuple m r) = r"
  by (simp add: stored_tuple_def Let_def)

text \<open>A table with its pages and the tuples a scan finds.\<close>

type_synonym table_content = "table_heap \<times> page_id_t list \<times> tuple list"

context page_pool
begin

text \<open>A database at rest: its tables have the contents \<open>db\<close>, and nobody holds a page.\<close>

definition holds_table :: "config \<Rightarrow> 'a \<Rightarrow> table_content \<Rightarrow> bool" where
  "holds_table cfg s = (\<lambda>(th, ps, ts). heap_ok cfg (content s) (alloc s) th ps \<and>
     map (stored_tuple (content s)) (live_rids (content s) ps) = ts)"

definition db_state :: "config \<Rightarrow> table_content list \<Rightarrow> transaction \<Rightarrow> 'a \<times> transaction \<Rightarrow> bool" where
  "db_state cfg db txn w \<longleftrightarrow> ok (fst w) \<and> held (fst w) = (\<lambda>_. 0) \<and> 2 \<le> cap (fst w) \<and> snd w = txn \<and>
     list_all (holds_table cfg (fst w)) db"

lemma holds_tableD:
  assumes "holds_table cfg s (th, ps, ts)"
  shows "heap_ok cfg (content s) (alloc s) th ps" "live_rids (content s) ps = map rid_of ts"
    "t \<in> set ts \<Longrightarrow> stored_tuple (content s) (rid_of t) = t" "distinct (map rid_of ts)"
    "RID_default cfg \<notin> rid_of ` set ts"
proof -
  show h: "heap_ok cfg (content s) (alloc s) th ps" using assms by (simp add: holds_table_def)
  have ts: "map (stored_tuple (content s)) (live_rids (content s) ps) = ts" using assms by (simp add: holds_table_def)
  show rids: "live_rids (content s) ps = map rid_of ts" using ts by (auto simp: comp_def intro!: map_idI [symmetric])
  show "stored_tuple (content s) (rid_of t) = t" if "t \<in> set ts" using that ts by auto
  show "distinct (map rid_of ts)"
    using live_rids_distinct [OF heap_okD(3) [OF h] heap_pages(1) [OF h]] rids by metis
  have "RID_default cfg \<notin> set (live_rids (content s) ps)"
  proof
    assume "RID_default cfg \<in> set (live_rids (content s) ps)"
    then obtain p where "p \<in> set ps" "page_id_of (RID_default cfg) = p" using heap_rid [OF h] by metis
    then show False using heap_pages(4) [OF h] by (auto simp: RID_default_def)
  qed
  then show "RID_default cfg \<notin> rid_of ` set ts" using rids by (metis list.set_map)
qed

lemma holds_table_kept:
  assumes "holds_table cfg s t" "kept s s'"
  shows "holds_table cfg s' t"
proof -
  obtain th ps ts where t: "t = (th, ps, ts)" by (cases t)
  have h: "heap_ok cfg (content s) (alloc s) th ps" using assms(1) t by (simp add: holds_table_def)
  have le: "content s \<subseteq>\<^sub>m content s'" using assms(2) by (simp add: kept_def)
  note ch = heap_okD(1) [OF h]
  have "stored_tuple (content s') r = stored_tuple (content s) r" if "r \<in> set (live_rids (content s) ps)" for r
    by (rule live_rids_mono(2) [OF ch le that])
  then have "map (stored_tuple (content s')) (live_rids (content s') ps) = map (stored_tuple (content s)) (live_rids (content s) ps)"
    using live_rids_mono(1) [OF ch le] by (metis map_cong)
  then show ?thesis using assms(1) kept_heap [OF assms(2) h] t by (simp add: holds_table_def)
qed

lemma db_state_kept: "db_state cfg db txn (s, txn) \<Longrightarrow> kept s s' \<Longrightarrow> held s' = (\<lambda>_. 0) \<Longrightarrow> db_state cfg db txn (s', txn)"
  using holds_table_kept by (auto simp: db_state_def kept_def list_all_iff)

lemma db_stateD:
  assumes "db_state cfg db txn w" "t \<in> set db"
  shows "\<exists>s. w = (s, txn) \<and> ok s \<and> held s = (\<lambda>_. 0) \<and> 2 \<le> cap s \<and> holds_table cfg s t"
  using assms by (cases w) (auto simp: db_state_def list_all_iff)

end

locale table_scan = page_pool +
  fixes cfg :: config and F :: double_ops and db :: "table_content list" and txn :: transaction
    and sc :: seq_scan and ps :: "page_id_t list" and ts :: "tuple list" and fuel :: nat
begin

abbreviation ops where
  "ops \<equiv> ops_of new_page fetch unpin get put"

text \<open>A position in a table of the database that can be scanned.\<close>

definition position :: "tuple \<Rightarrow> bool" where
  "position cur \<longleftrightarrow> (cur \<in> set ts \<or> rid_of cur = RID_default cfg) \<and> (table_of (scan_info sc), ps, ts) \<in> set db \<and>
     scan_computes cfg F sc ts \<and> length ps < fuel \<and> length ts < fuel"

lemma positionD:
  assumes "position cur"
  shows "(table_of (scan_info sc), ps, ts) \<in> set db" "scan_computes cfg F sc ts" "length ps < fuel" "length ts < fuel"
  using assms by (auto simp: position_def)

text \<open>An iterator at the head of the tuples that remain.\<close>

lemma iter_at_position:
  assumes "position e" "db_state cfg db txn (s, txn)" "iter_at cfg (content s) (map rid_of ys) cur" "suffix ys ts"
  shows "position cur \<and> tuples_from ts cur = ys"
proof -
  have h: "holds_table cfg s (table_of (scan_info sc), ps, ts)"
    using assms(2) positionD(1) [OF assms(1)] by (auto simp: db_state_def list_all_iff)
  note D = holds_tableD(4,5,3) [OF h]
  have pos: "position cur" if "cur \<in> set ts \<or> rid_of cur = RID_default cfg"
    using that assms(1) by (simp add: position_def)
  show ?thesis
  proof (cases ys)
    case Nil
    then have "rid_of cur = RID_default cfg" using assms(3) by (simp add: iter_at_def)
    then show ?thesis using Nil D(2) tuples_from_end [of cur ts] pos by simp
  next
    case (Cons y zs)
    obtain xs where split: "ts = xs @ y # zs" using assms(4) Cons by (auto simp: suffix_def)
    have y: "y \<in> set ts" using split by simp
    have "cur = y" using assms(3) Cons D(3) [OF y] by (simp add: iter_at_def)
    then show ?thesis using tuples_from_split [OF split D(1)] Cons y pos by simp
  qed
qed

lemma SeqScan_Init_all:
  assumes "position e" "db_state cfg db txn w"
  shows "\<exists>cur w'. SeqScan_Init fuel ops cfg sc e w = Inr (cur, w') \<and> position cur \<and> db_state cfg db txn w' \<and>
    tuples_from ts cur = ts \<and> content (fst w) \<subseteq>\<^sub>m content (fst w')"
proof -
  obtain s where s: "w = (s, txn)" "ok s" "held s = (\<lambda>_. 0)" "holds_table cfg s (table_of (scan_info sc), ps, ts)"
    using db_stateD [OF assms(2) positionD(1) [OF assms(1)]] by blast
  note h = holds_tableD(1,2) [OF s(4)]
  from Begin_first [OF s(2,3) h(1) positionD(3) [OF assms(1)], of txn] obtain cur s' where
    1: "TableHeap_Begin fuel ops cfg (table_of (scan_info sc)) s txn = Some (cur, txn, s')"
      "iter_at cfg (content s) (live_rids (content s) ps) cur" "kept s s'" "held s' = (\<lambda>_. 0)" by blast
  have "position cur \<and> tuples_from ts cur = ts"
    by (rule iter_at_position [OF assms(1), of s]) (use assms(2) s(1) h(2) 1(2) in auto)
  moreover have "content s \<subseteq>\<^sub>m content s'" using 1(3) by (simp add: kept_def)
  ultimately show ?thesis
    using 1 s(1) db_state_kept [of cfg db txn s s'] assms(2) by (simp add: SeqScan_Init_def heap_call_def)
qed

lemma SeqScan_loop_finds:
  assumes "position cur" "db_state cfg db txn w" "length (tuples_from ts cur) < n"
  shows "\<exists>b row' cur' w'. SeqScan_loop n fuel ops cfg F sc cur w row = Inr (b, row', cur', w') \<and> position cur' \<and>
    db_state cfg db txn w' \<and> scan_found cfg F sc b row' (tuples_from ts cur) (tuples_from ts cur') \<and>
    content (fst w) \<subseteq>\<^sub>m content (fst w')"
  using assms
proof (induction n arbitrary: cur w)
  case (Suc n)
  note P = positionD [OF Suc.prems(1)]
  obtain s where s: "w = (s, txn)" "ok s" "held s = (\<lambda>_. 0)" "2 \<le> cap s"
    "holds_table cfg s (table_of (scan_info sc), ps, ts)"
    using db_stateD [OF Suc.prems(2) P(1)] by blast
  note h = holds_tableD [OF s(5)]
  have at_end: "iter_eq c (TableHeap_End cfg) \<longleftrightarrow> rid_of c = RID_default cfg" for c
    by (simp add: iter_eq_rid TableHeap_End_def RID_default_def)
  show ?case
  proof (cases "rid_of cur = RID_default cfg")
    case True
    then show ?thesis using Suc.prems at_end tuples_from_end [of cur ts] h(5) by (auto simp: scan_found_def)
  next
    case False
    then have "cur \<in> set ts" using Suc.prems(1) by (simp add: position_def)
    then obtain xs ys where split: "ts = xs @ cur # ys" by (meson split_list)
    note from_cur = tuples_from_split [OF split h(4)]
    from next_step [OF s(2,3) h(1) P(3) s(4), of "map rid_of xs" "rid_of cur" "map rid_of ys" cur txn] h(2) split
    obtain nxt s' where 1: "TableIterator_next fuel ops cfg s txn cur = Some (nxt, txn, s')"
      "iter_at cfg (content s) (map rid_of ys) nxt" "kept s s'" "held s' = (\<lambda>_. 0)" by auto
    have pos: "position nxt \<and> tuples_from ts nxt = ys"
      by (rule iter_at_position [OF Suc.prems(1), of s]) (use Suc.prems(2) s(1) 1(2) split in \<open>auto simp: suffix_def\<close>)
    have w': "db_state cfg db txn (s', txn)" using db_state_kept [OF _ 1(3,4)] Suc.prems(2) s(1) by blast
    have le: "content s \<subseteq>\<^sub>m content s'" using 1(3) by (simp add: kept_def)
    obtain v where v: "Evaluate F (scan_filter sc) cur (schema_of (scan_info sc)) = Inr v"
      using P(2) \<open>cur \<in> set ts\<close> by (auto simp: scan_computes_def)
    have m: "scan_match F sc cur = GetAs_bool v" using v by (simp add: scan_match_def)
    have step: "SeqScan_loop (Suc n) fuel ops cfg F sc cur w row =
      (if GetAs_bool v then andThen (scan_out cfg F sc cur) (\<lambda>t. Inr (True, (t, rid_of cur), nxt, (s', txn)))
       else SeqScan_loop n fuel ops cfg F sc nxt (s', txn) row)"
      using False s(1) 1(1) v at_end
      by (simp add: heap_call_def TableIterator_deref_def scan_out_def andThen_assoc)
    show ?thesis
    proof (cases "GetAs_bool v")
      case True
      then obtain t' where t': "scan_out cfg F sc cur = Inr t'"
        using P(2) \<open>cur \<in> set ts\<close> m by (auto simp: scan_computes_def)
      then have "scan_found cfg F sc True (t', rid_of cur) (tuples_from ts cur) (tuples_from ts nxt)"
        using True m pos from_cur by (auto simp: scan_found_def scan_row_def)
      then show ?thesis using step True pos w' t' le s(1) by auto
    next
      case False
      have "length (tuples_from ts nxt) < n" using pos from_cur Suc.prems(3) by simp
      from Suc.IH [OF pos [THEN conjunct1] w' this] obtain b row' cur' w'' where
        2: "SeqScan_loop n fuel ops cfg F sc nxt (s', txn) row = Inr (b, row', cur', w'')" "position cur'" "db_state cfg db txn w''"
          "scan_found cfg F sc b row' (tuples_from ts nxt) (tuples_from ts cur')" "content s' \<subseteq>\<^sub>m content (fst w'')" by auto
      moreover have "scan_found cfg F sc b row' (tuples_from ts cur) (tuples_from ts cur')"
        using scan_found_skip [of F sc cur] 2(4) m False pos from_cur by auto
      ultimately show ?thesis using step False map_le_trans [OF le 2(5)] s(1) by auto
    qed
  qed
qed simp

end

sublocale table_scan \<subseteq> scan: producer "SeqScan fuel ops cfg F sc" "db_state cfg db txn" position
  "\<lambda>cur. scan_rows cfg F sc (tuples_from ts cur)" "scan_rows cfg F sc ts"
proof (unfold_locales, unfold SeqScan_def executor.select_convs)
  fix e w r
  assume a: "position e" "db_state cfg db txn w"
  have "length (tuples_from ts e) < fuel"
    using positionD(4) [OF a(1)] length_dropWhile_le [of _ ts] by (auto simp: tuples_from_def intro: le_less_trans)
  from SeqScan_loop_finds [OF a this] scan_found_delivers
  show "\<exists>b r' e' w'. SeqScan_loop fuel fuel ops cfg F sc e w r = Inr (b, r', e', w') \<and> position e' \<and>
    db_state cfg db txn w' \<and>
    delivers b r' (scan_rows cfg F sc (tuples_from ts e)) (scan_rows cfg F sc (tuples_from ts e'))" by metis
next
  fix e w
  assume "position e" "db_state cfg db txn w"
  from SeqScan_Init_all [OF this]
  show "\<exists>e' w'. SeqScan_Init fuel ops cfg sc e w = Inr (e', w') \<and> position e' \<and> db_state cfg db txn w' \<and>
    scan_rows cfg F sc (tuples_from ts e') = scan_rows cfg F sc ts" by metis
qed

subsection \<open>Queries on the pool instance\<close>

interpretation bts: table_scan "NewPgImp cfg" "FetchPgImp cfg" "UnpinPgImp cfg" "FlushPgImp cfg"
  read_frame write_frame "PAGE_SIZE cfg" "pool_ok cfg" "heap_room cfg" allocated "view cfg" pins
  page_table "saved cfg" pool_size "INVALID_PAGE_ID cfg" cfg F db txn sc ps ts fuel for cfg F db txn sc ps ts fuel
  by unfold_locales

text \<open>The state of the pool instance, written out.\<close>

definition database :: "config \<Rightarrow> table_content list \<Rightarrow> transaction \<Rightarrow> bpm world \<Rightarrow> bool" where
  "database cfg db txn w \<longleftrightarrow> pool_ok cfg (fst w) \<and> pins (fst w) = (\<lambda>_. 0) \<and> 2 \<le> pool_size (fst w) \<and> snd w = txn \<and>
     list_all (\<lambda>(th, ps, ts). heap_ok cfg (view cfg (fst w)) (allocated (fst w)) th ps \<and>
       map (stored_tuple (view cfg (fst w))) (live_rids (view cfg (fst w)) ps) = ts) db"

definition scannable ::
    "config \<Rightarrow> double_ops \<Rightarrow> table_content list \<Rightarrow> seq_scan \<Rightarrow> page_id_t list \<Rightarrow> tuple list \<Rightarrow> nat \<Rightarrow> bool" where
  "scannable cfg F db sc ps ts fuel \<longleftrightarrow> (table_of (scan_info sc), ps, ts) \<in> set db \<and> scan_computes cfg F sc ts \<and>
     length ps < fuel \<and> length ts < fuel"

abbreviation bpm_scan :: "nat \<Rightarrow> config \<Rightarrow> double_ops \<Rightarrow> seq_scan \<Rightarrow> (tuple, bpm world) executor" where
  "bpm_scan fuel cfg F sc \<equiv> SeqScan fuel (bpm_ops cfg) cfg F sc"

definition scan_valid ::
    "config \<Rightarrow> double_ops \<Rightarrow> table_content list \<Rightarrow> seq_scan \<Rightarrow> page_id_t list \<Rightarrow> tuple list \<Rightarrow> nat \<Rightarrow> tuple \<Rightarrow> bool" where
  "scan_valid cfg F db sc ps ts fuel cur \<longleftrightarrow> (cur \<in> set ts \<or> rid_of cur = RID_default cfg) \<and> scannable cfg F db sc ps ts fuel"

lemma bpm_state: "bph.db_state cfg cfg db txn = database cfg db txn"
  by (simp add: fun_eq_iff bph.db_state_def bph.holds_table_def database_def)

lemma bpm_position: "bts.position cfg F db sc ps ts fuel = scan_valid cfg F db sc ps ts fuel"
  by (simp add: fun_eq_iff bts.position_def scan_valid_def scannable_def)

lemma bpm_scan_producer:
  "producer (bpm_scan fuel cfg F sc) (database cfg db txn) (scan_valid cfg F db sc ps ts fuel)
    (\<lambda>cur. scan_rows cfg F sc (tuples_from ts cur)) (scan_rows cfg F sc ts)"
  using bts.scan.producer_axioms [of fuel cfg F sc db txn ps ts] unfolding bpm_state bpm_position by simp

text \<open>A call of the scan, and its start.\<close>

lemma bpm_scan_finds:
  assumes "scan_valid cfg F db sc ps ts fuel cur" "database cfg db txn w"
  shows "\<exists>b row' cur' w'. SeqScan_loop fuel fuel (bpm_ops cfg) cfg F sc cur w row = Inr (b, row', cur', w') \<and>
    scan_valid cfg F db sc ps ts fuel cur' \<and> database cfg db txn w' \<and>
    scan_found cfg F sc b row' (tuples_from ts cur) (tuples_from ts cur') \<and> view cfg (fst w) \<subseteq>\<^sub>m view cfg (fst w')"
proof -
  have "length (tuples_from ts cur) < fuel"
    using assms(1) length_dropWhile_le [of _ ts] by (auto simp: tuples_from_def scan_valid_def scannable_def intro: le_less_trans)
  then show ?thesis
    using bts.SeqScan_loop_finds [of cfg F db sc ps ts fuel cur txn w fuel row] assms by (simp add: bpm_state bpm_position)
qed

lemma bpm_scan_starts:
  assumes "scan_valid cfg F db sc ps ts fuel cur" "database cfg db txn w"
  shows "\<exists>cur' w'. SeqScan_Init fuel (bpm_ops cfg) cfg sc cur w = Inr (cur', w') \<and>
    scan_valid cfg F db sc ps ts fuel cur' \<and> database cfg db txn w' \<and> tuples_from ts cur' = ts \<and>
    view cfg (fst w) \<subseteq>\<^sub>m view cfg (fst w')"
  using bts.SeqScan_Init_all [of cfg F db sc ps ts fuel cur txn w] assms by (simp add: bpm_state bpm_position)

text \<open>The operators over scans. What an operator needs of the rows of its children is a condition \<open>b\<close> on its valid
  states: \<open>guarded\<close>.\<close>

context producer
begin

lemma guarded: "producer C I (\<lambda>e. b \<and> V e) remaining (if b then rows else [])"
  by unfold_locales (use Init_all Next_delivers in auto)

end

interpretation limit_scan: limited "bpm_scan fuel cfg F sc" "database cfg db txn" "scan_valid cfg F db sc ps ts fuel"
  "\<lambda>cur. scan_rows cfg F sc (tuples_from ts cur)" "scan_rows cfg F sc ts" lim
  for fuel cfg F sc db txn ps ts lim
  by (rule limited.intro) (rule bpm_scan_producer)

definition distinct_ready :: "double_ops \<Rightarrow> Schema \<Rightarrow> row list \<Rightarrow> nat \<Rightarrow> bool" where
  "distinct_ready F schema xs fuel \<longleftrightarrow> keys_ok F schema xs \<and> length xs < fuel"

interpretation distinct_scan: distinct_rows "bpm_scan n cfg F sc" "database cfg db txn"
  "\<lambda>e. distinct_ready F schema (scan_rows cfg F sc ts) (Suc fuel) \<and> scan_valid cfg F db sc ps ts n e"
  "\<lambda>cur. scan_rows cfg F sc (tuples_from ts cur)"
  "if distinct_ready F schema (scan_rows cfg F sc ts) (Suc fuel) then scan_rows cfg F sc ts else []" F schema "Suc fuel"
  for n cfg F sc db txn ps ts schema fuel
proof (intro distinct_rows.intro producer.guarded [OF bpm_scan_producer] distinct_rows_axioms.intro)
  let ?rows = "if distinct_ready F schema (scan_rows cfg F sc ts) (Suc fuel) then scan_rows cfg F sc ts else []"
  show "keys_ok F schema ?rows" by (auto simp: distinct_ready_def keys_ok_def)
  show "length ?rows < Suc fuel" by (auto simp: distinct_ready_def)
qed

definition join_ready ::
    "config \<Rightarrow> double_ops \<Rightarrow> join_plan \<Rightarrow> Expression \<Rightarrow> row list \<Rightarrow> row list \<Rightarrow> nat \<Rightarrow> bool" where
  "join_ready cfg F plan p ls rs fuel \<longleftrightarrow> join_computes cfg F plan p ls rs \<and> Suc (length ls) * Suc (length rs) \<le> fuel"

interpretation join_scans: nested_loop "bpm_scan n cfg F scL" "database cfg db txn"
  "\<lambda>e. join_ready cfg F plan p (scan_rows cfg F scL tsL) (scan_rows cfg F scR tsR) (Suc fuel) \<and> scan_valid cfg F db scL psL tsL n e"
  "\<lambda>cur. scan_rows cfg F scL (tuples_from tsL cur)"
  "if join_ready cfg F plan p (scan_rows cfg F scL tsL) (scan_rows cfg F scR tsR) (Suc fuel) then scan_rows cfg F scL tsL else []"
  "bpm_scan n cfg F scR"
  "\<lambda>e. join_ready cfg F plan p (scan_rows cfg F scL tsL) (scan_rows cfg F scR tsR) (Suc fuel) \<and> scan_valid cfg F db scR psR tsR n e"
  "\<lambda>cur. scan_rows cfg F scR (tuples_from tsR cur)"
  "if join_ready cfg F plan p (scan_rows cfg F scL tsL) (scan_rows cfg F scR tsR) (Suc fuel) then scan_rows cfg F scR tsR else []"
  cfg F plan p "Suc fuel"
  for n cfg F scL scR db txn psL tsL psR tsR plan p fuel
  by (intro nested_loop.intro producer.guarded [OF bpm_scan_producer] nested_loop_axioms.intro)
    (auto simp: join_ready_def join_computes_def)

definition hash_join_ready ::
    "config \<Rightarrow> double_ops \<Rightarrow> join_plan \<Rightarrow> Expression \<Rightarrow> Expression \<Rightarrow> row list \<Rightarrow> row list \<Rightarrow> nat \<Rightarrow> bool" where
  "hash_join_ready cfg F plan lk rk ls rs fuel \<longleftrightarrow> hash_join_ok cfg F plan lk rk ls rs \<and> length ls < fuel \<and> length rs < fuel"

interpretation hash_join_scans: hash_join "bpm_scan n cfg F scL" "database cfg db txn"
  "\<lambda>e. hash_join_ready cfg F plan lk rk (scan_rows cfg F scL tsL) (scan_rows cfg F scR tsR) (Suc fuel) \<and> scan_valid cfg F db scL psL tsL n e"
  "\<lambda>cur. scan_rows cfg F scL (tuples_from tsL cur)"
  "if hash_join_ready cfg F plan lk rk (scan_rows cfg F scL tsL) (scan_rows cfg F scR tsR) (Suc fuel) then scan_rows cfg F scL tsL else []"
  "bpm_scan n cfg F scR"
  "\<lambda>e. hash_join_ready cfg F plan lk rk (scan_rows cfg F scL tsL) (scan_rows cfg F scR tsR) (Suc fuel) \<and> scan_valid cfg F db scR psR tsR n e"
  "\<lambda>cur. scan_rows cfg F scR (tuples_from tsR cur)"
  "if hash_join_ready cfg F plan lk rk (scan_rows cfg F scL tsL) (scan_rows cfg F scR tsR) (Suc fuel) then scan_rows cfg F scR tsR else []"
  cfg F plan lk rk "Suc fuel"
  for n cfg F scL scR db txn psL tsL psR tsR plan lk rk fuel
  by (intro hash_join.intro producer.guarded [OF bpm_scan_producer] hash_join_axioms.intro)
    (auto simp: hash_join_ready_def hash_join_ok_def hashable_def)

definition initial_values :: "aggregation_plan \<Rightarrow> Value list" where
  "initial_values plan = projr (GenerateInitialAggregateValue (agg_types plan))"

lemma initial_values_ok: "GenerateInitialAggregateValue (agg_types plan) = Inr (initial_values plan)"
proof -
  have "\<forall>t. \<exists>v. initial_value t = Inr v"
    by (intro allI, case_tac t) (simp_all add: GetIntegerValue_def Value_int32_def)
  then obtain f where f: "\<And>t. initial_value t = Inr (f t)" by metis
  have "traverse initial_value ts = Inr (map f ts)" for ts by (induction ts) (simp_all add: f)
  then show ?thesis by (simp add: initial_values_def GenerateInitialAggregateValue_def)
qed

definition groups_ready :: "double_ops \<Rightarrow> aggregation_plan \<Rightarrow> Schema \<Rightarrow> row list \<Rightarrow> nat \<Rightarrow> bool" where
  "groups_ready F plan schema xs fuel \<longleftrightarrow> groups_ok F plan schema (initial_values plan) xs \<and> length xs < fuel"

interpretation aggregate_scan: aggregation_rows "bpm_scan n cfg F sc" "database cfg db txn"
  "\<lambda>e. groups_ready F plan schema (scan_rows cfg F sc ts) (Suc fuel) \<and> scan_valid cfg F db sc ps ts n e"
  "\<lambda>cur. scan_rows cfg F sc (tuples_from ts cur)"
  "if groups_ready F plan schema (scan_rows cfg F sc ts) (Suc fuel) then scan_rows cfg F sc ts else []"
  cfg F plan schema "initial_values plan" "Suc fuel"
  for n cfg F sc db txn ps ts plan schema fuel
  by (intro aggregation_rows.intro producer.guarded [OF bpm_scan_producer] aggregation_rows_axioms.intro initial_values_ok)
    (auto simp: groups_ready_def groups_ok_def)

end
