(* ===== verification/ExampleDatabase.thy ===== *)
theory ExampleDatabase
  imports TableExecutorsSpec
begin

section \<open>A small database\<close>

text \<open>
  Three tuples of two integer columns in a pool of two frames of 64 bytes: the table has two pages. The database is
  built by the operations of the model and is where the properties of queries and changes are applied.
\<close>

definition int_column :: "string \<Rightarrow> Column" where
  "int_column name = \<lparr>column_name = name, column_type = INTEGER, fixed_length = 4, variable_length = 0, column_offset = 0,
     column_expr = None\<rparr>"

definition ab_schema :: Schema where
  "ab_schema = Schema_new [int_column ''a'', int_column ''b'']"

definition ab_tuple :: "8 word \<Rightarrow> 8 word \<Rightarrow> rid \<Rightarrow> tuple" where
  "ab_tuple a b r = \<lparr>size_of = 8, data_of = [a, 0, 0, 0, b, 0, 0, 0], rid_of = r\<rparr>"

definition ab_tuples :: "tuple list" where
  "ab_tuples = [ab_tuple 1 10 \<lparr>page_id_of = 0, slot_num_of = 0\<rparr>, ab_tuple 2 20 \<lparr>page_id_of = 0, slot_num_of = 1\<rparr>,
     ab_tuple 1 30 \<lparr>page_id_of = 1, slot_num_of = 0\<rparr>]"

definition ab_heap :: table_heap where
  "ab_heap = \<lparr>first_page_id = 0, this_heap = 7\<rparr>"

definition ab_info :: TableInfo where
  "ab_info = \<lparr>schema_of = ab_schema, table_name_of = ''t'', table_of = ab_heap, oid_of = 0\<rparr>"

definition ab_txn :: transaction where
  "ab_txn = Transaction page_cfg 0 REPEATABLE_READ"

fun fill :: "table_heap \<Rightarrow> tuple list \<Rightarrow> bpm \<Rightarrow> bpm option" where
  "fill th [] s = Some s"
| "fill th (t # ts) s = (case TableHeap_InsertTuple 8 (bpm_ops page_cfg) page_cfg th s ab_txn t of
     Some (Some _, _, s') \<Rightarrow> if next_page_id s' < 16 \<and> num_instances s' = 1 then fill th ts s' else None
   | _ \<Rightarrow> None)"

lemma fill_ok:
  assumes "fill th ts s = Some s'" "pool_ok page_cfg s" "pins s = (\<lambda>_. 0)" "2 \<le> pool_size s" "heap_room page_cfg s"
    "heap_ok page_cfg (view page_cfg s) (allocated s) th ps" "length ps + length ts \<le> 8"
    "\<forall>t\<in>set ts. 0 < size_of t \<and> unat (size_of t) = length (data_of t) \<and> length (data_of t) + 32 \<le> 64"
  shows "pool_ok page_cfg s' \<and> pins s' = (\<lambda>_. 0) \<and> 2 \<le> pool_size s' \<and> heap_room page_cfg s' \<and>
    (\<exists>ps'. heap_ok page_cfg (view page_cfg s') (allocated s') th ps')"
  using assms
proof (induction ts arbitrary: s ps)
  case (Cons t ts)
  have c: "length ps < 8" "PAGE_SIZE page_cfg < 2 ^ 31" "0 < size_of t" "unat (size_of t) = length (data_of t)"
    "length (data_of t) + 32 \<le> PAGE_SIZE page_cfg" using Cons.prems(7,8) by (simp_all add: page_cfg_def)
  from bph.InsertTuple_heap [OF Cons.prems(2,3,6,4,5) c(1) refl c(2) refl c(3-5), of ab_txn]
  obtain rid txn s1 ps1 where 1: "TableHeap_InsertTuple 8 (bpm_ops page_cfg) page_cfg th s ab_txn t = Some (Some rid, txn, s1)"
    "pool_ok page_cfg s1" "pins s1 = (\<lambda>_. 0)" "pool_size s1 = pool_size s"
    "heap_ok page_cfg (view page_cfg s1) (allocated s1) th ps1" "length ps1 \<le> Suc (length ps)" by fastforce
  then have "next_page_id s1 < 16" "num_instances s1 = 1" "fill th ts s1 = Some s'"
    using Cons.prems(1) by (auto split: if_splits)
  then show ?case
    using Cons.IH [of s1 ps1] 1 Cons.prems(4,7,8) page_room [of s1] by auto
qed auto

lemma chain_follow:
  assumes "chain cfg m (p # ps)" "INVALID_PAGE_ID cfg \<notin> set (p # ps)"
  shows "word_at (the (m p)) 12 = INVALID_PAGE_ID cfg \<Longrightarrow> ps = []"
    "word_at (the (m p)) 12 = q \<Longrightarrow> q \<noteq> INVALID_PAGE_ID cfg \<Longrightarrow> \<exists>qs. ps = q # qs \<and> chain cfg m (q # qs)"
  using assms by (cases ps; auto simp: page_ok_def split: option.splits)+

lemma ab_database_computed:
  "(case TableHeap_create (bpm_ops page_cfg) page_cfg 7 heap_pool of None \<Rightarrow> None
    | Some (th, s) \<Rightarrow> map_option (\<lambda>s. (th = ab_heap, map (stored_tuple (view page_cfg s)) (live_rids (view page_cfg s) [0, 1]) = ab_tuples,
        word_at (the (view page_cfg s 0)) 12, word_at (the (view page_cfg s 1)) 12)) (fill th ab_tuples s)) =
   Some (True, True, 1, - 1)"
  by code_simp

lemma ab_database:
  obtains s where "database page_cfg [(ab_heap, [0, 1], ab_tuples)] txn (s, txn)" "heap_room page_cfg s"
proof -
  obtain p s where s: "TableHeap_create (bpm_ops page_cfg) page_cfg 7 heap_pool = Some (\<lparr>first_page_id = p, this_heap = 7\<rparr>, s)"
    "pool_ok page_cfg s" "pins s = (\<lambda>_. 0)" "2 \<le> pool_size s" "heap_room page_cfg s"
    "heap_ok page_cfg (view page_cfg s) (allocated s) \<lparr>first_page_id = p, this_heap = 7\<rparr> [p]" by (rule new_table)
  from ab_database_computed s(1) obtain s' where s': "fill ab_heap ab_tuples s = Some s'" "p = 0"
    "map (stored_tuple (view page_cfg s')) (live_rids (view page_cfg s') [0, 1]) = ab_tuples"
    "word_at (the (view page_cfg s' 0)) 12 = 1" "word_at (the (view page_cfg s' 1)) 12 = - 1"
    by (auto simp: ab_heap_def)
  have th: "heap_ok page_cfg (view page_cfg s) (allocated s) ab_heap [0]" using s(6) s'(2) by (simp add: ab_heap_def)
  from fill_ok [OF s'(1) s(2-5) th] obtain ps where 1: "pool_ok page_cfg s'" "pins s' = (\<lambda>_. 0)" "2 \<le> pool_size s'"
    "heap_room page_cfg s'" "heap_ok page_cfg (view page_cfg s') (allocated s') ab_heap ps"
    by (auto simp: ab_tuples_def ab_tuple_def)
  note H = heap_okD [OF 1(5)]
  obtain qs where ps: "ps = 0 # qs" using H(2,6) by (cases ps) (auto simp: ab_heap_def)
  have inv: "INVALID_PAGE_ID page_cfg = - 1" "(1::page_id_t) \<noteq> - 1" by (simp_all add: page_cfg_def)
  have nin: "INVALID_PAGE_ID page_cfg \<notin> set ps" using H(5) by blast
  obtain rs where rs: "qs = 1 # rs" "chain page_cfg (view page_cfg s') (1 # rs)"
    using chain_follow(2) [of page_cfg "view page_cfg s'" 0 qs 1] H(1) ps nin s'(4) inv by auto
  have "rs = []" using chain_follow(1) [OF rs(2)] nin ps rs(1) s'(5) inv by auto
  then have "database page_cfg [(ab_heap, [0, 1], ab_tuples)] txn (s', txn)"
    using 1 ps rs(1) s'(3) by (simp add: database_def)
  then show ?thesis using that 1(4) by blast
qed

end
