(* ===== verification/Aggregates.thy ===== *)
theory Aggregates
  imports TableExecutorsSpec
begin

section \<open>What the aggregates of integers are\<close>

text \<open>
  A specification of \<open>COUNT\<close>, \<open>SUM\<close>, \<open>MIN\<close> and \<open>MAX\<close> on lists of integers that does not mention the aggregation: lengths,
  sums, least and greatest elements. When the aggregated expressions are non-null \<open>INTEGER\<close> values and the running sums fit,
  the table that the executor builds by combining values is the table of these numbers.
\<close>

fun agg_int :: "AggregationType \<Rightarrow> int list \<Rightarrow> int" where
  "agg_int CountAggregate xs = int (length xs)"
| "agg_int SumAggregate xs = sum_list xs"
| "agg_int MinAggregate xs = Min (set xs)"
| "agg_int MaxAggregate xs = Max (set xs)"

text \<open>The non-null numbers of the type.\<close>

definition fits_int32 :: "int \<Rightarrow> bool" where
  "fits_int32 i \<longleftrightarrow> - 2147483648 < i \<and> i < 2147483648"

lemma fits_int32_value:
  assumes "fits_int32 i"
  shows "int_ok int32_t (int_value int32_t i)" "\<not> IsNull (int_value int32_t i)" "GetAs int32_t (int_value int32_t i) = i"
proof -
  have w: "wrap (bits int32_t) i = i" using assms by (intro wrap_in_range) (simp add: in_range_def fits_int32_def)
  show "int_ok int32_t (int_value int32_t i)" by (rule int_ok_int_value)
  show "\<not> IsNull (int_value int32_t i)" using assms w by (simp add: null_of_def fits_int32_def)
  show "GetAs int32_t (int_value int32_t i) = i" using w by simp
qed

lemma Value_Add_fits:
  assumes "fits_int32 a" "fits_int32 b" "fits_int32 (a + b)"
  shows "Value_Add F (int_value int32_t a) (int_value int32_t b) = Inr (int_value int32_t (a + b))"
proof -
  note a = fits_int32_value [OF assms(1)] and b = fits_int32_value [OF assms(2)]
  have "Value_Add F (int_value int32_t a) (int_value int32_t b) = exact_or_range (wider int32_t int32_t) (a + b)"
    using dispatch_ints(1) [OF int_okD [OF a(1), THEN conjunct1] int_okD [OF b(1), THEN conjunct1] a(2) b(2), of F]
      templates_exact(1) [OF a(1) b(1) a(2) b(2)] a(3) b(3) by simp
  then show ?thesis using assms(3) by (simp add: exact_or_range_def wider_def in_range_def fits_int32_def)
qed

lemma Value_Min_Max_fits:
  assumes "fits_int32 a" "fits_int32 b"
  shows "Value_Min F (int_value int32_t a) (int_value int32_t b) = Inr (int_value int32_t (min a b))"
    "Value_Max F (int_value int32_t a) (int_value int32_t b) = Inr (int_value int32_t (max a b))"
proof -
  note a = fits_int32_value [OF assms(1)] and b = fits_int32_value [OF assms(2)]
  from Min_Max_integers [OF a(1) b(1) a(2) b(2), of F] a(3) b(3)
  show "Value_Min F (int_value int32_t a) (int_value int32_t b) = Inr (int_value int32_t (min a b))"
    "Value_Max F (int_value int32_t a) (int_value int32_t b) = Inr (int_value int32_t (max a b))"
    by (auto simp: min_def max_def)
qed

subsection \<open>Running aggregates\<close>

text \<open>The aggregate of the inputs so far, with the initial values of the executor before the first.\<close>

definition agg_running :: "AggregationType \<Rightarrow> int list \<Rightarrow> int" where
  "agg_running type xs = (if xs = [] then (case type of MinAggregate \<Rightarrow> 2147483647 | MaxAggregate \<Rightarrow> - 2147483647 | _ \<Rightarrow> 0)
     else agg_int type xs)"

lemma agg_running_step:
  assumes "list_all fits_int32 (xs @ [x])" "length xs < 2147483647" "type = SumAggregate \<Longrightarrow> fits_int32 (sum_list xs)"
    "type = SumAggregate \<Longrightarrow> fits_int32 (sum_list xs + x)"
  shows "combine_value F type (int_value int32_t (agg_running type xs)) (int_value int32_t x) =
    Inr (int_value int32_t (agg_running type (xs @ [x])))"
proof (cases type)
  case CountAggregate
  have "GetIntegerValue 1 = Inr (int_value int32_t 1)" by (simp add: GetIntegerValue_def Value_int32_def int_value_def null_of_def BUSTUB_INT32_NULL_def)
  moreover have "fits_int32 (int (length xs))" "fits_int32 1" "fits_int32 (int (length xs) + 1)"
    using assms(2) by (simp_all add: fits_int32_def)
  ultimately show ?thesis using Value_Add_fits [of "int (length xs)" 1 F]
    by (auto simp: CountAggregate agg_running_def add.commute)
next
  case SumAggregate
  then show ?thesis using assms Value_Add_fits [of "sum_list xs" x F] by (auto simp: agg_running_def)
next
  case MinAggregate
  have fits: "fits_int32 (agg_running MinAggregate xs)"
  proof (cases "xs = []")
    case False
    then have "Min (set xs) \<in> set xs" by (intro Min_in) auto
    then show ?thesis using assms(1) False by (auto simp: agg_running_def list_all_iff)
  qed (simp add: agg_running_def fits_int32_def)
  have "agg_running MinAggregate (xs @ [x]) = min (agg_running MinAggregate xs) x"
    using assms(1) by (cases "xs = []") (auto simp: agg_running_def min.commute fits_int32_def)
  then show ?thesis using Value_Min_Max_fits(1) [OF fits, of x F] assms(1) by (simp add: MinAggregate)
next
  case MaxAggregate
  have fits: "fits_int32 (agg_running MaxAggregate xs)"
  proof (cases "xs = []")
    case False
    then have "Max (set xs) \<in> set xs" by (intro Max_in) auto
    then show ?thesis using assms(1) False by (auto simp: agg_running_def list_all_iff)
  qed (simp add: agg_running_def fits_int32_def)
  have "agg_running MaxAggregate (xs @ [x]) = max (agg_running MaxAggregate xs) x"
    using assms(1) by (cases "xs = []") (auto simp: agg_running_def max.commute fits_int32_def)
  then show ?thesis using Value_Min_Max_fits(2) [OF fits, of x F] assms(1) by (simp add: MaxAggregate)
qed

lemma combine_loop_columns:
  assumes "\<And>j. j < i + k \<Longrightarrow> combine_value F (types ! j) (f j) (input ! j) = Inr (g j)" "i + k \<le> length types" "i + k \<le> length input"
  shows "combine_loop F types i k (map g [0..<i] @ map f [i..<i + k]) input = Inr (map g [0..<i + k])"
  using assms
proof (induction k arbitrary: i)
  case (Suc k)
  have l: "map f [i..<i + Suc k] = f i # map f [Suc i..<Suc i + k]" by (simp add: upt_rec)
  have c: "combine_value F (types ! i) (f i) (input ! i) = Inr (g i)" using Suc.prems(1) [of i] by simp
  have count: "combine_value F CountAggregate v w = combine_value F CountAggregate v w'" for v w w' by simp
  have "combine_value F (types ! i) (f i) (if types ! i = CountAggregate then f i else input ! i) = Inr (g i)"
    using c count by metis
  moreover have "(map g [0..<i] @ f i # map f [Suc i..<Suc i + k])[i := g i] = map g [0..<Suc i] @ map f [Suc i..<Suc i + k]"
    by (simp add: list_update_append)
  moreover have "combine_loop F types (Suc i) k (map g [0..<Suc i] @ map f [Suc i..<Suc i + k]) input = Inr (map g [0..<Suc i + k])"
    by (rule Suc.IH) (use Suc.prems in auto)
  ultimately show ?case
    unfolding l using Suc.prems(2,3) by (cases "types ! i = CountAggregate") (simp_all add: at_def nth_append)
qed simp

lemma fold_aggregates_ints:
  fixes rs :: "int list list"
  assumes "length (agg_types plan) = n" "length (agg_exprs plan) = n" "list_all (\<lambda>r. length r = n \<and> list_all fits_int32 r) (done_rs @ rs)"
    and "length (done_rs @ rs) < 2147483648"
    and "\<And>i m. i < n \<Longrightarrow> agg_types plan ! i = SumAggregate \<Longrightarrow> fits_int32 (sum_list (take m (map (\<lambda>r. r ! i) (done_rs @ rs))))"
  shows "fold_aggregates F plan (map (\<lambda>i. int_value int32_t (agg_running (agg_types plan ! i) (map (\<lambda>r. r ! i) done_rs))) [0..<n])
      (map (map (int_value int32_t)) rs) =
    Inr (map (\<lambda>i. int_value int32_t (agg_running (agg_types plan ! i) (map (\<lambda>r. r ! i) (done_rs @ rs)))) [0..<n])"
  using assms(3-)
proof (induction rs arbitrary: done_rs)
  case (Cons r rs)
  let ?f = "\<lambda>ds i. int_value int32_t (agg_running (agg_types plan ! i) (map (\<lambda>r. r ! i) ds))"
  have r: "length r = n" "list_all fits_int32 r" using Cons.prems(1) by simp_all
  have step: "combine_value F (agg_types plan ! i) (?f done_rs i) (map (int_value int32_t) r ! i) = Inr (?f (done_rs @ [r]) i)"
    if i: "i < 0 + n" for i
  proof -
    have "combine_value F (agg_types plan ! i) (?f done_rs i) (int_value int32_t (r ! i)) =
      Inr (int_value int32_t (agg_running (agg_types plan ! i) (map (\<lambda>r. r ! i) done_rs @ [r ! i])))"
    proof (rule agg_running_step)
      show "list_all fits_int32 (map (\<lambda>r. r ! i) done_rs @ [r ! i])" 
      proof -
        have "fits_int32 (r' ! i)" if "r' \<in> set (done_rs @ [r])" for r'
        proof -
          have "length r' = n" "list_all fits_int32 r'" using Cons.prems(1) that by (auto simp: list_all_iff)
          then show ?thesis using i by (simp add: list_all_length)
        qed
        then show ?thesis by (simp add: list_all_iff)
      qed
      show "length (map (\<lambda>r. r ! i) done_rs) < 2147483647" using Cons.prems(2) by simp
      assume s: "agg_types plan ! i = SumAggregate"
      show "fits_int32 (sum_list (map (\<lambda>r. r ! i) done_rs))"
        using Cons.prems(3) [of i "length done_rs"] i s by simp
      show "fits_int32 (sum_list (map (\<lambda>r. r ! i) done_rs) + r ! i)"
        using Cons.prems(3) [of i "Suc (length done_rs)"] i s by simp
    qed
    then show ?thesis using i r(1) by simp
  qed
  have "CombineAggregateValues F plan (map (?f done_rs) [0..<n]) (map (int_value int32_t) r) = Inr (map (?f (done_rs @ [r])) [0..<n])"
    using combine_loop_columns [of 0 n F "agg_types plan" "?f done_rs", OF step] assms(1,2) r(1)
    by (simp add: CombineAggregateValues_def)
  moreover have "fold_aggregates F plan (map (?f (done_rs @ [r])) [0..<n]) (map (map (int_value int32_t)) rs) =
    Inr (map (?f ((done_rs @ [r]) @ rs)) [0..<n])"
    by (rule Cons.IH) (use Cons.prems in auto)
  ultimately show ?case by simp
qed simp

subsection \<open>The table of an aggregation\<close>

definition agg_key_of :: "double_ops \<Rightarrow> aggregation_plan \<Rightarrow> Schema \<Rightarrow> row \<Rightarrow> Value list" where
  "agg_key_of F plan schema x = projr (agg_key F plan schema (initial_values plan) x)"

definition row_ints :: "double_ops \<Rightarrow> aggregation_plan \<Rightarrow> Schema \<Rightarrow> row \<Rightarrow> int list" where
  "row_ints F plan schema x = map (GetAs int32_t) (projr (agg_input F plan schema x))"

definition group_column :: "double_ops \<Rightarrow> aggregation_plan \<Rightarrow> Schema \<Rightarrow> row list \<Rightarrow> Value list \<Rightarrow> nat \<Rightarrow> int list" where
  "group_column F plan schema xs k i =
     map (\<lambda>x. row_ints F plan schema x ! i) (filter (\<lambda>x. agg_key_of F plan schema x = k) xs)"

text \<open>One entry per key, in the order of the first rows: the key and the aggregates of the columns of its group.\<close>

definition int_groups :: "double_ops \<Rightarrow> aggregation_plan \<Rightarrow> Schema \<Rightarrow> row list \<Rightarrow> agg_table" where
  "int_groups F plan schema xs =
     map (\<lambda>k. (projr (hash_key 0 k), k,
         map (\<lambda>i. int_value int32_t (agg_int (agg_types plan ! i) (group_column F plan schema xs k i))) [0..<length (agg_types plan)]))
       (map (agg_key_of F plan schema) (firsts (agg_key_of F plan schema) [] xs))"

text \<open>The keys can be computed and hashed, and comparison decides their equality; in particular no key has a null. The inputs
  are non-null integers. The running sums of each group are in range.\<close>

definition group_keys_ok :: "double_ops \<Rightarrow> aggregation_plan \<Rightarrow> Schema \<Rightarrow> row list \<Rightarrow> bool" where
  "group_keys_ok F plan schema xs \<longleftrightarrow> (\<forall>x\<in>set xs.
     agg_key F plan schema (initial_values plan) x = Inr (agg_key_of F plan schema x) \<and>
     (\<exists>h. hash_key 0 (agg_key_of F plan schema x) = Inr h) \<and>
     (\<forall>y\<in>set xs. key_eq F (agg_key_of F plan schema x) (agg_key_of F plan schema y) =
        Inr (agg_key_of F plan schema x = agg_key_of F plan schema y)))"

definition int_inputs :: "double_ops \<Rightarrow> aggregation_plan \<Rightarrow> Schema \<Rightarrow> row list \<Rightarrow> bool" where
  "int_inputs F plan schema xs \<longleftrightarrow> length (agg_types plan) = length (agg_exprs plan) \<and> length xs < 2147483648 \<and>
     (\<forall>x\<in>set xs. \<exists>vs. agg_input F plan schema x = Inr vs \<and> list_all (\<lambda>v. int_ok int32_t v \<and> \<not> IsNull v) vs)"

definition sums_fit :: "double_ops \<Rightarrow> aggregation_plan \<Rightarrow> Schema \<Rightarrow> row list \<Rightarrow> bool" where
  "sums_fit F plan schema xs \<longleftrightarrow> (\<forall>x\<in>set xs. \<forall>i<length (agg_types plan). agg_types plan ! i = SumAggregate \<longrightarrow>
     (\<forall>m\<le>length xs. fits_int32 (sum_list (take m (group_column F plan schema xs (agg_key_of F plan schema x) i)))))"

lemma int_input:
  assumes "int_inputs F plan schema xs" "x \<in> set xs"
  shows "agg_input F plan schema x = Inr (map (int_value int32_t) (row_ints F plan schema x))"
    "length (row_ints F plan schema x) = length (agg_types plan)" "list_all fits_int32 (row_ints F plan schema x)"
proof -
  obtain vs where vs: "agg_input F plan schema x = Inr vs" "list_all (\<lambda>v. int_ok int32_t v \<and> \<not> IsNull v) vs"
    using assms by (auto simp: int_inputs_def)
  have v: "v = int_value int32_t (GetAs int32_t v) \<and> fits_int32 (GetAs int32_t v)" if "v \<in> set vs" for v
  proof -
    have ok: "int_ok int32_t v" "\<not> IsNull v" using vs(2) that by (auto simp: list_all_iff)
    have e: "v = int_value int32_t (GetAs int32_t v)" using ok(1) by (simp add: int_ok_def)
    have "in_range int32_t (GetAs int32_t v)" by (rule GetAs_range)
    moreover have "GetAs int32_t v \<noteq> null_of int32_t" using int_okD [OF ok(1)] ok(2) by simp
    ultimately have "fits_int32 (GetAs int32_t v)" by (auto simp: in_range_def null_of_def fits_int32_def)
    then show ?thesis using e by blast
  qed
  have r: "row_ints F plan schema x = map (GetAs int32_t) vs" by (simp add: row_ints_def vs(1))
  show "agg_input F plan schema x = Inr (map (int_value int32_t) (row_ints F plan schema x))"
    using v by (simp add: r vs(1) map_idI comp_def)
  have "length vs = length (agg_exprs plan)" using vs(1) by (auto simp: agg_input_def traverse_Inr dest: list_all2_lengthD)
  then show "length (row_ints F plan schema x) = length (agg_types plan)" using assms(1) by (simp add: r int_inputs_def)
  show "list_all fits_int32 (row_ints F plan schema x)" using v by (auto simp: r list_all_iff)
qed

lemma initial_values_running:
  "initial_values plan = map (\<lambda>i. int_value int32_t (agg_running (agg_types plan ! i) [])) [0..<length (agg_types plan)]"
proof -
  have "initial_value t = Inr (int_value int32_t (agg_running t []))" for t
    by (cases t) (simp_all add: GetIntegerValue_def Value_int32_def int_value_def null_of_def agg_running_def limit_defs
        BUSTUB_INT32_NULL_def)
  then have "traverse initial_value ts = Inr (map (\<lambda>t. int_value int32_t (agg_running t [])) ts)" for ts
    by (induction ts) simp_all
  then have "initial_values plan = map (\<lambda>t. int_value int32_t (agg_running t [])) (agg_types plan)"
    by (simp only: initial_values_def GenerateInitialAggregateValue_def sum.sel)
  then show ?thesis by (auto intro!: nth_equalityI)
qed

lemma group_aggregate_ints:
  assumes "int_inputs F plan schema xs" "sums_fit F plan schema xs" "x \<in> set xs"
  defines "k \<equiv> agg_key_of F plan schema x"
  shows "group_aggregate F plan schema (initial_values plan) xs k =
    Inr (map (\<lambda>i. int_value int32_t (agg_int (agg_types plan ! i) (group_column F plan schema xs k i))) [0..<length (agg_types plan)])"
proof -
  let ?g = "filter (\<lambda>x. agg_key_of F plan schema x = k) xs" and ?n = "length (agg_types plan)"
  let ?rs = "map (row_ints F plan schema) ?g"
  have col: "map (\<lambda>r. r ! i) ?rs = group_column F plan schema xs k i" for i by (simp add: group_column_def comp_def)
  have ne: "group_column F plan schema xs k i \<noteq> []" for i using assms(3) by (auto simp: group_column_def k_def filter_empty_conv)
  have l: "length ?g \<le> length xs" by simp
  have inputs: "map (\<lambda>x. projr (agg_input F plan schema x)) ?g = map (map (int_value int32_t)) ?rs"
    using int_input(1) [OF assms(1)] by simp
  have "fold_aggregates F plan (map (\<lambda>i. int_value int32_t (agg_running (agg_types plan ! i) (map (\<lambda>r. r ! i) ([] :: int list list)))) [0..<?n])
      (map (map (int_value int32_t)) ?rs) =
    Inr (map (\<lambda>i. int_value int32_t (agg_running (agg_types plan ! i) (map (\<lambda>r. r ! i) ([] @ ?rs)))) [0..<?n])"
  proof (rule fold_aggregates_ints)
    show "length (agg_types plan) = ?n" by simp
    show "length (agg_exprs plan) = ?n" using assms(1) by (simp add: int_inputs_def)
    show "list_all (\<lambda>r. length r = ?n \<and> list_all fits_int32 r) ([] @ ?rs)"
      using int_input(2,3) [OF assms(1)] by (auto simp: list_all_iff)
    have "length xs < 2147483648" using assms(1) by (simp add: int_inputs_def)
    with l show "length ([] @ ?rs) < 2147483648" by (simp only: append_Nil length_map)
    fix i m
    assume i: "i < ?n" "agg_types plan ! i = SumAggregate"
    have t: "take m (group_column F plan schema xs k i) = take (min m (length xs)) (group_column F plan schema xs k i)"
      using order_trans [OF length_filter_le [of _ xs]] by (cases "m \<le> length xs") (simp_all add: group_column_def)
    have "\<forall>m\<le>length xs. fits_int32 (sum_list (take m (group_column F plan schema xs k i)))"
      using assms(2,3) i unfolding sums_fit_def k_def by blast
    then have "fits_int32 (sum_list (take (min m (length xs)) (group_column F plan schema xs k i)))" by simp
    then show "fits_int32 (sum_list (take m (map (\<lambda>r. r ! i) ([] @ ?rs))))" by (simp only: append_Nil col t)
  qed
  then show ?thesis
    unfolding group_aggregate_def agg_key_of_def [symmetric] inputs append_Nil col
    using ne by (simp add: initial_values_running agg_running_def)
qed

lemma groups_are_ints:
  assumes "group_keys_ok F plan schema xs" "int_inputs F plan schema xs" "sums_fit F plan schema xs"
  shows "groups_ok F plan schema (initial_values plan) xs"
    "groups_of F plan schema (initial_values plan) xs = int_groups F plan schema xs"
proof -
  note g = group_aggregate_ints [OF assms(2,3)]
  show "groups_ok F plan schema (initial_values plan) xs"
    unfolding groups_ok_def Let_def agg_key_of_def [symmetric]
  proof (intro ballI conjI)
    fix x y assume x: "x \<in> set xs"
    show "agg_key F plan schema (initial_values plan) x = Inr (agg_key_of F plan schema x)"
      "\<exists>h. hash_key 0 (agg_key_of F plan schema x) = Inr h" using assms(1) x by (auto simp: group_keys_ok_def)
    show "\<exists>v. agg_input F plan schema x = Inr v" using int_input(1) [OF assms(2) x] by blast
    show "\<exists>v. group_aggregate F plan schema (initial_values plan) xs (agg_key_of F plan schema x) = Inr v" using g [OF x] by blast
    assume "y \<in> set xs"
    then show "key_eq F (agg_key_of F plan schema x) (agg_key_of F plan schema y) =
      Inr (agg_key_of F plan schema x = agg_key_of F plan schema y)" using assms(1) x by (auto simp: group_keys_ok_def)
  qed
  have "projr (group_aggregate F plan schema (initial_values plan) xs (agg_key_of F plan schema x)) =
    map (\<lambda>i. int_value int32_t (agg_int (agg_types plan ! i) (group_column F plan schema xs (agg_key_of F plan schema x) i)))
      [0..<length (agg_types plan)]" if "x \<in> set (firsts (agg_key_of F plan schema) [] xs)" for x
    using g [OF firsts_subset [OF that]] by simp
  then show "groups_of F plan schema (initial_values plan) xs = int_groups F plan schema xs"
    unfolding groups_of_def int_groups_def agg_key_of_def [symmetric] by simp
qed

end
