(* ===== verification/Queries.thy ===== *)
theory Queries
  imports ExampleDatabase Aggregates
begin

section \<open>Queries on a database\<close>

text \<open>
  What \<open>ExecutionEngine::Execute\<close> returns for query plans over the tables of a buffer pool instance: the rows
  of a scan, of joins, of the removal of duplicates, of a limit and of an aggregation, stated over the tuples that
  are stored in the tables. Then the plans on which the executors do something else: repeated keys in a hash join,
  nulls in predicates and in groups, and output columns that do not have the name of a column of the table.
\<close>

subsection \<open>Scans\<close>

lemma length_scan_rows: "length (scan_rows cfg F sc ts) \<le> length ts"
  by (simp add: scan_rows_def)

lemma scan_valid_start: "scannable cfg F db sc ps ts fuel \<Longrightarrow> scan_valid cfg F db sc ps ts fuel (SeqScan_start cfg)"
  by (simp add: scan_valid_def SeqScan_start_def Tuple_default_def RID_default_def)

lemma scan_start:
  assumes "database cfg db txn w" "scannable cfg F db sc ps ts fuel"
  shows "scan_valid cfg F db sc ps ts fuel (SeqScan_start cfg)" "tuples_from ts (SeqScan_start cfg) = []"
proof -
  show "scan_valid cfg F db sc ps ts fuel (SeqScan_start cfg)" by (rule scan_valid_start [OF assms(2)])
  have "bph.holds_table cfg cfg (fst w) (table_of (scan_info sc), ps, ts)"
    using assms by (auto simp: database_def scannable_def bph.holds_table_def list_all_iff)
  from bph.holds_tableD(5) [OF this] show "tuples_from ts (SeqScan_start cfg) = []"
    by (intro tuples_from_end) (simp add: SeqScan_start_def Tuple_default_def RID_default_def)
qed

text \<open>A sequential scan returns every tuple of the table that is not marked as deleted and satisfies the
  predicate, projected to the output columns, once and in the order of the pages, whatever the pool evicts on the
  way, and leaves the tables and the transaction as they were.\<close>

theorem seq_scan_correct:
  assumes "database cfg db txn w" "scannable cfg F db sc ps ts fuel"
  shows "\<exists>w'. Execute fuel cfg (bpm_scan fuel cfg F sc) (SeqScan_start cfg) w =
      Inr (map fst (scan_rows cfg F sc ts), w') \<and> database cfg db txn w'"
proof (rule producer.Execute_rows [OF bpm_scan_producer scan_valid_start [OF assms(2)] assms(1)])
  show "length (scan_rows cfg F sc ts) < fuel"
    using length_scan_rows [of cfg F sc ts] assms(2) by (simp add: scannable_def)
qed

text \<open>A limit over a scan returns the first rows of the scan, up to the limit.\<close>

theorem limit_correct:
  assumes "database cfg db txn w" "scannable cfg F db sc ps ts fuel"
  shows "\<exists>w'. Execute fuel cfg (Limit (bpm_scan fuel cfg F sc) lim) (LimitExecutor 0 (SeqScan_start cfg)) w =
      Inr (take lim (map fst (scan_rows cfg F sc ts)), w') \<and> database cfg db txn w'"
proof -
  have "length (take lim (scan_rows cfg F sc ts)) < fuel"
    using length_scan_rows [of cfg F sc ts] assms(2) by (auto simp: scannable_def)
  note len = this
  have "scan_valid cfg F db sc ps ts fuel (limit_child (LimitExecutor 0 (SeqScan_start cfg)))"
    using scan_start [OF assms] by simp
  from limit_scan.limit.Execute_rows [OF this assms(1) len] show ?thesis by (simp add: take_map)
qed

text \<open>The removal of duplicates over a scan returns the first row of each list of values: the values of the
  returned rows are distinct and are those of all rows of the scan.\<close>

theorem distinct_correct:
  assumes "database cfg db txn w" "scannable cfg F db sc ps ts fuel"
    and "keys_ok F schema (scan_rows cfg F sc ts)"
  defines "key \<equiv> row_key F schema" and "out \<equiv> firsts (row_key F schema) [] (scan_rows cfg F sc ts)"
  shows "(\<exists>w'. Execute fuel cfg (Distinct fuel F (bpm_scan fuel cfg F sc) schema) (DistinctExecutor [] (SeqScan_start cfg)) w =
      Inr (map fst out, w') \<and> database cfg db txn w') \<and>
    distinct (map key out) \<and> key ` set out = key ` set (scan_rows cfg F sc ts) \<and> subseq out (scan_rows cfg F sc ts)"
proof (intro conjI)
  obtain n where n: "fuel = Suc n" using assms(2) by (cases fuel) (auto simp: scannable_def)
  have rows: "length (scan_rows cfg F sc ts) < fuel"
    using length_scan_rows [of cfg F sc ts] assms(2) by (simp add: scannable_def)
  then have ready: "distinct_ready F schema (scan_rows cfg F sc ts) (Suc n)" using assms(3) n by (simp add: distinct_ready_def)
  show "\<exists>w'. Execute fuel cfg (Distinct fuel F (bpm_scan fuel cfg F sc) schema) (DistinctExecutor [] (SeqScan_start cfg)) w =
      Inr (map fst out, w') \<and> database cfg db txn w'"
    using distinct_scan.Distinct_Execute [OF conjI [OF ready scan_start(1) [OF assms(1,2)]] assms(1), of fuel cfg]
      scan_start(2) [OF assms(1,2)] ready rows n by (simp add: out_def)
  show "distinct (map key out)" unfolding key_def out_def by (rule firsts_distinct)
  show "key ` set out = key ` set (scan_rows cfg F sc ts)"
    using firsts_keys [of key "[]" "scan_rows cfg F sc ts"] by (simp add: key_def out_def)
  show "subseq out (scan_rows cfg F sc ts)" unfolding out_def by (rule firsts_subseq)
qed

subsection \<open>Joins\<close>

text \<open>C5. The nested loop join of two scans returns, for every pair of a left and a right row that satisfies the
  predicate, the tuple of the output columns, in the order of the left and then of the right rows; the right table
  is scanned again for each left row.\<close>

theorem nested_loop_join_correct:
  assumes "database cfg db txn w" "scannable cfg F db scL psL tsL n" "scannable cfg F db scR psR tsR n"
    and "join_ready cfg F plan p (scan_rows cfg F scL tsL) (scan_rows cfg F scR tsR) fuel"
  shows "\<exists>w'. Execute fuel cfg (NestedLoopJoin fuel cfg F (bpm_scan n cfg F scL) (bpm_scan n cfg F scR) plan p)
        (NestedLoopJoinExecutor (SeqScan_start cfg) (SeqScan_start cfg) (fresh_row cfg) False) w =
      Inr (map fst (join_rows cfg F plan p (scan_rows cfg F scL tsL) (scan_rows cfg F scR tsR)), w') \<and>
    database cfg db txn w'"
proof -
  obtain k where k: "fuel = Suc k" using assms(4) by (cases fuel) (auto simp: join_ready_def)
  note r = assms(4) [unfolded k]
  from join_scans.NestedLoopJoin_Execute [OF conjI [OF r scan_start(1) [OF assms(1,2)]]
      conjI [OF r scan_start(1) [OF assms(1,3)]] assms(1), of "fresh_row cfg"]
  show ?thesis using r by (simp add: k)
qed

text \<open>Two ways to enumerate the matching pairs.\<close>

lemma mset_pairs:
  "mset (concat (map (\<lambda>r. map (\<lambda>l. h l r) (filter (\<lambda>l. P l r) ls)) rs)) =
   mset (concat (map (\<lambda>l. map (\<lambda>r. h l r) (filter (\<lambda>r. P l r) rs)) ls))"
proof (induction rs)
  case (Cons r rs)
  have "mset (map (\<lambda>l. h l r) (filter (\<lambda>l. P l r) ls)) + mset (concat (map (\<lambda>l. map (\<lambda>r. h l r) (filter (\<lambda>r. P l r) rs)) ls)) =
    mset (concat (map (\<lambda>l. map (\<lambda>r. h l r) (filter (\<lambda>r. P l r) (r # rs))) ls))"
    by (induction ls) (simp_all add: ac_simps)
  with Cons show ?case by simp
qed (induction ls, simp_all)

definition keys_decided :: "double_ops \<Rightarrow> Value set \<Rightarrow> bool" where
  "keys_decided F K \<longleftrightarrow> (\<forall>k\<in>K. \<forall>k'\<in>K. Value_CompareEquals F k k' = Inr (if k = k' then CmpTrue else CmpFalse))"

lemma GetAs_bool_values:
  "GetAs_bool (member_value BOOLEAN int8_t (- 128) (- 128))" "GetAs_bool (member_value BOOLEAN int8_t (- 128) 1)"
  "\<not> GetAs_bool (member_value BOOLEAN int8_t (- 128) 0)" "IsNull (member_value BOOLEAN int8_t (- 128) (- 128))"
  "\<not> IsNull (member_value BOOLEAN int8_t (- 128) 1)" "\<not> IsNull (member_value BOOLEAN int8_t (- 128) 0)"
  by code_simp+

lemma GetAs_bool_Cmp:
  assumes "GetBooleanValue_Cmp c = Inr v"
  shows "GetAs_bool v \<longleftrightarrow> c \<noteq> CmpFalse" "IsNull v \<longleftrightarrow> c = CmpNull"
  using assms GetAs_bool_values
  by (cases c; auto simp: GetBooleanValue_Cmp_def Value_int8_def BUSTUB_BOOLEAN_NULL_def)+

lemma hash_join_rows_mset:
  fixes plan :: join_plan and F :: double_ops and i j :: nat and T T' :: TypeId
  defines "lk \<equiv> key_of F (ColumnValueExpression 0 i T) (left_schema plan)"
    and "rk \<equiv> key_of F (ColumnValueExpression 1 j T') (right_schema plan)"
  assumes "hash_join_ok cfg F plan (ColumnValueExpression 0 i T) (ColumnValueExpression 1 j T') ls rs"
    and "keys_decided F (lk ` set ls \<union> rk ` set rs)"
  shows "mset (map fst (hash_join_rows cfg F plan (ColumnValueExpression 0 i T) (ColumnValueExpression 1 j T') ls rs)) =
    mset (map fst (join_rows cfg F plan
      (ComparisonExpression (ColumnValueExpression 0 i T) (ColumnValueExpression 1 j T') Equal) ls rs))"
proof -
  let ?p = "ComparisonExpression (ColumnValueExpression 0 i T) (ColumnValueExpression 1 j T') Equal"
  have m: "join_match F plan ?p l r \<longleftrightarrow> lk l = rk r" if "l \<in> set ls" "r \<in> set rs" for l r
  proof -
    have e: "Tuple_GetValue F (fst l) (left_schema plan) i = Inr (lk l)" "Tuple_GetValue F (fst r) (right_schema plan) j = Inr (rk r)"
      using assms(3) that by (auto simp: hash_join_ok_def hashable_def lk_def rk_def)
    have "Value_CompareEquals F (lk l) (rk r) = Inr (if lk l = rk r then CmpTrue else CmpFalse)"
      using assms(4) that by (auto simp: keys_decided_def)
    moreover obtain v where "GetBooleanValue_Cmp (if lk l = rk r then CmpTrue else CmpFalse) = Inr v"
      by (cases "lk l = rk r") (auto simp: GetBooleanValue_Cmp_def Value_int8_def)
    ultimately show ?thesis using e GetAs_bool_Cmp by (force simp: join_match_def PerformComparison_def)
  qed
  have "map fst (hash_join_rows cfg F plan (ColumnValueExpression 0 i T) (ColumnValueExpression 1 j T') ls rs) =
    concat (map (\<lambda>r. map (\<lambda>l. fst (join_row cfg F plan l r)) (filter (\<lambda>l. lk l = rk r) ls)) rs)"
    by (simp add: hash_join_rows_def lk_def rk_def map_concat comp_def)
  moreover have "map fst (join_rows cfg F plan ?p ls rs) =
    concat (map (\<lambda>l. map (\<lambda>r. fst (join_row cfg F plan l r)) (filter (\<lambda>r. lk l = rk r) rs)) ls)"
    using m by (auto simp: join_rows_def map_concat comp_def intro!: arg_cong [of _ _ concat] map_cong filter_cong)
  ultimately show ?thesis using mset_pairs [of "\<lambda>l r. fst (join_row cfg F plan l r)" "\<lambda>l r. lk l = rk r" ls rs] by simp
qed

text \<open>C17. The hash join of two scans, when no two left rows have the same key and comparison decides the equality of
  the keys (so that no key is null: the nested loop join selects the pairs with a null, the hash join does not), returns the
  tuples of the nested loop join on equal keys, each as often: the table it builds in its
  constructor and the search in it lose nothing and add nothing.\<close>

theorem hash_join_equals_nested_loop:
  fixes plan :: join_plan and F :: double_ops and i j :: nat and T T' :: TypeId
  defines "lkey \<equiv> ColumnValueExpression 0 i T" and "rkey \<equiv> ColumnValueExpression 1 j T'"
  assumes "database cfg db txn w" "scannable cfg F db scL psL tsL n" "scannable cfg F db scR psR tsR n"
    and "hash_join_ok cfg F plan lkey rkey (scan_rows cfg F scL tsL) (scan_rows cfg F scR tsR)"
    and "keys_decided F (key_of F lkey (left_schema plan) ` set (scan_rows cfg F scL tsL) \<union>
      key_of F rkey (right_schema plan) ` set (scan_rows cfg F scR tsR))"
    and "Suc (length tsL) * Suc (length tsR) \<le> fuel"
  shows "\<exists>st w1 ts w2. HashJoin_new fuel cfg F (bpm_scan n cfg F scL) (bpm_scan n cfg F scR) plan lkey
        (SeqScan_start cfg) (SeqScan_start cfg) w = Inr (st, w1) \<and>
      Execute fuel cfg (HashJoin fuel cfg F (bpm_scan n cfg F scL) (bpm_scan n cfg F scR) plan rkey) st w1 = Inr (ts, w2) \<and>
      mset ts = mset (map fst (join_rows cfg F plan (ComparisonExpression lkey rkey Equal)
        (scan_rows cfg F scL tsL) (scan_rows cfg F scR tsR))) \<and>
    database cfg db txn w2"
proof -
  let ?L = "scan_rows cfg F scL tsL" and ?R = "scan_rows cfg F scR tsR"
  obtain k where k: "fuel = Suc k" using assms(8) by (cases fuel) auto
  have len: "length ?L \<le> length tsL" "length ?R \<le> length tsR" by (simp_all add: length_scan_rows)
  have "length ?L * length ?R \<le> length tsL * length tsR" using len by (rule mult_le_mono)
  then have f: "length ?L * length ?R < fuel" "length ?L < fuel" "length ?R < fuel" using assms(8) len by auto
  have r: "hash_join_ready cfg F plan lkey rkey ?L ?R (Suc k)"
    using assms(6) f k by (simp add: hash_join_ready_def)
  from hash_join_scans.HashJoin_Execute [OF conjI [OF r scan_start(1) [OF assms(3,4)]]
      conjI [OF r scan_start(1) [OF assms(3,5)]] assms(3), of fuel]
  obtain st w1 w2 where "HashJoin_new fuel cfg F (bpm_scan n cfg F scL) (bpm_scan n cfg F scR) plan lkey
        (SeqScan_start cfg) (SeqScan_start cfg) w = Inr (st, w1)"
    "Execute fuel cfg (HashJoin fuel cfg F (bpm_scan n cfg F scL) (bpm_scan n cfg F scR) plan rkey) st w1 =
      Inr (map fst (hash_join_rows cfg F plan lkey rkey ?L ?R), w2)" "database cfg db txn w2"
    using r f(1) by (auto simp: k)
  moreover have "mset (map fst (hash_join_rows cfg F plan lkey rkey ?L ?R)) =
      mset (map fst (join_rows cfg F plan (ComparisonExpression lkey rkey Equal) ?L ?R))"
    using hash_join_rows_mset assms(6,7) unfolding lkey_def rkey_def by blast
  ultimately show ?thesis by blast
qed

subsection \<open>Aggregation\<close>

text \<open>C7. An aggregation of non-null integers over a scan, grouped by keys without nulls: it returns one tuple for each list of
  group-by values that the having clause keeps, made from the key and the number, sum, least or greatest element of the
  integers of the rows of the group, as long as the running sums fit the type; the groups come in the order the hash table is
  traversed in.\<close>

theorem aggregation_correct:
  fixes plan :: aggregation_plan and schema :: Schema
  assumes "database cfg db txn w" "scannable cfg F db sc ps ts fuel"
  defines "rows \<equiv> scan_rows cfg F sc ts" and "groups \<equiv> int_groups F plan schema (scan_rows cfg F sc ts)"
  assumes "group_keys_ok F plan schema rows" "int_inputs F plan schema rows" "sums_fit F plan schema rows"
    and "mset (order groups) = mset groups" "agg_computes cfg F plan (map snd groups)"
  shows "\<exists>st w1 w2. Aggregation_new fuel cfg F (bpm_scan fuel cfg F sc) plan schema (SeqScan_start cfg) w = Inr (st, w1) \<and>
      Execute fuel cfg (Aggregation order cfg F (bpm_scan fuel cfg F sc) plan) st w1 =
        Inr (agg_tuples cfg F plan (map snd (order groups)), w2) \<and>
    database cfg db txn w2"
proof -
  obtain n where n: "fuel = Suc n" using assms(2) by (cases fuel) (auto simp: scannable_def)
  note ints = groups_are_ints [OF assms(5-7)]
  have "length (scan_rows cfg F sc ts) < fuel"
    using length_scan_rows [of cfg F sc ts] assms(2) by (simp add: scannable_def)
  then have r: "groups_ready F plan schema (scan_rows cfg F sc ts) (Suc n)"
    using ints(1) n by (simp add: groups_ready_def rows_def)
  have g: "groups_of F plan schema (initial_values plan) (scan_rows cfg F sc ts) = groups"
    using ints(2) by (simp add: rows_def groups_def)
  from aggregate_scan.Aggregation_Execute [OF conjI [OF r scan_start(1) [OF assms(1,2)]] assms(1), of order]
  show ?thesis using r assms(8,9) by (auto simp: n g)
qed

subsection \<open>Nulls, repeated keys and missing names\<close>

definition cmp_of :: "ComparisonType \<Rightarrow> cmp_op" where
  "cmp_of c = (case c of Equal \<Rightarrow> Eq | NotEqual \<Rightarrow> Ne | LessThan \<Rightarrow> Lt | LessThanOrEqual \<Rightarrow> Le
     | GreaterThan \<Rightarrow> Gt | GreaterThanOrEqual \<Rightarrow> Ge)"

lemma PerformComparison_Compare: "PerformComparison F c l r = Value_Compare (cmp_of c) F l r"
  by (cases c) (simp_all add: PerformComparison_def cmp_of_def)

text \<open>C29. A comparison with a null is null, and a null predicate counts as true: \<open>GetAs<bool>\<close> reads the byte that
  marks the null, which is not zero. A scan therefore selects every tuple on which one side of its predicate is null,
  for each of the six operators.\<close>

theorem null_predicate_selects:
  assumes "scan_filter sc = ComparisonExpression left right op"
    and "Evaluate F left t (schema_of (scan_info sc)) = Inr l" "Evaluate F right t (schema_of (scan_info sc)) = Inr r"
    and "CheckComparable l r" "IsNull l \<or> IsNull r"
  shows "scan_match F sc t \<and>
    (\<exists>v. Evaluate F (scan_filter sc) t (schema_of (scan_info sc)) = Inr v \<and> val_type v = BOOLEAN \<and> IsNull v)"
proof -
  have "PerformComparison F op l r = Inr CmpNull"
    unfolding PerformComparison_Compare by (rule compare_null [OF assms(4,5)])
  moreover obtain v where v: "GetBooleanValue_Cmp CmpNull = Inr v" "val_type v = BOOLEAN"
    by (simp add: GetBooleanValue_Cmp_def Value_int8_def member_value_def new_Value_def Let_def)
  ultimately have "Evaluate F (scan_filter sc) t (schema_of (scan_info sc)) = Inr v" using assms(1-3) by simp
  then show ?thesis using v GetAs_bool_Cmp [OF v(1)] by (simp add: scan_match_def)
qed

text \<open>Keys that can be compared value by value.\<close>

definition keys_comparable :: "double_ops \<Rightarrow> Value list \<Rightarrow> Value list \<Rightarrow> bool" where
  "keys_comparable F = list_all2 (\<lambda>g k. CheckComparable g k \<and> (\<exists>c. Value_CompareEquals F g k = Inr c))"

lemma key_with_null:
  assumes "keys_comparable F gs ks" "g \<in> set gs" "IsNull g"
  shows "key_eq F gs ks = Inr False"
  using assms unfolding keys_comparable_def
proof (induction gs ks rule: list_all2_induct)
  case (Cons x xs y ys)
  show ?case
  proof (cases "IsNull x")
    case True
    then have "Value_CompareEquals F x y = Inr CmpNull" using compare_null [of x y Eq F] Cons.hyps(1) by simp
    then show ?thesis by simp
  next
    case False
    then have "key_eq F xs ys = Inr False" using Cons by auto
    then show ?thesis using Cons.hyps(1) by auto
  qed
qed simp

text \<open>C30. A null among the group-by values of a row, at any position, stops the aggregation with an access outside a vector, if
  it has at least one aggregate and the key can be compared with itself and with the keys of the table: the key differs from
  itself, so the entry made for it is not found again, and \<open>ht_[agg_key]\<close> makes a second one without any aggregates.\<close>

theorem group_by_null_crashes:
  assumes "Next C e w row = Inr (True, row', e', w')"
    and "group_bys plan \<noteq> []" "traverse (\<lambda>g. Evaluate F g (fst row') schema) (group_bys plan) = Inr key"
    and "traverse (\<lambda>a. Evaluate F a (fst row') schema) (agg_exprs plan) = Inr val" "agg_exprs plan \<noteq> []"
    and "hash_key 0 key = Inr h" "null \<in> set key" "IsNull null" "keys_comparable F key key"
    and "\<forall>(h', k, v)\<in>set ht. keys_comparable F key k"
  shows "aggregate_loop (Suc fuel) F C plan schema acc e w row ht = Inl Crash"
proof -
  have none: "um_find (key_eq F) h key m = Inr None" if "\<forall>(h', k, v)\<in>set m. keys_comparable F key k" for m :: agg_table
    using that
  proof (induction m)
    case (Cons a m)
    obtain h' k v where a: "a = (h', k, v)" by (cases a)
    then have "key_eq F key k = Inr False" using Cons.prems key_with_null [OF _ assms(7,8)] by simp
    then show ?case using Cons a by (cases "h = h'") simp_all
  qed simp
  have 1: "um_find (key_eq F) h key ht = Inr None" by (rule none [OF assms(10)])
  have 2: "um_find (key_eq F) h key (ht @ [(h, key, initial_values plan)]) = Inr None"
    by (rule none) (use assms(9,10) in auto)
  obtain n where "length (agg_exprs plan) = Suc n" using assms(5) by (cases "agg_exprs plan") auto
  then have "CombineAggregateValues F plan [] val = Inl Crash"
    by (simp add: CombineAggregateValues_def at_def)
  then have "InsertCombine F plan ht key val = Inl Crash"
    using 1 2 assms(6) by (simp add: InsertCombine_def initial_values_ok nth_append)
  then show ?thesis using assms(1-4) by simp
qed

text \<open>When two left rows have the same key a hash join returns a wrong tuple: the second of the left rows that
  match a right row is joined with the tuple in the variable of the caller, and the loop of \<open>ExecutionEngine::Execute\<close>
  leaves the previous output there. The right columns of the second tuple are read from the first output tuple.\<close>

theorem hash_join_repeated_key:
  assumes "producer L I VL remL [l1, l2]" "producer R I VR remR [r]" "VL l" "VR r0" "I w"
    and "Evaluate F lkey (fst l1) (left_schema plan) = Inr k" "Evaluate F lkey (fst l2) (left_schema plan) = Inr k"
    and "Evaluate F rkey (fst r) (right_schema plan) = Inr k" "HashValue k = Inr h" "hash_join_eq F k k = Inr True"
    and "row_values F (left_schema plan) l1 = Inr vs1" "row_values F (left_schema plan) l2 = Inr vs2"
    and "join_out cfg F plan l1 r = Inr t1" "join_tuple cfg plan (at vs2) (Tuple_GetValue F t1 (right_schema plan)) = Inr t2"
    and "3 \<le> fuel"
  shows "\<exists>st w1 w2. HashJoin_new fuel cfg F L R plan lkey l r0 w = Inr (st, w1) \<and>
    Execute fuel cfg (HashJoin fuel cfg F L R plan rkey) st w1 = Inr ([t1, t2], w2)"
proof -
  note LI = producer.Init_all [OF assms(1)] and LN = producer.Next_row [OF assms(1)] and LE = producer.Next_end [OF assms(1)]
    and RI = producer.Init_all [OF assms(2)] and RN = producer.Next_row [OF assms(2)] and RE = producer.Next_end [OF assms(2)]
  obtain n where n: "fuel = Suc (Suc (Suc n))" using assms(15) by (metis Suc_le_D numeral_3_eq_3 Suc_le_mono)
  obtain la wa where 1: "Init L l w = Inr (la, wa)" "VL la" "I wa" "remL la = [l1, l2]" using LI [OF assms(3,5)] by blast
  obtain ra wb where 2: "Init R r0 wa = Inr (ra, wb)" "VR ra" "I wb" using RI [OF assms(4) 1(3)] by blast
  obtain lb wc where 3: "Next L la wb (fresh_row cfg) = Inr (True, l1, lb, wc)" "VL lb" "I wc" "remL lb = [l2]"
    using LN [OF 1(2) 2(3) 1(4)] by blast
  obtain lc wd where 4: "Next L lb wc l1 = Inr (True, l2, lc, wd)" "VL lc" "I wd" "remL lc = []"
    using LN [OF 3(2-4)] by blast
  obtain x ld we where 5: "Next L lc wd l2 = Inr (False, x, ld, we)" "VL ld" "I we" using LE [OF 4(2-4)] by blast
  let ?ht = "[(h, k, [vs1, vs2])]" and ?J = "HashJoin fuel cfg F L R plan rkey"
  have new: "HashJoin_new fuel cfg F L R plan lkey l r0 w = Inr (HashJoinExecutor ld ra 0 ?ht [], we)"
    using 1(1) 2(1) 3(1) 4(1) 5(1) assms(6,7,9-12) by (simp add: n HashJoin_new_def row_values_def)
  obtain le wf where 6: "Init L ld we = Inr (le, wf)" "VL le" "I wf" using LI [OF 5(2,3)] by blast
  obtain rb wg where 7: "Init R ra wf = Inr (rb, wg)" "VR rb" "I wg" "remR rb = [r]" using RI [OF 2(2) 6(3)] by blast
  obtain rc wh where 8: "Next R rb wg (fresh_row cfg) = Inr (True, r, rc, wh)" "VR rc" "I wh" "remR rc = []"
    using RN [OF 7(2-4)] by blast
  obtain y rd wi where 9: "Next R rc wh (t2, snd r) = Inr (False, y, rd, wi)" using RE [OF 8(2-4)] by blast
  have i: "Init ?J (HashJoinExecutor ld ra 0 ?ht []) we = Inr (HashJoinExecutor le rb 0 ?ht [], wg)"
    using 6(1) 7(1) by (simp add: HashJoin_def HashJoin_Init_def)
  have a1: "(\<lambda>col. at vs1 col) = Tuple_GetValue F (fst l1) (left_schema plan)"
    using row_values_at [OF assms(11)] by auto
  have n1: "Next ?J (HashJoinExecutor le rb 0 ?ht []) wg (fresh_row cfg) =
      Inr (True, (t1, snd r), HashJoinExecutor le rc 1 ?ht [vs1, vs2], wh)"
    using 8(1) assms(8-10,13) a1 by (simp add: n HashJoin_def HashJoin_Next_def join_out_def)
  have n2: "Next ?J (HashJoinExecutor le rc 1 ?ht [vs1, vs2]) wh (t1, snd r) =
      Inr (True, (t2, snd r), HashJoinExecutor le rc 2 ?ht [vs1, vs2], wh)"
    using assms(14) by (simp add: HashJoin_def HashJoin_Next_def numeral_2_eq_2)
  have n3: "Next ?J (HashJoinExecutor le rc 2 ?ht [vs1, vs2]) wh (t2, snd r) =
      Inr (False, y, HashJoinExecutor le rd 2 ?ht [vs1, vs2], wi)"
    using 9 by (simp add: n HashJoin_def HashJoin_Next_def)
  have "Execute fuel cfg ?J (HashJoinExecutor ld ra 0 ?ht []) we = Inr ([t1, t2], wi)"
    using i n1 n2 n3 by (simp add: Execute_def n)
  with new show ?thesis by blast
qed
lemma find_column_cases:
  "if name \<in> column_name ` set cs then \<exists>i. find_column name k cs = Inr i else find_column name k cs = Inl StdLogicError"
  by (induction cs arbitrary: k) auto

text \<open>When the first output columns have names of the table and a later one has not, the handler of the constructor
  pushes the numbers of all columns behind the indexes found before: there are more values than columns, and the
  first tuple that is selected fails the assertion of the tuple constructor.\<close>

theorem scan_missing_name_crashes:
  assumes "columns (scan_schema plan) = cs @ c # cs'" "cs \<noteq> []"
    and "\<forall>c\<in>set cs. column_name c \<in> column_name ` set (columns (schema_of info))"
    and "column_name c \<notin> column_name ` set (columns (schema_of info))"
    and "GetTable cat (scan_table plan) = Some info" "SeqScan_new cat plan = Inr sc"
  shows "length (out_schema_idx sc) = length cs + GetColumnCount (scan_schema plan) \<and>
    (\<forall>vs. traverse (Tuple_GetValue F t (schema_of info)) (out_schema_idx sc) = Inr vs \<longrightarrow> scan_out cfg F sc t = Inl Crash)"
proof -
  let ?s = "schema_of info"
  have found: "\<exists>i. GetColIdx ?s name = Inr i" if "name \<in> column_name ` set (columns ?s)" for name
    using find_column_cases [of name "columns ?s" 0] that by (auto simp: GetColIdx_def)
  have missing: "GetColIdx ?s (column_name c) = Inl StdLogicError"
    using find_column_cases [of "column_name c" "columns ?s" 0] assms(4) by (simp add: GetColIdx_def)
  have "\<exists>idx'. out_schema_loop ?s (cs @ c # cs') idx = (idx @ idx', Some StdLogicError) \<and> length idx' = length cs" for idx
    using assms(3)
  proof (induction cs arbitrary: idx)
    case (Cons a cs)
    obtain i where i: "GetColIdx ?s (column_name a) = Inr i" using found Cons.prems by auto
    have "\<exists>idx'. out_schema_loop ?s (cs @ c # cs') (idx @ [i]) = ((idx @ [i]) @ idx', Some StdLogicError) \<and> length idx' = length cs"
      by (rule Cons.IH) (use Cons.prems in simp)
    then obtain idx' where "out_schema_loop ?s (cs @ c # cs') (idx @ [i]) = (idx @ i # idx', Some StdLogicError)"
      "length idx' = length cs" by auto
    then show ?case using i by (intro exI [of _ "i # idx'"]) simp
  qed (simp add: missing)
  from this [of "[]"] obtain idx where "out_schema_loop ?s (columns (scan_schema plan)) [] = (idx, Some StdLogicError)"
    "length idx = length cs" by (auto simp: assms(1))
  then have sc: "scan_info sc = info" "scan_plan sc = plan" "out_schema_idx sc = idx @ [0..<GetColumnCount (scan_schema plan)]"
    using assms(5,6) by (auto simp: SeqScan_new_def out_schema_indexes_def andThen_Inr)
  have len: "length (out_schema_idx sc) = length cs + GetColumnCount (scan_schema plan)"
    using sc(3) \<open>length idx = length cs\<close> by simp
  have "scan_out cfg F sc t = Inl Crash" if "traverse (Tuple_GetValue F t ?s) (out_schema_idx sc) = Inr vs" for vs
  proof -
    have "length vs = length (out_schema_idx sc)" using that by (auto simp: traverse_Inr dest: list_all2_lengthD)
    then have "length vs \<noteq> GetColumnCount (scan_schema plan)" using len assms(2) by simp
    then show ?thesis using that sc by (simp add: scan_out_def Tuple_new_def ensure_def)
  qed
  with len show ?thesis by blast
qed

end
