(* ===== verification/QueryExamples.thy ===== *)
theory QueryExamples
  imports Queries
begin

section \<open>Queries on the small database\<close>

text \<open>
  The properties of \<open>Queries\<close> at work: scans, a limit, the removal of duplicates, joins and an aggregation on the
  table of \<open>ExampleDatabase\<close>, with their results computed. Then a hash join with a repeated key.
\<close>

definition a_col :: Expression where "a_col = ColumnValueExpression 0 0 INTEGER"
definition b_col :: Expression where "b_col = ColumnValueExpression 0 1 INTEGER"

definition ab_scan :: "Expression \<Rightarrow> seq_scan" where
  "ab_scan p = \<lparr>scan_plan = \<lparr>scan_schema = ab_schema, scan_predicate = Some p, scan_table = 0\<rparr>, scan_info = ab_info,
     out_schema_idx = [0, 1], scan_filter = p\<rparr>"

definition a_is_1 :: Expression where
  "a_is_1 = ComparisonExpression a_col (ConstantValueExpression (int_value int32_t 1)) Equal"

definition all_rows :: Expression where
  "all_rows = ConstantValueExpression (member_value BOOLEAN int8_t (- 128) 1)"

definition out_tuple :: "8 word \<Rightarrow> 8 word \<Rightarrow> tuple" where
  "out_tuple a b = ab_tuple a b (RID_default page_cfg)"

definition ab_rows :: "row list" where
  "ab_rows = [(out_tuple 1 10, \<lparr>page_id_of = 0, slot_num_of = 0\<rparr>), (out_tuple 2 20, \<lparr>page_id_of = 0, slot_num_of = 1\<rparr>),
     (out_tuple 1 30, \<lparr>page_id_of = 1, slot_num_of = 0\<rparr>)]"

lemma scan_computes_checked:
  "list_all (\<lambda>t. \<not> isl (Evaluate F (scan_filter sc) t (schema_of (scan_info sc))) \<and> (scan_match F sc t \<longrightarrow> \<not> isl (scan_out cfg F sc t))) ts \<Longrightarrow>
    scan_computes cfg F sc ts"
  by (auto simp: scan_computes_def list_all_iff isl_def) (metis sum.exhaust)+

lemma ab_scan_computes:
  "scan_computes page_cfg integer_doubles (ab_scan a_is_1) ab_tuples"
  "scan_computes page_cfg integer_doubles (ab_scan all_rows) ab_tuples"
  by (rule scan_computes_checked; code_simp)+

lemma ab_scannable:
  assumes "scan_computes page_cfg integer_doubles (ab_scan p) ab_tuples" "4 \<le> n"
  shows "scannable page_cfg integer_doubles [(ab_heap, [0, 1], ab_tuples)] (ab_scan p) [0, 1] ab_tuples n"
  using assms by (simp add: scannable_def ab_scan_def ab_info_def ab_tuples_def)

theorem seq_scan_correct_witness:
  "\<exists>s w'. Execute 4 page_cfg (bpm_scan 4 page_cfg integer_doubles (ab_scan a_is_1)) (SeqScan_start page_cfg) (s, ab_txn) =
     Inr ([out_tuple 1 10, out_tuple 1 30], w')"
proof -
  obtain s where s: "database page_cfg [(ab_heap, [0, 1], ab_tuples)] ab_txn (s, ab_txn)" by (rule ab_database)
  have "map fst (scan_rows page_cfg integer_doubles (ab_scan a_is_1) ab_tuples) =
    [out_tuple 1 10, out_tuple 1 30]" by code_simp
  with seq_scan_correct [OF s ab_scannable [OF ab_scan_computes(1) order_refl]] show ?thesis by auto
qed

theorem limit_correct_witness:
  "\<exists>s w'. Execute 4 page_cfg (Limit (bpm_scan 4 page_cfg integer_doubles (ab_scan all_rows)) 2)
     (LimitExecutor 0 (SeqScan_start page_cfg)) (s, ab_txn) =
     Inr ([out_tuple 1 10, out_tuple 2 20], w')"
proof -
  obtain s where s: "database page_cfg [(ab_heap, [0, 1], ab_tuples)] ab_txn (s, ab_txn)" by (rule ab_database)
  have "take 2 (map fst (scan_rows page_cfg integer_doubles (ab_scan all_rows) ab_tuples)) =
    [out_tuple 1 10, out_tuple 2 20]" by code_simp
  with limit_correct [OF s ab_scannable [OF ab_scan_computes(2) order_refl], of 2] show ?thesis by auto
qed

text \<open>The column \<open>a\<close> alone, with a repeated value.\<close>

definition a_schema :: Schema where
  "a_schema = Schema_new [int_column ''a'']"

lemma hash_key_integers: "list_all (\<lambda>v. val_type v = INTEGER) ks \<Longrightarrow> \<exists>h. hash_key c ks = Inr h"
  by (induction ks arbitrary: c) (auto simp: HashValue_def)

lemma ab_scan_rows: "scan_rows page_cfg integer_doubles (ab_scan all_rows) ab_tuples = ab_rows"
  by code_simp

lemma keys_ok_checked:
  assumes "map (row_values F schema) xs = map Inr keys" "list_all (list_all (\<lambda>v. val_type v = INTEGER)) keys"
    "list_all (\<lambda>k. list_all (\<lambda>k'. key_eq F k k' = Inr (k = k')) keys) keys"
  shows "keys_ok F schema xs" "map (row_key F schema) xs = keys"
proof -
  have l: "length xs = length keys" using map_eq_imp_length_eq [OF assms(1)] by simp
  have k: "row_values F schema (xs ! i) = Inr (keys ! i)" if "i < length xs" for i
    using arg_cong [OF assms(1), of "\<lambda>l. l ! i"] that l by simp
  then show m: "map (row_key F schema) xs = keys" using l by (auto simp: row_key_def intro!: nth_equalityI)
  have "row_values F schema x = Inr (row_key F schema x) \<and> row_key F schema x \<in> set keys" if "x \<in> set xs" for x
  proof -
    obtain i where "i < length xs" "x = xs ! i" using \<open>x \<in> set xs\<close> by (auto simp: in_set_conv_nth)
    then show ?thesis using k [of i] l by (simp add: row_key_def)
  qed
  moreover have "\<exists>h. hash_key 0 k = Inr h" if "k \<in> set keys" for k
    using that assms(2) hash_key_integers [of k 0] by (simp add: list_all_iff)
  ultimately show "keys_ok F schema xs" using assms(3) by (simp add: keys_ok_def list_all_iff)
qed

theorem distinct_correct_witness:
  "\<exists>s w'. Execute 4 page_cfg (Distinct 4 integer_doubles (bpm_scan 4 page_cfg integer_doubles (ab_scan all_rows)) a_schema)
     (DistinctExecutor [] (SeqScan_start page_cfg)) (s, ab_txn) = Inr ([out_tuple 1 10, out_tuple 2 20], w')"
proof -
  obtain s where s: "database page_cfg [(ab_heap, [0, 1], ab_tuples)] ab_txn (s, ab_txn)" by (rule ab_database)
  let ?keys = "[[int_value int32_t 1], [int_value int32_t 2], [int_value int32_t 1]]"
  have 1: "map (row_values integer_doubles a_schema) ab_rows = map Inr ?keys" by code_simp
  have 2: "list_all (list_all (\<lambda>v. val_type v = INTEGER)) ?keys" by code_simp
  have 3: "list_all (\<lambda>k. list_all (\<lambda>k'. key_eq integer_doubles k k' = Inr (k = k')) ?keys) ?keys" by code_simp
  note k = keys_ok_checked [OF 1 2 3]
  have "int_value int32_t 1 \<noteq> int_value int32_t 2" by code_simp
  then have "map fst (firsts (row_key integer_doubles a_schema) [] ab_rows) = [out_tuple 1 10, out_tuple 2 20]"
    using k(2) by (simp add: ab_rows_def)
  with distinct_correct [OF s ab_scannable [OF ab_scan_computes(2) order_refl], unfolded ab_scan_rows, OF k(1)] show ?thesis by auto
qed

text \<open>The table joined with itself.\<close>

definition ab_join :: join_plan where
  "ab_join = \<lparr>left_schema = ab_schema, right_schema = ab_schema, out_schema =
     Schema_new [(int_column ''a'')\<lparr>column_expr := Some (ColumnValueExpression 0 1 INTEGER)\<rparr>,
       (int_column ''b'')\<lparr>column_expr := Some (ColumnValueExpression 1 1 INTEGER)\<rparr>]\<rparr>"

definition a_is_a :: Expression where
  "a_is_a = ComparisonExpression (ColumnValueExpression 0 0 INTEGER) (ColumnValueExpression 1 0 INTEGER) Equal"

lemma join_computes_checked:
  assumes "list_all (\<lambda>l. list_all (\<lambda>r. \<not> isl (EvaluateJoin F predicate (fst l) (left_schema plan) (fst r) (right_schema plan)) \<and>
     \<not> isl (join_out cfg F plan l r)) rs) ls"
  shows "join_computes cfg F plan predicate ls rs"
proof -
  have a: "\<not> isl (EvaluateJoin F predicate (fst l) (left_schema plan) (fst r) (right_schema plan))" "\<not> isl (join_out cfg F plan l r)"
    if "l \<in> set ls" "r \<in> set rs" for l r using assms that unfolding list_all_iff by blast+
  show ?thesis unfolding join_computes_def using a by (metis isl_def sum.exhaust_sel)
qed

theorem nested_loop_join_correct_witness:
  "\<exists>s w'. Execute 16 page_cfg (NestedLoopJoin 16 page_cfg integer_doubles (bpm_scan 4 page_cfg integer_doubles (ab_scan all_rows))
       (bpm_scan 4 page_cfg integer_doubles (ab_scan all_rows)) ab_join a_is_a)
     (NestedLoopJoinExecutor (SeqScan_start page_cfg) (SeqScan_start page_cfg) (fresh_row page_cfg) False) (s, ab_txn) =
     Inr ([out_tuple 10 10, out_tuple 10 30, out_tuple 20 20, out_tuple 30 10, out_tuple 30 30], w')"
proof -
  obtain s where s: "database page_cfg [(ab_heap, [0, 1], ab_tuples)] ab_txn (s, ab_txn)" by (rule ab_database)
  note sc = ab_scannable [OF ab_scan_computes(2) order_refl]
  have "join_computes page_cfg integer_doubles ab_join a_is_a ab_rows ab_rows" by (rule join_computes_checked) code_simp
  then have r: "join_ready page_cfg integer_doubles ab_join a_is_a ab_rows ab_rows 16" by (simp add: join_ready_def ab_rows_def)
  have "map fst (join_rows page_cfg integer_doubles ab_join a_is_a ab_rows ab_rows) =
    [out_tuple 10 10, out_tuple 10 30, out_tuple 20 20, out_tuple 30 10, out_tuple 30 30]" by code_simp
  with nested_loop_join_correct [OF s sc sc, unfolded ab_scan_rows, OF r] show ?thesis by auto
qed

subsection \<open>A hash join\<close>

lemma map_InrD: "map f xs = map Inr ys \<Longrightarrow> x \<in> set xs \<Longrightarrow> f x = Inr (projr (f x)) \<and> projr (f x) \<in> set ys"
  by (induction xs arbitrary: ys) auto

lemma hash_join_checked:
  assumes "map (\<lambda>x. Evaluate F lk (fst x) (left_schema plan)) ls = map Inr kl"
    "map (\<lambda>x. Evaluate F rk (fst x) (right_schema plan)) rs = map Inr kr" "list_all (\<lambda>k. val_type k = INTEGER) (kl @ kr)"
    "list_all (\<lambda>k. list_all (\<lambda>k'. Value_CompareEquals F k k' = Inr (if k = k' then CmpTrue else CmpFalse)) (kl @ kr)) (kl @ kr)"
    "list_all (\<lambda>l. \<not> isl (row_values F (left_schema plan) l)) ls" "distinct kl"
    "list_all (\<lambda>l. list_all (\<lambda>r. \<not> isl (join_out cfg F plan l r)) rs) ls"
  shows "hash_join_ok cfg F plan lk rk ls rs"
    "keys_decided F (key_of F lk (left_schema plan) ` set ls \<union> key_of F rk (right_schema plan) ` set rs)"
proof -
  let ?l = "key_of F lk (left_schema plan)" and ?r = "key_of F rk (right_schema plan)"
  have l: "Evaluate F lk (fst x) (left_schema plan) = Inr (?l x)" "?l x \<in> set kl" if "x \<in> set ls" for x
    using map_InrD [OF assms(1) that] by (auto simp: key_of_def split: sum.splits)
  have r: "Evaluate F rk (fst x) (right_schema plan) = Inr (?r x)" "?r x \<in> set kr" if "x \<in> set rs" for x
    using map_InrD [OF assms(2) that] by (auto simp: key_of_def split: sum.splits)
  have K: "?l ` set ls \<union> ?r ` set rs \<subseteq> set (kl @ kr)" using l r by auto
  have hashes: "\<exists>h. HashValue k = Inr h" if "k \<in> set (kl @ kr)" for k
    using that assms(3) by (auto simp: list_all_iff HashValue_def)
  have eq: "Value_CompareEquals F k k' = Inr (if k = k' then CmpTrue else CmpFalse)" if "k \<in> set (kl @ kr)" "k' \<in> set (kl @ kr)" for k k'
    using that assms(4) by (simp only: list_all_iff)
  show "keys_decided F (?l ` set ls \<union> ?r ` set rs)" unfolding keys_decided_def using eq K by blast
  have eq': "hash_join_eq F k k' = Inr (k = k')" if "k \<in> set (kl @ kr)" "k' \<in> set (kl @ kr)" for k k'
    using eq [OF that] by (simp add: hash_join_eq_def)
  have "map ?l ls = map projr (map (\<lambda>x. Evaluate F lk (fst x) (left_schema plan)) ls)" using l(1) by simp
  also have "\<dots> = kl" by (simp only: assms(1)) (simp add: comp_def)
  finally have "map ?l ls = kl" .
  then have d: "distinct (map ?l ls)" using assms(6) by simp
  show "hash_join_ok cfg F plan lk rk ls rs"
    unfolding hash_join_ok_def hashable_def Let_def
  proof (intro conjI ballI impI d)
    fix x assume "x \<in> set ls"
    then show "\<exists>vs. row_values F (left_schema plan) x = Inr vs" using assms(5) unfolding list_all_iff by (metis isl_def sum.exhaust_sel)
  next
    fix x y assume "x \<in> set ls" "y \<in> set rs"
    then have "\<not> isl (join_out cfg F plan x y)" using assms(7) unfolding list_all_iff by blast
    then show "\<exists>t. join_out cfg F plan x y = Inr t" by (metis isl_def sum.exhaust_sel)
  next
    fix k k' assume "k \<in> ?l ` set ls \<union> ?r ` set rs" "k' \<in> ?l ` set ls \<union> ?r ` set rs"
    then show "hash_join_eq F k k' = Inr (k = k')" using K by (intro eq') blast+
  qed (use l r hashes in auto)
qed

theorem hash_join_equals_nested_loop_witness:
  "\<exists>s st w1 ts w2.
     HashJoin_new 16 page_cfg integer_doubles (bpm_scan 4 page_cfg integer_doubles (ab_scan all_rows))
       (bpm_scan 4 page_cfg integer_doubles (ab_scan all_rows)) ab_join (ColumnValueExpression 0 1 INTEGER)
       (SeqScan_start page_cfg) (SeqScan_start page_cfg) (s, ab_txn) = Inr (st, w1) \<and>
     Execute 16 page_cfg (HashJoin 16 page_cfg integer_doubles (bpm_scan 4 page_cfg integer_doubles (ab_scan all_rows))
       (bpm_scan 4 page_cfg integer_doubles (ab_scan all_rows)) ab_join (ColumnValueExpression 1 1 INTEGER)) st w1 = Inr (ts, w2) \<and>
     mset ts = {#out_tuple 10 10, out_tuple 20 20, out_tuple 30 30#}"
proof -
  obtain s where s: "database page_cfg [(ab_heap, [0, 1], ab_tuples)] ab_txn (s, ab_txn)" by (rule ab_database)
  note sc = ab_scannable [OF ab_scan_computes(2) order_refl]
  let ?k = "[int_value int32_t 10, int_value int32_t 20, int_value int32_t 30]"
  let ?l = "ColumnValueExpression 0 1 INTEGER" and ?r = "ColumnValueExpression 1 1 INTEGER"
  have c: "map (\<lambda>x. Evaluate integer_doubles ?l (fst x) (left_schema ab_join)) ab_rows = map Inr ?k"
    "map (\<lambda>x. Evaluate integer_doubles ?r (fst x) (right_schema ab_join)) ab_rows = map Inr ?k"
    "list_all (\<lambda>k. val_type k = INTEGER) (?k @ ?k)"
    "list_all (\<lambda>k. list_all (\<lambda>k'. Value_CompareEquals integer_doubles k k' = Inr (if k = k' then CmpTrue else CmpFalse)) (?k @ ?k)) (?k @ ?k)"
    "list_all (\<lambda>l. \<not> isl (row_values integer_doubles (left_schema ab_join) l)) ab_rows" "distinct ?k"
    "list_all (\<lambda>l. list_all (\<lambda>r. \<not> isl (join_out page_cfg integer_doubles ab_join l r)) ab_rows) ab_rows"
    by code_simp+
  have "map fst (join_rows page_cfg integer_doubles ab_join (ComparisonExpression ?l ?r Equal) ab_rows ab_rows) =
    [out_tuple 10 10, out_tuple 20 20, out_tuple 30 30]" by code_simp
  moreover have "Suc (length ab_tuples) * Suc (length ab_tuples) \<le> 16" by (simp add: ab_tuples_def)
  ultimately show ?thesis
    using hash_join_equals_nested_loop [OF s sc sc, unfolded ab_scan_rows, OF hash_join_checked [OF c]] s by fastforce
qed

text \<open>The left column \<open>b\<close> against the right column \<open>a\<close> of the rows with \<open>b = 10\<close>: the second output has \<open>10\<close>, read from the
  first output, where the right row has \<open>1\<close>.\<close>

definition dup_join :: join_plan where
  "dup_join = \<lparr>left_schema = ab_schema, right_schema = ab_schema, out_schema =
     Schema_new [(int_column ''a'')\<lparr>column_expr := Some (ColumnValueExpression 0 1 INTEGER)\<rparr>,
       (int_column ''b'')\<lparr>column_expr := Some (ColumnValueExpression 1 0 INTEGER)\<rparr>]\<rparr>"

definition b_is_10 :: Expression where
  "b_is_10 = ComparisonExpression b_col (ConstantValueExpression (int_value int32_t 10)) Equal"

theorem hash_join_repeated_key_witness:
  "\<exists>s st w1 w2.
     HashJoin_new 4 page_cfg integer_doubles (bpm_scan 4 page_cfg integer_doubles (ab_scan a_is_1))
       (bpm_scan 4 page_cfg integer_doubles (ab_scan b_is_10)) dup_join (ColumnValueExpression 0 0 INTEGER)
       (SeqScan_start page_cfg) (SeqScan_start page_cfg) (s, ab_txn) = Inr (st, w1) \<and>
     Execute 4 page_cfg (HashJoin 4 page_cfg integer_doubles (bpm_scan 4 page_cfg integer_doubles (ab_scan a_is_1))
       (bpm_scan 4 page_cfg integer_doubles (ab_scan b_is_10)) dup_join (ColumnValueExpression 1 0 INTEGER)) st w1 =
       Inr ([out_tuple 10 1, out_tuple 30 10], w2) \<and>
     join_out page_cfg integer_doubles dup_join (out_tuple 1 30, \<lparr>page_id_of = 1, slot_num_of = 0\<rparr>)
       (out_tuple 1 10, \<lparr>page_id_of = 0, slot_num_of = 0\<rparr>) = Inr (out_tuple 30 1)"
proof -
  obtain s where s: "database page_cfg [(ab_heap, [0, 1], ab_tuples)] ab_txn (s, ab_txn)" by (rule ab_database)
  let ?l1 = "(out_tuple 1 10, \<lparr>page_id_of = 0, slot_num_of = 0\<rparr>) :: row"
  let ?l2 = "(out_tuple 1 30, \<lparr>page_id_of = 1, slot_num_of = 0\<rparr>) :: row"
  let ?k = "int_value int32_t 1"
  have rows: "scan_rows page_cfg integer_doubles (ab_scan a_is_1) ab_tuples = [?l1, ?l2]"
    "scan_rows page_cfg integer_doubles (ab_scan b_is_10) ab_tuples = [?l1]" by code_simp+
  have comp: "scan_computes page_cfg integer_doubles (ab_scan b_is_10) ab_tuples" by (rule scan_computes_checked) code_simp
  note sL = ab_scannable [OF ab_scan_computes(1) order_refl] and sR = ab_scannable [OF comp order_refl]
  obtain h where h: "HashValue ?k = Inr h" by (simp add: HashValue_def)
  have c: "Evaluate integer_doubles (ColumnValueExpression 0 0 INTEGER) (fst ?l1) (left_schema dup_join) = Inr ?k"
    "Evaluate integer_doubles (ColumnValueExpression 0 0 INTEGER) (fst ?l2) (left_schema dup_join) = Inr ?k"
    "Evaluate integer_doubles (ColumnValueExpression 1 0 INTEGER) (fst ?l1) (right_schema dup_join) = Inr ?k"
    "hash_join_eq integer_doubles ?k ?k = Inr True"
    "row_values integer_doubles (left_schema dup_join) ?l1 = Inr [?k, int_value int32_t 10]"
    "row_values integer_doubles (left_schema dup_join) ?l2 = Inr [?k, int_value int32_t 30]"
    "join_out page_cfg integer_doubles dup_join ?l1 ?l1 = Inr (out_tuple 10 1)"
    "join_tuple page_cfg dup_join (at [?k, int_value int32_t 30]) (Tuple_GetValue integer_doubles (out_tuple 10 1) (right_schema dup_join)) =
      Inr (out_tuple 30 10)"
    "join_out page_cfg integer_doubles dup_join ?l2 ?l1 = Inr (out_tuple 30 1)"
    by code_simp+
  note P = bpm_scan_producer [of 4 page_cfg integer_doubles "ab_scan a_is_1" "[(ab_heap, [0, 1], ab_tuples)]" ab_txn "[0, 1]" ab_tuples,
      unfolded rows(1)]
    bpm_scan_producer [of 4 page_cfg integer_doubles "ab_scan b_is_10" "[(ab_heap, [0, 1], ab_tuples)]" ab_txn "[0, 1]" ab_tuples,
      unfolded rows(2)]
  have "\<exists>st w1 w2. HashJoin_new 4 page_cfg integer_doubles (bpm_scan 4 page_cfg integer_doubles (ab_scan a_is_1))
       (bpm_scan 4 page_cfg integer_doubles (ab_scan b_is_10)) dup_join (ColumnValueExpression 0 0 INTEGER)
       (SeqScan_start page_cfg) (SeqScan_start page_cfg) (s, ab_txn) = Inr (st, w1) \<and>
     Execute 4 page_cfg (HashJoin 4 page_cfg integer_doubles (bpm_scan 4 page_cfg integer_doubles (ab_scan a_is_1))
       (bpm_scan 4 page_cfg integer_doubles (ab_scan b_is_10)) dup_join (ColumnValueExpression 1 0 INTEGER)) st w1 =
       Inr ([out_tuple 10 1, out_tuple 30 10], w2)"
    by (rule hash_join_repeated_key [OF P scan_start(1) [OF s sL] scan_start(1) [OF s sR] s c(1-3) h c(4-8)]) simp
  with c(9) show ?thesis by blast
qed

subsection \<open>An aggregation\<close>

definition sum_by_a :: aggregation_plan where
  "sum_by_a = \<lparr>having = None, group_bys = [a_col], agg_exprs = [b_col], agg_types = [SumAggregate], agg_out_schema =
     Schema_new [(int_column ''a'')\<lparr>column_expr := Some (AggregateValueExpression True 0 INTEGER)\<rparr>,
       (int_column ''sum'')\<lparr>column_expr := Some (AggregateValueExpression False 0 INTEGER)\<rparr>]\<rparr>"

lemma group_keys_checked:
  assumes "map (agg_key F plan schema (initial_values plan)) xs = map Inr keys" "list_all (list_all (\<lambda>v. val_type v = INTEGER)) keys"
    "list_all (\<lambda>k. list_all (\<lambda>k'. key_eq F k k' = Inr (k = k')) keys) keys"
  shows "group_keys_ok F plan schema xs"
proof -
  have k: "agg_key F plan schema (initial_values plan) x = Inr (agg_key_of F plan schema x)" "agg_key_of F plan schema x \<in> set keys"
    if "x \<in> set xs" for x
    using map_InrD [OF assms(1) that] by (auto simp: agg_key_of_def)
  have h: "\<exists>h. hash_key 0 k = Inr h" if "k \<in> set keys" for k
    using that assms(2) hash_key_integers [of k 0] by (simp add: list_all_iff)
  show ?thesis unfolding group_keys_ok_def using k h assms(3) unfolding list_all_iff by blast
qed

lemma int_inputs_checked:
  assumes "map (agg_input F plan schema) xs = map Inr (map (map (int_value int32_t)) ins)" "list_all (list_all fits_int32) ins"
    "length (agg_types plan) = length (agg_exprs plan)" "length xs < 2147483648"
  shows "int_inputs F plan schema xs"
proof -
  have "list_all (\<lambda>v. int_ok int32_t v \<and> \<not> IsNull v) vs" if "vs \<in> set (map (map (int_value int32_t)) ins)" for vs
    using that assms(2) fits_int32_value(1,2) by (auto simp: list_all_iff)
  then show ?thesis
    unfolding int_inputs_def using assms(3,4) map_InrD [OF assms(1)] by blast
qed

theorem aggregation_correct_witness:
  "\<exists>s st w1 w2. Aggregation_new 4 page_cfg integer_doubles (bpm_scan 4 page_cfg integer_doubles (ab_scan all_rows)) sum_by_a
       ab_schema (SeqScan_start page_cfg) (s, ab_txn) = Inr (st, w1) \<and>
     Execute 4 page_cfg (Aggregation (\<lambda>t. t) page_cfg integer_doubles (bpm_scan 4 page_cfg integer_doubles (ab_scan all_rows)) sum_by_a)
       st w1 = Inr ([out_tuple 1 40, out_tuple 2 20], w2)"
proof -
  obtain s where s: "database page_cfg [(ab_heap, [0, 1], ab_tuples)] ab_txn (s, ab_txn)" by (rule ab_database)
  let ?F = integer_doubles and ?k1 = "[int_value int32_t 1]" and ?k2 = "[int_value int32_t 2]"
  let ?col = "group_column ?F sum_by_a ab_schema ab_rows"
  have c: "map (agg_key ?F sum_by_a ab_schema (initial_values sum_by_a)) ab_rows = map Inr [?k1, ?k2, ?k1]"
    "list_all (list_all (\<lambda>v. val_type v = INTEGER)) [?k1, ?k2, ?k1]"
    "list_all (\<lambda>k. list_all (\<lambda>k'. key_eq ?F k k' = Inr (k = k')) [?k1, ?k2, ?k1]) [?k1, ?k2, ?k1]"
    by code_simp+
  note keys = group_keys_checked [OF c]
  have "map (agg_input ?F sum_by_a ab_schema) ab_rows = map Inr (map (map (int_value int32_t)) [[10], [20], [30]])" by code_simp
  then have ins: "int_inputs ?F sum_by_a ab_schema ab_rows"
    by (rule int_inputs_checked) (simp_all add: fits_int32_def sum_by_a_def ab_rows_def)
  have col: "?col ?k1 0 = [10, 30]" "?col ?k2 0 = [20]" "?k1 \<noteq> ?k2" by code_simp+
  have key: "map (agg_key_of ?F sum_by_a ab_schema) ab_rows = [?k1, ?k2, ?k1]"
    using arg_cong [OF c(1), of "map projr"] by (simp add: comp_def agg_key_of_def [abs_def])
  then have k: "agg_key_of ?F sum_by_a ab_schema x \<in> {?k1, ?k2}" if "x \<in> set ab_rows" for x
    using that by (auto simp: ab_rows_def)
  have types: "agg_types sum_by_a = [SumAggregate]" by (simp add: sum_by_a_def)
  have sums: "fits_int32 (sum_list (take m [10, 30]))" "fits_int32 (sum_list (take m [20]))" for m
    by (cases m; cases "m - 1"; simp add: fits_int32_def)+
  have "fits_int32 (sum_list (take m (?col k 0)))" if "k \<in> {?k1, ?k2}" for k m
    using that sums [of m] col(1,2) by (elim insertE emptyE) simp_all
  then have fit: "sums_fit ?F sum_by_a ab_schema ab_rows"
    using k by (simp add: sums_fit_def types)
  have gs: "map snd (int_groups ?F sum_by_a ab_schema ab_rows) = [(?k1, [int_value int32_t 40]), (?k2, [int_value int32_t 20])]"
    using key col by (simp add: int_groups_def ab_rows_def types)
  have out: "agg_keep ?F sum_by_a (?k1, [int_value int32_t 40]) = Inr True"
    "agg_out page_cfg ?F sum_by_a (?k1, [int_value int32_t 40]) = Inr (out_tuple 1 40)"
    "agg_keep ?F sum_by_a (?k2, [int_value int32_t 20]) = Inr True"
    "agg_out page_cfg ?F sum_by_a (?k2, [int_value int32_t 20]) = Inr (out_tuple 2 20)" by code_simp+
  have "agg_computes page_cfg ?F sum_by_a [(?k1, [int_value int32_t 40]), (?k2, [int_value int32_t 20])]"
    unfolding agg_computes_def using out by (auto intro: exI [of _ True])
  moreover have "agg_tuples page_cfg ?F sum_by_a [(?k1, [int_value int32_t 40]), (?k2, [int_value int32_t 20])] =
    [out_tuple 1 40, out_tuple 2 20]" using out by (simp add: agg_tuples_def)
  ultimately show ?thesis
    using aggregation_correct [OF s ab_scannable [OF ab_scan_computes(2) order_refl], unfolded ab_scan_rows,
      OF keys ins fit, of "\<lambda>t. t", unfolded gs, OF refl] by metis
qed

subsection \<open>Nulls and names\<close>

definition null_int :: Value where
  "null_int = int_value int32_t (null_of int32_t)"

lemma null_int: "IsNull null_int" "val_type null_int = INTEGER" "CheckComparable null_int null_int"
  "CheckComparable null_int (int_value int32_t i)"
  by (simp_all add: null_int_def CheckComparable_def numeric_or_varchar_def wrap_def null_of_def limit_defs)

theorem null_predicate_selects_witness:
  "scan_match integer_doubles (ab_scan (ComparisonExpression (ConstantValueExpression null_int)
     (ConstantValueExpression (int_value int32_t 1)) NotEqual)) (out_tuple 1 10)"
  using null_predicate_selects [of "ab_scan (ComparisonExpression (ConstantValueExpression null_int)
     (ConstantValueExpression (int_value int32_t 1)) NotEqual)" "ConstantValueExpression null_int"
     "ConstantValueExpression (int_value int32_t 1)" NotEqual integer_doubles "out_tuple 1 10" null_int "int_value int32_t 1"] null_int
  by (simp add: ab_scan_def)

text \<open>Executors over a list of rows, with which the last two properties are applied.\<close>

definition Rows :: "(row list, 'w) executor" where
  "Rows = \<lparr>Init = (\<lambda>rs w. Inr (rs, w)), Next = (\<lambda>rs w row. Inr (case rs of [] \<Rightarrow> (False, row, [], w) | r # rs \<Rightarrow> (True, r, rs, w)))\<rparr>"

definition count_by_null :: aggregation_plan where
  "count_by_null = \<lparr>having = None, group_bys = [ConstantValueExpression null_int], agg_exprs = [b_col], agg_types = [CountAggregate],
     agg_out_schema = ab_schema\<rparr>"

theorem group_by_null_crashes_witness:
  "aggregate_loop 2 integer_doubles Rows count_by_null ab_schema [] [(out_tuple 1 10, RID_default page_cfg)] () (fresh_row page_cfg) [] =
     Inl Crash"
proof -
  have "Evaluate integer_doubles b_col (out_tuple 1 10) ab_schema = Inr (int_value int32_t 10)" by code_simp
  moreover have "keys_comparable integer_doubles [null_int] [null_int]"
    using compare_null [OF null_int(3), of Eq integer_doubles] null_int by (simp add: keys_comparable_def)
  ultimately show ?thesis
    using group_by_null_crashes [of Rows "[(out_tuple 1 10, RID_default page_cfg)]" "()" "fresh_row page_cfg"
        "(out_tuple 1 10, RID_default page_cfg)" "[]" "()" count_by_null integer_doubles ab_schema "[null_int]"
        "[int_value int32_t 10]" 0 null_int "[]" 1 "[]"] null_int
    by (simp add: Rows_def count_by_null_def numeral_2_eq_2)
qed

definition renamed_plan :: seq_scan_plan where
  "renamed_plan = \<lparr>scan_schema = Schema_new [int_column ''a'', int_column ''c''], scan_predicate = None, scan_table = 0\<rparr>"

theorem scan_missing_name_crashes_witness:
  "\<exists>sc. SeqScan_new ((Catalog :: unit catalog)\<lparr>tables_by_oid := [0 \<mapsto> ab_info]\<rparr>) renamed_plan = Inr sc \<and>
     out_schema_idx sc = [0, 0, 1] \<and> scan_out page_cfg integer_doubles sc (out_tuple 1 10) = Inl Crash"
proof -
  let ?cat = "(Catalog :: unit catalog)\<lparr>tables_by_oid := [0 \<mapsto> ab_info]\<rparr>"
  have "map_sum id out_schema_idx (SeqScan_new ?cat renamed_plan) = Inr [0, 0, 1]" by code_simp
  then obtain sc where sc: "SeqScan_new ?cat renamed_plan = Inr sc" "out_schema_idx sc = [0, 0, 1]"
    by (cases "SeqScan_new ?cat renamed_plan") auto
  have v: "\<exists>vs. traverse (Tuple_GetValue integer_doubles (out_tuple 1 10) (schema_of ab_info)) [0, 0, 1] = Inr vs"
    by (rule exI [of _ "[int_value int32_t 1, int_value int32_t 1, int_value int32_t 10]"]) code_simp
  have cols: "columns (scan_schema renamed_plan) = [int_column ''a''] @ (int_column ''c'')\<lparr>column_offset := 4\<rparr> # []" by code_simp
  have names: "map column_name (columns (schema_of ab_info)) = [''a'', ''b'']" by code_simp
  have "column_name ` set (columns (schema_of ab_info)) = {''a'', ''b''}"
    using arg_cong [OF names, of set] by simp
  then show ?thesis
    using scan_missing_name_crashes [OF cols, of ab_info ?cat sc integer_doubles "out_tuple 1 10" page_cfg] sc v
    by (simp add: GetTable_def int_column_def renamed_plan_def)
qed

end
