(* ===== verification/LockManager.thy ===== *)
theory LockManager
  imports Transactions
begin

section \<open>The lock manager\<close>

text \<open>
  \<^verbatim>\<open>src/concurrency/lock_manager.cpp\<close>. Every call runs under \<^verbatim>\<open>latch_\<close> from its start to its end or to
  the point where it waits on the condition variable of a queue, which gives the latch up; so a call is one
  step up to the wait, and one more step when the waiting thread runs again and finds its condition true
  (\<open>LockShared_wake\<close> and its siblings; a thread that finds it false waits on). \<open>txns\<close> is
  the memory the \<^verbatim>\<open>Transaction *\<close> point into. Dereferencing \<^verbatim>\<open>end()\<close> or a null pointer is \<^term>\<open>None\<close>.
\<close>

subsection \<open>State\<close>

type_synonym txn_ptr = nat

datatype LockMode = SHARED | EXCLUSIVE

record LockRequest =
  req_txn_id :: txn_id_t
  lock_mode :: LockMode
  granted :: bool

record LockRequestQueue =
  request_queue :: "LockRequest list"
  upgrading :: bool
  sharing_count :: int
  is_writing :: bool

record lock_manager =
  lock_table :: "rid \<rightharpoonup> LockRequestQueue"
  id_2_txn :: "txn_id_t \<rightharpoonup> txn_ptr"
  txns :: "txn_ptr \<Rightarrow> transaction"

datatype lock_result = Returned bool | Thrown TransactionAbortException | Waits

definition empty_queue :: LockRequestQueue where
  "empty_queue = \<lparr>request_queue = [], upgrading = False, sharing_count = 0, is_writing = False\<rparr>"

definition set_queue :: "lock_manager \<Rightarrow> rid \<Rightarrow> LockRequestQueue \<Rightarrow> lock_manager" where
  "set_queue m rid q = m\<lparr>lock_table := (lock_table m)(rid \<mapsto> q)\<rparr>"

definition upd_txn :: "lock_manager \<Rightarrow> txn_ptr \<Rightarrow> (transaction \<Rightarrow> transaction) \<Rightarrow> lock_manager" where
  "upd_txn m p f = m\<lparr>txns := (txns m)(p := f (txns m p))\<rparr>"

definition exn :: "transaction \<Rightarrow> AbortReason \<Rightarrow> lock_result" where
  "exn t r = Thrown \<lparr>exn_txn_id = txn_id t, abort_reason = r\<rparr>"

subsection \<open>Helpers\<close>

text \<open>\<open>GetIterator\<close> gives the position of the first request of a transaction; \<^term>\<open>None\<close> is \<^verbatim>\<open>end()\<close>.\<close>

fun GetIterator :: "LockRequest list \<Rightarrow> txn_id_t \<Rightarrow> nat option" where
  "GetIterator [] n = None"
| "GetIterator (r # rs) n = (if req_txn_id r = n then Some 0 else map_option Suc (GetIterator rs n))"

definition erase :: "nat \<Rightarrow> 'a list \<Rightarrow> 'a list" where
  "erase i xs = take i xs @ drop (Suc i) xs"

definition emplace_txn :: "lock_manager \<Rightarrow> txn_ptr \<Rightarrow> lock_manager" where
  "emplace_txn m p = (let n = txn_id (txns m p) in
     if id_2_txn m n = None then m\<lparr>id_2_txn := (id_2_txn m)(n \<mapsto> p)\<rparr> else m)"

definition LockPrepare :: "lock_manager \<Rightarrow> txn_ptr \<Rightarrow> rid \<Rightarrow> lock_result option \<times> lock_manager" where
  "LockPrepare m p rid =
     (if txn_state (txns m p) = SHRINKING
      then (Some (exn (txns m p) LOCK_ON_SHRINKING), upd_txn m p (SetState ABORTED))
      else (None, if lock_table m rid = None then set_queue m rid empty_queue else m))"

definition CheckAborted :: "transaction \<Rightarrow> LockRequestQueue \<Rightarrow> (lock_result option \<times> LockRequestQueue) option" where
  "CheckAborted t q =
     (if txn_state t = ABORTED
      then do {
        i \<leftarrow> GetIterator (request_queue q) (txn_id t);
        Some (Some (exn t DEADLOCK), q\<lparr>request_queue := erase i (request_queue q)\<rparr>)
      }
      else Some (None, q))"

text \<open>The loop of \<open>DeadlockPrevent\<close> reads the requests and changes the two counters and the state of other
  transactions.\<close>

fun wound :: "txn_id_t \<Rightarrow> LockRequest list \<Rightarrow> LockRequestQueue \<Rightarrow> lock_manager \<Rightarrow>
    (LockRequestQueue \<times> lock_manager) option" where
  "wound n [] q m = Some (q, m)"
| "wound n (r # rs) q m =
     (if granted r \<and> req_txn_id r > n
      then do {
        p \<leftarrow> id_2_txn m (req_txn_id r);
        let m = upd_txn m p (SetState ABORTED);
        wound n rs (if lock_mode r = SHARED then q\<lparr>sharing_count := sharing_count q - 1\<rparr> else q\<lparr>is_writing := False\<rparr>) m
      }
      else wound n rs q m)"

definition DeadlockPrevent :: "lock_manager \<Rightarrow> txn_ptr \<Rightarrow> rid \<Rightarrow> lock_manager option" where
  "DeadlockPrevent m p rid = do {
     q \<leftarrow> lock_table m rid;
     (q, m) \<leftarrow> wound (txn_id (txns m p)) (request_queue q) q m;
     Some (set_queue m rid q)
   }"

definition grant :: "LockRequestQueue \<Rightarrow> txn_id_t \<Rightarrow> LockRequestQueue option" where
  "grant q n = do {
     i \<leftarrow> GetIterator (request_queue q) n;
     Some (q\<lparr>request_queue := (request_queue q)[i := (request_queue q ! i)\<lparr>granted := True\<rparr>]\<rparr>)
   }"

definition push_request :: "LockRequestQueue \<Rightarrow> txn_id_t \<Rightarrow> LockMode \<Rightarrow> LockRequestQueue" where
  "push_request q n mode = q\<lparr>request_queue := request_queue q @ [\<lparr>req_txn_id = n, lock_mode = mode, granted = False\<rparr>]\<rparr>"

subsection \<open>Shared locks\<close>

text \<open>\<open>..._finish\<close> is the code behind the wait, \<open>..._wake\<close> the evaluation of the condition of the wait.\<close>

definition can_share :: "transaction \<Rightarrow> LockRequestQueue \<Rightarrow> bool" where
  "can_share t q \<longleftrightarrow> txn_state t = ABORTED \<or> \<not> is_writing q"

definition LockShared_finish :: "lock_manager \<Rightarrow> txn_ptr \<Rightarrow> rid \<Rightarrow> (lock_result \<times> lock_manager) option" where
  "LockShared_finish m p rid = do {
     q \<leftarrow> lock_table m rid;
     let t = txns m p;
     (e, q) \<leftarrow> CheckAborted t q;
     case e of
       Some e \<Rightarrow> Some (e, set_queue m rid q)
     | None \<Rightarrow> do {
         let m = upd_txn m p (\<lambda>t. t\<lparr>shared_lock_set := insert rid (shared_lock_set t)\<rparr>);
         let q = q\<lparr>sharing_count := sharing_count q + 1\<rparr>;
         q \<leftarrow> grant q (txn_id t);
         Some (Returned True, set_queue m rid q)
       }
   }"

definition LockShared_wake :: "lock_manager \<Rightarrow> txn_ptr \<Rightarrow> rid \<Rightarrow> (lock_result \<times> lock_manager) option" where
  "LockShared_wake m p rid = do {
     q \<leftarrow> lock_table m rid;
     if can_share (txns m p) q then LockShared_finish m p rid else Some (Waits, m)
   }"

definition LockShared :: "lock_manager \<Rightarrow> txn_ptr \<Rightarrow> rid \<Rightarrow> (lock_result \<times> lock_manager) option" where
  "LockShared m p rid = (let m = emplace_txn m p; t = txns m p in
     if isolation_level t = READ_UNCOMMITTED
     then Some (exn t LOCKSHARED_ON_READ_UNCOMMITTED, upd_txn m p (SetState ABORTED))
     else case LockPrepare m p rid of
       (Some e, m) \<Rightarrow> Some (e, m)
     | (None, m) \<Rightarrow> do {
         q \<leftarrow> lock_table m rid;
         let q = push_request q (txn_id t) SHARED;
         let m = set_queue m rid q;
         if is_writing q
         then do { m \<leftarrow> DeadlockPrevent m p rid; LockShared_wake m p rid }
         else LockShared_finish m p rid
       })"

subsection \<open>Exclusive locks\<close>

definition can_write :: "transaction \<Rightarrow> LockRequestQueue \<Rightarrow> bool" where
  "can_write t q \<longleftrightarrow> txn_state t = ABORTED \<or> \<not> is_writing q \<and> sharing_count q = 0"

definition LockExclusive_finish :: "lock_manager \<Rightarrow> txn_ptr \<Rightarrow> rid \<Rightarrow> (lock_result \<times> lock_manager) option" where
  "LockExclusive_finish m p rid = do {
     q \<leftarrow> lock_table m rid;
     let t = txns m p;
     (e, q) \<leftarrow> CheckAborted t q;
     case e of
       Some e \<Rightarrow> Some (e, set_queue m rid q)
     | None \<Rightarrow> do {
         let m = upd_txn m p (\<lambda>t. t\<lparr>exclusive_lock_set := insert rid (exclusive_lock_set t)\<rparr>);
         let q = q\<lparr>is_writing := True\<rparr>;
         q \<leftarrow> grant q (txn_id t);
         Some (Returned True, set_queue m rid q)
       }
   }"

definition LockExclusive_wake :: "lock_manager \<Rightarrow> txn_ptr \<Rightarrow> rid \<Rightarrow> (lock_result \<times> lock_manager) option" where
  "LockExclusive_wake m p rid = do {
     q \<leftarrow> lock_table m rid;
     if can_write (txns m p) q then LockExclusive_finish m p rid else Some (Waits, m)
   }"

definition LockExclusive :: "lock_manager \<Rightarrow> txn_ptr \<Rightarrow> rid \<Rightarrow> (lock_result \<times> lock_manager) option" where
  "LockExclusive m p rid = (let m = emplace_txn m p; t = txns m p in
     case LockPrepare m p rid of
       (Some e, m) \<Rightarrow> Some (e, m)
     | (None, m) \<Rightarrow> do {
         q \<leftarrow> lock_table m rid;
         let q = push_request q (txn_id t) EXCLUSIVE;
         let m = set_queue m rid q;
         if is_writing q \<or> sharing_count q > 0
         then do { m \<leftarrow> DeadlockPrevent m p rid; LockExclusive_wake m p rid }
         else LockExclusive_finish m p rid
       })"

subsection \<open>Upgrades\<close>

definition LockUpgrade_finish :: "lock_manager \<Rightarrow> txn_ptr \<Rightarrow> rid \<Rightarrow> (lock_result \<times> lock_manager) option" where
  "LockUpgrade_finish m p rid = do {
     q \<leftarrow> lock_table m rid;
     let t = txns m p;
     (e, q) \<leftarrow> CheckAborted t q;
     case e of
       Some e \<Rightarrow> Some (e, set_queue m rid q)
     | None \<Rightarrow> do {
         let m = upd_txn m p (\<lambda>t. t\<lparr>exclusive_lock_set := insert rid (exclusive_lock_set t)\<rparr>);
         let q = q\<lparr>upgrading := False, is_writing := True\<rparr>;
         q \<leftarrow> grant q (txn_id t);
         Some (Returned True, set_queue m rid q)
       }
   }"

definition LockUpgrade_wake :: "lock_manager \<Rightarrow> txn_ptr \<Rightarrow> rid \<Rightarrow> (lock_result \<times> lock_manager) option" where
  "LockUpgrade_wake m p rid = do {
     q \<leftarrow> lock_table m rid;
     if can_write (txns m p) q then LockUpgrade_finish m p rid else Some (Waits, m)
   }"

definition LockUpgrade :: "lock_manager \<Rightarrow> txn_ptr \<Rightarrow> rid \<Rightarrow> (lock_result \<times> lock_manager) option" where
  "LockUpgrade m p rid = (let t = txns m p in
     if txn_state t = SHRINKING
     then Some (exn t LOCK_ON_SHRINKING, upd_txn m p (SetState ABORTED))
     else do {
       q \<leftarrow> lock_table m rid;
       if upgrading q
       then Some (exn t UPGRADE_CONFLICT, upd_txn m p (SetState ABORTED))
       else do {
         let m = upd_txn m p (\<lambda>t. t\<lparr>shared_lock_set := shared_lock_set t - {rid}\<rparr>);
         let q = q\<lparr>sharing_count := sharing_count q - 1\<rparr>;
         i \<leftarrow> GetIterator (request_queue q) (txn_id t);
         let q = q\<lparr>request_queue := (request_queue q)[i :=
           (request_queue q ! i)\<lparr>lock_mode := EXCLUSIVE, granted := False\<rparr>]\<rparr>;
         let m = set_queue m rid q;
         if is_writing q \<or> sharing_count q > 0
         then do {
           m \<leftarrow> DeadlockPrevent m p rid;
           q \<leftarrow> lock_table m rid;
           LockUpgrade_wake (set_queue m rid (q\<lparr>upgrading := True\<rparr>)) p rid
         }
         else LockUpgrade_finish m p rid
       }
     })"

subsection \<open>Unlocking\<close>

text \<open>The first result is the one of the call, the second says whether it woke the threads that wait.\<close>

definition Unlock :: "lock_manager \<Rightarrow> txn_ptr \<Rightarrow> rid \<Rightarrow> ((bool \<times> bool) \<times> lock_manager) option" where
  "Unlock m p rid = do {
     q \<leftarrow> lock_table m rid;
     let m = upd_txn m p (\<lambda>t. t\<lparr>shared_lock_set := shared_lock_set t - {rid},
       exclusive_lock_set := exclusive_lock_set t - {rid}\<rparr>);
     let t = txns m p;
     i \<leftarrow> GetIterator (request_queue q) (txn_id t);
     let mode = lock_mode (request_queue q ! i);
     let q = q\<lparr>request_queue := erase i (request_queue q)\<rparr>;
     let m = (if \<not> (mode = SHARED \<and> isolation_level t = READ_COMMITTED) \<and> txn_state t = GROWING
       then upd_txn m p (SetState SHRINKING) else m);
     if mode = SHARED
     then do {
       let q = q\<lparr>sharing_count := sharing_count q - 1\<rparr>;
       Some ((True, sharing_count q = 0), set_queue m rid q)
     }
     else Some ((True, True), set_queue m rid (q\<lparr>is_writing := False\<rparr>))
   }"

end
