(* ===== verification/LockManagerSpec.thy ===== *)
theory LockManagerSpec
  imports LockManager
begin

section \<open>What the lock manager promises\<close>

text \<open>
  The lock manager among its transactions is a transition system: a thread calls it, is blocked when the call
  waits, and runs again later. \<open>lock_reachable\<close> are all its states, \<open>calm_reachable\<close> those of histories in
  which no request meets a granted request of a younger transaction, so that nobody is wounded. In every history locking is
  two-phase. Calm histories keep the counters equal to the number of holders, exclude a writer from all others
  and serve a thread that waits when the last lock in its way is released. Wounding breaks the counters.
\<close>

subsection \<open>The transition system\<close>

datatype wait_kind = Wait_Shared | Wait_Exclusive | Wait_Upgrade

record lock_system =
  mgr :: lock_manager
  blocked :: "txn_ptr \<rightharpoonup> wait_kind \<times> rid"

text \<open>\<open>Finish\<close> is what \<^verbatim>\<open>TransactionManager\<close> does to the state of a transaction when it commits or aborts it.\<close>

datatype lock_event = Call wait_kind txn_ptr rid | Release txn_ptr rid | Resume txn_ptr | Finish txn_ptr TransactionState

fun lock_call :: "wait_kind \<Rightarrow> lock_manager \<Rightarrow> txn_ptr \<Rightarrow> rid \<Rightarrow> (lock_result \<times> lock_manager) option" where
  "lock_call Wait_Shared = LockShared"
| "lock_call Wait_Exclusive = LockExclusive"
| "lock_call Wait_Upgrade = LockUpgrade"

fun lock_wake :: "wait_kind \<Rightarrow> lock_manager \<Rightarrow> txn_ptr \<Rightarrow> rid \<Rightarrow> (lock_result \<times> lock_manager) option" where
  "lock_wake Wait_Shared = LockShared_wake"
| "lock_wake Wait_Exclusive = LockExclusive_wake"
| "lock_wake Wait_Upgrade = LockUpgrade_wake"

definition requests :: "LockRequest list \<Rightarrow> txn_id_t \<rightharpoonup> LockMode \<times> bool" where
  "requests rs = map_of (map (\<lambda>r. (req_txn_id r, (lock_mode r, granted r))) rs)"

definition request_at :: "lock_manager \<Rightarrow> rid \<Rightarrow> txn_ptr \<Rightarrow> (LockMode \<times> bool) option" where
  "request_at m rid p = (case lock_table m rid of
     None \<Rightarrow> None | Some q \<Rightarrow> requests (request_queue q) (txn_id (txns m p)))"

definition locks :: "lock_system \<Rightarrow> txn_ptr \<Rightarrow> rid set" where
  "locks s p = shared_lock_set (txns (mgr s) p) \<union> exclusive_lock_set (txns (mgr s) p)"

text \<open>What the header of \<^verbatim>\<open>lock_manager.h\<close> asks of the callers: a transaction locks a record once, upgrades a
  shared lock, and releases what it holds. A thread that is blocked makes no call.\<close>

fun permitted :: "lock_system \<Rightarrow> lock_event \<Rightarrow> bool" where
  "permitted s (Call k p rid) \<longleftrightarrow> blocked s p = None \<and>
     (if k = Wait_Upgrade then rid \<in> shared_lock_set (txns (mgr s) p) else request_at (mgr s) rid p = None)"
| "permitted s (Release p rid) \<longleftrightarrow> blocked s p = None \<and> rid \<in> locks s p"
| "permitted s (Resume p) \<longleftrightarrow> blocked s p \<noteq> None"
| "permitted s (Finish p st) \<longleftrightarrow> blocked s p = None \<and> (st = COMMITTED \<or> st = ABORTED)"

fun lock_do :: "lock_system \<Rightarrow> lock_event \<Rightarrow> lock_system option" where
  "lock_do s (Call k p rid) = do {
     (res, m) \<leftarrow> lock_call k (mgr s) p rid;
     Some (s\<lparr>mgr := m, blocked := (if res = Waits then (blocked s)(p \<mapsto> (k, rid)) else blocked s)\<rparr>)
   }"
| "lock_do s (Release p rid) = do { (res, m) \<leftarrow> Unlock (mgr s) p rid; Some (s\<lparr>mgr := m\<rparr>) }"
| "lock_do s (Resume p) = do {
     (k, rid) \<leftarrow> blocked s p;
     (res, m) \<leftarrow> lock_wake k (mgr s) p rid;
     Some (s\<lparr>mgr := m, blocked := (if res = Waits then blocked s else (blocked s)(p := None))\<rparr>)
   }"
| "lock_do s (Finish p st) = Some (s\<lparr>mgr := upd_txn (mgr s) p (SetState st)\<rparr>)"

definition lock_step :: "lock_system \<Rightarrow> lock_event \<Rightarrow> lock_system \<Rightarrow> bool" where
  "lock_step s e s' \<longleftrightarrow> permitted s e \<and> lock_do s e = Some s'"

definition fresh_system :: "lock_system \<Rightarrow> bool" where
  "fresh_system s \<longleftrightarrow> lock_table (mgr s) = Map.empty \<and> id_2_txn (mgr s) = Map.empty \<and> blocked s = Map.empty \<and>
     inj (\<lambda>p. txn_id (txns (mgr s) p)) \<and> (\<forall>p. locks s p = {} \<and> txn_state (txns (mgr s) p) = GROWING)"

inductive lock_reachable :: "lock_system \<Rightarrow> bool" where
  lock_init: "fresh_system s \<Longrightarrow> lock_reachable s"
| lock_more: "lock_reachable s \<Longrightarrow> lock_step s e s' \<Longrightarrow> lock_reachable s'"

text \<open>No granted request of the record is younger than the caller.\<close>

definition wounds_nobody :: "lock_manager \<Rightarrow> txn_ptr \<Rightarrow> rid \<Rightarrow> bool" where
  "wounds_nobody m p rid \<longleftrightarrow> (case lock_table m rid of None \<Rightarrow> True
     | Some q \<Rightarrow> list_all (\<lambda>r. granted r \<longrightarrow> req_txn_id r \<le> txn_id (txns m p)) (request_queue q))"

fun calm :: "lock_system \<Rightarrow> lock_event \<Rightarrow> bool" where
  "calm s (Call k p rid) \<longleftrightarrow> wounds_nobody (mgr s) p rid"
| "calm s _ \<longleftrightarrow> True"

inductive calm_reachable :: "lock_system \<Rightarrow> bool" where
  calm_init: "fresh_system s \<Longrightarrow> calm_reachable s"
| calm_more: "calm_reachable s \<Longrightarrow> lock_step s e s' \<Longrightarrow> calm s e \<Longrightarrow> calm_reachable s'"

fun lock_run :: "lock_system \<Rightarrow> lock_event list \<Rightarrow> lock_system option" where
  "lock_run s [] = Some s"
| "lock_run s (e # es) = (if permitted s e then do { s \<leftarrow> lock_do s e; lock_run s es } else None)"

lemma lock_run_reachable: "lock_reachable s \<Longrightarrow> lock_run s es = Some s' \<Longrightarrow> lock_reachable s'"
proof (induction es arbitrary: s)
  case (Cons e es)
  then obtain s1 where "lock_step s e s1" "lock_run s1 es = Some s'"
    by (auto simp: lock_step_def bind_eq_Some_conv split: if_splits)
  then show ?case using Cons lock_more by blast
qed simp

lemma calm_is_reachable: "calm_reachable s \<Longrightarrow> lock_reachable s"
  by (induction rule: calm_reachable.induct) (auto intro: lock_init lock_more)

subsection \<open>Queues as maps\<close>

definition queue_ids :: "LockRequest list \<Rightarrow> txn_id_t list" where
  "queue_ids rs = map req_txn_id rs"

lemma requests_Nil [simp]: "requests [] = Map.empty"
  by (simp add: requests_def)

lemma requests_Cons: "requests (r # rs) = (requests rs)(req_txn_id r \<mapsto> (lock_mode r, granted r))"
  by (simp add: requests_def)

lemma requests_dom: "requests rs n = None \<longleftrightarrow> n \<notin> set (queue_ids rs)"
  by (auto simp: requests_def queue_ids_def map_of_eq_None_iff image_iff)

lemma requests_append:
  "n \<notin> set (queue_ids rs) \<Longrightarrow>
    requests (rs @ [\<lparr>req_txn_id = n, lock_mode = k, granted = g\<rparr>]) = (requests rs)(n \<mapsto> (k, g))"
  using requests_dom [of rs n] by (auto simp: requests_def map_add_def fun_eq_iff split: option.split)

lemma GetIterator_None: "GetIterator rs n = None \<longleftrightarrow> requests rs n = None"
  by (induction rs) (auto simp: requests_def)

lemma GetIterator_Some:
  assumes "GetIterator rs n = Some i"
  shows "i < length rs" "req_txn_id (rs ! i) = n" "requests rs n = Some (lock_mode (rs ! i), granted (rs ! i))"
  using assms by (induction rs arbitrary: i) (auto simp: requests_def split: if_splits)

lemma requests_update:
  assumes "GetIterator rs n = Some i" and "req_txn_id r = n"
  shows "requests (rs[i := r]) = (requests rs)(n \<mapsto> (lock_mode r, granted r))" "queue_ids (rs[i := r]) = queue_ids rs"
proof -
  show "requests (rs[i := r]) = (requests rs)(n \<mapsto> (lock_mode r, granted r))"
    using assms by (induction rs arbitrary: i) (auto simp: requests_def fun_eq_iff split: if_splits)
  show "queue_ids (rs[i := r]) = queue_ids rs"
    using GetIterator_Some [OF assms(1)] assms(2) by (simp add: queue_ids_def map_update list_update_same_conv)
qed

lemma erase_ids: "queue_ids (erase i rs) = erase i (queue_ids rs)"
  by (simp add: erase_def queue_ids_def take_map drop_map)

lemma distinct_erase: "distinct xs \<Longrightarrow> distinct (erase i xs)"
proof -
  assume "distinct xs"
  moreover have "drop (Suc i) xs = tl (drop i xs)" by (simp add: drop_Suc tl_drop)
  moreover have "distinct (take i xs @ tl (drop i xs))" if "distinct (take i xs @ drop i xs)"
    using that by (cases "drop i xs") auto
  ultimately show ?thesis by (simp add: erase_def)
qed

lemma requests_erase:
  assumes "GetIterator rs n = Some i" and "distinct (queue_ids rs)"
  shows "requests (erase i rs) = (requests rs)(n := None)" "distinct (queue_ids (erase i rs))"
proof -
  show "requests (erase i rs) = (requests rs)(n := None)"
    using assms
  proof (induction rs arbitrary: i)
    case (Cons r rs)
    show ?case
    proof (cases "req_txn_id r = n")
      case True
      then have "requests rs n = None" using Cons.prems(2) by (simp add: requests_dom queue_ids_def)
      then show ?thesis using True Cons.prems by (auto simp: erase_def requests_Cons fun_eq_iff)
    next
      case False
      then obtain j where j: "i = Suc j" "GetIterator rs n = Some j" using Cons.prems by auto
      have "erase i (r # rs) = r # erase j rs" by (simp add: erase_def j(1))
      then show ?thesis
        using False Cons.IH [OF j(2)] Cons.prems(2) by (auto simp: requests_Cons queue_ids_def fun_eq_iff)
    qed
  qed simp
  show "distinct (queue_ids (erase i rs))"
    unfolding erase_ids by (rule distinct_erase [OF assms(2)])
qed

subsection \<open>Queues that count right\<close>

definition queue_ok :: "LockRequestQueue \<Rightarrow> bool" where
  "queue_ok q \<longleftrightarrow> (let M = requests (request_queue q) in
     distinct (queue_ids (request_queue q)) \<and> sharing_count q = int (card {n. M n = Some (SHARED, True)}) \<and>
     (is_writing q \<longleftrightarrow> (\<exists>n. M n = Some (EXCLUSIVE, True))) \<and>
     (\<forall>n n' k. M n = Some (EXCLUSIVE, True) \<longrightarrow> M n' = Some (k, True) \<longrightarrow> n' = n))"

lemma queue_ok_empty: "queue_ok empty_queue"
  by (simp add: queue_ok_def empty_queue_def queue_ids_def)

lemma finite_requests: "finite {n. requests rs n = Some x}"
proof (rule finite_subset)
  show "{n. requests rs n = Some x} \<subseteq> dom (requests rs)" by auto
  show "finite (dom (requests rs))" unfolding requests_def by (rule finite_dom_map_of)
qed

text \<open>The one way a queue changes: the request of one transaction.\<close>

lemma queue_ok_change:
  assumes ok: "queue_ok q" and d: "distinct (queue_ids (request_queue q'))"
    and M: "requests (request_queue q') = (requests (request_queue q))(n := x)"
    and c: "sharing_count q' = sharing_count q + of_bool (x = Some (SHARED, True))
      - of_bool (requests (request_queue q) n = Some (SHARED, True))"
    and w: "is_writing q' \<longleftrightarrow> x = Some (EXCLUSIVE, True) \<or>
      is_writing q \<and> requests (request_queue q) n \<noteq> Some (EXCLUSIVE, True)"
    and X: "x = Some (EXCLUSIVE, True) \<Longrightarrow> \<not> is_writing q \<and> sharing_count q = 0"
    and S: "x = Some (SHARED, True) \<Longrightarrow> \<not> is_writing q"
  shows "queue_ok q'"
proof -
  let ?M = "requests (request_queue q)" and ?M' = "requests (request_queue q')"
  let ?A = "{n. ?M n = Some (SHARED, True)}" and ?A' = "{n. ?M' n = Some (SHARED, True)}"
  have fin: "finite ?A" "finite ?A'" by (rule finite_requests)+
  have q: "sharing_count q = int (card ?A)" "is_writing q \<longleftrightarrow> (\<exists>n. ?M n = Some (EXCLUSIVE, True))"
    "\<And>n n' k. ?M n = Some (EXCLUSIVE, True) \<Longrightarrow> ?M n' = Some (k, True) \<Longrightarrow> n' = n"
    using ok by (auto simp: queue_ok_def Let_def)
  have A': "?A' = (if x = Some (SHARED, True) then insert n ?A else ?A - {n})" by (auto simp: M)
  have "int (card ?A') = int (card ?A) + of_bool (x = Some (SHARED, True)) - of_bool (?M n = Some (SHARED, True))"
  proof (cases "?M n = Some (SHARED, True)")
    case True
    then have "n \<in> ?A" by simp
    then have "card ?A = Suc (card (?A - {n}))" using fin(1) by (metis card_Suc_Diff1)
    moreover have "insert n ?A = ?A" using True by auto
    ultimately show ?thesis unfolding A' using True by simp
  next
    case False
    then have "n \<notin> ?A" by simp
    then show ?thesis unfolding A' using fin(1) False by simp
  qed
  moreover have "is_writing q' \<longleftrightarrow> (\<exists>n. ?M' n = Some (EXCLUSIVE, True))"
    using q(2,3) unfolding w by (auto simp: M) (metis)
  moreover have "n'' = n'" if a: "?M' n' = Some (EXCLUSIVE, True)" "?M' n'' = Some (k, True)" for n' n'' k
  proof (cases "x = Some (EXCLUSIVE, True)")
    case True
    with X q(1,2) fin(1) have "?M i \<noteq> Some (j, True)" for i j by (cases j) auto
    with a True show ?thesis by (auto simp: M split: if_splits)
  next
    case False
    then have "n' \<noteq> n" "?M n' = Some (EXCLUSIVE, True)" using a(1) by (auto simp: M split: if_splits)
    moreover from this have "n'' \<noteq> n" using a(2) S q(2) False
      by (cases k) (auto simp: M)
    ultimately show ?thesis using a(2) q(3) by (auto simp: M)
  qed
  ultimately show ?thesis using d c q(1) by (auto simp: queue_ok_def Let_def)
qed

subsection \<open>Managers that count right\<close>

text \<open>The counters of every queue are right and the lock sets of the transactions are the granted requests.\<close>

definition mgr_ok :: "lock_manager \<Rightarrow> bool" where
  "mgr_ok m \<longleftrightarrow> inj (\<lambda>p. txn_id (txns m p)) \<and> (\<forall>rid q. lock_table m rid = Some q \<longrightarrow> queue_ok q) \<and>
     (\<forall>rid q n. lock_table m rid = Some q \<longrightarrow> requests (request_queue q) n \<noteq> None \<longrightarrow> (\<exists>p. txn_id (txns m p) = n)) \<and>
     (\<forall>p rid. (rid \<in> shared_lock_set (txns m p) \<longleftrightarrow> request_at m rid p = Some (SHARED, True)) \<and>
       (rid \<in> exclusive_lock_set (txns m p) \<longleftrightarrow> request_at m rid p = Some (EXCLUSIVE, True)))"

lemma mgr_okD:
  assumes "mgr_ok m"
  shows "txn_id (txns m p) = txn_id (txns m p') \<Longrightarrow> p = p'" "lock_table m rid = Some q \<Longrightarrow> queue_ok q"
    "lock_table m rid = Some q \<Longrightarrow> requests (request_queue q) n \<noteq> None \<Longrightarrow> \<exists>p. txn_id (txns m p) = n"
    "rid \<in> shared_lock_set (txns m p) \<longleftrightarrow> request_at m rid p = Some (SHARED, True)"
    "rid \<in> exclusive_lock_set (txns m p) \<longleftrightarrow> request_at m rid p = Some (EXCLUSIVE, True)"
proof -
  show "txn_id (txns m p) = txn_id (txns m p') \<Longrightarrow> p = p'"
    using assms unfolding mgr_ok_def inj_def by blast
  show "lock_table m rid = Some q \<Longrightarrow> requests (request_queue q) n \<noteq> None \<Longrightarrow> \<exists>p. txn_id (txns m p) = n"
    using assms unfolding mgr_ok_def by blast
qed (use assms in \<open>simp_all add: mgr_ok_def\<close>)

text \<open>\<open>changed m p rid x m'\<close>: from \<open>m\<close> to \<open>m'\<close> only the request of \<open>p\<close> on \<open>rid\<close> changed, to \<open>x\<close>.\<close>

definition changed ::
    "lock_manager \<Rightarrow> txn_ptr \<Rightarrow> rid \<Rightarrow> (LockMode \<times> bool) option \<Rightarrow> lock_manager \<Rightarrow> bool" where
  "changed m p rid x m' \<longleftrightarrow> mgr_ok m' \<and> (\<forall>p'. txn_id (txns m' p') = txn_id (txns m p')) \<and>
     (\<forall>r p'. request_at m' r p' = (if r = rid \<and> p' = p then x else request_at m r p'))"

lemma changed_trans: "changed m p rid x m1 \<Longrightarrow> changed m1 p rid y m2 \<Longrightarrow> changed m p rid y m2"
  by (simp add: changed_def)

text \<open>What an operation has to do for that: write one queue and the lock sets of one transaction.\<close>

lemma changedI:
  assumes ok: "mgr_ok m"
    and lt: "lock_table m' = (lock_table m)(rid \<mapsto> q')" "queue_ok q'"
    and M: "requests (request_queue q') =
      (case lock_table m rid of None \<Rightarrow> Map.empty | Some q \<Rightarrow> requests (request_queue q))(txn_id (txns m p) := x)"
    and t: "\<And>p'. txn_id (txns m' p') = txn_id (txns m p')"
      "\<And>p' r. p' \<noteq> p \<or> r \<noteq> rid \<Longrightarrow> (r \<in> shared_lock_set (txns m' p') \<longleftrightarrow> r \<in> shared_lock_set (txns m p')) \<and>
        (r \<in> exclusive_lock_set (txns m' p') \<longleftrightarrow> r \<in> exclusive_lock_set (txns m p'))"
      "rid \<in> shared_lock_set (txns m' p) \<longleftrightarrow> x = Some (SHARED, True)"
      "rid \<in> exclusive_lock_set (txns m' p) \<longleftrightarrow> x = Some (EXCLUSIVE, True)"
  shows "changed m p rid x m'"
proof -
  note D = mgr_okD [OF ok]
  have r: "request_at m' r p' = (if r = rid \<and> p' = p then x else request_at m r p')" for r p'
    using D(1) [of p' p] by (auto simp: request_at_def lt(1) M t(1) split: option.splits)
  have k: "\<exists>p. txn_id (txns m' p) = n" if "lock_table m' r = Some q" "requests (request_queue q) n \<noteq> None" for r q n
  proof (cases "r = rid \<and> n \<noteq> txn_id (txns m p)")
    case True
    with that M have "(case lock_table m rid of None \<Rightarrow> Map.empty | Some q \<Rightarrow> requests (request_queue q)) n \<noteq> None"
      by (simp add: lt(1))
    then show ?thesis using D(3) [of rid _ n] by (auto simp: t(1) split: option.splits)
  next
    case False
    then show ?thesis using that D(3) [of r q n] by (auto simp: lt(1) t(1) split: if_splits)
  qed
  have "mgr_ok m'"
    unfolding mgr_ok_def
  proof (intro conjI allI impI)
    show "inj (\<lambda>p. txn_id (txns m' p))" using ok by (simp add: mgr_ok_def t(1))
    show "queue_ok q" if "lock_table m' r = Some q" for r q
      using that lt D(2) [of r q] by (auto split: if_splits)
    show "(r \<in> shared_lock_set (txns m' p')) = (request_at m' r p' = Some (SHARED, True))"
      "(r \<in> exclusive_lock_set (txns m' p')) = (request_at m' r p' = Some (EXCLUSIVE, True))" for p' r
      using t(2) [of p' r] t(3,4) D(4,5) [of r p'] by (auto simp: r)
  qed (rule k)
  then show ?thesis using r t(1) by (simp add: changed_def)
qed

lemma upd_txn_simps [simp]:
  "lock_table (upd_txn m p f) = lock_table m" "id_2_txn (upd_txn m p f) = id_2_txn m"
  "txns (upd_txn m p f) p' = (if p' = p then f (txns m p) else txns m p')"
  "lock_table (set_queue m rid q) = (lock_table m)(rid \<mapsto> q)" "txns (set_queue m rid q) = txns m"
  "id_2_txn (set_queue m rid q) = id_2_txn m"
  by (simp_all add: upd_txn_def set_queue_def)

lemma emplace_simps [simp]: "lock_table (emplace_txn m p) = lock_table m" "txns (emplace_txn m p) = txns m"
  by (simp_all add: emplace_txn_def Let_def)

lemma request_at_table: "lock_table m rid = Some q \<Longrightarrow> request_at m rid p = requests (request_queue q) (txn_id (txns m p))"
  by (simp add: request_at_def)

lemma request_at_Some:
  assumes "request_at m rid p = Some (k, g)"
  obtains q i where "lock_table m rid = Some q" "GetIterator (request_queue q) (txn_id (txns m p)) = Some i"
    "requests (request_queue q) (txn_id (txns m p)) = Some (k, g)" "lock_mode (request_queue q ! i) = k"
    "req_txn_id (request_queue q ! i) = txn_id (txns m p)"
proof -
  obtain q where q: "lock_table m rid = Some q" "requests (request_queue q) (txn_id (txns m p)) = Some (k, g)"
    using assms by (auto simp: request_at_def split: option.splits)
  then obtain i where i: "GetIterator (request_queue q) (txn_id (txns m p)) = Some i"
    using GetIterator_None [of "request_queue q" "txn_id (txns m p)"] by auto
  from that [OF q(1) i q(2)] GetIterator_Some [OF i] q(2) show ?thesis by simp
qed

subsection \<open>The operations without wounds\<close>

fun mode_of :: "wait_kind \<Rightarrow> LockMode" where
  "mode_of Wait_Shared = SHARED"
| "mode_of Wait_Exclusive = EXCLUSIVE"
| "mode_of Wait_Upgrade = EXCLUSIVE"

definition free_for :: "wait_kind \<Rightarrow> LockRequestQueue \<Rightarrow> bool" where
  "free_for k q \<longleftrightarrow> \<not> is_writing q \<and> (k = Wait_Shared \<or> sharing_count q = 0)"

fun lock_finish :: "wait_kind \<Rightarrow> lock_manager \<Rightarrow> txn_ptr \<Rightarrow> rid \<Rightarrow> (lock_result \<times> lock_manager) option" where
  "lock_finish Wait_Shared = LockShared_finish"
| "lock_finish Wait_Exclusive = LockExclusive_finish"
| "lock_finish Wait_Upgrade = LockUpgrade_finish"

lemmas finish_defs = LockShared_finish_def LockExclusive_finish_def LockUpgrade_finish_def
lemmas wake_defs = LockShared_wake_def LockExclusive_wake_def LockUpgrade_wake_def

lemma lock_wake_finish:
  assumes "lock_table m rid = Some q"
  shows "lock_wake k m p rid =
    (if txn_state (txns m p) = ABORTED \<or> free_for k q then lock_finish k m p rid else Some (Waits, m))"
  using assms by (cases k) (auto simp: wake_defs can_share_def can_write_def free_for_def)

lemma changed_state:
  assumes "mgr_ok m" and "lock_table m' = lock_table m"
    and "\<And>p'. txn_id (txns m' p') = txn_id (txns m p')"
    and "\<And>p'. shared_lock_set (txns m' p') = shared_lock_set (txns m p')"
    and "\<And>p'. exclusive_lock_set (txns m' p') = exclusive_lock_set (txns m p')"
  shows "changed m p rid (request_at m rid p) m'"
proof -
  have "request_at m' = request_at m" by (rule ext)+ (simp add: request_at_def assms(2,3) split: option.split)
  moreover have "mgr_ok m'" using assms(1) by (simp add: mgr_ok_def assms(2-5) calculation)
  ultimately show ?thesis using assms(3) by (simp add: changed_def)
qed

lemma push_changed:
  assumes ok: "mgr_ok m" and no: "request_at m rid p = None"
    and q: "q = (case lock_table m rid of None \<Rightarrow> empty_queue | Some q \<Rightarrow> q)"
    and m': "lock_table m' = (lock_table m)(rid \<mapsto> push_request q (txn_id (txns m p)) k)" "txns m' = txns m"
  shows "changed m p rid (Some (k, False)) m'"
proof -
  let ?n = "txn_id (txns m p)"
  have qk: "queue_ok q" using queue_ok_empty mgr_okD(2) [OF ok] by (auto simp: q split: option.splits)
  have nn: "requests (request_queue q) ?n = None"
    using no by (auto simp: q request_at_def empty_queue_def split: option.splits)
  then have M: "requests (request_queue (push_request q ?n k)) = (requests (request_queue q))(?n \<mapsto> (k, False))"
    by (simp add: push_request_def requests_append requests_dom)
  have "distinct (queue_ids (request_queue (push_request q ?n k)))"
    using qk nn unfolding requests_dom by (simp add: queue_ok_def Let_def push_request_def queue_ids_def)
  then have "queue_ok (push_request q ?n k)"
    by (rule queue_ok_change [OF qk _ M]) (simp_all add: nn, simp_all add: push_request_def)
  then show ?thesis
    using mgr_okD(4,5) [OF ok, of rid p] no M m'
    by (intro changedI [OF ok m'(1)]) (auto simp: q empty_queue_def split: option.splits)
qed

lemma CheckAborted_changed:
  assumes ok: "mgr_ok m" and r: "request_at m rid p = Some (k, False)" and ab: "txn_state (txns m p) = ABORTED"
    and q: "lock_table m rid = Some q"
  shows "\<exists>q'. CheckAborted (txns m p) q = Some (Some (exn (txns m p) DEADLOCK), q') \<and>
    changed m p rid None (set_queue m rid q')"
proof -
  let ?n = "txn_id (txns m p)"
  obtain i where i: "GetIterator (request_queue q) ?n = Some i" "requests (request_queue q) ?n = Some (k, False)"
    using request_at_Some [OF r] q by (metis option.inject)
  have qk: "queue_ok q" by (rule mgr_okD(2) [OF ok q])
  then have d: "distinct (queue_ids (request_queue q))" by (simp add: queue_ok_def Let_def)
  define q' where "q' = q\<lparr>request_queue := erase i (request_queue q)\<rparr>"
  note M = requests_erase [OF i(1) d]
  have "queue_ok q'" by (rule queue_ok_change [OF qk, of q' ?n None]) (use M i(2) in \<open>auto simp: q'_def\<close>)
  then have "changed m p rid None (set_queue m rid q')"
    using mgr_okD(4,5) [OF ok, of rid p] r M q by (intro changedI [OF ok]) (auto simp: q'_def)
  then show ?thesis using ab i(1) by (simp add: CheckAborted_def q'_def)
qed

lemma finish_aborted:
  assumes "mgr_ok m" "request_at m rid p = Some (j, False)" "txn_state (txns m p) = ABORTED"
  shows "\<exists>m'. lock_finish k m p rid = Some (exn (txns m p) DEADLOCK, m') \<and> changed m p rid None m'"
proof -
  obtain q where q: "lock_table m rid = Some q" using request_at_Some [OF assms(2)] by metis
  from CheckAborted_changed [OF assms q] show ?thesis using q by (cases k) (auto simp: finish_defs Let_def)
qed

text \<open>The queue and the transaction after a grant.\<close>

lemma finish_granted:
  assumes ok: "mgr_ok m" and r: "request_at m rid p = Some (mode_of k, False)"
    and st: "txn_state (txns m p) \<noteq> ABORTED" and q: "lock_table m rid = Some q" and fr: "free_for k q"
  shows "\<exists>m'. lock_finish k m p rid = Some (Returned True, m') \<and> changed m p rid (Some (mode_of k, True)) m'"
proof -
  let ?n = "txn_id (txns m p)"
  obtain i where i: "GetIterator (request_queue q) ?n = Some i"
    "requests (request_queue q) ?n = Some (mode_of k, False)" "lock_mode (request_queue q ! i) = mode_of k"
    "req_txn_id (request_queue q ! i) = ?n" using request_at_Some [OF r] q by (metis option.inject)
  have qk: "queue_ok q" by (rule mgr_okD(2) [OF ok q])
  then have d: "distinct (queue_ids (request_queue q))" by (simp add: queue_ok_def Let_def)
  define rs where "rs = (request_queue q)[i := (request_queue q ! i)\<lparr>granted := True\<rparr>]"
  have M: "requests rs = (requests (request_queue q))(?n \<mapsto> (mode_of k, True))" "queue_ids rs = queue_ids (request_queue q)"
    using requests_update [OF i(1), of "(request_queue q ! i)\<lparr>granted := True\<rparr>"] i(3,4) by (simp_all add: rs_def)
  define q' where "q' = (case k of
      Wait_Shared \<Rightarrow> q\<lparr>sharing_count := sharing_count q + 1, request_queue := rs\<rparr>
    | Wait_Exclusive \<Rightarrow> q\<lparr>is_writing := True, request_queue := rs\<rparr>
    | Wait_Upgrade \<Rightarrow> q\<lparr>upgrading := False, is_writing := True, request_queue := rs\<rparr>)"
  define g :: "transaction \<Rightarrow> transaction" where "g = (case k of
      Wait_Shared \<Rightarrow> (\<lambda>t. t\<lparr>shared_lock_set := insert rid (shared_lock_set t)\<rparr>)
    | _ \<Rightarrow> (\<lambda>t. t\<lparr>exclusive_lock_set := insert rid (exclusive_lock_set t)\<rparr>))"
  have q': "request_queue q' = rs" by (simp add: q'_def split: wait_kind.split)
  have "queue_ok q'"
  proof (rule queue_ok_change [OF qk, of q' ?n "Some (mode_of k, True)"])
    show "sharing_count q' = sharing_count q + of_bool (Some (mode_of k, True) = Some (SHARED, True))
        - of_bool (requests (request_queue q) ?n = Some (SHARED, True))"
      "is_writing q' = (Some (mode_of k, True) = Some (EXCLUSIVE, True) \<or>
        is_writing q \<and> requests (request_queue q) ?n \<noteq> Some (EXCLUSIVE, True))"
      unfolding i(2) by (cases k; simp add: q'_def)+
  qed (use M d fr in \<open>cases k; simp add: q' free_for_def\<close>)+
  then have "changed m p rid (Some (mode_of k, True)) (set_queue (upd_txn m p g) rid q')"
    using mgr_okD(4,5) [OF ok, of rid p] r M q q'
    by (intro changedI [OF ok]) (auto simp: g_def split: wait_kind.split)
  moreover have "lock_finish k m p rid = Some (Returned True, set_queue (upd_txn m p g) rid q')"
    using st q i(1) by (cases k) (simp_all add: finish_defs Let_def CheckAborted_def grant_def g_def q'_def rs_def)
  ultimately show ?thesis by blast
qed

lemma wound_nobody: "list_all (\<lambda>r. granted r \<longrightarrow> req_txn_id r \<le> n) rs \<Longrightarrow> wound n rs q m = Some (q, m)"
  by (induction rs) auto

lemma DeadlockPrevent_nobody:
  assumes "lock_table m rid = Some q" "list_all (\<lambda>r. granted r \<longrightarrow> req_txn_id r \<le> txn_id (txns m p)) (request_queue q)"
  shows "DeadlockPrevent m p rid = Some m"
proof -
  have "set_queue m rid q = m" using assms(1) by (simp add: set_queue_def fun_upd_idem)
  then show ?thesis using assms wound_nobody by (simp add: DeadlockPrevent_def)
qed

text \<open>A waiting thread that runs again.\<close>

lemma lock_wake_calm:
  assumes ok: "mgr_ok m" and r: "request_at m rid p = Some (mode_of k, False)" and q: "lock_table m rid = Some q"
  shows "\<exists>res m' x. lock_wake k m p rid = Some (res, m') \<and> changed m p rid x m' \<and>
    (if txn_state (txns m p) = ABORTED then res = exn (txns m p) DEADLOCK \<and> x = None
     else if free_for k q then res = Returned True \<and> x = Some (mode_of k, True)
     else res = Waits \<and> x = Some (mode_of k, False) \<and> m' = m)"
proof -
  have "changed m p rid (Some (mode_of k, False)) m" using changed_state [OF ok, of m p rid] r by simp
  then show ?thesis
    using finish_aborted [OF ok r, of k] finish_granted [OF ok r _ q]
    by (cases "txn_state (txns m p) = ABORTED"; cases "free_for k q"; auto simp: lock_wake_finish [OF q])
qed

lemma lock_wake_request:
  assumes ok: "mgr_ok m" and r: "request_at m rid p = Some (mode_of k, False)"
  shows "\<exists>res m' x. lock_wake k m p rid = Some (res, m') \<and> changed m p rid x m' \<and>
    (res = Waits \<longrightarrow> x = Some (mode_of k, False))"
proof -
  obtain q where "lock_table m rid = Some q" using request_at_Some [OF r] by metis
  from lock_wake_calm [OF ok r this] show ?thesis
    by (cases "txn_state (txns m p) = ABORTED"; cases "free_for k q"; auto simp: exn_def)
qed

lemma LockPrepare_table:
  assumes "txn_state (txns m p) \<noteq> SHRINKING"
  shows "LockPrepare m p rid = (None, if lock_table m rid = None then set_queue m rid empty_queue else m)"
  using assms by (simp add: LockPrepare_def)

lemma push_counters [simp]:
  "is_writing (push_request q n k) = is_writing q" "sharing_count (push_request q n k) = sharing_count q"
  by (simp_all add: push_request_def)

text \<open>A request that nobody is in the way of, or that waits for older transactions.\<close>

lemma first_request:
  assumes ok: "mgr_ok m" and no: "request_at m rid p = None" and c: "wounds_nobody m p rid"
    and q: "q = (case lock_table m rid of None \<Rightarrow> empty_queue | Some q \<Rightarrow> q)"
    and m1: "lock_table m1 = (lock_table m)(rid \<mapsto> push_request q (txn_id (txns m p)) (mode_of k))" "txns m1 = txns m"
  shows "DeadlockPrevent m1 p rid = Some m1 \<and>
    (\<exists>res m' x. lock_wake k m1 p rid = Some (res, m') \<and> changed m p rid x m' \<and>
      (res = Waits \<longrightarrow> x = Some (mode_of k, False)))"
proof
  let ?q = "push_request q (txn_id (txns m p)) (mode_of k)"
  have t: "lock_table m1 rid = Some ?q" by (simp add: m1)
  have "list_all (\<lambda>r. granted r \<longrightarrow> req_txn_id r \<le> txn_id (txns m1 p)) (request_queue ?q)"
    using c by (auto simp: push_request_def wounds_nobody_def q m1 empty_queue_def split: option.splits)
  then show "DeadlockPrevent m1 p rid = Some m1" by (rule DeadlockPrevent_nobody [OF t])
  have ch: "changed m p rid (Some (mode_of k, False)) m1" by (rule push_changed [OF ok no q m1])
  then have ok1: "mgr_ok m1" "request_at m1 rid p = Some (mode_of k, False)" by (simp_all add: changed_def)
  from lock_wake_request [OF this] changed_trans [OF ch]
  show "\<exists>res m' x. lock_wake k m1 p rid = Some (res, m') \<and> changed m p rid x m' \<and>
      (res = Waits \<longrightarrow> x = Some (mode_of k, False))"
    by blast
qed

lemma lock_call_first:
  assumes ok: "mgr_ok m" and no: "request_at m rid p = None" and c: "wounds_nobody m p rid" and k: "k \<noteq> Wait_Upgrade"
  shows "\<exists>res m' x. lock_call k m p rid = Some (res, m') \<and> changed m p rid x m' \<and>
    (res = Waits \<longrightarrow> x = Some (mode_of k, False))"
proof (cases "txn_state (txns m p) = SHRINKING \<or> k = Wait_Shared \<and> isolation_level (txns m p) = READ_UNCOMMITTED")
  case True
  have "changed m p rid None (upd_txn (emplace_txn m p) p (SetState ABORTED))"
    using changed_state [OF ok, of "upd_txn (emplace_txn m p) p (SetState ABORTED)" p rid] no by simp
  then show ?thesis
    using True k by (cases k) (auto simp: LockShared_def LockExclusive_def Let_def LockPrepare_def exn_def)
next
  case False
  define q where q: "q = (case lock_table m rid of None \<Rightarrow> empty_queue | Some q \<Rightarrow> q)"
  define m0 where "m0 = (if lock_table m rid = None then set_queue (emplace_txn m p) rid empty_queue else emplace_txn m p)"
  define m1 where "m1 = set_queue m0 rid (push_request q (txn_id (txns m p)) (mode_of k))"
  have m0: "LockPrepare (emplace_txn m p) p rid = (None, m0)" "lock_table m0 rid = Some q"
    using False by (auto simp: LockPrepare_table m0_def q split: option.split)
  have m1: "lock_table m1 = (lock_table m)(rid \<mapsto> push_request q (txn_id (txns m p)) (mode_of k))" "txns m1 = txns m"
    by (simp_all add: m1_def m0_def)
  note F = first_request [OF ok no c q m1]
  have qk: "queue_ok q" using queue_ok_empty mgr_okD(2) [OF ok] by (auto simp: q split: option.splits)
  then have "0 \<le> sharing_count q" by (simp add: queue_ok_def Let_def)
  then have fin: "lock_finish k m1 p rid = lock_wake k m1 p rid"
    if "\<not> (is_writing q \<or> k = Wait_Exclusive \<and> 0 < sharing_count q)"
    using that k lock_wake_finish [of m1 rid "push_request q (txn_id (txns m p)) (mode_of k)" k p]
    by (cases k) (auto simp: m1 free_for_def)
  have tx: "txns m0 = txns m" by (simp add: m0_def)
  have call: "lock_call k m p rid = lock_wake k m1 p rid"
  proof (cases k)
    case Wait_Shared
    then have e: "m1 = set_queue m0 rid (push_request q (txn_id (txns m p)) SHARED)" by (simp add: m1_def)
    show ?thesis
      using False Wait_Shared m0 F fin tx by (simp add: LockShared_def Let_def flip: e)
  next
    case Wait_Exclusive
    then have e: "m1 = set_queue m0 rid (push_request q (txn_id (txns m p)) EXCLUSIVE)" by (simp add: m1_def)
    show ?thesis
      using False Wait_Exclusive m0 F fin tx by (simp add: LockExclusive_def Let_def flip: e)
  qed (use k in simp)
  then show ?thesis using F by simp
qed

text \<open>Marking a queue as being upgraded changes no request.\<close>

lemma upgrading_changed:
  assumes ok: "mgr_ok m" and q: "lock_table m rid = Some q" and r: "request_at m rid p = Some x"
  shows "changed m p rid (Some x) (set_queue m rid (q\<lparr>upgrading := b\<rparr>))"
proof (rule changedI [OF ok])
  show "queue_ok (q\<lparr>upgrading := b\<rparr>)" using mgr_okD(2) [OF ok q] by (simp add: queue_ok_def)
  show "requests (request_queue (q\<lparr>upgrading := b\<rparr>)) =
      (case lock_table m rid of None \<Rightarrow> Map.empty | Some q \<Rightarrow> requests (request_queue q))(txn_id (txns m p) := Some x)"
    using r q by (simp add: request_at_def fun_upd_idem)
qed (use mgr_okD(4,5) [OF ok, of rid p] r in auto)

lemma lock_call_upgrade:
  assumes ok: "mgr_ok m" and h: "rid \<in> shared_lock_set (txns m p)" and c: "wounds_nobody m p rid"
  shows "\<exists>res m' x. LockUpgrade m p rid = Some (res, m') \<and> changed m p rid x m' \<and>
    (res = Waits \<longrightarrow> x = Some (EXCLUSIVE, False))"
proof -
  let ?n = "txn_id (txns m p)"
  have r: "request_at m rid p = Some (SHARED, True)" using mgr_okD(4) [OF ok] h by blast
  obtain q i where q: "lock_table m rid = Some q" and i: "GetIterator (request_queue q) ?n = Some i"
    "requests (request_queue q) ?n = Some (SHARED, True)" "req_txn_id (request_queue q ! i) = ?n"
    using request_at_Some [OF r] by metis
  have qk: "queue_ok q" by (rule mgr_okD(2) [OF ok q])
  then have d: "distinct (queue_ids (request_queue q))" by (simp add: queue_ok_def Let_def)
  show ?thesis
  proof (cases "txn_state (txns m p) = SHRINKING \<or> upgrading q")
    case True
    have "changed m p rid (Some (SHARED, True)) (upd_txn m p (SetState ABORTED))"
      using changed_state [OF ok, of "upd_txn m p (SetState ABORTED)" p rid] r by simp
    then show ?thesis using True q by (auto simp: LockUpgrade_def Let_def exn_def)
  next
    case False
    define r' where "r' = (request_queue q ! i)\<lparr>lock_mode := EXCLUSIVE, granted := False\<rparr>"
    define q1 where "q1 = q\<lparr>sharing_count := sharing_count q - 1, request_queue := (request_queue q)[i := r']\<rparr>"
    define m1 where "m1 = set_queue (upd_txn m p (\<lambda>t. t\<lparr>shared_lock_set := shared_lock_set t - {rid}\<rparr>)) rid q1"
    have M: "requests (request_queue q1) = (requests (request_queue q))(?n \<mapsto> (EXCLUSIVE, False))"
      "queue_ids (request_queue q1) = queue_ids (request_queue q)"
      using requests_update [OF i(1), of r'] i(3) by (simp_all add: q1_def r'_def)
    have qk1: "queue_ok q1"
      by (rule queue_ok_change [OF qk _ M(1)]) (simp_all add: M(2) d i(2), simp_all add: q1_def)
    have ch: "changed m p rid (Some (EXCLUSIVE, False)) m1"
      using qk1 M mgr_okD(4,5) [OF ok, of rid p] r q by (intro changedI [OF ok]) (auto simp: m1_def)
    have t1: "lock_table m1 rid = Some q1" "txns m1 p = (txns m p)\<lparr>shared_lock_set := shared_lock_set (txns m p) - {rid}\<rparr>"
      by (simp_all add: m1_def)
    have la: "list_all (\<lambda>r. granted r \<longrightarrow> req_txn_id r \<le> ?n) (request_queue q1)"
      using c q set_update_subset_insert [of "request_queue q" i r']
      by (auto simp: wounds_nobody_def q1_def list_all_iff r'_def)
    then have dp: "DeadlockPrevent m1 p rid = Some m1" by (intro DeadlockPrevent_nobody [OF t1(1)]) (simp add: t1)
    define m2 where "m2 = set_queue m1 rid (q1\<lparr>upgrading := True\<rparr>)"
    have ok1: "mgr_ok m1" "request_at m1 rid p = Some (EXCLUSIVE, False)" using ch by (simp_all add: changed_def)
    have ch2: "changed m1 p rid (Some (EXCLUSIVE, False)) m2"
      unfolding m2_def by (rule upgrading_changed [OF ok1(1) t1(1) ok1(2)])
    then have ok2: "mgr_ok m2" "request_at m2 rid p = Some (EXCLUSIVE, False)" by (simp_all add: changed_def)
    have "\<exists>res m' x. LockUpgrade_wake m2 p rid = Some (res, m') \<and> changed m2 p rid x m' \<and>
        (res = Waits \<longrightarrow> x = Some (EXCLUSIVE, False))"
      using lock_wake_request [of m2 rid p Wait_Upgrade] ok2 by simp
    moreover have "\<exists>res m' x. LockUpgrade_finish m1 p rid = Some (res, m') \<and> changed m1 p rid x m' \<and> res \<noteq> Waits"
      if "\<not> is_writing q1" "\<not> 0 < sharing_count q1"
    proof -
      have "free_for Wait_Upgrade q1" using that qk1 by (simp add: free_for_def queue_ok_def Let_def)
      then show ?thesis
        using finish_aborted [OF ok1, of Wait_Upgrade] finish_granted [OF ok1(1) _ _ t1(1), of p Wait_Upgrade] ok1(2)
        by (cases "txn_state (txns m1 p) = ABORTED") (auto simp: exn_def)
    qed
    moreover have "LockUpgrade m p rid =
        (if is_writing q1 \<or> 0 < sharing_count q1 then LockUpgrade_wake m2 p rid else LockUpgrade_finish m1 p rid)"
      using False q i(1) dp t1(1) by (simp add: LockUpgrade_def Let_def q1_def r'_def m1_def m2_def)
    ultimately show ?thesis
      using changed_trans [OF ch] changed_trans [OF changed_trans [OF ch ch2]]
      by (cases "is_writing q1 \<or> 0 < sharing_count q1") (simp_all, blast+)
  qed
qed

text \<open>Releasing a lock wakes the threads that wait when it was the last one.\<close>

lemma Unlock_calm:
  assumes ok: "mgr_ok m" and r: "request_at m rid p = Some (k, True)" and q: "lock_table m rid = Some q"
  shows "\<exists>m' q'. Unlock m p rid = Some ((True, k = EXCLUSIVE \<or> sharing_count q' = 0), m') \<and> changed m p rid None m' \<and>
    lock_table m' rid = Some q'"
proof -
  let ?n = "txn_id (txns m p)"
  obtain i where i: "GetIterator (request_queue q) ?n = Some i" "requests (request_queue q) ?n = Some (k, True)"
    "lock_mode (request_queue q ! i) = k" using request_at_Some [OF r] q by (metis option.inject)
  have qk: "queue_ok q" by (rule mgr_okD(2) [OF ok q])
  then have d: "distinct (queue_ids (request_queue q))" by (simp add: queue_ok_def Let_def)
  define q' where "q' = (if k = SHARED
    then q\<lparr>request_queue := erase i (request_queue q), sharing_count := sharing_count q - 1\<rparr>
    else q\<lparr>request_queue := erase i (request_queue q), is_writing := False\<rparr>)"
  have rq: "request_queue q' = erase i (request_queue q)" by (simp add: q'_def)
  note M = requests_erase [OF i(1) d, folded rq]
  have qk': "queue_ok q'"
    by (rule queue_ok_change [OF qk M(2,1)]) (use i(2) in \<open>cases k; simp add: q'_def\<close>)+
  define m1 where "m1 = upd_txn m p (\<lambda>t. t\<lparr>shared_lock_set := shared_lock_set t - {rid},
       exclusive_lock_set := exclusive_lock_set t - {rid}\<rparr>)"
  define m2 where "m2 = (if \<not> (k = SHARED \<and> isolation_level (txns m1 p) = READ_COMMITTED) \<and> txn_state (txns m1 p) = GROWING
       then upd_txn m1 p (SetState SHRINKING) else m1)"
  have "changed m p rid None (set_queue m2 rid q')"
    using qk' M q by (intro changedI [OF ok]) (auto simp: m2_def m1_def)
  moreover have "Unlock m p rid = Some ((True, k = EXCLUSIVE \<or> sharing_count q' = 0), set_queue m2 rid q')"
    using q i(1,3) by (cases k) (simp_all add: Unlock_def Let_def m1_def m2_def q'_def)
  ultimately show ?thesis by (intro exI [of _ "set_queue m2 rid q'"] exI [of _ q']) simp
qed

subsection \<open>Calm histories\<close>

definition sys_ok :: "lock_system \<Rightarrow> bool" where
  "sys_ok s \<longleftrightarrow> mgr_ok (mgr s) \<and>
     (\<forall>p k rid. blocked s p = Some (k, rid) \<longrightarrow> request_at (mgr s) rid p = Some (mode_of k, False))"

lemma fresh_sys_ok: "fresh_system s \<Longrightarrow> sys_ok s"
  by (auto simp: fresh_system_def sys_ok_def mgr_ok_def request_at_def locks_def)

lemma sys_ok_change:
  assumes "sys_ok s" and "changed (mgr s) p rid x m'"
    and "\<And>p'. p' \<noteq> p \<Longrightarrow> b p' = blocked s p'" and "\<And>k r. b p = Some (k, r) \<Longrightarrow> r = rid \<and> x = Some (mode_of k, False)"
  shows "sys_ok (s\<lparr>mgr := m', blocked := b\<rparr>)"
  unfolding sys_ok_def
proof (intro conjI allI impI)
  show "mgr_ok (mgr (s\<lparr>mgr := m', blocked := b\<rparr>))" using assms(2) by (simp add: changed_def)
  show "request_at (mgr (s\<lparr>mgr := m', blocked := b\<rparr>)) r p' = Some (mode_of k, False)"
    if "blocked (s\<lparr>mgr := m', blocked := b\<rparr>) p' = Some (k, r)" for p' k r
    using that assms by (cases "p' = p") (auto simp: sys_ok_def changed_def)
qed

text \<open>In a calm step nothing crashes and the invariant is kept.\<close>

lemma lock_call_calm:
  assumes "sys_ok s" "permitted s (Call k p rid)" "wounds_nobody (mgr s) p rid"
  shows "\<exists>res m' x. lock_call k (mgr s) p rid = Some (res, m') \<and> changed (mgr s) p rid x m' \<and>
    (res = Waits \<longrightarrow> x = Some (mode_of k, False))"
proof -
  have ok: "mgr_ok (mgr s)" using assms(1) by (simp add: sys_ok_def)
  show ?thesis
  proof (cases "k = Wait_Upgrade")
    case True
    then show ?thesis using lock_call_upgrade [OF ok _ assms(3)] assms(2) by simp
  next
    case False
    then show ?thesis using lock_call_first [OF ok _ assms(3) False] assms(2) by simp
  qed
qed

lemma lock_do_calm:
  assumes ok: "sys_ok s" and p: "permitted s e" and c: "calm s e"
  shows "\<exists>s'. lock_do s e = Some s' \<and> sys_ok s'"
proof (cases e)
  case (Call k p rid)
  from lock_call_calm [OF ok, of k p rid] p c Call obtain res m' x where
    "lock_call k (mgr s) p rid = Some (res, m')" "changed (mgr s) p rid x m'" "res = Waits \<longrightarrow> x = Some (mode_of k, False)"
    by auto
  moreover have "blocked s p = None" using p Call by simp
  moreover have "sys_ok (s\<lparr>mgr := m', blocked := (if res = Waits then (blocked s)(p \<mapsto> (k, rid)) else blocked s)\<rparr>)"
    by (rule sys_ok_change [OF ok, of p rid x m']) (use calculation in \<open>auto split: if_splits\<close>)
  ultimately show ?thesis using Call by simp
next
  case (Release p rid)
  have m: "mgr_ok (mgr s)" using ok by (simp add: sys_ok_def)
  obtain k where r: "request_at (mgr s) rid p = Some (k, True)"
    using p Release mgr_okD(4,5) [OF m, of rid p] by (auto simp: locks_def)
  obtain q where q: "lock_table (mgr s) rid = Some q" using request_at_Some [OF r] by metis
  from Unlock_calm [OF m r q] obtain res m' where "Unlock (mgr s) p rid = Some (res, m')" "changed (mgr s) p rid None m'"
    by blast
  then show ?thesis using Release p sys_ok_change [OF ok, of p rid None m' "blocked s"] by simp
next
  case (Resume p)
  then obtain k rid where b: "blocked s p = Some (k, rid)" using p by auto
  have m: "mgr_ok (mgr s)" and r: "request_at (mgr s) rid p = Some (mode_of k, False)"
    using ok b by (simp_all add: sys_ok_def)
  from lock_wake_request [OF m r] obtain res m' x where "lock_wake k (mgr s) p rid = Some (res, m')"
    "changed (mgr s) p rid x m'" "res = Waits \<longrightarrow> x = Some (mode_of k, False)" by blast
  moreover from this have "sys_ok (s\<lparr>mgr := m', blocked := (if res = Waits then blocked s else (blocked s)(p := None))\<rparr>)"
    by (intro sys_ok_change [OF ok, of p rid x m']) (use b in \<open>auto split: if_splits\<close>)
  ultimately show ?thesis using Resume b by simp
next
  case (Finish p st)
  have m: "mgr_ok (mgr s)" using ok by (simp add: sys_ok_def)
  then have "changed (mgr s) p rid (request_at (mgr s) rid p) (upd_txn (mgr s) p (SetState st))" for rid
    by (rule changed_state) simp_all
  then show ?thesis using Finish p sys_ok_change [OF ok, of p _ _ _ "blocked s"] by (simp, blast)
qed

lemma calm_sys_ok: "calm_reachable s \<Longrightarrow> sys_ok s"
proof (induction rule: calm_reachable.induct)
  case (calm_more s e s')
  then show ?case using lock_do_calm [of s e] by (auto simp: lock_step_def)
qed (rule fresh_sys_ok)

subsection \<open>All histories\<close>

text \<open>What a call does to the transactions, wounds included: others are at most aborted.\<close>

definition aborts :: "lock_manager \<Rightarrow> lock_manager \<Rightarrow> bool" where
  "aborts m m' \<longleftrightarrow> (\<forall>p. txns m' p = txns m p \<or> txns m' p = SetState ABORTED (txns m p))"

lemma SetState_ABORTED_idem [simp]: "SetState a (SetState b t) = SetState a t"
  by (simp add: SetState_def)

lemma aborts_refl [simp]: "txns m' = txns m \<Longrightarrow> aborts m m'"
  by (simp add: aborts_def)

lemma aborts_trans: "aborts m m1 \<Longrightarrow> aborts m1 m2 \<Longrightarrow> aborts m m2"
  unfolding aborts_def by (metis SetState_ABORTED_idem)

lemma aborts_one: "aborts m (upd_txn m p (SetState ABORTED))"
  by (simp add: aborts_def)

lemma wound_aborts: "wound n rs q m = Some (q', m') \<Longrightarrow> aborts m m'"
proof (induction rs arbitrary: q m)
  case (Cons r rs)
  then show ?case
    by (auto simp: Let_def bind_eq_Some_conv split: if_splits intro: aborts_trans [OF aborts_one])
qed simp

lemma DeadlockPrevent_aborts: "DeadlockPrevent m p rid = Some m' \<Longrightarrow> aborts m m'"
  by (auto simp: DeadlockPrevent_def bind_eq_Some_conv intro: aborts_trans [OF wound_aborts])

lemma finish_txns:
  assumes "lock_finish k m p rid = Some (res, m')"
  shows "res \<noteq> Waits" "p' \<noteq> p \<Longrightarrow> txns m' p' = txns m p'" "txn_state (txns m' p) = txn_state (txns m p)"
    "txn_state (txns m p) = ABORTED \<Longrightarrow> txns m' p = txns m p"
proof -
  obtain q where q: "lock_table m rid = Some q" using assms by (cases k) (auto simp: finish_defs bind_eq_Some_conv)
  obtain e q' where c: "CheckAborted (txns m p) q = Some (e, q')" using assms q
    by (cases k) (auto simp: finish_defs bind_eq_Some_conv Let_def)
  then have e: "e = (if txn_state (txns m p) = ABORTED then Some (exn (txns m p) DEADLOCK) else None)"
    by (auto simp: CheckAborted_def bind_eq_Some_conv split: if_splits)
  show "res \<noteq> Waits" "p' \<noteq> p \<Longrightarrow> txns m' p' = txns m p'" "txn_state (txns m' p) = txn_state (txns m p)"
    "txn_state (txns m p) = ABORTED \<Longrightarrow> txns m' p = txns m p"
    using assms q c e by (cases k; auto simp: finish_defs bind_eq_Some_conv Let_def exn_def split: if_splits)+
qed

lemma wake_txns:
  assumes "lock_wake k m p rid = Some (res, m')"
  shows "(\<forall>p'. p' \<noteq> p \<longrightarrow> txns m' p' = txns m p') \<and> txn_state (txns m' p) = txn_state (txns m p) \<and>
    (txn_state (txns m p) = ABORTED \<longrightarrow> txns m' p = txns m p)"
proof -
  obtain q where q: "lock_table m rid = Some q" using assms by (cases k) (auto simp: wake_defs bind_eq_Some_conv)
  show ?thesis
  proof (cases "txn_state (txns m p) = ABORTED \<or> free_for k q")
    case True
    then have "lock_finish k m p rid = Some (res, m')" using assms lock_wake_finish [OF q] by simp
    from finish_txns [OF this] show ?thesis by blast
  qed (use assms lock_wake_finish [OF q] in auto)
qed

text \<open>\<open>stays_back m p m'\<close>: nobody but \<open>p\<close> locks anything, and \<open>p\<close> does not unless it is growing.\<close>

definition stays_back :: "lock_manager \<Rightarrow> txn_ptr \<Rightarrow> lock_manager \<Rightarrow> bool" where
  "stays_back m p m' \<longleftrightarrow>
     (\<forall>p'. p' \<noteq> p \<longrightarrow> txns m' p' = txns m p' \<or> txns m' p' = SetState ABORTED (txns m p')) \<and>
     (txn_state (txns m p) \<noteq> SHRINKING \<longrightarrow> txn_state (txns m' p) = txn_state (txns m p) \<or> txn_state (txns m' p) = ABORTED) \<and>
     (txn_state (txns m p) = ABORTED \<longrightarrow> txn_state (txns m' p) = ABORTED \<and>
       shared_lock_set (txns m' p) \<subseteq> shared_lock_set (txns m p) \<and>
       exclusive_lock_set (txns m' p) \<subseteq> exclusive_lock_set (txns m p))"

lemma stays_back_trans: "stays_back m p m1 \<Longrightarrow> stays_back m1 p m2 \<Longrightarrow> stays_back m p m2"
proof -
  assume a: "stays_back m p m1" "stays_back m1 p m2"
  have "txns m2 p' = txns m p' \<or> txns m2 p' = SetState ABORTED (txns m p')" if "p' \<noteq> p" for p'
    using a that unfolding stays_back_def by (metis SetState_ABORTED_idem)
  moreover have "txn_state (txns m2 p) = txn_state (txns m p) \<or> txn_state (txns m2 p) = ABORTED"
    if "txn_state (txns m p) \<noteq> SHRINKING"
    using a that unfolding stays_back_def by (metis TransactionState.distinct(12))
  ultimately show ?thesis using a unfolding stays_back_def by blast
qed

lemma aborts_stays_back: "aborts m m' \<Longrightarrow> stays_back m p m'"
  unfolding aborts_def stays_back_def by (metis SetState_simps(1,4,5) order_refl)

lemma finish_stays_back: "lock_finish k m p rid = Some (res, m') \<Longrightarrow> stays_back m p m'"
  using finish_txns [of k m p rid res m'] by (auto simp: stays_back_def)

lemma wake_stays_back: "lock_wake k m p rid = Some (res, m') \<Longrightarrow> stays_back m p m'"
  using wake_txns [of k m p rid res m'] by (auto simp: stays_back_def)

lemma aborts_wake:
  assumes "DeadlockPrevent m p rid = Some m1" "lock_wake k m2 p rid = Some (res, m')" "txns m2 = txns m1"
  shows "stays_back m p m'"
proof -
  have "stays_back m p m1" by (rule aborts_stays_back [OF DeadlockPrevent_aborts [OF assms(1)]])
  moreover have "stays_back m1 p m2" by (rule aborts_stays_back) (simp add: assms(3))
  ultimately show ?thesis using wake_stays_back [OF assms(2)] by (blast intro: stays_back_trans)
qed

lemma first_call_txns:
  assumes "lock_call k m p rid = Some (res, m')" and "k \<noteq> Wait_Upgrade" and "txn_state (txns m p) \<noteq> SHRINKING"
  shows "stays_back m p m'"
proof (cases "k = Wait_Shared \<and> isolation_level (txns m p) = READ_UNCOMMITTED")
  case True
  then have "m' = upd_txn (emplace_txn m p) p (SetState ABORTED)" using assms by (auto simp: LockShared_def Let_def)
  then show ?thesis by (intro aborts_stays_back) (simp add: aborts_def)
next
  case False
  define m0 where "m0 = (if lock_table m rid = None then set_queue (emplace_txn m p) rid empty_queue else emplace_txn m p)"
  have m0: "LockPrepare (emplace_txn m p) p rid = (None, m0)" "txns m0 = txns m"
    using assms(3) by (auto simp: LockPrepare_table m0_def)
  obtain q m1 where m1: "m1 = set_queue m0 rid q" and c: "lock_finish k m1 p rid = Some (res, m') \<or>
      (\<exists>m2. DeadlockPrevent m1 p rid = Some m2 \<and> lock_wake k m2 p rid = Some (res, m'))"
  proof (cases k)
    case Wait_Shared
    then show thesis
      using that assms(1) False m0 by (auto simp: LockShared_def Let_def bind_eq_Some_conv split: if_splits)
  next
    case Wait_Exclusive
    then show thesis
      using that assms(1) m0 by (auto simp: LockExclusive_def Let_def bind_eq_Some_conv split: if_splits)
  qed (use assms(2) in simp)
  have "stays_back m p m1" by (rule aborts_stays_back) (simp add: m1 m0)
  moreover have "stays_back m1 p m'" using c finish_stays_back aborts_wake by blast
  ultimately show ?thesis by (rule stays_back_trans)
qed

lemma upgrade_txns:
  assumes "LockUpgrade m p rid = Some (res, m')" and "txn_state (txns m p) \<noteq> SHRINKING"
  shows "stays_back m p m'"
proof -
  obtain q where q: "lock_table m rid = Some q" using assms by (auto simp: LockUpgrade_def Let_def bind_eq_Some_conv)
  show ?thesis
  proof (cases "upgrading q")
    case True
    then have "m' = upd_txn m p (SetState ABORTED)" using assms q by (auto simp: LockUpgrade_def Let_def)
    then show ?thesis by (intro aborts_stays_back) (simp add: aborts_def)
  next
    case False
    define m0 where "m0 = upd_txn m p (\<lambda>t. t\<lparr>shared_lock_set := shared_lock_set t - {rid}\<rparr>)"
    obtain i where i: "GetIterator (request_queue q) (txn_id (txns m p)) = Some i"
      using assms q False by (auto simp: LockUpgrade_def Let_def bind_eq_Some_conv)
    define q1 where "q1 = q\<lparr>sharing_count := sharing_count q - 1, request_queue := (request_queue q)[i :=
      (request_queue q ! i)\<lparr>lock_mode := EXCLUSIVE, granted := False\<rparr>]\<rparr>"
    define m1 where m1: "m1 = set_queue m0 rid q1"
    have "LockUpgrade m p rid = (if is_writing q1 \<or> sharing_count q1 > 0
        then do { m \<leftarrow> DeadlockPrevent m1 p rid; q \<leftarrow> lock_table m rid;
          LockUpgrade_wake (set_queue m rid (q\<lparr>upgrading := True\<rparr>)) p rid }
        else LockUpgrade_finish m1 p rid)"
      using assms(2) q False i by (simp add: LockUpgrade_def Let_def q1_def m1 m0_def)
    with assms(1) have c: "lock_finish Wait_Upgrade m1 p rid = Some (res, m') \<or>
        (\<exists>m2 q2. DeadlockPrevent m1 p rid = Some m2 \<and> lock_wake Wait_Upgrade (set_queue m2 rid q2) p rid = Some (res, m'))"
      by (cases "is_writing q1 \<or> sharing_count q1 > 0") (auto simp: bind_eq_Some_conv)
    have "stays_back m p m1" by (auto simp: m1 m0_def stays_back_def)
    moreover have "stays_back m1 p m'"
      using c by (elim disjE exE conjE) (erule finish_stays_back, erule aborts_wake, assumption, simp)
    ultimately show ?thesis by (rule stays_back_trans)
  qed
qed

lemma call_txns:
  assumes "lock_call k m p rid = Some (res, m')"
  shows "if txn_state (txns m p) = SHRINKING then res = exn (txns m p) (if k = Wait_Shared \<and>
        isolation_level (txns m p) = READ_UNCOMMITTED then LOCKSHARED_ON_READ_UNCOMMITTED else LOCK_ON_SHRINKING) \<and>
      txns m' = (txns m)(p := SetState ABORTED (txns m p))
    else stays_back m p m'"
proof (cases "txn_state (txns m p) = SHRINKING")
  case True
  then show ?thesis using assms
    by (cases k) (auto simp: LockShared_def LockExclusive_def LockUpgrade_def Let_def LockPrepare_def exn_def upd_txn_def
        split: if_splits)
next
  case False
  show ?thesis
  proof (cases "k = Wait_Upgrade")
    case True
    then show ?thesis using False upgrade_txns [of m p rid res m'] assms by simp
  next
    case k: False
    then show ?thesis using False first_call_txns [OF assms k] by simp
  qed
qed

lemma Unlock_txns:
  assumes "Unlock m p rid = Some (res, m')"
  shows "p' \<noteq> p \<Longrightarrow> txns m' p' = txns m p'"
    "shared_lock_set (txns m' p) = shared_lock_set (txns m p) - {rid}"
    "exclusive_lock_set (txns m' p) = exclusive_lock_set (txns m p) - {rid}"
    "txn_state (txns m p) \<noteq> GROWING \<Longrightarrow> txn_state (txns m' p) = txn_state (txns m p)"
proof -
  obtain q i where qi: "lock_table m rid = Some q" "GetIterator (request_queue q) (txn_id (txns m p)) = Some i"
    using assms by (auto simp: Unlock_def bind_eq_Some_conv Let_def)
  show "p' \<noteq> p \<Longrightarrow> txns m' p' = txns m p'" "shared_lock_set (txns m' p) = shared_lock_set (txns m p) - {rid}"
    "exclusive_lock_set (txns m' p) = exclusive_lock_set (txns m p) - {rid}"
    "txn_state (txns m p) \<noteq> GROWING \<Longrightarrow> txn_state (txns m' p) = txn_state (txns m p)"
    using assms qi by (auto simp: Unlock_def Let_def split: if_splits)
qed

text \<open>A thread that waits does not belong to a transaction that shrinks.\<close>

lemma blocked_phase:
  assumes "lock_reachable s"
  shows "blocked s p \<noteq> None \<Longrightarrow> txn_state (txns (mgr s) p) \<noteq> SHRINKING"
  using assms
proof (induction arbitrary: p rule: lock_reachable.induct)
  case (lock_init s)
  then show ?case by (simp add: fresh_system_def)
next
  case (lock_more s e s')
  show ?case
  proof (cases e)
    case (Call k p0 rid)
    then obtain res m' where c: "lock_call k (mgr s) p0 rid = Some (res, m')"
      and s': "s' = s\<lparr>mgr := m', blocked := (if res = Waits then (blocked s)(p0 \<mapsto> (k, rid)) else blocked s)\<rparr>"
      and p: "blocked s p0 = None"
      using lock_more.hyps by (auto simp: lock_step_def bind_eq_Some_conv)
    show ?thesis
    proof (cases "txn_state (txns (mgr s) p0) = SHRINKING")
      case True
      then have "res \<noteq> Waits" "\<And>p'. p' \<noteq> p0 \<Longrightarrow> txns m' p' = txns (mgr s) p'"
        using call_txns [OF c] by (auto simp: exn_def)
      then show ?thesis using lock_more p s' by (cases "p = p0") auto
    next
      case False
      then have "stays_back (mgr s) p0 m'" using call_txns [OF c] by simp
      then have "txn_state (txns m' p0) \<noteq> SHRINKING"
          "p \<noteq> p0 \<Longrightarrow> txns m' p = txns (mgr s) p \<or> txns m' p = SetState ABORTED (txns (mgr s) p)"
        using False by (auto simp: stays_back_def)
      then show ?thesis
        using lock_more.IH [of p] lock_more.prems s' by (cases "p = p0") (auto split: if_splits)
    qed
  next
    case (Release p0 rid)
    then obtain res m' where "Unlock (mgr s) p0 rid = Some (res, m')" "s' = s\<lparr>mgr := m'\<rparr>" "blocked s p0 = None"
      using lock_more.hyps by (auto simp: lock_step_def bind_eq_Some_conv)
    then show ?thesis using lock_more.IH [of p] lock_more.prems Unlock_txns(1) by (cases "p = p0") auto
  next
    case (Resume p0)
    then obtain k rid res m' where c: "lock_wake k (mgr s) p0 rid = Some (res, m')"
      and s': "s' = s\<lparr>mgr := m', blocked := (if res = Waits then blocked s else (blocked s)(p0 := None))\<rparr>"
      using lock_more.hyps by (auto simp: lock_step_def bind_eq_Some_conv)
    then show ?thesis
      using lock_more.IH [of p] lock_more.prems wake_txns [OF c] by (cases "p = p0") (auto split: if_splits)
  next
    case (Finish p0 st)
    then show ?thesis
      using lock_more.hyps lock_more.prems lock_more.IH [of p] by (cases "p = p0") (auto simp: lock_step_def)
  qed
qed

text \<open>The phases in which a transaction must not get a lock.\<close>

definition past_growing :: "lock_system \<Rightarrow> txn_ptr \<Rightarrow> bool" where
  "past_growing s p \<longleftrightarrow> txn_state (txns (mgr s) p) = SHRINKING \<or> txn_state (txns (mgr s) p) = ABORTED"

lemma two_phase_step:
  assumes r: "lock_reachable s" and st: "lock_step s e s'" and g: "past_growing s p" and e: "e \<noteq> Finish p COMMITTED"
  shows "past_growing s' p \<and> locks s' p \<subseteq> locks s p"
proof (cases e)
  case (Call k p0 rid)
  then obtain res m' where c: "lock_call k (mgr s) p0 rid = Some (res, m')" and s': "mgr s' = m'"
    using st by (auto simp: lock_step_def bind_eq_Some_conv)
  note C = call_txns [OF c]
  show ?thesis
  proof (cases "txn_state (txns (mgr s) p0) = SHRINKING")
    case True
    then show ?thesis using C g by (cases "p = p0") (auto simp: s' locks_def past_growing_def)
  next
    case False
    then have b: "stays_back (mgr s) p0 m'" using C by simp
    show ?thesis
    proof (cases "p = p0")
      case True
      then have "txn_state (txns (mgr s) p0) = ABORTED" using g False by (simp add: past_growing_def)
      then show ?thesis using b True by (auto simp: stays_back_def s' locks_def past_growing_def)
    next
      case False
      then have "txns m' p = txns (mgr s) p \<or> txns m' p = SetState ABORTED (txns (mgr s) p)"
        using b by (simp add: stays_back_def)
      then show ?thesis using g by (auto simp: s' locks_def past_growing_def)
    qed
  qed
next
  case (Release p0 rid)
  then obtain res m' where u: "Unlock (mgr s) p0 rid = Some (res, m')" and s': "mgr s' = m'"
    using st by (auto simp: lock_step_def bind_eq_Some_conv)
  show ?thesis using Unlock_txns [OF u] g by (cases "p = p0") (auto simp: s' locks_def past_growing_def)
next
  case (Resume p0)
  then obtain k rid res m' where c: "lock_wake k (mgr s) p0 rid = Some (res, m')" and s': "mgr s' = m'"
    and b: "blocked s p0 \<noteq> None" using st by (auto simp: lock_step_def bind_eq_Some_conv)
  have "p = p0 \<Longrightarrow> txn_state (txns (mgr s) p) = ABORTED" using blocked_phase [OF r b] g by (auto simp: past_growing_def)
  then show ?thesis using wake_txns [OF c] g by (cases "p = p0") (auto simp: s' locks_def past_growing_def)
next
  case (Finish p0 st0)
  then show ?thesis using st g e by (cases "p = p0") (auto simp: lock_step_def locks_def past_growing_def)
qed

lemma two_phase_run:
  assumes "lock_reachable s" "lock_run s es = Some s'" "past_growing s p" "Finish p COMMITTED \<notin> set es"
  shows "past_growing s' p \<and> locks s' p \<subseteq> locks s p"
  using assms
proof (induction es arbitrary: s)
  case (Cons e es)
  then obtain s1 where 1: "lock_step s e s1" "lock_run s1 es = Some s'"
    by (auto simp: lock_step_def bind_eq_Some_conv split: if_splits)
  have e: "e \<noteq> Finish p COMMITTED" using Cons.prems(4) by auto
  from two_phase_step [OF Cons.prems(1) 1(1) Cons.prems(3) e] Cons.IH [OF lock_more [OF Cons.prems(1) 1(1)] 1(2)] Cons.prems(4)
  show ?case by auto
qed simp

text \<open>When nobody holds a lock in the way, the counters say so.\<close>

lemma nobody_in_the_way:
  assumes ok: "mgr_ok m" and q: "lock_table m rid = Some q"
    and no: "\<And>p. rid \<notin> exclusive_lock_set (txns m p) \<and> (k = Wait_Shared \<or> rid \<notin> shared_lock_set (txns m p))"
  shows "free_for k q"
proof -
  have none: "requests (request_queue q) n \<noteq> Some (j, True)" if "j = EXCLUSIVE \<or> k \<noteq> Wait_Shared" for n j
  proof
    assume a: "requests (request_queue q) n = Some (j, True)"
    then obtain p where "txn_id (txns m p) = n" using mgr_okD(3) [OF ok q, of n] by auto
    then have "request_at m rid p = Some (j, True)" using a by (simp add: request_at_table [OF q])
    then show False using no [of p] mgr_okD(4,5) [OF ok, of rid p] that by (cases j) auto
  qed
  show ?thesis
    using mgr_okD(2) [OF ok q] none [of EXCLUSIVE] none [of SHARED]
    by (cases "k = Wait_Shared") (auto simp: free_for_def queue_ok_def Let_def)
qed

lemma calm_exclusive:
  assumes "sys_ok s" "rid \<in> exclusive_lock_set (txns (mgr s) p)" "rid \<in> locks s p'"
  shows "p' = p"
proof -
  have ok: "mgr_ok (mgr s)" using assms(1) by (simp add: sys_ok_def)
  have p: "request_at (mgr s) rid p = Some (EXCLUSIVE, True)" using assms(2) mgr_okD(5) [OF ok] by blast
  obtain k where p': "request_at (mgr s) rid p' = Some (k, True)"
    using assms(3) mgr_okD(4,5) [OF ok, of rid p'] by (auto simp: locks_def)
  obtain q where q: "lock_table (mgr s) rid = Some q" using request_at_Some [OF p] by metis
  from mgr_okD(2) [OF ok q] p p' have "txn_id (txns (mgr s) p') = txn_id (txns (mgr s) p)"
    unfolding request_at_table [OF q] queue_ok_def Let_def by blast
  then show ?thesis by (rule mgr_okD(1) [OF ok])
qed

lemma release_serves:
  assumes ok: "sys_ok s" and b: "blocked s p = Some (k, rid)" and g: "txn_state (txns (mgr s) p) = GROWING"
    and w: "lock_wake k (mgr s) p rid = Some (Waits, m0)" and pr: "permitted s (Release p' rid)"
    and u: "Unlock (mgr s) p' rid = Some ((res, notified), m1)"
    and no: "\<And>p. rid \<notin> exclusive_lock_set (txns m1 p) \<and> (k = Wait_Shared \<or> rid \<notin> shared_lock_set (txns m1 p))"
  shows "notified \<and> (\<exists>m2. lock_wake k m1 p rid = Some (Returned True, m2) \<and>
    rid \<in> shared_lock_set (txns m2 p) \<union> exclusive_lock_set (txns m2 p))"
proof -
  have m: "mgr_ok (mgr s)" and r: "request_at (mgr s) rid p = Some (mode_of k, False)"
    using ok b by (simp_all add: sys_ok_def)
  obtain j where j: "request_at (mgr s) rid p' = Some (j, True)"
    using pr mgr_okD(4,5) [OF m, of rid p'] by (auto simp: locks_def)
  obtain q where q: "lock_table (mgr s) rid = Some q" using request_at_Some [OF r] by metis
  obtain q' where q': "lock_table m1 rid = Some q'" "changed (mgr s) p' rid None m1"
    "notified = (j = EXCLUSIVE \<or> sharing_count q' = 0)" using Unlock_calm [OF m j q] u by auto
  have ne: "p \<noteq> p'" using b pr by auto
  have ok1: "mgr_ok m1" "request_at m1 rid p = Some (mode_of k, False)"
    using q'(2) r ne by (simp_all add: changed_def)
  have st: "txn_state (txns m1 p) \<noteq> ABORTED" using Unlock_txns(1) [OF u ne] g by simp
  have fr: "free_for k q'" by (rule nobody_in_the_way [OF ok1(1) q'(1) no])
  from finish_granted [OF ok1 st q'(1) fr] obtain m2 where
    m2: "lock_finish k m1 p rid = Some (Returned True, m2)" "changed m1 p rid (Some (mode_of k, True)) m2" by blast
  have n: "notified"
  proof (cases "k = Wait_Shared \<and> j = SHARED")
    case True
    have "\<not> free_for k q" using w g by (auto simp: lock_wake_finish [OF q] dest: finish_txns(1) split: if_splits)
    then have "is_writing q" using True by (simp add: free_for_def)
    with mgr_okD(2) [OF m q] obtain n where "requests (request_queue q) n = Some (EXCLUSIVE, True)"
      "\<And>n' i. requests (request_queue q) n' = Some (i, True) \<Longrightarrow> n' = n" by (auto simp: queue_ok_def Let_def)
    then have False using j True by (auto simp: request_at_table [OF q])
    then show ?thesis ..
  next
    case False
    then show ?thesis using fr q'(3) by (cases j) (auto simp: free_for_def)
  qed
  have "mgr_ok m2" "request_at m2 rid p = Some (mode_of k, True)" using m2(2) by (simp_all add: changed_def)
  then have "rid \<in> shared_lock_set (txns m2 p) \<union> exclusive_lock_set (txns m2 p)"
    using mgr_okD(4,5) [of m2 rid p] by (cases k) auto
  then show ?thesis using n m2(1) fr by (simp add: lock_wake_finish [OF q'(1)])
qed

subsection \<open>Properties\<close>

text \<open>C6. While no transaction is wounded, a transaction that holds an exclusive lock on a record is the only one
  that holds a lock on it, and no permitted call crashes.\<close>

theorem exclusive_locks_exclude:
  assumes "calm_reachable s"
  shows "(rid \<in> exclusive_lock_set (txns (mgr s) p) \<longrightarrow> rid \<in> locks s p' \<longrightarrow> p' = p) \<and>
    (permitted s e \<longrightarrow> calm s e \<longrightarrow> (\<exists>s'. lock_do s e = Some s' \<and> calm_reachable s'))"
proof -
  have ok: "sys_ok s" by (rule calm_sys_ok [OF assms])
  have "\<exists>s'. lock_do s e = Some s' \<and> calm_reachable s'" if "permitted s e" "calm s e"
    using lock_do_calm [OF ok that] that calm_more [OF assms] by (auto simp: lock_step_def)
  then show ?thesis using calm_exclusive [OF ok] by blast
qed

text \<open>Three records and transactions with the numbers 0, 1, 2 and so on.\<close>

definition rec_rid :: "nat \<Rightarrow> rid" where
  "rec_rid n = \<lparr>page_id_of = 0, slot_num_of = of_nat n\<rparr>"

definition lock_start :: lock_system where
  "lock_start = \<lparr>mgr = \<lparr>lock_table = Map.empty, id_2_txn = Map.empty, txns = (\<lambda>p. Transaction
     \<lparr>PAGE_SIZE = 4096, INVALID_PAGE_ID = - 1, INVALID_LSN = - 1\<rparr> (int p) REPEATABLE_READ)\<rparr>, blocked = Map.empty\<rparr>"

lemma lock_start_fresh: "fresh_system lock_start"
  by (simp add: fresh_system_def lock_start_def locks_def Transaction_def inj_def)

lemma run_witness:
  assumes "map_option P (lock_run lock_start es) = Some True"
  obtains s where "lock_run lock_start es = Some s" "P s" "lock_reachable s"
proof -
  obtain s where "lock_run lock_start es = Some s" "P s" using assms by auto
  with lock_run_reachable [OF lock_init [OF lock_start_fresh]] that show thesis by blast
qed

fun all_calm :: "lock_system \<Rightarrow> lock_event list \<Rightarrow> bool" where
  "all_calm s [] \<longleftrightarrow> True"
| "all_calm s (e # es) \<longleftrightarrow> calm s e \<and> (case lock_do s e of None \<Rightarrow> False | Some s \<Rightarrow> all_calm s es)"

lemma calm_run: "calm_reachable s \<Longrightarrow> lock_run s es = Some s' \<Longrightarrow> all_calm s es \<Longrightarrow> calm_reachable s'"
proof (induction es arbitrary: s)
  case (Cons e es)
  then obtain s1 where "lock_step s e s1" "lock_run s1 es = Some s'" "all_calm s1 es" "calm s e"
    by (auto simp: lock_step_def bind_eq_Some_conv split: if_splits option.splits)
  then show ?case using Cons calm_more by blast
qed simp

theorem exclusive_locks_exclude_witness:
  "\<exists>s. lock_run lock_start [Call Wait_Exclusive 0 (rec_rid 0), Call Wait_Shared 1 (rec_rid 0)] = Some s \<and>
    rec_rid 0 \<in> exclusive_lock_set (txns (mgr s) 0) \<and> rec_rid 0 \<notin> locks s 1 \<and> blocked s 1 = Some (Wait_Shared, rec_rid 0)"
proof -
  let ?es = "[Call Wait_Exclusive 0 (rec_rid 0), Call Wait_Shared 1 (rec_rid 0)]"
  have "map_option (\<lambda>s. rec_rid 0 \<in> exclusive_lock_set (txns (mgr s) 0) \<and> blocked s 1 = Some (Wait_Shared, rec_rid 0) \<and>
      all_calm lock_start ?es) (lock_run lock_start ?es) = Some True" by code_simp
  then obtain s where s: "lock_run lock_start ?es = Some s" "rec_rid 0 \<in> exclusive_lock_set (txns (mgr s) 0)"
    "blocked s 1 = Some (Wait_Shared, rec_rid 0)" "all_calm lock_start ?es" by (rule run_witness) blast
  have "calm_reachable s" by (rule calm_run [OF calm_init [OF lock_start_fresh] s(1,4)])
  from exclusive_locks_exclude [OF this, of "rec_rid 0" 0 1] s show ?thesis by auto
qed

text \<open>C16. Locking is two-phase up to the commit, wounds included: in every history whose callers lock a record once,
  upgrade shared locks only and release what they hold, a transaction that shrinks (it released a lock that counts for the
  phases) or was aborted never grows again and never gets another lock before its commit, whatever it asks for. The code
  does not check for committed transactions: \<open>committed_gets_lock\<close>.\<close>

theorem locking_is_two_phase:
  assumes "lock_reachable s" "lock_run s es = Some s'" "past_growing s p" "Finish p COMMITTED \<notin> set es"
  shows "past_growing s' p \<and> locks s' p \<subseteq> locks s p"
  by (rule two_phase_run [OF assms])

theorem locking_is_two_phase_witness:
  "\<exists>s s'. lock_run lock_start [Call Wait_Shared 0 (rec_rid 0), Release 0 (rec_rid 0)] = Some s \<and>
    lock_run s [Call Wait_Exclusive 0 (rec_rid 1)] = Some s' \<and> locks s' 0 \<subseteq> locks s 0"
proof -
  let ?es = "[Call Wait_Shared 0 (rec_rid 0), Release 0 (rec_rid 0)]"
  have "map_option (\<lambda>s. txn_state (txns (mgr s) 0) = SHRINKING \<and>
      map_option (\<lambda>_. ()) (lock_run s [Call Wait_Exclusive 0 (rec_rid 1)]) = Some ()) (lock_run lock_start ?es) = Some True"
    by code_simp
  then obtain s where s: "lock_run lock_start ?es = Some s" "txn_state (txns (mgr s) 0) = SHRINKING"
    "map_option (\<lambda>_. ()) (lock_run s [Call Wait_Exclusive 0 (rec_rid 1)]) = Some ()" "lock_reachable s"
    by (rule run_witness) blast
  then obtain s' where s': "lock_run s [Call Wait_Exclusive 0 (rec_rid 1)] = Some s'" by fastforce
  from locking_is_two_phase [OF s(4) s', of 0] s s' show ?thesis by (auto simp: past_growing_def)
qed

text \<open>\<^verbatim>\<open>LockPrepare\<close> refuses shrinking transactions only: one that released its locks at its commit gets a new lock.\<close>

lemma committed_gets_lock:
  assumes "txn_state (txns m p) = COMMITTED" "lock_table m rid = None"
  shows "\<exists>m'. LockExclusive m p rid = Some (Returned True, m') \<and> rid \<in> exclusive_lock_set (txns m' p)"
  using assms
  by (auto simp: LockExclusive_def LockExclusive_finish_def LockPrepare_def CheckAborted_def grant_def push_request_def Let_def
      emplace_txn_def empty_queue_def)

text \<open>C22. While no transaction is wounded no wake-up is lost: when a lock is released and afterwards nobody holds a
  lock in the way of a thread that waits, the release wakes the threads of the queue, and the thread gets the lock
  when it runs.\<close>

theorem waiting_thread_is_served:
  assumes "calm_reachable s" "blocked s p = Some (k, rid)" "txn_state (txns (mgr s) p) = GROWING"
    and "lock_wake k (mgr s) p rid = Some (Waits, m0)" "permitted s (Release p' rid)"
    and "Unlock (mgr s) p' rid = Some ((res, notified), m1)"
    and "\<And>p. rid \<notin> exclusive_lock_set (txns m1 p) \<and> (k = Wait_Shared \<or> rid \<notin> shared_lock_set (txns m1 p))"
  shows "notified \<and> (\<exists>m2. lock_wake k m1 p rid = Some (Returned True, m2) \<and>
    rid \<in> shared_lock_set (txns m2 p) \<union> exclusive_lock_set (txns m2 p))"
  by (rule release_serves [OF calm_sys_ok [OF assms(1)] assms(2-7)])

theorem waiting_thread_is_served_witness:
  "\<exists>s m1 m2. lock_run lock_start [Call Wait_Exclusive 0 (rec_rid 0), Call Wait_Shared 1 (rec_rid 0)] = Some s \<and>
    Unlock (mgr s) 0 (rec_rid 0) = Some ((True, True), m1) \<and>
    lock_wake Wait_Shared m1 1 (rec_rid 0) = Some (Returned True, m2)"
proof -
  let ?es = "[Call Wait_Exclusive 0 (rec_rid 0), Call Wait_Shared 1 (rec_rid 0)]" and ?r = "rec_rid 0"
  have "map_option (\<lambda>s. ?r \<in> exclusive_lock_set (txns (mgr s) 0) \<and> blocked s 1 = Some (Wait_Shared, ?r) \<and>
      all_calm lock_start ?es \<and> txn_state (txns (mgr s) 1) = GROWING \<and> permitted s (Release 0 ?r) \<and>
      map_option fst (lock_wake Wait_Shared (mgr s) 1 ?r) = Some Waits \<and>
      map_option fst (Unlock (mgr s) 0 ?r) = Some (True, True)) (lock_run lock_start ?es) = Some True" by code_simp
  then obtain s where s: "lock_run lock_start ?es = Some s" "?r \<in> exclusive_lock_set (txns (mgr s) 0)"
    "blocked s 1 = Some (Wait_Shared, ?r)" "all_calm lock_start ?es" "txn_state (txns (mgr s) 1) = GROWING"
    "permitted s (Release 0 ?r)" "map_option fst (lock_wake Wait_Shared (mgr s) 1 ?r) = Some Waits"
    "map_option fst (Unlock (mgr s) 0 ?r) = Some (True, True)" by (rule run_witness) blast
  obtain m0 m1 where m: "lock_wake Wait_Shared (mgr s) 1 ?r = Some (Waits, m0)"
    "Unlock (mgr s) 0 ?r = Some ((True, True), m1)" using s(7,8) by auto
  have calm: "calm_reachable s" by (rule calm_run [OF calm_init [OF lock_start_fresh] s(1,4)])
  have "?r \<notin> exclusive_lock_set (txns m1 p)" for p
    using Unlock_txns [OF m(2)] calm_exclusive [OF calm_sys_ok [OF calm] s(2), of p]
    by (cases "p = 0") (auto simp: locks_def)
  then have "\<exists>m2. lock_wake Wait_Shared m1 1 ?r = Some (Returned True, m2)"
    using waiting_thread_is_served [OF calm s(3,5) m(1) s(6) m(2)] by blast
  with s(1) m(2) show ?thesis by blast
qed

text \<open>A wounded transaction is counted out twice. Transactions 1 and 5 share a record, 3 asks for it
  exclusively: \<^verbatim>\<open>DeadlockPrevent\<close> aborts 5 and decrements \<^verbatim>\<open>sharing_count_\<close>; when 5 releases its lock,
  \<^verbatim>\<open>Unlock\<close> decrements it again, it reaches 0, and 3 gets the exclusive lock while 1 still holds
  its shared lock.\<close>

theorem wounded_lock_is_counted_twice:
  "\<exists>s. lock_run lock_start [Call Wait_Shared 1 (rec_rid 0), Call Wait_Shared 5 (rec_rid 0),
      Call Wait_Exclusive 3 (rec_rid 0), Finish 5 ABORTED, Release 5 (rec_rid 0), Resume 3] = Some s \<and>
    IsSharedLocked (txns (mgr s) 1) (rec_rid 0) \<and> IsExclusiveLocked (txns (mgr s) 3) (rec_rid 0) \<and>
    txn_state (txns (mgr s) 1) = GROWING \<and> txn_state (txns (mgr s) 3) = GROWING"
proof -
  have "map_option (\<lambda>s. IsSharedLocked (txns (mgr s) 1) (rec_rid 0) \<and> IsExclusiveLocked (txns (mgr s) 3) (rec_rid 0) \<and>
    txn_state (txns (mgr s) 1) = GROWING \<and> txn_state (txns (mgr s) 3) = GROWING) (lock_run lock_start
      [Call Wait_Shared 1 (rec_rid 0), Call Wait_Shared 5 (rec_rid 0),
      Call Wait_Exclusive 3 (rec_rid 0), Finish 5 ABORTED, Release 5 (rec_rid 0), Resume 3]) = Some True" by code_simp
  then show ?thesis by (rule run_witness) blast
qed

text \<open>Deadlocks are not prevented. A shared lock is granted past a request that waits, to a transaction
  that is younger than the one that waits; it is not wounded. Transaction 1 holds record 1 and waits for record 0, which
  2 came to share; 2 waits for record 1. Neither is aborted, neither can run, and nobody else holds a lock.\<close>

theorem wound_wait_deadlock:
  "\<exists>s. lock_run lock_start [Call Wait_Shared 0 (rec_rid 0), Call Wait_Exclusive 1 (rec_rid 1),
      Call Wait_Exclusive 1 (rec_rid 0), Call Wait_Shared 2 (rec_rid 0), Call Wait_Exclusive 2 (rec_rid 1),
      Release 0 (rec_rid 0)] = Some s \<and>
    lock_wake Wait_Exclusive (mgr s) 1 (rec_rid 0) = Some (Waits, mgr s) \<and>
    lock_wake Wait_Exclusive (mgr s) 2 (rec_rid 1) = Some (Waits, mgr s) \<and>
    IsExclusiveLocked (txns (mgr s) 1) (rec_rid 1) \<and> IsSharedLocked (txns (mgr s) 2) (rec_rid 0) \<and>
    txn_state (txns (mgr s) 1) = GROWING \<and> txn_state (txns (mgr s) 2) = GROWING \<and>
    locks s 0 = {} \<and> blocked s 1 = Some (Wait_Exclusive, rec_rid 0) \<and> blocked s 2 = Some (Wait_Exclusive, rec_rid 1)"
proof -
  let ?es = "[Call Wait_Shared 0 (rec_rid 0), Call Wait_Exclusive 1 (rec_rid 1),
      Call Wait_Exclusive 1 (rec_rid 0), Call Wait_Shared 2 (rec_rid 0), Call Wait_Exclusive 2 (rec_rid 1),
      Release 0 (rec_rid 0)]"
  have "map_option (\<lambda>s. map_option fst (lock_wake Wait_Exclusive (mgr s) 1 (rec_rid 0)) = Some Waits \<and>
    map_option fst (lock_wake Wait_Exclusive (mgr s) 2 (rec_rid 1)) = Some Waits \<and>
    IsExclusiveLocked (txns (mgr s) 1) (rec_rid 1) \<and> IsSharedLocked (txns (mgr s) 2) (rec_rid 0) \<and>
    txn_state (txns (mgr s) 1) = GROWING \<and> txn_state (txns (mgr s) 2) = GROWING \<and>
    locks s 0 = {} \<and> blocked s 1 = Some (Wait_Exclusive, rec_rid 0) \<and> blocked s 2 = Some (Wait_Exclusive, rec_rid 1))
    (lock_run lock_start ?es) = Some True" by code_simp
  moreover have wt: "map_option fst (lock_wake k m p r) = Some Waits \<Longrightarrow> lock_wake k m p r = Some (Waits, m)" for k m p r
    by (cases k) (auto simp: wake_defs bind_eq_Some_conv dest: finish_txns(1) [of Wait_Shared, simplified]
        finish_txns(1) [of Wait_Exclusive, simplified] finish_txns(1) [of Wait_Upgrade, simplified] split: if_splits)
  ultimately show ?thesis using wt by - (erule run_witness, blast)
qed

text \<open>An upgrade that is aborted while it waits leaves \<^verbatim>\<open>upgrading_\<close> set: 5 waits to upgrade record 0 and is wounded on
  record 1; later the only holder of record 0 cannot upgrade.\<close>

lemma upgrade_flag_stays:
  "\<exists>s. lock_run lock_start [Call Wait_Shared 0 (rec_rid 0), Call Wait_Shared 5 (rec_rid 0), Call Wait_Exclusive 5 (rec_rid 1),
      Call Wait_Upgrade 5 (rec_rid 0), Call Wait_Exclusive 3 (rec_rid 1), Resume 5] = Some s \<and>
    blocked s 5 = None \<and> map_option fst (LockUpgrade (mgr s) 0 (rec_rid 0)) =
      Some (Thrown \<lparr>exn_txn_id = 0, abort_reason = UPGRADE_CONFLICT\<rparr>)"
proof -
  have "map_option (\<lambda>s. blocked s 5 = None \<and> map_option fst (LockUpgrade (mgr s) 0 (rec_rid 0)) =
      Some (Thrown \<lparr>exn_txn_id = 0, abort_reason = UPGRADE_CONFLICT\<rparr>)) (lock_run lock_start
     [Call Wait_Shared 0 (rec_rid 0), Call Wait_Shared 5 (rec_rid 0), Call Wait_Exclusive 5 (rec_rid 1),
      Call Wait_Upgrade 5 (rec_rid 0), Call Wait_Exclusive 3 (rec_rid 1), Resume 5]) = Some True" by code_simp
  then show ?thesis by (rule run_witness) blast
qed

end
