(* ===== verification/Latch.thy ===== *)
theory Latch
  imports Prelude
begin

section \<open>The reader-writer latch\<close>

text \<open>
  \<^verbatim>\<open>common/rwlatch.h\<close>. Each method runs under \<^verbatim>\<open>mutex_\<close> up to its end or to a wait on one of the two condition
  variables, which gives the mutex up. So a method is a function on the two members, and what threads do is a step
  relation: a thread calls a method, falls asleep when the condition of a wait holds, is woken by a notification and
  evaluates the condition again. The mutual exclusion of readers and writers and the absence of lost wake-ups are
  invariants of that relation.
\<close>

subsection \<open>The methods\<close>

record rw_latch =
  reader_count :: uint32
  writer_entered :: bool

definition MAX_READERS :: uint32 where
  "MAX_READERS = - 1"

definition ReaderWriterLatch :: rw_latch where
  "ReaderWriterLatch = \<lparr>reader_count = 0, writer_entered = False\<rparr>"

text \<open>One round of the loops of \<open>RLock\<close> and \<open>WLock\<close>: \<^term>\<open>None\<close> is the wait. The second loop of \<open>WLock\<close> changes nothing.\<close>

definition RLock :: "rw_latch \<Rightarrow> rw_latch option" where
  "RLock l = (if writer_entered l \<or> reader_count l = MAX_READERS then None
     else Some (l\<lparr>reader_count := reader_count l + 1\<rparr>))"

definition WLock_enter :: "rw_latch \<Rightarrow> rw_latch option" where
  "WLock_enter l = (if writer_entered l then None else Some (l\<lparr>writer_entered := True\<rparr>))"

definition WLock_drained :: "rw_latch \<Rightarrow> bool" where
  "WLock_drained l \<longleftrightarrow> \<not> reader_count l > 0"

datatype notification = Nobody | One_reader | All_readers | One_writer

definition RUnlock :: "rw_latch \<Rightarrow> rw_latch \<times> notification" where
  "RUnlock l = (let l = l\<lparr>reader_count := reader_count l - 1\<rparr> in
     (l, if writer_entered l then (if reader_count l = 0 then One_writer else Nobody)
         else (if reader_count l = MAX_READERS - 1 then One_reader else Nobody)))"

definition WUnlock :: "rw_latch \<Rightarrow> rw_latch \<times> notification" where
  "WUnlock l = (l\<lparr>writer_entered := False\<rparr>, All_readers)"

subsection \<open>Threads\<close>

text \<open>Where a thread is. A thread in one of the three loops runs or sleeps on \<open>reader_\<close> (the first two) or \<open>writer_\<close>.\<close>

datatype place = Outside | In_RLock | In_WLock | Draining | Reading | Writing

record 't latch_state =
  latch :: rw_latch
  place :: "'t \<Rightarrow> place"
  asleep :: "'t set"

definition at_place :: "'t latch_state \<Rightarrow> 't \<Rightarrow> place \<Rightarrow> rw_latch \<Rightarrow> 't set \<Rightarrow> 't latch_state" where
  "at_place s t p l z = \<lparr>latch = l, place = (place s)(t := p), asleep = z\<rparr>"

definition notified :: "'t latch_state \<Rightarrow> notification \<Rightarrow> 't set \<Rightarrow> bool" where
  "notified s n z \<longleftrightarrow> (case n of
     Nobody \<Rightarrow> z = asleep s
   | One_reader \<Rightarrow> (let w = {t \<in> asleep s. place s t = In_RLock \<or> place s t = In_WLock} in
       if w = {} then z = asleep s else \<exists>t\<in>w. z = asleep s - {t})
   | All_readers \<Rightarrow> z = {t \<in> asleep s. place s t = Draining}
   | One_writer \<Rightarrow> (let w = {t \<in> asleep s. place s t = Draining} in
       if w = {} then z = asleep s else \<exists>t\<in>w. z = asleep s - {t}))"

inductive latch_step :: "'t latch_state \<Rightarrow> 't latch_state \<Rightarrow> bool" where
  call_RLock: "place s t = Outside \<Longrightarrow> latch_step s (at_place s t In_RLock (latch s) (asleep s))"
| call_WLock: "place s t = Outside \<Longrightarrow> latch_step s (at_place s t In_WLock (latch s) (asleep s))"
| RLock_got: "place s t = In_RLock \<Longrightarrow> t \<notin> asleep s \<Longrightarrow> RLock (latch s) = Some l \<Longrightarrow>
    latch_step s (at_place s t Reading l (asleep s))"
| RLock_wait: "place s t = In_RLock \<Longrightarrow> t \<notin> asleep s \<Longrightarrow> RLock (latch s) = None \<Longrightarrow>
    latch_step s (at_place s t In_RLock (latch s) (insert t (asleep s)))"
| WLock_got: "place s t = In_WLock \<Longrightarrow> t \<notin> asleep s \<Longrightarrow> WLock_enter (latch s) = Some l \<Longrightarrow>
    latch_step s (at_place s t Draining l (asleep s))"
| WLock_wait: "place s t = In_WLock \<Longrightarrow> t \<notin> asleep s \<Longrightarrow> WLock_enter (latch s) = None \<Longrightarrow>
    latch_step s (at_place s t In_WLock (latch s) (insert t (asleep s)))"
| drain_done: "place s t = Draining \<Longrightarrow> t \<notin> asleep s \<Longrightarrow> WLock_drained (latch s) \<Longrightarrow>
    latch_step s (at_place s t Writing (latch s) (asleep s))"
| drain_wait: "place s t = Draining \<Longrightarrow> t \<notin> asleep s \<Longrightarrow> \<not> WLock_drained (latch s) \<Longrightarrow>
    latch_step s (at_place s t Draining (latch s) (insert t (asleep s)))"
| RUnlock: "place s t = Reading \<Longrightarrow> RUnlock (latch s) = (l, n) \<Longrightarrow> notified s n z \<Longrightarrow>
    latch_step s (at_place s t Outside l z)"
| WUnlock: "place s t = Writing \<Longrightarrow> WUnlock (latch s) = (l, n) \<Longrightarrow> notified s n z \<Longrightarrow>
    latch_step s (at_place s t Outside l z)"

definition latch_start :: "'t latch_state" where
  "latch_start = \<lparr>latch = ReaderWriterLatch, place = (\<lambda>_. Outside), asleep = {}\<rparr>"

subsection \<open>The invariant\<close>

definition readers :: "'t latch_state \<Rightarrow> 't set" where
  "readers s = {t. place s t = Reading}"

definition writers :: "'t latch_state \<Rightarrow> 't set" where
  "writers s = {t. place s t = Draining \<or> place s t = Writing}"

definition latch_inv :: "'t latch_state \<Rightarrow> bool" where
  "latch_inv s \<longleftrightarrow> unat (reader_count (latch s)) = card (readers s) \<and>
     (if writer_entered (latch s) then \<exists>t. writers s = {t} else writers s = {}) \<and>
     (\<forall>t. place s t = Writing \<longrightarrow> readers s = {}) \<and>
     (\<forall>t\<in>asleep s. place s t = In_RLock \<or> place s t = In_WLock \<or> place s t = Draining) \<and>
     (\<forall>t\<in>asleep s. place s t = In_RLock \<or> place s t = In_WLock \<longrightarrow> writer_entered (latch s)) \<and>
     (\<forall>t\<in>asleep s. place s t = Draining \<longrightarrow> readers s \<noteq> {})"

lemma place_at [simp]: "place (at_place s t p l z) = (place s)(t := p)" "latch (at_place s t p l z) = l"
  "asleep (at_place s t p l z) = z"
  by (simp_all add: at_place_def)

lemma readers_at: "readers (at_place s t p l z) = (if p = Reading then insert t (readers s) else readers s - {t})"
  by (auto simp: readers_def)

lemma writers_at:
  "writers (at_place s t p l z) = (if p = Draining \<or> p = Writing then insert t (writers s) else writers s - {t})"
  by (auto simp: writers_def)

lemmas latch_invs = latch_inv_def readers_at writers_at

lemma readers_bound:
  assumes "latch_inv s" "finite (UNIV :: 't set)" "card (UNIV :: 't set) < 2 ^ 32 - 1"
  shows "unat (reader_count (latch (s :: 't latch_state))) < 2 ^ 32 - 1" "finite (readers s)"
proof -
  show "finite (readers s)"
    using assms(2) by (rule rev_finite_subset) simp
  show "unat (reader_count (latch s)) < 2 ^ 32 - 1"
    using assms card_mono[OF assms(2), of "readers s"] by (simp add: latch_inv_def)
qed

lemma not_MAX_READERS: "unat (c :: uint32) < 2 ^ 32 - 1 \<Longrightarrow> c \<noteq> MAX_READERS"
  by (auto simp: MAX_READERS_def unsigned_minus_1_eq_mask mask_eq_exp_minus_1)

lemma place_readers: "t \<in> readers s \<longleftrightarrow> place s t = Reading"
  and place_writers: "t \<in> writers s \<longleftrightarrow> place s t = Draining \<or> place s t = Writing"
  by (simp_all add: readers_def writers_def)

lemma RLock_got_inv:
  assumes "latch_inv s" "unat (reader_count (latch s)) < 2 ^ 32 - 1" "finite (readers s)"
    and "place s t = In_RLock" "t \<notin> asleep s" "RLock (latch s) = Some l"
  shows "latch_inv (at_place s t Reading l (asleep s))"
proof -
  have l: "\<not> writer_entered (latch s)" "l = (latch s)\<lparr>reader_count := reader_count (latch s) + 1\<rparr>"
    using assms(6) by (auto simp: RLock_def split: if_splits)
  have w: "writers s = {}"
    using assms(1) l(1) by (simp add: latch_inv_def)
  have "unat (reader_count (latch s) + 1) = Suc (unat (reader_count (latch s)))"
    using assms(2) by (simp add: unat_word_ariths)
  then show ?thesis
    using assms(1,3-5) l w place_writers[of _ s] by (auto simp: latch_invs card_insert_if place_readers)
qed

lemma WLock_got_inv:
  assumes "latch_inv s" "place s t = In_WLock" "t \<notin> asleep s" "WLock_enter (latch s) = Some l"
  shows "latch_inv (at_place s t Draining l (asleep s))"
proof -
  have l: "\<not> writer_entered (latch s)" "l = (latch s)\<lparr>writer_entered := True\<rparr>"
    using assms(4) by (auto simp: WLock_enter_def split: if_splits)
  have "t \<notin> readers s" "writers s = {}"
    using assms(1,2) l(1) by (simp_all add: latch_inv_def place_readers)
  then show ?thesis
    using assms(1-3) l place_writers[of _ s] by (auto simp: latch_invs)
qed

lemma no_wait_inv:
  assumes "latch_inv s" "place s t = Outside" "p = In_RLock \<or> p = In_WLock"
  shows "latch_inv (at_place s t p (latch s) (asleep s))"
proof -
  have "t \<notin> readers s" "t \<notin> writers s" "t \<notin> asleep s"
    using assms(1,2) by (auto simp: latch_inv_def place_readers place_writers)
  then show ?thesis
    using assms by (auto simp: latch_invs)
qed

lemma wait_inv:
  assumes "latch_inv s" "unat (reader_count (latch s)) < 2 ^ 32 - 1" "place s t = p"
    and "p = In_RLock \<and> RLock (latch s) = None \<or> p = In_WLock \<and> WLock_enter (latch s) = None
      \<or> p = Draining \<and> \<not> WLock_drained (latch s)"
  shows "latch_inv (at_place s t p (latch s) (insert t (asleep s)))"
proof -
  have eq: "at_place s t p (latch s) (insert t (asleep s)) = s\<lparr>asleep := insert t (asleep s)\<rparr>"
    using assms(3) by (auto simp: at_place_def)
  have "p = Draining \<Longrightarrow> readers s \<noteq> {}"
    using assms(1,4) by (auto simp: latch_inv_def WLock_drained_def word_less_nat_alt)
  then show ?thesis
    unfolding eq using assms not_MAX_READERS[OF assms(2)]
    by (auto simp: latch_inv_def RLock_def WLock_enter_def readers_def writers_def split: if_splits)
qed

lemma drain_done_inv:
  assumes "latch_inv s" "finite (readers s)" "place s t = Draining" "t \<notin> asleep s" "WLock_drained (latch s)"
  shows "latch_inv (at_place s t Writing (latch s) (asleep s))"
proof -
  have "readers s = {}"
    using assms(1,2,5) by (simp add: latch_inv_def WLock_drained_def word_less_nat_alt)
  then show ?thesis
    using assms(1,3,4) by (auto simp: latch_invs insert_absorb place_writers split: if_splits)
qed

lemma WUnlock_inv:
  assumes "latch_inv s" "place s t = Writing" "WUnlock (latch s) = (l, n)" "notified s n z"
  shows "latch_inv (at_place s t Outside l z)"
proof -
  have l: "l = (latch s)\<lparr>writer_entered := False\<rparr>" "z = {t \<in> asleep s. place s t = Draining}"
    using assms(3,4) by (auto simp: WUnlock_def notified_def)
  have "t \<in> writers s" "readers s = {}" "t \<notin> asleep s"
    using assms(1,2) by (auto simp: latch_inv_def place_writers)
  then show ?thesis
    using assms(1) l by (auto simp: latch_invs split: if_splits)
qed

lemma RUnlock_inv:
  assumes inv: "latch_inv s" and small: "unat (reader_count (latch s)) < 2 ^ 32 - 1" and fin: "finite (readers s)"
    and t: "place s t = Reading" and l: "RUnlock (latch s) = (l, n)" and z: "notified s n z"
  shows "latch_inv (at_place s t Outside l z)"
proof -
  let ?c = "reader_count (latch s)"
  have r: "t \<in> readers s" and out: "t \<notin> asleep s" "t \<notin> writers s"
    using inv t by (auto simp: latch_inv_def place_readers place_writers)
  have c: "unat ?c = Suc (card (readers s - {t}))"
    using inv card.remove[OF fin r] by (simp add: latch_inv_def)
  then have c': "unat (?c - 1) = card (readers s - {t})"
    using unat_minus_one[of ?c] by fastforce
  have notmax: "?c - 1 \<noteq> MAX_READERS - 1"
    using not_MAX_READERS[OF small] by (metis diff_add_cancel)
  have last: "?c - 1 = 0 \<longleftrightarrow> readers s - {t} = {}"
    using c' fin by (metis card_0_eq finite_Diff unat_eq_zero)
  have l': "l = (latch s)\<lparr>reader_count := ?c - 1\<rparr>"
    and n: "n = (if writer_entered (latch s) \<and> readers s - {t} = {} then One_writer else Nobody)"
    using l notmax last by (auto simp: RUnlock_def Let_def split: if_splits)
  have sub: "z \<subseteq> asleep s"
    using z n by (auto simp: notified_def Let_def split: if_splits)
  have woken: "place s u \<noteq> Draining" if u: "u \<in> z" and e: "readers s - {t} = {}" for u
  proof
    assume d: "place s u = Draining"
    then obtain w where w: "writers s = {w}" "writer_entered (latch s)"
      using inv by (auto simp: latch_inv_def writers_def split: if_splits)
    then have one: "v = w" if "place s v = Draining" for v
      using that by (auto simp: writers_def)
    have "{t \<in> asleep s. place s t = Draining} = {u}"
      using d u sub one[OF d] by (auto dest: one)
    then show False
      using z n w e u by (auto simp: notified_def Let_def)
  qed
  show ?thesis
    using inv out t l' c' sub woken by (auto simp: latch_invs place_readers split: if_splits)
qed

lemma sleeper_place: "latch_inv s \<Longrightarrow> t \<in> asleep s \<Longrightarrow> place s t \<in> {In_RLock, In_WLock, Draining}"
  by (simp add: latch_inv_def)

lemma latch_step_inv:
  assumes "latch_step s s'" "latch_inv s" "finite (UNIV :: 't set)" "card (UNIV :: 't set) < 2 ^ 32 - 1"
  shows "latch_inv (s' :: 't latch_state)"
  using assms(1)
  by cases (auto intro: no_wait_inv wait_inv RLock_got_inv WLock_got_inv drain_done_inv RUnlock_inv WUnlock_inv
      assms(2) readers_bound[OF assms(2-4)])

lemma latch_reachable_inv:
  assumes "latch_step\<^sup>*\<^sup>* latch_start s" "finite (UNIV :: 't set)" "card (UNIV :: 't set) < 2 ^ 32 - 1"
  shows "latch_inv (s :: 't latch_state)"
  using assms(1)
proof (induction rule: rtranclp_induct)
  case base
  then show ?case
    by (simp add: latch_inv_def latch_start_def ReaderWriterLatch_def readers_def writers_def)
qed (rule latch_step_inv[OF _ _ assms(2,3)])

text \<open>Two threads: one has the latch for writing, the other sleeps in \<open>RLock\<close>.\<close>

definition latch_example :: "bool latch_state" where
  "latch_example = \<lparr>latch = \<lparr>reader_count = 0, writer_entered = True\<rparr>,
     place = (\<lambda>t. if t then Writing else In_RLock), asleep = {False}\<rparr>"

lemma latch_example_reached: "latch_step\<^sup>*\<^sup>* latch_start latch_example"
proof -
  let ?l = "ReaderWriterLatch" and ?w = "ReaderWriterLatch\<lparr>writer_entered := True\<rparr>"
  let ?s1 = "at_place latch_start True In_WLock ?l {}"
  let ?s2 = "at_place ?s1 True Draining ?w {}"
  let ?s3 = "at_place ?s2 True Writing ?w {}"
  let ?s4 = "at_place ?s3 False In_RLock ?w {}"
  let ?s5 = "at_place ?s4 False In_RLock ?w {False}"
  have 1: "latch_step latch_start ?s1"
    using call_WLock[of latch_start True] by (simp add: latch_start_def)
  have 2: "latch_step ?s1 ?s2"
    using WLock_got[of ?s1 True ?w] by (simp add: WLock_enter_def ReaderWriterLatch_def)
  have 3: "latch_step ?s2 ?s3"
    using drain_done[of ?s2 True] by (simp add: WLock_drained_def ReaderWriterLatch_def)
  have 4: "latch_step ?s3 ?s4"
    using call_RLock[of ?s3 False] by (simp add: latch_start_def)
  have 5: "latch_step ?s4 ?s5"
    using RLock_wait[of ?s4 False] by (simp add: RLock_def)
  have "?s5 = latch_example"
    by (auto simp: latch_example_def at_place_def latch_start_def ReaderWriterLatch_def)
  with 1 2 3 4 5 show ?thesis
    by (metis converse_rtranclp_into_rtranclp rtranclp.rtrancl_refl)
qed

lemma latch_example_small: "finite (UNIV :: bool set)" "card (UNIV :: bool set) < 2 ^ 32 - 1"
  by simp_all

text \<open>C12. Readers and writers exclude one another. In every state that fewer than \<^verbatim>\<open>UINT_MAX\<close> threads reach, a
  thread that holds the latch for writing holds it alone, \<^verbatim>\<open>reader_count_\<close> is the number of threads that hold it
  for reading, and a thread that sleeps has a reason to: one in \<^verbatim>\<open>RLock\<close> or at the start of \<^verbatim>\<open>WLock\<close> because a
  writer has entered, one at the end of \<^verbatim>\<open>WLock\<close> because the readers have not left. So no wake-up is lost.\<close>

theorem latch_exclusive:
  assumes "latch_step\<^sup>*\<^sup>* latch_start s" "finite (UNIV :: 't set)" "card (UNIV :: 't set) < 2 ^ 32 - 1"
  shows "unat (reader_count (latch (s :: 't latch_state))) = card {t. place s t = Reading} \<and>
    (place s t = Writing \<longrightarrow> u \<noteq> t \<longrightarrow> place s u \<notin> {Reading, Writing, Draining}) \<and>
    (v \<in> asleep s \<longrightarrow> place s v \<in> {In_RLock, In_WLock} \<and> writer_entered (latch s)
      \<or> place s v = Draining \<and> \<not> WLock_drained (latch s))"
proof (intro conjI impI)
  have inv: "latch_inv s"
    using latch_reachable_inv[OF assms] .
  then show "unat (reader_count (latch s)) = card {t. place s t = Reading}"
    by (simp add: latch_inv_def readers_def)
  show "place s u \<notin> {Reading, Writing, Draining}" if w: "place s t = Writing" and ne: "u \<noteq> t"
  proof -
    obtain w where "writers s = {w}"
      using inv w by (auto simp: latch_inv_def writers_def split: if_splits)
    then have "u \<notin> writers s" "readers s = {}"
      using inv w ne by (auto simp: latch_inv_def writers_def)
    then show ?thesis
      by (auto simp: place_writers place_readers[symmetric])
  qed
  show "place s v \<in> {In_RLock, In_WLock} \<and> writer_entered (latch s)
      \<or> place s v = Draining \<and> \<not> WLock_drained (latch s)" if "v \<in> asleep s"
    using inv that readers_bound(2)[OF inv assms(2,3)]
    by (auto simp: latch_inv_def WLock_drained_def word_less_nat_alt)
qed

theorem latch_exclusive_witness:
  "latch_step\<^sup>*\<^sup>* latch_start latch_example \<and> place latch_example True = Writing \<and> False \<in> asleep latch_example \<and>
   unat (reader_count (latch latch_example)) = card {t. place latch_example t = Reading} \<and>
   place latch_example False \<notin> {Reading, Writing, Draining} \<and>
   (place latch_example False \<in> {In_RLock, In_WLock} \<and> writer_entered (latch latch_example)
      \<or> place latch_example False = Draining \<and> \<not> WLock_drained (latch latch_example))"
  using latch_exclusive[OF latch_example_reached latch_example_small, of True False False] latch_example_reached
  by (simp add: latch_example_def)

text \<open>C28. The threads that use a latch never all wait for one another: while some thread is inside one of its methods,
  some thread holds it or is awake in a method.\<close>

theorem latch_no_deadlock:
  assumes "latch_step\<^sup>*\<^sup>* latch_start s" "finite (UNIV :: 't set)" "card (UNIV :: 't set) < 2 ^ 32 - 1"
    and "place (s :: 't latch_state) t \<noteq> Outside"
  shows "\<exists>u. place s u \<noteq> Outside \<and> u \<notin> asleep s"
proof (rule ccontr)
  assume "\<nexists>u. place s u \<noteq> Outside \<and> u \<notin> asleep s"
  then have all: "u \<in> asleep s" if "place s u \<noteq> Outside" for u
    using that by blast
  have inv: "latch_inv s"
    using latch_reachable_inv[OF assms(1-3)] .
  have "t \<in> asleep s"
    using all[OF assms(4)] .
  have none: "p \<noteq> place s u" if "p \<in> {Reading, Writing}" for p u
    using sleeper_place[OF inv all, of u] that by auto
  then have r: "readers s = {}"
    by (auto simp: readers_def)
  then have d: "place s u \<noteq> Draining" for u
    using inv all[of u] by (auto simp: latch_inv_def)
  then have "writers s = {}"
    using none by (auto simp: writers_def)
  then have "\<not> writer_entered (latch s)"
    using inv by (auto simp: latch_inv_def split: if_splits)
  then show False
    using inv d \<open>t \<in> asleep s\<close> unfolding latch_inv_def by blast
qed

theorem latch_no_deadlock_witness: "\<exists>u. place latch_example u \<noteq> Outside \<and> u \<notin> asleep latch_example"
  by (rule latch_no_deadlock[OF latch_example_reached latch_example_small, of True]) (simp add: latch_example_def)

end
