(* ===== verification/TransactionManager.thy ===== *)
theory TransactionManager
  imports Catalog LockManager Latch
begin

section \<open>The transaction manager\<close>

text \<open>
  \<^verbatim>\<open>src/concurrency/transaction_manager.cpp\<close> over the storage, the lock manager and the latch that checkpoints
  use. The transactions are those of the memory of the lock manager. Write records point to tables and catalogs:
  \<open>heaps\<close> and \<open>catalogs\<close> are the memory behind these pointers. The static map of the running transactions is part of
  the state; its mutex is not. An \<open>order\<close> is how an unordered set is iterated.
\<close>

subsection \<open>State\<close>

record 's txn_manager =
  next_txn_id :: txn_id_t
  txn_map :: "txn_id_t \<rightharpoonup> txn_ptr"
  global_txn_latch :: rw_latch
  lock_mgr :: lock_manager
  storage :: 's

definition TransactionManager :: "lock_manager \<Rightarrow> 's \<Rightarrow> 's txn_manager" where
  "TransactionManager lm s = \<lparr>next_txn_id = 0, txn_map = Map.empty, global_txn_latch = ReaderWriterLatch,
     lock_mgr = lm, storage = s\<rparr>"

abbreviation the_txn :: "'s txn_manager \<Rightarrow> txn_ptr \<Rightarrow> transaction" where
  "the_txn tm p \<equiv> txns (lock_mgr tm) p"

definition put_txn :: "txn_ptr \<Rightarrow> transaction \<Rightarrow> 's txn_manager \<Rightarrow> 's txn_manager" where
  "put_txn p t tm = tm\<lparr>lock_mgr := upd_txn (lock_mgr tm) p (\<lambda>_. t)\<rparr>"

subsection \<open>Begin\<close>

text \<open>\<open>new_txn\<close> is the address of a new transaction. \<^term>\<open>None\<close> means that the thread waits for the latch.\<close>

definition Begin ::
    "config \<Rightarrow> txn_ptr \<Rightarrow> txn_ptr option \<Rightarrow> IsolationLevel \<Rightarrow> 's txn_manager \<Rightarrow> (txn_ptr \<times> 's txn_manager) option" where
  "Begin cfg new_txn txn isolation tm = do {
     l \<leftarrow> RLock (global_txn_latch tm);
     let tm = tm\<lparr>global_txn_latch := l\<rparr>;
     let (p, tm) = (case txn of
         Some p \<Rightarrow> (p, tm)
       | None \<Rightarrow> (new_txn, put_txn new_txn (Transaction cfg (next_txn_id tm) isolation)
           (tm\<lparr>next_txn_id := next_txn_id tm + 1\<rparr>)));
     Some (p, tm\<lparr>txn_map := (txn_map tm)(txn_id (the_txn tm p) \<mapsto> p)\<rparr>)
   }"

text \<open>The assertion fails on an identifier that is not in the map.\<close>

definition GetTransaction :: "'s txn_manager \<Rightarrow> txn_id_t \<Rightarrow> txn_ptr option" where
  "GetTransaction tm n = txn_map tm n"

subsection \<open>The end of a transaction\<close>

fun unlock_loop :: "txn_ptr \<Rightarrow> rid list \<Rightarrow> lock_manager \<Rightarrow> lock_manager option" where
  "unlock_loop p [] m = Some m"
| "unlock_loop p (rid # rids) m = do { (_, m) \<leftarrow> Unlock m p rid; unlock_loop p rids m }"

definition ReleaseLocks :: "(rid set \<Rightarrow> rid list) \<Rightarrow> txn_ptr \<Rightarrow> lock_manager \<Rightarrow> lock_manager option" where
  "ReleaseLocks order p m = unlock_loop p (order (exclusive_lock_set (txns m p) \<union> shared_lock_set (txns m p))) m"

text \<open>What \<^verbatim>\<open>Commit\<close> and \<^verbatim>\<open>Abort\<close> end with, and whom the latch wakes.\<close>

definition end_txn :: "(rid set \<Rightarrow> rid list) \<Rightarrow> txn_ptr \<Rightarrow> 's txn_manager \<Rightarrow> ('s txn_manager \<times> notification) option" where
  "end_txn order p tm = do {
     m \<leftarrow> ReleaseLocks order p (lock_mgr tm);
     let (l, n) = RUnlock (global_txn_latch tm);
     Some (tm\<lparr>lock_mgr := m, global_txn_latch := l\<rparr>, n)
   }"

text \<open>The loops take the write set from its end; \<open>item # items\<close> is the reversed set.\<close>

fun commit_loop :: "('s, 'p) pool_ops \<Rightarrow> TableWriteRecord list \<Rightarrow> 's \<Rightarrow> 's option" where
  "commit_loop bp [] s = Some s"
| "commit_loop bp (item # items) s = do {
     s \<leftarrow> (if wr_type item = DELETE then TableHeap_ApplyDelete bp s (wr_rid item) else Some s);
     commit_loop bp items s
   }"

definition Commit ::
    "('s, 'p) pool_ops \<Rightarrow> (rid set \<Rightarrow> rid list) \<Rightarrow> txn_ptr \<Rightarrow> 's txn_manager \<Rightarrow> ('s txn_manager \<times> notification) option" where
  "Commit bp order p tm = do {
     let t = SetState COMMITTED (the_txn tm p);
     s \<leftarrow> commit_loop bp (rev (table_write_set t)) (storage tm);
     end_txn order p (put_txn p (t\<lparr>table_write_set := []\<rparr>) (tm\<lparr>storage := s\<rparr>))
   }"

text \<open>An update while a transaction is aborted appends nothing to the write set that is being emptied.\<close>

fun abort_loop ::
    "('s, 'p) pool_ops \<Rightarrow> (nat \<Rightarrow> table_heap) \<Rightarrow> TableWriteRecord list \<Rightarrow> 's \<Rightarrow> transaction \<Rightarrow> (transaction \<times> 's) option" where
  "abort_loop bp heaps [] s txn = Some (txn, s)"
| "abort_loop bp heaps (item # items) s txn = do {
     (txn, s) \<leftarrow> (case wr_type item of
         DELETE \<Rightarrow> do { s \<leftarrow> TableHeap_RollbackDelete bp s (wr_rid item); Some (txn, s) }
       | INSERT \<Rightarrow> do { s \<leftarrow> TableHeap_ApplyDelete bp s (wr_rid item); Some (txn, s) }
       | UPDATE \<Rightarrow> do {
           (_, txn, s) \<leftarrow> TableHeap_UpdateTuple bp (heaps (wr_table item)) s txn (wr_tuple item) (wr_rid item);
           Some (txn, s)
         });
     abort_loop bp heaps items s txn
   }"

fun index_abort_loop ::
    "config \<Rightarrow> double_ops \<Rightarrow> (nat \<Rightarrow> 's world catalog) \<Rightarrow> IndexWriteRecord list \<Rightarrow> 's world \<Rightarrow> 's world result" where
  "index_abort_loop cfg F catalogs [] w = Inr w"
| "index_abort_loop cfg F catalogs (item # items) w =
     (let catalog = catalogs (iw_catalog item) in
      andThen (or_crash (GetTable catalog (iw_table_oid item))) (\<lambda>table_info.
      andThen (or_crash (GetIndex catalog (iw_index_oid item))) (\<lambda>index_info.
      let key = (\<lambda>t. KeyFromTuple cfg F t (schema_of table_info) (GetKeySchema (index_of index_info))
            (GetKeyAttrs (index_of index_info))) in
      andThen (key (iw_tuple item)) (\<lambda>new_key.
      andThen (case iw_type item of
          DELETE \<Rightarrow> InsertEntry (index_of index_info) new_key (iw_rid item) w
        | INSERT \<Rightarrow> DeleteEntry (index_of index_info) new_key (iw_rid item) w
        | UPDATE \<Rightarrow>
            andThen (DeleteEntry (index_of index_info) new_key (iw_rid item) w) (\<lambda>w.
            andThen (key (iw_old_tuple item)) (\<lambda>old_key.
            InsertEntry (index_of index_info) old_key (iw_rid item) w))) (\<lambda>w.
      index_abort_loop cfg F catalogs items w)))))"

definition Abort ::
    "('s, 'p) pool_ops \<Rightarrow> config \<Rightarrow> double_ops \<Rightarrow> (nat \<Rightarrow> table_heap) \<Rightarrow> (nat \<Rightarrow> 's world catalog) \<Rightarrow>
      (rid set \<Rightarrow> rid list) \<Rightarrow> txn_ptr \<Rightarrow> 's txn_manager \<Rightarrow> ('s txn_manager \<times> notification) result" where
  "Abort bp cfg F heaps catalogs order p tm =
     (let t = SetState ABORTED (the_txn tm p) in
      andThen (or_crash (abort_loop bp heaps (rev (table_write_set t)) (storage tm) t)) (\<lambda>(t, s).
      let t = t\<lparr>table_write_set := []\<rparr> in
      andThen (index_abort_loop cfg F catalogs (rev (index_write_set t)) (s, t)) (\<lambda>(s, t).
      let t = t\<lparr>table_write_set := [], index_write_set := []\<rparr> in
      or_crash (end_txn order p (put_txn p t (tm\<lparr>storage := s\<rparr>))))))"

subsection \<open>Checkpoints\<close>

text \<open>\<^verbatim>\<open>BlockAllTransactions\<close> takes the latch for writing: its two waits are those of \<^verbatim>\<open>WLock\<close>.\<close>

definition BlockAllTransactions :: "'s txn_manager \<Rightarrow> 's txn_manager option" where
  "BlockAllTransactions tm = do { l \<leftarrow> WLock_enter (global_txn_latch tm); Some (tm\<lparr>global_txn_latch := l\<rparr>) }"

definition all_blocked :: "'s txn_manager \<Rightarrow> bool" where
  "all_blocked tm \<longleftrightarrow> WLock_drained (global_txn_latch tm)"

definition ResumeTransactions :: "'s txn_manager \<Rightarrow> 's txn_manager \<times> notification" where
  "ResumeTransactions tm = (let (l, n) = WUnlock (global_txn_latch tm) in (tm\<lparr>global_txn_latch := l\<rparr>, n))"

end
