(* ===== verification/TransactionSpec.thy ===== *)
theory TransactionSpec
  imports TransactionManager TableHeapSpec LockManagerSpec
begin

section \<open>What commit and abort do\<close>

text \<open>
  A transaction changes a table through the operations of the heap, which record the changes in its write set.
  \<open>history\<close> says how a write set relates the contents before and after, for changes whose new tuples are not shorter
  than the old ones. Undoing a history gives the contents before it, and applying its deletions leaves the live
  tuples as they are. Transactions that hold other records may change them in between.
\<close>

subsection \<open>Histories\<close>

type_synonym contents = "rid \<rightharpoonup> bool \<times> bytes"

inductive history :: "contents \<Rightarrow> TableWriteRecord list \<Rightarrow> contents \<Rightarrow> bool" where
  hist_start: "history T [] T"
| hist_insert: "history T0 ws T \<Longrightarrow> T (wr_rid w) = None \<Longrightarrow> wr_type w = INSERT \<Longrightarrow>
    history T0 (ws @ [w]) (T(wr_rid w \<mapsto> (False, bs)))"
| hist_delete: "history T0 ws T \<Longrightarrow> T (wr_rid w) = Some (False, bs) \<Longrightarrow> wr_type w = DELETE \<Longrightarrow>
    history T0 (ws @ [w]) (T(wr_rid w \<mapsto> (True, bs)))"
| hist_update: "history T0 ws T \<Longrightarrow> T (wr_rid w) = Some (False, data_of (wr_tuple w)) \<Longrightarrow> wr_type w = UPDATE \<Longrightarrow>
    0 < size_of (wr_tuple w) \<Longrightarrow> unat (size_of (wr_tuple w)) = length (data_of (wr_tuple w)) \<Longrightarrow>
    length (data_of (wr_tuple w)) \<le> length bs \<Longrightarrow> history T0 (ws @ [w]) (T(wr_rid w \<mapsto> (False, bs)))"

definition written :: "TableWriteRecord list \<Rightarrow> rid set" where
  "written ws = wr_rid ` set ws"

definition deleted :: "TableWriteRecord list \<Rightarrow> rid set" where
  "deleted ws = wr_rid ` {w \<in> set ws. wr_type w = DELETE}"

lemma written_simps [simp]: "written [] = {}" "written (ws @ [w]) = insert (wr_rid w) (written ws)"
  by (simp_all add: written_def)

lemma deleted_simps [simp]:
  "deleted [] = {}" "deleted (w # ws) = (if wr_type w = DELETE then insert (wr_rid w) (deleted ws) else deleted ws)"
  "deleted (ws @ [w]) = (if wr_type w = DELETE then insert (wr_rid w) (deleted ws) else deleted ws)"
  "deleted (rev ws) = deleted ws"
  by (auto simp: deleted_def)

text \<open>A change of a record that the transaction did not write is the same before and after.\<close>

lemma history_frame:
  "history T0 ws T \<Longrightarrow> r \<notin> written ws \<Longrightarrow> history (T0(r := x)) ws (T(r := x))"
proof (induction rule: history.induct)
  case (hist_insert T0 ws T w bs)
  then have ne: "wr_rid w \<noteq> r" and h: "history (T0(r := x)) ws (T(r := x))" by (auto simp del: fun_upd_apply)
  show ?case
    unfolding fun_upd_twist [OF ne] by (rule history.hist_insert [OF h]) (use hist_insert.hyps ne in simp_all)
next
  case (hist_delete T0 ws T w bs)
  then have ne: "wr_rid w \<noteq> r" and h: "history (T0(r := x)) ws (T(r := x))" by (auto simp del: fun_upd_apply)
  show ?case
    unfolding fun_upd_twist [OF ne] by (rule history.hist_delete [OF h]) (use hist_delete.hyps ne in simp_all)
next
  case (hist_update T0 ws T w bs)
  then have ne: "wr_rid w \<noteq> r" and h: "history (T0(r := x)) ws (T(r := x))" by (auto simp del: fun_upd_apply)
  show ?case
    unfolding fun_upd_twist [OF ne] by (rule history.hist_update [OF h]) (use hist_update.hyps ne in simp_all)
qed (simp add: history.hist_start)

text \<open>A deleted record stays marked: nothing else happens to it in the transaction.\<close>

lemma history_deleted:
  "history T0 ws T \<Longrightarrow> (\<forall>r\<in>deleted ws. \<exists>bs. T r = Some (True, bs)) \<and>
    distinct (map wr_rid (filter (\<lambda>w. wr_type w = DELETE) ws))"
  by (induction rule: history.induct) (fastforce simp: deleted_def)+

subsection \<open>The loops on a table\<close>

lemma heap_tuples_length:
  assumes "heap_ok cfg m al th ps" "heap_tuples m ps r = Some (b, bs)"
  shows "0 < length bs" "length bs < 2 ^ 32"
proof -
  from assms obtain d where d: "table_inv d" "tuples d (unat (slot_num_of r)) = Some (b, bs)" by (rule bph.heap_page)
  let ?i = "unat (slot_num_of r)"
  have u: "TablePageSpec.used d ?i" "bs = sub d (unat (off_at d ?i)) (rsize d ?i)"
    using d(2) by (auto simp: tuples_def split: if_splits)
  have p: "in_page d ?i" by (rule table_invD(7) [OF d(1) u(1)])
  then have "length bs = rsize d ?i" using u(2) by (simp add: in_page_def)
  then show "0 < length bs" "length bs < 2 ^ 32"
    using p unsigned_less [of "UnsetDeletedFlag (size_at d ?i)"] by (simp_all add: in_page_def rsize_def real_size_def)
qed

text \<open>A page table is determined by its first page.\<close>

lemma chain_unique:
  "chain cfg m ps \<Longrightarrow> chain cfg m qs \<Longrightarrow> hd ps = hd qs \<Longrightarrow> INVALID_PAGE_ID cfg \<notin> set ps \<union> set qs \<Longrightarrow> ps = qs"
proof (induction cfg m ps arbitrary: qs rule: chain.induct)
  case (2 cfg m p)
  then show ?case
    by (cases "(cfg, m, qs)" rule: chain.cases) (auto simp: page_ok_def split: option.splits)
next
  case (3 cfg m p q ps)
  then show ?case
    by (cases "(cfg, m, qs)" rule: chain.cases) (fastforce simp: page_ok_def split: option.splits)+
qed simp

lemma heap_ok_unique: "heap_ok cfg m al th ps \<Longrightarrow> heap_ok cfg m al th qs \<Longrightarrow> ps = qs"
  by (rule chain_unique) (auto simp: heap_ok_def list_all_iff)

context page_pool
begin

text \<open>The state of a pool with a table at rest.\<close>

definition at_rest :: "config \<Rightarrow> table_heap \<Rightarrow> page_id_t list \<Rightarrow> 'a \<Rightarrow> bool" where
  "at_rest cfg th ps s \<longleftrightarrow> ok s \<and> held s = (\<lambda>_. 0) \<and> heap_ok cfg (content s) (alloc s) th ps"

abbreviation "pool \<equiv> ops_of new_page fetch unpin get put"

lemma commit_loop_heap:
  assumes "at_rest cfg th ps s" "\<forall>r\<in>deleted ws. heap_tuples (content s) ps r \<noteq> None"
    and "distinct (map wr_rid (filter (\<lambda>w. wr_type w = DELETE) ws))"
  shows "\<exists>s'. commit_loop pool ws s = Some s' \<and> at_rest cfg th ps s' \<and> cap s' = cap s \<and>
    heap_tuples (content s') ps = (\<lambda>r. if r \<in> deleted ws then None else heap_tuples (content s) ps r)"
  using assms
proof (induction ws arbitrary: s)
  case (Cons w ws)
  show ?case
  proof (cases "wr_type w = DELETE")
    case True
    then obtain del bs where t: "heap_tuples (content s) ps (wr_rid w) = Some (del, bs)"
      using Cons.prems(2) by auto
    obtain s1 where 1: "TableHeap_ApplyDelete pool s (wr_rid w) = Some s1" "at_rest cfg th ps s1" "cap s1 = cap s"
      "heap_tuples (content s1) ps = (heap_tuples (content s) ps)(wr_rid w := None)"
      using ApplyDelete_heap [OF _ _ _ t] Cons.prems(1) unfolding at_rest_def by blast
    have "wr_rid w \<notin> deleted ws" using Cons.prems(3) True by (auto simp: deleted_def)
    then have "\<forall>r\<in>deleted ws. heap_tuples (content s1) ps r \<noteq> None" using Cons.prems(2) 1(4) by auto
    from Cons.IH [OF 1(2) this] Cons.prems(3) True obtain s' where
      s': "commit_loop pool ws s1 = Some s'" "at_rest cfg th ps s'" "cap s' = cap s1"
      "heap_tuples (content s') ps = (\<lambda>r. if r \<in> deleted ws then None else heap_tuples (content s1) ps r)" by auto
    have "heap_tuples (content s') ps = (\<lambda>r. if r \<in> deleted (w # ws) then None else heap_tuples (content s) ps r)"
      using s'(4) 1(4) True by auto
    then show ?thesis using s' 1 True by auto
  qed (use Cons in auto)
qed simp

lemma UpdateTuple_aborted:
  "txn_state txn = ABORTED \<Longrightarrow> TableHeap_UpdateTuple bp th s txn t rid = TableHeap_UpdateTuple bp th' s txn t rid"
  by (simp add: TableHeap_UpdateTuple_def cong: option.case_cong)

lemma abort_loop_heap:
  assumes "history T0 ws (heap_tuples (content s) ps)" "at_rest cfg th ps s" "txn_state txn = ABORTED"
  shows "\<exists>s'. abort_loop pool heaps (rev ws) s txn = Some (txn, s') \<and> at_rest cfg th ps s' \<and> cap s' = cap s \<and>
    heap_tuples (content s') ps = T0"
  using assms(1,2)
proof (induction T0 ws "heap_tuples (content s) ps" arbitrary: s rule: history.induct)
  case (hist_start s)
  then show ?case by simp
next
  case (hist_insert T0 ws T w bs)
  have r: "ok s" "held s = (\<lambda>_. 0)" "heap_ok cfg (content s) (alloc s) th ps"
    "heap_tuples (content s) ps (wr_rid w) = Some (False, bs)"
    using hist_insert.prems hist_insert.hyps(5) [symmetric] by (simp_all add: at_rest_def)
  obtain s1 where 1: "TableHeap_ApplyDelete pool s (wr_rid w) = Some s1" "at_rest cfg th ps s1" "cap s1 = cap s"
    "heap_tuples (content s1) ps = (heap_tuples (content s) ps)(wr_rid w := None)"
    using ApplyDelete_heap [OF r] unfolding at_rest_def by blast
  have "T = heap_tuples (content s1) ps"
    using 1(4) hist_insert.hyps(3) hist_insert.hyps(5) [symmetric] by (simp add: fun_upd_idem)
  from hist_insert.hyps(2) [OF this 1(2)] show ?case using 1 hist_insert.hyps(4) by auto
next
  case (hist_delete T0 ws T w bs)
  have r: "ok s" "held s = (\<lambda>_. 0)" "heap_ok cfg (content s) (alloc s) th ps"
    "heap_tuples (content s) ps (wr_rid w) = Some (True, bs)"
    using hist_delete.prems hist_delete.hyps(5) [symmetric] by (simp_all add: at_rest_def)
  obtain s1 where 1: "TableHeap_RollbackDelete pool s (wr_rid w) = Some s1" "at_rest cfg th ps s1" "cap s1 = cap s"
    "heap_tuples (content s1) ps = (heap_tuples (content s) ps)(wr_rid w \<mapsto> (False, bs))"
    using RollbackDelete_heap [OF r] unfolding at_rest_def by blast
  have "T = heap_tuples (content s1) ps"
    using 1(4) hist_delete.hyps(3) hist_delete.hyps(5) [symmetric] by (simp add: fun_upd_idem)
  from hist_delete.hyps(2) [OF this 1(2)] show ?case using 1 hist_delete.hyps(4) by auto
next
  case (hist_update T0 ws T w bs)
  have r: "ok s" "held s = (\<lambda>_. 0)" "heap_ok cfg (content s) (alloc s) th ps"
    "heap_tuples (content s) ps (wr_rid w) = Some (False, bs)"
    using hist_update.prems hist_update.hyps(8) [symmetric] by (simp_all add: at_rest_def)
  have "length (data_of (wr_tuple w)) \<le> free_space (the (content s (page_id_of (wr_rid w)))) + length bs"
    using hist_update.hyps(7) by simp
  then obtain s1 where 1: "TableHeap_UpdateTuple pool (heaps (wr_table w)) s txn (wr_tuple w) (wr_rid w) = Some (True, txn, s1)"
    "at_rest cfg th ps s1" "cap s1 = cap s"
    "heap_tuples (content s1) ps = (heap_tuples (content s) ps)(wr_rid w \<mapsto> (False, data_of (wr_tuple w)))"
    using UpdateTuple_heap [OF r hist_update.hyps(5,6), of txn] assms(3)
      UpdateTuple_aborted [OF assms(3), of pool "heaps (wr_table w)" s _ _ th] unfolding at_rest_def by auto
  have "T = heap_tuples (content s1) ps"
    using 1(4) hist_update.hyps(3) hist_update.hyps(8) [symmetric] by (simp add: fun_upd_idem)
  from hist_update.hyps(2) [OF this 1(2)] show ?case using 1 hist_update.hyps(4) by auto
qed

end

subsection \<open>Releasing the locks\<close>

definition held_locks :: "lock_manager \<Rightarrow> txn_ptr \<Rightarrow> rid set" where
  "held_locks m p = exclusive_lock_set (txns m p) \<union> shared_lock_set (txns m p)"

lemma unlock_loop_frees:
  assumes "mgr_ok m" "set rids \<subseteq> held_locks m p" "distinct rids" "txn_state (txns m p) \<noteq> GROWING"
  shows "\<exists>m'. unlock_loop p rids m = Some m' \<and> mgr_ok m' \<and> held_locks m' p = held_locks m p - set rids \<and>
    txn_state (txns m' p) = txn_state (txns m p) \<and> (\<forall>p'. p' \<noteq> p \<longrightarrow> txns m' p' = txns m p')"
  using assms
proof (induction rids arbitrary: m)
  case (Cons rid rids)
  obtain k where k: "request_at m rid p = Some (k, True)"
    using Cons.prems(2) mgr_okD(4,5) [OF Cons.prems(1), of rid p] by (auto simp: held_locks_def)
  then obtain q where q: "lock_table m rid = Some q" by (auto simp: request_at_def split: option.splits)
  obtain res m1 where 1: "Unlock m p rid = Some (res, m1)" "changed m p rid None m1"
    using Unlock_calm [OF Cons.prems(1) k q] by blast
  note U = Unlock_txns [OF 1(1)]
  have h: "held_locks m1 p = held_locks m p - {rid}" using U(2,3) by (auto simp: held_locks_def)
  have "mgr_ok m1" using 1(2) by (simp add: changed_def)
  moreover have "set rids \<subseteq> held_locks m1 p" using Cons.prems(2,3) h by auto
  ultimately obtain m' where "unlock_loop p rids m1 = Some m'" "mgr_ok m'" "held_locks m' p = held_locks m1 p - set rids"
    "txn_state (txns m' p) = txn_state (txns m1 p)" "\<forall>p'. p' \<noteq> p \<longrightarrow> txns m' p' = txns m1 p'"
    using Cons.IH [of m1] Cons.prems(3,4) U(4) by auto
  then show ?case using 1(1) h U(1,4) Cons.prems(4) by auto
qed simp

text \<open>The lock sets and the numbers of the transactions are what the lock manager relies on.\<close>

lemma mgr_ok_put:
  assumes "mgr_ok m" "txn_id t = txn_id (txns m p)" "shared_lock_set t = shared_lock_set (txns m p)"
    "exclusive_lock_set t = exclusive_lock_set (txns m p)"
  shows "mgr_ok (upd_txn m p (\<lambda>_. t))"
proof -
  let ?m = "upd_txn m p (\<lambda>_. t)"
  have i: "txn_id (txns ?m p') = txn_id (txns m p')" for p' using assms(2) by (simp add: upd_txn_def)
  have l: "lock_table ?m = lock_table m" by (simp add: upd_txn_def)
  have r: "request_at ?m rid p' = request_at m rid p'" for rid p' unfolding request_at_def l i ..
  have s: "shared_lock_set (txns ?m p') = shared_lock_set (txns m p')"
    "exclusive_lock_set (txns ?m p') = exclusive_lock_set (txns m p')" for p' using assms(3,4) by (simp_all add: upd_txn_def)
  show ?thesis using assms(1) unfolding mgr_ok_def i l r s .
qed

definition iterates :: "(rid set \<Rightarrow> rid list) \<Rightarrow> rid set \<Rightarrow> bool" where
  "iterates order A \<longleftrightarrow> set (order A) = A \<and> distinct (order A)"

text \<open>How a transaction leaves the manager.\<close>

definition ended :: "'s txn_manager \<Rightarrow> txn_ptr \<Rightarrow> TransactionState \<Rightarrow> 's txn_manager \<Rightarrow> bool" where
  "ended tm p st tm' \<longleftrightarrow> txn_state (the_txn tm' p) = st \<and> held_locks (lock_mgr tm') p = {} \<and> mgr_ok (lock_mgr tm') \<and>
     (\<forall>p'. p' \<noteq> p \<longrightarrow> the_txn tm' p' = the_txn tm p') \<and> global_txn_latch tm' = fst (RUnlock (global_txn_latch tm))"

lemma end_txn_ends:
  assumes "mgr_ok (lock_mgr tm)" "iterates order (held_locks (lock_mgr tm) p)" "txn_state t \<noteq> GROWING"
    "txn_id t = txn_id (the_txn tm p)" "shared_lock_set t = shared_lock_set (the_txn tm p)"
    "exclusive_lock_set t = exclusive_lock_set (the_txn tm p)"
  shows "\<exists>tm' n. end_txn order p (put_txn p t (tm\<lparr>storage := s\<rparr>)) = Some (tm', n) \<and> ended tm p (txn_state t) tm' \<and>
    storage tm' = s"
proof -
  let ?m = "upd_txn (lock_mgr tm) p (\<lambda>_. t)"
  have m: "mgr_ok ?m" by (rule mgr_ok_put [OF assms(1,4-6)])
  have h: "held_locks ?m p = held_locks (lock_mgr tm) p" using assms(5,6) by (simp add: held_locks_def upd_txn_def)
  obtain m' where m': "unlock_loop p (order (held_locks ?m p)) ?m = Some m'" "mgr_ok m'" "held_locks m' p = {}"
    "txn_state (txns m' p) = txn_state t" "\<forall>p'. p' \<noteq> p \<longrightarrow> txns m' p' = the_txn tm p'"
    using unlock_loop_frees [OF m, of "order (held_locks ?m p)" p] assms(2,3) h
    by (auto simp: iterates_def upd_txn_def)
  obtain l n where l: "RUnlock (global_txn_latch tm) = (l, n)" by fastforce
  have "end_txn order p (put_txn p t (tm\<lparr>storage := s\<rparr>)) =
      Some (tm\<lparr>storage := s, lock_mgr := m', global_txn_latch := l\<rparr>, n)"
    using m'(1) l by (simp add: end_txn_def put_txn_def ReleaseLocks_def held_locks_def)
  then show ?thesis using m' l by (auto simp: ended_def)
qed

subsection \<open>A transaction at work\<close>

text \<open>
  What a transaction may do to a table: insert, mark and replace live tuples by ones that are not shorter, and read,
  while other transactions change records it has not written. The last argument is what the table holds without the
  changes of the transaction.
\<close>

inductive txn_run :: "config \<Rightarrow> table_heap \<Rightarrow> bpm \<Rightarrow> transaction \<Rightarrow> page_id_t list \<Rightarrow> contents \<Rightarrow> bool"
  for cfg :: config and th :: table_heap where
  run_start: "pool_ok cfg s \<Longrightarrow> pins s = (\<lambda>_. 0) \<Longrightarrow> 2 \<le> pool_size s \<Longrightarrow>
    heap_ok cfg (view cfg s) (allocated s) th ps \<Longrightarrow> table_write_set txn = [] \<Longrightarrow> txn_state txn \<noteq> ABORTED \<Longrightarrow>
    txn_run cfg th s txn ps (heap_tuples (view cfg s) ps)"
| run_insert: "txn_run cfg th s txn ps T0 \<Longrightarrow> heap_room cfg s \<Longrightarrow> length ps < fuel \<Longrightarrow>
    0 < size_of t \<Longrightarrow> unat (size_of t) = length (data_of t) \<Longrightarrow> length (data_of t) + 32 \<le> PAGE_SIZE cfg \<Longrightarrow>
    TableHeap_InsertTuple fuel (bpm_ops cfg) cfg th s txn t = Some (r, txn', s') \<Longrightarrow>
    heap_ok cfg (view cfg s') (allocated s') th ps' \<Longrightarrow> txn_run cfg th s' txn' ps' T0"
| run_delete: "txn_run cfg th s txn ps T0 \<Longrightarrow> heap_tuples (view cfg s) ps rid = Some (False, bs) \<Longrightarrow>
    TableHeap_MarkDelete (bpm_ops cfg) cfg th s txn rid = Some (b, txn', s') \<Longrightarrow> txn_run cfg th s' txn' ps T0"
| run_update: "txn_run cfg th s txn ps T0 \<Longrightarrow> heap_tuples (view cfg s) ps rid = Some (False, bs) \<Longrightarrow>
    0 < size_of t \<Longrightarrow> unat (size_of t) = length (data_of t) \<Longrightarrow> length bs \<le> length (data_of t) \<Longrightarrow>
    TableHeap_UpdateTuple (bpm_ops cfg) th s txn t rid = Some (b, txn', s') \<Longrightarrow> txn_run cfg th s' txn' ps T0"
| run_read: "txn_run cfg th s txn ps T0 \<Longrightarrow> page_id_of rid \<in> set ps \<Longrightarrow>
    TableHeap_GetTuple (bpm_ops cfg) s txn rid = Some (u, txn', s') \<Longrightarrow> txn_run cfg th s' txn' ps T0"
| run_other: "txn_run cfg th s txn ps T0 \<Longrightarrow> pool_ok cfg s' \<Longrightarrow> pins s' = (\<lambda>_. 0) \<Longrightarrow> pool_size s' = pool_size s \<Longrightarrow>
    heap_ok cfg (view cfg s') (allocated s') th ps' \<Longrightarrow>
    heap_tuples (view cfg s') ps' = (heap_tuples (view cfg s) ps)(rid := x) \<Longrightarrow>
    rid \<notin> written (table_write_set txn) \<Longrightarrow> txn_run cfg th s' txn ps' (T0(rid := x))"

lemma txn_run_history:
  assumes "txn_run cfg th s txn ps T0" "PAGE_SIZE cfg < 2 ^ 31"
  shows "bph.at_rest cfg cfg th ps s \<and> 2 \<le> pool_size s \<and> txn_state txn \<noteq> ABORTED \<and>
    history T0 (table_write_set txn) (heap_tuples (view cfg s) ps)"
  using assms(1)
proof (induction rule: txn_run.induct)
  case (run_start s ps txn)
  then show ?case by (simp add: bph.at_rest_def history.hist_start)
next
  case (run_insert s txn ps T0 fuel t r txn' s' ps')
  then have a: "pool_ok cfg s" "pins s = (\<lambda>_. 0)" "heap_ok cfg (view cfg s) (allocated s) th ps" "2 \<le> pool_size s"
    by (simp_all add: bph.at_rest_def)
  obtain rid ps1 where 1: "txn' = AppendTableWriteRecord
        \<lparr>wr_rid = rid, wr_type = INSERT, wr_tuple = Tuple_default cfg, wr_table = this_heap th\<rparr> txn"
    "pool_ok cfg s'" "pins s' = (\<lambda>_. 0)" "pool_size s' = pool_size s" "heap_ok cfg (view cfg s') (allocated s') th ps1"
    "heap_tuples (view cfg s) ps rid = None"
    "heap_tuples (view cfg s') ps1 = (heap_tuples (view cfg s) ps)(rid \<mapsto> (False, data_of t))"
    using bph.InsertTuple_heap [OF a run_insert.hyps(2,3) refl assms(2) refl run_insert.hyps(4-6), of txn]
      run_insert.hyps(7) by auto
  have "ps1 = ps'" by (rule heap_ok_unique [OF 1(5) run_insert.hyps(8)])
  then show ?case
    using 1 a(4) run_insert.IH run_insert.hyps(8) hist_insert [of T0 "table_write_set txn" _
      "\<lparr>wr_rid = rid, wr_type = INSERT, wr_tuple = Tuple_default cfg, wr_table = this_heap th\<rparr>" "data_of t"]
    by (simp add: bph.at_rest_def AppendTableWriteRecord_def del: fun_upd_apply)
next
  case (run_delete s txn ps T0 rid bs b txn' s')
  then have a: "pool_ok cfg s" "pins s = (\<lambda>_. 0)" "heap_ok cfg (view cfg s) (allocated s) th ps"
    by (simp_all add: bph.at_rest_def)
  from bph.MarkDelete_heap [OF a run_delete.hyps(2), of txn] run_delete show ?case
    using hist_delete [of T0 "table_write_set txn" _
      "\<lparr>wr_rid = rid, wr_type = DELETE, wr_tuple = Tuple_default cfg, wr_table = this_heap th\<rparr>" bs]
    by (auto simp: bph.at_rest_def AppendTableWriteRecord_def simp del: fun_upd_apply)
next
  case (run_update s txn ps T0 rid bs t b txn' s')
  then have a: "pool_ok cfg s" "pins s = (\<lambda>_. 0)" "heap_ok cfg (view cfg s) (allocated s) th ps"
    by (simp_all add: bph.at_rest_def)
  have l: "0 < (of_nat (length bs) :: uint32)" "unat (of_nat (length bs) :: uint32) = length bs"
    using heap_tuples_length [OF a(3) run_update.hyps(2)] by (simp_all add: unat_of_nat_small word_less_nat_alt)
  from bph.UpdateTuple_heap [OF a run_update.hyps(2-4), of txn] run_update l show ?case
    using hist_update [of T0 "table_write_set txn" _ "\<lparr>wr_rid = rid, wr_type = UPDATE,
          wr_tuple = \<lparr>size_of = of_nat (length bs), data_of = bs, rid_of = rid\<rparr>, wr_table = this_heap th\<rparr>" "data_of t"]
    by (auto simp: bph.at_rest_def AppendTableWriteRecord_def simp del: fun_upd_apply split: if_splits)
next
  case (run_read s txn ps T0 rid u txn' s')
  then have a: "pool_ok cfg s" "pins s = (\<lambda>_. 0)" "heap_ok cfg (view cfg s) (allocated s) th ps"
    by (simp_all add: bph.at_rest_def)
  from bph.GetTuple_heap [OF a run_read.hyps(2), of txn] run_read show ?case by (auto simp: bph.at_rest_def)
next
  case (run_other s txn ps T0 s' ps' rid x)
  then show ?case using history_frame by (auto simp: bph.at_rest_def simp del: fun_upd_apply)
qed

subsection \<open>Properties\<close>

text \<open>C4. Aborting a transaction on a table without indexes undoes it, when its updates did not shrink a tuple (the
  hypothesis \<open>txn_run\<close>; after one that did, the old tuple may not fit any more, \<open>abort_keeps_shorter_tuple\<close>): after any
  number of insertions, deletions, reads and such updates, between changes that others make to records it has not written,
  the table holds again what it holds without the transaction; the transaction holds no lock and has no write left, and
  the other transactions are as they were.\<close>

theorem abort_restores:
  assumes "txn_run cfg th (storage tm) (the_txn tm p) ps T0" "index_write_set (the_txn tm p) = []"
    and "mgr_ok (lock_mgr tm)" "iterates order (held_locks (lock_mgr tm) p)" "PAGE_SIZE cfg < 2 ^ 31"
  shows "\<exists>tm' n. Abort (bpm_ops cfg) cfg F heaps catalogs order p tm = Inr (tm', n) \<and> ended tm p ABORTED tm' \<and>
    heap_ok cfg (view cfg (storage tm')) (allocated (storage tm')) th ps \<and>
    heap_tuples (view cfg (storage tm')) ps = T0"
proof -
  let ?t = "SetState ABORTED (the_txn tm p)"
  note R = txn_run_history [OF assms(1,5)]
  obtain s' where s': "abort_loop (bpm_ops cfg) heaps (rev (table_write_set ?t)) (storage tm) ?t = Some (?t, s')"
    "bph.at_rest cfg cfg th ps s'" "heap_tuples (view cfg s') ps = T0"
    using bph.abort_loop_heap [of T0 "table_write_set ?t" cfg "storage tm" ps cfg th ?t heaps] R by auto
  let ?u = "?t\<lparr>table_write_set := [], index_write_set := []\<rparr>"
  obtain tm' n where "end_txn order p (put_txn p ?u (tm\<lparr>storage := s'\<rparr>)) = Some (tm', n)" "ended tm p ABORTED tm'"
    "storage tm' = s'" using end_txn_ends [OF assms(3,4), of ?u s'] by auto
  then show ?thesis using s' assms(2) by (auto simp: Abort_def Let_def bph.at_rest_def)
qed

text \<open>C11. Committing a transaction keeps its insertions and updates (those that did not shrink a tuple) and removes
  exactly the tuples it has marked; the transaction holds no lock afterwards, and the other transactions are as they
  were.\<close>

theorem commit_applies_deletes:
  assumes "txn_run cfg th (storage tm) (the_txn tm p) ps T0"
    and "mgr_ok (lock_mgr tm)" "iterates order (held_locks (lock_mgr tm) p)" "PAGE_SIZE cfg < 2 ^ 31"
  shows "\<exists>tm' n. Commit (bpm_ops cfg) order p tm = Some (tm', n) \<and> ended tm p COMMITTED tm' \<and>
    heap_ok cfg (view cfg (storage tm')) (allocated (storage tm')) th ps \<and>
    heap_tuples (view cfg (storage tm')) ps =
      (heap_tuples (view cfg (storage tm)) ps) |` (- deleted (table_write_set (the_txn tm p))) \<and>
    (\<forall>r\<in>deleted (table_write_set (the_txn tm p)). \<exists>bs. heap_tuples (view cfg (storage tm)) ps r = Some (True, bs))"
proof -
  let ?t = "SetState COMMITTED (the_txn tm p)" and ?ws = "table_write_set (the_txn tm p)"
  note R = txn_run_history [OF assms(1,4)]
  then have D: "\<forall>r\<in>deleted ?ws. \<exists>bs. heap_tuples (view cfg (storage tm)) ps r = Some (True, bs)"
    "distinct (map wr_rid (filter (\<lambda>w. wr_type w = DELETE) ?ws))" using history_deleted by blast+
  then have D': "\<forall>r\<in>deleted (rev ?ws). heap_tuples (view cfg (storage tm)) ps r \<noteq> None"
    "distinct (map wr_rid (filter (\<lambda>w. wr_type w = DELETE) (rev ?ws)))"
    by (fastforce, simp add: rev_filter [symmetric] rev_map [symmetric])
  obtain s' where s': "commit_loop (bpm_ops cfg) (rev ?ws) (storage tm) = Some s'" "bph.at_rest cfg cfg th ps s'"
    "heap_tuples (view cfg s') ps = (\<lambda>r. if r \<in> deleted (rev ?ws) then None else heap_tuples (view cfg (storage tm)) ps r)"
    using bph.commit_loop_heap [of cfg cfg th ps "storage tm" "rev ?ws"] R D' by blast
  have T: "heap_tuples (view cfg s') ps = (heap_tuples (view cfg (storage tm)) ps) |` (- deleted ?ws)"
    using s'(3) by (auto simp: restrict_map_def)
  obtain tm' n where "end_txn order p (put_txn p (?t\<lparr>table_write_set := []\<rparr>) (tm\<lparr>storage := s'\<rparr>)) = Some (tm', n)"
    "ended tm p COMMITTED tm'" "storage tm' = s'"
    using end_txn_ends [OF assms(2,3), of "?t\<lparr>table_write_set := []\<rparr>" s'] by auto
  then show ?thesis using s'(1,2) T D(1) by (auto simp: Commit_def Let_def bph.at_rest_def)
qed

end
