(* ===== verification/TransactionExamples.thy ===== *)
theory TransactionExamples
  imports TransactionSpec ExampleDatabase
begin

section \<open>Transactions on the small database\<close>

text \<open>
  A transaction with a lock deletes a tuple of the database and inserts another; the properties of
  \<^verbatim>\<open>Commit\<close> and \<^verbatim>\<open>Abort\<close> are applied to it. The last section computes an abort that does not
  restore the table.
\<close>

definition work_rid :: rid where
  "work_rid = \<lparr>page_id_of = 0, slot_num_of = 0\<rparr>"

definition work_txn :: transaction where
  "work_txn = Transaction page_cfg 0 REPEATABLE_READ"

definition work_locks :: "transaction \<Rightarrow> lock_manager" where
  "work_locks t = upd_txn (mgr (the (lock_run lock_start [Call Wait_Exclusive 0 work_rid]))) 0
     (\<lambda>_. t\<lparr>exclusive_lock_set := {work_rid}\<rparr>)"

definition work_manager :: "transaction \<Rightarrow> bpm \<Rightarrow> bpm txn_manager" where
  "work_manager t s = \<lparr>next_txn_id = 1, txn_map = [0 \<mapsto> 0],
     global_txn_latch = \<lparr>reader_count = 1, writer_entered = False\<rparr>, lock_mgr = work_locks t, storage = s\<rparr>"

lemma work_locks_ok:
  assumes "txn_id t = 0" "shared_lock_set t = {}"
  shows "mgr_ok (work_locks t)" "held_locks (work_locks t) 0 = {work_rid}"
proof -
  have "map_option (\<lambda>s. txn_id (txns (mgr s) 0) = 0 \<and> shared_lock_set (txns (mgr s) 0) = {} \<and>
      exclusive_lock_set (txns (mgr s) 0) = {work_rid} \<and> all_calm lock_start [Call Wait_Exclusive 0 work_rid])
      (lock_run lock_start [Call Wait_Exclusive 0 work_rid]) = Some True" by code_simp
  then obtain s where s: "lock_run lock_start [Call Wait_Exclusive 0 work_rid] = Some s" "txn_id (txns (mgr s) 0) = 0"
    "shared_lock_set (txns (mgr s) 0) = {}" "exclusive_lock_set (txns (mgr s) 0) = {work_rid}"
    "all_calm lock_start [Call Wait_Exclusive 0 work_rid]" by (rule run_witness) blast
  have "mgr_ok (mgr s)"
    using calm_sys_ok [OF calm_run [OF calm_init [OF lock_start_fresh] s(1,5)]] by (simp add: sys_ok_def)
  then show "mgr_ok (work_locks t)"
    unfolding work_locks_def s(1) option.sel by (rule mgr_ok_put) (use assms s in simp_all)
  show "held_locks (work_locks t) 0 = {work_rid}" using assms by (simp add: held_locks_def work_locks_def upd_txn_def)
qed

text \<open>The work: a deletion of the first tuple and an insertion.\<close>

lemma work:
  obtains s0 s2 t2 ps2 rid where "heap_tuples (view page_cfg s0) [0, 1] work_rid = Some (False, [1, 0, 0, 0, 10, 0, 0, 0])"
    "txn_run page_cfg ab_heap s2 (the_txn (work_manager t2 s2) 0) ps2 (heap_tuples (view page_cfg s0) [0, 1])"
    "table_write_set t2 = [\<lparr>wr_rid = work_rid, wr_type = DELETE, wr_tuple = Tuple_default page_cfg, wr_table = 7\<rparr>,
       \<lparr>wr_rid = rid, wr_type = INSERT, wr_tuple = Tuple_default page_cfg, wr_table = 7\<rparr>]"
    "index_write_set t2 = []" "txn_id t2 = 0" "shared_lock_set t2 = {}" "rid \<noteq> work_rid"
    "heap_tuples (view page_cfg s2) ps2 rid = Some (False, [7, 8, 9])"
    "heap_tuples (view page_cfg s2) ps2 work_rid = Some (True, [1, 0, 0, 0, 10, 0, 0, 0])"
proof -
  define t0 where "t0 = work_txn\<lparr>exclusive_lock_set := {work_rid}\<rparr>"
  obtain s0 where "database page_cfg [(ab_heap, [0, 1], ab_tuples)] t0 (s0, t0)" and room: "heap_room page_cfg s0"
    by (rule ab_database)
  then have s0: "pool_ok page_cfg s0" "pins s0 = (\<lambda>_. 0)" "2 \<le> pool_size s0"
    "heap_ok page_cfg (view page_cfg s0) (allocated s0) ab_heap [0, 1]"
    "map (stored_tuple (view page_cfg s0)) (live_rids (view page_cfg s0) [0, 1]) = ab_tuples"
    by (simp_all add: database_def)
  have t0: "table_write_set t0 = []" "txn_state t0 \<noteq> ABORTED" by (simp_all add: t0_def work_txn_def Transaction_def)
  note run0 = run_start [OF s0(1-4) t0]
  have "map rid_of (map (stored_tuple (view page_cfg s0)) (live_rids (view page_cfg s0) [0, 1])) = map rid_of ab_tuples"
    using s0(5) by simp
  then have l: "live_rids (view page_cfg s0) [0, 1] = map rid_of ab_tuples" by (simp add: comp_def)
  then have "work_rid \<in> set (live_rids (view page_cfg s0) [0, 1])" by (simp add: ab_tuples_def ab_tuple_def work_rid_def)
  then obtain bs where bs: "heap_tuples (view page_cfg s0) [0, 1] work_rid = Some (False, bs)"
    using live_rids_heap [OF bph.heap_pages(1) [OF s0(4)]] by blast
  have "map (stored_tuple (view page_cfg s0)) (map rid_of ab_tuples) = ab_tuples" using s0(5) unfolding l .
  then have "stored_tuple (view page_cfg s0) work_rid = ab_tuple 1 10 work_rid"
    by (simp add: ab_tuples_def ab_tuple_def work_rid_def)
  then have b: "bs = [1, 0, 0, 0, 10, 0, 0, 0]"
    using bs by (simp add: stored_tuple_def ab_tuple_def heap_tuples_def Let_def split: if_splits)
  obtain s1 where 1: "TableHeap_MarkDelete (bpm_ops page_cfg) page_cfg ab_heap s0 t0 work_rid = Some (True, AppendTableWriteRecord
        \<lparr>wr_rid = work_rid, wr_type = DELETE, wr_tuple = Tuple_default page_cfg, wr_table = this_heap ab_heap\<rparr> t0, s1)"
    "pool_ok page_cfg s1" "pins s1 = (\<lambda>_. 0)" "pool_size s1 = pool_size s0" "heap_room page_cfg s1"
    "heap_ok page_cfg (view page_cfg s1) (allocated s1) ab_heap [0, 1]"
    "heap_tuples (view page_cfg s1) [0, 1] = (heap_tuples (view page_cfg s0) [0, 1])(work_rid \<mapsto> (True, bs))"
    using bph.MarkDelete_heap [OF s0(1,2,4) bs, of t0] room by blast
  note run1 = run_delete [OF run0 bs 1(1)]
  let ?t1 = "AppendTableWriteRecord \<lparr>wr_rid = work_rid, wr_type = DELETE, wr_tuple = Tuple_default page_cfg,
    wr_table = this_heap ab_heap\<rparr> t0"
  have c: "length [0 :: page_id_t, 1] < 3" "PAGE_SIZE page_cfg < 2 ^ 31" "0 < size_of small_tuple"
    "unat (size_of small_tuple) = length (data_of small_tuple)" "length (data_of small_tuple) + 32 \<le> PAGE_SIZE page_cfg"
    by (simp_all add: page_cfg_def small_tuple_def)
  have cap: "2 \<le> pool_size s1" using s0(3) 1(4) by simp
  obtain rid s2 ps2 where 2: "TableHeap_InsertTuple 3 (bpm_ops page_cfg) page_cfg ab_heap s1 ?t1 small_tuple =
      Some (Some rid, AppendTableWriteRecord \<lparr>wr_rid = rid, wr_type = INSERT, wr_tuple = Tuple_default page_cfg,
        wr_table = this_heap ab_heap\<rparr> ?t1, s2)"
    "heap_ok page_cfg (view page_cfg s2) (allocated s2) ab_heap ps2" "heap_tuples (view page_cfg s1) [0, 1] rid = None"
    "heap_tuples (view page_cfg s2) ps2 = (heap_tuples (view page_cfg s1) [0, 1])(rid \<mapsto> (False, data_of small_tuple))"
    using bph.InsertTuple_heap [OF 1(2,3,6) cap 1(5) c(1) refl c(2) refl c(3-5), of ?t1] by blast
  note run2 = run_insert [OF run1 1(5) c(1,3-5) 2(1,2)]
  define t2 where "t2 = AppendTableWriteRecord \<lparr>wr_rid = rid, wr_type = INSERT, wr_tuple = Tuple_default page_cfg,
        wr_table = this_heap ab_heap\<rparr> ?t1"
  have "t2\<lparr>exclusive_lock_set := {work_rid}\<rparr> = t2" by (simp add: t2_def t0_def AppendTableWriteRecord_def)
  then have "the_txn (work_manager t2 s2) 0 = t2" by (simp add: work_manager_def work_locks_def upd_txn_def)
  moreover have ne: "rid \<noteq> work_rid" using 2(3) 1(7) by auto
  moreover have "heap_tuples (view page_cfg s2) ps2 work_rid = Some (True, [1, 0, 0, 0, 10, 0, 0, 0])"
    using 2(4) 1(7) b ne by simp
  moreover have "heap_tuples (view page_cfg s2) ps2 rid = Some (False, [7, 8, 9])" using 2(4) by (simp add: small_tuple_def)
  ultimately show ?thesis
    using that [of s0 s2 t2 ps2 rid] bs b run2 [folded t2_def] t0(1)
    by (simp add: t2_def t0_def AppendTableWriteRecord_def ab_heap_def work_txn_def Transaction_def)
qed

definition any_catalog :: "nat \<Rightarrow> bpm world catalog" where
  "any_catalog = (\<lambda>_. Catalog)"

definition one_lock :: "rid set \<Rightarrow> rid list" where
  "one_lock A = (if A = {work_rid} then [work_rid] else [])"

lemma work_order: "txn_id t = 0 \<Longrightarrow> shared_lock_set t = {} \<Longrightarrow> iterates one_lock (held_locks (work_locks t) 0)"
  by (simp add: iterates_def one_lock_def work_locks_ok)

theorem abort_restores_witness:
  "\<exists>s0 s2 t2 ps2 rid tm' n. heap_tuples (view page_cfg s2) ps2 rid = Some (False, [7, 8, 9]) \<and>
    Abort (bpm_ops page_cfg) page_cfg integer_doubles (\<lambda>_. ab_heap) any_catalog one_lock 0
      (work_manager t2 s2) = Inr (tm', n) \<and> ended (work_manager t2 s2) 0 ABORTED tm' \<and>
    heap_tuples (view page_cfg (storage tm')) ps2 = heap_tuples (view page_cfg s0) [0, 1] \<and>
    heap_tuples (view page_cfg (storage tm')) ps2 work_rid = Some (False, [1, 0, 0, 0, 10, 0, 0, 0])"
proof -
  obtain s0 s2 t2 ps2 rid where w: "heap_tuples (view page_cfg s0) [0, 1] work_rid = Some (False, [1, 0, 0, 0, 10, 0, 0, 0])"
    "txn_run page_cfg ab_heap s2 (the_txn (work_manager t2 s2) 0) ps2 (heap_tuples (view page_cfg s0) [0, 1])"
    "index_write_set t2 = []" "txn_id t2 = 0" "shared_lock_set t2 = {}"
    "heap_tuples (view page_cfg s2) ps2 rid = Some (False, [7, 8, 9])" by (rule work)
  let ?tm = "work_manager t2 s2"
  have tm: "storage ?tm = s2" "lock_mgr ?tm = work_locks t2" by (simp_all add: work_manager_def)
  have i: "index_write_set (the_txn ?tm 0) = []" using w(3) by (simp add: tm work_locks_def upd_txn_def)
  have c: "PAGE_SIZE page_cfg < 2 ^ 31" by (simp add: page_cfg_def)
  show ?thesis
    using abort_restores [of page_cfg ab_heap ?tm 0, unfolded tm, OF w(2)[unfolded tm] i[unfolded tm] work_locks_ok(1) [OF w(4,5)]
        work_order [OF w(4,5)] c, of integer_doubles "\<lambda>_. ab_heap" any_catalog]
      w(1,6) by fastforce
qed

theorem commit_applies_deletes_witness:
  "\<exists>s2 t2 ps2 rid tm' n. heap_tuples (view page_cfg s2) ps2 work_rid = Some (True, [1, 0, 0, 0, 10, 0, 0, 0]) \<and>
    Commit (bpm_ops page_cfg) one_lock 0 (work_manager t2 s2) = Some (tm', n) \<and>
    ended (work_manager t2 s2) 0 COMMITTED tm' \<and>
    heap_tuples (view page_cfg (storage tm')) ps2 work_rid = None \<and>
    heap_tuples (view page_cfg (storage tm')) ps2 rid = Some (False, [7, 8, 9])"
proof -
  obtain s0 s2 t2 ps2 rid where w: "txn_run page_cfg ab_heap s2 (the_txn (work_manager t2 s2) 0) ps2 (heap_tuples (view page_cfg s0) [0, 1])"
    "table_write_set t2 = [\<lparr>wr_rid = work_rid, wr_type = DELETE, wr_tuple = Tuple_default page_cfg, wr_table = 7\<rparr>,
       \<lparr>wr_rid = rid, wr_type = INSERT, wr_tuple = Tuple_default page_cfg, wr_table = 7\<rparr>]"
    "txn_id t2 = 0" "shared_lock_set t2 = {}" "rid \<noteq> work_rid" "heap_tuples (view page_cfg s2) ps2 rid = Some (False, [7, 8, 9])"
    "heap_tuples (view page_cfg s2) ps2 work_rid = Some (True, [1, 0, 0, 0, 10, 0, 0, 0])" by (rule work) blast
  let ?tm = "work_manager t2 s2"
  have tm: "storage ?tm = s2" "lock_mgr ?tm = work_locks t2" by (simp_all add: work_manager_def)
  have d: "deleted (table_write_set (the_txn ?tm 0)) = {work_rid}"
    using w(2) by (simp add: tm work_locks_def upd_txn_def)
  have c: "PAGE_SIZE page_cfg < 2 ^ 31" by (simp add: page_cfg_def)
  obtain tm' n where e: "Commit (bpm_ops page_cfg) one_lock 0 ?tm = Some (tm', n)"
    "ended ?tm 0 COMMITTED tm'"
    "heap_tuples (view page_cfg (storage tm')) ps2 = (heap_tuples (view page_cfg s2) ps2) |` (- {work_rid})"
    using commit_applies_deletes [of page_cfg ab_heap ?tm 0, unfolded tm d [unfolded tm], OF w(1)[unfolded tm]
        work_locks_ok(1) [OF w(3,4)] work_order [OF w(3,4)] c] by blast
  have "heap_tuples (view page_cfg (storage tm')) ps2 work_rid = None"
    "heap_tuples (view page_cfg (storage tm')) ps2 rid = Some (False, [7, 8, 9])" using e(3) w(5,6) by simp_all
  then show ?thesis using w(7) e(1,2) by blast
qed

subsection \<open>An abort that does not restore\<close>

text \<open>A tuple of 28 bytes in a page of 64 is replaced by one of 4, and a tuple of 16 is inserted. The abort removes
  the second, whose slot stays, and then has no room for the old version of the first.\<close>

definition sized_tuple :: "nat \<Rightarrow> byte \<Rightarrow> tuple" where
  "sized_tuple n b = \<lparr>size_of = of_nat n, data_of = replicate n b, rid_of = work_rid\<rparr>"

definition shrink_and_abort :: "(bytes \<times> bool \<times> bytes) option" where
  "shrink_and_abort = do {
     (th, s) \<leftarrow> TableHeap_create (bpm_ops page_cfg) page_cfg 7 heap_pool;
     (rid, _, s) \<leftarrow> TableHeap_InsertTuple 2 (bpm_ops page_cfg) page_cfg th s work_txn (sized_tuple 28 1);
     rid \<leftarrow> rid;
     (before, _, s) \<leftarrow> TableHeap_GetTuple (bpm_ops page_cfg) s work_txn rid;
     before \<leftarrow> before;
     (updated, t, s) \<leftarrow> TableHeap_UpdateTuple (bpm_ops page_cfg) th s work_txn (sized_tuple 4 2) rid;
     (_, t, s) \<leftarrow> TableHeap_InsertTuple 2 (bpm_ops page_cfg) page_cfg th s t (sized_tuple 16 3);
     let tm = \<lparr>next_txn_id = 1, txn_map = [0 \<mapsto> 0], global_txn_latch = \<lparr>reader_count = 1, writer_entered = False\<rparr>,
       lock_mgr = \<lparr>lock_table = Map.empty, id_2_txn = Map.empty, txns = (\<lambda>_. t)\<rparr>, storage = s\<rparr>;
     case Abort (bpm_ops page_cfg) page_cfg integer_doubles (\<lambda>_. th) any_catalog (\<lambda>_. []) 0 tm of
       Inl _ \<Rightarrow> None
     | Inr (tm, _) \<Rightarrow> do {
         (after, _, _) \<leftarrow> TableHeap_GetTuple (bpm_ops page_cfg) (storage tm) work_txn rid;
         after \<leftarrow> after;
         Some (data_of before, updated, data_of after)
       }
   }"

text \<open>\<^verbatim>\<open>Abort\<close> ignores whether \<^verbatim>\<open>UpdateTuple\<close> succeeds. A transaction that shortens a tuple and inserts
  another into the room it gained cannot be undone: the abort succeeds, and the table keeps the shorter tuple.\<close>

theorem abort_keeps_shorter_tuple: "shrink_and_abort = Some (replicate 28 1, True, replicate 4 2)"
  by code_simp

end
