(* ===== verification/ParallelPool.thy ===== *)
theory ParallelPool
  imports BufferPool
begin

section \<open>The parallel buffer pool\<close>

text \<open>
  \<^verbatim>\<open>src/buffer/parallel_buffer_pool_manager.cpp\<close>: a vector of instances over one disk. Every instance of the model
  has the disk in its state, so a call of an instance writes the disk it returns into all of them
  (\<open>put_instance\<close>). A page pointer is the number of an instance and a frame of it. \<open>page_id_t\<close> is signed: the index
  of the responsible instance is computed in 64 bits, from the extended sign.
\<close>

record parallel_pool =
  bpmis :: "bpm list"
  last_alloc_index :: uint32
  instance_size :: nat

fun create_instances :: "config \<Rightarrow> nat \<Rightarrow> nat \<Rightarrow> disk_manager \<Rightarrow> nat list \<Rightarrow> bpm list option" where
  "create_instances cfg n psize d [] = Some []"
| "create_instances cfg n psize d (i # is) = do {
     s \<leftarrow> BufferPoolManagerInstance cfg psize (of_nat n) (of_nat i) d;
     rest \<leftarrow> create_instances cfg n psize d is;
     Some (s # rest)
   }"

definition ParallelBufferPoolManager :: "config \<Rightarrow> nat \<Rightarrow> nat \<Rightarrow> disk_manager \<Rightarrow> parallel_pool option" where
  "ParallelBufferPoolManager cfg n psize d = do {
     instances \<leftarrow> create_instances cfg n psize d [0..<n];
     Some \<lparr>bpmis = instances, last_alloc_index = 0, instance_size = psize\<rparr>
   }"

definition GetPoolSize :: "parallel_pool \<Rightarrow> nat" where
  "GetPoolSize P = length (bpmis P) * instance_size P"

definition put_instance :: "nat \<Rightarrow> bpm \<Rightarrow> parallel_pool \<Rightarrow> parallel_pool" where
  "put_instance i s P = P\<lparr>bpmis := map (\<lambda>t. t\<lparr>disk := disk s\<rparr>) ((bpmis P)[i := s])\<rparr>"

text \<open>An empty vector is a division by zero.\<close>

definition GetBufferPoolManager :: "parallel_pool \<Rightarrow> page_id_t \<Rightarrow> nat option" where
  "GetBufferPoolManager P page_id = do {
     assert_that (bpmis P \<noteq> []);
     Some (unat (scast page_id :: 64 word) mod length (bpmis P))
   }"

definition Parallel_FetchPgImp ::
    "config \<Rightarrow> parallel_pool \<Rightarrow> page_id_t \<Rightarrow> ((nat \<times> frame_id_t) option \<times> parallel_pool) option" where
  "Parallel_FetchPgImp cfg P page_id = do {
     i \<leftarrow> GetBufferPoolManager P page_id;
     (f, s) \<leftarrow> FetchPgImp cfg (bpmis P ! i) page_id;
     Some (map_option (Pair i) f, put_instance i s P)
   }"

definition Parallel_UnpinPgImp ::
    "config \<Rightarrow> parallel_pool \<Rightarrow> page_id_t \<Rightarrow> bool \<Rightarrow> (bool \<times> parallel_pool) option" where
  "Parallel_UnpinPgImp cfg P page_id dirty = do {
     i \<leftarrow> GetBufferPoolManager P page_id;
     (b, s) \<leftarrow> UnpinPgImp cfg (bpmis P ! i) page_id dirty;
     Some (b, put_instance i s P)
   }"

definition Parallel_FlushPgImp :: "config \<Rightarrow> parallel_pool \<Rightarrow> page_id_t \<Rightarrow> (bool \<times> parallel_pool) option" where
  "Parallel_FlushPgImp cfg P page_id = do {
     i \<leftarrow> GetBufferPoolManager P page_id;
     (b, s) \<leftarrow> FlushPgImp cfg (bpmis P ! i) page_id;
     Some (b, put_instance i s P)
   }"

definition Parallel_DeletePgImp :: "config \<Rightarrow> parallel_pool \<Rightarrow> page_id_t \<Rightarrow> (bool \<times> parallel_pool) option" where
  "Parallel_DeletePgImp cfg P page_id = do {
     i \<leftarrow> GetBufferPoolManager P page_id;
     (b, s) \<leftarrow> DeletePgImp cfg (bpmis P ! i) page_id;
     Some (b, put_instance i s P)
   }"

text \<open>The search starts at the instance behind the one asked first the last time, and goes round once. The fuel is
  the number of instances.\<close>

definition next_index :: "parallel_pool \<Rightarrow> uint32 \<Rightarrow> uint32" where
  "next_index P i = of_nat (unat (i + 1) mod length (bpmis P))"

fun new_page_loop ::
    "nat \<Rightarrow> config \<Rightarrow> parallel_pool \<Rightarrow> uint32 \<Rightarrow> ((page_id_t \<times> (nat \<times> frame_id_t)) option \<times> parallel_pool) option" where
  "new_page_loop 0 cfg P start_index = None"
| "new_page_loop (Suc fuel) cfg P start_index = do {
     let i = unat start_index mod length (bpmis P);
     (r, s) \<leftarrow> NewPgImp cfg (bpmis P ! i);
     let P = put_instance i s P;
     case r of
       Some (page_id, f) \<Rightarrow>
         Some (Some (page_id, (i, f)), P\<lparr>last_alloc_index := next_index P (last_alloc_index P)\<rparr>)
     | None \<Rightarrow>
         let start_index = next_index P start_index in
         if start_index \<noteq> last_alloc_index P then new_page_loop fuel cfg P start_index
         else Some (None, P\<lparr>last_alloc_index := next_index P (last_alloc_index P)\<rparr>)
   }"

definition Parallel_NewPgImp ::
    "config \<Rightarrow> parallel_pool \<Rightarrow> ((page_id_t \<times> (nat \<times> frame_id_t)) option \<times> parallel_pool) option" where
  "Parallel_NewPgImp cfg P = do {
     assert_that (bpmis P \<noteq> []);
     new_page_loop (length (bpmis P)) cfg P (last_alloc_index P)
   }"

text \<open>\<open>orders\<close> lists for each instance the keys of its page table, in the order the library visits them.\<close>

fun Parallel_FlushAllPgsImp :: "config \<Rightarrow> nat \<Rightarrow> page_id_t list list \<Rightarrow> parallel_pool \<Rightarrow> parallel_pool option" where
  "Parallel_FlushAllPgsImp cfg i [] P = Some P"
| "Parallel_FlushAllPgsImp cfg i (order # orders) P = do {
     s \<leftarrow> FlushAllPgsImp cfg (bpmis P ! i) order;
     Parallel_FlushAllPgsImp cfg (Suc i) orders (put_instance i s P)
   }"

text \<open>A client reads and writes the memory of a frame.\<close>

definition parallel_get :: "parallel_pool \<Rightarrow> nat \<times> frame_id_t \<Rightarrow> bytes" where
  "parallel_get P = (\<lambda>(i, f). pg_data (pages (bpmis P ! i) ! f))"

definition parallel_put :: "parallel_pool \<Rightarrow> nat \<times> frame_id_t \<Rightarrow> bytes \<Rightarrow> parallel_pool" where
  "parallel_put P = (\<lambda>(i, f) x. P\<lparr>bpmis := (bpmis P)[i := write_frame (bpmis P ! i) f x]\<rparr>)"

end
