(* ===== verification/ParallelPoolSpec.thy ===== *)
theory ParallelPoolSpec
  imports ParallelPool TableHeapSpec
begin

section \<open>What a parallel pool promises\<close>

text \<open>
  Instances share a disk and nothing else: an instance holds and writes only the pages whose number is congruent to
  its own (\<open>owner\<close>). What one instance writes therefore changes nothing another instance relies on, and the parallel
  pool keeps the contract \<open>page_pool\<close>: all that was proved for clients of one instance holds for it as well.
\<close>

subsection \<open>One instance\<close>

definition owner :: "bpm \<Rightarrow> page_id_t \<Rightarrow> bool" where
  "owner s p \<longleftrightarrow> p mod num_instances s = instance_index s"

definition owned :: "bpm \<Rightarrow> bool" where
  "owned s \<longleftrightarrow> (\<forall>p. page_table s p \<noteq> None \<longrightarrow> owner s p)"

text \<open>A change of the disk on pages of \<open>W\<close> only; the file may grow.\<close>

definition writes :: "config \<Rightarrow> (page_id_t \<Rightarrow> bool) \<Rightarrow> disk_manager \<Rightarrow> disk_manager \<Rightarrow> bool" where
  "writes cfg W d d' \<longleftrightarrow> disk_inv d' \<and> (\<forall>q. stored cfg d q \<longrightarrow> stored cfg d' q) \<and>
     (\<forall>q buf. stored cfg d q \<longrightarrow> \<not> W q \<longrightarrow> length buf = PAGE_SIZE cfg \<longrightarrow> ReadPage cfg d' q buf = ReadPage cfg d q buf)"

lemma writes_refl: "disk_inv d \<Longrightarrow> writes cfg W d d"
  by (simp add: writes_def)

lemma writes_page:
  assumes "disk_inv d" "0 < PAGE_SIZE cfg" "addressable cfg p" "length x = PAGE_SIZE cfg" "W p"
  shows "writes cfg W d (WritePage cfg d p x)"
  unfolding writes_def
proof (intro conjI allI impI)
  fix q and buf :: bytes
  assume q: "stored cfg d q" "\<not> W q" "length buf = PAGE_SIZE cfg"
  then have "p \<noteq> q" using assms(5) by auto
  then show "ReadPage cfg (WritePage cfg d p x) q buf = ReadPage cfg d q buf"
    by (rule dm.read_other [OF assms(1,3) stored_addressable [OF assms(1,2) q(1)] assms(4) q(3,1)])
qed (use assms WritePage_disk_inv WritePage_stored in auto)

text \<open>What another instance writes keeps everything this instance has.\<close>

lemma others_write:
  assumes ok: "pool_ok cfg t" and w: "writes cfg W (disk t) d" and W: "\<And>q. owner t q \<Longrightarrow> \<not> W q" and ow: "owned t"
  defines "t' \<equiv> t\<lparr>disk := d\<rparr>"
  shows "pool_ok cfg t'" "owner t q \<Longrightarrow> view cfg t q = Some x \<Longrightarrow> view cfg t' q = Some x"
    "owner t q \<Longrightarrow> saved cfg t q \<Longrightarrow> saved cfg t' q" "pins t' = pins t" "allocated t' = allocated t"
proof -
  note o = pool_okD [OF ok]
  show pins: "pins t' = pins t" by (auto simp: t'_def pins_def fun_eq_iff split: option.splits)
  show "allocated t' = allocated t" by (simp add: t'_def allocated_def fun_eq_iff)
  have od: "on_disk cfg t' q = on_disk cfg t q" "stored cfg d q" if "owner t q" "stored cfg (disk t) q" for q
    using w W [OF that(1)] that(2) by (simp_all add: writes_def on_disk_def t'_def)
  show v: "view cfg t' q = Some x" if "owner t q" "view cfg t q = Some x" for q x
    using that od [of q] by (auto simp: view_def t'_def split: option.splits if_splits)
  show s: "saved cfg t' q" if "owner t q" "saved cfg t q" for q
    using that v od by (simp add: saved_def) (simp add: t'_def)
  have "disk_ok cfg t'" using o(3) w by (simp add: disk_ok_def t'_def writes_def)
  moreover have "saved cfg t' q" if "page_table t' q \<noteq> None" "pins t' q = 0" for q
    using that o(2) ow s pins by (auto simp: synced_def owned_def t'_def)
  ultimately show "pool_ok cfg t'" using o by (simp add: pool_ok_def synced_def t'_def pool_inv_disk aligned_def)
qed

text \<open>The pages an instance writes are its own.\<close>

definition inst_step :: "config \<Rightarrow> bpm \<Rightarrow> bpm \<Rightarrow> bool" where
  "inst_step cfg s s' \<longleftrightarrow> writes cfg (owner s) (disk s) (disk s') \<and> owned s' \<and>
     num_instances s' = num_instances s \<and> instance_index s' = instance_index s"

lemma flush_writes:
  assumes "bpm_inv cfg s" "disk_ok cfg s" "owned s" "page_table s p = Some f"
  shows "writes cfg (owner s) (disk s) (disk (flushed cfg s p f))"
proof -
  have "addressable cfg p"
    by (rule allocated_addressable [OF assms(2)]) (use pool_inv_alloc [OF assms(1,4)] in \<open>simp add: allocated_def\<close>)
  moreover have "length (pg_data (pages s ! f)) = PAGE_SIZE cfg"
    using pool_inv_data [OF assms(1)] pool_inv_frame [OF assms(1,4)] pool_inv_length [OF assms(1)] by simp
  ultimately show ?thesis
    using assms by (auto simp: flushed_def disk_ok_def owned_def intro: writes_refl writes_page)
qed

lemma fresh_writes:
  assumes "fresh cfg s f s1" "bpm_inv cfg s" "disk_ok cfg s" "owned s"
  shows "writes cfg (owner s) (disk s) (disk s1)" "owned s1"
proof -
  show "owned s1"
    using assms(4) fresh_simps [OF assms(1)] by (auto simp: owned_def owner_def)
  consider "disk s1 = disk s" | r where "page_table s (pg_id (pages s ! f)) = Some f" "s1 = evict cfg s r f"
    using assms(1) by (auto simp: fresh_def)
  then show "writes cfg (owner s) (disk s) (disk s1)"
  proof cases
    case 1
    then show ?thesis using assms(3) by (simp add: writes_refl disk_ok_def)
  next
    case 2
    then show ?thesis
      using flush_writes [OF assms(2-4) 2(1)] by (simp add: evict_drop_page) (simp add: drop_page_def)
  qed
qed

lemma NewPgImp_step:
  assumes "pool_ok cfg s" "can_new cfg s" "owned s" "NewPgImp cfg s = Some (Some (p, f), s')"
  shows "inst_step cfg s s'" "owner s p"
proof -
  note o = pool_okD [OF assms(1)]
  from o(1) can_new_room [OF o(4) assms(2) o(6)] have "inst_step cfg s s' \<and> owner s p"
  proof (cases rule: NewPgImp_cases)
    case full
    then show ?thesis using assms(4) by simp
  next
    case (new g s1)
    note W = fresh_writes [OF new(1) o(1,3) assms(3)] and F = fresh_simps [OF new(1)]
    have "owner s (next_page_id s)" using o(4) by (simp add: owner_def aligned_def)
    then show ?thesis
      using new(2) assms(4) W F by (auto simp: inst_step_def install_def owned_def owner_def new_frame_def)
  qed
  then show "inst_step cfg s s'" "owner s p" by blast+
qed

lemma FetchPgImp_step:
  assumes "pool_ok cfg s" "allocated s p" "owned s" "owner s p" "FetchPgImp cfg s p = Some (Some f, s')"
  shows "inst_step cfg s s'"
proof -
  note o = pool_okD [OF assms(1)]
  from o(1) assms(2) show ?thesis
  proof (cases rule: FetchPgImp_cases)
    case (hit g r)
    then show ?thesis using assms(3,5) o(7) by (auto simp: inst_step_def owned_def owner_def intro: writes_refl)
  next
    case (miss g s1 r)
    note W = fresh_writes [OF miss(2) o(1,3) assms(3)] and F = fresh_simps [OF miss(2)]
    then show ?thesis
      using miss(3) assms(4,5) by (auto simp: inst_step_def install_def owned_def owner_def fetched_frame_def)
  qed (use assms(5) in simp)
qed

lemma UnpinPgImp_step:
  assumes "pool_ok cfg s" "owned s" "UnpinPgImp cfg s p d = Some (b, s')"
  shows "inst_step cfg s s'"
proof -
  note o = pool_okD [OF assms(1)]
  from o(1) show ?thesis
  proof (cases rule: UnpinPgImp_cases [where p = p and d = d])
    case (last f r s1)
    have s1: "page_table s1 = page_table s" "owner s1 = owner s" "disk s1 = disk s" "disk_ok cfg s1"
      "num_instances s1 = num_instances s" "instance_index s1 = instance_index s"
      using o(3) by (simp_all add: last(3) owner_def fun_eq_iff disk_ok_def)
    have "writes cfg (owner s1) (disk s1) (disk (flushed cfg s1 p f))"
      by (rule flush_writes [OF last(5) s1(4)]) (use assms(2) s1 last(1) in \<open>simp_all add: owned_def\<close>)
    then show ?thesis using last(4) assms(2,3) s1 by (auto simp: inst_step_def owned_def owner_def)
  qed (use assms(2,3) o(7) in \<open>auto simp: inst_step_def owned_def owner_def intro: writes_refl\<close>)
qed

lemma FlushPgImp_step:
  assumes "pool_ok cfg s" "owned s" "FlushPgImp cfg s p = Some (b, s')"
  shows "inst_step cfg s s'"
proof -
  note o = pool_okD [OF assms(1)]
  from o(1) show ?thesis
  proof (cases rule: FlushPgImp_cases [where p = p])
    case (ok f)
    then show ?thesis
      using flush_writes [OF o(1,3) assms(2) ok(1)] assms(2,3) by (auto simp: inst_step_def owned_def owner_def)
  qed (use assms(2,3) o(7) in \<open>auto simp: inst_step_def intro: writes_refl\<close>)
qed

lemma write_frame_step: "pool_ok cfg s \<Longrightarrow> owned s \<Longrightarrow> inst_step cfg s (write_frame s f x)"
  using pool_okD(7) [of cfg s] by (auto simp: inst_step_def owned_def owner_def write_frame_def intro: writes_refl)

subsection \<open>All instances\<close>

definition home :: "parallel_pool \<Rightarrow> page_id_t \<Rightarrow> nat" where
  "home P p = unat (scast p :: 64 word) mod length (bpmis P)"

abbreviation inst :: "parallel_pool \<Rightarrow> page_id_t \<Rightarrow> bpm" where
  "inst P p \<equiv> bpmis P ! home P p"

definition inst_ok :: "config \<Rightarrow> parallel_pool \<Rightarrow> nat \<Rightarrow> bpm \<Rightarrow> bool" where
  "inst_ok cfg P i s \<longleftrightarrow> pool_ok cfg s \<and> owned s \<and> num_instances s = of_nat (length (bpmis P)) \<and>
     instance_index s = of_nat i \<and> disk s = disk (bpmis P ! 0) \<and> pool_size s = instance_size P"

definition par_ok :: "config \<Rightarrow> parallel_pool \<Rightarrow> bool" where
  "par_ok cfg P \<longleftrightarrow> bpmis P \<noteq> [] \<and> length (bpmis P) < 2 ^ 32 \<and> unat (last_alloc_index P) < length (bpmis P) \<and>
     (\<forall>i<length (bpmis P). inst_ok cfg P i (bpmis P ! i))"

definition par_content :: "config \<Rightarrow> parallel_pool \<Rightarrow> page_id_t \<rightharpoonup> bytes" where
  "par_content cfg P p = view cfg (inst P p) p"

definition par_held :: "parallel_pool \<Rightarrow> page_id_t \<Rightarrow> nat" where
  "par_held P p = pins (inst P p) p"

definition par_at :: "parallel_pool \<Rightarrow> page_id_t \<Rightarrow> (nat \<times> frame_id_t) option" where
  "par_at P p = map_option (Pair (home P p)) (page_table (inst P p) p)"

definition par_alloc :: "parallel_pool \<Rightarrow> page_id_t \<Rightarrow> bool" where
  "par_alloc P p \<longleftrightarrow> allocated (inst P p) p"

definition par_clean :: "config \<Rightarrow> parallel_pool \<Rightarrow> page_id_t \<Rightarrow> bool" where
  "par_clean cfg P p \<longleftrightarrow> saved cfg (inst P p) p"

definition par_can_new :: "config \<Rightarrow> parallel_pool \<Rightarrow> bool" where
  "par_can_new cfg P \<longleftrightarrow> (\<forall>i<length (bpmis P). heap_room cfg (bpmis P ! i))"

lemmas par_defs = par_content_def par_held_def par_at_def par_alloc_def par_clean_def

lemma par_okD:
  assumes "par_ok cfg P"
  shows "bpmis P \<noteq> []" "0 < length (bpmis P)" "length (bpmis P) < 2 ^ 32" "unat (last_alloc_index P) < length (bpmis P)"
    "i < length (bpmis P) \<Longrightarrow> inst_ok cfg P i (bpmis P ! i)"
  using assms by (auto simp: par_ok_def)

lemma home_lt: "bpmis P \<noteq> [] \<Longrightarrow> home P p < length (bpmis P)"
  by (simp add: home_def)

text \<open>For the pages that can exist the two computations of the responsible instance agree.\<close>

lemma owner_home:
  assumes "par_ok cfg P" "i < length (bpmis P)" "unat p < 2 ^ 31"
  shows "owner (bpmis P ! i) p \<longleftrightarrow> home P p = i"
proof -
  let ?n = "length (bpmis P)"
  note o = par_okD(5) [OF assms(1,2)]
  have n: "unat (of_nat ?n :: uint32) = ?n" using par_okD(3) [OF assms(1)] by (simp add: unat_of_nat_small)
  have i: "unat (of_nat i :: uint32) = i" using par_okD(3) [OF assms(1)] assms(2) by (simp add: unat_of_nat_small)
  have "unat (scast p :: 64 word) = unat p" by (rule unat_scast_up) (use assms(3) in simp_all)
  then have h: "home P p = unat p mod ?n" by (simp add: home_def)
  have "owner (bpmis P ! i) p \<longleftrightarrow> p mod of_nat ?n = of_nat i" using o by (simp add: owner_def inst_ok_def)
  also have "\<dots> \<longleftrightarrow> unat (p mod of_nat ?n) = i" using i word_unat_eq_iff [of "p mod of_nat ?n" "of_nat i"] by simp
  finally have "owner (bpmis P ! i) p \<longleftrightarrow> unat (p mod of_nat ?n) = i" .
  then show ?thesis by (simp add: h unat_mod_distrib n)
qed

lemma small_page_id:
  assumes "pool_ok cfg s"
  shows "view cfg s p = Some x \<Longrightarrow> unat p < 2 ^ 31" "saved cfg s p \<Longrightarrow> unat p < 2 ^ 31"
    "allocated s p \<Longrightarrow> unat p < 2 ^ 31" "page_table s p = Some f \<Longrightarrow> unat p < 2 ^ 31"
proof -
  note o = pool_okD [OF assms]
  show r: "unat p < 2 ^ 31" if "page_table s p = Some f" for f
    by (rule addressable_page_id [OF resident_addressable [OF o(1,3) that]])
  have st: "unat p < 2 ^ 31" if "stored cfg (disk s) p"
    by (rule addressable_page_id [OF stored_addressable [OF o(7,6) that]])
  show "unat p < 2 ^ 31" if "view cfg s p = Some x"
    using that r st by (auto simp: view_def split: option.splits if_splits)
  show "unat p < 2 ^ 31" if "saved cfg s p" using that st by (simp add: saved_def)
  show "unat p < 2 ^ 31" if "allocated s p"
    by (rule addressable_page_id [OF allocated_addressable [OF o(3) that]])
qed

lemma home_owner:
  assumes "par_ok cfg P" "unat p < 2 ^ 31"
  shows "owner (inst P p) p"
  using owner_home [OF assms(1) home_lt [OF par_okD(1) [OF assms(1)]] assms(2)] by simp

lemma owner_unique:
  assumes "par_ok cfg P" "i < length (bpmis P)" "j < length (bpmis P)" "i \<noteq> j" "owner (bpmis P ! j) q"
  shows "\<not> owner (bpmis P ! i) q"
proof
  assume "owner (bpmis P ! i) q"
  then have "(of_nat i :: uint32) = of_nat j"
    using par_okD(5) [OF assms(1,2)] par_okD(5) [OF assms(1,3)] assms(5) by (simp add: inst_ok_def owner_def)
  moreover have "unat (of_nat k :: uint32) = k" if "k < length (bpmis P)" for k
    by (rule unat_of_nat_small) (use par_okD(3) [OF assms(1)] that in simp)
  note this [OF assms(2)] this [OF assms(3)]
  ultimately have "i = j" by metis
  with assms(4) show False ..
qed

text \<open>One instance makes a step; the disks of the others follow.\<close>

definition moves :: "config \<Rightarrow> parallel_pool \<Rightarrow> nat \<Rightarrow> bpm \<Rightarrow> bool" where
  "moves cfg P i s' \<longleftrightarrow> par_ok cfg P \<and> i < length (bpmis P) \<and> pool_ok cfg s' \<and> inst_step cfg (bpmis P ! i) s' \<and>
     pool_size s' = instance_size P"

lemma movesD:
  assumes "moves cfg P i s'"
  shows "par_ok cfg P" "i < length (bpmis P)" "pool_ok cfg s'" "inst_step cfg (bpmis P ! i) s'" "pool_size s' = instance_size P"
  using assms by (simp_all add: moves_def)

lemma put_instance_simps [simp]:
  "length (bpmis (put_instance i s' P)) = length (bpmis P)" "home (put_instance i s' P) = home P"
  "last_alloc_index (put_instance i s' P) = last_alloc_index P" "instance_size (put_instance i s' P) = instance_size P"
  "i < length (bpmis P) \<Longrightarrow> bpmis (put_instance i s' P) ! i = s'"
  by (simp_all add: put_instance_def home_def fun_eq_iff)

lemma put_instance_other:
  "j < length (bpmis P) \<Longrightarrow> j \<noteq> i \<Longrightarrow> bpmis (put_instance i s' P) ! j = (bpmis P ! j)\<lparr>disk := disk s'\<rparr>"
  by (simp add: put_instance_def)

lemma move_others:
  assumes mv: "moves cfg P i s'" and j0: "j < length (bpmis P)" "j \<noteq> i"
  defines "P' \<equiv> put_instance i s' P"
  shows "pool_ok cfg (bpmis P' ! j)" "owner (bpmis P ! j) q \<Longrightarrow> view cfg (bpmis P ! j) q = Some x \<Longrightarrow> view cfg (bpmis P' ! j) q = Some x"
    "owner (bpmis P ! j) q \<Longrightarrow> saved cfg (bpmis P ! j) q \<Longrightarrow> saved cfg (bpmis P' ! j) q"
    "pins (bpmis P' ! j) = pins (bpmis P ! j)" "allocated (bpmis P' ! j) = allocated (bpmis P ! j)"
    "page_table (bpmis P' ! j) = page_table (bpmis P ! j)"
proof -
  note M = movesD [OF mv]
  have j: "pool_ok cfg (bpmis P ! j)" "owned (bpmis P ! j)" "disk (bpmis P ! j) = disk (bpmis P ! i)"
    using par_okD(5) [OF M(1) j0(1)] par_okD(5) [OF M(1,2)] by (simp_all add: inst_ok_def)
  have w: "writes cfg (owner (bpmis P ! i)) (disk (bpmis P ! j)) (disk s')" using M(4) j(3) by (simp add: inst_step_def)
  have W: "\<not> owner (bpmis P ! i) q" if "owner (bpmis P ! j) q" for q
    by (rule owner_unique [OF M(1,2) j0(1) j0(2) [symmetric] that])
  note O = others_write [OF j(1) w W j(2)]
  show "pool_ok cfg (bpmis P' ! j)" "owner (bpmis P ! j) q \<Longrightarrow> view cfg (bpmis P ! j) q = Some x \<Longrightarrow> view cfg (bpmis P' ! j) q = Some x"
    "owner (bpmis P ! j) q \<Longrightarrow> saved cfg (bpmis P ! j) q \<Longrightarrow> saved cfg (bpmis P' ! j) q"
    "pins (bpmis P' ! j) = pins (bpmis P ! j)" "allocated (bpmis P' ! j) = allocated (bpmis P ! j)"
    "page_table (bpmis P' ! j) = page_table (bpmis P ! j)"
    using O by (simp_all add: P'_def put_instance_other [OF j0])
qed

lemma move_ok:
  assumes mv: "moves cfg P i s'"
  shows "par_ok cfg (put_instance i s' P)"
proof -
  let ?P = "put_instance i s' P"
  note M = movesD [OF mv]
  have d: "disk (bpmis ?P ! j) = disk s'" if "j < length (bpmis P)" for j
    using that by (cases "j = i") (simp_all add: put_instance_other M(2))
  have "inst_ok cfg ?P j (bpmis ?P ! j)" if j: "j < length (bpmis P)" for j
  proof (cases "j = i")
    case True
    then show ?thesis
      using par_okD(5) [OF M(1,2)] M d [of 0] par_okD(2) [OF M(1)] by (simp add: inst_ok_def inst_step_def)
  next
    case False
    then show ?thesis
      using par_okD(5) [OF M(1) j] move_others(1) [OF mv j False] d [of 0] d [OF j] par_okD(2) [OF M(1)]
      by (auto simp: inst_ok_def put_instance_other [OF j False] owned_def owner_def)
  qed
  then show ?thesis using M(1) by (simp add: par_ok_def) (metis put_instance_simps(1) length_0_conv)
qed

text \<open>What a step of the responsible instance does to each page.\<close>

lemma move_away:
  assumes mv: "moves cfg P i s'" and away: "home P p \<noteq> i"
  defines "P' \<equiv> put_instance i s' P"
  shows "par_content cfg P p = Some x \<Longrightarrow> par_content cfg P' p = Some x" "par_held P' p = par_held P p"
    "par_at P' p = par_at P p" "par_alloc P' p = par_alloc P p" "par_clean cfg P p \<Longrightarrow> par_clean cfg P' p"
proof -
  note M = movesD [OF mv]
  have h: "home P p < length (bpmis P)" by (rule home_lt [OF par_okD(1) [OF M(1)]])
  have ok: "pool_ok cfg (inst P p)" using par_okD(5) [OF M(1) h] by (simp add: inst_ok_def)
  note O = move_others [OF mv h away, folded P'_def] and own = home_owner [OF M(1)]
  have hP: "home P' = home P" by (simp add: P'_def)
  show "par_content cfg P p = Some x \<Longrightarrow> par_content cfg P' p = Some x"
    using O(2) own small_page_id(1) [OF ok] by (simp add: par_defs hP)
  show "par_clean cfg P p \<Longrightarrow> par_clean cfg P' p"
    using O(3) own small_page_id(2) [OF ok] by (simp add: par_defs hP)
  show "par_held P' p = par_held P p" "par_at P' p = par_at P p" "par_alloc P' p = par_alloc P p"
    using O(4-6) by (simp_all add: par_defs hP)
qed

lemma move_home:
  fixes s' :: bpm
  assumes "i < length (bpmis P)" "home P p = i"
  defines "P' \<equiv> put_instance i s' P"
  shows "par_content cfg P' p = view cfg s' p" "par_held P' p = pins s' p" "par_at P' p = map_option (Pair i) (page_table s' p)"
    "par_alloc P' p = allocated s' p" "par_clean cfg P' p = saved cfg s' p"
    "par_content cfg P p = view cfg (bpmis P ! i) p" "par_held P p = pins (bpmis P ! i) p"
    "par_at P p = map_option (Pair i) (page_table (bpmis P ! i) p)"
    "par_alloc P p = allocated (bpmis P ! i) p" "par_clean cfg P p = saved cfg (bpmis P ! i) p"
  using assms by (simp_all add: par_defs)

lemma put_same:
  assumes "par_ok cfg P" "i < length (bpmis P)" "disk s' = disk (bpmis P ! i)"
  shows "put_instance i s' P = P\<lparr>bpmis := (bpmis P)[i := s']\<rparr>"
proof -
  have d: "disk (bpmis P ! j) = disk s'" if "j < length (bpmis P)" for j
    using par_okD(5) [OF assms(1) that] par_okD(5) [OF assms(1,2)] assms(3) by (simp add: inst_ok_def)
  have "(t :: bpm)\<lparr>disk := disk s'\<rparr> = t" if "t \<in> set ((bpmis P)[i := s'])" for t
    using that set_update_subset_insert [of "bpmis P" i s'] d by (force simp: in_set_conv_nth)
  then show ?thesis by (simp add: put_instance_def map_idI)
qed

lemma put_self: "par_ok cfg P \<Longrightarrow> i < length (bpmis P) \<Longrightarrow> put_instance i (bpmis P ! i) P = P"
  by (simp add: put_same)

text \<open>The pages an instance holds are pages the pool holds.\<close>

lemma inst_held:
  assumes "par_ok cfg P" "i < length (bpmis P)"
  shows "{q. 0 < pins (bpmis P ! i) q} = {q. 0 < par_held P q \<and> home P q = i}"
proof -
  have "home P q = i" if pos: "0 < pins (bpmis P ! i) q" for q
  proof -
    obtain f where f: "page_table (bpmis P ! i) q = Some f"
      using pos by (cases "page_table (bpmis P ! i) q") (auto simp: pins_def)
    have o: "pool_ok cfg (bpmis P ! i)" "owned (bpmis P ! i)" using par_okD(5) [OF assms] by (simp_all add: inst_ok_def)
    have "owner (bpmis P ! i) q" using o(2) f by (simp add: owned_def)
    then show ?thesis using owner_home [OF assms small_page_id(4) [OF o(1) f]] by simp
  qed
  then show ?thesis by (auto simp: par_held_def)
qed

lemma full_cap:
  assumes "par_ok cfg P" "i < length (bpmis P)" "pool_size (bpmis P ! i) \<le> card {q. 0 < pins (bpmis P ! i) q}"
  shows "instance_size P \<le> card {q. 0 < par_held P q}"
proof -
  have "card {q. 0 < pins (bpmis P ! i) q} \<le> card {q. 0 < par_held P q}"
    by (rule card_mono) (auto simp: inst_held [OF assms(1,2)])
  then show ?thesis using assms(3) par_okD(5) [OF assms(1,2)] by (simp add: inst_ok_def)
qed

text \<open>The instance of a page, as the operations find it.\<close>

lemma route:
  assumes "par_ok cfg P"
  shows "GetBufferPoolManager P p = Some (home P p)" "home P p < length (bpmis P)" "pool_ok cfg (inst P p)"
    "owned (inst P p)" "pool_size (inst P p) = instance_size P"
  using par_okD(1) [OF assms] par_okD(5) [OF assms home_lt [OF par_okD(1) [OF assms]]]
  by (simp_all add: GetBufferPoolManager_def home_def inst_ok_def)

lemma move_content:
  assumes "moves cfg P (home P p) s'" "view cfg (inst P p) \<subseteq>\<^sub>m view cfg s'"
  shows "par_content cfg P \<subseteq>\<^sub>m par_content cfg (put_instance (home P p) s' P)"
proof (unfold map_le_def, intro ballI)
  fix q assume "q \<in> dom (par_content cfg P)"
  then obtain x where x: "par_content cfg P q = Some x" by blast
  have "par_content cfg (put_instance (home P p) s' P) q = Some x"
  proof (cases "home P q = home P p")
    case True
    then show ?thesis using x map_leD [OF assms(2), of q] by (simp add: move_home [OF movesD(2) [OF assms(1)] True])
  qed (rule move_away(1) [OF assms(1) _ x])
  then show "par_content cfg P q = par_content cfg (put_instance (home P p) s' P) q" using x by simp
qed

lemma move_held:
  assumes "moves cfg P (home P p) s'" "pins s' = (pins (inst P p))(p := k)"
  shows "par_held (put_instance (home P p) s' P) = (par_held P)(p := k)"
proof
  fix q
  show "par_held (put_instance (home P p) s' P) q = ((par_held P)(p := k)) q"
    using move_away(2) [OF assms(1), of q] assms(2)
    by (cases "home P q = home P p") (auto simp: move_home [OF movesD(2) [OF assms(1)]])
qed

lemma move_page:
  assumes "moves cfg P (home P p) s'"
  shows "(home P q = home P p \<Longrightarrow> allocated (inst P p) q \<longrightarrow> allocated s' q) \<Longrightarrow>
      par_alloc P q \<longrightarrow> par_alloc (put_instance (home P p) s' P) q"
    "(home P q = home P p \<Longrightarrow> 0 < pins (inst P p) q \<longrightarrow> page_table s' q = page_table (inst P p) q) \<Longrightarrow>
      0 < par_held P q \<longrightarrow> par_at (put_instance (home P p) s' P) q = par_at P q"
    "(home P q = home P p \<Longrightarrow> C \<and> saved cfg (inst P p) q \<longrightarrow> saved cfg s' q) \<Longrightarrow>
      C \<and> par_clean cfg P q \<longrightarrow> par_clean cfg (put_instance (home P p) s' P) q"
  using move_away(3-5) [OF assms, of q]
  by (cases "home P q = home P p"; auto simp: move_home [OF movesD(2) [OF assms]])+

lemma move_page_same:
  assumes "moves cfg P (home P p) s'"
  shows "page_table s' = page_table (inst P p) \<Longrightarrow> par_at (put_instance (home P p) s' P) = par_at P"
    "allocated s' = allocated (inst P p) \<Longrightarrow> par_alloc (put_instance (home P p) s' P) = par_alloc P"
proof -
  show "par_at (put_instance (home P p) s' P) = par_at P" if "page_table s' = page_table (inst P p)"
  proof
    fix q show "par_at (put_instance (home P p) s' P) q = par_at P q"
      using move_away(3) [OF assms, of q] that
      by (cases "home P q = home P p") (auto simp: move_home [OF movesD(2) [OF assms]])
  qed
  show "par_alloc (put_instance (home P p) s' P) = par_alloc P" if "allocated s' = allocated (inst P p)"
  proof
    fix q show "par_alloc (put_instance (home P p) s' P) q = par_alloc P q"
      using move_away(4) [OF assms, of q] that
      by (cases "home P q = home P p") (auto simp: move_home [OF movesD(2) [OF assms]])
  qed
qed

lemma Parallel_fetch_spec:
  assumes ok: "par_ok cfg P" and al: "par_alloc P p" and x: "par_content cfg P p = Some x"
  shows "Parallel_FetchPgImp cfg P p = Some (None, P) \<and> instance_size P \<le> card {q. 0 < par_held P q} \<or>
      (\<exists>f P'. Parallel_FetchPgImp cfg P p = Some (Some f, P') \<and> par_ok cfg P' \<and> instance_size P' = instance_size P \<and>
         par_at P' p = Some f \<and> parallel_get P' f = x \<and> par_content cfg P \<subseteq>\<^sub>m par_content cfg P' \<and>
         par_held P' = (par_held P)(p := par_held P p + 1) \<and> (par_held P p = 0 \<longrightarrow> par_clean cfg P' p) \<and>
         (\<forall>q. (par_alloc P q \<longrightarrow> par_alloc P' q) \<and> (0 < par_held P q \<longrightarrow> par_at P' q = par_at P q) \<and>
              (par_clean cfg P q \<longrightarrow> par_clean cfg P' q)))"
proof -
  note r = route [OF ok, of p]
  let ?i = "home P p" and ?s = "inst P p"
  have a: "allocated ?s p" "view cfg ?s p = Some x" using al x by (simp_all add: par_defs)
  from FetchPgImp_spec [OF r(3) a] show ?thesis
  proof (elim disjE exE conjE)
    assume "FetchPgImp cfg ?s p = Some (None, ?s)" "pool_size ?s \<le> card {q. 0 < pins ?s q}"
    then show ?thesis
      using full_cap [OF ok r(2)] r(1) by (simp add: Parallel_FetchPgImp_def put_self [OF ok r(2)])
  next
    fix f s'
    assume f: "FetchPgImp cfg ?s p = Some (Some f, s')" "pool_ok cfg s'" "pool_size s' = pool_size ?s"
      "page_table s' p = Some f" "read_frame s' f = x" "view cfg ?s \<subseteq>\<^sub>m view cfg s'"
      "pins s' = (pins ?s)(p := pins ?s p + 1)" "pins ?s p = 0 \<longrightarrow> saved cfg s' p"
      "\<forall>q. (allocated ?s q \<longrightarrow> allocated s' q) \<and> (0 < pins ?s q \<longrightarrow> page_table s' q = page_table ?s q) \<and>
            (saved cfg ?s q \<longrightarrow> saved cfg s' q)"
    let ?P = "put_instance ?i s' P"
    have "inst_step cfg ?s s'"
      by (rule FetchPgImp_step [OF r(3) a(1) r(4) home_owner [OF ok small_page_id(1) [OF r(3) a(2)]] f(1)])
    then have mv: "moves cfg P ?i s'" using ok r f(2,3) by (simp add: moves_def)
    have "Parallel_FetchPgImp cfg P p = Some (Some (?i, f), ?P)" using f(1) r(1) by (simp add: Parallel_FetchPgImp_def)
    moreover have "par_at ?P p = Some (?i, f)" "parallel_get ?P (?i, f) = x" "par_held P p = 0 \<longrightarrow> par_clean cfg ?P p"
      using f(4,5,8) r(2) by (simp_all add: parallel_get_def read_frame_def move_home [OF r(2) refl])
    moreover have "par_held ?P = (par_held P)(p := par_held P p + 1)"
      using move_held [OF mv f(7)] by (simp add: par_held_def)
    moreover have "(par_alloc P q \<longrightarrow> par_alloc ?P q) \<and> (0 < par_held P q \<longrightarrow> par_at ?P q = par_at P q) \<and>
              (par_clean cfg P q \<longrightarrow> par_clean cfg ?P q)" for q
      using move_page(1,2) [OF mv, of q] move_page(3) [OF mv, where C = True and q = q] f(9) by simp
    ultimately show ?thesis using move_ok [OF mv] move_content [OF mv f(6)] by fastforce
  qed
qed

lemma Parallel_unpin_spec:
  assumes ok: "par_ok cfg P" and h: "0 < par_held P p" and d: "par_held P p = 1 \<Longrightarrow> d \<or> par_clean cfg P p"
  shows "\<exists>P'. Parallel_UnpinPgImp cfg P p d = Some (True, P') \<and> par_ok cfg P' \<and> instance_size P' = instance_size P \<and>
     par_content cfg P \<subseteq>\<^sub>m par_content cfg P' \<and> par_held P' = (par_held P)(p := par_held P p - 1) \<and>
     par_at P' = par_at P \<and> par_alloc P' = par_alloc P \<and> (\<forall>q. par_clean cfg P q \<longrightarrow> par_clean cfg P' q)"
proof -
  note r = route [OF ok, of p]
  let ?i = "home P p" and ?s = "inst P p"
  have "0 < pins ?s p" "pins ?s p = 1 \<Longrightarrow> d \<or> saved cfg ?s p" using h d by (simp_all add: par_defs)
  from UnpinPgImp_spec [OF r(3) this] obtain s' where u: "UnpinPgImp cfg ?s p d = Some (True, s')" "pool_ok cfg s'"
    "pool_size s' = pool_size ?s" "view cfg ?s \<subseteq>\<^sub>m view cfg s'" "pins s' = (pins ?s)(p := pins ?s p - 1)"
    "page_table s' = page_table ?s" "allocated s' = allocated ?s" "\<forall>q. saved cfg ?s q \<longrightarrow> saved cfg s' q" by blast
  let ?P = "put_instance ?i s' P"
  have mv: "moves cfg P ?i s'" using ok r u(2,3) UnpinPgImp_step [OF r(3,4) u(1)] by (simp add: moves_def)
  have "par_at ?P = par_at P" "par_alloc ?P = par_alloc P"
    using move_page_same [OF mv] u(6,7) by blast+
  moreover have "par_held ?P = (par_held P)(p := par_held P p - 1)"
    using move_held [OF mv u(5)] by (simp add: par_held_def)
  moreover have "par_clean cfg P q \<longrightarrow> par_clean cfg ?P q" for q using move_page(3) [OF mv, where C = True and q = q] u(8) by simp
  moreover have "Parallel_UnpinPgImp cfg P p d = Some (True, ?P)" using u(1) r(1) by (simp add: Parallel_UnpinPgImp_def)
  ultimately show ?thesis using move_ok [OF mv] move_content [OF mv u(4)] by fastforce
qed

lemma Parallel_flush_spec:
  assumes ok: "par_ok cfg P"
  shows "\<exists>b P'. Parallel_FlushPgImp cfg P p = Some (b, P') \<and> par_ok cfg P' \<and> instance_size P' = instance_size P \<and>
     par_content cfg P \<subseteq>\<^sub>m par_content cfg P' \<and> par_held P' = par_held P \<and>
     par_at P' = par_at P \<and> par_alloc P' = par_alloc P \<and> (\<forall>q. par_clean cfg P q \<longrightarrow> par_clean cfg P' q)"
proof -
  note r = route [OF ok, of p]
  let ?i = "home P p" and ?s = "inst P p"
  from FlushPgImp_spec [OF r(3), of p] obtain b s' where u: "FlushPgImp cfg ?s p = Some (b, s')" "pool_ok cfg s'"
    "pool_size s' = pool_size ?s" "view cfg ?s \<subseteq>\<^sub>m view cfg s'" "pins s' = pins ?s"
    "page_table s' = page_table ?s" "allocated s' = allocated ?s" "\<forall>q. saved cfg ?s q \<longrightarrow> saved cfg s' q" by blast
  let ?P = "put_instance ?i s' P"
  have mv: "moves cfg P ?i s'" using ok r u(2,3) FlushPgImp_step [OF r(3,4) u(1)] by (simp add: moves_def)
  have "par_at ?P = par_at P" "par_alloc ?P = par_alloc P" using move_page_same [OF mv] u(6,7) by blast+
  moreover have "par_held ?P = par_held P"
    using move_held [OF mv, of "pins ?s p"] u(5) by (simp add: par_held_def fun_upd_idem)
  moreover have "par_clean cfg P q \<longrightarrow> par_clean cfg ?P q" for q
    using move_page(3) [OF mv, where C = True and q = q] u(8) by simp
  moreover have "Parallel_FlushPgImp cfg P p = Some (b, ?P)" using u(1) r(1) by (simp add: Parallel_FlushPgImp_def)
  ultimately show ?thesis using move_ok [OF mv] move_content [OF mv u(4)] by fastforce
qed

lemma parallel_put_spec:
  assumes ok: "par_ok cfg P" and a: "par_at P p = Some f" and h: "0 < par_held P p" and x: "length x = PAGE_SIZE cfg"
  shows "par_ok cfg (parallel_put P f x) \<and> instance_size (parallel_put P f x) = instance_size P \<and>
      par_content cfg (parallel_put P f x) = (par_content cfg P)(p \<mapsto> x) \<and> par_held (parallel_put P f x) = par_held P \<and>
      par_at (parallel_put P f x) = par_at P \<and> par_alloc (parallel_put P f x) = par_alloc P \<and>
      (\<forall>q. (q \<noteq> p \<or> par_content cfg P p = Some x) \<and> par_clean cfg P q \<longrightarrow> par_clean cfg (parallel_put P f x) q)"
proof -
  note r = route [OF ok, of p]
  let ?i = "home P p" and ?s = "inst P p"
  obtain g where g: "f = (?i, g)" "page_table ?s p = Some g" using a by (auto simp: par_at_def)
  define s' where "s' = write_frame ?s g x"
  have pin: "0 < pins ?s p" using h by (simp add: par_held_def)
  have w: "pool_ok cfg s'" "pool_size s' = pool_size ?s" "view cfg s' = (view cfg ?s)(p \<mapsto> x)" "pins s' = pins ?s"
    "page_table s' = page_table ?s" "allocated s' = allocated ?s"
    "\<And>q. (q \<noteq> p \<or> view cfg ?s p = Some x) \<and> saved cfg ?s q \<longrightarrow> saved cfg s' q"
    using write_frame_spec [OF r(3) g(2) pin x] unfolding s'_def by blast+
  have mv: "moves cfg P ?i s'"
    using ok r w(1,2) write_frame_step [OF r(3,4)] by (simp add: moves_def s'_def)
  have d: "disk s' = disk ?s" by (simp add: s'_def write_frame_def)
  have eq: "parallel_put P f x = put_instance ?i s' P"
    unfolding put_same [OF ok r(2) d] by (simp add: parallel_put_def g(1) s'_def)
  have "par_content cfg (put_instance ?i s' P) q = ((par_content cfg P)(p \<mapsto> x)) q" for q
  proof (cases "home P q = ?i")
    case True
    then show ?thesis using w(3) by (auto simp: move_home [OF r(2)])
  next
    case False
    have "bpmis (put_instance ?i s' P) ! home P q = inst P q"
      unfolding put_same [OF ok r(2) d] using False by simp
    then have "par_content cfg (put_instance ?i s' P) q = par_content cfg P q" by (simp add: par_content_def)
    then show ?thesis using False by auto
  qed
  then have "par_content cfg (put_instance ?i s' P) = (par_content cfg P)(p \<mapsto> x)" ..
  moreover have "par_at (put_instance ?i s' P) = par_at P" "par_alloc (put_instance ?i s' P) = par_alloc P"
    using move_page_same [OF mv] w(5,6) by blast+
  moreover have "par_held (put_instance ?i s' P) = par_held P"
    using move_held [OF mv, of "pins ?s p"] w(4) by (simp add: par_held_def fun_upd_idem)
  moreover have "(q \<noteq> p \<or> par_content cfg P p = Some x) \<and> par_clean cfg P q \<longrightarrow> par_clean cfg (put_instance ?i s' P) q" for q
    using move_page(3) [OF mv, where C = "q \<noteq> p \<or> par_content cfg P p = Some x" and q = q] w(7) [of q]
    by (simp add: par_content_def)
  ultimately show ?thesis using move_ok [OF mv] unfolding eq by simp
qed

subsection \<open>New pages\<close>

lemma next_index_step:
  assumes "n = length (bpmis P)" "0 < n" "n < 2 ^ 32"
  shows "next_index P (of_nat (m mod n)) = of_nat (Suc m mod n)"
proof -
  have "m mod n < n" using assms(2) by simp
  then have "Suc (m mod n) < 2 ^ LENGTH(32)" using assms(3) by simp
  then have "unat (of_nat (Suc (m mod n)) :: uint32) = Suc (m mod n)" by (rule unat_of_nat_small)
  moreover have "(of_nat (m mod n) + 1 :: uint32) = of_nat (Suc (m mod n))" by simp
  ultimately have "unat (of_nat (m mod n) + 1 :: uint32) = Suc (m mod n)" by metis
  then show ?thesis unfolding next_index_def assms(1) [symmetric] by (simp add: mod_Suc_eq)
qed

lemma round_robin:
  assumes "l < n" "k < n"
  shows "Suc (l + k) mod n = l \<longleftrightarrow> Suc k = n"
proof (cases "Suc (l + k) < n")
  case False
  then have "Suc (l + k) mod n = Suc (l + k) - n" using assms by (simp add: mod_if)
  then show ?thesis using assms False by auto
qed (use assms in auto)

definition inst_full :: "config \<Rightarrow> bpm \<Rightarrow> bool" where
  "inst_full cfg s \<longleftrightarrow> NewPgImp cfg s = Some (None, s) \<and> pool_size s \<le> card {q. 0 < pins s q}"

lemma NewPgImp_full_or:
  assumes "pool_ok cfg s" "can_new cfg s"
  obtains "inst_full cfg s" | p f s' where "NewPgImp cfg s = Some (Some (p, f), s')"
  using NewPgImp_spec [OF assms] unfolding inst_full_def by blast

lemma new_page_loop_result:
  assumes ok: "par_ok cfg P" and can: "par_can_new cfg P"
  defines "n \<equiv> length (bpmis P)" and "l \<equiv> unat (last_alloc_index P)"
  shows "k + m = n \<Longrightarrow> 0 < m \<Longrightarrow>
    (\<exists>i p f s'. i < n \<and> NewPgImp cfg (bpmis P ! i) = Some (Some (p, f), s') \<and>
       new_page_loop m cfg P (of_nat ((l + k) mod n)) =
         Some (Some (p, (i, f)), (put_instance i s' P)\<lparr>last_alloc_index := next_index P (last_alloc_index P)\<rparr>)) \<or>
    new_page_loop m cfg P (of_nat ((l + k) mod n)) =
      Some (None, P\<lparr>last_alloc_index := next_index P (last_alloc_index P)\<rparr>) \<and>
    (\<forall>j. k \<le> j \<and> j < n \<longrightarrow> inst_full cfg (bpmis P ! ((l + j) mod n)))"
proof (induction m arbitrary: k)
  case (Suc m)
  note o = par_okD [OF ok]
  have n: "0 < n" "n < 2 ^ 32" "l < n" using o by (simp_all add: n_def l_def)
  let ?i = "(l + k) mod n"
  have i: "?i < n" using n by simp
  have ui: "unat (of_nat ?i :: uint32) = ?i" by (rule unat_of_nat_small) (use i n(2) in simp)
  have io: "pool_ok cfg (bpmis P ! ?i)" "can_new cfg (bpmis P ! ?i)"
    using o(5) [of ?i] can i by (simp_all add: inst_ok_def par_can_new_def heap_room_def n_def)
  have nx: "next_index P (of_nat ?i) = of_nat (Suc (l + k) mod n)"
    by (rule next_index_step [OF _ n(1,2)]) (simp add: n_def)
  have last: "(of_nat (Suc (l + k) mod n) :: uint32) = last_alloc_index P \<longleftrightarrow> Suc k = n"
  proof -
    have "unat (of_nat (Suc (l + k) mod n) :: uint32) = Suc (l + k) mod n"
      by (rule unat_of_nat_small) (use n in \<open>simp add: less_trans [OF mod_less_divisor]\<close>)
    then have "(of_nat (Suc (l + k) mod n) :: uint32) = last_alloc_index P \<longleftrightarrow> Suc (l + k) mod n = l"
      by (metis l_def word_unat_eq_iff)
    then show ?thesis using round_robin [OF n(3), of k] Suc.prems by simp
  qed
  from io show ?case
  proof (cases rule: NewPgImp_full_or)
    case 2
    then show ?thesis using i ui by (intro disjI1 exI [of _ ?i]) (auto simp: n_def [symmetric] Let_def next_index_def)
  next
    case 1
    then have full: "NewPgImp cfg (bpmis P ! ?i) = Some (None, bpmis P ! ?i)" by (simp add: inst_full_def)
    have self: "put_instance ?i (bpmis P ! ?i) P = P" by (rule put_self [OF ok]) (use i in \<open>simp add: n_def\<close>)
    have step: "new_page_loop (Suc m) cfg P (of_nat ?i) =
        (if Suc k \<noteq> n then new_page_loop m cfg P (of_nat ((l + Suc k) mod n))
         else Some (None, P\<lparr>last_alloc_index := next_index P (last_alloc_index P)\<rparr>))"
      using full ui last by (simp add: n_def [symmetric] self nx Let_def)
    have more: "\<forall>j. k \<le> j \<and> j < n \<longrightarrow> inst_full cfg (bpmis P ! ((l + j) mod n))"
      if "\<forall>j. Suc k \<le> j \<and> j < n \<longrightarrow> inst_full cfg (bpmis P ! ((l + j) mod n))"
      using that 1 by (metis Suc_leI le_neq_implies_less)
    show ?thesis
    proof (cases "Suc k = n")
      case True
      then have "\<forall>j. k \<le> j \<and> j < n \<longrightarrow> inst_full cfg (bpmis P ! ((l + j) mod n))" by (intro more) auto
      then show ?thesis unfolding step using True by simp
    next
      case False
      then have m: "Suc k + m = n" "0 < m" using Suc.prems by auto
      from Suc.IH [OF m] False show ?thesis unfolding step using more by (elim disjE) auto
    qed
  qed
qed simp

lemma last_alloc_index_simps [simp]:
  "home (P\<lparr>last_alloc_index := x\<rparr>) = home P" "par_content cfg (P\<lparr>last_alloc_index := x\<rparr>) = par_content cfg P"
  "par_held (P\<lparr>last_alloc_index := x\<rparr>) = par_held P" "par_at (P\<lparr>last_alloc_index := x\<rparr>) = par_at P"
  "par_alloc (P\<lparr>last_alloc_index := x\<rparr>) = par_alloc P" "par_clean cfg (P\<lparr>last_alloc_index := x\<rparr>) = par_clean cfg P"
  by (simp_all add: fun_eq_iff par_defs home_def)

lemma unat_of_nat_mod: "0 < n \<Longrightarrow> n < 2 ^ 32 \<Longrightarrow> unat (of_nat (k mod n) :: uint32) < n"
proof -
  assume n: "0 < n" "n < 2 ^ 32"
  have "k mod n < n" by (rule mod_less_divisor [OF n(1)])
  moreover have "unat (of_nat (k mod n) :: uint32) \<le> k mod n" by (simp only: unat_of_nat mod_less_eq_dividend)
  ultimately show ?thesis by (rule le_less_trans [rotated])
qed

lemma par_ok_index:
  assumes ok: "par_ok cfg P" and y: "unat y < length (bpmis P)"
  shows "par_ok cfg (P\<lparr>last_alloc_index := y\<rparr>)"
proof -
  have "inst_ok cfg (P\<lparr>last_alloc_index := y\<rparr>) i s = inst_ok cfg P i s" for i s by (simp add: inst_ok_def)
  then show ?thesis using y par_okD [OF ok] by (simp add: par_ok_def)
qed

lemma par_ok_next: "par_ok cfg P \<Longrightarrow> par_ok cfg (P\<lparr>last_alloc_index := next_index P x\<rparr>)"
  by (rule par_ok_index) (simp only: next_index_def unat_of_nat_mod [OF par_okD(2,3)])+

text \<open>A new page comes from some instance, and there is none only when every frame of every instance is held.\<close>

lemma Parallel_new_page_loop:
  assumes ok: "par_ok cfg P" and can: "par_can_new cfg P"
  shows "(\<exists>i p f s'. i < length (bpmis P) \<and> NewPgImp cfg (bpmis P ! i) = Some (Some (p, f), s') \<and>
      Parallel_NewPgImp cfg P =
        Some (Some (p, (i, f)), (put_instance i s' P)\<lparr>last_alloc_index := next_index P (last_alloc_index P)\<rparr>)) \<or>
    Parallel_NewPgImp cfg P = Some (None, P\<lparr>last_alloc_index := next_index P (last_alloc_index P)\<rparr>) \<and>
    (\<forall>i<length (bpmis P). inst_full cfg (bpmis P ! i))"
proof -
  let ?n = "length (bpmis P)" and ?l = "unat (last_alloc_index P)"
  note o = par_okD [OF ok]
  have "(of_nat ((?l + 0) mod ?n) :: uint32) = last_alloc_index P" using o(4) by simp
  moreover have "\<forall>i<?n. inst_full cfg (bpmis P ! i)"
    if "\<forall>j. 0 \<le> j \<and> j < ?n \<longrightarrow> inst_full cfg (bpmis P ! ((?l + j) mod ?n))"
  proof (intro allI impI)
    fix i assume i: "i < ?n"
    have "(?l + (i + (?n - ?l)) mod ?n) mod ?n = (?l + (i + (?n - ?l))) mod ?n" by (rule mod_add_right_eq)
    also have "\<dots> = i" using i o(4) by simp
    finally have "(?l + (i + (?n - ?l)) mod ?n) mod ?n = i" .
    moreover have "(i + (?n - ?l)) mod ?n < ?n" using o(2) by simp
    ultimately show "inst_full cfg (bpmis P ! i)" using that by (metis le0)
  qed
  ultimately show ?thesis
    using new_page_loop_result [OF ok can, of 0 ?n] o(1,2) by (auto simp: Parallel_NewPgImp_def)
qed

lemma all_full:
  assumes ok: "par_ok cfg P" and full: "\<forall>i<length (bpmis P). inst_full cfg (bpmis P ! i)"
  shows "GetPoolSize P \<le> card {q. 0 < par_held P q}"
proof -
  let ?H = "\<lambda>i. {q. 0 < par_held P q \<and> home P q = i}"
  have "{q. 0 < par_held P q} = (\<Union>i<length (bpmis P). ?H i)" using home_lt [OF par_okD(1) [OF ok]] by auto
  then have "card {q. 0 < par_held P q} = (\<Sum>i<length (bpmis P). card (?H i))"
    by (simp add: card_UN_disjoint disjoint_iff)
  moreover have "instance_size P \<le> card (?H i)" if "i < length (bpmis P)" for i
    using full that inst_held [OF ok that] par_okD(5) [OF ok that] by (auto simp: inst_full_def inst_ok_def)
  then have "(\<Sum>i<length (bpmis P). instance_size P) \<le> (\<Sum>i<length (bpmis P). card (?H i))" by (intro sum_mono) simp
  ultimately show ?thesis by (simp add: GetPoolSize_def)
qed

lemma Parallel_new_spec:
  assumes ok: "par_ok cfg P" and can: "par_can_new cfg P"
  shows "(\<exists>P'. Parallel_NewPgImp cfg P = Some (None, P')) \<and> GetPoolSize P \<le> card {q. 0 < par_held P q} \<or>
      (\<exists>p f P'. Parallel_NewPgImp cfg P = Some (Some (p, f), P') \<and> par_ok cfg P' \<and> instance_size P' = instance_size P \<and>
         \<not> par_alloc P p \<and> par_alloc P' p \<and> par_at P' p = Some f \<and> parallel_get P' f = replicate (PAGE_SIZE cfg) 0 \<and>
         (par_content cfg P)(p \<mapsto> replicate (PAGE_SIZE cfg) 0) \<subseteq>\<^sub>m par_content cfg P' \<and>
         par_held P' = (par_held P)(p := 1) \<and> p \<noteq> INVALID_PAGE_ID cfg \<and>
         (\<forall>q. (par_alloc P q \<longrightarrow> par_alloc P' q) \<and> (0 < par_held P q \<longrightarrow> par_at P' q = par_at P q) \<and>
              (q \<noteq> p \<and> par_clean cfg P q \<longrightarrow> par_clean cfg P' q)))"
  using Parallel_new_page_loop [OF assms]
proof (elim disjE exE conjE)
  assume "\<forall>i<length (bpmis P). inst_full cfg (bpmis P ! i)"
    "Parallel_NewPgImp cfg P = Some (None, P\<lparr>last_alloc_index := next_index P (last_alloc_index P)\<rparr>)"
  then show ?thesis using all_full [OF ok] by blast
next
  fix i p f s'
  assume i: "i < length (bpmis P)" and n: "NewPgImp cfg (bpmis P ! i) = Some (Some (p, f), s')"
    and res: "Parallel_NewPgImp cfg P =
        Some (Some (p, (i, f)), (put_instance i s' P)\<lparr>last_alloc_index := next_index P (last_alloc_index P)\<rparr>)"
  let ?s = "bpmis P ! i"
  have io: "pool_ok cfg ?s" "owned ?s" "can_new cfg ?s" "heap_room cfg ?s" "pool_size ?s = instance_size P"
    using par_okD(5) [OF ok i] can i by (simp_all add: inst_ok_def par_can_new_def heap_room_def)
  from NewPgImp_spec [OF io(1,3)] n have S: "pool_ok cfg s'" "pool_size s' = pool_size ?s" "\<not> allocated ?s p" "allocated s' p"
    "page_table s' p = Some f" "read_frame s' f = replicate (PAGE_SIZE cfg) 0"
    "(view cfg ?s)(p \<mapsto> replicate (PAGE_SIZE cfg) 0) \<subseteq>\<^sub>m view cfg s'" "pins s' = (pins ?s)(p := 1)"
    "\<And>q. (allocated ?s q \<longrightarrow> allocated s' q) \<and> (0 < pins ?s q \<longrightarrow> page_table s' q = page_table ?s q) \<and>
            (q \<noteq> p \<and> saved cfg ?s q \<longrightarrow> saved cfg s' q)" by auto
  note st = NewPgImp_step [OF io(1,3,2) n]
  have hp: "home P p = i" using owner_home [OF ok i small_page_id(3) [OF S(1,4)]] st(2) by simp
  have mv: "moves cfg P (home P p) s'" using ok i S(1,2) io(5) st(1) by (simp add: moves_def hp)
  note at = move_home [OF i hp]
  let ?P = "put_instance i s' P"
  have ci: "par_ok cfg ?P" using move_ok [OF mv] by (simp add: hp)
  have cont: "(par_content cfg P)(p \<mapsto> replicate (PAGE_SIZE cfg) 0) \<subseteq>\<^sub>m par_content cfg ?P"
  proof (unfold map_le_def, intro ballI)
    fix q assume "q \<in> dom ((par_content cfg P)(p \<mapsto> replicate (PAGE_SIZE cfg) 0))"
    then obtain x where x: "((par_content cfg P)(p \<mapsto> replicate (PAGE_SIZE cfg) 0)) q = Some x" by blast
    have "par_content cfg ?P q = Some x"
    proof (cases "home P q = i")
      case True
      have "((view cfg ?s)(p \<mapsto> replicate (PAGE_SIZE cfg) 0)) q = Some x" using x True by (auto simp: par_content_def)
      then have "view cfg s' q = Some x" by (rule map_leD [OF S(7)])
      then show ?thesis by (simp add: move_home [OF i True])
    next
      case False
      then have "q \<noteq> p" using hp by blast
      then have "par_content cfg P q = Some x" using x by simp
      then show ?thesis using move_away(1) [OF mv, of q] False by (simp add: hp)
    qed
    then show "((par_content cfg P)(p \<mapsto> replicate (PAGE_SIZE cfg) 0)) q = par_content cfg ?P q" using x by simp
  qed
  have held: "par_held ?P = (par_held P)(p := 1)" using move_held [OF mv, of 1] S(8) by (simp add: hp)
  have pages: "(par_alloc P q \<longrightarrow> par_alloc ?P q) \<and> (0 < par_held P q \<longrightarrow> par_at ?P q = par_at P q) \<and>
      (q \<noteq> p \<and> par_clean cfg P q \<longrightarrow> par_clean cfg ?P q)" for q
    using move_page(1,2) [OF mv, of q] move_page(3) [OF mv, where C = "q \<noteq> p" and q = q] S(9) [of q] by (simp add: hp)
  have "p \<noteq> INVALID_PAGE_ID cfg" by (rule new_page_valid [OF io(1,4) n])
  moreover have "par_ok cfg (?P\<lparr>last_alloc_index := next_index P (last_alloc_index P)\<rparr>)"
    using par_ok_next [OF ci, of "last_alloc_index P"] by (simp add: next_index_def)
  moreover have "parallel_get (?P\<lparr>last_alloc_index := next_index P (last_alloc_index P)\<rparr>) (i, f) = replicate (PAGE_SIZE cfg) 0"
    using S(6) i by (simp add: parallel_get_def read_frame_def)
  moreover have "\<not> par_alloc P p" "par_alloc ?P p" "par_at ?P p = Some (i, f)" using S(3-5) by (simp_all add: at)
  ultimately show ?thesis using res cont held pages by (intro disjI2) fastforce
qed

subsection \<open>The parallel pool keeps the contract\<close>

lemma put_room:
  assumes "i < length (bpmis P)" and "par_can_new cfg P" and "heap_room cfg s' = heap_room cfg (bpmis P ! i)"
  shows "par_can_new cfg (put_instance i s' P)"
proof -
  have "heap_room cfg (bpmis (put_instance i s' P) ! j)" if j: "j < length (bpmis P)" for j
    using assms j by (cases "j = i") (simp_all add: put_instance_other par_can_new_def heap_room_def can_new_def)
  then show ?thesis by (simp add: par_can_new_def)
qed

lemma Parallel_fetch_can_new:
  assumes ok: "par_ok cfg P" and al: "par_alloc P p" and can: "par_can_new cfg P"
    and f: "Parallel_FetchPgImp cfg P p = Some (r, P')"
  shows "par_can_new cfg P'"
proof -
  note R = route [OF ok, of p]
  let ?s = "inst P p"
  obtain g s' where g: "FetchPgImp cfg ?s p = Some (g, s')" "P' = put_instance (home P p) s' P"
    using f R(1) by (auto simp: Parallel_FetchPgImp_def bind_eq_Some_conv)
  have a: "allocated ?s p" using al by (simp add: par_alloc_def)
  have "next_page_id s' = next_page_id ?s \<and> num_instances s' = num_instances ?s"
    using pool_okD(1) [OF R(3)] a g(1)
    by (cases rule: FetchPgImp_cases) (auto simp: install_def fresh_simps)
  then have "heap_room cfg s' = heap_room cfg ?s" by (intro heap_room_keep) auto
  then show ?thesis unfolding g(2) by (rule put_room [OF R(2) can])
qed

lemma Parallel_unpin_can_new:
  assumes ok: "par_ok cfg P" and can: "par_can_new cfg P" and u: "Parallel_UnpinPgImp cfg P p d = Some (b, P')"
  shows "par_can_new cfg P'"
proof -
  note R = route [OF ok, of p]
  let ?s = "inst P p"
  obtain s' where g: "UnpinPgImp cfg ?s p d = Some (b, s')" "P' = put_instance (home P p) s' P"
    using u R(1) by (auto simp: Parallel_UnpinPgImp_def bind_eq_Some_conv)
  have "next_page_id s' = next_page_id ?s \<and> num_instances s' = num_instances ?s"
    using pool_okD(1) [OF R(3)] g(1) by (cases rule: UnpinPgImp_cases [of cfg ?s p d]) auto
  then have "heap_room cfg s' = heap_room cfg ?s" by (intro heap_room_keep) auto
  then show ?thesis unfolding g(2) by (rule put_room [OF R(2) can])
qed

text \<open>With no instance the contract does not hold; \<open>par_ok\<close> says that there is one, and that its frames have bytes.\<close>

interpretation par: page_pool "Parallel_NewPgImp cfg" "Parallel_FetchPgImp cfg" "Parallel_UnpinPgImp cfg"
  "Parallel_FlushPgImp cfg" parallel_get parallel_put "PAGE_SIZE cfg" "par_ok cfg" "par_can_new cfg" par_alloc
  "par_content cfg" par_held par_at "par_clean cfg" instance_size "INVALID_PAGE_ID cfg" for cfg
proof (unfold_locales, goal_cases)
  case (1 P)
  have "instance_size P \<le> GetPoolSize P" using par_okD(2) [OF 1(1)] by (cases "length (bpmis P)") (auto simp: GetPoolSize_def)
  from Parallel_new_spec [OF 1] this show ?case by (elim disjE) (use le_trans in blast)+
next
  case (2 P p x)
  then show ?case by (rule Parallel_fetch_spec)
next
  case (3 P p f x)
  then show ?case by (rule parallel_put_spec)
next
  case (4 P p d)
  then show ?case by (rule Parallel_unpin_spec)
next
  case (5 P p)
  then show ?case by (rule Parallel_flush_spec)
next
  case (6 P p x)
  then show ?case using view_length [OF pool_okD(1) [OF route(3) [OF 6(1)]]] by (simp add: par_content_def)
next
  case (7 P p f)
  then show ?case by (auto simp: par_at_def par_content_def parallel_get_def view_def)
next
  case (8 P p)
  then show ?case by (auto simp: par_held_def par_at_def pins_def split: option.splits)
next
  case (9 P)
  then show ?case using route(3,5) [OF 9] pool_okD(5) by metis
next
  case (10 P p f P')
  then show ?case using Parallel_new_spec [OF 10(1,2)] by auto
next
  case (11 P p r P')
  then show ?case by (rule Parallel_fetch_can_new)
next
  case (12 P p d b P')
  then show ?case by (rule Parallel_unpin_can_new)
next
  case (13 P f x)
  obtain i g where f: "f = (i, g)" by (cases f)
  have "heap_room cfg (write_frame s g x) = heap_room cfg s" for s by (rule heap_room_keep) (auto simp: write_frame_def)
  with 13 show ?case by (cases "i < length (bpmis P)") (auto simp: f parallel_put_def par_can_new_def nth_list_update)
qed

subsection \<open>A new pool\<close>

context buffer_pool
begin

text \<open>A client that asks for a page and gives it back has a zeroed page of its own.\<close>

lemma new_and_unpin:
  assumes ok: "ok s" and cn: "can_new s" and h: "held s = (\<lambda>_. 0)"
  shows "\<exists>p f s1 s2. new_page s = Some (Some (p, f), s1) \<and> unpin s1 p True = Some (True, s2) \<and> ok s2 \<and>
    held s2 = (\<lambda>_. 0) \<and> alloc s2 p \<and> (content s)(p \<mapsto> replicate psize 0) \<subseteq>\<^sub>m content s2 \<and> (\<forall>q. alloc s q \<longrightarrow> alloc s2 q)"
proof -
  from new_page_spec [OF ok cn] h cap_pos [OF ok] obtain p f s1 where
    1: "new_page s = Some (Some (p, f), s1)" "ok s1" "alloc s1 p" "held s1 = (\<lambda>_. 0)(p := 1)"
      "(content s)(p \<mapsto> replicate psize 0) \<subseteq>\<^sub>m content s1" "\<forall>q. alloc s q \<longrightarrow> alloc s1 q" by auto
  from unpin_spec [OF 1(2), of p True] 1(4) obtain s2 where
    2: "unpin s1 p True = Some (True, s2)" "ok s2" "content s1 \<subseteq>\<^sub>m content s2" "held s2 = (\<lambda>_. 0)" "alloc s2 = alloc s1"
    by (auto simp: fun_upd_idem)
  show ?thesis using 1 2 map_le_trans [OF 1(5) 2(3)] by auto
qed

end

lemma create_instances_spec:
  "create_instances cfg n psize d is = Some ss \<Longrightarrow> length ss = length is \<and>
     (\<forall>j<length is. BufferPoolManagerInstance cfg psize (of_nat n) (of_nat (is ! j)) d = Some (ss ! j))"
proof (induction "is" arbitrary: ss)
  case (Cons i "is")
  then obtain s rest where "BufferPoolManagerInstance cfg psize (of_nat n) (of_nat i) d = Some s"
    "create_instances cfg n psize d is = Some rest" "ss = s # rest" by (auto simp: bind_eq_Some_conv)
  with Cons.IH show ?case by (auto simp: nth_Cons split: nat.splits)
qed simp

lemma new_instance: "BufferPoolManagerInstance cfg psize n idx d = Some s \<Longrightarrow> page_table s = Map.empty \<and> disk s = d"
  by (auto simp: BufferPoolManagerInstance_def crash_simps)

lemma constructor_par_ok:
  assumes P: "ParallelBufferPoolManager cfg n psize d = Some P" and d: "disk_inv d"
    and n: "0 < n" "n < 2 ^ 32" and sz: "0 < psize" "0 < PAGE_SIZE cfg" "n * PAGE_SIZE cfg < 2 ^ 31"
  shows "par_ok cfg P" "par_held P = (\<lambda>_. 0)" "length (bpmis P) = n" "instance_size P = psize"
proof -
  obtain ss where ss: "create_instances cfg n psize d [0..<n] = Some ss" "P = \<lparr>bpmis = ss, last_alloc_index = 0, instance_size = psize\<rparr>"
    using P by (auto simp: ParallelBufferPoolManager_def bind_eq_Some_conv)
  note C = create_instances_spec [OF ss(1)]
  have i: "inst_ok cfg P i (ss ! i) \<and> pins (ss ! i) = (\<lambda>_. 0)" if "i < n" for i
  proof -
    have e: "BufferPoolManagerInstance cfg psize (of_nat n) (of_nat j) d = Some (ss ! j)" if "j < n" for j
      using C that by simp
    have u: "unat (of_nat i :: uint32) = i" by (rule unat_of_nat_small) (use \<open>i < n\<close> n(2) in simp)
    have "i * PAGE_SIZE cfg < 2 ^ 31" by (rule le_less_trans [OF _ sz(3)]) (use \<open>i < n\<close> in simp)
    with constructor_pool_ok [OF e [OF \<open>i < n\<close>] d sz(1,2)] u
    have k: "pool_ok cfg (ss ! i)" "pins (ss ! i) = (\<lambda>_. 0)" by simp_all
    have s: "page_table (ss ! j) = Map.empty" "disk (ss ! j) = d" if "j < n" for j
      using new_instance [OF e [OF that]] by simp_all
    show ?thesis
      using k constructor_inv [OF e [OF \<open>i < n\<close>]] s [OF \<open>i < n\<close>] s [OF n(1)] C
      by (simp add: inst_ok_def owned_def ss(2))
  qed
  show l: "length (bpmis P) = n" and "instance_size P = psize" using C ss(2) by simp_all
  show "par_ok cfg P" using i n l ss(2) by (auto simp: par_ok_def)
  show "par_held P = (\<lambda>_. 0)"
  proof
    fix p show "par_held P p = 0"
      using i [of "home P p"] home_lt [of P p] n(1) l ss(2) by (auto simp: par_held_def)
  qed
qed

subsection \<open>Properties\<close>

abbreviation parallel_ops :: "config \<Rightarrow> (parallel_pool, nat \<times> frame_id_t) pool_ops" where
  "parallel_ops cfg \<equiv> ops_of (Parallel_NewPgImp cfg) (Parallel_FetchPgImp cfg) (Parallel_UnpinPgImp cfg) parallel_get parallel_put"

text \<open>C13. Routing pages to instances is invisible: while clients fetch a page of the parallel pool, access it and unpin
  it, every call returns what a plain map from page numbers to bytes returns.\<close>

theorem parallel_pool_transparent:
  assumes "par_ok cfg P" and "par_held P = (\<lambda>_. 0)"
    and "\<forall>op \<in> set ops. par_alloc P (client_page op) \<and> client_page op \<in> dom (par_content cfg P) \<and>
           op_sized (PAGE_SIZE cfg) op"
  shows "\<exists>outs P' m.
    run_ops (client_step (Parallel_FetchPgImp cfg) (Parallel_UnpinPgImp cfg) (Parallel_FlushPgImp cfg) parallel_get parallel_put)
      P ops = Some (outs, P') \<and>
    run_ops (\<lambda>m op. Some (mem_step m op)) (par_content cfg P) ops = Some (outs, m) \<and>
    par_ok cfg P' \<and> m \<subseteq>\<^sub>m par_content cfg P' \<and> par_held P' = (\<lambda>_. 0)"
  using par.run_refines [OF assms(1) _ _ assms(2), of ops "par_content cfg P"] assms(3) by (simp add: map_le_def)

text \<open>C23. A new page is refused only when as many pages are in use as all instances have frames; otherwise the search
  finds a frame, however the round-robin starts, and the page has a new number, is zeroed and pinned once.\<close>

theorem Parallel_NewPgImp_result:
  assumes "par_ok cfg P" and "par_can_new cfg P"
  shows "(\<exists>P'. Parallel_NewPgImp cfg P = Some (None, P')) \<and> GetPoolSize P \<le> card {q. 0 < par_held P q} \<or>
    (\<exists>p f P'. Parallel_NewPgImp cfg P = Some (Some (p, f), P') \<and> par_ok cfg P' \<and> \<not> par_alloc P p \<and>
       parallel_get P' f = replicate (PAGE_SIZE cfg) 0 \<and> par_held P' = (par_held P)(p := 1) \<and>
       (par_content cfg P)(p \<mapsto> replicate (PAGE_SIZE cfg) 0) \<subseteq>\<^sub>m par_content cfg P')"
  using Parallel_new_spec [OF assms] by (elim disjE) blast+

text \<open>C24. A table kept in a parallel pool: a tuple that fits in a page is inserted, and its identifier reads it back.\<close>

theorem parallel_table_roundtrip:
  assumes "par_ok cfg P" "par_held P = (\<lambda>_. 0)" "2 \<le> instance_size P" "par_can_new cfg P"
    and "heap_ok cfg (par_content cfg P) (par_alloc P) th ps" "length ps < fuel" "PAGE_SIZE cfg < 2 ^ 31"
    and "0 < size_of t" "unat (size_of t) = length (data_of t)" "length (data_of t) + 32 \<le> PAGE_SIZE cfg"
  shows "\<exists>rid txn1 P1 P2. TableHeap_InsertTuple fuel (parallel_ops cfg) cfg th P txn t = Some (Some rid, txn1, P1) \<and>
    TableHeap_GetTuple (parallel_ops cfg) P1 txn1 rid = Some (Some (t\<lparr>rid_of := rid\<rparr>), txn1, P2) \<and>
    par_ok cfg P2 \<and> par_held P2 = (\<lambda>_. 0)"
proof -
  from par.InsertTuple_heap [OF assms(1,2,5,3,4,6) refl assms(7) refl assms(8-10), of txn] obtain rid txn1 P1 ps' where
    1: "TableHeap_InsertTuple fuel (parallel_ops cfg) cfg th P txn t = Some (Some rid, txn1, P1)" "par_ok cfg P1"
      "par_held P1 = (\<lambda>_. 0)" "heap_ok cfg (par_content cfg P1) (par_alloc P1) th ps'"
      "heap_tuples (par_content cfg P1) ps' rid = Some (False, data_of t)" by auto
  have "page_id_of rid \<in> set ps'" using 1(5) by (auto simp: heap_tuples_def split: if_splits)
  from par.GetTuple_heap [OF 1(2-4) this, of txn1] 1(5) obtain P2 where
    2: "TableHeap_GetTuple (parallel_ops cfg) P1 txn1 rid =
          Some (Some \<lparr>size_of = of_nat (length (data_of t)), data_of = data_of t, rid_of = rid\<rparr>, txn1, P2)"
      "par_ok cfg P2" "par_held P2 = (\<lambda>_. 0)" by auto
  have "of_nat (length (data_of t)) = size_of t" unfolding assms(9) [symmetric] by simp
  then have "\<lparr>size_of = of_nat (length (data_of t)), data_of = data_of t, rid_of = rid\<rparr> = t\<lparr>rid_of := rid\<rparr>" by simp
  with 1(1) 2 show ?thesis by auto
qed

subsection \<open>A concrete pool\<close>

definition parallel_example :: parallel_pool where
  "parallel_example = the (ParallelBufferPoolManager page_cfg 2 2 empty_disk)"

lemma parallel_room: "(\<forall>s\<in>set (bpmis P). next_page_id s < 16 \<and> num_instances s = 2) \<Longrightarrow> par_can_new page_cfg P"
proof -
  have "heap_room page_cfg s" if a: "next_page_id s < 16" "num_instances s = 2" for s
  proof -
    have "unat (next_page_id s) < 16" using a(1) by (simp add: word_less_nat_alt)
    moreover have "unat (- 1 :: page_id_t) = 2 ^ 32 - 1" by (simp add: unsigned_minus_1_eq_mask mask_eq_exp_minus_1)
    ultimately show ?thesis unfolding heap_room_def can_new_def a(2) page_cfg_def by simp
  qed
  then show "(\<forall>s\<in>set (bpmis P). next_page_id s < 16 \<and> num_instances s = 2) \<Longrightarrow> par_can_new page_cfg P"
    by (simp add: par_can_new_def)
qed

lemma parallel_example_ok:
  "par_ok page_cfg parallel_example" "par_held parallel_example = (\<lambda>_. 0)" "par_can_new page_cfg parallel_example"
  "instance_size parallel_example = 2" "length (bpmis parallel_example) = 2"
proof -
  have "ParallelBufferPoolManager page_cfg 2 2 empty_disk \<noteq> None" by code_simp
  then have "ParallelBufferPoolManager page_cfg 2 2 empty_disk = Some parallel_example"
    by (auto simp: parallel_example_def)
  note C = constructor_par_ok [OF this]
  show "par_ok page_cfg parallel_example" "par_held parallel_example = (\<lambda>_. 0)" "instance_size parallel_example = 2"
    "length (bpmis parallel_example) = 2"
    by (rule C; simp add: page_cfg_def empty_disk_def disk_inv_def)+
  have "list_all (\<lambda>s. next_page_id s < 16 \<and> num_instances s = 2) (bpmis parallel_example)" by code_simp
  then show "par_can_new page_cfg parallel_example" by (intro parallel_room) (simp add: list_all_iff)
qed

definition parallel_page :: "config \<Rightarrow> parallel_pool \<Rightarrow> (page_id_t \<times> parallel_pool) option" where
  "parallel_page cfg P = do {
     (r, P) \<leftarrow> Parallel_NewPgImp cfg P;
     (p, f) \<leftarrow> r;
     (b, P) \<leftarrow> Parallel_UnpinPgImp cfg P p True;
     Some (p, P)
   }"

lemma parallel_page_spec:
  assumes ok: "par_ok cfg P" "par_can_new cfg P" "par_held P = (\<lambda>_. 0)"
  obtains p P' where "parallel_page cfg P = Some (p, P')" "par_ok cfg P'" "par_held P' = (\<lambda>_. 0)" "par_alloc P' p"
    "(par_content cfg P)(p \<mapsto> replicate (PAGE_SIZE cfg) 0) \<subseteq>\<^sub>m par_content cfg P'" "\<And>q. par_alloc P q \<Longrightarrow> par_alloc P' q"
  using par.new_and_unpin [OF assms] by (auto simp: parallel_page_def)

text \<open>Two pages of the same pool, in two instances.\<close>

lemma two_parallel_pages:
  obtains P where "par_ok page_cfg P" "par_held P = (\<lambda>_. 0)" "par_alloc P 0" "par_alloc P 1"
    "0 \<in> dom (par_content page_cfg P)" "1 \<in> dom (par_content page_cfg P)"
proof -
  note E = parallel_example_ok
  obtain p P1 where 1: "parallel_page page_cfg parallel_example = Some (p, P1)" "par_ok page_cfg P1"
    "par_held P1 = (\<lambda>_. 0)" "par_alloc P1 p"
    "(par_content page_cfg parallel_example)(p \<mapsto> replicate (PAGE_SIZE page_cfg) 0) \<subseteq>\<^sub>m par_content page_cfg P1"
    using parallel_page_spec [OF E(1,3,2)] by metis
  have "map_option (\<lambda>(p, P). p = 0 \<and> list_all (\<lambda>s. next_page_id s < 16 \<and> num_instances s = 2) (bpmis P) \<and>
      map_option fst (parallel_page page_cfg P) = Some 1) (parallel_page page_cfg parallel_example) = Some True"
    by code_simp
  then have c: "p = 0" "par_can_new page_cfg P1" "map_option fst (parallel_page page_cfg P1) = Some 1"
    using 1(1) by (auto simp: list_all_iff intro: parallel_room)
  obtain q P2 where 2: "parallel_page page_cfg P1 = Some (q, P2)" "par_ok page_cfg P2"
    "par_held P2 = (\<lambda>_. 0)" "par_alloc P2 q" "par_alloc P1 p \<Longrightarrow> par_alloc P2 p"
    "(par_content page_cfg P1)(q \<mapsto> replicate (PAGE_SIZE page_cfg) 0) \<subseteq>\<^sub>m par_content page_cfg P2"
    using parallel_page_spec [OF 1(2) c(2) 1(3)] by metis
  have q: "q = 1" using c(3) 2(1) by simp
  have "0 \<in> dom (par_content page_cfg P1)" using map_leD [OF 1(5), of 0] c(1) by auto
  then have "0 \<in> dom (par_content page_cfg P2)" using map_leD [OF 2(6), of 0] q by auto
  moreover have "1 \<in> dom (par_content page_cfg P2)" using map_leD [OF 2(6), of 1] q by auto
  ultimately show ?thesis using that 2(2-5) 1(4) c(1) q by blast
qed

theorem parallel_pool_transparent_witness:
  "\<exists>P P'. par_ok page_cfg P \<and>
    run_ops (client_step (Parallel_FetchPgImp page_cfg) (Parallel_UnpinPgImp page_cfg) (Parallel_FlushPgImp page_cfg)
      parallel_get parallel_put) P
      [WriteBytes 0 (replicate 64 1), WriteBytes 1 (replicate 64 2), ReadBytes 0] =
        Some ([Done, Done, Bytes (replicate 64 1)], P') \<and> par_ok page_cfg P'"
proof -
  obtain P where P: "par_ok page_cfg P" "par_held P = (\<lambda>_. 0)" "par_alloc P 0" "par_alloc P 1"
    "0 \<in> dom (par_content page_cfg P)" "1 \<in> dom (par_content page_cfg P)" by (rule two_parallel_pages)
  have o: "\<forall>op \<in> set [WriteBytes 0 (replicate 64 1), WriteBytes 1 (replicate 64 2), ReadBytes 0].
      par_alloc P (client_page op) \<and> client_page op \<in> dom (par_content page_cfg P) \<and> op_sized (PAGE_SIZE page_cfg) op"
    using P by (simp add: page_cfg_def)
  show ?thesis using parallel_pool_transparent [OF P(1,2) o] P(1) by auto
qed

theorem Parallel_NewPgImp_result_witness:
  "\<exists>p f P'. Parallel_NewPgImp page_cfg parallel_example = Some (Some (p, f), P') \<and> par_ok page_cfg P' \<and>
    parallel_get P' f = replicate (PAGE_SIZE page_cfg) 0"
  using Parallel_NewPgImp_result [OF parallel_example_ok(1,3)] parallel_example_ok(2,4,5)
  by (auto simp: GetPoolSize_def)

theorem parallel_table_roundtrip_witness:
  "\<exists>th P rid txn1 P1 P2. TableHeap_create (parallel_ops page_cfg) page_cfg 7 parallel_example = Some (th, P) \<and>
    TableHeap_InsertTuple 2 (parallel_ops page_cfg) page_cfg th P (Transaction page_cfg 0 REPEATABLE_READ) small_tuple =
      Some (Some rid, txn1, P1) \<and>
    TableHeap_GetTuple (parallel_ops page_cfg) P1 txn1 rid = Some (Some (small_tuple\<lparr>rid_of := rid\<rparr>), txn1, P2)"
proof -
  note E = parallel_example_ok
  have "PAGE_SIZE page_cfg < 2 ^ 31" "24 \<le> PAGE_SIZE page_cfg" by (simp_all add: page_cfg_def)
  from par.create_heap [OF E(1,2,3) refl this refl, of 7] E(4) obtain p P where
    P: "TableHeap_create (parallel_ops page_cfg) page_cfg 7 parallel_example = Some (\<lparr>first_page_id = p, this_heap = 7\<rparr>, P)"
    "par_ok page_cfg P" "par_held P = (\<lambda>_. 0)" "instance_size P = 2"
    "heap_ok page_cfg (par_content page_cfg P) (par_alloc P) \<lparr>first_page_id = p, this_heap = 7\<rparr> [p]" by auto
  have "map_option (\<lambda>(th, P). list_all (\<lambda>s. next_page_id s < 16 \<and> num_instances s = 2) (bpmis P))
      (TableHeap_create (parallel_ops page_cfg) page_cfg 7 parallel_example) = Some True" by code_simp
  then have room: "par_can_new page_cfg P" using P(1) by (intro parallel_room) (simp add: list_all_iff)
  have c: "length [p] < 2" "PAGE_SIZE page_cfg < 2 ^ 31" "0 < size_of small_tuple"
    "unat (size_of small_tuple) = length (data_of small_tuple)" "length (data_of small_tuple) + 32 \<le> PAGE_SIZE page_cfg"
    "2 \<le> instance_size P"
    by (simp_all add: page_cfg_def small_tuple_def P(4))
  from parallel_table_roundtrip [OF P(2,3) c(6) room P(5) c(1-5), of "Transaction page_cfg 0 REPEATABLE_READ"] P(1)
  show ?thesis by blast
qed

end
