(* ===== verification/Modifications.thy ===== *)
theory Modifications
  imports QueryExamples
begin

section \<open>Statements that change tables\<close>

text \<open>
  Deletions and updates over a sequential scan of the same table. The scan is one tuple ahead of the statement: it
  has found the next tuple when the statement changes the current one, so it meets every tuple of the table once.
\<close>

subsection \<open>The tuples of a table and the map of its records\<close>

text \<open>A scan enumerates the records of the map \<open>heap_tuples\<close> that are not marked, page by page and slot by slot.\<close>

definition page_slots :: "(rid \<rightharpoonup> bool \<times> bytes) \<Rightarrow> page_id_t \<Rightarrow> nat set" where
  "page_slots T p = {i. i < 2 ^ 32 \<and> (\<exists>bs. T \<lparr>page_id_of = p, slot_num_of = of_nat i\<rparr> = Some (False, bs))}"

definition ordered_rids :: "(rid \<rightharpoonup> bool \<times> bytes) \<Rightarrow> page_id_t list \<Rightarrow> rid list" where
  "ordered_rids T ps = concat (map (\<lambda>p. map (\<lambda>i. \<lparr>page_id_of = p, slot_num_of = of_nat i\<rparr>)
     (sorted_list_of_set (page_slots T p))) ps)"

definition record_tuple :: "(rid \<rightharpoonup> bool \<times> bytes) \<Rightarrow> rid \<Rightarrow> tuple" where
  "record_tuple T r = (let bs = snd (the (T r)) in \<lparr>size_of = of_nat (length bs), data_of = bs, rid_of = r\<rparr>)"

lemma record_tuple_rid [simp]: "rid_of (record_tuple T r) = r"
  by (simp add: record_tuple_def Let_def)

lemma finite_page_slots [simp]: "finite (page_slots T p)"
  unfolding page_slots_def by (rule finite_subset [of _ "{..<2 ^ 32}"]) auto

lemma live_slots_sorted: "live_slots d 0 = sorted_list_of_set {i. live d i}"
proof -
  have "set (live_slots d 0) = {i. live d i}" by (auto simp: live_slots_def live_def)
  moreover have "sorted (live_slots d 0)" "distinct (live_slots d 0)"
    unfolding live_slots_def by (auto intro: sorted_wrt_filter)
  ultimately show ?thesis by (metis sorted_list_of_set.idem_if_sorted_distinct)
qed

lemma live_rids_ordered:
  assumes inv: "\<And>p. p \<in> set ps \<Longrightarrow> table_inv (the (m p)) \<and> word_at (the (m p)) 0 = p"
  shows "live_rids m ps = ordered_rids (heap_tuples m ps) ps"
proof -
  have "page_rids m p = map (\<lambda>i. \<lparr>page_id_of = p, slot_num_of = of_nat i\<rparr>) (sorted_list_of_set (page_slots (heap_tuples m ps) p))"
    if p: "p \<in> set ps" for p
  proof -
    let ?d = "the (m p)"
    note i = inv [OF p]
    have "live ?d i \<longleftrightarrow> i \<in> page_slots (heap_tuples m ps) p" for i
    proof
      assume l: "live ?d i"
      then have c: "i < unat (cnt ?d)" by (simp add: live_def)
      moreover have "unat (cnt ?d) < 2 ^ LENGTH(32)" by (rule unsigned_less)
      ultimately have "i < 2 ^ 32" by simp
      moreover have "unat (of_nat i :: uint32) = i" using unat_slot [of ?d i] i c by simp
      ultimately have "unat (of_nat i :: uint32) = i" "i < 2 ^ 32" by simp_all
      then show "i \<in> page_slots (heap_tuples m ps) p" using p l by (simp add: page_slots_def heap_tuples_def live_iff)
    next
      assume "i \<in> page_slots (heap_tuples m ps) p"
      then show "live ?d i" by (auto simp: page_slots_def heap_tuples_def live_iff unat_of_nat_small split: if_splits)
    qed
    then have "{i. live ?d i} = page_slots (heap_tuples m ps) p" by blast
    then show ?thesis using i by (simp add: page_rids_def live_slots_sorted rid_at_def)
  qed
  then show ?thesis by (simp add: live_rids_def ordered_rids_def cong: map_cong)
qed

lemma stored_record: "page_id_of r \<in> set ps \<Longrightarrow> stored_tuple m r = record_tuple (heap_tuples m ps) r"
  by (simp add: stored_tuple_def record_tuple_def heap_tuples_def)

lemma ordered_rids_in: "r \<in> set (ordered_rids T ps) \<Longrightarrow> page_id_of r \<in> set ps \<and> (\<exists>bs. T r = Some (False, bs))"
  by (auto simp: ordered_rids_def page_slots_def)

text \<open>Marking a record takes it out of the enumeration, changing its bytes keeps its place.\<close>

lemma ordered_rids_mark: "ordered_rids (T(r \<mapsto> (True, bs))) ps = filter (\<lambda>x. x \<noteq> r) (ordered_rids T ps)"
proof -
  let ?rid = "\<lambda>p i. \<lparr>page_id_of = p, slot_num_of = (of_nat i :: uint32)\<rparr>"
  have slots: "page_slots (T(r \<mapsto> (True, bs))) p = {i \<in> page_slots T p. ?rid p i \<noteq> r}" for p
    by (auto simp: page_slots_def)
  have "sorted_list_of_set {i \<in> A. P i} = filter P (sorted_list_of_set A)" if "finite A" for A :: "nat set" and P
  proof (rule sorted_distinct_set_unique)
    show "sorted (filter P (sorted_list_of_set A))" "distinct (filter P (sorted_list_of_set A))" by (auto intro: sorted_wrt_filter)
  qed (use that in auto)
  then show ?thesis by (simp add: ordered_rids_def slots filter_concat filter_map comp_def)
qed

lemma ordered_rids_set:
  assumes "T r = Some (False, bs)"
  shows "ordered_rids (T(r \<mapsto> (False, bs'))) ps = ordered_rids T ps"
proof -
  have "page_slots (T(r \<mapsto> (False, bs'))) p = page_slots T p" for p using assms by (auto simp: page_slots_def)
  then show ?thesis by (simp add: ordered_rids_def)
qed

text \<open>The same for the tuples.\<close>

definition table_tuples :: "(rid \<rightharpoonup> bool \<times> bytes) \<Rightarrow> page_id_t list \<Rightarrow> tuple list" where
  "table_tuples T ps = map (record_tuple T) (ordered_rids T ps)"

lemma record_tuple_other: "x \<noteq> r \<Longrightarrow> record_tuple (T(r := y)) x = record_tuple T x"
  by (simp add: record_tuple_def)

lemma table_tuples_split:
  assumes "table_tuples T ps = as @ t # bs" "distinct (map rid_of (as @ t # bs))"
  shows "ordered_rids T ps = map rid_of as @ rid_of t # map rid_of bs" "rid_of t \<notin> rid_of ` set as" "rid_of t \<notin> rid_of ` set bs"
    "x \<in> set (as @ t # bs) \<Longrightarrow> record_tuple T (rid_of x) = x"
proof -
  have "map rid_of (table_tuples T ps) = ordered_rids T ps" by (simp add: table_tuples_def comp_def)
  then show r: "ordered_rids T ps = map rid_of as @ rid_of t # map rid_of bs" using assms(1) by simp
  show "rid_of t \<notin> rid_of ` set as" "rid_of t \<notin> rid_of ` set bs" using assms(2) by auto
  assume "x \<in> set (as @ t # bs)"
  then have "x \<in> set (table_tuples T ps)" using assms(1) by simp
  then show "record_tuple T (rid_of x) = x" by (auto simp: table_tuples_def)
qed

lemma table_tuples_change:
  assumes "table_tuples T ps = as @ t # bs" "distinct (map rid_of (as @ t # bs))"
  shows "table_tuples (T(rid_of t \<mapsto> (True, x))) ps = as @ bs"
    "table_tuples (T(rid_of t \<mapsto> (False, x))) ps =
       as @ \<lparr>size_of = of_nat (length x), data_of = x, rid_of = rid_of t\<rparr> # bs"
proof -
  note S = table_tuples_split [OF assms]
  have same: "map (record_tuple (T(rid_of t := y))) (map rid_of zs) = zs"
    if sub: "set zs \<subseteq> set (as @ t # bs)" and new: "rid_of t \<notin> rid_of ` set zs" for zs y
  proof -
    have "record_tuple (T(rid_of t := y)) (rid_of z) = z" if z: "z \<in> set zs" for z
      using S(4) [of z] z sub new record_tuple_other [of "rid_of z" "rid_of t"] by (metis image_eqI subsetD)
    then show ?thesis by (simp add: map_idI)
  qed
  have f: "filter (\<lambda>x. x \<noteq> rid_of t) (map rid_of zs) = map rid_of zs" if "rid_of t \<notin> rid_of ` set zs" for zs
    using that unfolding filter_id_conv by (metis list.set_map)
  have "ordered_rids (T(rid_of t \<mapsto> (True, x))) ps = map rid_of (as @ bs)"
    using f [OF S(2)] f [OF S(3)] by (simp add: ordered_rids_mark S(1))
  then show "table_tuples (T(rid_of t \<mapsto> (True, x))) ps = as @ bs"
    using same [of as] same [of bs] S(2,3) by (auto simp: table_tuples_def)
  obtain b where "T (rid_of t) = Some (False, b)" using ordered_rids_in [of "rid_of t" T ps] S(1) by auto
  then have "ordered_rids (T(rid_of t \<mapsto> (False, x))) ps = map rid_of as @ rid_of t # map rid_of bs"
    using ordered_rids_set S(1) by metis
  moreover have "record_tuple (T(rid_of t \<mapsto> (False, x))) (rid_of t) =
      \<lparr>size_of = of_nat (length x), data_of = x, rid_of = rid_of t\<rparr>" by (simp add: record_tuple_def)
  ultimately show "table_tuples (T(rid_of t \<mapsto> (False, x))) ps =
       as @ \<lparr>size_of = of_nat (length x), data_of = x, rid_of = rid_of t\<rparr> # bs"
    using same [of as] same [of bs] S(2,3) by (auto simp: table_tuples_def)
qed

subsection \<open>Changing a tuple of a database with one table\<close>

lemma database_one:
  "database cfg [(th, ps, L)] txn w \<longleftrightarrow> snd w = txn \<and> pool_ok cfg (fst w) \<and> pins (fst w) = (\<lambda>_. 0) \<and> 2 \<le> pool_size (fst w) \<and>
     heap_ok cfg (view cfg (fst w)) (allocated (fst w)) th ps \<and> table_tuples (heap_tuples (view cfg (fst w)) ps) ps = L"
proof -
  have "map (stored_tuple (view cfg s)) (live_rids (view cfg s) ps) = table_tuples (heap_tuples (view cfg s) ps) ps"
    if "heap_ok cfg (view cfg s) (allocated s) th ps" for s
  proof -
    have "live_rids (view cfg s) ps = ordered_rids (heap_tuples (view cfg s) ps) ps"
      by (rule live_rids_ordered) (rule bph.heap_pages(1) [OF that])
    then show ?thesis using ordered_rids_in stored_record by (fastforce simp: table_tuples_def)
  qed
  then show ?thesis by (auto simp: database_def)
qed

lemma database_distinct: "database cfg [(th, ps, L)] txn w \<Longrightarrow> distinct (map rid_of L)"
  using bph.holds_tableD(4) [of cfg cfg "fst w" th ps L] by (simp add: database_def bph.holds_table_def)

lemma database_record:
  assumes "database cfg [(th, ps, as @ t # bs)] txn (s, txn)"
  shows "heap_tuples (view cfg s) ps (rid_of t) = Some (False, data_of t)"
proof -
  have L: "table_tuples (heap_tuples (view cfg s) ps) ps = as @ t # bs" using assms by (simp add: database_one)
  note S = table_tuples_split [OF L database_distinct [OF assms]]
  obtain b where b: "heap_tuples (view cfg s) ps (rid_of t) = Some (False, b)"
    using ordered_rids_in [of "rid_of t" "heap_tuples (view cfg s) ps" ps] S(1) by auto
  have "record_tuple (heap_tuples (view cfg s) ps) (rid_of t) = t" by (rule S(4)) simp
  then have "data_of t = data_of (record_tuple (heap_tuples (view cfg s) ps) (rid_of t))" by simp
  also have "\<dots> = b" using b by (simp add: record_tuple_def)
  finally show ?thesis using b by simp
qed

lemma mark_step:
  assumes db: "database cfg [(th, ps, as @ t # bs)] txn (s, txn)"
  shows "\<exists>s' txn'. TableHeap_MarkDelete (bpm_ops cfg) cfg th s txn (rid_of t) = Some (True, txn', s') \<and>
    database cfg [(th, ps, as @ bs)] txn' (s', txn') \<and>
    heap_tuples (view cfg s') ps = (heap_tuples (view cfg s) ps)(rid_of t \<mapsto> (True, data_of t))"
proof -
  have d: "pool_ok cfg s" "pins s = (\<lambda>_. 0)" "2 \<le> pool_size s" "heap_ok cfg (view cfg s) (allocated s) th ps"
    "table_tuples (heap_tuples (view cfg s) ps) ps = as @ t # bs" using db by (simp_all add: database_one)
  from bph.MarkDelete_heap [OF d(1,2,4) database_record [OF db], of txn] show ?thesis
    using table_tuples_change(1) [OF d(5) database_distinct [OF db]] d(3) by (auto simp: database_one)
qed

lemma update_step:
  assumes db: "database cfg [(th, ps, as @ t # bs)] txn (s, txn)"
    and nt: "0 < size_of nt" "unat (size_of nt) = length (data_of nt)" "length (data_of nt) \<le> length (data_of t)"
  shows "\<exists>s' txn'. TableHeap_UpdateTuple (bpm_ops cfg) th s txn nt (rid_of t) = Some (True, txn', s') \<and>
    database cfg [(th, ps, as @ nt\<lparr>rid_of := rid_of t\<rparr> # bs)] txn' (s', txn') \<and>
    heap_tuples (view cfg s') ps = (heap_tuples (view cfg s) ps)(rid_of t \<mapsto> (False, data_of nt))"
proof -
  have d: "pool_ok cfg s" "pins s = (\<lambda>_. 0)" "2 \<le> pool_size s" "heap_ok cfg (view cfg s) (allocated s) th ps"
    "table_tuples (heap_tuples (view cfg s) ps) ps = as @ t # bs" using db by (simp_all add: database_one)
  have "of_nat (length (data_of nt)) = size_of nt" unfolding nt(2) [symmetric] by simp
  then have e: "\<lparr>size_of = of_nat (length (data_of nt)), data_of = data_of nt, rid_of = rid_of t\<rparr> = nt\<lparr>rid_of := rid_of t\<rparr>"
    by simp
  from bph.UpdateTuple_heap [OF d(1,2,4) database_record [OF db] nt(1,2), of txn] nt(3) show ?thesis
    using table_tuples_change(2) [OF d(5) database_distinct [OF db], of "data_of nt"] d(3) unfolding e
    by (auto simp: database_one split: if_splits)
qed

subsection \<open>Statements over a scan of the same table\<close>

text \<open>\<open>change\<close> is what a statement makes of a tuple that the scan selects: nothing, or another tuple.\<close>

definition changed :: "double_ops \<Rightarrow> seq_scan \<Rightarrow> (tuple \<Rightarrow> tuple option) \<Rightarrow> tuple list \<Rightarrow> tuple list" where
  "changed F sc change ts = concat (map (\<lambda>t. if scan_match F sc t then (case change t of None \<Rightarrow> [] | Some t' \<Rightarrow> [t']) else [t]) ts)"

lemma changed_simps [simp]:
  "changed F sc change [] = []"
  "changed F sc change (xs @ ys) = changed F sc change xs @ changed F sc change ys"
  "changed F sc change (t # ts) =
     (if scan_match F sc t then (case change t of None \<Rightarrow> [] | Some t' \<Rightarrow> [t']) else [t]) @ changed F sc change ts"
  by (simp_all add: changed_def)

lemma changed_none: "\<forall>t\<in>set ts. \<not> scan_match F sc t \<Longrightarrow> changed F sc change ts = ts"
  by (induction ts) auto

text \<open>The records of the table after a statement: \<open>recd t\<close> in place of the record of each tuple \<open>t\<close> of the list.\<close>

definition recorded :: "(tuple \<Rightarrow> bool \<times> bytes) \<Rightarrow> tuple list \<Rightarrow> (rid \<rightharpoonup> bool \<times> bytes) \<Rightarrow> rid \<rightharpoonup> bool \<times> bytes" where
  "recorded recd ts T = T ++ map_of (map (\<lambda>t. (rid_of t, recd t)) ts)"

lemma recorded_Nil [simp]: "recorded recd [] T = T"
  by (simp add: recorded_def)

lemma recorded_Cons: "rid_of t \<notin> rid_of ` set ts \<Longrightarrow> recorded recd (t # ts) T = recorded recd ts (T(rid_of t \<mapsto> recd t))"
proof
  fix r
  assume "rid_of t \<notin> rid_of ` set ts"
  then have "map_of (map (\<lambda>t. (rid_of t, recd t)) ts) (rid_of t) = None" by (auto simp: map_of_eq_None_iff)
  then show "recorded recd (t # ts) T r = recorded recd ts (T(rid_of t \<mapsto> recd t)) r"
    by (simp add: recorded_def map_add_def split: option.split)
qed

lemma database_records:
  assumes "database cfg [(th, ps, L)] txn w" "view cfg (fst w) \<subseteq>\<^sub>m view cfg (fst w')"
  shows "heap_tuples (view cfg (fst w')) ps = heap_tuples (view cfg (fst w)) ps"
  using assms by (auto simp: database_one intro: heap_tuples_mono heap_okD(1))

text \<open>The position of the scan in front of the tuples that it has not met yet.\<close>

definition at_rest :: "config \<Rightarrow> tuple list \<Rightarrow> tuple \<Rightarrow> bool" where
  "at_rest cfg rest cur \<longleftrightarrow> (case rest of [] \<Rightarrow> rid_of cur = RID_default cfg | t # _ \<Rightarrow> cur = t)"

lemma at_rest_iff:
  assumes "database cfg [(th, ps, L)] txn w" "L = done_ts @ rest"
  shows "at_rest cfg rest cur \<longleftrightarrow> (cur \<in> set L \<or> rid_of cur = RID_default cfg) \<and> tuples_from L cur = rest"
proof -
  have h: "bph.holds_table cfg cfg (fst w) (th, ps, L)" using assms(1) by (simp add: database_def bph.holds_table_def)
  note D = bph.holds_tableD(4,5) [OF h]
  have no: "tuples_from L cur = []" if "rid_of cur = RID_default cfg" using that D(2) by (intro tuples_from_end) simp
  have yes: "\<exists>ys. tuples_from L cur = cur # ys" if "cur \<in> set L"
    using that tuples_from_split [OF _ D(1)] by (metis split_list)
  show ?thesis
  proof (cases rest)
    case Nil
    then show ?thesis using no yes by (auto simp: at_rest_def)
  next
    case (Cons t ys)
    then have "tuples_from L t = t # ys" using tuples_from_split [OF _ D(1)] assms(2) by blast
    then show ?thesis using no yes Cons assms(2) by (auto simp: at_rest_def)
  qed
qed

lemma modify_loop:
  fixes E :: "(tuple, bpm world) executor"
  assumes stop: "\<And>c w row row' c' w'. SeqScan_loop fuel fuel (bpm_ops cfg) cfg F sc c w row = Inr (False, row', c', w') \<Longrightarrow>
      Next E c w row = Inr (False, row', c', w')"
    and go: "\<And>c w row as t bs txn c' s. SeqScan_loop fuel fuel (bpm_ops cfg) cfg F sc c w row = Inr (True, scan_row cfg F sc t, c', s, txn) \<Longrightarrow>
      database cfg [(th, ps, as @ t # bs)] txn (s, txn) \<Longrightarrow> t \<in> set ts \<Longrightarrow> scan_match F sc t \<Longrightarrow>
      \<exists>row' s' txn'. Next E c w row = Inr (True, row', c', s', txn') \<and>
        database cfg [(th, ps, as @ (case change t of None \<Rightarrow> [] | Some t' \<Rightarrow> [t']) @ bs)] txn' (s', txn') \<and>
        heap_tuples (view cfg s') ps = (heap_tuples (view cfg s) ps)(rid_of t \<mapsto> recd t)"
    and th: "table_of (scan_info sc) = th" and fuel: "length ps < fuel" "length ts < fuel"
    and computes: "scan_computes cfg F sc (ts @ changed F sc change ts)"
  shows "database cfg [(th, ps, changed F sc change xs @ rest)] txn w \<Longrightarrow> ts = xs @ rest \<Longrightarrow> at_rest cfg rest cur \<Longrightarrow>
    length rest < n \<Longrightarrow> \<exists>rows w'. execute_loop n E cur w row = Inr (rows, w') \<and>
      length rows = length (filter (scan_match F sc) rest) \<and> database cfg [(th, ps, changed F sc change ts)] (snd w') w' \<and>
      heap_tuples (view cfg (fst w')) ps =
        recorded recd (filter (scan_match F sc) rest) (heap_tuples (view cfg (fst w)) ps)"
proof (induction n arbitrary: xs rest txn w cur row)
  case (Suc n)
  let ?L = "changed F sc change xs @ rest"
  have len: "length (changed F sc change xs) \<le> length xs" for xs by (induction xs) (auto split: option.splits)
  from len [of xs] have "length ?L < fuel" using Suc.prems(2) fuel(2) by simp
  moreover have "scan_computes cfg F sc ?L" using computes Suc.prems(2) by (auto simp: scan_computes_def)
  ultimately have v: "scan_valid cfg F [(th, ps, ?L)] sc ps ?L fuel cur" "tuples_from ?L cur = rest"
    using at_rest_iff [OF Suc.prems(1) refl, of cur] Suc.prems(3) th fuel(1) by (auto simp: scan_valid_def scannable_def)
  from bpm_scan_finds [OF v(1) Suc.prems(1), of row] obtain b row' cur' w' where
    1: "SeqScan_loop fuel fuel (bpm_ops cfg) cfg F sc cur w row = Inr (b, row', cur', w')"
      "scan_valid cfg F [(th, ps, ?L)] sc ps ?L fuel cur'" "database cfg [(th, ps, ?L)] txn w'"
      "scan_found cfg F sc b row' rest (tuples_from ?L cur')" "view cfg (fst w) \<subseteq>\<^sub>m view cfg (fst w')"
    unfolding v(2) by blast
  note same = database_records [OF Suc.prems(1) 1(5)]
  show ?case
  proof (cases b)
    case False
    then have "\<forall>x\<in>set rest. \<not> scan_match F sc x" using 1(4) by (simp add: scan_found_def)
    moreover have "snd w' = txn" using 1(3) by (simp add: database_one)
    ultimately show ?thesis
      using 1(1,3) False stop Suc.prems(2) changed_none [of rest] same by (auto simp: filter_empty_conv)
  next
    case True
    obtain pre t where t: "rest = pre @ t # tuples_from ?L cur'" "\<forall>x\<in>set pre. \<not> scan_match F sc x" "scan_match F sc t"
      "row' = scan_row cfg F sc t" using 1(4) True by (auto simp: scan_found_def)
    define more where "more = tuples_from ?L cur'"
    have L: "?L = (changed F sc change xs @ pre) @ t # more" using t(1) by (simp add: more_def)
    obtain s where s: "w' = (s, txn)" using 1(3) by (cases w') (simp add: database_one)
    have found: "SeqScan_loop fuel fuel (bpm_ops cfg) cfg F sc cur w row = Inr (True, scan_row cfg F sc t, cur', s, txn)"
      using 1(1) True s t(4) by simp
    have t_db: "database cfg [(th, ps, (changed F sc change xs @ pre) @ t # more)] txn (s, txn)" using 1(3) s L by simp
    have "t \<in> set rest" by (subst t(1)) simp
    then have "t \<in> set ts" using Suc.prems(2) by simp
    from go [OF found t_db this t(3)] obtain row'' s' txn' where 2: "Next E cur w row = Inr (True, row'', cur', s', txn')"
      "database cfg [(th, ps, (changed F sc change xs @ pre) @ (case change t of None \<Rightarrow> [] | Some t' \<Rightarrow> [t']) @ more)] txn' (s', txn')"
      "heap_tuples (view cfg s') ps = (heap_tuples (view cfg s) ps)(rid_of t \<mapsto> recd t)"
      by blast
    have split: "ts = (xs @ pre @ [t]) @ more" using Suc.prems(2) t(1) by (simp add: more_def)
    have db: "database cfg [(th, ps, changed F sc change (xs @ pre @ [t]) @ more)] txn' (s', txn')"
      using 2(2) t(3) changed_none [OF t(2)] by simp
    have L2: "?L = (changed F sc change xs @ pre @ [t]) @ more" using L by simp
    have "cur' \<in> set ?L \<or> rid_of cur' = RID_default cfg" using 1(2) unfolding scan_valid_def by blast
    then have "at_rest cfg more cur'" using at_rest_iff [OF 1(3) L2] more_def by blast
    moreover have r: "rest = pre @ t # more" unfolding more_def by (rule t(1))
    have "length more < length rest" by (subst r) simp
    then have "length more < n" using Suc.prems(4) by simp
    ultimately obtain rows w'' where "execute_loop n E cur' (s', txn') row'' = Inr (rows, w'')"
      "length rows = length (filter (scan_match F sc) more)" "database cfg [(th, ps, changed F sc change ts)] (snd w'') w''"
      "heap_tuples (view cfg (fst w'')) ps = recorded recd (filter (scan_match F sc) more) (heap_tuples (view cfg s') ps)"
      using Suc.IH [OF db split] by fastforce
    moreover have f: "filter (scan_match F sc) rest = t # filter (scan_match F sc) more"
      using t(2,3) by (subst r) (simp add: filter_empty_conv)
    moreover have "rid_of t \<notin> rid_of ` set (filter (scan_match F sc) more)" using database_distinct [OF t_db] by auto
    ultimately show ?thesis using 2(1,3) same s by (simp add: recorded_Cons)
  qed
qed simp

lemma changed_delete: "changed F sc (\<lambda>_. None) ts = filter (\<lambda>t. \<not> scan_match F sc t) ts"
  by (induction ts) auto

lemma changed_update: "changed F sc (\<lambda>t. Some (f t)) ts = map (\<lambda>t. if scan_match F sc t then f t else t) ts"
  by (induction ts) auto

lemma Modify_new_plain:
  assumes "GetTable cat oid = Some info" "GetTableIndexes order cat (table_name_of info) = Inr []"
  shows "Modify_new order cat oid = Inr \<lparr>modify_info = info, index_info_array = []\<rparr>"
  using assms by (simp add: Modify_new_def or_crash_def)

text \<open>From the start of the scan.\<close>

lemma modify_run:
  fixes E :: "(tuple, bpm world) executor"
  assumes db: "database cfg [(th, ps, ts)] txn w" and sc: "scannable cfg F [(th, ps, ts)] sc ps ts fuel"
    and computes: "scan_computes cfg F sc (changed F sc change ts)"
    and stop: "\<And>c w row row' c' w'. SeqScan_loop fuel fuel (bpm_ops cfg) cfg F sc c w row = Inr (False, row', c', w') \<Longrightarrow>
      Next E c w row = Inr (False, row', c', w')"
    and go: "\<And>c w row as t bs txn c' s. SeqScan_loop fuel fuel (bpm_ops cfg) cfg F sc c w row = Inr (True, scan_row cfg F sc t, c', s, txn) \<Longrightarrow>
      database cfg [(th, ps, as @ t # bs)] txn (s, txn) \<Longrightarrow> t \<in> set ts \<Longrightarrow> scan_match F sc t \<Longrightarrow>
      snd (scan_row cfg F sc t) = rid_of t \<Longrightarrow>
      \<exists>row' s' txn'. Next E c w row = Inr (True, row', c', s', txn') \<and>
        database cfg [(th, ps, as @ (case change t of None \<Rightarrow> [] | Some t' \<Rightarrow> [t']) @ bs)] txn' (s', txn') \<and>
        heap_tuples (view cfg s') ps = (heap_tuples (view cfg s) ps)(rid_of t \<mapsto> recd t)"
  obtains cur w1 rows s' txn' where "SeqScan_Init fuel (bpm_ops cfg) cfg sc (SeqScan_start cfg) w = Inr (cur, w1)"
    "execute_loop fuel E cur w1 (fresh_row cfg) = Inr (rows, s', txn')" "length rows = length (filter (scan_match F sc) ts)"
    "database cfg [(th, ps, changed F sc change ts)] txn' (s', txn')"
    "heap_tuples (view cfg s') ps = recorded recd (filter (scan_match F sc) ts) (heap_tuples (view cfg (fst w)) ps)"
proof -
  have f: "table_of (scan_info sc) = th" "length ps < fuel" "length ts < fuel" "scan_computes cfg F sc ts"
    using sc by (auto simp: scannable_def)
  from bpm_scan_starts [OF scan_valid_start [OF sc] db] obtain cur w1 where
    1: "SeqScan_Init fuel (bpm_ops cfg) cfg sc (SeqScan_start cfg) w = Inr (cur, w1)"
      "scan_valid cfg F [(th, ps, ts)] sc ps ts fuel cur" "database cfg [(th, ps, ts)] txn w1" "tuples_from ts cur = ts"
      "view cfg (fst w) \<subseteq>\<^sub>m view cfg (fst w1)" by blast
  have start: "at_rest cfg ts cur" using at_rest_iff [OF 1(3), of "[]" ts cur] 1(2,4) by (simp add: scan_valid_def)
  have go': "\<exists>row' s' txn'. Next E c w row = Inr (True, row', c', s', txn') \<and>
        database cfg [(th, ps, as @ (case change t of None \<Rightarrow> [] | Some t' \<Rightarrow> [t']) @ bs)] txn' (s', txn') \<and>
        heap_tuples (view cfg s') ps = (heap_tuples (view cfg s) ps)(rid_of t \<mapsto> recd t)"
    if found: "SeqScan_loop fuel fuel (bpm_ops cfg) cfg F sc c w row = Inr (True, scan_row cfg F sc t, c', s, txn)"
      and t: "database cfg [(th, ps, as @ t # bs)] txn (s, txn)" "t \<in> set ts" "scan_match F sc t" for c w row as t bs txn c' s
  proof -
    obtain t' where "scan_out cfg F sc t = Inr t'" using f(4) t(2,3) by (auto simp: scan_computes_def)
    then have "snd (scan_row cfg F sc t) = rid_of t" by (simp add: scan_row_def)
    then show ?thesis by (rule go [OF found t])
  qed
  have all: "scan_computes cfg F sc (ts @ changed F sc change ts)" using f(4) computes by (auto simp: scan_computes_def)
  have db1: "database cfg [(th, ps, changed F sc change [] @ ts)] txn w1" using 1(3) by simp
  have "\<exists>rows w'. execute_loop fuel E cur w1 (fresh_row cfg) = Inr (rows, w') \<and>
      length rows = length (filter (scan_match F sc) ts) \<and> database cfg [(th, ps, changed F sc change ts)] (snd w') w' \<and>
      heap_tuples (view cfg (fst w')) ps = recorded recd (filter (scan_match F sc) ts) (heap_tuples (view cfg (fst w1)) ps)"
    by (rule modify_loop [OF stop _ f(1-3) all db1 _ start f(3)]) (assumption, rule go', assumption+, simp)
  then obtain rows w' where
    2: "execute_loop fuel E cur w1 (fresh_row cfg) = Inr (rows, w')" "length rows = length (filter (scan_match F sc) ts)"
      "database cfg [(th, ps, changed F sc change ts)] (snd w') w'"
      "heap_tuples (view cfg (fst w')) ps = recorded recd (filter (scan_match F sc) ts) (heap_tuples (view cfg (fst w1)) ps)" by blast
  then show ?thesis using that [OF 1(1), of rows "fst w'" "snd w'"] database_records [OF db 1(5)] by simp
qed


text \<open>What an update makes of the values of a row: an attribute that is set gets the number of the plan, an attribute that is
  added to gets the sum, the other columns keep their values. The numbers and the sums are non-null integers of 32 bits.\<close>

definition new_number :: "UpdateInfo \<Rightarrow> int \<Rightarrow> int" where
  "new_number u n = (case update_type u of UpdateSet \<Rightarrow> update_val u | UpdateAdd \<Rightarrow> n + update_val u)"

definition new_values :: "(nat \<rightharpoonup> UpdateInfo) \<Rightarrow> Value list \<Rightarrow> Value list" where
  "new_values attrs vs = map (\<lambda>i. case attrs i of
     None \<Rightarrow> vs ! i | Some u \<Rightarrow> int_value int32_t (new_number u (GetAs int32_t (vs ! i)))) [0..<length vs]"

definition update_fits :: "UpdateInfo \<Rightarrow> Value \<Rightarrow> bool" where
  "update_fits u v \<longleftrightarrow> (case update_type u of
     UpdateSet \<Rightarrow> fits_int32 (update_val u)
   | UpdateAdd \<Rightarrow> (let n = GetAs int32_t v in v = int_value int32_t n \<and> fits_int32 n \<and> fits_int32 (update_val u) \<and>
       fits_int32 (n + update_val u)))"

definition updates_fit :: "(nat \<rightharpoonup> UpdateInfo) \<Rightarrow> Value list \<Rightarrow> bool" where
  "updates_fit attrs vs \<longleftrightarrow> list_all (\<lambda>i. case attrs i of None \<Rightarrow> True | Some u \<Rightarrow> update_fits u (vs ! i)) [0..<length vs]"

lemma GetIntegerValue_fits: "fits_int32 x \<Longrightarrow> GetIntegerValue x = Inr (int_value int32_t x)"
  by (simp add: fits_int32_def GetIntegerValue_def Value_int32_def int_value_def null_of_def limit_defs)

lemma GenerateUpdatedTuple_spec:
  assumes "row_values F schema x = Inr vs" "updates_fit attrs vs"
  shows "GenerateUpdatedTuple cfg F attrs schema (fst x) = Tuple_new cfg (new_values attrs vs) schema"
proof -
  have get: "length vs = GetColumnCount schema" "\<And>i. i < length vs \<Longrightarrow> Tuple_GetValue F (fst x) schema i = Inr (vs ! i)"
    using assms(1) by (auto simp: row_values_def traverse_Inr list_all2_conv_all_nth)
  have "updated_value F attrs schema (fst x) i = Inr (new_values attrs vs ! i)" if i: "i < length vs" for i
  proof (cases "attrs i")
    case (Some u)
    have "case attrs i of None \<Rightarrow> True | Some u \<Rightarrow> update_fits u (vs ! i)"
      using bspec [OF assms(2) [unfolded updates_fit_def list_all_iff], of i] i by simp
    then have u: "update_fits u (vs ! i)" by (simp add: Some)
    show ?thesis
    proof (cases "update_type u")
      case UpdateAdd
      define n where "n = GetAs int32_t (vs ! i)"
      have n: "vs ! i = int_value int32_t n" "fits_int32 n" "fits_int32 (update_val u)" "fits_int32 (n + update_val u)"
        using u UpdateAdd by (simp_all add: update_fits_def Let_def n_def [symmetric])
      have "Tuple_GetValue F (fst x) schema i = Inr (int_value int32_t n)" using get(2) [OF i] n(1) by metis
      then show ?thesis
        using Some UpdateAdd i Value_Add_fits [OF n(2-4), of F] GetIntegerValue_fits [OF n(3)]
        by (simp add: updated_value_def new_values_def new_number_def n_def [symmetric])
    next
      case UpdateSet
      then show ?thesis
        using Some u i get(2) [OF i] GetIntegerValue_fits by (simp add: updated_value_def new_values_def new_number_def update_fits_def)
    qed
  qed (use i get(2) in \<open>simp add: updated_value_def new_values_def\<close>)
  then have "traverse (updated_value F attrs schema (fst x)) [0..<GetColumnCount schema] = Inr (new_values attrs vs)"
    using get(1) by (simp add: traverse_Inr list_all2_conv_all_nth new_values_def)
  then show ?thesis by (simp add: GenerateUpdatedTuple_def)
qed

text \<open>The new tuple of a row: its values, of the types of the columns, and room for it where the old tuple is.\<close>

definition updatable :: "double_ops \<Rightarrow> (nat \<rightharpoonup> UpdateInfo) \<Rightarrow> Column list \<Rightarrow> Value list \<Rightarrow> tuple \<Rightarrow> bool" where
  "updatable F attrs cs vs t \<longleftrightarrow> updates_fit attrs vs \<and> list_all2 (fits F) cs (new_values attrs vs) \<and>
     (let k = fixed_size cs + sum_list (map var_size (new_values attrs vs)) in 0 < k \<and> k \<le> length (data_of t) \<and> k < 2 ^ 31)"

lemma updatable_tuple:
  assumes row: "row_values F (Schema_new cs) x = Inr vs" and up: "updatable F attrs cs vs t"
    and nt: "Tuple_new cfg (new_values attrs vs) (Schema_new cs) = Inr nt"
  shows "GenerateUpdatedTuple cfg F attrs (Schema_new cs) (fst x) = Inr nt" "0 < size_of nt"
    "unat (size_of nt) = length (data_of nt)" "length (data_of nt) \<le> length (data_of t)"
    "row_values F (Schema_new cs) (nt, r) = Inr (new_values attrs vs)"
proof -
  let ?k = "fixed_size cs + sum_list (map var_size (new_values attrs vs))"
  have u: "updates_fit attrs vs" "list_all2 (fits F) cs (new_values attrs vs)" "0 < ?k" "?k \<le> length (data_of t)" "?k < 2 ^ 31"
    using up by (simp_all add: updatable_def Let_def)
  have 1: "length (data_of nt) = unat (size_of nt)" "unat (size_of nt) = ?k"
    "\<forall>i<length (new_values attrs vs). Tuple_GetValue F nt (Schema_new cs) i = Inr (new_values attrs vs ! i)"
    using Tuple_new_spec [OF u(2,5), of cfg] nt by auto
  show "GenerateUpdatedTuple cfg F attrs (Schema_new cs) (fst x) = Inr nt"
    using GenerateUpdatedTuple_spec [OF row u(1)] nt by simp
  show "0 < size_of nt" using 1(2) u(3) by (metis unat_0 word_neq_0_conv less_irrefl)
  show "unat (size_of nt) = length (data_of nt)" "length (data_of nt) \<le> length (data_of t)" using 1(1,2) u(4) by simp_all
  have "length (new_values attrs vs) = GetColumnCount (Schema_new cs)"
    using row by (auto simp: new_values_def row_values_def traverse_Inr dest: list_all2_lengthD)
  then show "row_values F (Schema_new cs) (nt, r) = Inr (new_values attrs vs)"
    using 1(3) by (simp add: row_values_def traverse_Inr list_all2_conv_all_nth)
qed


subsection \<open>The small database\<close>

definition ab_catalog :: "bpm world catalog" where
  "ab_catalog = Catalog\<lparr>tables_by_oid := [0 \<mapsto> ab_info], table_names := [table_name_of ab_info \<mapsto> 0],
     index_names := [table_name_of ab_info \<mapsto> []]\<rparr>"

lemma ab_catalog_plain:
  "GetTable ab_catalog 0 = Some ab_info" "GetTableIndexes id ab_catalog (table_name_of ab_info) = Inr []"
  by (simp_all add: ab_catalog_def GetTable_def GetTableIndexes_def or_crash_def)


definition add_5 :: "nat \<rightharpoonup> UpdateInfo" where
  "add_5 = [1 \<mapsto> \<lparr>update_type = UpdateAdd, update_val = 5\<rparr>]"

text \<open>The values of a tuple and the tuple of its new values, and the conditions of an update on them, evaluated.\<close>

definition ab_vals :: "tuple \<Rightarrow> Value list" where
  "ab_vals t = projr (row_values integer_doubles (schema_of ab_info) (scan_row page_cfg integer_doubles (ab_scan a_is_1) t))"

definition ab_new :: "tuple \<Rightarrow> tuple" where
  "ab_new t = projr (Tuple_new page_cfg (new_values add_5 (ab_vals t)) (schema_of ab_info))"

definition is_ok :: "'a result \<Rightarrow> bool" where
  "is_ok x \<longleftrightarrow> (case x of Inl _ \<Rightarrow> False | Inr _ \<Rightarrow> True)"

definition ab_update_ok :: "tuple \<Rightarrow> bool" where
  "ab_update_ok t \<longleftrightarrow> is_ok (row_values integer_doubles (schema_of ab_info) (scan_row page_cfg integer_doubles (ab_scan a_is_1) t)) \<and>
     updates_fit add_5 (ab_vals t) \<and> list_all (int_ok int32_t) (new_values add_5 (ab_vals t)) \<and>
     length (new_values add_5 (ab_vals t)) = 2 \<and> length (data_of t) = 8 \<and>
     is_ok (Tuple_new page_cfg (new_values add_5 (ab_vals t)) (schema_of ab_info))"

lemma is_ok_projr: "is_ok x \<Longrightarrow> x = Inr (projr x)"
  by (cases x) (simp_all add: is_ok_def)

lemma fits_int_column: "int_ok int32_t v \<Longrightarrow> fits F (int_column n) v"
  by (auto simp: fits_def int_column_def TypeSize_def int_ok_Value_ok dest: int_okD)

lemma ab_updatable:
  assumes "updates_fit add_5 vs" "list_all (int_ok int32_t) (new_values add_5 vs)" "length (new_values add_5 vs) = 2"
    "length (data_of t) = 8"
  shows "updatable F add_5 [int_column ''a'', int_column ''b''] vs t"
proof -
  obtain a b where ab: "new_values add_5 vs = [a, b]" using assms(3) by (auto simp: length_Suc_conv numeral_2_eq_2)
  have "int_ok int32_t a" "int_ok int32_t b" using assms(2) by (simp_all add: ab)
  then have "val_type a = INTEGER" "val_type b = INTEGER" "fits F (int_column n) a" "fits F (int_column n) b" for n
    by (auto simp: fits_int_column dest: int_okD)
  then show ?thesis using assms(1,4) by (simp add: updatable_def ab var_size_def fixed_size_def int_column_def)
qed

lemma ab_updates_ok: "list_all ab_update_ok ab_tuples"
  by code_simp


end
