(* ===== verification/ExecutorFactory.thy ===== *)
theory ExecutorFactory
  imports TableExecutors
begin

section \<open>Query plans, the executor factory and the engine\<close>

text \<open>
  \<^verbatim>\<open>execution/plans/*.h\<close>, \<^verbatim>\<open>execution/executor_factory.cpp\<close> and \<^verbatim>\<open>execution/execution_engine.h\<close>. A plan is a tree; the
  factory builds the executors from the leaves to the root, and the constructors that run their children (hash
  join, aggregation, deletion) run them at that time. The classes of executors are the constructors of
  \<open>exec_state\<close>, and \<open>wrapped\<close> is the dynamic dispatch to the operations of one class. An output schema that is null is
  dereferenced when a row is read and is an error at construction here.
\<close>

subsection \<open>Plan nodes\<close>

datatype PlanType = SeqScanPlan | IndexScanPlan | InsertPlan | UpdatePlan | DeletePlan | AggregationPlan | LimitPlan |
  DistinctPlan | NestedLoopJoinPlan | NestedIndexJoinPlan | HashJoinPlan

text \<open>\<open>InsertPlanNode\<close> has two constructors in the source, for raw values and for a child.\<close>

datatype plan_node =
    SeqScanPlanNode seq_scan_plan
  | IndexScanPlanNode Schema "Expression option" index_oid_t
  | RawInsertPlanNode "Value list list" table_oid_t
  | InsertPlanNode plan_node table_oid_t
  | UpdatePlanNode plan_node table_oid_t "nat \<rightharpoonup> UpdateInfo"
  | DeletePlanNode plan_node table_oid_t
  | AggregationPlanNode aggregation_plan plan_node
  | LimitPlanNode Schema plan_node nat
  | DistinctPlanNode Schema plan_node
  | NestedLoopJoinPlanNode Schema plan_node plan_node "Expression option"
  | NestedIndexJoinPlanNode Schema plan_node "Expression option" table_oid_t string Schema Schema
  | HashJoinPlanNode Schema plan_node plan_node Expression Expression

fun GetType :: "plan_node \<Rightarrow> PlanType" where
  "GetType (SeqScanPlanNode p) = SeqScanPlan"
| "GetType (IndexScanPlanNode s e i) = IndexScanPlan"
| "GetType (RawInsertPlanNode vs t) = InsertPlan"
| "GetType (InsertPlanNode c t) = InsertPlan"
| "GetType (UpdatePlanNode c t a) = UpdatePlan"
| "GetType (DeletePlanNode c t) = DeletePlan"
| "GetType (AggregationPlanNode p c) = AggregationPlan"
| "GetType (LimitPlanNode s c n) = LimitPlan"
| "GetType (DistinctPlanNode s c) = DistinctPlan"
| "GetType (NestedLoopJoinPlanNode s l r e) = NestedLoopJoinPlan"
| "GetType (NestedIndexJoinPlanNode s c e t i so si) = NestedIndexJoinPlan"
| "GetType (HashJoinPlanNode s l r lk rk) = HashJoinPlan"

text \<open>The plans that change a table have the output schema \<open>nullptr\<close>.\<close>

fun OutputSchema :: "plan_node \<Rightarrow> Schema option" where
  "OutputSchema (SeqScanPlanNode p) = Some (scan_schema p)"
| "OutputSchema (IndexScanPlanNode s e i) = Some s"
| "OutputSchema (RawInsertPlanNode vs t) = None"
| "OutputSchema (InsertPlanNode c t) = None"
| "OutputSchema (UpdatePlanNode c t a) = None"
| "OutputSchema (DeletePlanNode c t) = None"
| "OutputSchema (AggregationPlanNode p c) = Some (agg_out_schema p)"
| "OutputSchema (LimitPlanNode s c n) = Some s"
| "OutputSchema (DistinctPlanNode s c) = Some s"
| "OutputSchema (NestedLoopJoinPlanNode s l r e) = Some s"
| "OutputSchema (NestedIndexJoinPlanNode s c e t i so si) = Some s"
| "OutputSchema (HashJoinPlanNode s l r lk rk) = Some s"

subsection \<open>Executors of all classes\<close>

text \<open>\<open>IdleState\<close> is the state of the executors without members: the index scan, the nested index join and the
  null child of a raw insertion.\<close>

datatype exec_state =
    IdleState
  | SeqScanState tuple
  | InsertState "exec_state InsertExecutor"
  | UpdateState exec_state
  | DeleteState exec_state
  | AggregationState "exec_state AggregationExecutor"
  | LimitState "exec_state LimitExecutor"
  | DistinctState "exec_state DistinctExecutor"
  | NestedLoopJoinState "(exec_state, exec_state) NestedLoopJoinExecutor"
  | HashJoinState "(exec_state, exec_state) HashJoinExecutor"

fun the_scan where "the_scan (SeqScanState st) = Some st" | "the_scan _ = None"
fun the_insert where "the_insert (InsertState st) = Some st" | "the_insert _ = None"
fun the_update where "the_update (UpdateState st) = Some st" | "the_update _ = None"
fun the_delete where "the_delete (DeleteState st) = Some st" | "the_delete _ = None"
fun the_aggregation where "the_aggregation (AggregationState st) = Some st" | "the_aggregation _ = None"
fun the_limit where "the_limit (LimitState st) = Some st" | "the_limit _ = None"
fun the_distinct where "the_distinct (DistinctState st) = Some st" | "the_distinct _ = None"
fun the_loop_join where "the_loop_join (NestedLoopJoinState st) = Some st" | "the_loop_join _ = None"
fun the_hash_join where "the_hash_join (HashJoinState st) = Some st" | "the_hash_join _ = None"

definition wrapped ::
    "('a \<Rightarrow> exec_state) \<Rightarrow> (exec_state \<Rightarrow> 'a option) \<Rightarrow> ('a, 'w) executor \<Rightarrow> (exec_state, 'w) executor" where
  "wrapped wrap_state the_state C = \<lparr>
     Init = (\<lambda>e w. andThen (or_crash (the_state e)) (\<lambda>st.
       andThen (Init C st w) (\<lambda>(st, w). Inr (wrap_state st, w)))),
     Next = (\<lambda>e w row. andThen (or_crash (the_state e)) (\<lambda>st.
       andThen (Next C st w row) (\<lambda>(found, row, st, w). Inr (found, row, wrap_state st, w))))\<rparr>"

text \<open>The executors of index scans and nested index joins have empty bodies and return no row.\<close>

definition IndexScan :: "(exec_state, 'w) executor" where
  "IndexScan = \<lparr>Init = (\<lambda>e w. Inr (e, w)), Next = (\<lambda>e w row. Inr (False, row, e, w))\<rparr>"

definition NestIndexJoin :: "(exec_state, 'w) executor" where
  "NestIndexJoin = \<lparr>Init = (\<lambda>e w. Inr (e, w)), Next = (\<lambda>e w row. Inr (False, row, e, w))\<rparr>"

text \<open>The null child of a raw insertion.\<close>

definition NullExecutor :: "(exec_state, 'w) executor" where
  "NullExecutor = \<lparr>Init = (\<lambda>e w. Inl Crash), Next = (\<lambda>e w row. Inl Crash)\<rparr>"

subsection \<open>The factory\<close>

text \<open>The context has the pool and the catalog; the transaction is in the state of the storage. The environment adds
  what the executors take from the build (\<open>exec_cfg\<close>), from the hardware (\<open>exec_doubles\<close>) and from the orders of the
  library's hash tables, and the fuel of their loops.\<close>

record ('s, 'p) ExecutorContext =
  GetBufferPoolManager :: "('s, 'p) pool_ops"
  GetCatalog :: "'s world catalog"

record ('s, 'p) environment = "('s, 'p) ExecutorContext" +
  exec_cfg :: config
  exec_doubles :: double_ops
  name_order :: "index_names \<Rightarrow> index_names"
  group_order :: "agg_table \<Rightarrow> agg_table"
  exec_fuel :: nat

type_synonym 'w built = "(exec_state, 'w) executor \<times> exec_state \<times> 'w"

definition join_schemas :: "Schema \<Rightarrow> plan_node \<Rightarrow> plan_node \<Rightarrow> join_plan result" where
  "join_schemas schema l r =
     andThen (or_crash (OutputSchema l)) (\<lambda>ls.
     andThen (or_crash (OutputSchema r)) (\<lambda>rs.
     Inr \<lparr>left_schema = ls, right_schema = rs, out_schema = schema\<rparr>))"

definition build_scan :: "('s, 'p) environment \<Rightarrow> seq_scan_plan \<Rightarrow> 's world \<Rightarrow> 's world built result" where
  "build_scan env plan w =
     andThen (SeqScan_new (GetCatalog env) plan) (\<lambda>sc.
     Inr (wrapped SeqScanState the_scan (SeqScan (exec_fuel env) (GetBufferPoolManager env) (exec_cfg env) (exec_doubles env) sc),
       SeqScanState (SeqScan_start (exec_cfg env)), w))"

definition build_insert ::
    "('s, 'p) environment \<Rightarrow> insert_plan \<Rightarrow> (exec_state, 's world) executor \<Rightarrow> exec_state \<Rightarrow> 's world \<Rightarrow> 's world built result" where
  "build_insert env plan C c w =
     andThen (Modify_new (name_order env) (GetCatalog env) (insert_table plan)) (\<lambda>m.
     Inr (wrapped InsertState the_insert
         (Insert (exec_fuel env) (GetBufferPoolManager env) (exec_cfg env) (exec_doubles env) m plan C),
       InsertState (InsertExecutor 0 c), w))"

definition build_update ::
    "('s, 'p) environment \<Rightarrow> table_oid_t \<Rightarrow> (nat \<rightharpoonup> UpdateInfo) \<Rightarrow> (exec_state, 's world) executor \<Rightarrow> exec_state \<Rightarrow> 's world \<Rightarrow>
      's world built result" where
  "build_update env table_oid update_attrs C c w =
     andThen (Modify_new (name_order env) (GetCatalog env) table_oid) (\<lambda>m.
     Inr (wrapped UpdateState the_update
         (Update (GetBufferPoolManager env) (exec_cfg env) (exec_doubles env) m update_attrs C), UpdateState c, w))"

definition build_delete ::
    "('s, 'p) environment \<Rightarrow> table_oid_t \<Rightarrow> (exec_state, 's world) executor \<Rightarrow> exec_state \<Rightarrow> 's world \<Rightarrow> 's world built result" where
  "build_delete env table_oid C c w =
     andThen (Delete_new (name_order env) C (GetCatalog env) table_oid c w) (\<lambda>(m, c, w).
     Inr (wrapped DeleteState the_delete (Delete (GetBufferPoolManager env) (exec_cfg env) (exec_doubles env) m C), DeleteState c, w))"

definition build_aggregation ::
    "('s, 'p) environment \<Rightarrow> aggregation_plan \<Rightarrow> Schema \<Rightarrow> (exec_state, 's world) executor \<Rightarrow> exec_state \<Rightarrow> 's world \<Rightarrow>
      's world built result" where
  "build_aggregation env plan schema C c w =
     andThen (Aggregation_new (exec_fuel env) (exec_cfg env) (exec_doubles env) C plan schema c w) (\<lambda>(st, w).
     Inr (wrapped AggregationState the_aggregation (Aggregation (group_order env) (exec_cfg env) (exec_doubles env) C plan),
       AggregationState st, w))"

definition build_loop_join ::
    "('s, 'p) environment \<Rightarrow> join_plan \<Rightarrow> Expression option \<Rightarrow> (exec_state, 's world) executor \<Rightarrow> (exec_state, 's world) executor \<Rightarrow>
      exec_state \<Rightarrow> exec_state \<Rightarrow> 's world \<Rightarrow> 's world built result" where
  "build_loop_join env plan predicate L R l r w =
     andThen (predicate_of predicate) (\<lambda>p.
     Inr (wrapped NestedLoopJoinState the_loop_join
         (NestedLoopJoin (exec_fuel env) (exec_cfg env) (exec_doubles env) L R plan p),
       NestedLoopJoinState (NestedLoopJoinExecutor l r (fresh_row (exec_cfg env)) False), w))"

definition build_hash_join ::
    "('s, 'p) environment \<Rightarrow> join_plan \<Rightarrow> Expression \<Rightarrow> Expression \<Rightarrow> (exec_state, 's world) executor \<Rightarrow>
      (exec_state, 's world) executor \<Rightarrow> exec_state \<Rightarrow> exec_state \<Rightarrow> 's world \<Rightarrow> 's world built result" where
  "build_hash_join env plan left_key right_key L R l r w =
     andThen (HashJoin_new (exec_fuel env) (exec_cfg env) (exec_doubles env) L R plan left_key l r w) (\<lambda>(st, w).
     Inr (wrapped HashJoinState the_hash_join (HashJoin (exec_fuel env) (exec_cfg env) (exec_doubles env) L R plan right_key),
       HashJoinState st, w))"

fun CreateExecutor :: "('s, 'p) environment \<Rightarrow> plan_node \<Rightarrow> 's world \<Rightarrow> 's world built result" where
  "CreateExecutor env (SeqScanPlanNode plan) w = build_scan env plan w"
| "CreateExecutor env (IndexScanPlanNode schema predicate index_oid) w = Inr (IndexScan, IdleState, w)"
| "CreateExecutor env (RawInsertPlanNode values table_oid) w =
     build_insert env \<lparr>insert_table = table_oid, raw_values = Some values\<rparr> NullExecutor IdleState w"
| "CreateExecutor env (InsertPlanNode child table_oid) w =
     andThen (CreateExecutor env child w) (\<lambda>(C, c, w).
     build_insert env \<lparr>insert_table = table_oid, raw_values = None\<rparr> C c w)"
| "CreateExecutor env (UpdatePlanNode child table_oid update_attrs) w =
     andThen (CreateExecutor env child w) (\<lambda>(C, c, w). build_update env table_oid update_attrs C c w)"
| "CreateExecutor env (DeletePlanNode child table_oid) w =
     andThen (CreateExecutor env child w) (\<lambda>(C, c, w). build_delete env table_oid C c w)"
| "CreateExecutor env (AggregationPlanNode plan child) w =
     andThen (CreateExecutor env child w) (\<lambda>(C, c, w).
     andThen (or_crash (OutputSchema child)) (\<lambda>schema. build_aggregation env plan schema C c w))"
| "CreateExecutor env (LimitPlanNode schema child limit) w =
     andThen (CreateExecutor env child w) (\<lambda>(C, c, w).
     Inr (wrapped LimitState the_limit (Limit C limit), LimitState (LimitExecutor 0 c), w))"
| "CreateExecutor env (DistinctPlanNode schema child) w =
     andThen (CreateExecutor env child w) (\<lambda>(C, c, w).
     Inr (wrapped DistinctState the_distinct (Distinct (exec_fuel env) (exec_doubles env) C schema),
       DistinctState (DistinctExecutor [] c), w))"
| "CreateExecutor env (NestedLoopJoinPlanNode schema left right predicate) w =
     andThen (CreateExecutor env left w) (\<lambda>(L, l, w).
     andThen (CreateExecutor env right w) (\<lambda>(R, r, w).
     andThen (join_schemas schema left right) (\<lambda>plan. build_loop_join env plan predicate L R l r w)))"
| "CreateExecutor env (NestedIndexJoinPlanNode schema child predicate table_oid index_name outer inner) w =
     andThen (CreateExecutor env child w) (\<lambda>(C, c, w). Inr (NestIndexJoin, IdleState, w))"
| "CreateExecutor env (HashJoinPlanNode schema left right left_key right_key) w =
     andThen (CreateExecutor env left w) (\<lambda>(L, l, w).
     andThen (CreateExecutor env right w) (\<lambda>(R, r, w).
     andThen (join_schemas schema left right) (\<lambda>plan. build_hash_join env plan left_key right_key L R l r w)))"

subsection \<open>The engine\<close>

text \<open>The result set may be a null pointer. The handler catches the exceptions of the program, not those of the
  library, and returns \<open>false\<close> with the rows so far; the state of the storage at that point is not followed.\<close>

type_synonym 'w outcome = "bool \<times> tuple list option \<times> 'w option"

definition modify_flag :: "PlanType \<Rightarrow> bool" where
  "modify_flag plan_type \<longleftrightarrow> plan_type \<noteq> InsertPlan \<and> plan_type \<noteq> UpdatePlan \<and> plan_type \<noteq> DeletePlan"

fun engine_loop ::
    "nat \<Rightarrow> PlanType \<Rightarrow> ('e, 'w) executor \<Rightarrow> 'e \<Rightarrow> 'w \<Rightarrow> row \<Rightarrow> tuple list option \<Rightarrow> 'w outcome result" where
  "engine_loop 0 plan_type C e w row result_set = Inl Crash"
| "engine_loop (Suc fuel) plan_type C e w row result_set = (case Next C e w row of
     Inl (Exception t msg) \<Rightarrow> Inr (False, result_set, None)
   | Inl err \<Rightarrow> Inl err
   | Inr (found, row, e, w) \<Rightarrow>
       if found then engine_loop fuel plan_type C e w row
         (if modify_flag plan_type then map_option (\<lambda>ts. ts @ [fst row]) result_set else result_set)
       else Inr (True, result_set, Some w))"

text \<open>The executor is built and initialised outside the \<open>try\<close> block.\<close>

definition ExecutionEngine_Execute ::
    "('s, 'p) environment \<Rightarrow> plan_node \<Rightarrow> tuple list option \<Rightarrow> 's world \<Rightarrow> 's world outcome result" where
  "ExecutionEngine_Execute env plan result_set w =
     andThen (CreateExecutor env plan w) (\<lambda>(C, e, w).
     andThen (Init C e w) (\<lambda>(e, w).
     engine_loop (exec_fuel env) (GetType plan) C e w (fresh_row (exec_cfg env)) result_set))"

end
