(* ===== verification/QueryPlans.thy ===== *)
theory QueryPlans
  imports ExecutorFactory QueryExamples
begin

section \<open>What a plan computes\<close>

text \<open>
  The rows of a plan, by recursion on the plan, over the tuples of the tables, and the proof that the executor that the
  factory builds for the plan produces them: by induction on the plan, each step being the contract of one operator.
  It holds in every pool of the kind of \<open>page_pool\<close>; the engine on the pool instance is the property below.
\<close>

subsection \<open>Executors that produce rows\<close>

text \<open>The state after construction has no row to come, or all of them.\<close>

definition produces :: "('e, 'w) executor \<Rightarrow> ('w \<Rightarrow> bool) \<Rightarrow> 'e \<Rightarrow> row list \<Rightarrow> bool" where
  "produces C I e rows \<longleftrightarrow>
     (\<exists>V remaining. producer C I V remaining rows \<and> V e \<and> (remaining e = [] \<or> remaining e = rows))"

lemma producesE:
  assumes "produces C I e rows"
  obtains V remaining where "producer C I V remaining rows" "V e" "remaining e = [] \<or> remaining e = rows"
  using assms by (auto simp: produces_def)

context producer
begin

lemma wrapped_producer:
  assumes st: "\<And>st. the_state (wrap_state st) = Some st"
  shows "producer (wrapped wrap_state the_state C) I (\<lambda>e. \<exists>st. the_state e = Some st \<and> V st)
    (\<lambda>e. remaining (the (the_state e))) rows"
proof (unfold_locales, unfold wrapped_def executor.select_convs)
  fix e w r
  assume "\<exists>st. the_state e = Some st \<and> V st" and w: "I w"
  then obtain a where a: "the_state e = Some a" "V a" by blast
  from Next_delivers [OF a(2) w, of r] a(1)
  show "\<exists>b r' e' w'. andThen (or_crash (the_state e)) (\<lambda>st. andThen (Next C st w r) (\<lambda>(found, row, st, w).
      Inr (found, row, wrap_state st, w))) = Inr (b, r', e', w') \<and> (\<exists>st. the_state e' = Some st \<and> V st) \<and> I w' \<and>
    delivers b r' (remaining (the (the_state e))) (remaining (the (the_state e')))"
    using st by (fastforce simp: or_crash_def)
next
  fix e w
  assume "\<exists>st. the_state e = Some st \<and> V st" and w: "I w"
  then obtain a where a: "the_state e = Some a" "V a" by blast
  from Init_all [OF a(2) w] a(1)
  show "\<exists>e' w'. andThen (or_crash (the_state e)) (\<lambda>st. andThen (Init C st w) (\<lambda>(st, w). Inr (wrap_state st, w))) =
      Inr (e', w') \<and> (\<exists>st. the_state e' = Some st \<and> V st) \<and> I w' \<and> remaining (the (the_state e')) = rows"
    using st by (fastforce simp: or_crash_def)
qed

lemma produced: "V e \<Longrightarrow> remaining e = [] \<or> remaining e = rows \<Longrightarrow> produces C I e rows"
  unfolding produces_def using producer_axioms by blast

end

lemma wrapped_produces:
  assumes "produces C I st rows" "\<And>st. the_state (wrap_state st) = Some st"
  shows "produces (wrapped wrap_state the_state C) I (wrap_state st) rows"
proof (rule producesE [OF assms(1)])
  fix V remaining
  assume a: "producer C I V remaining rows" "V st" "remaining st = [] \<or> remaining st = rows"
  show ?thesis
    by (rule producer.produced [OF producer.wrapped_producer [OF a(1), of the_state wrap_state, OF assms(2)]]) (use a assms(2) in auto)
qed

text \<open>The contracts of the operators, outside their locales.\<close>

context limited
begin

lemma limit_produces:
  assumes "V c" "remaining c = [] \<or> remaining c = rows"
  shows "produces (Limit C lim) I (LimitExecutor 0 c) (take lim rows)"
  by (rule limit.produced) (use assms in auto)

end

context distinct_rows
begin

lemma distinct_produces:
  assumes "V c" "remaining c = [] \<or> remaining c = rows"
  shows "produces (Distinct fuel F C schema) I (DistinctExecutor [] c)
    (firsts (row_key F schema) [] rows)"
proof (rule dist.produced)
  have "table_ok []" using keys by (auto simp: table_ok_def um_ok_def keys_ok_def)
  then show "distinct_valid (DistinctExecutor [] c)" using assms by (auto simp: distinct_valid_def)
  show "distinct_remaining (DistinctExecutor [] c) = [] \<or> distinct_remaining (DistinctExecutor [] c) = firsts key [] rows"
    using assms(2) by (auto simp: distinct_remaining_def)
qed

end

context nested_loop
begin

lemma loop_join_produces:
  assumes "VL l" "VR r"
  shows "produces (NestedLoopJoin fuel cfg F L R plan predicate) I (NestedLoopJoinExecutor l r lrow False)
     (join_rows cfg F plan predicate rowsL rowsR)"
  by (rule join.produced) (use assms in auto)

end

context hash_join
begin

lemma hash_join_produces:
  assumes "VL l" "VR r" "I w"
  shows "\<exists>st w'. HashJoin_new fuel cfg F L R plan left_key l r w = Inr (st, w') \<and> I w' \<and>
    produces (HashJoin fuel cfg F L R plan right_key) I st
      (hash_join_rows cfg F plan left_key right_key rowsL rowsR)"
proof -
  obtain l' r' w' where 1: "HashJoin_new fuel cfg F L R plan left_key l r w = Inr (HashJoinExecutor l' r' 0 (map entry rowsL) [], w')"
    "VL l'" "VR r'" "I w'" "remR r' = rowsR" using HashJoin_new_table [OF assms] by blast
  have "produces (HashJoin fuel cfg F L R plan right_key) I
    (HashJoinExecutor l' r' 0 (map entry rowsL) []) (hash_join_rows cfg F plan left_key right_key rowsL rowsR)"
    by (rule hj.produced) (use 1 in \<open>auto simp: hj_valid_def hj_remaining_def\<close>)
  with 1 show ?thesis by blast
qed

end

lemma Limit_produces: "produces C I e rows \<Longrightarrow> produces (Limit C n) I (LimitExecutor 0 e) (take n rows)"
  by (elim producesE) (rule limited.limit_produces [OF limited.intro]; assumption)

lemma Distinct_produces:
  assumes "produces C I e rows" "keys_ok F schema rows" "length rows < fuel"
  shows "produces (Distinct fuel F C schema) I (DistinctExecutor [] e) (firsts (row_key F schema) [] rows)"
  using assms(1)
  by (elim producesE) (rule distinct_rows.distinct_produces [OF distinct_rows.intro [OF _ distinct_rows_axioms.intro [OF assms(2,3)]]];
      assumption)

lemma NestedLoopJoin_produces:
  assumes "produces L I l ls" "produces R I r rs" "join_computes cfg F plan p ls rs" "Suc (length ls) * Suc (length rs) \<le> fuel"
  shows "produces (NestedLoopJoin fuel cfg F L R plan p) I (NestedLoopJoinExecutor l r lrow False) (join_rows cfg F plan p ls rs)"
  using assms(1,2)
  by (elim producesE)
    (rule nested_loop.loop_join_produces [OF nested_loop.intro [OF _ _ nested_loop_axioms.intro [OF assms(3,4)]]]; assumption)

lemma HashJoin_produces:
  assumes "produces L I l ls" "produces R I r rs" "I w" "hash_join_ok cfg F plan lk rk ls rs" "length ls < fuel" "length rs < fuel"
  shows "\<exists>st w'. HashJoin_new fuel cfg F L R plan lk l r w = Inr (st, w') \<and> I w' \<and>
    produces (HashJoin fuel cfg F L R plan rk) I st (hash_join_rows cfg F plan lk rk ls rs)"
  using assms(1,2)
  by (elim producesE)
    (rule hash_join.hash_join_produces [OF hash_join.intro [OF _ _ hash_join_axioms.intro [OF assms(4-6)]]]; (assumption | rule assms(3)))

lemma no_rows: "produces \<lparr>Init = (\<lambda>e w. Inr (e, w)), Next = (\<lambda>e w row. Inr (False, row, e, w))\<rparr> I e []"
  unfolding produces_def
  by (rule exI [of _ "\<lambda>_. True"], rule exI [of _ "\<lambda>_. []"]) (auto simp: producer_def)

subsection \<open>The rows of a plan\<close>

definition table_entry :: "table_content list \<Rightarrow> table_heap \<Rightarrow> table_content option" where
  "table_entry db th = List.find (\<lambda>t. fst t = th) db"

definition plan_schemas :: "Schema \<Rightarrow> plan_node \<Rightarrow> plan_node \<Rightarrow> join_plan" where
  "plan_schemas schema l r = projr (join_schemas schema l r)"

fun plan_rows :: "('s, 'p) environment \<Rightarrow> table_content list \<Rightarrow> plan_node \<Rightarrow> row list" where
  "plan_rows env db (SeqScanPlanNode plan) = (case SeqScan_new (GetCatalog env) plan of
     Inl _ \<Rightarrow> []
   | Inr sc \<Rightarrow> (case table_entry db (table_of (scan_info sc)) of
       None \<Rightarrow> []
     | Some (th, ps, ts) \<Rightarrow> scan_rows (exec_cfg env) (exec_doubles env) sc ts))"
| "plan_rows env db (LimitPlanNode schema child n) = take n (plan_rows env db child)"
| "plan_rows env db (DistinctPlanNode schema child) = firsts (row_key (exec_doubles env) schema) [] (plan_rows env db child)"
| "plan_rows env db (NestedLoopJoinPlanNode schema l r predicate) =
     join_rows (exec_cfg env) (exec_doubles env) (plan_schemas schema l r) (projr (predicate_of predicate))
       (plan_rows env db l) (plan_rows env db r)"
| "plan_rows env db (HashJoinPlanNode schema l r lk rk) =
     hash_join_rows (exec_cfg env) (exec_doubles env) (plan_schemas schema l r) lk rk (plan_rows env db l) (plan_rows env db r)"
| "plan_rows env db _ = []"

text \<open>The expressions have values on the rows they meet, the tables are in the database, and the fuel is enough.\<close>

fun plan_ok :: "('s, 'p) environment \<Rightarrow> table_content list \<Rightarrow> plan_node \<Rightarrow> bool" where
  "plan_ok env db (SeqScanPlanNode plan) = (case SeqScan_new (GetCatalog env) plan of
     Inl _ \<Rightarrow> False
   | Inr sc \<Rightarrow> (case table_entry db (table_of (scan_info sc)) of
       None \<Rightarrow> False
     | Some (th, ps, ts) \<Rightarrow> scan_computes (exec_cfg env) (exec_doubles env) sc ts \<and> length ps < exec_fuel env \<and> length ts < exec_fuel env))"
| "plan_ok env db (IndexScanPlanNode schema predicate i) \<longleftrightarrow> True"
| "plan_ok env db (LimitPlanNode schema child n) \<longleftrightarrow> plan_ok env db child"
| "plan_ok env db (DistinctPlanNode schema child) \<longleftrightarrow>
     plan_ok env db child \<and> distinct_ready (exec_doubles env) schema (plan_rows env db child) (exec_fuel env)"
| "plan_ok env db (NestedLoopJoinPlanNode schema l r predicate) \<longleftrightarrow>
     plan_ok env db l \<and> plan_ok env db r \<and> OutputSchema l \<noteq> None \<and> OutputSchema r \<noteq> None \<and>
     join_ready (exec_cfg env) (exec_doubles env) (plan_schemas schema l r) (projr (predicate_of predicate))
       (plan_rows env db l) (plan_rows env db r) (exec_fuel env)"
| "plan_ok env db (NestedIndexJoinPlanNode schema child predicate t i so si) \<longleftrightarrow> plan_ok env db child"
| "plan_ok env db (HashJoinPlanNode schema l r lk rk) \<longleftrightarrow>
     plan_ok env db l \<and> plan_ok env db r \<and> OutputSchema l \<noteq> None \<and> OutputSchema r \<noteq> None \<and>
     hash_join_ready (exec_cfg env) (exec_doubles env) (plan_schemas schema l r) lk rk
       (plan_rows env db l) (plan_rows env db r) (exec_fuel env)"
| "plan_ok env db _ \<longleftrightarrow> False"

lemma plan_schemas_eq:
  "OutputSchema l \<noteq> None \<Longrightarrow> OutputSchema r \<noteq> None \<Longrightarrow> join_schemas schema l r = Inr (plan_schemas schema l r)"
  by (auto simp: plan_schemas_def join_schemas_def or_crash_def)

lemma predicate_of_ok: "\<exists>q. predicate_of p = Inr q"
  by (cases p) (auto simp: predicate_of_def GetBooleanValue_def Value_int8_def)

lemma table_entry_in: "table_entry db th = Some t \<Longrightarrow> t \<in> set db \<and> fst t = th"
  by (auto simp: table_entry_def find_Some_iff)

subsection \<open>The executor of a plan\<close>

context table_scan
begin

lemma scan_produces:
  assumes "position cur" "tuples_from ts cur = []"
  shows "produces (SeqScan fuel ops cfg F sc) (db_state cfg db txn) cur (scan_rows cfg F sc ts)"
  by (rule scan.produced) (use assms in auto)

end

context page_pool
begin

lemma build_scan_produces:
  assumes "GetBufferPoolManager env = ops_of new_page fetch unpin get put" "plan_ok env db (SeqScanPlanNode plan)"
    "db_state (exec_cfg env) db txn w"
  shows "\<exists>C e. build_scan env plan w = Inr (C, e, w) \<and>
    produces C (db_state (exec_cfg env) db txn) e (plan_rows env db (SeqScanPlanNode plan))"
proof -
  obtain sc th ps ts where sc: "SeqScan_new (GetCatalog env) plan = Inr sc" "table_entry db (table_of (scan_info sc)) = Some (th, ps, ts)"
    "scan_computes (exec_cfg env) (exec_doubles env) sc ts" "length ps < exec_fuel env" "length ts < exec_fuel env"
    using assms(2) by (auto split: sum.splits option.splits)
  have in_db: "(table_of (scan_info sc), ps, ts) \<in> set db" using table_entry_in [OF sc(2)] by auto
  have "holds_table (exec_cfg env) (fst w) (table_of (scan_info sc), ps, ts)"
    using in_db assms(3) by (auto simp: db_state_def list_all_iff)
  from holds_tableD(5) [OF this] have start: "tuples_from ts (SeqScan_start (exec_cfg env)) = []"
    by (intro tuples_from_end) (simp add: SeqScan_start_def Tuple_default_def RID_default_def)
  have pos: "table_scan.position (exec_cfg env) (exec_doubles env) db sc ps ts (exec_fuel env) (SeqScan_start (exec_cfg env))"
    using sc(3-5) in_db
    by (simp add: table_scan.position_def [OF table_scan.intro, OF page_pool_axioms] SeqScan_start_def Tuple_default_def RID_default_def)
  have "produces (SeqScan (exec_fuel env) (GetBufferPoolManager env) (exec_cfg env) (exec_doubles env) sc)
    (db_state (exec_cfg env) db txn) (SeqScan_start (exec_cfg env)) (scan_rows (exec_cfg env) (exec_doubles env) sc ts)"
    unfolding assms(1) by (rule table_scan.scan_produces [OF table_scan.intro, OF page_pool_axioms pos start])
  from wrapped_produces [OF this, of the_scan SeqScanState] show ?thesis
    using sc(1,2) by (auto simp: build_scan_def)
qed

lemma CreateExecutor_produces:
  assumes env: "GetBufferPoolManager env = ops_of new_page fetch unpin get put"
  shows "plan_ok env db plan \<Longrightarrow> db_state (exec_cfg env) db txn w \<Longrightarrow>
    \<exists>C e w'. CreateExecutor env plan w = Inr (C, e, w') \<and> db_state (exec_cfg env) db txn w' \<and>
      produces C (db_state (exec_cfg env) db txn) e (plan_rows env db plan)"
proof (induction plan arbitrary: w)
  case (SeqScanPlanNode plan)
  then show ?case using build_scan_produces [OF env] by fastforce
next
  case (LimitPlanNode schema child n)
  then obtain C e w' where c: "CreateExecutor env child w = Inr (C, e, w')" "db_state (exec_cfg env) db txn w'"
    "produces C (db_state (exec_cfg env) db txn) e (plan_rows env db child)" by fastforce
  from wrapped_produces [OF Limit_produces [OF c(3)], of the_limit LimitState n] c(1,2) show ?case by simp
next
  case (DistinctPlanNode schema child)
  then obtain C e w' where c: "CreateExecutor env child w = Inr (C, e, w')" "db_state (exec_cfg env) db txn w'"
    "produces C (db_state (exec_cfg env) db txn) e (plan_rows env db child)" by fastforce
  have "keys_ok (exec_doubles env) schema (plan_rows env db child)" "length (plan_rows env db child) < exec_fuel env"
    using DistinctPlanNode.prems(1) by (auto simp: distinct_ready_def)
  from wrapped_produces [OF Distinct_produces [OF c(3) this], of the_distinct DistinctState] c(1,2) show ?case by simp
next
  case (NestedLoopJoinPlanNode schema l r p)
  note I = NestedLoopJoinPlanNode.IH and P = NestedLoopJoinPlanNode.prems
  have lr: "plan_ok env db l" "plan_ok env db r" using P(1) by simp_all
  obtain L e1 w1 where l: "CreateExecutor env l w = Inr (L, e1, w1)" "db_state (exec_cfg env) db txn w1"
    "produces L (db_state (exec_cfg env) db txn) e1 (plan_rows env db l)" using I(1) [OF lr(1) P(2)] by blast
  obtain R e2 w2 where r: "CreateExecutor env r w1 = Inr (R, e2, w2)"
    "db_state (exec_cfg env) db txn w2" "produces R (db_state (exec_cfg env) db txn) e2 (plan_rows env db r)"
    using I(2) [OF lr(2) l(2)] by blast
  have ok: "join_schemas schema l r = Inr (plan_schemas schema l r)"
    "join_computes (exec_cfg env) (exec_doubles env) (plan_schemas schema l r) (projr (predicate_of p)) (plan_rows env db l) (plan_rows env db r)"
    "Suc (length (plan_rows env db l)) * Suc (length (plan_rows env db r)) \<le> exec_fuel env"
    using P(1) plan_schemas_eq by (auto simp: join_ready_def)
  obtain q where q: "predicate_of p = Inr q" using predicate_of_ok by blast
  have "produces (NestedLoopJoin (exec_fuel env) (exec_cfg env) (exec_doubles env) L R (plan_schemas schema l r) q)
    (db_state (exec_cfg env) db txn) (NestedLoopJoinExecutor e1 e2 (fresh_row (exec_cfg env)) False)
    (plan_rows env db (NestedLoopJoinPlanNode schema l r p))"
    using NestedLoopJoin_produces [OF l(3) r(3) ok(2,3)] q by simp
  from wrapped_produces [OF this, of the_loop_join NestedLoopJoinState]
  show ?case by (simp add: l(1) r(1,2) ok(1) q build_loop_join_def del: plan_rows.simps)
next
  case (HashJoinPlanNode schema l r lk rk)
  note I = HashJoinPlanNode.IH and P = HashJoinPlanNode.prems
  have lr: "plan_ok env db l" "plan_ok env db r" using P(1) by simp_all
  obtain L e1 w1 where l: "CreateExecutor env l w = Inr (L, e1, w1)" "db_state (exec_cfg env) db txn w1"
    "produces L (db_state (exec_cfg env) db txn) e1 (plan_rows env db l)" using I(1) [OF lr(1) P(2)] by blast
  obtain R e2 w2 where r: "CreateExecutor env r w1 = Inr (R, e2, w2)"
    "db_state (exec_cfg env) db txn w2" "produces R (db_state (exec_cfg env) db txn) e2 (plan_rows env db r)"
    using I(2) [OF lr(2) l(2)] by blast
  have ok: "join_schemas schema l r = Inr (plan_schemas schema l r)"
    "hash_join_ok (exec_cfg env) (exec_doubles env) (plan_schemas schema l r) lk rk (plan_rows env db l) (plan_rows env db r)"
    "length (plan_rows env db l) < exec_fuel env" "length (plan_rows env db r) < exec_fuel env"
    using P(1) plan_schemas_eq by (auto simp: hash_join_ready_def)
  from HashJoin_produces [OF l(3) r(3,2) ok(2-4)] obtain st w3 where h:
    "HashJoin_new (exec_fuel env) (exec_cfg env) (exec_doubles env) L R (plan_schemas schema l r) lk e1 e2 w2 = Inr (st, w3)"
    "db_state (exec_cfg env) db txn w3"
    "produces (HashJoin (exec_fuel env) (exec_cfg env) (exec_doubles env) L R (plan_schemas schema l r) rk)
       (db_state (exec_cfg env) db txn) st (plan_rows env db (HashJoinPlanNode schema l r lk rk))" by auto
  from wrapped_produces [OF h(3), of the_hash_join HashJoinState] l(1) r(1) ok(1) h(1,2)
  show ?case by (simp add: build_hash_join_def)
qed (use no_rows [of "db_state (exec_cfg env) db txn"] in \<open>fastforce simp: IndexScan_def NestIndexJoin_def\<close>)+

end

subsection \<open>The engine\<close>

text \<open>The result set after the rows \<open>ts\<close>.\<close>

definition add_rows :: "PlanType \<Rightarrow> tuple list \<Rightarrow> tuple list option \<Rightarrow> tuple list option" where
  "add_rows plan_type ts = (if modify_flag plan_type then map_option (\<lambda>rs. rs @ ts) else id)"

lemma add_rows_simps [simp]:
  "add_rows plan_type [] rs = rs"
  "\<not> modify_flag plan_type \<Longrightarrow> add_rows plan_type ts rs = rs"
  "modify_flag plan_type \<Longrightarrow> add_rows plan_type ts (map_option (\<lambda>rs. rs @ [t]) rs) = add_rows plan_type (t # ts) rs"
  by (cases rs; simp add: add_rows_def)+

lemma engine_loop_returns:
  "execute_loop fuel C e w row = Inr (ts, w') \<Longrightarrow>
    engine_loop fuel plan_type C e w row result_set = Inr (True, add_rows plan_type ts result_set, Some w')"
proof (induction fuel arbitrary: e w row result_set ts)
  case (Suc fuel)
  from Suc.prems show ?case
    by (auto simp: andThen_def Suc.IH split: sum.splits if_splits)
qed simp

lemma wrapped_execute_loop:
  assumes "\<And>st. the_state (wrap_state st) = Some st"
  shows "execute_loop n (wrapped wrap_state the_state C) (wrap_state st) w row = execute_loop n C st w row"
  by (induction n arbitrary: st w row) (simp_all add: assms wrapped_def or_crash_def andThen_def split: sum.split)

lemma wrapped_Execute:
  assumes "\<And>st. the_state (wrap_state st) = Some st"
  shows "Execute n cfg (wrapped wrap_state the_state C) (wrap_state st) w = Execute n cfg C st w"
proof -
  have "Init (wrapped wrap_state the_state C) (wrap_state st) w = andThen (Init C st w) (\<lambda>(st, w). Inr (wrap_state st, w))"
    by (simp add: assms wrapped_def or_crash_def)
  then show ?thesis
    by (cases "Init C st w") (auto simp: Execute_def wrapped_execute_loop [of the_state wrap_state, OF assms])
qed

lemma Aggregation_runs:
  assumes "produces C I e rows" "I w" "groups_ready F plan schema rows fuel"
    and "mset (order (groups_of F plan schema (initial_values plan) rows)) = mset (groups_of F plan schema (initial_values plan) rows)"
    and "agg_computes cfg F plan (map snd (groups_of F plan schema (initial_values plan) rows))"
  shows "\<exists>st w1 w2. Aggregation_new fuel cfg F C plan schema e w = Inr (st, w1) \<and> I w1 \<and>
    Execute fuel cfg (Aggregation order cfg F C plan) st w1 =
      Inr (agg_tuples cfg F plan (map snd (order (groups_of F plan schema (initial_values plan) rows))), w2) \<and> I w2"
proof (rule producesE [OF assms(1)])
  fix V remaining
  assume p: "producer C I V remaining rows" and V: "V e"
  have ready: "groups_ok F plan schema (initial_values plan) rows" "length rows < fuel"
    using assms(3) by (auto simp: groups_ready_def)
  note loc = aggregation_rows.intro [OF p aggregation_rows_axioms.intro [OF initial_values_ok ready]]
  show ?thesis by (rule aggregation_rows.Aggregation_Execute [OF loc]) (rule V assms)+
qed

subsection \<open>Queries\<close>

text \<open>An aggregation is the root of a query; the other plans that return rows can be anywhere in it.\<close>

definition query_groups :: "('s, 'p) environment \<Rightarrow> table_content list \<Rightarrow> aggregation_plan \<Rightarrow> plan_node \<Rightarrow> agg_table" where
  "query_groups env db plan child =
     int_groups (exec_doubles env) plan (the (OutputSchema child)) (plan_rows env db child)"

text \<open>The conditions of \<open>Aggregates\<close>: keys without nulls, non-null integers, sums that fit.\<close>

definition groups_ints :: "('s, 'p) environment \<Rightarrow> table_content list \<Rightarrow> aggregation_plan \<Rightarrow> plan_node \<Rightarrow> bool" where
  "groups_ints env db plan child \<longleftrightarrow>
     group_keys_ok (exec_doubles env) plan (the (OutputSchema child)) (plan_rows env db child) \<and>
     int_inputs (exec_doubles env) plan (the (OutputSchema child)) (plan_rows env db child) \<and>
     sums_fit (exec_doubles env) plan (the (OutputSchema child)) (plan_rows env db child)"

fun query_tuples :: "('s, 'p) environment \<Rightarrow> table_content list \<Rightarrow> plan_node \<Rightarrow> tuple list" where
  "query_tuples env db (AggregationPlanNode plan child) =
     agg_tuples (exec_cfg env) (exec_doubles env) plan (map snd (group_order env (query_groups env db plan child)))"
| "query_tuples env db plan = map fst (plan_rows env db plan)"

fun query_ok :: "('s, 'p) environment \<Rightarrow> table_content list \<Rightarrow> plan_node \<Rightarrow> bool" where
  "query_ok env db (AggregationPlanNode plan child) \<longleftrightarrow> plan_ok env db child \<and> OutputSchema child \<noteq> None \<and>
     groups_ints env db plan child \<and> length (plan_rows env db child) < exec_fuel env \<and>
     agg_computes (exec_cfg env) (exec_doubles env) plan (map snd (query_groups env db plan child)) \<and>
     mset (group_order env (query_groups env db plan child)) = mset (query_groups env db plan child)"
| "query_ok env db plan \<longleftrightarrow> plan_ok env db plan \<and> length (plan_rows env db plan) < exec_fuel env"

lemma engine_of_Execute:
  assumes "CreateExecutor env plan w = Inr (C, e, w1)" "Execute (exec_fuel env) (exec_cfg env) C e w1 = Inr (ts, w2)"
    "modify_flag (GetType plan)"
  shows "ExecutionEngine_Execute env plan (Some rs) w = Inr (True, Some (rs @ ts), Some w2)"
proof -
  obtain e' w' where "Init C e w1 = Inr (e', w')" using assms(2) by (cases "Init C e w1") (auto simp: Execute_def)
  then show ?thesis using assms by (simp add: ExecutionEngine_Execute_def Execute_def engine_loop_returns add_rows_def)
qed

lemma query_okD: "query_ok env db plan \<Longrightarrow> modify_flag (GetType plan)"
  by (cases plan) (auto simp: modify_flag_def)

context page_pool
begin

lemma query_runs:
  assumes env: "GetBufferPoolManager env = ops_of new_page fetch unpin get put"
    and "query_ok env db plan" "db_state (exec_cfg env) db txn w"
  shows "\<exists>C e w1 w2. CreateExecutor env plan w = Inr (C, e, w1) \<and>
    Execute (exec_fuel env) (exec_cfg env) C e w1 = Inr (query_tuples env db plan, w2) \<and> db_state (exec_cfg env) db txn w2"
proof (cases "\<exists>ap child. plan = AggregationPlanNode ap child")
  case True
  then obtain ap child where plan: "plan = AggregationPlanNode ap child" by blast
  have ok: "plan_ok env db child" "groups_ints env db ap child" "length (plan_rows env db child) < exec_fuel env"
    "agg_computes (exec_cfg env) (exec_doubles env) ap (map snd (query_groups env db ap child))"
    "mset (group_order env (query_groups env db ap child)) = mset (query_groups env db ap child)"
    using assms(2) plan by simp_all
  obtain schema where schema: "OutputSchema child = Some schema" using assms(2) plan by auto
  obtain C e w1 where c: "CreateExecutor env child w = Inr (C, e, w1)" "db_state (exec_cfg env) db txn w1"
    "produces C (db_state (exec_cfg env) db txn) e (plan_rows env db child)"
    using CreateExecutor_produces [OF env ok(1) assms(3)] by blast
  note ints = ok(2) [unfolded groups_ints_def]
  note I = groups_are_ints [OF ints [THEN conjunct1] ints [THEN conjunct2, THEN conjunct1] ints [THEN conjunct2, THEN conjunct2]]
  have ready: "groups_ready (exec_doubles env) ap (the (OutputSchema child)) (plan_rows env db child) (exec_fuel env)"
    using I(1) ok(3) by (simp add: groups_ready_def)
  note runs = Aggregation_runs [where order = "group_order env", OF c(3,2) ready, unfolded I(2), folded query_groups_def]
  from runs [OF ok(5,4)] obtain st w2 w3 where
    "Aggregation_new (exec_fuel env) (exec_cfg env) (exec_doubles env) C ap (the (OutputSchema child)) e w1 = Inr (st, w2)"
    "Execute (exec_fuel env) (exec_cfg env) (Aggregation (group_order env) (exec_cfg env) (exec_doubles env) C ap) st w2 =
      Inr (query_tuples env db plan, w3)" "db_state (exec_cfg env) db txn w3" by (auto simp: plan)
  then show ?thesis
    using c(1) schema
    by (cases w3) (auto simp: plan or_crash_def build_aggregation_def wrapped_Execute [of the_aggregation AggregationState])
next
  case False
  then have q: "query_tuples env db plan = map fst (plan_rows env db plan)"
    and ok: "plan_ok env db plan" "length (plan_rows env db plan) < exec_fuel env"
    using assms(2) by (cases plan; simp)+
  obtain C e w1 where c: "CreateExecutor env plan w = Inr (C, e, w1)" "db_state (exec_cfg env) db txn w1"
    "produces C (db_state (exec_cfg env) db txn) e (plan_rows env db plan)"
    using CreateExecutor_produces [OF env ok(1) assms(3)] by blast
  from c(3) obtain V remaining where "producer C (db_state (exec_cfg env) db txn) V remaining (plan_rows env db plan)" "V e"
    by (rule producesE)
  from producer.Execute_rows [OF this c(2) ok(2)] c(1) q show ?thesis by simp
qed

lemma query_engine:
  assumes "GetBufferPoolManager env = ops_of new_page fetch unpin get put" "query_ok env db plan" "db_state (exec_cfg env) db txn w"
  shows "\<exists>w'. ExecutionEngine_Execute env plan (Some rs) w = Inr (True, Some (rs @ query_tuples env db plan), Some w') \<and>
    db_state (exec_cfg env) db txn w'"
  using query_runs [OF assms] engine_of_Execute query_okD [OF assms(2)] by metis

end

text \<open>C1. The engine on the pool instance, run on a plan of sequential scans, limits, removals of duplicates, nested loop and hash
  joins with a final aggregation of integers: it appends to the result set the rows that the plan denotes over the tuples of the
  tables, returns \<open>true\<close>, and leaves the tables, the transaction and the pins as they were. The conditions \<open>query_ok\<close>: the
  tables are in the database; predicates and output expressions have values on the rows they meet; comparison decides the
  equality of the keys of hash joins, groups and removals of duplicates, which excludes nulls in them; no two left rows of a hash
  join have the same key; the aggregates are those of \<open>aggregation_correct\<close>; and the fuel exceeds the numbers of pages,
  tuples and rows. Without the conditions on the keys the code does something else: \<open>hash_join_repeated_key\<close> and
  \<open>group_by_null_crashes\<close>.\<close>

theorem query_correct:
  assumes "GetBufferPoolManager env = bpm_ops (exec_cfg env)" "query_ok env db plan" "database (exec_cfg env) db txn w"
  shows "\<exists>w'. ExecutionEngine_Execute env plan (Some rs) w = Inr (True, Some (rs @ query_tuples env db plan), Some w') \<and>
    database (exec_cfg env) db txn w'"
  using bph.query_engine [of env "exec_cfg env" db plan txn w rs] assms by (simp add: bpm_state)

subsection \<open>A plan on the small database\<close>

text \<open>The first three rows of the table joined with itself.\<close>

definition ab_env :: "(bpm, nat) environment" where
  "ab_env = \<lparr>GetBufferPoolManager = bpm_ops page_cfg, GetCatalog = Catalog\<lparr>tables_by_oid := [0 \<mapsto> ab_info]\<rparr>,
     exec_cfg = page_cfg, exec_doubles = integer_doubles, name_order = id, group_order = id, exec_fuel = 16\<rparr>"

definition ab_plan :: plan_node where
  "ab_plan = LimitPlanNode (out_schema ab_join)
     (NestedLoopJoinPlanNode (out_schema ab_join) (SeqScanPlanNode (scan_plan (ab_scan all_rows)))
       (SeqScanPlanNode (scan_plan (ab_scan all_rows))) (Some a_is_a)) 3"

lemma ab_scan_plan: "SeqScan_new (GetCatalog ab_env) (scan_plan (ab_scan all_rows)) = Inr (ab_scan all_rows)"
  by code_simp

lemma ab_plan_ok: "query_ok ab_env [(ab_heap, [0, 1], ab_tuples)] ab_plan"
  "query_tuples ab_env [(ab_heap, [0, 1], ab_tuples)] ab_plan = [out_tuple 10 10, out_tuple 10 30, out_tuple 20 20]"
proof -
  let ?db = "[(ab_heap, [0, 1], ab_tuples)]" and ?scan = "SeqScanPlanNode (scan_plan (ab_scan all_rows))"
  have env: "exec_cfg ab_env = page_cfg" "exec_doubles ab_env = integer_doubles" "exec_fuel ab_env = 16"
    by (simp_all add: ab_env_def)
  have "table_of (scan_info (ab_scan all_rows)) = ab_heap" by (simp add: ab_scan_def ab_info_def)
  then have entry: "table_entry ?db (table_of (scan_info (ab_scan all_rows))) = Some (ab_heap, [0, 1], ab_tuples)"
    by (simp add: table_entry_def)
  have scan: "plan_rows ab_env ?db ?scan = ab_rows" "plan_ok ab_env ?db ?scan"
    using ab_scan_computes(2) by (simp_all add: ab_scan_plan entry env ab_scan_rows) (simp add: ab_tuples_def)
  have "plan_schemas (out_schema ab_join) ?scan ?scan = ab_join"
    by (simp add: plan_schemas_def join_schemas_def or_crash_def ab_join_def ab_scan_def)
  note join = this predicate_of_def [of "Some a_is_a", simplified]
  have "join_computes page_cfg integer_doubles ab_join a_is_a ab_rows ab_rows" by (rule join_computes_checked) code_simp
  then have "join_ready page_cfg integer_doubles ab_join a_is_a ab_rows ab_rows 16" by (simp add: join_ready_def ab_rows_def)
  then show "query_ok ab_env ?db ab_plan"
    using scan join env by (simp add: ab_plan_def del: plan_rows.simps(1) plan_ok.simps(1))
  have "map fst (take 3 (join_rows page_cfg integer_doubles ab_join a_is_a ab_rows ab_rows)) =
    [out_tuple 10 10, out_tuple 10 30, out_tuple 20 20]" by code_simp
  then show "query_tuples ab_env ?db ab_plan = [out_tuple 10 10, out_tuple 10 30, out_tuple 20 20]"
    using scan join env by (simp add: ab_plan_def del: plan_rows.simps(1))
qed

theorem query_correct_witness:
  "\<exists>s w'. ExecutionEngine_Execute ab_env ab_plan (Some []) (s, ab_txn) =
     Inr (True, Some [out_tuple 10 10, out_tuple 10 30, out_tuple 20 20], Some w')"
proof -
  obtain s where s: "database page_cfg [(ab_heap, [0, 1], ab_tuples)] ab_txn (s, ab_txn)" by (rule ab_database)
  have "GetBufferPoolManager ab_env = bpm_ops (exec_cfg ab_env)" "exec_cfg ab_env = page_cfg" by (simp_all add: ab_env_def)
  with query_correct [OF _ ab_plan_ok(1), of ab_txn "(s, ab_txn)" "[]"] s ab_plan_ok(2) show ?thesis by auto
qed

end
