(* ===== verification/ExpressionTypes.thy ===== *)
theory ExpressionTypes
  imports Expressions Comparison
begin

section \<open>Types of expressions\<close>

text \<open>
  A type system for the expressions of \<^verbatim>\<open>src/include/execution/expressions\<close>, which have declared return types that
  nothing in the program checks. An expression that follows its rules evaluates, on every tuple of the schema, to a
  value of its declared type, and never throws.
\<close>

text \<open>A string that is not null has its zero byte, and a length that the comparison can read as an \<open>int\<close>.\<close>

definition value_good :: "double_ops \<Rightarrow> Value \<Rightarrow> bool" where
  "value_good F v \<longleftrightarrow> Value_ok F v \<and>
     (val_type v = VARCHAR \<longrightarrow> \<not> IsNull v \<longrightarrow> 0 < val_len v \<and> unat (val_len v) < 2 ^ 31)"

definition numeric_type :: "TypeId \<Rightarrow> bool" where
  "numeric_type T \<longleftrightarrow> T \<in> {TINYINT, SMALLINT, INTEGER, BIGINT, DECIMAL}"

definition comparable_types :: "TypeId \<Rightarrow> TypeId \<Rightarrow> bool" where
  "comparable_types T1 T2 \<longleftrightarrow> numeric_type T1 \<and> numeric_type T2 \<or> T1 = VARCHAR \<and> T2 = VARCHAR \<or> T1 = BOOLEAN \<and> T2 = BOOLEAN"

fun typed :: "double_ops \<Rightarrow> TypeId list \<Rightarrow> Expression \<Rightarrow> bool" where
  "typed F \<Gamma> (ColumnValueExpression tuple_idx col_idx ret_type) \<longleftrightarrow> col_idx < length \<Gamma> \<and> ret_type = \<Gamma> ! col_idx"
| "typed F \<Gamma> (ConstantValueExpression val) \<longleftrightarrow> value_good F val"
| "typed F \<Gamma> (ComparisonExpression left right comp_type) \<longleftrightarrow>
     typed F \<Gamma> left \<and> typed F \<Gamma> right \<and> comparable_types (GetReturnType left) (GetReturnType right)"
| "typed F \<Gamma> (AggregateValueExpression is_group_by_term term_idx ret_type) \<longleftrightarrow> False"

lemma comparable_checked: "comparable_types (val_type l) (val_type r) \<Longrightarrow> CheckComparable l r"
  by (auto simp: comparable_types_def numeric_type_def CheckComparable_def numeric_or_varchar_def)

lemma strings_compare:
  assumes "value_good F l" "value_good F r" "val_type l = VARCHAR" "val_type r = VARCHAR" "\<not> IsNull l" "\<not> IsNull r"
  shows "\<exists>c. VARLEN_COMPARE_FUNC F op l r = Inr c"
proof -
  have len: "\<exists>n s. sint (val_len v - 1) = int n \<and> val_varlen v = Some s \<and> n < length s"
    if "value_good F v" "val_type v = VARCHAR" "\<not> IsNull v" for v
  proof -
    have v: "0 < unat (val_len v)" "unat (val_len v) < 2 ^ 31" "\<exists>s. val_varlen v = Some s \<and> length s = unat (val_len v)"
      using that by (auto simp: value_good_def Value_ok_def word_less_nat_alt)
    then have "unat (val_len v - 1) = unat (val_len v) - 1" by (intro unat_minus_one) auto
    then have "sint (val_len v - 1) = int (unat (val_len v) - 1)" using v(2) sint_eq_unat [of "val_len v - 1"] by simp
    then show ?thesis using v(1,3) by (metis diff_less less_one)
  qed
  from len [OF assms(1,3,5)] len [OF assms(2,4,6)] obtain n s m t where
    "sint (val_len l - 1) = int n" "val_varlen l = Some s" "n < length s"
    "sint (val_len r - 1) = int m" "val_varlen r = Some t" "m < length t" by metis
  moreover have "nat (min (int n) (int m)) \<le> length s" "nat (min (int n) (int m)) \<le> length t"
    using \<open>n < length s\<close> \<open>m < length t\<close> by simp_all
  ultimately show ?thesis by (simp add: VARLEN_COMPARE_FUNC_def CompareStrings_def Let_def assms(4))
qed

lemma boolean_cast: "val_type v = BOOLEAN \<Longrightarrow> \<exists>w. Value_CastAs F v BOOLEAN = Inr w"
  by (simp add: Value_CastAs_def Boolean_CastAs_def Boolean_Copy_def Value_int8_def)

text \<open>A comparison of values of comparable types never throws.\<close>

lemma compare_total:
  assumes g: "value_good F l" "value_good F r" and c: "comparable_types (val_type l) (val_type r)"
  shows "\<exists>c. Value_Compare op F l r = Inr c"
proof (cases "IsNull l \<or> IsNull r")
  case True
  then show ?thesis using compare_null [OF comparable_checked [OF c]] by blast
next
  case False
  note cc = comparable_checked [OF c]
  consider T where "val_type l = type_of T" "numeric_type (val_type r)" | "val_type l = DECIMAL" "numeric_type (val_type r)"
    | "val_type l = VARCHAR" "val_type r = VARCHAR" | "val_type l = BOOLEAN" "val_type r = BOOLEAN"
    using c by (auto simp: comparable_types_def numeric_type_def) (metis type_of.simps)+
  then show ?thesis
  proof cases
    case (1 T)
    then show ?thesis
      unfolding Value_Compare_int [OF 1(1) cc] using False by (cases T) (auto simp: compare_func_defs numeric_type_def)
  next
    case 2
    then show ?thesis
      unfolding Value_Compare_other(2) [OF cc 2(1)] using False by (auto simp: DECIMAL_COMPARE_FUNC_def numeric_type_def)
  next
    case 3
    then show ?thesis
      unfolding Value_Compare_other(3) [OF cc 3(1)] using False strings_compare [OF g 3, of op] by simp
  next
    case 4
    obtain w where "Value_CastAs F r BOOLEAN = Inr w" using boolean_cast [OF 4(2)] by blast
    then show ?thesis unfolding Value_Compare_other(1) [OF cc 4(1)] using False by (simp add: BOOLEAN_COMPARE_FUNC_def)
  qed
qed

definition the_boolean :: "int \<Rightarrow> Value" where
  "the_boolean i = member_value BOOLEAN int8_t BUSTUB_BOOLEAN_NULL i"

lemma the_boolean_reads:
  "the_boolean BUSTUB_BOOLEAN_NULL = the_boolean (GetAs int8_t (the_boolean BUSTUB_BOOLEAN_NULL))"
  "the_boolean 1 = the_boolean (GetAs int8_t (the_boolean 1))" "the_boolean 0 = the_boolean (GetAs int8_t (the_boolean 0))"
  by code_simp+

lemma boolean_value: "\<exists>v. GetBooleanValue_Cmp c = Inr v \<and> val_type v = BOOLEAN \<and> value_good F v"
proof -
  have t: "val_type (the_boolean i) = BOOLEAN" for i by (simp add: the_boolean_def member_value_def new_Value_def)
  have "value_good F (the_boolean i)" if "the_boolean i = the_boolean (GetAs int8_t (the_boolean i))" for i
    using that by (simp add: value_good_def Value_ok_def t) (simp add: the_boolean_def)
  then show ?thesis
    using the_boolean_reads t by (cases c) (simp_all add: GetBooleanValue_Cmp_def Value_int8_def the_boolean_def [symmetric])
qed

lemma comparison_typed:
  assumes "value_good F l" "value_good F r" "comparable_types (val_type l) (val_type r)"
  shows "\<exists>v. andThen (PerformComparison F comp_type l r) GetBooleanValue_Cmp = Inr v \<and> val_type v = BOOLEAN \<and> value_good F v"
proof -
  have "\<exists>c. PerformComparison F comp_type l r = Inr c"
    using compare_total [OF assms, of Eq] compare_total [OF assms, of Ne] compare_total [OF assms, of Lt]
      compare_total [OF assms, of Le] compare_total [OF assms, of Gt] compare_total [OF assms, of Ge]
    by (cases comp_type) (simp_all add: PerformComparison_def)
  then show ?thesis using boolean_value by auto
qed

lemma Evaluate_typed:
  assumes "typed F \<Gamma> e"
    and "\<And>i. i < length \<Gamma> \<Longrightarrow> \<exists>v. Tuple_GetValue F t schema i = Inr v \<and> val_type v = \<Gamma> ! i \<and> value_good F v"
  shows "\<exists>v. Evaluate F e t schema = Inr v \<and> val_type v = GetReturnType e \<and> value_good F v"
  using assms(1)
proof (induction e)
  case (ComparisonExpression left right comp_type)
  then obtain l r where "Evaluate F left t schema = Inr l" "val_type l = GetReturnType left" "value_good F l"
    "Evaluate F right t schema = Inr r" "val_type r = GetReturnType right" "value_good F r" by auto
  moreover have "comparable_types (GetReturnType left) (GetReturnType right)" using ComparisonExpression.prems by simp
  ultimately show ?case using comparison_typed [of F l r comp_type] by simp
qed (use assms(2) in \<open>auto simp: GetTypeId_def\<close>)

text \<open>C10. Type soundness: on a tuple that was built from values of the types of its columns, an expression whose column
  references have the declared types and whose comparisons are between comparable types evaluates, without an
  exception, to a well-formed value of its declared type.\<close>

theorem expression_type_soundness:
  assumes "list_all2 (fits F) cs values" "fixed_size cs + sum_list (map var_size values) < 2 ^ 31"
    and "list_all (value_good F) values" "Tuple_new cfg values (Schema_new cs) = Inr t" "typed F (map column_type cs) e"
  shows "\<exists>v. Evaluate F e t (Schema_new cs) = Inr v \<and> val_type v = GetReturnType e \<and> value_good F v"
proof (rule Evaluate_typed [OF assms(5)])
  fix i assume i: "i < length (map column_type cs)"
  have "length cs = length values" using assms(1) by (rule list_all2_lengthD)
  then have "Tuple_GetValue F t (Schema_new cs) i = Inr (values ! i)" "val_type (values ! i) = column_type (cs ! i)"
    "value_good F (values ! i)"
    using Tuple_new_spec [OF assms(1,2), of cfg] assms(1,3,4) i by (auto simp: list_all2_conv_all_nth fits_def list_all_length)
  then show "\<exists>v. Tuple_GetValue F t (Schema_new cs) i = Inr v \<and> val_type v = map column_type cs ! i \<and> value_good F v"
    using i by simp
qed

theorem expression_type_soundness_witness:
  "\<exists>t v. Tuple_new example_cfg example_values (Schema_new example_columns) = Inr t \<and>
    Evaluate integer_doubles (ComparisonExpression (ColumnValueExpression 0 1 INTEGER)
      (ConstantValueExpression (int_value int64_t 5)) LessThan) t (Schema_new example_columns) = Inr v \<and>
    val_type v = BOOLEAN"
proof -
  let ?e = "ComparisonExpression (ColumnValueExpression 0 1 INTEGER) (ConstantValueExpression (int_value int64_t 5)) LessThan"
  have g: "value_good integer_doubles (int_value T i)" for T i
    using int_ok_Value_ok [OF int_ok_int_value [of T i]] by (cases T) (simp_all add: value_good_def)
  have "value_good integer_doubles (hd example_values)"
    by (simp add: example_values_def value_good_def Value_ok_def new_Value_def IsNull_def BUSTUB_VALUE_NULL_def)
  then have "list_all (value_good integer_doubles) example_values" using g by (simp add: example_values_def)
  moreover have "typed integer_doubles (map column_type example_columns) ?e"
    using g by (simp add: example_columns_def comparable_types_def numeric_type_def GetTypeId_def)
  moreover obtain t where "Tuple_new example_cfg example_values (Schema_new example_columns) = Inr t"
    using Tuple_new_spec [OF example_fits(1) [of integer_doubles], of example_cfg] example_fits(2) by auto
  ultimately show ?thesis
    using expression_type_soundness [OF example_fits(1) [of integer_doubles], of example_cfg t ?e] example_fits(2) by auto
qed

end
