(* ===== verification/HeaderPage.thy ===== *)
theory HeaderPage
  imports TablePage Casts
begin

section \<open>The header page\<close>

text \<open>
  \<^verbatim>\<open>src/storage/page/header_page.cpp\<close>: the names of indexes and their root pages, on the bytes of a page.
  Record \<open>i\<close> has 36 bytes from \<open>4 + 36 * i\<close> on, a name that ends in a zero byte and the number of a page.
  \<^term>\<open>None\<close> is an access outside the page or a failed assertion.
\<close>

definition c_str :: "string \<Rightarrow> bytes" where
  "c_str name = string_bytes name @ [0]"

text \<open>\<open>strcmp(a, b) == 0\<close>, where \<open>a\<close> is the memory of the page from a name on.\<close>

fun strcmp_eq :: "bytes \<Rightarrow> bytes \<Rightarrow> bool option" where
  "strcmp_eq (a # as) (b # bs) = (if a \<noteq> b then Some False else if a = 0 then Some True else strcmp_eq as bs)"
| "strcmp_eq _ _ = None"

definition GetRecordCount :: "bytes \<Rightarrow> int option" where
  "GetRecordCount d = map_option sint (read32 d 0)"

definition SetRecordCount :: "bytes \<Rightarrow> int \<Rightarrow> bytes option" where
  "SetRecordCount d record_count = write32 d 0 (of_int record_count)"

definition HeaderPage_Init :: "bytes \<Rightarrow> bytes option" where
  "HeaderPage_Init d = SetRecordCount d 0"

text \<open>\<open>find_record d name i k\<close> is the search from record \<open>i\<close> on, \<open>k\<close> records left.\<close>

fun find_record :: "bytes \<Rightarrow> string \<Rightarrow> nat \<Rightarrow> nat \<Rightarrow> nat option option" where
  "find_record d name i 0 = Some None"
| "find_record d name i (Suc k) = do {
     same \<leftarrow> strcmp_eq (drop (4 + i * 36) d) (c_str name);
     if same then Some (Some i) else find_record d name (Suc i) k
   }"

definition FindRecord :: "bytes \<Rightarrow> string \<Rightarrow> nat option option" where
  "FindRecord d name = do {
     record_num \<leftarrow> GetRecordCount d;
     find_record d name 0 (nat record_num)
   }"

text \<open>A negative number of records puts the new one before the page.\<close>

definition InsertRecord :: "config \<Rightarrow> bytes \<Rightarrow> string \<Rightarrow> page_id_t \<Rightarrow> (bool \<times> bytes) option" where
  "InsertRecord cfg d name root_id = do {
     assert_that (length name < 32);
     assert_that (sint root_id > sint (INVALID_PAGE_ID cfg));
     record_num \<leftarrow> GetRecordCount d;
     found \<leftarrow> FindRecord d name;
     if found \<noteq> None then Some (False, d)
     else do {
       assert_that (0 \<le> record_num);
       let offset = 4 + nat record_num * 36;
       d \<leftarrow> write_bytes d offset (c_str name);
       d \<leftarrow> write32 d (offset + 32) root_id;
       d \<leftarrow> SetRecordCount d (record_num + 1);
       Some (True, d)
     }
   }"

definition DeleteRecord :: "bytes \<Rightarrow> string \<Rightarrow> (bool \<times> bytes) option" where
  "DeleteRecord d name = do {
     record_num \<leftarrow> GetRecordCount d;
     assert_that (record_num > 0);
     found \<leftarrow> FindRecord d name;
     case found of
       None \<Rightarrow> Some (False, d)
     | Some index \<Rightarrow> do {
         let offset = index * 36 + 4;
         d \<leftarrow> memmove d offset (offset + 36) ((nat record_num - index - 1) * 36);
         d \<leftarrow> SetRecordCount d (record_num - 1);
         Some (True, d)
       }
   }"

definition UpdateRecord :: "bytes \<Rightarrow> string \<Rightarrow> page_id_t \<Rightarrow> (bool \<times> bytes) option" where
  "UpdateRecord d name root_id = do {
     assert_that (length name < 32);
     found \<leftarrow> FindRecord d name;
     case found of
       None \<Rightarrow> Some (False, d)
     | Some index \<Rightarrow> do {
         let offset = index * 36 + 4;
         d \<leftarrow> write32 d (offset + 32) root_id;
         Some (True, d)
       }
   }"

text \<open>The result is the page number the code stores through its pointer, if it finds one.\<close>

definition GetRootId :: "bytes \<Rightarrow> string \<Rightarrow> page_id_t option option" where
  "GetRootId d name = do {
     assert_that (length name < 32);
     found \<leftarrow> FindRecord d name;
     case found of
       None \<Rightarrow> Some None
     | Some index \<Rightarrow> do {
         let offset = (index + 1) * 36;
         root_id \<leftarrow> read32 d offset;
         Some (Some root_id)
       }
   }"

subsection \<open>The records of a page\<close>

definition record_count :: "bytes \<Rightarrow> nat" where
  "record_count d = unat (word_at d 0)"

definition record_of :: "bytes \<Rightarrow> bytes \<times> page_id_t" where
  "record_of c = (takeWhile (\<lambda>b. b \<noteq> 0) (sub c 0 32), word_at c 32)"

definition chunk :: "bytes \<Rightarrow> nat \<Rightarrow> bytes" where
  "chunk d i = sub d (4 + i * 36) 36"

definition records :: "bytes \<Rightarrow> (bytes \<times> page_id_t) list" where
  "records d = map (\<lambda>i. record_of (chunk d i)) [0..<record_count d]"

definition header_map :: "bytes \<Rightarrow> string \<rightharpoonup> page_id_t" where
  "header_map d name = map_of (records d) (string_bytes name)"

text \<open>Every record is in the page and has a name that ends, and no two names are equal.\<close>

definition header_ok :: "bytes \<Rightarrow> bool" where
  "header_ok d \<longleftrightarrow> 4 + record_count d * 36 \<le> length d \<and> length d < 2 ^ 31 \<and>
     (\<forall>i<record_count d. 0 \<in> set (sub (chunk d i) 0 32)) \<and> distinct (map fst (records d))"

definition plain_name :: "string \<Rightarrow> bool" where
  "plain_name name \<longleftrightarrow> length name < 32 \<and> 0 \<notin> set (string_bytes name)"

lemma header_okD:
  assumes "header_ok d"
  shows "4 + record_count d * 36 \<le> length d" "length d < 2 ^ 31" "i < record_count d \<Longrightarrow> 0 \<in> set (sub (chunk d i) 0 32)"
    "distinct (map fst (records d))" "record_count d < 2 ^ 31"
  using assms by (auto simp: header_ok_def)

lemma string_bytes_eq_iff [simp]: "string_bytes a = string_bytes b \<longleftrightarrow> a = b"
  by (metis bytes_string_bytes)

lemma length_records [simp]: "length (records d) = record_count d"
  by (simp add: records_def)

lemma records_nth: "i < record_count d \<Longrightarrow> records d ! i = record_of (chunk d i)"
  by (simp add: records_def)

lemma count_sint:
  assumes "4 + record_count d * 36 \<le> length d" "length d < 2 ^ 31"
  shows "GetRecordCount d = Some (int (record_count d))"
  using assms sint_eq_unat [of "word_at d 0"] by (simp add: GetRecordCount_def read32_def record_count_def)

lemma strcmp_eq_spec: "0 \<in> set raw \<Longrightarrow> 0 \<notin> set cs \<Longrightarrow> strcmp_eq raw (cs @ [0]) = Some (takeWhile (\<lambda>b. b \<noteq> 0) raw = cs)"
  by (induction raw arbitrary: cs) (case_tac cs; auto)+

text \<open>A comparison of names stops within the record.\<close>

lemma strcmp_record:
  assumes "4 + i * 36 + 36 \<le> length d" "0 \<in> set (sub (chunk d i) 0 32)" "plain_name name"
  shows "strcmp_eq (drop (4 + i * 36) d) (c_str name) = Some (fst (record_of (chunk d i)) = string_bytes name)"
proof -
  let ?m = "drop (4 + i * 36) d"
  have c: "sub (chunk d i) 0 32 = take 32 ?m" by (simp add: chunk_def sub_def)
  then have "0 \<in> set (take 32 ?m)" using assms(2) by simp
  then have "0 \<in> set ?m" by (rule in_set_takeD)
  moreover have "takeWhile (\<lambda>b. b \<noteq> 0) (take 32 ?m @ drop 32 ?m) = takeWhile (\<lambda>b. b \<noteq> 0) (take 32 ?m)"
    by (rule takeWhile_append1 [OF \<open>0 \<in> set (take 32 ?m)\<close>]) simp
  then have "takeWhile (\<lambda>b. b \<noteq> 0) ?m = takeWhile (\<lambda>b. b \<noteq> 0) (take 32 ?m)" by (simp only: append_take_drop_id)
  ultimately show ?thesis
    using strcmp_eq_spec [of ?m "string_bytes name"] assms(3) by (simp add: c_str_def plain_name_def record_of_def c)
qed

lemma find_record_spec:
  assumes ok: "header_ok d" and n: "plain_name name"
  shows "i + k = record_count d \<Longrightarrow> find_record d name i k =
    Some (find (\<lambda>j. fst (records d ! j) = string_bytes name) [i..<record_count d])"
proof (induction k arbitrary: i)
  case (Suc k)
  then have i: "i < record_count d" by simp
  then have "4 + i * 36 + 36 \<le> length d" using header_okD(1) [OF ok] by simp
  with Suc.IH [of "Suc i"] Suc.prems i show ?case
    by (simp add: strcmp_record [OF _ header_okD(3) [OF ok i] n] records_nth upt_conv_Cons)
qed simp

text \<open>A search finds the one record with the name.\<close>

lemma FindRecord_cases:
  assumes ok: "header_ok d" and n: "plain_name name"
  obtains (absent) "FindRecord d name = Some None" "string_bytes name \<notin> fst ` set (records d)"
  | (found) j where "FindRecord d name = Some (Some j)" "j < record_count d" "fst (records d ! j) = string_bytes name"
      "snd (records d ! j) = word_at d (36 + j * 36)"
proof -
  have f: "FindRecord d name = Some (find (\<lambda>j. fst (records d ! j) = string_bytes name) [0..<record_count d])"
    using find_record_spec [OF ok n, of 0 "record_count d"] count_sint [OF header_okD(1,2) [OF ok]]
    by (simp add: FindRecord_def)
  show ?thesis
  proof (cases "find (\<lambda>j. fst (records d ! j) = string_bytes name) [0..<record_count d]")
    case None
    then have "\<forall>x\<in>set (records d). fst x \<noteq> string_bytes name"
      by (auto simp: find_None_iff in_set_conv_nth simp del: split_paired_All) (metis fst_conv)
    then have "string_bytes name \<notin> fst ` set (records d)" by (metis imageE)
    then show ?thesis using absent f None by simp
  next
    case (Some j)
    then have j: "j < record_count d" "fst (records d ! j) = string_bytes name" by (auto simp: find_Some_iff)
    have "4 + j * 36 + 36 \<le> length d" using header_okD(1) [OF ok] j(1) by simp
    then have "snd (records d ! j) = word_at d (36 + j * 36)"
      using j(1) by (simp add: records_nth record_of_def word_at_def chunk_def sub_sub algebra_simps)
    then show ?thesis using found f Some j by simp
  qed
qed

lemma sub_put_front:
  assumes "length bs \<le> m" "off + m \<le> length d"
  shows "sub (put d off bs) off m = bs @ sub d (off + length bs) (m - length bs)"
  by (rule nth_equalityI) (use assms in \<open>auto simp: nth_sub nth_put nth_append\<close>)

lemma record_fields:
  assumes "4 + i * 36 + 36 \<le> length d"
  shows "sub (chunk d i) 0 32 = sub d (4 + i * 36) 32"
    "record_of (chunk d i) = (takeWhile (\<lambda>b. b \<noteq> 0) (sub d (4 + i * 36) 32), word_at d (36 + i * 36))"
  using assms by (simp_all add: record_of_def word_at_def chunk_def sub_sub algebra_simps)

lemma chunk_put:
  assumes "off + length bs \<le> length d" "4 + i * 36 + 36 \<le> length d" "4 + i * 36 + 36 \<le> off \<or> off + length bs \<le> 4 + i * 36"
  shows "chunk (put d off bs) i = chunk d i"
  unfolding chunk_def by (rule sub_put_other [OF assms])

lemma set_count:
  assumes "4 \<le> length d" "m < 2 ^ 31"
  shows "SetRecordCount d (int m) = Some (put32 d 0 (of_nat m))" "record_count (put32 d 0 (of_nat m)) = m"
    "4 + i * 36 + 36 \<le> length d \<Longrightarrow> chunk (put32 d 0 (of_nat m)) i = chunk d i"
  using assms by (simp_all add: SetRecordCount_def write32_put record_count_def word_at_put_same unat_of_nat_small chunk_put)

lemma header_okI:
  assumes "4 + record_count d * 36 \<le> length d" "length d < 2 ^ 31" "length xs = record_count d" "distinct (map fst xs)"
    and "\<And>i. i < record_count d \<Longrightarrow> record_of (chunk d i) = xs ! i \<and> 0 \<in> set (sub (chunk d i) 0 32)"
  shows "header_ok d" "records d = xs"
proof -
  show "records d = xs" by (rule nth_equalityI) (use assms(3,5) in \<open>simp_all add: records_nth\<close>)
  then show "header_ok d" using assms by (simp add: header_ok_def)
qed

text \<open>A name in its 32 bytes.\<close>

lemma plain_record:
  assumes "plain_name name"
  shows "takeWhile (\<lambda>b. b \<noteq> 0) (c_str name @ bs) = string_bytes name" "0 \<in> set (c_str name)" "length (c_str name) \<le> 32"
proof -
  have "\<And>b. b \<in> set (string_bytes name) \<Longrightarrow> b \<noteq> 0" using assms by (auto simp: plain_name_def)
  then show "takeWhile (\<lambda>b. b \<noteq> 0) (c_str name @ bs) = string_bytes name" by (simp add: c_str_def takeWhile_append2)
qed (use assms in \<open>simp_all add: plain_name_def c_str_def length_string_bytes\<close>)

subsection \<open>The operations on the list of records\<close>

lemma FindRecord_absent:
  assumes "header_ok d" "plain_name name" "string_bytes name \<notin> fst ` set (records d)"
  shows "FindRecord d name = Some None"
  using assms(1,2)
proof (cases rule: FindRecord_cases)
  case (found j)
  then have "records d ! j \<in> set (records d)" by simp
  then show ?thesis using found(3) assms(3) by (metis image_eqI)
qed

lemma InsertRecord_new:
  assumes ok: "header_ok d" and n: "plain_name name" "string_bytes name \<notin> fst ` set (records d)"
    and r: "sint (INVALID_PAGE_ID cfg) < sint root_id" and room: "4 + Suc (record_count d) * 36 \<le> length d"
  shows "\<exists>d'. InsertRecord cfg d name root_id = Some (True, d') \<and> header_ok d' \<and>
    records d' = records d @ [(string_bytes name, root_id)]"
proof -
  let ?n = "record_count d" and ?off = "4 + record_count d * 36" and ?c = "c_str name"
  note o = header_okD [OF ok] and P = plain_record [OF n(1)]
  define d1 where "d1 = put d ?off ?c"
  define d2 where "d2 = put32 d1 (?off + 32) root_id"
  define d3 where "d3 = put32 d2 0 (of_nat (Suc ?n))"
  have b: "?off + length ?c \<le> length d" "?off + 36 \<le> length d" using P(3) room by simp_all
  have l: "length d1 = length d" "length d2 = length d" "length d3 = length d"
    using b by (simp_all add: d1_def d2_def d3_def)
  have n31: "4 \<le> length d2" "Suc ?n < 2 ^ 31" using room o(2) l by simp_all
  note K = set_count [OF n31, folded d3_def]
  have "put32 d1 (36 + ?n * 36) root_id = d2" by (simp add: d2_def)
  then have run: "InsertRecord cfg d name root_id = Some (True, d3)"
    using n(1) r b l K(1) FindRecord_absent [OF ok n] count_sint [OF o(1,2)]
    by (simp add: InsertRecord_def plain_name_def write_bytes_put write32_put d1_def [symmetric] add.commute)
  have old: "chunk d3 i = chunk d i" if "i < ?n" for i
    using that b l by (simp add: K(3)) (simp add: d2_def d1_def chunk_put)
  have new: "chunk d3 ?n = chunk d2 ?n" using b(2) l by (simp add: K(3))
  have "sub d2 ?off 32 = sub d1 ?off 32" using b l by (simp add: d2_def sub_put_other)
  also have "\<dots> = ?c @ sub d (?off + length ?c) (32 - length ?c)"
    unfolding d1_def by (rule sub_put_front) (use P(3) b(2) in simp_all)
  finally have s: "sub d2 ?off 32 = ?c @ sub d (?off + length ?c) (32 - length ?c)" .
  have w: "word_at d2 (36 + ?n * 36) = root_id"
    using word_at_put_same [of "?off + 32" d1 root_id] b l by (simp add: d2_def)
  have last: "record_of (chunk d3 ?n) = (string_bytes name, root_id)" "0 \<in> set (sub (chunk d3 ?n) 0 32)"
    using record_fields [of ?n d2] b(2) l P(1,2) s w by (simp_all add: new)
  have xs: "record_of (chunk d3 i) = (records d @ [(string_bytes name, root_id)]) ! i \<and> 0 \<in> set (sub (chunk d3 i) 0 32)"
    if "i < Suc ?n" for i
    using that old last o(3) by (cases "i = ?n") (simp_all add: nth_append records_nth)
  have "header_ok d3 \<and> records d3 = records d @ [(string_bytes name, root_id)]"
    using header_okI [of d3 "records d @ [(string_bytes name, root_id)]"] xs o(2,4) n(2) l(3) room by (simp add: K(2))
  with run show ?thesis by blast
qed

lemma DeleteRecord_found:
  assumes ok: "header_ok d" and n: "plain_name name" and k: "string_bytes name \<in> fst ` set (records d)"
  shows "\<exists>d' j. DeleteRecord d name = Some (True, d') \<and> header_ok d' \<and> j < record_count d \<and>
    fst (records d ! j) = string_bytes name \<and> records d' = take j (records d) @ drop (Suc j) (records d)"
  using ok n
proof (cases rule: FindRecord_cases)
  case absent
  then show ?thesis using k by simp
next
  case (found j)
  let ?n = "record_count d" and ?off = "j * 36 + 4"
  note o = header_okD [OF ok]
  obtain m where m: "?n = Suc m" using found(2) by (cases ?n) auto
  define w where "w = sub d (?off + 36) ((m - j) * 36)"
  define d1 where "d1 = put d ?off w"
  define d2 where "d2 = put32 d1 0 (of_nat m)"
  have b: "?off + 36 + (m - j) * 36 \<le> length d" "j \<le> m" using o(1) found(2) m by (simp_all add: algebra_simps)
  have l: "length w = (m - j) * 36" "length d1 = length d" "length d2 = length d"
    using b by (simp_all add: w_def d1_def d2_def)
  have m31: "4 \<le> length d1" "m < 2 ^ 31" using b(1) l(2) o(5) m by simp_all
  note K = set_count [OF m31, folded d2_def]
  have "nat (1 + int m) - Suc j = m - j" "put d (j * 36 + 4) (sub d (40 + j * 36) ((m - j) * 36)) = d1"
    by (simp_all add: d1_def w_def add.commute nat_add_distrib)
  then have run: "DeleteRecord d name = Some (True, d2)"
    using found(1) b K(1) count_sint [OF o(1,2)] m by (simp add: DeleteRecord_def memmove_put)
  have c: "chunk d2 i = (if i < j then chunk d i else chunk d (Suc i))" if i: "i < m" for i
  proof (cases "i < j")
    case True
    then show ?thesis using i b l by (simp add: K(3)) (simp add: d1_def chunk_put)
  next
    case False
    then have "chunk d1 i = sub w (4 + i * 36 - ?off) 36"
      unfolding chunk_def d1_def by (intro sub_put_inside) (use b l(1) i in \<open>simp_all add: algebra_simps\<close>)
    also have "\<dots> = chunk d (Suc i)"
      unfolding w_def chunk_def using False b i by (subst sub_sub) (simp_all add: algebra_simps)
    finally show ?thesis using False i b l by (simp add: K(3))
  qed
  let ?xs = "take j (records d) @ drop (Suc j) (records d)"
  have xs: "record_of (chunk d2 i) = ?xs ! i \<and> 0 \<in> set (sub (chunk d2 i) 0 32)" if "i < m" for i
    using that c [OF that] o(3) found(2) m by (auto simp: nth_append records_nth)
  have "distinct (map fst ?xs)"
    using o(4) set_take_disj_set_drop_if_distinct [OF o(4), of j "Suc j"]
    by (simp add: take_map [symmetric] drop_map [symmetric])
  then have "header_ok d2 \<and> records d2 = ?xs"
    using header_okI [of d2 ?xs] xs o(1,2) l(3) found(2) m by (simp add: K(2))
  with run found show ?thesis by blast
qed

lemma UpdateRecord_found:
  assumes ok: "header_ok d" and n: "plain_name name" and k: "string_bytes name \<in> fst ` set (records d)"
  shows "\<exists>d' j. UpdateRecord d name root_id = Some (True, d') \<and> header_ok d' \<and> j < record_count d \<and>
    fst (records d ! j) = string_bytes name \<and> records d' = (records d)[j := (string_bytes name, root_id)]"
  using ok n
proof (cases rule: FindRecord_cases)
  case absent
  then show ?thesis using k by simp
next
  case (found j)
  let ?n = "record_count d" and ?xs = "(records d)[j := (string_bytes name, root_id)]"
  note o = header_okD [OF ok]
  define d1 where "d1 = put32 d (36 + j * 36) root_id"
  have "Suc j * 36 \<le> ?n * 36" using found(2) by (simp only: mult_le_mono1 Suc_leI)
  then have b: "40 + j * 36 \<le> length d" using o(1) by simp
  have l: "length d1 = length d" using b by (simp add: d1_def)
  have run: "UpdateRecord d name root_id = Some (True, d1)"
    using found(1) b n by (simp add: UpdateRecord_def plain_name_def write32_put d1_def add.commute)
  have c: "record_count d1 = ?n" using b by (simp add: record_count_def d1_def word_at_put_other)
  have xs: "record_of (chunk d1 i) = ?xs ! i \<and> 0 \<in> set (sub (chunk d1 i) 0 32)" if i: "i < ?n" for i
  proof -
    have "Suc i * 36 \<le> ?n * 36" using i by (simp only: mult_le_mono1 Suc_leI)
    then have bi: "40 + i * 36 \<le> length d" using o(1) by simp
    show ?thesis
    proof (cases "i = j")
      case False
      then have "chunk d1 i = chunk d i" using bi b unfolding d1_def by (intro chunk_put) auto
      then show ?thesis using False i o(3) [OF i] by (simp add: records_nth)
    next
      case True
      have "sub d1 (4 + j * 36) 32 = sub d (4 + j * 36) 32" using b by (simp add: d1_def sub_put_other)
      moreover have "word_at d1 (36 + j * 36) = root_id" using b by (simp add: d1_def word_at_put_same)
      ultimately show ?thesis
        using True found(2,3) records_nth [OF found(2)] o(3) [OF found(2)] record_fields [of j d] record_fields [of j d1] b l
        by simp
    qed
  qed
  have "map fst ?xs = map fst (records d)" using found(2,3) by (simp add: map_update list_update_same_conv)
  then have "header_ok d1 \<and> records d1 = ?xs"
    using header_okI [of d1 ?xs] xs o(1,2,4) l by (simp add: c)
  with run found show ?thesis by blast
qed

lemma GetRootId_spec:
  assumes ok: "header_ok d" and n: "plain_name name"
  shows "GetRootId d name = Some (header_map d name)"
  using ok n
proof (cases rule: FindRecord_cases)
  case absent
  then have "header_map d name = None" by (simp add: header_map_def map_of_eq_None_iff)
  then show ?thesis using n absent by (simp add: GetRootId_def plain_name_def)
next
  case (found j)
  have "Suc j * 36 \<le> record_count d * 36" using found(2) by (simp only: mult_le_mono1 Suc_leI)
  then have b: "40 + j * 36 \<le> length d" using header_okD(1) [OF ok] by simp
  have "records d ! j \<in> set (records d)" using found(2) by simp
  then have "(string_bytes name, word_at d (36 + j * 36)) \<in> set (records d)" using found(3,4) by (metis prod.collapse)
  then have "header_map d name = Some (word_at d (36 + j * 36))"
    using header_okD(4) [OF ok] by (simp add: header_map_def)
  then show ?thesis using n found(1) b by (simp add: GetRootId_def plain_name_def read32_def)
qed

subsection \<open>The operations on the map from names to pages\<close>

lemma header_map_absent: "string_bytes name \<notin> fst ` set (records d) \<longleftrightarrow> header_map d name = None"
  by (simp add: header_map_def map_of_eq_None_iff)

lemma header_map_eq:
  "map_of (records d') = (map_of (records d))(string_bytes name := x) \<Longrightarrow> header_map d' = (header_map d)(name := x)"
  by (simp add: header_map_def fun_eq_iff)

lemma map_of_middle:
  assumes "distinct (map fst xs)" "j < length xs" "fst (xs ! j) = k"
  shows "map_of (take j xs @ drop (Suc j) xs) = (map_of xs)(k := None)" "map_of (xs[j := (k, v)]) = (map_of xs)(k \<mapsto> v)"
proof -
  obtain w where w: "xs ! j = (k, w)" using assms(3) by (cases "xs ! j") auto
  let ?a = "take j xs" and ?b = "drop (Suc j) xs"
  have x: "xs = ?a @ (k, w) # ?b" using id_take_nth_drop [OF assms(2)] w by simp
  then have "distinct (map fst (?a @ (k, w) # ?b))" using assms(1) by simp
  then have d: "k \<notin> fst ` set ?a" "k \<notin> fst ` set ?b" by auto
  then have m: "map_of ?a k = None" "map_of ?b k = None" by (simp_all add: map_of_eq_None_iff)
  show "map_of (?a @ ?b) = (map_of xs)(k := None)"
    by (subst (3) x) (use m in \<open>auto simp: fun_eq_iff map_add_def split: option.splits\<close>)
  have "xs[j := (k, v)] = ?a @ (k, v) # ?b" using assms(2) by (simp add: upd_conv_take_nth_drop)
  then show "map_of (xs[j := (k, v)]) = (map_of xs)(k \<mapsto> v)"
    by (subst (2) x) (use m in \<open>auto simp: fun_eq_iff map_add_def split: option.splits\<close>)
qed

text \<open>Nothing compares the number of records with the size of the page: a record behind the last one that fits is
  written outside.\<close>

theorem InsertRecord_no_bound:
  assumes "header_ok d" "plain_name name" "header_map d name = None" "length d < 4 + Suc (record_count d) * 36"
  shows "InsertRecord cfg d name root_id = None"
proof -
  have a: "string_bytes name \<notin> fst ` set (records d)" using assms(3) by (simp add: header_map_absent)
  note c = count_sint [OF header_okD(1,2) [OF assms(1)]] and f = FindRecord_absent [OF assms(1,2) a]
  have "write32 d' (36 + record_count d * 36) root_id = None" if "length d' = length d" for d'
    using that assms(4) by (simp add: write32_def write_bytes_def)
  moreover have "length d' = length d" if "write_bytes d (4 + record_count d * 36) bs = Some d'" for d' bs
    using that by (auto simp: write_bytes_def split: if_splits)
  ultimately show ?thesis
    using c f by (auto simp: InsertRecord_def bind_eq_None_conv)
qed

text \<open>C25. The header page is a map from names to root pages, for names of at most 31 bytes without a zero byte and valid
  root pages: inserting adds a name that is not there, updating and deleting change one that is there, a refused call changes
  nothing, and a lookup returns what was stored last. Two calls have no result: an insertion of a new name into a page
  without room for one more record writes outside the page, and a deletion from an empty page fails its assertion.\<close>

theorem HeaderPage_refines_map:
  assumes ok: "header_ok d" and n: "plain_name name" and r: "sint (INVALID_PAGE_ID cfg) < sint root_id"
  defines "step \<equiv> \<lambda>d' x. header_ok d' \<and> header_map d' = (header_map d)(name := x)"
  shows "GetRootId d name = Some (header_map d name) \<and>
    (header_map d name = None \<longrightarrow>
      (if 4 + Suc (record_count d) * 36 \<le> length d
       then \<exists>d'. InsertRecord cfg d name root_id = Some (True, d') \<and> step d' (Some root_id)
       else InsertRecord cfg d name root_id = None) \<and>
      UpdateRecord d name root_id = Some (False, d) \<and>
      DeleteRecord d name = (if 0 < record_count d then Some (False, d) else None)) \<and>
    (header_map d name \<noteq> None \<longrightarrow> InsertRecord cfg d name root_id = Some (False, d) \<and>
      (\<exists>d'. UpdateRecord d name root_id = Some (True, d') \<and> step d' (Some root_id)) \<and>
      (\<exists>d'. DeleteRecord d name = Some (True, d') \<and> step d' None))"
proof (intro conjI impI)
  note o = header_okD [OF ok] and c = count_sint [OF header_okD(1,2) [OF ok]]
  show "GetRootId d name = Some (header_map d name)" by (rule GetRootId_spec [OF ok n])
  {
    assume absent: "header_map d name = None"
    then have a: "string_bytes name \<notin> fst ` set (records d)" by (simp add: header_map_absent)
    note f = FindRecord_absent [OF ok n a]
    have "\<exists>d'. InsertRecord cfg d name root_id = Some (True, d') \<and> step d' (Some root_id)"
      if room: "4 + Suc (record_count d) * 36 \<le> length d"
    proof -
      obtain d' where d': "InsertRecord cfg d name root_id = Some (True, d')" "header_ok d'"
        "records d' = records d @ [(string_bytes name, root_id)]" using InsertRecord_new [OF ok n a r room] by blast
      have "map_of (records d) (string_bytes name) = None" using a by (simp add: map_of_eq_None_iff)
      then have "map_of (records d') = (map_of (records d))(string_bytes name \<mapsto> root_id)"
        by (auto simp: d'(3) fun_eq_iff map_add_def split: option.splits)
      then show ?thesis unfolding step_def using d' header_map_eq by blast
    qed
    then show "if 4 + Suc (record_count d) * 36 \<le> length d
      then \<exists>d'. InsertRecord cfg d name root_id = Some (True, d') \<and> step d' (Some root_id)
      else InsertRecord cfg d name root_id = None"
      using InsertRecord_no_bound [OF ok n absent] by simp
    show "UpdateRecord d name root_id = Some (False, d)" using f n by (simp add: UpdateRecord_def plain_name_def)
    show "DeleteRecord d name = (if 0 < record_count d then Some (False, d) else None)" using f c by (simp add: DeleteRecord_def assert_that_def)
  }
  assume "header_map d name \<noteq> None"
  then have k: "string_bytes name \<in> fst ` set (records d)" using header_map_absent by metis
  show "InsertRecord cfg d name root_id = Some (False, d)"
    using ok n by (cases rule: FindRecord_cases) (use k r n c in \<open>simp_all add: InsertRecord_def plain_name_def\<close>)
  show "\<exists>d'. UpdateRecord d name root_id = Some (True, d') \<and> step d' (Some root_id)"
    using UpdateRecord_found [OF ok n k, of root_id] map_of_middle(2) [OF o(4)] unfolding step_def
    by (metis header_map_eq length_records)
  show "\<exists>d'. DeleteRecord d name = Some (True, d') \<and> step d' None"
    using DeleteRecord_found [OF ok n k] map_of_middle(1) [OF o(4)] unfolding step_def
    by (metis header_map_eq length_records)
qed

subsection \<open>A concrete page\<close>

definition header_cfg :: config where
  "header_cfg = \<lparr>PAGE_SIZE = 128, INVALID_PAGE_ID = - 1, INVALID_LSN = - 1\<rparr>"

text \<open>\<^verbatim>\<open>Init\<close> only writes the number of records.\<close>

lemma Init_header:
  assumes "4 \<le> length d" "length d < 2 ^ 31"
  obtains d' where "HeaderPage_Init d = Some d'" "header_ok d'" "header_map d' = Map.empty" "length d' = length d"
    "record_count d' = 0"
proof -
  note K = set_count [OF assms(1), of 0]
  have "record_count (put32 d 0 0) = 0" using K(2) by simp
  moreover have "length (put32 d 0 0) = length d" using assms(1) by simp
  ultimately show ?thesis
    using that [of "put32 d 0 0"] K(1) assms by (simp add: HeaderPage_Init_def header_ok_def records_def header_map_def fun_eq_iff)
qed

lemma foo_name: "plain_name ''foo''"
  by code_simp

theorem HeaderPage_refines_map_witness:
  "\<exists>d d'. HeaderPage_Init (replicate 128 255) = Some d \<and> InsertRecord header_cfg d ''foo'' 3 = Some (True, d') \<and>
    header_ok d' \<and> header_map d' = [''foo'' \<mapsto> 3]"
proof -
  obtain d where d: "HeaderPage_Init (replicate 128 255) = Some d" "header_ok d" "header_map d = Map.empty"
    "length d = 128" "record_count d = 0" using Init_header [of "replicate 128 255"] by auto
  have "sint (INVALID_PAGE_ID header_cfg) < sint (3 :: page_id_t)" "4 + Suc (record_count d) * 36 \<le> length d"
    using d by (simp_all add: header_cfg_def)
  from HeaderPage_refines_map [OF d(2) foo_name this(1)] this(2) d show ?thesis by auto
qed

theorem InsertRecord_no_bound_witness:
  "\<exists>d. HeaderPage_Init (replicate 32 0) = Some d \<and> InsertRecord header_cfg d ''foo'' 3 = None"
proof -
  obtain d where d: "HeaderPage_Init (replicate 32 0) = Some d" "header_ok d" "header_map d = Map.empty"
    "length d = 32" "record_count d = 0" using Init_header [of "replicate 32 0"] by auto
  show ?thesis using InsertRecord_no_bound [OF d(2) foo_name, of header_cfg 3] d by simp
qed

end
