(* ===== verification/BPlusTreePages.thy ===== *)
theory BPlusTreePages
  imports Prelude
begin

section \<open>Pages of a B+ tree\<close>

text \<open>
  The header, leaf and internal pages of \<^verbatim>\<open>b_plus_tree_page.cpp\<close>, \<^verbatim>\<open>b_plus_tree_leaf_page.h\<close> and
  \<^verbatim>\<open>b_plus_tree_internal_page.h\<close>. The classes of the two kinds of pages extend the header class, and so do the records. The
  array of a page is a list of the capacity of the page; an access outside it is a crash. \<^verbatim>\<open>int\<close> fields are integers:
  their overflow is undefined in the source.
\<close>

subsection \<open>The header\<close>

datatype IndexPageType = INVALID_INDEX_PAGE | LEAF_PAGE | INTERNAL_PAGE

record bpt_page =
  bpt_type :: IndexPageType
  bpt_lsn :: lsn_t
  bpt_size :: int
  bpt_max_size :: int
  bpt_parent :: page_id_t
  bpt_page_id :: page_id_t

definition IsLeafPage :: "'a bpt_page_scheme \<Rightarrow> bool" where
  "IsLeafPage p \<longleftrightarrow> bpt_type p = LEAF_PAGE"

definition IsRootPage :: "'a bpt_page_scheme \<Rightarrow> bool" where
  "IsRootPage p \<longleftrightarrow> bpt_type p = INTERNAL_PAGE"

definition SetPageType :: "IndexPageType \<Rightarrow> 'a bpt_page_scheme \<Rightarrow> 'a bpt_page_scheme" where
  "SetPageType page_type p = p\<lparr>bpt_type := page_type\<rparr>"

definition SetSize :: "int \<Rightarrow> 'a bpt_page_scheme \<Rightarrow> 'a bpt_page_scheme" where
  "SetSize n p = p\<lparr>bpt_size := n\<rparr>"

definition IncreaseSize :: "int \<Rightarrow> 'a bpt_page_scheme \<Rightarrow> 'a bpt_page_scheme" where
  "IncreaseSize amount p = p\<lparr>bpt_size := bpt_size p + amount\<rparr>"

text \<open>The division of integers rounds towards 0.\<close>

definition GetMinSize :: "'a bpt_page_scheme \<Rightarrow> int" where
  "GetMinSize p = (let m = bpt_max_size p + 1 in if 0 \<le> m then m div 2 else - ((- m) div 2))"

definition BPlusTreePage_Init :: "page_id_t \<Rightarrow> page_id_t \<Rightarrow> int \<Rightarrow> 'a bpt_page_scheme \<Rightarrow> 'a bpt_page_scheme" where
  "BPlusTreePage_Init page_id parent_id max_size p = p\<lparr>bpt_page_id := page_id, bpt_parent := parent_id, bpt_max_size := max_size\<rparr>"

subsection \<open>Arrays with integers as indexes\<close>

definition array_get :: "'a list \<Rightarrow> int \<Rightarrow> 'a option" where
  "array_get a i = (if 0 \<le> i then vec_get a (nat i) else None)"

definition array_set :: "'a list \<Rightarrow> int \<Rightarrow> 'a \<Rightarrow> 'a list option" where
  "array_set a i x = (if 0 \<le> i then vec_set a (nat i) x else None)"

text \<open>The first index below a bound, from the given one on, whose key is equal.\<close>

fun find_key :: "('k \<Rightarrow> 'k \<Rightarrow> int) \<Rightarrow> 'k \<Rightarrow> ('k \<times> 'v) list \<Rightarrow> nat \<Rightarrow> nat \<Rightarrow> nat option option" where
  "find_key comparator key a i 0 = Some None"
| "find_key comparator key a i (Suc m) = do {
     e \<leftarrow> vec_get a i;
     if comparator key (fst e) = 0 then Some (Some i) else find_key comparator key a (Suc i) m
   }"

subsection \<open>Leaf pages\<close>

record ('k, 'v) leaf_page = bpt_page +
  leaf_next :: page_id_t
  leaf_array :: "('k \<times> 'v) list"

definition Leaf_KeyAt :: "('k, 'v) leaf_page \<Rightarrow> int \<Rightarrow> 'k option" where
  "Leaf_KeyAt p index = map_option fst (array_get (leaf_array p) index)"

definition KeyIndex :: "('k \<Rightarrow> 'k \<Rightarrow> int) \<Rightarrow> ('k, 'v) leaf_page \<Rightarrow> 'k \<Rightarrow> int option" where
  "KeyIndex comparator p key = do {
     r \<leftarrow> find_key comparator key (leaf_array p) 0 (nat (bpt_size p));
     Some (case r of Some i \<Rightarrow> int i | None \<Rightarrow> - 1)
   }"

definition GetItem :: "('k, 'v) leaf_page \<Rightarrow> int \<Rightarrow> ('k \<times> 'v) option" where
  "GetItem p index = array_get (leaf_array p) index"

definition Leaf_Insert :: "('k \<Rightarrow> 'k \<Rightarrow> int) \<Rightarrow> ('k, 'v) leaf_page \<Rightarrow> 'k \<Rightarrow> 'v \<Rightarrow> (int \<times> ('k, 'v) leaf_page) option" where
  "Leaf_Insert comparator p key value = do {
     r \<leftarrow> find_key comparator key (leaf_array p) 0 (nat (bpt_size p));
     case r of
       Some _ \<Rightarrow> Some (bpt_size p, p)
     | None \<Rightarrow> do {
         a \<leftarrow> array_set (leaf_array p) (bpt_size p) (key, value);
         Some (bpt_size p + 1, p\<lparr>leaf_array := a, bpt_size := bpt_size p + 1\<rparr>)
       }
   }"

definition Leaf_Lookup :: "('k \<Rightarrow> 'k \<Rightarrow> int) \<Rightarrow> ('k, 'v) leaf_page \<Rightarrow> 'k \<Rightarrow> 'v option option" where
  "Leaf_Lookup comparator p key = do {
     r \<leftarrow> find_key comparator key (leaf_array p) 0 (nat (bpt_size p));
     case r of
       Some i \<Rightarrow> do { e \<leftarrow> vec_get (leaf_array p) i; Some (Some (snd e)) }
     | None \<Rightarrow> Some None
   }"

text \<open>The inner loop of the removal ends after its first step; the outer one goes on with the smaller size.\<close>

function remove_loop :: "('k \<Rightarrow> 'k \<Rightarrow> int) \<Rightarrow> 'k \<Rightarrow> ('k \<times> 'v) list \<Rightarrow> nat \<Rightarrow> nat \<Rightarrow> (nat \<times> ('k \<times> 'v) list) option" where
  "remove_loop comparator key a i n =
     (if i < n then do {
        e \<leftarrow> vec_get a i;
        if comparator key (fst e) = 0 then do {
          x \<leftarrow> vec_get a (Suc i);
          a \<leftarrow> vec_set a i x;
          remove_loop comparator key a (Suc i) (n - 1)
        } else remove_loop comparator key a (Suc i) n
      } else Some (n, a))"
  by pat_completeness auto

termination
  by (relation "measure (\<lambda>(_, _, _, i, n). n - i)") auto

declare remove_loop.simps [simp del]

definition RemoveAndDeleteRecord :: "('k \<Rightarrow> 'k \<Rightarrow> int) \<Rightarrow> ('k, 'v) leaf_page \<Rightarrow> 'k \<Rightarrow> (int \<times> ('k, 'v) leaf_page) option" where
  "RemoveAndDeleteRecord comparator p key =
     (if bpt_size p \<le> 0 then Some (bpt_size p, p)
      else do {
        (n, a) \<leftarrow> remove_loop comparator key (leaf_array p) 0 (nat (bpt_size p));
        Some (int n, p\<lparr>bpt_size := int n, leaf_array := a\<rparr>)
      })"

subsection \<open>Internal pages\<close>

record ('k, 'v) internal_page = bpt_page +
  node_array :: "('k \<times> 'v) list"

definition Internal_KeyAt :: "('k, 'v) internal_page \<Rightarrow> int \<Rightarrow> 'k option" where
  "Internal_KeyAt p index = map_option fst (array_get (node_array p) index)"

definition SetKeyAt :: "('k, 'v) internal_page \<Rightarrow> int \<Rightarrow> 'k \<Rightarrow> ('k, 'v) internal_page option" where
  "SetKeyAt p index key = do {
     e \<leftarrow> array_get (node_array p) index;
     a \<leftarrow> array_set (node_array p) index (key, snd e);
     Some (p\<lparr>node_array := a\<rparr>)
   }"

fun find_value :: "'v \<Rightarrow> ('k \<times> 'v) list \<Rightarrow> nat \<Rightarrow> nat \<Rightarrow> nat option" where
  "find_value v a i 0 = Some i"
| "find_value v a i (Suc m) = do {
     e \<leftarrow> vec_get a i;
     if snd e = v then Some i else find_value v a (Suc i) m
   }"

definition ValueIndex :: "('k, 'v) internal_page \<Rightarrow> 'v \<Rightarrow> int option" where
  "ValueIndex p v = map_option int (find_value v (node_array p) 0 (nat (bpt_size p)))"

definition Internal_ValueAt :: "('k, 'v) internal_page \<Rightarrow> int \<Rightarrow> 'v option" where
  "Internal_ValueAt p index = map_option snd (array_get (node_array p) index)"

definition Internal_Lookup :: "config \<Rightarrow> ('k \<Rightarrow> 'k \<Rightarrow> int) \<Rightarrow> ('k, page_id_t) internal_page \<Rightarrow> 'k \<Rightarrow> page_id_t option" where
  "Internal_Lookup cfg comparator p key = do {
     r \<leftarrow> find_key comparator key (node_array p) 0 (nat (bpt_size p));
     case r of
       Some i \<Rightarrow> do { e \<leftarrow> vec_get (node_array p) i; Some (snd e) }
     | None \<Rightarrow> Some (INVALID_PAGE_ID cfg)
   }"

definition PopulateNewRoot :: "('k, 'v) internal_page \<Rightarrow> 'v \<Rightarrow> 'k \<Rightarrow> 'v \<Rightarrow> ('k, 'v) internal_page option" where
  "PopulateNewRoot p old_value new_key new_value = do {
     e \<leftarrow> array_get (node_array p) 0;
     a \<leftarrow> array_set (node_array p) 0 (fst e, old_value);
     a \<leftarrow> array_set a 1 (new_key, new_value);
     Some (p\<lparr>node_array := a, bpt_size := 2\<rparr>)
   }"

text \<open>\<open>shift_up a index m\<close> moves the \<open>m\<close> entries from \<open>index\<close> on up by one, the last first; \<open>shift_down\<close> moves the \<open>m\<close>
  entries behind \<open>index\<close> down by one, the first first.\<close>

fun shift_up :: "'a list \<Rightarrow> nat \<Rightarrow> nat \<Rightarrow> 'a list option" where
  "shift_up a index 0 = Some a"
| "shift_up a index (Suc m) = do {
     x \<leftarrow> vec_get a (index + m);
     a \<leftarrow> vec_set a (Suc (index + m)) x;
     shift_up a index m
   }"

fun shift_down :: "'a list \<Rightarrow> int \<Rightarrow> nat \<Rightarrow> 'a list option" where
  "shift_down a index 0 = Some a"
| "shift_down a index (Suc m) = do {
     x \<leftarrow> array_get a (index + 1);
     a \<leftarrow> array_set a index x;
     shift_down a (index + 1) m
   }"

definition InsertNodeAfter ::
    "('k, 'v) internal_page \<Rightarrow> 'v \<Rightarrow> 'k \<Rightarrow> 'v \<Rightarrow> (int \<times> ('k, 'v) internal_page) option" where
  "InsertNodeAfter p old_value new_key new_value = do {
     i \<leftarrow> find_value old_value (node_array p) 0 (nat (bpt_size p));
     a \<leftarrow> shift_up (node_array p) (Suc i) (nat (bpt_size p) - Suc i);
     a \<leftarrow> vec_set a (Suc i) (new_key, new_value);
     Some (bpt_size p + 1, p\<lparr>node_array := a, bpt_size := bpt_size p + 1\<rparr>)
   }"

definition Internal_Remove :: "('k, 'v) internal_page \<Rightarrow> int \<Rightarrow> ('k, 'v) internal_page option" where
  "Internal_Remove p index = do {
     a \<leftarrow> shift_down (node_array p) index (nat (bpt_size p - index));
     Some (p\<lparr>node_array := a, bpt_size := bpt_size p - 1\<rparr>)
   }"

definition RemoveAndReturnOnlyChild :: "('k, 'v) internal_page \<Rightarrow> ('v \<times> ('k, 'v) internal_page) option" where
  "RemoveAndReturnOnlyChild p = do {
     e \<leftarrow> array_get (node_array p) 1;
     Some (snd e, p\<lparr>bpt_size := 1\<rparr>)
   }"

subsection \<open>The loops\<close>

lemma find_key_none:
  "i + m \<le> length a \<Longrightarrow> (\<And>l. i \<le> l \<Longrightarrow> l < i + m \<Longrightarrow> cmp key (fst (a ! l)) \<noteq> 0) \<Longrightarrow> find_key cmp key a i m = Some None"
  by (induction m arbitrary: i) auto

lemma find_key_found:
  "i + m \<le> length a \<Longrightarrow> i \<le> j \<Longrightarrow> j < i + m \<Longrightarrow> cmp key (fst (a ! j)) = 0 \<Longrightarrow>
    (\<And>l. i \<le> l \<Longrightarrow> l < j \<Longrightarrow> cmp key (fst (a ! l)) \<noteq> 0) \<Longrightarrow> find_key cmp key a i m = Some (Some j)"
proof (induction m arbitrary: i)
  case (Suc m)
  then show ?case by (cases "i = j") auto
qed simp

lemma find_value_found:
  "i + m \<le> length a \<Longrightarrow> i \<le> j \<Longrightarrow> j < i + m \<Longrightarrow> snd (a ! j) = v \<Longrightarrow>
    (\<And>l. i \<le> l \<Longrightarrow> l < j \<Longrightarrow> snd (a ! l) \<noteq> v) \<Longrightarrow> find_value v a i m = Some j"
proof (induction m arbitrary: i)
  case (Suc m)
  then show ?case by (cases "i = j") auto
qed simp

lemma shift_up_spec:
  assumes "i + m < length a"
  shows "\<exists>a'. shift_up a i m = Some a' \<and> length a' = length a \<and>
    (\<forall>j < length a. a' ! j = (if i < j \<and> j \<le> i + m then a ! (j - 1) else a ! j))"
  using assms
proof (induction m arbitrary: a)
  case (Suc m)
  let ?b = "a[Suc (i + m) := a ! (i + m)]"
  from Suc.IH [of ?b] Suc.prems obtain a' where "shift_up ?b i m = Some a'" "length a' = length a"
    "\<forall>j < length a. a' ! j = (if i < j \<and> j \<le> i + m then ?b ! (j - 1) else ?b ! j)" by auto
  then show ?case using Suc.prems by (auto simp: nth_list_update le_Suc_eq)
qed auto

lemma shift_down_spec:
  assumes "i + m < length a"
  shows "\<exists>a'. shift_down a (int i) m = Some a' \<and> length a' = length a \<and>
    (\<forall>j < length a. a' ! j = (if i \<le> j \<and> j < i + m then a ! Suc j else a ! j))"
  using assms
proof (induction m arbitrary: a i)
  case (Suc m)
  let ?b = "a[i := a ! Suc i]"
  from Suc.IH [of "Suc i" ?b] Suc.prems obtain a' where "shift_down ?b (int i + 1) m = Some a'" "length a' = length a"
    "\<forall>j < length a. a' ! j = (if Suc i \<le> j \<and> j < Suc i + m then ?b ! Suc j else ?b ! j)" by (auto simp: add.commute)
  moreover have "nat (int i + 1) = Suc i" by simp
  ultimately show ?case using Suc.prems by (auto simp: array_get_def array_set_def nth_list_update le_eq_less_or_eq Suc_le_eq)
qed auto

subsection \<open>A leaf page as a map\<close>

definition leaf_entries :: "('k, 'v) leaf_page \<Rightarrow> ('k \<times> 'v) list" where
  "leaf_entries p = take (nat (bpt_size p)) (leaf_array p)"

definition leaf_map :: "('k, 'v) leaf_page \<Rightarrow> 'k \<rightharpoonup> 'v" where
  "leaf_map p = map_of (leaf_entries p)"

definition leaf_ok :: "('k, 'v) leaf_page \<Rightarrow> bool" where
  "leaf_ok p \<longleftrightarrow> 0 \<le> bpt_size p \<and> nat (bpt_size p) \<le> length (leaf_array p) \<and> distinct (map fst (leaf_entries p))"

definition exact :: "('k \<Rightarrow> 'k \<Rightarrow> int) \<Rightarrow> bool" where
  "exact comparator \<longleftrightarrow> (\<forall>a b. comparator a b = 0 \<longleftrightarrow> a = b)"

lemma leaf_entries_nth: "leaf_ok p \<Longrightarrow> j < nat (bpt_size p) \<Longrightarrow> leaf_entries p ! j = leaf_array p ! j"
  "leaf_ok p \<Longrightarrow> length (leaf_entries p) = nat (bpt_size p)"
  by (simp_all add: leaf_entries_def leaf_ok_def)

lemma leaf_keys_distinct:
  assumes "leaf_ok p" "j < nat (bpt_size p)" "l < nat (bpt_size p)" "j \<noteq> l"
  shows "fst (leaf_array p ! j) \<noteq> fst (leaf_array p ! l)"
  using assms leaf_entries_nth [OF assms(1)] nth_eq_iff_index_eq [of "map fst (leaf_entries p)" j l] by (auto simp: leaf_ok_def)

lemma find_key_leaf:
  assumes "exact cmp" "leaf_ok p"
  shows "leaf_map p key = None \<Longrightarrow> find_key cmp key (leaf_array p) 0 (nat (bpt_size p)) = Some None"
    "leaf_map p key = Some v \<Longrightarrow> \<exists>j < nat (bpt_size p). leaf_array p ! j = (key, v) \<and>
      find_key cmp key (leaf_array p) 0 (nat (bpt_size p)) = Some (Some j)"
proof -
  note N = leaf_entries_nth [OF assms(2)]
  have len: "0 + nat (bpt_size p) \<le> length (leaf_array p)" using assms(2) by (simp add: leaf_ok_def)
  assume "leaf_map p key = None"
  then have "key \<notin> fst ` set (leaf_entries p)" by (simp add: leaf_map_def map_of_eq_None_iff)
  then have "fst (leaf_array p ! l) \<noteq> key" if "l < nat (bpt_size p)" for l
    using that N nth_mem [of l "leaf_entries p"] by force
  then show "find_key cmp key (leaf_array p) 0 (nat (bpt_size p)) = Some None"
    using assms(1) by (intro find_key_none len) (auto simp: exact_def)
next
  note N = leaf_entries_nth [OF assms(2)]
  have len: "0 + nat (bpt_size p) \<le> length (leaf_array p)" using assms(2) by (simp add: leaf_ok_def)
  assume "leaf_map p key = Some v"
  then have "(key, v) \<in> set (leaf_entries p)" by (simp add: leaf_map_def map_of_SomeD)
  then obtain j where j: "j < nat (bpt_size p)" "leaf_array p ! j = (key, v)" using N by (auto simp: in_set_conv_nth)
  have "find_key cmp key (leaf_array p) 0 (nat (bpt_size p)) = Some (Some j)"
  proof (rule find_key_found [OF len])
    fix l
    assume "l < j"
    then show "cmp key (fst (leaf_array p ! l)) \<noteq> 0"
      using leaf_keys_distinct [OF assms(2), of l j] j assms(1) by (auto simp: exact_def)
  qed (use j assms(1) in \<open>auto simp: exact_def\<close>)
  with j show "\<exists>j < nat (bpt_size p). leaf_array p ! j = (key, v) \<and>
      find_key cmp key (leaf_array p) 0 (nat (bpt_size p)) = Some (Some j)" by blast
qed

text \<open>C38. A leaf page with distinct keys is a map from keys to values under lookup and insertion: a lookup and \<open>KeyIndex\<close>
  find what is stored; inserting adds a key that is not there, at the end, and changes nothing for one that is there. A new
  key in a full page is written outside the array.\<close>

theorem leaf_page_refines_map:
  assumes "exact cmp" "leaf_ok p"
  shows "Leaf_Lookup cmp p key = Some (leaf_map p key) \<and>
    (case leaf_map p key of
       Some v \<Rightarrow> Leaf_Insert cmp p key value = Some (bpt_size p, p) \<and>
         (\<exists>i. KeyIndex cmp p key = Some i \<and> 0 \<le> i \<and> i < bpt_size p \<and> GetItem p i = Some (key, v))
     | None \<Rightarrow> KeyIndex cmp p key = Some (- 1) \<and>
         (if nat (bpt_size p) < length (leaf_array p)
          then \<exists>p'. Leaf_Insert cmp p key value = Some (bpt_size p + 1, p') \<and> bpt_size p' = bpt_size p + 1 \<and> leaf_ok p' \<and>
            leaf_map p' = (leaf_map p)(key \<mapsto> value)
          else Leaf_Insert cmp p key value = None))"
proof (cases "leaf_map p key")
  case None
  let ?p = "p\<lparr>leaf_array := (leaf_array p)[nat (bpt_size p) := (key, value)], bpt_size := bpt_size p + 1\<rparr>"
  note f = find_key_leaf(1) [OF assms None]
  have size: "0 \<le> bpt_size p" "nat (bpt_size p + 1) = Suc (nat (bpt_size p))"
    using assms(2) by (simp_all add: leaf_ok_def nat_add_distrib)
  have "leaf_ok ?p \<and> leaf_map ?p = (leaf_map p)(key \<mapsto> value)" if room: "nat (bpt_size p) < length (leaf_array p)"
  proof -
    have e: "leaf_entries ?p = leaf_entries p @ [(key, value)]"
      using room size by (simp add: leaf_entries_def take_Suc_conv_app_nth)
    have "key \<notin> fst ` set (leaf_entries p)" using None by (simp add: leaf_map_def map_of_eq_None_iff)
    then have "leaf_ok ?p" using assms(2) room size by (simp add: leaf_ok_def e)
    moreover have "map_of (leaf_entries p @ [(key, value)]) = (map_of (leaf_entries p))(key \<mapsto> value)"
      using None by (auto simp: leaf_map_def map_add_def split: option.split)
    ultimately show ?thesis by (simp add: leaf_map_def e)
  qed
  then show ?thesis using None f size
    by (auto simp: Leaf_Lookup_def KeyIndex_def Leaf_Insert_def array_set_def vec_set_def)
next
  case (Some v)
  then obtain j where "j < nat (bpt_size p)" "leaf_array p ! j = (key, v)"
    "find_key cmp key (leaf_array p) 0 (nat (bpt_size p)) = Some (Some j)" using find_key_leaf(2) [OF assms] by blast
  moreover have "nat (bpt_size p) \<le> length (leaf_array p)" using assms(2) by (simp add: leaf_ok_def)
  ultimately show ?thesis using Some
    by (auto simp: Leaf_Lookup_def KeyIndex_def Leaf_Insert_def GetItem_def array_get_def)
qed

subsection \<open>Removal from a leaf page\<close>

lemma remove_loop_skip:
  assumes "j \<le> k" "k \<le> n" "n \<le> length a" "\<And>l. j \<le> l \<Longrightarrow> l < k \<Longrightarrow> cmp key (fst (a ! l)) \<noteq> 0"
  shows "remove_loop cmp key a j n = remove_loop cmp key a k n"
  using assms(1,4)
proof (induction rule: inc_induct)
  case (step m)
  then show ?case using assms(2,3) by (subst remove_loop.simps) simp
qed simp

lemma remove_loop_found:
  assumes "i < n" "n < length a" "cmp key (fst (a ! i)) = 0" "\<And>l. l < n \<Longrightarrow> l \<noteq> i \<Longrightarrow> cmp key (fst (a ! l)) \<noteq> 0"
  shows "remove_loop cmp key a 0 n = Some (n - 1, a[i := a ! Suc i])"
proof -
  let ?a = "a[i := a ! Suc i]"
  have "remove_loop cmp key a 0 n = remove_loop cmp key a i n" by (rule remove_loop_skip) (use assms in auto)
  also have "\<dots> = remove_loop cmp key ?a (Suc i) (n - 1)" using assms by (subst remove_loop.simps) simp
  also have "\<dots> = Some (n - 1, ?a)"
  proof (cases "Suc i \<le> n - 1")
    case True
    have "remove_loop cmp key ?a (Suc i) (n - 1) = remove_loop cmp key ?a (n - 1) (n - 1)"
      by (rule remove_loop_skip) (use assms True in auto)
    then show ?thesis by (simp add: remove_loop.simps)
  next
    case False
    then show ?thesis by (simp add: remove_loop.simps)
  qed
  finally show ?thesis .
qed

lemma map_of_part:
  assumes "distinct (map fst xs)" "set ys \<subseteq> set xs"
  shows "map_of ys k = Some v \<longleftrightarrow> (k, v) \<in> set ys"
proof
  assume "(k, v) \<in> set ys"
  moreover from this obtain v' where "map_of ys k = Some v'" by (metis weak_map_of_SomeI)
  moreover from this have "(k, v') \<in> set ys" by (rule map_of_SomeD)
  ultimately show "map_of ys k = Some v" using assms eq_key_imp_eq_value [OF assms(1)] by blast
qed (rule map_of_SomeD)

lemma removed_entries:
  assumes "i < n" "n < length a"
  shows "x \<in> set (take (n - 1) (a[i := a ! Suc i])) \<longleftrightarrow> (\<exists>j<n. j \<noteq> i \<and> (i + 2 < n \<longrightarrow> j \<noteq> n - 1) \<and> a ! j = x)"
proof
  assume "x \<in> set (take (n - 1) (a[i := a ! Suc i]))"
  then obtain j where j: "j < n - 1" "a[i := a ! Suc i] ! j = x" using assms by (auto simp: in_set_conv_nth)
  then show "\<exists>j<n. j \<noteq> i \<and> (i + 2 < n \<longrightarrow> j \<noteq> n - 1) \<and> a ! j = x"
    using assms by (cases "j = i") (auto intro!: exI [of _ "if j = i then Suc i else j"])
next
  assume "\<exists>j<n. j \<noteq> i \<and> (i + 2 < n \<longrightarrow> j \<noteq> n - 1) \<and> a ! j = x"
  then obtain j where j: "j < n" "j \<noteq> i" "i + 2 < n \<longrightarrow> j \<noteq> n - 1" "a ! j = x" by blast
  define l where "l = (if j = n - 1 then i else j)"
  have "l < n - 1 \<and> a[i := a ! Suc i] ! l = x"
  proof (cases "j = n - 1")
    case True
    then have "Suc i = n - 1" using j assms by linarith
    then show ?thesis using True j(4) assms by (simp add: l_def)
  qed (use j assms in \<open>auto simp: l_def\<close>)
  then show "x \<in> set (take (n - 1) (a[i := a ! Suc i]))"
    using assms by (auto simp: in_set_conv_nth intro!: exI [of _ l])
qed

text \<open>C39. Removing a key from a leaf page loses another record: the loop that moves the records down ends after its first
  step. In a page that is not full the key goes and the size is one less; unless the record was one of the last two, the
  record behind it is there twice and the last record is not found any more.\<close>

theorem leaf_removal_loses_last:
  assumes "exact cmp" "leaf_ok p" "nat (bpt_size p) < length (leaf_array p)" "leaf_map p key = Some v"
  shows "\<exists>i p'. KeyIndex cmp p key = Some i \<and> RemoveAndDeleteRecord cmp p key = Some (bpt_size p - 1, p') \<and>
    bpt_size p' = bpt_size p - 1 \<and>
    leaf_map p' = (if i + 2 < bpt_size p then (leaf_map p)(key := None, fst (last (leaf_entries p)) := None)
      else (leaf_map p)(key := None))"
proof -
  let ?a = "leaf_array p" and ?n = "nat (bpt_size p)"
  note N = leaf_entries_nth [OF assms(2)] and D = leaf_keys_distinct [OF assms(2)]
  obtain i where i: "i < ?n" "?a ! i = (key, v)" "find_key cmp key ?a 0 ?n = Some (Some i)"
    using find_key_leaf(2) [OF assms(1,2,4)] by blast
  let ?p = "p\<lparr>bpt_size := bpt_size p - 1, leaf_array := ?a[i := ?a ! Suc i]\<rparr>"
  have n: "int (?n - 1) = bpt_size p - 1" "nat (bpt_size p - 1) = ?n - 1" "bpt_size p = int ?n" "0 < ?n" using i(1) by linarith+
  have "remove_loop cmp key ?a 0 ?n = Some (?n - 1, ?a[i := ?a ! Suc i])"
  proof (rule remove_loop_found [OF i(1) assms(3)])
    show "cmp key (fst (?a ! l)) \<noteq> 0" if "l < ?n" "l \<noteq> i" for l
      using D [OF i(1) that(1)] that(2) i(2) assms(1) by (auto simp: exact_def)
  qed (use i(2) assms(1) in \<open>simp add: exact_def\<close>)
  then have r: "RemoveAndDeleteRecord cmp p key = Some (bpt_size p - 1, ?p)"
    using n by (simp add: RemoveAndDeleteRecord_def)
  have last: "last (leaf_entries p) = ?a ! (?n - 1)"
    using N i(1) last_conv_nth [of "leaf_entries p"] by (cases "leaf_entries p = []") auto
  have mem: "x \<in> set (leaf_entries ?p) \<longleftrightarrow> (\<exists>j<?n. j \<noteq> i \<and> (i + 2 < ?n \<longrightarrow> j \<noteq> ?n - 1) \<and> ?a ! j = x)" for x
    using removed_entries [OF i(1) assms(3)] n(2) by (simp add: leaf_entries_def)
  have old: "x \<in> set (leaf_entries p) \<longleftrightarrow> (\<exists>j<?n. ?a ! j = x)" for x
    using N by (auto simp: in_set_conv_nth)
  have dist: "distinct (map fst (leaf_entries p))" using assms(2) by (simp add: leaf_ok_def)
  have sub: "set (leaf_entries ?p) \<subseteq> set (leaf_entries p)" using mem old by blast
  have look: "leaf_map ?p k = Some w \<longleftrightarrow> (\<exists>j<?n. j \<noteq> i \<and> (i + 2 < ?n \<longrightarrow> j \<noteq> ?n - 1) \<and> ?a ! j = (k, w))"
    "leaf_map p k = Some w \<longleftrightarrow> (\<exists>j<?n. ?a ! j = (k, w))" for k w
    using map_of_part [OF dist sub] map_of_part [OF dist subset_refl] mem old by (simp_all add: leaf_map_def)
  have key: "?a ! j = (k, w) \<Longrightarrow> j < ?n \<Longrightarrow> k = fst (?a ! l) \<longleftrightarrow> j = l" if "l < ?n" for j k w l
    using D [of j l] that by force
  have "leaf_map ?p k = Some w \<longleftrightarrow> (if i + 2 < ?n then (leaf_map p)(key := None, fst (last (leaf_entries p)) := None)
      else (leaf_map p)(key := None)) k = Some w" for k w
  proof -
    have "k \<noteq> key \<longleftrightarrow> j \<noteq> i" "k \<noteq> fst (last (leaf_entries p)) \<longleftrightarrow> j \<noteq> ?n - 1" if "j < ?n" "?a ! j = (k, w)" for j
      using key [OF i(1) that(2,1)] key [of "?n - 1", OF _ that(2,1)] i(1,2) last n(4) by auto
    then show ?thesis unfolding look by (auto simp: look)
  qed
  then have "leaf_map ?p = (if i + 2 < ?n then (leaf_map p)(key := None, fst (last (leaf_entries p)) := None)
      else (leaf_map p)(key := None))"
    by (intro ext) (metis not_None_eq)
  moreover have "int i + 2 < bpt_size p \<longleftrightarrow> i + 2 < ?n" using n(3) by linarith
  moreover have "KeyIndex cmp p key = Some (int i)" using i(3) by (simp add: KeyIndex_def)
  ultimately show ?thesis using r by (intro exI [of _ "int i"] exI [of _ ?p]) simp
qed

subsection \<open>Internal pages\<close>

definition node_entries :: "('k, 'v) internal_page \<Rightarrow> ('k \<times> 'v) list" where
  "node_entries p = take (nat (bpt_size p)) (node_array p)"

definition node_ok :: "('k, 'v) internal_page \<Rightarrow> bool" where
  "node_ok p \<longleftrightarrow> 0 \<le> bpt_size p \<and> nat (bpt_size p) \<le> length (node_array p) \<and> distinct (map snd (node_entries p))"

lemma node_ok_nth:
  assumes "node_ok p"
  shows "length (node_entries p) = nat (bpt_size p)" "j < nat (bpt_size p) \<Longrightarrow> node_entries p ! j = node_array p ! j"
    "\<lbrakk>j < nat (bpt_size p); l < nat (bpt_size p); j \<noteq> l\<rbrakk> \<Longrightarrow> snd (node_array p ! j) \<noteq> snd (node_array p ! l)"
proof -
  show l: "length (node_entries p) = nat (bpt_size p)" "j < nat (bpt_size p) \<Longrightarrow> node_entries p ! j = node_array p ! j" for j
    using assms by (simp_all add: node_entries_def node_ok_def)
  show "\<lbrakk>j < nat (bpt_size p); l < nat (bpt_size p); j \<noteq> l\<rbrakk> \<Longrightarrow> snd (node_array p ! j) \<noteq> snd (node_array p ! l)"
    using assms l nth_eq_iff_index_eq [of "map snd (node_entries p)" j l] by (auto simp: node_ok_def)
qed

lemma ValueIndex_found:
  assumes "node_ok p" "j < nat (bpt_size p)"
  shows "find_value (snd (node_array p ! j)) (node_array p) 0 (nat (bpt_size p)) = Some j"
  by (rule find_value_found) (use assms node_ok_nth [OF assms(1)] in \<open>auto simp: node_ok_def\<close>)

lemma InsertNodeAfter_spec:
  assumes "node_ok p" "j < nat (bpt_size p)" "nat (bpt_size p) < length (node_array p)"
  obtains p' where "InsertNodeAfter p (snd (node_array p ! j)) new_key new_value = Some (bpt_size p + 1, p')"
    "bpt_size p' = bpt_size p + 1" "length (node_array p') = length (node_array p)"
    "node_entries p' = take (Suc j) (node_entries p) @ (new_key, new_value) # drop (Suc j) (node_entries p)"
proof -
  let ?a = "node_array p" and ?n = "nat (bpt_size p)" and ?es = "node_entries p"
  note N = node_ok_nth [OF assms(1)]
  have n: "nat (bpt_size p + 1) = Suc ?n" using assms(2) by linarith
  obtain a' where a': "shift_up ?a (Suc j) (?n - Suc j) = Some a'" "length a' = length ?a"
    "\<forall>l < length ?a. a' ! l = (if Suc j < l \<and> l \<le> Suc j + (?n - Suc j) then ?a ! (l - 1) else ?a ! l)"
    using shift_up_spec [of "Suc j" "?n - Suc j" ?a] assms(2,3) by auto
  define b where "b = a'[Suc j := (new_key, new_value)]"
  let ?p = "p\<lparr>node_array := b, bpt_size := bpt_size p + 1\<rparr>"
  have ins: "InsertNodeAfter p (snd (?a ! j)) new_key new_value = Some (bpt_size p + 1, ?p)"
    using ValueIndex_found [OF assms(1,2)] a'(1,2) assms(2,3) by (simp add: InsertNodeAfter_def b_def)
  have b: "length b = length ?a" "l < Suc ?n \<Longrightarrow> b ! l = (if l \<le> j then ?a ! l else if l = Suc j then (new_key, new_value) else ?a ! (l - 1))" for l
    using a'(2,3) assms(2,3) by (auto simp: b_def nth_list_update)
  have "node_entries ?p = take (Suc j) ?es @ (new_key, new_value) # drop (Suc j) ?es"
  proof (rule nth_equalityI)
    show "length (node_entries ?p) = length (take (Suc j) ?es @ (new_key, new_value) # drop (Suc j) ?es)"
      using assms(2,3) b(1) n N(1) by (simp add: node_entries_def)
    fix l
    assume "l < length (node_entries ?p)"
    then have l: "l < Suc ?n" using assms(3) b(1) n by (simp add: node_entries_def)
    then show "node_entries ?p ! l = (take (Suc j) ?es @ (new_key, new_value) # drop (Suc j) ?es) ! l"
      using b(2) [OF l] assms(2) n N(1,2)
      by (auto simp: node_entries_def nth_append nth_Cons split: nat.split, intro arg_cong [where f = "nth _"], linarith)
  qed
  then show ?thesis using that [OF ins] b(1) by simp
qed

lemma Internal_Remove_spec:
  assumes "nat (bpt_size p) < length (node_array p)" "k < nat (bpt_size p)"
  obtains p' where "Internal_Remove p (int k) = Some p'" "bpt_size p' = bpt_size p - 1"
    "node_entries p' = take k (node_entries p) @ drop (Suc k) (node_entries p)"
proof -
  let ?a = "node_array p" and ?n = "nat (bpt_size p)"
  obtain c where c: "shift_down ?a (int k) (?n - k) = Some c" "length c = length ?a"
    "\<forall>l < length ?a. c ! l = (if k \<le> l \<and> l < k + (?n - k) then ?a ! Suc l else ?a ! l)"
    using shift_down_spec [of k "?n - k" ?a] assms by auto
  let ?p = "p\<lparr>node_array := c, bpt_size := bpt_size p - 1\<rparr>"
  have n: "nat (bpt_size p - int k) = ?n - k" "nat (bpt_size p - 1) = ?n - 1" using assms(2) by linarith+
  have "Internal_Remove p (int k) = Some ?p" using c(1) n(1) by (simp add: Internal_Remove_def)
  moreover have "node_entries ?p = take k (node_entries p) @ drop (Suc k) (node_entries p)"
  proof (rule nth_equalityI)
    fix l
    assume "l < length (node_entries ?p)"
    then have "l < ?n - 1" using n(2) by (simp add: node_entries_def)
    then show "node_entries ?p ! l = (take k (node_entries p) @ drop (Suc k) (node_entries p)) ! l"
      using c(3) n(2) assms by (auto simp: node_entries_def nth_append)
  qed (use c(2) n(2) assms in \<open>simp add: node_entries_def\<close>)
  ultimately show ?thesis using that by simp
qed

text \<open>C40. In an internal page with distinct child pointers, \<open>InsertNodeAfter\<close> puts the new pair right behind the old
  pointer and moves the pairs behind it up by one; \<open>ValueIndex\<close> finds the new pointer there, and removing it brings the old
  pairs back. There must be room for the pair and, as \<open>Remove\<close> reads one pair behind the last, for one more.\<close>

theorem internal_insert_remove:
  assumes "node_ok p" "j < nat (bpt_size p)" "Suc (nat (bpt_size p)) < length (node_array p)"
    and "new_value \<notin> snd ` set (node_entries p)"
  shows "\<exists>p' p''. InsertNodeAfter p (snd (node_array p ! j)) new_key new_value = Some (bpt_size p + 1, p') \<and> node_ok p' \<and>
    node_entries p' = take (Suc j) (node_entries p) @ (new_key, new_value) # drop (Suc j) (node_entries p) \<and>
    ValueIndex p' new_value = Some (int (Suc j)) \<and> Internal_Remove p' (int (Suc j)) = Some p'' \<and>
    bpt_size p'' = bpt_size p \<and> node_entries p'' = node_entries p"
proof -
  let ?es = "node_entries p" and ?es' = "take (Suc j) (node_entries p) @ (new_key, new_value) # drop (Suc j) (node_entries p)"
  have "nat (bpt_size p) < length (node_array p)" using assms(3) by simp
  from InsertNodeAfter_spec [OF assms(1,2) this] obtain p' where
    1: "InsertNodeAfter p (snd (node_array p ! j)) new_key new_value = Some (bpt_size p + 1, p')"
      "bpt_size p' = bpt_size p + 1" "length (node_array p') = length (node_array p)" "node_entries p' = ?es'" .
  have n: "nat (bpt_size p') = Suc (nat (bpt_size p))" using 1(2) assms(2) by linarith
  have "distinct (map snd (xs @ x # ys)) \<longleftrightarrow> snd x \<notin> snd ` set (xs @ ys) \<and> distinct (map snd (xs @ ys))"
    for x :: "'a \<times> 'b" and xs ys by auto
  from this [of "take (Suc j) ?es" "(new_key, new_value)" "drop (Suc j) ?es"]
  have "distinct (map snd (node_entries p'))"
    using assms(1,4) unfolding 1(4) append_take_drop_id node_ok_def snd_conv by blast
  then have ok: "node_ok p'" using assms(3) 1(2,3) n unfolding node_ok_def by linarith
  have len: "length (take (Suc j) ?es) = Suc j" using node_ok_nth(1) [OF assms(1)] assms(2) by simp
  have "node_array p' ! Suc j = (new_key, new_value)"
    using node_ok_nth(2) [OF ok, of "Suc j"] n assms(2) len by (simp add: 1(4) nth_append)
  then have vi: "ValueIndex p' new_value = Some (int (Suc j))"
    using ValueIndex_found [OF ok, of "Suc j"] assms(2) n by (simp add: ValueIndex_def)
  have "nat (bpt_size p') < length (node_array p')" "Suc j < nat (bpt_size p')" using n 1(3) assms(2,3) by simp_all
  from Internal_Remove_spec [OF this] obtain p'' where "Internal_Remove p' (int (Suc j)) = Some p''"
    "bpt_size p'' = bpt_size p' - 1" "node_entries p'' = take (Suc j) ?es' @ drop (Suc (Suc j)) ?es'" unfolding 1(4) .
  moreover have "take (Suc j) ?es' @ drop (Suc (Suc j)) ?es' = ?es" using len by (simp add: append_take_drop_id)
  ultimately show ?thesis using 1 ok vi by (intro exI [of _ p'] exI [of _ p'']) simp
qed

subsection \<open>Examples\<close>

text \<open>Four records in a leaf page of five, and two children in an internal page of five.\<close>

definition header_page_of :: "int \<Rightarrow> bpt_page" where
  "header_page_of n = \<lparr>bpt_type = LEAF_PAGE, bpt_lsn = 0, bpt_size = n, bpt_max_size = 5, bpt_parent = 0, bpt_page_id = 1\<rparr>"

definition four_records :: "(int, int) leaf_page" where
  "four_records = bpt_page.extend (header_page_of 4)
     (leaf_page.fields 0 [(1, 10), (2, 20), (3, 30), (4, 40), (0, 0)])"

definition two_children :: "(int, int) internal_page" where
  "two_children = bpt_page.extend (header_page_of 2)
     (internal_page.fields [(0, 7), (5, 8), (0, 0), (0, 0), (0, 0)])"

lemma four_records_simps:
  "exact (\<lambda>a b. a - b :: int)" "leaf_ok four_records" "bpt_size four_records = 4" "length (leaf_array four_records) = 5"
  "leaf_map four_records = [4 \<mapsto> 40, 3 \<mapsto> 30, 2 \<mapsto> 20, 1 \<mapsto> 10]" "last (leaf_entries four_records) = (4, 40)"
  by (auto simp: exact_def four_records_def header_page_of_def bpt_page.defs leaf_page.defs leaf_ok_def leaf_entries_def leaf_map_def)

theorem leaf_page_refines_map_witness:
  "Leaf_Lookup (\<lambda>a b. a - b) four_records 3 = Some (Some 30) \<and>
   (\<exists>p'. Leaf_Insert (\<lambda>a b. a - b) four_records 6 60 = Some (5, p') \<and> leaf_map p' 6 = Some 60)"
  using leaf_page_refines_map [OF four_records_simps(1,2), of 3 0] leaf_page_refines_map [OF four_records_simps(1,2), of 6 60]
  by (auto simp: four_records_simps)

theorem leaf_removal_loses_last_witness:
  "\<exists>p'. RemoveAndDeleteRecord (\<lambda>a b. a - b) four_records 1 = Some (3, p') \<and> leaf_map p' 1 = None \<and> leaf_map p' 4 = None"
proof -
  obtain i p' where 1: "KeyIndex (\<lambda>a b. a - b) four_records 1 = Some i"
    "RemoveAndDeleteRecord (\<lambda>a b. a - b) four_records 1 = Some (bpt_size four_records - 1, p')"
    "leaf_map p' = (if i + 2 < bpt_size four_records
      then (leaf_map four_records)(1 := None, fst (last (leaf_entries four_records)) := None)
      else (leaf_map four_records)(1 := None))"
    using leaf_removal_loses_last [OF four_records_simps(1,2), of 1 10] by (auto simp: four_records_simps)
  have "KeyIndex (\<lambda>a b. a - b) four_records 1 = Some 0" by code_simp
  then show ?thesis using 1 by (simp add: four_records_simps)
qed

lemma two_children_simps:
  "node_ok two_children" "bpt_size two_children = 2" "node_array two_children = [(0, 7), (5, 8), (0, 0), (0, 0), (0, 0)]"
  "node_entries two_children = [(0, 7), (5, 8)]"
  by (auto simp: two_children_def header_page_of_def bpt_page.defs internal_page.defs node_ok_def node_entries_def)

theorem internal_insert_remove_witness:
  "\<exists>p'. InsertNodeAfter two_children 7 3 9 = Some (3, p') \<and> node_entries p' = [(0, 7), (3, 9), (5, 8)] \<and>
    ValueIndex p' 9 = Some 1"
  using internal_insert_remove [OF two_children_simps(1), of 0 9 3] by (auto simp: two_children_simps)

text \<open>A pair behind a pointer that is not there is stored one place behind the pairs, where nothing finds it.\<close>

lemma insert_after_missing:
  "map_option (\<lambda>(n, p). (n, node_entries p)) (InsertNodeAfter two_children 6 3 9) = Some (3, [(0, 7), (5, 8), (0, 0)])"
  by code_simp

text \<open>The lookup in an internal page compares for equality, the unused first key included, where a B+ tree needs the
  child whose keys surround the given one.\<close>

lemma internal_lookup_exact:
  "Internal_Lookup \<lparr>PAGE_SIZE = 64, INVALID_PAGE_ID = - 1, INVALID_LSN = - 1\<rparr> (\<lambda>a b. a - b)
     (bpt_page.extend (header_page_of 2) (internal_page.fields [(0, 7), (5, 8), (0, 0)])) (6 :: int) = Some (- 1)"
  by code_simp

end
