(* ===== verification/Matrices.thy ===== *)
theory Matrices
  imports Values
begin

section \<open>Matrices\<close>

text \<open>
  \<^verbatim>\<open>src/include/primer/p0_starter.h\<close>: \<open>Matrix\<close>, \<open>RowMatrix\<close> and \<open>RowMatrixOperations\<close>, over any type of elements
  with a sum and a product. The row pointers \<open>data_\<close> lead into the array \<open>linear_\<close>, and the model has this array
  only. \<open>new T[n]\<close> leaves the elements of a number type uninitialised: they are an argument of the constructor. A
  product of rows and columns that is not an \<open>int\<close> is undefined, a \<open>Crash\<close>. A matrix pointer is an option.
\<close>

record 'a row_matrix =
  num_rows :: int
  num_cols :: int
  linear :: "'a list"

definition RowMatrix :: "(nat \<Rightarrow> 'a) \<Rightarrow> int \<Rightarrow> int \<Rightarrow> 'a row_matrix result" where
  "RowMatrix uninit rows cols =
     (if rows \<le> 0 \<or> cols \<le> 0 then Inr \<lparr>num_rows = - 1, num_cols = - 1, linear = []\<rparr>
      else ensure (rows * cols < 2 ^ 31)
        (Inr \<lparr>num_rows = rows, num_cols = cols, linear = map uninit [0..<nat (rows * cols)]\<rparr>))"

definition GetRowCount :: "'a row_matrix \<Rightarrow> int" where
  "GetRowCount M = num_rows M"

definition Matrix_GetColumnCount :: "'a row_matrix \<Rightarrow> int" where
  "Matrix_GetColumnCount M = num_cols M"

definition GetElement :: "'a row_matrix \<Rightarrow> int \<Rightarrow> int \<Rightarrow> 'a result" where
  "GetElement M i j =
     (if i \<ge> num_rows M \<or> j \<ge> num_cols M \<or> i < 0 \<or> j < 0 then throw E_OUT_OF_RANGE ''RowMatrix::GetElement() out of range''
      else let k = nat (i * num_cols M + j) in ensure (k < length (linear M)) (Inr (linear M ! k)))"

definition SetElement :: "'a row_matrix \<Rightarrow> int \<Rightarrow> int \<Rightarrow> 'a \<Rightarrow> 'a row_matrix result" where
  "SetElement M i j val =
     (if i \<ge> num_rows M \<or> j \<ge> num_cols M \<or> i < 0 \<or> j < 0 then throw E_OUT_OF_RANGE ''RowMatrix::SetElement() out of range''
      else let k = nat (i * num_cols M + j) in
        ensure (k < length (linear M)) (Inr (M\<lparr>linear := (linear M)[k := val]\<rparr>)))"

text \<open>The loop over a range, which an exception leaves, and the two loops that set every element to a computed value.\<close>

fun for_each :: "('i \<Rightarrow> 's \<Rightarrow> 's result) \<Rightarrow> 'i list \<Rightarrow> 's \<Rightarrow> 's result" where
  "for_each f [] s = Inr s"
| "for_each f (i # is) s = andThen (f i s) (for_each f is)"

definition set_elements :: "(int \<Rightarrow> int \<Rightarrow> 'a result) \<Rightarrow> int \<Rightarrow> int \<Rightarrow> 'a row_matrix \<Rightarrow> 'a row_matrix result" where
  "set_elements v rows cols =
     for_each (\<lambda>row. for_each (\<lambda>col M. andThen (v row col) (SetElement M row col)) [0..cols - 1]) [0..rows - 1]"

definition FillFrom :: "'a row_matrix \<Rightarrow> 'a list \<Rightarrow> 'a row_matrix result" where
  "FillFrom M source =
     (if wrap 32 (int (length source)) \<noteq> num_rows M * num_cols M
      then throw E_OUT_OF_RANGE ''RowMatrix::FillFrom() out of range''
      else set_elements (\<lambda>row col. let k = nat (num_cols M * row + col) in ensure (k < length source) (Inr (source ! k)))
        (num_rows M) (num_cols M) M)"

definition Matrix_Add ::
    "(nat \<Rightarrow> 'a::plus) \<Rightarrow> 'a row_matrix option \<Rightarrow> 'a row_matrix option \<Rightarrow> 'a row_matrix option result" where
  "Matrix_Add uninit matrixA matrixB = (case (matrixA, matrixB) of
     (Some A, Some B) \<Rightarrow>
       if GetRowCount A \<noteq> GetRowCount B \<or> Matrix_GetColumnCount A \<noteq> Matrix_GetColumnCount B then Inr None
       else let rows = GetRowCount A; cols = Matrix_GetColumnCount A in
         andThen (RowMatrix uninit rows cols) (\<lambda>result.
         andThen (set_elements (\<lambda>row col.
             andThen (GetElement A row col) (\<lambda>a. andThen (GetElement B row col) (\<lambda>b. Inr (a + b)))) rows cols result)
           (\<lambda>result. Inr (Some result)))
   | _ \<Rightarrow> Inr None)"

definition Matrix_Multiply ::
    "(nat \<Rightarrow> 'a::{plus,times,zero}) \<Rightarrow> 'a row_matrix option \<Rightarrow> 'a row_matrix option \<Rightarrow> 'a row_matrix option result" where
  "Matrix_Multiply uninit matrixA matrixB = (case (matrixA, matrixB) of
     (Some A, Some B) \<Rightarrow>
       if Matrix_GetColumnCount A \<noteq> GetRowCount B then Inr None
       else let rows_a = GetRowCount A; commons = Matrix_GetColumnCount A; cols_b = Matrix_GetColumnCount B in
         andThen (RowMatrix uninit rows_a cols_b) (\<lambda>result.
         andThen (set_elements (\<lambda>row_a col_b.
             for_each (\<lambda>common sum. andThen (GetElement A row_a common) (\<lambda>a.
               andThen (GetElement B common col_b) (\<lambda>b. Inr (sum + a * b)))) [0..commons - 1] 0) rows_a cols_b result)
           (\<lambda>result. Inr (Some result)))
   | _ \<Rightarrow> Inr None)"

definition GEMM ::
    "(nat \<Rightarrow> 'a::{plus,times,zero}) \<Rightarrow> 'a row_matrix option \<Rightarrow> 'a row_matrix option \<Rightarrow> 'a row_matrix option \<Rightarrow>
     'a row_matrix option result" where
  "GEMM uninit matrixA matrixB matrixC = andThen (Matrix_Multiply uninit matrixA matrixB) (\<lambda>P. Matrix_Add uninit P matrixC)"

subsection \<open>Elements\<close>

text \<open>A matrix with \<open>r\<close> rows and \<open>c\<close> columns whose elements are given by a function.\<close>

definition cell :: "'a row_matrix \<Rightarrow> int \<Rightarrow> int \<Rightarrow> 'a" where
  "cell M i j = linear M ! nat (i * num_cols M + j)"

definition matrix_dim :: "'a row_matrix \<Rightarrow> int \<Rightarrow> int \<Rightarrow> bool" where
  "matrix_dim M r c \<longleftrightarrow> num_rows M = r \<and> num_cols M = c \<and> 0 < r \<and> 0 < c \<and> r * c < 2 ^ 31 \<and> int (length (linear M)) = r * c"

definition has_cells :: "'a row_matrix \<Rightarrow> int \<Rightarrow> int \<Rightarrow> (int \<Rightarrow> int \<Rightarrow> 'a) \<Rightarrow> bool" where
  "has_cells M r c v \<longleftrightarrow> matrix_dim M r c \<and> (\<forall>i\<in>{0..<r}. \<forall>j\<in>{0..<c}. cell M i j = v i j)"

lemma cell_index:
  fixes i j r c :: int
  assumes "0 \<le> i" "i < r" "0 \<le> j" "j < c"
  shows "0 \<le> i * c + j" "i * c + j < r * c" "(i * c + j) div c = i" "(i * c + j) mod c = j"
proof -
  have "(i + 1) * c \<le> r * c" using assms by (intro mult_right_mono) auto
  then show "i * c + j < r * c" using assms(4) by (simp add: algebra_simps)
qed (use assms in \<open>simp_all add: div_mult_self3 div_pos_pos_trivial\<close>)

lemma cell_index_inj:
  fixes i j i' j' c :: int
  assumes "0 \<le> i" "0 \<le> i'" "0 \<le> j" "j < c" "0 \<le> j'" "j' < c" "nat (i * c + j) = nat (i' * c + j')"
  shows "i = i' \<and> j = j'"
proof -
  note A = cell_index [of i "i + 1" j c] and B = cell_index [of i' "i' + 1" j' c]
  have "0 \<le> i * c + j" "0 \<le> i' * c + j'" by (rule A(1) B(1); use assms(1-6) in simp)+
  then have e: "i * c + j = i' * c + j'" using assms(7) by (metis nat_0_le)
  have "(i * c + j) div c = i" "(i' * c + j') div c = i'" "(i * c + j) mod c = j" "(i' * c + j') mod c = j'"
    by (rule A(3,4) B(3,4); use assms(1-6) in simp)+
  then show ?thesis unfolding e by metis
qed

lemma GetElement_cell:
  assumes "matrix_dim M r c"
  shows "GetElement M i j = (if 0 \<le> i \<and> i < r \<and> 0 \<le> j \<and> j < c then Inr (cell M i j)
    else throw E_OUT_OF_RANGE ''RowMatrix::GetElement() out of range'')"
proof -
  have "nat (i * c + j) < length (linear M)" if "0 \<le> i" "i < r" "0 \<le> j" "j < c"
    using cell_index(1,2) [OF that] assms by (simp add: matrix_dim_def nat_less_iff)
  then show ?thesis using assms by (auto simp: GetElement_def cell_def matrix_dim_def)
qed

lemma SetElement_cell:
  assumes "matrix_dim M r c" "0 \<le> i" "i < r" "0 \<le> j" "j < c"
  obtains M' where "SetElement M i j x = Inr M'" "matrix_dim M' r c" "cell M' i j = x"
    "\<And>i' j'. 0 \<le> i' \<Longrightarrow> 0 \<le> j' \<Longrightarrow> j' < c \<Longrightarrow> (i', j') \<noteq> (i, j) \<Longrightarrow> cell M' i' j' = cell M i' j'"
proof -
  note I = cell_index [OF assms(2-5)]
  let ?k = "nat (i * c + j)" and ?M = "M\<lparr>linear := (linear M)[nat (i * c + j) := x]\<rparr>"
  have k: "?k < length (linear M)" using I assms by (simp add: matrix_dim_def nat_less_iff)
  have "cell ?M i' j' = cell M i' j'" if "0 \<le> i'" "0 \<le> j'" "j' < c" "(i', j') \<noteq> (i, j)" for i' j'
  proof -
    have "nat (i' * c + j') \<noteq> ?k" using cell_index_inj [of i' i j' c j] that assms by auto
    then show ?thesis using assms(1) by (simp add: cell_def matrix_dim_def)
  qed
  moreover have "SetElement M i j x = Inr ?M" "matrix_dim ?M r c" "cell ?M i j = x"
    using assms k by (auto simp: SetElement_def matrix_dim_def cell_def)
  ultimately show ?thesis using that by blast
qed

subsection \<open>Loops\<close>

lemma for_each_rule:
  assumes "\<And>k s. k < length xs \<Longrightarrow> P k s \<Longrightarrow> \<exists>s'. f (xs ! k) s = Inr s' \<and> P (Suc k) s'" and "P 0 s"
  shows "\<exists>s'. for_each f xs s = Inr s' \<and> P (length xs) s'"
  using assms
proof (induction xs arbitrary: P s)
  case (Cons x xs)
  from Cons.prems(1) [of 0 s] Cons.prems(2) obtain s1 where s1: "f x s = Inr s1" "P 1 s1" by auto
  have "\<exists>s'. f (xs ! k) s = Inr s' \<and> P (Suc (Suc k)) s'" if "k < length xs" "P (Suc k) s" for k s
    using Cons.prems(1) [of "Suc k" s] that by simp
  from Cons.IH [of "\<lambda>k. P (Suc k)", OF this] s1 show ?case by simp
qed simp

lemma for_each_range:
  assumes "\<And>i s. 0 \<le> i \<Longrightarrow> i < n \<Longrightarrow> P i s \<Longrightarrow> \<exists>s'. f i s = Inr s' \<and> P (i + 1) s'" and "P 0 s" and "0 \<le> n"
  shows "\<exists>s'. for_each f [0..n - 1] s = Inr s' \<and> P n s'"
proof -
  have "\<exists>s'. for_each f [0..n - 1] s = Inr s' \<and> P (int (length [0..n - 1])) s'"
  proof (rule for_each_rule)
    fix k s assume k: "k < length [0..n - 1]" and P: "P (int k) s"
    have "[0..n - 1] ! k = int k" using k by (simp add: nth_upto)
    then show "\<exists>s'. f ([0..n - 1] ! k) s = Inr s' \<and> P (int (Suc k)) s'"
      using assms(1) [of "int k" s] P k by (simp add: add.commute)
  qed (use assms(2) in simp)
  then show ?thesis using assms(3) by simp
qed

text \<open>The two loops give every element its value.\<close>

lemma set_elements_spec:
  assumes M: "matrix_dim M r c" and v: "\<And>i j. 0 \<le> i \<Longrightarrow> i < r \<Longrightarrow> 0 \<le> j \<Longrightarrow> j < c \<Longrightarrow> v i j = Inr (w i j)"
  shows "\<exists>M'. set_elements v r c M = Inr M' \<and> has_cells M' r c w"
proof -
  have rc: "0 < r" "0 < c" using M by (simp_all add: matrix_dim_def)
  define P where "P i M \<longleftrightarrow> matrix_dim M r c \<and> (\<forall>i'\<in>{0..<i}. \<forall>j\<in>{0..<c}. cell M i' j = w i' j)" for i M
  define Q where "Q i j M \<longleftrightarrow> P i M \<and> (\<forall>j'\<in>{0..<j}. cell M i j' = w i j')" for i j M
  have row: "\<exists>M'. for_each (\<lambda>col M. andThen (v i col) (SetElement M i col)) [0..c - 1] M = Inr M' \<and> P (i + 1) M'"
    if i: "0 \<le> i" "i < r" and "P i M" for i M
  proof -
    have "\<exists>M'. for_each (\<lambda>col M. andThen (v i col) (SetElement M i col)) [0..c - 1] M = Inr M' \<and> Q i c M'"
    proof (rule for_each_range)
      fix j M assume j: "0 \<le> j" "j < c" and q: "Q i j M"
      then have "matrix_dim M r c" by (simp add: Q_def P_def)
      from SetElement_cell [OF this i j, of "w i j"] obtain M' where
        M': "SetElement M i j (w i j) = Inr M'" "matrix_dim M' r c" "cell M' i j = w i j"
          "\<And>i' j'. 0 \<le> i' \<Longrightarrow> 0 \<le> j' \<Longrightarrow> j' < c \<Longrightarrow> (i', j') \<noteq> (i, j) \<Longrightarrow> cell M' i' j' = cell M i' j'" by metis
      have "{0..<j + 1} = insert j {0..<j}" using j(1) by auto
      then have "Q i (j + 1) M'" using q M'(2-4) i j by (auto simp: Q_def P_def)
      then show "\<exists>M'. andThen (v i j) (SetElement M i j) = Inr M' \<and> Q i (j + 1) M'" using v [OF i j] M'(1) by auto
    qed (use that rc in \<open>auto simp: Q_def\<close>)
    then obtain M' where M': "for_each (\<lambda>col M. andThen (v i col) (SetElement M i col)) [0..c - 1] M = Inr M'" "Q i c M'"
      by blast
    have "{0..<i + 1} = insert i {0..<i}" using i(1) by auto
    then have "P (i + 1) M'" using M'(2) by (simp add: Q_def P_def)
    with M'(1) show ?thesis by blast
  qed
  have "\<exists>M'. set_elements v r c M = Inr M' \<and> P r M'"
    unfolding set_elements_def by (rule for_each_range) (use row M rc in \<open>auto simp: P_def\<close>)
  then show ?thesis by (auto simp: P_def has_cells_def)
qed

lemma sum_loop:
  assumes "\<And>k. 0 \<le> k \<Longrightarrow> k < n \<Longrightarrow> f k = (\<lambda>s. Inr (s + g k))" and "0 \<le> n"
  shows "for_each f [0..n - 1] (0 :: 'a::comm_monoid_add) = Inr (\<Sum>k\<in>{0..<n}. g k)"
proof -
  have "\<exists>s. for_each f [0..n - 1] 0 = Inr s \<and> s = (\<Sum>k\<in>{0..<n}. g k)"
  proof (rule for_each_range)
    fix i s assume i: "0 \<le> i" "i < n" "s = (\<Sum>k\<in>{0..<i}. g k)"
    have "{0..<i + 1} = insert i {0..<i}" using i(1) by auto
    then show "\<exists>s'. f i s = Inr s' \<and> s' = (\<Sum>k\<in>{0..<i + 1}. g k)" using assms(1) [OF i(1,2)] i(3) by (simp add: add.commute)
  qed (use assms(2) in simp_all)
  then show ?thesis by simp
qed

lemma RowMatrix_dim: "0 < r \<Longrightarrow> 0 < c \<Longrightarrow> r * c < 2 ^ 31 \<Longrightarrow> \<exists>M. RowMatrix uninit r c = Inr M \<and> matrix_dim M r c"
  by (simp add: RowMatrix_def matrix_dim_def)

subsection \<open>Properties\<close>

text \<open>C37. The product of a matrix of \<open>r\<close> rows and \<open>n\<close> columns and one of \<open>n\<close> rows and \<open>c\<close> columns, plus a matrix of
  \<open>r\<close> rows and \<open>c\<close> columns, has the elements of the mathematical definition, whatever memory the results are built in;
  and no call throws.\<close>

theorem GEMM_correct:
  fixes a b d :: "int \<Rightarrow> int \<Rightarrow> 'a::semiring_0"
  assumes "has_cells A r n a" "has_cells B n c b" "has_cells D r c d"
  shows "\<exists>M. GEMM uninit (Some A) (Some B) (Some D) = Inr (Some M) \<and>
    has_cells M r c (\<lambda>i j. (\<Sum>k\<in>{0..<n}. a i k * b k j) + d i j)"
proof -
  have D: "matrix_dim A r n" "matrix_dim B n c" "matrix_dim D r c" using assms by (simp_all add: has_cells_def)
  then have dims: "0 < r" "0 < c" "0 < n" "r * c < 2 ^ 31" "num_rows A = r" "num_cols A = n" "num_rows B = n" "num_cols B = c"
    "num_rows D = r" "num_cols D = c" by (simp_all add: matrix_dim_def)
  obtain Z where Z: "RowMatrix uninit r c = Inr Z" "matrix_dim Z r c" using RowMatrix_dim [OF dims(1,2,4)] by blast
  let ?p = "\<lambda>i j. \<Sum>k\<in>{0..<n}. a i k * b k j"
  let ?v = "\<lambda>i j. for_each (\<lambda>common sum. andThen (GetElement A i common) (\<lambda>x. andThen (GetElement B common j)
      (\<lambda>y. Inr (sum + x * y)))) [0..n - 1] 0"
  have "?v i j = Inr (?p i j)" if "0 \<le> i" "i < r" "0 \<le> j" "j < c" for i j
    by (rule sum_loop) (use that dims assms in \<open>auto simp: GetElement_cell [OF D(1)] GetElement_cell [OF D(2)] has_cells_def\<close>)
  from set_elements_spec [OF Z(2), of ?v ?p, OF this] obtain P where
    P: "Matrix_Multiply uninit (Some A) (Some B) = Inr (Some P)" "has_cells P r c ?p"
    using Z(1) by (auto simp: Matrix_Multiply_def Let_def GetRowCount_def Matrix_GetColumnCount_def dims)
  then have PD: "matrix_dim P r c" "num_rows P = r" "num_cols P = c" by (simp_all add: has_cells_def matrix_dim_def)
  let ?u = "\<lambda>i j. andThen (GetElement P i j) (\<lambda>x. andThen (GetElement D i j) (\<lambda>y. Inr (x + y)))"
  have "?u i j = Inr (?p i j + d i j)" if "0 \<le> i" "i < r" "0 \<le> j" "j < c" for i j
    using that P(2) assms(3) by (simp add: GetElement_cell [OF PD(1)] GetElement_cell [OF D(3)] has_cells_def)
  from set_elements_spec [OF Z(2), of ?u "\<lambda>i j. ?p i j + d i j", OF this] show ?thesis
    using Z(1) P(1) by (auto simp: GEMM_def Matrix_Add_def Let_def GetRowCount_def Matrix_GetColumnCount_def dims PD)
qed

text \<open>Operands whose sizes do not fit give a null pointer.\<close>

theorem GEMM_mismatch:
  assumes "matrix_dim A r n" "matrix_dim B n' c" "matrix_dim D r' c'" "n \<noteq> n' \<or> r \<noteq> r' \<or> c \<noteq> c'" "r * c < 2 ^ 31"
  shows "GEMM uninit (Some A) (Some (B :: 'a::semiring_0 row_matrix)) (Some D) = Inr None"
proof (cases "n = n'")
  case True
  have dims: "num_rows A = r" "num_cols A = n" "num_rows B = n'" "num_cols B = c" "num_rows D = r'" "num_cols D = c'"
    "0 < r" "0 < c" "0 < n" using assms by (simp_all add: matrix_dim_def)
  obtain Z where Z: "RowMatrix uninit r c = Inr Z" "matrix_dim Z r c"
    using RowMatrix_dim [OF dims(7,8) assms(5)] by blast
  let ?p = "\<lambda>i j. \<Sum>k\<in>{0..<n}. cell A i k * cell B k j"
  let ?v = "\<lambda>i j. for_each (\<lambda>common sum. andThen (GetElement A i common) (\<lambda>x. andThen (GetElement B common j)
      (\<lambda>y. Inr (sum + x * y)))) [0..n - 1] 0"
  have "?v i j = Inr (?p i j)" if "0 \<le> i" "i < r" "0 \<le> j" "j < c" for i j
    by (rule sum_loop) (use that dims True in \<open>auto simp: GetElement_cell [OF assms(1)] GetElement_cell [OF assms(2)]\<close>)
  from set_elements_spec [OF Z(2), of ?v ?p, OF this] obtain P where
    P: "Matrix_Multiply uninit (Some A) (Some B) = Inr (Some P)" "has_cells P r c ?p"
    using Z(1) True by (auto simp: Matrix_Multiply_def Let_def GetRowCount_def Matrix_GetColumnCount_def dims)
  then have "num_rows P = r" "num_cols P = c" by (simp_all add: has_cells_def matrix_dim_def)
  then show ?thesis
    using P(1) assms(4) True by (auto simp: GEMM_def Matrix_Add_def GetRowCount_def Matrix_GetColumnCount_def dims)
next
  case False
  then show ?thesis
    using assms(1,2) by (simp add: GEMM_def Matrix_Multiply_def Matrix_Add_def GetRowCount_def Matrix_GetColumnCount_def matrix_dim_def)
qed

lemma wrap_small: "0 \<le> i \<Longrightarrow> i < 2 ^ 31 \<Longrightarrow> wrap 32 i = i"
  by (simp add: wrap_def signed_take_bit_int_eq_self)

text \<open>A matrix takes its elements row by row from a vector of the right size, and any other size throws.\<close>

theorem FillFrom_correct:
  assumes M: "matrix_dim M r c" and "length source < 2 ^ 31"
  shows "(int (length source) \<noteq> r * c \<longrightarrow> FillFrom M source = throw E_OUT_OF_RANGE ''RowMatrix::FillFrom() out of range'') \<and>
    (int (length source) = r * c \<longrightarrow> (\<exists>M'. FillFrom M source = Inr M' \<and> has_cells M' r c (\<lambda>i j. source ! nat (i * c + j))))"
proof -
  have d: "num_rows M = r" "num_cols M = c" using M by (simp_all add: matrix_dim_def)
  have "int (length source) < 2 ^ 31" using assms(2) by simp
  then have w: "wrap 32 (int (length source)) = int (length source)" by (simp add: wrap_small)
  let ?v = "\<lambda>row col. let k = nat (c * row + col) in ensure (k < length source) (Inr (source ! k))"
  have "?v i j = Inr (source ! nat (i * c + j))"
    if "int (length source) = r * c" "0 \<le> i" "i < r" "0 \<le> j" "j < c" for i j
    using cell_index(1,2) [OF that(2-5)] that(1) by (simp add: mult.commute nat_less_iff)
  moreover have "FillFrom M source = (if int (length source) \<noteq> r * c
      then throw E_OUT_OF_RANGE ''RowMatrix::FillFrom() out of range'' else set_elements ?v r c M)"
    by (simp only: FillFrom_def d w)
  ultimately show ?thesis using set_elements_spec [OF M, of ?v "\<lambda>i j. source ! nat (i * c + j)"] by simp
qed

text \<open>An empty matrix has \<open>-1\<close> rows and columns: their product is one, and a vector of one element is taken for its
  elements and lost.\<close>

theorem FillFrom_empty_matrix:
  "\<exists>M. RowMatrix uninit 0 5 = Inr M \<and> FillFrom M [x] = Inr M \<and> linear M = []"
  by (simp add: RowMatrix_def FillFrom_def set_elements_def wrap_small)

subsection \<open>Examples\<close>

definition matrix_A :: "32 word row_matrix" where
  "matrix_A = \<lparr>num_rows = 1, num_cols = 2, linear = [3, 4]\<rparr>"

definition matrix_B :: "32 word row_matrix" where
  "matrix_B = \<lparr>num_rows = 2, num_cols = 1, linear = [5, 6]\<rparr>"

definition matrix_D :: "32 word row_matrix" where
  "matrix_D = \<lparr>num_rows = 1, num_cols = 1, linear = [1]\<rparr>"

lemma matrices_dim: "matrix_dim matrix_A 1 2" "matrix_dim matrix_B 2 1" "matrix_dim matrix_D 1 1"
  by (simp_all add: matrix_dim_def matrix_A_def matrix_B_def matrix_D_def)

theorem GEMM_correct_witness:
  "\<exists>M. GEMM (\<lambda>_. 7) (Some matrix_A) (Some matrix_B) (Some matrix_D) = Inr (Some M) \<and> GetElement M 0 0 = Inr 40"
proof -
  have c: "has_cells M r c (cell M)" if "matrix_dim M r c" for M :: "32 word row_matrix" and r c
    using that by (simp add: has_cells_def)
  obtain M where M: "GEMM (\<lambda>_. 7) (Some matrix_A) (Some matrix_B) (Some matrix_D) = Inr (Some M)"
    "has_cells M 1 1 (\<lambda>i j. (\<Sum>k\<in>{0..<2}. cell matrix_A i k * cell matrix_B k j) + cell matrix_D i j)"
    using GEMM_correct [OF c [OF matrices_dim(1)] c [OF matrices_dim(2)] c [OF matrices_dim(3)]] by blast
  have "{0..<2} = {0, 1::int}" by auto
  moreover have "cell M 0 0 = (\<Sum>k\<in>{0..<2}. cell matrix_A 0 k * cell matrix_B k 0) + cell matrix_D 0 0"
    using M(2) by (simp add: has_cells_def)
  ultimately have "cell M 0 0 = 40" by (simp add: cell_def matrix_A_def matrix_B_def matrix_D_def)
  then show ?thesis using M by (auto simp: has_cells_def GetElement_cell)
qed

theorem GEMM_mismatch_witness: "GEMM (\<lambda>_. 7) (Some matrix_A) (Some matrix_D) (Some matrix_D) = Inr None"
  using GEMM_mismatch [OF matrices_dim(1,3,3)] by simp

theorem FillFrom_correct_witness:
  "FillFrom matrix_D [1, 2] = throw E_OUT_OF_RANGE ''RowMatrix::FillFrom() out of range'' \<and>
   (\<exists>M. FillFrom matrix_A [8, 9] = Inr M \<and> GetElement M 0 1 = Inr 9)"
proof -
  have "int (length [1, 2 :: 32 word]) \<noteq> 1 * 1" "int (length [8, 9 :: 32 word]) = 1 * 2" by simp_all
  moreover obtain M where "FillFrom matrix_A [8, 9] = Inr M" "has_cells M 1 2 (\<lambda>i j. [8, 9] ! nat (i * 2 + j))"
    using FillFrom_correct [OF matrices_dim(1), of "[8, 9]"] by auto
  ultimately show ?thesis
    using FillFrom_correct [OF matrices_dim(3), of "[1, 2]"] by (auto simp: has_cells_def GetElement_cell)
qed

end
