(* ===== verification/StringUtil.thy ===== *)
theory StringUtil
  imports Values
begin

section \<open>String utilities\<close>

text \<open>
  \<^verbatim>\<open>src/common/util/string_util.cpp\<close>, but for \<open>FormatSize\<close>, which prints doubles, and \<open>Format\<close>, which is
  \<open>vsnprintf\<close>. A string is a list of characters; the two functions named \<open>Split\<close> are \<open>Split_char\<close> and
  \<open>Split_string\<close>. \<^term>\<open>None\<close> is an access behind the end of a string, an exception of the library or the end of
  the fuel.
\<close>

subsection \<open>What the functions use of \<open>std::string\<close>\<close>

text \<open>\<open>haystack.find(needle, pos)\<close>.\<close>

definition find_from :: "string \<Rightarrow> string \<Rightarrow> nat \<Rightarrow> nat option" where
  "find_from haystack needle pos =
     List.find (\<lambda>p. take (length needle) (drop p haystack) = needle) [pos..<Suc (length haystack) - length needle]"

text \<open>\<open>std::equal\<close> with an end for the first range only.\<close>

fun equal_range :: "string \<Rightarrow> string \<Rightarrow> bool option" where
  "equal_range [] s = Some True"
| "equal_range (p # ps) [] = None"
| "equal_range (p # ps) (c # cs) = (if p = c then equal_range ps cs else Some False)"

definition toupper :: "char \<Rightarrow> char" where
  "toupper c = (if 97 \<le> (of_char c :: nat) \<and> (of_char c :: nat) \<le> 122 then char_of (of_char c - (32 :: nat)) else c)"

subsection \<open>The functions\<close>

definition Contains :: "string \<Rightarrow> string \<Rightarrow> bool" where
  "Contains haystack needle \<longleftrightarrow> find_from haystack needle 0 \<noteq> None"

definition RTrim :: "string \<Rightarrow> string" where
  "RTrim str = rev (dropWhile isspace (rev str))"

definition Indent :: "int \<Rightarrow> string option" where
  "Indent num_indent = do { assert_that (0 \<le> num_indent); Some (replicate (nat num_indent) CHR 0x20) }"

definition StartsWith :: "string \<Rightarrow> string \<Rightarrow> bool option" where
  "StartsWith str prefix = equal_range prefix str"

definition EndsWith :: "string \<Rightarrow> string \<Rightarrow> bool option" where
  "EndsWith str suffix = (if length suffix > length str then Some False else equal_range (rev suffix) (rev str))"

definition Repeat :: "string \<Rightarrow> nat \<Rightarrow> string" where
  "Repeat str n = (if n = 0 \<or> str = [] then [] else concat (replicate (nat (wrap 32 (int n))) str))"

text \<open>\<open>std::getline\<close> reads to the delimiter or the end, and fails when nothing is left.\<close>

function (sequential) Split_char :: "string \<Rightarrow> char \<Rightarrow> string list" where
  "Split_char [] delimiter = []"
| "Split_char str delimiter =
     takeWhile (\<lambda>c. c \<noteq> delimiter) str # Split_char (tl (dropWhile (\<lambda>c. c \<noteq> delimiter) str)) delimiter"
  by pat_completeness auto
termination
  by (relation "measure (\<lambda>(str, delimiter). length str)")
    (auto simp: less_Suc_eq_le intro: le_trans [OF diff_le_self length_dropWhile_le])

fun join_rest :: "string list \<Rightarrow> string \<Rightarrow> string" where
  "join_rest [] separator = []"
| "join_rest (x # xs) separator = separator @ x @ join_rest xs separator"

definition Join :: "string list \<Rightarrow> string \<Rightarrow> string" where
  "Join input separator = (case input of [] \<Rightarrow> [] | x # xs \<Rightarrow> x @ join_rest xs separator)"

definition Prefix :: "string \<Rightarrow> string \<Rightarrow> string" where
  "Prefix str prefix = (case Split_char str CHR 0x0A of
     [] \<Rightarrow> []
   | line # lines \<Rightarrow> prefix @ line @ concat (map (\<lambda>l. CHR 0x0A # prefix @ l) lines))"

definition Bold :: "string \<Rightarrow> string" where
  "Bold str = (let set_plain_text = CHR 0x1B # ''[0;0m''; set_bold_text = CHR 0x1B # ''[0;1m'' in
     set_bold_text @ str @ set_plain_text)"

definition Upper :: "string \<Rightarrow> string" where
  "Upper str = map toupper str"

definition Lower :: "string \<Rightarrow> string" where
  "Lower str = map tolower str"

text \<open>The loop of the second \<open>Split\<close> takes fuel: it need not end.\<close>

fun split_loop :: "nat \<Rightarrow> string \<Rightarrow> string \<Rightarrow> nat \<Rightarrow> string list option" where
  "split_loop 0 input split last_pos = None"
| "split_loop (Suc fuel) input split last_pos =
     (if last_pos \<le> length input then do {
        let next = (case find_from input split last_pos of None \<Rightarrow> length input | Some p \<Rightarrow> p);
        let substr = take (next - last_pos) (drop last_pos input);
        rest \<leftarrow> split_loop fuel input split (next + length split);
        Some (if substr \<noteq> [] then substr # rest else rest)
      } else Some [])"

definition Split_string :: "nat \<Rightarrow> string \<Rightarrow> string \<Rightarrow> string list option" where
  "Split_string fuel input split = split_loop fuel input split 0"

definition Strip :: "string \<Rightarrow> char \<Rightarrow> string" where
  "Strip str c = filter (\<lambda>x. x \<noteq> c) str"

subsection \<open>Properties\<close>

text \<open>A search finds the first occurrence.\<close>

lemma find_from_None: "find_from s t i = None \<longleftrightarrow> (\<forall>p. i \<le> p \<and> p + length t \<le> length s \<longrightarrow> take (length t) (drop p s) \<noteq> t)"
  by (auto simp: find_from_def find_None_iff)

lemma find_from_Some:
  assumes "find_from s t i = Some p"
  shows "i \<le> p" "p + length t \<le> length s" "take (length t) (drop p s) = t"
    "i \<le> q \<Longrightarrow> q < p \<Longrightarrow> take (length t) (drop q s) \<noteq> t"
proof -
  from assms obtain k where k: "k < Suc (length s) - length t - i" "p = i + k" "take (length t) (drop p s) = t"
    "\<forall>j<k. take (length t) (drop (i + j) s) \<noteq> t"
    by (auto simp: find_from_def find_Some_iff)
  show "i \<le> p" "p + length t \<le> length s" "take (length t) (drop p s) = t" using k by auto
  show "take (length t) (drop q s) \<noteq> t" if "i \<le> q" "q < p"
    using k(4) [rule_format, of "q - i"] that k(2) by simp
qed

lemma Contains_iff: "Contains s t \<longleftrightarrow> (\<exists>as bs. s = as @ t @ bs)"
proof
  assume "Contains s t"
  then obtain p where "find_from s t 0 = Some p" by (auto simp: Contains_def)
  note P = find_from_Some [OF this]
  have "s = take p s @ t @ drop (length t) (drop p s)" using P(3) by (metis append_take_drop_id)
  then show "\<exists>as bs. s = as @ t @ bs" by blast
next
  assume "\<exists>as bs. s = as @ t @ bs"
  then obtain as bs where s: "s = as @ t @ bs" by blast
  then have "length as + length t \<le> length s" "take (length t) (drop (length as) s) = t" by simp_all
  then have "find_from s t 0 \<noteq> None" using find_from_None [of s t 0] by blast
  then show "Contains s t" by (simp add: Contains_def)
qed

text \<open>The comparison of \<open>StartsWith\<close> reads behind the end of a string that is a proper start of the prefix.\<close>

theorem StartsWith_cases:
  "StartsWith str prefix = (if \<exists>bs. str = prefix @ bs then Some True
     else if \<exists>c cs. prefix = str @ c # cs then None else Some False)"
  unfolding StartsWith_def by (induction prefix str rule: equal_range.induct) auto

theorem EndsWith_correct: "EndsWith str suffix = Some (\<exists>as. str = as @ suffix)"
proof (cases "length suffix > length str")
  case False
  have "\<not> (\<exists>c cs. rev suffix = rev str @ c # cs)" using False by (metis add_Suc_right length_Cons length_append length_rev less_add_Suc1 add.commute)
  moreover have "(\<exists>bs. rev str = rev suffix @ bs) \<longleftrightarrow> (\<exists>as. str = as @ suffix)"
    by (metis rev_append rev_rev_ident)
  ultimately show ?thesis using False StartsWith_cases [of "rev str" "rev suffix"] by (simp add: EndsWith_def StartsWith_def)
qed (auto simp: EndsWith_def)

lemma at_delimiter:
  "c \<notin> set x \<Longrightarrow> takeWhile (\<lambda>d. d \<noteq> c) (x @ c # s) = x \<and> dropWhile (\<lambda>d. d \<noteq> c) (x @ c # s) = c # s \<and>
    takeWhile (\<lambda>d. d \<noteq> c) x = x \<and> dropWhile (\<lambda>d. d \<noteq> c) x = []"
  by (induction x) auto

lemma Split_char_line:
  assumes "c \<notin> set x"
  shows "Split_char (x @ c # s) c = x # Split_char s c" "x \<noteq> [] \<Longrightarrow> Split_char x c = [x]"
proof -
  have t: "takeWhile (\<lambda>d. d \<noteq> c) (x @ c # s) = x" "dropWhile (\<lambda>d. d \<noteq> c) (x @ c # s) = c # s"
    "takeWhile (\<lambda>d. d \<noteq> c) x = x" "dropWhile (\<lambda>d. d \<noteq> c) x = []"
    using at_delimiter [OF assms] by blast+
  obtain a as where a: "x @ c # s = a # as" by (cases "x @ c # s") auto
  have "Split_char (a # as) c = takeWhile (\<lambda>d. d \<noteq> c) (a # as) # Split_char (tl (dropWhile (\<lambda>d. d \<noteq> c) (a # as))) c"
    by (rule Split_char.simps(2))
  then show "Split_char (x @ c # s) c = x # Split_char s c" unfolding a [symmetric] t by simp
  show "Split_char x c = [x]" if x: "x \<noteq> []"
  proof -
    obtain b bs where b: "x = b # bs" using x by (cases x) auto
    have "Split_char (b # bs) c = takeWhile (\<lambda>d. d \<noteq> c) (b # bs) # Split_char (tl (dropWhile (\<lambda>d. d \<noteq> c) (b # bs))) c"
      by (rule Split_char.simps(2))
    then show ?thesis unfolding b [symmetric] t by simp
  qed
qed

text \<open>Lines joined with a character that none of them contains are split into the same lines, but for an empty last
  line, which the split drops.\<close>

theorem Split_Join:
  assumes "\<forall>x\<in>set xs. c \<notin> set x" and "xs \<noteq> []"
  shows "Split_char (Join xs [c]) c = (if last xs = [] then butlast xs else xs)"
proof -
  have "Split_char (x @ join_rest ys [c]) c = (if last (x # ys) = [] then butlast (x # ys) else x # ys)"
    if "\<forall>y\<in>set (x # ys). c \<notin> set y" for x ys
    using that
  proof (induction ys arbitrary: x)
    case Nil
    then show ?case by (cases "x = []") (simp_all add: Split_char_line(2))
  next
    case (Cons y ys)
    then show ?case by (simp add: Split_char_line(1))
  qed
  moreover obtain x ys where "xs = x # ys" using assms(2) by (cases xs) auto
  ultimately show ?thesis using assms(1) by (simp add: Join_def)
qed

theorem Split_Join_witness: "Split_char ''ab,,c'' CHR 0x2C = [''ab'', [], ''c'']"
  using Split_Join [of "[''ab'', [], ''c'']" "CHR 0x2C"] by (simp add: Join_def)

text \<open>The text between two separators found one after the other contains none.\<close>

lemma piece_clean:
  assumes t: "t \<noteq> []" and i: "i \<le> length s"
  defines "n \<equiv> (case find_from s t i of None \<Rightarrow> length s | Some p \<Rightarrow> p)"
  shows "i \<le> n" "n \<le> length s" "\<not> Contains (take (n - i) (drop i s)) t"
proof -
  show n: "i \<le> n" "n \<le> length s"
    using i find_from_Some(1,2) [of s t i] unfolding n_def by (auto split: option.splits)
  show "\<not> Contains (take (n - i) (drop i s)) t"
  proof
    assume "Contains (take (n - i) (drop i s)) t"
    then obtain as bs where p: "take (n - i) (drop i s) = as @ t @ bs" by (auto simp: Contains_iff)
    then have "length (as @ t @ bs) = n - i" using n by (metis length_take length_drop min.absorb2 diff_le_mono)
    then have l: "i + length as + length t \<le> n" using n(1) by simp
    have "take (length t) (drop (length as) (take (n - i) (drop i s))) = t" by (simp add: p)
    then have q: "take (length t) (drop (i + length as) s) = t"
      using l by (simp add: drop_take min_def add.commute split: if_splits)
    show False
    proof (cases "find_from s t i")
      case None
      then show False using q l n(2) find_from_None [of s t i] by auto
    next
      case (Some p)
      then have "p = n" by (simp add: n_def)
      moreover have "i + length as < n" using l t by (cases t) auto
      ultimately show False using find_from_Some(4) [OF Some, of "i + length as"] q by simp
    qed
  qed
qed

lemma split_loop_spec:
  "split \<noteq> [] \<Longrightarrow> length input + 2 \<le> fuel + pos \<Longrightarrow> 0 < fuel \<Longrightarrow>
    \<exists>ps. split_loop fuel input split pos = Some ps \<and> (\<forall>p\<in>set ps. p \<noteq> [] \<and> \<not> Contains p split)"
proof (induction fuel arbitrary: pos)
  case (Suc fuel)
  show ?case
  proof (cases "pos \<le> length input")
    case True
    let ?n = "case find_from input split pos of None \<Rightarrow> length input | Some p \<Rightarrow> p"
    note P = piece_clean [OF Suc.prems(1) True]
    have s: "0 < length split" using Suc.prems(1) by simp
    have "length input + 2 \<le> fuel + (?n + length split)" "0 < fuel" using Suc.prems(2) P(1) True s by linarith+
    from Suc.IH [OF Suc.prems(1) this] obtain ps where
      "split_loop fuel input split (?n + length split) = Some ps" "\<forall>p\<in>set ps. p \<noteq> [] \<and> \<not> Contains p split" by blast
    then show ?thesis using True P(3) by (simp add: Let_def)
  qed simp
qed simp

text \<open>Splitting by a string that is not empty ends after at most one round for each character and two more, and no
  piece is empty or contains the separator; splitting by the empty string never ends.\<close>

theorem Split_string_ends:
  assumes "split \<noteq> []" and "length input + 2 \<le> fuel"
  shows "\<exists>ps. Split_string fuel input split = Some ps \<and> (\<forall>p\<in>set ps. p \<noteq> [] \<and> \<not> Contains p split)"
  unfolding Split_string_def by (rule split_loop_spec) (use assms in auto)

theorem Split_string_ends_witness:
  "\<exists>ps. Split_string 9 ''a::b'' ''::'' = Some ps \<and> ps = [''a'', ''b''] \<and> list_all (\<lambda>p. \<not> Contains p ''::'') ps"
proof -
  obtain ps where "Split_string 9 ''a::b'' ''::'' = Some ps" "\<forall>p\<in>set ps. p \<noteq> [] \<and> \<not> Contains p ''::''"
    using Split_string_ends [of "''::''" "''a::b''" 9] by auto
  moreover have "Split_string 9 ''a::b'' ''::'' = Some [''a'', ''b'']" by code_simp
  ultimately show ?thesis by (simp add: list_all_iff)
qed

lemma split_empty: "pos \<le> length input \<Longrightarrow> split_loop fuel input [] pos = None"
proof (induction fuel arbitrary: pos)
  case (Suc fuel)
  have "find_from input [] pos = Some pos"
    using upt_conv_Cons [of pos "Suc (length input)"] Suc.prems by (simp add: find_from_def del: upt_Suc)
  then show ?case using Suc by simp
qed simp

theorem Split_string_empty_diverges: "Split_string fuel input [] = None"
  by (simp add: Split_string_def split_empty)

text \<open>Trimming and stripping.\<close>

theorem RTrim_correct: "\<exists>w. str = RTrim str @ w \<and> (\<forall>c\<in>set w. isspace c) \<and> (RTrim str = [] \<or> \<not> isspace (last (RTrim str)))"
proof -
  let ?r = "rev str"
  have "str = RTrim str @ rev (takeWhile isspace ?r)"
    unfolding RTrim_def by (metis rev_append rev_rev_ident takeWhile_dropWhile_id)
  moreover have "\<forall>c\<in>set (rev (takeWhile isspace ?r)). isspace c" by (auto dest: set_takeWhileD)
  moreover have "RTrim str = [] \<or> \<not> isspace (last (RTrim str))"
    using hd_dropWhile [of isspace ?r] by (auto simp: RTrim_def last_rev)
  ultimately show ?thesis by blast
qed

end
