(* ===== verification/Spec2Isabelle.thy ===== *)
theory Spec2Isabelle
  imports QueryExamples LockManagerSpec Latch TransactionExamples ParallelPoolSpec Modifications QueryPlans ExpressionTypes HeaderPage BPlusTreePages Matrices StringUtil
begin

text \<open>
  \<^bold>\<open>BusTub: a teaching database, from the disk to the queries.\<close>

  \<^bold>\<open>The program.\<close> Pages of bytes are kept in a file (\<^verbatim>\<open>storage/disk\<close>) and cached in frames by a buffer pool, which asks a
  replacer for a victim when it has no free frame (\<^verbatim>\<open>buffer\<close>). Everything else lives in pages and is reached through the
  pool: extendible hash tables (\<^verbatim>\<open>container/hash\<close>), tables as lists of slotted pages (\<^verbatim>\<open>storage/table\<close>), the header page
  with the roots of the indexes. Tuples are bytes made from typed values by a schema (\<^verbatim>\<open>type\<close>, \<^verbatim>\<open>catalog\<close>). Executors pull
  tuples from each other, evaluate expressions and change tables; a factory builds them from a plan and the engine runs them
  (\<^verbatim>\<open>execution\<close>). Transactions record what they write; a manager commits or undoes them, and a lock manager keeps them apart by
  wound-wait (\<^verbatim>\<open>concurrency\<close>). All paths below are under \<^verbatim>\<open>src/src\<close> and \<^verbatim>\<open>src/src/include\<close>.

  \<^bold>\<open>How code becomes definitions.\<close> A class is a record, an enumeration a datatype, a method a function that takes the state and
  returns it changed. A failed \<^verbatim>\<open>BUSTUB_ASSERT\<close>, a null dereference or an access outside an array is \<^term>\<open>None\<close> below the type
  system, and the error \<open>Crash\<close> above it, where thrown exceptions are errors too (\<open>error\<close> in \<open>Values\<close>). Numbers of fixed size are
  words where their width matters; \<^verbatim>\<open>size_t\<close> indexes are natural numbers with a check of the bounds. Code that other code calls
  through a pointer (a pool, the child of an executor, an index) is a record of operations, an argument of the caller. The methods
  of the lock manager and of the latch, which may wait, are split at the wait into a step up to it and one from the wake-up on.

  \<^bold>\<open>Theories and sources.\<close>
  \<^item> \<open>Prelude\<close>: words, vectors with bounds, shared lemmas. \<open>Strings\<close>, \<open>StringUtil\<close>: \<^verbatim>\<open>to_string\<close>, \<^verbatim>\<open>strtol\<close>;
    \<^verbatim>\<open>common/util/string_util.cpp\<close>.
  \<^item> \<open>Replacer\<close>: \<^verbatim>\<open>buffer/lru_replacer.cpp\<close>, \<^verbatim>\<open>clock_replacer.cpp\<close>. \<open>DiskManager\<close>: \<^verbatim>\<open>storage/disk/disk_manager.cpp\<close>. \<open>BufferPool\<close>,
    \<open>BufferPoolSpec\<close>: \<^verbatim>\<open>buffer/buffer_pool_manager_instance.cpp\<close>. \<open>ParallelPool\<close>, \<open>ParallelPoolSpec\<close>:
    \<^verbatim>\<open>buffer/parallel_buffer_pool_manager.cpp\<close>.
  \<^item> \<open>DirectoryPage\<close>, \<open>BucketPage\<close>: \<^verbatim>\<open>storage/page/hash_table_directory_page.cpp\<close>, \<^verbatim>\<open>hash_table_bucket_page.cpp\<close>. \<open>HashTable\<close>,
    \<open>HashTableSpec\<close>, \<open>Rehash\<close>, \<open>HashTablePool\<close>: \<^verbatim>\<open>container/hash/extendible_hash_table.cpp\<close>.
  \<^item> \<open>HeaderPage\<close>: \<^verbatim>\<open>storage/page/header_page.cpp\<close>. \<open>BPlusTreePages\<close>: \<^verbatim>\<open>storage/page/b_plus_tree_*page.{h,cpp}\<close>.
  \<^item> \<open>Values\<close>, \<open>Arithmetic\<close>, \<open>Casts\<close>, \<open>Comparison\<close>, \<open>ValueFactory\<close>: \<^verbatim>\<open>type\<close>. \<open>Schemas\<close>, \<open>Tuples\<close>, \<open>Catalog\<close>: \<^verbatim>\<open>catalog\<close> and
    \<^verbatim>\<open>storage/table/tuple.cpp\<close>. \<open>Expressions\<close>, \<open>ExpressionTypes\<close>: \<^verbatim>\<open>execution/expressions\<close>.
  \<^item> \<open>TablePage\<close>, \<open>TablePageSpec\<close>: \<^verbatim>\<open>storage/page/table_page.cpp\<close>. \<open>TableHeap\<close>, \<open>TableHeapSpec\<close>, \<open>TableScan\<close>:
    \<^verbatim>\<open>storage/table/table_heap.cpp\<close>, \<^verbatim>\<open>table_iterator.cpp\<close>. \<open>Indexes\<close>: \<^verbatim>\<open>storage/index\<close> without the B+ tree.
  \<^item> \<open>Transactions\<close>, \<open>TransactionManager\<close>, \<open>TransactionSpec\<close>, \<open>TransactionExamples\<close>: \<^verbatim>\<open>concurrency/transaction.h\<close>,
    \<^verbatim>\<open>transaction_manager.cpp\<close>. \<open>LockManager\<close>, \<open>LockManagerSpec\<close>: \<^verbatim>\<open>concurrency/lock_manager.cpp\<close>. \<open>Latch\<close>: \<^verbatim>\<open>common/rwlatch.h\<close>.
  \<^item> \<open>Executors\<close>, \<open>ExecutorsSpec\<close>: the executors that only read their children. \<open>TableExecutors\<close>, \<open>TableExecutorsSpec\<close>: scan, insertion,
    update, deletion. \<open>Aggregates\<close>, \<open>Queries\<close>, \<open>Modifications\<close>, with \<open>ExampleDatabase\<close> and \<open>QueryExamples\<close>: statements over tables in a
    pool. \<open>ExecutorFactory\<close>, \<open>QueryPlans\<close>: \<^verbatim>\<open>execution/plans\<close>, \<^verbatim>\<open>executor_factory.cpp\<close>, \<^verbatim>\<open>execution_engine.h\<close>.
  \<^item> \<open>Matrices\<close>: \<^verbatim>\<open>primer/p0_starter.h\<close>.

  \<^bold>\<open>Interfaces.\<close> The locales \<open>buffer_pool\<close> (\<open>BufferPoolSpec\<close>) and \<open>page_pool\<close> (\<open>TableHeapSpec\<close>) state what a pool promises to its clients;
  hash tables, tables, scans and plans are verified against them, and they are interpreted on the instance (\<open>BufferPoolSpec\<close>,
  \<open>TableHeapSpec\<close>) and on the parallel pool (\<open>ParallelPoolSpec\<close>). The locale \<open>producer\<close> (\<open>ExecutorsSpec\<close>) states what an executor
  promises: every operator is shown to keep it if its children do, the sequential scan keeps it over a pool, and \<open>QueryPlans\<close>
  composes the operators by induction on the plan.

  \<^bold>\<open>What the lemmas show.\<close>
  \<^item> Storage: the pool invariant is kept by every operation but the deletion of a resident unpinned page; through evictions and
    write backs a pool, and the parallel pool, is a map from page numbers to bytes. A table page is a map from slots to tuples although
    tuples move, a table is a map from record identifiers to tuples with a deletion flag, and a scan enumerates it.
  \<^item> Hash tables: search, insertion into a bucket with room and removal from a bucket that keeps a pair, through the pool; a
    round of a split keeps the directory in shape and loses no pair, if the depths differ by at most one.
  \<^item> Types: exact integer arithmetic or an error, round trips of values and of tuples, type soundness of expressions.
  \<^item> Concurrency: exclusion, two-phase locking and wake-ups of the lock manager in histories of interleaved calls; exclusion and no
    deadlock of the latch; commit and abort against the map of the table.
  \<^item> Queries: scans, joins, aggregations, deletions, updates and whole plans against lists of rows defined without the executors.
  \<^item> Lemmas without a number record where the code does not do what it means to: \<open>DeletePgImp_frame_in_two_lists\<close>,
    \<open>split_misses_slots\<close>, \<open>wounded_lock_is_counted_twice\<close>, \<open>wound_wait_deadlock\<close>, \<open>committed_gets_lock\<close>,
    \<open>abort_keeps_shorter_tuple\<close>, \<open>hash_join_repeated_key\<close>, \<open>sum_can_be_null\<close>, \<open>insert_after_missing\<close> and others.

  \<^bold>\<open>Bounds and fuel.\<close> Loops that follow links in pages or wait for the end of an iteration have a counter. It is enough when it exceeds:
  the pages of the table (\<open>insert_loop\<close>, \<open>begin_loop\<close>, \<open>next_loop\<close>), the rows of the children (\<open>execute_loop\<close>, \<open>engine_loop\<close> and the loops of
  the executors; the properties state these bounds), the pairs of a bucket (\<open>rehash\<close>, called with one more), the instances of a
  parallel pool (\<open>new_page_loop\<close>, called with that number), the length of a string by two (\<open>Split_string\<close>). Every round of a
  split raises a local depth that is at most 9, and a merge ends after at most 513 rounds; no property rests on these two
  counters. \<open>execute_loop\<close> is the loop of the engine without its handler, for statements whose calls succeed;
  \<open>engine_loop\<close> is the loop with the handler, and \<open>engine_loop_returns\<close> relates them.

  \<^bold>\<open>Parameters.\<close> \<^verbatim>\<open>common/config.h\<close> is not in the repository: page size and invalid numbers are the record \<open>config\<close>. Floating-point
  operations are \<open>double_ops\<close>, the hash function is a field of a hash table, the traversal order of a \<^verbatim>\<open>std::unordered_map\<close> or set is a
  function \<open>order\<close>, freshly allocated memory and the addresses of tables are arguments.

  \<^bold>\<open>Not modelled.\<close> The B+ tree itself, logging and recovery are stubs in the source, the table generator serves the tests. Device
  failures, printing, and the code behind \<^verbatim>\<open>enable_logging\<close>, which nothing sets, are left out, as are \<^verbatim>\<open>FormatSize\<close> and \<^verbatim>\<open>Format\<close>.
  Calls of the pool, the tables and the executors run one at a time: the page latches order them and are no part of the state.
  Condition variables wake up only when notified. Who frees shared memory is not followed. Pin counts are natural numbers. The
  overflow of \<^verbatim>\<open>int\<close> and \<^verbatim>\<open>int64_t\<close> arithmetic on values is undefined in the source and wraps in the model; no property depends on it.
\<close>

end
